(* ===== verification/Prelude.thy ===== *)
theory Prelude
  imports Main "HOL-Library.Word"
begin

text \<open>
  Shared ground of the development: the widths of the machine types of
  \<^verbatim>\<open>include/squirrel.h\<close> (the \<^verbatim>\<open>_SQ64\<close>, non-Unicode, single-precision
  build), the named collections the component theories add their facts to, and
  the lemmas on lists, words and successor chains that several components use.
\<close>

unbundle bit_operations_syntax

type_synonym sqint = "64 word"      \<comment> \<open>SQInteger, two's complement\<close>
type_synonym sqhash = "64 word"     \<comment> \<open>SQHash\<close>
type_synonym sqfloat = "32 word"    \<comment> \<open>SQFloat, as its IEEE single pattern\<close>
type_synonym addr = "64 word"       \<comment> \<open>the address of a heap object\<close>

named_theorems inv_intros \<open>introduction rules of component invariants\<close>
named_theorems step_simps \<open>one-step equations of operations\<close>
named_theorems frame_simps \<open>what an operation leaves unchanged\<close>

section \<open>Words\<close>

lemma unat_and_of_nat_less:
  fixes h :: "'a::len word"
  assumes "0 < n"
  shows "unat (h AND of_nat (n - 1)) < n"
proof -
  have "h AND of_nat (n - 1) \<le> (of_nat (n - 1) :: 'a word)"
    by (rule word_and_le1)
  then have "unat (h AND of_nat (n - 1)) \<le> unat (of_nat (n - 1) :: 'a word)"
    by (simp add: word_le_nat_alt)
  also have "\<dots> \<le> n - 1" by (simp add: unat_of_nat)
  finally show ?thesis using assms by simp
qed

lemma unat_and_mask_mod:
  fixes h :: "'a::len word"
  assumes "k < LENGTH('a)"
  shows "unat (h AND of_nat (2 ^ k - 1)) = unat h mod 2 ^ k"
proof -
  have m: "(of_nat (2 ^ k - 1) :: 'a word) = mask k"
    by (simp add: mask_eq_exp_minus_1 of_nat_diff)
  have "unat (take_bit k h) = take_bit k (unat h)"
    by (simp only: unsigned_take_bit_eq)
  then show ?thesis
    by (simp only: m take_bit_eq_mask [symmetric] take_bit_eq_mod [of k "unat h"])
qed

section \<open>Lists\<close>

lemma nth_list_update_cases:
  "i < length xs \<Longrightarrow> xs[i := x] ! j = (if i = j then x else xs ! j)"
  by (simp add: nth_list_update)

lemma option_eqI: "(\<And>r. a = Some r \<longleftrightarrow> b = Some r) \<Longrightarrow> a = b"
  by (cases a) (auto, metis option.exhaust)

lemma distinct_concat_map:
  assumes "distinct is" and "\<And>i. i \<in> set is \<Longrightarrow> distinct (f i)"
    and "\<And>i j. i \<in> set is \<Longrightarrow> j \<in> set is \<Longrightarrow> i \<noteq> j \<Longrightarrow> set (f i) \<inter> set (f j) = {}"
  shows "distinct (concat (map f is))"
  using assms
proof (induction "is")
  case (Cons i "is")
  have "set (f i) \<inter> set (f j) = {}" if "j \<in> set is" for j
    using Cons.prems(3) [of i j] Cons.prems(1) that by auto
  with Cons show ?case by auto
qed simp

section \<open>Successor chains\<close>

text \<open>
  Several structures of the program are arrays of nodes linked by a next field.
  For a successor function \<open>nx\<close>, \<open>chain nx a b\<close> says that following it from
  \<open>a\<close> arrives at \<open>b\<close>.
\<close>

inductive chain :: "('a \<Rightarrow> 'a option) \<Rightarrow> 'a \<Rightarrow> 'a \<Rightarrow> bool" for nx where
  chain_refl [intro, simp]: "chain nx a a"
| chain_step [intro]: "nx a = Some b \<Longrightarrow> chain nx b c \<Longrightarrow> chain nx a c"

inductive_cases chain_elim: "chain nx a b"

lemma chain_trans [trans]: "chain nx a b \<Longrightarrow> chain nx b c \<Longrightarrow> chain nx a c"
  by (induction rule: chain.induct) auto

lemma chain_snoc: "chain nx a b \<Longrightarrow> nx b = Some c \<Longrightarrow> chain nx a c"
  by (blast intro: chain_trans)

lemma chain_first: "chain nx a b \<Longrightarrow> a \<noteq> b \<Longrightarrow> \<exists>c. nx a = Some c \<and> chain nx c b"
  by (auto elim: chain_elim)

lemma chain_last: "chain nx a b \<Longrightarrow> a \<noteq> b \<Longrightarrow> \<exists>p. chain nx a p \<and> nx p = Some b"
proof (induction rule: chain.induct)
  case (chain_refl a)
  then show ?case by simp
next
  case (chain_step a b c)
  show ?case
  proof (cases "b = c")
    case True
    with chain_step show ?thesis by (intro exI [of _ a]) auto
  next
    case False
    with chain_step.IH obtain p where "chain nx b p" "nx p = Some c" by blast
    with chain_step.hyps(1) show ?thesis by blast
  qed
qed

lemma chain_rank:
  assumes "chain nx a b" and "\<And>x y. nx x = Some y \<Longrightarrow> r y < (r x :: nat)"
  shows "r b \<le> r a"
  using assms(1)
proof (induction rule: chain.induct)
  case (chain_step a b c)
  then have "r b < r a" using assms(2) by blast
  with chain_step.IH show ?case by simp
qed simp

lemma chain_mono:
  assumes "chain nx a b" and "\<And>x y. nx x = Some y \<Longrightarrow> nx' x = Some y"
  shows "chain nx' a b"
  using assms(1) by (induction rule: chain.induct) (auto intro: assms(2))

lemma chain_linear:
  "chain nx a b \<Longrightarrow> chain nx a c \<Longrightarrow> chain nx b c \<or> chain nx c b"
proof (induction rule: chain.induct)
  case (chain_step a b d)
  show ?case
  proof (cases "a = c")
    case True
    with chain_step.hyps show ?thesis by blast
  next
    case False
    with chain_step.prems obtain e where "nx a = Some e" "chain nx e c"
      by (blast dest: chain_first)
    with chain_step show ?thesis by simp
  qed
qed simp

section \<open>Linked lists\<close>

text \<open>\<open>list_at nx p xs\<close>: following \<open>nx\<close> from the pointer \<open>p\<close> to its end visits \<open>xs\<close>.\<close>

fun list_at :: "('a \<Rightarrow> 'a option) \<Rightarrow> 'a option \<Rightarrow> 'a list \<Rightarrow> bool" where
  "list_at nx p [] \<longleftrightarrow> p = None"
| "list_at nx p (x # xs) \<longleftrightarrow> p = Some x \<and> list_at nx (nx x) xs"

lemma list_at_None [simp]: "list_at nx None xs \<longleftrightarrow> xs = []"
  by (cases xs) auto

lemma list_at_Some: "list_at nx (Some a) xs \<longleftrightarrow> (\<exists>ys. xs = a # ys \<and> list_at nx (nx a) ys)"
  by (cases xs) auto

lemma list_at_unique: "list_at nx p xs \<Longrightarrow> list_at nx p ys \<Longrightarrow> xs = ys"
proof (induction xs arbitrary: p ys)
  case (Cons x xs)
  then show ?case by (cases ys) auto
qed simp

lemma list_at_append: "list_at nx p (us @ a # vs) \<Longrightarrow> list_at nx (nx a) vs"
  by (induction us arbitrary: p) auto

lemma list_at_distinct: "list_at nx p xs \<Longrightarrow> distinct xs"
proof (induction xs arbitrary: p)
  case (Cons x xs)
  have "x \<notin> set xs"
  proof
    assume "x \<in> set xs"
    then obtain us vs where e: "xs = us @ x # vs" by (auto simp: in_set_conv_decomp)
    with Cons.prems have "list_at nx (nx x) vs" by (auto intro: list_at_append)
    moreover have "list_at nx (nx x) xs" using Cons.prems by simp
    ultimately have "xs = vs" by (rule list_at_unique [rotated])
    with e show False by simp
  qed
  with Cons show ?case by auto
qed simp

lemma list_at_frame:
  "(\<And>x. x \<in> set xs \<Longrightarrow> nx' x = nx x) \<Longrightarrow> list_at nx' p xs \<longleftrightarrow> list_at nx p xs"
  by (induction xs arbitrary: p) auto

text \<open>Unlinking a node that is not the first: its predecessor skips it.\<close>

lemma list_at_unlink:
  assumes "list_at nx p (us @ b # a # vs)" and "nx' b = nx a"
    and "\<And>x. x \<in> set (us @ vs) \<Longrightarrow> nx' x = nx x"
  shows "list_at nx' p (us @ b # vs)"
proof -
  have nb: "nx b = Some a" using list_at_append [OF assms(1)] by (simp add: list_at_Some)
  have va: "list_at nx (nx a) vs" using list_at_append [of nx p "us @ [b]" a vs] assms(1) by simp
  have pre: "list_at nx' q (us @ b # vs)"
    if "list_at nx q (us @ b # a # vs)" "\<And>x. x \<in> set us \<Longrightarrow> nx' x = nx x" for q us
    using that
  proof (induction us arbitrary: q)
    case Nil
    have "list_at nx' (nx a) vs" using va assms(3) by (subst list_at_frame) auto
    with Nil assms(2) show ?case by simp
  qed auto
  show ?thesis by (rule pre) (use assms in auto)
qed

section \<open>Buckets\<close>

text \<open>The bucket of a hash in an array whose size is a power of two.\<close>

definition bucket :: "nat \<Rightarrow> sqhash \<Rightarrow> nat" where
  "bucket n h = unat (h AND of_nat (n - 1))"

lemma bucket_less [simp]: "0 < n \<Longrightarrow> bucket n h < n"
  unfolding bucket_def by (rule unat_and_of_nat_less)

end
