(* ===== verification/Objects.thy ===== *)
theory Objects
  imports Prelude
begin

text \<open>
  The tagged values of \<^verbatim>\<open>squirrel/sqobject.h\<close> and \<^verbatim>\<open>include/squirrel.h\<close>:
  the type codes, the values themselves, the identity the tables use, type
  names and the hash of a value.

  A string object is written as its contents: the string table interns every
  string (theory \<open>StringTable\<close>), so two string objects are the same pointer
  exactly when their contents agree.  Every other heap object is its kind and
  its address.  A weak reference is a heap object; what it points to is read
  from a store given as an argument.
\<close>

section \<open>Type codes\<close>

datatype refkind =
    KTable | KArray | KUserData | KClosure | KNativeClosure | KGenerator
  | KThread | KFuncProto | KClass | KInstance | KWeakRef | KOuter

datatype sqobj =
    ONull
  | OInteger sqint
  | OFloat sqfloat
  | OBool bool
  | OString string
  | OUserPointer addr
  | ORef refkind addr

definition SQOBJECT_REF_COUNTED :: "32 word" where "SQOBJECT_REF_COUNTED = 0x08000000"
definition SQOBJECT_NUMERIC :: "32 word" where "SQOBJECT_NUMERIC = 0x04000000"
definition SQOBJECT_DELEGABLE :: "32 word" where "SQOBJECT_DELEGABLE = 0x02000000"
definition SQOBJECT_CANBEFALSE :: "32 word" where "SQOBJECT_CANBEFALSE = 0x01000000"

fun rt_kind :: "refkind \<Rightarrow> 32 word" where
  "rt_kind KTable = 0x20"
| "rt_kind KArray = 0x40"
| "rt_kind KUserData = 0x80"
| "rt_kind KClosure = 0x100"
| "rt_kind KNativeClosure = 0x200"
| "rt_kind KGenerator = 0x400"
| "rt_kind KThread = 0x1000"
| "rt_kind KFuncProto = 0x2000"
| "rt_kind KClass = 0x4000"
| "rt_kind KInstance = 0x8000"
| "rt_kind KWeakRef = 0x10000"
| "rt_kind KOuter = 0x20000"

fun ot_kind :: "refkind \<Rightarrow> 32 word" where
  "ot_kind KTable = rt_kind KTable OR SQOBJECT_REF_COUNTED OR SQOBJECT_DELEGABLE"
| "ot_kind KUserData = rt_kind KUserData OR SQOBJECT_REF_COUNTED OR SQOBJECT_DELEGABLE"
| "ot_kind KInstance = rt_kind KInstance OR SQOBJECT_REF_COUNTED OR SQOBJECT_DELEGABLE"
| "ot_kind k = rt_kind k OR SQOBJECT_REF_COUNTED"

fun sqobjtype :: "sqobj \<Rightarrow> 32 word" where
  "sqobjtype ONull = 0x1 OR SQOBJECT_CANBEFALSE"
| "sqobjtype (OInteger _) = 0x2 OR SQOBJECT_NUMERIC OR SQOBJECT_CANBEFALSE"
| "sqobjtype (OFloat _) = 0x4 OR SQOBJECT_NUMERIC OR SQOBJECT_CANBEFALSE"
| "sqobjtype (OBool _) = 0x8 OR SQOBJECT_CANBEFALSE"
| "sqobjtype (OString _) = 0x10 OR SQOBJECT_REF_COUNTED"
| "sqobjtype (OUserPointer _) = 0x800"
| "sqobjtype (ORef k _) = ot_kind k"

definition ISREFCOUNTED :: "32 word \<Rightarrow> bool" where
  "ISREFCOUNTED t \<longleftrightarrow> t AND SQOBJECT_REF_COUNTED \<noteq> 0"

definition raw_type :: "32 word \<Rightarrow> 32 word" where
  "raw_type t = t AND 0x00FFFFFF"

definition IdType2Name :: "32 word \<Rightarrow> string option" where
  "IdType2Name t = (let r = raw_type t in
     if r = 0x1 then Some ''null''
     else if r = 0x2 then Some ''integer''
     else if r = 0x4 then Some ''float''
     else if r = 0x8 then Some ''bool''
     else if r = 0x10 then Some ''string''
     else if r = 0x20 then Some ''table''
     else if r = 0x40 then Some ''array''
     else if r = 0x400 then Some ''generator''
     else if r = 0x100 \<or> r = 0x200 then Some ''function''
     else if r = 0x80 \<or> r = 0x800 then Some ''userdata''
     else if r = 0x1000 then Some ''thread''
     else if r = 0x2000 then Some ''function''
     else if r = 0x4000 then Some ''class''
     else if r = 0x8000 then Some ''instance''
     else if r = 0x10000 then Some ''weakref''
     else if r = 0x20000 then Some ''outer''
     else None)"

definition GetTypeName :: "sqobj \<Rightarrow> string option" where
  "GetTypeName ob = IdType2Name (sqobjtype ob)"

lemmas type_code_simps =
  SQOBJECT_REF_COUNTED_def SQOBJECT_NUMERIC_def SQOBJECT_DELEGABLE_def SQOBJECT_CANBEFALSE_def

lemma sqobjtype_null [simp]: "sqobjtype ob = 0x1 OR SQOBJECT_CANBEFALSE \<longleftrightarrow> ob = ONull"
proof (cases ob)
  case (ORef k a)
  then show ?thesis by (cases k) (simp_all add: type_code_simps)
qed (simp_all add: type_code_simps)

section \<open>Weak references and iteration positions\<close>

fun realval :: "(addr \<Rightarrow> sqobj) \<Rightarrow> sqobj \<Rightarrow> sqobj" where
  "realval wr (ORef KWeakRef a) = wr a"
| "realval wr ob = ob"

text \<open>\<open>TranslateIndex\<close>: the assertion in the default branch is compiled out, so 0 is returned.\<close>

fun TranslateIndex :: "sqobj \<Rightarrow> sqint" where
  "TranslateIndex ONull = 0"
| "TranslateIndex (OInteger i) = i"
| "TranslateIndex _ = 0"

section \<open>Hashing\<close>

text \<open>
  The seed is the length, the step skips characters by shortening the remaining
  length; a character is sign-extended to 16 bits before it is added.  The
  remaining length is at least the step times the rounds left, so the string
  never runs out first; the empty-string equation only closes the recursion.
\<close>

definition char16 :: "char \<Rightarrow> sqhash" where
  "char16 c = ucast (scast (of_char c :: 8 word) :: 16 word)"

fun hashstr_loop :: "sqhash \<Rightarrow> nat \<Rightarrow> nat \<Rightarrow> string \<Rightarrow> sqhash" where
  "hashstr_loop h l step [] = h"
| "hashstr_loop h l step (c # cs) =
     (if l \<ge> step
      then hashstr_loop (h XOR (push_bit 5 h + drop_bit 2 h + char16 c)) (l - step) step cs
      else h)"

definition hashstr :: "string \<Rightarrow> sqhash" where
  "hashstr s = hashstr_loop (of_nat (length s)) (length s) ((length s div 32) OR 1) s"

text \<open>
  The conversion of a float to an integer truncates.  Outside the range of the
  integer the C++ result is undefined; the value here is the one the x86-64
  conversion instruction gives.
\<close>

definition float_to_int :: "sqfloat \<Rightarrow> sqint" where
  "float_to_int f =
     (let e = unat (drop_bit 23 f AND 0xFF);
          m = uint (f AND 0x7FFFFF) + 2 ^ 23;
          mag = (if e \<ge> 150 then m * 2 ^ (e - 150) else m div 2 ^ (150 - e));
          v = (if bit f 31 then - mag else mag)
      in if e < 127 then 0
         else if e = 255 \<or> v < - (2 ^ 63) \<or> v \<ge> 2 ^ 63 then 0x8000000000000000
         else word_of_int v)"

definition hashptr :: "addr \<Rightarrow> sqhash" where
  "hashptr p = signed_drop_bit 3 p"

fun HashObj :: "sqobj \<Rightarrow> sqhash" where
  "HashObj (OString s) = hashstr s"
| "HashObj (OFloat f) = float_to_int f"
| "HashObj (OBool b) = (if b then 1 else 0)"
| "HashObj (OInteger i) = i"
| "HashObj ONull = hashptr 0"
| "HashObj (OUserPointer p) = hashptr p"
| "HashObj (ORef k a) = hashptr a"

end
