(* ===== verification/Tables.thy ===== *)
theory Tables
  imports Objects
begin

text \<open>
  The hash table of \<^verbatim>\<open>squirrel/sqtable.h\<close> and \<^verbatim>\<open>squirrel/sqtable.cpp\<close>:
  an array of nodes, collisions chained through the next fields inside the
  array, a free pointer that only moves down, and rehashing when it cannot.

  A pointer to a node is its index in the array.  The loops over chains are
  partial functions: \<open>None\<close> is a loop that does not return.
  \<open>NewSlot\<close> and \<open>Rehash\<close> call each other; the depth of that recursion is bounded
  by a fuel argument, and \<open>TableCorrect\<close> proves that two units are enough.
\<close>

section \<open>State\<close>

record hashnode =
  nkey :: sqobj
  nval :: sqobj
  nnext :: "nat option"

record sqtable =
  t_nodes :: "hashnode list"
  t_firstfree :: nat
  t_usednodes :: int
  t_delegate :: "addr option"

definition MINPOWER2 :: nat where "MINPOWER2 = 4"

definition empty_node :: hashnode where
  "empty_node = \<lparr>nkey = ONull, nval = ONull, nnext = None\<rparr>"

text \<open>\<open>_numofnodes\<close> is the length of the array.\<close>

definition numofnodes :: "sqtable \<Rightarrow> nat" where
  "numofnodes t = length (t_nodes t)"

definition mainpos :: "nat \<Rightarrow> sqobj \<Rightarrow> nat" where
  "mainpos n key = unat (HashObj key AND of_nat (n - 1))"

definition AllocNodes :: "nat \<Rightarrow> sqtable \<Rightarrow> sqtable" where
  "AllocNodes nSize t =
     t\<lparr>t_nodes := replicate nSize empty_node, t_firstfree := nSize - 1\<rparr>"

function pow2size_loop :: "int \<Rightarrow> nat \<Rightarrow> nat" where
  "pow2size_loop nInitialSize p =
     (if 0 < p \<and> nInitialSize > int p then pow2size_loop nInitialSize (2 * p) else p)"
  by pat_completeness auto
termination
  by (relation "measure (\<lambda>(n, p). nat (n - int p))") auto

declare pow2size_loop.simps [simp del]

definition SQTable_new :: "int \<Rightarrow> sqtable" where
  "SQTable_new nInitialSize =
     (AllocNodes (pow2size_loop nInitialSize MINPOWER2)
        \<lparr>t_nodes = [], t_firstfree = 0, t_usednodes = 0, t_delegate = None\<rparr>)
     \<lparr>t_usednodes := 0, t_delegate := None\<rparr>"

section \<open>Lookup\<close>

partial_function (option) get_loop ::
    "hashnode list \<Rightarrow> sqobj \<Rightarrow> nat \<Rightarrow> nat option option" where
  "get_loop ns key n =
     (if nkey (ns ! n) = key then Some (Some n)
      else (case nnext (ns ! n) of
              None \<Rightarrow> Some None
            | Some m \<Rightarrow> get_loop ns key m))"

declare get_loop.simps [code]

definition Get_node :: "sqtable \<Rightarrow> sqobj \<Rightarrow> nat option option" where
  "Get_node t key = get_loop (t_nodes t) key (mainpos (numofnodes t) key)"

text \<open>The outer option is termination, the inner one the boolean result with the value.\<close>

definition Table_Get :: "(addr \<Rightarrow> sqobj) \<Rightarrow> sqtable \<Rightarrow> sqobj \<Rightarrow> sqobj option option" where
  "Table_Get wr t key =
     (if key = ONull then Some None
      else (case Get_node t key of
              None \<Rightarrow> None
            | Some None \<Rightarrow> Some None
            | Some (Some n) \<Rightarrow> Some (Some (realval wr (nval (t_nodes t ! n))))))"

definition Table_Set :: "sqtable \<Rightarrow> sqobj \<Rightarrow> sqobj \<Rightarrow> (bool \<times> sqtable) option" where
  "Table_Set t key val =
     (case Get_node t key of
        None \<Rightarrow> None
      | Some None \<Rightarrow> Some (False, t)
      | Some (Some n) \<Rightarrow>
          Some (True, t\<lparr>t_nodes := (t_nodes t)[n := (t_nodes t ! n)\<lparr>nval := val\<rparr>]\<rparr>))"

section \<open>Insertion and rehashing\<close>

text \<open>The search for the predecessor of a colliding node.\<close>

partial_function (option) prev_loop :: "hashnode list \<Rightarrow> nat \<Rightarrow> nat \<Rightarrow> nat option" where
  "prev_loop ns mp othern =
     (if nnext (ns ! othern) = Some mp then Some othern
      else (case nnext (ns ! othern) of None \<Rightarrow> None | Some o' \<Rightarrow> prev_loop ns mp o'))"

declare prev_loop.simps [code]

text \<open>
  The part of \<open>NewSlot\<close> between the failed lookup and the correction of the free
  pointer: where the key goes, and the nodes with the key in place.
\<close>

definition place_key :: "hashnode list \<Rightarrow> nat \<Rightarrow> sqobj \<Rightarrow> (nat \<times> hashnode list) option" where
  "place_key ns firstfree key =
     (let mp = mainpos (length ns) key in
      if nkey (ns ! mp) \<noteq> ONull then
        (let n = firstfree;
             mph = mainpos (length ns) (nkey (ns ! mp)) in
         if mp > n \<and> mph \<noteq> mp then
           (case prev_loop ns mp mph of
              None \<Rightarrow> None
            | Some othern \<Rightarrow>
                (let ns1 = ns[othern := (ns ! othern)\<lparr>nnext := Some n\<rparr>];
                     ns2 = ns1[n := \<lparr>nkey = nkey (ns1 ! mp), nval = nval (ns1 ! mp),
                                     nnext = nnext (ns1 ! mp)\<rparr>];
                     ns3 = ns2[mp := empty_node]
                 in Some (mp, ns3[mp := (ns3 ! mp)\<lparr>nkey := key\<rparr>])))
         else
           (let ns1 = ns[n := (ns ! n)\<lparr>nnext := nnext (ns ! mp)\<rparr>];
                ns2 = ns1[mp := (ns1 ! mp)\<lparr>nnext := Some n\<rparr>]
            in Some (n, ns2[n := (ns2 ! n)\<lparr>nkey := key\<rparr>])))
      else Some (mp, ns[mp := (ns ! mp)\<lparr>nkey := key\<rparr>]))"

text \<open>The loop that corrects the free pointer: \<open>None\<close> is the \<open>break\<close> at the first node.\<close>

fun firstfree_loop :: "hashnode list \<Rightarrow> nat \<Rightarrow> nat option" where
  "firstfree_loop ns ff =
     (if nkey (ns ! ff) = ONull \<and> nnext (ns ! ff) = None then Some ff
      else if ff = 0 then None
      else firstfree_loop ns (ff - 1))"

declare firstfree_loop.simps [simp del]

definition rehash_size :: "nat \<Rightarrow> int \<Rightarrow> bool \<Rightarrow> nat option" where
  "rehash_size nnodes nelems force =
     (let oldsize = max nnodes 4 in
      if nelems \<ge> int oldsize - int (oldsize div 4) then Some (oldsize * 2)
      else if nelems \<le> int (oldsize div 4) \<and> oldsize > MINPOWER2 then Some (oldsize div 2)
      else if force then Some oldsize
      else None)"

fun newslot :: "nat \<Rightarrow> sqtable \<Rightarrow> sqobj \<Rightarrow> sqobj \<Rightarrow> (bool \<times> sqtable) option"
and reinsert :: "nat \<Rightarrow> hashnode list \<Rightarrow> sqtable \<Rightarrow> sqtable option"
where
  "newslot 0 t key val = None"
| "newslot (Suc fuel) t key val =
     (case Get_node t key of
        None \<Rightarrow> None
      | Some (Some n) \<Rightarrow>
          Some (False, t\<lparr>t_nodes := (t_nodes t)[n := (t_nodes t ! n)\<lparr>nval := val\<rparr>]\<rparr>)
      | Some None \<Rightarrow>
          (case place_key (t_nodes t) (t_firstfree t) key of
             None \<Rightarrow> None
           | Some (mp, ns) \<Rightarrow>
               (case firstfree_loop ns (t_firstfree t) of
                  Some ff \<Rightarrow>
                    Some (True, t\<lparr>t_nodes := ns[mp := (ns ! mp)\<lparr>nval := val\<rparr>],
                                  t_firstfree := ff, t_usednodes := t_usednodes t + 1\<rparr>)
                | None \<Rightarrow>
                    (let t1 = t\<lparr>t_nodes := ns, t_firstfree := 0\<rparr> in
                     case (case rehash_size (numofnodes t1) (t_usednodes t1) True of
                             None \<Rightarrow> Some t1
                           | Some sz \<Rightarrow> reinsert fuel ns ((AllocNodes sz t1)\<lparr>t_usednodes := 0\<rparr>)) of
                       None \<Rightarrow> None
                     | Some t2 \<Rightarrow> newslot fuel t2 key val))))"
| "reinsert fuel [] t = Some t"
| "reinsert fuel (nd # nds) t =
     (if nkey nd \<noteq> ONull
      then (case newslot fuel t (nkey nd) (nval nd) of
              None \<Rightarrow> None
            | Some (b, t') \<Rightarrow> reinsert fuel nds t')
      else reinsert fuel nds t)"

definition rehash_fuel :: nat where "rehash_fuel = 2"

definition Table_NewSlot :: "sqtable \<Rightarrow> sqobj \<Rightarrow> sqobj \<Rightarrow> (bool \<times> sqtable) option" where
  "Table_NewSlot t key val = newslot rehash_fuel t key val"

definition Rehash :: "bool \<Rightarrow> sqtable \<Rightarrow> sqtable option" where
  "Rehash force t =
     (case rehash_size (numofnodes t) (t_usednodes t) force of
        None \<Rightarrow> Some t
      | Some sz \<Rightarrow> reinsert rehash_fuel (t_nodes t) ((AllocNodes sz t)\<lparr>t_usednodes := 0\<rparr>))"

section \<open>Removal, clearing, iteration and cloning\<close>

definition Table_Remove :: "sqtable \<Rightarrow> sqobj \<Rightarrow> sqtable option" where
  "Table_Remove t key =
     (case Get_node t key of
        None \<Rightarrow> None
      | Some None \<Rightarrow> Some t
      | Some (Some n) \<Rightarrow>
          Rehash False
            (t\<lparr>t_nodes := (t_nodes t)[n := (t_nodes t ! n)\<lparr>nval := ONull, nkey := ONull\<rparr>],
               t_usednodes := t_usednodes t - 1\<rparr>))"

definition ClearNodes :: "sqtable \<Rightarrow> sqtable" where
  "ClearNodes t =
     t\<lparr>t_nodes := map (\<lambda>n. n\<lparr>nkey := ONull, nval := ONull\<rparr>) (t_nodes t)\<rparr>"

definition Table_Finalize :: "sqtable \<Rightarrow> sqtable" where
  "Table_Finalize t = (ClearNodes t)\<lparr>t_delegate := None\<rparr>"

definition Table_Clear :: "sqtable \<Rightarrow> sqtable option" where
  "Table_Clear t = Rehash True ((ClearNodes t)\<lparr>t_usednodes := 0\<rparr>)"

definition CountUsed :: "sqtable \<Rightarrow> int" where
  "CountUsed t = t_usednodes t"

text \<open>
  \<open>Next\<close> returns the position for the following call, the key and the value, or
  \<open>None\<close> for the result -1.  Positions are signed and the loop starts wherever the
  caller says; a position that is negative is outside every call of the program
  and reads before the array, which the model refuses as \<open>None\<close>.
\<close>

function next_loop :: "hashnode list \<Rightarrow> nat \<Rightarrow> nat option" where
  "next_loop ns idx =
     (if idx < length ns
      then (if nkey (ns ! idx) \<noteq> ONull then Some idx else next_loop ns (Suc idx))
      else None)"
  by pat_completeness auto
termination
  by (relation "measure (\<lambda>(ns, idx). length ns - idx)") auto

declare next_loop.simps [simp del]

definition Table_Next ::
    "(addr \<Rightarrow> sqobj) \<Rightarrow> sqtable \<Rightarrow> bool \<Rightarrow> sqobj \<Rightarrow> (nat \<times> sqobj \<times> sqobj) option" where
  "Table_Next wr t getweakrefs refpos =
     (let idx = sint (TranslateIndex refpos) in
      if idx < 0 then None
      else (case next_loop (t_nodes t) (nat idx) of
              None \<Rightarrow> None
            | Some i \<Rightarrow>
                (let n = t_nodes t ! i in
                 Some (Suc i, nkey n,
                       if getweakrefs then nval n else realval wr (nval n)))))"

text \<open>
  \<open>Clone\<close> without \<^verbatim>\<open>_FAST_CLONE\<close>: iterate with \<open>Next\<close> keeping weak references and
  insert every pair into a new table of the same size.  The fuel of the loop is
  the number of nodes plus one, which \<open>TableCorrect\<close> shows is never used up.
\<close>

fun clone_loop :: "nat \<Rightarrow> sqtable \<Rightarrow> nat \<Rightarrow> sqtable \<Rightarrow> sqtable option" where
  "clone_loop 0 t ridx nt = None"
| "clone_loop (Suc fuel) t ridx nt =
     (case Table_Next (\<lambda>_. ONull) t True (OInteger (of_nat ridx)) of
        None \<Rightarrow> Some nt
      | Some (ridx', key, val) \<Rightarrow>
          (case Table_NewSlot nt key val of
             None \<Rightarrow> None
           | Some (b, nt') \<Rightarrow> clone_loop fuel t ridx' nt'))"

definition Table_Clone :: "sqtable \<Rightarrow> sqtable option" where
  "Table_Clone t =
     (case clone_loop (Suc (numofnodes t)) t 0 (SQTable_new (int (numofnodes t))) of
        None \<Rightarrow> None
      | Some nt \<Rightarrow> Some (nt\<lparr>t_delegate := t_delegate t\<rparr>))"

end
