(* ===== verification/TableCorrect.thy ===== *)
theory TableCorrect
  imports Tables
begin

text \<open>
  The invariant of the hash table and the correctness of its operations.  The
  abstraction of a table is the partial map \<open>tmap\<close> from keys to stored values;
  every operation is shown to return and to refine the operation on maps.
\<close>

section \<open>The invariant\<close>

definition nxt :: "hashnode list \<Rightarrow> nat \<Rightarrow> nat option" where
  "nxt ns i = (if i < length ns then nnext (ns ! i) else None)"

definition used :: "hashnode list \<Rightarrow> nat \<Rightarrow> bool" where
  "used ns i \<longleftrightarrow> i < length ns \<and> nkey (ns ! i) \<noteq> ONull"

definition home :: "hashnode list \<Rightarrow> nat \<Rightarrow> nat" where
  "home ns i = mainpos (length ns) (nkey (ns ! i))"

text \<open>
  Every node that is linked to is at or above a bound (one above the free pointer); the links form
  disjoint finite chains; every key can be reached from its main position; keys
  are distinct; and where a node holds a key away from its main position, no key
  has that node as its main position.
\<close>

definition nodes_inv :: "hashnode list \<Rightarrow> nat \<Rightarrow> bool" where
  "nodes_inv ns lo \<longleftrightarrow>
     (\<forall>i j. nxt ns i = Some j \<longrightarrow> j < length ns \<and> lo \<le> j) \<and>
     (\<forall>i i' j. nxt ns i = Some j \<longrightarrow> nxt ns i' = Some j \<longrightarrow> i = i') \<and>
     (\<exists>r :: nat \<Rightarrow> nat. \<forall>i j. nxt ns i = Some j \<longrightarrow> r j < r i) \<and>
     (\<forall>i. used ns i \<longrightarrow> chain (nxt ns) (home ns i) i) \<and>
     (\<forall>i j. used ns i \<longrightarrow> used ns j \<longrightarrow> nkey (ns ! i) = nkey (ns ! j) \<longrightarrow> i = j) \<and>
     (\<forall>i j. used ns i \<longrightarrow> home ns i \<noteq> i \<longrightarrow> used ns j \<longrightarrow> home ns j \<noteq> i)"

definition free_at :: "hashnode list \<Rightarrow> nat \<Rightarrow> bool" where
  "free_at ns ff \<longleftrightarrow> ff < length ns \<and> nkey (ns ! ff) = ONull \<and> nnext (ns ! ff) = None"

definition nused :: "hashnode list \<Rightarrow> nat" where
  "nused ns = length (filter (\<lambda>n. nkey n \<noteq> ONull) ns)"

definition table_inv :: "sqtable \<Rightarrow> bool" where
  "table_inv t \<longleftrightarrow>
     nodes_inv (t_nodes t) (Suc (t_firstfree t)) \<and> free_at (t_nodes t) (t_firstfree t) \<and>
     t_usednodes t = int (nused (t_nodes t)) \<and>
     (\<exists>k\<ge>2. numofnodes t = 2 ^ k)"

text \<open>The abstraction.\<close>

definition tmap :: "hashnode list \<Rightarrow> sqobj \<Rightarrow> sqobj option" where
  "tmap ns = map_of (map (\<lambda>n. (nkey n, nval n)) (filter (\<lambda>n. nkey n \<noteq> ONull) ns))"

definition table_map :: "sqtable \<Rightarrow> sqobj \<Rightarrow> sqobj option" where
  "table_map t = tmap (t_nodes t)"

lemma nodes_invD:
  assumes "nodes_inv ns lo"
  shows nodes_inv_target: "nxt ns i = Some j \<Longrightarrow> j < length ns \<and> lo \<le> j"
    and nodes_inv_inj: "nxt ns i = Some j \<Longrightarrow> nxt ns i' = Some j \<Longrightarrow> i = i'"
    and nodes_inv_rank: "\<exists>r :: nat \<Rightarrow> nat. \<forall>i j. nxt ns i = Some j \<longrightarrow> r j < r i"
    and nodes_inv_reach: "used ns i \<Longrightarrow> chain (nxt ns) (home ns i) i"
    and nodes_inv_key: "used ns i \<Longrightarrow> used ns j \<Longrightarrow> nkey (ns ! i) = nkey (ns ! j) \<Longrightarrow> i = j"
    and nodes_inv_home: "used ns i \<Longrightarrow> home ns i \<noteq> i \<Longrightarrow> used ns j \<Longrightarrow> home ns j \<noteq> i"
  using assms unfolding nodes_inv_def by blast+

lemma mainpos_less [simp]: "0 < n \<Longrightarrow> mainpos n k < n"
  unfolding mainpos_def by (rule unat_and_of_nat_less)

text \<open>With a power of two the mask is the remainder: every node is somebody's main position.\<close>

lemma mainpos_mod: "k < 64 \<Longrightarrow> mainpos (2 ^ k) key = unat (HashObj key) mod 2 ^ k"
  unfolding mainpos_def by (rule unat_and_mask_mod) simp

section \<open>The map of a node array\<close>

lemma tmap_Some_iff:
  assumes "nodes_inv ns ff"
  shows "tmap ns k = Some v \<longleftrightarrow> (\<exists>i. used ns i \<and> nkey (ns ! i) = k \<and> nval (ns ! i) = v)"
proof
  assume "tmap ns k = Some v"
  then have "(k, v) \<in> set (map (\<lambda>n. (nkey n, nval n)) (filter (\<lambda>n. nkey n \<noteq> ONull) ns))"
    unfolding tmap_def by (rule map_of_SomeD)
  then show "\<exists>i. used ns i \<and> nkey (ns ! i) = k \<and> nval (ns ! i) = v"
    by (auto simp: used_def in_set_conv_nth)
next
  assume "\<exists>i. used ns i \<and> nkey (ns ! i) = k \<and> nval (ns ! i) = v"
  then obtain i where i: "used ns i" "nkey (ns ! i) = k" "nval (ns ! i) = v" by blast
  show "tmap ns k = Some v"
  proof (cases "tmap ns k")
    case None
    moreover have "ns ! i \<in> set (filter (\<lambda>n. nkey n \<noteq> ONull) ns)" using i by (auto simp: used_def)
    ultimately show ?thesis using i(2) by (force simp: tmap_def map_of_eq_None_iff image_iff)
  next
    case (Some w)
    then have "(k, w) \<in> set (map (\<lambda>n. (nkey n, nval n)) (filter (\<lambda>n. nkey n \<noteq> ONull) ns))"
      unfolding tmap_def by (rule map_of_SomeD)
    then obtain j where j: "used ns j" "nkey (ns ! j) = k" "nval (ns ! j) = w"
      by (auto simp: used_def in_set_conv_nth)
    with i assms have "i = j" by (metis nodes_inv_key)
    with i j Some show ?thesis by simp
  qed
qed

lemma tmap_None_iff: "tmap ns k = None \<longleftrightarrow> (\<forall>i. used ns i \<longrightarrow> nkey (ns ! i) \<noteq> k)"
  by (force simp: tmap_def map_of_eq_None_iff used_def in_set_conv_nth image_iff)

lemma tmap_ONull [simp]: "tmap ns ONull = None"
  by (simp add: tmap_None_iff used_def)

lemma tmap_eqI:
  assumes "nodes_inv ns ff" and "nodes_inv ns' ff'"
    and "\<And>k v. (\<exists>i. used ns i \<and> nkey (ns ! i) = k \<and> nval (ns ! i) = v) \<longleftrightarrow>
                  (\<exists>i. used ns' i \<and> nkey (ns' ! i) = k \<and> nval (ns' ! i) = v)"
  shows "tmap ns = tmap ns'"
proof
  fix k
  have "\<And>v. tmap ns k = Some v \<longleftrightarrow> tmap ns' k = Some v"
    using assms by (simp add: tmap_Some_iff)
  then show "tmap ns k = tmap ns' k" by (metis option.exhaust)
qed

section \<open>Lookup\<close>

lemma get_loop_rank:
  assumes "\<And>i j. nxt ns i = Some j \<Longrightarrow> j < length ns \<and> r j < (r i :: nat)"
  shows "a < length ns \<Longrightarrow>
     \<exists>res. get_loop ns key a = Some res \<and>
       (case res of
          Some m \<Rightarrow> m < length ns \<and> nkey (ns ! m) = key
        | None \<Rightarrow> (\<forall>m. chain (nxt ns) a m \<longrightarrow> nkey (ns ! m) \<noteq> key))"
proof (induction "r a" arbitrary: a rule: less_induct)
  case less
  show ?case
  proof (cases "nkey (ns ! a) = key")
    case True
    with less.prems show ?thesis by (subst get_loop.simps) simp
  next
    case False
    show ?thesis
    proof (cases "nnext (ns ! a)")
      case None
      then have "nxt ns a = None" by (simp add: nxt_def)
      then have "\<forall>m. chain (nxt ns) a m \<longrightarrow> m = a" by (auto elim: chain_elim)
      with False None show ?thesis by (subst get_loop.simps) auto
    next
      case (Some b)
      with less.prems have e: "nxt ns a = Some b" by (simp add: nxt_def)
      with assms have "b < length ns" "r b < r a" by auto
      with less.hyps obtain res where
        res: "get_loop ns key b = Some res"
          "case res of Some m \<Rightarrow> m < length ns \<and> nkey (ns ! m) = key
           | None \<Rightarrow> (\<forall>m. chain (nxt ns) b m \<longrightarrow> nkey (ns ! m) \<noteq> key)"
        by blast
      have "get_loop ns key a = Some res"
        using False Some res(1) by (subst get_loop.simps) simp
      moreover have "\<forall>m. chain (nxt ns) a m \<longrightarrow> m = a \<or> chain (nxt ns) b m"
        using e by (auto elim: chain_elim)
      ultimately show ?thesis using res(2) False by (auto split: option.splits)
    qed
  qed
qed

lemma get_loop_correct:
  assumes inv: "nodes_inv ns ff" and ne: "0 < length ns" and k: "key \<noteq> ONull"
  obtains (found) i where "get_loop ns key (mainpos (length ns) key) = Some (Some i)"
      "used ns i" "nkey (ns ! i) = key"
  | (missing) "get_loop ns key (mainpos (length ns) key) = Some None"
      "\<And>i. used ns i \<Longrightarrow> nkey (ns ! i) \<noteq> key"
proof -
  obtain r :: "nat \<Rightarrow> nat" where r: "\<forall>i j. nxt ns i = Some j \<longrightarrow> r j < r i"
    using nodes_inv_rank [OF inv] by blast
  with nodes_inv_target [OF inv]
  have "\<And>i j. nxt ns i = Some j \<Longrightarrow> j < length ns \<and> r j < r i" by blast
  from get_loop_rank [OF this mainpos_less [OF ne], of key]
  obtain res where res: "get_loop ns key (mainpos (length ns) key) = Some res"
    "case res of Some m \<Rightarrow> m < length ns \<and> nkey (ns ! m) = key
     | None \<Rightarrow> (\<forall>m. chain (nxt ns) (mainpos (length ns) key) m \<longrightarrow> nkey (ns ! m) \<noteq> key)"
    by blast
  show thesis
  proof (cases res)
    case None
    have "nkey (ns ! i) \<noteq> key" if "used ns i" for i
    proof
      assume "nkey (ns ! i) = key"
      with nodes_inv_reach [OF inv that] have "chain (nxt ns) (mainpos (length ns) key) i"
        by (simp add: home_def)
      with res(2) None \<open>nkey (ns ! i) = key\<close> show False by simp
    qed
    with res(1) None show ?thesis by (intro missing) auto
  next
    case (Some m)
    with res k show ?thesis by (intro found [of m]) (auto simp: used_def)
  qed
qed

lemma Get_node_cases:
  assumes inv: "table_inv t" and k: "key \<noteq> ONull"
  obtains (found) i where "Get_node t key = Some (Some i)" "used (t_nodes t) i"
      "nkey (t_nodes t ! i) = key" "table_map t key = Some (nval (t_nodes t ! i))"
  | (missing) "Get_node t key = Some None" "table_map t key = None"
      "\<And>i. used (t_nodes t) i \<Longrightarrow> nkey (t_nodes t ! i) \<noteq> key"
proof -
  from inv have n: "nodes_inv (t_nodes t) (Suc (t_firstfree t))" and ne: "0 < length (t_nodes t)"
    by (auto simp: table_inv_def free_at_def)
  show thesis
  proof (cases rule: get_loop_correct [OF n ne k, case_names found missing])
    case (found i)
    then show ?thesis
      by (intro that(1) [of i])
         (auto simp: Get_node_def numofnodes_def table_map_def tmap_Some_iff [OF n])
  next
    case missing
    then show ?thesis
      by (intro that(2)) (auto simp: Get_node_def numofnodes_def table_map_def tmap_None_iff)
  qed
qed

section \<open>Writing a value\<close>

definition set_val :: "hashnode list \<Rightarrow> nat \<Rightarrow> sqobj \<Rightarrow> hashnode list" where
  "set_val ns i v = ns[i := (ns ! i)\<lparr>nval := v\<rparr>]"

lemma set_val_simps [simp]:
  "length (set_val ns i v) = length ns"
  "nkey (set_val ns i v ! j) = nkey (ns ! j)"
  "nnext (set_val ns i v ! j) = nnext (ns ! j)"
  "i < length ns \<Longrightarrow> nval (set_val ns i v ! j) = (if j = i then v else nval (ns ! j))"
  by (cases "i < length ns"; auto simp: set_val_def nth_list_update list_update_beyond)+

lemma set_val_views [simp]:
  "nxt (set_val ns i v) = nxt ns" "used (set_val ns i v) = used ns" "home (set_val ns i v) = home ns"
  by (auto simp: nxt_def used_def home_def fun_eq_iff)

lemma nodes_inv_set_val [simp]: "nodes_inv (set_val ns i v) ff \<longleftrightarrow> nodes_inv ns ff"
  by (simp add: nodes_inv_def)

lemma free_at_set_val [simp]: "free_at (set_val ns i v) ff \<longleftrightarrow> free_at ns ff"
  by (simp add: free_at_def)

lemma nused_set_val [simp]: "nused (set_val ns i v) = nused ns"
proof -
  have "map nkey (set_val ns i v) = map nkey ns"
    by (rule nth_equalityI) auto
  moreover have "nused xs = length (filter (\<lambda>k. k \<noteq> ONull) (map nkey xs))" for xs
    by (simp add: nused_def filter_map o_def)
  ultimately show ?thesis by metis
qed

lemma tmap_set_val:
  assumes inv: "nodes_inv ns ff" and u: "used ns i"
  shows "tmap (set_val ns i v) = (tmap ns)(nkey (ns ! i) \<mapsto> v)"
proof
  fix k
  have i: "i < length ns" using u by (simp add: used_def)
  have "tmap (set_val ns i v) k = Some w \<longleftrightarrow> ((tmap ns)(nkey (ns ! i) \<mapsto> v)) k = Some w" for w
    using u i nodes_inv_key [OF inv _ u]
    by (auto simp: tmap_Some_iff [of "set_val ns i v" ff] tmap_Some_iff [OF inv] inv) metis
  then show "tmap (set_val ns i v) k = ((tmap ns)(nkey (ns ! i) \<mapsto> v)) k"
    by (metis option.exhaust)
qed

section \<open>Placing a key\<close>

text \<open>What the placement of a new key has to establish.\<close>

definition placed :: "hashnode list \<Rightarrow> nat \<Rightarrow> sqobj \<Rightarrow> nat \<Rightarrow> hashnode list \<Rightarrow> bool" where
  "placed ns ff key mp ns' \<longleftrightarrow>
     length ns' = length ns \<and> nodes_inv ns' ff \<and>
     (free_at ns' ff \<longrightarrow> nodes_inv ns' (Suc ff)) \<and>
     (\<forall>i. nxt ns' i \<noteq> None \<longrightarrow> nxt ns i \<noteq> None \<or> used ns' i) \<and>
     (\<forall>i. used ns i \<longrightarrow> used ns' i) \<and> used ns' mp \<and> nkey (ns' ! mp) = key \<and>
     (\<forall>k v. k \<noteq> key \<longrightarrow>
        (\<exists>i. used ns' i \<and> nkey (ns' ! i) = k \<and> nval (ns' ! i) = v) \<longleftrightarrow>
        (\<exists>i. used ns i \<and> nkey (ns ! i) = k \<and> nval (ns ! i) = v))"

lemma nodes_inv_mono: "nodes_inv ns lo \<Longrightarrow> lo' \<le> lo \<Longrightarrow> nodes_inv ns lo'"
  unfolding nodes_inv_def by (meson order_trans)

lemma chain_embed:
  assumes "chain nx a b" and "\<And>x y. nx x = Some y \<Longrightarrow> chain nx' (f x) (f y)"
  shows "chain nx' (f a) (f b)"
  using assms(1) by (induction rule: chain.induct) (auto intro: chain_trans assms(2))

lemma placed_free:
  assumes inv: "nodes_inv ns (Suc ff)" and key: "key \<noteq> ONull"
    and new: "\<And>i. used ns i \<Longrightarrow> nkey (ns ! i) \<noteq> key"
    and mp: "mp = mainpos (length ns) key" "mp < length ns" "nkey (ns ! mp) = ONull"
  shows "placed ns ff key mp (ns[mp := (ns ! mp)\<lparr>nkey := key\<rparr>])"
proof -
  let ?ns = "ns[mp := (ns ! mp)\<lparr>nkey := key\<rparr>]"
  have nx: "nxt ?ns = nxt ns" using mp by (auto simp: nxt_def nth_list_update fun_eq_iff)
  have us: "used ?ns i \<longleftrightarrow> i = mp \<or> used ns i" for i
    using mp key by (auto simp: used_def nth_list_update)
  have nu: "\<not> used ns mp" using mp by (simp add: used_def)
  have ky: "nkey (?ns ! i) = (if i = mp then key else nkey (ns ! i))" for i
    using mp by (simp add: nth_list_update)
  have hm: "home ?ns i = (if i = mp then mp else home ns i)" for i
    using mp ky by (simp add: home_def)
  have vl: "nval (?ns ! i) = nval (ns ! i)" for i
    using mp by (simp add: nth_list_update)
  have "nodes_inv ?ns (Suc ff)"
    unfolding nodes_inv_def nx us length_list_update
    using inv new nu by (auto simp: nodes_inv_def hm ky)
  moreover from this have "nodes_inv ?ns ff" by (rule nodes_inv_mono) simp
  ultimately show ?thesis
    unfolding placed_def us ky vl nx using nu by auto
qed

text \<open>A free node is nobody's main position and nobody links to it.\<close>

lemma free_not_home:
  assumes inv: "nodes_inv ns (Suc ff)" and fr: "free_at ns ff" and u: "used ns j"
  shows "home ns j \<noteq> ff"
proof
  assume h: "home ns j = ff"
  from fr have "nxt ns ff = None" by (simp add: free_at_def nxt_def)
  with nodes_inv_reach [OF inv u] h have "j = ff" by (auto elim: chain_elim)
  with u fr show False by (simp add: used_def free_at_def)
qed

lemma free_not_target:
  assumes "nodes_inv ns (Suc ff)"
  shows "nxt ns i \<noteq> Some ff"
  using nodes_inv_target [OF assms] by fastforce

lemma placed_chain:
  assumes inv: "nodes_inv ns (Suc ff)" and fr: "free_at ns ff" and key: "key \<noteq> ONull"
    and new: "\<And>i. used ns i \<Longrightarrow> nkey (ns ! i) \<noteq> key"
    and mp: "mp = mainpos (length ns) key" "mp < length ns" "nkey (ns ! mp) \<noteq> ONull"
    and hm: "home ns mp = mp"
    and ns': "ns' = ns[ff := \<lparr>nkey = key, nval = nval (ns ! ff), nnext = nnext (ns ! mp)\<rparr>,
                       mp := (ns ! mp)\<lparr>nnext := Some ff\<rparr>]"
  shows "placed ns ff key ff ns'"
proof -
  have ff: "ff < length ns" "nkey (ns ! ff) = ONull" "nxt ns ff = None" "ff \<noteq> mp"
    using fr mp(3) by (auto simp: free_at_def nxt_def)
  have nx: "nxt ns' i = (if i = ff then nxt ns mp else if i = mp then Some ff else nxt ns i)" for i
    using ff mp(2) by (auto simp: ns' nxt_def nth_list_update)
  have us: "used ns' i \<longleftrightarrow> i = ff \<or> used ns i" for i
    using ff mp(2) key by (auto simp: ns' used_def nth_list_update)
  have nu: "\<not> used ns ff" using ff by (simp add: used_def)
  have um: "used ns mp" using mp by (simp add: used_def)
  have ky: "nkey (ns' ! i) = (if i = ff then key else nkey (ns ! i))" for i
    using ff mp(2) by (simp add: ns' nth_list_update)
  have vl: "i \<noteq> ff \<Longrightarrow> nval (ns' ! i) = nval (ns ! i)" for i
    using ff mp(2) by (simp add: ns' nth_list_update)
  have len: "length ns' = length ns" by (simp add: ns')
  have hm': "home ns' i = (if i = ff then mp else home ns i)" for i
    using ky len by (simp add: home_def mp(1))
  obtain r :: "nat \<Rightarrow> nat" where r: "\<forall>i j. nxt ns i = Some j \<longrightarrow> r j < r i"
    using nodes_inv_rank [OF inv] by blast
  define r' where "r' i = (if i = ff then (case nxt ns mp of None \<Rightarrow> 1 | Some j \<Rightarrow> 2 * r j + 3)
                           else 2 * r i + 2)" for i
  have tgt: "nxt ns i \<noteq> Some ff" for i using free_not_target [OF inv] .
  have 1: "j < length ns' \<and> ff \<le> j" if "nxt ns' i = Some j" for i j
    using that nodes_inv_target [OF inv, of _ j] ff(1) unfolding nx len
    by (auto split: if_splits dest: Suc_leD)
  have 2: "i = i'" if "nxt ns' i = Some j" "nxt ns' i' = Some j" for i i' j
    using that tgt nodes_inv_inj [OF inv] ff(4) unfolding nx by (auto split: if_splits)
  have 3: "r' j < r' i" if e: "nxt ns' i = Some j" for i j
  proof -
    consider "i = ff" "nxt ns mp = Some j" | "i = mp" "j = ff" | "i \<noteq> ff" "i \<noteq> mp" "nxt ns i = Some j"
      using e ff(4) by (auto simp: nx split: if_splits)
    then show ?thesis
    proof cases
      case 1
      then show ?thesis using tgt [of mp] by (auto simp: r'_def)
    next
      case 2
      have "\<And>y. nxt ns mp = Some y \<Longrightarrow> r y < r mp" using r by blast
      with 2 ff(4) show ?thesis by (auto simp: r'_def split: option.splits)
    next
      case 3
      with r have "r j < r i" by blast
      with 3 tgt [of i] show ?thesis by (auto simp: r'_def)
    qed
  qed
  have emb: "chain (nxt ns') x y" if "nxt ns x = Some y" for x y
  proof (cases "x = mp")
    case True
    then have "nxt ns' x = Some ff" "nxt ns' ff = Some y" using that ff by (auto simp: nx)
    then show ?thesis by blast
  next
    case False
    then have "nxt ns' x = Some y" using that ff(3) by (auto simp: nx)
    then show ?thesis by blast
  qed
  have 4: "chain (nxt ns') (home ns' i) i" if "used ns' i" for i
  proof (cases "i = ff")
    case True
    have "nxt ns' mp = Some ff" using ff(4) by (simp add: nx)
    with True show ?thesis by (auto simp: hm')
  next
    case False
    with that have "chain (nxt ns) (home ns i) i" using nodes_inv_reach [OF inv] us by blast
    from chain_embed [OF this, of _ id] emb False show ?thesis by (simp add: hm')
  qed
  have 5: "i = j" if "used ns' i" "used ns' j" "nkey (ns' ! i) = nkey (ns' ! j)" for i j
    using that us ky new nodes_inv_key [OF inv] by (auto split: if_splits)
  have 6: "home ns' j \<noteq> i" if "used ns' i" "home ns' i \<noteq> i" "used ns' j" for i j
  proof (cases "i = ff")
    case True
    with that ff(4) show ?thesis using us hm' free_not_home [OF inv fr] by (cases "j = ff") auto
  next
    case False
    then have i: "used ns i" "home ns i \<noteq> i" using that us hm' by auto
    show ?thesis
    proof (cases "j = ff")
      case True
      have "i \<noteq> mp" using i hm by auto
      with True show ?thesis by (simp add: hm')
    next
      case j: False
      with that us have "used ns j" by blast
      with i have "home ns j \<noteq> i" by (rule nodes_inv_home [OF inv])
      with j show ?thesis by (simp add: hm')
    qed
  qed
  have "nodes_inv ns' ff"
    unfolding nodes_inv_def using 1 2 3 4 5 6 by blast
  moreover have "\<not> free_at ns' ff" using ky key by (simp add: free_at_def)
  ultimately show ?thesis
    unfolding placed_def len us ky nx using nu vl um by auto metis
qed

text \<open>The colliding key moves to the free node and the new key takes its place.\<close>

lemma placed_move:
  assumes inv: "nodes_inv ns (Suc ff)" and fr: "free_at ns ff" and key: "key \<noteq> ONull"
    and new: "\<And>i. used ns i \<Longrightarrow> nkey (ns ! i) \<noteq> key"
    and mp: "mp = mainpos (length ns) key" "mp < length ns" "nkey (ns ! mp) \<noteq> ONull"
    and hm: "home ns mp \<noteq> mp"
    and ot: "nxt ns othern = Some mp"
    and ns': "ns' = ns[othern := (ns ! othern)\<lparr>nnext := Some ff\<rparr>, ff := ns ! mp,
                       mp := \<lparr>nkey = key, nval = ONull, nnext = None\<rparr>]"
  shows "placed ns ff key mp ns'"
proof -
  have ff: "ff < length ns" "nkey (ns ! ff) = ONull" "nxt ns ff = None" "ff \<noteq> mp"
    using fr mp(3) by (auto simp: free_at_def nxt_def)
  obtain r :: "nat \<Rightarrow> nat" where r: "\<forall>i j. nxt ns i = Some j \<longrightarrow> r j < r i"
    using nodes_inv_rank [OF inv] by blast
  have o: "othern < length ns" "othern \<noteq> ff" "othern \<noteq> mp"
    using ot ff(3) r by (auto simp: nxt_def split: if_splits)
  have nx: "nxt ns' i = (if i = mp then None else if i = ff then nxt ns mp
                         else if i = othern then Some ff else nxt ns i)" for i
    using ff mp(2) o by (auto simp: ns' nxt_def nth_list_update)
  have us: "used ns' i \<longleftrightarrow> i = ff \<or> used ns i" for i
    using ff mp(2,3) key o by (auto simp: ns' used_def nth_list_update)
  have nu: "\<not> used ns ff" using ff by (simp add: used_def)
  have um: "used ns mp" using mp by (simp add: used_def)
  have ky: "nkey (ns' ! i) = (if i = mp then key else if i = ff then nkey (ns ! mp)
                              else nkey (ns ! i))" for i
    using ff mp(2) o by (simp add: ns' nth_list_update)
  have vl: "i \<noteq> mp \<Longrightarrow> nval (ns' ! i) = (if i = ff then nval (ns ! mp) else nval (ns ! i))" for i
    using ff mp(2) o by (simp add: ns' nth_list_update)
  have len: "length ns' = length ns" by (simp add: ns')
  have hm': "home ns' i = (if i = mp then mp else if i = ff then home ns mp else home ns i)" for i
    using ky len by (simp add: home_def mp(1))
  have tgt: "nxt ns i \<noteq> Some ff" for i using free_not_target [OF inv] .
  have only: "nxt ns i = Some mp \<Longrightarrow> i = othern" for i
    using nodes_inv_inj [OF inv] ot by blast
  have edge: "i = ff \<and> nxt ns mp = Some j \<or> i = othern \<and> j = ff \<or>
      i \<noteq> ff \<and> i \<noteq> mp \<and> i \<noteq> othern \<and> nxt ns i = Some j" if "nxt ns' i = Some j" for i j
    using that by (auto simp: nx split: if_splits)
  have 1: "j < length ns' \<and> ff \<le> j" if "nxt ns' i = Some j" for i j
    using edge [OF that] nodes_inv_target [OF inv, of _ j] ff(1) unfolding len
    by (auto dest: Suc_leD)
  have 2: "i = i'" if "nxt ns' i = Some j" "nxt ns' i' = Some j" for i i' j
  proof -
    have "i = othern \<longleftrightarrow> j = ff" using edge [OF that(1)] tgt o by blast
    moreover have "i' = othern \<longleftrightarrow> j = ff" using edge [OF that(2)] tgt o by blast
    moreover have "nxt ns (if i = ff then mp else i) = Some j" if "i \<noteq> othern"
      using edge [OF \<open>nxt ns' i = Some j\<close>] that by auto
    moreover have "nxt ns (if i' = ff then mp else i') = Some j" if "i' \<noteq> othern"
      using edge [OF \<open>nxt ns' i' = Some j\<close>] that by auto
    moreover have "i \<noteq> mp" "i' \<noteq> mp" using that by (auto simp: nx)
    ultimately show ?thesis using nodes_inv_inj [OF inv] by (metis (full_types))
  qed
  have 3: "(r(ff := r mp)) j < (r(ff := r mp)) i" if "nxt ns' i = Some j" for i j
  proof -
    have "r mp < r othern" using r ot by blast
    with edge [OF that] r tgt o(2) show ?thesis by auto
  qed
  define f where "f x = (if x = mp then ff else x)" for x
  have emb: "chain (nxt ns') (f x) (f y)" if "nxt ns x = Some y" for x y
  proof -
    have "y \<noteq> ff" using tgt that by blast
    moreover have "x \<noteq> ff" using that ff(3) by auto
    moreover have "r y < r x" using r that by blast
    moreover have "x = othern \<Longrightarrow> y = mp" using that ot by simp
    moreover have "y = mp \<Longrightarrow> x = othern" using that only by simp
    ultimately have "nxt ns' (f x) = Some (f y)"
      unfolding f_def nx using that ff(4) o by (cases "x = mp"; cases "y = mp"; cases "x = othern"; simp)
    then show ?thesis by (rule chain_step) simp
  qed
  have 4: "chain (nxt ns') (home ns' i) i" if "used ns' i" for i
  proof (cases "i = mp")
    case True
    then show ?thesis by (simp add: hm')
  next
    case False
    let ?j = "if i = ff then mp else i"
    have u: "used ns ?j" using that us um by auto
    from nodes_inv_reach [OF inv u] have "chain (nxt ns) (home ns ?j) ?j" .
    from chain_embed [OF this emb] have "chain (nxt ns') (f (home ns ?j)) (f ?j)" .
    moreover have "home ns ?j \<noteq> mp" using nodes_inv_home [OF inv um hm u] .
    ultimately show ?thesis using False by (simp add: hm' f_def split: if_splits)
  qed
  have 5: "i = j" if "used ns' i" "used ns' j" "nkey (ns' ! i) = nkey (ns' ! j)" for i j
  proof -
    let ?h = "\<lambda>i. if i = ff then mp else i"
    have u: "used ns (?h i)" "used ns (?h j)" using that us um by auto
    have kh: "nkey (ns' ! x) = nkey (ns ! ?h x)" if "x \<noteq> mp" for x using that by (simp add: ky)
    have km: "nkey (ns' ! mp) = key" by (simp add: ky)
    show ?thesis
    proof (cases "i = mp \<or> j = mp")
      case True
      then show ?thesis using that(3) kh km new [OF u(1)] new [OF u(2)] by metis
    next
      case False
      with that(3) kh have "nkey (ns ! ?h i) = nkey (ns ! ?h j)" by simp
      with u have "?h i = ?h j" by (rule nodes_inv_key [OF inv])
      with False show ?thesis by (simp split: if_splits)
    qed
  qed
  have 6: "home ns' j \<noteq> i" if "used ns' i" "home ns' i \<noteq> i" "used ns' j" for i j
  proof -
    let ?h = "\<lambda>i. if i = ff then mp else i"
    have i: "i \<noteq> mp" using that hm' by auto
    have u: "used ns (?h i)" "used ns (?h j)" using that us um by auto
    show ?thesis
    proof (cases "i = ff")
      case True
      then show ?thesis using free_not_home [OF inv fr] u(2) um ff(4) by (auto simp: hm' split: if_splits)
    next
      case False
      with i that u have "used ns i" "home ns i \<noteq> i" by (auto simp: hm')
      then have "home ns (?h j) \<noteq> i" using u(2) by (rule nodes_inv_home [OF inv])
      with i show ?thesis by (simp add: hm' split: if_splits)
    qed
  qed
  have "nodes_inv ns' ff"
    unfolding nodes_inv_def using 1 2 3 4 5 6 by blast
  moreover have "\<not> free_at ns' ff" using ky mp(3) ff(4) by (simp add: free_at_def)
  moreover have "(\<exists>i. used ns' i \<and> nkey (ns' ! i) = k \<and> nval (ns' ! i) = v) \<longleftrightarrow>
        (\<exists>i. used ns i \<and> nkey (ns ! i) = k \<and> nval (ns ! i) = v)" if "k \<noteq> key" for k v
  proof
    assume "\<exists>i. used ns' i \<and> nkey (ns' ! i) = k \<and> nval (ns' ! i) = v"
    then obtain i where "used ns' i" "nkey (ns' ! i) = k" "nval (ns' ! i) = v" by blast
    with that us um ky vl show "\<exists>i. used ns i \<and> nkey (ns ! i) = k \<and> nval (ns ! i) = v"
      by (intro exI [of _ "if i = ff then mp else i"]) (auto split: if_splits)
  next
    assume "\<exists>i. used ns i \<and> nkey (ns ! i) = k \<and> nval (ns ! i) = v"
    then obtain i where "used ns i" "nkey (ns ! i) = k" "nval (ns ! i) = v" by blast
    with us ky vl ff(4) nu show "\<exists>i. used ns' i \<and> nkey (ns' ! i) = k \<and> nval (ns' ! i) = v"
      by (intro exI [of _ "if i = mp then ff else i"]) auto
  qed
  moreover have "used ns' mp" "nkey (ns' ! mp) = key" using us um ky by auto
  moreover have "\<forall>i. nxt ns' i \<noteq> None \<longrightarrow> nxt ns i \<noteq> None \<or> used ns' i"
    unfolding nx us using ot by auto
  moreover have "\<forall>i. used ns i \<longrightarrow> used ns' i" using us by blast
  ultimately show ?thesis unfolding placed_def len by blast
qed

end
