(* ===== verification/Interfaces.thy ===== *)
theory Interfaces
  imports Prelude
begin

text \<open>
  The interfaces between components, as locales.  A \<open>slot_store\<close> is what the
  clients of a table write into (keyword table, literal pool, class members); a
  \<open>slot_dict\<close> can also be read back.  Insertion may fail to return, so its result
  is an option, and its flag is the one the code returns.
\<close>

section \<open>Writing slots\<close>

fun put_all :: "('t \<Rightarrow> 'k \<Rightarrow> 'v \<Rightarrow> (bool \<times> 't) option) \<Rightarrow> 't \<Rightarrow> ('k \<times> 'v) list \<Rightarrow> 't option" where
  "put_all put t [] = Some t"
| "put_all put t ((k, v) # kvs) =
     (case put t k v of None \<Rightarrow> None | Some (b, t') \<Rightarrow> put_all put t' kvs)"

locale slot_store =
  fixes inv :: "'t \<Rightarrow> bool"
    and amap :: "'t \<Rightarrow> 'k \<Rightarrow> 'v option"
    and valid :: "'k \<Rightarrow> bool"
    and put :: "'t \<Rightarrow> 'k \<Rightarrow> 'v \<Rightarrow> (bool \<times> 't) option"
  assumes put_law: "inv t \<Longrightarrow> valid k \<Longrightarrow>
     \<exists>b t'. put t k v = Some (b, t') \<and> inv t' \<and> amap t' = (amap t)(k \<mapsto> v)"
begin

lemma put_cases:
  assumes "inv t" and "valid k"
  obtains b t' where "put t k v = Some (b, t')" "inv t'" "amap t' = (amap t)(k \<mapsto> v)"
  using put_law [OF assms] by blast

text \<open>Filling a store from a list: later entries win.\<close>

lemma put_all_map:
  assumes "inv t" and "list_all (\<lambda>kv. valid (fst kv)) kvs"
  shows "\<exists>t'. put_all put t kvs = Some t' \<and> inv t' \<and> amap t' = amap t ++ map_of (rev kvs)"
  using assms
proof (induction kvs arbitrary: t)
  case Nil
  then show ?case by simp
next
  case (Cons kv kvs)
  obtain k v where kv: "kv = (k, v)" by (cases kv)
  from Cons.prems kv have "valid k" by simp
  with Cons.prems(1) obtain b t' where t': "put t k v = Some (b, t')" "inv t'"
    "amap t' = (amap t)(k \<mapsto> v)" by (rule put_cases)
  from Cons.IH [OF t'(2)] Cons.prems(2) kv obtain t'' where
    "put_all put t' kvs = Some t''" "inv t''" "amap t'' = amap t' ++ map_of (rev kvs)" by auto
  with t' kv show ?case by simp
qed

end

section \<open>Reading slots back\<close>

locale slot_dict = slot_store inv amap valid put
  for inv :: "'t \<Rightarrow> bool" and amap :: "'t \<Rightarrow> 'k \<Rightarrow> 'v option" and valid :: "'k \<Rightarrow> bool"
    and put :: "'t \<Rightarrow> 'k \<Rightarrow> 'v \<Rightarrow> (bool \<times> 't) option" +
  fixes view :: "'v \<Rightarrow> 'v"
    and get :: "'t \<Rightarrow> 'k \<Rightarrow> 'v option option"
  assumes get_law: "inv t \<Longrightarrow> get t k = Some (map_option view (amap t k))"
begin

lemma get_put_same:
  assumes "inv t" and "valid k" and "put t k v = Some (b, t')"
  shows "get t' k = Some (Some (view v))"
  using put_law [OF assms(1,2), of v] assms(3) by (auto simp: get_law)

lemma get_put_other:
  assumes "inv t" and "valid k" and "put t k v = Some (b, t')" and "k' \<noteq> k"
  shows "get t' k' = get t k'"
  using put_law [OF assms(1,2), of v] assms(1,3,4) by (auto simp: get_law)

text \<open>Reading a key of a filled store gives the last entry written for it.\<close>

lemma get_put_all:
  assumes "inv t" and "amap t = Map.empty" and "list_all (\<lambda>kv. valid (fst kv)) kvs"
    and "put_all put t kvs = Some t'"
  shows "inv t' \<and> get t' k = Some (map_option view (map_of (rev kvs) k))"
  using put_all_map [OF assms(1,3)] assms(2,4) by (auto simp: get_law)

end

section \<open>Growable sequences\<close>

text \<open>
  What the clients of a vector rely on: pushing at the end never fails and adds
  one element, popping takes the last one off, and any position can be read.
\<close>

fun push_all :: "('a \<Rightarrow> 's \<Rightarrow> 's option) \<Rightarrow> 'a list \<Rightarrow> 's \<Rightarrow> 's option" where
  "push_all push [] s = Some s"
| "push_all push (x # xs) s = (case push x s of None \<Rightarrow> None | Some s' \<Rightarrow> push_all push xs s')"

locale growable =
  fixes inv :: "'s \<Rightarrow> bool"
    and elems :: "'s \<Rightarrow> 'a list"
    and push :: "'a \<Rightarrow> 's \<Rightarrow> 's option"
    and pop :: "'s \<Rightarrow> 's option"
    and at :: "'s \<Rightarrow> nat \<Rightarrow> 'a option"
  assumes push_law: "inv s \<Longrightarrow> \<exists>s'. push x s = Some s' \<and> inv s' \<and> elems s' = elems s @ [x]"
    and pop_law: "inv s \<Longrightarrow> elems s \<noteq> [] \<Longrightarrow>
      \<exists>s'. pop s = Some s' \<and> inv s' \<and> elems s' = butlast (elems s)"
    and at_law: "inv s \<Longrightarrow> i < length (elems s) \<Longrightarrow> at s i = Some (elems s ! i)"
begin

lemma push_all_elems:
  "inv s \<Longrightarrow> \<exists>s'. push_all push xs s = Some s' \<and> inv s' \<and> elems s' = elems s @ xs"
proof (induction xs arbitrary: s)
  case (Cons x xs)
  from push_law [OF Cons.prems, of x] obtain s' where
    s': "push x s = Some s'" "inv s'" "elems s' = elems s @ [x]" by blast
  from Cons.IH [OF s'(2)] s' show ?case by auto
qed simp

lemma push_pop:
  assumes "inv s" and "push x s = Some s'"
  shows "\<exists>s''. pop s' = Some s'' \<and> inv s'' \<and> elems s'' = elems s"
  using push_law [OF assms(1), of x] pop_law [of s'] assms(2) by auto

lemma push_at_last:
  assumes "inv s" and "push x s = Some s'"
  shows "at s' (length (elems s)) = Some x"
  using push_law [OF assms(1), of x] at_law [of s' "length (elems s)"] assms(2) by auto

lemma push_at_old:
  assumes "inv s" and "push x s = Some s'" and "i < length (elems s)"
  shows "at s' i = at s i"
  using push_law [OF assms(1), of x] at_law [of s' i] at_law [OF assms(1,3)] assms(2,3)
  by (auto simp: nth_append)

end

end
