(* ===== verification/TableOps.thy ===== *)
theory TableOps
  imports TableCorrect Interfaces
begin

text \<open>
  Correctness of the operations of the hash table: every operation returns,
  keeps the invariant and refines the operation on partial maps; rehashing never
  recurses more than once.
\<close>

section \<open>Placing a key\<close>

lemma prev_loop_correct:
  assumes inv: "nodes_inv ns lo" and c: "chain (nxt ns) a p" and p: "nxt ns p = Some mp"
  shows "prev_loop ns mp a = Some p"
  using c p
proof (induction rule: chain.induct)
  case (chain_refl a)
  then show ?case by (subst prev_loop.simps) (auto simp: nxt_def split: if_splits)
next
  case (chain_step a b c)
  have e: "nnext (ns ! a) = Some b" using chain_step.hyps(1) by (auto simp: nxt_def split: if_splits)
  obtain r :: "nat \<Rightarrow> nat" where r: "\<forall>i j. nxt ns i = Some j \<longrightarrow> r j < r i"
    using nodes_inv_rank [OF inv] by blast
  have "b \<noteq> mp"
  proof
    assume "b = mp"
    with chain_step.hyps(1) chain_step.prems nodes_inv_inj [OF inv] have "a = c" by blast
    moreover have "r c \<le> r b"
      using chain_step.hyps(2) r by (blast intro: chain_rank)
    moreover have "r b < r a" using r chain_step.hyps(1) by blast
    ultimately show False by simp
  qed
  with e chain_step.IH chain_step.prems show ?case by (subst prev_loop.simps) simp
qed

lemma hashnode_fields:
  "n\<lparr>nnext := x, nkey := k\<rparr> = \<lparr>nkey = k, nval = nval n, nnext = x\<rparr>"
  by (cases n) simp

lemma hashnode_eta: "\<lparr>nkey = nkey n, nval = nval n, nnext = nnext n\<rparr> = n"
  by (cases n) simp

lemma place_key_correct:
  assumes inv: "nodes_inv ns (Suc ff)" and fr: "free_at ns ff" and key: "key \<noteq> ONull"
    and new: "\<And>i. used ns i \<Longrightarrow> nkey (ns ! i) \<noteq> key"
  shows "\<exists>mp ns'. place_key ns ff key = Some (mp, ns') \<and> placed ns ff key mp ns'"
proof -
  define mp where "mp = mainpos (length ns) key"
  have ff: "ff < length ns" "nkey (ns ! ff) = ONull" using fr by (auto simp: free_at_def)
  then have "0 < length ns" by auto
  then have mpl: "mp < length ns" by (simp add: mp_def)
  show ?thesis
  proof (cases "nkey (ns ! mp) = ONull")
    case True
    from placed_free [OF inv key new mp_def mpl True] show ?thesis
      using True by (auto simp: place_key_def Let_def mp_def [symmetric])
  next
    case False
    then have um: "used ns mp" and ne: "mp \<noteq> ff" using mpl ff by (auto simp: used_def)
    show ?thesis
    proof (cases "home ns mp = mp")
      case True
      from placed_chain [OF inv fr key new mp_def mpl False True refl]
      show ?thesis using True False ff mpl ne
        by (simp add: place_key_def Let_def mp_def [symmetric] home_def nth_list_update
              list_update_swap hashnode_fields)
    next
      case hm: False
      from nodes_inv_reach [OF inv um] hm
      obtain p where p: "chain (nxt ns) (home ns mp) p" "nxt ns p = Some mp"
        by (blast dest: chain_last)
      have lt: "ff < mp" using nodes_inv_target [OF inv p(2)] by simp
      have pl: "p < length ns" "p \<noteq> mp" "p \<noteq> ff"
      proof -
        show "p < length ns" using p(2) by (simp add: nxt_def split: if_splits)
        show "p \<noteq> mp" using p(2) nodes_inv_rank [OF inv] by fastforce
        show "p \<noteq> ff" using p(2) fr by (auto simp: free_at_def nxt_def)
      qed
      have "prev_loop ns mp (home ns mp) = Some p" by (rule prev_loop_correct [OF inv p])
      with placed_move [OF inv fr key new mp_def mpl False hm p(2) refl] lt hm False pl ff mpl
      show ?thesis
        by (simp add: place_key_def Let_def mp_def [symmetric] home_def [symmetric]
              nth_list_update empty_node_def hashnode_eta)
    qed
  qed
qed

section \<open>The free pointer\<close>

lemma firstfree_loop_cases:
  assumes "ff < length ns"
  obtains (found) f where "firstfree_loop ns ff = Some f" "free_at ns f" "f \<le> ff"
      "\<And>i. f < i \<Longrightarrow> i \<le> ff \<Longrightarrow> \<not> free_at ns i"
  | (full) "firstfree_loop ns ff = None" "\<And>i. i \<le> ff \<Longrightarrow> \<not> free_at ns i"
proof -
  have "case firstfree_loop ns ff of
      Some f \<Rightarrow> free_at ns f \<and> f \<le> ff \<and> (\<forall>i. f < i \<longrightarrow> i \<le> ff \<longrightarrow> \<not> free_at ns i)
    | None \<Rightarrow> (\<forall>i\<le>ff. \<not> free_at ns i)"
    using assms
  proof (induction ff)
    case 0
    then show ?case by (subst firstfree_loop.simps) (auto simp: free_at_def)
  next
    case (Suc ff)
    show ?case
    proof (cases "free_at ns (Suc ff)")
      case True
      then show ?thesis by (subst firstfree_loop.simps) (auto simp: free_at_def)
    next
      case False
      with Suc.prems have "firstfree_loop ns (Suc ff) = firstfree_loop ns ff"
        by (subst firstfree_loop.simps) (auto simp: free_at_def)
      with Suc False show ?thesis by (auto split: option.splits simp: le_Suc_eq)
    qed
  qed
  then show thesis by (cases "firstfree_loop ns ff") (auto intro: that)
qed

section \<open>Counting\<close>

lemma finite_dom_tmap [simp]: "finite (dom (tmap ns))"
  by (simp add: tmap_def finite_dom_map_of)

lemma dom_tmap: "dom (tmap ns) = {nkey (ns ! i) | i. used ns i}"
proof -
  have "k \<in> dom (tmap ns) \<longleftrightarrow> (\<exists>i. used ns i \<and> nkey (ns ! i) = k)" for k
    using tmap_None_iff [of ns k] by (auto simp: dom_def)
  then show ?thesis by (intro set_eqI) auto
qed

lemma nused_card_used: "nused ns = card {i. used ns i}"
  unfolding nused_def by (subst length_filter_conv_card) (simp add: used_def [abs_def])

lemma nused_eq_card:
  assumes "nodes_inv ns lo"
  shows "nused ns = card (dom (tmap ns))"
proof -
  have "inj_on (\<lambda>i. nkey (ns ! i)) {i. used ns i}"
    using nodes_inv_key [OF assms] by (auto simp: inj_on_def)
  then have "card ((\<lambda>i. nkey (ns ! i)) ` {i. used ns i}) = card {i. used ns i}"
    by (rule card_image)
  moreover have "dom (tmap ns) = (\<lambda>i. nkey (ns ! i)) ` {i. used ns i}"
    by (auto simp: dom_tmap)
  ultimately show ?thesis by (simp add: nused_card_used)
qed

lemma nused_le: "nused ns \<le> length ns"
  by (simp add: nused_def)

lemma unused_exists: "nused ns < length ns \<Longrightarrow> \<exists>i<length ns. \<not> used ns i"
proof (rule ccontr)
  assume a: "nused ns < length ns" and n: "\<not> (\<exists>i<length ns. \<not> used ns i)"
  then have "{i. used ns i} = {..<length ns}" by (auto simp: used_def)
  with a show False by (simp add: nused_card_used)
qed

lemma placedD:
  assumes "placed ns ff key mp ns'"
  shows placed_length: "length ns' = length ns"
    and placed_inv: "nodes_inv ns' ff"
    and placed_inv': "free_at ns' ff \<Longrightarrow> nodes_inv ns' (Suc ff)"
    and placed_used: "used ns' mp" "nkey (ns' ! mp) = key"
    and placed_links: "nxt ns' i \<noteq> None \<Longrightarrow> nxt ns i \<noteq> None \<or> used ns' i"
    and placed_keeps: "used ns i \<Longrightarrow> used ns' i"
  using assms unfolding placed_def by blast+

lemma placed_tmap:
  assumes inv: "nodes_inv ns lo" and p: "placed ns ff key mp ns'"
  shows "k \<noteq> key \<Longrightarrow> tmap ns' k = tmap ns k"
proof -
  assume "k \<noteq> key"
  with p have "tmap ns' k = Some v \<longleftrightarrow> tmap ns k = Some v" for v
    unfolding tmap_Some_iff [OF placed_inv [OF p]] tmap_Some_iff [OF inv]
    by (simp add: placed_def)
  then show ?thesis by (metis option.exhaust)
qed

lemma placed_set_val:
  assumes inv: "nodes_inv ns lo" and p: "placed ns ff key mp ns'"
  shows "tmap (set_val ns' mp v) = (tmap ns)(key \<mapsto> v)"
proof
  fix k
  show "tmap (set_val ns' mp v) k = ((tmap ns)(key \<mapsto> v)) k"
    using tmap_set_val [OF placed_inv [OF p] placed_used(1) [OF p]]
      placed_used(2) [OF p] placed_tmap [OF inv p] by simp
qed

lemma placed_nused:
  assumes inv: "nodes_inv ns lo" and p: "placed ns ff key mp ns'" and new: "tmap ns key = None"
  shows "nused ns' = Suc (nused ns)"
proof -
  have "(tmap ns')(key \<mapsto> ONull) = (tmap ns)(key \<mapsto> ONull)"
    using placed_set_val [OF inv p, of ONull] placed_used(2) [OF p]
      tmap_set_val [OF placed_inv [OF p] placed_used(1) [OF p], of ONull] by simp
  then have "dom ((tmap ns')(key \<mapsto> ONull)) = dom ((tmap ns)(key \<mapsto> ONull))"
    by (rule arg_cong)
  then have "insert key (dom (tmap ns')) = insert key (dom (tmap ns))" by simp
  moreover have "key \<in> dom (tmap ns')" using placed_used [OF p] by (auto simp: dom_tmap)
  ultimately have "dom (tmap ns') = insert key (dom (tmap ns))" by (simp add: insert_absorb)
  with new show ?thesis
    by (simp add: nused_eq_card [OF inv] nused_eq_card [OF placed_inv [OF p]] domIff)
qed

section \<open>Insertion\<close>

lemma table_invD:
  assumes "table_inv t"
  shows table_inv_nodes: "nodes_inv (t_nodes t) (Suc (t_firstfree t))"
    and table_inv_free: "free_at (t_nodes t) (t_firstfree t)"
    and table_inv_count: "t_usednodes t = int (nused (t_nodes t))"
    and table_inv_size: "\<exists>k\<ge>2. numofnodes t = 2 ^ k"
    and table_inv_pos: "0 < length (t_nodes t)"
  using assms by (auto simp: table_inv_def free_at_def)

lemma set_val_eq: "ns[i := (ns ! i)\<lparr>nval := v\<rparr>] = set_val ns i v"
  by (simp add: set_val_def)

lemma table_inv_set_val [simp]:
  "table_inv (t\<lparr>t_nodes := set_val (t_nodes t) i v\<rparr>) \<longleftrightarrow> table_inv t"
  by (simp add: table_inv_def numofnodes_def)

text \<open>
  Inserting a key that is there overwrites its value; inserting one that is not,
  while a node is free afterwards, adds it.
\<close>

lemma newslot_old:
  assumes inv: "table_inv t" and k: "key \<noteq> ONull" and old: "table_map t key = Some w"
  shows "\<exists>t'. newslot (Suc fuel) t key val = Some (False, t') \<and> table_inv t' \<and>
     table_map t' = (table_map t)(key \<mapsto> val) \<and> numofnodes t' = numofnodes t \<and>
     t_delegate t' = t_delegate t"
proof (cases rule: Get_node_cases [OF inv k, case_names found missing])
  case (found i)
  let ?t = "t\<lparr>t_nodes := set_val (t_nodes t) i val\<rparr>"
  have "newslot (Suc fuel) t key val = Some (False, ?t)"
    using found by (simp add: set_val_eq)
  moreover have "table_map ?t = (table_map t)(key \<mapsto> val)"
    using tmap_set_val [OF table_inv_nodes [OF inv] found(2)] found(3)
    by (simp add: table_map_def)
  ultimately show ?thesis using inv by (intro exI [of _ ?t]) (simp add: numofnodes_def)
next
  case missing
  with old show ?thesis by simp
qed

lemma newslot_place:
  assumes inv: "table_inv t" and k: "key \<noteq> ONull" and new: "table_map t key = None"
  obtains mp ns where "Get_node t key = Some None"
    "place_key (t_nodes t) (t_firstfree t) key = Some (mp, ns)"
    "placed (t_nodes t) (t_firstfree t) key mp ns" "nused ns = Suc (nused (t_nodes t))"
proof (cases rule: Get_node_cases [OF inv k, case_names found missing])
  case (found i)
  with new show ?thesis by simp
next
  case missing
  from place_key_correct [OF table_inv_nodes [OF inv] table_inv_free [OF inv] k missing(3)]
  obtain mp ns where p: "place_key (t_nodes t) (t_firstfree t) key = Some (mp, ns)"
    "placed (t_nodes t) (t_firstfree t) key mp ns" by blast
  have "nused ns = Suc (nused (t_nodes t))"
    using placed_nused [OF table_inv_nodes [OF inv] p(2)] new by (simp add: table_map_def)
  with missing(1) p show ?thesis by (intro that)
qed

lemma newslot_room:
  assumes inv: "table_inv t" and k: "key \<noteq> ONull" and new: "table_map t key = None"
    and p: "Get_node t key = Some None"
      "place_key (t_nodes t) (t_firstfree t) key = Some (mp, ns)"
      "placed (t_nodes t) (t_firstfree t) key mp ns"
      "nused ns = Suc (nused (t_nodes t))"
    and ff: "firstfree_loop ns (t_firstfree t) = Some f" "free_at ns f" "f \<le> t_firstfree t"
    and t': "t' = t\<lparr>t_nodes := set_val ns mp val, t_firstfree := f,
                   t_usednodes := t_usednodes t + 1\<rparr>"
  shows "newslot (Suc fuel) t key val = Some (True, t') \<and> table_inv t' \<and>
     table_map t' = (table_map t)(key \<mapsto> val) \<and> numofnodes t' = numofnodes t \<and>
     t_delegate t' = t_delegate t"
proof -
  have inv': "nodes_inv ns (Suc f)"
  proof (cases "f = t_firstfree t")
    case True
    with ff(2) placed_inv' [OF p(3)] show ?thesis by simp
  next
    case False
    with ff(3) show ?thesis by (intro nodes_inv_mono [OF placed_inv [OF p(3)]]) simp
  qed
  have "table_inv t'"
    using inv' ff(2) p(4) table_inv_count [OF inv] table_inv_size [OF inv] placed_length [OF p(3)]
    by (simp add: table_inv_def t' numofnodes_def)
  moreover have "table_map t' = (table_map t)(key \<mapsto> val)"
    using placed_set_val [OF table_inv_nodes [OF inv] p(3)] by (simp add: t' table_map_def)
  ultimately show ?thesis
    using p ff(1) placed_length [OF p(3)] by (simp add: t' set_val_eq numofnodes_def)
qed

section \<open>Reinsertion into a fresh_table array\<close>

text \<open>
  After an allocation no node has ever been emptied: free nodes have no link and
  everything above the free pointer is in use.
\<close>

definition fresh_table :: "sqtable \<Rightarrow> bool" where
  "fresh_table t \<longleftrightarrow> (\<forall>i. nxt (t_nodes t) i \<noteq> None \<longrightarrow> used (t_nodes t) i) \<and>
     (\<forall>i<numofnodes t. t_firstfree t < i \<longrightarrow> used (t_nodes t) i)"

lemma newslot_fresh:
  assumes inv: "table_inv t" and fr: "fresh_table t" and k: "key \<noteq> ONull"
    and new: "table_map t key = None" and room: "Suc (nused (t_nodes t)) < numofnodes t"
  shows "\<exists>t'. newslot (Suc fuel) t key val = Some (True, t') \<and> table_inv t' \<and> fresh_table t' \<and>
     table_map t' = (table_map t)(key \<mapsto> val) \<and> numofnodes t' = numofnodes t \<and>
     t_delegate t' = t_delegate t \<and> nused (t_nodes t') = Suc (nused (t_nodes t))"
proof -
  obtain mp ns where p: "Get_node t key = Some None"
      "place_key (t_nodes t) (t_firstfree t) key = Some (mp, ns)"
      "placed (t_nodes t) (t_firstfree t) key mp ns" "nused ns = Suc (nused (t_nodes t))"
    using newslot_place [OF inv k new] by blast
  have len: "length ns = numofnodes t" using placed_length [OF p(3)] by (simp add: numofnodes_def)
  have links: "nxt ns i \<noteq> None \<Longrightarrow> used ns i" for i
    using placed_links [OF p(3)] placed_keeps [OF p(3)] fr by (auto simp: fresh_table_def)
  have above: "i < numofnodes t \<Longrightarrow> t_firstfree t < i \<Longrightarrow> used ns i" for i
    using placed_keeps [OF p(3)] fr by (auto simp: fresh_table_def)
  have free: "free_at ns i \<longleftrightarrow> i < numofnodes t \<and> \<not> used ns i" for i
  proof -
    have "i < numofnodes t \<Longrightarrow> nnext (ns ! i) \<noteq> None \<Longrightarrow> nkey (ns ! i) \<noteq> ONull"
      using links [of i] by (simp add: nxt_def used_def len)
    then show ?thesis unfolding free_at_def used_def len by blast
  qed
  have ffl: "t_firstfree t < length ns"
    using table_inv_free [OF inv] len by (simp add: free_at_def numofnodes_def)
  have "nused ns < length ns" using p(4) room len by linarith
  then obtain i where i0: "i < length ns" "\<not> used ns i"
    using unused_exists [of ns] by blast
  have "i \<le> t_firstfree t" using i0 above [of i] len by (metis not_le)
  moreover have "free_at ns i" using i0 free [of i] len by simp
  ultimately have i: "free_at ns i" "i \<le> t_firstfree t" by blast+
  show ?thesis
  proof (cases rule: firstfree_loop_cases [OF ffl, case_names found full])
    case (found f)
    let ?t = "t\<lparr>t_nodes := set_val ns mp val, t_firstfree := f,
                t_usednodes := t_usednodes t + 1\<rparr>"
    have "used ns i" if "i < length ns" "f < i" for i
    proof (cases "i \<le> t_firstfree t")
      case True
      with found(4) that free len show ?thesis by metis
    next
      case False
      with above that len show ?thesis by simp
    qed
    with links have "fresh_table ?t" by (simp add: fresh_table_def numofnodes_def)
    moreover have "nused (t_nodes ?t) = Suc (nused (t_nodes t))" using p(4) by simp
    ultimately show ?thesis
      using newslot_room [OF inv k new p found(1,2,3) refl] by blast
  next
    case full
    with i show ?thesis by blast
  qed
qed

definition distinct_nodes :: "hashnode list \<Rightarrow> bool" where
  "distinct_nodes nds \<longleftrightarrow> distinct (map nkey (filter (\<lambda>n. nkey n \<noteq> ONull) nds))"

lemma distinct_nodes_Cons:
  "distinct_nodes (nd # nds) \<longleftrightarrow>
     (nkey nd \<noteq> ONull \<longrightarrow> tmap nds (nkey nd) = None) \<and> distinct_nodes nds"
  by (auto simp: distinct_nodes_def tmap_def map_of_eq_None_iff image_iff)

lemma tmap_Cons:
  "tmap (nd # nds) = (if nkey nd = ONull then tmap nds else (tmap nds)(nkey nd \<mapsto> nval nd))"
  by (simp add: tmap_def)

lemma nused_Cons: "nused (nd # nds) = (if nkey nd = ONull then 0 else 1) + nused nds"
  by (simp add: nused_def)

lemma distinct_nodes_inv: "nodes_inv ns lo \<Longrightarrow> distinct_nodes ns"
proof -
  assume inv: "nodes_inv ns lo"
  have "length (map nkey (filter (\<lambda>n. nkey n \<noteq> ONull) ns)) = card (dom (tmap ns))"
    using nused_eq_card [OF inv] by (simp add: nused_def)
  moreover have "dom (tmap ns) = set (map nkey (filter (\<lambda>n. nkey n \<noteq> ONull) ns))"
    by (auto simp: tmap_def dom_map_of_conv_image_fst image_image)
  ultimately show ?thesis unfolding distinct_nodes_def by (metis card_distinct)
qed

lemma reinsert_fresh:
  assumes "table_inv t" and "fresh_table t" and "distinct_nodes nds"
    and "\<And>k. tmap nds k \<noteq> None \<Longrightarrow> table_map t k = None"
    and "nused (t_nodes t) + nused nds < numofnodes t"
  shows "\<exists>t'. reinsert (Suc fuel) nds t = Some t' \<and> table_inv t' \<and> fresh_table t' \<and>
     table_map t' = table_map t ++ tmap nds \<and> numofnodes t' = numofnodes t \<and>
     t_delegate t' = t_delegate t \<and> nused (t_nodes t') = nused (t_nodes t) + nused nds"
  using assms
proof (induction nds arbitrary: t)
  case Nil
  then show ?case by (simp add: tmap_def nused_def)
next
  case (Cons nd nds)
  show ?case
  proof (cases "nkey nd = ONull")
    case True
    with Cons.IH [of t] Cons.prems show ?thesis
      by (simp add: distinct_nodes_Cons tmap_Cons nused_Cons)
  next
    case False
    with Cons.prems have new: "table_map t (nkey nd) = None"
      by (simp add: tmap_Cons)
    have room: "Suc (nused (t_nodes t)) < numofnodes t"
      using Cons.prems(5) False by (simp add: nused_Cons)
    from newslot_fresh [OF Cons.prems(1,2) False new room, of fuel "nval nd"]
    obtain t' where t': "newslot (Suc fuel) t (nkey nd) (nval nd) = Some (True, t')"
      "table_inv t'" "fresh_table t'" "table_map t' = (table_map t)(nkey nd \<mapsto> nval nd)"
      "numofnodes t' = numofnodes t" "t_delegate t' = t_delegate t"
      "nused (t_nodes t') = Suc (nused (t_nodes t))" by blast
    have d: "tmap nds (nkey nd) = None" "distinct_nodes nds"
      using Cons.prems(3) False by (auto simp: distinct_nodes_Cons)
    have "\<exists>t''. reinsert (Suc fuel) nds t' = Some t'' \<and> table_inv t'' \<and> fresh_table t'' \<and>
     table_map t'' = table_map t' ++ tmap nds \<and> numofnodes t'' = numofnodes t' \<and>
     t_delegate t'' = t_delegate t' \<and> nused (t_nodes t'') = nused (t_nodes t') + nused nds"
    proof (rule Cons.IH [OF t'(2,3) d(2)])
      show "table_map t' k = None" if "tmap nds k \<noteq> None" for k
        using that d(1) Cons.prems(4) [of k] t'(4) by (auto simp: tmap_Cons split: if_splits)
      show "nused (t_nodes t') + nused nds < numofnodes t'"
        using Cons.prems(5) False t'(5,7) by (simp add: nused_Cons)
    qed
    moreover have "(table_map t)(nkey nd \<mapsto> nval nd) ++ tmap nds =
        table_map t ++ tmap (nd # nds)"
      using d(1) False by (auto simp: tmap_Cons map_add_def fun_eq_iff split: option.splits)
    ultimately show ?thesis
      using t' False by (simp add: nused_Cons) 
  qed
qed

lemma alloc_fresh:
  fixes t :: sqtable
  assumes "2 \<le> k"
  defines "t' \<equiv> (AllocNodes (2 ^ k) t)\<lparr>t_usednodes := 0\<rparr>"
  shows "table_inv t' \<and> fresh_table t' \<and> table_map t' = Map.empty \<and> numofnodes t' = 2 ^ k \<and>
    t_delegate t' = t_delegate t \<and> nused (t_nodes t') = 0"
proof -
  let ?ns = "replicate (2 ^ k) empty_node"
  have nu: "\<not> used ?ns i" and nx: "nxt ?ns = (\<lambda>_. None)" for i
    by (auto simp: used_def nxt_def empty_node_def fun_eq_iff)
  have "nodes_inv ?ns lo" for lo
    unfolding nodes_inv_def by (auto simp: nu nx)
  moreover have "free_at ?ns (2 ^ k - 1)" by (simp add: free_at_def empty_node_def)
  moreover have "nused ?ns = 0" by (simp add: nused_def empty_node_def)
  moreover have "tmap ?ns = Map.empty"
    using nu by (auto simp: fun_eq_iff tmap_None_iff)
  ultimately show ?thesis
    using assms(1)
    by (auto simp: t'_def AllocNodes_def table_inv_def fresh_table_def numofnodes_def table_map_def nu nx)
qed

text \<open>The new size is a power of two with room for the keys and one more.\<close>

lemma rehash_size_room:
  assumes sz: "rehash_size n (int u) force = Some sz" and n: "n = 2 ^ k" and k: "2 \<le> k"
    and u: "u \<le> n"
  shows "(\<exists>k'\<ge>2. sz = 2 ^ k') \<and> Suc u < sz"
proof -
  obtain j where j: "k = j + 2" using k by (metis add.commute le_Suc_ex)
  define m where "m = (2::nat) ^ j"
  have m: "n = 4 * m" "0 < m" by (simp_all add: m_def n j power_add)
  then have n4: "max n 4 = n" "n div 4 = m" by auto
  consider "sz = n * 2" | "sz = n div 2" "u \<le> m" "4 < n" | "sz = n" "int u < int n - int m"
    using sz unfolding rehash_size_def Let_def n4 MINPOWER2_def by (auto split: if_splits)
  then show ?thesis
  proof cases
    case 1
    then have "sz = 2 ^ Suc k" using n by simp
    moreover have "2 \<le> Suc k" using k by simp
    moreover have "Suc u < sz" using 1 u m by simp
    ultimately show ?thesis by blast
  next
    case 2
    then have "1 < m" using m by simp
    then have "0 < j" by (cases j) (auto simp: m_def)
    then obtain i where i: "j = Suc i" using gr0_implies_Suc by blast
    have "sz = 2 ^ Suc j" using 2 m by (simp add: m_def)
    moreover have "2 \<le> Suc j" using i by simp
    moreover have "Suc u < sz" using 2 \<open>1 < m\<close> m by simp
    ultimately show ?thesis by blast
  next
    case 3
    then have "Suc u < sz" using m by linarith
    then show ?thesis using 3 n k by blast
  qed
qed

lemma rehash_size_forced: "\<exists>sz. rehash_size n u True = Some sz"
  by (simp add: rehash_size_def Let_def)

text \<open>Rehashing keeps the map; it needs only that the old keys are distinct.\<close>

lemma rehash_core:
  assumes sz: "rehash_size (numofnodes t) u force = Some sz"
    and n: "numofnodes t = 2 ^ k" "2 \<le> k"
    and d: "distinct_nodes (t_nodes t)"
    and u: "0 \<le> u" "int (nused (t_nodes t)) \<le> u + 1" "u \<le> int (numofnodes t)"
  shows "\<exists>t'. reinsert (Suc fuel) (t_nodes t) ((AllocNodes sz t)\<lparr>t_usednodes := 0\<rparr>) = Some t' \<and>
    table_inv t' \<and> fresh_table t' \<and> table_map t' = table_map t \<and> t_delegate t' = t_delegate t"
proof -
  have "u = int (nat u)" using u by simp
  with sz have "rehash_size (numofnodes t) (int (nat u)) force = Some sz" by simp
  moreover have "nat u \<le> numofnodes t" using u by simp
  ultimately have "(\<exists>k'\<ge>2. sz = 2 ^ k') \<and> Suc (nat u) < sz" by (rule rehash_size_room [OF _ n])
  then obtain k' where k': "2 \<le> k'" "sz = 2 ^ k'" "Suc (nat u) < sz"
    by blast
  let ?t = "(AllocNodes sz t)\<lparr>t_usednodes := 0\<rparr>"
  from alloc_fresh [OF k'(1), of t] k'(2)
  have f: "table_inv ?t" "fresh_table ?t" "table_map ?t = Map.empty" "numofnodes ?t = sz"
    "t_delegate ?t = t_delegate t" "nused (t_nodes ?t) = 0" by simp_all
  have "nused (t_nodes ?t) + nused (t_nodes t) < numofnodes ?t"
    using u k'(3) f by simp
  from reinsert_fresh [OF f(1,2) d _ this, of fuel] f
  show ?thesis by (auto simp: table_map_def)
qed

lemma newslot_full:
  assumes inv: "table_inv t" and k: "key \<noteq> ONull" and new: "table_map t key = None"
    and p: "Get_node t key = Some None"
      "place_key (t_nodes t) (t_firstfree t) key = Some (mp, ns)"
      "placed (t_nodes t) (t_firstfree t) key mp ns"
      "nused ns = Suc (nused (t_nodes t))"
    and ff: "firstfree_loop ns (t_firstfree t) = None"
  shows "\<exists>t'. newslot (Suc (Suc fuel)) t key val = Some (False, t') \<and> table_inv t' \<and>
     table_map t' = (table_map t)(key \<mapsto> val) \<and> t_delegate t' = t_delegate t"
proof -
  let ?t1 = "t\<lparr>t_nodes := ns, t_firstfree := 0\<rparr>"
  have len: "length ns = numofnodes t" using placed_length [OF p(3)] by (simp add: numofnodes_def)
  obtain k' where k': "numofnodes t = 2 ^ k'" "2 \<le> k'" using table_inv_size [OF inv] by blast
  obtain sz where sz: "rehash_size (numofnodes ?t1) (t_usednodes ?t1) True = Some sz"
    using rehash_size_forced by blast
  have "\<exists>t'. reinsert (Suc fuel) (t_nodes ?t1) ((AllocNodes sz ?t1)\<lparr>t_usednodes := 0\<rparr>) = Some t' \<and>
    table_inv t' \<and> fresh_table t' \<and> table_map t' = table_map ?t1 \<and> t_delegate t' = t_delegate ?t1"
  proof (rule rehash_core [OF sz _ k'(2)])
    show "numofnodes ?t1 = 2 ^ k'" using len k' by (simp add: numofnodes_def)
    show "distinct_nodes (t_nodes ?t1)"
      using distinct_nodes_inv [OF placed_inv [OF p(3)]] by simp
    show "0 \<le> t_usednodes ?t1" "int (nused (t_nodes ?t1)) \<le> t_usednodes ?t1 + 1"
      "t_usednodes ?t1 \<le> int (numofnodes ?t1)"
      using table_inv_count [OF inv] p(4) nused_le [of ns] len by (simp_all add: numofnodes_def)
  qed
  then obtain t2 where t2: "reinsert (Suc fuel) ns ((AllocNodes sz ?t1)\<lparr>t_usednodes := 0\<rparr>) = Some t2"
    "table_inv t2" "table_map t2 = tmap ns" "t_delegate t2 = t_delegate t"
    by (auto simp: table_map_def)
  have step: "newslot (Suc (Suc fuel)) t key val = newslot (Suc fuel) t2 key val"
    using p ff sz t2(1) by (simp add: Let_def numofnodes_def)
  have "tmap ns key \<noteq> None" using placed_used [OF p(3)] by (auto simp: tmap_None_iff)
  with t2(3) obtain w where "table_map t2 key = Some w" by auto
  from newslot_old [OF t2(2) k this, of fuel val] obtain t' where
    t': "newslot (Suc fuel) t2 key val = Some (False, t')" "table_inv t'"
      "table_map t' = (table_map t2)(key \<mapsto> val)" "t_delegate t' = t_delegate t2" by blast
  have "(tmap ns)(key \<mapsto> val) = (tmap (t_nodes t))(key \<mapsto> val)"
    using placed_tmap [OF table_inv_nodes [OF inv] p(3)] by (auto simp: fun_eq_iff)
  with t' t2 have "table_map t' = (table_map t)(key \<mapsto> val)" by (simp add: table_map_def)
  with step t' t2 show ?thesis by auto
qed

section \<open>The operations refine the operations on maps\<close>

lemma NewSlot_refines:
  assumes inv: "table_inv t" and k: "key \<noteq> ONull"
  shows "\<exists>b t'. Table_NewSlot t key val = Some (b, t') \<and> table_inv t' \<and>
     table_map t' = (table_map t)(key \<mapsto> val) \<and> t_delegate t' = t_delegate t \<and>
     (b \<longrightarrow> table_map t key = None)"
proof (cases "table_map t key")
  case (Some w)
  from newslot_old [OF inv k this, of "Suc 0" val] show ?thesis
    unfolding Table_NewSlot_def rehash_fuel_def numeral_2_eq_2 by blast
next
  case None
  obtain mp ns where p: "Get_node t key = Some None"
      "place_key (t_nodes t) (t_firstfree t) key = Some (mp, ns)"
      "placed (t_nodes t) (t_firstfree t) key mp ns" "nused ns = Suc (nused (t_nodes t))"
    using newslot_place [OF inv k None] by blast
  have ffl: "t_firstfree t < length ns"
    using table_inv_free [OF inv] placed_length [OF p(3)] by (simp add: free_at_def)
  show ?thesis
  proof (cases rule: firstfree_loop_cases [OF ffl, case_names found full])
    case (found f)
    from newslot_room [OF inv k None p found(1,2,3) refl] None show ?thesis
      unfolding Table_NewSlot_def rehash_fuel_def numeral_2_eq_2 by blast
  next
    case full
    from newslot_full [OF inv k None p full(1)] show ?thesis
      unfolding Table_NewSlot_def rehash_fuel_def numeral_2_eq_2 by blast
  qed
qed

lemma Get_refines:
  assumes inv: "table_inv t"
  shows "Table_Get wr t key = Some (map_option (realval wr) (table_map t key))"
proof (cases "key = ONull")
  case True
  then show ?thesis by (simp add: Table_Get_def table_map_def)
next
  case False
  show ?thesis
    by (cases rule: Get_node_cases [OF inv False]) (simp_all add: Table_Get_def False)
qed

lemma Set_refines:
  assumes inv: "table_inv t" and k: "key \<noteq> ONull"
  shows "\<exists>t'. Table_Set t key val = Some (table_map t key \<noteq> None, t') \<and> table_inv t' \<and>
     table_map t' = (if table_map t key = None then table_map t else (table_map t)(key \<mapsto> val)) \<and>
     t_delegate t' = t_delegate t"
proof (cases rule: Get_node_cases [OF inv k, case_names found missing])
  case (found i)
  let ?t = "t\<lparr>t_nodes := set_val (t_nodes t) i val\<rparr>"
  have "table_map ?t = (table_map t)(key \<mapsto> val)"
    using tmap_set_val [OF table_inv_nodes [OF inv] found(2)] found(3)
    by (simp add: table_map_def)
  with found inv show ?thesis by (intro exI [of _ ?t]) (simp add: Table_Set_def set_val_eq)
next
  case missing
  with inv show ?thesis by (simp add: Table_Set_def)
qed

text \<open>Emptying a node keeps the links, so the chain through it stays walkable.\<close>

lemma drop_key:
  assumes inv: "nodes_inv ns lo" and u: "used ns i"
  defines "ns' \<equiv> ns[i := (ns ! i)\<lparr>nval := ONull, nkey := ONull\<rparr>]"
  shows "nodes_inv ns' lo" and "tmap ns' = (tmap ns)(nkey (ns ! i) := None)"
    and "Suc (nused ns') = nused ns"
proof -
  have i: "i < length ns" using u by (simp add: used_def)
  have len: "length ns' = length ns" by (simp add: ns'_def)
  have nx: "nxt ns' = nxt ns" using i by (auto simp: ns'_def nxt_def nth_list_update fun_eq_iff)
  have us: "used ns' j \<longleftrightarrow> used ns j \<and> j \<noteq> i" for j
    using i by (auto simp: ns'_def used_def nth_list_update)
  have nd: "j \<noteq> i \<Longrightarrow> ns' ! j = ns ! j" for j
    using i by (simp add: ns'_def nth_list_update)
  have hm: "j \<noteq> i \<Longrightarrow> home ns' j = home ns j" for j
    using nd by (simp add: home_def ns'_def)
  show inv': "nodes_inv ns' lo"
    using inv unfolding nodes_inv_def nx us len by (auto simp: hm nd)
  have "tmap ns' k = Some v \<longleftrightarrow> ((tmap ns)(nkey (ns ! i) := None)) k = Some v" for k v
    unfolding tmap_Some_iff [OF inv'] us
    using nodes_inv_key [OF inv _ u] u by (auto simp: tmap_Some_iff [OF inv] nd) (metis nd)
  then show m: "tmap ns' = (tmap ns)(nkey (ns ! i) := None)"
    by (intro ext) (metis option.exhaust)
  have "nkey (ns ! i) \<in> dom (tmap ns)" using u by (auto simp: dom_tmap)
  from card_Suc_Diff1 [OF finite_dom_tmap this]
  have "Suc (card (dom (tmap ns'))) = card (dom (tmap ns))" unfolding m by simp
  then show "Suc (nused ns') = nused ns"
    unfolding nused_eq_card [OF inv] nused_eq_card [OF inv'] .
qed

lemma Remove_refines:
  assumes inv: "table_inv t" and k: "key \<noteq> ONull"
  shows "\<exists>t'. Table_Remove t key = Some t' \<and> table_inv t' \<and>
     table_map t' = (table_map t)(key := None) \<and> t_delegate t' = t_delegate t"
proof (cases rule: Get_node_cases [OF inv k, case_names found missing])
  case (found i)
  let ?ns = "(t_nodes t)[i := (t_nodes t ! i)\<lparr>nval := ONull, nkey := ONull\<rparr>]"
  let ?t = "t\<lparr>t_nodes := ?ns, t_usednodes := t_usednodes t - 1\<rparr>"
  note d = drop_key [OF table_inv_nodes [OF inv] found(2)]
  have i: "i < length (t_nodes t)" using found(2) by (simp add: used_def)
  have cnt: "t_usednodes ?t = int (nused ?ns)"
    using d(3) table_inv_count [OF inv] by simp
  have fr: "free_at ?ns (t_firstfree t)"
    using table_inv_free [OF inv] i by (auto simp: free_at_def nth_list_update)
  have m: "table_map ?t = (table_map t)(key := None)"
    using d(2) found(3) by (simp add: table_map_def)
  have inv': "table_inv ?t"
    using d(1) fr cnt table_inv_size [OF inv] by (simp add: table_inv_def numofnodes_def)
  have R: "Table_Remove t key = Rehash False ?t"
    using found(1) by (simp add: Table_Remove_def)
  show ?thesis
  proof (cases "rehash_size (numofnodes ?t) (t_usednodes ?t) False")
    case None
    with R inv' m show ?thesis by (simp add: Rehash_def)
  next
    case (Some sz)
    obtain k' where k': "numofnodes ?t = 2 ^ k'" "2 \<le> k'" using table_inv_size [OF inv'] by blast
    have "\<exists>t'. reinsert (Suc (Suc 0)) (t_nodes ?t) ((AllocNodes sz ?t)\<lparr>t_usednodes := 0\<rparr>) = Some t' \<and>
      table_inv t' \<and> fresh_table t' \<and> table_map t' = table_map ?t \<and> t_delegate t' = t_delegate ?t"
      using distinct_nodes_inv [OF table_inv_nodes [OF inv']] cnt nused_le [of ?ns]
      by (intro rehash_core [OF Some k']) (simp_all add: numofnodes_def)
    with R Some m show ?thesis
      by (auto simp: Rehash_def rehash_fuel_def eval_nat_numeral)
  qed
next
  case missing
  with inv show ?thesis by (auto simp: Table_Remove_def)
qed

lemma Clear_refines:
  assumes inv: "table_inv t"
  shows "\<exists>t'. Table_Clear t = Some t' \<and> table_inv t' \<and> table_map t' = Map.empty \<and>
     t_delegate t' = t_delegate t"
proof -
  let ?t = "(ClearNodes t)\<lparr>t_usednodes := 0\<rparr>"
  have z: "filter (\<lambda>n. nkey n \<noteq> ONull) (t_nodes ?t) = []"
    by (auto simp: ClearNodes_def filter_empty_conv)
  then have m: "nused (t_nodes ?t) = 0" "table_map ?t = Map.empty" "distinct_nodes (t_nodes ?t)"
    by (simp_all add: nused_def table_map_def tmap_def distinct_nodes_def)
  obtain k' where k': "numofnodes ?t = 2 ^ k'" "2 \<le> k'"
    using table_inv_size [OF inv] by (auto simp: ClearNodes_def numofnodes_def)
  obtain sz where sz: "rehash_size (numofnodes ?t) (t_usednodes ?t) True = Some sz"
    using rehash_size_forced by blast
  have "\<exists>t'. reinsert (Suc (Suc 0)) (t_nodes ?t) ((AllocNodes sz ?t)\<lparr>t_usednodes := 0\<rparr>) = Some t' \<and>
      table_inv t' \<and> fresh_table t' \<and> table_map t' = table_map ?t \<and> t_delegate t' = t_delegate ?t"
    using m by (intro rehash_core [OF sz k']) simp_all
  with sz m show ?thesis
    by (auto simp: Table_Clear_def Rehash_def rehash_fuel_def eval_nat_numeral ClearNodes_def)
qed

lemma pow2size_loop_bounds:
  "2 \<le> k \<Longrightarrow> \<exists>k'\<ge>2. pow2size_loop n (2 ^ k) = 2 ^ k' \<and> n \<le> 2 ^ k'"
proof (induction "nat (n - 2 ^ k)" arbitrary: k rule: less_induct)
  case less
  show ?case
  proof (cases "n > 2 ^ k")
    case True
    then have "pow2size_loop n (2 ^ k) = pow2size_loop n (2 ^ Suc k)"
      by (subst pow2size_loop.simps) simp
    moreover have "nat (n - 2 ^ Suc k) < nat (n - 2 ^ k)"
      using True zero_less_power [of "2::int" k] by simp
    ultimately show ?thesis using less.hyps [of "Suc k"] less.prems by simp
  next
    case False
    then have "pow2size_loop n (2 ^ k) = 2 ^ k" by (subst pow2size_loop.simps) simp
    with False less.prems show ?thesis by (intro exI [of _ k]) simp
  qed
qed

lemma pow2size_loop_exact:
  assumes "2 \<le> j"
  shows "pow2size_loop (int (2 ^ j)) 4 = 2 ^ j"
proof -
  have "i \<le> j \<Longrightarrow> pow2size_loop (int (2 ^ j)) (2 ^ i) = 2 ^ j" for i
  proof (induction "j - i" arbitrary: i)
    case 0
    then show ?case by (subst pow2size_loop.simps) simp
  next
    case (Suc d)
    then have "i < j" by simp
    then have "(2::int) ^ i < 2 ^ j" by simp
    then have "pow2size_loop (int (2 ^ j)) (2 ^ i) = pow2size_loop (int (2 ^ j)) (2 ^ Suc i)"
      by (subst pow2size_loop.simps) simp
    with Suc.hyps(1) [of "Suc i"] Suc.hyps(2) \<open>i < j\<close> show ?case by simp
  qed
  from this [of 2] assms show ?thesis by simp
qed

lemma new_table:
  "table_inv (SQTable_new n) \<and> table_map (SQTable_new n) = Map.empty \<and>
   n \<le> int (numofnodes (SQTable_new n)) \<and> fresh_table (SQTable_new n)"
proof -
  obtain k where k: "2 \<le> k" "pow2size_loop n MINPOWER2 = 2 ^ k" "n \<le> 2 ^ k"
    using pow2size_loop_bounds [of 2 n] by (auto simp: MINPOWER2_def)
  let ?t = "\<lparr>t_nodes = [], t_firstfree = 0, t_usednodes = 0, t_delegate = None\<rparr>"
  have "SQTable_new n = (AllocNodes (2 ^ k) ?t)\<lparr>t_usednodes := 0\<rparr>"
    by (simp add: SQTable_new_def k AllocNodes_def)
  with alloc_fresh [OF k(1), of ?t] k(3) show ?thesis by simp
qed

section \<open>Iteration and cloning\<close>

text \<open>
  The iteration every client of the table writes: call \<open>Next\<close> with the position it
  returned last until it returns -1.
\<close>

fun Table_iterate ::
    "nat \<Rightarrow> (addr \<Rightarrow> sqobj) \<Rightarrow> sqtable \<Rightarrow> bool \<Rightarrow> sqobj \<Rightarrow> (sqobj \<times> sqobj) list option" where
  "Table_iterate 0 wr t weak refpos = None"
| "Table_iterate (Suc fuel) wr t weak refpos =
     (case Table_Next wr t weak refpos of
        None \<Rightarrow> Some []
      | Some (idx, key, val) \<Rightarrow>
          map_option (\<lambda>kvs. (key, val) # kvs)
            (Table_iterate fuel wr t weak (OInteger (of_nat idx))))"

definition used_nodes :: "hashnode list \<Rightarrow> nat \<Rightarrow> hashnode list" where
  "used_nodes ns i = filter (\<lambda>n. nkey n \<noteq> ONull) (drop i ns)"

lemma next_loop_used:
  "(case next_loop ns i of
      None \<Rightarrow> used_nodes ns i = []
    | Some j \<Rightarrow> i \<le> j \<and> j < length ns \<and> nkey (ns ! j) \<noteq> ONull \<and>
        used_nodes ns i = ns ! j # used_nodes ns (Suc j))"
proof (induction ns i rule: next_loop.induct)
  case (1 ns i)
  show ?case
  proof (cases "i < length ns")
    case True
    then have d: "drop i ns = ns ! i # drop (Suc i) ns" by (simp add: Cons_nth_drop_Suc)
    show ?thesis
    proof (cases "nkey (ns ! i) = ONull")
      case False
      with True d show ?thesis by (subst next_loop.simps) (simp add: used_nodes_def)
    next
      case n: True
      with True have "next_loop ns i = next_loop ns (Suc i)" by (subst next_loop.simps) simp
      moreover have "used_nodes ns i = used_nodes ns (Suc i)" using d n by (simp add: used_nodes_def)
      ultimately show ?thesis using 1 True n by (auto split: option.splits)
    qed
  next
    case False
    then show ?thesis by (subst next_loop.simps) (simp add: used_nodes_def)
  qed
qed

lemma sint_of_nat_small: "i < 2 ^ 63 \<Longrightarrow> sint (of_nat i :: sqint) = int i"
  by (simp add: sint_uint word_size signed_take_bit_int_eq_self_iff unsigned_of_nat
      take_bit_nat_eq_self signed_take_bit_int_eq_self)

lemma Table_Next_at:
  assumes "i < 2 ^ 63"
  shows "Table_Next wr t weak (OInteger (of_nat i)) =
    (case next_loop (t_nodes t) i of
       None \<Rightarrow> None
     | Some j \<Rightarrow> Some (Suc j, nkey (t_nodes t ! j),
         if weak then nval (t_nodes t ! j) else realval wr (nval (t_nodes t ! j))))"
  using sint_of_nat_small [OF assms] by (simp add: Table_Next_def Let_def split: option.split)

lemma iterate_used:
  assumes "numofnodes t < 2 ^ 63"
  shows "i \<le> numofnodes t \<Longrightarrow> numofnodes t - i < fuel \<Longrightarrow>
    Table_iterate fuel wr t weak (OInteger (of_nat i)) =
    Some (map (\<lambda>n. (nkey n, if weak then nval n else realval wr (nval n)))
           (used_nodes (t_nodes t) i))"
proof (induction fuel arbitrary: i)
  case (Suc fuel)
  note nl = next_loop_used [of "t_nodes t" i]
  have b: "i < 2 ^ 63" using Suc.prems assms by simp
  show ?case
  proof (cases "next_loop (t_nodes t) i")
    case None
    with nl show ?thesis by (simp add: Table_Next_at [OF b])
  next
    case (Some j)
    with nl have j: "i \<le> j" "j < numofnodes t"
      "used_nodes (t_nodes t) i = t_nodes t ! j # used_nodes (t_nodes t) (Suc j)"
      by (auto simp: numofnodes_def)
    then have "Table_iterate fuel wr t weak (OInteger (of_nat (Suc j))) =
      Some (map (\<lambda>n. (nkey n, if weak then nval n else realval wr (nval n)))
           (used_nodes (t_nodes t) (Suc j)))"
      using Suc.prems by (intro Suc.IH) auto
    with j Some show ?thesis by (simp add: Table_Next_at [OF b])
  qed
qed simp

lemma clone_loop_reinsert:
  assumes "numofnodes t < 2 ^ 63"
  shows "i \<le> numofnodes t \<Longrightarrow> numofnodes t - i < fuel \<Longrightarrow>
    clone_loop fuel t i nt = reinsert rehash_fuel (used_nodes (t_nodes t) i) nt"
proof (induction fuel arbitrary: i nt)
  case (Suc fuel)
  note nl = next_loop_used [of "t_nodes t" i]
  have b: "i < 2 ^ 63" using Suc.prems assms by simp
  show ?case
  proof (cases "next_loop (t_nodes t) i")
    case None
    with nl show ?thesis by (simp add: Table_Next_at [OF b])
  next
    case (Some j)
    with nl have j: "i \<le> j" "j < numofnodes t" "nkey (t_nodes t ! j) \<noteq> ONull"
      "used_nodes (t_nodes t) i = t_nodes t ! j # used_nodes (t_nodes t) (Suc j)"
      by (auto simp: numofnodes_def)
    have IH: "clone_loop fuel t (Suc j) nt' = reinsert rehash_fuel (used_nodes (t_nodes t) (Suc j)) nt'"
      for nt' using Suc.prems j by (intro Suc.IH) auto
    from j(3) Some show ?thesis
      by (simp add: Table_Next_at [OF b] j(4) IH Table_NewSlot_def split: option.splits)
  qed
qed simp

lemma Clone_refines:
  assumes inv: "table_inv t" and small: "numofnodes t < 2 ^ 63"
  shows "\<exists>nt. Table_Clone t = Some nt \<and> table_inv nt \<and> table_map nt = table_map t \<and>
     t_delegate nt = t_delegate t \<and> numofnodes nt = numofnodes t"
proof -
  let ?us = "used_nodes (t_nodes t) 0" and ?n = "SQTable_new (int (numofnodes t))"
  have tm: "tmap ?us = table_map t" and nu: "nused ?us = nused (t_nodes t)"
    and d: "distinct_nodes ?us"
    using distinct_nodes_inv [OF table_inv_nodes [OF inv]]
    by (simp_all add: used_nodes_def tmap_def table_map_def nused_def distinct_nodes_def)
  obtain i where "i < numofnodes t" "\<not> used (t_nodes t) i"
    using table_inv_free [OF inv] by (auto simp: free_at_def used_def numofnodes_def)
  then have "{i. used (t_nodes t) i} \<subset> {..<numofnodes t}"
    by (auto simp: used_def numofnodes_def)
  from psubset_card_mono [OF _ this] have lt: "nused (t_nodes t) < numofnodes t"
    by (simp add: nused_card_used)
  have n: "table_inv ?n" "table_map ?n = Map.empty" "fresh_table ?n" "numofnodes t \<le> numofnodes ?n"
    using new_table [of "int (numofnodes t)"] by auto
  then have z: "nused (t_nodes ?n) = 0"
    using nused_eq_card [OF table_inv_nodes [OF n(1)]] by (simp add: table_map_def)
  obtain k where k: "2 \<le> k" "numofnodes t = 2 ^ k" using table_inv_size [OF inv] by blast
  have sz: "numofnodes ?n = numofnodes t"
    using pow2size_loop_exact [OF k(1)] by (simp add: SQTable_new_def AllocNodes_def numofnodes_def
        MINPOWER2_def k(2) [unfolded numofnodes_def])
  have "\<exists>nt. reinsert (Suc (Suc 0)) ?us ?n = Some nt \<and> table_inv nt \<and> fresh_table nt \<and>
     table_map nt = table_map ?n ++ tmap ?us \<and> numofnodes nt = numofnodes ?n \<and>
     t_delegate nt = t_delegate ?n \<and> nused (t_nodes nt) = nused (t_nodes ?n) + nused ?us"
    by (rule reinsert_fresh [OF n(1,3) d]) (simp_all add: n z nu sz lt)
  then obtain nt where nt: "reinsert rehash_fuel ?us ?n = Some nt" "table_inv nt"
    "table_map nt = table_map t" "numofnodes nt = numofnodes t"
    by (auto simp: rehash_fuel_def eval_nat_numeral n tm sz)
  have "clone_loop (Suc (numofnodes t)) t 0 ?n = Some nt"
    using clone_loop_reinsert [OF small, of 0 "Suc (numofnodes t)"] nt(1) by simp
  then have "Table_Clone t = Some (nt\<lparr>t_delegate := t_delegate t\<rparr>)"
    by (simp add: Table_Clone_def)
  moreover have "table_inv (nt\<lparr>t_delegate := t_delegate t\<rparr>)"
    using nt(2) by (simp add: table_inv_def numofnodes_def)
  ultimately show ?thesis using nt by (simp add: table_map_def numofnodes_def)
qed

section \<open>The table provides the slot interface\<close>

interpretation tbl: slot_dict table_inv table_map "\<lambda>k. k \<noteq> ONull" Table_NewSlot
    "realval wr" "Table_Get wr" for wr
proof unfold_locales
  show "\<exists>b t'. Table_NewSlot t k v = Some (b, t') \<and> table_inv t' \<and>
      table_map t' = (table_map t)(k \<mapsto> v)"
    if "table_inv t" "k \<noteq> ONull" for t k v
    using NewSlot_refines [OF that] by blast
  show "Table_Get wr t k = Some (map_option (realval wr) (table_map t k))"
    if "table_inv t" for t k
    using that by (rule Get_refines)
qed

section \<open>Properties\<close>

text \<open>A program of table operations and what it means on partial maps.\<close>

datatype table_op =
  TNewSlot sqobj sqobj | TSet sqobj sqobj | TRemove sqobj | TClear

fun op_key_ok :: "table_op \<Rightarrow> bool" where
  "op_key_ok (TNewSlot k v) \<longleftrightarrow> k \<noteq> ONull"
| "op_key_ok (TSet k v) \<longleftrightarrow> k \<noteq> ONull"
| "op_key_ok (TRemove k) \<longleftrightarrow> k \<noteq> ONull"
| "op_key_ok TClear \<longleftrightarrow> True"

fun run_table :: "sqtable \<Rightarrow> table_op list \<Rightarrow> sqtable option" where
  "run_table t [] = Some t"
| "run_table t (TNewSlot k v # ops) =
     Option.bind (Table_NewSlot t k v) (\<lambda>(b, t'). run_table t' ops)"
| "run_table t (TSet k v # ops) =
     Option.bind (Table_Set t k v) (\<lambda>(b, t'). run_table t' ops)"
| "run_table t (TRemove k # ops) = Option.bind (Table_Remove t k) (\<lambda>t'. run_table t' ops)"
| "run_table t (TClear # ops) = Option.bind (Table_Clear t) (\<lambda>t'. run_table t' ops)"

fun spec_table :: "(sqobj \<Rightarrow> sqobj option) \<Rightarrow> table_op list \<Rightarrow> (sqobj \<Rightarrow> sqobj option)" where
  "spec_table m [] = m"
| "spec_table m (TNewSlot k v # ops) = spec_table (m(k \<mapsto> v)) ops"
| "spec_table m (TSet k v # ops) = spec_table (if m k = None then m else m(k \<mapsto> v)) ops"
| "spec_table m (TRemove k # ops) = spec_table (m(k := None)) ops"
| "spec_table m (TClear # ops) = spec_table Map.empty ops"

lemma run_table_inv:
  assumes "table_inv t" and "list_all op_key_ok ops"
  shows "\<exists>t'. run_table t ops = Some t' \<and> table_inv t' \<and>
           table_map t' = spec_table (table_map t) ops"
  using assms
proof (induction ops arbitrary: t)
  case (Cons x ops)
  from Cons.prems have ok: "op_key_ok x" and oks: "list_all op_key_ok ops" by auto
  show ?case
  proof (cases x)
    case (TNewSlot k v)
    with ok NewSlot_refines [OF Cons.prems(1), of k v] obtain b t' where
      "Table_NewSlot t k v = Some (b, t')" "table_inv t'" "table_map t' = (table_map t)(k \<mapsto> v)"
      by auto
    with Cons.IH [OF _ oks] TNewSlot show ?thesis by fastforce
  next
    case (TSet k v)
    with ok Set_refines [OF Cons.prems(1), of k v] obtain b t' where
      "Table_Set t k v = Some (b, t')" "table_inv t'"
      "table_map t' = (if table_map t k = None then table_map t else (table_map t)(k \<mapsto> v))"
      by auto
    with Cons.IH [OF _ oks] TSet show ?thesis by fastforce
  next
    case (TRemove k)
    with ok Remove_refines [OF Cons.prems(1), of k] obtain t' where
      "Table_Remove t k = Some t'" "table_inv t'" "table_map t' = (table_map t)(k := None)" by auto
    with Cons.IH [OF _ oks] TRemove show ?thesis by fastforce
  next
    case TClear
    with Clear_refines [OF Cons.prems(1)] obtain t' where
      "Table_Clear t = Some t'" "table_inv t'" "table_map t' = Map.empty" by auto
    with Cons.IH [OF _ oks] TClear show ?thesis by fastforce
  qed
qed simp

text \<open>
  C1. Every sequence of insertions, assignments, removals and clears on a new
  table returns (no chain is cyclic, rehashing never runs out of its fuel), keeps
  the invariant of the node array, and reads back exactly as the same sequence
  on a partial map; the null key is never found.
\<close>

theorem table_refines_map:
  assumes "list_all op_key_ok ops"
  shows "\<exists>t. run_table (SQTable_new n) ops = Some t \<and> table_inv t \<and>
     (\<forall>k. Table_Get wr t k = Some (map_option (realval wr) (spec_table Map.empty ops k)))"
  using run_table_inv [of "SQTable_new n" ops] new_table [of n] assms by (auto simp: Get_refines)

theorem table_refines_map_witness:
  "\<exists>t. run_table (SQTable_new 0)
      [TNewSlot (OInteger 0) (OBool True), TNewSlot (OInteger 4) ONull, TRemove (OInteger 0),
       TNewSlot (OInteger 8) (OBool False)] = Some t \<and> table_inv t \<and>
     (\<forall>k. Table_Get (\<lambda>_. ONull) t k = Some (map_option (realval (\<lambda>_. ONull))
        (spec_table Map.empty [TNewSlot (OInteger 0) (OBool True), TNewSlot (OInteger 4) ONull,
          TRemove (OInteger 0), TNewSlot (OInteger 8) (OBool False)] k)))"
  by (rule table_refines_map) simp

end
