(* ===== verification/TableProps.thy ===== *)
theory TableProps
  imports TableOps
begin

text \<open>
  Properties of the table beyond the reading of its map: cloning, iteration, the
  flag of an insertion, and what the unguarded operations do with the null key.
\<close>

section \<open>Cloning\<close>

text \<open>
  A clone of a well-formed table is a well-formed table with the same slots,
  the same number of nodes and the same delegate (weak references are copied as
  they are, not as what they point to), and it reads back the same.
\<close>

theorem clone_same_slots:
  assumes "table_inv t" and "numofnodes t < 2 ^ 63"
  shows "\<exists>nt. Table_Clone t = Some nt \<and> table_inv nt \<and> table_map nt = table_map t \<and>
     numofnodes nt = numofnodes t \<and> t_delegate nt = t_delegate t \<and>
     (\<forall>k. Table_Get wr nt k = Table_Get wr t k)"
  using Clone_refines [OF assms] assms(1) by (auto simp: Get_refines)

theorem clone_same_slots_witness:
  "\<exists>nt. Table_Clone (SQTable_new 9) = Some nt \<and> table_inv nt \<and>
     table_map nt = table_map (SQTable_new 9) \<and> numofnodes nt = numofnodes (SQTable_new 9) \<and>
     t_delegate nt = t_delegate (SQTable_new 9) \<and>
     (\<forall>k. Table_Get (\<lambda>_. ONull) nt k = Table_Get (\<lambda>_. ONull) (SQTable_new 9) k)"
  by (rule clone_same_slots)
    (simp_all add: new_table, simp add: SQTable_new_def AllocNodes_def numofnodes_def
      pow2size_loop.simps MINPOWER2_def)

section \<open>Iteration\<close>

lemma map_of_iterated:
  "map_of (map (\<lambda>n. (nkey n, if weak then nval n else realval wr (nval n))) (used_nodes ns 0)) k =
   map_option (\<lambda>v. if weak then v else realval wr v) (tmap ns k)"
  by (induction ns) (auto simp: tmap_def used_nodes_def)

lemma distinct_iterated:
  "nodes_inv ns lo \<Longrightarrow> distinct (map nkey (used_nodes ns 0))"
  using distinct_nodes_inv [of ns lo] by (simp add: distinct_nodes_def used_nodes_def)

text \<open>
  Walking a table with \<open>Next\<close> from the null position ends and visits every
  slot exactly once: the keys it yields are distinct, and its pairs are the
  table's map, with weak references resolved unless they were asked for.
\<close>

theorem iteration_is_the_map:
  assumes "table_inv t" and "numofnodes t < 2 ^ 63"
  shows "\<exists>kvs. Table_iterate (Suc (numofnodes t)) wr t weak ONull = Some kvs \<and>
     distinct (map fst kvs) \<and>
     map_of kvs = map_option (\<lambda>v. if weak then v else realval wr v) \<circ> table_map t \<and>
     int (length kvs) = CountUsed t"
proof -
  let ?kvs = "map (\<lambda>n. (nkey n, if weak then nval n else realval wr (nval n)))
    (used_nodes (t_nodes t) 0)"
  have null: "Table_Next wr t weak ONull = Table_Next wr t weak (OInteger (of_nat 0))"
    by (simp add: Table_Next_def)
  have "Table_iterate (Suc (numofnodes t)) wr t weak (OInteger (of_nat 0)) = Some ?kvs"
    by (rule iterate_used) (use assms in auto)
  then have "Table_iterate (Suc (numofnodes t)) wr t weak ONull = Some ?kvs"
    unfolding Table_iterate.simps null .
  moreover have "distinct (map fst ?kvs)"
    using distinct_iterated [OF table_inv_nodes [OF assms(1)]] by (simp add: comp_def)
  moreover have "map_of ?kvs = map_option (\<lambda>v. if weak then v else realval wr v) \<circ> table_map t"
    by (rule ext) (unfold map_of_iterated, simp add: table_map_def)
  moreover have "int (length ?kvs) = CountUsed t"
    using table_inv_count [OF assms(1)] by (simp add: CountUsed_def nused_def used_nodes_def)
  ultimately show ?thesis by blast
qed

theorem iteration_is_the_map_witness:
  "\<exists>kvs. Table_iterate (Suc (numofnodes (SQTable_new 0))) (\<lambda>_. ONull) (SQTable_new 0) False ONull
       = Some kvs \<and> distinct (map fst kvs) \<and>
     map_of kvs = map_option (\<lambda>v. if False then v else realval (\<lambda>_. ONull) v) \<circ>
        table_map (SQTable_new 0) \<and>
     int (length kvs) = CountUsed (SQTable_new 0)"
  by (rule iteration_is_the_map)
    (simp_all add: new_table, simp add: SQTable_new_def AllocNodes_def numofnodes_def
      pow2size_loop.simps MINPOWER2_def)

section \<open>The flag of an insertion\<close>

text \<open>A table of four nodes holding the integers 0, 1 and 2.\<close>

definition three_ints :: "sqtable" where
  "three_ints = the (run_table (SQTable_new 0)
     [TNewSlot (OInteger 0) ONull, TNewSlot (OInteger 1) ONull, TNewSlot (OInteger 2) ONull])"

lemma three_ints_eq: "three_ints =
  \<lparr>t_nodes = [\<lparr>nkey = OInteger 0, nval = ONull, nnext = None\<rparr>,
       \<lparr>nkey = OInteger 1, nval = ONull, nnext = None\<rparr>,
       \<lparr>nkey = OInteger 2, nval = ONull, nnext = None\<rparr>,
       \<lparr>nkey = ONull, nval = ONull, nnext = None\<rparr>],
     t_firstfree = 3, t_usednodes = 3, t_delegate = None\<rparr>"
  by code_simp

lemma three_ints_inv: "table_inv three_ints"
  using run_table_inv [of "SQTable_new 0" "[TNewSlot (OInteger 0) ONull,
    TNewSlot (OInteger 1) ONull, TNewSlot (OInteger 2) ONull]"] new_table [of 0]
  by (auto simp: three_ints_def simp del: run_table.simps)

lemma three_ints_flag: "map_option fst (Table_NewSlot three_ints (OInteger 3) val) = Some False"
  by code_simp

text \<open>
  The flag \<open>NewSlot\<close> returns is not what its declaration says (true for a new
  slot, false for one that was present).  When it is true the key was absent; but
  inserting an absent key that takes the last free node ends in the rehashed
  table, where the key is already there, so the flag is false: inserting 3 into
  the four-node table that holds 0, 1 and 2 succeeds and reports a present key.
\<close>

theorem newslot_flag_one_sided:
  "(table_inv t \<and> key \<noteq> ONull \<and> Table_NewSlot t key val = Some (True, t') \<longrightarrow>
      Table_Get wr t key = Some None) \<and>
   Table_Get wr three_ints (OInteger 3) = Some None \<and>
   (\<exists>t2. Table_NewSlot three_ints (OInteger 3) val = Some (False, t2) \<and>
      Table_Get wr t2 (OInteger 3) = Some (Some (realval wr val)))"
proof (intro conjI impI)
  assume a: "table_inv t \<and> key \<noteq> ONull \<and> Table_NewSlot t key val = Some (True, t')"
  then show "Table_Get wr t key = Some None"
    using NewSlot_refines [of t key val] by (auto simp: Get_refines)
next
  show "Table_Get wr three_ints (OInteger 3) = Some None"
    unfolding Get_refines [OF three_ints_inv] by (simp add: three_ints_eq table_map_def tmap_def)
next
  obtain b t2 where "Table_NewSlot three_ints (OInteger 3) val = Some (b, t2)"
    using three_ints_flag [of val] by auto
  moreover from this have "b = False" using three_ints_flag [of val] by simp
  ultimately show "\<exists>t2. Table_NewSlot three_ints (OInteger 3) val = Some (False, t2) \<and>
      Table_Get wr t2 (OInteger 3) = Some (Some (realval wr val))"
    using tbl.get_put_same [OF three_ints_inv, of "OInteger 3" val] by blast
qed

theorem newslot_flag_one_sided_witness:
  "Table_Get (\<lambda>_. ONull) (SQTable_new 0) (OInteger 5) = Some None"
proof -
  have "map_option fst (Table_NewSlot (SQTable_new 0) (OInteger 5) ONull) = Some True"
    by code_simp
  then obtain t' where "Table_NewSlot (SQTable_new 0) (OInteger 5) ONull = Some (True, t')" by auto
  then show ?thesis using newslot_flag_one_sided [of "SQTable_new 0" "OInteger 5" ONull t'
    "\<lambda>_. ONull"] new_table [of 0] by simp
qed

section \<open>The null key\<close>

definition null_written :: "sqobj \<Rightarrow> sqtable" where
  "null_written v =
     \<lparr>t_nodes = set_val (replicate 4 empty_node) 0 v, t_firstfree = 3, t_usednodes = 0,
       t_delegate = None\<rparr>"

lemma new_table_eq: "SQTable_new 0 =
    \<lparr>t_nodes = replicate 4 empty_node, t_firstfree = 3, t_usednodes = 0, t_delegate = None\<rparr>"
  by (simp add: SQTable_new_def AllocNodes_def pow2size_loop.simps MINPOWER2_def)

lemma null_written_inv: "table_inv (null_written v) \<and> table_map (null_written v) = Map.empty"
proof -
  have "null_written v = SQTable_new 0\<lparr>t_nodes := set_val (t_nodes (SQTable_new 0)) 0 v\<rparr>"
    by (simp add: null_written_def new_table_eq)
  then have "table_inv (null_written v)" using new_table [of 0] by (simp only: table_inv_set_val)
  moreover have "table_map (null_written v) = Map.empty"
    by (simp add: null_written_def table_map_def tmap_def set_val_def empty_node_def eval_nat_numeral)
  ultimately show ?thesis ..
qed

text \<open>
  \<open>Set\<close> and \<open>Remove\<close> look the key up without the test \<open>Get\<close> makes, so the null
  key finds a free node.  On a new table \<open>Set\<close> with the null key reports success,
  but the value it stores is lost: afterwards no key reads anything and a walk
  yields no slot.  \<open>Remove\<close> with the null key counts down a slot that was
  never used, which leaves the count of the table negative.
\<close>

theorem null_key_unguarded:
  "\<exists>t'. Table_Set (SQTable_new 0) ONull v = Some (True, t') \<and> table_inv t' \<and>
      Table_Get wr t' k = Some None \<and> Table_Next wr t' weak ONull = None \<and>
      map_option CountUsed (Table_Remove (SQTable_new 0) ONull) = Some (- 1)"
proof -
  have "Table_Set (SQTable_new 0) ONull v = Some (True, null_written v)"
    by (simp add: Table_Set_def Get_node_def numofnodes_def new_table_eq null_written_def
        get_loop.simps empty_node_def mainpos_def hashptr_def set_val_def)
  moreover have "Table_Get wr (null_written v) k = Some None"
    using null_written_inv by (simp add: Get_refines)
  moreover have "Table_Next wr (null_written v) weak ONull = None"
    by (simp add: Table_Next_def null_written_def set_val_def eval_nat_numeral empty_node_def
        next_loop.simps)
  moreover have "map_option CountUsed (Table_Remove (SQTable_new 0) ONull) = Some (- 1)"
    by code_simp
  ultimately show ?thesis using null_written_inv by blast
qed

end
