(* ===== verification/Vectors.thy ===== *)
theory Vectors
  imports Interfaces "HOL-Library.Monad_Syntax"
begin

text \<open>
  The growable vector of \<^verbatim>\<open>squirrel/squtils.h\<close>.  A vector is its allocated buffer, whose cells
  are raw memory (\<open>None\<close>) or constructed values, and the number of cells in use.
  An access outside the buffer, or a read of raw memory, is undefined behaviour of
  the code and makes the operation \<open>None\<close>.
\<close>

section \<open>The vector\<close>

record 'a sqvector =
  v_vals :: "'a option list"
  v_size :: nat

definition capacity :: "'a sqvector \<Rightarrow> nat" where
  "capacity v = length (v_vals v)"

definition vnew :: "'a sqvector" where
  "vnew = \<lparr>v_vals = [], v_size = 0\<rparr>"

definition vpoke :: "'a sqvector \<Rightarrow> nat \<Rightarrow> 'a option \<Rightarrow> 'a sqvector option" where
  "vpoke v i c =
     (if i < length (v_vals v) then Some (v\<lparr>v_vals := (v_vals v)[i := c]\<rparr>) else None)"

definition vpeek :: "'a sqvector \<Rightarrow> nat \<Rightarrow> 'a option" where
  "vpeek v i = (if i < length (v_vals v) then v_vals v ! i else None)"

definition vrealloc :: "nat \<Rightarrow> 'a sqvector \<Rightarrow> 'a sqvector" where
  "vrealloc newsize v =
     (let n = (if newsize > 0 then newsize else 4) in
      v\<lparr>v_vals := take n (v_vals v) @ replicate (n - length (v_vals v)) None\<rparr>)"

definition vreserve :: "nat \<Rightarrow> 'a sqvector \<Rightarrow> 'a sqvector" where
  "vreserve newsize v = vrealloc newsize v"

text \<open>The two loops of \<open>resize\<close>: construct up to the new size, or destroy down to it.\<close>

function fill_loop :: "nat \<Rightarrow> 'a \<Rightarrow> 'a sqvector \<Rightarrow> 'a sqvector option" where
  "fill_loop newsize fill v =
     (if v_size v < newsize
      then do { v' \<leftarrow> vpoke v (v_size v) (Some fill);
                fill_loop newsize fill (v'\<lparr>v_size := v_size v + 1\<rparr>) }
      else Some v)"
  by pat_completeness auto
termination
  by (relation "measure (\<lambda>(n, _, v). n - v_size v)") (auto simp: vpoke_def)

function destroy_loop :: "nat \<Rightarrow> 'a sqvector \<Rightarrow> 'a sqvector option" where
  "destroy_loop i v =
     (if i < v_size v
      then do { v' \<leftarrow> vpoke v i None; destroy_loop (i + 1) v' }
      else Some v)"
  by pat_completeness auto
termination
  by (relation "measure (\<lambda>(i, v). v_size v - i)") (auto simp: vpoke_def split: if_splits)

declare fill_loop.simps [simp del] destroy_loop.simps [simp del]

definition vresize :: "nat \<Rightarrow> 'a \<Rightarrow> 'a sqvector \<Rightarrow> 'a sqvector option" where
  "vresize newsize fill v =
     (let v = (if newsize > capacity v then vrealloc newsize v else v) in
      if newsize > v_size v then fill_loop newsize fill v
      else do { v' \<leftarrow> destroy_loop newsize v; Some (v'\<lparr>v_size := newsize\<rparr>) })"

definition vshrinktofit :: "'a sqvector \<Rightarrow> 'a sqvector" where
  "vshrinktofit v = (if v_size v > 4 then vrealloc (v_size v) v else v)"

definition vtop :: "'a sqvector \<Rightarrow> 'a option" where
  "vtop v = (if v_size v = 0 then None else vpeek v (v_size v - 1))"

definition vpush_back :: "'a \<Rightarrow> 'a sqvector \<Rightarrow> 'a sqvector option" where
  "vpush_back val v =
     (let v = (if capacity v \<le> v_size v then vrealloc (v_size v * 2) v else v) in
      do { v' \<leftarrow> vpoke v (v_size v) (Some val); Some (v'\<lparr>v_size := v_size v + 1\<rparr>) })"

definition vpop_back :: "'a sqvector \<Rightarrow> 'a sqvector option" where
  "vpop_back v =
     (if v_size v = 0 then None
      else vpoke (v\<lparr>v_size := v_size v - 1\<rparr>) (v_size v - 1) None)"

text \<open>Moving the tail up by one, from the end; the index is unsigned and stays above \<open>idx\<close>.\<close>

fun shift_up :: "nat \<Rightarrow> nat \<Rightarrow> 'a sqvector \<Rightarrow> 'a sqvector option" where
  "shift_up idx 0 v = Some v"
| "shift_up idx (Suc i) v =
     (if Suc i > idx
      then do { x \<leftarrow> vpeek v i; v' \<leftarrow> vpoke v (Suc i) (Some x); shift_up idx i v' }
      else Some v)"

definition vinsert :: "'a \<Rightarrow> nat \<Rightarrow> 'a \<Rightarrow> 'a sqvector \<Rightarrow> 'a sqvector option" where
  "vinsert dflt idx val v =
     do { v1 \<leftarrow> vresize (v_size v + 1) dflt v;
          v2 \<leftarrow> shift_up idx (v_size v1 - 1) v1;
          vpoke v2 idx (Some val) }"

text \<open>
  \<open>memmove\<close> copies the cells above the removed one as they are.  The last cell keeps
  its bytes; it is outside the size and counts as raw memory from then on.
\<close>

definition vremove :: "nat \<Rightarrow> 'a sqvector \<Rightarrow> 'a sqvector option" where
  "vremove idx v =
     (if v_size v = 0 then None
      else do {
        v1 \<leftarrow> vpoke v idx None;
        v2 \<leftarrow> (if idx < v_size v - 1 then
                 (if v_size v \<le> length (v_vals v1)
                  then Some (v1\<lparr>v_vals := take idx (v_vals v1) @
                        take (v_size v - idx - 1) (drop (idx + 1) (v_vals v1)) @
                        None # drop (v_size v) (v_vals v1)\<rparr>)
                  else None)
               else Some v1);
        Some (v2\<lparr>v_size := v_size v - 1\<rparr>) })"

fun copy_loop :: "'a option list \<Rightarrow> nat \<Rightarrow> nat \<Rightarrow> 'a sqvector \<Rightarrow> 'a sqvector option" where
  "copy_loop src i 0 v = Some v"
| "copy_loop src i (Suc n) v =
     do { x \<leftarrow> (if i < length src then src ! i else None);
          v' \<leftarrow> vpoke v i (Some x);
          copy_loop src (Suc i) n v' }"

definition vcopy :: "'a \<Rightarrow> 'a sqvector \<Rightarrow> 'a sqvector \<Rightarrow> 'a sqvector option" where
  "vcopy dflt src v =
     do { v1 \<leftarrow> (if v_size v > 0 then vresize 0 dflt v else Some v);
          v2 \<leftarrow> Some (if v_size src > capacity v1 then vrealloc (v_size src) v1 else v1);
          v3 \<leftarrow> copy_loop (v_vals src) 0 (v_size src) v2;
          Some (v3\<lparr>v_size := v_size src\<rparr>) }"

section \<open>Contents and invariant\<close>

text \<open>
  The cells below the size are constructed and those above are raw memory, so the
  buffer is determined by its contents and its capacity.
\<close>

definition mkvec :: "'a list \<Rightarrow> nat \<Rightarrow> 'a sqvector" where
  "mkvec xs n = \<lparr>v_vals = map Some xs @ replicate n None, v_size = length xs\<rparr>"

definition vec_inv :: "'a sqvector \<Rightarrow> bool" where
  "vec_inv v \<longleftrightarrow> (\<exists>xs n. v = mkvec xs n)"

definition vlist :: "'a sqvector \<Rightarrow> 'a list" where
  "vlist v = map the (take (v_size v) (v_vals v))"

lemma vlist_mkvec [simp]: "vlist (mkvec xs n) = xs"
  by (simp add: vlist_def mkvec_def comp_def)

lemma v_size_mkvec [simp]: "v_size (mkvec xs n) = length xs"
  by (simp add: mkvec_def)

lemma capacity_mkvec [simp]: "capacity (mkvec xs n) = length xs + n"
  by (simp add: mkvec_def capacity_def)

lemma length_vals_mkvec [simp]: "length (v_vals (mkvec xs n)) = length xs + n"
  by (simp add: mkvec_def)

lemma vec_inv_mkvec [intro!, simp]: "vec_inv (mkvec xs n)"
  by (auto simp: vec_inv_def)

lemma vec_invE:
  assumes "vec_inv v" obtains n where "v = mkvec (vlist v) n"
  using assms by (auto simp: vec_inv_def)

lemma vnew_mkvec: "vnew = mkvec [] 0"
  by (simp add: vnew_def mkvec_def)

lemma mkvec_eqI:
  "v_vals v = map Some xs @ replicate n None \<Longrightarrow> v_size v = length xs \<Longrightarrow> v = mkvec xs n"
  by (cases v) (simp add: mkvec_def)

lemma replicate_Suc_last: "replicate (Suc n) x = replicate n x @ [x]"
  by (simp add: replicate_append_same)

lemma vrealloc_mkvec:
  assumes "length xs \<le> m"
  shows "\<exists>n. vrealloc m (mkvec xs k) = mkvec xs n \<and>
    length xs + n = (if m > 0 then m else 4)"
proof -
  let ?m = "if m > 0 then m else 4"
  have "vrealloc m (mkvec xs k) = mkvec xs (?m - length xs)"
    using assms by (intro mkvec_eqI) (auto simp: vrealloc_def mkvec_def Let_def take_map
        simp flip: replicate_add)
  with assms show ?thesis by auto
qed

lemma vpoke_mkvec:
  "i < length xs \<Longrightarrow> vpoke (mkvec xs n) i (Some x) = Some (mkvec (xs[i := x]) n)"
  by (simp add: vpoke_def mkvec_def list_update_append map_update)

lemma vpoke_end:
  "map_option (\<lambda>v. v\<lparr>v_size := Suc (length xs)\<rparr>) (vpoke (mkvec xs (Suc n)) (length xs) (Some x)) =
     Some (mkvec (xs @ [x]) n)"
  by (simp add: vpoke_def mkvec_def list_update_append)

lemma vpeek_mkvec: "i < length xs \<Longrightarrow> vpeek (mkvec xs n) i = Some (xs ! i)"
  by (simp add: vpeek_def mkvec_def nth_append)

lemma fill_loop_mkvec:
  "length xs \<le> m \<Longrightarrow> m \<le> length xs + n \<Longrightarrow>
   fill_loop m x (mkvec xs n) = Some (mkvec (xs @ replicate (m - length xs) x) (length xs + n - m))"
proof (induction "m - length xs" arbitrary: xs n)
  case 0
  then show ?case by (simp add: fill_loop.simps)
next
  case (Suc k)
  then obtain n' where n': "n = Suc n'" by (cases n) auto
  have e: "replicate (m - length xs) x = x # replicate (m - length (xs @ [x])) x"
    using Suc.hyps(2) by (cases "m - length xs") auto
  have "fill_loop m x (mkvec xs n) = fill_loop m x (mkvec (xs @ [x]) n')"
    using Suc.hyps(2) vpoke_end [of xs n' x]
    by (subst fill_loop.simps) (auto simp: n')
  also have "\<dots> = Some (mkvec ((xs @ [x]) @ replicate (m - length (xs @ [x])) x)
      (length (xs @ [x]) + n' - m))"
    using Suc.hyps Suc.prems n' by (intro Suc.hyps(1)) auto
  finally show ?case using e by (simp add: n')
qed

lemma destroy_loop_vals:
  "v_size v \<le> length (v_vals v) \<Longrightarrow> i \<le> v_size v \<Longrightarrow>
   destroy_loop i v = Some (v\<lparr>v_vals := take i (v_vals v) @ replicate (v_size v - i) None @
      drop (v_size v) (v_vals v)\<rparr>)"
proof (induction "v_size v - i" arbitrary: i v)
  case 0
  then show ?case by (simp add: destroy_loop.simps)
next
  case (Suc k)
  let ?v = "v\<lparr>v_vals := (v_vals v)[i := None]\<rparr>"
  have i: "i < v_size v" "i < length (v_vals v)" using Suc by auto
  have r: "replicate (v_size v - i) None = None # replicate (v_size v - Suc i) None"
    using i by (cases "v_size v - i") auto
  have "destroy_loop i v = destroy_loop (Suc i) ?v"
    using i by (subst destroy_loop.simps) (simp add: vpoke_def)
  also have "\<dots> = Some (?v\<lparr>v_vals := take (Suc i) (v_vals ?v) @
      replicate (v_size ?v - Suc i) None @ drop (v_size ?v) (v_vals ?v)\<rparr>)"
    by (rule Suc.hyps(1)) (use Suc i in auto)
  finally show ?case using i by (simp add: r take_Suc_conv_app_nth)
qed

lemma destroy_loop_mkvec:
  "i \<le> length xs \<Longrightarrow> map_option (v_size_update (\<lambda>_. i)) (destroy_loop i (mkvec xs n)) =
     Some (mkvec (take i xs) (length xs - i + n))"
  by (subst destroy_loop_vals)
    (auto simp: mkvec_def take_map replicate_add [symmetric])

lemma vresize_mkvec:
  "\<exists>k. vresize m x (mkvec xs n) = Some (mkvec (take m xs @ replicate (m - length xs) x) k) \<and>
     m + k = max m (length xs + n)"
proof -
  have "\<exists>n'. (if m > capacity (mkvec xs n) then vrealloc m (mkvec xs n) else mkvec xs n) = mkvec xs n'
      \<and> length xs + n' = max m (length xs + n)"
    using vrealloc_mkvec [of xs m n] by auto
  then obtain n' where n': "(if m > capacity (mkvec xs n) then vrealloc m (mkvec xs n)
      else mkvec xs n) = mkvec xs n'" "length xs + n' = max m (length xs + n)" by blast
  show ?thesis
  proof (cases "m > length xs")
    case True
    then show ?thesis
      using n'(2) fill_loop_mkvec [of xs m n' x]
      by (simp only: vresize_def Let_def n'(1)) (auto intro!: exI [of _ "length xs + n' - m"])
  next
    case False
    then show ?thesis using n'(2) destroy_loop_mkvec [of m xs n']
      by (simp only: vresize_def Let_def n'(1)) (auto split: Option.bind_splits)
  qed
qed

lemma vpush_back_mkvec:
  "\<exists>k. vpush_back x (mkvec xs n) = Some (mkvec (xs @ [x]) k) \<and>
     Suc (length xs) + k = (if n = 0 then if xs = [] then 4 else 2 * length xs else length xs + n)"
proof -
  obtain n' where n': "(if capacity (mkvec xs n) \<le> length xs then vrealloc (length xs * 2) (mkvec xs n)
      else mkvec xs n) = mkvec xs n'"
    "length xs + n' = (if n = 0 then if xs = [] then 4 else 2 * length xs else length xs + n)"
    using vrealloc_mkvec [of xs "length xs * 2" n] by (cases n) (auto split: if_splits)
  then obtain k where k: "n' = Suc k" by (cases n') (auto split: if_splits)
  show ?thesis using n'(2) vpoke_end [of xs k x]
    by (simp only: vpush_back_def Let_def n'(1) v_size_mkvec) (auto simp: k split: Option.bind_splits)
qed

lemma vpop_back_mkvec:
  "xs \<noteq> [] \<Longrightarrow> vpop_back (mkvec xs n) = Some (mkvec (butlast xs) (Suc n))"
  by (cases xs rule: rev_cases)
    (auto simp: vpop_back_def vpoke_def mkvec_def list_update_append)

definition shifted :: "nat \<Rightarrow> nat \<Rightarrow> 'a list \<Rightarrow> 'a list" where
  "shifted idx i xs = map (\<lambda>j. if idx < j \<and> j \<le> i then xs ! (j - 1) else xs ! j) [0..<length xs]"

lemma shift_up_mkvec:
  "i < length xs \<Longrightarrow> idx \<le> i \<Longrightarrow> shift_up idx i (mkvec xs n) = Some (mkvec (shifted idx i xs) n)"
proof (induction i arbitrary: xs)
  case 0
  have "shifted idx 0 xs = xs" by (rule nth_equalityI) (auto simp: shifted_def)
  then show ?case by simp
next
  case (Suc i)
  show ?case
  proof (cases "idx = Suc i")
    case True
    then have "shifted idx (Suc i) xs = xs" by (intro nth_equalityI) (auto simp: shifted_def)
    with True show ?thesis by simp
  next
    case False
    with Suc.prems have i: "i < length xs" "idx \<le> i" by auto
    let ?xs = "xs[Suc i := xs ! i]"
    have "shift_up idx (Suc i) (mkvec xs n) = shift_up idx i (mkvec ?xs n)"
      using Suc.prems i by (simp add: vpeek_mkvec vpoke_mkvec)
    also have "\<dots> = Some (mkvec (shifted idx i ?xs) n)" using i by (intro Suc.IH) simp_all
    also have "shifted idx i ?xs = shifted idx (Suc i) xs"
      using i by (intro nth_equalityI) (auto simp: shifted_def nth_list_update le_Suc_eq)
    finally show ?thesis .
  qed
qed

lemma vinsert_mkvec:
  assumes "idx \<le> length xs"
  shows "\<exists>k. vinsert d idx x (mkvec xs n) = Some (mkvec (take idx xs @ x # drop idx xs) k)"
proof -
  obtain k where k: "vresize (Suc (length xs)) d (mkvec xs n) = Some (mkvec (xs @ [d]) k)"
    using vresize_mkvec [of "Suc (length xs)" d xs n] by auto
  have s: "shift_up idx (length xs) (mkvec (xs @ [d]) k) =
      Some (mkvec (shifted idx (length xs) (xs @ [d])) k)"
    using assms by (intro shift_up_mkvec) simp_all
  have l: "length (shifted idx (length xs) (xs @ [d])) = Suc (length xs)" by (simp add: shifted_def)
  have "(shifted idx (length xs) (xs @ [d]))[idx := x] = take idx xs @ x # drop idx xs"
    using assms by (intro nth_equalityI)
      (auto simp: shifted_def nth_list_update nth_append nth_Cons' min_def less_Suc_eq)
  then show ?thesis using assms
    by (auto simp: vinsert_def k s vpoke_mkvec l)
qed

lemma vremove_mkvec:
  assumes "idx < length xs"
  shows "vremove idx (mkvec xs n) = Some (mkvec (take idx xs @ drop (Suc idx) xs) (Suc n))"
proof (cases "idx < length xs - 1")
  case True
  then show ?thesis using assms
    by (auto simp: vremove_def vpoke_def mkvec_def list_update_append take_map drop_map
        map_update drop_update_swap)
next
  case False
  with assms have "idx = length xs - 1" by simp
  with assms show ?thesis
    by (cases xs rule: rev_cases)
      (auto simp: vremove_def vpoke_def mkvec_def list_update_append)
qed

lemma copy_loop_mkvec:
  "length xs \<le> k \<Longrightarrow> i \<le> length xs \<Longrightarrow>
   map_option (v_size_update (\<lambda>_. length xs))
     (copy_loop (map Some xs @ rest) i (length xs - i)
        \<lparr>v_vals = map Some (take i xs) @ replicate (k - i) None, v_size = sz\<rparr>) =
   Some (mkvec xs (k - length xs))"
proof (induction "length xs - i" arbitrary: i)
  case 0
  then show ?case by (simp add: mkvec_def)
next
  case (Suc j)
  then have i: "i < length xs" by simp
  have r: "replicate (k - i) None = None # replicate (k - Suc i) (None :: 'a option)"
    using Suc.prems i by (cases "k - i") auto
  have l: "length xs - i = Suc (length xs - Suc i)" using i by simp
  have "copy_loop (map Some xs @ rest) i (length xs - i)
        \<lparr>v_vals = map Some (take i xs) @ replicate (k - i) None, v_size = sz\<rparr> =
      copy_loop (map Some xs @ rest) (Suc i) (length xs - Suc i)
        \<lparr>v_vals = map Some (take (Suc i) xs) @ replicate (k - Suc i) None, v_size = sz\<rparr>"
    using i unfolding l
    by (simp add: nth_append vpoke_def r take_Suc_conv_app_nth list_update_append)
  then show ?case using Suc.hyps(1) [of "Suc i"] Suc.hyps(2) Suc.prems i by simp
qed

lemma vcopy_mkvec: "\<exists>k. vcopy d (mkvec ys m) (mkvec xs n) = Some (mkvec ys k)"
proof -
  obtain j where j: "(if v_size (mkvec xs n) > 0 then vresize 0 d (mkvec xs n) else Some (mkvec xs n)) =
      Some (mkvec [] j)"
    using vresize_mkvec [of 0 d xs n] by (cases "xs = []") auto
  obtain k where k: "(if v_size (mkvec ys m) > capacity (mkvec [] j :: 'a sqvector)
      then vrealloc (v_size (mkvec ys m)) (mkvec [] j) else mkvec [] j) = (mkvec [] k :: 'a sqvector)" "length ys \<le> k"
  proof (cases "length ys > j")
    case True
    then have "vrealloc (length ys) (mkvec [] j :: 'a sqvector) = mkvec [] (length ys)"
      by (auto simp: vrealloc_def mkvec_def replicate_add [symmetric])
    with True that [of "length ys"] show ?thesis by simp
  next
    case False
    with that [of j] show ?thesis by simp
  qed
  have "mkvec [] k = \<lparr>v_vals = map Some (take 0 ys) @ replicate (k - 0) None, v_size = 0\<rparr>"
    by (simp add: mkvec_def)
  then have "map_option (v_size_update (\<lambda>_. length ys))
      (copy_loop (v_vals (mkvec ys m)) 0 (length ys) (mkvec [] k)) = Some (mkvec ys (k - length ys))"
    using copy_loop_mkvec [OF k(2), of 0 "replicate m None" 0] by (simp add: mkvec_def)
  then obtain v where "copy_loop (v_vals (mkvec ys m)) 0 (length ys) (mkvec [] k) = Some v"
    "v\<lparr>v_size := length ys\<rparr> = mkvec ys (k - length ys)" by auto
  then show ?thesis unfolding vcopy_def unfolding j unfolding Option.bind_lunit k(1)
    by (simp, blast)
qed

section \<open>The vector is a growable sequence\<close>

interpretation vec: growable vec_inv vlist vpush_back vpop_back vpeek
proof unfold_locales
  show "\<exists>s'. vpush_back x s = Some s' \<and> vec_inv s' \<and> vlist s' = vlist s @ [x]"
    if "vec_inv s" for x :: 'a and s
    using vec_invE [OF that] vpush_back_mkvec [of x "vlist s"]
    by (metis vec_inv_mkvec vlist_mkvec)
  show "\<exists>s'. vpop_back s = Some s' \<and> vec_inv s' \<and> vlist s' = butlast (vlist s)"
    if "vec_inv s" "vlist s \<noteq> []" for s :: "'a sqvector"
    using vec_invE [OF that(1)] vpop_back_mkvec [OF that(2)]
    by (metis vec_inv_mkvec vlist_mkvec)
  show "vpeek s i = Some (vlist s ! i)"
    if "vec_inv s" "i < length (vlist s)" for s :: "'a sqvector" and i
    using vec_invE [OF that(1)] vpeek_mkvec [OF that(2)] by metis
qed

end
