(* ===== verification/Arrays.thy ===== *)
theory Arrays
  imports Objects Vectors
begin

text \<open>
  The script array of \<^verbatim>\<open>squirrel/sqarray.h\<close>: bounds-checked access, insertion,
  removal and iteration on a vector of values, and the policy that shrinks it.
\<close>

section \<open>Script arrays\<close>

type_synonym sqarray = "sqobj sqvector"

definition Array_new :: "nat \<Rightarrow> sqarray option" where
  "Array_new nsize = vresize nsize ONull vnew"

definition Array_Finalize :: "sqarray \<Rightarrow> sqarray option" where
  "Array_Finalize a = vresize 0 ONull a"

definition Array_Size :: "sqarray \<Rightarrow> int" where
  "Array_Size a = int (v_size a)"

text \<open>The outer option is definedness, the inner one the boolean result with the value.\<close>

definition Array_Get :: "(addr \<Rightarrow> sqobj) \<Rightarrow> sqarray \<Rightarrow> int \<Rightarrow> sqobj option option" where
  "Array_Get wr a nidx =
     (if nidx \<ge> 0 \<and> nidx < int (v_size a)
      then do { o' \<leftarrow> vpeek a (nat nidx); Some (Some (realval wr o')) }
      else Some None)"

definition Array_Set :: "sqarray \<Rightarrow> int \<Rightarrow> sqobj \<Rightarrow> (bool \<times> sqarray) option" where
  "Array_Set a nidx val =
     (if nidx \<ge> 0 \<and> nidx < int (v_size a)
      then do { a' \<leftarrow> vpoke a (nat nidx) (Some val); Some (True, a') }
      else Some (False, a))"

text \<open>\<open>Next\<close> reads the position as an unsigned number: the result -1 is \<open>Some None\<close>.\<close>

definition Array_Next ::
    "(addr \<Rightarrow> sqobj) \<Rightarrow> sqarray \<Rightarrow> sqobj \<Rightarrow> (nat \<times> sqobj \<times> sqobj) option option" where
  "Array_Next wr a refpos =
     (let idx = unat (TranslateIndex refpos) in
      if idx < v_size a
      then do { o' \<leftarrow> vpeek a idx; Some (Some (Suc idx, OInteger (of_nat idx), realval wr o')) }
      else Some None)"

definition Array_Clone :: "sqarray \<Rightarrow> sqarray option" where
  "Array_Clone a = do { anew \<leftarrow> Array_new 0; vcopy ONull a anew }"

definition ShrinkIfNeeded :: "sqarray \<Rightarrow> sqarray" where
  "ShrinkIfNeeded a = (if v_size a \<le> capacity a div 4 then vshrinktofit a else a)"

definition Array_Resize :: "nat \<Rightarrow> sqobj \<Rightarrow> sqarray \<Rightarrow> sqarray option" where
  "Array_Resize newsize fill a = do { a' \<leftarrow> vresize newsize fill a; Some (ShrinkIfNeeded a') }"

definition Array_Reserve :: "nat \<Rightarrow> sqarray \<Rightarrow> sqarray" where
  "Array_Reserve newsize a = vreserve newsize a"

definition Array_Append :: "sqobj \<Rightarrow> sqarray \<Rightarrow> sqarray option" where
  "Array_Append ob a = vpush_back ob a"

definition Array_Top :: "sqarray \<Rightarrow> sqobj option" where
  "Array_Top a = vtop a"

definition Array_Pop :: "sqarray \<Rightarrow> sqarray option" where
  "Array_Pop a = do { a' \<leftarrow> vpop_back a; Some (ShrinkIfNeeded a') }"

definition Array_Insert :: "sqarray \<Rightarrow> int \<Rightarrow> sqobj \<Rightarrow> (bool \<times> sqarray) option" where
  "Array_Insert a idx val =
     (if idx < 0 \<or> idx > int (v_size a) then Some (False, a)
      else do { a' \<leftarrow> vinsert ONull (nat idx) val a; Some (True, a') })"

definition Array_Remove :: "sqarray \<Rightarrow> int \<Rightarrow> (bool \<times> sqarray) option" where
  "Array_Remove a idx =
     (if idx < 0 \<or> idx \<ge> int (v_size a) then Some (False, a)
      else do { a' \<leftarrow> vremove (nat idx) a; Some (True, ShrinkIfNeeded a') })"

text \<open>
  \<open>Extend\<close> fixes the size of its argument before the loop and reads the argument
  again in every round.  With another array that array does not change; extending
  an array by itself reads from the array that is growing.
\<close>

fun extend_loop :: "sqarray \<Rightarrow> nat \<Rightarrow> nat \<Rightarrow> sqarray \<Rightarrow> sqarray option" where
  "extend_loop src i 0 a = Some a"
| "extend_loop src i (Suc n) a =
     do { x \<leftarrow> vpeek src i; a' \<leftarrow> Array_Append x a; extend_loop src (Suc i) n a' }"

definition Array_Extend :: "sqarray \<Rightarrow> sqarray \<Rightarrow> sqarray option" where
  "Array_Extend src a = extend_loop src 0 (v_size src) a"

fun extend_self_loop :: "nat \<Rightarrow> nat \<Rightarrow> sqarray \<Rightarrow> sqarray option" where
  "extend_self_loop i 0 a = Some a"
| "extend_self_loop i (Suc n) a =
     do { x \<leftarrow> vpeek a i; a' \<leftarrow> Array_Append x a; extend_self_loop (Suc i) n a' }"

definition Array_Extend_self :: "sqarray \<Rightarrow> sqarray option" where
  "Array_Extend_self a = extend_self_loop 0 (v_size a) a"


section \<open>Correctness\<close>

lemma ShrinkIfNeeded_mkvec:
  "\<exists>k. ShrinkIfNeeded (mkvec xs n) = mkvec xs k \<and>
     (length xs \<le> 4 \<or> (length xs + k) div 4 < length xs)"
proof (cases "length xs \<le> (length xs + n) div 4 \<and> length xs > 4")
  case True
  then have "vrealloc (length xs) (mkvec xs n) = mkvec xs 0"
    using vrealloc_mkvec [of xs "length xs" n] by (auto split: if_splits)
  with True show ?thesis by (intro exI [of _ 0]) (auto simp: ShrinkIfNeeded_def vshrinktofit_def)
qed (auto simp: ShrinkIfNeeded_def vshrinktofit_def)

text \<open>The waste bound the shrinking policy gives: at least a quarter is used, or four cells.\<close>

definition tight :: "sqarray \<Rightarrow> bool" where
  "tight a \<longleftrightarrow> v_size a \<le> 4 \<or> capacity a div 4 < v_size a"

lemma vtop_mkvec: "xs \<noteq> [] \<Longrightarrow> vtop (mkvec xs n) = Some (last xs)"
  by (simp add: vtop_def vpeek_mkvec last_conv_nth)

lemma extend_loop_append:
  assumes "vec_inv a"
  shows "i + n \<le> length ys \<Longrightarrow> vec_inv a \<Longrightarrow> \<exists>a'. extend_loop (mkvec ys m) i n a = Some a' \<and> vec_inv a' \<and>
     vlist a' = vlist a @ take n (drop i ys)"
proof (induction n arbitrary: i a)
  case (Suc n)
  from vec.push_law [OF Suc.prems(2), of "ys ! i"] obtain a' where
    a': "vpush_back (ys ! i) a = Some a'" "vec_inv a'" "vlist a' = vlist a @ [ys ! i]" by blast
  from Suc.IH [of "Suc i", OF _ a'(2)] Suc.prems obtain b where
    "extend_loop (mkvec ys m) (Suc i) n a' = Some b" "vec_inv b"
    "vlist b = vlist a' @ take n (drop (Suc i) ys)" by auto
  moreover have "take (Suc n) (drop i ys) = ys ! i # take n (drop (Suc i) ys)"
    using Suc.prems by (simp add: Cons_nth_drop_Suc [symmetric])
  ultimately show ?case using a' Suc.prems by (simp add: vpeek_mkvec Array_Append_def)
qed simp

lemma extend_self_loop_append:
  "i + n \<le> length xs \<Longrightarrow> \<exists>k. extend_self_loop i n (mkvec xs m) =
     Some (mkvec (xs @ take n (drop i xs)) k)"
proof (induction n arbitrary: i xs m)
  case (Suc n)
  obtain k where k: "vpush_back (xs ! i) (mkvec xs m) = Some (mkvec (xs @ [xs ! i]) k)"
    using vpush_back_mkvec [of "xs ! i" xs m] by auto
  obtain k' where "extend_self_loop (Suc i) n (mkvec (xs @ [xs ! i]) k) =
      Some (mkvec ((xs @ [xs ! i]) @ take n (drop (Suc i) (xs @ [xs ! i]))) k')"
    using Suc.IH [of "Suc i" "xs @ [xs ! i]" k] Suc.prems by auto
  moreover have "take (Suc n) (drop i xs) = xs ! i # take n (drop (Suc i) xs)"
    using Suc.prems by (simp add: Cons_nth_drop_Suc [symmetric])
  ultimately show ?case using Suc.prems k by (auto simp: vpeek_mkvec Array_Append_def)
qed auto

section \<open>Properties\<close>

text \<open>Programs of array operations, and what they mean on lists with a flag per operation.\<close>

datatype array_op =
    AAppend sqobj | ASet int sqobj | AInsert int sqobj | ARemove int | APop
  | AResize nat sqobj | AExtend "sqobj list"

fun array_step :: "sqarray \<Rightarrow> array_op \<Rightarrow> (bool \<times> sqarray) option" where
  "array_step a (AAppend x) = map_option (Pair True) (Array_Append x a)"
| "array_step a (ASet i x) = Array_Set a i x"
| "array_step a (AInsert i x) = Array_Insert a i x"
| "array_step a (ARemove i) = Array_Remove a i"
| "array_step a APop = (if Array_Size a = 0 then Some (False, a) else map_option (Pair True) (Array_Pop a))"
| "array_step a (AResize n x) = map_option (Pair True) (Array_Resize n x a)"
| "array_step a (AExtend ys) = map_option (Pair True) (Array_Extend (mkvec ys 0) a)"

fun list_step :: "sqobj list \<Rightarrow> array_op \<Rightarrow> bool \<times> sqobj list" where
  "list_step xs (AAppend x) = (True, xs @ [x])"
| "list_step xs (ASet i x) =
     (if 0 \<le> i \<and> i < int (length xs) then (True, xs[nat i := x]) else (False, xs))"
| "list_step xs (AInsert i x) =
     (if 0 \<le> i \<and> i \<le> int (length xs) then (True, take (nat i) xs @ x # drop (nat i) xs)
      else (False, xs))"
| "list_step xs (ARemove i) =
     (if 0 \<le> i \<and> i < int (length xs) then (True, take (nat i) xs @ drop (Suc (nat i)) xs)
      else (False, xs))"
| "list_step xs APop = (if xs = [] then (False, xs) else (True, butlast xs))"
| "list_step xs (AResize n x) = (True, take n xs @ replicate (n - length xs) x)"
| "list_step xs (AExtend ys) = (True, xs @ ys)"

fun run_array :: "sqarray \<Rightarrow> array_op list \<Rightarrow> (bool list \<times> sqarray) option" where
  "run_array a [] = Some ([], a)"
| "run_array a (c # cs) =
     do { (b, a') \<leftarrow> array_step a c; (bs, a'') \<leftarrow> run_array a' cs; Some (b # bs, a'') }"

fun run_list :: "sqobj list \<Rightarrow> array_op list \<Rightarrow> bool list \<times> sqobj list" where
  "run_list xs [] = ([], xs)"
| "run_list xs (c # cs) =
     (let (b, ys) = list_step xs c; (bs, zs) = run_list ys cs in (b # bs, zs))"

lemma array_step_mkvec:
  "\<exists>k. array_step (mkvec xs n) c = Some (fst (list_step xs c), mkvec (snd (list_step xs c)) k)"
proof (cases c)
  case (AAppend x)
  then show ?thesis using vpush_back_mkvec [of x xs n] by (auto simp: Array_Append_def)
next
  case (ASet i x)
  then show ?thesis by (auto simp: Array_Set_def vpoke_mkvec)
next
  case (AInsert i x)
  have "nat i \<le> length xs \<longleftrightarrow> i \<le> int (length xs)" by linarith
  then show ?thesis using AInsert vinsert_mkvec [of "nat i" xs ONull x n]
    by (auto simp: Array_Insert_def) (blast intro: refl)
next
  case (ARemove i)
  then show ?thesis
    using vremove_mkvec [of "nat i" xs n]
      ShrinkIfNeeded_mkvec [of "take (nat i) xs @ drop (Suc (nat i)) xs" "Suc n"]
    by (auto simp: Array_Remove_def)
next
  case APop
  then show ?thesis using vpop_back_mkvec [of xs n] ShrinkIfNeeded_mkvec [of "butlast xs" "Suc n"]
    by (auto simp: Array_Pop_def Array_Size_def)
next
  case (AResize m x)
  then obtain k where "vresize m x (mkvec xs n) = Some (mkvec (take m xs @ replicate (m - length xs) x) k)"
    using vresize_mkvec [of m x xs n] by blast
  then show ?thesis
    using AResize ShrinkIfNeeded_mkvec [of "take m xs @ replicate (m - length xs) x" k]
    by (auto simp: Array_Resize_def)
next
  case (AExtend ys)
  from extend_loop_append [of "mkvec xs n" 0 "length ys" ys 0] obtain a' where
    "Array_Extend (mkvec ys 0) (mkvec xs n) = Some a'" "vec_inv a'" "vlist a' = xs @ ys"
    by (auto simp: Array_Extend_def)
  with AExtend show ?thesis by (metis array_step.simps(7) list_step.simps(7) option.map(2)
        prod.sel vec_invE)
qed

text \<open>
  C2. A script array behaves as a list.  Any sequence of appends, stores,
  insertions, removals, pops, resizings and extensions on a new array runs without
  an access outside its buffer or a read of raw memory; each operation reports
  success exactly when its index is in range (an out-of-range one changes
  nothing); and at the end every in-range \<open>Get\<close> reads the list element, every other
  \<open>Get\<close> fails.
\<close>

theorem array_refines_list:
  "\<exists>a0 a. Array_new n = Some a0 \<and>
     run_array a0 cs = Some (fst (run_list (replicate n ONull) cs), a) \<and>
     vlist a = snd (run_list (replicate n ONull) cs) \<and> Array_Size a = int (length (vlist a)) \<and>
     (\<forall>i. Array_Get wr a i =
        Some (if 0 \<le> i \<and> i < int (length (vlist a)) then Some (realval wr (vlist a ! nat i))
              else None))"
proof -
  have run: "\<exists>k. run_array (mkvec xs m) cs = Some (fst (run_list xs cs), mkvec (snd (run_list xs cs)) k)"
    for xs m
  proof (induction cs arbitrary: xs m)
    case (Cons c cs)
    from array_step_mkvec [of xs m c] obtain k where
      "array_step (mkvec xs m) c = Some (fst (list_step xs c), mkvec (snd (list_step xs c)) k)" by blast
    with Cons.IH [of "snd (list_step xs c)" k] show ?case by (auto split: prod.splits)
  qed auto
  obtain m where "Array_new n = Some (mkvec (replicate n ONull) m)"
    using vresize_mkvec [of n ONull "[]" 0] by (auto simp: Array_new_def vnew_mkvec)
  moreover obtain k where "run_array (mkvec (replicate n ONull) m) cs =
      Some (fst (run_list (replicate n ONull) cs), mkvec (snd (run_list (replicate n ONull) cs)) k)"
    using run by blast
  ultimately show ?thesis by (auto simp: Array_Size_def Array_Get_def vpeek_mkvec)
qed

text \<open>
  Shrinking keeps the waste bounded: after a pop, a successful removal or a
  resize the array holds at most four elements or uses more than a quarter of its
  buffer; and a push reallocates only when the buffer is full, to twice the size.
\<close>

theorem array_capacity_policy:
  assumes "vec_inv a"
  shows "(\<forall>a'. Array_Pop a = Some a' \<longrightarrow> tight a') \<and>
    (\<forall>i a'. Array_Remove a i = Some (True, a') \<longrightarrow> tight a') \<and>
    (\<forall>n x a'. Array_Resize n x a = Some a' \<longrightarrow> tight a') \<and>
    (\<forall>x a'. Array_Append x a = Some a' \<longrightarrow>
      capacity a' = (if v_size a < capacity a then capacity a
                     else if v_size a = 0 then 4 else 2 * v_size a))"
proof -
  obtain xs n where a: "a = mkvec xs n" using assms by (auto simp: vec_inv_def)
  have t: "tight (ShrinkIfNeeded (mkvec ys k))" for ys k
    using ShrinkIfNeeded_mkvec [of ys k] by (auto simp: tight_def)
  have pop: "tight a'" if "Array_Pop a = Some a'" for a'
    using that t vpop_back_mkvec [of xs n]
    by (cases "xs = []") (auto simp: a Array_Pop_def vpop_back_def)
  have rem: "tight a'" if "Array_Remove a i = Some (True, a')" for i a'
    using that t vremove_mkvec [of "nat i" xs n]
    by (auto simp: a Array_Remove_def split: if_splits)
  have res: "tight a'" if "Array_Resize m x a = Some a'" for m x a'
    using that t vresize_mkvec [of m x xs n] by (auto simp: a Array_Resize_def)
  have app: "capacity a' = (if v_size a < capacity a then capacity a
                     else if v_size a = 0 then 4 else 2 * v_size a)"
    if "Array_Append x a = Some a'" for x a'
    using that vpush_back_mkvec [of x xs n] by (auto simp: a Array_Append_def split: if_splits)
  from pop rem res app show ?thesis by blast
qed

theorem array_capacity_policy_witness:
  "tight (the (Array_Resize 1 ONull (mkvec (replicate 9 ONull) 0)))"
proof -
  have "\<exists>a'. Array_Resize 1 ONull (mkvec (replicate 9 ONull) 0) = Some a'"
    using vresize_mkvec [of 1 ONull "replicate 9 ONull" 0] by (auto simp: Array_Resize_def)
  then show ?thesis using array_capacity_policy [of "mkvec (replicate 9 ONull) 0"] by auto
qed

text \<open>
  Extending an array by itself doubles it: the loop reads the growing array,
  but only below the size it had at the start, so it ends and gives the contents
  twice, as extending by a copy would.
\<close>

theorem array_extend_self:
  "\<exists>a a'. run_array vnew [AExtend xs] = Some ([True], a) \<and>
     Array_Extend_self a = Some a' \<and> vlist a' = xs @ xs \<and>
     (\<exists>c a''. Array_Clone a = Some c \<and> Array_Extend c a = Some a'' \<and> vlist a'' = vlist a')"
proof -
  obtain k where a: "run_array vnew [AExtend xs] = Some ([True], mkvec xs k)"
    using array_step_mkvec [of "[]" 0 "AExtend xs"] by (auto simp: vnew_mkvec)
  obtain k' where "Array_Extend_self (mkvec xs k) = Some (mkvec (xs @ xs) k')"
    using extend_self_loop_append [of 0 "length xs" xs k] by (auto simp: Array_Extend_self_def)
  moreover obtain j where c: "Array_Clone (mkvec xs k) = Some (mkvec xs j)"
    using vcopy_mkvec [of ONull xs k "[]" "0"] vresize_mkvec [of 0 ONull "[]" 0]
    by (auto simp: Array_Clone_def Array_new_def vnew_mkvec)
  moreover obtain a'' where "Array_Extend (mkvec xs j) (mkvec xs k) = Some a''" "vlist a'' = xs @ xs"
    using extend_loop_append [of "mkvec xs k" 0 "length xs" xs j] by (auto simp: Array_Extend_def)
  ultimately show ?thesis using a by auto
qed

end
