(* ===== verification/StringTable.thy ===== *)
theory StringTable
  imports Objects "HOL-Library.Monad_Syntax"
begin

text \<open>
  The string table of \<^verbatim>\<open>squirrel/sqstate.cpp\<close>: every string of the program is
  allocated here, and a string that exists already is shared.  The string objects
  live in a heap, a bucket is a pointer to the first of its strings and the
  strings of a bucket are linked by their next fields.  The address the allocator
  returns for a new string is an argument.
\<close>

section \<open>State\<close>

record sqstring =
  s_next :: "addr option"
  s_len :: int
  s_hash :: sqhash
  s_val :: string

type_synonym strheap = "addr \<Rightarrow> sqstring option"

record sqstringtable =
  st_strings :: "addr option list"
  st_slotused :: nat
  st_heap :: strheap

definition StringTable_new :: sqstringtable where
  "StringTable_new = \<lparr>st_strings = replicate 4 None, st_slotused = 0, st_heap = Map.empty\<rparr>"

section \<open>Interning\<close>

text \<open>\<open>None\<close> is a walk that follows a dangling pointer or does not end.\<close>

partial_function (option) intern_find ::
    "strheap \<Rightarrow> string \<Rightarrow> int \<Rightarrow> addr option \<Rightarrow> addr option option" where
  "intern_find hp news len p =
     (if p = None then Some None
      else do { s \<leftarrow> hp (the p);
                if s_len s = len \<and> take (nat len) news = take (nat len) (s_val s)
                then Some p
                else intern_find hp news len (s_next s) })"

declare intern_find.simps [code]

partial_function (option) move_chain ::
    "strheap \<Rightarrow> addr option list \<Rightarrow> addr option \<Rightarrow> (strheap \<times> addr option list) option" where
  "move_chain hp ss p =
     (if p = None then Some (hp, ss)
      else do { s \<leftarrow> hp (the p);
                let h = bucket (length ss) (s_hash s) in
                move_chain (hp(the p \<mapsto> s\<lparr>s_next := ss ! h\<rparr>)) (ss[h := p]) (s_next s) })"

declare move_chain.simps [code]

fun move_all :: "strheap \<Rightarrow> addr option list \<Rightarrow> addr option list \<Rightarrow>
    (strheap \<times> addr option list) option" where
  "move_all hp ss [] = Some (hp, ss)"
| "move_all hp ss (p # ps) =
     (case move_chain hp ss p of None \<Rightarrow> None | Some (hp', ss') \<Rightarrow> move_all hp' ss' ps)"

definition StringTable_Resize :: "nat \<Rightarrow> sqstringtable \<Rightarrow> sqstringtable option" where
  "StringTable_Resize newsize t =
     (case move_all (st_heap t) (replicate newsize None) (st_strings t) of
        None \<Rightarrow> None
      | Some (hp, ss) \<Rightarrow> Some (t\<lparr>st_heap := hp, st_strings := ss\<rparr>))"

definition cstrlen :: "string \<Rightarrow> nat" where
  "cstrlen s = length (takeWhile (\<lambda>c. of_char c \<noteq> (0 :: 8 word)) s)"

text \<open>\<open>Add\<close>: \<open>t\<close> is the new object, at the address \<open>fresh\<close>.\<close>

definition StringTable_Add ::
    "sqstringtable \<Rightarrow> addr \<Rightarrow> string \<Rightarrow> int \<Rightarrow> (addr \<times> sqstringtable) option" where
  "StringTable_Add t fresh news len0 =
     (let len = (if len0 < 0 then int (cstrlen news) else len0);
          newhash = hashstr (take (nat len) news);
          h = bucket (length (st_strings t)) newhash in
      do { found \<leftarrow> intern_find (st_heap t) news len (st_strings t ! h);
           case found of
             Some a \<Rightarrow> Some (a, t)
           | None \<Rightarrow>
               (let s = \<lparr>s_next = st_strings t ! h, s_len = len, s_hash = newhash,
                         s_val = take (nat len) news\<rparr>;
                    t1 = t\<lparr>st_heap := (st_heap t)(fresh \<mapsto> s),
                           st_strings := (st_strings t)[h := Some fresh],
                           st_slotused := st_slotused t + 1\<rparr> in
                if st_slotused t1 > length (st_strings t1)
                then do { t2 \<leftarrow> StringTable_Resize (length (st_strings t1) * 2) t1;
                          Some (fresh, t2) }
                else Some (fresh, t1)) })"

text \<open>The walk of \<open>Remove\<close>: the predecessor of the string, when it is found.\<close>

partial_function (option) remove_find ::
    "strheap \<Rightarrow> addr \<Rightarrow> addr option \<Rightarrow> addr option \<Rightarrow> addr option option option" where
  "remove_find hp bs prev s =
     (if s = None then Some None
      else if s = Some bs then Some (Some prev)
      else do { r \<leftarrow> hp (the s); remove_find hp bs s (s_next r) })"

declare remove_find.simps [code]

definition StringTable_Remove :: "sqstringtable \<Rightarrow> addr \<Rightarrow> sqstringtable option" where
  "StringTable_Remove t bs =
     (case st_heap t bs of
        None \<Rightarrow> None
      | Some b \<Rightarrow>
          (let h = bucket (length (st_strings t)) (s_hash b) in
           do { found \<leftarrow> remove_find (st_heap t) bs None (st_strings t ! h);
                case found of
                  None \<Rightarrow> Some t
                | Some (Some prev) \<Rightarrow>
                    (case st_heap t prev of
                       None \<Rightarrow> None
                     | Some p \<Rightarrow>
                         Some (t\<lparr>st_heap := ((st_heap t)(prev \<mapsto> p\<lparr>s_next := s_next b\<rparr>))(bs := None),
                                 st_slotused := st_slotused t - 1\<rparr>))
                | Some None \<Rightarrow>
                    Some (t\<lparr>st_heap := (st_heap t)(bs := None),
                            st_strings := (st_strings t)[h := s_next b],
                            st_slotused := st_slotused t - 1\<rparr>) }))"

section \<open>Invariant\<close>

definition snx :: "strheap \<Rightarrow> addr \<Rightarrow> addr option" where
  "snx hp a = (case hp a of None \<Rightarrow> None | Some s \<Rightarrow> s_next s)"

definition in_bucket :: "strheap \<Rightarrow> nat \<Rightarrow> nat \<Rightarrow> addr set" where
  "in_bucket hp n i = {a. \<exists>s. hp a = Some s \<and> bucket n (s_hash s) = i}"

definition buckets_ok :: "strheap \<Rightarrow> addr option list \<Rightarrow> (nat \<Rightarrow> addr set) \<Rightarrow> bool" where
  "buckets_ok hp ss Q \<longleftrightarrow>
     (\<forall>i<length ss. \<exists>xs. list_at (snx hp) (ss ! i) xs \<and> set xs = Q i)"

definition str_ok :: "sqstring \<Rightarrow> bool" where
  "str_ok s \<longleftrightarrow> s_len s = int (length (s_val s)) \<and> s_hash s = hashstr (s_val s)"

definition contents :: "sqstringtable \<Rightarrow> addr \<Rightarrow> string option" where
  "contents t a = map_option s_val (st_heap t a)"

definition strtab_inv :: "sqstringtable \<Rightarrow> bool" where
  "strtab_inv t \<longleftrightarrow>
     (\<exists>k\<ge>2. length (st_strings t) = 2 ^ k) \<and>
     buckets_ok (st_heap t) (st_strings t) (in_bucket (st_heap t) (length (st_strings t))) \<and>
     (\<forall>a s. st_heap t a = Some s \<longrightarrow> str_ok s) \<and>
     (\<forall>a b. contents t a = contents t b \<longrightarrow> contents t a \<noteq> None \<longrightarrow> a = b) \<and>
     finite (dom (st_heap t)) \<and> st_slotused t = card (dom (st_heap t))"

lemma buckets_okD:
  "buckets_ok hp ss Q \<Longrightarrow> i < length ss \<Longrightarrow> \<exists>xs. list_at (snx hp) (ss ! i) xs \<and> set xs = Q i"
  by (simp add: buckets_ok_def)

lemma snx_at: "hp a = Some s \<Longrightarrow> snx hp a = s_next s"
  by (simp add: snx_def)

lemma snx_upd: "snx (hp(a \<mapsto> s)) = (snx hp)(a := s_next s)"
  by (auto simp: snx_def)

lemma snx_del: "snx (hp(a := None)) = (snx hp)(a := None)"
  by (auto simp: snx_def)

section \<open>The walks\<close>

lemma intern_find_list:
  assumes "list_at (snx hp) p xs" and "set xs \<subseteq> dom hp"
  shows "intern_find hp news len p =
     Some (find (\<lambda>a. \<exists>s. hp a = Some s \<and> s_len s = len \<and>
        take (nat len) news = take (nat len) (s_val s)) xs)"
  using assms
proof (induction xs arbitrary: p)
  case Nil
  then show ?case by (simp add: intern_find.simps)
next
  case (Cons a xs)
  then obtain s where "hp a = Some s" by auto
  with Cons show ?case by (subst intern_find.simps) (auto simp: snx_def)
qed

lemma remove_find_list:
  assumes "list_at (snx hp) p (us @ b # vs)" and "set (us @ b # vs) \<subseteq> dom hp"
  shows "remove_find hp b prev p = Some (Some (if us = [] then prev else Some (last us)))"
  using assms
proof (induction us arbitrary: p prev)
  case Nil
  then show ?case by (simp add: remove_find.simps)
next
  case (Cons a us)
  then obtain s where s: "hp a = Some s" by auto
  from list_at_distinct [OF Cons.prems(1)] have "a \<noteq> b" by auto
  with Cons s show ?case by (subst remove_find.simps) (auto simp: snx_def)
qed

text \<open>Moving a chain into the buckets of a new array.\<close>

definition same_str :: "strheap \<Rightarrow> strheap \<Rightarrow> bool" where
  "same_str hp hp' \<longleftrightarrow> (\<forall>a. rel_option (\<lambda>s s'. s_len s' = s_len s \<and> s_hash s' = s_hash s \<and>
      s_val s' = s_val s) (hp a) (hp' a))"

lemma same_str_refl [simp]: "same_str hp hp"
  by (simp add: same_str_def option.rel_refl)

lemma same_str_trans: "same_str hp hp' \<Longrightarrow> same_str hp' hp'' \<Longrightarrow> same_str hp hp''"
proof -
  assume a: "same_str hp hp'" "same_str hp' hp''"
  have "rel_option (\<lambda>s s'. s_len s' = s_len s \<and> s_hash s' = s_hash s \<and> s_val s' = s_val s)
      (hp x) (hp'' x)" for x
    using a(1) [unfolded same_str_def, THEN spec, of x] a(2) [unfolded same_str_def, THEN spec, of x]
    by (cases "hp x"; cases "hp' x"; cases "hp'' x") auto
  then show ?thesis by (simp add: same_str_def)
qed

lemma same_strD:
  assumes "same_str hp hp'"
  shows same_str_dom: "dom hp' = dom hp"
    and same_str_hash: "map_option s_hash (hp' a) = map_option s_hash (hp a)"
    and same_str_val: "map_option s_val (hp' a) = map_option s_val (hp a)"
proof -
  note r = assms [unfolded same_str_def, THEN spec]
  have "a \<in> dom hp' \<longleftrightarrow> a \<in> dom hp" for a using r [of a] by (auto elim: option.rel_cases)
  then show "dom hp' = dom hp" by blast
  show "map_option s_hash (hp' a) = map_option s_hash (hp a)"
    "map_option s_val (hp' a) = map_option s_val (hp a)"
    using r [of a] by (auto elim: option.rel_cases)
qed

lemma same_str_ok:
  assumes "same_str hp hp'" and "\<forall>a s. hp a = Some s \<longrightarrow> str_ok s" and "hp' a = Some s"
  shows "str_ok s"
  using assms(1) [unfolded same_str_def, THEN spec, of a] assms(2,3)
  by (auto simp: str_ok_def option_rel_Some2)

lemma same_str_bucket:
  assumes "same_str hp hp'" shows "in_bucket hp' n i = in_bucket hp n i"
proof -
  have "a \<in> in_bucket hp' n i \<longleftrightarrow> a \<in> in_bucket hp n i" for a
    using assms [unfolded same_str_def, THEN spec, of a]
    by (auto simp: in_bucket_def elim: option.rel_cases)
  then show ?thesis by blast
qed

lemma move_chain_list:
  assumes "list_at (snx hp) p xs" and "set xs \<subseteq> dom hp"
    and "buckets_ok hp ss Q" and "\<And>i. i < length ss \<Longrightarrow> Q i \<inter> set xs = {}" and "0 < length ss"
  shows "\<exists>hp' ss'. move_chain hp ss p = Some (hp', ss') \<and> length ss' = length ss \<and>
     same_str hp hp' \<and> (\<forall>a. a \<notin> set xs \<longrightarrow> hp' a = hp a) \<and>
     buckets_ok hp' ss' (\<lambda>i. Q i \<union> {a \<in> set xs. a \<in> in_bucket hp (length ss) i})"
  using assms
proof (induction xs arbitrary: p hp ss Q)
  case Nil
  then show ?case by (simp add: move_chain.simps)
next
  case (Cons a xs)
  obtain s where s: "hp a = Some s" using Cons.prems(2) by auto
  define h where "h = bucket (length ss) (s_hash s)"
  define hp1 where "hp1 = hp(a \<mapsto> s\<lparr>s_next := ss ! h\<rparr>)"
  define ss1 where "ss1 = ss[h := Some a]"
  define Q1 where "Q1 = (\<lambda>i. Q i \<union> (if i = h then {a} else {}))"
  have h: "h < length ss" using Cons.prems(5) by (simp add: h_def)
  have p: "p = Some a" and tl: "list_at (snx hp) (s_next s) xs"
    using Cons.prems(1) snx_at [of hp a s] s by auto
  have na: "a \<notin> set xs" using list_at_distinct [OF Cons.prems(1)] by simp
  have nx: "snx hp1 x = snx hp x" if "x \<noteq> a" for x using that by (simp add: hp1_def snx_upd)
  have st: "same_str hp hp1"
    unfolding same_str_def hp1_def using s by (auto simp: option.rel_refl)
  have fr: "list_at (snx hp1) q ys \<longleftrightarrow> list_at (snx hp) q ys" if "a \<notin> set ys" for q ys
  proof (rule list_at_frame)
    fix x assume "x \<in> set ys"
    with that have "x \<noteq> a" by blast
    then show "snx hp1 x = snx hp x" by (rule nx)
  qed
  have "list_at (snx hp1) (s_next s) xs" using tl fr [OF na] by blast
  moreover have "set xs \<subseteq> dom hp1" using Cons.prems(2) by (auto simp: hp1_def)
  moreover have "buckets_ok hp1 ss1 Q1"
    unfolding buckets_ok_def
  proof (intro allI impI)
    fix i assume "i < length ss1"
    then have i: "i < length ss" by (simp add: ss1_def)
    from buckets_okD [OF Cons.prems(3) i] obtain ys where
      ys: "list_at (snx hp) (ss ! i) ys" "set ys = Q i" by blast
    have "a \<notin> set ys" using Cons.prems(4) [OF i] ys(2) by auto
    then have "list_at (snx hp1) (ss ! i) ys" using ys(1) fr by blast
    show "\<exists>xs. list_at (snx hp1) (ss1 ! i) xs \<and> set xs = Q1 i"
    proof (cases "i = h")
      case True
      have "snx hp1 a = ss ! i" by (simp add: hp1_def snx_upd True)
      with \<open>list_at (snx hp1) (ss ! i) ys\<close> ys(2) True h show ?thesis
        by (intro exI [of _ "a # ys"]) (simp add: ss1_def Q1_def)
    next
      case False
      with \<open>list_at (snx hp1) (ss ! i) ys\<close> ys(2) show ?thesis
        by (intro exI [of _ ys]) (simp add: ss1_def Q1_def)
    qed
  qed
  moreover have "Q1 i \<inter> set xs = {}" if "i < length ss1" for i
    using Cons.prems(4) [of i] that na by (auto simp: ss1_def Q1_def)
  moreover have "0 < length ss1" using Cons.prems(5) by (simp add: ss1_def)
  ultimately obtain hp' ss' where r: "move_chain hp1 ss1 (s_next s) = Some (hp', ss')"
    "length ss' = length ss1" "same_str hp1 hp'" "\<forall>b. b \<notin> set xs \<longrightarrow> hp' b = hp1 b"
    "buckets_ok hp' ss' (\<lambda>i. Q1 i \<union> {a \<in> set xs. a \<in> in_bucket hp1 (length ss1) i})"
    using Cons.IH [of hp1 "s_next s" ss1 Q1] by blast
  have "move_chain hp ss p = Some (hp', ss')"
    using r(1) s by (subst move_chain.simps) (simp add: p h_def Let_def hp1_def ss1_def)
  moreover have "(\<lambda>i. Q1 i \<union> {a \<in> set xs. a \<in> in_bucket hp1 (length ss1) i}) =
      (\<lambda>i. Q i \<union> {b \<in> set (a # xs). b \<in> in_bucket hp (length ss) i})"
    unfolding same_str_bucket [OF st] using s
    by (auto simp: Q1_def ss1_def h_def in_bucket_def fun_eq_iff)
  ultimately show ?case using r same_str_trans [OF st r(3)]
    by (auto simp: ss1_def hp1_def)
qed

lemma move_all_lists:
  assumes "list_all2 (list_at (snx hp)) ps xss" and "distinct (concat xss)"
    and "set (concat xss) \<subseteq> dom hp" and "buckets_ok hp ss Q"
    and "\<And>i. i < length ss \<Longrightarrow> Q i \<inter> set (concat xss) = {}" and "0 < length ss"
  shows "\<exists>hp' ss'. move_all hp ss ps = Some (hp', ss') \<and> length ss' = length ss \<and>
     same_str hp hp' \<and>
     buckets_ok hp' ss' (\<lambda>i. Q i \<union> {a \<in> set (concat xss). a \<in> in_bucket hp (length ss) i})"
  using assms
proof (induction xss arbitrary: ps hp ss Q rule: list.induct)
  case Nil
  then have "ps = []" by simp
  with Nil show ?case by auto
next
  case (Cons xs xss)
  from Cons.prems(1) obtain p ps' where ps: "ps = p # ps'" "list_at (snx hp) p xs"
    "list_all2 (list_at (snx hp)) ps' xss" by (auto simp: list_all2_Cons2)
  have dj: "set xs \<inter> set (concat xss) = {}" using Cons.prems(2) by auto
  obtain hp1 ss1 where m: "move_chain hp ss p = Some (hp1, ss1)" "length ss1 = length ss"
    "same_str hp hp1" "\<forall>a. a \<notin> set xs \<longrightarrow> hp1 a = hp a"
    "buckets_ok hp1 ss1 (\<lambda>i. Q i \<union> {a \<in> set xs. a \<in> in_bucket hp (length ss) i})"
  proof -
    have "set xs \<subseteq> dom hp" using Cons.prems(3) by simp
    moreover have "Q i \<inter> set xs = {}" if "i < length ss" for i using Cons.prems(5) [OF that] by auto
    ultimately show ?thesis
      using move_chain_list [OF ps(2) _ Cons.prems(4) _ Cons.prems(6)] that by blast
  qed
  have "list_at (snx hp1) q ys = list_at (snx hp) q ys" if "ys \<in> set xss" for q ys
  proof (rule list_at_frame)
    fix x assume "x \<in> set ys"
    with that dj have "x \<notin> set xs" by auto
    with m(4) show "snx hp1 x = snx hp x" by (simp add: snx_def)
  qed
  then have "list_all2 (list_at (snx hp1)) ps' xss"
    using ps(3) by (blast intro: list.rel_mono_strong)
  moreover have "distinct (concat xss)" using Cons.prems(2) by simp
  moreover have "set (concat xss) \<subseteq> dom hp1"
    using Cons.prems(3) same_str_dom [OF m(3)] by simp
  moreover have "(Q i \<union> {a \<in> set xs. a \<in> in_bucket hp (length ss) i}) \<inter> set (concat xss) = {}"
    if "i < length ss1" for i
    using Cons.prems(5) [of i] dj that m(2) by auto
  moreover have "0 < length ss1" using Cons.prems(6) m(2) by simp
  ultimately obtain hp' ss' where r: "move_all hp1 ss1 ps' = Some (hp', ss')"
    "length ss' = length ss1" "same_str hp1 hp'"
    "buckets_ok hp' ss' (\<lambda>i. (Q i \<union> {a \<in> set xs. a \<in> in_bucket hp (length ss) i}) \<union>
       {a \<in> set (concat xss). a \<in> in_bucket hp1 (length ss1) i})"
    using Cons.IH [OF _ _ _ m(5)] by blast
  have "(\<lambda>i. (Q i \<union> {a \<in> set xs. a \<in> in_bucket hp (length ss) i}) \<union>
       {a \<in> set (concat xss). a \<in> in_bucket hp1 (length ss1) i}) =
     (\<lambda>i. Q i \<union> {a \<in> set (concat (xs # xss)). a \<in> in_bucket hp (length ss) i})"
    unfolding same_str_bucket [OF m(3)] m(2) by (rule ext) auto
  with r m ps(1) same_str_trans [OF m(3) r(3)] show ?case by simp
qed

lemma Resize_buckets:
  assumes "buckets_ok (st_heap t) (st_strings t) (in_bucket (st_heap t) n)"
    and "length (st_strings t) = n" and "0 < n" and "0 < n'"
  shows "\<exists>hp ss. StringTable_Resize n' t = Some (t\<lparr>st_heap := hp, st_strings := ss\<rparr>) \<and>
     length ss = n' \<and> same_str (st_heap t) hp \<and> buckets_ok hp ss (in_bucket hp n')"
proof -
  let ?hp = "st_heap t"
  obtain f where f: "list_at (snx ?hp) (st_strings t ! i) (f i)" "set (f i) = in_bucket ?hp n i"
    if "i < n" for i
    using assms(1,2) unfolding buckets_ok_def by metis
  let ?xss = "map f [0..<n]"
  have l: "list_all2 (list_at (snx ?hp)) (st_strings t) ?xss"
    using f(1) assms(2) by (simp add: list_all2_conv_all_nth)
  have d: "distinct (concat ?xss)"
    by (rule distinct_concat_map) (auto intro: list_at_distinct f(1) simp: f(2) in_bucket_def)
  have s: "set (concat ?xss) = dom ?hp"
    using f(2) assms(3) by (force simp: in_bucket_def)
  have b: "buckets_ok ?hp (replicate n' None) (\<lambda>_. {})"
    by (simp add: buckets_ok_def)
  obtain hp ss where r: "move_all ?hp (replicate n' None) (st_strings t) = Some (hp, ss)"
    "length ss = n'" "same_str ?hp hp"
    "buckets_ok hp ss (\<lambda>i. {a \<in> dom ?hp. a \<in> in_bucket ?hp n' i})"
    using move_all_lists [OF l d _ b] assms(4) unfolding s by auto
  have "(\<lambda>i. {a \<in> dom ?hp. a \<in> in_bucket ?hp n' i}) = in_bucket hp n'"
    unfolding same_str_bucket [OF r(3)] by (rule ext) (auto simp: in_bucket_def)
  with r show ?thesis by (auto simp: StringTable_Resize_def)
qed

section \<open>Correctness of Add and Remove\<close>

lemma strtab_invD:
  assumes "strtab_inv t"
  shows strtab_size: "\<exists>k\<ge>2. length (st_strings t) = 2 ^ k" and strtab_pos: "0 < length (st_strings t)"
    and strtab_buckets: "buckets_ok (st_heap t) (st_strings t)
      (in_bucket (st_heap t) (length (st_strings t)))"
    and strtab_ok: "st_heap t a = Some s \<Longrightarrow> str_ok s"
    and strtab_inj: "contents t a = contents t b \<Longrightarrow> contents t a \<noteq> None \<Longrightarrow> a = b"
    and strtab_fin: "finite (dom (st_heap t))"
    and strtab_count: "st_slotused t = card (dom (st_heap t))"
  using assms unfolding strtab_inv_def by auto

lemma strtab_inv_transfer:
  assumes "same_str (st_heap t) hp" and "buckets_ok hp ss (in_bucket hp (length ss))"
    and "\<exists>k\<ge>2. length ss = 2 ^ k" and "\<And>a s. st_heap t a = Some s \<Longrightarrow> str_ok s"
    and "\<And>a b. contents t a = contents t b \<Longrightarrow> contents t a \<noteq> None \<Longrightarrow> a = b"
    and "finite (dom (st_heap t))" and "st_slotused t = card (dom (st_heap t))"
  shows "strtab_inv (t\<lparr>st_heap := hp, st_strings := ss\<rparr>) \<and>
     contents (t\<lparr>st_heap := hp, st_strings := ss\<rparr>) = contents t"
proof -
  have "contents (t\<lparr>st_heap := hp, st_strings := ss\<rparr>) = contents t"
    using same_str_val [OF assms(1)] by (simp add: contents_def fun_eq_iff)
  moreover from this have "strtab_inv (t\<lparr>st_heap := hp, st_strings := ss\<rparr>)"
    using assms same_str_dom [OF assms(1)] same_str_ok [OF assms(1)]
    unfolding strtab_inv_def by auto
  ultimately show ?thesis by simp
qed

lemma StringTable_new_inv: "strtab_inv StringTable_new \<and> contents StringTable_new = Map.empty"
  by (auto simp: strtab_inv_def StringTable_new_def buckets_ok_def in_bucket_def contents_def
      intro!: exI [of _ 2])

lemma Add_correct:
  assumes inv: "strtab_inv t" and fr: "st_heap t fresh = None"
    and len: "len = (if len0 < 0 then int (cstrlen news) else len0)" "nat len \<le> length news"
  defines "str \<equiv> take (nat len) news"
  shows "\<exists>a t'. StringTable_Add t fresh news len0 = Some (a, t') \<and> strtab_inv t' \<and>
     contents t' a = Some str \<and>
     (if str \<in> ran (contents t) then contents t a = Some str \<and> t' = t
      else a = fresh \<and> contents t' = (contents t)(fresh \<mapsto> str))"
proof -
  let ?hp = "st_heap t" and ?n = "length (st_strings t)"
  define h where "h = bucket ?n (hashstr str)"
  have h: "h < ?n" using strtab_pos [OF inv] by (simp add: h_def)
  have lstr: "int (length str) = len" using len by (auto simp: str_def split: if_splits)
  obtain xs where xs: "list_at (snx ?hp) (st_strings t ! h) xs" "set xs = in_bucket ?hp ?n h"
    using buckets_okD [OF strtab_buckets [OF inv] h] by blast
  define P where "P = (\<lambda>a. \<exists>s. ?hp a = Some s \<and> s_len s = len \<and>
      take (nat len) news = take (nat len) (s_val s))"
  have P: "P a \<longleftrightarrow> contents t a = Some str" for a
    using strtab_ok [OF inv, of a] lstr
    by (auto simp: P_def contents_def str_ok_def str_def [symmetric])
  have f: "intern_find ?hp news len (st_strings t ! h) = Some (find P xs)"
    unfolding P_def by (rule intern_find_list [OF xs(1)]) (auto simp: xs(2) in_bucket_def)
  have inb: "a \<in> set xs" if "contents t a = Some str" for a
    using that strtab_ok [OF inv, of a]
    by (auto simp: xs(2) in_bucket_def contents_def str_ok_def h_def)
  have add: "StringTable_Add t fresh news len0 =
      (case find P xs of Some a \<Rightarrow> Some (a, t) | None \<Rightarrow>
        (let s = \<lparr>s_next = st_strings t ! h, s_len = len, s_hash = hashstr str, s_val = str\<rparr>;
             t1 = t\<lparr>st_heap := ?hp(fresh \<mapsto> s), st_strings := (st_strings t)[h := Some fresh],
                    st_slotused := st_slotused t + 1\<rparr> in
         if st_slotused t1 > ?n
         then do { t2 \<leftarrow> StringTable_Resize (?n * 2) t1; Some (fresh, t2) }
         else Some (fresh, t1)))"
    using f by (simp add: StringTable_Add_def len(1) [symmetric] str_def [symmetric]
        h_def [symmetric] Let_def cong: option.case_cong)
  show ?thesis
  proof (cases "find P xs")
    case (Some a)
    then have a: "contents t a = Some str" by (auto simp: find_Some_iff P)
    then have "str \<in> ran (contents t)" by (auto simp: ran_def)
    with Some a inv show ?thesis by (auto simp: add)
  next
    case None
    then have new: "contents t a \<noteq> Some str" for a
      using inb by (auto simp: find_None_iff P)
    then have nr: "str \<notin> ran (contents t)" by (auto simp: ran_def)
    define s where "s = \<lparr>s_next = st_strings t ! h, s_len = len, s_hash = hashstr str, s_val = str\<rparr>"
    define t1 where "t1 = t\<lparr>st_heap := ?hp(fresh \<mapsto> s), st_strings := (st_strings t)[h := Some fresh],
        st_slotused := st_slotused t + 1\<rparr>"
    have c1: "contents t1 = (contents t)(fresh \<mapsto> str)"
      by (auto simp: contents_def t1_def s_def)
    have ok1: "str_ok s'" if "st_heap t1 a = Some s'" for a s'
      using that strtab_ok [OF inv] lstr by (auto simp: t1_def s_def str_ok_def split: if_splits)
    have inj1: "a = b" if "contents t1 a = contents t1 b" "contents t1 a \<noteq> None" for a b
      using that new strtab_inj [OF inv] by (auto simp: c1 split: if_splits)
    have fin1: "finite (dom (st_heap t1))" using strtab_fin [OF inv] by (simp add: t1_def)
    have cnt1: "st_slotused t1 = card (dom (st_heap t1))"
      using strtab_count [OF inv] strtab_fin [OF inv] fr by (simp add: t1_def card_insert_if domIff)
    have b1: "buckets_ok (st_heap t1) (st_strings t1) (in_bucket (st_heap t1) ?n)"
      unfolding buckets_ok_def
    proof (intro allI impI)
      fix i assume "i < length (st_strings t1)"
      then have i: "i < ?n" by (simp add: t1_def)
      obtain ys where ys: "list_at (snx ?hp) (st_strings t ! i) ys" "set ys = in_bucket ?hp ?n i"
        using buckets_okD [OF strtab_buckets [OF inv] i] by blast
      have nf: "fresh \<notin> set ys" using ys(2) fr by (auto simp: in_bucket_def)
      have ys1: "list_at (snx (st_heap t1)) (st_strings t ! i) ys"
        using ys(1) nf by (subst list_at_frame [of _ _ "snx ?hp"]) (auto simp: t1_def snx_upd)
      have set1: "in_bucket (st_heap t1) ?n i =
          (if i = h then insert fresh (in_bucket ?hp ?n i) else in_bucket ?hp ?n i)"
        using fr by (auto simp: in_bucket_def t1_def s_def h_def)
      show "\<exists>xs. list_at (snx (st_heap t1)) (st_strings t1 ! i) xs \<and>
          set xs = in_bucket (st_heap t1) ?n i"
      proof (cases "i = h")
        case True
        have "snx (st_heap t1) fresh = st_strings t ! i"
          by (simp add: snx_upd t1_def s_def True)
        with ys ys1 set1 True h show ?thesis
          by (intro exI [of _ "fresh # ys"]) (simp add: t1_def)
      next
        case False
        with ys ys1 set1 show ?thesis by (intro exI [of _ ys]) (simp add: t1_def)
      qed
    qed
    have l1: "length (st_strings t1) = ?n" by (simp add: t1_def)
    show ?thesis
    proof (cases "st_slotused t1 > ?n")
      case False
      then have "StringTable_Add t fresh news len0 = Some (fresh, t1)"
        unfolding add by (simp only: None option.case s_def [symmetric] t1_def [symmetric] Let_def
            if_False)
      moreover have "strtab_inv t1"
        unfolding strtab_inv_def using strtab_size [OF inv] b1 ok1 inj1 fin1 cnt1 l1 by auto
      ultimately show ?thesis using nr c1 by simp
    next
      case True
      obtain hp ss where r: "StringTable_Resize (?n * 2) t1 = Some (t1\<lparr>st_heap := hp, st_strings := ss\<rparr>)"
        "length ss = ?n * 2" "same_str (st_heap t1) hp" "buckets_ok hp ss (in_bucket hp (?n * 2))"
        using Resize_buckets [OF b1 l1, of "?n * 2"] strtab_pos [OF inv] by auto
      have "\<exists>k\<ge>2. length ss = 2 ^ k"
      proof -
        obtain k where "k \<ge> 2" "?n = 2 ^ k" using strtab_size [OF inv] by blast
        then show ?thesis using r(2) by (intro exI [of _ "Suc k"]) auto
      qed
      then have "strtab_inv (t1\<lparr>st_heap := hp, st_strings := ss\<rparr>) \<and>
          contents (t1\<lparr>st_heap := hp, st_strings := ss\<rparr>) = contents t1"
        using strtab_inv_transfer [OF r(3), of ss] r(2,4) ok1 inj1 fin1 cnt1 by simp
      moreover have "StringTable_Add t fresh news len0 =
          Some (fresh, t1\<lparr>st_heap := hp, st_strings := ss\<rparr>)"
        unfolding add using True
        by (simp only: None option.case s_def [symmetric] t1_def [symmetric] Let_def
            if_True r(1) Option.bind.simps)
      ultimately show ?thesis using nr c1 by simp
    qed
  qed
qed

lemma Remove_correct:
  assumes inv: "strtab_inv t" and bs: "st_heap t bs = Some b"
  shows "\<exists>t'. StringTable_Remove t bs = Some t' \<and> strtab_inv t' \<and>
     contents t' = (contents t)(bs := None)"
proof -
  let ?hp = "st_heap t" and ?n = "length (st_strings t)"
  define h where "h = bucket ?n (s_hash b)"
  have h: "h < ?n" using strtab_pos [OF inv] by (simp add: h_def)
  obtain xs where xs: "list_at (snx ?hp) (st_strings t ! h) xs" "set xs = in_bucket ?hp ?n h"
    using buckets_okD [OF strtab_buckets [OF inv] h] by blast
  have "bs \<in> set xs" using bs by (auto simp: xs(2) in_bucket_def h_def)
  then obtain us vs where uv: "xs = us @ bs # vs" by (auto simp: in_set_conv_decomp)
  have d: "distinct xs" by (rule list_at_distinct [OF xs(1)])
  have sub: "set xs \<subseteq> dom ?hp" by (auto simp: xs(2) in_bucket_def)
  have f: "remove_find ?hp bs None (st_strings t ! h) =
      Some (Some (if us = [] then None else Some (last us)))"
    by (rule remove_find_list) (use xs(1) sub uv in auto)
  have fin: "finite (dom (?hp(bs := None)))" using strtab_fin [OF inv] by simp
  have cnt: "st_slotused t - 1 = card (dom (?hp(bs := None)))"
    using strtab_count [OF inv] strtab_fin [OF inv] bs by (simp add: domI)
  have fin_inv: "strtab_inv t' \<and> contents t' = (contents t)(bs := None)"
    if t': "t' = t\<lparr>st_heap := hp, st_strings := ss, st_slotused := st_slotused t - 1\<rparr>"
      and st: "same_str (?hp(bs := None)) hp" and l: "length ss = ?n"
      and bk: "\<And>i ys. i < ?n \<Longrightarrow> i \<noteq> h \<Longrightarrow> list_at (snx ?hp) (st_strings t ! i) ys \<Longrightarrow>
         set ys = in_bucket ?hp ?n i \<Longrightarrow> list_at (snx hp) (ss ! i) ys"
      and bh: "list_at (snx hp) (ss ! h) (us @ vs)" for t' hp ss
  proof -
    have ib: "in_bucket hp ?n i = in_bucket ?hp ?n i - {bs}" for i
      unfolding same_str_bucket [OF st] by (auto simp: in_bucket_def)
    have c: "contents t' = (contents t)(bs := None)"
      using same_str_val [OF st] by (auto simp: contents_def t' fun_eq_iff)
    have "buckets_ok hp ss (in_bucket hp ?n)"
      unfolding buckets_ok_def
    proof (intro allI impI)
      fix i assume "i < length ss"
      then have i: "i < ?n" by (simp add: l)
      show "\<exists>xs. list_at (snx hp) (ss ! i) xs \<and> set xs = in_bucket hp ?n i"
      proof (cases "i = h")
        case True
        have "set (us @ vs) = in_bucket ?hp ?n h - {bs}"
          using d uv unfolding xs(2) [symmetric] by auto
        with bh True show ?thesis by (intro exI [of _ "us @ vs"]) (simp add: ib)
      next
        case False
        obtain ys where ys: "list_at (snx ?hp) (st_strings t ! i) ys" "set ys = in_bucket ?hp ?n i"
          using buckets_okD [OF strtab_buckets [OF inv] i] by blast
        moreover have "bs \<notin> in_bucket ?hp ?n i" using bs False by (auto simp: in_bucket_def h_def)
        ultimately show ?thesis using bk [OF i False] by (auto simp: ib)
      qed
    qed
    moreover have "str_ok s" if "hp a = Some s" for a s
      by (rule same_str_ok [OF st _ that]) (use strtab_ok [OF inv] in \<open>auto split: if_splits\<close>)
    moreover have "a = a'" if "contents t' a = contents t' a'" "contents t' a \<noteq> None" for a a'
      using that strtab_inj [OF inv, of a a'] by (auto simp: c split: if_splits)
    moreover have "finite (dom hp)" "st_slotused t - 1 = card (dom hp)"
      using fin cnt same_str_dom [OF st] by simp_all
    ultimately have "strtab_inv t'"
      unfolding strtab_inv_def using strtab_size [OF inv] l by (simp add: t')
    with c show ?thesis by simp
  qed
  show ?thesis
  proof (cases us rule: rev_cases)
    case Nil
    let ?t' = "t\<lparr>st_heap := ?hp(bs := None), st_strings := (st_strings t)[h := s_next b],
        st_slotused := st_slotused t - 1\<rparr>"
    have "StringTable_Remove t bs = Some ?t'"
      using f by (simp add: StringTable_Remove_def bs h_def [symmetric] Nil Let_def)
    moreover have nx: "list_at (snx ?hp) (s_next b) vs"
      using xs(1) bs by (simp add: uv Nil snx_at)
    have "strtab_inv ?t' \<and> contents ?t' = (contents t)(bs := None)"
    proof (rule fin_inv)
      show "list_at (snx (?hp(bs := None))) ((st_strings t)[h := s_next b] ! h) (us @ vs)"
        using nx h d uv Nil by (simp add: snx_del, subst list_at_frame [of vs _ "snx ?hp"]) auto
      show "list_at (snx (?hp(bs := None))) ((st_strings t)[h := s_next b] ! i) ys"
        if "i < ?n" "i \<noteq> h" "list_at (snx ?hp) (st_strings t ! i) ys" "set ys = in_bucket ?hp ?n i"
        for i ys
      proof -
        have "bs \<notin> set ys" using that(2,4) bs by (auto simp: in_bucket_def h_def)
        then have "list_at (snx (?hp(bs := None))) (st_strings t ! i) ys"
          using that(3) by (subst list_at_frame [of ys _ "snx ?hp"]) (auto simp: snx_del)
        then show ?thesis using that(2) by simp
      qed
    qed auto
    ultimately show ?thesis by blast
  next
    case (snoc us' u)
    then obtain p where p: "?hp u = Some p" using sub uv by auto
    have nb: "u \<noteq> bs" using d uv snoc by auto
    let ?hp' = "(?hp(u \<mapsto> p\<lparr>s_next := s_next b\<rparr>))(bs := None)"
    let ?t' = "t\<lparr>st_heap := ?hp', st_slotused := st_slotused t - 1\<rparr>"
    have "StringTable_Remove t bs = Some ?t'"
      using f p by (simp add: StringTable_Remove_def bs h_def [symmetric] snoc Let_def)
    moreover have nx': "snx ?hp' x = (if x = bs then None else if x = u then s_next b else snx ?hp x)" for x
      using nb by (simp add: snx_del snx_upd)
    have "strtab_inv ?t' \<and> contents ?t' = (contents t)(bs := None)"
    proof (rule fin_inv)
      show "?t' = t\<lparr>st_heap := ?hp', st_strings := st_strings t, st_slotused := st_slotused t - 1\<rparr>"
        by simp
      show "same_str (?hp(bs := None)) ?hp'"
        using p nb by (auto simp: same_str_def option.rel_refl)
      have "list_at (snx ?hp') (st_strings t ! h) (us' @ u # vs)"
      proof (rule list_at_unlink)
        show "list_at (snx ?hp) (st_strings t ! h) (us' @ u # bs # vs)"
          using xs(1) by (simp add: uv snoc)
        show "snx ?hp' u = snx ?hp bs" using nb bs by (simp add: nx' snx_at)
        show "snx ?hp' x = snx ?hp x" if "x \<in> set (us' @ vs)" for x
          using that d uv snoc by (auto simp: nx')
      qed
      then show "list_at (snx ?hp') (st_strings t ! h) (us @ vs)" by (simp add: snoc)
      show "list_at (snx ?hp') (st_strings t ! i) ys"
        if "i < ?n" "i \<noteq> h" "list_at (snx ?hp) (st_strings t ! i) ys" "set ys = in_bucket ?hp ?n i"
        for i ys
      proof -
        have "bs \<notin> set ys" using that(2,4) bs by (auto simp: in_bucket_def h_def)
        moreover have "u \<notin> set ys"
        proof -
          have "u \<in> in_bucket ?hp ?n h" using xs(2) uv snoc by auto
          then show ?thesis using that(2,4) p by (auto simp: in_bucket_def)
        qed
        ultimately show ?thesis
          using that(3) by (subst list_at_frame [of ys _ "snx ?hp"]) (auto simp: nx')
      qed
    qed auto
    ultimately show ?thesis by blast
  qed
qed

section \<open>Properties\<close>

text \<open>
  A history of the table: strings are added, each with the address the allocator
  would give it, and live strings are removed.  Addresses of live strings are not
  handed out again, and the bytes of an added string are readable.
\<close>

datatype str_op = SAdd addr string int | SRemove addr

fun str_op_ok :: "sqstringtable \<Rightarrow> str_op \<Rightarrow> bool" where
  "str_op_ok t (SAdd fresh news len) \<longleftrightarrow>
     st_heap t fresh = None \<and> (0 \<le> len \<longrightarrow> nat len \<le> length news)"
| "str_op_ok t (SRemove a) \<longleftrightarrow> st_heap t a \<noteq> None"

inductive str_reach :: "sqstringtable \<Rightarrow> bool" where
  str_init: "str_reach StringTable_new"
| str_add: "str_reach t \<Longrightarrow> str_op_ok t (SAdd fresh news len) \<Longrightarrow>
    StringTable_Add t fresh news len = Some (a, t') \<Longrightarrow> str_reach t'"
| str_remove: "str_reach t \<Longrightarrow> str_op_ok t (SRemove a) \<Longrightarrow>
    StringTable_Remove t a = Some t' \<Longrightarrow> str_reach t'"

lemma cstrlen_le: "cstrlen s \<le> length s"
  by (simp add: cstrlen_def length_takeWhile_le)

lemma op_len: "str_op_ok t (SAdd fresh news len) \<Longrightarrow>
    nat (if len < 0 then int (cstrlen news) else len) \<le> length news"
  using cstrlen_le [of news] by (auto simp: not_less)

text \<open>The contents an addition asks for: up to the terminator when no length is given.\<close>

definition added_str :: "string \<Rightarrow> int \<Rightarrow> string" where
  "added_str news len = take (nat (if len < 0 then int (cstrlen news) else len)) news"

lemma Add_ok:
  assumes "strtab_inv t" and "str_op_ok t (SAdd fresh news len)"
  obtains a t' where "StringTable_Add t fresh news len = Some (a, t')" "strtab_inv t'"
    "contents t' a = Some (added_str news len)"
    "if added_str news len \<in> ran (contents t) then contents t a = Some (added_str news len) \<and> t' = t
     else a = fresh \<and> contents t' = (contents t)(fresh \<mapsto> added_str news len)"
proof -
  have "st_heap t fresh = None" using assms(2) by simp
  from Add_correct [OF assms(1) this refl op_len [OF assms(2)]] that show thesis
    unfolding added_str_def by blast
qed

lemma str_reach_inv: "str_reach t \<Longrightarrow> strtab_inv t"
proof (induction rule: str_reach.induct)
  case str_init
  then show ?case using StringTable_new_inv by simp
next
  case (str_add t fresh news len a t')
  from Add_ok [OF str_add.IH str_add.hyps(2)] show ?case by (metis str_add.hyps(3) option.inject
        prod.inject)
next
  case (str_remove t a t')
  then show ?case using Remove_correct [of t a] by auto
qed

text \<open>
  C3. Interning.  In every table reached by adding and removing strings, no two
  live string objects have the same contents, and adding a string always returns:
  it gives back the live object with those contents if there is one, leaving the
  table as it was, and otherwise the new object, whose contents they are, with
  every other string kept.  So comparing string pointers compares contents.
\<close>

theorem string_interning:
  assumes "str_reach t" and "str_op_ok t (SAdd fresh news len)"
  shows "\<exists>a t'. StringTable_Add t fresh news len = Some (a, t') \<and>
     contents t' a = Some (added_str news len) \<and>
     (if added_str news len \<in> ran (contents t)
      then contents t a = Some (added_str news len) \<and> t' = t
      else a = fresh \<and> contents t' = (contents t)(fresh \<mapsto> added_str news len)) \<and>
     (\<forall>b c. contents t' b = contents t' c \<longrightarrow> contents t' b \<noteq> None \<longrightarrow> b = c)"
proof -
  obtain a t' where a: "StringTable_Add t fresh news len = Some (a, t')" "strtab_inv t'"
    "contents t' a = Some (added_str news len)"
    "if added_str news len \<in> ran (contents t) then contents t a = Some (added_str news len) \<and> t' = t
     else a = fresh \<and> contents t' = (contents t)(fresh \<mapsto> added_str news len)"
    by (rule Add_ok [OF str_reach_inv [OF assms(1)] assms(2)])
  then show ?thesis using strtab_inj [OF a(2)] by blast
qed

theorem string_interning_witness:
  "\<exists>a t'. StringTable_Add StringTable_new 64 ''abc'' (- 1) = Some (a, t') \<and>
     contents t' a = Some (added_str ''abc'' (- 1))"
proof -
  have "str_op_ok StringTable_new (SAdd 64 ''abc'' (- 1))" by (simp add: StringTable_new_def)
  from string_interning [OF str_init this] show ?thesis by blast
qed

text \<open>
  Removing a live string always finds it: the walk of its bucket ends, the
  string's object and nothing else disappears, and adding its contents again
  allocates.
\<close>

theorem string_remove:
  assumes "str_reach t" and "contents t a = Some s"
  shows "\<exists>t'. StringTable_Remove t a = Some t' \<and> str_reach t' \<and>
     contents t' = (contents t)(a := None) \<and> s \<notin> ran (contents t') \<and>
     st_slotused t' = card (dom (contents t'))"
proof -
  have inv: "strtab_inv t" by (rule str_reach_inv [OF assms(1)])
  from assms(2) obtain b where b: "st_heap t a = Some b" by (auto simp: contents_def)
  from Remove_correct [OF inv b] obtain t' where
    t': "StringTable_Remove t a = Some t'" "strtab_inv t'" "contents t' = (contents t)(a := None)" by blast
  have "str_reach t'" by (rule str_remove [OF assms(1) _ t'(1)]) (simp add: b)
  moreover have "s \<notin> ran (contents t')"
    using strtab_inj [OF inv] assms(2) by (auto simp: t'(3) ran_def split: if_splits)
  moreover have "dom (contents t') = dom (st_heap t')" by (auto simp: contents_def)
  ultimately show ?thesis using t' strtab_count [OF t'(2)] by auto
qed

theorem string_remove_witness:
  "\<exists>t a t'. contents t a = Some ''abc'' \<and> StringTable_Remove t a = Some t' \<and>
     ''abc'' \<notin> ran (contents t')"
proof -
  have ok: "str_op_ok StringTable_new (SAdd 64 ''abc'' 3)" by (simp add: StringTable_new_def)
  have e: "added_str ''abc'' 3 = ''abc''" by (simp add: added_str_def)
  obtain a t where t: "StringTable_Add StringTable_new 64 ''abc'' 3 = Some (a, t)"
    "contents t a = Some ''abc''"
    by (rule Add_ok [OF str_reach_inv [OF str_init] ok]) (auto simp: e)
  from string_remove [OF str_add [OF str_init ok t(1)] t(2)] t(2) show ?thesis by blast
qed

end
