(* ===== verification/RefTable.thy ===== *)
theory RefTable
  imports Objects "HOL-Library.Monad_Syntax"
begin

text \<open>
  The reference table of \<^verbatim>\<open>squirrel/sqstate.cpp\<close>: how many times the host program
  holds each object (\<^verbatim>\<open>sq_addref\<close>, \<^verbatim>\<open>sq_release\<close>).  Nodes live in one array and are
  linked by index, each bucket is the head of a list of nodes and the unused nodes
  form the free list.  \<open>None\<close> is a walk that does not end or an access to a node
  that is not there.
\<close>

section \<open>State\<close>

record refnode =
  rn_obj :: sqobj
  rn_refs :: "64 word"
  rn_next :: "nat option"

record reftable =
  rt_nodes :: "refnode list"
  rt_buckets :: "nat option list"
  rt_freelist :: "nat option"
  rt_slotused :: nat

text \<open>\<open>_numofslots\<close> is the length of both arrays.\<close>

definition rt_numofslots :: "reftable \<Rightarrow> nat" where
  "rt_numofslots t = length (rt_buckets t)"

definition RefTable_AllocNodes :: "nat \<Rightarrow> reftable" where
  "RefTable_AllocNodes sz =
     \<lparr>rt_nodes = map (\<lambda>n. \<lparr>rn_obj = ONull, rn_refs = 0,
                        rn_next = (if n < sz - 1 then Some (n + 1) else None)\<rparr>) [0..<sz],
      rt_buckets = replicate sz None, rt_freelist = Some 0, rt_slotused = 0\<rparr>"

definition RefTable_new :: reftable where
  "RefTable_new = RefTable_AllocNodes 4"

section \<open>Operations\<close>

definition RefTable_Add :: "nat \<Rightarrow> sqobj \<Rightarrow> reftable \<Rightarrow> (nat \<times> reftable) option" where
  "RefTable_Add mainpos ob t =
     do { newnode \<leftarrow> rt_freelist t;
          Some (newnode,
            t\<lparr>rt_nodes := (rt_nodes t)[newnode := (rt_nodes t ! newnode)
                 \<lparr>rn_obj := ob, rn_next := rt_buckets t ! mainpos\<rparr>],
              rt_buckets := (rt_buckets t)[mainpos := Some newnode],
              rt_freelist := rn_next (rt_nodes t ! newnode),
              rt_slotused := rt_slotused t + 1\<rparr>) }"

text \<open>The rehashing loop over the old nodes.\<close>

fun add_back :: "refnode list \<Rightarrow> reftable \<Rightarrow> reftable option" where
  "add_back [] t = Some t"
| "add_back (n # ns) t =
     (if rn_obj n \<noteq> ONull
      then do { (nn, t') \<leftarrow> RefTable_Add (bucket (rt_numofslots t) (HashObj (rn_obj n))) (rn_obj n) t;
                add_back ns (t'\<lparr>rt_nodes := (rt_nodes t')[nn := (rt_nodes t' ! nn)
                     \<lparr>rn_refs := rn_refs n\<rparr>]\<rparr>) }
      else add_back ns t)"

definition RefTable_Resize :: "nat \<Rightarrow> reftable \<Rightarrow> reftable option" where
  "RefTable_Resize newsize t = add_back (rt_nodes t) (RefTable_AllocNodes newsize)"

text \<open>The walk of \<open>Get\<close>: the node found, if any, and the node before it.\<close>

partial_function (option) ref_walk ::
    "refnode list \<Rightarrow> sqobj \<Rightarrow> nat option \<Rightarrow> nat option \<Rightarrow> (nat option \<times> nat option) option" where
  "ref_walk ns ob prev ref =
     (if ref = None then Some (None, prev)
      else if \<not> the ref < length ns then None
      else if rn_obj (ns ! the ref) = ob then Some (ref, prev)
      else ref_walk ns ob ref (rn_next (ns ! the ref)))"

declare ref_walk.simps [code]

definition RefTable_Get ::
    "sqobj \<Rightarrow> bool \<Rightarrow> reftable \<Rightarrow> (nat option \<times> nat \<times> nat option \<times> reftable) option" where
  "RefTable_Get ob add t =
     (let mainpos = bucket (rt_numofslots t) (HashObj ob) in
      do { (ref, prev) \<leftarrow> ref_walk (rt_nodes t) ob None (rt_buckets t ! mainpos);
           if ref = None \<and> add
           then do {
             t1 \<leftarrow> (if rt_numofslots t = rt_slotused t
                    then RefTable_Resize (rt_numofslots t * 2) t else Some t);
             let mainpos' = bucket (rt_numofslots t1) (HashObj ob) in
             do { (nn, t2) \<leftarrow> RefTable_Add mainpos' ob t1; Some (Some nn, mainpos', prev, t2) } }
           else Some (ref, mainpos, prev, t) })"

definition RefTable_AddRef :: "sqobj \<Rightarrow> reftable \<Rightarrow> reftable option" where
  "RefTable_AddRef ob t =
     do { (ref, mainpos, prev, t') \<leftarrow> RefTable_Get ob True t;
          n \<leftarrow> ref;
          Some (t'\<lparr>rt_nodes := (rt_nodes t')[n := (rt_nodes t' ! n)
                 \<lparr>rn_refs := rn_refs (rt_nodes t' ! n) + 1\<rparr>]\<rparr>) }"

definition RefTable_GetRefCount :: "sqobj \<Rightarrow> reftable \<Rightarrow> (64 word \<times> reftable) option" where
  "RefTable_GetRefCount ob t =
     do { (ref, mainpos, prev, t') \<leftarrow> RefTable_Get ob True t;
          n \<leftarrow> ref;
          Some (rn_refs (rt_nodes t' ! n), t') }"

definition RefTable_Release :: "sqobj \<Rightarrow> reftable \<Rightarrow> (bool \<times> reftable) option" where
  "RefTable_Release ob t =
     do { (ref, mainpos, prev, t0) \<leftarrow> RefTable_Get ob False t;
          case ref of
            None \<Rightarrow> Some (False, t0)
          | Some r \<Rightarrow>
              (let t1 = t0\<lparr>rt_nodes := (rt_nodes t0)[r := (rt_nodes t0 ! r)
                     \<lparr>rn_refs := rn_refs (rt_nodes t0 ! r) - 1\<rparr>]\<rparr> in
               if rn_refs (rt_nodes t1 ! r) = 0
               then (let t2 = (case prev of
                        Some p \<Rightarrow> t1\<lparr>rt_nodes := (rt_nodes t1)[p := (rt_nodes t1 ! p)
                                   \<lparr>rn_next := rn_next (rt_nodes t1 ! r)\<rparr>]\<rparr>
                      | None \<Rightarrow> t1\<lparr>rt_buckets := (rt_buckets t1)[mainpos := rn_next (rt_nodes t1 ! r)]\<rparr>)
                     in Some (True,
                          t2\<lparr>rt_nodes := (rt_nodes t2)[r := (rt_nodes t2 ! r)
                               \<lparr>rn_next := rt_freelist t2, rn_obj := ONull\<rparr>],
                             rt_freelist := Some r,
                             rt_slotused := rt_slotused t2 - 1\<rparr>))
               else Some (False, t1)) }"

definition RefTable_Finalize :: "reftable \<Rightarrow> reftable" where
  "RefTable_Finalize t = t\<lparr>rt_nodes := map (rn_obj_update (\<lambda>_. ONull)) (rt_nodes t)\<rparr>"

text \<open>\<open>Mark\<close>: the objects it marks, in order.\<close>

definition RefTable_Mark :: "reftable \<Rightarrow> sqobj list" where
  "RefTable_Mark t = filter (\<lambda>ob. ob \<noteq> ONull) (map rn_obj (rt_nodes t))"

section \<open>Invariant\<close>

definition rnx :: "refnode list \<Rightarrow> nat \<Rightarrow> nat option" where
  "rnx ns i = (if i < length ns then rn_next (ns ! i) else None)"

definition home_set :: "refnode list \<Rightarrow> nat \<Rightarrow> nat \<Rightarrow> nat set" where
  "home_set ns n i = {j. j < length ns \<and> rn_obj (ns ! j) \<noteq> ONull \<and>
      bucket n (HashObj (rn_obj (ns ! j))) = i}"

definition free_set :: "refnode list \<Rightarrow> nat set" where
  "free_set ns = {j. j < length ns \<and> rn_obj (ns ! j) = ONull}"

definition ref_inv :: "reftable \<Rightarrow> bool" where
  "ref_inv t \<longleftrightarrow>
     (\<exists>k\<ge>2. rt_numofslots t = 2 ^ k) \<and> length (rt_nodes t) = rt_numofslots t \<and>
     (\<forall>i<rt_numofslots t. \<exists>xs. list_at (rnx (rt_nodes t)) (rt_buckets t ! i) xs \<and>
        set xs = home_set (rt_nodes t) (rt_numofslots t) i) \<and>
     (\<exists>xs. list_at (rnx (rt_nodes t)) (rt_freelist t) xs \<and> set xs = free_set (rt_nodes t)) \<and>
     (\<forall>i j. i < length (rt_nodes t) \<longrightarrow> j < length (rt_nodes t) \<longrightarrow>
        rn_obj (rt_nodes t ! i) = rn_obj (rt_nodes t ! j) \<longrightarrow> rn_obj (rt_nodes t ! i) \<noteq> ONull \<longrightarrow> i = j) \<and>
     (\<forall>i\<in>free_set (rt_nodes t). rn_refs (rt_nodes t ! i) = 0) \<and>
     rt_slotused t + card (free_set (rt_nodes t)) = rt_numofslots t"

text \<open>The abstraction: the count of every object the table holds.\<close>

definition ref_map :: "reftable \<Rightarrow> sqobj \<Rightarrow> 64 word option" where
  "ref_map t = map_of (map (\<lambda>n. (rn_obj n, rn_refs n)) (filter (\<lambda>n. rn_obj n \<noteq> ONull) (rt_nodes t)))"

lemma ref_invD:
  assumes "ref_inv t"
  shows ref_size: "\<exists>k\<ge>2. rt_numofslots t = 2 ^ k"
    and ref_pos: "0 < rt_numofslots t"
    and ref_len: "length (rt_nodes t) = rt_numofslots t"
    and ref_buckets: "i < rt_numofslots t \<Longrightarrow> \<exists>xs. list_at (rnx (rt_nodes t)) (rt_buckets t ! i) xs \<and>
        set xs = home_set (rt_nodes t) (rt_numofslots t) i"
    and ref_free: "\<exists>xs. list_at (rnx (rt_nodes t)) (rt_freelist t) xs \<and> set xs = free_set (rt_nodes t)"
    and ref_inj: "i < length (rt_nodes t) \<Longrightarrow> j < length (rt_nodes t) \<Longrightarrow>
        rn_obj (rt_nodes t ! i) = rn_obj (rt_nodes t ! j) \<Longrightarrow> rn_obj (rt_nodes t ! i) \<noteq> ONull \<Longrightarrow> i = j"
    and ref_free_zero: "i \<in> free_set (rt_nodes t) \<Longrightarrow> rn_refs (rt_nodes t ! i) = 0"
    and ref_used: "rt_slotused t + card (free_set (rt_nodes t)) = rt_numofslots t"
proof -
  show k: "\<exists>k\<ge>2. rt_numofslots t = 2 ^ k" using assms unfolding ref_inv_def by blast
  then show "0 < rt_numofslots t" by auto
qed (use assms in \<open>unfold ref_inv_def, blast+\<close>)

text \<open>What the map is, for nodes whose objects are distinct.\<close>

definition distinct_objs :: "refnode list \<Rightarrow> bool" where
  "distinct_objs ns \<longleftrightarrow> (\<forall>i j. i < length ns \<longrightarrow> j < length ns \<longrightarrow>
     rn_obj (ns ! i) = rn_obj (ns ! j) \<longrightarrow> rn_obj (ns ! i) \<noteq> ONull \<longrightarrow> i = j)"

definition nmap :: "refnode list \<Rightarrow> sqobj \<Rightarrow> 64 word option" where
  "nmap ns = map_of (map (\<lambda>n. (rn_obj n, rn_refs n)) (filter (\<lambda>n. rn_obj n \<noteq> ONull) ns))"

lemma ref_map_nmap: "ref_map t = nmap (rt_nodes t)"
  by (simp add: ref_map_def nmap_def)

lemma distinct_objs_Cons:
  "distinct_objs (n # ns) \<longleftrightarrow>
     (rn_obj n \<noteq> ONull \<longrightarrow> (\<forall>m\<in>set ns. rn_obj m \<noteq> rn_obj n)) \<and> distinct_objs ns"
proof
  assume d: "distinct_objs (n # ns)"
  have "rn_obj m \<noteq> rn_obj n" if nn: "rn_obj n \<noteq> ONull" and m: "m \<in> set ns" for m
  proof
    assume e: "rn_obj m = rn_obj n"
    from m obtain j where j: "j < length ns" "ns ! j = m" by (auto simp: in_set_conv_nth)
    with d [unfolded distinct_objs_def, rule_format, of "Suc j" 0] e nn show False by simp
  qed
  moreover have "distinct_objs ns"
    unfolding distinct_objs_def
  proof (intro allI impI)
    fix i j assume "i < length ns" "j < length ns" "rn_obj (ns ! i) = rn_obj (ns ! j)"
      "rn_obj (ns ! i) \<noteq> ONull"
    with d [unfolded distinct_objs_def, rule_format, of "Suc i" "Suc j"] show "i = j" by simp
  qed
  ultimately show "(rn_obj n \<noteq> ONull \<longrightarrow> (\<forall>m\<in>set ns. rn_obj m \<noteq> rn_obj n)) \<and> distinct_objs ns"
    by blast
next
  assume a: "(rn_obj n \<noteq> ONull \<longrightarrow> (\<forall>m\<in>set ns. rn_obj m \<noteq> rn_obj n)) \<and> distinct_objs ns"
  then have hd: "rn_obj n \<noteq> ONull \<Longrightarrow> k < length ns \<Longrightarrow> rn_obj (ns ! k) \<noteq> rn_obj n" for k by auto
  have tl: "k < length ns \<Longrightarrow> l < length ns \<Longrightarrow> rn_obj (ns ! k) = rn_obj (ns ! l) \<Longrightarrow>
      rn_obj (ns ! k) \<noteq> ONull \<Longrightarrow> k = l" for k l
    using a unfolding distinct_objs_def by blast
  show "distinct_objs (n # ns)"
    unfolding distinct_objs_def
  proof (intro allI impI)
    fix i j assume ij: "i < length (n # ns)" "j < length (n # ns)"
      "rn_obj ((n # ns) ! i) = rn_obj ((n # ns) ! j)" "rn_obj ((n # ns) ! i) \<noteq> ONull"
    show "i = j"
    proof (cases i)
      case 0
      show ?thesis
      proof (cases j)
        case (Suc l)
        with 0 ij have "rn_obj n \<noteq> ONull" "l < length ns" "rn_obj (ns ! l) = rn_obj n" by auto
        with hd [of l] show ?thesis by blast
      qed (simp add: 0)
    next
      case (Suc k)
      show ?thesis
      proof (cases j)
        case 0
        with Suc ij have "rn_obj n \<noteq> ONull" "k < length ns" "rn_obj (ns ! k) = rn_obj n" by auto
        with hd [of k] show ?thesis by blast
      next
        case (Suc l)
        with \<open>i = Suc k\<close> ij tl [of k l] show ?thesis by simp
      qed
    qed
  qed
qed

lemma nmap_Some:
  "distinct_objs ns \<Longrightarrow> nmap ns ob = Some r \<longleftrightarrow>
     ob \<noteq> ONull \<and> (\<exists>n\<in>set ns. rn_obj n = ob \<and> rn_refs n = r)"
  by (induction ns) (auto simp: nmap_def distinct_objs_Cons)

lemma nmap_None: "nmap ns ob = None \<longleftrightarrow> ob = ONull \<or> (\<forall>n\<in>set ns. rn_obj n \<noteq> ob)"
  by (induction ns) (auto simp: nmap_def)

lemma nmap_nth:
  "distinct_objs ns \<Longrightarrow> i < length ns \<Longrightarrow> rn_obj (ns ! i) \<noteq> ONull \<Longrightarrow>
   nmap ns (rn_obj (ns ! i)) = Some (rn_refs (ns ! i))"
  by (auto simp: nmap_Some)

text \<open>Replacing one node.\<close>

lemma nmap_update:
  assumes d: "distinct_objs ns" and d': "distinct_objs (ns[i := n])" and i: "i < length ns"
    and ob: "rn_obj n \<noteq> ONull" and old: "rn_obj (ns ! i) = ONull \<or> rn_obj (ns ! i) = rn_obj n"
  shows "nmap (ns[i := n]) = (nmap ns)(rn_obj n \<mapsto> rn_refs n)"
proof
  fix x
  show "nmap (ns[i := n]) x = ((nmap ns)(rn_obj n \<mapsto> rn_refs n)) x"
  proof (cases "x = rn_obj n")
    case True
    then show ?thesis using nmap_nth [OF d', of i] i ob by simp
  next
    case False
    have "nmap (ns[i := n]) x = Some r \<longleftrightarrow> nmap ns x = Some r" for r
      unfolding nmap_Some [OF d] nmap_Some [OF d']
      using False old i by (auto simp: set_conv_nth nth_list_update split: if_splits)
    then show ?thesis using False by (cases "nmap ns x"; cases "nmap (ns[i := n]) x") auto
  qed
qed

section \<open>Adding a node\<close>

lemma rnx_update:
  "i < length ns \<Longrightarrow> rnx (ns[i := n]) = (rnx ns)(i := rn_next n)"
  by (auto simp: rnx_def fun_eq_iff nth_list_update)

lemma ref_inv_distinct: "ref_inv t \<Longrightarrow> distinct_objs (rt_nodes t)"
  unfolding distinct_objs_def using ref_inj by blast

lemma free_set_finite [simp]: "finite (free_set ns)"
  by (simp add: free_set_def)

text \<open>
  Taking the first free node for a new object with count \<open>r\<close>: \<open>Add\<close>, followed by
  the write of the count that rehashing makes.
\<close>

lemma Add_correct_ref:
  assumes inv: "ref_inv t" and ob: "ob \<noteq> ONull" and new: "ref_map t ob = None"
    and room: "rt_slotused t < rt_numofslots t"
  defines "m \<equiv> bucket (rt_numofslots t) (HashObj ob)"
  shows "\<exists>nn t'. RefTable_Add m ob t = Some (nn, t') \<and> nn < length (rt_nodes t') \<and>
     rn_obj (rt_nodes t' ! nn) = ob \<and> rn_refs (rt_nodes t' ! nn) = 0 \<and>
     ref_inv t' \<and> ref_map t' = (ref_map t)(ob \<mapsto> 0) \<and> rt_numofslots t' = rt_numofslots t \<and>
     rt_slotused t' = Suc (rt_slotused t)"
proof -
  let ?ns = "rt_nodes t" and ?n = "rt_numofslots t"
  obtain fs where fs: "list_at (rnx ?ns) (rt_freelist t) fs" "set fs = free_set ?ns"
    using ref_free [OF inv] by blast
  have "free_set ?ns \<noteq> {}" using ref_used [OF inv] room by (auto)
  then obtain nn fs' where fs': "fs = nn # fs'" using fs(2) by (cases fs) auto
  have nn: "nn < length ?ns" "rn_obj (?ns ! nn) = ONull" "rn_refs (?ns ! nn) = 0"
    using fs(2) ref_free_zero [OF inv, of nn] by (auto simp: fs' free_set_def)
  have fl: "rt_freelist t = Some nn" "list_at (rnx ?ns) (rn_next (?ns ! nn)) fs'"
    using fs(1) nn(1) by (auto simp: fs' rnx_def)
  have nfs: "nn \<notin> set fs'" using list_at_distinct [OF fs(1)] by (simp add: fs')
  define n1 where "n1 = (?ns ! nn)\<lparr>rn_obj := ob, rn_next := rt_buckets t ! m\<rparr>"
  define ns1 where "ns1 = ?ns[nn := n1]"
  define t1 where "t1 = t\<lparr>rt_nodes := ns1, rt_buckets := (rt_buckets t)[m := Some nn],
      rt_freelist := rn_next (?ns ! nn), rt_slotused := rt_slotused t + 1\<rparr>"
  have m: "m < ?n" using ref_pos [OF inv] by (simp add: m_def)
  have mb: "m < length (rt_buckets t)" using m by (simp add: rt_numofslots_def)
  have add: "RefTable_Add m ob t = Some (nn, t1)"
    by (simp add: RefTable_Add_def fl(1) t1_def ns1_def n1_def)
  have nums: "rt_numofslots t1 = ?n" by (simp add: t1_def rt_numofslots_def)
  have frame: "list_at (rnx ns1) p xs \<longleftrightarrow> list_at (rnx ?ns) p xs" if "nn \<notin> set xs" for p xs
    by (rule list_at_frame) (use that nn(1) in \<open>auto simp: ns1_def rnx_update\<close>)
  have nobj: "rn_obj (?ns ! j) \<noteq> ob" if "j < length ?ns" for j
    using new that ob by (auto simp: ref_map_nmap nmap_None)
  have d1: "distinct_objs ns1"
    unfolding distinct_objs_def
  proof (intro allI impI)
    fix i j assume "i < length ns1" "j < length ns1" "rn_obj (ns1 ! i) = rn_obj (ns1 ! j)"
      "rn_obj (ns1 ! i) \<noteq> ONull"
    then show "i = j" using nobj [of i] nobj [of j] ref_inj [OF inv, of i j] nn
      by (auto simp: ns1_def n1_def nth_list_update split: if_splits)
  qed
  have hs: "home_set ns1 ?n i = (if i = m then insert nn (home_set ?ns ?n i) else home_set ?ns ?n i)" for i
    using nn ob by (auto simp: home_set_def ns1_def n1_def m_def nth_list_update split: if_splits)
  have fr: "free_set ns1 = free_set ?ns - {nn}"
    using nn ob by (auto simp: free_set_def ns1_def n1_def nth_list_update split: if_splits)
  have nfree: "nn \<in> free_set ?ns" using nn by (simp add: free_set_def)
  have bk: "\<exists>xs. list_at (rnx ns1) (rt_buckets t1 ! i) xs \<and> set xs = home_set ns1 ?n i"
    if i: "i < ?n" for i
  proof -
    obtain xs where xs: "list_at (rnx ?ns) (rt_buckets t ! i) xs" "set xs = home_set ?ns ?n i"
      using ref_buckets [OF inv i] by blast
    have "nn \<notin> set xs" using nn by (auto simp: xs(2) home_set_def)
    then have xs1: "list_at (rnx ns1) (rt_buckets t ! i) xs" using xs(1) frame by blast
    show ?thesis
    proof (cases "i = m")
      case True
      have "rnx ns1 nn = rt_buckets t ! i" using nn(1) True by (simp add: ns1_def n1_def rnx_update)
      with xs xs1 True mb show ?thesis
        by (intro exI [of _ "nn # xs"]) (simp add: t1_def hs)
    next
      case False
      with xs xs1 show ?thesis by (intro exI [of _ xs]) (simp add: t1_def hs)
    qed
  qed
  have fl1: "list_at (rnx ns1) (rn_next (?ns ! nn)) fs' \<and> set fs' = free_set ns1"
    using fl(2) frame [OF nfs] fs(2) nfs by (auto simp: fr fs')
  have cnt: "Suc (rt_slotused t) + card (free_set ns1) = ?n"
    using ref_used [OF inv] card_Suc_Diff1 [OF free_set_finite nfree] by (simp add: fr)
  have "ref_inv t1"
    unfolding ref_inv_def nums
  proof (intro conjI)
    show "length (rt_nodes t1) = ?n" using ref_len [OF inv] by (simp add: t1_def ns1_def)
    show "\<forall>i<?n. \<exists>xs. list_at (rnx (rt_nodes t1)) (rt_buckets t1 ! i) xs \<and>
        set xs = home_set (rt_nodes t1) ?n i" using bk by (simp add: t1_def)
    show "\<exists>xs. list_at (rnx (rt_nodes t1)) (rt_freelist t1) xs \<and> set xs = free_set (rt_nodes t1)"
      using fl1 by (auto simp: t1_def)
    show "\<forall>i j. i < length (rt_nodes t1) \<longrightarrow> j < length (rt_nodes t1) \<longrightarrow>
        rn_obj (rt_nodes t1 ! i) = rn_obj (rt_nodes t1 ! j) \<longrightarrow> rn_obj (rt_nodes t1 ! i) \<noteq> ONull \<longrightarrow> i = j"
      using d1 by (simp add: t1_def distinct_objs_def)
    show "\<forall>i\<in>free_set (rt_nodes t1). rn_refs (rt_nodes t1 ! i) = 0"
      using ref_free_zero [OF inv] by (simp add: t1_def fr) (simp add: ns1_def)
    show "rt_slotused t1 + card (free_set (rt_nodes t1)) = ?n" using cnt by (simp add: t1_def)
  qed (rule ref_size [OF inv])
  moreover have "ref_map t1 = (ref_map t)(ob \<mapsto> 0)"
  proof -
    have "nmap ns1 = (nmap ?ns)(rn_obj n1 \<mapsto> rn_refs n1)"
      unfolding ns1_def using d1 nn ob
      by (intro nmap_update ref_inv_distinct [OF inv]) (auto simp: ns1_def n1_def)
    then show ?thesis using nn(3) by (simp add: ref_map_nmap t1_def n1_def)
  qed
  ultimately show ?thesis
    using add nums nn by (auto simp: t1_def ns1_def n1_def)
qed

text \<open>Writing a count does not disturb the structure.\<close>

lemma set_refs_correct:
  fixes r :: "64 word"
  assumes inv: "ref_inv t" and i: "i < length (rt_nodes t)" and ob: "rn_obj (rt_nodes t ! i) \<noteq> ONull"
  defines "t' \<equiv> t\<lparr>rt_nodes := (rt_nodes t)[i := (rt_nodes t ! i)\<lparr>rn_refs := r\<rparr>]\<rparr>"
  shows "ref_inv t' \<and> ref_map t' = (ref_map t)(rn_obj (rt_nodes t ! i) \<mapsto> r) \<and>
     rt_numofslots t' = rt_numofslots t \<and> rt_slotused t' = rt_slotused t"
proof -
  let ?ns = "rt_nodes t"
  define ns' where "ns' = ?ns[i := (?ns ! i)\<lparr>rn_refs := r\<rparr>]"
  have t': "t' = t\<lparr>rt_nodes := ns'\<rparr>" by (simp add: t'_def ns'_def)
  have o: "rn_obj (ns' ! j) = rn_obj (?ns ! j)" "rn_next (ns' ! j) = rn_next (?ns ! j)" for j
    using i by (cases "i = j"; simp add: ns'_def)+
  have l: "length ns' = length ?ns" by (simp add: ns'_def)
  have eqs: "rnx ns' = rnx ?ns" "home_set ns' = home_set ?ns" "free_set ns' = free_set ?ns"
    by (auto simp: rnx_def home_set_def free_set_def o l fun_eq_iff)
  have fz: "rn_refs (ns' ! j) = 0" if "j \<in> free_set ?ns" for j
    using that ob ref_free_zero [OF inv that] by (cases "i = j") (auto simp: ns'_def free_set_def)
  have nums: "rt_numofslots t' = rt_numofslots t" by (simp add: t' rt_numofslots_def)
  have "ref_inv t'"
    using inv fz unfolding ref_inv_def nums by (simp add: t' eqs l o)
  moreover have "nmap ns' = (nmap ?ns)(rn_obj (?ns ! i) \<mapsto> r)"
  proof -
    have "distinct_objs ns'" using ref_inv_distinct [OF inv] by (simp add: distinct_objs_def o l)
    then show ?thesis
      using nmap_update [OF ref_inv_distinct [OF inv], of i "(?ns ! i)\<lparr>rn_refs := r\<rparr>"] i ob
      by (simp add: ns'_def)
  qed
  ultimately show ?thesis by (simp add: ref_map_nmap t' rt_numofslots_def)
qed

section \<open>Rehashing\<close>

lemma AllocNodes_inv:
  assumes "2 \<le> k"
  shows "ref_inv (RefTable_AllocNodes (2 ^ k)) \<and> ref_map (RefTable_AllocNodes (2 ^ k)) = Map.empty \<and>
     rt_numofslots (RefTable_AllocNodes (2 ^ k)) = 2 ^ k \<and>
     rt_slotused (RefTable_AllocNodes (2 ^ k)) = 0"
proof -
  define n :: nat where "n = 2 ^ k"
  let ?t = "RefTable_AllocNodes n"
  have n: "0 < n" by (simp add: n_def)
  have obj: "i < n \<Longrightarrow> rn_obj (rt_nodes ?t ! i) = ONull" "i < n \<Longrightarrow> rn_refs (rt_nodes ?t ! i) = 0"
    "i < n \<Longrightarrow> rn_next (rt_nodes ?t ! i) = (if i < n - 1 then Some (Suc i) else None)" for i
    by (auto simp: RefTable_AllocNodes_def)
  have len: "length (rt_nodes ?t) = n" "rt_numofslots ?t = n"
    by (auto simp: RefTable_AllocNodes_def rt_numofslots_def)
  have free: "free_set (rt_nodes ?t) = {..<n}" using obj(1) len by (auto simp: free_set_def)
  have fl: "list_at (rnx (rt_nodes ?t)) (Some (n - Suc j)) (map (\<lambda>i. n - Suc i) (rev [0..<Suc j]))"
    if "j < n" for j
    using that
  proof (induction j)
    case 0
    then show ?case using n by (simp add: rnx_def len obj(3))
  next
    case (Suc j)
    have "rnx (rt_nodes ?t) (n - Suc (Suc j)) = Some (n - Suc j)"
      using Suc.prems by (auto simp: rnx_def len obj(3))
    with Suc show ?case by simp
  qed
  have set: "set (map (\<lambda>i. n - Suc i) (rev [0..<Suc (n - 1)])) = {..<n}"
  proof -
    have "i \<in> (\<lambda>i. n - Suc i) ` {0..<n}" if "i < n" for i
      by (rule image_eqI [of _ _ "n - Suc i"]) (use that in auto)
    then have "(\<lambda>i. n - Suc i) ` {0..<n} = {..<n}" using n by auto
    then show ?thesis using n by simp
  qed
  have "ref_inv ?t"
    unfolding ref_inv_def len free
  proof (intro conjI)
    show "\<exists>k\<ge>2. n = 2 ^ k" using assms by (auto simp: n_def)
    show "\<forall>i<n. \<exists>xs. list_at (rnx (rt_nodes ?t)) (rt_buckets ?t ! i) xs \<and>
        set xs = home_set (rt_nodes ?t) n i"
      using obj(1) by (auto simp: home_set_def len) (simp add: RefTable_AllocNodes_def)
    show "\<exists>xs. list_at (rnx (rt_nodes ?t)) (rt_freelist ?t) xs \<and> set xs = {..<n}"
      using fl [of "n - 1"] set n
      by (intro exI [of _ "map (\<lambda>i. n - Suc i) (rev [0..<Suc (n - 1)])"])
        (simp add: RefTable_AllocNodes_def)
    show "\<forall>i j. i < n \<longrightarrow> j < n \<longrightarrow> rn_obj (rt_nodes ?t ! i) = rn_obj (rt_nodes ?t ! j) \<longrightarrow>
        rn_obj (rt_nodes ?t ! i) \<noteq> ONull \<longrightarrow> i = j" using obj(1) by simp
    show "\<forall>i\<in>{..<n}. rn_refs (rt_nodes ?t ! i) = 0" using obj(2) by simp
    show "rt_slotused ?t + card {..<n} = n" by (simp add: RefTable_AllocNodes_def)
  qed simp
  moreover have "ref_map ?t = Map.empty"
    by (rule ext) (auto simp: ref_map_nmap nmap_None RefTable_AllocNodes_def)
  ultimately show ?thesis using len by (simp add: n_def RefTable_AllocNodes_def)
qed

lemma nmap_Cons:
  "nmap (n # ns) = (if rn_obj n = ONull then nmap ns else (nmap ns)(rn_obj n \<mapsto> rn_refs n))"
  by (auto simp: nmap_def)

definition nlive :: "refnode list \<Rightarrow> nat" where
  "nlive ns = length (filter (\<lambda>n. rn_obj n \<noteq> ONull) ns)"

lemma add_back_correct:
  assumes "ref_inv t" and "distinct_objs ns" and "\<And>ob. nmap ns ob \<noteq> None \<Longrightarrow> ref_map t ob = None"
    and "rt_slotused t + nlive ns \<le> rt_numofslots t"
  shows "\<exists>t'. add_back ns t = Some t' \<and> ref_inv t' \<and> ref_map t' = ref_map t ++ nmap ns \<and>
     rt_numofslots t' = rt_numofslots t \<and> rt_slotused t' = rt_slotused t + nlive ns"
  using assms
proof (induction ns arbitrary: t)
  case Nil
  then show ?case by (simp add: nmap_def nlive_def)
next
  case (Cons n ns)
  from Cons.prems(2) have d: "distinct_objs ns"
    and hd: "rn_obj n \<noteq> ONull \<Longrightarrow> nmap ns (rn_obj n) = None"
    by (auto simp: distinct_objs_Cons nmap_None)
  show ?case
  proof (cases "rn_obj n = ONull")
    case True
    have "nmap ns ob \<noteq> None \<Longrightarrow> ref_map t ob = None" for ob
      using Cons.prems(3) [of ob] True by (simp add: nmap_Cons)
    with Cons.IH [OF Cons.prems(1) d] Cons.prems(4) True show ?thesis
      by (simp add: nmap_Cons nlive_def)
  next
    case False
    have new: "ref_map t (rn_obj n) = None"
      using Cons.prems(3) [of "rn_obj n"] False by (simp add: nmap_Cons)
    have room: "rt_slotused t < rt_numofslots t"
      using Cons.prems(4) False by (simp add: nlive_def)
    obtain nn t1 where t1: "RefTable_Add (bucket (rt_numofslots t) (HashObj (rn_obj n))) (rn_obj n) t =
        Some (nn, t1)" "nn < length (rt_nodes t1)" "rn_obj (rt_nodes t1 ! nn) = rn_obj n" "ref_inv t1"
        "ref_map t1 = (ref_map t)(rn_obj n \<mapsto> 0)" "rt_numofslots t1 = rt_numofslots t"
        "rt_slotused t1 = Suc (rt_slotused t)"
      using Add_correct_ref [OF Cons.prems(1) False new room] by blast
    define t2 where "t2 = t1\<lparr>rt_nodes := (rt_nodes t1)[nn := (rt_nodes t1 ! nn)\<lparr>rn_refs := rn_refs n\<rparr>]\<rparr>"
    have t2: "ref_inv t2" "ref_map t2 = (ref_map t)(rn_obj n \<mapsto> rn_refs n)"
      "rt_numofslots t2 = rt_numofslots t" "rt_slotused t2 = Suc (rt_slotused t)"
      using set_refs_correct [OF t1(4,2), of "rn_refs n"] t1(3,5,6,7) False
      by (auto simp: t2_def)
    have "nmap ns ob \<noteq> None \<Longrightarrow> ref_map t2 ob = None" for ob
      using Cons.prems(3) [of ob] False hd by (auto simp: nmap_Cons t2(2))
    moreover have "rt_slotused t2 + nlive ns \<le> rt_numofslots t2"
      using Cons.prems(4) False t2(3,4) by (simp add: nlive_def)
    ultimately obtain t' where t': "add_back ns t2 = Some t'" "ref_inv t'"
      "ref_map t' = ref_map t2 ++ nmap ns" "rt_numofslots t' = rt_numofslots t2"
      "rt_slotused t' = rt_slotused t2 + nlive ns"
      using Cons.IH [OF t2(1) d] by blast
    have "ref_map t' = ref_map t ++ nmap (n # ns)"
      using hd False by (auto simp: t'(3) t2(2) nmap_Cons map_add_def fun_eq_iff split: option.splits)
    with t' t2 t1(1) False show ?thesis by (simp add: t2_def nlive_def)
  qed
qed

lemma slotused_nlive:
  assumes "ref_inv t" shows "rt_slotused t = nlive (rt_nodes t)"
proof -
  let ?ns = "rt_nodes t"
  have "nlive ?ns + card (free_set ?ns) = length ?ns"
  proof -
    have "card (free_set ?ns) = length (filter (\<lambda>n. rn_obj n = ONull) ?ns)"
      by (simp add: free_set_def length_filter_conv_card)
    then show ?thesis using sum_length_filter_compl [of "\<lambda>n. rn_obj n = ONull" ?ns]
      by (simp add: nlive_def)
  qed
  with ref_used [OF assms] ref_len [OF assms] show ?thesis by simp
qed

lemma RefTable_Resize_correct:
  assumes inv: "ref_inv t"
  shows "\<exists>t'. RefTable_Resize (rt_numofslots t * 2) t = Some t' \<and> ref_inv t' \<and>
     ref_map t' = ref_map t \<and> rt_numofslots t' = rt_numofslots t * 2 \<and>
     rt_slotused t' = rt_slotused t"
proof -
  obtain k where k: "k \<ge> 2" "rt_numofslots t = 2 ^ k" using ref_size [OF inv] by blast
  have e: "rt_numofslots t * 2 = 2 ^ Suc k" by (simp add: k(2))
  have "2 \<le> Suc k" using k(1) by simp
  note new = AllocNodes_inv [OF this]
  have "nlive (rt_nodes t) \<le> 2 ^ Suc k"
    using slotused_nlive [OF inv] ref_used [OF inv] k(2) by simp
  then show ?thesis
    using add_back_correct [of "RefTable_AllocNodes (2 ^ Suc k)" "rt_nodes t"] new
      ref_inv_distinct [OF inv] slotused_nlive [OF inv]
    by (auto simp: RefTable_Resize_def e ref_map_nmap)
qed

section \<open>Lookup, reference and release\<close>

lemma ref_walk_found:
  assumes "list_at (rnx ns) p (us @ i # vs)" and "\<forall>j\<in>set (us @ i # vs). j < length ns"
    and "\<forall>j\<in>set us. rn_obj (ns ! j) \<noteq> ob" and "rn_obj (ns ! i) = ob"
  shows "ref_walk ns ob prev p = Some (Some i, if us = [] then prev else Some (last us))"
  using assms
proof (induction us arbitrary: p prev)
  case Nil
  then show ?case by (simp add: ref_walk.simps)
next
  case (Cons j us)
  then show ?case by (subst ref_walk.simps) (auto simp: rnx_def)
qed

lemma ref_walk_missing:
  assumes "list_at (rnx ns) p xs" and "\<forall>j\<in>set xs. j < length ns \<and> rn_obj (ns ! j) \<noteq> ob"
  shows "\<exists>prev'. ref_walk ns ob prev p = Some (None, prev')"
  using assms
proof (induction xs arbitrary: p prev)
  case Nil
  then show ?case by (simp add: ref_walk.simps)
next
  case (Cons j xs)
  then have "list_at (rnx ns) (rn_next (ns ! j)) xs" using rnx_def [of ns j] by auto
  from Cons.IH [OF this, of "Some j"] Cons.prems show ?case
    by (subst ref_walk.simps) auto
qed

text \<open>Where the walk of an object ends.\<close>

lemma walk_cases:
  assumes inv: "ref_inv t" and ob: "ob \<noteq> ONull"
  defines "m \<equiv> bucket (rt_numofslots t) (HashObj ob)"
  obtains (missing) prev where "ref_map t ob = None"
      "ref_walk (rt_nodes t) ob None (rt_buckets t ! m) = Some (None, prev)"
  | (found) us i vs where "i < length (rt_nodes t)" "rn_obj (rt_nodes t ! i) = ob"
      "ref_map t ob = Some (rn_refs (rt_nodes t ! i))"
      "list_at (rnx (rt_nodes t)) (rt_buckets t ! m) (us @ i # vs)"
      "set (us @ i # vs) = home_set (rt_nodes t) (rt_numofslots t) m"
      "ref_walk (rt_nodes t) ob None (rt_buckets t ! m) =
         Some (Some i, if us = [] then None else Some (last us))"
proof -
  let ?ns = "rt_nodes t"
  have m: "m < rt_numofslots t" using ref_pos [OF inv] by (simp add: m_def)
  obtain xs where xs: "list_at (rnx ?ns) (rt_buckets t ! m) xs"
    "set xs = home_set ?ns (rt_numofslots t) m" using ref_buckets [OF inv m] by blast
  have lt: "\<forall>j\<in>set xs. j < length ?ns" by (auto simp: xs(2) home_set_def)
  show thesis
  proof (cases "\<exists>i<length ?ns. rn_obj (?ns ! i) = ob")
    case False
    then have "ref_map t ob = None" by (auto simp: ref_map_nmap nmap_None in_set_conv_nth)
    moreover obtain prev where "ref_walk ?ns ob None (rt_buckets t ! m) = Some (None, prev)"
      using ref_walk_missing [OF xs(1), of ob None] lt False by blast
    ultimately show thesis by (rule missing)
  next
    case True
    then obtain i where i: "i < length ?ns" "rn_obj (?ns ! i) = ob" by blast
    then have "i \<in> set xs" using ob by (simp add: xs(2) home_set_def m_def)
    then obtain us vs where uv: "xs = us @ i # vs" by (auto simp: in_set_conv_decomp)
    have "rn_obj (?ns ! j) \<noteq> ob" if "j \<in> set us" for j
    proof
      assume "rn_obj (?ns ! j) = ob"
      then have "j = i" using ref_inj [OF inv, of j i] i ob lt that uv by auto
      with that uv list_at_distinct [OF xs(1)] show False by simp
    qed
    then have "ref_walk ?ns ob None (rt_buckets t ! m) =
        Some (Some i, if us = [] then None else Some (last us))"
      using xs(1) lt i(2) unfolding uv by (intro ref_walk_found) auto
    moreover have "ref_map t ob = Some (rn_refs (?ns ! i))"
      using nmap_nth [OF ref_inv_distinct [OF inv] i(1)] i(2) ob by (simp add: ref_map_nmap)
    ultimately show thesis using found i xs unfolding uv by blast
  qed
qed

lemma Get_add_correct:
  assumes inv: "ref_inv t" and ob: "ob \<noteq> ONull"
  shows "\<exists>nn mp prev t'. RefTable_Get ob True t = Some (Some nn, mp, prev, t') \<and>
     nn < length (rt_nodes t') \<and> rn_obj (rt_nodes t' ! nn) = ob \<and> ref_inv t' \<and>
     ref_map t' = (if ref_map t ob = None then (ref_map t)(ob \<mapsto> 0) else ref_map t) \<and>
     ref_map t' ob = Some (rn_refs (rt_nodes t' ! nn))"
proof (cases rule: walk_cases [OF inv ob, case_names missing found])
  case (found us i vs)
  then show ?thesis using inv by (simp add: RefTable_Get_def Let_def)
next
  case (missing prev)
  obtain t1 where t1: "(if rt_numofslots t = rt_slotused t then RefTable_Resize (rt_numofslots t * 2) t
      else Some t) = Some t1" "ref_inv t1" "ref_map t1 = ref_map t" "rt_slotused t1 < rt_numofslots t1"
  proof (cases "rt_numofslots t = rt_slotused t")
    case True
    obtain t1 where t1: "RefTable_Resize (rt_numofslots t * 2) t = Some t1" "ref_inv t1"
      "ref_map t1 = ref_map t" "rt_numofslots t1 = rt_numofslots t * 2"
      "rt_slotused t1 = rt_slotused t" using RefTable_Resize_correct [OF inv] by blast
    show thesis by (rule that [of t1]) (use t1 True ref_pos [OF inv] in auto)
  next
    case False
    show thesis by (rule that [of t]) (use inv False ref_used [OF inv] in auto)
  qed
  have "ref_map t1 ob = None" using t1(3) missing(1) by simp
  from Add_correct_ref [OF t1(2) ob this t1(4)] obtain nn t2 where
    t2: "RefTable_Add (bucket (rt_numofslots t1) (HashObj ob)) ob t1 = Some (nn, t2)"
    "nn < length (rt_nodes t2)" "rn_obj (rt_nodes t2 ! nn) = ob" "rn_refs (rt_nodes t2 ! nn) = 0"
    "ref_inv t2" "ref_map t2 = (ref_map t1)(ob \<mapsto> 0)" by blast
  have "RefTable_Get ob True t = Some (Some nn, bucket (rt_numofslots t1) (HashObj ob), prev, t2)"
    using missing(2) t1(1) t2(1) by (simp add: RefTable_Get_def Let_def)
  with t2 t1(3) missing(1) show ?thesis by simp
qed

lemma AddRef_correct:
  assumes inv: "ref_inv t" and ob: "ob \<noteq> ONull"
  shows "\<exists>t'. RefTable_AddRef ob t = Some t' \<and> ref_inv t' \<and>
     ref_map t' = (ref_map t)(ob \<mapsto> (case ref_map t ob of None \<Rightarrow> 0 | Some r \<Rightarrow> r) + 1)"
proof -
  from Get_add_correct [OF inv ob] obtain nn mp prev t1 where
    t1: "RefTable_Get ob True t = Some (Some nn, mp, prev, t1)" "nn < length (rt_nodes t1)"
    "rn_obj (rt_nodes t1 ! nn) = ob" "ref_inv t1"
    "ref_map t1 = (if ref_map t ob = None then (ref_map t)(ob \<mapsto> 0) else ref_map t)"
    "ref_map t1 ob = Some (rn_refs (rt_nodes t1 ! nn))" by blast
  have "rn_refs (rt_nodes t1 ! nn) = (case ref_map t ob of None \<Rightarrow> 0 | Some r \<Rightarrow> r)"
    using t1(5,6) by (auto split: if_splits)
  with t1 ob show ?thesis
    using set_refs_correct [OF t1(4,2), of "rn_refs (rt_nodes t1 ! nn) + 1"]
    by (auto simp: RefTable_AddRef_def)
qed

lemma GetRefCount_correct:
  assumes inv: "ref_inv t" and ob: "ob \<noteq> ONull"
  shows "\<exists>t'. RefTable_GetRefCount ob t =
       Some (case ref_map t ob of None \<Rightarrow> 0 | Some r \<Rightarrow> r, t') \<and> ref_inv t' \<and>
     ref_map t' = (if ref_map t ob = None then (ref_map t)(ob \<mapsto> 0) else ref_map t)"
proof -
  from Get_add_correct [OF inv ob] obtain nn mp prev t1 where
    t1: "RefTable_Get ob True t = Some (Some nn, mp, prev, t1)" "ref_inv t1"
    "ref_map t1 = (if ref_map t ob = None then (ref_map t)(ob \<mapsto> 0) else ref_map t)"
    "ref_map t1 ob = Some (rn_refs (rt_nodes t1 ! nn))" by blast
  have "rn_refs (rt_nodes t1 ! nn) = (case ref_map t ob of None \<Rightarrow> 0 | Some r \<Rightarrow> r)"
    using t1(3,4) by (auto split: if_splits)
  with t1 show ?thesis by (simp add: RefTable_GetRefCount_def)
qed

text \<open>
  Taking a node out of its bucket and putting it on the free list, stated on what
  the new nodes are, whether the node was the first of its bucket or not.
\<close>

lemma unlink_correct:
  assumes inv: "ref_inv t" and i: "i < length (rt_nodes t)" "rn_obj (rt_nodes t ! i) = ob" "ob \<noteq> ONull"
    and m: "m = bucket (rt_numofslots t) (HashObj ob)"
    and xs: "list_at (rnx (rt_nodes t)) (rt_buckets t ! m) (us @ i # vs)"
      "set (us @ i # vs) = home_set (rt_nodes t) (rt_numofslots t) m"
    and len: "length ns' = length (rt_nodes t)" "length bs' = rt_numofslots t"
    and objs: "\<And>j. j < length ns' \<Longrightarrow> rn_obj (ns' ! j) = (if j = i then ONull else rn_obj (rt_nodes t ! j))"
    and refs: "\<And>j. j < length ns' \<Longrightarrow> rn_refs (ns' ! j) = (if j = i then 0 else rn_refs (rt_nodes t ! j))"
    and nx_i: "rnx ns' i = rt_freelist t"
    and nx: "\<And>j. j \<noteq> i \<Longrightarrow> us = [] \<or> j \<noteq> last us \<Longrightarrow> rnx ns' j = rnx (rt_nodes t) j"
    and nx_p: "us \<noteq> [] \<Longrightarrow> rnx ns' (last us) = rnx (rt_nodes t) i"
    and bs: "\<And>j. j \<noteq> m \<Longrightarrow> bs' ! j = rt_buckets t ! j"
      "bs' ! m = (if us = [] then rnx (rt_nodes t) i else rt_buckets t ! m)"
  defines "t' \<equiv> t\<lparr>rt_nodes := ns', rt_buckets := bs', rt_freelist := Some i,
      rt_slotused := rt_slotused t - 1\<rparr>"
  shows "ref_inv t' \<and> ref_map t' = (ref_map t)(ob := None)"
proof -
  let ?ns = "rt_nodes t" and ?n = "rt_numofslots t"
  have d: "distinct (us @ i # vs)" by (rule list_at_distinct [OF xs(1)])
  have home: "home_set ns' ?n j = home_set ?ns ?n j - {i}" for j
    using objs len(1) by (auto simp: home_set_def split: if_splits)
  have free: "free_set ns' = insert i (free_set ?ns)"
    using objs len(1) i by (auto simp: free_set_def split: if_splits)
  have ni: "i \<notin> free_set ?ns" using i by (simp add: free_set_def)
  have frame: "list_at (rnx ns') p ys"
    if "list_at (rnx ?ns) p ys" "i \<notin> set ys" "us = [] \<or> last us \<notin> set ys" for p ys
  proof -
    have "list_at (rnx ns') p ys = list_at (rnx ?ns) p ys"
      by (rule list_at_frame) (use nx that in metis)
    with that(1) show ?thesis by simp
  qed
  have luse: "last us \<in> home_set ?ns ?n m" if "us \<noteq> []" using xs(2) last_in_set [OF that] by auto
  have bk: "\<exists>ys. list_at (rnx ns') (bs' ! j) ys \<and> set ys = home_set ns' ?n j" if j: "j < ?n" for j
  proof (cases "j = m")
    case True
    have "list_at (rnx ns') (bs' ! m) (us @ vs)"
    proof (cases us rule: rev_cases)
      case Nil
      with xs(1) have "list_at (rnx ?ns) (rnx ?ns i) vs" by simp
      with d Nil frame show ?thesis by (simp add: bs(2))
    next
      case (snoc us' u)
      have "list_at (rnx ns') (rt_buckets t ! m) (us' @ u # vs)"
      proof (rule list_at_unlink)
        show "list_at (rnx ?ns) (rt_buckets t ! m) (us' @ u # i # vs)" using xs(1) snoc by simp
        show "rnx ns' u = rnx ?ns i" using nx_p snoc by simp
        show "rnx ns' x = rnx ?ns x" if "x \<in> set (us' @ vs)" for x
        proof (rule nx)
          show "x \<noteq> i" "us = [] \<or> x \<noteq> last us" using that d snoc by auto
        qed
      qed
      then show ?thesis using snoc by (simp add: bs(2))
    qed
    moreover have "set (us @ vs) = home_set ns' ?n m"
      unfolding home xs(2) [symmetric] using d by auto
    ultimately show ?thesis using True by blast
  next
    case False
    obtain ys where ys: "list_at (rnx ?ns) (rt_buckets t ! j) ys" "set ys = home_set ?ns ?n j"
      using ref_buckets [OF inv j] by blast
    have "i \<notin> set ys" using False i m by (auto simp: ys(2) home_set_def)
    moreover have "us = [] \<or> last us \<notin> set ys"
      using luse False by (auto simp: ys(2) home_set_def)
    ultimately show ?thesis using frame [OF ys(1)] ys(2) bs(1) [OF False] by (auto simp: home)
  qed
  obtain fs where fs: "list_at (rnx ?ns) (rt_freelist t) fs" "set fs = free_set ?ns"
    using ref_free [OF inv] by blast
  have "us = [] \<or> last us \<notin> set fs" using luse by (auto simp: fs(2) home_set_def free_set_def)
  then have fl: "list_at (rnx ns') (Some i) (i # fs) \<and> set (i # fs) = free_set ns'"
    using frame [OF fs(1)] ni fs(2) nx_i free by simp
  have cnt: "rt_slotused t - 1 + card (free_set ns') = ?n"
  proof -
    have "free_set ?ns \<subset> {..<length ?ns}" using i ni by (auto simp: free_set_def)
    from psubset_card_mono [OF finite_lessThan this]
    have "card (free_set ?ns) < length ?ns" by simp
    then show ?thesis using ref_used [OF inv] ref_len [OF inv] ni by (simp add: free)
  qed
  have nums: "rt_numofslots t' = ?n" using len(2) by (simp add: t'_def rt_numofslots_def)
  have dist: "distinct_objs ns'"
    unfolding distinct_objs_def
  proof (intro allI impI)
    fix j k assume "j < length ns'" "k < length ns'" "rn_obj (ns' ! j) = rn_obj (ns' ! k)"
      "rn_obj (ns' ! j) \<noteq> ONull"
    then show "j = k" using ref_inj [OF inv, of j k] objs len(1) by (auto split: if_splits)
  qed
  have "ref_inv t'"
    unfolding ref_inv_def nums
  proof (intro conjI)
    show "length (rt_nodes t') = ?n" using len ref_len [OF inv] by (simp add: t'_def)
    show "\<forall>j<?n. \<exists>ys. list_at (rnx (rt_nodes t')) (rt_buckets t' ! j) ys \<and>
        set ys = home_set (rt_nodes t') ?n j" using bk by (simp add: t'_def)
    show "\<exists>ys. list_at (rnx (rt_nodes t')) (rt_freelist t') ys \<and> set ys = free_set (rt_nodes t')"
      using fl by (intro exI [of _ "i # fs"]) (simp add: t'_def)
    show "\<forall>j k. j < length (rt_nodes t') \<longrightarrow> k < length (rt_nodes t') \<longrightarrow>
        rn_obj (rt_nodes t' ! j) = rn_obj (rt_nodes t' ! k) \<longrightarrow> rn_obj (rt_nodes t' ! j) \<noteq> ONull \<longrightarrow> j = k"
      using dist unfolding t'_def distinct_objs_def by simp
    show "\<forall>j\<in>free_set (rt_nodes t'). rn_refs (rt_nodes t' ! j) = 0"
    proof
      fix j assume "j \<in> free_set (rt_nodes t')"
      then have j: "j = i \<or> j \<in> free_set ?ns" by (simp add: t'_def free)
      then have "j < length ns'" using i(1) len(1) by (auto simp: free_set_def)
      from refs [OF this] j ref_free_zero [OF inv, of j] show "rn_refs (rt_nodes t' ! j) = 0"
        by (auto simp: t'_def)
    qed
    show "rt_slotused t' + card (free_set (rt_nodes t')) = ?n" using cnt by (simp add: t'_def)
  qed (rule ref_size [OF inv])
  moreover have "ref_map t' = (ref_map t)(ob := None)"
  proof
    fix x
    have "nmap ns' x = Some r \<longleftrightarrow> x \<noteq> ob \<and> nmap ?ns x = Some r" for r
    proof -
      have "(\<exists>n\<in>set ns'. rn_obj n = x \<and> rn_refs n = r) \<longleftrightarrow>
          x \<noteq> ob \<and> (\<exists>n\<in>set ?ns. rn_obj n = x \<and> rn_refs n = r)" if "x \<noteq> ONull"
      proof
        assume "\<exists>n\<in>set ns'. rn_obj n = x \<and> rn_refs n = r"
        then obtain j where j: "j < length ns'" "rn_obj (ns' ! j) = x" "rn_refs (ns' ! j) = r"
          by (auto simp: in_set_conv_nth)
        have ji: "j \<noteq> i" using objs [OF j(1)] j(2) that by auto
        have "x \<noteq> ob" using ref_inj [OF inv, of j i] ji i j objs [OF j(1)] len(1) by auto
        moreover have "?ns ! j \<in> set ?ns" "rn_obj (?ns ! j) = x" "rn_refs (?ns ! j) = r"
          using j ji objs [OF j(1)] refs [OF j(1)] len(1) by auto
        ultimately show "x \<noteq> ob \<and> (\<exists>n\<in>set ?ns. rn_obj n = x \<and> rn_refs n = r)" by blast
      next
        assume "x \<noteq> ob \<and> (\<exists>n\<in>set ?ns. rn_obj n = x \<and> rn_refs n = r)"
        then obtain j where j: "j < length ?ns" "rn_obj (?ns ! j) = x" "rn_refs (?ns ! j) = r" "x \<noteq> ob"
          by (auto simp: in_set_conv_nth)
        then have "j \<noteq> i" using i(2) by auto
        then have "rn_obj (ns' ! j) = x" "rn_refs (ns' ! j) = r" "ns' ! j \<in> set ns'"
          using j objs [of j] refs [of j] len(1) by auto
        then show "\<exists>n\<in>set ns'. rn_obj n = x \<and> rn_refs n = r" by blast
      qed
      then show ?thesis
        unfolding nmap_Some [OF dist] nmap_Some [OF ref_inv_distinct [OF inv]] by blast
    qed
    then have "nmap ns' x = (if x = ob then None else nmap ?ns x)"
      by (intro option_eqI) auto
    then show "ref_map t' x = ((ref_map t)(ob := None)) x" by (simp add: ref_map_nmap t'_def)
  qed
  ultimately show ?thesis by blast
qed

lemma Release_correct:
  assumes inv: "ref_inv t" and ob: "ob \<noteq> ONull"
  shows "\<exists>t'. RefTable_Release ob t = Some (ref_map t ob = Some 1, t') \<and> ref_inv t' \<and>
     ref_map t' = (case ref_map t ob of None \<Rightarrow> ref_map t
        | Some r \<Rightarrow> if r = 1 then (ref_map t)(ob := None) else (ref_map t)(ob \<mapsto> r - 1))"
proof (cases rule: walk_cases [OF inv ob, case_names missing found])
  case (missing prev)
  then show ?thesis using inv by (simp add: RefTable_Release_def RefTable_Get_def Let_def)
next
  case (found us i vs)
  let ?ns = "rt_nodes t" and ?m = "bucket (rt_numofslots t) (HashObj ob)"
  let ?r = "rn_refs (?ns ! i)"
  have bl: "?m < length (rt_buckets t)"
    using ref_pos [OF inv] by (simp add: rt_numofslots_def)
  have get: "RefTable_Get ob False t = Some (Some i, ?m, if us = [] then None else Some (last us), t)"
    using found by (simp add: RefTable_Get_def Let_def)
  show ?thesis
  proof (cases "?r = 1")
    case False
    let ?t' = "t\<lparr>rt_nodes := ?ns[i := (?ns ! i)\<lparr>rn_refs := ?r - 1\<rparr>]\<rparr>"
    have "RefTable_Release ob t = Some (False, ?t')"
      using get found(1) False by (simp add: RefTable_Release_def Let_def)
    moreover have "ref_inv ?t' \<and> ref_map ?t' = (ref_map t)(ob \<mapsto> ?r - 1)"
      using set_refs_correct [OF inv found(1), of "?r - 1"] found(2) ob by simp
    ultimately show ?thesis using found(3) False by simp
  next
    case True
    define ns1 where "ns1 = ?ns[i := (?ns ! i)\<lparr>rn_refs := 0\<rparr>]"
    define ns2 where "ns2 = (if us = [] then ns1
      else ns1[last us := (ns1 ! last us)\<lparr>rn_next := rn_next (?ns ! i)\<rparr>])"
    define ns3 where "ns3 = ns2[i := (ns2 ! i)\<lparr>rn_next := rt_freelist t, rn_obj := ONull\<rparr>]"
    define bs' where "bs' = (if us = [] then (rt_buckets t)[?m := rn_next (?ns ! i)] else rt_buckets t)"
    let ?t' = "t\<lparr>rt_nodes := ns3, rt_buckets := bs', rt_freelist := Some i,
        rt_slotused := rt_slotused t - 1\<rparr>"
    have l: "length ns1 = length ?ns" "length ns2 = length ?ns" "length ns3 = length ?ns"
      by (simp_all add: ns1_def ns2_def ns3_def)
    have lu: "last us < length ?ns" "last us \<noteq> i" if "us \<noteq> []"
    proof -
      have "last us \<in> set (us @ i # vs)" using last_in_set [OF that] by simp
      then show "last us < length ?ns" unfolding found(5) by (simp add: home_set_def)
      show "last us \<noteq> i" using list_at_distinct [OF found(4)] last_in_set [OF that] by auto
    qed
    have rel: "RefTable_Release ob t = Some (True, ?t')"
      using get found(1) True l lu
      by (cases "us = []") (simp_all add: RefTable_Release_def Let_def ns1_def ns2_def ns3_def bs'_def)
    have "ref_inv ?t' \<and> ref_map ?t' = (ref_map t)(ob := None)"
    proof (rule unlink_correct [OF inv found(1,2) ob refl found(4,5)])
      show "rn_obj (ns3 ! j) = (if j = i then ONull else rn_obj (?ns ! j))" if "j < length ns3" for j
        using that found(1) l lu
        by (auto simp: ns3_def ns2_def ns1_def nth_list_update split: if_splits)
      show "rn_refs (ns3 ! j) = (if j = i then 0 else rn_refs (?ns ! j))" if "j < length ns3" for j
        using that found(1) l lu
        by (auto simp: ns3_def ns2_def ns1_def nth_list_update split: if_splits)
      show "rnx ns3 i = rt_freelist t" using found(1) l by (simp add: rnx_def ns3_def)
      show "rnx ns3 j = rnx ?ns j" if "j \<noteq> i" "us = [] \<or> j \<noteq> last us" for j
        using that l by (auto simp: rnx_def ns3_def ns2_def ns1_def nth_list_update)
      show "rnx ns3 (last us) = rnx ?ns i" if "us \<noteq> []"
        using that l lu [OF that] found(1) by (simp add: rnx_def ns3_def ns2_def ns1_def)
      show "bs' ! ?m = (if us = [] then rnx ?ns i else rt_buckets t ! ?m)"
        using bl found(1) by (simp add: bs'_def rnx_def)
    qed (auto simp: l bs'_def rt_numofslots_def)
    with rel found(3) True show ?thesis by simp
  qed
qed

section \<open>Properties\<close>

text \<open>Histories of references and releases, and what they mean on counts.\<close>

datatype ref_op = RAdd sqobj | RRelease sqobj

fun ref_op_obj :: "ref_op \<Rightarrow> sqobj" where
  "ref_op_obj (RAdd ob) = ob"
| "ref_op_obj (RRelease ob) = ob"

fun run_refs :: "reftable \<Rightarrow> ref_op list \<Rightarrow> (bool list \<times> reftable) option" where
  "run_refs t [] = Some ([], t)"
| "run_refs t (RAdd ob # ops) = do { t' \<leftarrow> RefTable_AddRef ob t; run_refs t' ops }"
| "run_refs t (RRelease ob # ops) =
     do { (b, t') \<leftarrow> RefTable_Release ob t; (bs, t'') \<leftarrow> run_refs t' ops; Some (b # bs, t'') }"

fun spec_refs :: "(sqobj \<Rightarrow> nat) \<Rightarrow> ref_op list \<Rightarrow> bool list \<times> (sqobj \<Rightarrow> nat)" where
  "spec_refs c [] = ([], c)"
| "spec_refs c (RAdd ob # ops) = spec_refs (c(ob := c ob + 1)) ops"
| "spec_refs c (RRelease ob # ops) =
     (let (bs, c') = spec_refs (c(ob := c ob - 1)) ops in ((c ob = 1) # bs, c'))"

text \<open>A table that counts what \<open>c\<close> says: entries for exactly the objects with a positive count.\<close>

definition counts :: "reftable \<Rightarrow> (sqobj \<Rightarrow> nat) \<Rightarrow> bool" where
  "counts t c \<longleftrightarrow> (\<forall>ob. ref_map t ob = (if c ob = 0 then None else Some (of_nat (c ob))))"

lemma word_count_one: "0 < c \<Longrightarrow> c < 2 ^ 64 \<Longrightarrow> (of_nat c :: 64 word) = 1 \<longleftrightarrow> c = 1"
proof
  assume c: "0 < c" "c < 2 ^ 64" and "(of_nat c :: 64 word) = 1"
  then have "unat (of_nat c :: 64 word) = 1" by simp
  with c(2) show "c = 1" by (simp add: unat_of_nat)
qed simp

lemma run_refs_counts:
  assumes "ref_inv t" and "counts t c" and "\<forall>op\<in>set ops. ref_op_obj op \<noteq> ONull"
    and "\<forall>ob. c ob + length ops < 2 ^ 64"
  shows "\<exists>t'. run_refs t ops = Some (fst (spec_refs c ops), t') \<and> ref_inv t' \<and>
     counts t' (snd (spec_refs c ops))"
  using assms
proof (induction ops arbitrary: t c)
  case (Cons op ops)
  show ?case
  proof (cases op)
    case (RAdd ob)
    with Cons.prems(3) AddRef_correct [OF Cons.prems(1), of ob] obtain t1 where
      t1: "RefTable_AddRef ob t = Some t1" "ref_inv t1"
      "ref_map t1 = (ref_map t)(ob \<mapsto> (case ref_map t ob of None \<Rightarrow> 0 | Some r \<Rightarrow> r) + 1)" by auto
    have "counts t1 (c(ob := c ob + 1))"
      using Cons.prems(2) unfolding counts_def t1(3) by (auto simp: add.commute)
    moreover have "\<forall>ob'. (c(ob := c ob + 1)) ob' + length ops < 2 ^ 64"
    proof
      fix ob' show "(c(ob := c ob + 1)) ob' + length ops < 2 ^ 64"
        using Cons.prems(4) [rule_format, of ob'] by (cases "ob' = ob") simp_all
    qed
    moreover have "\<forall>op\<in>set ops. ref_op_obj op \<noteq> ONull" using Cons.prems(3) by simp
    ultimately have "\<exists>t'. run_refs t1 ops = Some (fst (spec_refs (c(ob := c ob + 1)) ops), t') \<and>
        ref_inv t' \<and> counts t' (snd (spec_refs (c(ob := c ob + 1)) ops))"
      by (intro Cons.IH [OF t1(2)])
    then show ?thesis using t1(1) RAdd by simp
  next
    case (RRelease ob)
    with Cons.prems(3) Release_correct [OF Cons.prems(1), of ob] obtain t1 where
      t1: "RefTable_Release ob t = Some (ref_map t ob = Some 1, t1)" "ref_inv t1"
      "ref_map t1 = (case ref_map t ob of None \<Rightarrow> ref_map t
        | Some r \<Rightarrow> if r = 1 then (ref_map t)(ob := None) else (ref_map t)(ob \<mapsto> r - 1))" by auto
    have lt: "c ob < 2 ^ 64" using Cons.prems(4) by (metis add_lessD1)
    have one: "ref_map t ob = Some 1 \<longleftrightarrow> c ob = 1"
      using Cons.prems(2) word_count_one [of "c ob"] lt by (auto simp: counts_def)
    have "counts t1 (c(ob := c ob - 1))"
    proof (cases "c ob \<le> 1")
      case True
      then consider "c ob = 0" | "c ob = 1" by linarith
      then show ?thesis
        using Cons.prems(2) unfolding counts_def t1(3) by cases auto
    next
      case False
      then show ?thesis
        using Cons.prems(2) one unfolding counts_def t1(3) by (auto simp: of_nat_diff)
    qed
    moreover have "\<forall>ob'. (c(ob := c ob - 1)) ob' + length ops < 2 ^ 64"
    proof
      fix ob' show "(c(ob := c ob - 1)) ob' + length ops < 2 ^ 64"
        using Cons.prems(4) [rule_format, of ob'] by (cases "ob' = ob") simp_all
    qed
    moreover have "\<forall>op\<in>set ops. ref_op_obj op \<noteq> ONull" using Cons.prems(3) by simp
    ultimately have "\<exists>t'. run_refs t1 ops = Some (fst (spec_refs (c(ob := c ob - 1)) ops), t') \<and>
        ref_inv t' \<and> counts t' (snd (spec_refs (c(ob := c ob - 1)) ops))"
      by (intro Cons.IH [OF t1(2)])
    with t1(1) one RRelease show ?thesis by (auto split: prod.splits)
  qed
qed simp

lemma RefTable_new_inv: "ref_inv RefTable_new \<and> ref_map RefTable_new = Map.empty"
  using AllocNodes_inv [of 2] by (simp add: RefTable_new_def)

text \<open>
  C4. References are counted exactly.  Any history of references and releases of
  objects (fewer than 2^64 of them) on a new table returns; it holds an entry for
  exactly the objects referenced more often than released, with that count; and a
  release reports that it dropped the last reference exactly when it did.  The
  growth of the table on the way loses no count.
\<close>

theorem reference_counts_exact:
  assumes "\<forall>op\<in>set ops. ref_op_obj op \<noteq> ONull" and "length ops < 2 ^ 64"
  shows "\<exists>t. run_refs RefTable_new ops = Some (fst (spec_refs (\<lambda>_. 0) ops), t) \<and> ref_inv t \<and>
     (\<forall>ob. ref_map t ob = (let c = snd (spec_refs (\<lambda>_. 0) ops) ob in
        if c = 0 then None else Some (of_nat c)))"
  using run_refs_counts [of RefTable_new "\<lambda>_. 0" ops] RefTable_new_inv assms
  by (auto simp: counts_def Let_def)

theorem reference_counts_exact_witness:
  "\<exists>t. run_refs RefTable_new [RAdd (ORef KTable 8), RAdd (ORef KTable 8), RRelease (ORef KTable 8),
        RAdd (ORef KArray 40), RRelease (ORef KTable 8)] = Some ([False, True], t) \<and>
     ref_map t (ORef KArray 40) = Some 1"
  using reference_counts_exact [of "[RAdd (ORef KTable 8), RAdd (ORef KTable 8),
      RRelease (ORef KTable 8), RAdd (ORef KArray 40), RRelease (ORef KTable 8)]"]
  by (auto simp: Let_def)

text \<open>
  \<open>GetRefCount\<close> is not a query.  It returns the count, but for an object the
  table does not hold it adds an entry with count zero: the table then keeps the
  object alive (\<open>Mark\<close> marks it), and a release of it reports that references
  remain, the count having wrapped to 2^64 - 1.
\<close>

theorem getrefcount_adds_entry:
  assumes "ref_inv t" and "ob \<noteq> ONull" and "ref_map t ob = None"
  shows "\<exists>t' t''. RefTable_GetRefCount ob t = Some (0, t') \<and> ref_map t' = (ref_map t)(ob \<mapsto> 0) \<and>
     ob \<in> set (RefTable_Mark t') \<and> ob \<notin> set (RefTable_Mark t) \<and>
     RefTable_Release ob t' = Some (False, t'') \<and> ref_map t'' ob = Some (2 ^ 64 - 1)"
proof -
  from GetRefCount_correct [OF assms(1,2)] assms(3) obtain t' where
    t': "RefTable_GetRefCount ob t = Some (0, t')" "ref_inv t'" "ref_map t' = (ref_map t)(ob \<mapsto> 0)"
    by auto
  from Release_correct [OF t'(2) assms(2)] obtain t'' where
    "RefTable_Release ob t' = Some (False, t'')" "ref_map t'' ob = Some (- 1)"
    by (auto simp: t'(3))
  moreover have mark: "ob \<in> set (RefTable_Mark u) \<longleftrightarrow> ref_map u ob \<noteq> None" for u
    using assms(2) by (auto simp: RefTable_Mark_def ref_map_nmap nmap_None image_iff)
  ultimately show ?thesis using t' assms(3) by (auto simp: mark)
qed

theorem getrefcount_adds_entry_witness:
  "\<exists>t'. RefTable_GetRefCount (ORef KTable 8) RefTable_new = Some (0, t') \<and>
     ORef KTable 8 \<in> set (RefTable_Mark t')"
  using getrefcount_adds_entry [of RefTable_new "ORef KTable 8"] RefTable_new_inv by auto

end
