(* ===== verification/SharedState.thy ===== *)
theory SharedState
  imports TableOps Vectors
begin

text \<open>
  Parts of the shared state of \<^verbatim>\<open>squirrel/sqstate.cpp\<close> and \<^verbatim>\<open>squirrel/sqobject.h\<close>:
  the metamethod names and the table that numbers them, the compiler of native
  parameter masks, and the scratch buffer.
\<close>

section \<open>Metamethods\<close>

datatype SQMetaMethod =
    MT_ADD | MT_SUB | MT_MUL | MT_DIV | MT_UNM | MT_MODULO | MT_SET | MT_GET | MT_TYPEOF | MT_NEXTI
  | MT_CMP | MT_CALL | MT_CLONED | MT_NEWSLOT | MT_DELSLOT | MT_TOSTRING | MT_NEWMEMBER
  | MT_INHERITED | MT_EQ

fun mt_index :: "SQMetaMethod \<Rightarrow> nat" where
  "mt_index MT_ADD = 0" | "mt_index MT_SUB = 1" | "mt_index MT_MUL = 2" | "mt_index MT_DIV = 3"
| "mt_index MT_UNM = 4" | "mt_index MT_MODULO = 5" | "mt_index MT_SET = 6" | "mt_index MT_GET = 7"
| "mt_index MT_TYPEOF = 8" | "mt_index MT_NEXTI = 9" | "mt_index MT_CMP = 10"
| "mt_index MT_CALL = 11" | "mt_index MT_CLONED = 12" | "mt_index MT_NEWSLOT = 13"
| "mt_index MT_DELSLOT = 14" | "mt_index MT_TOSTRING = 15" | "mt_index MT_NEWMEMBER = 16"
| "mt_index MT_INHERITED = 17" | "mt_index MT_EQ = 18"

definition MT_LAST :: nat where "MT_LAST = 19"

fun mt_name :: "SQMetaMethod \<Rightarrow> string" where
  "mt_name MT_ADD = ''_add''" | "mt_name MT_SUB = ''_sub''" | "mt_name MT_MUL = ''_mul''"
| "mt_name MT_DIV = ''_div''" | "mt_name MT_UNM = ''_unm''" | "mt_name MT_MODULO = ''_modulo''"
| "mt_name MT_SET = ''_set''" | "mt_name MT_GET = ''_get''" | "mt_name MT_TYPEOF = ''_typeof''"
| "mt_name MT_NEXTI = ''_nexti''" | "mt_name MT_CMP = ''_cmp''" | "mt_name MT_CALL = ''_call''"
| "mt_name MT_CLONED = ''_cloned''" | "mt_name MT_NEWSLOT = ''_newslot''"
| "mt_name MT_DELSLOT = ''_delslot''" | "mt_name MT_TOSTRING = ''_tostring''"
| "mt_name MT_NEWMEMBER = ''_newmember''" | "mt_name MT_INHERITED = ''_inherited''"
| "mt_name MT_EQ = ''_eq''"

text \<open>The order in which \<open>Init\<close> adds them.\<close>

definition init_order :: "SQMetaMethod list" where
  "init_order = [MT_ADD, MT_SUB, MT_MUL, MT_DIV, MT_UNM, MT_MODULO, MT_SET, MT_GET, MT_TYPEOF,
     MT_NEXTI, MT_CMP, MT_CALL, MT_CLONED, MT_NEWSLOT, MT_DELSLOT, MT_TOSTRING, MT_NEWMEMBER,
     MT_INHERITED, MT_EQ]"

record metastate =
  ms_metamethods :: "sqobj sqvector"
  ms_metamethodsmap :: sqtable

definition newmetamethod :: "string \<Rightarrow> metastate \<Rightarrow> metastate option" where
  "newmetamethod s st =
     do { v \<leftarrow> vpush_back (OString s) (ms_metamethods st);
          back \<leftarrow> vtop v;
          (b, t) \<leftarrow> Table_NewSlot (ms_metamethodsmap st) back (OInteger (of_nat (v_size v - 1)));
          Some (st\<lparr>ms_metamethods := v, ms_metamethodsmap := t\<rparr>) }"

fun newmetamethods :: "string list \<Rightarrow> metastate \<Rightarrow> metastate option" where
  "newmetamethods [] st = Some st"
| "newmetamethods (s # ss) st = do { st' \<leftarrow> newmetamethod s st; newmetamethods ss st' }"

definition init_metamethods :: "metastate option" where
  "init_metamethods =
     newmetamethods (map mt_name init_order)
       \<lparr>ms_metamethods = vnew, ms_metamethodsmap = SQTable_new (int MT_LAST - 1)\<rparr>"

text \<open>The result -1 is a word; the value found is read as an integer whatever its type.\<close>

fun raw_integer :: "sqobj \<Rightarrow> sqint" where
  "raw_integer (OInteger i) = i"
| "raw_integer (OBool b) = (if b then 1 else 0)"
| "raw_integer (OFloat f) = ucast f"
| "raw_integer (OUserPointer p) = p"
| "raw_integer (ORef k a) = a"
| "raw_integer _ = 0"

definition GetMetaMethodIdxByName :: "metastate \<Rightarrow> sqobj \<Rightarrow> sqint option" where
  "GetMetaMethodIdxByName st name =
     (case name of
        OString _ \<Rightarrow>
          do { r \<leftarrow> Table_Get (\<lambda>_. ONull) (ms_metamethodsmap st) name;
               case r of Some ret \<Rightarrow> Some (raw_integer ret) | None \<Rightarrow> Some (- 1) }
      | _ \<Rightarrow> Some (- 1))"

text \<open>A metamethod is looked up in the delegate, by the name the shared state keeps.\<close>

definition GetMetaMethod ::
    "(addr \<Rightarrow> sqobj) \<Rightarrow> (addr \<Rightarrow> sqtable) \<Rightarrow> metastate \<Rightarrow> addr option \<Rightarrow> nat \<Rightarrow> sqobj option option" where
  "GetMetaMethod wr tables st delegate mm =
     (case delegate of
        Some t \<Rightarrow> do { name \<leftarrow> vpeek (ms_metamethods st) mm; Table_Get wr (tables t) name }
      | None \<Rightarrow> Some None)"

lemma newmetamethods_maps:
  assumes "vec_inv (ms_metamethods st)" and "table_inv (ms_metamethodsmap st)"
  shows "\<exists>st'. newmetamethods ss st = Some st' \<and> vec_inv (ms_metamethods st') \<and>
    table_inv (ms_metamethodsmap st') \<and>
    vlist (ms_metamethods st') = vlist (ms_metamethods st) @ map OString ss \<and>
    put_all Table_NewSlot (ms_metamethodsmap st)
      (zip (map OString ss) (map (\<lambda>i. OInteger (of_nat (length (vlist (ms_metamethods st)) + i)))
         [0..<length ss])) = Some (ms_metamethodsmap st')"
  using assms
proof (induction ss arbitrary: st)
  case (Cons s ss)
  let ?v = "ms_metamethods st"
  obtain v where v: "vpush_back (OString s) ?v = Some v" "vec_inv v" "vlist v = vlist ?v @ [OString s]"
    using vec.push_law [OF Cons.prems(1)] by blast
  obtain n where n: "v = mkvec (vlist ?v @ [OString s]) n" using vec_invE [OF v(2)] v(3) by metis
  obtain b t where t: "Table_NewSlot (ms_metamethodsmap st) (OString s)
      (OInteger (of_nat (length (vlist ?v)))) = Some (b, t)" "table_inv t"
    using tbl.put_law [OF Cons.prems(2), of "OString s"] by blast
  let ?st = "st\<lparr>ms_metamethods := v, ms_metamethodsmap := t\<rparr>"
  have top: "vtop v = Some (OString s)" by (simp add: n vtop_def vpeek_mkvec)
  have step: "newmetamethod s st = Some ?st"
    using t by (simp add: newmetamethod_def v(1) top) (simp add: n)
  obtain st' where st': "newmetamethods ss ?st = Some st'" "vec_inv (ms_metamethods st')"
    "table_inv (ms_metamethodsmap st')" "vlist (ms_metamethods st') = vlist v @ map OString ss"
    "put_all Table_NewSlot t (zip (map OString ss)
      (map (\<lambda>i. OInteger (of_nat (length (vlist v) + i))) [0..<length ss])) = Some (ms_metamethodsmap st')"
    using Cons.IH [of ?st] v(2) t(2) by auto
  have "map (\<lambda>i. OInteger (of_nat (length (vlist ?v) + i))) [0..<length (s # ss)] =
      OInteger (of_nat (length (vlist ?v))) #
      map (\<lambda>i. OInteger (of_nat (length (vlist v) + i))) [0..<length ss]"
    by (simp add: v(3) upt_conv_Cons map_Suc_upt [symmetric] comp_def del: upt_Suc)
  with st' step t v(3) show ?case by simp
qed simp

lemma numbered_metamethods:
  "\<exists>st. init_metamethods = Some st \<and>
     (\<forall>m. GetMetaMethodIdxByName st (OString (mt_name m)) = Some (of_nat (mt_index m)) \<and>
          vpeek (ms_metamethods st) (mt_index m) = Some (OString (mt_name m))) \<and>
     (\<forall>ob. ob \<notin> OString ` mt_name ` set init_order \<longrightarrow> GetMetaMethodIdxByName st ob = Some (- 1))"
proof -
  let ?st = "\<lparr>ms_metamethods = vnew, ms_metamethodsmap = SQTable_new (int MT_LAST - 1)\<rparr>"
  let ?kvs = "zip (map OString (map mt_name init_order))
    (map (\<lambda>i. OInteger (of_nat i)) [0..<length init_order])"
  have "vec_inv (ms_metamethods ?st)" "table_inv (ms_metamethodsmap ?st)"
    using new_table by (simp_all add: vnew_mkvec)
  from newmetamethods_maps [OF this, of "map mt_name init_order"] obtain st where
    st: "init_metamethods = Some st" "vec_inv (ms_metamethods st)"
    "vlist (ms_metamethods st) = map OString (map mt_name init_order)"
    "put_all Table_NewSlot (SQTable_new (int MT_LAST - 1)) ?kvs = Some (ms_metamethodsmap st)"
    by (auto simp: init_metamethods_def vnew_mkvec)
  have get: "Table_Get (\<lambda>_. ONull) (ms_metamethodsmap st) k =
      Some (map_option (realval (\<lambda>_. ONull)) (map_of (rev ?kvs) k))" for k
    using tbl.get_put_all [OF _ _ _ st(4)] new_table [of "int MT_LAST - 1"]
    by (auto simp: init_order_def upt_rec)
  have idx: "GetMetaMethodIdxByName st (OString (mt_name m)) = Some (of_nat (mt_index m)) \<and>
      vpeek (ms_metamethods st) (mt_index m) = Some (OString (mt_name m))" for m
    using vec.at_law [OF st(2), of "mt_index m"]
    by (cases m) (simp_all add: GetMetaMethodIdxByName_def get st(3) init_order_def upt_rec)
  have other: "GetMetaMethodIdxByName st ob = Some (- 1)"
    if "ob \<notin> OString ` mt_name ` set init_order" for ob
  proof -
    have "map_of (rev ?kvs) ob = None"
      using that by (auto simp: map_of_eq_None_iff init_order_def upt_rec)
    then show ?thesis by (cases ob) (simp_all add: GetMetaMethodIdxByName_def get)
  qed
  from st(1) idx other show ?thesis by blast
qed

text \<open>An index found by name is one of the vector of metamethods.\<close>

lemma metamethod_index_bound:
  assumes "init_metamethods = Some st"
  shows "\<exists>i. GetMetaMethodIdxByName st ob = Some i \<and> (i = - 1 \<or> unat i < MT_LAST)"
proof -
  have n: "unat (of_nat (mt_index m) :: sqint) < MT_LAST" for m
    by (cases m) (simp_all add: MT_LAST_def)
  from numbered_metamethods obtain st' where st': "init_metamethods = Some st'"
    "\<And>m. GetMetaMethodIdxByName st' (OString (mt_name m)) = Some (of_nat (mt_index m))"
    "\<And>ob. ob \<notin> OString ` mt_name ` set init_order \<Longrightarrow> GetMetaMethodIdxByName st' ob = Some (- 1)"
    by blast
  have "st' = st" using trans [OF st'(1) [symmetric] assms] by simp
  with st'(2,3) n show ?thesis by (cases "ob \<in> OString ` mt_name ` set init_order") auto
qed

text \<open>
  The numbering of metamethods is consistent: initialisation succeeds, the name
  of every metamethod is found with its enumeration index, the vector of names
  has that name at that index, and any other value gives -1.
\<close>

theorem metamethod_numbering:
  "\<exists>st. init_metamethods = Some st \<and>
     (\<forall>m. GetMetaMethodIdxByName st (OString (mt_name m)) = Some (of_nat (mt_index m)) \<and>
          vpeek (ms_metamethods st) (mt_index m) = Some (OString (mt_name m))) \<and>
     (\<forall>ob. ob \<notin> OString ` mt_name ` set init_order \<longrightarrow> GetMetaMethodIdxByName st ob = Some (- 1))"
  by (rule numbered_metamethods)

theorem metamethod_numbering_witness:
  "\<exists>st. init_metamethods = Some st \<and> GetMetaMethodIdxByName st ONull = Some (- 1)"
  using metamethod_numbering by blast

section \<open>Parameter masks\<close>

definition typemask_char :: "char \<Rightarrow> sqint option" where
  "typemask_char c =
     (if c = CHR ''o'' then Some 0x1
      else if c = CHR ''i'' then Some 0x2
      else if c = CHR ''f'' then Some 0x4
      else if c = CHR ''n'' then Some (0x4 OR 0x2)
      else if c = CHR ''s'' then Some 0x10
      else if c = CHR ''t'' then Some 0x20
      else if c = CHR ''a'' then Some 0x40
      else if c = CHR ''u'' then Some 0x80
      else if c = CHR ''c'' then Some (0x100 OR 0x200)
      else if c = CHR ''b'' then Some 0x8
      else if c = CHR ''g'' then Some 0x400
      else if c = CHR ''p'' then Some 0x800
      else if c = CHR ''v'' then Some 0x1000
      else if c = CHR ''x'' then Some 0x8000
      else if c = CHR ''y'' then Some 0x4000
      else if c = CHR ''r'' then Some 0x10000
      else None)"

text \<open>The loop; the end of the list is the terminator of the string.\<close>

function compile_mask :: "sqint \<Rightarrow> sqint list \<Rightarrow> string \<Rightarrow> bool \<times> sqint list" where
  "compile_mask msk res [] = (True, res)"
| "compile_mask msk res (c # cs) =
     (if c = CHR ''.'' then compile_mask 0 (res @ [- 1]) cs
      else if c = CHR '' '' then compile_mask msk res cs
      else (case typemask_char c of
              None \<Rightarrow> (False, res)
            | Some m \<Rightarrow>
                (if cs \<noteq> [] \<and> hd cs = CHR ''|''
                 then (if tl cs = [] then (False, res) else compile_mask (msk OR m) res (tl cs))
                 else compile_mask 0 (res @ [msk OR m]) cs)))"
  by pat_completeness auto
termination by (relation "measure (\<lambda>(_, _, s). length s)") auto

definition CompileTypemask :: "string \<Rightarrow> bool \<times> sqint list" where
  "CompileTypemask typemask = compile_mask 0 [] typemask"

text \<open>What a mask says: any value, or one of the types its letters name.\<close>

datatype tparam = TAny | TTypes char "char list"

fun render_param :: "tparam \<Rightarrow> string" where
  "render_param TAny = ''.''"
| "render_param (TTypes c cs) = c # concat (map (\<lambda>d. [CHR ''|'', d]) cs)"

fun param_mask :: "tparam \<Rightarrow> sqint" where
  "param_mask TAny = - 1"
| "param_mask (TTypes c cs) = foldl (OR) (the (typemask_char c)) (map (the \<circ> typemask_char) cs)"

fun param_ok :: "tparam \<Rightarrow> bool" where
  "param_ok TAny \<longleftrightarrow> True"
| "param_ok (TTypes c cs) \<longleftrightarrow> list_all (\<lambda>d. typemask_char d \<noteq> None) (c # cs)"

lemma letter_not_special:
  "typemask_char c = Some m \<Longrightarrow> c \<noteq> CHR ''.'' \<and> c \<noteq> CHR '' '' \<and> c \<noteq> CHR ''|''"
  by (auto simp: typemask_char_def)

lemma compile_types:
  assumes "list_all (\<lambda>d. typemask_char d \<noteq> None) (c # cs)" and "rest = [] \<or> hd rest \<noteq> CHR ''|''"
  shows "compile_mask msk res (render_param (TTypes c cs) @ rest) =
     compile_mask 0 (res @ [foldl (OR) (msk OR the (typemask_char c)) (map (the \<circ> typemask_char) cs)]) rest"
  using assms(1)
proof (induction cs arbitrary: c msk)
  case Nil
  then obtain m where "typemask_char c = Some m" by auto
  with assms(2) show ?case by (cases rest) (auto dest: letter_not_special)
next
  case (Cons d ds)
  then obtain m where m: "typemask_char c = Some m" by auto
  have "compile_mask msk res (render_param (TTypes c (d # ds)) @ rest) =
      compile_mask (msk OR m) res (render_param (TTypes d ds) @ rest)"
    using m by (simp add: letter_not_special)
  also have "\<dots> = compile_mask 0 (res @ [foldl (OR) ((msk OR m) OR the (typemask_char d))
      (map (the \<circ> typemask_char) ds)]) rest"
    by (rule Cons.IH) (use Cons.prems in simp)
  finally show ?case by (simp only: m list.map foldl.simps option.sel comp_def)
qed

text \<open>
  Compiling a printed list of parameters gives exactly its masks: every
  well-formed sequence, whose alternatives are separated by bars, is accepted,
  one mask per parameter, each the union of the types its letters name.  A
  dangling separator is refused only at the very end of the text: after a bar
  followed by a space the parameter is dropped without an error.
\<close>

theorem typemask_round_trip:
  "(list_all param_ok ps \<longrightarrow>
      CompileTypemask (concat (map render_param ps)) = (True, map param_mask ps)) \<and>
   CompileTypemask ''i|'' = (False, []) \<and> CompileTypemask ''i| '' = (True, [])"
proof -
  have hd: "concat (map render_param ps) = [] \<or> hd (concat (map render_param ps)) \<noteq> CHR ''|''"
    if "list_all param_ok ps" for ps
  proof (cases ps)
    case (Cons p ps')
    with that show ?thesis by (cases p) (auto dest: letter_not_special)
  qed simp
  have "compile_mask 0 res (concat (map render_param ps)) = (True, res @ map param_mask ps)"
    if "list_all param_ok ps" for res
    using that
  proof (induction ps arbitrary: res)
    case (Cons p ps)
    then have ok: "list_all param_ok ps" by simp
    show ?case
    proof (cases p)
      case TAny
      with Cons.IH [OF ok] show ?thesis by simp
    next
      case (TTypes c cs)
      have "compile_mask 0 res (render_param p @ concat (map render_param ps)) =
          compile_mask 0 (res @ [param_mask p]) (concat (map render_param ps))"
        using compile_types [of c cs "concat (map render_param ps)" 0 res] hd [OF ok] Cons.prems TTypes
        by simp
      with Cons.IH [OF ok] show ?thesis by simp
    qed
  qed simp
  then show ?thesis
    by (simp add: CompileTypemask_def typemask_char_def)
qed

theorem typemask_round_trip_witness:
  "CompileTypemask ''n|st.'' = (True, [0x16, 0x20, - 1])"
  using typemask_round_trip [of "[TTypes CHR ''n'' [CHR ''s''], TTypes CHR ''t'' [], TAny]"]
  by (simp add: typemask_char_def)

section \<open>The scratch buffer\<close>

text \<open>\<open>GetScratchPad\<close>: the size of the buffer after a request.  Sizes are below 2^58.\<close>

definition GetScratchPad :: "int \<Rightarrow> int \<Rightarrow> int" where
  "GetScratchPad scratchpadsize sz =
     (if sz > 0 then
        (if scratchpadsize < sz then sz + sz div 2
         else if scratchpadsize \<ge> sz * 32 then scratchpadsize div 2
         else scratchpadsize)
      else scratchpadsize)"

text \<open>
  After a request for a positive size the scratch buffer has at least that
  many bytes, and repeated requests of one size settle below 32 times it; a
  request that is not positive leaves the buffer alone.
\<close>

theorem scratchpad_size:
  "(0 < sz \<longrightarrow> sz \<le> GetScratchPad pad sz) \<and> (sz \<le> 0 \<longrightarrow> GetScratchPad pad sz = pad) \<and>
   (0 < sz \<longrightarrow> (\<exists>k. \<forall>n\<ge>k. ((\<lambda>p. GetScratchPad p sz) ^^ n) pad < 32 * sz))"
proof -
  have stay: "0 < sz \<Longrightarrow> p < 32 * sz \<Longrightarrow> GetScratchPad p sz < 32 * sz" for p
    by (auto simp: GetScratchPad_def)
  have keep: "((\<lambda>p. GetScratchPad p sz) ^^ n) p < 32 * sz" if "0 < sz" "p < 32 * sz" for n p
    by (induction n) (use stay that in auto)
  have settle: "\<exists>k. ((\<lambda>p. GetScratchPad p sz) ^^ k) pad < 32 * sz" if "0 < sz"
    using that
  proof (induction "nat pad" arbitrary: pad rule: less_induct)
    case less
    show ?case
    proof (cases "pad < 32 * sz")
      case True
      then show ?thesis by (intro exI [of _ 0]) simp
    next
      case False
      then have g: "GetScratchPad pad sz = pad div 2" using less.prems by (auto simp: GetScratchPad_def)
      have "nat (pad div 2) < nat pad" using False less.prems by linarith
      from less.hyps [OF this less.prems] obtain k where
        "((\<lambda>p. GetScratchPad p sz) ^^ k) (pad div 2) < 32 * sz" by blast
      then have "((\<lambda>p. GetScratchPad p sz) ^^ Suc k) pad < 32 * sz"
        by (simp only: funpow_Suc_right comp_apply g)
      then show ?thesis by blast
    qed
  qed
  then have "\<exists>k. \<forall>n\<ge>k. ((\<lambda>p. GetScratchPad p sz) ^^ n) pad < 32 * sz" if "0 < sz"
  proof -
    from settle [OF that] obtain k where k: "((\<lambda>p. GetScratchPad p sz) ^^ k) pad < 32 * sz" by blast
    have "((\<lambda>p. GetScratchPad p sz) ^^ n) pad < 32 * sz" if "n \<ge> k" for n
    proof -
      have "n = (n - k) + k" using that by simp
      then have "((\<lambda>p. GetScratchPad p sz) ^^ n) pad =
          ((\<lambda>p. GetScratchPad p sz) ^^ (n - k)) (((\<lambda>p. GetScratchPad p sz) ^^ k) pad)"
        by (metis funpow_add comp_apply)
      then show ?thesis using keep [OF \<open>0 < sz\<close> k] by simp
    qed
    then show ?thesis by blast
  qed
  then show ?thesis by (auto simp: GetScratchPad_def)
qed

theorem scratchpad_size_witness: "100 \<le> GetScratchPad 16 100"
  using scratchpad_size [of 100 16] by simp

end
