(* ===== verification/Links.thy ===== *)
theory Links
  imports Objects "HOL-Library.Monad_Syntax"
begin

text \<open>
  How heap objects are linked to each other (\<^verbatim>\<open>squirrel/sqobject.cpp\<close>,
  \<^verbatim>\<open>squirrel/sqstate.cpp\<close>): delegation and its cycle check, weak references and the
  objects they point to, and the doubly linked chain of collectable objects.
\<close>

section \<open>Delegation\<close>

text \<open>
  The store of delegates: the table a table, instance or userdata delegates to.
  The walk of \<open>SetDelegate\<close> up the chain of the new delegate stops when it finds
  the object itself.
\<close>

type_synonym delegates = "addr \<Rightarrow> addr option"

partial_function (option) delegate_walk :: "delegates \<Rightarrow> addr \<Rightarrow> addr option \<Rightarrow> bool option" where
  "delegate_walk d this temp =
     (if temp = None then Some True
      else if d (the temp) = Some this then Some False
      else delegate_walk d this (d (the temp)))"

declare delegate_walk.simps [code]

definition SetDelegate :: "addr \<Rightarrow> addr option \<Rightarrow> delegates \<Rightarrow> (bool \<times> delegates) option" where
  "SetDelegate this mt d =
     (if mt = Some this then Some (False, d)
      else do { ok \<leftarrow> delegate_walk d this mt;
                if ok then Some (True, d(this := mt)) else Some (False, d) })"

definition deleg_wf :: "delegates \<Rightarrow> bool" where
  "deleg_wf d \<longleftrightarrow> (\<forall>a. \<exists>xs. list_at d (Some a) xs)"

lemma delegate_walk_list:
  assumes "list_at d p xs" and "p \<noteq> Some this"
  shows "delegate_walk d this p = Some (this \<notin> set xs)"
  using assms
proof (induction xs arbitrary: p)
  case Nil
  then show ?case by (simp add: delegate_walk.simps)
next
  case (Cons x xs)
  then have p: "p = Some x" "list_at d (d x) xs" "x \<noteq> this" by auto
  show ?case
  proof (cases "d x = Some this")
    case True
    with p(2) have "this \<in> set xs" by (auto simp: list_at_Some)
    with True p show ?thesis by (subst delegate_walk.simps) auto
  next
    case False
    with Cons.IH [OF p(2)] p show ?thesis by (subst delegate_walk.simps) auto
  qed
qed

lemma SetDelegate_wf:
  assumes wf: "deleg_wf d"
  shows "\<exists>b d'. SetDelegate this mt d = Some (b, d') \<and> deleg_wf d' \<and>
     (b \<longleftrightarrow> (\<exists>xs. list_at d mt xs \<and> this \<notin> set xs)) \<and> d' = (if b then d(this := mt) else d)"
proof -
  obtain xs where xs: "list_at d mt xs"
  proof (cases mt)
    case None
    then show thesis using that [of "[]"] by simp
  next
    case (Some a)
    then show thesis using wf that by (auto simp: deleg_wf_def)
  qed
  have b: "(\<exists>ys. list_at d mt ys \<and> this \<notin> set ys) \<longleftrightarrow> this \<notin> set xs"
    using xs list_at_unique by blast
  show ?thesis
  proof (cases "mt = Some this")
    case True
    with xs have "this \<in> set xs" by (auto simp: list_at_Some)
    with b have "\<not> (\<exists>ys. list_at d mt ys \<and> this \<notin> set ys)" by blast
    moreover have "SetDelegate this mt d = Some (False, d)" by (simp add: SetDelegate_def True)
    ultimately show ?thesis using wf by auto
  next
    case False
    note walk = delegate_walk_list [OF xs False]
    show ?thesis
    proof (cases "this \<in> set xs")
      case True
      with b have "\<not> (\<exists>ys. list_at d mt ys \<and> this \<notin> set ys)" by blast
      moreover have "SetDelegate this mt d = Some (False, d)"
        using False walk True by (simp add: SetDelegate_def)
      ultimately show ?thesis using wf by auto
    next
      case new: False
      have mt: "list_at (d(this := mt)) mt xs"
        using xs new by (subst list_at_frame [of xs _ d]) auto
      have "\<exists>ys. list_at (d(this := mt)) p ys" if "list_at d p zs" for p zs
        using that
      proof (induction zs arbitrary: p)
        case Nil
        then show ?case by (intro exI [of _ "[]"]) simp
      next
        case (Cons z zs)
        then have p: "p = Some z" "list_at d (d z) zs" by auto
        show ?case
        proof (cases "z = this")
          case True
          have "(d(this := mt)) this = mt" by simp
          with mt have "list_at (d(this := mt)) (Some this) (this # xs)"
            by (simp only: list_at.simps simp_thms)
          with p True show ?thesis by blast
        next
          case False
          from Cons.IH [OF p(2)] obtain ys where "list_at (d(this := mt)) (d z) ys" by blast
          moreover have "(d(this := mt)) z = d z" using False by simp
          ultimately have "list_at (d(this := mt)) (Some z) (z # ys)"
            by (simp only: list_at.simps simp_thms)
          with p show ?thesis by blast
        qed
      qed
      then have "deleg_wf (d(this := mt))" using wf unfolding deleg_wf_def by blast
      moreover have "SetDelegate this mt d = Some (True, d(this := mt))"
        using False walk new by (simp add: SetDelegate_def)
      moreover have "\<exists>ys. list_at d mt ys \<and> this \<notin> set ys" using new b by blast
      ultimately show ?thesis by (intro exI [of _ True] exI [of _ "d(this := mt)"]) simp
    qed
  qed
qed

text \<open>The stores reached by setting delegates, from one without delegates.\<close>

inductive deleg_reach :: "delegates \<Rightarrow> bool" where
  deleg_init: "deleg_reach Map.empty"
| deleg_set: "deleg_reach d \<Longrightarrow> SetDelegate this mt d = Some (b, d') \<Longrightarrow> deleg_reach d'"

lemma deleg_reach_wf: "deleg_reach d \<Longrightarrow> deleg_wf d"
proof (induction rule: deleg_reach.induct)
  case deleg_init
  have "list_at Map.empty (Some a) [a]" for a :: addr by simp
  then show ?case unfolding deleg_wf_def by blast
next
  case (deleg_set d this mt b d')
  from SetDelegate_wf [OF deleg_set.IH, of this mt] obtain b0 d0 where
    "SetDelegate this mt d = Some (b0, d0)" "deleg_wf d0" by blast
  with deleg_set.hyps(2) show ?case by simp
qed

text \<open>
  C5. Delegation never becomes cyclic.  In every store reached by setting
  delegates the chain of every object ends, so the check of a further one
  terminates; it is accepted exactly when the object is not on the chain of its
  new delegate, and then only that object's delegate changes.
\<close>

theorem delegation_acyclic:
  assumes "deleg_reach d"
  shows "(\<forall>a. \<exists>xs. list_at d (Some a) xs \<and> distinct xs) \<and>
     (\<exists>b d'. SetDelegate this mt d = Some (b, d') \<and> deleg_reach d' \<and>
        (b \<longleftrightarrow> (\<exists>xs. list_at d mt xs \<and> this \<notin> set xs)) \<and> d' = (if b then d(this := mt) else d))"
proof -
  note wf = deleg_reach_wf [OF assms]
  from SetDelegate_wf [OF wf, of this mt] obtain b d' where d': "SetDelegate this mt d = Some (b, d')"
    "b \<longleftrightarrow> (\<exists>xs. list_at d mt xs \<and> this \<notin> set xs)" "d' = (if b then d(this := mt) else d)" by blast
  have "deleg_reach d'" by (rule deleg_set [OF assms d'(1)])
  with d' have "\<exists>b d'. SetDelegate this mt d = Some (b, d') \<and> deleg_reach d' \<and>
        (b \<longleftrightarrow> (\<exists>xs. list_at d mt xs \<and> this \<notin> set xs)) \<and> d' = (if b then d(this := mt) else d)"
    by blast
  moreover have "\<forall>a. \<exists>xs. list_at d (Some a) xs \<and> distinct xs"
    using wf list_at_distinct unfolding deleg_wf_def by blast
  ultimately show ?thesis by blast
qed

theorem delegation_acyclic_witness:
  "\<exists>b d'. SetDelegate 16 (Some 32) (Map.empty(32 \<mapsto> 16)) = Some (b, d') \<and> \<not> b"
proof -
  have 1: "SetDelegate 32 (Some 16) Map.empty = Some (True, Map.empty(32 \<mapsto> 16))"
    by (simp add: SetDelegate_def delegate_walk.simps)
  obtain b d' where "SetDelegate 16 (Some 32) (Map.empty(32 \<mapsto> 16)) = Some (b, d')"
    "b \<longleftrightarrow> (\<exists>xs. list_at (Map.empty(32 \<mapsto> 16)) (Some 32) xs \<and> (16 :: addr) \<notin> set xs)"
    using delegation_acyclic [OF deleg_set [OF deleg_init 1], of 16 "Some 32"] by blast
  moreover have "list_at (Map.empty(32 \<mapsto> 16)) (Some 32) [32, 16 :: addr]" by simp
  ultimately show ?thesis using list_at_unique by (metis list.set_intros)
qed

section \<open>Weak references\<close>

text \<open>
  \<open>ws_ref\<close> is the weak reference field of a live object, \<open>ws_obj\<close> what a live weak
  reference object holds.  \<open>fresh\<close> is the address of the new weak reference.
\<close>

record weakstate =
  ws_live :: "addr \<Rightarrow> bool"
  ws_ref :: "addr \<Rightarrow> addr option"
  ws_obj :: "addr \<Rightarrow> sqobj option"

definition GetWeakRef :: "addr \<Rightarrow> refkind \<Rightarrow> addr \<Rightarrow> weakstate \<Rightarrow> addr \<times> weakstate" where
  "GetWeakRef this k fresh s =
     (case ws_ref s this of
        Some w \<Rightarrow> (w, s)
      | None \<Rightarrow> (fresh, s\<lparr>ws_ref := (ws_ref s)(this \<mapsto> fresh),
                          ws_obj := (ws_obj s)(fresh \<mapsto> ORef k this)\<rparr>))"

definition RefCounted_destroy :: "addr \<Rightarrow> weakstate \<Rightarrow> weakstate" where
  "RefCounted_destroy this s =
     (case ws_ref s this of
        Some w \<Rightarrow> s\<lparr>ws_obj := (ws_obj s)(w \<mapsto> ONull), ws_live := (ws_live s)(this := False),
                     ws_ref := (ws_ref s)(this := None)\<rparr>
      | None \<Rightarrow> s\<lparr>ws_live := (ws_live s)(this := False)\<rparr>)"

definition WeakRef_Release :: "addr \<Rightarrow> weakstate \<Rightarrow> weakstate" where
  "WeakRef_Release w s =
     (case ws_obj s w of
        Some (ORef k a) \<Rightarrow> s\<lparr>ws_ref := (ws_ref s)(a := None), ws_obj := (ws_obj s)(w := None)\<rparr>
      | _ \<Rightarrow> s\<lparr>ws_obj := (ws_obj s)(w := None)\<rparr>)"

definition weak_inv :: "weakstate \<Rightarrow> bool" where
  "weak_inv s \<longleftrightarrow>
     (\<forall>a w. ws_ref s a = Some w \<longrightarrow> ws_live s a \<and> (\<exists>k. ws_obj s w = Some (ORef k a))) \<and>
     (\<forall>w ob. ws_obj s w = Some ob \<longrightarrow> ob = ONull \<or> (\<exists>k a. ob = ORef k a \<and> ws_ref s a = Some w))"

inductive weak_step :: "weakstate \<Rightarrow> weakstate \<Rightarrow> bool" where
  ws_new: "\<not> ws_live s a \<Longrightarrow> ws_ref s a = None \<Longrightarrow> weak_step s (s\<lparr>ws_live := (ws_live s)(a := True)\<rparr>)"
| ws_get: "ws_live s a \<Longrightarrow> ws_obj s fresh = None \<Longrightarrow> weak_step s (snd (GetWeakRef a k fresh s))"
| ws_destroy: "ws_live s a \<Longrightarrow> weak_step s (RefCounted_destroy a s)"
| ws_release: "ws_obj s w \<noteq> None \<Longrightarrow> weak_step s (WeakRef_Release w s)"

inductive_cases weak_step_elim: "weak_step s s'"

definition weak_start :: weakstate where
  "weak_start = \<lparr>ws_live = (\<lambda>_. False), ws_ref = Map.empty, ws_obj = Map.empty\<rparr>"

lemma weak_inv_inj:
  assumes "weak_inv s" and "ws_ref s a = Some w" and "ws_ref s b = Some w" shows "a = b"
proof -
  from assms obtain k k' where "ws_obj s w = Some (ORef k a)" "ws_obj s w = Some (ORef k' b)"
    unfolding weak_inv_def by blast
  then show ?thesis by simp
qed

lemma weak_invD:
  assumes "weak_inv s"
  shows weak_ref: "ws_ref s a = Some w \<Longrightarrow> ws_live s a \<and> (\<exists>k. ws_obj s w = Some (ORef k a))"
    and weak_obj: "ws_obj s w = Some ob \<Longrightarrow> ob = ONull \<or> (\<exists>k a. ob = ORef k a \<and> ws_ref s a = Some w)"
  using assms unfolding weak_inv_def by blast+

lemma weak_step_inv: "weak_step s s' \<Longrightarrow> weak_inv s \<Longrightarrow> weak_inv s'"
proof (induction rule: weak_step.induct)
  case (ws_new s a)
  then show ?case by (auto simp: weak_inv_def)
next
  case (ws_get s a fresh k)
  show ?case
  proof (cases "ws_ref s a")
    case None
    with ws_get have new: "ws_ref s b \<noteq> Some fresh" for b unfolding weak_inv_def by fastforce
    show ?thesis
      unfolding weak_inv_def
    proof (rule conjI; intro allI impI)
      fix b w assume "ws_ref (snd (GetWeakRef a k fresh s)) b = Some w"
      then show "ws_live (snd (GetWeakRef a k fresh s)) b \<and>
          (\<exists>k'. ws_obj (snd (GetWeakRef a k fresh s)) w = Some (ORef k' b))"
        using ws_get None new [of b] by (auto simp: GetWeakRef_def weak_inv_def split: if_splits)
    next
      fix w ob assume "ws_obj (snd (GetWeakRef a k fresh s)) w = Some ob"
      then show "ob = ONull \<or> (\<exists>k' b. ob = ORef k' b \<and> ws_ref (snd (GetWeakRef a k fresh s)) b = Some w)"
      proof (cases "w = fresh")
        case False
        with \<open>ws_obj (snd (GetWeakRef a k fresh s)) w = Some ob\<close> None
        have "ws_obj s w = Some ob" by (simp add: GetWeakRef_def)
        with ws_get.prems have "ob = ONull \<or> (\<exists>k b. ob = ORef k b \<and> ws_ref s b = Some w)"
          unfolding weak_inv_def by blast
        moreover have "ws_ref s b = Some w \<Longrightarrow> b \<noteq> a" for b using None by auto
        ultimately show ?thesis using None by (auto simp: GetWeakRef_def)
      next
        case True
        with \<open>ws_obj (snd (GetWeakRef a k fresh s)) w = Some ob\<close> None
        have "ob = ORef k a" "ws_ref (snd (GetWeakRef a k fresh s)) a = Some w"
          by (auto simp: GetWeakRef_def)
        then show ?thesis by blast
      qed
    qed
  qed (use ws_get in \<open>simp add: GetWeakRef_def\<close>)
next
  case (ws_destroy s a)
  show ?case
  proof (cases "ws_ref s a")
    case None
    have "ws_live s b \<and> b \<noteq> a \<and> (\<exists>k. ws_obj s w = Some (ORef k b))" if "ws_ref s b = Some w" for b w
      using weak_ref [OF ws_destroy.prems that] that None by auto
    moreover have "ob = ONull \<or> (\<exists>k b. ob = ORef k b \<and> ws_ref s b = Some w)"
      if "ws_obj s w = Some ob" for w ob using weak_obj [OF ws_destroy.prems that] .
    ultimately show ?thesis using None by (auto simp: weak_inv_def RefCounted_destroy_def)
  next
    case (Some v)
    show ?thesis
      unfolding weak_inv_def
    proof (rule conjI; intro allI impI)
      fix b w assume "ws_ref (RefCounted_destroy a s) b = Some w"
      then have bw: "ws_ref s b = Some w" "b \<noteq> a"
        using Some by (auto simp: RefCounted_destroy_def split: if_splits)
      then have "w \<noteq> v" using weak_inv_inj [OF ws_destroy.prems Some] by blast
      with bw weak_ref [OF ws_destroy.prems bw(1)] Some
      show "ws_live (RefCounted_destroy a s) b \<and> (\<exists>k. ws_obj (RefCounted_destroy a s) w = Some (ORef k b))"
        by (auto simp: RefCounted_destroy_def)
    next
      fix w ob assume w: "ws_obj (RefCounted_destroy a s) w = Some ob"
      show "ob = ONull \<or> (\<exists>k b. ob = ORef k b \<and> ws_ref (RefCounted_destroy a s) b = Some w)"
      proof (cases "w = v")
        case True
        with w Some show ?thesis by (simp add: RefCounted_destroy_def)
      next
        case False
        with w Some have "ws_obj s w = Some ob" by (simp add: RefCounted_destroy_def)
        from weak_obj [OF ws_destroy.prems this] show ?thesis
        proof
          assume "\<exists>k b. ob = ORef k b \<and> ws_ref s b = Some w"
          then obtain k b where "ob = ORef k b" "ws_ref s b = Some w" by blast
          moreover from this Some False have "b \<noteq> a" by auto
          ultimately show ?thesis using Some by (simp add: RefCounted_destroy_def)
        qed simp
      qed
    qed
  qed
next
  case (ws_release s w)
  then obtain ob where "ws_obj s w = Some ob" by blast
  then consider "ws_obj s w = Some ONull" | k a where "ws_obj s w = Some (ORef k a)" "ws_ref s a = Some w"
    using ws_release.prems unfolding weak_inv_def by blast
  then show ?case
  proof cases
    case 1
    show ?thesis
      unfolding weak_inv_def
    proof (rule conjI; intro allI impI)
      fix b v assume "ws_ref (WeakRef_Release w s) b = Some v"
      then have v: "ws_ref s b = Some v" using 1 by (simp add: WeakRef_Release_def)
      with weak_ref [OF ws_release.prems v] 1
      show "ws_live (WeakRef_Release w s) b \<and> (\<exists>k. ws_obj (WeakRef_Release w s) v = Some (ORef k b))"
        by (auto simp: WeakRef_Release_def)
    next
      fix v ob assume "ws_obj (WeakRef_Release w s) v = Some ob"
      then have "ws_obj s v = Some ob" using 1 by (simp add: WeakRef_Release_def split: if_splits)
      from weak_obj [OF ws_release.prems this] 1
      show "ob = ONull \<or> (\<exists>k b. ob = ORef k b \<and> ws_ref (WeakRef_Release w s) b = Some v)"
        by (simp add: WeakRef_Release_def)
    qed
  next
    case (2 k a)
    show ?thesis
      unfolding weak_inv_def
    proof (rule conjI; intro allI impI)
      fix b v assume "ws_ref (WeakRef_Release w s) b = Some v"
      then have v: "ws_ref s b = Some v" "b \<noteq> a"
        using 2 by (auto simp: WeakRef_Release_def split: if_splits)
      then have "v \<noteq> w" using weak_inv_inj [OF ws_release.prems 2(2)] by blast
      with weak_ref [OF ws_release.prems v(1)] 2
      show "ws_live (WeakRef_Release w s) b \<and> (\<exists>k. ws_obj (WeakRef_Release w s) v = Some (ORef k b))"
        by (auto simp: WeakRef_Release_def)
    next
      fix v ob assume "ws_obj (WeakRef_Release w s) v = Some ob"
      then have v: "ws_obj s v = Some ob" "v \<noteq> w"
        using 2 by (auto simp: WeakRef_Release_def split: if_splits)
      from weak_obj [OF ws_release.prems v(1)]
      show "ob = ONull \<or> (\<exists>k b. ob = ORef k b \<and> ws_ref (WeakRef_Release w s) b = Some v)"
      proof
        assume "\<exists>k b. ob = ORef k b \<and> ws_ref s b = Some v"
        then obtain k' b where "ob = ORef k' b" "ws_ref s b = Some v" by blast
        moreover from this 2 v(2) have "b \<noteq> a" by auto
        ultimately show ?thesis using 2 by (simp add: WeakRef_Release_def)
      qed simp
    qed
  qed
qed

text \<open>
  C6. A weak reference never dangles.  In every history of creating objects,
  taking weak references, destroying objects and releasing weak references, a
  weak reference to an object holds that object as long as it lives and nothing
  else ever; when the object is destroyed it reads null; and asking twice gives
  the same weak reference.
\<close>

theorem weak_references_safe:
  assumes "weak_step\<^sup>*\<^sup>* weak_start s" and "ws_live s a" and "ws_obj s fresh = None"
  shows "(\<forall>w k b. ws_obj s w = Some (ORef k b) \<longrightarrow> ws_live s b) \<and>
     (case GetWeakRef a k fresh s of (w, s1) \<Rightarrow>
        (\<exists>k'. ws_obj s1 w = Some (ORef k' a)) \<and> GetWeakRef a k fresh' s1 = (w, s1) \<and>
        ws_obj (RefCounted_destroy a s1) w = Some ONull)"
proof -
  have inv: "weak_inv s"
    using assms(1)
  proof (induction rule: rtranclp_induct)
    case base
    then show ?case by (simp add: weak_inv_def weak_start_def)
  next
    case (step s s')
    then show ?case using weak_step_inv by blast
  qed
  have "ws_live s b" if "ws_obj s w = Some (ORef k b)" for w k b
    using inv that unfolding weak_inv_def by blast
  moreover have "case GetWeakRef a k fresh s of (w, s1) \<Rightarrow>
      (\<exists>k'. ws_obj s1 w = Some (ORef k' a)) \<and> GetWeakRef a k fresh' s1 = (w, s1) \<and>
        ws_obj (RefCounted_destroy a s1) w = Some ONull"
  proof (cases "ws_ref s a")
    case None
    then show ?thesis by (simp add: GetWeakRef_def RefCounted_destroy_def)
  next
    case (Some w)
    moreover from this inv have "\<exists>k. ws_obj s w = Some (ORef k a)" unfolding weak_inv_def by blast
    ultimately show ?thesis by (simp add: GetWeakRef_def RefCounted_destroy_def)
  qed
  ultimately show ?thesis by blast
qed

theorem weak_references_safe_witness:
  "\<exists>s. weak_step\<^sup>*\<^sup>* weak_start s \<and>
     (case GetWeakRef 8 KTable 64 s of (w, s1) \<Rightarrow> ws_obj (RefCounted_destroy 8 s1) w = Some ONull)"
proof -
  let ?s = "weak_start\<lparr>ws_live := (ws_live weak_start)(8 := True)\<rparr>"
  have "weak_step weak_start ?s" by (rule ws_new) (simp_all add: weak_start_def)
  then have r: "weak_step\<^sup>*\<^sup>* weak_start ?s" by blast
  from weak_references_safe [OF r, of 8 64 KTable 72] r show ?thesis
    by (intro exI [of _ ?s]) (auto simp: weak_start_def)
qed

section \<open>The chain of collectable objects\<close>

record gcnode =
  g_next :: "addr option"
  g_prev :: "addr option"

type_synonym gcheap = "addr \<Rightarrow> gcnode"

definition AddToChain :: "addr \<Rightarrow> addr option \<times> gcheap \<Rightarrow> addr option \<times> gcheap" where
  "AddToChain c = (\<lambda>(chain, h).
     let h1 = h(c := (h c)\<lparr>g_prev := None, g_next := chain\<rparr>);
         h2 = (case chain of None \<Rightarrow> h1 | Some f \<Rightarrow> h1(f := (h1 f)\<lparr>g_prev := Some c\<rparr>))
     in (Some c, h2))"

definition RemoveFromChain :: "addr \<Rightarrow> addr option \<times> gcheap \<Rightarrow> addr option \<times> gcheap" where
  "RemoveFromChain c = (\<lambda>(chain, h).
     let (chain1, h1) = (case g_prev (h c) of
            Some p \<Rightarrow> (chain, h(p := (h p)\<lparr>g_next := g_next (h c)\<rparr>))
          | None \<Rightarrow> (g_next (h c), h));
         h2 = (case g_next (h1 c) of
            Some n \<Rightarrow> h1(n := (h1 n)\<lparr>g_prev := g_prev (h1 c)\<rparr>)
          | None \<Rightarrow> h1);
         h3 = h2(c := (h2 c)\<lparr>g_next := None, g_prev := None\<rparr>)
     in (chain1, h3))"

text \<open>A chain of objects: next fields forward, previous fields backward.\<close>

fun dlist :: "gcheap \<Rightarrow> addr option \<Rightarrow> addr option \<Rightarrow> addr list \<Rightarrow> bool" where
  "dlist h p prev [] \<longleftrightarrow> p = None"
| "dlist h p prev (x # xs) \<longleftrightarrow> p = Some x \<and> g_prev (h x) = prev \<and> dlist h (g_next (h x)) (Some x) xs"

lemma dlist_frame: "(\<And>x. x \<in> set xs \<Longrightarrow> h' x = h x) \<Longrightarrow> dlist h' p prev xs \<longleftrightarrow> dlist h p prev xs"
  by (induction xs arbitrary: p prev) auto

lemma dlist_list_at: "dlist h p prev xs \<Longrightarrow> list_at (\<lambda>a. g_next (h a)) p xs"
  by (induction xs arbitrary: p prev) auto


lemma dlist_new_prev:
  "dlist h p prev xs \<Longrightarrow> distinct xs \<Longrightarrow>
   dlist (case p of None \<Rightarrow> h | Some f \<Rightarrow> h(f := (h f)\<lparr>g_prev := prev'\<rparr>)) p prev' xs"
proof (cases xs)
  case (Cons x ys)
  assume a: "dlist h p prev xs" "distinct xs"
  then have "dlist (h(x := (h x)\<lparr>g_prev := prev'\<rparr>)) (g_next (h x)) (Some x) ys"
    using Cons by (subst dlist_frame [of ys _ h]) auto
  with a Cons show ?thesis by simp
qed simp

text \<open>Unlinking a node in the middle: what is before it keeps its fields but the last.\<close>

lemma dlist_unlink:
  assumes "dlist h p prev (us @ c # vs)" and "distinct (us @ c # vs)"
  shows "g_prev (h c) = (if us = [] then prev else Some (last us)) \<and>
     dlist h (g_next (h c)) (Some c) vs \<and>
     (\<forall>h'. (\<forall>x\<in>set us. h' x = (if x = last us then (h x)\<lparr>g_next := g_next (h c)\<rparr> else h x)) \<longrightarrow>
        dlist h' (g_next (h c)) (if us = [] then prev else Some (last us)) vs \<longrightarrow>
        dlist h' (if us = [] then g_next (h c) else p) prev (us @ vs))"
  using assms
proof (induction us arbitrary: p prev)
  case Nil
  then show ?case by simp
next
  case (Cons u us)
  have d: "dlist h (g_next (h u)) (Some u) (us @ c # vs)" "p = Some u" "g_prev (h u) = prev"
    using Cons.prems(1) by simp_all
  have ds: "distinct (us @ c # vs)" using Cons.prems(2) by simp
  let ?q = "g_next (h c)"
  note IH = Cons.IH [OF d(1) ds]
  have prv: "g_prev (h c) = Some (last (u # us))" using IH by (cases "us = []") simp_all
  have "dlist h' (Some u) prev (u # us @ vs)"
    if h': "\<forall>x\<in>set (u # us). h' x = (if x = last (u # us) then (h x)\<lparr>g_next := ?q\<rparr> else h x)"
      and v: "dlist h' ?q (Some (last (u # us))) vs" for h'
  proof (cases "us = []")
    case True
    with h' v d(3) show ?thesis by simp
  next
    case False
    then have nu: "u \<noteq> last us" using Cons.prems(2) last_in_set [OF False] by auto
    with h' False have hu: "h' u = h u" by simp
    have "\<forall>x\<in>set us. h' x = (if x = last us then (h x)\<lparr>g_next := ?q\<rparr> else h x)"
      using h' False by simp
    moreover have "dlist h' ?q (if us = [] then Some u else Some (last us)) vs" using v False by simp
    ultimately have "dlist h' (if us = [] then ?q else g_next (h u)) (Some u) (us @ vs)"
      using IH by blast
    with False hu d(3) show ?thesis by simp
  qed
  then have all: "\<forall>h'. (\<forall>x\<in>set (u # us). h' x = (if x = last (u # us)
        then (h x)\<lparr>g_next := ?q\<rparr> else h x)) \<longrightarrow>
      dlist h' ?q (Some (last (u # us))) vs \<longrightarrow> dlist h' (Some u) prev (u # us @ vs)" by blast
  have "dlist h ?q (Some c) vs" using IH by blast
  with prv all d(2) show ?case by (simp only: list.simps if_False append_Cons simp_thms)
qed

lemma dlist_add:
  assumes "dlist h p None xs" "distinct xs" "c \<notin> set xs" "AddToChain c (p, h) = (p', h')"
  shows "dlist h' p' None (c # xs) \<and> (\<forall>y. y \<notin> set (c # xs) \<longrightarrow> h' y = h y)"
proof -
  let ?h1 = "h(c := (h c)\<lparr>g_prev := None, g_next := p\<rparr>)"
  have "dlist ?h1 p None xs" using assms(1,3) by (subst dlist_frame [of xs _ h]) auto
  from dlist_new_prev [OF this assms(2), of "Some c"] assms(1,3,4) show ?thesis
    by (cases xs) (auto simp: AddToChain_def Let_def)
qed

lemma dlist_remove:
  assumes "dlist h p None xs" "distinct xs" and c: "c \<in> set xs" and rem: "RemoveFromChain c (p, h) = (q, h3)"
  shows "dlist h3 q None (remove1 c xs) \<and> h3 c = \<lparr>g_next = None, g_prev = None\<rparr> \<and>
     (\<forall>y. y \<notin> set xs \<longrightarrow> h3 y = h y)"
proof -
  from c obtain us vs where uv: "xs = us @ c # vs" "c \<notin> set us" by (meson split_list_first)
  have d: "distinct (us @ c # vs)" "dlist h p None (us @ c # vs)" using assms uv(1) by simp_all
  let ?q = "g_next (h c)" and ?pr = "if us = [] then None else Some (last us)"
  from dlist_unlink [OF d(2,1)] have u: "g_prev (h c) = ?pr" "dlist h ?q (Some c) vs"
    "\<And>h'. (\<forall>x\<in>set us. h' x = (if x = last us then (h x)\<lparr>g_next := ?q\<rparr> else h x)) \<Longrightarrow>
        dlist h' ?q ?pr vs \<Longrightarrow> dlist h' (if us = [] then ?q else p) None (us @ vs)" by auto
  define h1 where "h1 = (if us = [] then h else h(last us := (h (last us))\<lparr>g_next := ?q\<rparr>))"
  define h2 where "h2 = (case ?q of None \<Rightarrow> h1 | Some n \<Rightarrow> h1(n := (h1 n)\<lparr>g_prev := ?pr\<rparr>))"
  define h' where "h' = h2(c := (h2 c)\<lparr>g_next := None, g_prev := None\<rparr>)"
  define p' where "p' = (if us = [] then ?q else p)"
  have lc: "us \<noteq> [] \<Longrightarrow> last us \<noteq> c" using uv(2) last_in_set by force
  have h1c: "h1 c = h c" using lc by (auto simp: h1_def)
  have 1: "(case g_prev (h c) of Some p \<Rightarrow> (p0, h(p := (h p)\<lparr>g_next := g_next (h c)\<rparr>))
      | None \<Rightarrow> (g_next (h c), h)) = (if us = [] then ?q else p0, h1)" for p0
    by (simp add: u(1) h1_def)
  have r: "RemoveFromChain c (p, h) = (p', h')"
    unfolding RemoveFromChain_def prod.case Let_def
    unfolding 1
    unfolding prod.case h1c u(1) h2_def [symmetric] h'_def [symmetric] p'_def [symmetric] ..
  have vs1: "dlist h1 ?q (Some c) vs"
    using u(2) d(1) last_in_set by (subst dlist_frame [of vs _ h]) (auto simp: h1_def)
  have dv: "distinct vs" using d(1) by simp
  have vs2: "dlist h2 ?q ?pr vs" unfolding h2_def by (rule dlist_new_prev [OF vs1 dv])
  have nq: "?q = Some n \<Longrightarrow> n \<in> set vs" for n using u(2) by (cases vs) auto
  have vs3: "dlist h' ?q ?pr vs"
    using vs2 d(1) by (subst dlist_frame [of vs _ h2]) (auto simp: h'_def)
  have "\<forall>x\<in>set us. h' x = (if x = last us then (h x)\<lparr>g_next := ?q\<rparr> else h x)"
  proof
    fix x assume x: "x \<in> set us"
    then have "x \<noteq> c" "?q \<noteq> Some x" using d(1) nq by auto
    then show "h' x = (if x = last us then (h x)\<lparr>g_next := ?q\<rparr> else h x)"
      using x by (cases ?q) (auto simp: h'_def h2_def h1_def)
  qed
  from u(3) [OF this vs3] have "dlist h' p' None (remove1 c xs)"
    using uv by (simp add: p'_def remove1_append)
  moreover have "h' y = h y" if y: "y \<notin> set xs" for y
  proof -
    have "us \<noteq> [] \<Longrightarrow> y \<noteq> last us" "?q = Some n \<Longrightarrow> y \<noteq> n" "y \<noteq> c" for n
      using y uv(1) nq last_in_set by auto
    then show ?thesis by (cases ?q) (simp_all add: h'_def h2_def h1_def)
  qed
  ultimately show ?thesis using r rem by (simp add: h'_def)
qed

text \<open>
  C7. The collectable chain is a doubly linked list: adding an object that is not
  on it puts it in front, and removing an object that is on it, wherever it is,
  takes exactly it out, leaving its links cleared and the order of the others.
\<close>

theorem gc_chain_operations:
  assumes "dlist h p None xs" and "distinct xs"
  shows "(c \<notin> set xs \<longrightarrow> (case AddToChain c (p, h) of (p', h') \<Rightarrow> dlist h' p' None (c # xs))) \<and>
     (c \<in> set xs \<longrightarrow> (case RemoveFromChain c (p, h) of (p', h') \<Rightarrow>
        dlist h' p' None (remove1 c xs) \<and> h' c = \<lparr>g_next = None, g_prev = None\<rparr>))"
  using dlist_add [OF assms] dlist_remove [OF assms] by (auto split: prod.splits)

theorem gc_chain_operations_witness:
  "case RemoveFromChain 16 (AddToChain 24 (AddToChain 16 (None, \<lambda>_. \<lparr>g_next = None, g_prev = None\<rparr>)))
   of (p', h') \<Rightarrow> dlist h' p' None [24]"
proof -
  let ?h = "\<lambda>_. \<lparr>g_next = None, g_prev = None\<rparr>"
  obtain p1 h1 where 1: "AddToChain 16 (None, ?h) = (p1, h1)" by (cases "AddToChain 16 (None, ?h)")
  have "dlist h1 p1 None [16]" using gc_chain_operations [of ?h None "[]" 16] 1 by simp
  moreover obtain p2 h2 where 2: "AddToChain 24 (p1, h1) = (p2, h2)" by (cases "AddToChain 24 (p1, h1)")
  ultimately have "dlist h2 p2 None [24, 16]" using gc_chain_operations [of h1 p1 "[16]" 24] by simp
  from gc_chain_operations [OF this, of 16] 1 2 show ?thesis by (auto split: prod.splits)
qed

end
