(* ===== verification/Opcodes.thy ===== *)
theory Opcodes
  imports Prelude
begin

text \<open>
  Instructions of \<^verbatim>\<open>squirrel/sqopcodes.h\<close>: the operations, their byte codes and the
  packing of an instruction's arguments into one signed 32-bit and three unsigned
  8-bit fields.
\<close>

datatype SQOpcode =
    OP_LINE | OP_LOAD | OP_LOADINT | OP_LOADFLOAT | OP_DLOAD | OP_TAILCALL | OP_CALL | OP_PREPCALL
  | OP_PREPCALLK | OP_GETK | OP_MOVE | OP_NEWSLOT | OP_DELETE | OP_SET | OP_GET | OP_EQ | OP_NE
  | OP_ADD | OP_SUB | OP_MUL | OP_DIV | OP_MOD | OP_BITW | OP_RETURN | OP_LOADNULLS | OP_LOADROOT
  | OP_LOADBOOL | OP_DMOVE | OP_JMP | OP_JCMP | OP_JZ | OP_SETOUTER | OP_GETOUTER | OP_NEWOBJ
  | OP_APPENDARRAY | OP_COMPARITH | OP_INC | OP_INCL | OP_PINC | OP_PINCL | OP_CMP | OP_EXISTS
  | OP_INSTANCEOF | OP_AND | OP_OR | OP_NEG | OP_NOT | OP_BWNOT | OP_CLOSURE | OP_YIELD | OP_RESUME
  | OP_FOREACH | OP_POSTFOREACH | OP_CLONE | OP_TYPEOF | OP_PUSHTRAP | OP_POPTRAP | OP_THROW
  | OP_NEWSLOTA | OP_GETBASE | OP_CLOSE | OP_DYNAMICCAST

text \<open>The enumeration numbers its constants consecutively from zero, in this order.\<close>

definition all_opcodes :: "SQOpcode list" where
  "all_opcodes =
    [OP_LINE, OP_LOAD, OP_LOADINT, OP_LOADFLOAT, OP_DLOAD, OP_TAILCALL, OP_CALL, OP_PREPCALL,
     OP_PREPCALLK, OP_GETK, OP_MOVE, OP_NEWSLOT, OP_DELETE, OP_SET, OP_GET, OP_EQ, OP_NE,
     OP_ADD, OP_SUB, OP_MUL, OP_DIV, OP_MOD, OP_BITW, OP_RETURN, OP_LOADNULLS, OP_LOADROOT,
     OP_LOADBOOL, OP_DMOVE, OP_JMP, OP_JCMP, OP_JZ, OP_SETOUTER, OP_GETOUTER, OP_NEWOBJ,
     OP_APPENDARRAY, OP_COMPARITH, OP_INC, OP_INCL, OP_PINC, OP_PINCL, OP_CMP, OP_EXISTS,
     OP_INSTANCEOF, OP_AND, OP_OR, OP_NEG, OP_NOT, OP_BWNOT, OP_CLOSURE, OP_YIELD, OP_RESUME,
     OP_FOREACH, OP_POSTFOREACH, OP_CLONE, OP_TYPEOF, OP_PUSHTRAP, OP_POPTRAP, OP_THROW,
     OP_NEWSLOTA, OP_GETBASE, OP_CLOSE, OP_DYNAMICCAST]"

fun index_of :: "'a \<Rightarrow> 'a list \<Rightarrow> nat" where
  "index_of x [] = 0"
| "index_of x (y # ys) = (if x = y then 0 else Suc (index_of x ys))"

definition opcode_byte :: "SQOpcode \<Rightarrow> 8 word" where
  "opcode_byte opc = of_nat (index_of opc all_opcodes)"

definition byte_opcode :: "8 word \<Rightarrow> SQOpcode option" where
  "byte_opcode b = (if unat b < length all_opcodes then Some (all_opcodes ! unat b) else None)"

lemma length_all_opcodes: "length all_opcodes = 62"
  by (simp add: all_opcodes_def)

lemma byte_opcode_inverse [simp]: "byte_opcode (opcode_byte opc) = Some opc"
  by (cases opc) (simp_all add: byte_opcode_def opcode_byte_def all_opcodes_def)

definition MAX_FUNC_STACKSIZE :: int where "MAX_FUNC_STACKSIZE = 0xFF"
definition MAX_LITERALS :: int where "MAX_LITERALS = 0x7FFFFFFF"

text \<open>What the third argument of an array append says of its second.\<close>

definition AAT_STACK :: "8 word" where "AAT_STACK = 0"
definition AAT_LITERAL :: "8 word" where "AAT_LITERAL = 1"
definition AAT_INT :: "8 word" where "AAT_INT = 2"
definition AAT_FLOAT :: "8 word" where "AAT_FLOAT = 3"
definition AAT_BOOL :: "8 word" where "AAT_BOOL = 4"

record sqinstruction =
  i_arg1 :: "32 word"
  i_op :: SQOpcode
  i_arg0 :: "8 word"
  i_arg2 :: "8 word"
  i_arg3 :: "8 word"

definition mk_instr :: "SQOpcode \<Rightarrow> int \<Rightarrow> int \<Rightarrow> int \<Rightarrow> int \<Rightarrow> sqinstruction" where
  "mk_instr opc a0 a1 a2 a3 =
     \<lparr>i_arg1 = word_of_int a1, i_op = opc, i_arg0 = word_of_int a0, i_arg2 = word_of_int a2,
      i_arg3 = word_of_int a3\<rparr>"

lemma mk_instr_sel [simp]:
  "i_op (mk_instr opc a0 a1 a2 a3) = opc" "i_arg0 (mk_instr opc a0 a1 a2 a3) = word_of_int a0"
  "i_arg1 (mk_instr opc a0 a1 a2 a3) = word_of_int a1" "i_arg2 (mk_instr opc a0 a1 a2 a3) = word_of_int a2"
  "i_arg3 (mk_instr opc a0 a1 a2 a3) = word_of_int a3"
  by (simp_all add: mk_instr_def)

end
