(* ===== verification/Outcomes.thy ===== *)
theory Outcomes
  imports Prelude
begin

text \<open>
  How an operation ends: it is done with a result, or it fails with a message, or it
  does what the language does not define (an access outside a buffer, a negative size
  given to an allocation).  A sequence of operations stops at the first that is not done.
\<close>

datatype 'a outcome = Done 'a | Fail string | Undef

fun obind :: "'a outcome \<Rightarrow> ('a \<Rightarrow> 'b outcome) \<Rightarrow> 'b outcome" where
  "obind (Done x) f = f x"
| "obind (Fail e) f = Fail e"
| "obind Undef f = Undef"

fun of_option :: "'a option \<Rightarrow> 'a outcome" where
  "of_option (Some x) = Done x"
| "of_option None = Undef"

lemma obind_Done: "obind m f = Done y \<longleftrightarrow> (\<exists>x. m = Done x \<and> f x = Done y)"
  by (cases m) auto

lemma obind_assoc: "obind (obind m f) g = obind m (\<lambda>x. obind (f x) g)"
  by (cases m) auto

lemma obind_return [simp]: "obind m Done = m"
  by (cases m) auto

text \<open>Statements of a checked sequence, each a step from one state to the next.\<close>

fun steps :: "('s \<Rightarrow> 's outcome) list \<Rightarrow> 's \<Rightarrow> 's outcome" where
  "steps [] s = Done s"
| "steps (f # fs) s = obind (f s) (steps fs)"

lemma steps_append: "steps (fs @ gs) s = obind (steps fs s) (steps gs)"
proof (induction fs arbitrary: s)
  case (Cons f fs)
  then show ?case by (cases "f s") simp_all
qed simp

text \<open>
  What holds of the result when there is one.  An error is always allowed; the condition
  \<open>K\<close> is what rules out an undefined outcome.
\<close>

definition wp :: "bool \<Rightarrow> ('a \<Rightarrow> bool) \<Rightarrow> 'a outcome \<Rightarrow> bool" where
  "wp K Q m \<longleftrightarrow> (case m of Done x \<Rightarrow> Q x | Fail _ \<Rightarrow> True | Undef \<Rightarrow> \<not> K)"

lemma wp_simps [simp]: "wp K Q (Done x) = Q x" "wp K Q (Fail e)" "wp K Q Undef = (\<not> K)"
  by (simp_all add: wp_def)

lemma wp_bind: "wp K (\<lambda>x. wp K Q (f x)) m \<Longrightarrow> wp K Q (obind m f)"
  by (cases m) simp_all

lemma wp_bind2: "wp K R m \<Longrightarrow> (\<And>x. R x \<Longrightarrow> wp K Q (f x)) \<Longrightarrow> wp K Q (obind m f)"
  by (cases m) auto

lemma wp_mono: "wp K R m \<Longrightarrow> (\<And>x. R x \<Longrightarrow> Q x) \<Longrightarrow> wp K Q m"
  by (cases m) auto

lemma wp_DoneD: "wp K Q m \<Longrightarrow> m = Done x \<Longrightarrow> Q x"
  by simp

lemma wp_any [simp]: "wp False (\<lambda>_. True) m"
  by (cases m) simp_all

lemma wp_pass: "(\<And>x. wp False Q (f x)) \<Longrightarrow> wp False Q (obind m f)"
  by (rule wp_bind2 [of _ "\<lambda>_. True"]) simp_all

lemma wp_if: "(b \<Longrightarrow> wp K Q m) \<Longrightarrow> (\<not> b \<Longrightarrow> wp K Q m') \<Longrightarrow> wp K Q (if b then m else m')"
  by simp

end
