(* ===== verification/FuncState.thy ===== *)
theory FuncState
  imports TableOps Opcodes Outcomes
begin

text \<open>
  The function state of the compiler, \<^verbatim>\<open>squirrel/sqfuncstate.cpp\<close>: literals, the
  virtual stack of locals and temporaries, captured variables, line information
  and the instruction buffer with its peephole optimizer.

  The vectors of the code are lists here (theory \<open>Vectors\<close> shows that a vector is
  one).  A chain of nested function states is a list, the innermost first.  A
  compiler error leaves the compiler by a long jump and is a failure of the operation.
\<close>

section \<open>State\<close>

datatype outertype = otLOCAL | otOUTER

record sqoutervar =
  ov_type :: outertype
  ov_name :: sqobj
  ov_src :: sqobj

record sqlocalvarinfo =
  lv_name :: sqobj
  lv_start_op :: "64 word"
  lv_end_op :: "64 word"
  lv_pos :: "64 word"

record sqlineinfo =
  li_line :: int
  li_op :: int

definition lvi_new :: sqlocalvarinfo where
  "lvi_new = \<lparr>lv_name = ONull, lv_start_op = 0, lv_end_op = 0, lv_pos = 0\<rparr>"

definition UINT_MINUS_ONE :: "64 word" where "UINT_MINUS_ONE = 0xFFFFFFFFFFFFFFFF"

record funcstate =
  fs_returnexp :: int
  fs_vlocals :: "sqlocalvarinfo list"
  fs_targetstack :: "int list"
  fs_stacksize :: int
  fs_varparams :: bool
  fs_bgenerator :: bool
  fs_functions :: "sqobj list"
  fs_parameters :: "sqobj list"
  fs_outervalues :: "sqoutervar list"
  fs_instructions :: "sqinstruction list"
  fs_localvarinfos :: "sqlocalvarinfo list"
  fs_literals :: sqtable
  fs_strings :: sqtable
  fs_name :: sqobj
  fs_sourcename :: sqobj
  fs_nliterals :: int
  fs_lineinfos :: "sqlineinfo list"
  fs_defaultparams :: "int list"
  fs_lastline :: int
  fs_traps :: int
  fs_outers :: int
  fs_optimization :: bool

text \<open>The constructor leaves the name fields null, as their own constructor does.\<close>

definition funcstate_new :: funcstate where
  "funcstate_new =
     \<lparr>fs_returnexp = 0, fs_vlocals = [], fs_targetstack = [], fs_stacksize = 0,
      fs_varparams = False, fs_bgenerator = False, fs_functions = [], fs_parameters = [],
      fs_outervalues = [], fs_instructions = [], fs_localvarinfos = [],
      fs_literals = SQTable_new 0, fs_strings = SQTable_new 0, fs_name = ONull,
      fs_sourcename = ONull, fs_nliterals = 0, fs_lineinfos = [], fs_defaultparams = [],
      fs_lastline = 0, fs_traps = 0, fs_outers = 0, fs_optimization = True\<rparr>"

section \<open>Constants\<close>

definition GetConstant :: "sqobj \<Rightarrow> funcstate \<Rightarrow> (int \<times> funcstate) outcome" where
  "GetConstant cons fs =
     obind (of_option (Table_Get (\<lambda>_. ONull) (fs_literals fs) cons)) (\<lambda>r.
       case r of
         Some val \<Rightarrow> Done (case val of OInteger i \<Rightarrow> sint i | _ \<Rightarrow> 0, fs)
       | None \<Rightarrow>
           obind (of_option (Table_NewSlot (fs_literals fs) cons (OInteger (word_of_int (fs_nliterals fs)))))
             (\<lambda>(b, t).
               let n = fs_nliterals fs + 1;
                   fs' = fs\<lparr>fs_literals := t, fs_nliterals := n\<rparr> in
               if n > MAX_LITERALS then Fail ''internal compiler error: too many literals''
               else Done (fs_nliterals fs, fs')))"

section \<open>Instructions by position\<close>

text \<open>The arguments are converted as the casts do; an argument number above 4 is ignored.\<close>

definition SetIntructionParams :: "nat \<Rightarrow> int \<Rightarrow> int \<Rightarrow> int \<Rightarrow> int \<Rightarrow> funcstate \<Rightarrow> funcstate outcome" where
  "SetIntructionParams pos a0 a1 a2 a3 fs =
     (if pos < length (fs_instructions fs)
      then Done (fs\<lparr>fs_instructions := (fs_instructions fs)[pos := (fs_instructions fs ! pos)
             \<lparr>i_arg0 := word_of_int a0, i_arg1 := word_of_int a1, i_arg2 := word_of_int a2,
              i_arg3 := word_of_int a3\<rparr>]\<rparr>)
      else Undef)"

definition SetIntructionParam :: "nat \<Rightarrow> int \<Rightarrow> int \<Rightarrow> funcstate \<Rightarrow> funcstate outcome" where
  "SetIntructionParam pos arg val fs =
     (let upd = (if arg = 0 then i_arg0_update (\<lambda>_. word_of_int val)
                 else if arg = 1 \<or> arg = 4 then i_arg1_update (\<lambda>_. word_of_int val)
                 else if arg = 2 then i_arg2_update (\<lambda>_. word_of_int val)
                 else if arg = 3 then i_arg3_update (\<lambda>_. word_of_int val)
                 else id) in
      if pos < length (fs_instructions fs)
      then Done (fs\<lparr>fs_instructions := (fs_instructions fs)[pos := upd (fs_instructions fs ! pos)]\<rparr>)
      else if 0 \<le> arg \<and> arg \<le> 4 then Undef else Done fs)"

definition GetInstruction :: "nat \<Rightarrow> funcstate \<Rightarrow> sqinstruction outcome" where
  "GetInstruction pos fs =
     (if pos < length (fs_instructions fs) then Done (fs_instructions fs ! pos) else Undef)"

definition PopInstructions :: "nat \<Rightarrow> funcstate \<Rightarrow> funcstate outcome" where
  "PopInstructions n fs =
     (if n \<le> length (fs_instructions fs)
      then Done (fs\<lparr>fs_instructions := take (length (fs_instructions fs) - n) (fs_instructions fs)\<rparr>)
      else Undef)"

definition GetCurrentPos :: "funcstate \<Rightarrow> int" where
  "GetCurrentPos fs = int (length (fs_instructions fs)) - 1"

definition SnoozeOpt :: "funcstate \<Rightarrow> funcstate" where
  "SnoozeOpt fs = fs\<lparr>fs_optimization := False\<rparr>"

definition AddDefaultParam :: "int \<Rightarrow> funcstate \<Rightarrow> funcstate" where
  "AddDefaultParam trg fs = fs\<lparr>fs_defaultparams := fs_defaultparams fs @ [trg]\<rparr>"

section \<open>The virtual stack\<close>

definition AllocStackPos :: "funcstate \<Rightarrow> (int \<times> funcstate) outcome" where
  "AllocStackPos fs =
     (let npos = int (length (fs_vlocals fs));
          fs1 = fs\<lparr>fs_vlocals := fs_vlocals fs @ [lvi_new]\<rparr> in
      if int (length (fs_vlocals fs1)) > fs_stacksize fs1
      then (if fs_stacksize fs1 > MAX_FUNC_STACKSIZE
            then Fail ''internal compiler error: too many locals''
            else Done (npos, fs1\<lparr>fs_stacksize := int (length (fs_vlocals fs1))\<rparr>))
      else Done (npos, fs1))"

definition PushTarget :: "int \<Rightarrow> funcstate \<Rightarrow> (int \<times> funcstate) outcome" where
  "PushTarget n fs =
     (if n \<noteq> - 1 then Done (n, fs\<lparr>fs_targetstack := fs_targetstack fs @ [n]\<rparr>)
      else obind (AllocStackPos fs) (\<lambda>(m, fs').
             Done (m, fs'\<lparr>fs_targetstack := fs_targetstack fs' @ [m]\<rparr>)))"

definition GetUpTarget :: "nat \<Rightarrow> funcstate \<Rightarrow> int outcome" where
  "GetUpTarget n fs =
     (if n < length (fs_targetstack fs)
      then Done (fs_targetstack fs ! (length (fs_targetstack fs) - 1 - n)) else Undef)"

definition TopTarget :: "funcstate \<Rightarrow> int outcome" where
  "TopTarget fs = (if fs_targetstack fs = [] then Undef else Done (last (fs_targetstack fs)))"

definition PopTarget :: "funcstate \<Rightarrow> (int \<times> funcstate) outcome" where
  "PopTarget fs =
     (if fs_targetstack fs = [] then Undef
      else (let npos = last (fs_targetstack fs) in
        if 0 \<le> npos \<and> npos < int (length (fs_vlocals fs))
        then Done (npos, fs\<lparr>fs_vlocals := (if lv_name (fs_vlocals fs ! nat npos) = ONull
                              then butlast (fs_vlocals fs) else fs_vlocals fs),
                            fs_targetstack := butlast (fs_targetstack fs)\<rparr>)
        else Undef))"

definition GetStackSize :: "funcstate \<Rightarrow> int" where
  "GetStackSize fs = int (length (fs_vlocals fs))"

text \<open>The loop over the locals from the top down to the given size.\<close>

definition CountOuters :: "nat \<Rightarrow> funcstate \<Rightarrow> int" where
  "CountOuters stacksize fs =
     int (length (filter (\<lambda>lvi. lv_end_op lvi = UINT_MINUS_ONE) (drop stacksize (fs_vlocals fs))))"

function set_stack_loop :: "nat \<Rightarrow> funcstate \<Rightarrow> funcstate" where
  "set_stack_loop n fs =
     (if length (fs_vlocals fs) > n
      then (let lvi = last (fs_vlocals fs);
                fs1 = (if lv_name lvi \<noteq> ONull
                       then fs\<lparr>fs_outers := (if lv_end_op lvi = UINT_MINUS_ONE then fs_outers fs - 1
                                             else fs_outers fs),
                               fs_localvarinfos := fs_localvarinfos fs @
                                 [lvi\<lparr>lv_end_op := word_of_int (GetCurrentPos fs)\<rparr>]\<rparr>
                       else fs)
            in set_stack_loop n (fs1\<lparr>fs_vlocals := butlast (fs_vlocals fs)\<rparr>))
      else fs)"
  by pat_completeness auto
termination by (relation "measure (\<lambda>(n, fs). length (fs_vlocals fs))") auto

declare set_stack_loop.simps [simp del]

definition SetStackSize :: "nat \<Rightarrow> funcstate \<Rightarrow> funcstate" where
  "SetStackSize n fs = set_stack_loop n fs"

definition IsLocal :: "nat \<Rightarrow> funcstate \<Rightarrow> bool" where
  "IsLocal stkpos fs \<longleftrightarrow>
     stkpos < length (fs_vlocals fs) \<and> lv_name (fs_vlocals fs ! stkpos) \<noteq> ONull"

definition PushLocalVariable :: "sqobj \<Rightarrow> funcstate \<Rightarrow> int \<times> funcstate" where
  "PushLocalVariable name fs =
     (let pos = int (length (fs_vlocals fs));
          lvi = \<lparr>lv_name = name, lv_start_op = word_of_int (GetCurrentPos fs + 1), lv_end_op = 0,
                 lv_pos = of_nat (length (fs_vlocals fs))\<rparr>;
          fs1 = fs\<lparr>fs_vlocals := fs_vlocals fs @ [lvi]\<rparr> in
      (pos, if int (length (fs_vlocals fs1)) > fs_stacksize fs1
            then fs1\<lparr>fs_stacksize := int (length (fs_vlocals fs1))\<rparr> else fs1))"

definition AddParameter :: "sqobj \<Rightarrow> funcstate \<Rightarrow> funcstate" where
  "AddParameter name fs =
     (let fs1 = snd (PushLocalVariable name fs) in
      fs1\<lparr>fs_parameters := fs_parameters fs1 @ [name]\<rparr>)"

fun is_string :: "sqobj \<Rightarrow> bool" where
  "is_string (OString _) \<longleftrightarrow> True"
| "is_string _ \<longleftrightarrow> False"

fun local_loop :: "sqlocalvarinfo list \<Rightarrow> sqobj \<Rightarrow> nat \<Rightarrow> int" where
  "local_loop ls name 0 = - 1"
| "local_loop ls name (Suc locals) =
     (if is_string (lv_name (ls ! locals)) \<and> lv_name (ls ! locals) = name then int locals
      else local_loop ls name locals)"

definition GetLocalVariable :: "sqobj \<Rightarrow> funcstate \<Rightarrow> int" where
  "GetLocalVariable name fs = local_loop (fs_vlocals fs) name (length (fs_vlocals fs))"

definition MarkLocalAsOuter :: "nat \<Rightarrow> funcstate \<Rightarrow> funcstate" where
  "MarkLocalAsOuter pos fs =
     fs\<lparr>fs_vlocals := (fs_vlocals fs)[pos := (fs_vlocals fs ! pos)\<lparr>lv_end_op := UINT_MINUS_ONE\<rparr>],
        fs_outers := fs_outers fs + 1\<rparr>"

section \<open>Captured variables\<close>

fun outer_index :: "sqoutervar list \<Rightarrow> sqobj \<Rightarrow> nat \<Rightarrow> int" where
  "outer_index [] name i = - 1"
| "outer_index (ov # ovs) name i = (if ov_name ov = name then int i else outer_index ovs name (Suc i))"

text \<open>The search through the enclosing functions; the states on the way may change.\<close>

fun GetOuterVariable :: "sqobj \<Rightarrow> funcstate list \<Rightarrow> int \<times> funcstate list" where
  "GetOuterVariable name [] = (- 1, [])"
| "GetOuterVariable name (fs # parents) =
     (let i = outer_index (fs_outervalues fs) name 0 in
      if i \<noteq> - 1 then (i, fs # parents)
      else (case parents of
         [] \<Rightarrow> (- 1, [fs])
       | p # ps \<Rightarrow>
           (let pos = GetLocalVariable name p in
            if pos = - 1 then
              (let (pos', parents') = GetOuterVariable name parents in
               if pos' \<noteq> - 1 then
                 (int (length (fs_outervalues fs)),
                  fs\<lparr>fs_outervalues := fs_outervalues fs @
                       [\<lparr>ov_type = otOUTER, ov_name = name, ov_src = OInteger (word_of_int pos')\<rparr>]\<rparr>
                    # parents')
               else (- 1, fs # parents'))
            else
              (int (length (fs_outervalues fs)),
               fs\<lparr>fs_outervalues := fs_outervalues fs @
                    [\<lparr>ov_type = otLOCAL, ov_name = name, ov_src = OInteger (word_of_int pos)\<rparr>]\<rparr>
                 # MarkLocalAsOuter (nat pos) p # ps))))"

section \<open>Adding instructions\<close>

definition last_instr :: "funcstate \<Rightarrow> sqinstruction" where
  "last_instr fs = last (fs_instructions fs)"

definition set_last :: "sqinstruction \<Rightarrow> funcstate \<Rightarrow> funcstate" where
  "set_last pi fs = fs\<lparr>fs_instructions := butlast (fs_instructions fs) @ [pi]\<rparr>"

definition push_instr :: "sqinstruction \<Rightarrow> funcstate \<Rightarrow> funcstate" where
  "push_instr i fs = fs\<lparr>fs_optimization := True, fs_instructions := fs_instructions fs @ [i]\<rparr>"

definition append_type :: "SQOpcode \<Rightarrow> 8 word option" where
  "append_type opc = (case opc of OP_LOAD \<Rightarrow> Some AAT_LITERAL | OP_LOADINT \<Rightarrow> Some AAT_INT
     | OP_LOADBOOL \<Rightarrow> Some AAT_BOOL | OP_LOADFLOAT \<Rightarrow> Some AAT_FLOAT | _ \<Rightarrow> None)"

definition retargetable :: "SQOpcode set" where
  "retargetable = {OP_GET, OP_ADD, OP_SUB, OP_MUL, OP_DIV, OP_MOD, OP_BITW,
                   OP_LOADINT, OP_LOADFLOAT, OP_LOADBOOL, OP_LOAD}"

text \<open>
  The optimizer's switch on the new instruction \<open>i\<close>, \<open>pi\<close> being the previous one.
  The case of a conditional jump that does not fuse falls through into the case of
  the stores.  \<open>has_parent\<close> is whether the function is nested.
\<close>

definition store_case :: "sqinstruction \<Rightarrow> funcstate \<Rightarrow> funcstate outcome" where
  "store_case i fs =
     Done (push_instr (if i_arg0 i = i_arg3 i then i\<lparr>i_arg0 := 0xFF\<rparr> else i) fs)"

definition optimize :: "bool \<Rightarrow> sqinstruction \<Rightarrow> sqinstruction \<Rightarrow> funcstate \<Rightarrow> funcstate outcome" where
  "optimize has_parent pi i fs =
     (case i_op i of
        OP_JZ \<Rightarrow>
          (if i_op pi = OP_CMP \<and> sint (i_arg1 pi) < 0xFF
           then Done (set_last (pi\<lparr>i_op := OP_JCMP, i_arg0 := ucast (i_arg1 pi), i_arg1 := i_arg1 i\<rparr>) fs)
           else store_case i fs)
      | OP_SET \<Rightarrow> store_case i fs
      | OP_NEWSLOT \<Rightarrow> store_case i fs
      | OP_SETOUTER \<Rightarrow>
          Done (push_instr (if i_arg0 i = i_arg2 i then i\<lparr>i_arg0 := 0xFF\<rparr> else i) fs)
      | OP_RETURN \<Rightarrow>
          (if has_parent \<and> uint (i_arg0 i) \<noteq> MAX_FUNC_STACKSIZE \<and> i_op pi = OP_CALL \<and>
              fs_returnexp fs < int (length (fs_instructions fs)) - 1
           then Done (push_instr i (set_last (pi\<lparr>i_op := OP_TAILCALL\<rparr>) fs))
           else if i_op pi = OP_CLOSE then Done (set_last i fs)
           else Done (push_instr i fs))
      | OP_GET \<Rightarrow>
          (if i_op pi = OP_LOAD \<and> i_arg0 pi = i_arg2 i \<and> \<not> IsLocal (unat (i_arg0 pi)) fs
           then Done (set_last (pi\<lparr>i_arg2 := ucast (i_arg1 i), i_op := OP_GETK, i_arg0 := i_arg0 i\<rparr>) fs)
           else Done (push_instr i fs))
      | OP_PREPCALL \<Rightarrow>
          (if i_op pi = OP_LOAD \<and> uint (i_arg0 pi) = sint (i_arg1 i) \<and> \<not> IsLocal (unat (i_arg0 pi)) fs
           then Done (set_last (pi\<lparr>i_op := OP_PREPCALLK, i_arg0 := i_arg0 i, i_arg2 := i_arg2 i,
                                  i_arg3 := i_arg3 i\<rparr>) fs)
           else Done (push_instr i fs))
      | OP_APPENDARRAY \<Rightarrow>
          (case append_type (i_op pi) of
             Some aat \<Rightarrow>
               (if uint (i_arg0 pi) = sint (i_arg1 i) \<and> \<not> IsLocal (unat (i_arg0 pi)) fs
                then Done (set_last (pi\<lparr>i_op := OP_APPENDARRAY, i_arg0 := i_arg0 i, i_arg2 := aat,
                                       i_arg3 := word_of_int MAX_FUNC_STACKSIZE\<rparr>) fs)
                else Done (push_instr i fs))
           | None \<Rightarrow> Done (push_instr i fs))
      | OP_MOVE \<Rightarrow>
          (if i_op pi \<in> retargetable \<and> uint (i_arg0 pi) = sint (i_arg1 i)
           then Done ((set_last (pi\<lparr>i_arg0 := i_arg0 i\<rparr>) fs)\<lparr>fs_optimization := False\<rparr>)
           else if i_op pi = OP_MOVE
           then Done (set_last (pi\<lparr>i_op := OP_DMOVE, i_arg2 := i_arg0 i, i_arg3 := ucast (i_arg1 i)\<rparr>) fs)
           else Done (push_instr i fs))
      | OP_LOAD \<Rightarrow>
          (if i_op pi = OP_LOAD \<and> sint (i_arg1 i) < 256
           then Done (set_last (pi\<lparr>i_op := OP_DLOAD, i_arg2 := i_arg0 i, i_arg3 := ucast (i_arg1 i)\<rparr>) fs)
           else Done (push_instr i fs))
      | OP_LOADNULLS \<Rightarrow>
          (if i_op pi = OP_LOADNULLS \<and> uint (i_arg0 pi) + sint (i_arg1 pi) = uint (i_arg0 i)
           then Done (set_last (pi\<lparr>i_arg1 := i_arg1 pi + 1, i_op := OP_LOADNULLS\<rparr>) fs)
           else Done (push_instr i fs))
      | OP_LINE \<Rightarrow>
          (if i_op pi = OP_LINE
           then (if fs_lineinfos fs = [] then Undef
                 else Done (push_instr i (fs\<lparr>fs_instructions := butlast (fs_instructions fs),
                                            fs_lineinfos := butlast (fs_lineinfos fs)\<rparr>)))
           else Done (push_instr i fs))
      | opc \<Rightarrow>
          (if opc = OP_EQ \<or> opc = OP_NE then
             (if i_op pi = OP_LOAD \<and> uint (i_arg0 pi) = sint (i_arg1 i) \<and> \<not> IsLocal (unat (i_arg0 pi)) fs
              then Done (set_last (pi\<lparr>i_op := i_op i, i_arg0 := i_arg0 i, i_arg2 := i_arg2 i,
                                     i_arg3 := word_of_int MAX_FUNC_STACKSIZE\<rparr>) fs)
              else Done (push_instr i fs))
           else Done (push_instr i fs)))"

definition AddInstruction :: "bool \<Rightarrow> sqinstruction \<Rightarrow> funcstate \<Rightarrow> funcstate outcome" where
  "AddInstruction has_parent i fs =
     (if fs_instructions fs \<noteq> [] \<and> fs_optimization fs
      then optimize has_parent (last_instr fs) i fs
      else Done (push_instr i fs))"

definition DiscardTarget :: "funcstate \<Rightarrow> funcstate outcome" where
  "DiscardTarget fs =
     obind (PopTarget fs) (\<lambda>(discardedtarget, fs1).
       let pi = last_instr fs1 in
       Done (if fs_instructions fs1 \<noteq> [] \<and> fs_optimization fs1 \<and>
                i_op pi \<in> {OP_SET, OP_NEWSLOT, OP_SETOUTER, OP_CALL} \<and>
                uint (i_arg0 pi) = discardedtarget
             then set_last (pi\<lparr>i_arg0 := 0xFF\<rparr>) fs1 else fs1))"

definition AddLineInfos :: "bool \<Rightarrow> int \<Rightarrow> bool \<Rightarrow> bool \<Rightarrow> funcstate \<Rightarrow> funcstate outcome" where
  "AddLineInfos has_parent line lineop force fs =
     (if fs_lastline fs \<noteq> line \<or> force
      then (let li = \<lparr>li_line = line, li_op = GetCurrentPos fs + 1\<rparr> in
        obind (if lineop then AddInstruction has_parent (mk_instr OP_LINE 0 line 0 0) fs else Done fs)
          (\<lambda>fs1. Done ((if fs_lastline fs1 \<noteq> line
                         then fs1\<lparr>fs_lineinfos := fs_lineinfos fs1 @ [li]\<rparr> else fs1)
                        \<lparr>fs_lastline := line\<rparr>)))
      else Done fs)"

section \<open>Strings, tables and the finished function\<close>

text \<open>Objects made by the compiler are kept alive in a table, keyed by themselves.\<close>

definition KeepObject :: "sqobj \<Rightarrow> funcstate \<Rightarrow> (sqobj \<times> funcstate) outcome" where
  "KeepObject ns fs =
     obind (of_option (Table_NewSlot (fs_strings fs) ns (OInteger 1)))
       (\<lambda>(b, t). Done (ns, fs\<lparr>fs_strings := t\<rparr>))"

definition CreateString :: "string \<Rightarrow> funcstate \<Rightarrow> (sqobj \<times> funcstate) outcome" where
  "CreateString s fs = KeepObject (OString s) fs"

definition CreateTable :: "addr \<Rightarrow> funcstate \<Rightarrow> (sqobj \<times> funcstate) outcome" where
  "CreateTable newtable fs = KeepObject (ORef KTable newtable) fs"

definition IsConstant :: "(addr \<Rightarrow> sqobj) \<Rightarrow> sqtable \<Rightarrow> sqobj \<Rightarrow> sqobj option option" where
  "IsConstant wr consts name = Table_Get wr consts name"

record sqfuncproto =
  fp_sourcename :: sqobj
  fp_name :: sqobj
  fp_stacksize :: int
  fp_bgenerator :: bool
  fp_varparams :: int
  fp_localvarinfos :: "sqlocalvarinfo list"
  fp_lineinfos :: "sqlineinfo list"
  fp_literals :: "sqobj list"
  fp_parameters :: "sqobj list"
  fp_functions :: "sqobj list"
  fp_outervalues :: "sqoutervar list"
  fp_defaultparams :: "int list"
  fp_instructions :: "sqinstruction list"

text \<open>The loop that puts every literal at its index; an index out of range is undefined.\<close>

fun fill_literals :: "(sqobj \<times> sqobj) list \<Rightarrow> sqobj list \<Rightarrow> sqobj list outcome" where
  "fill_literals [] lits = Done lits"
| "fill_literals ((key, val) # kvs) lits =
     (case val of
        OInteger i \<Rightarrow> (if unat i < length lits then fill_literals kvs (lits[unat i := key]) else Undef)
      | _ \<Rightarrow> Undef)"

definition BuildProto :: "funcstate \<Rightarrow> sqfuncproto outcome" where
  "BuildProto fs =
     obind (of_option (Table_iterate (Suc (numofnodes (fs_literals fs))) (\<lambda>_. ONull) (fs_literals fs)
                         False ONull)) (\<lambda>kvs.
     obind (fill_literals kvs (replicate (nat (fs_nliterals fs)) ONull)) (\<lambda>lits.
     Done \<lparr>fp_sourcename = fs_sourcename fs, fp_name = fs_name fs, fp_stacksize = fs_stacksize fs,
           fp_bgenerator = fs_bgenerator fs, fp_varparams = (if fs_varparams fs then 1 else 0),
           fp_localvarinfos = fs_localvarinfos fs, fp_lineinfos = fs_lineinfos fs,
           fp_literals = lits, fp_parameters = fs_parameters fs, fp_functions = fs_functions fs,
           fp_outervalues = fs_outervalues fs, fp_defaultparams = fs_defaultparams fs,
           fp_instructions = fs_instructions fs\<rparr>))"

end
