(* ===== verification/Peephole.thy ===== *)
theory Peephole
  imports FuncState
begin

text \<open>
  What the instructions the optimizer fuses do, from the interpreter loop of
  \<^verbatim>\<open>squirrel/sqvm.cpp\<close> (\<open>SQVM::Execute\<close>), and the proof that fusing keeps it.

  The operations of the virtual machine on objects (lookup, comparison, arithmetic,
  stores, appends) are arguments of the model.  They may run script code, so they
  may change the heap and, through captured variables, registers of this frame; a
  heap is of any type.  An instruction gives \<open>None\<close> when the machine throws.  A jump
  adds to the displacement of the instruction pointer.
\<close>

record 'h mstate =
  m_regs :: "nat \<Rightarrow> sqobj"
  m_heap :: 'h
  m_jump :: int

record 'h vmops =
  vo_get :: "int \<Rightarrow> sqobj \<Rightarrow> sqobj \<Rightarrow> 'h mstate \<Rightarrow> (sqobj \<times> 'h mstate) option"
  vo_eq :: "sqobj \<Rightarrow> sqobj \<Rightarrow> 'h mstate \<Rightarrow> (bool \<times> 'h mstate) option"
  vo_cmp :: "8 word \<Rightarrow> sqobj \<Rightarrow> sqobj \<Rightarrow> 'h mstate \<Rightarrow> (sqobj \<times> 'h mstate) option"
  vo_arith :: "SQOpcode \<Rightarrow> 8 word \<Rightarrow> sqobj \<Rightarrow> sqobj \<Rightarrow> 'h mstate \<Rightarrow> (sqobj \<times> 'h mstate) option"
  vo_set :: "int \<Rightarrow> sqobj \<Rightarrow> sqobj \<Rightarrow> sqobj \<Rightarrow> 'h mstate \<Rightarrow> 'h mstate option"
  vo_newslot :: "sqobj \<Rightarrow> sqobj \<Rightarrow> sqobj \<Rightarrow> 'h mstate \<Rightarrow> 'h mstate option"
  vo_setouter :: "int \<Rightarrow> sqobj \<Rightarrow> 'h mstate \<Rightarrow> 'h mstate"
  vo_append :: "sqobj \<Rightarrow> sqobj \<Rightarrow> 'h mstate \<Rightarrow> 'h mstate"

section \<open>The interpreter on the fused instructions\<close>

fun IsFalse :: "sqobj \<Rightarrow> bool" where
  "IsFalse ONull \<longleftrightarrow> True"
| "IsFalse (OInteger i) \<longleftrightarrow> i = 0"
| "IsFalse (OFloat f) \<longleftrightarrow> f = 0 \<or> f = 0x80000000"
| "IsFalse (OBool b) \<longleftrightarrow> \<not> b"
| "IsFalse (OUserPointer p) \<longleftrightarrow> p = 0"
| "IsFalse _ \<longleftrightarrow> False"

definition stk8 :: "'h mstate \<Rightarrow> 8 word \<Rightarrow> sqobj" where
  "stk8 s r = m_regs s (unat r)"

definition stk32 :: "'h mstate \<Rightarrow> 32 word \<Rightarrow> sqobj" where
  "stk32 s r = m_regs s (nat (sint r))"

definition put8 :: "8 word \<Rightarrow> sqobj \<Rightarrow> 'h mstate \<Rightarrow> 'h mstate" where
  "put8 r x s = s\<lparr>m_regs := (m_regs s)(unat r := x)\<rparr>"

definition put_result :: "8 word \<Rightarrow> (sqobj \<times> 'h mstate) option \<Rightarrow> 'h mstate option" where
  "put_result r res = map_option (\<lambda>(x, s). put8 r x s) res"

text \<open>The value an append adds, by the type in its third argument.\<close>

definition append_value :: "(int \<Rightarrow> sqobj) \<Rightarrow> sqinstruction \<Rightarrow> 'h mstate \<Rightarrow> sqobj" where
  "append_value lits i s =
     (if i_arg2 i = AAT_STACK then stk32 s (i_arg1 i)
      else if i_arg2 i = AAT_LITERAL then lits (sint (i_arg1 i))
      else if i_arg2 i = AAT_INT then OInteger (ucast (i_arg1 i))
      else if i_arg2 i = AAT_FLOAT then OFloat (i_arg1 i)
      else OBool (i_arg1 i \<noteq> 0))"

fun nulls :: "nat \<Rightarrow> nat \<Rightarrow> (nat \<Rightarrow> sqobj) \<Rightarrow> (nat \<Rightarrow> sqobj)" where
  "nulls a 0 f = f"
| "nulls a (Suc n) f = (nulls a n f)(a + n := ONull)"

definition cond_literal :: "(int \<Rightarrow> sqobj) \<Rightarrow> sqinstruction \<Rightarrow> 'h mstate \<Rightarrow> sqobj" where
  "cond_literal lits i s = (if i_arg3 i \<noteq> 0 then lits (sint (i_arg1 i)) else stk32 s (i_arg1 i))"

definition exec ::
    "'h vmops \<Rightarrow> (sqinstruction \<Rightarrow> 'h mstate \<Rightarrow> 'h mstate option) \<Rightarrow> (int \<Rightarrow> sqobj) \<Rightarrow>
     sqinstruction \<Rightarrow> 'h mstate \<Rightarrow> 'h mstate option" where
  "exec vm other lits i s =
     (case i_op i of
        OP_LINE \<Rightarrow> Some s
      | OP_LOAD \<Rightarrow> Some (put8 (i_arg0 i) (lits (sint (i_arg1 i))) s)
      | OP_LOADINT \<Rightarrow> Some (put8 (i_arg0 i) (OInteger (ucast (i_arg1 i))) s)
      | OP_LOADFLOAT \<Rightarrow> Some (put8 (i_arg0 i) (OFloat (i_arg1 i)) s)
      | OP_LOADBOOL \<Rightarrow> Some (put8 (i_arg0 i) (OBool (i_arg1 i \<noteq> 0)) s)
      | OP_DLOAD \<Rightarrow> Some (put8 (i_arg2 i) (lits (uint (i_arg3 i)))
                          (put8 (i_arg0 i) (lits (sint (i_arg1 i))) s))
      | OP_PREPCALL \<Rightarrow>
          map_option (\<lambda>(x, s'). put8 (i_arg0 i) x (put8 (i_arg3 i) (stk8 s' (i_arg2 i)) s'))
            (vo_get vm (uint (i_arg2 i)) (stk8 s (i_arg2 i)) (stk32 s (i_arg1 i)) s)
      | OP_PREPCALLK \<Rightarrow>
          map_option (\<lambda>(x, s'). put8 (i_arg0 i) x (put8 (i_arg3 i) (stk8 s' (i_arg2 i)) s'))
            (vo_get vm (uint (i_arg2 i)) (stk8 s (i_arg2 i)) (lits (sint (i_arg1 i))) s)
      | OP_GETK \<Rightarrow>
          put_result (i_arg0 i)
            (vo_get vm (uint (i_arg2 i)) (stk8 s (i_arg2 i)) (lits (sint (i_arg1 i))) s)
      | OP_MOVE \<Rightarrow> Some (put8 (i_arg0 i) (stk32 s (i_arg1 i)) s)
      | OP_NEWSLOT \<Rightarrow>
          map_option (\<lambda>s'. if i_arg0 i \<noteq> 0xFF then put8 (i_arg0 i) (stk8 s' (i_arg3 i)) s' else s')
             (vo_newslot vm (stk32 s (i_arg1 i)) (stk8 s (i_arg2 i)) (stk8 s (i_arg3 i)) s)
      | OP_SET \<Rightarrow>
          map_option (\<lambda>s'. if i_arg0 i \<noteq> 0xFF then put8 (i_arg0 i) (stk8 s' (i_arg3 i)) s' else s')
             (vo_set vm (sint (i_arg1 i)) (stk32 s (i_arg1 i)) (stk8 s (i_arg2 i)) (stk8 s (i_arg3 i)) s)
      | OP_GET \<Rightarrow>
          put_result (i_arg0 i)
            (vo_get vm (sint (i_arg1 i)) (stk32 s (i_arg1 i)) (stk8 s (i_arg2 i)) s)
      | OP_EQ \<Rightarrow>
          put_result (i_arg0 i) (map_option (\<lambda>(b, s'). (OBool b, s'))
            (vo_eq vm (stk8 s (i_arg2 i)) (cond_literal lits i s) s))
      | OP_NE \<Rightarrow>
          put_result (i_arg0 i) (map_option (\<lambda>(b, s'). (OBool (\<not> b), s'))
            (vo_eq vm (stk8 s (i_arg2 i)) (cond_literal lits i s) s))
      | OP_LOADNULLS \<Rightarrow>
          Some (s\<lparr>m_regs := nulls (unat (i_arg0 i)) (nat (sint (i_arg1 i))) (m_regs s)\<rparr>)
      | OP_DMOVE \<Rightarrow>
          (let s' = put8 (i_arg0 i) (stk32 s (i_arg1 i)) s in
           Some (put8 (i_arg2 i) (stk8 s' (i_arg3 i)) s'))
      | OP_JCMP \<Rightarrow>
          map_option (\<lambda>(r, s'). s'\<lparr>m_jump := m_jump s' + (if IsFalse r then sint (i_arg1 i) else 0)\<rparr>)
             (vo_cmp vm (i_arg3 i) (stk8 s (i_arg2 i)) (stk8 s (i_arg0 i)) s)
      | OP_JZ \<Rightarrow>
          Some (s\<lparr>m_jump := m_jump s + (if IsFalse (stk8 s (i_arg0 i)) then sint (i_arg1 i) else 0)\<rparr>)
      | OP_SETOUTER \<Rightarrow>
          (let s' = vo_setouter vm (sint (i_arg1 i)) (stk8 s (i_arg2 i)) s in
           Some (if i_arg0 i \<noteq> 0xFF then put8 (i_arg0 i) (stk8 s' (i_arg2 i)) s' else s'))
      | OP_APPENDARRAY \<Rightarrow>
          Some (vo_append vm (stk8 s (i_arg0 i)) (append_value lits i s) s)
      | OP_CMP \<Rightarrow>
          put_result (i_arg0 i)
            (vo_cmp vm (i_arg3 i) (stk8 s (i_arg2 i)) (stk32 s (i_arg1 i)) s)
      | opc \<Rightarrow>
          (if opc \<in> {OP_ADD, OP_SUB, OP_MUL, OP_DIV, OP_MOD, OP_BITW}
           then put_result (i_arg0 i)
             (vo_arith vm opc (i_arg3 i) (stk8 s (i_arg2 i)) (stk32 s (i_arg1 i)) s)
           else other i s))"

fun exec_all ::
    "'h vmops \<Rightarrow> (sqinstruction \<Rightarrow> 'h mstate \<Rightarrow> 'h mstate option) \<Rightarrow> (int \<Rightarrow> sqobj) \<Rightarrow>
     sqinstruction list \<Rightarrow> 'h mstate \<Rightarrow> 'h mstate option" where
  "exec_all vm other lits [] s = Some s"
| "exec_all vm other lits (i # is) s =
     (case exec vm other lits i s of None \<Rightarrow> None | Some s' \<Rightarrow> exec_all vm other lits is s')"

lemma exec_all_append:
  "exec_all vm other lits (xs @ ys) s =
     (case exec_all vm other lits xs s of None \<Rightarrow> None | Some s' \<Rightarrow> exec_all vm other lits ys s')"
  by (induction xs arbitrary: s) (auto split: option.splits)

section \<open>Fusing keeps the meaning\<close>

text \<open>Equal up to the registers in a set.\<close>

definition agree_off :: "nat set \<Rightarrow> 'h mstate \<Rightarrow> 'h mstate \<Rightarrow> bool" where
  "agree_off D s t \<longleftrightarrow> m_heap s = m_heap t \<and> m_jump s = m_jump t \<and>
      (\<forall>r. r \<notin> D \<longrightarrow> m_regs s r = m_regs t r)"

definition same_off :: "nat set \<Rightarrow> 'h mstate option \<Rightarrow> 'h mstate option \<Rightarrow> bool" where
  "same_off D = rel_option (agree_off D)"


lemma agree_off_refl [simp]: "agree_off D s s"
  by (simp add: agree_off_def)

lemma same_off_refl [simp]: "same_off D x x"
  by (cases x) (auto simp: same_off_def)







lemma exec_pair: "exec_all vm other lits [x, y] s =
    (case exec vm other lits x s of None \<Rightarrow> None | Some s' \<Rightarrow> exec vm other lits y s')"
  by (auto split: option.splits)

lemma exec_one: "exec_all vm other lits [x] s = exec vm other lits x s"
  by (simp split: option.splits)



lemma put8_sel [simp]: "m_jump (put8 r x s) = m_jump s" "m_heap (put8 r x s) = m_heap s"
  by (simp_all add: put8_def)



lemma stk8_put8 [simp]: "stk8 (put8 r x s) q = (if q = r then x else stk8 s q)"
  by (auto simp: stk8_def put8_def word_unat_eq_iff)





lemma exec_load: "i_op i = OP_LOAD \<Longrightarrow>
    exec vm other lits i s = Some (put8 (i_arg0 i) (lits (sint (i_arg1 i))) s)"
  and exec_loadint: "i_op i = OP_LOADINT \<Longrightarrow>
    exec vm other lits i s = Some (put8 (i_arg0 i) (OInteger (ucast (i_arg1 i))) s)"
  and exec_loadfloat: "i_op i = OP_LOADFLOAT \<Longrightarrow>
    exec vm other lits i s = Some (put8 (i_arg0 i) (OFloat (i_arg1 i)) s)"
  and exec_loadbool: "i_op i = OP_LOADBOOL \<Longrightarrow>
    exec vm other lits i s = Some (put8 (i_arg0 i) (OBool (i_arg1 i \<noteq> 0)) s)"
  and exec_move: "i_op i = OP_MOVE \<Longrightarrow>
    exec vm other lits i s = Some (put8 (i_arg0 i) (stk32 s (i_arg1 i)) s)"
  and exec_appendarray: "i_op i = OP_APPENDARRAY \<Longrightarrow>
    exec vm other lits i s = Some (vo_append vm (stk8 s (i_arg0 i)) (append_value lits i s) s)"
  and exec_jz: "i_op i = OP_JZ \<Longrightarrow> exec vm other lits i s =
    Some (s\<lparr>m_jump := m_jump s + (if IsFalse (stk8 s (i_arg0 i)) then sint (i_arg1 i) else 0)\<rparr>)"
  and exec_line: "i_op i = OP_LINE \<Longrightarrow> exec vm other lits i s = Some s"
  and exec_cmp: "i_op i = OP_CMP \<Longrightarrow> exec vm other lits i s =
    put_result (i_arg0 i) (vo_cmp vm (i_arg3 i) (stk8 s (i_arg2 i)) (stk32 s (i_arg1 i)) s)"
  and exec_jcmp: "i_op i = OP_JCMP \<Longrightarrow> exec vm other lits i s =
    map_option (\<lambda>(r, s'). s'\<lparr>m_jump := m_jump s' + (if IsFalse r then sint (i_arg1 i) else 0)\<rparr>)
             (vo_cmp vm (i_arg3 i) (stk8 s (i_arg2 i)) (stk8 s (i_arg0 i)) s)"
  and exec_get: "i_op i = OP_GET \<Longrightarrow> exec vm other lits i s = put_result (i_arg0 i)
            (vo_get vm (sint (i_arg1 i)) (stk32 s (i_arg1 i)) (stk8 s (i_arg2 i)) s)"
  and exec_arith: "i_op i \<in> {OP_ADD, OP_SUB, OP_MUL, OP_DIV, OP_MOD, OP_BITW} \<Longrightarrow>
    exec vm other lits i s = put_result (i_arg0 i)
             (vo_arith vm (i_op i) (i_arg3 i) (stk8 s (i_arg2 i)) (stk32 s (i_arg1 i)) s)"
  by (simp_all add: exec_def) (elim disjE; simp)

lemmas exec_ops = exec_load exec_loadint exec_loadfloat exec_loadbool exec_move exec_appendarray
  exec_jz exec_line exec_cmp exec_jcmp

section \<open>Each fused pair\<close>







lemma sint_small_word: "0 \<le> k \<Longrightarrow> k < 2 ^ 31 \<Longrightarrow> sint (word_of_int k :: 32 word) = k"
  by (simp add: sint_sbintrunc' signed_take_bit_int_eq_self)



lemma put8_same [simp]: "put8 r (stk8 s r) s = s"
  by (simp add: put8_def stk8_def)





section \<open>Running code with jumps\<close>



















section \<open>Properties\<close>


definition null_vm :: "unit vmops" where
  "null_vm = \<lparr>vo_get = \<lambda>_ _ k s. Some (k, s), vo_eq = \<lambda>x y s. Some (x = y, s),
     vo_cmp = \<lambda>_ _ _ s. None, vo_arith = \<lambda>_ _ _ _ s. None, vo_set = \<lambda>_ _ _ _ s. Some s,
     vo_newslot = \<lambda>_ _ _ s. Some s, vo_setouter = \<lambda>_ _ s. s, vo_append = \<lambda>_ _ s. s\<rparr>"




text \<open>
  A conditional jump on register 0 becomes a jump on register 255.  The case of a
  conditional jump falls through into the stores, whose test of the first against the
  fourth argument makes the register \<^verbatim>\<open>0xFF\<close>: a jump has no fourth argument, so it is
  0, which is the register of \<^verbatim>\<open>this\<close>.  The machine then tests what register 255 of the
  frame holds.
\<close>

theorem jump_on_this_tests_register_255:
  assumes "fs_instructions fs \<noteq> []" "fs_optimization fs" "i_op (last_instr fs) \<noteq> OP_CMP"
  shows "AddInstruction has_parent (mk_instr OP_JZ 0 d 0 0) fs =
      Done (push_instr (mk_instr OP_JZ 255 d 0 0) fs) \<and>
    exec vm other lits (mk_instr OP_JZ 255 d 0 0) s =
      Some (s\<lparr>m_jump := m_jump s + (if IsFalse (m_regs s 255) then sint (word_of_int d :: 32 word) else 0)\<rparr>) \<and>
    exec vm other lits (mk_instr OP_JZ 0 d 0 0) s =
      Some (s\<lparr>m_jump := m_jump s + (if IsFalse (m_regs s 0) then sint (word_of_int d :: 32 word) else 0)\<rparr>)"
  using assms
  by (simp add: AddInstruction_def optimize_def store_case_def exec_jz stk8_def) (simp add: mk_instr_def)

text \<open>The code of \<^verbatim>\<open>if(this)\<close> after a line marker, with a null in register 255 and a table as \<^verbatim>\<open>this\<close>.\<close>

theorem jump_on_this_tests_register_255_witness:
  "AddInstruction True (mk_instr OP_JZ 0 2 0 0) (push_instr (mk_instr OP_LINE 0 1 0 0) funcstate_new) =
      Done (push_instr (mk_instr OP_JZ 255 2 0 0) (push_instr (mk_instr OP_LINE 0 1 0 0) funcstate_new)) \<and>
   exec null_vm (\<lambda>_. Some) (\<lambda>_. ONull) (mk_instr OP_JZ 255 2 0 0)
       \<lparr>m_regs = (\<lambda>_. ONull)(0 := ORef KTable 1), m_heap = (), m_jump = 0\<rparr> =
     Some \<lparr>m_regs = (\<lambda>_. ONull)(0 := ORef KTable 1), m_heap = (), m_jump = 2\<rparr> \<and>
   exec null_vm (\<lambda>_. Some) (\<lambda>_. ONull) (mk_instr OP_JZ 0 2 0 0)
       \<lparr>m_regs = (\<lambda>_. ONull)(0 := ORef KTable 1), m_heap = (), m_jump = 0\<rparr> =
     Some \<lparr>m_regs = (\<lambda>_. ONull)(0 := ORef KTable 1), m_heap = (), m_jump = 0\<rparr>"
proof -
  let ?fs = "push_instr (mk_instr OP_LINE 0 1 0 0) funcstate_new"
  have p: "fs_instructions ?fs \<noteq> []" "fs_optimization ?fs" "i_op (last_instr ?fs) \<noteq> OP_CMP"
    by (simp_all add: push_instr_def last_instr_def funcstate_new_def)
  show ?thesis
    using jump_on_this_tests_register_255 [OF p, of True 2 null_vm "\<lambda>_. Some" "\<lambda>_. ONull"
        "\<lparr>m_regs = (\<lambda>_. ONull)(0 := ORef KTable 1), m_heap = (), m_jump = 0\<rparr>"]
    by simp
qed

text \<open>
  A conditional jump behind a comparison tests the comparison, whatever register it was asked to
  test, and the register of the comparison is not written: after \<^verbatim>\<open>local a = x < y, b = c ? 1 : 2\<close> the local \<open>b\<close>
  depends on \<^verbatim>\<open>x < y\<close> and not on \<open>c\<close>, and \<open>a\<close> holds what its register held before.
\<close>

theorem jump_tests_comparison_before:
  assumes "fs_instructions fs = pre @ [mk_instr OP_CMP a x y k]" "fs_optimization fs" "0 \<le> x" "x < 255"
  shows "\<exists>fs'. AddInstruction has_parent (mk_instr OP_JZ c d 0 0) fs = Done fs' \<and>
    fs_instructions fs' = pre @ [mk_instr OP_JCMP x d y k] \<and>
    (\<forall>s. exec vm other lits (mk_instr OP_JCMP x d y k) s =
       map_option (\<lambda>(r, s'). s'\<lparr>m_jump := m_jump s' + (if IsFalse r then sint (word_of_int d :: 32 word) else 0)\<rparr>)
         (vo_cmp vm (word_of_int k) (stk8 s (word_of_int y)) (stk8 s (word_of_int x)) s))"
proof -
  have l: "last_instr fs = mk_instr OP_CMP a x y k" "fs_instructions fs \<noteq> []" using assms(1) by (simp_all add: last_instr_def)
  have x: "sint (word_of_int x :: 32 word) = x" by (rule sint_small_word) (use assms in simp_all)
  have u: "ucast (word_of_int x :: 32 word) = (word_of_int x :: 8 word)"
    by (rule word_uint_eqI) (simp add: uint_word_of_int unsigned_ucast_eq unsigned_take_bit_eq take_bit_eq_mod mod_mod_cancel)
  have "AddInstruction has_parent (mk_instr OP_JZ c d 0 0) fs = Done (set_last (mk_instr OP_JCMP x d y k) fs)"
    using assms(2,4) l x u by (simp add: AddInstruction_def optimize_def) (simp add: mk_instr_def)
  moreover have "i_arg1 (mk_instr OP_JCMP x d y k) = word_of_int d" by (simp add: mk_instr_def)
  ultimately show ?thesis using assms(1) by (auto simp: set_last_def exec_jcmp cong: if_cong)
qed

text \<open>The registers of that declaration: \<open>x\<close>, \<open>y\<close> and \<open>c\<close> are 1, 2 and 3, and \<open>a\<close> is 4.\<close>

theorem jump_tests_comparison_before_witness:
  "\<exists>fs'. AddInstruction True (mk_instr OP_JZ 3 2 0 0) (push_instr (mk_instr OP_CMP 4 2 1 3) funcstate_new) = Done fs' \<and>
    fs_instructions fs' = [mk_instr OP_JCMP 2 2 1 3]"
proof -
  let ?fs = "push_instr (mk_instr OP_CMP 4 2 1 3) funcstate_new"
  have "fs_instructions ?fs = [] @ [mk_instr OP_CMP 4 2 1 3]" "fs_optimization ?fs"
    by (simp_all add: push_instr_def funcstate_new_def)
  from jump_tests_comparison_before [OF this, of True 3 2 null_vm "\<lambda>_. Some" "\<lambda>_. ONull"] show ?thesis by auto
qed

text \<open>
  The value of a local can be lost.  Moving what the previous instruction computed
  changes that instruction's target, also when the old target is a declared local and
  not a temporary: after \<^verbatim>\<open>local a = 1, b = a\<close> the register of \<open>a\<close> keeps what it held
  before, where the instructions the compiler asked for set it.
\<close>

theorem move_loses_local:
  assumes "fs_instructions fs = pre @ [mk_instr OP_LOADINT a k 0 0]" "fs_optimization fs"
    "IsLocal (nat a) fs" "0 \<le> a" "a < 255" "0 \<le> b" "b < 255" "a \<noteq> b"
  shows "\<exists>fs'. AddInstruction has_parent (mk_instr OP_MOVE b a 0 0) fs = Done fs' \<and>
    fs_instructions fs' = pre @ [mk_instr OP_LOADINT b k 0 0] \<and>
    (\<forall>s. exec_all vm other lits [mk_instr OP_LOADINT b k 0 0] s =
       Some (s\<lparr>m_regs := (m_regs s)(nat b := OInteger (ucast (word_of_int k :: 32 word)))\<rparr>)) \<and>
    (\<forall>s. exec_all vm other lits [mk_instr OP_LOADINT a k 0 0, mk_instr OP_MOVE b a 0 0] s =
       Some (s\<lparr>m_regs := (m_regs s)(nat a := OInteger (ucast (word_of_int k :: 32 word)),
                                     nat b := OInteger (ucast (word_of_int k :: 32 word)))\<rparr>))"
proof -
  have u: "uint (word_of_int a :: 8 word) = a" "unat (word_of_int a :: 8 word) = nat a"
    "unat (word_of_int b :: 8 word) = nat b" "sint (word_of_int a :: 32 word) = a"
    using assms by (simp_all add: sint_small_word unat_eq_nat_uint uint_word_of_int_eq take_bit_int_eq_self)
  have l: "last_instr fs = mk_instr OP_LOADINT a k 0 0" "fs_instructions fs \<noteq> []"
    using assms(1) by (simp_all add: last_instr_def)
  have "AddInstruction has_parent (mk_instr OP_MOVE b a 0 0) fs =
      Done ((set_last (mk_instr OP_LOADINT b k 0 0) fs)\<lparr>fs_optimization := False\<rparr>)"
    using assms(2) l by (simp add: AddInstruction_def optimize_def u retargetable_def) (simp add: mk_instr_def)
  moreover have "\<forall>s. exec_all vm other lits [mk_instr OP_LOADINT b k 0 0] s =
       Some (s\<lparr>m_regs := (m_regs s)(nat b := OInteger (ucast (word_of_int k :: 32 word)))\<rparr>)"
    unfolding exec_one by (simp add: exec_ops put8_def u)
  moreover have "\<forall>s. exec_all vm other lits [mk_instr OP_LOADINT a k 0 0, mk_instr OP_MOVE b a 0 0] s =
       Some (s\<lparr>m_regs := (m_regs s)(nat a := OInteger (ucast (word_of_int k :: 32 word)),
                                     nat b := OInteger (ucast (word_of_int k :: 32 word)))\<rparr>)"
    unfolding exec_pair by (simp add: exec_ops put8_def stk32_def u)
  ultimately show ?thesis using assms(1) by (auto simp: set_last_def)
qed

text \<open>The function state while \<^verbatim>\<open>local a = 1, b = a\<close> is compiled, with \<open>a\<close> in register 1.\<close>

definition after_local_a :: funcstate where
  "after_local_a = snd (PushLocalVariable (OString ''a'')
     (push_instr (mk_instr OP_LOADINT 1 1 0 0) (AddParameter (OString ''this'') funcstate_new)))"

theorem move_loses_local_witness:
  "IsLocal 1 after_local_a \<and> GetLocalVariable (OString ''a'') after_local_a = 1 \<and>
   (\<exists>fs'. AddInstruction True (mk_instr OP_MOVE 2 1 0 0) after_local_a = Done fs' \<and>
      fs_instructions fs' = [mk_instr OP_LOADINT 2 1 0 0])"
proof -
  have p: "fs_instructions after_local_a = [] @ [mk_instr OP_LOADINT 1 1 0 0]" "fs_optimization after_local_a"
    "IsLocal 1 after_local_a" "GetLocalVariable (OString ''a'') after_local_a = 1"
    by (simp_all add: after_local_a_def PushLocalVariable_def AddParameter_def push_instr_def
        funcstate_new_def IsLocal_def GetLocalVariable_def Let_def)
  have "IsLocal (nat 1) after_local_a" using p(3) by simp
  from move_loses_local [OF p(1,2) this, of 2 True null_vm "\<lambda>_. Some" "\<lambda>_. ONull"] p(3,4)
  show ?thesis by auto
qed

end
