(* ===== verification/FuncStateProps.thy ===== *)
theory FuncStateProps
  imports FuncState TableProps
begin

text \<open>
  What the function state promises the compiler: the literal pool, the stack of
  locals and temporaries, and the resolution of captured variables.
\<close>

section \<open>The literal pool\<close>

fun get_constants :: "sqobj list \<Rightarrow> funcstate \<Rightarrow> (int list \<times> funcstate) outcome" where
  "get_constants [] fs = Done ([], fs)"
| "get_constants (c # cs) fs =
     obind (GetConstant c fs) (\<lambda>(i, fs1).
     obind (get_constants cs fs1) (\<lambda>(is, fs2). Done (i # is, fs2)))"

text \<open>The pool holds the constants of a list, each at its position.\<close>

definition pool_map :: "sqobj list \<Rightarrow> sqobj \<Rightarrow> sqobj option" where
  "pool_map xs = map_of (zip xs (map (\<lambda>i. OInteger (of_nat i)) [0..<length xs]))"

definition pool_inv :: "sqobj list \<Rightarrow> funcstate \<Rightarrow> bool" where
  "pool_inv xs fs \<longleftrightarrow> table_inv (fs_literals fs) \<and> distinct xs \<and> ONull \<notin> set xs \<and>
     length xs < 2 ^ 31 \<and> fs_nliterals fs = int (length xs) \<and>
     table_map (fs_literals fs) = pool_map xs"

lemma pool_map_nth: "distinct xs \<Longrightarrow> i < length xs \<Longrightarrow> pool_map xs (xs ! i) = Some (OInteger (of_nat i))"
  unfolding pool_map_def by (subst map_of_zip_nth) auto

lemma pool_map_None: "c \<notin> set xs \<Longrightarrow> pool_map xs c = None"
  by (simp add: pool_map_def map_of_zip_is_None)

lemma pool_map_SomeD: "pool_map xs c = Some v \<Longrightarrow> \<exists>i<length xs. xs ! i = c \<and> v = OInteger (of_nat i)"
  unfolding pool_map_def by (drule map_of_SomeD) (auto simp: set_zip)

lemma map_of_snoc: "map_of kvs k = None \<Longrightarrow> map_of (kvs @ [(k, v)]) = (map_of kvs)(k \<mapsto> v)"
  by (induction kvs) (auto simp: fun_eq_iff split: if_splits)

lemma pool_map_snoc:
  "c \<notin> set xs \<Longrightarrow> pool_map (xs @ [c]) = (pool_map xs)(c \<mapsto> OInteger (of_nat (length xs)))"
proof -
  assume c: "c \<notin> set xs"
  have z: "zip (xs @ [c]) (map f [0..<length (xs @ [c])]) = zip xs (map f [0..<length xs]) @ [(c, f (length xs))]"
    for f :: "nat \<Rightarrow> sqobj" by (simp add: zip_append1)
  have "map_of (zip xs (map (\<lambda>i. OInteger (of_nat i)) [0..<length xs])) c = None"
    using pool_map_None [OF c] by (simp add: pool_map_def)
  then show ?thesis unfolding pool_map_def z by (rule map_of_snoc)
qed

lemma GetConstant_pool:
  assumes inv: "pool_inv xs fs" and c: "c \<noteq> ONull" and room: "length xs < 2 ^ 31 - 1"
  obtains i fs' ys where "GetConstant c fs = Done (int i, fs')" "pool_inv (xs @ ys) fs'"
    "i < length (xs @ ys)" "(xs @ ys) ! i = c" "ys = (if c \<in> set xs then [] else [c])"
proof (cases "c \<in> set xs")
  case True
  then obtain i where i: "i < length xs" "xs ! i = c" by (auto simp: in_set_conv_nth)
  with inv have "table_map (fs_literals fs) c = Some (OInteger (of_nat i))"
    using pool_map_nth [of xs i] by (auto simp: pool_inv_def)
  moreover have "sint (of_nat i :: sqint) = int i"
    using i inv by (intro sint_of_nat_small) (simp add: pool_inv_def)
  ultimately have "GetConstant c fs = Done (int i, fs)"
    using inv by (simp add: GetConstant_def Get_refines pool_inv_def)
  with i inv True show thesis by (intro that [of i fs "[]"]) auto
next
  case False
  with inv have n: "table_map (fs_literals fs) c = None" "table_inv (fs_literals fs)"
    by (auto simp: pool_inv_def pool_map_None)
  from tbl.put_cases [OF n(2) c] obtain b t where
    t: "Table_NewSlot (fs_literals fs) c (OInteger (word_of_int (fs_nliterals fs))) = Some (b, t)"
      "table_inv t" "table_map t = (table_map (fs_literals fs))(c \<mapsto> OInteger (word_of_int (fs_nliterals fs)))"
    by blast
  have "GetConstant c fs = Done (int (length xs),
      fs\<lparr>fs_literals := t, fs_nliterals := int (length xs) + 1\<rparr>)"
    using inv n room by (simp add: GetConstant_def Get_refines t(1) Let_def MAX_LITERALS_def)
      (simp add: pool_inv_def MAX_LITERALS_def)
  moreover have "pool_inv (xs @ [c]) (fs\<lparr>fs_literals := t, fs_nliterals := int (length xs) + 1\<rparr>)"
    using inv False c room t by (auto simp: pool_inv_def pool_map_snoc)
  ultimately show thesis using False by (intro that [of "length xs" _ "[c]"]) auto
qed

lemma get_constants_pool:
  "pool_inv xs fs \<Longrightarrow> ONull \<notin> set cs \<Longrightarrow> length xs + length cs < 2 ^ 31 \<Longrightarrow>
   \<exists>is fs' ys. get_constants cs fs = Done (map int is, fs') \<and> pool_inv (xs @ ys) fs' \<and>
     set (xs @ ys) = set xs \<union> set cs \<and> list_all2 (\<lambda>i c. i < length (xs @ ys) \<and> (xs @ ys) ! i = c) is cs"
proof (induction cs arbitrary: xs fs)
  case Nil
  then show ?case by (intro exI [of _ "[]"] exI [of _ fs] conjI) auto
next
  case (Cons c cs)
  from Cons.prems have c: "c \<noteq> ONull" "length xs < 2 ^ 31 - 1" by auto
  from GetConstant_pool [OF Cons.prems(1) this] obtain i fs1 ys where
    1: "GetConstant c fs = Done (int i, fs1)" "pool_inv (xs @ ys) fs1" "i < length (xs @ ys)"
      "(xs @ ys) ! i = c" "ys = (if c \<in> set xs then [] else [c])" by metis
  then have "length (xs @ ys) + length cs < 2 ^ 31" using Cons.prems(3) by auto
  from Cons.IH [OF 1(2) _ this] Cons.prems(2) obtain "is" fs2 zs where
    2: "get_constants cs fs1 = Done (map int is, fs2)" "pool_inv ((xs @ ys) @ zs) fs2"
      "set ((xs @ ys) @ zs) = set (xs @ ys) \<union> set cs"
      "list_all2 (\<lambda>i c. i < length ((xs @ ys) @ zs) \<and> ((xs @ ys) @ zs) ! i = c) is cs" by auto
  have "i < length (xs @ ys @ zs)" "(xs @ ys @ zs) ! i = c"
    using 1(3,4) by (auto simp: nth_append)
  with 1 2 show ?case
    by (intro exI [of _ "i # is"] exI [of _ fs2] exI [of _ "ys @ zs"] conjI)
      (auto split: if_splits)
qed

lemma fill_literals_pool:
  assumes "distinct (map fst kvs)" "\<forall>(k, v) \<in> set kvs. \<exists>i<length lits. v = OInteger (of_nat i) \<and> xs ! i = k"
    "length lits < 2 ^ 31" "length lits = length xs" "distinct xs"
  shows "\<exists>l. fill_literals kvs lits = Done l \<and> length l = length lits \<and>
     (\<forall>i<length lits. l ! i = (if xs ! i \<in> fst ` set kvs then xs ! i else lits ! i))"
  using assms
proof (induction kvs arbitrary: lits)
  case Nil
  then show ?case by simp
next
  case (Cons kv kvs)
  obtain k v where kv: "kv = (k, v)" by (cases kv)
  with Cons.prems(2) obtain i where i: "i < length lits" "v = OInteger (of_nat i)" "xs ! i = k" by auto
  have u: "unat (of_nat i :: sqint) = i" using i(1) Cons.prems(3) by (simp add: unat_of_nat take_bit_nat_eq_self)
  have "\<exists>l. fill_literals kvs (lits[i := k]) = Done l \<and> length l = length (lits[i := k]) \<and>
     (\<forall>j<length (lits[i := k]). l ! j = (if xs ! j \<in> fst ` set kvs then xs ! j else lits[i := k] ! j))"
    by (rule Cons.IH) (use Cons.prems in auto)
  then show ?case using i u Cons.prems(4,5)
    by (auto simp: kv nth_list_update nth_eq_iff_index_eq)
qed

lemma BuildProto_pool:
  assumes inv: "pool_inv xs fs" and small: "numofnodes (fs_literals fs) < 2 ^ 63"
  shows "\<exists>fp. BuildProto fs = Done fp \<and> fp_literals fp = xs"
proof -
  from iteration_is_the_map [of "fs_literals fs" "\<lambda>_. ONull" False] inv small obtain kvs where
    kvs: "Table_iterate (Suc (numofnodes (fs_literals fs))) (\<lambda>_. ONull) (fs_literals fs) False ONull = Some kvs"
      "distinct (map fst kvs)" "map_of kvs = map_option (realval (\<lambda>_. ONull)) \<circ> pool_map xs"
    by (auto simp: pool_inv_def)
  have d: "distinct xs" "length xs < 2 ^ 31" "fs_nliterals fs = int (length xs)"
    using inv by (auto simp: pool_inv_def)
  have s: "\<forall>(k, v) \<in> set kvs. \<exists>i<length xs. v = OInteger (of_nat i) \<and> xs ! i = k"
  proof clarify
    fix k v assume "(k, v) \<in> set kvs"
    then have "map_of kvs k = Some v" using kvs(2) by simp
    then obtain w where w: "pool_map xs k = Some w" "v = realval (\<lambda>_. ONull) w" using kvs(3) by auto
    from pool_map_SomeD [OF w(1)] w(2) show "\<exists>i<length xs. v = OInteger (of_nat i) \<and> xs ! i = k"
      by auto
  qed
  have all: "xs ! i \<in> fst ` set kvs" if "i < length xs" for i
  proof -
    have "map_of kvs (xs ! i) \<noteq> None" using pool_map_nth [OF d(1) that] kvs(3) by simp
    then show ?thesis by (simp add: map_of_eq_None_iff)
  qed
  obtain l where "fill_literals kvs (replicate (length xs) ONull) = Done l" "length l = length xs"
    "\<forall>i<length xs. l ! i = xs ! i"
    using fill_literals_pool [OF kvs(2), of "replicate (length xs) ONull" xs] s d all by auto
  moreover from this have "l = xs" by (simp add: nth_equalityI)
  ultimately show ?thesis using kvs(1) d(3) by (simp add: BuildProto_def)
qed

text \<open>
  C9. The literal pool.  Asking for any constants (fewer than 2^31 of them) succeeds;
  equal constants get equal indices and different ones different indices; the finished
  function holds as many literals as there were different constants, each at the index
  it was given.
\<close>

theorem literal_pool:
  assumes "ONull \<notin> set cs" "length cs < 2 ^ 31"
  shows "\<exists>is fs. get_constants cs funcstate_new = Done (map int is, fs) \<and> length is = length cs \<and>
     (numofnodes (fs_literals fs) < 2 ^ 63 \<longrightarrow>
       (\<exists>fp. BuildProto fs = Done fp \<and> length (fp_literals fp) = card (set cs) \<and>
          (\<forall>j<length cs. is ! j < card (set cs) \<and> fp_literals fp ! (is ! j) = cs ! j) \<and>
          (\<forall>j<length cs. \<forall>k<length cs. is ! j = is ! k \<longleftrightarrow> cs ! j = cs ! k)))"
proof -
  have "pool_inv [] funcstate_new"
    using new_table [of 0] by (simp add: pool_inv_def funcstate_new_def pool_map_def)
  from get_constants_pool [OF this assms(1)] assms(2) obtain "is" fs ys where
    r: "get_constants cs funcstate_new = Done (map int is, fs)" "pool_inv ys fs" "set ys = set cs"
      "list_all2 (\<lambda>i c. i < length ys \<and> ys ! i = c) is cs" by auto
  have d: "distinct ys" using r(2) by (simp add: pool_inv_def)
  have len: "length ys = card (set cs)" using distinct_card [OF d] r(3) by simp
  have nth: "is ! j < length ys \<and> ys ! (is ! j) = cs ! j" if "j < length cs" for j
    using list_all2_nthD2 [OF r(4) that] .
  have inj: "is ! j = is ! k \<longleftrightarrow> cs ! j = cs ! k" if "j < length cs" "k < length cs" for j k
    using nth [OF that(1)] nth [OF that(2)] d by (metis nth_eq_iff_index_eq)
  show ?thesis
    using r(1) list_all2_lengthD [OF r(4)] BuildProto_pool [OF r(2)] nth inj len
    by (intro exI [of _ "is"] exI [of _ fs]) auto
qed

theorem literal_pool_witness:
  "\<exists>is fs. get_constants [OString ''x'', OInteger 3, OString ''x''] funcstate_new = Done (map int is, fs) \<and>
     length is = 3 \<and>
     (numofnodes (fs_literals fs) < 2 ^ 63 \<longrightarrow>
       (\<exists>fp. BuildProto fs = Done fp \<and> length (fp_literals fp) = 2 \<and>
          fp_literals fp ! (is ! 1) = OInteger 3 \<and> is ! 0 = is ! 2))"
proof -
  have "card (set [OString ''x'', OInteger 3, OString ''x'']) = 2" by (simp add: card_insert_if)
  moreover have "\<exists>is fs. get_constants [OString ''x'', OInteger 3, OString ''x''] funcstate_new = Done (map int is, fs) \<and>
     length is = length [OString ''x'', OInteger 3, OString ''x''] \<and>
     (numofnodes (fs_literals fs) < 2 ^ 63 \<longrightarrow>
       (\<exists>fp. BuildProto fs = Done fp \<and>
          length (fp_literals fp) = card (set [OString ''x'', OInteger 3, OString ''x'']) \<and>
          (\<forall>j<length [OString ''x'', OInteger 3, OString ''x''].
             is ! j < card (set [OString ''x'', OInteger 3, OString ''x'']) \<and>
             fp_literals fp ! (is ! j) = [OString ''x'', OInteger 3, OString ''x''] ! j) \<and>
          (\<forall>j<length [OString ''x'', OInteger 3, OString ''x''].
           \<forall>k<length [OString ''x'', OInteger 3, OString ''x'']. is ! j = is ! k \<longleftrightarrow>
             [OString ''x'', OInteger 3, OString ''x''] ! j = [OString ''x'', OInteger 3, OString ''x''] ! k)))"
    by (rule literal_pool) simp_all
  ultimately show ?thesis by (simp add: All_less_Suc numeral_2_eq_2 numeral_3_eq_3 del: get_constants.simps) blast
qed

section \<open>The stack of locals and temporaries\<close>

text \<open>The frame is as large as the stack has ever been, and no larger than 256.\<close>

definition frame_inv :: "funcstate \<Rightarrow> bool" where
  "frame_inv fs \<longleftrightarrow> int (length (fs_vlocals fs)) \<le> fs_stacksize fs \<and> fs_stacksize fs \<le> MAX_FUNC_STACKSIZE + 1"

text \<open>
  C10. Temporaries are a stack.  Pushing a new target gives the next position, a register
  number that fits the byte of an instruction, unless the frame is full, which is
  reported; popping it gives the position back and the state before, but for the size
  of the frame.  Pushing and popping the target of a local leaves the local in place.
\<close>

theorem targets_are_a_stack:
  assumes inv: "frame_inv fs"
  shows "(if int (length (fs_vlocals fs)) = MAX_FUNC_STACKSIZE + 1
      then PushTarget (- 1) fs = Fail ''internal compiler error: too many locals''
      else \<exists>fs1. PushTarget (- 1) fs = Done (int (length (fs_vlocals fs)), fs1) \<and> frame_inv fs1 \<and>
        int (length (fs_vlocals fs)) \<le> MAX_FUNC_STACKSIZE \<and>
        PopTarget fs1 = Done (int (length (fs_vlocals fs)), fs\<lparr>fs_stacksize := fs_stacksize fs1\<rparr>)) \<and>
    (\<forall>n. IsLocal n fs \<longrightarrow>
      (\<exists>fs1. PushTarget (int n) fs = Done (int n, fs1) \<and> frame_inv fs1 \<and> PopTarget fs1 = Done (int n, fs)))"
proof (intro conjI allI impI)
  show "if int (length (fs_vlocals fs)) = MAX_FUNC_STACKSIZE + 1
      then PushTarget (- 1) fs = Fail ''internal compiler error: too many locals''
      else \<exists>fs1. PushTarget (- 1) fs = Done (int (length (fs_vlocals fs)), fs1) \<and> frame_inv fs1 \<and>
        int (length (fs_vlocals fs)) \<le> MAX_FUNC_STACKSIZE \<and>
        PopTarget fs1 = Done (int (length (fs_vlocals fs)), fs\<lparr>fs_stacksize := fs_stacksize fs1\<rparr>)"
    using inv by (auto simp: frame_inv_def PushTarget_def AllocStackPos_def Let_def PopTarget_def lvi_new_def)
next
  fix n assume "IsLocal n fs"
  then show "\<exists>fs1. PushTarget (int n) fs = Done (int n, fs1) \<and> frame_inv fs1 \<and> PopTarget fs1 = Done (int n, fs)"
    using inv by (auto simp: frame_inv_def PushTarget_def Let_def PopTarget_def IsLocal_def)
qed

theorem targets_are_a_stack_witness:
  "\<exists>fs1. PushTarget (- 1) funcstate_new = Done (0, fs1) \<and> PopTarget fs1 = Done (0, funcstate_new\<lparr>fs_stacksize := 1\<rparr>)"
proof -
  have "frame_inv funcstate_new" by (simp add: frame_inv_def funcstate_new_def MAX_FUNC_STACKSIZE_def)
  from targets_are_a_stack [OF this] obtain fs1 where
    "PushTarget (- 1) funcstate_new = Done (0, fs1)"
    "PopTarget fs1 = Done (0, funcstate_new\<lparr>fs_stacksize := fs_stacksize fs1\<rparr>)"
    by (auto simp: MAX_FUNC_STACKSIZE_def funcstate_new_def)
  moreover from this(1) have "fs_stacksize fs1 = 1"
    by (auto simp: PushTarget_def AllocStackPos_def funcstate_new_def Let_def split: if_splits)
  ultimately show ?thesis by auto
qed

text \<open>What a block's end adds to the debug information of its named locals.\<close>

definition closed_local :: "funcstate \<Rightarrow> sqlocalvarinfo \<Rightarrow> sqlocalvarinfo" where
  "closed_local fs lvi = lvi\<lparr>lv_end_op := word_of_int (GetCurrentPos fs)\<rparr>"

text \<open>
  The end of a block.  Shrinking the stack to a size drops every local and temporary
  above it, records the end of each dropped local from the innermost outwards, takes
  off exactly the captured ones from the count of captured locals, and changes
  nothing else.
\<close>

theorem block_end:
  "SetStackSize n fs = fs\<lparr>fs_vlocals := take n (fs_vlocals fs),
     fs_outers := fs_outers fs - int (length (filter (\<lambda>l. lv_name l \<noteq> ONull \<and> lv_end_op l = UINT_MINUS_ONE)
                                        (drop n (fs_vlocals fs)))),
     fs_localvarinfos := fs_localvarinfos fs @
       map (closed_local fs) (rev (filter (\<lambda>l. lv_name l \<noteq> ONull) (drop n (fs_vlocals fs))))\<rparr>"
  unfolding SetStackSize_def
proof (induction "length (fs_vlocals fs) - n" arbitrary: fs)
  case 0
  then show ?case by (subst set_stack_loop.simps) simp
next
  case (Suc k)
  let ?v = "fs_vlocals fs"
  from Suc.hyps(2) have len: "length ?v > n" by simp
  then have ne: "?v \<noteq> []" by auto
  obtain us l where v: "?v = us @ [l]" using ne by (metis append_butlast_last_id)
  then have us: "length us \<ge> n" "length us - n = k" using len Suc.hyps(2) by auto
  show ?case
  proof (cases "lv_name l = ONull")
    case True
    have "set_stack_loop n fs = set_stack_loop n (fs\<lparr>fs_vlocals := us\<rparr>)"
      by (subst set_stack_loop.simps) (use len v True in \<open>simp add: Let_def\<close>)
    then show ?thesis using Suc.hyps(1) [of "fs\<lparr>fs_vlocals := us\<rparr>"] us v True
      by (simp add: closed_local_def GetCurrentPos_def)
  next
    case False
    let ?fs = "fs\<lparr>fs_outers := (if lv_end_op l = UINT_MINUS_ONE then fs_outers fs - 1 else fs_outers fs),
        fs_localvarinfos := fs_localvarinfos fs @ [closed_local fs l], fs_vlocals := us\<rparr>"
    have "set_stack_loop n fs = set_stack_loop n ?fs"
      by (subst set_stack_loop.simps) (use len v False in \<open>simp add: Let_def closed_local_def\<close>)
    then show ?thesis using Suc.hyps(1) [of ?fs] us v False
      by (simp add: closed_local_def [abs_def] GetCurrentPos_def)
  qed
qed

lemma local_loop_last:
  "k < m \<Longrightarrow> m \<le> length ls \<Longrightarrow> lv_name (ls ! k) = OString nm \<Longrightarrow>
     (\<And>j. k < j \<Longrightarrow> j < m \<Longrightarrow> lv_name (ls ! j) \<noteq> OString nm) \<Longrightarrow>
   local_loop ls (OString nm) m = int k"
proof (induction m)
  case (Suc m)
  then show ?case by (cases "k = m") auto
qed simp

lemma add_params:
  "map lv_name (fs_vlocals (fold AddParameter ns fs)) = map lv_name (fs_vlocals fs) @ ns \<and>
   fs_parameters (fold AddParameter ns fs) = fs_parameters fs @ ns"
  by (induction ns arbitrary: fs) (auto simp: AddParameter_def PushLocalVariable_def Let_def)

text \<open>
  Parameters are not checked against the byte of a register.  Adding parameters never
  fails, the \<open>k\<close>-th is found at position \<open>k\<close>, and an instruction whose target is
  position \<open>256 + j\<close> writes register \<open>j\<close>: from 257 parameters on, a store to a parameter
  overwrites another one, the first of them \<^verbatim>\<open>this\<close>.
\<close>

theorem parameters_beyond_a_byte:
  assumes "distinct ns" "k < length ns"
  shows "GetLocalVariable (OString (ns ! k)) (fold AddParameter (map OString ns) funcstate_new) = int k \<and>
    unat (i_arg0 (mk_instr opc (int k) a1 a2 a3)) = k mod 256"
proof
  let ?ls = "fs_vlocals (fold AddParameter (map OString ns) funcstate_new)"
  have n: "map lv_name ?ls = map OString ns"
    using add_params [of "map OString ns" funcstate_new] by (simp add: funcstate_new_def)
  then have len: "length ?ls = length ns" by (metis length_map)
  have nth: "lv_name (?ls ! j) = OString (ns ! j)" if "j < length ns" for j
    using that n len by (metis nth_map)
  show "GetLocalVariable (OString (ns ! k)) (fold AddParameter (map OString ns) funcstate_new) = int k"
    unfolding GetLocalVariable_def using assms len nth
    by (intro local_loop_last) (auto simp: nth_eq_iff_index_eq)
  show "unat (i_arg0 (mk_instr opc (int k) a1 a2 a3)) = k mod 256"
    by (simp add: unat_of_nat take_bit_eq_mod)
qed

text \<open>The parameters of a function with 257 of them, \<^verbatim>\<open>this\<close> included.\<close>

definition many_params :: "string list" where
  "many_params = ''this'' # map (\<lambda>i. replicate (Suc i) CHR ''p'') [0..<256]"

theorem parameters_beyond_a_byte_witness:
  "GetLocalVariable (OString (many_params ! 256)) (fold AddParameter (map OString many_params) funcstate_new) = 256 \<and>
    unat (i_arg0 (mk_instr OP_MOVE 256 1 0 0)) = 0"
proof -
  have "''this'' \<noteq> replicate n CHR ''p''" for n by (cases n) auto
  then have "distinct many_params"
    by (auto simp: many_params_def distinct_map inj_on_def dest: arg_cong [where f = length])
  moreover have "(256::nat) < length many_params" by (simp add: many_params_def)
  ultimately show ?thesis using parameters_beyond_a_byte [of many_params 256 OP_MOVE 1 0 0] by simp
qed

section \<open>Captured variables\<close>

text \<open>
  The scoping rule, over the names of the declared locals alone: a name stands for the last declared
  local of that name, in the nearest function around that declares one.
\<close>

definition named_locals :: "sqobj \<Rightarrow> funcstate \<Rightarrow> nat set" where
  "named_locals name fs = {q \<in> {..<length (fs_vlocals fs)}. lv_name (fs_vlocals fs ! q) = name}"

definition newest_local :: "sqobj \<Rightarrow> funcstate \<Rightarrow> nat option" where
  "newest_local name fs = (if named_locals name fs = {} then None else Some (Max (named_locals name fs)))"

fun resolve :: "sqobj \<Rightarrow> funcstate list \<Rightarrow> (nat \<times> nat) option" where
  "resolve name [] = None"
| "resolve name (p # ps) =
     (case newest_local name p of
        Some q \<Rightarrow> Some (0, q)
      | None \<Rightarrow> map_option (\<lambda>(d, q). (Suc d, q)) (resolve name ps))"

lemma newest_local_Some:
  assumes "newest_local name fs = Some q"
  shows "q < length (fs_vlocals fs)" "lv_name (fs_vlocals fs ! q) = name"
    "\<And>j. q < j \<Longrightarrow> j < length (fs_vlocals fs) \<Longrightarrow> lv_name (fs_vlocals fs ! j) \<noteq> name"
proof -
  have fin: "finite (named_locals name fs)" by (simp add: named_locals_def)
  have q: "named_locals name fs \<noteq> {}" "q = Max (named_locals name fs)"
    using assms by (simp_all add: newest_local_def split: if_splits)
  then have "q \<in> named_locals name fs" using fin by simp
  then show "q < length (fs_vlocals fs)" "lv_name (fs_vlocals fs ! q) = name" by (simp_all add: named_locals_def)
  fix j assume j: "q < j" "j < length (fs_vlocals fs)"
  then have "j \<notin> named_locals name fs" using Max_ge [OF fin, of j] q(2) by auto
  then show "lv_name (fs_vlocals fs ! j) \<noteq> name" using j by (simp add: named_locals_def)
qed

lemma newest_local_None: "newest_local name fs = None \<Longrightarrow> j < length (fs_vlocals fs) \<Longrightarrow> lv_name (fs_vlocals fs ! j) \<noteq> name"
  by (auto simp: newest_local_def named_locals_def split: if_splits)

text \<open>The loop of the code finds this local.\<close>

lemma local_loop_none: "(\<And>j. j < n \<Longrightarrow> lv_name (ls ! j) \<noteq> name) \<Longrightarrow> local_loop ls name n = - 1"
  by (induction n) auto

lemma GetLocalVariable_newest:
  assumes "is_string name"
  shows "GetLocalVariable name fs = (case newest_local name fs of None \<Rightarrow> - 1 | Some q \<Rightarrow> int q)"
proof (cases "newest_local name fs")
  case None
  then have "GetLocalVariable name fs = - 1"
    unfolding GetLocalVariable_def by (intro local_loop_none) (auto dest: newest_local_None)
  then show ?thesis using None by simp
next
  case (Some q)
  obtain nm where "name = OString nm" using assms by (cases name) auto
  then have "GetLocalVariable name fs = int q"
    using newest_local_Some [OF Some] unfolding GetLocalVariable_def by (auto intro: local_loop_last)
  then show ?thesis using Some by simp
qed

lemma resolve_local:
  assumes "is_string name"
  shows "GetLocalVariable name p = int q \<Longrightarrow> resolve name (p # ps) = Some (0, q)"
    "GetLocalVariable name p = - 1 \<Longrightarrow> resolve name (p # ps) = map_option (\<lambda>(d, q). (Suc d, q)) (resolve name ps)"
  using GetLocalVariable_newest [OF assms, of p] by (auto split: option.splits)

text \<open>The variable that a function's captured variable stands for, counting from its parent.\<close>

fun denotes :: "nat \<Rightarrow> funcstate list \<Rightarrow> (nat \<times> nat) option" where
  "denotes i [] = None"
| "denotes i (fs # rest) =
     (if i < length (fs_outervalues fs) then
        (case ov_src (fs_outervalues fs ! i) of
           OInteger w \<Rightarrow>
             (case ov_type (fs_outervalues fs ! i) of
                otLOCAL \<Rightarrow> Some (0, unat w)
              | otOUTER \<Rightarrow> map_option (\<lambda>(d, q). (Suc d, q)) (denotes (unat w) rest))
         | _ \<Rightarrow> None)
      else None)"

definition marked :: "funcstate list \<Rightarrow> nat \<times> nat \<Rightarrow> bool" where
  "marked fss dq \<longleftrightarrow> fst dq < length fss \<and> snd dq < length (fs_vlocals (fss ! fst dq)) \<and>
     lv_end_op (fs_vlocals (fss ! fst dq) ! snd dq) = UINT_MINUS_ONE"

text \<open>Every captured variable stands for the variable of its name, which is marked as captured.\<close>

fun outers_ok :: "funcstate list \<Rightarrow> bool" where
  "outers_ok [] \<longleftrightarrow> True"
| "outers_ok (fs # rest) \<longleftrightarrow> outers_ok rest \<and>
     (\<forall>i<length (fs_outervalues fs). \<exists>dq. denotes i (fs # rest) = Some dq \<and>
        resolve (ov_name (fs_outervalues fs ! i)) rest = Some dq \<and> marked rest dq)"

definition small_states :: "funcstate list \<Rightarrow> bool" where
  "small_states fss \<longleftrightarrow> (\<forall>fs\<in>set fss. length (fs_outervalues fs) < 2 ^ 32 \<and> length (fs_vlocals fs) < 2 ^ 32)"

text \<open>A state keeps its locals' names, its captured variables and its marks.\<close>

definition keeps :: "funcstate \<Rightarrow> funcstate \<Rightarrow> bool" where
  "keeps a b \<longleftrightarrow> map lv_name (fs_vlocals b) = map lv_name (fs_vlocals a) \<and>
     (\<exists>xs. fs_outervalues b = fs_outervalues a @ xs) \<and>
     (\<forall>q<length (fs_vlocals a). lv_end_op (fs_vlocals a ! q) = UINT_MINUS_ONE \<longrightarrow>
        lv_end_op (fs_vlocals b ! q) = UINT_MINUS_ONE)"

lemma keeps_refl [simp]: "keeps a a"
  by (simp add: keeps_def)

lemma keeps_all_refl [simp]: "list_all2 keeps fss fss"
  by (simp add: list.rel_refl)

lemma keeps_local:
  assumes "keeps a b"
  shows "newest_local name b = newest_local name a"
proof -
  have n: "map lv_name (fs_vlocals b) = map lv_name (fs_vlocals a)" using assms by (simp add: keeps_def)
  then have l: "length (fs_vlocals b) = length (fs_vlocals a)" by (metis length_map)
  have "lv_name (fs_vlocals b ! q) = lv_name (fs_vlocals a ! q)" if "q < length (fs_vlocals a)" for q
    using n l that by (metis nth_map)
  then have "named_locals name b = named_locals name a" by (auto simp: named_locals_def l)
  then show ?thesis by (simp only: newest_local_def)
qed

lemma keeps_resolve: "list_all2 keeps fss gss \<Longrightarrow> resolve name gss = resolve name fss"
proof (induction fss arbitrary: gss)
  case (Cons a fss)
  then obtain b bs where b: "gss = b # bs" "keeps a b" "list_all2 keeps fss bs"
    by (auto simp: list_all2_Cons1)
  show ?case unfolding b(1) resolve.simps keeps_local [OF b(2)] Cons.IH [OF b(3)] ..
qed simp

lemma keeps_denotes: "list_all2 keeps fss gss \<Longrightarrow> denotes i fss = Some dq \<Longrightarrow> denotes i gss = Some dq"
proof (induction fss arbitrary: gss i dq)
  case (Cons fs rest)
  then obtain g gs where g: "gss = g # gs" "keeps fs g" "list_all2 keeps rest gs"
    by (auto simp: list_all2_Cons1)
  then obtain xs where xs: "fs_outervalues g = fs_outervalues fs @ xs" by (auto simp: keeps_def)
  from Cons.prems(2) have i: "i < length (fs_outervalues fs)" by (auto split: if_splits)
  then have n: "fs_outervalues g ! i = fs_outervalues fs ! i" "i < length (fs_outervalues g)"
    by (simp_all add: xs nth_append)
  from Cons.prems(2) i n g(1) Cons.IH [OF g(3)] show ?case
    by (auto split: sqobj.splits outertype.splits)
qed simp

lemma keeps_marked: "list_all2 keeps fss gss \<Longrightarrow> marked fss dq \<Longrightarrow> marked gss dq"
  unfolding marked_def keeps_def
  by (auto simp: list_all2_conv_all_nth) (metis length_map)

lemma local_loop_range: "local_loop ls name n = - 1 \<or>
    0 \<le> local_loop ls name n \<and> local_loop ls name n < int n \<and>
    lv_name (ls ! nat (local_loop ls name n)) = name"
  by (induction n) auto

lemma outer_index_range: "outer_index ovs name k = - 1 \<and> (\<forall>ov\<in>set ovs. ov_name ov \<noteq> name) \<or>
    (\<exists>i<length ovs. outer_index ovs name k = int (k + i) \<and> ov_name (ovs ! i) = name)"
proof (induction ovs arbitrary: k)
  case (Cons ov ovs)
  show ?case
  proof (cases "ov_name ov = name")
    case False
    with Cons.IH [of "Suc k"] show ?thesis by force
  qed force
qed simp

lemma keeps_mark:
  assumes "GetLocalVariable name p = int q"
  shows "keeps p (MarkLocalAsOuter q p) \<and> marked (MarkLocalAsOuter q p # ps) (0, q)"
proof -
  have "q < length (fs_vlocals p)"
    using assms local_loop_range [of "fs_vlocals p" name "length (fs_vlocals p)"]
    by (auto simp: GetLocalVariable_def)
  then show ?thesis
    by (auto simp: keeps_def marked_def MarkLocalAsOuter_def nth_list_update intro!: nth_equalityI)
qed

lemma outers_ok_keeps:
  assumes "outers_ok (fs # rest)" "outers_ok rest'" "list_all2 keeps rest rest'"
  shows "outers_ok (fs # rest')"
proof -
  have l: "list_all2 keeps (fs # rest) (fs # rest')" using assms(3) by simp
  show ?thesis
    using assms(1,2) keeps_denotes [OF l] keeps_resolve [OF assms(3)] keeps_marked [OF assms(3)]
    by (simp del: denotes.simps) blast
qed

text \<open>A captured variable added at the end.\<close>

lemma outers_ok_add:
  assumes ok: "outers_ok (fs # rest)" and name: "ov_name ov = name"
    and d: "denotes (length (fs_outervalues fs)) (fs\<lparr>fs_outervalues := fs_outervalues fs @ [ov]\<rparr> # rest) = Some dq"
    and r: "resolve name rest = Some dq" and m: "marked rest dq"
  shows "outers_ok (fs\<lparr>fs_outervalues := fs_outervalues fs @ [ov]\<rparr> # rest)"
proof -
  let ?fs = "fs\<lparr>fs_outervalues := fs_outervalues fs @ [ov]\<rparr>"
  have k: "list_all2 keeps (fs # rest) (?fs # rest)" by (simp add: keeps_def)
  have "\<exists>dq. denotes i (?fs # rest) = Some dq \<and>
      resolve (ov_name (fs_outervalues ?fs ! i)) rest = Some dq \<and> marked rest dq"
    if "i < length (fs_outervalues ?fs)" for i
  proof (cases "i < length (fs_outervalues fs)")
    case True
    with ok obtain dq where "denotes i (fs # rest) = Some dq"
      "resolve (ov_name (fs_outervalues fs ! i)) rest = Some dq" "marked rest dq" by auto
    with keeps_denotes [OF k] True show ?thesis by (simp add: nth_append del: denotes.simps)
  next
    case False
    with that have "i = length (fs_outervalues fs)" by simp
    with d r m name show ?thesis by (simp add: nth_append del: denotes.simps)
  qed
  then show ?thesis using ok by (simp del: denotes.simps)
qed

lemma outers_ok_mark:
  assumes "outers_ok (p # ps)"
  shows "outers_ok (MarkLocalAsOuter q p # ps)"
proof -
  have o: "fs_outervalues (MarkLocalAsOuter q p) = fs_outervalues p" by (simp add: MarkLocalAsOuter_def)
  have "denotes i (MarkLocalAsOuter q p # ps) = denotes i (p # ps)" for i by (simp only: denotes.simps o)
  with assms show ?thesis unfolding outers_ok.simps o by simp
qed

lemma GetOuterVariable_correct:
  assumes "outers_ok fss" "small_states fss" "is_string name" "GetOuterVariable name fss = (i, fss')" "fss \<noteq> []"
  shows "outers_ok fss' \<and> list_all2 keeps fss fss' \<and>
    (if i = - 1 then fss' = fss \<and> resolve name (tl fss) = None
     else 0 \<le> i \<and> i < 2 ^ 32 \<and> (\<exists>dq. denotes (nat i) fss' = Some dq \<and> resolve name (tl fss) = Some dq \<and>
       marked (tl fss') dq))"
  using assms
proof (induction name fss arbitrary: i fss' rule: GetOuterVariable.induct)
  case (1 name)
  then show ?case by simp
next
  case (2 name fs parents)
  let ?i = "outer_index (fs_outervalues fs) name 0"
  have small: "length (fs_outervalues fs) < 2 ^ 32" using "2.prems"(2) by (simp add: small_states_def)
  show ?case
  proof (cases "?i = - 1")
    case False
    then obtain k where k: "k < length (fs_outervalues fs)" "?i = int k" "ov_name (fs_outervalues fs ! k) = name"
      using outer_index_range [of "fs_outervalues fs" name 0] by auto
    with "2.prems" False have "i = int k" "fss' = fs # parents" by auto
    with k "2.prems"(1) small show ?thesis by (auto simp del: denotes.simps)
  next
    case True
    then have no: "\<forall>ov\<in>set (fs_outervalues fs). ov_name ov \<noteq> name"
      using outer_index_range [of "fs_outervalues fs" name 0] by auto
    show ?thesis
    proof (cases parents)
      case Nil
      with True "2.prems" show ?thesis by auto
    next
      case (Cons p ps)
      let ?pos = "GetLocalVariable name p" and ?n = "length (fs_outervalues fs)"
      have nth: "(fs_outervalues fs @ [ov]) ! ?n = ov" for ov by simp
      show ?thesis
      proof (cases "?pos = - 1")
        case False
        then obtain q where q: "?pos = int q" "q < length (fs_vlocals p)"
          using local_loop_range [of "fs_vlocals p" name "length (fs_vlocals p)"]
          by (auto simp: GetLocalVariable_def intro: nat_0_le [symmetric])
        have qs: "q < 2 ^ 32" using q(2) "2.prems"(2) Cons by (auto simp: small_states_def)
        let ?ov = "\<lparr>ov_type = otLOCAL, ov_name = name, ov_src = OInteger (word_of_int ?pos)\<rparr>"
        let ?ps = "MarkLocalAsOuter q p # ps"
        have res: "i = int ?n" "fss' = fs\<lparr>fs_outervalues := fs_outervalues fs @ [?ov]\<rparr> # ?ps"
          using "2.prems"(4) True False Cons q(1) by (auto simp: Let_def)
        from keeps_mark [OF q(1), of ps] have m: "list_all2 keeps parents ?ps" "marked ?ps (0, q)"
          by (simp_all add: Cons)
        have okp: "outers_ok ?ps"
          using "2.prems"(1) outers_ok_mark [of p ps q] Cons by (simp del: denotes.simps)
        have ok: "outers_ok (fs # ?ps)"
          using outers_ok_keeps [OF _ okp m(1), of fs] "2.prems"(1) Cons by simp
        have r: "resolve name parents = Some (0, q)" unfolding Cons by (rule resolve_local(1) [OF "2.prems"(3) q(1)])
        have d: "denotes ?n (fs\<lparr>fs_outervalues := fs_outervalues fs @ [?ov]\<rparr> # ?ps) = Some (0, q)"
          using q(1) qs by (simp add: nth unat_of_nat take_bit_nat_eq_self)
        have "outers_ok fss'"
          unfolding res(2) using outers_ok_add [OF ok _ d _ m(2)] keeps_resolve [OF m(1)] r by simp
        moreover have "list_all2 keeps (fs # parents) fss'"
          using m(1) by (simp add: res(2)) (simp add: keeps_def)
        ultimately show ?thesis using d r m(2) res small by (simp del: denotes.simps)
      next
        case pos: True
        obtain pos' parents' where rec: "GetOuterVariable name parents = (pos', parents')"
          by (cases "GetOuterVariable name parents")
        have prem: "outers_ok parents" "small_states parents" "parents \<noteq> []"
          using "2.prems"(1,2) Cons by (auto simp: small_states_def)
        have nn: "\<not> ?i \<noteq> - 1" using True by simp
        note IH = "2.IH" [OF refl nn Cons refl pos prem(1,2) "2.prems"(3) rec prem(3)]
        show ?thesis
        proof (cases "pos' = - 1")
          case True
          with IH have n: "parents' = parents" "resolve name (tl parents) = None" by auto
          have "i = - 1 \<and> fss' = fs # parents"
            using True pos \<open>?i = - 1\<close> "2.prems"(4) rec n(1) Cons
            by (simp add: Let_def del: GetOuterVariable.simps(2)) (simp add: Let_def rec [unfolded Cons])
          moreover have "resolve name parents = None" using n(2) Cons resolve_local(2) [OF "2.prems"(3) pos] by simp
          ultimately show ?thesis using "2.prems"(1) by simp
        next
          case False
          let ?ov = "\<lparr>ov_type = otOUTER, ov_name = name, ov_src = OInteger (word_of_int pos')\<rparr>"
          have res: "i = int ?n" "fss' = fs\<lparr>fs_outervalues := fs_outervalues fs @ [?ov]\<rparr> # parents'"
            using "2.prems"(4) \<open>?i = - 1\<close> pos False rec Cons by (simp_all add: Let_def)
          from IH False obtain d q where ih: "outers_ok parents'" "list_all2 keeps parents parents'"
            "0 \<le> pos'" "pos' < 2 ^ 32" "denotes (nat pos') parents' = Some (d, q)"
            "resolve name (tl parents) = Some (d, q)" "marked (tl parents') (d, q)" by auto
          have ok: "outers_ok (fs # parents')"
            by (rule outers_ok_keeps [OF "2.prems"(1) ih(1,2)])
          have u: "unat (word_of_int pos' :: sqint) = nat pos'"
            using ih(3,4) by (simp add: unat_eq_nat_uint uint_word_of_int_eq take_bit_int_eq_self)
          have d: "denotes ?n (fs\<lparr>fs_outervalues := fs_outervalues fs @ [?ov]\<rparr> # parents') = Some (Suc d, q)"
            using ih(5) u by simp
          have r: "resolve name parents = Some (Suc d, q)" using ih(6) Cons resolve_local(2) [OF "2.prems"(3) pos] by simp
          obtain p' ps' where p': "parents' = p' # ps'" using ih(2) Cons by (auto simp: list_all2_Cons1)
          have m: "marked parents' (Suc d, q)" using ih(7) by (simp add: p' marked_def)
          have "outers_ok fss'"
            unfolding res(2) using outers_ok_add [OF ok _ d _ m] keeps_resolve [OF ih(2)] r by simp
          moreover have "list_all2 keeps (fs # parents) fss'"
            using ih(2) by (simp add: res(2)) (simp add: keeps_def)
          ultimately show ?thesis using d r m res small by (simp del: denotes.simps)
        qed
      qed
    qed
  qed
qed

text \<open>
  C11. Captured variables are scoped lexically.  Looking a name up from a nested function
  finds nothing, and changes nothing, exactly when no enclosing function has a local of
  that name; otherwise the index it returns leads, through the captured variables of the
  functions in between, to the newest local of that name in the nearest enclosing
  function that has one, and that local is marked to be closed when its block ends.
  Whatever was captured before still stands for what it stood for.
\<close>

theorem captured_variables_are_lexical:
  assumes "outers_ok fss" "small_states fss" "is_string name" "fss \<noteq> []"
    "GetOuterVariable name fss = (i, fss')"
  shows "outers_ok fss' \<and> length fss' = length fss \<and>
    (\<forall>j dq. denotes j fss = Some dq \<longrightarrow> denotes j fss' = Some dq) \<and>
    (i = - 1 \<longleftrightarrow> resolve name (tl fss) = None) \<and>
    (if i = - 1 then fss' = fss
     else denotes (nat i) fss' = resolve name (tl fss) \<and> marked (tl fss') (the (resolve name (tl fss))))"
  using GetOuterVariable_correct [OF assms(1,2,3,5,4)]
    list_all2_lengthD [of keeps fss fss'] keeps_denotes [of fss fss']
  by (auto split: if_splits)

text \<open>\<^verbatim>\<open>function(x) { local x; function() { function() { x } } }\<close>: the innermost function names the local \<open>x\<close>, which hides the parameter.\<close>

theorem captured_variables_are_lexical_witness:
  "\<exists>fss'. GetOuterVariable (OString ''x'')
      [funcstate_new, funcstate_new, AddParameter (OString ''x'') (AddParameter (OString ''x'') funcstate_new)] = (0, fss') \<and>
    denotes 0 fss' = Some (1, 1) \<and> outers_ok fss' \<and> marked (tl fss') (1, 1)"
proof -
  let ?p = "AddParameter (OString ''x'') (AddParameter (OString ''x'') funcstate_new)"
  let ?fss = "[funcstate_new, funcstate_new, ?p]"
  have l: "GetLocalVariable (OString ''x'') ?p = 1" "GetLocalVariable (OString ''x'') funcstate_new = - 1"
    "fs_outervalues ?p = []" "length (fs_vlocals ?p) = 2" "fs_outervalues funcstate_new = []"
    "fs_vlocals funcstate_new = []"
    by (simp_all add: AddParameter_def PushLocalVariable_def funcstate_new_def GetLocalVariable_def Let_def)
  have ok: "outers_ok ?fss" "small_states ?fss" by (simp_all add: l small_states_def)
  have v: "map lv_name (fs_vlocals ?p) = [OString ''x'', OString ''x'']"
    by (simp add: AddParameter_def PushLocalVariable_def funcstate_new_def Let_def)
  have "named_locals (OString ''x'') ?p = {0, 1}"
    using arg_cong [OF v, of "\<lambda>ns. ns ! 0"] arg_cong [OF v, of "\<lambda>ns. ns ! 1"] by (auto simp: named_locals_def l(4) less_2_cases_iff)
  then have "newest_local (OString ''x'') ?p = Some 1" "newest_local (OString ''x'') funcstate_new = None"
    by (simp_all add: newest_local_def) (simp add: named_locals_def l(6))
  then have r: "resolve (OString ''x'') (tl ?fss) = Some (1, 1)" by simp
  obtain i fss' where g: "GetOuterVariable (OString ''x'') ?fss = (i, fss')"
    by (cases "GetOuterVariable (OString ''x'') ?fss")
  moreover from g have "i = 0" by (auto simp: l Let_def)
  ultimately show ?thesis
    using captured_variables_are_lexical [OF ok _ _ g] r by auto
qed

end
