(* ===== verification/Channels.thy ===== *)
theory Channels
  imports Outcomes "HOL-Library.Sublist"
begin

text \<open>
  Byte channels: what the functions that save and load rely on of the write and the
  read function they are given, and the little-endian memory of a number.
\<close>

type_synonym byte = "8 word"

section \<open>Numbers in memory\<close>

fun le_enc :: "nat \<Rightarrow> nat \<Rightarrow> byte list" where
  "le_enc 0 x = []"
| "le_enc (Suc n) x = of_nat (x mod 256) # le_enc n (x div 256)"

fun le_dec :: "byte list \<Rightarrow> nat" where
  "le_dec [] = 0"
| "le_dec (b # bs) = unat b + 256 * le_dec bs"

definition le_bytes :: "nat \<Rightarrow> 'a::len word \<Rightarrow> byte list" where
  "le_bytes n w = le_enc n (unat w)"

definition of_le_bytes :: "byte list \<Rightarrow> 'a::len word" where
  "of_le_bytes bs = of_nat (le_dec bs)"

lemma length_le_enc [simp]: "length (le_enc n x) = n"
  by (induction n arbitrary: x) auto

lemma length_le_bytes [simp]: "length (le_bytes n w) = n"
  by (simp add: le_bytes_def)

lemma le_dec_enc: "le_dec (le_enc n x) = x mod 256 ^ n"
proof (induction n arbitrary: x)
  case (Suc n)
  have "unat (of_nat (x mod 256) :: byte) = x mod 256"
    by (simp add: unat_of_nat take_bit_eq_mod)
  with Suc show ?case by (simp add: mod_mult2_eq)
qed simp

lemma of_le_bytes_enc:
  assumes "LENGTH('a) \<le> 8 * n"
  shows "of_le_bytes (le_bytes n (w :: 'a::len word)) = w"
proof -
  have "unat w < 2 ^ LENGTH('a)" by simp
  also have "\<dots> \<le> (2::nat) ^ (8 * n)" using assms by (simp add: power_increasing)
  also have "\<dots> = 256 ^ n" by (simp add: power_mult)
  finally show ?thesis by (simp add: of_le_bytes_def le_bytes_def le_dec_enc)
qed

text \<open>The bytes of a word are its bits, eight by eight.\<close>

lemma le_bytes_Suc: "le_bytes (Suc n) (w :: 'a::len word) = ucast w # le_bytes n (drop_bit 8 w)"
proof -
  have "(of_nat (unat w mod 256) :: byte) = ucast w"
    by (simp add: word_of_nat_eq_iff take_bit_eq_mod unsigned_ucast_eq word_unat_eq_iff unat_of_nat)
  moreover have "unat w div 256 = unat (drop_bit 8 w)"
    by (simp only: unat_drop_bit_eq) (simp add: drop_bit_eq_div)
  ultimately show ?thesis by (simp add: le_bytes_def)
qed

lemma le_bytes_0 [simp]: "le_bytes 0 w = []"
  by (simp add: le_bytes_def)

lemma le_bytes_4: "le_bytes 4 (w :: 'a::len word) =
    [ucast w, ucast (drop_bit 8 w), ucast (drop_bit 16 w), ucast (drop_bit 24 w)]"
proof -
  have "le_bytes 4 w = le_bytes (Suc (Suc (Suc (Suc 0)))) w" by (simp add: eval_nat_numeral)
  then show ?thesis by (simp add: le_bytes_Suc)
qed

lemma le_bytes_2: "le_bytes 2 (w :: 'a::len word) = [ucast w, ucast (drop_bit 8 w)]"
proof -
  have "le_bytes 2 w = le_bytes (Suc (Suc 0)) w" by (simp add: eval_nat_numeral)
  then show ?thesis by (simp add: le_bytes_Suc)
qed

section \<open>The interfaces\<close>

text \<open>
  A sink takes every byte it is given; a source gives the bytes it has, fewer than asked
  for only when it has no more.
\<close>

locale byte_sink =
  fixes ok :: "'u \<Rightarrow> bool"
    and written :: "'u \<Rightarrow> byte list"
    and emit :: "byte list \<Rightarrow> 'u \<Rightarrow> (int \<times> 'u) outcome"
  assumes write_law: "ok u \<Longrightarrow> \<exists>u'. emit bs u = Done (int (length bs), u') \<and> ok u' \<and>
     written u' = written u @ bs"

locale byte_source =
  fixes ok :: "'u \<Rightarrow> bool"
    and pending :: "'u \<Rightarrow> byte list"
    and fetch :: "int \<Rightarrow> 'u \<Rightarrow> (byte list \<times> 'u) outcome"
  assumes read_law: "ok u \<Longrightarrow> \<exists>u'. fetch (int n) u = Done (take n (pending u), u') \<and> ok u' \<and>
     pending u' = drop n (pending u)"

end
