(* ===== verification/Blob.thy ===== *)
theory Blob
  imports Channels
begin

text \<open>
  The blob of \<^verbatim>\<open>sqstdlib/sqstdblobimpl.h\<close>, a growable memory stream, and the functions on
  its bytes of \<^verbatim>\<open>sqstdlib/sqstdblob.cpp\<close>.

  The allocated memory is a list of bytes, so \<open>_allocated\<close> is its length; sizes and
  positions are signed.  A copy outside the memory or an allocation of a negative size
  is undefined.
\<close>

section \<open>State\<close>

record blob =
  b_buf :: "byte list"
  b_size :: int
  b_ptr :: int
  b_owns :: bool

definition b_allocated :: "blob \<Rightarrow> int" where
  "b_allocated b = int (length (b_buf b))"

definition Blob_new :: "int \<Rightarrow> blob outcome" where
  "Blob_new sz =
     (if sz < 0 then Undef
      else Done \<lparr>b_buf = replicate (nat sz) 0, b_size = sz, b_ptr = 0, b_owns = True\<rparr>)"

section \<open>The stream operations\<close>

definition Blob_CanAdvance :: "int \<Rightarrow> blob \<Rightarrow> bool" where
  "Blob_CanAdvance n b = (if b_ptr b + n > b_size b then False else True)"

definition Blob_Resize :: "int \<Rightarrow> blob \<Rightarrow> (bool \<times> blob) outcome" where
  "Blob_Resize n b =
     (if \<not> b_owns b then Done (False, b)
      else if n \<noteq> b_allocated b then
        (if n < 0 then Undef
         else (let k = (if b_size b > n then n else b_size b) in
           if 0 \<le> k \<and> k \<le> b_allocated b then
             Done (True, b\<lparr>b_buf := take (nat k) (b_buf b) @ replicate (nat n - nat k) 0,
                           b_size := (if b_size b > n then n else b_size b),
                           b_ptr := (if b_ptr b > n then n else b_ptr b)\<rparr>)
           else Undef))
      else Done (True, b))"

definition Blob_GrowBufOf :: "int \<Rightarrow> blob \<Rightarrow> (bool \<times> blob) outcome" where
  "Blob_GrowBufOf n b =
     obind (if b_size b + n > b_allocated b then
              (if b_size b + n > b_size b * 2 then Blob_Resize (b_size b + n) b
               else Blob_Resize (b_size b * 2) b)
            else Done (True, b))
       (\<lambda>(ret, b'). Done (ret, b'\<lparr>b_size := b_size b' + n\<rparr>))"

definition Blob_Write :: "byte list \<Rightarrow> blob \<Rightarrow> (int \<times> blob) outcome" where
  "Blob_Write bs b =
     (let sz = int (length bs) in
      obind (if \<not> Blob_CanAdvance sz b
             then obind (Blob_GrowBufOf (b_ptr b + sz - b_size b) b) (\<lambda>(_, b'). Done b')
             else Done b)
        (\<lambda>b'. if 0 \<le> b_ptr b' \<and> b_ptr b' + sz \<le> b_allocated b'
              then Done (sz, b'\<lparr>b_buf := take (nat (b_ptr b')) (b_buf b') @ bs @
                                  drop (nat (b_ptr b') + length bs) (b_buf b'),
                                b_ptr := b_ptr b' + sz\<rparr>)
              else Undef))"

definition Blob_Read :: "int \<Rightarrow> blob \<Rightarrow> (byte list \<times> blob) outcome" where
  "Blob_Read sz b =
     (let n = (if \<not> Blob_CanAdvance sz b
               then (if b_size b - b_ptr b > 0 then b_size b - b_ptr b else 0)
               else sz) in
      if n < 0 \<or> b_ptr b < 0 \<or> b_ptr b + n > b_allocated b then Undef
      else Done (take (nat n) (drop (nat (b_ptr b)) (b_buf b)), b\<lparr>b_ptr := b_ptr b + n\<rparr>))"

datatype seek_origin = SEEK_CUR | SEEK_END | SEEK_SET

definition Blob_Seek :: "int \<Rightarrow> seek_origin \<Rightarrow> blob \<Rightarrow> int \<times> blob" where
  "Blob_Seek offset origin b =
     (case origin of
        SEEK_SET \<Rightarrow> if offset > b_size b \<or> offset < 0 then (- 1, b) else (0, b\<lparr>b_ptr := offset\<rparr>)
      | SEEK_CUR \<Rightarrow> if b_ptr b + offset > b_size b \<or> b_ptr b + offset < 0 then (- 1, b)
                     else (0, b\<lparr>b_ptr := b_ptr b + offset\<rparr>)
      | SEEK_END \<Rightarrow> if b_size b + offset > b_size b \<or> b_size b + offset < 0 then (- 1, b)
                     else (0, b\<lparr>b_ptr := b_size b + offset\<rparr>))"

definition Blob_EOS :: "blob \<Rightarrow> bool" where "Blob_EOS b \<longleftrightarrow> b_ptr b = b_size b"
definition Blob_Tell :: "blob \<Rightarrow> int" where "Blob_Tell b = b_ptr b"
definition Blob_Len :: "blob \<Rightarrow> int" where "Blob_Len b = b_size b"

section \<open>The functions on bytes\<close>

definition swap_dword :: "32 word \<Rightarrow> 32 word" where
  "swap_dword n = (drop_bit 24 (n AND 0xFF000000)) OR (drop_bit 8 (n AND 0x00FF0000)) OR
     (push_bit 8 (n AND 0x0000FF00)) OR (push_bit 24 (n AND 0x000000FF))"

definition swap_word :: "16 word \<Rightarrow> 16 word" where
  "swap_word n = (drop_bit 8 n AND 0x00FF) OR (push_bit 8 n AND 0xFF00)"

text \<open>The loop of a swap over the cells of the memory; \<open>f\<close> reverses one cell.\<close>

fun swap_cells :: "nat \<Rightarrow> nat \<Rightarrow> (byte list \<Rightarrow> byte list) \<Rightarrow> byte list \<Rightarrow> byte list" where
  "swap_cells 0 w f bs = bs"
| "swap_cells (Suc num) w f bs = f (take w bs) @ swap_cells num w f (drop w bs)"

definition blob_swap4 :: "blob \<Rightarrow> blob" where
  "blob_swap4 b =
     b\<lparr>b_buf := swap_cells (nat ((Blob_Len b - Blob_Len b mod 4) div 4)) 4
        (\<lambda>c. le_bytes 4 (swap_dword (of_le_bytes c))) (b_buf b)\<rparr>"

definition blob_swap2 :: "blob \<Rightarrow> blob" where
  "blob_swap2 b =
     b\<lparr>b_buf := swap_cells (nat ((Blob_Len b - Blob_Len b mod 2) div 2)) 2
        (\<lambda>c. le_bytes 2 (swap_word (of_le_bytes c))) (b_buf b)\<rparr>"

definition blob_resize :: "int \<Rightarrow> blob \<Rightarrow> blob outcome" where
  "blob_resize sz b =
     obind (Blob_Resize sz b) (\<lambda>(ok, b'). if \<not> ok then Fail ''resize failed'' else Done b')"

definition blob_set :: "int \<Rightarrow> int \<Rightarrow> blob \<Rightarrow> blob outcome" where
  "blob_set idx val b =
     (if idx < 0 \<or> idx \<ge> Blob_Len b then Fail ''index out of range''
      else if nat idx < length (b_buf b) then Done (b\<lparr>b_buf := (b_buf b)[nat idx := word_of_int val]\<rparr>)
      else Undef)"

definition blob_get :: "int \<Rightarrow> blob \<Rightarrow> int outcome" where
  "blob_get idx b =
     (if idx < 0 \<or> idx \<ge> Blob_Len b then Fail ''index out of range''
      else if nat idx < length (b_buf b) then Done (uint (b_buf b ! nat idx)) else Undef)"

text \<open>The next index of an iteration, from null or from the last index.\<close>

definition blob_nexti :: "int option \<Rightarrow> blob \<Rightarrow> int option" where
  "blob_nexti idx b =
     (case idx of None \<Rightarrow> Some 0
      | Some i \<Rightarrow> if i + 1 < Blob_Len b then Some (i + 1) else None)"

definition blob_constructor :: "int \<Rightarrow> blob outcome" where
  "blob_constructor sz = (if sz < 0 then Fail ''cannot create blob with negative size'' else Blob_new sz)"

definition blob_cloned :: "blob \<Rightarrow> blob outcome" where
  "blob_cloned other =
     obind (Blob_new (Blob_Len other)) (\<lambda>b.
       if nat (Blob_Len b) \<le> length (b_buf other)
       then Done (b\<lparr>b_buf := take (nat (Blob_Len b)) (b_buf other)\<rparr>) else Undef)"

text \<open>
  The casts read the memory of a number as another type.  The float is four bytes and
  the integer eight: casting the float to an integer reads four bytes \<open>rest\<close> that
  are not the float's.
\<close>

definition g_casti2f :: "sqint \<Rightarrow> sqfloat" where "g_casti2f i = ucast i"

definition g_castf2i :: "32 word \<Rightarrow> sqfloat \<Rightarrow> sqint" where
  "g_castf2i rest f = ucast f OR push_bit 32 (ucast rest)"

text \<open>The short is promoted to a signed 32-bit integer before it is shifted.\<close>

definition g_swap2 :: "sqint \<Rightarrow> sqint" where
  "g_swap2 i = (let s = (scast (ucast i :: 16 word) :: 32 word) in
     scast (push_bit 8 s OR ((signed_drop_bit 8 s) AND 0x00FF)))"

definition g_swap4 :: "sqint \<Rightarrow> sqint" where "g_swap4 i = ucast (swap_dword (ucast i))"
definition g_swapfloat :: "sqfloat \<Rightarrow> sqfloat" where "g_swapfloat f = swap_dword f"

section \<open>A blob is a file in memory\<close>

definition blob_inv :: "blob \<Rightarrow> bool" where
  "blob_inv b \<longleftrightarrow> 0 \<le> b_ptr b \<and> b_ptr b \<le> b_size b \<and> b_size b \<le> b_allocated b \<and> b_owns b"

text \<open>What a reader sees: the bytes below the size, and the position.\<close>

definition blob_view :: "blob \<Rightarrow> byte list \<times> nat" where
  "blob_view b = (take (nat (b_size b)) (b_buf b), nat (b_ptr b))"

lemma Blob_Resize_ok:
  assumes "blob_inv b" "0 \<le> n"
  shows "\<exists>b'. Blob_Resize n b = Done (True, b') \<and> blob_inv b' \<and> b_allocated b' = n \<and>
     b_size b' = min (b_size b) n \<and> b_ptr b' = min (b_ptr b) n \<and>
     take (nat (b_size b')) (b_buf b') = take (nat (b_size b')) (b_buf b) \<and>
     drop (nat (b_size b')) (b_buf b') = (if n = b_allocated b then drop (nat (b_size b)) (b_buf b)
        else replicate (nat n - nat (b_size b')) 0)"
  using assms by (auto simp: Blob_Resize_def blob_inv_def b_allocated_def Let_def min_def nat_le_iff)

lemma Blob_Grow_ok:
  assumes "blob_inv b" "0 \<le> n"
  shows "\<exists>b'. Blob_GrowBufOf n b = Done (True, b') \<and> blob_inv b' \<and>
     b_size b' = b_size b + n \<and> b_ptr b' = b_ptr b \<and>
     take (nat (b_size b)) (b_buf b') = take (nat (b_size b)) (b_buf b)"
proof (cases "b_size b + n > b_allocated b")
  case True
  let ?m = "if b_size b + n > b_size b * 2 then b_size b + n else b_size b * 2"
  have m: "0 \<le> ?m" "b_size b \<le> ?m" "b_size b + n \<le> ?m"
    using assms by (auto simp: blob_inv_def)
  from Blob_Resize_ok [OF assms(1) m(1)] obtain b' where b': "Blob_Resize ?m b = Done (True, b')"
    "blob_inv b'" "b_allocated b' = ?m" "b_size b' = b_size b" "b_ptr b' = b_ptr b"
    "take (nat (b_size b)) (b_buf b') = take (nat (b_size b)) (b_buf b)"
    using m assms(1) by (auto simp: blob_inv_def min_def)
  have "Blob_GrowBufOf n b = obind (Blob_Resize ?m b) (\<lambda>(ret, b'). Done (ret, b'\<lparr>b_size := b_size b' + n\<rparr>))"
    using True by (simp add: Blob_GrowBufOf_def)
  then show ?thesis using b' m assms by (auto simp: blob_inv_def b_allocated_def)
next
  case False
  then show ?thesis using assms by (auto simp: Blob_GrowBufOf_def blob_inv_def b_allocated_def)
qed

lemma Blob_Write_ok:
  assumes "blob_inv b"
  shows "\<exists>b'. Blob_Write bs b = Done (int (length bs), b') \<and> blob_inv b' \<and>
     blob_view b' = (take (nat (b_ptr b)) (b_buf b) @ bs @
        drop (nat (b_ptr b) + length bs) (take (nat (b_size b)) (b_buf b)), nat (b_ptr b) + length bs)"
proof -
  define p where "p = nat (b_ptr b)"
  have "\<exists>b1. (if \<not> Blob_CanAdvance (int (length bs)) b
             then obind (Blob_GrowBufOf (b_ptr b + int (length bs) - b_size b) b) (\<lambda>(_, b'). Done b')
             else Done b) = Done b1 \<and> blob_inv b1 \<and> b_ptr b1 = b_ptr b \<and>
       b_size b1 = max (b_size b) (b_ptr b + int (length bs)) \<and>
       take (nat (b_size b)) (b_buf b1) = take (nat (b_size b)) (b_buf b)"
    using Blob_Grow_ok [OF assms, of "b_ptr b + int (length bs) - b_size b"] assms
    by (auto simp: Blob_CanAdvance_def max_def)
  then obtain b1 where b1: "(if \<not> Blob_CanAdvance (int (length bs)) b
             then obind (Blob_GrowBufOf (b_ptr b + int (length bs) - b_size b) b) (\<lambda>(_, b'). Done b')
             else Done b) = Done b1" "blob_inv b1" "b_ptr b1 = b_ptr b"
       "b_size b1 = max (b_size b) (b_ptr b + int (length bs))"
       "take (nat (b_size b)) (b_buf b1) = take (nat (b_size b)) (b_buf b)" by blast
  have ptr: "b_ptr b = int p" "p \<le> nat (b_size b)" using assms by (auto simp: p_def blob_inv_def)
  define l where "l = length bs"
  define b' where "b' = b1\<lparr>b_buf := take p (b_buf b1) @ bs @ drop (p + l) (b_buf b1), b_ptr := int (p + l)\<rparr>"
  have pl: "p \<le> length (b_buf b)" using ptr(2) assms by (auto simp: blob_inv_def b_allocated_def)
  have fst: "take p (b_buf b1) = take p (b_buf b)"
    using b1(5) ptr(2) by (metis min.absorb1 take_take)
  have len: "p + l \<le> length (b_buf b1)" and sz: "nat (b_size b1) = max (nat (b_size b)) (p + l)"
    "int (p + l) \<le> b_size b1"
    using b1(2,4) ptr(1) unfolding l_def by (auto simp: blob_inv_def b_allocated_def)
  have rest: "take (nat (b_size b) - (p + l)) (drop (p + l) (b_buf b1)) =
      drop (p + l) (take (nat (b_size b)) (b_buf b))"
    using b1(5) by (metis drop_take)
  have w: "Blob_Write bs b = Done (int l, b')"
    unfolding Blob_Write_def Let_def b1(1) using len ptr(1) b1(3)
    by (simp add: b'_def l_def b_allocated_def)
  have inv: "blob_inv b'"
    using b1(2) len sz(2) by (auto simp: b'_def blob_inv_def b_allocated_def l_def)
  have "take (max (nat (b_size b)) (p + l)) (b_buf b') =
      take p (b_buf b) @ bs @ drop (p + l) (take (nat (b_size b)) (b_buf b))"
    using len fst rest pl by (auto simp: b'_def l_def max_def)
  then have "blob_view b' = (take p (b_buf b) @ bs @ drop (p + l) (take (nat (b_size b)) (b_buf b)), p + l)"
    using sz(1) by (simp add: blob_view_def) (simp add: b'_def nat_add_distrib)
  with w inv show ?thesis by (simp add: l_def p_def)
qed

lemma Blob_Read_ok:
  assumes "blob_inv b"
  shows "\<exists>b'. Blob_Read (int n) b = Done (take n (drop (nat (b_ptr b)) (take (nat (b_size b)) (b_buf b))), b') \<and>
     blob_inv b' \<and> blob_view b' = (fst (blob_view b), min (nat (b_size b)) (nat (b_ptr b) + n))"
proof -
  have sz: "nat (b_size b) \<le> length (b_buf b)" using assms by (auto simp: blob_inv_def b_allocated_def)
  show ?thesis
  proof (cases "b_ptr b + int n > b_size b")
    case True
    then have "nat (b_size b) - nat (b_ptr b) \<le> n" using assms by (auto simp: blob_inv_def)
    then show ?thesis using True assms sz
      by (auto simp: Blob_Read_def Blob_CanAdvance_def blob_inv_def b_allocated_def blob_view_def
          drop_take nat_diff_distrib Let_def)
  next
    case False
    then have "n \<le> nat (b_size b) - nat (b_ptr b)" using assms by (auto simp: blob_inv_def)
    then show ?thesis using False assms sz
      by (auto simp: Blob_Read_def Blob_CanAdvance_def blob_inv_def b_allocated_def blob_view_def
          drop_take nat_add_distrib Let_def min_def)
  qed
qed

section \<open>Properties\<close>

text \<open>A program of stream operations, on a blob and on a list of bytes with a position.\<close>

datatype stream_op = SWrite "byte list" | SRead nat | SSeek int seek_origin | SResize int

fun run_blob :: "stream_op list \<Rightarrow> blob \<Rightarrow> (byte list list \<times> blob) outcome" where
  "run_blob [] b = Done ([], b)"
| "run_blob (SWrite bs # ops) b = obind (Blob_Write bs b) (\<lambda>(_, b'). run_blob ops b')"
| "run_blob (SRead n # ops) b =
     obind (Blob_Read (int n) b) (\<lambda>(bs, b'). obind (run_blob ops b') (\<lambda>(out, b''). Done (bs # out, b'')))"
| "run_blob (SSeek off org # ops) b = run_blob ops (snd (Blob_Seek off org b))"
| "run_blob (SResize n # ops) b = obind (Blob_Resize n b) (\<lambda>(_, b'). run_blob ops b')"

definition seek_target :: "int \<Rightarrow> seek_origin \<Rightarrow> byte list \<times> nat \<Rightarrow> int" where
  "seek_target off org f =
     (case org of SEEK_SET \<Rightarrow> off | SEEK_CUR \<Rightarrow> int (snd f) + off | SEEK_END \<Rightarrow> int (length (fst f)) + off)"

fun run_file :: "stream_op list \<Rightarrow> byte list \<times> nat \<Rightarrow> byte list list \<times> (byte list \<times> nat)" where
  "run_file [] f = ([], f)"
| "run_file (SWrite bs # ops) (c, p) = run_file ops (take p c @ bs @ drop (p + length bs) c, p + length bs)"
| "run_file (SRead n # ops) (c, p) =
     (let (out, f) = run_file ops (c, min (length c) (p + n)) in (take n (drop p c) # out, f))"
| "run_file (SSeek off org # ops) (c, p) =
     (let q = seek_target off org (c, p) in
      run_file ops (c, if 0 \<le> q \<and> q \<le> int (length c) then nat q else p))"
| "run_file (SResize n # ops) (c, p) = run_file ops (take (nat n) c, min p (nat n))"

fun stream_op_ok :: "stream_op \<Rightarrow> bool" where
  "stream_op_ok (SResize n) \<longleftrightarrow> 0 \<le> n"
| "stream_op_ok _ \<longleftrightarrow> True"

lemma blob_view_len: "blob_inv b \<Longrightarrow> length (fst (blob_view b)) = nat (b_size b)"
  by (auto simp: blob_view_def blob_inv_def b_allocated_def)

lemma run_blob_refines:
  assumes "blob_inv b" "list_all stream_op_ok ops"
  shows "\<exists>b'. run_blob ops b = Done (fst (run_file ops (blob_view b)), b') \<and> blob_inv b' \<and>
     blob_view b' = snd (run_file ops (blob_view b))"
  using assms
proof (induction ops arbitrary: b)
  case (Cons x ops)
  from Cons.prems have ok: "stream_op_ok x" and oks: "list_all stream_op_ok ops" by auto
  obtain c p where v: "blob_view b = (c, p)" by (cases "blob_view b")
  then have cp: "take (nat (b_size b)) (b_buf b) = c" "nat (b_ptr b) = p" by (simp_all add: blob_view_def)
  have bounds: "b_ptr b = int p" "b_size b = int (length c)" "p \<le> length c"
    using Cons.prems(1) unfolding cp [symmetric] by (auto simp: blob_inv_def b_allocated_def)
  have tc: "take (length c) (b_buf b) = c" using cp(1) unfolding bounds(2) nat_int .
  have tp: "take p (b_buf b) = take p c" using bounds(3) unfolding cp(1) [symmetric] by (auto simp: min_def split: if_splits)
  show ?case
  proof (cases x)
    case (SWrite bs)
    from Blob_Write_ok [OF Cons.prems(1), of bs] obtain b1 where b1:
      "Blob_Write bs b = Done (int (length bs), b1)" "blob_inv b1"
      "blob_view b1 = (take p c @ bs @ drop (p + length bs) c, p + length bs)"
      unfolding cp tp by blast
    from Cons.IH [OF b1(2) oks] b1 SWrite v show ?thesis by auto
  next
    case (SRead n)
    from Blob_Read_ok [OF Cons.prems(1), of n] obtain b1 where b1:
      "Blob_Read (int n) b = Done (take n (drop p c), b1)" "blob_inv b1"
      "blob_view b1 = (c, min (length c) (p + n))"
      unfolding cp(2) v bounds(2) nat_int fst_conv tc by blast
    from Cons.IH [OF b1(2) oks] b1 SRead v show ?thesis by (auto simp: Let_def split_beta)
  next
    case (SSeek off org)
    let ?q = "seek_target off org (c, p)"
    have s: "snd (Blob_Seek off org b) = (if 0 \<le> ?q \<and> ?q \<le> b_size b then b\<lparr>b_ptr := ?q\<rparr> else b)"
      using bounds by (cases org) (auto simp: Blob_Seek_def seek_target_def)
    let ?b = "if 0 \<le> ?q \<and> ?q \<le> b_size b then b\<lparr>b_ptr := ?q\<rparr> else b"
    have "blob_inv ?b" "blob_view ?b = (c, if 0 \<le> ?q \<and> ?q \<le> int (length c) then nat ?q else p)"
      using Cons.prems(1) v bounds by (auto simp: blob_inv_def b_allocated_def blob_view_def)
    with Cons.IH [OF _ oks, of ?b] SSeek v s show ?thesis by (simp add: Let_def)
  next
    case (SResize n)
    with ok have n: "0 \<le> n" by simp
    from Blob_Resize_ok [OF Cons.prems(1) n] obtain b1 where b1:
      "Blob_Resize n b = Done (True, b1)" "blob_inv b1" "b_size b1 = min (b_size b) n"
      "b_ptr b1 = min (b_ptr b) n"
      "take (nat (b_size b1)) (b_buf b1) = take (nat (b_size b1)) (b_buf b)" by auto
    have "blob_view b1 = (take (nat n) c, min p (nat n))"
    proof -
      have "take (nat n) c = take (min (nat n) (length c)) (b_buf b)" using tc by (metis take_take)
      moreover have "nat (min (int (length c)) n) = min (nat n) (length c)"
        "nat (min (int p) n) = min p (nat n)" using n by (auto simp: min_def nat_le_iff)
      ultimately show ?thesis using b1(3,4,5) by (simp add: blob_view_def bounds(1,2))
    qed
    with Cons.IH [OF b1(2) oks] b1(1) SResize v show ?thesis by auto
  qed
qed simp

text \<open>
  C12. A blob is a file in memory.  On a new blob every program of writes, reads, seeks
  and resizes to sizes that are not negative is defined, and gives what it gives on a list
  of bytes with a position: writing overwrites from the position on and extends the end,
  reading stops at the end, a seek outside the bytes changes nothing, a resize to fewer
  bytes cuts the others off and moves the position back to the new end, and a resize to
  more bytes only allocates memory: the bytes, the length and the position stay.  That
  last case is not what the documentation of the library says of \<^verbatim>\<open>blob.resize\<close>, "resizes the
  blob to the specified size"; the theorem \<open>growing_resize_keeps_length\<close> below shows it
  on the function that scripts call.
\<close>

theorem blob_is_a_file:
  assumes "0 \<le> n" "list_all stream_op_ok ops"
  shows "\<exists>b b'. Blob_new n = Done b \<and>
     run_blob ops b = Done (fst (run_file ops (replicate (nat n) 0, 0)), b') \<and>
     blob_view b' = snd (run_file ops (replicate (nat n) 0, 0)) \<and>
     int (length (fst (blob_view b'))) = Blob_Len b' \<and> int (snd (blob_view b')) = Blob_Tell b' \<and>
     (Blob_EOS b' \<longleftrightarrow> snd (blob_view b') = length (fst (blob_view b')))"
proof -
  obtain b where b: "Blob_new n = Done b" "blob_inv b" "blob_view b = (replicate (nat n) 0, 0)"
    using assms(1) by (auto simp: Blob_new_def blob_inv_def b_allocated_def blob_view_def)
  from run_blob_refines [OF b(2) assms(2)] obtain b' where b':
    "run_blob ops b = Done (fst (run_file ops (blob_view b)), b')" "blob_inv b'"
    "blob_view b' = snd (run_file ops (blob_view b))" by blast
  have "int (length (fst (blob_view b'))) = Blob_Len b'" "int (snd (blob_view b')) = Blob_Tell b'"
    "Blob_EOS b' \<longleftrightarrow> snd (blob_view b') = length (fst (blob_view b'))"
    using b'(2) blob_view_len [OF b'(2)]
    by (auto simp: Blob_Len_def Blob_Tell_def Blob_EOS_def blob_view_def blob_inv_def b_allocated_def)
  with b b' show ?thesis by auto
qed

theorem blob_is_a_file_witness:
  "\<exists>b b'. Blob_new 2 = Done b \<and>
     run_blob [SWrite [1, 2, 3], SSeek (- 2) SEEK_END, SRead 5] b = Done ([[2, 3]], b') \<and>
     blob_view b' = ([1, 2, 3], 3)"
  using blob_is_a_file [of 2 "[SWrite [1, 2, 3], SSeek (- 2) SEEK_END, SRead 5]"]
  by (auto simp: seek_target_def Let_def)

text \<open>
  The documentation says that \<^verbatim>\<open>blob.resize\<close> resizes the blob to the size given.  For a size
  beyond the length it does not: the call succeeds and allocates the memory, but the length
  and the bytes are those from before, and the bytes that were asked for can neither be read
  nor written by their index.
\<close>

theorem growing_resize_keeps_length:
  assumes "blob_inv b" "Blob_Len b \<le> n"
  shows "\<exists>b'. blob_resize n b = Done b' \<and> b_allocated b' = n \<and>
     Blob_Len b' = Blob_Len b \<and> blob_view b' = blob_view b \<and>
     (\<forall>i val. Blob_Len b \<le> i \<longrightarrow> blob_get i b' = Fail ''index out of range'' \<and>
        blob_set i val b' = Fail ''index out of range'')"
proof -
  have "0 \<le> n" using assms by (simp add: blob_inv_def Blob_Len_def)
  from Blob_Resize_ok [OF assms(1) this] assms obtain b' where
    "Blob_Resize n b = Done (True, b')" "b_allocated b' = n" "b_size b' = b_size b"
    "b_ptr b' = b_ptr b" "take (nat (b_size b)) (b_buf b') = take (nat (b_size b)) (b_buf b)"
    by (auto simp: Blob_Len_def blob_inv_def min_def)
  then show ?thesis
    by (simp add: blob_resize_def blob_view_def Blob_Len_def blob_get_def blob_set_def)
qed

theorem growing_resize_keeps_length_witness:
  "\<exists>b'. blob_resize 5 \<lparr>b_buf = [7, 8], b_size = 2, b_ptr = 0, b_owns = True\<rparr> = Done b' \<and>
     Blob_Len b' = 2 \<and> blob_get 3 b' = Fail ''index out of range''"
  using growing_resize_keeps_length [of "\<lparr>b_buf = [7, 8], b_size = 2, b_ptr = 0, b_owns = True\<rparr>" 5]
  by (auto simp: blob_inv_def b_allocated_def Blob_Len_def)

lemma byte_masks:
  "(0x000000FF :: 32 word) = mask 8" "(0x0000FF00 :: 32 word) = push_bit 8 (mask 8)"
  "(0x00FF0000 :: 32 word) = push_bit 16 (mask 8)" "(0xFF000000 :: 32 word) = push_bit 24 (mask 8)"
  by (simp_all add: mask_eq_exp_minus_1)

lemma swap_dword_bytes: "le_bytes 4 (swap_dword n) = rev (le_bytes 4 n)"
  unfolding swap_dword_def byte_masks le_bytes_4
  by (auto intro!: bit_word_eqI simp: bit_simps)

lemma le_bytes_eq: "LENGTH('a) \<le> 8 * n \<Longrightarrow> le_bytes n v = le_bytes n w \<Longrightarrow> v = (w :: 'a::len word)"
  by (metis of_le_bytes_enc)

lemma swap_dword_twice: "swap_dword (swap_dword n) = n"
  by (rule le_bytes_eq [of 4]) (simp_all add: swap_dword_bytes)

lemma swap_word_bytes: "le_bytes 2 (swap_word n) = rev (le_bytes 2 n)"
  unfolding swap_word_def le_bytes_2
proof -
  have m: "(0x00FF :: 16 word) = mask 8" "(0xFF00 :: 16 word) = push_bit 8 (mask 8)"
    by (simp_all add: mask_eq_exp_minus_1)
  show "[ucast (drop_bit 8 n AND 0x00FF OR push_bit 8 n AND 0xFF00),
      ucast (drop_bit 8 (drop_bit 8 n AND 0x00FF OR push_bit 8 n AND 0xFF00))] =
    rev [ucast n, ucast (drop_bit 8 n) :: byte]"
    unfolding m by (auto intro!: bit_word_eqI simp: bit_simps)
qed

lemma le_enc_dec: "le_enc (length bs) (le_dec bs) = bs"
proof (induction bs)
  case (Cons b bs)
  have "unat b < 256" by (rule order_less_le_trans [OF unsigned_less]) simp
  with Cons show ?case by simp
qed simp

lemma le_dec_bound: "le_dec bs < 256 ^ length bs"
proof (induction bs)
  case (Cons b bs)
  have "unat b < 256" by (rule order_less_le_trans [OF unsigned_less]) simp
  with Cons show ?case by simp
qed simp

lemma le_bytes_of:
  assumes "length bs = n" "LENGTH('a::len) = 8 * n"
  shows "le_bytes n (of_le_bytes bs :: 'a word) = bs"
proof -
  have "le_dec bs < 2 ^ LENGTH('a)" using le_dec_bound [of bs] assms by (simp add: power_mult)
  then have "unat (of_nat (le_dec bs) :: 'a word) = le_dec bs"
    by (simp add: unat_of_nat take_bit_nat_eq_self)
  then show ?thesis using le_enc_dec [of bs] assms(1) by (simp add: le_bytes_def of_le_bytes_def)
qed

text \<open>Reversing every cell of a list of cells.\<close>

fun rev_cells :: "nat \<Rightarrow> nat \<Rightarrow> 'a list \<Rightarrow> 'a list" where
  "rev_cells 0 w bs = bs"
| "rev_cells (Suc num) w bs = rev (take w bs) @ rev_cells num w (drop w bs)"

lemma swap_cells_rev:
  assumes "\<And>c. length c = w \<Longrightarrow> f c = rev c"
  shows "num * w \<le> length bs \<Longrightarrow> swap_cells num w f bs = rev_cells num w bs"
  by (induction num arbitrary: bs) (simp_all add: assms)

lemma rev_cells_twice: "num * w \<le> length bs \<Longrightarrow> rev_cells num w (rev_cells num w bs) = bs"
  by (induction num arbitrary: bs) (simp_all add: min_def)

lemma length_rev_cells: "num * w \<le> length bs \<Longrightarrow> length (rev_cells num w bs) = length bs"
  by (induction num arbitrary: bs) simp_all

lemma cells_fit: "0 < w \<Longrightarrow> 0 \<le> s \<Longrightarrow> s \<le> int (length bs) \<Longrightarrow> nat ((s - s mod int w) div int w) * w \<le> length bs"
proof -
  assume a: "0 < w" "0 \<le> s" "s \<le> int (length bs)"
  have e: "s - s mod int w = (s div int w) * int w" by (simp add: minus_mod_eq_div_mult)
  then have "int (nat ((s - s mod int w) div int w) * w) = (s div int w) * int w"
    using a by (simp add: pos_imp_zdiv_nonneg_iff)
  also have "\<dots> \<le> s" using a(1) e [symmetric] by (simp add: pos_mod_sign)
  finally show ?thesis using a(3) by linarith
qed

text \<open>
  Reversing the bytes of a number.  The byte swaps are their own inverse and reverse
  the memory of the number, on words and in place on a blob (whose bytes that do not fill
  a word stay); casting a float to an integer and back gives the float, whatever the
  cast reads beside it.  But the 16-bit swap of an integer does not drop what the shift
  moves above the 16 bits: swapping 0x1234 gives 0x123412.
\<close>

theorem byte_swaps:
  "swap_dword (swap_dword n) = n \<and> le_bytes 4 (swap_dword n) = rev (le_bytes 4 n) \<and>
   le_bytes 2 (swap_word m) = rev (le_bytes 2 m) \<and>
   (blob_inv b \<longrightarrow> blob_swap4 (blob_swap4 b) = b \<and> blob_swap2 (blob_swap2 b) = b) \<and>
   g_casti2f (g_castf2i rest f) = f \<and> g_swapfloat (g_swapfloat f) = f \<and>
   g_swap2 0x1234 = 0x123412"
proof (intro conjI impI)
  have c4: "le_bytes 4 (swap_dword (of_le_bytes c)) = rev c" if "length c = 4" for c
    using that by (simp add: swap_dword_bytes le_bytes_of)
  have c2: "le_bytes 2 (swap_word (of_le_bytes c)) = rev c" if "length c = 2" for c
    using that by (simp add: swap_word_bytes le_bytes_of)
  assume i: "blob_inv b"
  then have s: "0 \<le> b_size b" "b_size b \<le> int (length (b_buf b))"
    by (auto simp: blob_inv_def b_allocated_def)
  note f4 = cells_fit [of 4 "b_size b" "b_buf b", OF _ s, simplified]
  note f2 = cells_fit [of 2 "b_size b" "b_buf b", OF _ s, simplified]
  show "blob_swap4 (blob_swap4 b) = b"
    using f4 by (simp add: blob_swap4_def Blob_Len_def swap_cells_rev [OF c4] rev_cells_twice length_rev_cells)
  show "blob_swap2 (blob_swap2 b) = b"
    using f2 by (simp add: blob_swap2_def Blob_Len_def swap_cells_rev [OF c2] rev_cells_twice length_rev_cells)
next
  show "g_casti2f (g_castf2i rest f) = f"
    unfolding g_casti2f_def g_castf2i_def by (auto intro!: bit_word_eqI simp: bit_simps)
  show "g_swap2 0x1234 = 0x123412" by code_simp
qed (simp_all add: swap_dword_twice swap_dword_bytes swap_word_bytes g_swapfloat_def)

theorem byte_swaps_witness:
  "blob_swap4 (blob_swap4 \<lparr>b_buf = [1, 2, 3, 4, 5], b_size = 5, b_ptr = 0, b_owns = True\<rparr>) =
     \<lparr>b_buf = [1, 2, 3, 4, 5], b_size = 5, b_ptr = 0, b_owns = True\<rparr>"
  using byte_swaps [of 0 0 "\<lparr>b_buf = [1, 2, 3, 4, 5], b_size = 5, b_ptr = 0, b_owns = True\<rparr>" 0 0]
  by (simp add: blob_inv_def b_allocated_def)

section \<open>A blob provides the byte channels\<close>

text \<open>
  As a sink, a blob has written the bytes below its position; as a source, it has those
  from its position to its end pending.
\<close>

interpretation blob_sink: byte_sink blob_inv "\<lambda>b. take (nat (b_ptr b)) (b_buf b)" Blob_Write
proof
  fix b :: blob and bs assume a: "blob_inv b"
  from Blob_Write_ok [OF a, of bs] obtain b' where b': "Blob_Write bs b = Done (int (length bs), b')"
    "blob_inv b'" "blob_view b' = (take (nat (b_ptr b)) (b_buf b) @ bs @
        drop (nat (b_ptr b) + length bs) (take (nat (b_size b)) (b_buf b)), nat (b_ptr b) + length bs)"
    by blast
  have le: "nat (b_ptr b) \<le> length (b_buf b)" "nat (b_ptr b') \<le> nat (b_size b')"
    using a b'(2) by (auto simp: blob_inv_def b_allocated_def)
  have "take (nat (b_ptr b')) (b_buf b') = take (snd (blob_view b')) (fst (blob_view b'))"
    using le(2) by (simp add: blob_view_def min_def)
  also have "\<dots> = take (nat (b_ptr b)) (b_buf b) @ bs" using b'(3) le(1) by simp
  finally show "\<exists>b'. Blob_Write bs b = Done (int (length bs), b') \<and> blob_inv b' \<and>
      take (nat (b_ptr b')) (b_buf b') = take (nat (b_ptr b)) (b_buf b) @ bs" using b' by blast
qed

definition blob_pending :: "blob \<Rightarrow> byte list" where
  "blob_pending b = drop (snd (blob_view b)) (fst (blob_view b))"

interpretation blob_source: byte_source blob_inv blob_pending Blob_Read
proof
  fix b :: blob and n assume a: "blob_inv b"
  from Blob_Read_ok [OF a, of n] blob_view_len [OF a]
  show "\<exists>b'. Blob_Read (int n) b = Done (take n (blob_pending b), b') \<and> blob_inv b' \<and>
      blob_pending b' = drop n (blob_pending b)"
    by (auto simp: blob_pending_def blob_view_def min_def add.commute)
qed

end
