(* ===== verification/ClosureStream.thy ===== *)
theory ClosureStream
  imports FuncState Blob
begin

text \<open>
  Saving and loading compiled functions, \<^verbatim>\<open>squirrel/sqobject.cpp\<close> (\<open>WriteTag\<close> to
  \<open>SQFunctionProto::Load\<close>).

  The write and the read function are given by the embedding program; they are arguments
  here, with the interfaces of theory \<open>Channels\<close>.  Numbers are stored as their memory
  on a little-endian machine with 64-bit integers, 32-bit floats and 8-bit characters.
  A function and its nested functions are a tree, so the list of functions in the record
  of a node is empty.  Reading a boolean takes every byte but 0 as true.
\<close>

section \<open>Checked input and output\<close>

definition SafeWrite :: "(byte list \<Rightarrow> 'u \<Rightarrow> (int \<times> 'u) outcome) \<Rightarrow> byte list \<Rightarrow> 'u \<Rightarrow> 'u outcome" where
  "SafeWrite wr bs u =
     obind (wr bs u) (\<lambda>(n, u').
       if n \<noteq> int (length bs) then Fail ''io error (write function failure)'' else Done u')"

text \<open>Nothing is read for a size of zero; a negative size is passed on to the reader's memory copy.\<close>

definition SafeRead ::
    "(int \<Rightarrow> 'u \<Rightarrow> (byte list \<times> 'u) outcome) \<Rightarrow> int \<Rightarrow> 'u \<Rightarrow> (byte list \<times> 'u) outcome" where
  "SafeRead rd sz u =
     (if sz = 0 then Done ([], u)
      else if sz < 0 then Undef
      else obind (rd sz u) (\<lambda>(bs, u').
        if int (length bs) \<noteq> sz
        then Fail ''io error, read function failure, the origin stream could be corrupted/trucated''
        else Done (bs, u')))"

definition SQ_CLOSURESTREAM_HEAD :: "32 word" where "SQ_CLOSURESTREAM_HEAD = 0x53514952"
definition SQ_CLOSURESTREAM_PART :: "32 word" where "SQ_CLOSURESTREAM_PART = 0x50415254"
definition SQ_CLOSURESTREAM_TAIL :: "32 word" where "SQ_CLOSURESTREAM_TAIL = 0x5441494C"

definition WriteTag :: "(byte list \<Rightarrow> 'u \<Rightarrow> (int \<times> 'u) outcome) \<Rightarrow> 32 word \<Rightarrow> 'u \<Rightarrow> 'u outcome" where
  "WriteTag wr tag = SafeWrite wr (le_bytes 4 tag)"

text \<open>A reader returns a value and the rest of the channel; readers are run one after the other.\<close>

definition rret :: "'a \<Rightarrow> 'u \<Rightarrow> ('a \<times> 'u) outcome" where
  "rret x u = Done (x, u)"

definition rbind :: "('u \<Rightarrow> ('a \<times> 'u) outcome) \<Rightarrow> ('a \<Rightarrow> 'u \<Rightarrow> ('b \<times> 'u) outcome) \<Rightarrow>
    'u \<Rightarrow> ('b \<times> 'u) outcome" where
  "rbind m f u = obind (m u) (\<lambda>(x, u'). f x u')"

fun rtimes :: "nat \<Rightarrow> ('u \<Rightarrow> ('a \<times> 'u) outcome) \<Rightarrow> 'u \<Rightarrow> ('a list \<times> 'u) outcome" where
  "rtimes 0 m = rret []"
| "rtimes (Suc n) m = rbind m (\<lambda>x. rbind (rtimes n m) (\<lambda>xs. rret (x # xs)))"

definition CheckTag ::
    "(int \<Rightarrow> 'u \<Rightarrow> (byte list \<times> 'u) outcome) \<Rightarrow> 32 word \<Rightarrow> 'u \<Rightarrow> (unit \<times> 'u) outcome" where
  "CheckTag rd tag =
     rbind (SafeRead rd 4) (\<lambda>bs u.
       if of_le_bytes bs \<noteq> tag then Fail ''invalid or corrupted closure stream'' else Done ((), u))"

definition read_word :: "(int \<Rightarrow> 'u \<Rightarrow> (byte list \<times> 'u) outcome) \<Rightarrow> 'u \<Rightarrow> (sqint \<times> 'u) outcome" where
  "read_word rd = rbind (SafeRead rd 8) (\<lambda>bs. rret (of_le_bytes bs))"

section \<open>Objects\<close>

definition chars_bytes :: "string \<Rightarrow> byte list" where
  "chars_bytes s = map (\<lambda>c. of_nat (of_char c)) s"

definition bytes_chars :: "byte list \<Rightarrow> string" where
  "bytes_chars bs = map (\<lambda>b. char_of (unat b)) bs"

definition cannot_serialize :: "32 word \<Rightarrow> 'a outcome" where
  "cannot_serialize t =
     (case IdType2Name t of Some name \<Rightarrow> Fail (''cannot serialize a '' @ name) | None \<Rightarrow> Undef)"

fun WriteObject :: "(byte list \<Rightarrow> 'u \<Rightarrow> (int \<times> 'u) outcome) \<Rightarrow> sqobj \<Rightarrow> 'u \<Rightarrow> 'u outcome" where
  "WriteObject wr ob =
     steps
      [SafeWrite wr (le_bytes 4 (sqobjtype ob)),
       \<lambda>u. case ob of
          OString s \<Rightarrow> steps [SafeWrite wr (le_bytes 8 (of_nat (length s) :: sqint)),
                             SafeWrite wr (chars_bytes s)] u
        | OInteger i \<Rightarrow> SafeWrite wr (le_bytes 8 i) u
        | OFloat f \<Rightarrow> SafeWrite wr (le_bytes 4 f) u
        | ONull \<Rightarrow> Done u
        | _ \<Rightarrow> cannot_serialize (sqobjtype ob)]"

definition ReadObject :: "(int \<Rightarrow> 'u \<Rightarrow> (byte list \<times> 'u) outcome) \<Rightarrow> 'u \<Rightarrow> (sqobj \<times> 'u) outcome" where
  "ReadObject rd =
     rbind (SafeRead rd 4) (\<lambda>bs.
       let t = of_le_bytes bs in
       if t = sqobjtype (OString []) then
         rbind (read_word rd) (\<lambda>len.
         rbind (SafeRead rd (sint len)) (\<lambda>cs. rret (OString (bytes_chars cs))))
       else if t = sqobjtype (OInteger 0) then rbind (read_word rd) (\<lambda>i. rret (OInteger i))
       else if t = sqobjtype (OFloat 0) then
         rbind (SafeRead rd 4) (\<lambda>fs. rret (OFloat (of_le_bytes fs)))
       else if t = sqobjtype ONull then rret ONull
       else (\<lambda>u. cannot_serialize t))"

section \<open>Functions\<close>

datatype fproto = FProto (fnode: sqfuncproto) (fchildren: "fproto list")

definition int_bytes :: "int \<Rightarrow> byte list" where
  "int_bytes i = le_bytes 8 (word_of_int i :: sqint)"

definition line_bytes :: "sqlineinfo \<Rightarrow> byte list" where
  "line_bytes li = int_bytes (li_line li) @ int_bytes (li_op li)"

definition instr_bytes :: "sqinstruction \<Rightarrow> byte list" where
  "instr_bytes i = le_bytes 4 (i_arg1 i) @ [opcode_byte (i_op i), i_arg0 i, i_arg2 i, i_arg3 i]"

text \<open>
  The type of a captured variable is four bytes, but eight are written: \<open>pad\<close> is what
  follows them in memory.
\<close>

definition outertype_bytes :: "32 word \<Rightarrow> outertype \<Rightarrow> byte list" where
  "outertype_bytes pad t = le_bytes 4 (case t of otLOCAL \<Rightarrow> (0 :: 32 word) | otOUTER \<Rightarrow> (1 :: 32 word)) @ le_bytes 4 pad"

definition write_outer :: "(byte list \<Rightarrow> 'u \<Rightarrow> (int \<times> 'u) outcome) \<Rightarrow> 32 word \<Rightarrow> sqoutervar \<Rightarrow> 'u \<Rightarrow> 'u outcome" where
  "write_outer wr pad ov =
     steps [SafeWrite wr (outertype_bytes pad (ov_type ov)),
            WriteObject wr (ov_src ov), WriteObject wr (ov_name ov)]"

definition write_local :: "(byte list \<Rightarrow> 'u \<Rightarrow> (int \<times> 'u) outcome) \<Rightarrow> sqlocalvarinfo \<Rightarrow> 'u \<Rightarrow> 'u outcome" where
  "write_local wr lvi =
     steps [WriteObject wr (lv_name lvi), SafeWrite wr (le_bytes 8 (lv_pos lvi)),
            SafeWrite wr (le_bytes 8 (lv_start_op lvi)), SafeWrite wr (le_bytes 8 (lv_end_op lvi))]"

fun Proto_Save :: "(byte list \<Rightarrow> 'u \<Rightarrow> (int \<times> 'u) outcome) \<Rightarrow> 32 word \<Rightarrow> fproto \<Rightarrow> 'u \<Rightarrow> 'u outcome" where
  "Proto_Save wr pad (FProto f functions) =
     steps
      [WriteTag wr SQ_CLOSURESTREAM_PART,
       WriteObject wr (fp_sourcename f),
       WriteObject wr (fp_name f),
       WriteTag wr SQ_CLOSURESTREAM_PART,
       SafeWrite wr (int_bytes (int (length (fp_literals f)))),
       SafeWrite wr (int_bytes (int (length (fp_parameters f)))),
       SafeWrite wr (int_bytes (int (length (fp_outervalues f)))),
       SafeWrite wr (int_bytes (int (length (fp_localvarinfos f)))),
       SafeWrite wr (int_bytes (int (length (fp_lineinfos f)))),
       SafeWrite wr (int_bytes (int (length (fp_defaultparams f)))),
       SafeWrite wr (int_bytes (int (length (fp_instructions f)))),
       SafeWrite wr (int_bytes (int (length functions))),
       WriteTag wr SQ_CLOSURESTREAM_PART,
       steps (map (WriteObject wr) (fp_literals f)),
       WriteTag wr SQ_CLOSURESTREAM_PART,
       steps (map (WriteObject wr) (fp_parameters f)),
       WriteTag wr SQ_CLOSURESTREAM_PART,
       steps (map (write_outer wr pad) (fp_outervalues f)),
       WriteTag wr SQ_CLOSURESTREAM_PART,
       steps (map (write_local wr) (fp_localvarinfos f)),
       WriteTag wr SQ_CLOSURESTREAM_PART,
       SafeWrite wr (concat (map line_bytes (fp_lineinfos f))),
       WriteTag wr SQ_CLOSURESTREAM_PART,
       SafeWrite wr (concat (map int_bytes (fp_defaultparams f))),
       WriteTag wr SQ_CLOSURESTREAM_PART,
       SafeWrite wr (concat (map instr_bytes (fp_instructions f))),
       WriteTag wr SQ_CLOSURESTREAM_PART,
       steps (map (\<lambda>c. Proto_Save wr pad c) functions),
       SafeWrite wr (int_bytes (fp_stacksize f)),
       SafeWrite wr [if fp_bgenerator f then 1 else 0],
       SafeWrite wr (int_bytes (fp_varparams f))]"

definition Closure_Save :: "(byte list \<Rightarrow> 'u \<Rightarrow> (int \<times> 'u) outcome) \<Rightarrow> 32 word \<Rightarrow> fproto \<Rightarrow> 'u \<Rightarrow> 'u outcome" where
  "Closure_Save wr pad func =
     steps
      [WriteTag wr SQ_CLOSURESTREAM_HEAD,
       WriteTag wr 1,
       WriteTag wr 8,
       WriteTag wr 4,
       Proto_Save wr pad func,
       WriteTag wr SQ_CLOSURESTREAM_TAIL]"

section \<open>Loading functions\<close>

definition bytes_int :: "byte list \<Rightarrow> int" where
  "bytes_int bs = sint (of_le_bytes bs :: sqint)"

definition bytes_line :: "byte list \<Rightarrow> sqlineinfo" where
  "bytes_line bs = \<lparr>li_line = bytes_int (take 8 bs), li_op = bytes_int (drop 8 bs)\<rparr>"

text \<open>A byte that is no operation code has no execution; loading one is left undefined here.\<close>

definition bytes_instr :: "byte list \<Rightarrow> sqinstruction option" where
  "bytes_instr bs =
     map_option (\<lambda>opc. \<lparr>i_arg1 = of_le_bytes (take 4 bs), i_op = opc, i_arg0 = bs ! 5,
                        i_arg2 = bs ! 6, i_arg3 = bs ! 7\<rparr>)
       (byte_opcode (bs ! 4))"

fun cells :: "nat \<Rightarrow> nat \<Rightarrow> 'a list \<Rightarrow> 'a list list" where
  "cells 0 w bs = []"
| "cells (Suc n) w bs = take w bs # cells n w (drop w bs)"

fun all_some :: "'a option list \<Rightarrow> 'a list option" where
  "all_some [] = Some []"
| "all_some (None # xs) = None"
| "all_some (Some x # xs) = map_option ((#) x) (all_some xs)"

definition read_outer :: "(int \<Rightarrow> 'u \<Rightarrow> (byte list \<times> 'u) outcome) \<Rightarrow> 'u \<Rightarrow> (sqoutervar \<times> 'u) outcome" where
  "read_outer rd =
     rbind (read_word rd) (\<lambda>t.
     rbind (ReadObject rd) (\<lambda>src.
     rbind (ReadObject rd) (\<lambda>name u.
       let ty = (ucast t :: 32 word) in
       if ty = 0 then Done (\<lparr>ov_type = otLOCAL, ov_name = name, ov_src = src\<rparr>, u)
       else if ty = 1 then Done (\<lparr>ov_type = otOUTER, ov_name = name, ov_src = src\<rparr>, u)
       else Undef)))"

definition read_local :: "(int \<Rightarrow> 'u \<Rightarrow> (byte list \<times> 'u) outcome) \<Rightarrow> 'u \<Rightarrow> (sqlocalvarinfo \<times> 'u) outcome" where
  "read_local rd =
     rbind (ReadObject rd) (\<lambda>name.
     rbind (read_word rd) (\<lambda>pos.
     rbind (read_word rd) (\<lambda>start_op.
     rbind (read_word rd) (\<lambda>end_op.
     rret \<lparr>lv_name = name, lv_start_op = start_op, lv_end_op = end_op, lv_pos = pos\<rparr>))))"

text \<open>A count: the allocation of a function with a negative one is undefined.\<close>

definition read_count :: "(int \<Rightarrow> 'u \<Rightarrow> (byte list \<times> 'u) outcome) \<Rightarrow> 'u \<Rightarrow> (nat \<times> 'u) outcome" where
  "read_count rd = rbind (read_word rd) (\<lambda>w u. if sint w < 0 then Undef else Done (nat (sint w), u))"

fun Proto_Load :: "nat \<Rightarrow> (int \<Rightarrow> 'u \<Rightarrow> (byte list \<times> 'u) outcome) \<Rightarrow> 'u \<Rightarrow> (fproto \<times> 'u) outcome" where
  "Proto_Load 0 rd = (\<lambda>u. Undef)"
| "Proto_Load (Suc fuel) rd =
     rbind (CheckTag rd SQ_CLOSURESTREAM_PART) (\<lambda>_.
     rbind (ReadObject rd) (\<lambda>sourcename.
     rbind (ReadObject rd) (\<lambda>name.
     rbind (CheckTag rd SQ_CLOSURESTREAM_PART) (\<lambda>_.
     rbind (read_count rd) (\<lambda>nliterals.
     rbind (read_count rd) (\<lambda>nparameters.
     rbind (read_count rd) (\<lambda>noutervalues.
     rbind (read_count rd) (\<lambda>nlocalvarinfos.
     rbind (read_count rd) (\<lambda>nlineinfos.
     rbind (read_count rd) (\<lambda>ndefaultparams.
     rbind (read_count rd) (\<lambda>ninstructions.
     rbind (read_count rd) (\<lambda>nfunctions.
     rbind (CheckTag rd SQ_CLOSURESTREAM_PART) (\<lambda>_.
     rbind (rtimes nliterals (ReadObject rd)) (\<lambda>literals.
     rbind (CheckTag rd SQ_CLOSURESTREAM_PART) (\<lambda>_.
     rbind (rtimes nparameters (ReadObject rd)) (\<lambda>parameters.
     rbind (CheckTag rd SQ_CLOSURESTREAM_PART) (\<lambda>_.
     rbind (rtimes noutervalues (read_outer rd)) (\<lambda>outervalues.
     rbind (CheckTag rd SQ_CLOSURESTREAM_PART) (\<lambda>_.
     rbind (rtimes nlocalvarinfos (read_local rd)) (\<lambda>localvarinfos.
     rbind (CheckTag rd SQ_CLOSURESTREAM_PART) (\<lambda>_.
     rbind (SafeRead rd (16 * int nlineinfos)) (\<lambda>lines.
     rbind (CheckTag rd SQ_CLOSURESTREAM_PART) (\<lambda>_.
     rbind (SafeRead rd (8 * int ndefaultparams)) (\<lambda>defaults.
     rbind (CheckTag rd SQ_CLOSURESTREAM_PART) (\<lambda>_.
     rbind (SafeRead rd (8 * int ninstructions)) (\<lambda>instrs.
     rbind (CheckTag rd SQ_CLOSURESTREAM_PART) (\<lambda>_.
     rbind (rtimes nfunctions (Proto_Load fuel rd)) (\<lambda>functions.
     rbind (read_word rd) (\<lambda>stacksize.
     rbind (SafeRead rd 1) (\<lambda>bgenerator.
     rbind (read_word rd) (\<lambda>varparams u.
       case all_some (map bytes_instr (cells ninstructions 8 instrs)) of
         None \<Rightarrow> Undef
       | Some instructions \<Rightarrow>
           Done (FProto \<lparr>fp_sourcename = sourcename, fp_name = name, fp_stacksize = sint stacksize,
              fp_bgenerator = (bgenerator ! 0 \<noteq> 0), fp_varparams = sint varparams,
              fp_localvarinfos = localvarinfos,
              fp_lineinfos = map bytes_line (cells nlineinfos 16 lines),
              fp_literals = literals, fp_parameters = parameters, fp_functions = [],
              fp_outervalues = outervalues,
              fp_defaultparams = map bytes_int (cells ndefaultparams 8 defaults),
              fp_instructions = instructions\<rparr> functions, u))))))))))))))))))))))))))))))))"

definition Closure_Load :: "nat \<Rightarrow> (int \<Rightarrow> 'u \<Rightarrow> (byte list \<times> 'u) outcome) \<Rightarrow> 'u \<Rightarrow> (fproto \<times> 'u) outcome" where
  "Closure_Load fuel rd =
     rbind (CheckTag rd SQ_CLOSURESTREAM_HEAD) (\<lambda>_.
     rbind (CheckTag rd 1) (\<lambda>_.
     rbind (CheckTag rd 8) (\<lambda>_.
     rbind (CheckTag rd 4) (\<lambda>_.
     rbind (Proto_Load fuel rd) (\<lambda>func.
     rbind (CheckTag rd SQ_CLOSURESTREAM_TAIL) (\<lambda>_.
     rret func))))))"

end
