(* ===== verification/ClosureStreamProps.thy ===== *)
theory ClosureStreamProps
  imports ClosureStream
begin

text \<open>
  What is saved can be loaded: the bytes of a function, that \<open>Save\<close> emits them on any
  sink, that \<open>Load\<close> reads them back from any source and consumes exactly them, and that
  it fails on every part of them that misses the end.
\<close>

section \<open>Emitting and reading\<close>

definition emits :: "('u \<Rightarrow> bool) \<Rightarrow> ('u \<Rightarrow> byte list) \<Rightarrow> ('u \<Rightarrow> 'u outcome) \<Rightarrow> byte list \<Rightarrow> bool" where
  "emits ok written f bs \<longleftrightarrow>
     (\<forall>u. ok u \<longrightarrow> (\<exists>u'. f u = Done u' \<and> ok u' \<and> written u' = written u @ bs))"

lemma emits_steps:
  "list_all2 (emits ok written) fs bss \<Longrightarrow> emits ok written (steps fs) (concat bss)"
proof (induction fs bss rule: list_all2_induct)
  case (Cons f fs bs bss)
  show ?case unfolding emits_def
  proof (intro allI impI)
    fix u assume "ok u"
    then obtain u1 where u1: "f u = Done u1" "ok u1" "written u1 = written u @ bs"
      using Cons.hyps(1) by (auto simp: emits_def)
    then obtain u2 where "steps fs u1 = Done u2" "ok u2" "written u2 = written u1 @ concat bss"
      using Cons.IH by (auto simp: emits_def)
    with u1 show "\<exists>u'. steps (f # fs) u = Done u' \<and> ok u' \<and> written u' = written u @ concat (bs # bss)"
      by simp
  qed
qed (simp add: emits_def)

lemma emits_map: "(\<And>x. x \<in> set xs \<Longrightarrow> emits ok written (f x) (g x)) \<Longrightarrow>
   emits ok written (steps (map f xs)) (concat (map g xs))"
  by (rule emits_steps) (simp add: list_all2_map1 list_all2_map2 list.rel_refl_strong)

definition reads :: "('u \<Rightarrow> bool) \<Rightarrow> ('u \<Rightarrow> byte list) \<Rightarrow> ('u \<Rightarrow> ('a \<times> 'u) outcome) \<Rightarrow>
    byte list \<Rightarrow> 'a \<Rightarrow> bool" where
  "reads ok pending m bs x \<longleftrightarrow>
     (\<forall>u rest. ok u \<and> pending u = bs @ rest \<longrightarrow> (\<exists>u'. m u = Done (x, u') \<and> ok u' \<and> pending u' = rest)) \<and>
     (\<forall>u. ok u \<and> strict_prefix (pending u) bs \<longrightarrow> (\<exists>e. m u = Fail e))"

lemma reads_ret: "(\<And>u. m u = Done (x, u)) \<Longrightarrow> reads ok pending m [] x"
  by (simp add: reads_def)

lemma reads_bind:
  assumes "reads ok pending m b1 x" "reads ok pending (f x) b2 y"
  shows "reads ok pending (rbind m f) (b1 @ b2) y"
  unfolding reads_def
proof (intro conjI allI impI)
  fix u rest assume a: "ok u \<and> pending u = (b1 @ b2) @ rest"
  then obtain u1 where u1: "m u = Done (x, u1)" "ok u1" "pending u1 = b2 @ rest"
    using assms(1) unfolding reads_def by (metis append_assoc)
  then obtain u2 where "f x u1 = Done (y, u2)" "ok u2" "pending u2 = rest"
    using assms(2) unfolding reads_def by blast
  with u1 show "\<exists>u'. rbind m f u = Done (y, u') \<and> ok u' \<and> pending u' = rest" by (simp add: rbind_def)
next
  fix u assume a: "ok u \<and> strict_prefix (pending u) (b1 @ b2)"
  show "\<exists>e. rbind m f u = Fail e"
  proof (cases "strict_prefix (pending u) b1")
    case True
    then show ?thesis using a assms(1) by (auto simp: reads_def rbind_def)
  next
    case False
    with a have "prefix (pending u) b1 \<longrightarrow> pending u = b1" "prefix (pending u) (b1 @ b2)" "pending u \<noteq> b1 @ b2"
      by (auto simp: strict_prefix_def)
    then have "\<exists>q. pending u = b1 @ q \<and> strict_prefix q b2"
      by (cases "prefix (pending u) b1") (auto simp: prefix_append strict_prefix_def)
    then obtain q where q: "pending u = b1 @ q" "strict_prefix q b2" by blast
    then obtain u1 where u1: "m u = Done (x, u1)" "ok u1" "pending u1 = q"
      using assms(1) a unfolding reads_def by blast
    with q assms(2) obtain e where "f x u1 = Fail e" unfolding reads_def by blast
    with u1 show ?thesis by (simp add: rbind_def)
  qed
qed

text \<open>The last of a sequence only computes its result.\<close>

lemma reads_last:
  assumes "reads ok pending m bs x" "\<And>u. f x u = Done (y, u)"
  shows "reads ok pending (rbind m f) bs y"
  using reads_bind [OF assms(1), of f "[]" y] reads_ret [of "f x" y] assms(2) by simp

lemma reads_rret: "reads ok pending m bs x \<Longrightarrow> f x = y \<Longrightarrow> reads ok pending (rbind m (\<lambda>x. rret (f x))) bs y"
  by (erule reads_last) (simp add: rret_def)

lemma reads_times:
  "(\<And>x. x \<in> set xs \<Longrightarrow> reads ok pending m (g x) x) \<Longrightarrow>
   reads ok pending (rtimes (length xs) m) (concat (map g xs)) xs"
proof (induction xs)
  case Nil
  then show ?case by (simp add: reads_ret rret_def)
next
  case (Cons x xs)
  then show ?case by (auto intro!: reads_bind reads_rret)
qed

section \<open>The bytes of objects and functions\<close>

fun ser_ok :: "sqobj \<Rightarrow> bool" where
  "ser_ok (OString s) \<longleftrightarrow> length s < 2 ^ 63"
| "ser_ok (OInteger i) \<longleftrightarrow> True"
| "ser_ok (OFloat f) \<longleftrightarrow> True"
| "ser_ok ONull \<longleftrightarrow> True"
| "ser_ok _ \<longleftrightarrow> False"

fun obj_bytes :: "sqobj \<Rightarrow> byte list" where
  "obj_bytes (OString s) = le_bytes 4 (sqobjtype (OString s)) @
      le_bytes 8 (of_nat (length s) :: sqint) @ chars_bytes s"
| "obj_bytes (OInteger i) = le_bytes 4 (sqobjtype (OInteger i)) @ le_bytes 8 i"
| "obj_bytes (OFloat f) = le_bytes 4 (sqobjtype (OFloat f)) @ le_bytes 4 f"
| "obj_bytes ob = le_bytes 4 (sqobjtype ob)"

definition outer_bytes :: "32 word \<Rightarrow> sqoutervar \<Rightarrow> byte list" where
  "outer_bytes pad ov = outertype_bytes pad (ov_type ov) @ obj_bytes (ov_src ov) @ obj_bytes (ov_name ov)"

definition local_bytes :: "sqlocalvarinfo \<Rightarrow> byte list" where
  "local_bytes lvi = obj_bytes (lv_name lvi) @ le_bytes 8 (lv_pos lvi) @ le_bytes 8 (lv_start_op lvi) @
     le_bytes 8 (lv_end_op lvi)"

fun proto_bytes :: "32 word \<Rightarrow> fproto \<Rightarrow> byte list" where
  "proto_bytes pad (FProto f functions) =
     concat
      [le_bytes 4 SQ_CLOSURESTREAM_PART,
       obj_bytes (fp_sourcename f),
       obj_bytes (fp_name f),
       le_bytes 4 SQ_CLOSURESTREAM_PART,
       int_bytes (int (length (fp_literals f))),
       int_bytes (int (length (fp_parameters f))),
       int_bytes (int (length (fp_outervalues f))),
       int_bytes (int (length (fp_localvarinfos f))),
       int_bytes (int (length (fp_lineinfos f))),
       int_bytes (int (length (fp_defaultparams f))),
       int_bytes (int (length (fp_instructions f))),
       int_bytes (int (length functions)),
       le_bytes 4 SQ_CLOSURESTREAM_PART,
       concat (map obj_bytes (fp_literals f)),
       le_bytes 4 SQ_CLOSURESTREAM_PART,
       concat (map obj_bytes (fp_parameters f)),
       le_bytes 4 SQ_CLOSURESTREAM_PART,
       concat (map (outer_bytes pad) (fp_outervalues f)),
       le_bytes 4 SQ_CLOSURESTREAM_PART,
       concat (map local_bytes (fp_localvarinfos f)),
       le_bytes 4 SQ_CLOSURESTREAM_PART,
       concat (map line_bytes (fp_lineinfos f)),
       le_bytes 4 SQ_CLOSURESTREAM_PART,
       concat (map int_bytes (fp_defaultparams f)),
       le_bytes 4 SQ_CLOSURESTREAM_PART,
       concat (map instr_bytes (fp_instructions f)),
       le_bytes 4 SQ_CLOSURESTREAM_PART,
       concat (map (\<lambda>c. proto_bytes pad c) functions),
       int_bytes (fp_stacksize f),
       [if fp_bgenerator f then 1 else 0],
       int_bytes (fp_varparams f)]"

definition closure_bytes :: "32 word \<Rightarrow> fproto \<Rightarrow> byte list" where
  "closure_bytes pad p =
     le_bytes 4 SQ_CLOSURESTREAM_HEAD @ le_bytes 4 (1 :: 32 word) @ le_bytes 4 (8 :: 32 word) @
     le_bytes 4 (4 :: 32 word) @ proto_bytes pad p @ le_bytes 4 SQ_CLOSURESTREAM_TAIL"

text \<open>A function that can be saved: its objects are of the four types, its numbers fit.\<close>

definition int64 :: "int \<Rightarrow> bool" where
  "int64 i \<longleftrightarrow> - (2 ^ 63) \<le> i \<and> i < 2 ^ 63"

definition node_ok :: "sqfuncproto \<Rightarrow> bool" where
  "node_ok f \<longleftrightarrow> ser_ok (fp_sourcename f) \<and> ser_ok (fp_name f) \<and>
     list_all ser_ok (fp_literals f) \<and> list_all ser_ok (fp_parameters f) \<and>
     list_all (\<lambda>ov. ser_ok (ov_src ov) \<and> ser_ok (ov_name ov)) (fp_outervalues f) \<and>
     list_all (\<lambda>l. ser_ok (lv_name l)) (fp_localvarinfos f) \<and>
     list_all (\<lambda>li. int64 (li_line li) \<and> int64 (li_op li)) (fp_lineinfos f) \<and>
     list_all int64 (fp_defaultparams f) \<and>
     int64 (fp_stacksize f) \<and> int64 (fp_varparams f) \<and> fp_functions f = [] \<and>
     length (fp_literals f) < 2 ^ 32 \<and> length (fp_parameters f) < 2 ^ 32 \<and>
     length (fp_outervalues f) < 2 ^ 32 \<and> length (fp_localvarinfos f) < 2 ^ 32 \<and>
     length (fp_lineinfos f) < 2 ^ 32 \<and> length (fp_defaultparams f) < 2 ^ 32 \<and>
     length (fp_instructions f) < 2 ^ 32"

fun proto_ok :: "fproto \<Rightarrow> bool" where
  "proto_ok (FProto f functions) \<longleftrightarrow>
     node_ok f \<and> length functions < 2 ^ 32 \<and> (\<forall>c\<in>set functions. proto_ok c)"

fun fdepth :: "fproto \<Rightarrow> nat" where
  "fdepth (FProto f functions) = Suc (Max (insert 0 (set (map fdepth functions))))"

section \<open>Saving emits the bytes\<close>

context byte_sink
begin

lemma emits_safe: "emits ok written (SafeWrite emit bs) bs"
  unfolding emits_def
proof (intro allI impI)
  fix u assume "ok u"
  from write_law [OF this, of bs] show "\<exists>u'. SafeWrite emit bs u = Done u' \<and> ok u' \<and> written u' = written u @ bs"
    by (auto simp: SafeWrite_def)
qed

lemma emits_tag: "emits ok written (WriteTag emit tag) (le_bytes 4 tag)"
  by (simp add: WriteTag_def emits_safe)

lemma emits_object:
  assumes "ser_ok ob"
  shows "emits ok written (WriteObject emit ob) (obj_bytes ob)"
proof -
  have two: "emits ok written (steps [f, g]) (b1 @ b2)"
    if "emits ok written f b1" "emits ok written g b2" for f g b1 b2
    using emits_steps [of ok written "[f, g]" "[b1, b2]"] that by simp
  show ?thesis
  proof (cases ob)
    case (OString s)
    then show ?thesis unfolding WriteObject.simps OString obj_bytes.simps
      by (intro two emits_safe) (simp only: sqobj.case, intro two emits_safe)
  next
    case ONull
    have "WriteObject emit ONull u = SafeWrite emit (le_bytes 4 (sqobjtype ONull)) u" for u
      by (cases "SafeWrite emit (le_bytes 4 (sqobjtype ONull)) u") simp_all
    then have "WriteObject emit ONull = SafeWrite emit (le_bytes 4 (sqobjtype ONull))" by (rule ext)
    then show ?thesis unfolding ONull by (simp add: emits_safe del: WriteObject.simps)
  next
    case (OInteger i)
    show ?thesis unfolding WriteObject.simps OInteger obj_bytes.simps sqobj.case
      by (rule two [OF emits_safe emits_safe])
  next
    case (OFloat f)
    show ?thesis unfolding WriteObject.simps OFloat obj_bytes.simps sqobj.case
      by (rule two [OF emits_safe emits_safe])
  qed (use assms in simp_all)
qed

lemma emits_proto: "proto_ok p \<Longrightarrow> emits ok written (Proto_Save emit pad p) (proto_bytes pad p)"
proof (induction pad p rule: proto_bytes.induct)
  case (1 pad f fns)
  then have n: "node_ok f" and c: "\<And>c. c \<in> set fns \<Longrightarrow>
      emits ok written (Proto_Save emit pad c) (proto_bytes pad c)" by auto
  have o: "emits ok written (steps (map (WriteObject emit) obs)) (concat (map obj_bytes obs))"
    if "list_all ser_ok obs" for obs
    using that by (intro emits_map emits_object) (auto simp: list_all_iff)
  have ov: "emits ok written (write_outer emit pad v) (outer_bytes pad v)"
    if "ser_ok (ov_src v)" "ser_ok (ov_name v)" for v
    using emits_steps [of ok written "[SafeWrite emit (outertype_bytes pad (ov_type v)),
        WriteObject emit (ov_src v), WriteObject emit (ov_name v)]"
        "[outertype_bytes pad (ov_type v), obj_bytes (ov_src v), obj_bytes (ov_name v)]"]
      that emits_safe emits_object
    by (simp add: write_outer_def outer_bytes_def del: steps.simps WriteObject.simps)
  have lv: "emits ok written (write_local emit l) (local_bytes l)" if "ser_ok (lv_name l)" for l
    using emits_steps [of ok written "[WriteObject emit (lv_name l), SafeWrite emit (le_bytes 8 (lv_pos l)),
        SafeWrite emit (le_bytes 8 (lv_start_op l)), SafeWrite emit (le_bytes 8 (lv_end_op l))]"
        "[obj_bytes (lv_name l), le_bytes 8 (lv_pos l), le_bytes 8 (lv_start_op l), le_bytes 8 (lv_end_op l)]"]
      that emits_safe emits_object
    by (simp add: write_local_def local_bytes_def del: steps.simps WriteObject.simps)
  show ?case unfolding Proto_Save.simps proto_bytes.simps
    by (rule emits_steps, (rule list_all2_Cons [THEN iffD2], rule conjI)+)
      (use n c in \<open>auto simp: node_ok_def list_all_iff intro!: emits_safe emits_tag emits_object o emits_map ov lv
        simp del: WriteObject.simps Proto_Save.simps proto_bytes.simps\<close>)
qed

lemma emits_closure: "proto_ok p \<Longrightarrow> emits ok written (Closure_Save emit pad p) (closure_bytes pad p)"
  using emits_steps [of ok written "[WriteTag emit SQ_CLOSURESTREAM_HEAD, WriteTag emit 1, WriteTag emit 8,
       WriteTag emit 4, Proto_Save emit pad p, WriteTag emit SQ_CLOSURESTREAM_TAIL]"
      "[le_bytes 4 SQ_CLOSURESTREAM_HEAD, le_bytes 4 (1 :: 32 word), le_bytes 4 (8 :: 32 word),
        le_bytes 4 (4 :: 32 word), proto_bytes pad p, le_bytes 4 SQ_CLOSURESTREAM_TAIL]"]
    emits_tag emits_proto
  by (simp add: Closure_Save_def closure_bytes_def del: steps.simps)

end

section \<open>Loading reads the bytes\<close>

lemma le_dec_append: "le_dec (xs @ ys) = le_dec xs + 256 ^ length xs * le_dec ys"
  by (induction xs) (simp_all add: algebra_simps)

lemma bytes_chars_inverse: "bytes_chars (chars_bytes s) = s"
proof -
  have "unat (of_nat (of_char c) :: byte) = of_char c" for c
    by (simp add: unat_of_nat take_bit_nat_eq_self)
  then show ?thesis by (simp add: bytes_chars_def chars_bytes_def comp_def)
qed

lemma int64_sint: "int64 i \<Longrightarrow> sint (word_of_int i :: sqint) = i"
  by (simp add: int64_def sint_sbintrunc' signed_take_bit_int_eq_self)

lemma bytes_int_inverse: "int64 i \<Longrightarrow> bytes_int (int_bytes i) = i"
  by (simp add: bytes_int_def int_bytes_def of_le_bytes_enc int64_sint)

lemma length_int_bytes [simp]: "length (int_bytes i) = 8"
  by (simp add: int_bytes_def)

lemma bytes_line_inverse: "int64 (li_line li) \<Longrightarrow> int64 (li_op li) \<Longrightarrow> bytes_line (line_bytes li) = li"
  by (simp add: bytes_line_def line_bytes_def bytes_int_inverse)

lemma bytes_instr_inverse: "bytes_instr (instr_bytes i) = Some i"
  by (simp add: bytes_instr_def instr_bytes_def of_le_bytes_enc nth_append)

lemma cells_concat: "(\<And>x. x \<in> set xs \<Longrightarrow> length (f x) = w) \<Longrightarrow>
    cells (length xs) w (concat (map f xs)) = map f xs"
  by (induction xs) auto

lemma all_some_map: "all_some (map Some xs) = Some xs"
  by (induction xs) auto

lemma length_concat_same: "(\<And>x. x \<in> set xs \<Longrightarrow> length (f x) = w) \<Longrightarrow>
    length (concat (map f xs)) = w * length xs"
  by (induction xs) auto

lemma outertype_word:
  "(ucast (of_le_bytes (outertype_bytes pad t) :: sqint) :: 32 word) = (case t of otLOCAL \<Rightarrow> 0 | otOUTER \<Rightarrow> 1)"
proof -
  define a where "a = (case t of otLOCAL \<Rightarrow> (0 :: 32 word) | otOUTER \<Rightarrow> (1 :: 32 word))"
  have two32: "take_bit 32 (n mod 18446744073709551616) = n mod 4294967296" for n :: nat
    by (simp add: take_bit_eq_mod mod_mod_cancel)
  have u: "(256::nat) ^ 4 = 2 ^ 32" by simp
  have m: "unat w mod 2 ^ 32 = unat w" for w :: "32 word"
    by (rule mod_less, rule order_less_le_trans [OF unsigned_less]) simp
  have "of_le_bytes (outertype_bytes pad t) = (of_nat (unat a + 2 ^ 32 * unat pad) :: sqint)"
    unfolding of_le_bytes_def outertype_bytes_def a_def [symmetric] le_dec_append length_le_bytes u
    by (simp only: le_bytes_def le_dec_enc u m)
  moreover have "(ucast (of_nat n :: sqint) :: 32 word) = of_nat n" for n
    by (simp add: word_of_nat_eq_iff word_unat_eq_iff unsigned_ucast_eq unat_of_nat min_def two32)
  moreover have "(of_nat (unat a + 2 ^ 32 * unat pad) :: 32 word) = a"
    unfolding word_unat_eq_iff unat_of_nat take_bit_eq_mod using m [of a] by simp
  ultimately show ?thesis unfolding a_def [symmetric] by (simp only:)
qed

context byte_source
begin

lemma reads_safe: "int (length bs) = n \<Longrightarrow> reads ok pending (SafeRead fetch n) bs bs"
proof (cases bs)
  case Nil
  assume "int (length bs) = n"
  with Nil show ?thesis by (simp add: reads_def SafeRead_def)
next
  case (Cons b bs')
  assume n: "int (length bs) = n"
  then have pos: "0 < n" using Cons by auto
  show ?thesis unfolding reads_def
  proof (intro conjI allI impI)
    fix u rest assume a: "ok u \<and> pending u = bs @ rest"
    then obtain u' where "fetch n u = Done (take (length bs) (pending u), u')" "ok u'"
      "pending u' = drop (length bs) (pending u)" using read_law [of u "length bs"] n by auto
    with a n pos show "\<exists>u'. SafeRead fetch n u = Done (bs, u') \<and> ok u' \<and> pending u' = rest"
      by (auto simp: SafeRead_def)
  next
    fix u assume a: "ok u \<and> strict_prefix (pending u) bs"
    then have "length (pending u) < length bs" using prefix_length_less by blast
    moreover obtain u' where "fetch n u = Done (take (length bs) (pending u), u')"
      using a read_law [of u "length bs"] n by auto
    ultimately show "\<exists>e. SafeRead fetch n u = Fail e" using n pos by (auto simp: SafeRead_def)
  qed
qed

lemma reads_tag: "reads ok pending (CheckTag fetch tag) (le_bytes 4 tag) ()"
  unfolding CheckTag_def by (rule reads_last [OF reads_safe]) (simp_all add: of_le_bytes_enc)

lemma reads_word_bytes: "length bs = 8 \<Longrightarrow> reads ok pending (read_word fetch) bs (of_le_bytes bs)"
  unfolding read_word_def by (rule reads_rret [OF reads_safe]) simp_all

lemma reads_word: "reads ok pending (read_word fetch) (le_bytes 8 w) w"
  using reads_word_bytes [of "le_bytes 8 w"] by (simp add: of_le_bytes_enc)

lemma reads_int: "reads ok pending (read_word fetch) (int_bytes i) (word_of_int i)"
  unfolding int_bytes_def by (rule reads_word)

lemma reads_count: "n < 2 ^ 32 \<Longrightarrow> reads ok pending (read_count fetch) (int_bytes (int n)) n"
  unfolding read_count_def
  by (rule reads_last [OF reads_int]) (simp add: sint_of_nat_small)

lemma reads_object:
  assumes "ser_ok ob"
  shows "reads ok pending (ReadObject fetch) (obj_bytes ob) ob"
proof -
  note types = SQOBJECT_REF_COUNTED_def SQOBJECT_NUMERIC_def SQOBJECT_CANBEFALSE_def
  have t: "reads ok pending (SafeRead fetch 4) (le_bytes 4 (w :: 32 word)) (le_bytes 4 w)" for w
    by (rule reads_safe) simp
  show ?thesis
  proof (cases ob)
    case (OString s)
    have l: "sint (of_nat (length s) :: sqint) = int (length s)"
      using assms OString int64_sint [of "int (length s)"] by (simp add: int64_def)
    have "reads ok pending (rbind (read_word fetch) (\<lambda>len. rbind (SafeRead fetch (sint len))
        (\<lambda>cs. rret (OString (bytes_chars cs)))))
        (le_bytes 8 (of_nat (length s) :: sqint) @ chars_bytes s) (OString s)"
      by (rule reads_bind [OF reads_word], rule reads_rret, rule reads_safe)
        (simp_all add: l bytes_chars_inverse, simp add: chars_bytes_def)
    then show ?thesis unfolding ReadObject_def OString obj_bytes.simps
      by (intro reads_bind [OF t]) (simp add: of_le_bytes_enc types)
  next
    case (OInteger i)
    have "reads ok pending (rbind (read_word fetch) (\<lambda>i. rret (OInteger i))) (le_bytes 8 i) (OInteger i)"
      by (rule reads_rret [OF reads_word]) simp
    then show ?thesis unfolding ReadObject_def OInteger obj_bytes.simps
      by (intro reads_bind [OF t]) (simp add: of_le_bytes_enc types)
  next
    case (OFloat f)
    have "reads ok pending (rbind (SafeRead fetch 4) (\<lambda>fs. rret (OFloat (of_le_bytes fs)))) (le_bytes 4 f) (OFloat f)"
      by (rule reads_rret [OF t]) (simp add: of_le_bytes_enc)
    then show ?thesis unfolding ReadObject_def OFloat obj_bytes.simps
      by (intro reads_bind [OF t]) (simp add: of_le_bytes_enc types)
  next
    case ONull
    show ?thesis unfolding ReadObject_def ONull obj_bytes.simps
      by (rule reads_last [OF t]) (simp add: of_le_bytes_enc types rret_def)
  qed (use assms in simp_all)
qed

lemma reads_objects: "list_all ser_ok obs \<Longrightarrow>
    reads ok pending (rtimes (length obs) (ReadObject fetch)) (concat (map obj_bytes obs)) obs"
  by (rule reads_times) (auto simp: list_all_iff intro: reads_object)

lemma reads_outer:
  assumes "ser_ok (ov_src ov)" "ser_ok (ov_name ov)"
  shows "reads ok pending (read_outer fetch) (outer_bytes pad ov) ov"
  unfolding read_outer_def outer_bytes_def
proof (rule reads_bind [OF reads_word_bytes])
  show "length (outertype_bytes pad (ov_type ov)) = 8" by (simp add: outertype_bytes_def)
  show "reads ok pending (rbind (ReadObject fetch) (\<lambda>src. rbind (ReadObject fetch) (\<lambda>name u.
       let ty = (ucast (of_le_bytes (outertype_bytes pad (ov_type ov)) :: sqint) :: 32 word) in
       if ty = 0 then Done (\<lparr>ov_type = otLOCAL, ov_name = name, ov_src = src\<rparr>, u)
       else if ty = 1 then Done (\<lparr>ov_type = otOUTER, ov_name = name, ov_src = src\<rparr>, u)
       else Undef))) (obj_bytes (ov_src ov) @ obj_bytes (ov_name ov)) ov"
    unfolding outertype_word
    by (rule reads_bind [OF reads_object [OF assms(1)]], rule reads_last [OF reads_object [OF assms(2)]])
      (cases "ov_type ov"; cases ov; simp add: Let_def)
qed

lemma reads_local:
  assumes "ser_ok (lv_name l)"
  shows "reads ok pending (read_local fetch) (local_bytes l) l"
  unfolding read_local_def local_bytes_def
  by (rule reads_bind [OF reads_object [OF assms]], rule reads_bind [OF reads_word],
      rule reads_bind [OF reads_word], rule reads_rret [OF reads_word]) simp

lemma fdepth_child: "c \<in> set fns \<Longrightarrow> Suc (fdepth c) \<le> fdepth (FProto f fns)"
  by (simp add: Max_ge)

lemma reads_proto:
  "proto_ok p \<Longrightarrow> fdepth p \<le> fuel \<Longrightarrow> reads ok pending (Proto_Load fuel fetch) (proto_bytes pad p) p"
proof (induction fuel arbitrary: p)
  case 0
  then show ?case by (cases p) simp
next
  case (Suc fuel)
  obtain f fns where p: "p = FProto f fns" by (cases p)
  with Suc.prems have n: "node_ok f" and len: "length fns < 2 ^ 32" by simp_all
  have kids: "reads ok pending (rtimes (length fns) (Proto_Load fuel fetch))
      (concat (map (\<lambda>c. proto_bytes pad c) fns)) fns"
  proof (rule reads_times)
    fix c assume c: "c \<in> set fns"
    show "reads ok pending (Proto_Load fuel fetch) (proto_bytes pad c) c"
      using Suc.prems p c fdepth_child [OF c, of f] by (intro Suc.IH) auto
  qed
  have b1: "reads ok pending (SafeRead fetch (16 * int (length ls))) (concat (map line_bytes ls))
      (concat (map line_bytes ls))" for ls
    by (rule reads_safe, subst length_concat_same [where w = 16]) (simp_all add: line_bytes_def)
  have b2: "reads ok pending (SafeRead fetch (8 * int (length ds))) (concat (map int_bytes ds))
      (concat (map int_bytes ds))" for ds
    by (rule reads_safe, subst length_concat_same [where w = 8]) simp_all
  have b3: "reads ok pending (SafeRead fetch (8 * int (length is))) (concat (map instr_bytes is))
      (concat (map instr_bytes is))" for "is"
    by (rule reads_safe, subst length_concat_same [where w = 8]) (simp_all add: instr_bytes_def)
  have ovs: "reads ok pending (rtimes (length (fp_outervalues f)) (read_outer fetch))
      (concat (map (outer_bytes pad) (fp_outervalues f))) (fp_outervalues f)"
    using n by (intro reads_times reads_outer) (auto simp: node_ok_def list_all_iff)
  have lvs: "reads ok pending (rtimes (length (fp_localvarinfos f)) (read_local fetch))
      (concat (map local_bytes (fp_localvarinfos f))) (fp_localvarinfos f)"
    using n by (intro reads_times reads_local) (auto simp: node_ok_def list_all_iff)
  have flag: "reads ok pending (SafeRead fetch 1) [if fp_bgenerator f then 1 else 0]
      [if fp_bgenerator f then 1 else 0]" by (rule reads_safe) simp
  have lines: "map bytes_line (cells (length (fp_lineinfos f)) 16 (concat (map line_bytes (fp_lineinfos f)))) =
      fp_lineinfos f"
    using n by (subst cells_concat)
      (auto simp: node_ok_def list_all_iff bytes_line_inverse line_bytes_def [THEN arg_cong [where f = length]]
        intro!: map_idI)
  have defs: "map bytes_int (cells (length (fp_defaultparams f)) 8 (concat (map int_bytes (fp_defaultparams f)))) =
      fp_defaultparams f"
    using n by (subst cells_concat) (auto simp: node_ok_def list_all_iff bytes_int_inverse intro!: map_idI)
  have instrs: "all_some (map bytes_instr (cells (length (fp_instructions f)) 8
      (concat (map instr_bytes (fp_instructions f))))) = Some (fp_instructions f)"
    by (subst cells_concat) (simp_all add: bytes_instr_inverse comp_def all_some_map,
        simp add: instr_bytes_def)
  note tag = reads_bind [OF reads_tag]
  show ?case unfolding p Proto_Load.simps proto_bytes.simps concat.simps append_Nil2
    apply (rule tag)
    apply (rule reads_bind [OF reads_object], use n in \<open>simp add: node_ok_def\<close>)+
    apply (rule tag)
    apply (rule reads_bind [OF reads_count], use n len in \<open>simp add: node_ok_def\<close>)+
    apply (rule tag, rule reads_bind [OF reads_objects], use n in \<open>simp add: node_ok_def\<close>)+
    apply (rule tag, rule reads_bind [OF ovs])
    apply (rule tag, rule reads_bind [OF lvs])
    apply (rule tag, rule reads_bind [OF b1])
    apply (rule tag, rule reads_bind [OF b2])
    apply (rule tag, rule reads_bind [OF b3])
    apply (rule tag, rule reads_bind [OF kids])
    apply (rule reads_bind [OF reads_int], rule reads_bind [OF flag], rule reads_last [OF reads_int])
    using n by (simp add: instrs lines defs node_ok_def int64_sint)
qed

lemma reads_closure:
  "proto_ok p \<Longrightarrow> fdepth p \<le> fuel \<Longrightarrow> reads ok pending (Closure_Load fuel fetch) (closure_bytes pad p) p"
  unfolding Closure_Load_def closure_bytes_def
  by (rule reads_bind [OF reads_tag], rule reads_bind [OF reads_tag], rule reads_bind [OF reads_tag],
      rule reads_bind [OF reads_tag], rule reads_bind [OF reads_proto], assumption, assumption,
      rule reads_rret [OF reads_tag], rule refl)

end

section \<open>Properties\<close>

definition rewound :: "blob \<Rightarrow> blob" where
  "rewound b = snd (Blob_Seek 0 SEEK_SET b)"

lemma saved_blob:
  assumes "proto_ok p"
  shows "\<exists>b. Closure_Save Blob_Write pad p \<lparr>b_buf = [], b_size = 0, b_ptr = 0, b_owns = True\<rparr> = Done b \<and>
     blob_inv b \<and> take (nat (b_ptr b)) (b_buf b) = closure_bytes pad p"
proof -
  have "blob_inv \<lparr>b_buf = [], b_size = 0, b_ptr = 0, b_owns = True\<rparr>"
    by (simp add: blob_inv_def b_allocated_def)
  with blob_sink.emits_closure [OF assms, of pad] show ?thesis
    unfolding emits_def by fastforce
qed

lemma rewound_pending:
  assumes "blob_inv b"
  shows "blob_inv (rewound b) \<and> blob_pending (rewound b) = take (nat (b_size b)) (b_buf b)"
  using assms by (auto simp: rewound_def Blob_Seek_def blob_inv_def b_allocated_def blob_pending_def blob_view_def)

text \<open>
  C13. A saved function is loaded as it was.  Every function whose objects are null,
  integers, floats and strings can be saved to an empty blob; loading from the start of
  that blob gives the same function, instructions, literals, nested functions and debug
  information alike, whatever the padding bytes are, and reads past no byte of the
  function.  The fuel bounds the nesting of functions.
\<close>

theorem closure_round_trip:
  assumes "proto_ok p" "fdepth p \<le> fuel"
  shows "\<exists>b b'. Closure_Save Blob_Write pad p \<lparr>b_buf = [], b_size = 0, b_ptr = 0, b_owns = True\<rparr> = Done b \<and>
     Closure_Load fuel Blob_Read (rewound b) = Done (p, b') \<and>
     blob_pending b' = drop (nat (b_ptr b)) (take (nat (b_size b)) (b_buf b))"
proof -
  from saved_blob [OF assms(1)] obtain b where b:
    "Closure_Save Blob_Write pad p \<lparr>b_buf = [], b_size = 0, b_ptr = 0, b_owns = True\<rparr> = Done b"
    "blob_inv b" "take (nat (b_ptr b)) (b_buf b) = closure_bytes pad p" by blast
  let ?rest = "drop (nat (b_ptr b)) (take (nat (b_size b)) (b_buf b))"
  have le: "nat (b_ptr b) \<le> nat (b_size b)" using b(2) by (auto simp: blob_inv_def)
  have "take (nat (b_size b)) (b_buf b) = closure_bytes pad p @ ?rest"
    using b(3) le by (metis append_take_drop_id min.absorb1 take_take)
  with rewound_pending [OF b(2)] have r: "blob_inv (rewound b)"
    "blob_pending (rewound b) = closure_bytes pad p @ ?rest" by simp_all
  with blob_source.reads_closure [OF assms, of pad] obtain b' where b':
    "Closure_Load fuel Blob_Read (rewound b) = Done (p, b')" "blob_inv b'" "blob_pending b' = ?rest"
    unfolding reads_def by blast
  from b(1) b'(1,3) show ?thesis by blast
qed

definition sample_node :: sqfuncproto where
  "sample_node = \<lparr>fp_sourcename = OString ''a.nut'', fp_name = ONull, fp_stacksize = 3, fp_bgenerator = False,
     fp_varparams = 0, fp_localvarinfos = [\<lparr>lv_name = OString ''this'', lv_start_op = 0, lv_end_op = 2, lv_pos = 0\<rparr>],
     fp_lineinfos = [\<lparr>li_line = 1, li_op = 0\<rparr>], fp_literals = [OString ''x'', OInteger 7],
     fp_parameters = [OString ''this''], fp_functions = [],
     fp_outervalues = [\<lparr>ov_type = otLOCAL, ov_name = OString ''o'', ov_src = OInteger 1\<rparr>],
     fp_defaultparams = [1],
     fp_instructions = [\<lparr>i_arg1 = 0, i_op = OP_RETURN, i_arg0 = 255, i_arg2 = 0, i_arg3 = 0\<rparr>]\<rparr>"

definition sample_proto :: fproto where
  "sample_proto = FProto sample_node [FProto sample_node []]"

lemma sample_ok: "proto_ok sample_proto" "fdepth sample_proto \<le> 2"
  by (simp_all add: sample_proto_def sample_node_def node_ok_def int64_def)

theorem closure_round_trip_witness:
  "\<exists>b b'. Closure_Save Blob_Write 0xCCCCCCCC sample_proto \<lparr>b_buf = [], b_size = 0, b_ptr = 0, b_owns = True\<rparr> = Done b \<and>
     Closure_Load 2 Blob_Read (rewound b) = Done (sample_proto, b') \<and>
     blob_pending b' = drop (nat (b_ptr b)) (take (nat (b_size b)) (b_buf b))"
  by (rule closure_round_trip [OF sample_ok])

text \<open>
  C14. A truncated stream is reported.  Whatever part of a saved function is loaded, short
  of the whole of it, loading raises an error: no shorter stream passes for a function,
  and none is read past its end.
\<close>

theorem truncated_stream_fails:
  assumes "proto_ok p" "fdepth p \<le> fuel"
    and "Closure_Save Blob_Write pad p \<lparr>b_buf = [], b_size = 0, b_ptr = 0, b_owns = True\<rparr> = Done b"
    and "k < nat (b_ptr b)"
  shows "\<exists>e. Closure_Load fuel Blob_Read \<lparr>b_buf = b_buf b, b_size = int k, b_ptr = 0, b_owns = True\<rparr> = Fail e"
proof -
  let ?c = "\<lparr>b_buf = b_buf b, b_size = int k, b_ptr = 0, b_owns = True\<rparr>"
  from saved_blob [OF assms(1), of pad] assms(3) have b: "blob_inv b"
    "take (nat (b_ptr b)) (b_buf b) = closure_bytes pad p" by auto
  then have len: "nat (b_ptr b) \<le> length (b_buf b)" by (auto simp: blob_inv_def b_allocated_def)
  have c: "blob_inv ?c" using len assms(4) by (simp add: blob_inv_def b_allocated_def)
  have pend: "blob_pending ?c = take k (closure_bytes pad p)"
    using assms(4) len by (simp add: blob_pending_def blob_view_def b(2) [symmetric] min_def)
  have "k < length (closure_bytes pad p)"
    using assms(4) len by (simp add: b(2) [symmetric] min_def)
  then have "strict_prefix (take k (closure_bytes pad p)) (closure_bytes pad p)"
    by (auto simp: strict_prefix_def take_is_prefix)
  with c pend have "blob_inv ?c \<and> strict_prefix (blob_pending ?c) (closure_bytes pad p)" by simp
  with blob_source.reads_closure [OF assms(1,2), of pad] show ?thesis
    unfolding reads_def by blast
qed

theorem truncated_stream_fails_witness:
  "\<exists>b. Closure_Save Blob_Write 0 sample_proto \<lparr>b_buf = [], b_size = 0, b_ptr = 0, b_owns = True\<rparr> = Done b \<and>
     (\<exists>e. Closure_Load 2 Blob_Read \<lparr>b_buf = b_buf b, b_size = 100, b_ptr = 0, b_owns = True\<rparr> = Fail e)"
proof -
  from saved_blob [OF sample_ok(1), of 0] obtain b where b:
    "Closure_Save Blob_Write 0 sample_proto \<lparr>b_buf = [], b_size = 0, b_ptr = 0, b_owns = True\<rparr> = Done b"
    "blob_inv b" "take (nat (b_ptr b)) (b_buf b) = closure_bytes 0 sample_proto" by blast
  then have "length (closure_bytes 0 sample_proto) \<le> nat (b_ptr b)" by (metis length_take min.cobounded2)
  moreover have "100 < length (closure_bytes 0 sample_proto)"
    unfolding closure_bytes_def sample_proto_def proto_bytes.simps by (simp add: int_bytes_def)
  ultimately have "100 < nat (b_ptr b)" by simp
  then have "\<exists>e. Closure_Load 2 Blob_Read \<lparr>b_buf = b_buf b, b_size = int 100, b_ptr = 0, b_owns = True\<rparr> = Fail e"
    by (rule truncated_stream_fails [OF sample_ok b(1)])
  with b(1) show ?thesis by (simp only: of_nat_numeral) blast
qed

text \<open>
  What can be saved.  On a blob, writing an object succeeds for null, integers,
  floats and strings; for every other object, booleans included, it raises an error that
  names the type, after the type code has been written.
\<close>

theorem serializable_types:
  assumes "blob_inv b"
  shows "case ob of
      ONull \<Rightarrow> \<exists>b'. WriteObject Blob_Write ob b = Done b'
    | OInteger _ \<Rightarrow> \<exists>b'. WriteObject Blob_Write ob b = Done b'
    | OFloat _ \<Rightarrow> \<exists>b'. WriteObject Blob_Write ob b = Done b'
    | OString s \<Rightarrow> length s < 2 ^ 63 \<longrightarrow> (\<exists>b'. WriteObject Blob_Write ob b = Done b')
    | _ \<Rightarrow> (\<exists>name. GetTypeName ob = Some name \<and>
            WriteObject Blob_Write ob b = Fail (''cannot serialize a '' @ name))"
proof -
  have good: "\<exists>b'. WriteObject Blob_Write ob b = Done b'" if "ser_ok ob"
    using blob_sink.emits_object [OF that] assms unfolding emits_def by blast
  obtain b1 where w: "SafeWrite Blob_Write (le_bytes 4 (sqobjtype ob)) b = Done b1"
    using blob_sink.emits_safe assms unfolding emits_def by blast
  show ?thesis
  proof (cases ob)
    case (OBool x)
    with w show ?thesis
      by (simp add: cannot_serialize_def GetTypeName_def IdType2Name_def raw_type_def type_code_simps)
  next
    case (OUserPointer x)
    with w show ?thesis
      by (simp add: cannot_serialize_def GetTypeName_def IdType2Name_def raw_type_def type_code_simps)
  next
    case (ORef k a)
    with w show ?thesis
      by (cases k) (simp_all add: cannot_serialize_def GetTypeName_def IdType2Name_def raw_type_def type_code_simps)
  qed (use good in auto)
qed

theorem serializable_types_witness:
  "WriteObject Blob_Write (OBool True) \<lparr>b_buf = [], b_size = 0, b_ptr = 0, b_owns = True\<rparr> =
     Fail ''cannot serialize a bool''"
  using serializable_types [of "\<lparr>b_buf = [], b_size = 0, b_ptr = 0, b_owns = True\<rparr>" "OBool True"]
  by (simp add: blob_inv_def b_allocated_def GetTypeName_def IdType2Name_def raw_type_def type_code_simps)

end
