(* ===== verification/Gc.thy ===== *)
theory Gc
  imports Links RefTable Outcomes Tables
begin

text \<open>
  The mark phase of the garbage collector: \<open>Mark\<close> of the collectable objects
  (\<^verbatim>\<open>squirrel/sqobject.cpp\<close>), \<open>MarkObject\<close>, \<open>RunMark\<close> and
  \<open>ResurrectUnreachable\<close> (\<^verbatim>\<open>squirrel/sqstate.cpp\<close>).

  The heap maps an address to the fields of the object that the collector reads.  The
  count of an object is the 64-bit word of the code with the mark in its bit 31.  The two
  chains are the doubly linked lists of theory \<open>Links\<close>: \<open>gs_chain\<close> is the shared
  state's \<open>_gc_chain\<close>, \<open>gs_tchain\<close> the local list of what is marked.  Only the calls
  in use of a thread count: the list of calls has their closures.  The recursion of
  \<open>Mark\<close> is bounded by fuel, which theory \<open>GcProps\<close> shows to suffice.
\<close>

section \<open>The heap\<close>

datatype gcobj =
    GThread (th_lasterror: sqobj) (th_errorhandler: sqobj) (th_debughook_closure: sqobj)
      (th_roottable: sqobj) (th_temp_reg: sqobj) (th_stack: "sqobj list") (th_calls: "sqobj list")
  | GArray "sqobj list"
  | GTable sqtable
  | GClass (cl_members: addr) (cl_base: "addr option") (cl_attributes: sqobj)
      (cl_defaultvalues: "(sqobj \<times> sqobj) list") (cl_methods: "(sqobj \<times> sqobj) list")
      (cl_metamethods: "sqobj list")
  | GInstance (in_class: addr) (in_values: "sqobj list")
  | GGenerator (ge_stack: "sqobj list") (ge_closure: sqobj)
  | GFuncProto (fu_literals: "sqobj list") (fu_functions: "sqobj list")
      (fu_noutervalues: nat) (fu_ndefaultparams: nat)
  | GClosure (co_base: "addr option") (co_function: addr) (co_outervalues: "sqobj list")
      (co_defaultparams: "sqobj list")
  | GNativeClosure "sqobj list"
  | GOuter (ou_closed: bool) (ou_value: sqobj)
  | GUserData "addr option"

record gcstate =
  gs_objs :: "addr \<Rightarrow> gcobj option"
  gs_uiref :: "addr \<Rightarrow> 64 word"
  gs_links :: gcheap
  gs_chain :: "addr option"
  gs_tchain :: "addr option"

definition MARK_FLAG :: "64 word" where "MARK_FLAG = 0x80000000"

fun GetType :: "gcobj \<Rightarrow> refkind" where
  "GetType (GThread _ _ _ _ _ _ _) = KThread"
| "GetType (GArray _) = KArray"
| "GetType (GTable _) = KTable"
| "GetType (GClass _ _ _ _ _ _) = KClass"
| "GetType (GInstance _ _) = KInstance"
| "GetType (GGenerator _ _) = KGenerator"
| "GetType (GFuncProto _ _ _ _) = KFuncProto"
| "GetType (GClosure _ _ _ _) = KClosure"
| "GetType (GNativeClosure _) = KNativeClosure"
| "GetType (GOuter _ _) = KOuter"
| "GetType (GUserData _) = KUserData"

section \<open>Marking\<close>

text \<open>
  What the \<open>Mark\<close> of each class marks, in its order.  An instance has as many values as
  its class has fields, a closure as many captured values and defaults as its function
  says; reading beyond the memory of either has no value here.
\<close>

definition some_ref :: "refkind \<Rightarrow> addr option \<Rightarrow> sqobj list" where
  "some_ref k p = (case p of None \<Rightarrow> [] | Some a \<Rightarrow> [ORef k a])"

definition upto_count :: "nat \<Rightarrow> 'a list \<Rightarrow> 'a list option" where
  "upto_count n xs = (if n \<le> length xs then Some (take n xs) else None)"

fun marks :: "(addr \<Rightarrow> gcobj option) \<Rightarrow> gcobj \<Rightarrow> sqobj list option" where
  "marks hp (GThread lasterror errorhandler debughook_closure roottable temp_reg stack calls) =
     Some ([lasterror, errorhandler, debughook_closure, roottable, temp_reg] @ stack @ calls)"
| "marks hp (GArray vs) = Some vs"
| "marks hp (GTable t) =
     Some (some_ref KTable (t_delegate t) @ concat (map (\<lambda>n. [nkey n, nval n]) (t_nodes t)))"
| "marks hp (GClass members base attributes defaultvalues methods metamethods) =
     Some ([ORef KTable members] @ some_ref KClass base @ [attributes] @
       concat (map (\<lambda>(v, a). [v, a]) defaultvalues) @ concat (map (\<lambda>(v, a). [v, a]) methods) @
       metamethods)"
| "marks hp (GInstance cls vs) =
     (case hp cls of
        Some (GClass _ _ _ defaultvalues _ _) \<Rightarrow>
          map_option (\<lambda>us. ORef KClass cls # us) (upto_count (length defaultvalues) vs)
      | _ \<Rightarrow> None)"
| "marks hp (GGenerator stack closure) = Some (stack @ [closure])"
| "marks hp (GFuncProto literals functions _ _) = Some (literals @ functions)"
| "marks hp (GClosure base func outervalues defaultparams) =
     (case hp func of
        Some (GFuncProto _ _ noutervalues ndefaultparams) \<Rightarrow>
          (case (upto_count noutervalues outervalues, upto_count ndefaultparams defaultparams) of
             (Some os, Some ds) \<Rightarrow> Some (some_ref KClass base @ [ORef KFuncProto func] @ os @ ds)
           | _ \<Rightarrow> None)
      | _ \<Rightarrow> None)"
| "marks hp (GNativeClosure outervalues) = Some outervalues"
| "marks hp (GOuter closed val) = Some (if closed then [val] else [])"
| "marks hp (GUserData delegate) = Some (some_ref KTable delegate)"

text \<open>The types \<open>MarkObject\<close> follows: a weak reference is not.\<close>

definition collectable :: "refkind \<Rightarrow> bool" where
  "collectable k \<longleftrightarrow> k \<noteq> KWeakRef"

definition MarkObject :: "(addr \<Rightarrow> gcstate \<Rightarrow> gcstate outcome) \<Rightarrow> sqobj \<Rightarrow> gcstate \<Rightarrow> gcstate outcome" where
  "MarkObject mark ob s =
     (case ob of ORef k a \<Rightarrow> if collectable k then mark a s else Done s | _ \<Rightarrow> Done s)"

definition end_mark :: "addr \<Rightarrow> gcstate \<Rightarrow> gcstate" where
  "end_mark a s =
     (let (c, h) = RemoveFromChain a (gs_chain s, gs_links s);
          (t, h') = AddToChain a (gs_tchain s, h)
      in s\<lparr>gs_chain := c, gs_tchain := t, gs_links := h'\<rparr>)"

definition set_mark :: "addr \<Rightarrow> gcstate \<Rightarrow> gcstate" where
  "set_mark a s = s\<lparr>gs_uiref := (gs_uiref s)(a := gs_uiref s a OR MARK_FLAG)\<rparr>"

definition UnMark :: "addr \<Rightarrow> gcstate \<Rightarrow> gcstate" where
  "UnMark a s = s\<lparr>gs_uiref := (gs_uiref s)(a := gs_uiref s a AND NOT MARK_FLAG)\<rparr>"

fun Mark :: "nat \<Rightarrow> addr \<Rightarrow> gcstate \<Rightarrow> gcstate outcome" where
  "Mark 0 a s = Undef"
| "Mark (Suc fuel) a s =
     (case gs_objs s a of
        None \<Rightarrow> Undef
      | Some ob \<Rightarrow>
          if gs_uiref s a AND MARK_FLAG \<noteq> 0 then Done s
          else (case marks (gs_objs s) ob of
                  None \<Rightarrow> Undef
                | Some rs \<Rightarrow>
                    obind (steps (map (MarkObject (Mark fuel)) rs) (set_mark a s))
                      (\<lambda>s2. Done (end_mark a s2))))"

section \<open>The roots\<close>

record gcroots =
  gr_root_vm :: addr
  gr_refs_table :: reftable
  gr_registry :: sqobj
  gr_consts :: sqobj
  gr_metamethodsmap :: sqobj
  gr_table_default_delegate :: sqobj
  gr_array_default_delegate :: sqobj
  gr_string_default_delegate :: sqobj
  gr_number_default_delegate :: sqobj
  gr_generator_default_delegate :: sqobj
  gr_thread_default_delegate :: sqobj
  gr_closure_default_delegate :: sqobj
  gr_class_default_delegate :: sqobj
  gr_instance_default_delegate :: sqobj
  gr_weakref_default_delegate :: sqobj

definition root_objects :: "gcroots \<Rightarrow> sqobj list" where
  "root_objects r =
     RefTable_Mark (gr_refs_table r) @
     [gr_registry r, gr_consts r, gr_metamethodsmap r, gr_table_default_delegate r,
      gr_array_default_delegate r, gr_string_default_delegate r, gr_number_default_delegate r,
      gr_generator_default_delegate r, gr_thread_default_delegate r, gr_closure_default_delegate r,
      gr_class_default_delegate r, gr_instance_default_delegate r, gr_weakref_default_delegate r]"

definition RunMark :: "nat \<Rightarrow> gcroots \<Rightarrow> gcstate \<Rightarrow> gcstate outcome" where
  "RunMark fuel r s =
     obind (Mark fuel (gr_root_vm r) s) (steps (map (MarkObject (Mark fuel)) (root_objects r)))"

section \<open>Resurrecting the unreachable\<close>

text \<open>
  \<open>arr\<close> is the address the new array is given.  Creating it puts it on the chain;
  appending an object raises the object's count.
\<close>

definition array_create :: "addr \<Rightarrow> gcstate \<Rightarrow> gcstate" where
  "array_create arr s =
     (let (c, h) = AddToChain arr (gs_chain s, gs_links s)
      in s\<lparr>gs_objs := (gs_objs s)(arr \<mapsto> GArray []), gs_uiref := (gs_uiref s)(arr := 0),
           gs_chain := c, gs_links := h\<rparr>)"

definition array_append :: "addr \<Rightarrow> refkind \<Rightarrow> addr \<Rightarrow> gcstate \<Rightarrow> gcstate outcome" where
  "array_append arr k a s =
     (case gs_objs s arr of
        Some (GArray vs) \<Rightarrow>
          Done (s\<lparr>gs_objs := (gs_objs s)(arr \<mapsto> GArray (vs @ [ORef k a])),
                  gs_uiref := (gs_uiref s)(a := gs_uiref s a + 1)\<rparr>)
      | _ \<Rightarrow> Undef)"

fun resurrect_loop :: "nat \<Rightarrow> addr \<Rightarrow> addr option \<Rightarrow> addr option \<Rightarrow> int \<Rightarrow> gcstate \<Rightarrow>
    (addr option \<times> int \<times> gcstate) outcome" where
  "resurrect_loop 0 arr t rlast n s = Undef"
| "resurrect_loop (Suc fuel) arr t rlast n s =
     (case t of
        None \<Rightarrow> Done (rlast, n, s)
      | Some a \<Rightarrow>
          (case gs_objs s a of
             None \<Rightarrow> Undef
           | Some ob \<Rightarrow>
               obind (if GetType ob \<noteq> KFuncProto \<and> GetType ob \<noteq> KOuter
                      then array_append arr (GetType ob) a s else Done s)
                 (\<lambda>s1. resurrect_loop fuel arr (g_next (gs_links s1 a)) (Some a) (n + 1) s1)))"

fun unmark_loop :: "nat \<Rightarrow> addr option \<Rightarrow> gcstate \<Rightarrow> gcstate outcome" where
  "unmark_loop 0 t s = Undef"
| "unmark_loop (Suc fuel) t s =
     (case t of
        None \<Rightarrow> Done s
      | Some a \<Rightarrow> unmark_loop fuel (g_next (gs_links s a)) (UnMark a s))"

definition relink :: "addr \<Rightarrow> addr \<Rightarrow> gcstate \<Rightarrow> gcstate" where
  "relink rlast resurrected s =
     (let h1 = (gs_links s)(rlast := (gs_links s rlast)\<lparr>g_next := gs_chain s\<rparr>);
          h2 = (case gs_chain s of None \<Rightarrow> h1 | Some f \<Rightarrow> h1(f := (h1 f)\<lparr>g_prev := Some rlast\<rparr>))
      in s\<lparr>gs_links := h2, gs_chain := Some resurrected\<rparr>)"

text \<open>The number of objects found, the value pushed on the stack, and the state.\<close>

definition ResurrectUnreachable ::
    "nat \<Rightarrow> addr \<Rightarrow> gcroots \<Rightarrow> gcstate \<Rightarrow> (int \<times> sqobj \<times> gcstate) outcome" where
  "ResurrectUnreachable fuel arr r s =
     obind (RunMark fuel r (s\<lparr>gs_tchain := None\<rparr>)) (\<lambda>s1.
       let resurrected = gs_chain s1; s2 = s1\<lparr>gs_chain := gs_tchain s1, gs_tchain := None\<rparr> in
       case resurrected of
         None \<Rightarrow> obind (unmark_loop fuel (gs_chain s2) s2) (\<lambda>s3. Done (0, ONull, s3))
       | Some first \<Rightarrow>
           obind (resurrect_loop fuel arr resurrected None 0 (array_create arr s2)) (\<lambda>(rlast, n, s3).
             case rlast of
               None \<Rightarrow> Undef
             | Some l \<Rightarrow>
                 let s4 = relink l first s3 in
                 obind (unmark_loop fuel (gs_chain s4) s4) (\<lambda>s5.
                   Done (n, ORef KArray arr, s5\<lparr>gs_uiref := (gs_uiref s5)(arr := gs_uiref s5 arr + 1)\<rparr>))))"

end
