(* ===== verification/GcProps.thy ===== *)
theory GcProps
  imports Gc
begin

text \<open>
  The mark phase is a search of the heap: what it marks is what can be reached from the
  roots, the marked objects leave the chain for the new one, and the fuel that suffices is
  one more than the number of unmarked objects.
\<close>

section \<open>The mark bit\<close>

lemma MARK_FLAG_nonzero [simp]: "MARK_FLAG \<noteq> 0"
  by (simp add: MARK_FLAG_def)

definition marked :: "gcstate \<Rightarrow> addr set" where
  "marked s = {a. gs_uiref s a AND MARK_FLAG \<noteq> 0}"

lemma unmark_or: "(w OR MARK_FLAG) AND NOT MARK_FLAG = w AND NOT MARK_FLAG"
  by (rule bit_word_eqI) (auto simp: bit_simps)

lemma unmark_unmarked:
  assumes "w AND MARK_FLAG = 0"
  shows "w AND NOT MARK_FLAG = w"
proof (rule bit_word_eqI)
  fix n assume "n < LENGTH(64)"
  from assms have "\<not> bit (w AND MARK_FLAG) n" by simp
  then show "bit (w AND NOT MARK_FLAG) n = bit w n" using \<open>n < LENGTH(64)\<close> by (auto simp: bit_simps)
qed

lemma or_marked: "(w OR MARK_FLAG) AND MARK_FLAG \<noteq> 0"
  by (simp add: or.commute and.commute)

section \<open>Reachability\<close>

text \<open>
  What an object holds, by its fields and in no order: the specification of the marking, which does
  not look at what the methods of the code mark.  An instance holds the values of the fields of its class, a
  closure as many captured values and defaults as its function declares.
\<close>

fun holds :: "(addr \<Rightarrow> gcobj option) \<Rightarrow> gcobj \<Rightarrow> sqobj set" where
  "holds hp (GThread lasterror errorhandler debughook_closure roottable temp_reg stack calls) =
     {lasterror, errorhandler, debughook_closure, roottable, temp_reg} \<union> set stack \<union> set calls"
| "holds hp (GArray vs) = set vs"
| "holds hp (GTable t) = {ORef KTable d |d. t_delegate t = Some d} \<union> nkey ` set (t_nodes t) \<union> nval ` set (t_nodes t)"
| "holds hp (GClass members base attributes defaultvalues methods metamethods) =
     {ORef KTable members, attributes} \<union> {ORef KClass b |b. base = Some b} \<union>
     fst ` set defaultvalues \<union> snd ` set defaultvalues \<union> fst ` set methods \<union> snd ` set methods \<union> set metamethods"
| "holds hp (GInstance cls vs) =
     {ORef KClass cls} \<union> {vs ! i |i. \<exists>ms b at dv me mm. hp cls = Some (GClass ms b at dv me mm) \<and> i < length dv}"
| "holds hp (GGenerator stack closure) = insert closure (set stack)"
| "holds hp (GFuncProto literals functions nouter ndefault) = set literals \<union> set functions"
| "holds hp (GClosure base func outervalues defaultparams) =
     {ORef KClass b |b. base = Some b} \<union> {ORef KFuncProto func} \<union>
     {outervalues ! i |i. \<exists>ls fs no nd. hp func = Some (GFuncProto ls fs no nd) \<and> i < no} \<union>
     {defaultparams ! i |i. \<exists>ls fs no nd. hp func = Some (GFuncProto ls fs no nd) \<and> i < nd}"
| "holds hp (GNativeClosure outervalues) = set outervalues"
| "holds hp (GOuter closed val) = {v. closed \<and> v = val}"
| "holds hp (GUserData delegate) = {ORef KTable d |d. delegate = Some d}"

text \<open>A weak reference does not keep its object alive.\<close>

definition kids :: "(addr \<Rightarrow> gcobj option) \<Rightarrow> addr \<Rightarrow> addr set" where
  "kids hp a = {b. \<exists>ob k. hp a = Some ob \<and> ORef k b \<in> holds hp ob \<and> k \<noteq> KWeakRef}"

inductive_set reach :: "(addr \<Rightarrow> gcobj option) \<Rightarrow> addr set \<Rightarrow> addr set" for hp R where
  root: "a \<in> R \<Longrightarrow> a \<in> reach hp R"
| step: "a \<in> reach hp R \<Longrightarrow> b \<in> kids hp a \<Longrightarrow> b \<in> reach hp R"

lemma reach_mono: "a \<in> reach hp R \<Longrightarrow> R \<subseteq> reach hp S \<Longrightarrow> a \<in> reach hp S"
  by (induction rule: reach.induct) (auto intro: reach.step)

text \<open>The list of a \<open>Mark\<close> has just these objects.\<close>

definition targets :: "sqobj list \<Rightarrow> addr set" where
  "targets rs = {a. \<exists>k. ORef k a \<in> set rs \<and> collectable k}"

lemma targets_Cons: "targets (ob # rs) = targets [ob] \<union> targets rs"
  by (auto simp: targets_def)

lemma targets_append: "targets (rs @ qs) = targets rs \<union> targets qs"
  by (auto simp: targets_def)

lemma targets_Nil [simp]: "targets [] = {}"
  by (simp add: targets_def)

text \<open>
  A heap without dangling references, in which every object has the parts that are read: the class
  of an instance and a value for each of its fields, the function of a closure and the values it declares.
\<close>

fun complete :: "(addr \<Rightarrow> gcobj option) \<Rightarrow> gcobj \<Rightarrow> bool" where
  "complete hp (GInstance cls vs) \<longleftrightarrow>
     (case hp cls of Some (GClass _ _ _ defaultvalues _ _) \<Rightarrow> length defaultvalues \<le> length vs | _ \<Rightarrow> False)"
| "complete hp (GClosure base func outervalues defaultparams) \<longleftrightarrow>
     (case hp func of
        Some (GFuncProto _ _ nouter ndefault) \<Rightarrow> nouter \<le> length outervalues \<and> ndefault \<le> length defaultparams
      | _ \<Rightarrow> False)"
| "complete hp _ \<longleftrightarrow> True"

definition closed_heap :: "(addr \<Rightarrow> gcobj option) \<Rightarrow> bool" where
  "closed_heap hp \<longleftrightarrow> finite (dom hp) \<and> (\<forall>a ob. hp a = Some ob \<longrightarrow> complete hp ob \<and> kids hp a \<subseteq> dom hp)"

lemma set_take_nth: "n \<le> length xs \<Longrightarrow> set (take n xs) = {xs ! i |i. i < n}"
  by (auto simp: nth_image [symmetric])

lemma set_some_ref: "set (some_ref k p) = {ORef k d |d. p = Some d}"
  by (auto simp: some_ref_def split: option.splits)

lemma marks_holds:
  assumes "complete hp ob"
  obtains rs where "marks hp ob = Some rs" "set rs = holds hp ob"
proof (cases ob)
  case (GInstance cls vs)
  then show thesis using assms that
    by (auto simp: upto_count_def set_take_nth split: option.splits gcobj.splits)
next
  case (GClosure base func os ds)
  then show thesis using assms that
    by (auto simp: upto_count_def set_take_nth set_some_ref split: option.splits gcobj.splits)
next
  case (GTable t)
  then show thesis using that by (auto simp: set_some_ref)
next
  case (GClass ms b at dv me mm)
  have pairs: "(\<Union>x\<in>set ps. set (case x of (v, w) \<Rightarrow> [v, w])) = fst ` set ps \<union> snd ` set ps" for ps :: "(sqobj \<times> sqobj) list"
    by force
  have "marks hp ob = Some ([ORef KTable ms] @ some_ref KClass b @ [at] @ concat (map (\<lambda>(v, w). [v, w]) dv) @
      concat (map (\<lambda>(v, w). [v, w]) me) @ mm)" by (simp add: GClass)
  then show thesis by (rule that) (simp only: GClass holds.simps set_append set_concat set_map image_image set_some_ref pairs, auto)
next
  case (GOuter c v)
  then show thesis using that by (cases c) auto
qed (use that in \<open>auto simp: set_some_ref\<close>)

lemma kids_targets:
  assumes "hp a = Some ob" "set rs = holds hp ob"
  shows "kids hp a = targets rs"
  using assms by (auto simp: kids_def targets_def collectable_def)

lemma closed_marks:
  assumes "closed_heap hp" "hp a = Some ob"
  obtains rs where "marks hp ob = Some rs" "kids hp a = targets rs" "targets rs \<subseteq> dom hp"
proof -
  have c: "complete hp ob" "kids hp a \<subseteq> dom hp" using assms by (auto simp: closed_heap_def)
  obtain rs where "marks hp ob = Some rs" "set rs = holds hp ob" by (rule marks_holds [OF c(1)])
  then show thesis using that kids_targets [of hp a ob rs, OF assms(2)] c(2) by simp
qed

text \<open>\<open>xs\<close> is the chain of what is not yet finished, \<open>ys\<close> the chain of what is.\<close>

definition chains :: "gcstate \<Rightarrow> addr list \<Rightarrow> addr list \<Rightarrow> bool" where
  "chains s xs ys \<longleftrightarrow> dlist (gs_links s) (gs_chain s) None xs \<and> dlist (gs_links s) (gs_tchain s) None ys \<and>
     distinct (xs @ ys)"

lemma chains_end_mark:
  assumes "chains s xs ys" "a \<in> set xs"
  shows "chains (end_mark a s) (remove1 a xs) (a # ys)"
proof -
  obtain c h where r: "RemoveFromChain a (gs_chain s, gs_links s) = (c, h)" by fastforce
  obtain t h' where t: "AddToChain a (gs_tchain s, h) = (t, h')" by fastforce
  from assms have d: "dlist (gs_links s) (gs_chain s) None xs" "distinct xs"
    "dlist (gs_links s) (gs_tchain s) None ys" "distinct ys" "set xs \<inter> set ys = {}"
    by (auto simp: chains_def)
  from dlist_remove [OF d(1,2) assms(2) r] have
    r1: "dlist h c None (remove1 a xs)" "\<forall>y. y \<notin> set xs \<longrightarrow> h y = gs_links s y" by auto
  have "dlist h (gs_tchain s) None ys"
    using d(3,5) r1(2) by (subst dlist_frame [of ys _ "gs_links s"]) auto
  from dlist_add [OF this d(4) _ t] assms(2) d(5)
  have t1: "dlist h' t None (a # ys)" "\<forall>y. y \<notin> set (a # ys) \<longrightarrow> h' y = h y" by auto
  have "dlist h' c None (remove1 a xs)"
    using r1(1) t1(2) d(2,5) by (subst dlist_frame [of _ _ h]) (auto dest: notin_set_remove1 simp: set_remove1_eq)
  with t1(1) d show ?thesis using assms(2)
    by (auto simp: chains_def end_mark_def r t dest: notin_set_remove1)
qed

lemma end_mark_simps [simp]:
  "gs_objs (end_mark a s) = gs_objs s" "gs_uiref (end_mark a s) = gs_uiref s" "marked (end_mark a s) = marked s"
  by (simp_all add: end_mark_def marked_def split: prod.splits)

lemma set_mark_simps [simp]:
  "gs_objs (set_mark a s) = gs_objs s" "chains (set_mark a s) xs ys = chains s xs ys"
  "marked (set_mark a s) = insert a (marked s)"
  by (auto simp: set_mark_def chains_def marked_def or_marked)

section \<open>What a mark does\<close>

text \<open>From \<open>s\<close> to \<open>s'\<close>, marking from \<open>R\<close>: the objects \<open>zs\<close> become marked, last one first.\<close>

definition progress :: "addr set \<Rightarrow> gcstate \<Rightarrow> addr list \<Rightarrow> gcstate \<Rightarrow> bool" where
  "progress R s zs s' \<longleftrightarrow> gs_objs s' = gs_objs s \<and> set zs \<inter> marked s = {} \<and>
     gs_uiref s' = (\<lambda>b. if b \<in> set zs then gs_uiref s b OR MARK_FLAG else gs_uiref s b) \<and>
     R \<subseteq> marked s' \<and> set zs \<subseteq> reach (gs_objs s) R \<and>
     (\<forall>b\<in>set zs. kids (gs_objs s) b \<subseteq> marked s') \<and>
     (\<forall>xs ys. chains s xs ys \<and> set zs \<subseteq> set xs \<longrightarrow> chains s' (filter (\<lambda>x. x \<notin> set zs) xs) (zs @ ys))"

lemma progress_marked: "progress R s zs s' \<Longrightarrow> marked s' = marked s \<union> set zs"
  by (auto simp: progress_def marked_def or_marked)

lemma progress_none: "R \<subseteq> marked s \<Longrightarrow> progress R s [] s"
  by (simp add: progress_def)

lemma progress_trans:
  assumes "progress R s zs s1" "progress Q s1 ws s2"
  shows "progress (R \<union> Q) s (ws @ zs) s2"
proof -
  note m = progress_marked [OF assms(1)] progress_marked [OF assms(2)]
  have "set ws \<subseteq> reach (gs_objs s) (R \<union> Q)" "set zs \<subseteq> reach (gs_objs s) (R \<union> Q)"
    using assms by (auto simp: progress_def intro: reach_mono reach.root)
  moreover have "chains s2 (filter (\<lambda>x. x \<notin> set (ws @ zs)) xs) ((ws @ zs) @ ys)"
    if c: "chains s xs ys" "set (ws @ zs) \<subseteq> set xs" for xs ys
  proof -
    have "chains s1 (filter (\<lambda>x. x \<notin> set zs) xs) (zs @ ys)" using assms(1) c by (auto simp: progress_def)
    moreover have "set ws \<subseteq> set (filter (\<lambda>x. x \<notin> set zs) xs)"
      using assms(2) c m(1) by (auto simp: progress_def)
    ultimately have "chains s2 (filter (\<lambda>x. x \<notin> set ws) (filter (\<lambda>x. x \<notin> set zs) xs)) (ws @ zs @ ys)"
      using assms(2) unfolding progress_def by blast
    then show ?thesis by (simp add: conj_ac)
  qed
  moreover have "gs_objs s2 = gs_objs s" "set (ws @ zs) \<inter> marked s = {}" "R \<union> Q \<subseteq> marked s2"
    "\<forall>b\<in>set (ws @ zs). kids (gs_objs s) b \<subseteq> marked s2"
    using assms m by (auto simp: progress_def)
  moreover have "gs_uiref s2 = (\<lambda>b. if b \<in> set (ws @ zs) then gs_uiref s b OR MARK_FLAG else gs_uiref s b)"
    using assms by (auto simp: progress_def fun_eq_iff)
  ultimately show ?thesis unfolding progress_def by (simp only: set_append Un_subset_iff) blast
qed

definition white :: "gcstate \<Rightarrow> addr set" where
  "white s = dom (gs_objs s) - marked s"

lemma progress_white:
  assumes "progress R s zs s'"
  shows "white s' \<subseteq> white s"
  using progress_marked [OF assms] assms unfolding white_def progress_def by auto

lemma mark_steps:
  assumes marks: "\<And>a u. gs_objs u = hp \<Longrightarrow> a \<in> dom hp \<Longrightarrow> white u \<subseteq> W \<Longrightarrow> \<exists>zs u'. mark a u = Done u' \<and> progress {a} u zs u'"
    and "gs_objs s = hp" "targets rs \<subseteq> dom hp" "white s \<subseteq> W"
  shows "\<exists>zs s'. steps (map (MarkObject mark) rs) s = Done s' \<and> progress (targets rs) s zs s'"
  using assms(2-)
proof (induction rs arbitrary: s)
  case Nil
  have "progress {} s [] s" by (simp add: progress_none)
  then show ?case by auto
next
  case (Cons ob rs)
  have tgt: "targets (ob # rs) = targets [ob] \<union> targets rs" by (rule targets_Cons)
  have "\<exists>zs s1. MarkObject mark ob s = Done s1 \<and> progress (targets [ob]) s zs s1"
  proof (cases "\<exists>k a. ob = ORef k a \<and> collectable k")
    case True
    then obtain k a where k: "ob = ORef k a" "collectable k" by blast
    then have t1: "targets [ob] = {a}" by (auto simp: targets_def)
    then have "a \<in> dom hp" using Cons.prems(2) tgt by simp
    from marks [OF Cons.prems(1) this Cons.prems(3)] obtain zs s1 where
      "mark a s = Done s1" "progress (targets [ob]) s zs s1" unfolding t1 by blast
    moreover have "MarkObject mark ob s = mark a s" by (simp add: MarkObject_def k)
    ultimately show ?thesis by auto
  next
    case False
    then have "MarkObject mark ob s = Done s" "targets [ob] = {}"
      by (auto simp: MarkObject_def targets_def split: sqobj.splits)
    moreover from this have "progress (targets [ob]) s [] s" by (intro progress_none) simp
    ultimately show ?thesis by blast
  qed
  then obtain zs s1 where 1: "MarkObject mark ob s = Done s1" "progress (targets [ob]) s zs s1" by blast
  then have "gs_objs s1 = hp" "white s1 \<subseteq> W"
    using Cons.prems progress_white [OF 1(2)] by (auto simp: progress_def)
  with Cons.IH [of s1] Cons.prems obtain ws s2 where
    "steps (map (MarkObject mark) rs) s1 = Done s2" "progress (targets rs) s1 ws s2"
    using tgt by auto
  with 1 progress_trans [OF 1(2)] have
    "steps (map (MarkObject mark) (ob # rs)) s = Done s2" "progress (targets (ob # rs)) s (ws @ zs) s2"
    unfolding tgt by simp_all
  then show ?case by blast
qed

lemma Mark_progress:
  assumes "closed_heap (gs_objs s)" "a \<in> dom (gs_objs s)" "card (white s) < fuel"
  shows "\<exists>zs s'. Mark fuel a s = Done s' \<and> progress {a} s zs s'"
  using assms
proof (induction fuel arbitrary: a s)
  case (Suc fuel)
  from Suc.prems(2) obtain ob where ob: "gs_objs s a = Some ob" by blast
  obtain rs where rs: "marks (gs_objs s) ob = Some rs" "targets rs \<subseteq> dom (gs_objs s)"
    and kids: "kids (gs_objs s) a = targets rs" by (rule closed_marks [OF Suc.prems(1) ob])
  show ?case
  proof (cases "gs_uiref s a AND MARK_FLAG = 0")
    case False
    then have "progress {a} s [] s" by (intro progress_none) (simp add: marked_def)
    with False show ?thesis using ob by auto
  next
    case True
    let ?s1 = "set_mark a s"
    have fin: "finite (white s)" using Suc.prems(1) by (simp add: white_def closed_heap_def)
    have aw: "a \<in> white s" using True Suc.prems(2) by (simp add: white_def marked_def)
    have w1: "white ?s1 = white s - {a}" by (auto simp: white_def)
    have less: "card (white ?s1) < fuel" using Suc.prems(3) card_Suc_Diff1 [OF fin aw] unfolding w1 by linarith
    have "\<exists>zs u'. Mark fuel b u = Done u' \<and> progress {b} u zs u'"
      if "gs_objs u = gs_objs s" "b \<in> dom (gs_objs s)" "white u \<subseteq> white ?s1" for b u
    proof (rule Suc.IH)
      from that(3) have "card (white u) \<le> card (white ?s1)" using fin by (intro card_mono) (simp_all add: w1)
      with less show "card (white u) < fuel" by linarith
    qed (use Suc.prems(1) that in simp_all)
    from mark_steps [where hp = "gs_objs s" and W = "white ?s1" and mark = "Mark fuel" and s = ?s1 and rs = rs, OF this] rs(2) obtain zs s2 where
      s2: "steps (map (MarkObject (Mark fuel)) rs) ?s1 = Done s2" "progress (targets rs) ?s1 zs s2" by auto
    have m2: "marked s2 = insert a (marked s) \<union> set zs" using progress_marked [OF s2(2)] by simp
    have z: "set zs \<inter> insert a (marked s) = {}" using s2(2) by (simp add: progress_def)
    then have az: "a \<notin> set zs" by blast
    have "progress {a} s (a # zs) (end_mark a s2)"
      unfolding progress_def
    proof (intro conjI allI impI)
      show "set (a # zs) \<inter> marked s = {}" using True z by (auto simp: marked_def)
      show "gs_uiref (end_mark a s2) = (\<lambda>b. if b \<in> set (a # zs) then gs_uiref s b OR MARK_FLAG else gs_uiref s b)"
        using s2(2) az by (auto simp: progress_def set_mark_def fun_eq_iff)
      have "set zs \<subseteq> reach (gs_objs s) (targets rs)" using s2(2) by (simp add: progress_def)
      moreover have "targets rs \<subseteq> reach (gs_objs s) {a}"
        using kids by (auto intro: reach.step [of a] reach.root)
      ultimately show "set (a # zs) \<subseteq> reach (gs_objs s) {a}"
        by (auto intro: reach.root reach_mono)
      show "\<forall>b\<in>set (a # zs). kids (gs_objs s) b \<subseteq> marked (end_mark a s2)"
        using s2(2) kids by (auto simp: progress_def)
      fix xs ys assume c: "chains s xs ys \<and> set (a # zs) \<subseteq> set xs"
      then have "chains s2 (filter (\<lambda>x. x \<notin> set zs) xs) (zs @ ys)"
        using s2(2) by (simp add: progress_def)
      from chains_end_mark [OF this, of a] c az
      have "chains (end_mark a s2) (remove1 a (filter (\<lambda>x. x \<notin> set zs) xs)) (a # zs @ ys)" by simp
      moreover have "remove1 a (filter (\<lambda>x. x \<notin> set zs) xs) = filter (\<lambda>x. x \<notin> set (a # zs)) xs"
        using c by (subst distinct_remove1_removeAll)
          (auto simp: chains_def removeAll_filter_not_eq intro: filter_cong)
      ultimately show "chains (end_mark a s2) (filter (\<lambda>x. x \<notin> set (a # zs)) xs) ((a # zs) @ ys)" by simp
    qed (use s2(2) m2 in \<open>simp_all add: progress_def\<close>)
    then show ?thesis using True ob rs s2(1) by auto
  qed
qed simp

text \<open>\<open>RunMark\<close> from a state without marks: the marked objects are the reachable ones.\<close>

text \<open>
  The roots: the root thread, what the reference table of the embedding program holds, and the
  objects of the shared state.
\<close>

definition gc_roots :: "gcroots \<Rightarrow> addr set" where
  "gc_roots r = {gr_root_vm r} \<union>
     {a. \<exists>k. k \<noteq> KWeakRef \<and> ORef k a \<in> rn_obj ` set (rt_nodes (gr_refs_table r))} \<union>
     {a. \<exists>k. k \<noteq> KWeakRef \<and> ORef k a \<in>
        {gr_registry r, gr_consts r, gr_metamethodsmap r, gr_table_default_delegate r, gr_array_default_delegate r,
         gr_string_default_delegate r, gr_number_default_delegate r, gr_generator_default_delegate r,
         gr_thread_default_delegate r, gr_closure_default_delegate r, gr_class_default_delegate r,
         gr_instance_default_delegate r, gr_weakref_default_delegate r}}"

lemma gc_roots_targets: "gc_roots r = insert (gr_root_vm r) (targets (root_objects r))"
  by (auto simp: gc_roots_def targets_def root_objects_def RefTable_Mark_def collectable_def)

text \<open>Every object is on the chain and unmarked; nothing dangles.\<close>

definition gc_ready :: "gcstate \<Rightarrow> addr list \<Rightarrow> bool" where
  "gc_ready s xs \<longleftrightarrow> closed_heap (gs_objs s) \<and> marked s = {} \<and>
     dlist (gs_links s) (gs_chain s) None xs \<and> distinct xs \<and> set xs = dom (gs_objs s)"

lemma reach_closed:
  assumes "R \<subseteq> M" "\<And>b. b \<in> M \<Longrightarrow> kids hp b \<subseteq> M"
  shows "reach hp R \<subseteq> M"
proof
  fix a assume "a \<in> reach hp R"
  then show "a \<in> M" using assms by induction auto
qed

lemma reach_dom:
  assumes "closed_heap hp" "R \<subseteq> dom hp"
  shows "reach hp R \<subseteq> dom hp"
proof (rule reach_closed)
  fix b assume "b \<in> dom hp"
  with assms(1) show "kids hp b \<subseteq> dom hp" unfolding closed_heap_def by blast
qed fact

lemma RunMark_reach:
  assumes "gc_ready s xs" "gc_roots r \<subseteq> dom (gs_objs s)" "length xs < fuel"
  shows "\<exists>s' zs. RunMark fuel r (s\<lparr>gs_tchain := None\<rparr>) = Done s' \<and> gs_objs s' = gs_objs s \<and>
     set zs = reach (gs_objs s) (gc_roots r) \<and>
     gs_uiref s' = (\<lambda>b. if b \<in> set zs then gs_uiref s b OR MARK_FLAG else gs_uiref s b) \<and>
     chains s' (filter (\<lambda>x. x \<notin> set zs) xs) zs"
proof -
  let ?s = "s\<lparr>gs_tchain := None\<rparr>"
  have hp: "closed_heap (gs_objs ?s)" and m: "marked ?s = {}" and ch: "chains ?s xs []"
    using assms(1) by (auto simp: gc_ready_def chains_def marked_def)
  have w: "card (white u) < fuel" if "white u \<subseteq> white ?s" for u
  proof -
    have "card (white u) \<le> card (set xs)"
      using that assms(1) by (intro card_mono) (auto simp: gc_ready_def white_def)
    with assms(3) card_length [of xs] show ?thesis by linarith
  qed
  have one: "\<exists>zs u'. Mark fuel a u = Done u' \<and> progress {a} u zs u'"
    if "gs_objs u = gs_objs ?s" "a \<in> dom (gs_objs ?s)" "white u \<subseteq> white ?s" for a u
    by (rule Mark_progress) (use hp that w in simp_all)
  from one [of ?s "gr_root_vm r"] assms(2) obtain zs s1 where
    1: "Mark fuel (gr_root_vm r) ?s = Done s1" "progress {gr_root_vm r} ?s zs s1"
    by (auto simp: gc_roots_targets)
  have "gs_objs s1 = gs_objs ?s" "white s1 \<subseteq> white ?s"
    using 1(2) progress_white [OF 1(2)] by (simp_all add: progress_def)
  with mark_steps [where hp = "gs_objs ?s" and W = "white ?s" and mark = "Mark fuel" and s = s1
      and rs = "root_objects r", OF one] assms(2)
  obtain ws s2 where 2: "steps (map (MarkObject (Mark fuel)) (root_objects r)) s1 = Done s2"
    "progress (targets (root_objects r)) s1 ws s2" by (auto simp: gc_roots_targets)
  have p: "progress (gc_roots r) ?s (ws @ zs) s2"
    using progress_trans [OF 1(2) 2(2)] by (simp add: gc_roots_targets)
  have m2: "marked s2 = set (ws @ zs)" using progress_marked [OF p] m by simp
  have "reach (gs_objs s) (gc_roots r) \<subseteq> set (ws @ zs)"
    using p m2 by (intro reach_closed) (auto simp: progress_def)
  moreover have "set (ws @ zs) \<subseteq> reach (gs_objs s) (gc_roots r)" using p by (simp add: progress_def)
  ultimately have eq: "set (ws @ zs) = reach (gs_objs s) (gc_roots r)" by blast
  have "set (ws @ zs) \<subseteq> set xs"
    using reach_dom [OF _ assms(2)] hp assms(1) unfolding eq by (auto simp: gc_ready_def)
  with p ch have c2: "chains s2 (filter (\<lambda>x. x \<notin> set (ws @ zs)) xs) ((ws @ zs) @ [])"
    unfolding progress_def by blast
  have r2: "RunMark fuel r ?s = Done s2" by (simp add: RunMark_def 1(1) 2(1))
  have o2: "gs_objs s2 = gs_objs s"
    "gs_uiref s2 = (\<lambda>b. if b \<in> set (ws @ zs) then gs_uiref s b OR MARK_FLAG else gs_uiref s b)"
    using p by (auto simp: progress_def fun_eq_iff)
  show ?thesis
    by (rule exI [of _ s2], rule exI [of _ "ws @ zs"], intro conjI, rule r2, rule o2, rule eq, rule o2)
      (use c2 in \<open>simp only: append_Nil2\<close>)
qed

section \<open>Resurrection\<close>

definition exported :: "(addr \<Rightarrow> gcobj option) \<Rightarrow> addr \<Rightarrow> bool" where
  "exported hp a \<longleftrightarrow> (case hp a of Some ob \<Rightarrow> GetType ob \<noteq> KFuncProto \<and> GetType ob \<noteq> KOuter | None \<Rightarrow> False)"

definition ref_to :: "(addr \<Rightarrow> gcobj option) \<Rightarrow> addr \<Rightarrow> sqobj" where
  "ref_to hp a = ORef (GetType (the (hp a))) a"

lemma resurrect_loop_correct:
  assumes "dlist (gs_links s) t prev us" "distinct us" "set us \<subseteq> dom hp" "arr \<notin> set us"
    "gs_objs s = hp(arr \<mapsto> GArray vs)" "length us < fuel"
  shows "resurrect_loop fuel arr t rlast n s =
     Done (if us = [] then rlast else Some (last us), n + int (length us),
       s\<lparr>gs_objs := hp(arr \<mapsto> GArray (vs @ map (ref_to hp) (filter (exported hp) us))),
         gs_uiref := (\<lambda>b. if b \<in> set us \<and> exported hp b then gs_uiref s b + 1 else gs_uiref s b)\<rparr>)"
  using assms
proof (induction us arbitrary: fuel t prev rlast n s vs)
  case Nil
  then show ?case by (cases fuel) simp_all
next
  case (Cons u us)
  obtain f where f: "fuel = Suc f" using Cons.prems(6) by (cases fuel) auto
  obtain ob where ob: "hp u = Some ob" using Cons.prems(3) by auto
  have u: "t = Some u" "dlist (gs_links s) (g_next (gs_links s u)) (Some u) us" "u \<noteq> arr"
    using Cons.prems(1,4) by auto
  let ?e = "exported hp u"
  define s1 where "s1 = (if ?e then s\<lparr>gs_objs := hp(arr \<mapsto> GArray (vs @ [ref_to hp u])),
      gs_uiref := (gs_uiref s)(u := gs_uiref s u + 1)\<rparr> else s)"
  have e: "?e \<longleftrightarrow> GetType ob \<noteq> KFuncProto \<and> GetType ob \<noteq> KOuter" by (simp add: exported_def ob)
  have s1: "(if GetType ob \<noteq> KFuncProto \<and> GetType ob \<noteq> KOuter then array_append arr (GetType ob) u s
      else Done s) = Done s1"
    by (simp add: s1_def e array_append_def Cons.prems(5) ref_to_def ob fun_upd_def cong: if_cong)
  have l1: "gs_links s1 = gs_links s" by (simp add: s1_def)
  have o1: "gs_objs s1 = hp(arr \<mapsto> GArray (vs @ (if ?e then [ref_to hp u] else [])))"
  proof (cases ?e)
    case False
    then have "gs_objs s1 = gs_objs s" by (simp add: s1_def)
    with False show ?thesis by (simp only: Cons.prems(5) if_False append_Nil2)
  qed (simp add: s1_def)
  have IH: "resurrect_loop f arr (g_next (gs_links s u)) (Some u) (n + 1) s1 =
      Done (if us = [] then Some u else Some (last us), n + 1 + int (length us),
       s1\<lparr>gs_objs := hp(arr \<mapsto> GArray ((vs @ (if ?e then [ref_to hp u] else [])) @
            map (ref_to hp) (filter (exported hp) us))),
         gs_uiref := (\<lambda>b. if b \<in> set us \<and> exported hp b then gs_uiref s1 b + 1 else gs_uiref s1 b)\<rparr>)"
    using Cons.prems(2-4,6) u(2) o1 f l1 by (intro Cons.IH) simp_all
  have "resurrect_loop fuel arr t rlast n s = resurrect_loop f arr (g_next (gs_links s u)) (Some u) (n + 1) s1"
    using u(3) s1 l1 by (simp add: f u(1) Cons.prems(5) ob)
  then show ?case unfolding IH using Cons.prems(2)
    by (auto simp: s1_def fun_eq_iff)
qed

lemma unmark_loop_correct:
  assumes "dlist (gs_links s) t prev us" "distinct us" "length us < fuel"
  shows "unmark_loop fuel t s =
     Done (s\<lparr>gs_uiref := (\<lambda>b. if b \<in> set us then gs_uiref s b AND NOT MARK_FLAG else gs_uiref s b)\<rparr>)"
  using assms
proof (induction us arbitrary: fuel t prev s)
  case Nil
  then show ?case by (cases fuel) simp_all
next
  case (Cons u us)
  obtain f where f: "fuel = Suc f" using Cons.prems(3) by (cases fuel) auto
  let ?s1 = "UnMark u s"
  have l1: "gs_links ?s1 = gs_links s" by (simp add: UnMark_def)
  have "unmark_loop f (g_next (gs_links s u)) ?s1 = Done (?s1\<lparr>gs_uiref :=
      (\<lambda>b. if b \<in> set us then gs_uiref ?s1 b AND NOT MARK_FLAG else gs_uiref ?s1 b)\<rparr>)"
    using Cons.prems f l1 by (intro Cons.IH [where prev = "Some u"]) simp_all
  with Cons.prems show ?case by (auto simp: f UnMark_def fun_eq_iff)
qed

lemma dlist_join:
  assumes "dlist h p prev us" "us \<noteq> []" "dlist h q None ys" "distinct (us @ ys)"
  shows "dlist (case q of None \<Rightarrow> h(last us := (h (last us))\<lparr>g_next := q\<rparr>)
      | Some f \<Rightarrow> h(last us := (h (last us))\<lparr>g_next := q\<rparr>,
           f := (h f)\<lparr>g_prev := Some (last us)\<rparr>)) p prev (us @ ys)" (is "dlist ?h _ _ _")
  using assms(1,2,4)
proof (induction us arbitrary: p prev)
  case (Cons u us)
  have q: "q = Some f \<Longrightarrow> f \<in> set ys" for f using assms(3) by (cases ys) auto
  show ?case
  proof (cases "us = []")
    case True
    let ?h1 = "h(u := (h u)\<lparr>g_next := q\<rparr>)"
    have "dlist ?h1 q None ys" using assms(3) Cons.prems(3) by (subst dlist_frame [of ys _ h]) auto
    from dlist_new_prev [OF this, of "Some u"] Cons.prems(3)
    have "dlist (case q of None \<Rightarrow> ?h1 | Some f \<Rightarrow> ?h1(f := (?h1 f)\<lparr>g_prev := Some u\<rparr>)) q (Some u) ys" by simp
    with True Cons.prems q show ?thesis by (cases q) (auto simp: fun_upd_def cong: if_cong)
  next
    case False
    then have l: "last (u # us) = last us" "last us \<in> set us" by simp_all
    with Cons.prems(3) have "u \<noteq> last us" by auto
    with Cons False l q show ?thesis by (cases q) auto
  qed
qed simp

lemma small_unmarked:
  assumes "w < 2 ^ 31"
  shows "(w :: 64 word) AND MARK_FLAG = 0"
proof (rule bit_word_eqI)
  fix n assume n: "n < LENGTH(64)"
  have f: "MARK_FLAG = push_bit 31 1" by (simp add: MARK_FLAG_def)
  have "unat w < 2 ^ 31" using assms by (simp add: word_less_nat_alt)
  then have "unat w = take_bit 31 (unat w)" by (simp add: take_bit_nat_eq_self)
  then have "\<not> bit (unat w) 31" by (metis bit_take_bit_iff less_irrefl)
  then have "\<not> bit w 31" by (simp add: bit_unsigned_iff)
  moreover have "bit MARK_FLAG n \<longleftrightarrow> n = 31"
    unfolding f bit_push_bit_iff bit_1_iff using n by auto
  ultimately show "bit (w AND MARK_FLAG) n = bit (0 :: 64 word) n" by (auto simp: bit_and_iff)
qed

text \<open>The counts that the marks and the array leave: far below the mark bit.\<close>

definition counts_ok :: "gcstate \<Rightarrow> bool" where
  "counts_ok s \<longleftrightarrow> (\<forall>a. gs_uiref s a + 1 < 2 ^ 31 \<and> gs_uiref s a < 2 ^ 31)"

lemma chains_finished: "chains s xs ys \<Longrightarrow> finite D \<Longrightarrow> set ys \<subseteq> D \<Longrightarrow> length ys \<le> card D"
  by (auto simp: chains_def distinct_card [symmetric] intro!: card_mono)

lemma targets_exported: "targets (map (ref_to hp) (filter (exported hp) us)) \<subseteq> set us"
  by (auto simp: targets_def ref_to_def)

lemma fresh_object:
  assumes "complete hp ob" "arr \<notin> dom hp"
  shows "complete (hp(arr \<mapsto> x)) ob \<and> holds (hp(arr \<mapsto> x)) ob = holds hp ob"
proof (cases ob)
  case (GInstance cls vs)
  then have "cls \<noteq> arr" using assms by (auto split: option.splits)
  then show ?thesis using assms(1) GInstance by simp
next
  case (GClosure base func os ds)
  then have "func \<noteq> arr" using assms by (auto split: option.splits)
  then show ?thesis using assms(1) GClosure by simp
qed simp_all

lemma closed_with_array:
  assumes "closed_heap hp" "arr \<notin> dom hp" "targets vs \<subseteq> dom hp"
  shows "closed_heap (hp(arr \<mapsto> GArray vs))"
  unfolding closed_heap_def
proof (rule conjI, simp add: assms(1) [unfolded closed_heap_def], intro allI impI)
  let ?hp = "hp(arr \<mapsto> GArray vs)"
  fix a ob assume a: "?hp a = Some ob"
  show "complete ?hp ob \<and> kids ?hp a \<subseteq> dom ?hp"
  proof (cases "a = arr")
    case True
    with a have "ob = GArray vs" by simp
    moreover from this have "kids ?hp a = targets vs" using kids_targets [of ?hp a ob vs] a by simp
    ultimately show ?thesis using assms(3) by auto
  next
    case False
    with a have o: "hp a = Some ob" by simp
    then have c: "complete hp ob" "kids hp a \<subseteq> dom hp" using assms(1) by (auto simp: closed_heap_def)
    note f = fresh_object [OF c(1) assms(2), of "GArray vs"]
    have "kids ?hp a = kids hp a" using f a o by (simp add: kids_def)
    then show ?thesis using f c(2) by auto
  qed
qed

definition unreachable :: "gcstate \<Rightarrow> gcroots \<Rightarrow> addr list \<Rightarrow> addr list" where
  "unreachable s r xs = filter (\<lambda>a. a \<notin> reach (gs_objs s) (gc_roots r)) xs"

lemma Resurrect_correct:
  assumes "gc_ready s xs" "gc_roots r \<subseteq> dom (gs_objs s)" "counts_ok s" "length xs + 1 < fuel"
    "arr \<notin> dom (gs_objs s)" and us: "us = unreachable s r xs"
  shows "\<exists>s' xs'. ResurrectUnreachable fuel arr r s =
       Done (int (length us), if us = [] then ONull else ORef KArray arr, s') \<and>
     gs_objs s' = (if us = [] then gs_objs s
       else (gs_objs s)(arr \<mapsto> GArray (map (ref_to (gs_objs s)) (filter (exported (gs_objs s)) us)))) \<and>
     gc_ready s' xs' \<and>
     (\<forall>a\<in>dom (gs_objs s). gs_uiref s' a =
        gs_uiref s a + (if a \<in> set us \<and> exported (gs_objs s) a then 1 else 0))"
proof -
  let ?hp = "gs_objs s" and ?R = "reach (gs_objs s) (gc_roots r)"
  from assms(4) have "length xs < fuel" by simp
  from RunMark_reach [OF assms(1,2) this] obtain s1 zs where r1:
    "RunMark fuel r (s\<lparr>gs_tchain := None\<rparr>) = Done s1" "gs_objs s1 = ?hp" "set zs = ?R"
    "gs_uiref s1 = (\<lambda>b. if b \<in> set zs then gs_uiref s b OR MARK_FLAG else gs_uiref s b)"
    and c1: "chains s1 (filter (\<lambda>x. x \<notin> set zs) xs) zs" by (elim exE conjE)
  have us_eq: "us = filter (\<lambda>x. x \<notin> set zs) xs" by (simp only: us unreachable_def r1(3))
  note r1 = r1 c1 [folded us_eq]
  have ready: "closed_heap ?hp" "marked s = {}" "distinct xs" "set xs = dom ?hp"
    using assms(1) by (auto simp: gc_ready_def)
  have RD: "?R \<subseteq> set xs" using reach_dom [OF ready(1) assms(2)] ready(4) by simp
  have uz: "set us = set xs - set zs" "set us \<union> set zs = set xs" "distinct us" "distinct zs"
    using r1(3,5) RD ready(3) by (auto simp: us_eq chains_def)
  have lz: "length zs \<le> length xs" "length (us @ arr # zs) < fuel"
  proof -
    have "length us + length zs = card (set us) + card (set zs)"
      by (simp add: distinct_card uz(3,4))
    also have "\<dots> = card (set us \<union> set zs)" using uz(1) by (subst card_Un_disjoint) auto
    also have "\<dots> = length xs" by (simp only: uz(2) distinct_card [OF ready(3)])
    finally show "length zs \<le> length xs" "length (us @ arr # zs) < fuel"
      using assms(4) by simp_all
  qed
  have un: "w AND NOT MARK_FLAG = w" if "w < 2 ^ 31" for w :: "64 word"
    using small_unmarked [OF that] by (rule unmark_unmarked)
  have cnt: "gs_uiref s a < 2 ^ 31" "gs_uiref s a + 1 < 2 ^ 31" for a
    using assms(3) by (auto simp: counts_ok_def)
  let ?s2 = "s1\<lparr>gs_chain := gs_tchain s1, gs_tchain := None\<rparr>"
  have d: "dlist (gs_links s1) (gs_chain s1) None us" "dlist (gs_links s1) (gs_tchain s1) None zs"
    "set us \<inter> set zs = {}" using r1(5) by (auto simp: chains_def)
  show ?thesis
  proof (cases "us = []")
    case True
    then have c0: "gs_chain s1 = None" using d(1) by simp
    define s3 where "s3 = ?s2\<lparr>gs_uiref := (\<lambda>b. if b \<in> set zs then gs_uiref s1 b AND NOT MARK_FLAG else gs_uiref s1 b)\<rparr>"
    have "unmark_loop fuel (gs_chain ?s2) ?s2 = Done s3"
      using d(2) uz(4) lz(2) by (subst unmark_loop_correct [where us = zs and prev = None]) (simp_all add: s3_def cong: if_cong)
    then have res: "ResurrectUnreachable fuel arr r s = Done (0, ONull, s3)"
      by (simp add: ResurrectUnreachable_def r1(1) c0)
    have u3: "gs_uiref s3 = gs_uiref s"
      using cnt un by (simp add: s3_def r1(4) unmark_or fun_eq_iff)
    have o3: "gs_objs s3 = ?hp" by (simp add: s3_def r1(2))
    have "marked s3 = {}" using small_unmarked [OF cnt(1)] by (simp add: marked_def u3)
    moreover have "dlist (gs_links s3) (gs_chain s3) None zs" using d(2) by (simp add: s3_def)
    ultimately have "gc_ready s3 zs" using ready uz True by (simp add: gc_ready_def o3)
    with res u3 o3 True show ?thesis by (intro exI [of _ s3] exI [of _ zs]) simp
  next
    case False
    then obtain first where first: "gs_chain s1 = Some first" using d(1) by (cases us) auto
    obtain c h where ac: "AddToChain arr (gs_tchain s1, gs_links s1) = (c, h)" by fastforce
    have arr: "arr \<notin> set us" "arr \<notin> set zs" using assms(5) ready(4) uz(2) by auto
    from dlist_add [OF d(2) uz(4) arr(2) ac] have
      h1: "dlist h c None (arr # zs)" "\<forall>y. y \<notin> set (arr # zs) \<longrightarrow> h y = gs_links s1 y" by auto
    have hu: "dlist h (Some first) None us"
      using d(1,3) arr(1) h1(2) first by (subst dlist_frame [of us _ "gs_links s1"]) auto
    define s2 where "s2 = array_create arr ?s2"
    have s2: "gs_objs s2 = ?hp(arr \<mapsto> GArray [])" "gs_uiref s2 = (gs_uiref s1)(arr := 0)" "gs_links s2 = h"
      "gs_chain s2 = c" by (simp_all add: s2_def array_create_def ac r1(2))
    let ?vs = "map (ref_to ?hp) (filter (exported ?hp) us)"
    define s3 where "s3 = s2\<lparr>gs_objs := ?hp(arr \<mapsto> GArray ?vs),
      gs_uiref := (\<lambda>b. if b \<in> set us \<and> exported ?hp b then gs_uiref s2 b + 1 else gs_uiref s2 b)\<rparr>"
    have loop: "resurrect_loop fuel arr (Some first) None 0 s2 = Done (Some (last us), int (length us), s3)"
      using hu uz arr ready(4) s2 lz(2) False
      by (subst resurrect_loop_correct [where us = us and hp = ?hp and vs = "[]" and prev = None]) (auto simp: s3_def)
    define s4 where "s4 = relink (last us) first s3"
    have l3: "gs_links s3 = h" "gs_chain s3 = c" by (simp_all add: s3_def s2)
    have disj: "distinct (us @ arr # zs)" using uz d(3) arr by auto
    have lu: "last us \<in> set us" using False by simp
    have cl: "c = Some arr" using h1(1) by simp
    have s4: "dlist (gs_links s4) (gs_chain s4) None (us @ arr # zs)" "gs_objs s4 = gs_objs s3"
      "gs_uiref s4 = gs_uiref s3" "gs_chain s4 = Some first"
      using dlist_join [OF hu False h1(1) disj] lu arr(1)
      by (auto simp: s4_def relink_def l3 cl Let_def)
    define s5 where "s5 = s4\<lparr>gs_uiref := (\<lambda>b. if b \<in> set (us @ arr # zs) then gs_uiref s4 b AND NOT MARK_FLAG
      else gs_uiref s4 b)\<rparr>"
    have unm: "unmark_loop fuel (gs_chain s4) s4 = Done s5" unfolding s5_def
      by (rule unmark_loop_correct [OF s4(1) disj lz(2)])
    define s6 where "s6 = s5\<lparr>gs_uiref := (gs_uiref s5)(arr := gs_uiref s5 arr + 1)\<rparr>"
    have res: "ResurrectUnreachable fuel arr r s = Done (int (length us), ORef KArray arr, s6)"
      using loop unm by (simp add: ResurrectUnreachable_def r1(1) first s2_def [symmetric] s4_def [symmetric]
          s6_def Let_def)
    have in_dom: "a \<noteq> arr" if "a \<in> set xs" for a using that assms(5) ready(4) by auto
    have u6: "gs_uiref s6 a = gs_uiref s a + (if a \<in> set us \<and> exported ?hp a then 1 else 0)"
      if "a \<in> set xs" for a
      using that in_dom [OF that] uz d(3) un cnt
      by (auto simp: s6_def s5_def s4(3) s3_def s2 r1(4) unmark_or)
    have ua: "gs_uiref s6 arr = 1" using arr by (simp add: s6_def s5_def s4(3) s3_def s2)
    have uo: "gs_uiref s6 a = gs_uiref s a" if "a \<notin> set xs" "a \<noteq> arr" for a
      using that uz by (auto simp: s6_def s5_def s4(3) s3_def s2 r1(4))
    have "gs_uiref s6 a < 2 ^ 31" for a
    proof (cases "a \<in> set xs")
      case True
      then show ?thesis using u6 [OF True] cnt by simp
    next
      case False
      then show ?thesis using ua uo [OF False] cnt by (cases "a = arr") simp_all
    qed
    then have m6: "marked s6 = {}" using small_unmarked by (simp add: marked_def)
    have o6: "gs_objs s6 = ?hp(arr \<mapsto> GArray ?vs)" by (simp add: s6_def s5_def s4(2) s3_def)
    have "targets ?vs \<subseteq> dom ?hp" using targets_exported [of ?hp us] uz ready(4) by blast
    from closed_with_array [OF ready(1) assms(5) this] have "closed_heap (gs_objs s6)" by (simp only: o6)
    moreover have "dlist (gs_links s6) (gs_chain s6) None (us @ arr # zs)" using s4(1) by (simp add: s6_def s5_def)
    moreover have "set (us @ arr # zs) = dom (gs_objs s6)" using uz ready(4) by (auto simp: o6)
    ultimately have g6: "gc_ready s6 (us @ arr # zs)" using m6 disj unfolding gc_ready_def by blast
    have "\<forall>a\<in>dom ?hp. gs_uiref s6 a = gs_uiref s a + (if a \<in> set us \<and> exported ?hp a then 1 else 0)"
      using u6 ready(4) by blast
    with res o6 g6 False show ?thesis by (intro exI [of _ s6] exI [of _ "us @ arr # zs"]) simp
  qed
qed

section \<open>Properties\<close>

definition sample_heap :: "addr \<Rightarrow> gcobj option" where
  "sample_heap = [16 \<mapsto> GThread ONull ONull ONull (ORef KTable 32) ONull [OInteger 1] [],
     32 \<mapsto> GTable \<lparr>t_nodes = [\<lparr>nkey = OString ''a'', nval = ORef KArray 48, nnext = None\<rparr>],
       t_firstfree = 0, t_usednodes = 1, t_delegate = None\<rparr>,
     48 \<mapsto> GArray [ORef KTable 32], 64 \<mapsto> GArray [ORef KArray 80, ORef KTable 32], 80 \<mapsto> GOuter True (ORef KArray 64)]"

definition sample_gc :: gcstate where
  "sample_gc = \<lparr>gs_objs = sample_heap, gs_uiref = (\<lambda>_. 1),
     gs_links = (\<lambda>_. \<lparr>g_next = None, g_prev = None\<rparr>)
       (16 := \<lparr>g_next = Some 32, g_prev = None\<rparr>, 32 := \<lparr>g_next = Some 48, g_prev = Some 16\<rparr>,
        48 := \<lparr>g_next = Some 64, g_prev = Some 32\<rparr>, 64 := \<lparr>g_next = Some 80, g_prev = Some 48\<rparr>,
        80 := \<lparr>g_next = None, g_prev = Some 64\<rparr>),
     gs_chain = Some 16, gs_tchain = None\<rparr>"

definition sample_roots :: gcroots where
  "sample_roots = \<lparr>gr_root_vm = 16, gr_refs_table = RefTable_new, gr_registry = ONull, gr_consts = ONull,
     gr_metamethodsmap = ONull, gr_table_default_delegate = ONull, gr_array_default_delegate = ONull,
     gr_string_default_delegate = ONull, gr_number_default_delegate = ONull,
     gr_generator_default_delegate = ONull, gr_thread_default_delegate = ONull,
     gr_closure_default_delegate = ONull, gr_class_default_delegate = ONull,
     gr_instance_default_delegate = ONull, gr_weakref_default_delegate = ONull\<rparr>"

lemma sample_roots_addr: "gc_roots sample_roots = {16}"
  by (auto simp: gc_roots_def sample_roots_def root_objects_def targets_def RefTable_Mark_def RefTable_new_def
      RefTable_AllocNodes_def)

lemma sample_ready: "gc_ready sample_gc [16, 32, 48, 64, 80]"
proof -
  have dom: "dom sample_heap = {16, 32, 48, 64, 80}" by (auto simp: sample_heap_def)
  have "closed_heap sample_heap" unfolding closed_heap_def dom
    by (auto simp: sample_heap_def kids_def)
  moreover have "marked sample_gc = {}" by (simp add: marked_def sample_gc_def MARK_FLAG_def)
  ultimately show ?thesis by (simp add: gc_ready_def sample_gc_def dom)
qed

lemma sample_reach: "reach sample_heap {16} = {16, 32, 48}"
proof
  show "reach sample_heap {16} \<subseteq> {16, 32, 48}"
    by (rule reach_closed) (auto simp: sample_heap_def kids_def)
  have k: "32 \<in> kids sample_heap 16" "48 \<in> kids sample_heap 32"
    by (auto simp: sample_heap_def kids_def)
  have "16 \<in> reach sample_heap {16}" by (simp add: reach.root)
  moreover from reach.step [OF this k(1)] have "32 \<in> reach sample_heap {16}" .
  moreover from reach.step [OF this k(2)] have "48 \<in> reach sample_heap {16}" .
  ultimately show "{16, 32, 48} \<subseteq> reach sample_heap {16}" by simp
qed

text \<open>
  C15. Marking is reachability.  When every object is on the chain, unmarked and without
  dangling references, the mark phase ends; an object is marked exactly when it can be
  reached from the root thread, the reference table and the shared objects; the reachable
  objects make up the new chain and the others keep their place on the old one, both
  properly linked; no object is changed.  One unit of fuel more than there are objects
  is enough.
\<close>

theorem marking_is_reachability:
  assumes "gc_ready s xs" "gc_roots r \<subseteq> dom (gs_objs s)" "length xs < fuel"
  shows "\<exists>s' zs. RunMark fuel r (s\<lparr>gs_tchain := None\<rparr>) = Done s' \<and> gs_objs s' = gs_objs s \<and>
     marked s' = reach (gs_objs s) (gc_roots r) \<and> set zs = reach (gs_objs s) (gc_roots r) \<and>
     dlist (gs_links s') (gs_tchain s') None zs \<and> distinct zs \<and>
     dlist (gs_links s') (gs_chain s') None (unreachable s r xs)"
proof -
  from RunMark_reach [OF assms] obtain s' zs where r: "RunMark fuel r (s\<lparr>gs_tchain := None\<rparr>) = Done s'"
    "gs_objs s' = gs_objs s" "set zs = reach (gs_objs s) (gc_roots r)"
    "gs_uiref s' = (\<lambda>b. if b \<in> set zs then gs_uiref s b OR MARK_FLAG else gs_uiref s b)"
    and c: "chains s' (filter (\<lambda>x. x \<notin> set zs) xs) zs" by (elim exE conjE)
  have "marked s' = set zs \<union> marked s" by (auto simp: marked_def r(4) or_marked)
  then have m: "marked s' = set zs" using assms(1) by (simp add: gc_ready_def)
  have "dlist (gs_links s') (gs_chain s') None (unreachable s r xs)"
    using c by (simp add: chains_def unreachable_def r(3))
  with r(1-3) m c show ?thesis by (intro exI [of _ s'] exI [of _ zs]) (simp add: chains_def)
qed

theorem marking_is_reachability_witness:
  "\<exists>s'. RunMark 6 sample_roots (sample_gc\<lparr>gs_tchain := None\<rparr>) = Done s' \<and> marked s' = {16, 32, 48} \<and>
     dlist (gs_links s') (gs_chain s') None [64, 80]"
proof -
  have o: "gs_objs sample_gc = sample_heap" by (simp add: sample_gc_def)
  have "gc_roots sample_roots \<subseteq> dom (gs_objs sample_gc)" by (simp add: sample_roots_addr o sample_heap_def)
  from marking_is_reachability [OF sample_ready this, of 6]
  show ?thesis by (auto simp: o sample_roots_addr sample_reach unreachable_def)
qed

text \<open>
  C16. The unreachable objects are brought back.  \<open>ResurrectUnreachable\<close> counts the objects
  no root reaches and returns an array of them in the order of the chain, functions'
  prototypes and captured variables left out, or null when there are none.  Afterwards
  nothing is marked, the chain holds every object and the array, properly linked, and
  the only counts that changed are those of the objects in the array, each one higher.
\<close>

theorem resurrect_unreachable:
  assumes "gc_ready s xs" "gc_roots r \<subseteq> dom (gs_objs s)" "counts_ok s" "length xs + 1 < fuel"
    "arr \<notin> dom (gs_objs s)"
  shows "let us = unreachable s r xs in \<exists>s' xs'. ResurrectUnreachable fuel arr r s =
       Done (int (length us), if us = [] then ONull else ORef KArray arr, s') \<and>
     gs_objs s' = (if us = [] then gs_objs s
       else (gs_objs s)(arr \<mapsto> GArray (map (ref_to (gs_objs s)) (filter (exported (gs_objs s)) us)))) \<and>
     gc_ready s' xs' \<and>
     (\<forall>a\<in>dom (gs_objs s). gs_uiref s' a =
        gs_uiref s a + (if a \<in> set us \<and> exported (gs_objs s) a then 1 else 0))"
  unfolding Let_def by (rule Resurrect_correct [OF assms refl])

theorem resurrect_unreachable_witness:
  "\<exists>s' xs'. ResurrectUnreachable 7 96 sample_roots sample_gc = Done (2, ORef KArray 96, s') \<and>
     gs_objs s' 96 = Some (GArray [ORef KArray 64]) \<and> gc_ready s' xs'"
proof -
  have o: "gs_objs sample_gc = sample_heap" by (simp add: sample_gc_def)
  have "gc_roots sample_roots \<subseteq> dom (gs_objs sample_gc)" by (simp add: sample_roots_addr o sample_heap_def)
  moreover have "counts_ok sample_gc" by (simp add: counts_ok_def sample_gc_def)
  moreover have "96 \<notin> dom (gs_objs sample_gc)" by (simp add: o sample_heap_def)
  ultimately have "let us = unreachable sample_gc sample_roots [16, 32, 48, 64, 80] in
     \<exists>s' xs'. ResurrectUnreachable 7 96 sample_roots sample_gc =
       Done (int (length us), if us = [] then ONull else ORef KArray 96, s') \<and>
     gs_objs s' = (if us = [] then gs_objs sample_gc
       else (gs_objs sample_gc)(96 \<mapsto> GArray (map (ref_to (gs_objs sample_gc))
         (filter (exported (gs_objs sample_gc)) us)))) \<and>
     gc_ready s' xs' \<and>
     (\<forall>a\<in>dom (gs_objs sample_gc). gs_uiref s' a =
        gs_uiref sample_gc a + (if a \<in> set us \<and> exported (gs_objs sample_gc) a then 1 else 0))"
    by (intro resurrect_unreachable [OF sample_ready]) simp_all
  moreover have "unreachable sample_gc sample_roots [16, 32, 48, 64, 80] = [64, 80]"
    by (simp add: unreachable_def sample_roots_addr o sample_reach)
  moreover have "map (ref_to sample_heap) (filter (exported sample_heap) [64, 80]) = [ORef KArray 64]"
    by (simp add: exported_def ref_to_def sample_heap_def)
  ultimately show ?thesis unfolding Let_def o by auto
qed

end
