(* ===== verification/Classes.thy ===== *)
theory Classes
  imports SharedState Outcomes
begin

text \<open>
  Classes and instances, \<^verbatim>\<open>squirrel/sqclass.h\<close> and \<^verbatim>\<open>squirrel/sqclass.cpp\<close>, and the
  clone of a closure, \<^verbatim>\<open>squirrel/sqclosure.h\<close>.

  A class numbers its members: its table of members maps a key to an integer that holds
  the kind of the member, a field or a method, and its index in the vector of that kind.
  The vectors are lists.  The heap maps addresses to classes, instances and closures; the
  address of an object to be created is an argument.  An access beyond a vector and one
  to an address that holds nothing are \<open>Undef\<close>.  The memory of an instance is counted in
  bytes for objects of 16 bytes and instances of 104, with one value included.
\<close>

section \<open>Data\<close>

record sqclassmember =
  cm_val :: sqobj
  cm_attrs :: sqobj

definition MEMBER_TYPE_METHOD :: sqint where "MEMBER_TYPE_METHOD = 0x01000000"
definition MEMBER_TYPE_FIELD :: sqint where "MEMBER_TYPE_FIELD = 0x02000000"

definition ismethod :: "sqobj \<Rightarrow> bool" where
  "ismethod ob \<longleftrightarrow> raw_integer ob AND MEMBER_TYPE_METHOD \<noteq> 0"

definition isfield :: "sqobj \<Rightarrow> bool" where
  "isfield ob \<longleftrightarrow> raw_integer ob AND MEMBER_TYPE_FIELD \<noteq> 0"

definition make_method_idx :: "nat \<Rightarrow> sqint" where
  "make_method_idx i = MEMBER_TYPE_METHOD OR of_nat i"

definition make_field_idx :: "nat \<Rightarrow> sqint" where
  "make_field_idx i = MEMBER_TYPE_FIELD OR of_nat i"

definition member_idx :: "sqobj \<Rightarrow> nat" where
  "member_idx ob = unat (raw_integer ob AND 0x00FFFFFF)"

record sqclass =
  c_members :: sqtable
  c_base :: "addr option"
  c_defaultvalues :: "sqclassmember list"
  c_methods :: "sqclassmember list"
  c_metamethods :: "sqobj list"
  c_attributes :: sqobj
  c_typetag :: addr
  c_hook :: "addr option"
  c_locked :: bool
  c_constructoridx :: int
  c_udsize :: int

record sqinstance =
  in_class :: addr
  in_values :: "sqobj list"
  in_userpointer :: "int option"
  in_hook :: "addr option"
  in_memsize :: int

record sqclosure =
  sc_env :: "addr option"
  sc_base :: "addr option"
  sc_function :: addr
  sc_outervalues :: "sqobj list"
  sc_defaultparams :: "sqobj list"

record objheap =
  oh_classes :: "addr \<Rightarrow> sqclass option"
  oh_instances :: "addr \<Rightarrow> sqinstance option"
  oh_closures :: "addr \<Rightarrow> sqclosure option"

definition set_class :: "addr \<Rightarrow> sqclass \<Rightarrow> objheap \<Rightarrow> objheap" where
  "set_class a c h = h\<lparr>oh_classes := (oh_classes h)(a \<mapsto> c)\<rparr>"

definition vec_at :: "'a list \<Rightarrow> nat \<Rightarrow> 'a outcome" where
  "vec_at xs i = (if i < length xs then Done (xs ! i) else Undef)"

definition vec_set :: "'a list \<Rightarrow> nat \<Rightarrow> 'a \<Rightarrow> 'a list outcome" where
  "vec_set xs i x = (if i < length xs then Done (xs[i := x]) else Undef)"

section \<open>Creating a class\<close>

definition Class_new :: "addr \<Rightarrow> addr option \<Rightarrow> objheap \<Rightarrow> objheap outcome" where
  "Class_new this base h =
     (case base of
        None \<Rightarrow>
          Done (set_class this \<lparr>c_members = SQTable_new 0, c_base = None, c_defaultvalues = [],
            c_methods = [], c_metamethods = replicate MT_LAST ONull, c_attributes = ONull,
            c_typetag = 0, c_hook = None, c_locked = False, c_constructoridx = - 1, c_udsize = 0\<rparr> h)
      | Some b \<Rightarrow>
          obind (of_option (oh_classes h b)) (\<lambda>bc.
          obind (of_option (Table_Clone (c_members bc))) (\<lambda>members.
          Done (set_class this \<lparr>c_members = members, c_base = Some b,
            c_defaultvalues = c_defaultvalues bc, c_methods = c_methods bc,
            c_metamethods = c_metamethods bc, c_attributes = ONull,
            c_typetag = 0, c_hook = None, c_locked = False,
            c_constructoridx = c_constructoridx bc, c_udsize = c_udsize bc\<rparr> h))))"

section \<open>Members\<close>

definition Class_Get :: "(addr \<Rightarrow> sqobj) \<Rightarrow> sqclass \<Rightarrow> sqobj \<Rightarrow> sqobj option outcome" where
  "Class_Get wr c key =
     obind (of_option (Table_Get wr (c_members c) key)) (\<lambda>r.
       case r of
         None \<Rightarrow> Done None
       | Some val \<Rightarrow>
           if isfield val
           then obind (vec_at (c_defaultvalues c) (member_idx val)) (\<lambda>m. Done (Some (realval wr (cm_val m))))
           else obind (vec_at (c_methods c) (member_idx val)) (\<lambda>m. Done (Some (cm_val m))))"

definition GetConstructor :: "sqclass \<Rightarrow> sqobj option outcome" where
  "GetConstructor c =
     (if c_constructoridx c \<noteq> - 1
      then obind (vec_at (c_methods c) (nat (c_constructoridx c))) (\<lambda>m. Done (Some (cm_val m)))
      else Done None)"

definition Closure_Create :: "addr \<Rightarrow> nat \<Rightarrow> nat \<Rightarrow> sqclosure" where
  "Closure_Create func nouters ndefaults =
     \<lparr>sc_env = None, sc_base = None, sc_function = func, sc_outervalues = replicate nouters ONull,
      sc_defaultparams = replicate ndefaults ONull\<rparr>"

definition Closure_Clone :: "sqclosure \<Rightarrow> sqclosure" where
  "Closure_Clone c =
     (Closure_Create (sc_function c) (length (sc_outervalues c)) (length (sc_defaultparams c)))
       \<lparr>sc_env := sc_env c, sc_outervalues := sc_outervalues c, sc_defaultparams := sc_defaultparams c\<rparr>"

fun is_closure :: "sqobj \<Rightarrow> bool" where
  "is_closure (ORef KClosure _) \<longleftrightarrow> True"
| "is_closure _ \<longleftrightarrow> False"

fun is_callable :: "sqobj \<Rightarrow> bool" where
  "is_callable (ORef KClosure _) \<longleftrightarrow> True"
| "is_callable (ORef KNativeClosure _) \<longleftrightarrow> True"
| "is_callable _ \<longleftrightarrow> False"

text \<open>A closure put into a class with a base is cloned, and the clone knows the base.\<close>

definition bind_base :: "addr \<Rightarrow> addr option \<Rightarrow> sqobj \<Rightarrow> objheap \<Rightarrow> (sqobj \<times> objheap) outcome" where
  "bind_base clone base val h =
     (case (base, val) of
        (Some b, ORef KClosure a) \<Rightarrow>
          obind (of_option (oh_closures h a)) (\<lambda>co.
          Done (ORef KClosure clone,
                h\<lparr>oh_closures := (oh_closures h)(clone \<mapsto> (Closure_Clone co)\<lparr>sc_base := Some b\<rparr>)\<rparr>))
      | _ \<Rightarrow> Done (val, h))"

definition put_member :: "sqclass \<Rightarrow> sqobj \<Rightarrow> sqint \<Rightarrow> sqclass outcome" where
  "put_member c key idx =
     obind (of_option (Table_NewSlot (c_members c) key (OInteger idx))) (\<lambda>(_, t). Done (c\<lparr>c_members := t\<rparr>))"

definition Class_NewSlot ::
    "(addr \<Rightarrow> sqobj) \<Rightarrow> metastate \<Rightarrow> addr \<Rightarrow> addr \<Rightarrow> sqobj \<Rightarrow> sqobj \<Rightarrow> bool \<Rightarrow> objheap \<Rightarrow>
     (bool \<times> objheap) outcome" where
  "Class_NewSlot wr ms clone this key val bstatic h =
     obind (of_option (oh_classes h this)) (\<lambda>c.
     let belongs_to_static_table = is_callable val \<or> bstatic in
     if c_locked c \<and> \<not> belongs_to_static_table then Done (False, h)
     else
     obind (of_option (Table_Get wr (c_members c) key)) (\<lambda>temp.
     case temp of
       Some idx \<Rightarrow>
         if isfield idx then
           obind (vec_at (c_defaultvalues c) (member_idx idx)) (\<lambda>m.
           obind (vec_set (c_defaultvalues c) (member_idx idx) (m\<lparr>cm_val := val\<rparr>)) (\<lambda>dv.
           Done (True, set_class this (c\<lparr>c_defaultvalues := dv\<rparr>) h)))
         else if belongs_to_static_table then
           obind (if is_callable val then of_option (GetMetaMethodIdxByName ms key) else Done (- 1)) (\<lambda>mmidx.
           if mmidx \<noteq> - 1 then
             obind (vec_set (c_metamethods c) (unat mmidx) val) (\<lambda>mms.
             Done (True, set_class this (c\<lparr>c_metamethods := mms\<rparr>) h))
           else
             obind (bind_base clone (c_base c) val h) (\<lambda>(theval, h1).
             obind (vec_at (c_methods c) (member_idx idx)) (\<lambda>m.
             obind (vec_set (c_methods c) (member_idx idx) (m\<lparr>cm_val := theval\<rparr>)) (\<lambda>mds.
             Done (True, set_class this (c\<lparr>c_methods := mds\<rparr>) h1)))))
         else
           obind (put_member c key (make_field_idx (length (c_defaultvalues c)))) (\<lambda>c1.
           Done (True, set_class this
             (c1\<lparr>c_defaultvalues := c_defaultvalues c1 @ [\<lparr>cm_val = val, cm_attrs = ONull\<rparr>]\<rparr>) h))
     | None \<Rightarrow>
         if belongs_to_static_table then
           obind (if is_callable val then of_option (GetMetaMethodIdxByName ms key) else Done (- 1)) (\<lambda>mmidx.
           if mmidx \<noteq> - 1 then
             obind (vec_set (c_metamethods c) (unat mmidx) val) (\<lambda>mms.
             Done (True, set_class this (c\<lparr>c_metamethods := mms\<rparr>) h))
           else
             obind (bind_base clone (c_base c) val h) (\<lambda>(theval, h1).
             let c0 = (if key = OString ''constructor''
                       then c\<lparr>c_constructoridx := int (length (c_methods c))\<rparr> else c) in
             obind (put_member c0 key (make_method_idx (length (c_methods c)))) (\<lambda>c1.
             Done (True, set_class this
               (c1\<lparr>c_methods := c_methods c1 @ [\<lparr>cm_val = theval, cm_attrs = ONull\<rparr>]\<rparr>) h1))))
         else
           obind (put_member c key (make_field_idx (length (c_defaultvalues c)))) (\<lambda>c1.
           Done (True, set_class this
             (c1\<lparr>c_defaultvalues := c_defaultvalues c1 @ [\<lparr>cm_val = val, cm_attrs = ONull\<rparr>]\<rparr>) h))))"

definition SetAttributes :: "(addr \<Rightarrow> sqobj) \<Rightarrow> sqobj \<Rightarrow> sqobj \<Rightarrow> sqclass \<Rightarrow> (bool \<times> sqclass) outcome" where
  "SetAttributes wr key val c =
     obind (of_option (Table_Get wr (c_members c) key)) (\<lambda>r.
       case r of
         None \<Rightarrow> Done (False, c)
       | Some idx \<Rightarrow>
           if isfield idx then
             obind (vec_at (c_defaultvalues c) (member_idx idx)) (\<lambda>m.
             obind (vec_set (c_defaultvalues c) (member_idx idx) (m\<lparr>cm_attrs := val\<rparr>)) (\<lambda>dv.
             Done (True, c\<lparr>c_defaultvalues := dv\<rparr>)))
           else
             obind (vec_at (c_methods c) (member_idx idx)) (\<lambda>m.
             obind (vec_set (c_methods c) (member_idx idx) (m\<lparr>cm_attrs := val\<rparr>)) (\<lambda>mds.
             Done (True, c\<lparr>c_methods := mds\<rparr>))))"

definition GetAttributes :: "(addr \<Rightarrow> sqobj) \<Rightarrow> sqobj \<Rightarrow> sqclass \<Rightarrow> sqobj option outcome" where
  "GetAttributes wr key c =
     obind (of_option (Table_Get wr (c_members c) key)) (\<lambda>r.
       case r of
         None \<Rightarrow> Done None
       | Some idx \<Rightarrow>
           obind (vec_at (if isfield idx then c_defaultvalues c else c_methods c) (member_idx idx))
             (\<lambda>m. Done (Some (cm_attrs m))))"

text \<open>The next member: the position after it, its key and its value.\<close>

definition Class_Next :: "(addr \<Rightarrow> sqobj) \<Rightarrow> sqobj \<Rightarrow> sqclass \<Rightarrow> (nat \<times> sqobj \<times> sqobj) option outcome" where
  "Class_Next wr refpos c =
     (case Table_Next wr (c_members c) False refpos of
        None \<Rightarrow> Done None
      | Some (idx, outkey, oval) \<Rightarrow>
          if ismethod oval
          then obind (vec_at (c_methods c) (member_idx oval)) (\<lambda>m. Done (Some (idx, outkey, cm_val m)))
          else obind (vec_at (c_defaultvalues c) (member_idx oval))
                 (\<lambda>m. Done (Some (idx, outkey, realval wr (cm_val m)))))"

text \<open>Locking a class locks its bases; the fuel bounds their number.\<close>

fun Lock :: "nat \<Rightarrow> addr \<Rightarrow> objheap \<Rightarrow> objheap outcome" where
  "Lock 0 this h = Undef"
| "Lock (Suc fuel) this h =
     obind (of_option (oh_classes h this)) (\<lambda>c.
     let h1 = set_class this (c\<lparr>c_locked := True\<rparr>) h in
     case c_base c of None \<Rightarrow> Done h1 | Some b \<Rightarrow> Lock fuel b h1)"

section \<open>Instances\<close>

definition sq_aligning :: "int \<Rightarrow> int" where
  "sq_aligning v = (v + 7) div 8 * 8"

definition calcinstancesize :: "sqclass \<Rightarrow> int" where
  "calcinstancesize c =
     c_udsize c + sq_aligning (104 + 16 * (if length (c_defaultvalues c) > 0
       then int (length (c_defaultvalues c)) - 1 else 0))"

definition user_pointer :: "sqclass \<Rightarrow> int \<Rightarrow> int option" where
  "user_pointer c sz = (if c_udsize c \<noteq> 0 then Some (sz - c_udsize c) else None)"

definition Instance_new :: "addr \<Rightarrow> sqclass \<Rightarrow> sqinstance" where
  "Instance_new cls c =
     \<lparr>in_class = cls, in_values = map cm_val (c_defaultvalues c),
      in_userpointer = user_pointer c (calcinstancesize c), in_hook = None, in_memsize = calcinstancesize c\<rparr>"

definition CreateInstance :: "nat \<Rightarrow> addr \<Rightarrow> addr \<Rightarrow> objheap \<Rightarrow> objheap outcome" where
  "CreateInstance fuel this inst h =
     obind (of_option (oh_classes h this)) (\<lambda>c.
     obind (if c_locked c then Done h else Lock fuel this h) (\<lambda>h1.
     Done (h1\<lparr>oh_instances := (oh_instances h1)(inst \<mapsto> Instance_new this c)\<rparr>)))"

text \<open>The clone of an instance reads as many values as its class has fields.\<close>

definition Instance_Clone :: "addr \<Rightarrow> addr \<Rightarrow> objheap \<Rightarrow> objheap outcome" where
  "Instance_Clone this inst h =
     obind (of_option (oh_instances h this)) (\<lambda>i.
     obind (of_option (oh_classes h (in_class i))) (\<lambda>c.
     let n = length (c_defaultvalues c) in
     if n \<le> length (in_values i)
     then Done (h\<lparr>oh_instances := (oh_instances h)(inst \<mapsto>
       \<lparr>in_class = in_class i, in_values = take n (in_values i),
        in_userpointer = user_pointer c (calcinstancesize c), in_hook = None,
        in_memsize = calcinstancesize c\<rparr>)\<rparr>)
     else Undef))"

definition Instance_Get :: "(addr \<Rightarrow> sqobj) \<Rightarrow> addr \<Rightarrow> sqobj \<Rightarrow> objheap \<Rightarrow> sqobj option outcome" where
  "Instance_Get wr this key h =
     obind (of_option (oh_instances h this)) (\<lambda>i.
     obind (of_option (oh_classes h (in_class i))) (\<lambda>c.
     obind (of_option (Table_Get wr (c_members c) key)) (\<lambda>r.
       case r of
         None \<Rightarrow> Done None
       | Some val \<Rightarrow>
           if isfield val
           then obind (vec_at (in_values i) (member_idx val)) (\<lambda>v. Done (Some (realval wr v)))
           else obind (vec_at (c_methods c) (member_idx val)) (\<lambda>m. Done (Some (cm_val m))))))"

definition Instance_Set :: "(addr \<Rightarrow> sqobj) \<Rightarrow> addr \<Rightarrow> sqobj \<Rightarrow> sqobj \<Rightarrow> objheap \<Rightarrow> (bool \<times> objheap) outcome" where
  "Instance_Set wr this key val h =
     obind (of_option (oh_instances h this)) (\<lambda>i.
     obind (of_option (oh_classes h (in_class i))) (\<lambda>c.
     obind (of_option (Table_Get wr (c_members c) key)) (\<lambda>r.
       case r of
         Some idx \<Rightarrow>
           if isfield idx
           then obind (vec_set (in_values i) (member_idx idx) val) (\<lambda>vs.
             Done (True, h\<lparr>oh_instances := (oh_instances h)(this \<mapsto> i\<lparr>in_values := vs\<rparr>)\<rparr>))
           else Done (False, h)
       | None \<Rightarrow> Done (False, h))))"

definition Instance_GetMetaMethod :: "addr \<Rightarrow> nat \<Rightarrow> objheap \<Rightarrow> sqobj option outcome" where
  "Instance_GetMetaMethod this mm h =
     obind (of_option (oh_instances h this)) (\<lambda>i.
     obind (of_option (oh_classes h (in_class i))) (\<lambda>c.
     obind (vec_at (c_metamethods c) mm) (\<lambda>m. Done (if m \<noteq> ONull then Some m else None))))"

fun instance_of_loop :: "nat \<Rightarrow> addr option \<Rightarrow> addr \<Rightarrow> objheap \<Rightarrow> bool outcome" where
  "instance_of_loop 0 parent trg h = Undef"
| "instance_of_loop (Suc fuel) parent trg h =
     (case parent of
        None \<Rightarrow> Done False
      | Some p \<Rightarrow>
          if p = trg then Done True
          else obind (of_option (oh_classes h p)) (\<lambda>c. instance_of_loop fuel (c_base c) trg h))"

definition InstanceOf :: "nat \<Rightarrow> addr \<Rightarrow> addr \<Rightarrow> objheap \<Rightarrow> bool outcome" where
  "InstanceOf fuel this trg h =
     obind (of_option (oh_instances h this)) (\<lambda>i. instance_of_loop fuel (Some (in_class i)) trg h)"

end
