(* ===== verification/ClassProps.thy ===== *)
theory ClassProps
  imports Classes
begin

text \<open>
  Classes are maps from keys to members, and no access to a member is out of range: the
  invariant of the heap of classes and instances, that every operation keeps it, and what
  the operations do to the members.
\<close>

section \<open>Member numbers\<close>

lemma bits_below: 
  assumes "i < 2 ^ 24"
  shows "of_nat i AND (0x00FFFFFF :: sqint) = of_nat i" "of_nat i AND MEMBER_TYPE_FIELD = 0"
    "of_nat i AND MEMBER_TYPE_METHOD = 0"
proof -
  have t: "take_bit 24 (of_nat i :: sqint) = of_nat i"
    using assms by (simp add: take_bit_of_nat take_bit_nat_eq_self)
  have m: "(0x00FFFFFF :: sqint) = mask 24" by (simp add: mask_eq_exp_minus_1)
  show "of_nat i AND (0x00FFFFFF :: sqint) = of_nat i"
    unfolding m take_bit_eq_mask [symmetric] by (rule t)
  have "take_bit 24 (MEMBER_TYPE_FIELD) = 0" "take_bit 24 (MEMBER_TYPE_METHOD) = 0"
    by (simp_all add: MEMBER_TYPE_FIELD_def MEMBER_TYPE_METHOD_def take_bit_eq_mask mask_eq_exp_minus_1)
  then have "take_bit 24 (of_nat i AND MEMBER_TYPE_FIELD) = 0" "take_bit 24 (of_nat i AND MEMBER_TYPE_METHOD) = 0"
    by (simp_all only: take_bit_and and_zero_eq)
  moreover have "take_bit 24 (of_nat i AND w) = of_nat i AND w" for w :: sqint
    by (metis t take_bit_and take_bit_eq_mask and.assoc and.commute)
  ultimately show "of_nat i AND MEMBER_TYPE_FIELD = 0" "of_nat i AND MEMBER_TYPE_METHOD = 0" by simp_all
qed

lemma member_numbers [simp]:
  assumes "i < 2 ^ 24"
  shows "isfield (OInteger (make_field_idx i))" "\<not> ismethod (OInteger (make_field_idx i))"
    "\<not> isfield (OInteger (make_method_idx i))" "ismethod (OInteger (make_method_idx i))"
    "member_idx (OInteger (make_field_idx i)) = i" "member_idx (OInteger (make_method_idx i)) = i"
proof -
  have f: "MEMBER_TYPE_FIELD AND MEMBER_TYPE_METHOD = 0" "MEMBER_TYPE_FIELD AND MEMBER_TYPE_FIELD \<noteq> 0"
    "MEMBER_TYPE_METHOD AND MEMBER_TYPE_METHOD \<noteq> 0" "MEMBER_TYPE_METHOD AND MEMBER_TYPE_FIELD = 0"
    "MEMBER_TYPE_FIELD AND 0x00FFFFFF = 0" "MEMBER_TYPE_METHOD AND 0x00FFFFFF = 0"
    by (simp_all add: MEMBER_TYPE_FIELD_def MEMBER_TYPE_METHOD_def)
  have u: "unat (of_nat i :: sqint) = i" using assms by (simp add: unat_of_nat take_bit_nat_eq_self)
  show "isfield (OInteger (make_field_idx i))" "\<not> ismethod (OInteger (make_field_idx i))"
    "\<not> isfield (OInteger (make_method_idx i))" "ismethod (OInteger (make_method_idx i))"
    "member_idx (OInteger (make_field_idx i)) = i" "member_idx (OInteger (make_method_idx i)) = i"
    using f u bits_below [OF assms]
    by (simp_all only: isfield_def ismethod_def member_idx_def make_field_idx_def make_method_idx_def
        raw_integer.simps bit.conj_disj_distrib2 or.right_neutral or.left_neutral simp_thms)
qed

section \<open>The invariant\<close>

definition member_ok :: "sqclass \<Rightarrow> sqobj \<Rightarrow> bool" where
  "member_ok c v \<longleftrightarrow> (\<exists>i<length (c_defaultvalues c). v = OInteger (make_field_idx i)) \<or>
     (\<exists>i<length (c_methods c). v = OInteger (make_method_idx i))"

definition class_inv :: "nat \<Rightarrow> sqclass \<Rightarrow> bool" where
  "class_inv n c \<longleftrightarrow> table_inv (c_members c) \<and>
     (\<forall>k v. table_map (c_members c) k = Some v \<longrightarrow> member_ok c v) \<and>
     (\<forall>k k' v. table_map (c_members c) k = Some v \<and> table_map (c_members c) k' = Some v \<longrightarrow> k = k') \<and>
     length (c_defaultvalues c) \<le> n \<and> length (c_methods c) \<le> n \<and>
     length (c_metamethods c) = MT_LAST \<and>
     (c_constructoridx c = - 1 \<or>
      0 \<le> c_constructoridx c \<and> c_constructoridx c < int (length (c_methods c)))"

definition ranked :: "objheap \<Rightarrow> (addr \<Rightarrow> nat) \<Rightarrow> bool" where
  "ranked h rank \<longleftrightarrow> finite (dom (oh_classes h)) \<and>
     (\<forall>a c. oh_classes h a = Some c \<longrightarrow> rank a < card (dom (oh_classes h)) \<and>
        (\<forall>b. c_base c = Some b \<longrightarrow> b \<in> dom (oh_classes h) \<and> rank b < rank a))"

definition heap_inv :: "nat \<Rightarrow> objheap \<Rightarrow> bool" where
  "heap_inv n h \<longleftrightarrow> (\<exists>rank. ranked h rank) \<and> card (dom (oh_classes h)) \<le> n \<and>
     (\<forall>a c. oh_classes h a = Some c \<longrightarrow> class_inv n c) \<and>
     (\<forall>i ins. oh_instances h i = Some ins \<longrightarrow>
        (\<exists>c. oh_classes h (in_class ins) = Some c \<and> c_locked c \<and>
             length (in_values ins) = length (c_defaultvalues c)))"

lemma class_inv_mono: "class_inv n c \<Longrightarrow> n \<le> m \<Longrightarrow> class_inv m c"
  by (auto simp: class_inv_def)

lemma heap_inv_mono: "heap_inv n h \<Longrightarrow> n \<le> m \<Longrightarrow> heap_inv m h"
  unfolding heap_inv_def using class_inv_mono by (meson le_trans)

lemma set_class_simps [simp]:
  "oh_classes (set_class a c h) = (oh_classes h)(a \<mapsto> c)" "oh_instances (set_class a c h) = oh_instances h"
  "oh_closures (set_class a c h) = oh_closures h"
  by (simp_all add: set_class_def)

lemma heap_inv_set_class:
  assumes "heap_inv n h" "oh_classes h a = Some c" "class_inv m c'" "n \<le> m" "c_base c' = c_base c"
    "c_locked c \<Longrightarrow> c_locked c' \<and> length (c_defaultvalues c') = length (c_defaultvalues c)"
    "oh_classes h1 = oh_classes h" "oh_instances h1 = oh_instances h"
  shows "heap_inv m (set_class a c' h1)"
proof -
  obtain rank where r: "ranked h rank" using assms(1) by (auto simp: heap_inv_def)
  have d: "dom ((oh_classes h)(a \<mapsto> c')) = dom (oh_classes h)" using assms(2) by auto
  have "ranked (set_class a c' h1) rank"
    using r assms(2,5,7) unfolding ranked_def set_class_simps assms(7) d by (auto split: if_splits)
  moreover have "card (dom (oh_classes (set_class a c' h1))) \<le> m"
    using assms(1,4) by (simp only: set_class_simps assms(7) d) (simp add: heap_inv_def)
  moreover have "class_inv m k" if "oh_classes (set_class a c' h1) b = Some k" for b k
    using that assms(1,3,4,7) by (auto simp: heap_inv_def split: if_splits intro: class_inv_mono)
  moreover have "\<exists>k. oh_classes (set_class a c' h1) (in_class ins) = Some k \<and> c_locked k \<and>
      length (in_values ins) = length (c_defaultvalues k)"
    if "oh_instances (set_class a c' h1) i = Some ins" for i ins
  proof -
    have "oh_instances h i = Some ins" using that assms(8) by simp
    with assms(1) obtain k where k: "oh_classes h (in_class ins) = Some k" "c_locked k"
      "length (in_values ins) = length (c_defaultvalues k)" unfolding heap_inv_def by blast
    then show ?thesis using assms(2,6,7) by (cases "in_class ins = a") auto
  qed
  ultimately show ?thesis unfolding heap_inv_def by blast
qed

section \<open>Reading members\<close>

text \<open>What a key of a class means: the value of a field or of a method.\<close>

definition slot_value :: "(addr \<Rightarrow> sqobj) \<Rightarrow> sqclass \<Rightarrow> sqobj \<Rightarrow> sqobj" where
  "slot_value wr c v = (if isfield v then realval wr (cm_val (c_defaultvalues c ! member_idx v))
     else cm_val (c_methods c ! member_idx v))"

definition class_slots :: "(addr \<Rightarrow> sqobj) \<Rightarrow> sqclass \<Rightarrow> sqobj \<Rightarrow> sqobj option" where
  "class_slots wr c key = map_option (slot_value wr c) (table_map (c_members c) key)"

lemma class_get_members:
  assumes "class_inv n c"
  shows "Table_Get wr (c_members c) key = Some (table_map (c_members c) key)"
proof -
  have "Table_Get wr (c_members c) key = Some (map_option (realval wr) (table_map (c_members c) key))"
    using assms by (intro tbl.get_law) (simp add: class_inv_def)
  moreover have "realval wr v = v" if "table_map (c_members c) key = Some v" for v
  proof -
    from that assms have "member_ok c v" by (auto simp: class_inv_def)
    then show ?thesis by (auto simp: member_ok_def)
  qed
  ultimately show ?thesis by (cases "table_map (c_members c) key") simp_all
qed

lemma member_cases:
  assumes "class_inv n c" "n < 2 ^ 24" "table_map (c_members c) key = Some v"
  obtains (Field) "isfield v" "\<not> ismethod v" "member_idx v < length (c_defaultvalues c)"
      "v = OInteger (make_field_idx (member_idx v))"
    | (Method) "\<not> isfield v" "ismethod v" "member_idx v < length (c_methods c)"
      "v = OInteger (make_method_idx (member_idx v))"
proof -
  have "member_ok c v" using assms(1,3) by (auto simp: class_inv_def)
  moreover have "length (c_defaultvalues c) < 2 ^ 24" "length (c_methods c) < 2 ^ 24"
    using assms(1,2) by (auto simp: class_inv_def)
  ultimately show thesis unfolding member_ok_def
    by (elim disjE exE conjE) (use Field Method in simp_all)
qed

lemma Class_Get_slots:
  assumes "class_inv n c" "n < 2 ^ 24"
  shows "Class_Get wr c key = Done (class_slots wr c key)"
proof (cases "table_map (c_members c) key")
  case None
  then show ?thesis by (simp add: Class_Get_def class_get_members [OF assms(1)] class_slots_def)
next
  case (Some v)
  from assms Some show ?thesis
    by (cases rule: member_cases)
      (simp_all add: Class_Get_def class_get_members [OF assms(1)] class_slots_def vec_at_def slot_value_def Some)
qed

section \<open>Adding and changing members\<close>

lemma put_member_correct:
  assumes "class_inv n c" "key \<noteq> ONull"
  obtains t where "put_member c key idx = Done (c\<lparr>c_members := t\<rparr>)"
    "\<And>c0. c_members c0 = c_members c \<Longrightarrow> put_member c0 key idx = Done (c0\<lparr>c_members := t\<rparr>)" "table_inv t"
    "table_map t = (table_map (c_members c))(key \<mapsto> OInteger idx)"
proof -
  from assms(1) have "table_inv (c_members c)" by (simp add: class_inv_def)
  from tbl.put_law [OF this assms(2)] obtain b t where
    "Table_NewSlot (c_members c) key (OInteger idx) = Some (b, t)" "table_inv t"
    "table_map t = (table_map (c_members c))(key \<mapsto> OInteger idx)" by blast
  then show ?thesis using that [of t] by (simp add: put_member_def)
qed

lemma lengths_small:
  assumes "class_inv n c" "n < 2 ^ 24"
  shows "length (c_defaultvalues c) < 2 ^ 24" "length (c_methods c) < 2 ^ 24"
  using assms by (auto simp: class_inv_def)

lemma member_ok_bound:
  assumes "class_inv n c" "n < 2 ^ 24" "table_map (c_members c) key = Some v"
  shows "v \<noteq> OInteger (make_field_idx (length (c_defaultvalues c)))"
    "v \<noteq> OInteger (make_method_idx (length (c_methods c)))"
proof -
  note l = lengths_small [OF assms(1,2)]
  from assms have "v \<noteq> OInteger (make_field_idx (length (c_defaultvalues c))) \<and>
    v \<noteq> OInteger (make_method_idx (length (c_methods c)))"
    using l by (cases rule: member_cases) auto
  then show "v \<noteq> OInteger (make_field_idx (length (c_defaultvalues c)))"
    "v \<noteq> OInteger (make_method_idx (length (c_methods c)))" by simp_all
qed

lemma add_member:
  assumes "class_inv n c" "n < 2 ^ 24"
    and t: "table_inv t" "table_map t = (table_map (c_members c))(key \<mapsto> OInteger idx)"
    and c': "c_members c' = t" "length (c_metamethods c') = MT_LAST"
      "c_defaultvalues c' = c_defaultvalues c @ dv" "c_methods c' = c_methods c @ ms"
      "length dv + length ms = 1"
      "c_constructoridx c' = - 1 \<or> 0 \<le> c_constructoridx c' \<and> c_constructoridx c' < int (length (c_methods c'))"
    and idx: "idx = (if dv = [] then make_method_idx (length (c_methods c)) else make_field_idx (length (c_defaultvalues c)))"
  shows "class_inv (Suc n) c'"
    and "class_slots wr c' = (class_slots wr c)(key \<mapsto>
      (if dv = [] then cm_val (hd ms) else realval wr (cm_val (hd dv))))"
proof -
  note l = lengths_small [OF assms(1,2)]
  have one: "dv = [] \<and> (\<exists>m. ms = [m]) \<or> ms = [] \<and> (\<exists>m. dv = [m])"
    using c'(5) by (cases dv; cases ms) auto
  have old: "table_map t k = (if k = key then Some (OInteger idx) else table_map (c_members c) k)" for k
    by (simp add: t(2))
  have fresh_idx: "table_map (c_members c) k = Some v \<Longrightarrow> v \<noteq> OInteger idx" for k v
    using member_ok_bound [OF assms(1,2)] idx by auto
  have keep: "member_ok c' v" if "member_ok c v" for v
  proof -
    have "length (c_defaultvalues c) \<le> length (c_defaultvalues c')" "length (c_methods c) \<le> length (c_methods c')"
      using c'(3,4) by simp_all
    moreover from that have "(\<exists>i. i < length (c_defaultvalues c) \<and> v = OInteger (make_field_idx i)) \<or>
        (\<exists>i. i < length (c_methods c) \<and> v = OInteger (make_method_idx i))" by (simp add: member_ok_def)
    ultimately have "(\<exists>i. i < length (c_defaultvalues c') \<and> v = OInteger (make_field_idx i)) \<or>
        (\<exists>i. i < length (c_methods c') \<and> v = OInteger (make_method_idx i))"
      by (elim disjE exE conjE) (blast intro: less_le_trans)+
    then show ?thesis by (simp add: member_ok_def)
  qed
  show "class_inv (Suc n) c'" unfolding class_inv_def
  proof (intro conjI allI impI)
    fix k v assume "table_map (c_members c') k = Some v"
    then show "member_ok c' v"
      using old [of k] c'(1) keep assms(1) one idx c'(3,4)
      by (auto simp: class_inv_def member_ok_def split: if_splits)
  next
    fix k k' v assume a: "table_map (c_members c') k = Some v \<and> table_map (c_members c') k' = Some v"
    have inj: "table_map (c_members c) k = Some v \<Longrightarrow> table_map (c_members c) k' = Some v \<Longrightarrow> k = k'"
      using assms(1) unfolding class_inv_def by blast
    from a show "k = k'"
      using old [of k] old [of k'] c'(1) fresh_idx inj by (auto split: if_splits)
  qed (use assms(1) t c' one in \<open>auto simp: class_inv_def\<close>)
  show "class_slots wr c' = (class_slots wr c)(key \<mapsto>
      (if dv = [] then cm_val (hd ms) else realval wr (cm_val (hd dv))))"
  proof
    fix k
    show "class_slots wr c' k = ((class_slots wr c)(key \<mapsto>
      (if dv = [] then cm_val (hd ms) else realval wr (cm_val (hd dv))))) k"
    proof (cases "k = key")
      case True
      then show ?thesis using one l idx old [of k] c'
        by (auto simp: class_slots_def slot_value_def nth_append)
    next
      case False
      show ?thesis
      proof (cases "table_map (c_members c) k")
        case None
        then show ?thesis using False by (simp add: class_slots_def c'(1) old)
      next
        case (Some v)
        from assms(1,2) Some have "slot_value wr c' v = slot_value wr c v"
          by (cases rule: member_cases) (simp_all add: slot_value_def c'(3,4) nth_append)
        with False Some show ?thesis by (simp add: class_slots_def c'(1) old)
      qed
    qed
  qed
qed

text \<open>Changing the value of the member a key has.\<close>

lemma change_member:
  assumes "class_inv n c" "n < 2 ^ 24" "table_map (c_members c) key = Some v"
    and c': "c_members c' = c_members c" "c_metamethods c' = c_metamethods c"
      "c_constructoridx c' = c_constructoridx c"
      "c_defaultvalues c' = (if isfield v then (c_defaultvalues c)[member_idx v := m] else c_defaultvalues c)"
      "c_methods c' = (if isfield v then c_methods c else (c_methods c)[member_idx v := m])"
  shows "class_inv n c'"
    and "class_slots wr c' = (class_slots wr c)(key \<mapsto> (if isfield v then realval wr (cm_val m) else cm_val m))"
proof -
  have len: "length (c_defaultvalues c') = length (c_defaultvalues c)" "length (c_methods c') = length (c_methods c)"
    using c' by simp_all
  show "class_inv n c'" using assms(1) unfolding class_inv_def member_ok_def len c'(1-3) .
  show "class_slots wr c' = (class_slots wr c)(key \<mapsto> (if isfield v then realval wr (cm_val m) else cm_val m))"
  proof
    fix k
    show "class_slots wr c' k = ((class_slots wr c)(key \<mapsto>
        (if isfield v then realval wr (cm_val m) else cm_val m))) k"
    proof (cases "k = key")
      case True
      from assms(1-3) show ?thesis using True assms(3) c'
        by (cases rule: member_cases) (simp_all add: class_slots_def slot_value_def)
    next
      case False
      show ?thesis
      proof (cases "table_map (c_members c) k")
        case None
        then show ?thesis using False by (simp add: class_slots_def c'(1))
      next
        case (Some w)
        with False assms(1,3) have "w \<noteq> v" unfolding class_inv_def by blast
        moreover from assms(1-3) have "v = OInteger (if isfield v then make_field_idx (member_idx v)
            else make_method_idx (member_idx v))" by (cases rule: member_cases) simp_all
        moreover from assms(1,2) Some have "w = OInteger (if isfield w then make_field_idx (member_idx w)
            else make_method_idx (member_idx w))" by (cases rule: member_cases) simp_all
        ultimately have "isfield w \<noteq> isfield v \<or> member_idx w \<noteq> member_idx v" by metis
        then have "slot_value wr c' w = slot_value wr c w" by (auto simp: slot_value_def c'(4,5))
        with False Some show ?thesis by (simp add: class_slots_def c'(1))
      qed
    qed
  qed
qed

section \<open>New slots\<close>

definition is_field_key :: "sqclass \<Rightarrow> sqobj \<Rightarrow> bool" where
  "is_field_key c key \<longleftrightarrow> (case table_map (c_members c) key of None \<Rightarrow> False | Some v \<Rightarrow> isfield v)"

text \<open>A function with the name of a metamethod becomes one, unless a field has the name.\<close>

definition as_metamethod :: "metastate \<Rightarrow> sqclass \<Rightarrow> sqobj \<Rightarrow> sqobj \<Rightarrow> bool" where
  "as_metamethod ms c key val \<longleftrightarrow> \<not> is_field_key c key \<and> is_callable val \<and>
     GetMetaMethodIdxByName ms key \<noteq> Some (- 1)"

definition stored_value :: "(addr \<Rightarrow> sqobj) \<Rightarrow> addr \<Rightarrow> sqclass \<Rightarrow> sqobj \<Rightarrow> sqobj \<Rightarrow> bool \<Rightarrow> sqobj" where
  "stored_value wr clone c key val bstatic =
     (if is_field_key c key \<or> \<not> (is_callable val \<or> bstatic) then realval wr val
      else if c_base c \<noteq> None \<and> is_closure val then ORef KClosure clone else val)"

lemma bind_base_cases:
  assumes "\<And>a. val = ORef KClosure a \<Longrightarrow> a \<in> dom (oh_closures h)"
  obtains h1 where "bind_base clone base val h =
      Done (if base \<noteq> None \<and> is_closure val then ORef KClosure clone else val, h1)"
    "oh_classes h1 = oh_classes h" "oh_instances h1 = oh_instances h"
proof (cases "base \<noteq> None \<and> is_closure val")
  case True
  then obtain b a where ba: "base = Some b" "val = ORef KClosure a" by (cases val rule: is_closure.cases) auto
  with assms obtain co where "oh_closures h a = Some co" by blast
  with ba have "bind_base clone base val h = Done (ORef KClosure clone,
      h\<lparr>oh_closures := (oh_closures h)(clone \<mapsto> (Closure_Clone co)\<lparr>sc_base := Some b\<rparr>)\<rparr>)"
    by (simp add: bind_base_def)
  with True show ?thesis
    using that [of "h\<lparr>oh_closures := (oh_closures h)(clone \<mapsto> (Closure_Clone co)\<lparr>sc_base := Some b\<rparr>)\<rparr>"]
    by simp
next
  case False
  then have "bind_base clone base val h = Done (val, h)"
    by (auto simp: bind_base_def split: option.splits sqobj.splits refkind.splits)
  with False show ?thesis by (intro that [of h]) auto
qed

lemma metamethod_index_in_vector:
  assumes "init_metamethods = Some ms" "GetMetaMethodIdxByName ms key \<noteq> Some (- 1)" "class_inv n c"
  obtains i where "GetMetaMethodIdxByName ms key = Some i" "i \<noteq> - 1" "unat i < length (c_metamethods c)"
  using metamethod_index_bound [OF assms(1), of key] assms(2,3) by (auto simp: class_inv_def)

definition newslot_effect ::
    "(addr \<Rightarrow> sqobj) \<Rightarrow> metastate \<Rightarrow> addr \<Rightarrow> sqclass \<Rightarrow> sqobj \<Rightarrow> sqobj \<Rightarrow> bool \<Rightarrow> sqclass \<Rightarrow> bool" where
  "newslot_effect wr ms clone c key val bstatic c' \<longleftrightarrow>
     c_base c' = c_base c \<and> c_locked c' = c_locked c \<and>
     (if as_metamethod ms c key val
      then class_slots wr c' = class_slots wr c \<and>
        c_metamethods c' = (c_metamethods c)[unat (the (GetMetaMethodIdxByName ms key)) := val]
      else class_slots wr c' = (class_slots wr c)(key \<mapsto> stored_value wr clone c key val bstatic) \<and>
        c_metamethods c' = c_metamethods c)"

lemma callable_realval: "is_callable val \<Longrightarrow> realval wr val = val"
  by (cases val rule: is_callable.cases) simp_all

definition newslot_pre :: "nat \<Rightarrow> metastate \<Rightarrow> objheap \<Rightarrow> addr \<Rightarrow> sqclass \<Rightarrow> sqobj \<Rightarrow> sqobj \<Rightarrow> bool \<Rightarrow> bool" where
  "newslot_pre n ms h this c key val bstatic \<longleftrightarrow>
     class_inv n c \<and> n < 2 ^ 24 \<and> key \<noteq> ONull \<and> init_metamethods = Some ms \<and>
     (\<forall>a. val = ORef KClosure a \<longrightarrow> a \<in> dom (oh_closures h)) \<and> oh_classes h this = Some c \<and>
     \<not> (c_locked c \<and> \<not> (is_callable val \<or> bstatic))"

definition newslot_done ::
    "nat \<Rightarrow> (addr \<Rightarrow> sqobj) \<Rightarrow> metastate \<Rightarrow> addr \<Rightarrow> objheap \<Rightarrow> addr \<Rightarrow> sqclass \<Rightarrow> sqobj \<Rightarrow> sqobj \<Rightarrow> bool \<Rightarrow> bool" where
  "newslot_done n wr ms clone h this c key val bstatic \<longleftrightarrow>
     (\<exists>h1 c'. Class_NewSlot wr ms clone this key val bstatic h = Done (True, set_class this c' h1) \<and>
        oh_classes h1 = oh_classes h \<and> oh_instances h1 = oh_instances h \<and> class_inv (Suc n) c' \<and>
        newslot_effect wr ms clone c key val bstatic c' \<and>
        (c_locked c \<longrightarrow> length (c_defaultvalues c') = length (c_defaultvalues c)))"

lemma newslot_doneI:
  assumes "Class_NewSlot wr ms clone this key val bstatic h = Done (True, set_class this c' h1)"
    "oh_classes h1 = oh_classes h" "oh_instances h1 = oh_instances h" "class_inv (Suc n) c'"
    "newslot_effect wr ms clone c key val bstatic c'"
    "c_locked c \<Longrightarrow> length (c_defaultvalues c') = length (c_defaultvalues c)"
  shows "newslot_done n wr ms clone h this c key val bstatic"
  using assms unfolding newslot_done_def by blast

lemma newslot_metamethod:
  assumes pre: "newslot_pre n ms h this c key val bstatic" and mm: "as_metamethod ms c key val"
  shows "newslot_done n wr ms clone h this c key val bstatic"
proof -
  from pre have inv: "class_inv n c" "oh_classes h this = Some c" "init_metamethods = Some ms"
    by (simp_all add: newslot_pre_def)
  from mm have a: "\<not> is_field_key c key" "is_callable val" "GetMetaMethodIdxByName ms key \<noteq> Some (- 1)"
    by (simp_all add: as_metamethod_def)
  from metamethod_index_in_vector [OF inv(3) a(3) inv(1)] obtain i where
    i: "GetMetaMethodIdxByName ms key = Some i" "i \<noteq> - 1" "unat i < length (c_metamethods c)" .
  let ?c' = "c\<lparr>c_metamethods := (c_metamethods c)[unat i := val]\<rparr>"
  show ?thesis
  proof (rule newslot_doneI)
    show "Class_NewSlot wr ms clone this key val bstatic h = Done (True, set_class this ?c' h)"
      using a i class_get_members [OF inv(1), of wr key] by (cases "table_map (c_members c) key")
        (simp_all add: Class_NewSlot_def inv(2) vec_set_def is_field_key_def)
    show "class_inv (Suc n) ?c'" using inv(1) by (simp add: class_inv_def member_ok_def)
    have sv: "slot_value wr ?c' = slot_value wr c" by (simp add: slot_value_def fun_eq_iff)
    have "class_slots wr ?c' = class_slots wr c" by (simp add: class_slots_def fun_eq_iff sv)
    then show "newslot_effect wr ms clone c key val bstatic ?c'"
      using mm i by (simp add: newslot_effect_def)
  qed simp_all
qed

text \<open>A new field: no field has the key and the value is no static one.\<close>

lemma newslot_new_field:
  assumes pre: "newslot_pre n ms h this c key val bstatic"
    and "\<not> is_field_key c key" "\<not> (is_callable val \<or> bstatic)"
  shows "newslot_done n wr ms clone h this c key val bstatic"
proof -
  from pre have inv: "class_inv n c" "n < 2 ^ 24" "oh_classes h this = Some c" "key \<noteq> ONull" "\<not> c_locked c"
    using assms(3) by (simp_all add: newslot_pre_def)
  let ?idx = "make_field_idx (length (c_defaultvalues c))"
  obtain t where t: "put_member c key ?idx = Done (c\<lparr>c_members := t\<rparr>)" "table_inv t"
    "table_map t = (table_map (c_members c))(key \<mapsto> OInteger ?idx)"
    by (rule put_member_correct [OF inv(1,4)])
  let ?c' = "c\<lparr>c_members := t, c_defaultvalues := c_defaultvalues c @ [\<lparr>cm_val = val, cm_attrs = ONull\<rparr>]\<rparr>"
  have ci: "class_inv (Suc n) ?c'" "class_slots wr ?c' = (class_slots wr c)(key \<mapsto> realval wr val)"
    using add_member(1) [OF inv(1,2) t(2,3), where c' = ?c' and dv = "[\<lparr>cm_val = val, cm_attrs = ONull\<rparr>]" and ms = "[]"] add_member(2) [OF inv(1,2) t(2,3), where c' = ?c' and dv = "[\<lparr>cm_val = val, cm_attrs = ONull\<rparr>]" and ms = "[]" and wr = wr] inv(1)
    by (auto simp: class_inv_def)
  show ?thesis
  proof (rule newslot_doneI)
    show "Class_NewSlot wr ms clone this key val bstatic h = Done (True, set_class this ?c' h)"
      using assms(2,3) class_get_members [OF inv(1), of wr key] t(1) inv(5)
      by (cases "table_map (c_members c) key") (simp_all add: Class_NewSlot_def inv(3) is_field_key_def)
    show "newslot_effect wr ms clone c key val bstatic ?c'"
      using ci(2) assms(2,3) by (simp add: newslot_effect_def stored_value_def as_metamethod_def)
  qed (use ci(1) inv(5) in simp_all)
qed

lemma newslot_old_field:
  assumes pre: "newslot_pre n ms h this c key val bstatic"
    and v: "table_map (c_members c) key = Some v" "isfield v"
  shows "newslot_done n wr ms clone h this c key val bstatic"
proof -
  from pre have inv: "class_inv n c" "n < 2 ^ 24" "oh_classes h this = Some c"
    "\<not> (c_locked c \<and> \<not> (is_callable val \<or> bstatic))" by (simp_all add: newslot_pre_def)
  have lt: "member_idx v < length (c_defaultvalues c)"
    using inv(1,2) v(1) by (cases rule: member_cases) (use v(2) in simp_all)
  let ?m = "(c_defaultvalues c ! member_idx v)\<lparr>cm_val := val\<rparr>"
  let ?c' = "c\<lparr>c_defaultvalues := (c_defaultvalues c)[member_idx v := ?m]\<rparr>"
  have ci: "class_inv n ?c'" "class_slots wr ?c' = (class_slots wr c)(key \<mapsto> realval wr val)"
    using change_member(1) [OF inv(1,2) v(1), of ?c' ?m] change_member(2) [OF inv(1,2) v(1), of ?c' ?m wr] v(2) by simp_all
  show ?thesis
  proof (rule newslot_doneI)
    show "Class_NewSlot wr ms clone this key val bstatic h = Done (True, set_class this ?c' h)"
      using class_get_members [OF inv(1), of wr key] v lt inv(4)
      by (auto simp: Class_NewSlot_def inv(3) vec_at_def vec_set_def)
    show "newslot_effect wr ms clone c key val bstatic ?c'"
      using ci(2) v by (simp add: newslot_effect_def stored_value_def as_metamethod_def is_field_key_def)
    show "class_inv (Suc n) ?c'" using ci(1) by (rule class_inv_mono) simp
  qed simp_all
qed

text \<open>A method: what is bound to the base, and that the name is no metamethod.\<close>

lemma newslot_method_steps:
  assumes pre: "newslot_pre n ms h this c key val bstatic"
    and "\<not> is_field_key c key" "is_callable val \<or> bstatic" "\<not> as_metamethod ms c key val"
  obtains h1 where "bind_base clone (c_base c) val h = Done (stored_value wr clone c key val bstatic, h1)"
    "oh_classes h1 = oh_classes h" "oh_instances h1 = oh_instances h"
    "(if is_callable val then of_option (GetMetaMethodIdxByName ms key) else Done (- 1)) = Done (- 1)"
proof -
  from pre have "a \<in> dom (oh_closures h)" if "val = ORef KClosure a" for a
    using that by (simp add: newslot_pre_def)
  from bind_base_cases [OF this, where clone = clone and base = "c_base c"] obtain h1 where
    "bind_base clone (c_base c) val h = Done (if c_base c \<noteq> None \<and> is_closure val then ORef KClosure clone else val, h1)"
    "oh_classes h1 = oh_classes h" "oh_instances h1 = oh_instances h" .
  with assms(2-4) show ?thesis by (intro that [of h1]) (auto simp: stored_value_def as_metamethod_def)
qed

lemma newslot_new_method:
  assumes pre: "newslot_pre n ms h this c key val bstatic"
    and none: "table_map (c_members c) key = None" and st: "is_callable val \<or> bstatic"
    and nomm: "\<not> as_metamethod ms c key val"
  shows "newslot_done n wr ms clone h this c key val bstatic"
proof -
  from pre have inv: "class_inv n c" "n < 2 ^ 24" "oh_classes h this = Some c" "key \<noteq> ONull"
    by (simp_all add: newslot_pre_def)
  have nf: "\<not> is_field_key c key" by (simp add: is_field_key_def none)
  let ?th = "stored_value wr clone c key val bstatic"
  obtain h1 where h1: "bind_base clone (c_base c) val h = Done (?th, h1)" "oh_classes h1 = oh_classes h"
    "oh_instances h1 = oh_instances h"
    "(if is_callable val then of_option (GetMetaMethodIdxByName ms key) else Done (- 1)) = Done (- 1)"
    by (rule newslot_method_steps [OF pre nf st nomm])
  let ?c0 = "if key = OString ''constructor'' then c\<lparr>c_constructoridx := int (length (c_methods c))\<rparr> else c"
  let ?idx = "make_method_idx (length (c_methods c))"
  obtain t where t: "\<And>c0. c_members c0 = c_members c \<Longrightarrow> put_member c0 key ?idx = Done (c0\<lparr>c_members := t\<rparr>)"
    "table_inv t" "table_map t = (table_map (c_members c))(key \<mapsto> OInteger ?idx)"
    by (rule put_member_correct [OF inv(1,4), of ?idx]) blast
  define k where "k = c_constructoridx ?c0"
  have k: "k = - 1 \<or> 0 \<le> k \<and> k < int (length (c_methods c) + 1)"
    using inv(1) by (auto simp: k_def class_inv_def)
  have p: "put_member ?c0 key ?idx = Done (c\<lparr>c_members := t, c_constructoridx := k\<rparr>)"
    using t(1) [of ?c0] by (cases "key = OString ''constructor''") (simp_all add: k_def)
  define m where "m = \<lparr>cm_val = ?th, cm_attrs = ONull\<rparr>"
  let ?c' = "c\<lparr>c_members := t, c_constructoridx := k, c_methods := c_methods c @ [m]\<rparr>"
  have mlen: "length (c_metamethods ?c') = MT_LAST" using inv(1) by (simp add: class_inv_def)
  have ci: "class_inv (Suc n) ?c'" "class_slots wr ?c' = (class_slots wr c)(key \<mapsto> ?th)"
    using add_member(1) [OF inv(1,2) t(2,3) _ mlen, where dv = "[]" and ms = "[m]"]
      add_member(2) [OF inv(1,2) t(2,3) _ mlen, where dv = "[]" and ms = "[m]" and wr = wr] k
    by (simp_all add: m_def)
  show ?thesis
  proof (rule newslot_doneI)
    show "Class_NewSlot wr ms clone this key val bstatic h = Done (True, set_class this ?c' h1)"
      using st class_get_members [OF inv(1), of wr key] none h1(1,4) p
      by (simp add: Class_NewSlot_def inv(3) Let_def m_def)
    show "newslot_effect wr ms clone c key val bstatic ?c'"
      using ci(2) nomm by (simp add: newslot_effect_def)
  qed (use ci(1) h1 in simp_all)
qed

lemma newslot_old_method:
  assumes pre: "newslot_pre n ms h this c key val bstatic"
    and v: "table_map (c_members c) key = Some v" "\<not> isfield v" and st: "is_callable val \<or> bstatic"
    and nomm: "\<not> as_metamethod ms c key val"
  shows "newslot_done n wr ms clone h this c key val bstatic"
proof -
  from pre have inv: "class_inv n c" "n < 2 ^ 24" "oh_classes h this = Some c"
    by (simp_all add: newslot_pre_def)
  have nf: "\<not> is_field_key c key" by (simp add: is_field_key_def v)
  let ?th = "stored_value wr clone c key val bstatic"
  obtain h1 where h1: "bind_base clone (c_base c) val h = Done (?th, h1)" "oh_classes h1 = oh_classes h"
    "oh_instances h1 = oh_instances h"
    "(if is_callable val then of_option (GetMetaMethodIdxByName ms key) else Done (- 1)) = Done (- 1)"
    by (rule newslot_method_steps [OF pre nf st nomm])
  have lt: "member_idx v < length (c_methods c)"
    using inv(1,2) v(1) by (cases rule: member_cases) (use v(2) in simp_all)
  let ?m = "(c_methods c ! member_idx v)\<lparr>cm_val := ?th\<rparr>"
  let ?c' = "c\<lparr>c_methods := (c_methods c)[member_idx v := ?m]\<rparr>"
  have ci: "class_inv n ?c'" "class_slots wr ?c' = (class_slots wr c)(key \<mapsto> ?th)"
    using change_member(1) [OF inv(1,2) v(1), of ?c' ?m] change_member(2) [OF inv(1,2) v(1), of ?c' ?m wr] v(2) by simp_all
  show ?thesis
  proof (rule newslot_doneI)
    show "Class_NewSlot wr ms clone this key val bstatic h = Done (True, set_class this ?c' h1)"
      using st class_get_members [OF inv(1), of wr key] v lt h1(1,4)
      by (simp add: Class_NewSlot_def inv(3) vec_at_def vec_set_def)
    show "newslot_effect wr ms clone c key val bstatic ?c'"
      using ci(2) nomm by (simp add: newslot_effect_def)
    show "class_inv (Suc n) ?c'" using ci(1) by (rule class_inv_mono) simp
  qed (use h1 in simp_all)
qed

lemma NewSlot_class:
  assumes "newslot_pre n ms h this c key val bstatic"
  shows "newslot_done n wr ms clone h this c key val bstatic"
proof (cases "as_metamethod ms c key val")
  case True
  with assms show ?thesis by (rule newslot_metamethod)
next
  case nomm: False
  show ?thesis
  proof (cases "table_map (c_members c) key")
    case None
    then have "\<not> is_field_key c key" by (simp add: is_field_key_def)
    with newslot_new_field newslot_new_method None nomm assms show ?thesis
      by (cases "is_callable val \<or> bstatic") blast+
  next
    case (Some v)
    show ?thesis
    proof (cases "isfield v")
      case True
      with assms Some show ?thesis by (rule newslot_old_field)
    next
      case False
      then have "\<not> is_field_key c key" by (simp add: is_field_key_def Some)
      with newslot_new_field newslot_old_method [OF assms Some False] nomm assms show ?thesis
        by (cases "is_callable val \<or> bstatic") blast+
    qed
  qed
qed

section \<open>The operations keep the invariant\<close>

lemma heap_invD:
  assumes "heap_inv n h"
  shows "oh_classes h a = Some c \<Longrightarrow> class_inv n c"
    and "oh_instances h i = Some ins \<Longrightarrow> \<exists>c. oh_classes h (in_class ins) = Some c \<and> c_locked c \<and>
             length (in_values ins) = length (c_defaultvalues c)"
    and "card (dom (oh_classes h)) \<le> n"
  using assms unfolding heap_inv_def by blast+

text \<open>A new class: empty, or with the slots of its base.\<close>

definition base_ok :: "objheap \<Rightarrow> addr option \<Rightarrow> bool" where
  "base_ok h base \<longleftrightarrow> (case base of None \<Rightarrow> True
     | Some b \<Rightarrow> (case oh_classes h b of None \<Rightarrow> False | Some c \<Rightarrow> numofnodes (c_members c) < 2 ^ 63))"

lemma Class_new_correct:
  assumes "heap_inv n h" "this \<notin> dom (oh_classes h)" "base_ok h base"
  shows "\<exists>c. Class_new this base h = Done (set_class this c h) \<and> heap_inv (Suc n) (set_class this c h) \<and>
     class_slots wr c = (case base of None \<Rightarrow> Map.empty | Some b \<Rightarrow> class_slots wr (the (oh_classes h b))) \<and>
     c_base c = base \<and> \<not> c_locked c"
proof -
  obtain rank where r: "ranked h rank" using assms(1) by (auto simp: heap_inv_def)
  have "\<exists>c. Class_new this base h = Done (set_class this c h) \<and> class_inv n c \<and> c_base c = base \<and> \<not> c_locked c \<and>
      class_slots wr c = (case base of None \<Rightarrow> Map.empty | Some b \<Rightarrow> class_slots wr (the (oh_classes h b)))"
  proof (cases base)
    case None
    have t: "table_inv (SQTable_new 0)" "table_map (SQTable_new 0) = Map.empty"
      using new_table [of 0] by simp_all
    let ?c = "\<lparr>c_members = SQTable_new 0, c_base = None, c_defaultvalues = [],
            c_methods = [], c_metamethods = replicate MT_LAST ONull, c_attributes = ONull,
            c_typetag = 0, c_hook = None, c_locked = False, c_constructoridx = - 1, c_udsize = 0\<rparr>"
    from t show ?thesis unfolding None
      by (intro exI [of _ ?c]) (simp add: Class_new_def class_inv_def class_slots_def fun_eq_iff)
  next
    case (Some b)
    with assms(3) obtain bc where bc: "oh_classes h b = Some bc" "numofnodes (c_members bc) < 2 ^ 63"
      by (auto simp: base_ok_def split: option.splits)
    have bi: "class_inv n bc" using heap_invD(1) [OF assms(1) bc(1)] .
    then have "table_inv (c_members bc)" by (simp add: class_inv_def)
    from Clone_refines [OF this bc(2)] obtain t where t: "Table_Clone (c_members bc) = Some t" "table_inv t"
      "table_map t = table_map (c_members bc)" by auto
    let ?c = "\<lparr>c_members = t, c_base = Some b, c_defaultvalues = c_defaultvalues bc, c_methods = c_methods bc,
            c_metamethods = c_metamethods bc, c_attributes = ONull, c_typetag = 0, c_hook = None,
            c_locked = False, c_constructoridx = c_constructoridx bc, c_udsize = c_udsize bc\<rparr>"
    have sv: "slot_value wr ?c = slot_value wr bc" by (simp add: slot_value_def fun_eq_iff)
    have "class_slots wr ?c = class_slots wr bc" by (simp add: class_slots_def fun_eq_iff sv t(3))
    moreover have "class_inv n ?c" using bi t by (simp add: class_inv_def member_ok_def)
    moreover have "Class_new this base h = Done (set_class this ?c h)" by (simp add: Class_new_def Some bc t(1))
    ultimately show ?thesis using Some bc by (intro exI [of _ ?c]) simp
  qed
  then obtain c where c: "Class_new this base h = Done (set_class this c h)" "class_inv n c" "c_base c = base"
    "\<not> c_locked c"
    "class_slots wr c = (case base of None \<Rightarrow> Map.empty | Some b \<Rightarrow> class_slots wr (the (oh_classes h b)))" by blast
  let ?D = "dom (oh_classes h)"
  have d: "dom (oh_classes (set_class this c h)) = insert this ?D" by simp
  have cd: "card (insert this ?D) = Suc (card ?D)"
    using assms(2) r by (intro card_insert_disjoint) (simp_all add: ranked_def)
  have "ranked (set_class this c h) (rank(this := card ?D))"
    unfolding ranked_def d cd
  proof (intro conjI allI impI)
    show "finite (insert this ?D)" using r by (simp add: ranked_def)
  next
    fix a k assume a: "oh_classes (set_class this c h) a = Some k"
    show "(rank(this := card ?D)) a < Suc (card ?D)"
      using a r by (cases "a = this") (auto simp: ranked_def less_Suc_eq)
    fix b assume b: "c_base k = Some b"
    have "b \<in> ?D"
      using a b c(3) assms(3) r by (cases "a = this") (auto simp: ranked_def base_ok_def split: option.splits)
    moreover from this have "b \<noteq> this" using assms(2) by blast
    moreover have "rank b < (rank(this := card ?D)) a"
      using a b r \<open>b \<in> ?D\<close> by (cases "a = this") (auto simp: ranked_def)
    ultimately show "b \<in> insert this ?D" "(rank(this := card ?D)) b < (rank(this := card ?D)) a" by simp_all
  qed
  moreover have "class_inv (Suc n) k" if "oh_classes (set_class this c h) a = Some k" for a k
    using that c(2) heap_invD(1) [OF assms(1)] class_inv_mono [of n k "Suc n"] by (auto split: if_splits)
  moreover have "\<exists>k. oh_classes (set_class this c h) (in_class ins) = Some k \<and> c_locked k \<and>
      length (in_values ins) = length (c_defaultvalues k)" if "oh_instances (set_class this c h) i = Some ins" for i ins
    using that heap_invD(2) [OF assms(1), of i ins] assms(2) by (auto simp: domIff)
  moreover have "card (dom (oh_classes (set_class this c h))) \<le> Suc n"
    unfolding d cd using heap_invD(3) [OF assms(1)] by simp
  ultimately have "heap_inv (Suc n) (set_class this c h)" unfolding heap_inv_def by blast
  with c show ?thesis by blast
qed

text \<open>Locking only sets the flags of the class and of its bases.\<close>

definition locks :: "addr \<Rightarrow> objheap \<Rightarrow> objheap \<Rightarrow> bool" where
  "locks this h h' \<longleftrightarrow> oh_instances h' = oh_instances h \<and> oh_closures h' = oh_closures h \<and>
     dom (oh_classes h') = dom (oh_classes h) \<and>
     (\<forall>a c. oh_classes h a = Some c \<longrightarrow> (\<exists>b. oh_classes h' a = Some (c\<lparr>c_locked := b\<rparr>) \<and>
        (c_locked c \<or> a = this \<longrightarrow> b)))"

lemma Lock_correct:
  "ranked h rank \<Longrightarrow> this \<in> dom (oh_classes h) \<Longrightarrow> rank this < fuel \<Longrightarrow> \<exists>h'. Lock fuel this h = Done h' \<and> locks this h h'"
proof (induction fuel arbitrary: this h)
  case (Suc fuel)
  then obtain c where c: "oh_classes h this = Some c" by blast
  let ?h1 = "set_class this (c\<lparr>c_locked := True\<rparr>) h"
  have 1: "locks this h ?h1" unfolding locks_def
  proof (intro conjI allI impI)
    fix a k assume "oh_classes h a = Some k"
    then show "\<exists>b. oh_classes ?h1 a = Some (k\<lparr>c_locked := b\<rparr>) \<and> (c_locked k \<or> a = this \<longrightarrow> b)"
      using c by (intro exI [of _ "c_locked k \<or> a = this"]) auto
  qed (use c in auto)
  show ?case
  proof (cases "c_base c")
    case None
    with 1 c show ?thesis by auto
  next
    case (Some b)
    have d: "dom (oh_classes ?h1) = dom (oh_classes h)" using c by auto
    have rk: "ranked ?h1 rank" using Suc.prems(1) c unfolding ranked_def d by (auto split: if_splits)
    have b: "b \<in> dom (oh_classes h)" "rank b < rank this" using Suc.prems(1) c Some by (auto simp: ranked_def)
    have "\<exists>h'. Lock fuel b ?h1 = Done h' \<and> locks b ?h1 h'"
    proof (rule Suc.IH [OF rk])
      show "b \<in> dom (oh_classes ?h1)" unfolding d by (rule b(1))
      show "rank b < fuel" using b(2) Suc.prems(3) by linarith
    qed
    then obtain h' where h': "Lock fuel b ?h1 = Done h'" "locks b ?h1 h'" by blast
    have "locks this h h'" unfolding locks_def
    proof (intro conjI allI impI)
      fix a k assume a: "oh_classes h a = Some k"
      then obtain k1 where k1: "oh_classes ?h1 a = Some (k\<lparr>c_locked := k1\<rparr>)" "c_locked k \<or> a = this \<longrightarrow> k1"
        using 1 unfolding locks_def by blast
      then obtain k2 where "oh_classes h' a = Some ((k\<lparr>c_locked := k1\<rparr>)\<lparr>c_locked := k2\<rparr>)"
        "c_locked (k\<lparr>c_locked := k1\<rparr>) \<or> a = b \<longrightarrow> k2"
        using h'(2) unfolding locks_def by blast
      with k1 show "\<exists>b. oh_classes h' a = Some (k\<lparr>c_locked := b\<rparr>) \<and> (c_locked k \<or> a = this \<longrightarrow> b)" by auto
    qed (use h'(2) d in \<open>simp_all add: locks_def\<close>)
    with h'(1) c Some show ?thesis by auto
  qed
qed simp

lemma class_inv_locked [simp]: "class_inv n (c\<lparr>c_locked := b\<rparr>) = class_inv n c"
  by (simp add: class_inv_def member_ok_def)

lemma heap_inv_locks:
  assumes "heap_inv n h" "locks this h h'"
  shows "heap_inv n h'"
proof -
  obtain rank where r: "ranked h rank" using assms(1) by (auto simp: heap_inv_def)
  have ex: "\<exists>c. oh_classes h a = Some c \<and> (\<exists>b. c' = c\<lparr>c_locked := b\<rparr> \<and> (c_locked c \<longrightarrow> b))"
    if "oh_classes h' a = Some c'" for a c'
  proof -
    from that assms(2) have "a \<in> dom (oh_classes h)" unfolding locks_def by blast
    then obtain c where "oh_classes h a = Some c" by blast
    with that assms(2) show ?thesis unfolding locks_def by (metis option.inject)
  qed
  have "ranked h' rank" unfolding ranked_def
  proof (intro conjI allI impI)
    show "finite (dom (oh_classes h'))" using assms(2) r by (simp add: locks_def ranked_def)
    fix a c' assume "oh_classes h' a = Some c'"
    from ex [OF this] obtain c where c: "oh_classes h a = Some c" "c_base c' = c_base c" by auto
    with r assms(2) show "rank a < card (dom (oh_classes h'))" by (simp add: locks_def ranked_def)
    fix b assume "c_base c' = Some b"
    with c r assms(2) show "b \<in> dom (oh_classes h')" "rank b < rank a" by (auto simp: locks_def ranked_def)
  qed
  moreover have "class_inv n c'" if "oh_classes h' a = Some c'" for a c'
    using ex [OF that] heap_invD(1) [OF assms(1), of a] by auto
  moreover have "\<exists>c. oh_classes h' (in_class ins) = Some c \<and> c_locked c \<and>
      length (in_values ins) = length (c_defaultvalues c)" if "oh_instances h' i = Some ins" for i ins
  proof -
    from that assms(2) have "oh_instances h i = Some ins" by (simp add: locks_def)
    from heap_invD(2) [OF assms(1) this] obtain c where c: "oh_classes h (in_class ins) = Some c" "c_locked c"
      "length (in_values ins) = length (c_defaultvalues c)" by blast
    with assms(2) obtain b where "oh_classes h' (in_class ins) = Some (c\<lparr>c_locked := b\<rparr>)" "b"
      unfolding locks_def by blast
    with c show ?thesis by simp
  qed
  ultimately show ?thesis using heap_invD(3) [OF assms(1)] assms(2) unfolding heap_inv_def locks_def by auto
qed

section \<open>Operations and reachable states\<close>

datatype class_op =
    NewClosure addr sqclosure
  | NewClass addr "addr option"
  | NewSlot addr addr sqobj sqobj bool
  | NewAttributes addr sqobj sqobj
  | NewInstance addr addr
  | CloneInstance addr addr
  | SetValue addr sqobj sqobj

fun class_op_ok :: "class_op \<Rightarrow> objheap \<Rightarrow> bool" where
  "class_op_ok (NewClosure a co) h \<longleftrightarrow> a \<notin> dom (oh_closures h)"
| "class_op_ok (NewClass a base) h \<longleftrightarrow> a \<notin> dom (oh_classes h) \<and> base_ok h base"
| "class_op_ok (NewSlot clone this key val bstatic) h \<longleftrightarrow> this \<in> dom (oh_classes h) \<and> key \<noteq> ONull \<and>
     clone \<notin> dom (oh_closures h) \<and> (\<forall>a. val = ORef KClosure a \<longrightarrow> a \<in> dom (oh_closures h))"
| "class_op_ok (NewAttributes this key val) h \<longleftrightarrow> this \<in> dom (oh_classes h)"
| "class_op_ok (NewInstance this inst) h \<longleftrightarrow> this \<in> dom (oh_classes h) \<and> inst \<notin> dom (oh_instances h)"
| "class_op_ok (CloneInstance this inst) h \<longleftrightarrow> this \<in> dom (oh_instances h) \<and> inst \<notin> dom (oh_instances h)"
| "class_op_ok (SetValue this key val) h \<longleftrightarrow> this \<in> dom (oh_instances h)"

fun class_step :: "nat \<Rightarrow> (addr \<Rightarrow> sqobj) \<Rightarrow> metastate \<Rightarrow> class_op \<Rightarrow> objheap \<Rightarrow> objheap outcome" where
  "class_step fuel wr ms (NewClosure a co) h = Done (h\<lparr>oh_closures := (oh_closures h)(a \<mapsto> co)\<rparr>)"
| "class_step fuel wr ms (NewClass a base) h = Class_new a base h"
| "class_step fuel wr ms (NewSlot clone this key val bstatic) h =
     obind (Class_NewSlot wr ms clone this key val bstatic h) (\<lambda>(_, h'). Done h')"
| "class_step fuel wr ms (NewAttributes this key val) h =
     obind (of_option (oh_classes h this)) (\<lambda>c. obind (SetAttributes wr key val c) (\<lambda>(_, c'). Done (set_class this c' h)))"
| "class_step fuel wr ms (NewInstance this inst) h = CreateInstance fuel this inst h"
| "class_step fuel wr ms (CloneInstance this inst) h = Instance_Clone this inst h"
| "class_step fuel wr ms (SetValue this key val) h = obind (Instance_Set wr this key val h) (\<lambda>(_, h'). Done h')"

inductive class_reach :: "(addr \<Rightarrow> sqobj) \<Rightarrow> metastate \<Rightarrow> nat \<Rightarrow> objheap \<Rightarrow> bool" for wr ms where
  start: "class_reach wr ms 0 \<lparr>oh_classes = Map.empty, oh_instances = Map.empty, oh_closures = Map.empty\<rparr>"
| step: "class_reach wr ms n h \<Longrightarrow> class_op_ok op h \<Longrightarrow> class_step n wr ms op h = Done h' \<Longrightarrow>
     class_reach wr ms (Suc n) h'"

lemma heap_inv_other:
  assumes "heap_inv n h" "oh_classes h' = oh_classes h" "oh_instances h' = oh_instances h"
  shows "heap_inv n h'"
  using assms by (simp add: heap_inv_def ranked_def)

lemma heap_inv_instance:
  assumes "heap_inv n h" "oh_classes h cls = Some c" "c_locked c" "length (in_values ins) = length (c_defaultvalues c)"
    "in_class ins = cls"
  shows "heap_inv n (h\<lparr>oh_instances := (oh_instances h)(i \<mapsto> ins)\<rparr>)"
  using assms unfolding heap_inv_def ranked_def by auto

lemma NewSlot_heap:
  assumes "heap_inv n h" "n < 2 ^ 24" "init_metamethods = Some ms" "class_op_ok (NewSlot clone this key val bstatic) h"
  shows "\<exists>b h'. Class_NewSlot wr ms clone this key val bstatic h = Done (b, h') \<and> heap_inv (Suc n) h'"
proof -
  from assms(4) obtain c where c: "oh_classes h this = Some c" by auto
  note ci = heap_invD(1) [OF assms(1) c]
  show ?thesis
  proof (cases "c_locked c \<and> \<not> (is_callable val \<or> bstatic)")
    case True
    then have "Class_NewSlot wr ms clone this key val bstatic h = Done (False, h)"
      by (simp add: Class_NewSlot_def c)
    with heap_inv_mono [OF assms(1), of "Suc n"] show ?thesis by auto
  next
    case False
    then have "newslot_pre n ms h this c key val bstatic" using assms ci c by (simp add: newslot_pre_def)
    from NewSlot_class [OF this, of wr clone] obtain h1 c' where
      r: "Class_NewSlot wr ms clone this key val bstatic h = Done (True, set_class this c' h1)"
      "oh_classes h1 = oh_classes h" "oh_instances h1 = oh_instances h" "class_inv (Suc n) c'"
      "newslot_effect wr ms clone c key val bstatic c'"
      "c_locked c \<longrightarrow> length (c_defaultvalues c') = length (c_defaultvalues c)"
      unfolding newslot_done_def by blast
    from r(5) have "c_base c' = c_base c" "c_locked c' = c_locked c" by (simp_all add: newslot_effect_def)
    with heap_inv_set_class [OF assms(1) c r(4) _ _ _ r(2,3)] r(6) have "heap_inv (Suc n) (set_class this c' h1)"
      by simp
    with r(1) show ?thesis by blast
  qed
qed

lemma SetAttributes_class:
  assumes "class_inv n c" "n < 2 ^ 24"
  shows "\<exists>b c'. SetAttributes wr key val c = Done (b, c') \<and> class_inv n c' \<and> c_base c' = c_base c \<and>
     c_locked c' = c_locked c \<and> length (c_defaultvalues c') = length (c_defaultvalues c) \<and>
     class_slots wr c' = class_slots wr c"
proof (cases "table_map (c_members c) key")
  case None
  then have "SetAttributes wr key val c = Done (False, c)"
    by (simp add: SetAttributes_def class_get_members [OF assms(1)])
  with assms(1) show ?thesis by blast
next
  case (Some v)
  let ?m = "if isfield v then (c_defaultvalues c ! member_idx v)\<lparr>cm_attrs := val\<rparr>
    else (c_methods c ! member_idx v)\<lparr>cm_attrs := val\<rparr>"
  let ?c' = "if isfield v then c\<lparr>c_defaultvalues := (c_defaultvalues c)[member_idx v := ?m]\<rparr>
    else c\<lparr>c_methods := (c_methods c)[member_idx v := ?m]\<rparr>"
  have i: "class_inv n ?c'" and sl: "class_slots wr ?c' =
      (class_slots wr c)(key \<mapsto> (if isfield v then realval wr (cm_val ?m) else cm_val ?m))"
    by (rule change_member [OF assms Some, where m = ?m]; simp)+
  have "class_slots wr ?c' = class_slots wr c"
    unfolding sl by (rule ext) (simp add: class_slots_def Some slot_value_def)
  moreover have "SetAttributes wr key val c = Done (True, ?c')"
    using assms Some by (cases rule: member_cases)
      (simp_all add: SetAttributes_def class_get_members [OF assms(1)] Some vec_at_def vec_set_def)
  ultimately show ?thesis using i by (intro exI [of _ True] exI [of _ ?c']) simp
qed

lemma instance_parts:
  assumes "heap_inv n h" "this \<in> dom (oh_instances h)"
  obtains i c where "oh_instances h this = Some i" "oh_classes h (in_class i) = Some c" "class_inv n c"
    "c_locked c" "length (in_values i) = length (c_defaultvalues c)"
  using assms heap_invD(1,2) [OF assms(1)] by blast

text \<open>What the key of an instance means, and what assigning to it does.\<close>

definition instance_slots :: "(addr \<Rightarrow> sqobj) \<Rightarrow> sqclass \<Rightarrow> sqinstance \<Rightarrow> sqobj \<Rightarrow> sqobj option" where
  "instance_slots wr c i key = map_option (\<lambda>v. if isfield v then realval wr (in_values i ! member_idx v)
     else cm_val (c_methods c ! member_idx v)) (table_map (c_members c) key)"

lemma Instance_Get_slots:
  assumes "oh_instances h this = Some i" "oh_classes h (in_class i) = Some c" "class_inv n c" "n < 2 ^ 24"
    "length (in_values i) = length (c_defaultvalues c)"
  shows "Instance_Get wr this key h = Done (instance_slots wr c i key)"
proof (cases "table_map (c_members c) key")
  case None
  then show ?thesis by (simp add: Instance_Get_def assms class_get_members [OF assms(3)] instance_slots_def)
next
  case (Some v)
  from assms(3,4) Some show ?thesis
    by (cases rule: member_cases)
      (simp_all add: Instance_Get_def assms class_get_members [OF assms(3)] Some vec_at_def instance_slots_def)
qed

lemma Instance_Set_effect:
  assumes "oh_instances h this = Some i" "oh_classes h (in_class i) = Some c" "class_inv n c" "n < 2 ^ 24"
    "length (in_values i) = length (c_defaultvalues c)"
  shows "\<exists>ins. Instance_Set wr this key val h =
       Done (is_field_key c key, h\<lparr>oh_instances := (oh_instances h)(this \<mapsto> ins)\<rparr>) \<and>
     in_class ins = in_class i \<and> length (in_values ins) = length (c_defaultvalues c) \<and>
     instance_slots wr c ins = (if is_field_key c key then (instance_slots wr c i)(key \<mapsto> realval wr val)
       else instance_slots wr c i)"
proof (cases "is_field_key c key")
  case False
  have "h = h\<lparr>oh_instances := (oh_instances h)(this \<mapsto> i)\<rparr>"
    using assms(1) by (simp add: fun_upd_idem)
  moreover have "Instance_Set wr this key val h = Done (False, h)"
    using False by (cases "table_map (c_members c) key")
      (simp_all add: Instance_Set_def assms class_get_members [OF assms(3)] is_field_key_def)
  ultimately show ?thesis using False assms(5) by auto
next
  case True
  then obtain v where v: "table_map (c_members c) key = Some v" "isfield v"
    by (auto simp: is_field_key_def split: option.splits)
  have lt: "member_idx v < length (c_defaultvalues c)" "v = OInteger (make_field_idx (member_idx v))"
    using assms(3,4) v(1) by (cases rule: member_cases; use v(2) in simp)+
  let ?i = "i\<lparr>in_values := (in_values i)[member_idx v := val]\<rparr>"
  have "instance_slots wr c ?i k = ((instance_slots wr c i)(key \<mapsto> realval wr val)) k" for k
  proof (cases "k = key")
    case True
    then show ?thesis using v lt(1) assms(5) by (simp add: instance_slots_def)
  next
    case False
    show ?thesis
    proof (cases "table_map (c_members c) k")
      case (Some w)
      with False assms(3) v(1) have "w \<noteq> v" unfolding class_inv_def by blast
      moreover have "isfield w \<Longrightarrow> w = OInteger (make_field_idx (member_idx w))"
        using assms(3,4) Some by (cases rule: member_cases) simp_all
      ultimately have "isfield w \<longrightarrow> member_idx v \<noteq> member_idx w" using lt(2) by metis
      then show ?thesis using False Some by (auto simp: instance_slots_def)
    qed (use False in \<open>simp add: instance_slots_def\<close>)
  qed
  then have "instance_slots wr c ?i = (instance_slots wr c i)(key \<mapsto> realval wr val)" by (rule ext)
  moreover have "Instance_Set wr this key val h = Done (True, h\<lparr>oh_instances := (oh_instances h)(this \<mapsto> ?i)\<rparr>)"
    using v lt assms(5) by (simp add: Instance_Set_def assms(1,2) class_get_members [OF assms(3)] vec_set_def)
  ultimately show ?thesis using True assms(5) by (intro exI [of _ ?i]) simp
qed

lemma create_instance_heap:
  assumes inv: "heap_inv n h" and c: "oh_classes h this = Some c"
  shows "\<exists>h1. CreateInstance n this inst h = Done (h1\<lparr>oh_instances := (oh_instances h1)(inst \<mapsto> Instance_new this c)\<rparr>) \<and>
     heap_inv n h1 \<and> oh_classes h1 this = Some (c\<lparr>c_locked := True\<rparr>) \<and> oh_instances h1 = oh_instances h"
proof (cases "c_locked c")
  case True
  then have "c\<lparr>c_locked := True\<rparr> = c" by simp
  with True inv c show ?thesis by (intro exI [of _ h]) (simp add: CreateInstance_def)
next
  case False
  obtain rank where r: "ranked h rank" using inv by (auto simp: heap_inv_def)
  from r c have "rank this < card (dom (oh_classes h))" unfolding ranked_def by blast
  with heap_invD(3) [OF inv] have rk: "rank this < n" by linarith
  from Lock_correct [OF r _ rk] c obtain h1 where l: "Lock n this h = Done h1" "locks this h h1" by auto
  obtain b where "oh_classes h1 this = Some (c\<lparr>c_locked := b\<rparr>)" "b"
    using l(2) c unfolding locks_def by blast
  then have "oh_classes h1 this = Some (c\<lparr>c_locked := True\<rparr>)" by simp
  with False l heap_inv_locks [OF inv l(2)] c show ?thesis
    by (intro exI [of _ h1]) (simp add: CreateInstance_def locks_def)
qed

lemma step_doneI:
  "class_step n wr ms op h = Done h' \<Longrightarrow> heap_inv n h' \<Longrightarrow> \<exists>h'. class_step n wr ms op h = Done h' \<and> heap_inv (Suc n) h'"
  using heap_inv_mono [of n h' "Suc n"] by simp

lemma class_step_ok:
  assumes inv: "heap_inv n h" and n: "n < 2 ^ 24" and ms: "init_metamethods = Some ms" and ok: "class_op_ok op h"
  shows "\<exists>h'. class_step n wr ms op h = Done h' \<and> heap_inv (Suc n) h'"
proof (cases op)
  case (NewClosure a co)
  show ?thesis
    by (rule step_doneI [of n wr ms op h "h\<lparr>oh_closures := (oh_closures h)(a \<mapsto> co)\<rparr>"])
      (simp_all add: NewClosure heap_inv_other [OF inv])
next
  case (NewClass a base)
  with ok have "a \<notin> dom (oh_classes h)" "base_ok h base" by simp_all
  from Class_new_correct [OF inv this] NewClass show ?thesis by auto
next
  case (NewSlot clone this key val bstatic)
  with NewSlot_heap [OF inv n ms, of clone this key val bstatic wr] ok obtain b h' where
    "Class_NewSlot wr ms clone this key val bstatic h = Done (b, h')" "heap_inv (Suc n) h'" by blast
  with NewSlot show ?thesis by simp
next
  case (NewAttributes this key val)
  with ok obtain c where c: "oh_classes h this = Some c" by auto
  from SetAttributes_class [OF heap_invD(1) [OF inv c] n] obtain b c' where
    s: "SetAttributes wr key val c = Done (b, c')" "class_inv n c'" "c_base c' = c_base c"
    "c_locked c' = c_locked c" "length (c_defaultvalues c') = length (c_defaultvalues c)" by blast
  from heap_inv_set_class [OF inv c s(2) _ s(3) _ refl refl] s have "heap_inv n (set_class this c' h)" by simp
  then show ?thesis by (rule step_doneI [rotated]) (simp add: NewAttributes c s(1))
next
  case (NewInstance this inst)
  with ok obtain c where c: "oh_classes h this = Some c" by auto
  from create_instance_heap [OF inv c, of inst] obtain h1 where
    h1: "CreateInstance n this inst h = Done (h1\<lparr>oh_instances := (oh_instances h1)(inst \<mapsto> Instance_new this c)\<rparr>)"
    "heap_inv n h1" "oh_classes h1 this = Some (c\<lparr>c_locked := True\<rparr>)" by blast
  have "heap_inv n (h1\<lparr>oh_instances := (oh_instances h1)(inst \<mapsto> Instance_new this c)\<rparr>)"
    by (rule heap_inv_instance [OF h1(2,3)]) (simp_all add: Instance_new_def)
  then show ?thesis by (rule step_doneI [rotated]) (simp add: NewInstance h1(1))
next
  case (CloneInstance this inst)
  with ok have "this \<in> dom (oh_instances h)" by simp
  then obtain i c where i: "oh_instances h this = Some i" "oh_classes h (in_class i) = Some c" "class_inv n c"
    "c_locked c" "length (in_values i) = length (c_defaultvalues c)" by (rule instance_parts [OF inv])
  let ?i = "\<lparr>in_class = in_class i, in_values = take (length (c_defaultvalues c)) (in_values i),
    in_userpointer = user_pointer c (calcinstancesize c), in_hook = None, in_memsize = calcinstancesize c\<rparr>"
  have "class_step n wr ms op h = Done (h\<lparr>oh_instances := (oh_instances h)(inst \<mapsto> ?i)\<rparr>)"
    by (simp add: CloneInstance Instance_Clone_def i)
  moreover have "heap_inv n (h\<lparr>oh_instances := (oh_instances h)(inst \<mapsto> ?i)\<rparr>)"
    by (rule heap_inv_instance [OF inv i(2,4)]) (simp_all add: i(5))
  ultimately show ?thesis by (rule step_doneI)
next
  case (SetValue this key val)
  with ok have "this \<in> dom (oh_instances h)" by simp
  then obtain i c where i: "oh_instances h this = Some i" "oh_classes h (in_class i) = Some c" "class_inv n c"
    "c_locked c" "length (in_values i) = length (c_defaultvalues c)" by (rule instance_parts [OF inv])
  from Instance_Set_effect [OF i(1-3) n i(5), of wr key val] obtain ins where
    s: "Instance_Set wr this key val h = Done (is_field_key c key,
       h\<lparr>oh_instances := (oh_instances h)(this \<mapsto> ins)\<rparr>)"
    "in_class ins = in_class i" "length (in_values ins) = length (c_defaultvalues c)" by blast
  have "heap_inv n (h\<lparr>oh_instances := (oh_instances h)(this \<mapsto> ins)\<rparr>)"
    by (rule heap_inv_instance [OF inv i(2,4)]) (simp_all add: s)
  with s(1) have "\<exists>b h'. Instance_Set wr this key val h = Done (b, h') \<and> heap_inv n h'" by blast
  then obtain b h' where "Instance_Set wr this key val h = Done (b, h')" "heap_inv n h'" by blast
  then show ?thesis by (intro step_doneI [of n wr ms op h h']) (simp_all add: SetValue)
qed

lemma class_reach_inv:
  assumes "class_reach wr ms n h" "init_metamethods = Some ms" "n < 2 ^ 24"
  shows "heap_inv n h"
  using assms
proof (induction)
  case start
  then show ?case by (simp add: heap_inv_def ranked_def)
next
  case (step n h op h')
  then show ?case using class_step_ok [of n h ms op wr] by auto
qed

section \<open>Properties\<close>

inductive derives :: "objheap \<Rightarrow> addr \<Rightarrow> addr \<Rightarrow> bool" for h where
  self: "derives h a a"
| base: "oh_classes h a = Some c \<Longrightarrow> c_base c = Some b \<Longrightarrow> derives h b t \<Longrightarrow> derives h a t"

lemma instance_of_loop_correct:
  "ranked h rank \<Longrightarrow> p \<in> dom (oh_classes h) \<Longrightarrow> rank p + 1 < fuel \<Longrightarrow>
   instance_of_loop fuel (Some p) trg h = Done (derives h p trg)"
proof (induction fuel arbitrary: p)
  case (Suc fuel)
  then obtain c where c: "oh_classes h p = Some c" by blast
  have d: "derives h p trg \<longleftrightarrow> p = trg \<or> (\<exists>b. c_base c = Some b \<and> derives h b trg)"
    using c by (subst derives.simps) auto
  show ?case
  proof (cases "c_base c")
    case None
    then show ?thesis using c d Suc.prems(3) by (cases fuel) simp_all
  next
    case (Some b)
    with Suc.prems(1) c have b: "b \<in> dom (oh_classes h)" "rank b < rank p" unfolding ranked_def by blast+
    have "instance_of_loop fuel (Some b) trg h = Done (derives h b trg)"
      using b(2) Suc.prems(3) by (intro Suc.IH [OF Suc.prems(1) b(1)]) simp
    with c d Some show ?thesis by simp
  qed
qed simp

lemma next_loop_key: "next_loop ns i = Some j \<Longrightarrow> j < length ns \<and> nkey (ns ! j) \<noteq> ONull"
proof (induction ns i rule: next_loop.induct)
  case (1 ns i)
  then show ?case using next_loop.simps [of ns i] by (auto split: if_splits)
qed

lemma Class_Next_total:
  assumes "class_inv n c" "n < 2 ^ 24"
  shows "\<exists>r. Class_Next wr pos c = Done r"
proof (cases "Table_Next wr (c_members c) False pos")
  case None
  then show ?thesis by (simp add: Class_Next_def)
next
  case (Some r)
  then obtain i j where r: "r = (i, nkey (t_nodes (c_members c) ! j), realval wr (nval (t_nodes (c_members c) ! j)))"
    and "j < length (t_nodes (c_members c))" "nkey (t_nodes (c_members c) ! j) \<noteq> ONull"
    by (auto simp: Table_Next_def Let_def split: if_splits option.splits dest: next_loop_key)
  moreover have "nodes_inv (t_nodes (c_members c)) (Suc (t_firstfree (c_members c)))"
    using assms(1) by (simp add: class_inv_def table_inv_def)
  ultimately have v: "table_map (c_members c) (nkey (t_nodes (c_members c) ! j)) =
      Some (nval (t_nodes (c_members c) ! j))"
    unfolding table_map_def by (subst tmap_Some_iff) (auto simp: used_def)
  define w where "w = nval (t_nodes (c_members c) ! j)"
  have "member_ok c w" using v assms(1) by (simp add: class_inv_def w_def)
  then have "realval wr w = w" by (auto simp: member_ok_def)
  with Some r have nx: "Table_Next wr (c_members c) False pos = Some (i, nkey (t_nodes (c_members c) ! j), w)"
    by (simp add: w_def)
  from assms v show ?thesis
    by (cases rule: member_cases) (simp_all add: Class_Next_def nx vec_at_def flip: w_def)
qed

text \<open>
  C17. No access of the class system is out of range.  In every state that is reached by
  creating classes and closures, adding slots and attributes, and creating, cloning and
  assigning instances, each of these operations can be done again, and every read of a
  class or an instance has a result: the member, constructor, attribute, next member and
  metamethod reads index within the vectors, and the walks up the bases end.  The number
  of operations is below the 2 to the power 24 members a member number can hold.
\<close>

theorem class_system_is_safe:
  assumes "init_metamethods = Some ms" "class_reach wr ms n h" "n < 2 ^ 24"
  shows "(\<forall>op. class_op_ok op h \<longrightarrow> (\<exists>h'. class_step n wr ms op h = Done h')) \<and>
     (\<forall>a c key. oh_classes h a = Some c \<longrightarrow> (\<exists>r. Class_Get wr c key = Done r) \<and> (\<exists>r. GetConstructor c = Done r) \<and>
        (\<exists>r. GetAttributes wr key c = Done r) \<and> (\<exists>r. Class_Next wr key c = Done r)) \<and>
     (\<forall>i ins key trg mm. oh_instances h i = Some ins \<longrightarrow> (\<exists>r. Instance_Get wr i key h = Done r) \<and>
        (mm < MT_LAST \<longrightarrow> (\<exists>r. Instance_GetMetaMethod i mm h = Done r)) \<and>
        InstanceOf (n + 1) i trg h = Done (derives h (in_class ins) trg))"
proof (intro conjI allI impI)
  note inv = class_reach_inv [OF assms(2,1,3)]
  fix op assume "class_op_ok op h"
  with class_step_ok [OF inv assms(3,1)] show "\<exists>h'. class_step n wr ms op h = Done h'" by blast
next
  note inv = class_reach_inv [OF assms(2,1,3)]
  fix a c key assume c: "oh_classes h a = Some c"
  note ci = heap_invD(1) [OF inv c]
  show "\<exists>r. Class_Get wr c key = Done r" using Class_Get_slots [OF ci assms(3)] by blast
  show "\<exists>r. Class_Next wr key c = Done r" by (rule Class_Next_total [OF ci assms(3)])
  show "\<exists>r. GetConstructor c = Done r" using ci by (auto simp: GetConstructor_def vec_at_def class_inv_def)
  show "\<exists>r. GetAttributes wr key c = Done r"
  proof (cases "table_map (c_members c) key")
    case (Some v)
    from ci assms(3) Some show ?thesis
      by (cases rule: member_cases) (simp_all add: GetAttributes_def class_get_members [OF ci] Some vec_at_def)
  qed (simp add: GetAttributes_def class_get_members [OF ci])
next
  note inv = class_reach_inv [OF assms(2,1,3)]
  fix i ins key assume i: "oh_instances h i = Some ins"
  then have "i \<in> dom (oh_instances h)" by blast
  then obtain c where c: "oh_classes h (in_class ins) = Some c" "class_inv n c"
    "length (in_values ins) = length (c_defaultvalues c)" by (rule instance_parts [OF inv]) (simp add: i)
  show "\<exists>r. Instance_Get wr i key h = Done r"
  proof (cases "table_map (c_members c) key")
    case (Some v)
    from c(2) assms(3) Some show ?thesis
      by (cases rule: member_cases) (simp_all add: Instance_Get_def i c class_get_members [OF c(2)] Some vec_at_def)
  qed (simp add: Instance_Get_def i c class_get_members [OF c(2)])
  show "\<exists>r. Instance_GetMetaMethod i mm h = Done r" if "mm < MT_LAST" for mm
    using that c(2) by (simp add: Instance_GetMetaMethod_def i c(1) vec_at_def class_inv_def)
  show "InstanceOf (n + 1) i trg h = Done (derives h (in_class ins) trg)" for trg
  proof -
    obtain rank where r: "ranked h rank" using inv by (auto simp: heap_inv_def)
    with c(1) have "rank (in_class ins) < card (dom (oh_classes h))" unfolding ranked_def by blast
    with heap_invD(3) [OF inv] have "rank (in_class ins) + 1 < n + 1" by linarith
    with c(1) have "instance_of_loop (n + 1) (Some (in_class ins)) trg h = Done (derives h (in_class ins) trg)"
      by (intro instance_of_loop_correct [OF r]) auto
    then show ?thesis by (simp only: InstanceOf_def i of_option.simps obind.simps)
  qed
qed

definition sample_class :: sqclass where
  "sample_class = \<lparr>c_members = SQTable_new 0, c_base = None, c_defaultvalues = [], c_methods = [],
     c_metamethods = replicate MT_LAST ONull, c_attributes = ONull, c_typetag = 0, c_hook = None,
     c_locked = False, c_constructoridx = - 1, c_udsize = 0\<rparr>"

definition sample_objects :: objheap where
  "sample_objects = \<lparr>oh_classes = [8 \<mapsto> sample_class\<lparr>c_locked := True\<rparr>],
     oh_instances = [16 \<mapsto> Instance_new 8 sample_class], oh_closures = Map.empty\<rparr>"

lemma sample_reach_one:
  "class_reach wr ms 1 (set_class 8 sample_class \<lparr>oh_classes = Map.empty, oh_instances = Map.empty, oh_closures = Map.empty\<rparr>)"
  using class_reach.step [OF class_reach.start, of "NewClass 8 None"]
  by (simp add: base_ok_def Class_new_def sample_class_def)

lemma sample_reach_two: "class_reach wr ms 2 sample_objects"
  using class_reach.step [OF sample_reach_one, of "NewInstance 8 16" wr ms sample_objects]
  by (simp add: CreateInstance_def sample_objects_def set_class_def sample_class_def eval_nat_numeral)

theorem class_system_is_safe_witness:
  "\<exists>ms. init_metamethods = Some ms \<and> (\<exists>r. Instance_Get (\<lambda>_. ONull) 16 (OString ''x'') sample_objects = Done r) \<and>
     InstanceOf 3 16 8 sample_objects = Done (derives sample_objects 8 8)"
proof -
  obtain ms where ms: "init_metamethods = Some ms" using numbered_metamethods by blast
  have i: "oh_instances sample_objects 16 = Some (Instance_new 8 sample_class)" and c: "in_class (Instance_new 8 sample_class) = 8"
    by (simp_all add: sample_objects_def Instance_new_def)
  have "(2::nat) < 2 ^ 24" by simp
  from class_system_is_safe [OF ms sample_reach_two this, of "\<lambda>_. ONull", THEN conjunct2, THEN conjunct2,
      rule_format, OF i, of "OString ''x''" 0 8]
  have "\<exists>r. Instance_Get (\<lambda>_. ONull) 16 (OString ''x'') sample_objects = Done r"
    "InstanceOf (2 + 1) 16 8 sample_objects = Done (derives sample_objects 8 8)" unfolding c by blast+
  with ms show ?thesis by auto
qed

text \<open>
  C18. Members are a map.  \<open>NewSlot\<close> on a locked class refuses a value that is neither a
  function nor static and changes nothing.  Otherwise a function that has the name of a
  metamethod, and of no field, becomes that metamethod and no member changes; any other
  value is what the key then has, a closure in a derived class as a clone bound to the
  base, and every other key keeps its value.  No instance changes.
\<close>

theorem new_slot_semantics:
  assumes "init_metamethods = Some ms" "class_reach wr ms n h" "n + 1 < 2 ^ 24"
    "class_op_ok (NewSlot clone this key val bstatic) h" "oh_classes h this = Some c"
  shows "(if c_locked c \<and> \<not> (is_callable val \<or> bstatic)
      then Class_NewSlot wr ms clone this key val bstatic h = Done (False, h)
      else \<exists>h' c'. Class_NewSlot wr ms clone this key val bstatic h = Done (True, h') \<and>
        oh_classes h' = (oh_classes h)(this \<mapsto> c') \<and> oh_instances h' = oh_instances h \<and>
        (\<forall>k. Class_Get wr c' k = (if k \<noteq> key \<or> as_metamethod ms c key val then Class_Get wr c k
           else Done (Some (stored_value wr clone c key val bstatic)))) \<and>
        c_metamethods c' = (if as_metamethod ms c key val
           then (c_metamethods c)[unat (the (GetMetaMethodIdxByName ms key)) := val] else c_metamethods c))"
proof (cases "c_locked c \<and> \<not> (is_callable val \<or> bstatic)")
  case True
  then show ?thesis by (simp add: Class_NewSlot_def assms(5))
next
  case False
  have n: "n < 2 ^ 24" "Suc n < 2 ^ 24" using assms(3) by simp_all
  note ci = heap_invD(1) [OF class_reach_inv [OF assms(2,1) n(1)] assms(5)]
  from False assms(1,4,5) n ci have "newslot_pre n ms h this c key val bstatic" by (simp add: newslot_pre_def)
  from NewSlot_class [OF this, of wr clone] obtain h1 c' where
    r: "Class_NewSlot wr ms clone this key val bstatic h = Done (True, set_class this c' h1)"
    "oh_classes h1 = oh_classes h" "oh_instances h1 = oh_instances h" "class_inv (Suc n) c'"
    "newslot_effect wr ms clone c key val bstatic c'"
    unfolding newslot_done_def by blast
  have "Class_Get wr c' k = (if k \<noteq> key \<or> as_metamethod ms c key val then Class_Get wr c k
           else Done (Some (stored_value wr clone c key val bstatic)))" for k
    unfolding Class_Get_slots [OF ci n(1)] Class_Get_slots [OF r(4) n(2)]
    using r(5) by (simp add: newslot_effect_def split: if_splits)
  moreover have "c_metamethods c' = (if as_metamethod ms c key val
      then (c_metamethods c)[unat (the (GetMetaMethodIdxByName ms key)) := val] else c_metamethods c)"
    using r(5) by (simp add: newslot_effect_def split: if_splits)
  ultimately show ?thesis using r(1-3) unfolding if_not_P [OF False]
    by (intro exI [of _ "set_class this c' h1"] exI [of _ c']) simp
qed

theorem new_slot_semantics_witness:
  "\<exists>ms h' c'. Class_NewSlot (\<lambda>_. ONull) ms 32 8 (OString ''x'') (OInteger 5) True sample_objects = Done (True, h') \<and>
     oh_classes h' 8 = Some c' \<and> Class_Get (\<lambda>_. ONull) c' (OString ''x'') = Done (Some (OInteger 5))"
proof -
  obtain ms where ms: "init_metamethods = Some ms" using numbered_metamethods by blast
  have ok: "class_op_ok (NewSlot 32 8 (OString ''x'') (OInteger 5) True) sample_objects"
    "oh_classes sample_objects 8 = Some (sample_class\<lparr>c_locked := True\<rparr>)"
    by (simp_all add: sample_objects_def)
  have "table_map (SQTable_new 0) k = None" for k using new_table [of 0] by simp
  then have "stored_value wr 32 (sample_class\<lparr>c_locked := True\<rparr>) (OString ''x'') (OInteger 5) True = OInteger 5" for wr
    by (simp add: stored_value_def is_field_key_def sample_class_def)
  with new_slot_semantics [OF ms sample_reach_two _ ok, of "\<lambda>_. ONull"] obtain h' c' where
    "Class_NewSlot (\<lambda>_. ONull) ms 32 8 (OString ''x'') (OInteger 5) True sample_objects = Done (True, h')"
    "oh_classes h' = (oh_classes sample_objects)(8 \<mapsto> c')"
    "Class_Get (\<lambda>_. ONull) c' (OString ''x'') = Done (Some (OInteger 5))"
    by (auto simp: as_metamethod_def)
  then show ?thesis by (intro exI [of _ ms] exI [of _ h'] exI [of _ c']) simp
qed

text \<open>
  C19. Derived classes and instances start as copies and then go their own way.  Every
  key of a new class reads as in its base; every key of a new instance reads as in its
  class, and its user data lies behind its values.  Assigning to an instance succeeds
  exactly for the keys of fields, and then only this key of this instance reads
  differently: neither the class, nor another instance, nor another key changes.
\<close>

theorem instances_are_copies:
  assumes "init_metamethods = Some ms" "class_reach wr ms n h" "n + 1 < 2 ^ 24"
  shows "(\<forall>a b bc key. class_op_ok (NewClass a (Some b)) h \<and> oh_classes h b = Some bc \<longrightarrow>
        (\<exists>c. Class_new a (Some b) h = Done (set_class a c h) \<and> Class_Get wr c key = Class_Get wr bc key)) \<and>
     (\<forall>a i c key. class_op_ok (NewInstance a i) h \<and> oh_classes h a = Some c \<longrightarrow>
        (\<exists>h' ins. CreateInstance n a i h = Done h' \<and> oh_instances h' = (oh_instances h)(i \<mapsto> ins) \<and>
           Instance_Get wr i key h' = Class_Get wr c key \<and>
           88 + 16 * int (length (in_values ins)) \<le> in_memsize ins - c_udsize c)) \<and>
     (\<forall>i ins c key val. oh_instances h i = Some ins \<and> oh_classes h (in_class ins) = Some c \<longrightarrow>
        (\<exists>h'. Instance_Set wr i key val h = Done (is_field_key c key, h') \<and> oh_classes h' = oh_classes h \<and>
           (\<forall>j k. Instance_Get wr j k h' = (if j = i \<and> k = key \<and> is_field_key c key
              then Done (Some (realval wr val)) else Instance_Get wr j k h))))"
proof (intro conjI allI impI)
  have n: "n < 2 ^ 24" "Suc n < 2 ^ 24" using assms(3) by simp_all
  note inv = class_reach_inv [OF assms(2,1) n(1)]
  fix a b bc key assume "class_op_ok (NewClass a (Some b)) h \<and> oh_classes h b = Some bc"
  then have a: "a \<notin> dom (oh_classes h)" "base_ok h (Some b)" "oh_classes h b = Some bc" by simp_all
  from Class_new_correct [OF inv a(1,2), of wr] obtain c where
    c: "Class_new a (Some b) h = Done (set_class a c h)" "heap_inv (Suc n) (set_class a c h)"
    "class_slots wr c = class_slots wr bc" using a(3) by auto
  from heap_invD(1) [OF c(2), of a c] have "class_inv (Suc n) c" by simp
  from Class_Get_slots [OF this n(2)] Class_Get_slots [OF heap_invD(1) [OF inv a(3)] n(1)] c(3)
  have "Class_Get wr c key = Class_Get wr bc key" by simp
  with c(1) show "\<exists>c. Class_new a (Some b) h = Done (set_class a c h) \<and> Class_Get wr c key = Class_Get wr bc key"
    by blast
next
  have n: "n < 2 ^ 24" using assms(3) by simp
  note inv = class_reach_inv [OF assms(2,1) n]
  fix a i c key assume a: "class_op_ok (NewInstance a i) h \<and> oh_classes h a = Some c"
  then have c: "oh_classes h a = Some c" by simp
  from create_instance_heap [OF inv c, of i] obtain h1 where
    h1: "CreateInstance n a i h = Done (h1\<lparr>oh_instances := (oh_instances h1)(i \<mapsto> Instance_new a c)\<rparr>)"
    "heap_inv n h1" "oh_classes h1 a = Some (c\<lparr>c_locked := True\<rparr>)" "oh_instances h1 = oh_instances h" by blast
  let ?h' = "h1\<lparr>oh_instances := (oh_instances h1)(i \<mapsto> Instance_new a c)\<rparr>" and ?i = "Instance_new a c"
  note ci = heap_invD(1) [OF inv c]
  have "Instance_Get wr i key ?h' = Done (instance_slots wr (c\<lparr>c_locked := True\<rparr>) ?i key)"
    by (rule Instance_Get_slots [where n = n]) (use h1(3) ci n in \<open>simp_all add: Instance_new_def\<close>)
  moreover have "instance_slots wr (c\<lparr>c_locked := True\<rparr>) ?i key = class_slots wr c key"
  proof (cases "table_map (c_members c) key")
    case (Some v)
    with ci n Some show ?thesis
      by (cases rule: member_cases)
        (simp_all add: instance_slots_def class_slots_def slot_value_def Some Instance_new_def)
  qed (simp add: instance_slots_def class_slots_def)
  ultimately have "Instance_Get wr i key ?h' = Class_Get wr c key" by (simp add: Class_Get_slots [OF ci n])
  moreover have "88 + 16 * int (length (in_values ?i)) \<le> in_memsize ?i - c_udsize c"
    by (simp add: Instance_new_def calcinstancesize_def sq_aligning_def) presburger
  ultimately show "\<exists>h' ins. CreateInstance n a i h = Done h' \<and> oh_instances h' = (oh_instances h)(i \<mapsto> ins) \<and>
      Instance_Get wr i key h' = Class_Get wr c key \<and>
      88 + 16 * int (length (in_values ins)) \<le> in_memsize ins - c_udsize c"
    using h1(1,4) by (intro exI [of _ ?h'] exI [of _ ?i]) simp
next
  have n: "n < 2 ^ 24" using assms(3) by simp
  note inv = class_reach_inv [OF assms(2,1) n]
  fix i ins c key val assume a: "oh_instances h i = Some ins \<and> oh_classes h (in_class ins) = Some c"
  then have i: "i \<in> dom (oh_instances h)" by auto
  obtain c2 where "oh_classes h (in_class ins) = Some c2" "class_inv n c2"
    "length (in_values ins) = length (c_defaultvalues c2)" using a by (auto intro: instance_parts [OF inv i])
  with a have p: "oh_instances h i = Some ins" "oh_classes h (in_class ins) = Some c" "class_inv n c"
    "length (in_values ins) = length (c_defaultvalues c)" by auto
  from Instance_Set_effect [OF p(1-3) n p(4), of wr key val] obtain ins' where
    s: "Instance_Set wr i key val h = Done (is_field_key c key, h\<lparr>oh_instances := (oh_instances h)(i \<mapsto> ins')\<rparr>)"
    "in_class ins' = in_class ins" "length (in_values ins') = length (c_defaultvalues c)"
    "instance_slots wr c ins' = (if is_field_key c key then (instance_slots wr c ins)(key \<mapsto> realval wr val)
       else instance_slots wr c ins)" by blast
  let ?h' = "h\<lparr>oh_instances := (oh_instances h)(i \<mapsto> ins')\<rparr>"
  have "Instance_Get wr j k ?h' = (if j = i \<and> k = key \<and> is_field_key c key
      then Done (Some (realval wr val)) else Instance_Get wr j k h)" for j k
  proof (cases "j = i")
    case True
    have "Instance_Get wr i k ?h' = Done (instance_slots wr c ins' k)"
      by (rule Instance_Get_slots [where n = n]) (use p s n in simp_all)
    moreover have "Instance_Get wr i k h = Done (instance_slots wr c ins k)"
      by (rule Instance_Get_slots [OF p(1-3) n p(4)])
    ultimately show ?thesis using True s(4) by simp
  qed (simp add: Instance_Get_def)
  with s(1) show "\<exists>h'. Instance_Set wr i key val h = Done (is_field_key c key, h') \<and> oh_classes h' = oh_classes h \<and>
      (\<forall>j k. Instance_Get wr j k h' = (if j = i \<and> k = key \<and> is_field_key c key
        then Done (Some (realval wr val)) else Instance_Get wr j k h))"
    by (intro exI [of _ ?h']) simp
qed

theorem instances_are_copies_witness:
  "\<exists>h' ins. CreateInstance 2 8 24 sample_objects = Done h' \<and> oh_instances h' = (oh_instances sample_objects)(24 \<mapsto> ins)"
proof -
  obtain ms where ms: "init_metamethods = Some ms" using numbered_metamethods by blast
  have ok: "class_op_ok (NewInstance 8 24) sample_objects"
    "oh_classes sample_objects 8 = Some (sample_class\<lparr>c_locked := True\<rparr>)"
    by (simp_all add: sample_objects_def)
  have "(2::nat) + 1 < 2 ^ 24" by simp
  from instances_are_copies [OF ms sample_reach_two this, of "\<lambda>_. ONull", THEN conjunct2, THEN conjunct1,
      rule_format, OF conjI, OF ok] show ?thesis by blast
qed

end
