(* ===== verification/Lexer.thy ===== *)
theory Lexer
  imports TableOps Outcomes
begin

text \<open>
  The lexical analyser, \<^verbatim>\<open>squirrel/sqlexer.cpp\<close>, with the token codes of
  \<^verbatim>\<open>squirrel/sqcompiler.h\<close>.

  The source is the list of the values the reading function returns; after it the
  function returns 0.  The error function of the compiler jumps out of the lexer, so an
  error ends it.  Characters are bytes, classified as the C locale does.  The conversion
  of the text of a float is a parameter, \<open>strtod\<close>.  The buffer holds the terminator the
  code puts behind a text.
\<close>

section \<open>Token codes\<close>

named_theorems token_codes

definition TK_IDENTIFIER :: int where [token_codes]: "TK_IDENTIFIER = 258"
definition TK_STRING_LITERAL :: int where [token_codes]: "TK_STRING_LITERAL = 259"
definition TK_INTEGER :: int where [token_codes]: "TK_INTEGER = 260"
definition TK_FLOAT :: int where [token_codes]: "TK_FLOAT = 261"
definition TK_BASE :: int where [token_codes]: "TK_BASE = 262"
definition TK_DELETE :: int where [token_codes]: "TK_DELETE = 263"
definition TK_EQ :: int where [token_codes]: "TK_EQ = 264"
definition TK_NE :: int where [token_codes]: "TK_NE = 265"
definition TK_LE :: int where [token_codes]: "TK_LE = 266"
definition TK_GE :: int where [token_codes]: "TK_GE = 267"
definition TK_SWITCH :: int where [token_codes]: "TK_SWITCH = 268"
definition TK_AND :: int where [token_codes]: "TK_AND = 270"
definition TK_OR :: int where [token_codes]: "TK_OR = 271"
definition TK_IF :: int where [token_codes]: "TK_IF = 272"
definition TK_ELSE :: int where [token_codes]: "TK_ELSE = 273"
definition TK_WHILE :: int where [token_codes]: "TK_WHILE = 274"
definition TK_BREAK :: int where [token_codes]: "TK_BREAK = 275"
definition TK_FOR :: int where [token_codes]: "TK_FOR = 276"
definition TK_DO :: int where [token_codes]: "TK_DO = 277"
definition TK_NULL :: int where [token_codes]: "TK_NULL = 278"
definition TK_FOREACH :: int where [token_codes]: "TK_FOREACH = 279"
definition TK_IN :: int where [token_codes]: "TK_IN = 280"
definition TK_NEWSLOT :: int where [token_codes]: "TK_NEWSLOT = 281"
definition TK_LOCAL :: int where [token_codes]: "TK_LOCAL = 283"
definition TK_CLONE :: int where [token_codes]: "TK_CLONE = 284"
definition TK_FUNCTION :: int where [token_codes]: "TK_FUNCTION = 285"
definition TK_RETURN :: int where [token_codes]: "TK_RETURN = 286"
definition TK_TYPEOF :: int where [token_codes]: "TK_TYPEOF = 287"
definition TK_PLUSEQ :: int where [token_codes]: "TK_PLUSEQ = 289"
definition TK_MINUSEQ :: int where [token_codes]: "TK_MINUSEQ = 290"
definition TK_CONTINUE :: int where [token_codes]: "TK_CONTINUE = 291"
definition TK_YIELD :: int where [token_codes]: "TK_YIELD = 292"
definition TK_TRY :: int where [token_codes]: "TK_TRY = 293"
definition TK_CATCH :: int where [token_codes]: "TK_CATCH = 294"
definition TK_THROW :: int where [token_codes]: "TK_THROW = 295"
definition TK_SHIFTL :: int where [token_codes]: "TK_SHIFTL = 296"
definition TK_SHIFTR :: int where [token_codes]: "TK_SHIFTR = 297"
definition TK_RESUME :: int where [token_codes]: "TK_RESUME = 298"
definition TK_DOUBLE_COLON :: int where [token_codes]: "TK_DOUBLE_COLON = 299"
definition TK_CASE :: int where [token_codes]: "TK_CASE = 300"
definition TK_DEFAULT :: int where [token_codes]: "TK_DEFAULT = 301"
definition TK_THIS :: int where [token_codes]: "TK_THIS = 302"
definition TK_PLUSPLUS :: int where [token_codes]: "TK_PLUSPLUS = 303"
definition TK_MINUSMINUS :: int where [token_codes]: "TK_MINUSMINUS = 304"
definition TK_3WAYSCMP :: int where [token_codes]: "TK_3WAYSCMP = 305"
definition TK_USHIFTR :: int where [token_codes]: "TK_USHIFTR = 306"
definition TK_CLASS :: int where [token_codes]: "TK_CLASS = 307"
definition TK_EXTENDS :: int where [token_codes]: "TK_EXTENDS = 308"
definition TK_CONSTRUCTOR :: int where [token_codes]: "TK_CONSTRUCTOR = 310"
definition TK_INSTANCEOF :: int where [token_codes]: "TK_INSTANCEOF = 311"
definition TK_VARPARAMS :: int where [token_codes]: "TK_VARPARAMS = 312"
definition TK_TRUE :: int where [token_codes]: "TK_TRUE = 315"
definition TK_FALSE :: int where [token_codes]: "TK_FALSE = 316"
definition TK_MULEQ :: int where [token_codes]: "TK_MULEQ = 317"
definition TK_DIVEQ :: int where [token_codes]: "TK_DIVEQ = 318"
definition TK_MODEQ :: int where [token_codes]: "TK_MODEQ = 319"
definition TK_ATTR_OPEN :: int where [token_codes]: "TK_ATTR_OPEN = 320"
definition TK_ATTR_CLOSE :: int where [token_codes]: "TK_ATTR_CLOSE = 321"
definition TK_STATIC :: int where [token_codes]: "TK_STATIC = 322"
definition TK_ENUM :: int where [token_codes]: "TK_ENUM = 323"
definition TK_CONST :: int where [token_codes]: "TK_CONST = 324"
definition TK_TYPEDVAR :: int where [token_codes]: "TK_TYPEDVAR = 325"
definition TK_VALUESTRUCT :: int where [token_codes]: "TK_VALUESTRUCT = 326"
definition TK_NATIVE :: int where [token_codes]: "TK_NATIVE = 327"
definition TK_NAMESPACE :: int where [token_codes]: "TK_NAMESPACE = 329"
definition TK_USING :: int where [token_codes]: "TK_USING = 330"
definition TK_AS_OPERATOR :: int where [token_codes]: "TK_AS_OPERATOR = 332"
definition TK_IS_OPERATOR :: int where [token_codes]: "TK_IS_OPERATOR = 333"
definition TK_DYNAMIC_T :: int where [token_codes]: "TK_DYNAMIC_T = 334"
definition TK_VOID_T :: int where [token_codes]: "TK_VOID_T = 335"
definition TK_BOOLEAN_T :: int where [token_codes]: "TK_BOOLEAN_T = 336"
definition TK_CHAR8_T :: int where [token_codes]: "TK_CHAR8_T = 337"
definition TK_BYTE8_T :: int where [token_codes]: "TK_BYTE8_T = 338"
definition TK_INT16_T :: int where [token_codes]: "TK_INT16_T = 339"
definition TK_UINT16_T :: int where [token_codes]: "TK_UINT16_T = 340"
definition TK_INT32_T :: int where [token_codes]: "TK_INT32_T = 341"
definition TK_UINT32_T :: int where [token_codes]: "TK_UINT32_T = 342"
definition TK_INT64_T :: int where [token_codes]: "TK_INT64_T = 343"
definition TK_UINT64_T :: int where [token_codes]: "TK_UINT64_T = 344"
definition TK_FLOAT32_T :: int where [token_codes]: "TK_FLOAT32_T = 345"
definition TK_DOUBLE64_T :: int where [token_codes]: "TK_DOUBLE64_T = 346"
definition TK_STRING_T :: int where [token_codes]: "TK_STRING_T = 347"
definition TK_NATIVEPTR_T :: int where [token_codes]: "TK_NATIVEPTR_T = 351"

section \<open>Characters\<close>

definition code :: "char \<Rightarrow> nat" where "code c = of_char c"

definition EOB :: char where "EOB = CHR 0x00"

definition scisdigit :: "char \<Rightarrow> bool" where "scisdigit c \<longleftrightarrow> 48 \<le> code c \<and> code c \<le> 57"
definition scisodigit :: "char \<Rightarrow> bool" where "scisodigit c \<longleftrightarrow> 48 \<le> code c \<and> code c \<le> 55"
definition scisalpha :: "char \<Rightarrow> bool" where
  "scisalpha c \<longleftrightarrow> 65 \<le> code c \<and> code c \<le> 90 \<or> 97 \<le> code c \<and> code c \<le> 122"
definition scisalnum :: "char \<Rightarrow> bool" where "scisalnum c \<longleftrightarrow> scisalpha c \<or> scisdigit c"
definition scisxdigit :: "char \<Rightarrow> bool" where
  "scisxdigit c \<longleftrightarrow> scisdigit c \<or> 65 \<le> code c \<and> code c \<le> 70 \<or> 97 \<le> code c \<and> code c \<le> 102"
definition sciscntrl :: "char \<Rightarrow> bool" where "sciscntrl c \<longleftrightarrow> code c < 32 \<or> code c = 127"
definition toupper :: "char \<Rightarrow> nat" where
  "toupper c = (if 97 \<le> code c \<and> code c \<le> 122 then code c - 32 else code c)"
definition isexponent :: "char \<Rightarrow> bool" where "isexponent c \<longleftrightarrow> c = CHR ''e'' \<or> c = CHR ''E''"

section \<open>State\<close>

record sqlexer =
  lx_input :: "int list"
  lx_currdata :: char
  lx_curtoken :: int
  lx_prevtoken :: int
  lx_reached_eof :: bool
  lx_currentline :: int
  lx_lasttokenline :: int
  lx_currentcolumn :: int
  lx_lasttokencolumn :: int
  lx_svalue :: string
  lx_nvalue :: sqint
  lx_fvalue :: sqfloat
  lx_longstr :: string
  lx_keywords :: sqtable

definition MAX_CHAR :: int where "MAX_CHAR = 0xFF"

definition lex_char :: "int \<Rightarrow> char" where
  "lex_char t = char_of (nat (t mod 256))"

definition lex_next :: "sqlexer \<Rightarrow> sqlexer outcome" where
  "lex_next s =
     (let t = (case lx_input s of [] \<Rightarrow> 0 | t # _ \<Rightarrow> t); s1 = s\<lparr>lx_input := tl (lx_input s)\<rparr> in
      if t > MAX_CHAR then Fail ''Invalid character''
      else if t \<noteq> 0 then Done (s1\<lparr>lx_currdata := lex_char t\<rparr>)
      else Done (s1\<lparr>lx_currdata := EOB, lx_reached_eof := True\<rparr>))"

definition NEXT :: "sqlexer \<Rightarrow> sqlexer outcome" where
  "NEXT s = obind (lex_next s) (\<lambda>s'. Done (s'\<lparr>lx_currentcolumn := lx_currentcolumn s' + 1\<rparr>))"

definition APPEND_CHAR :: "char \<Rightarrow> sqlexer \<Rightarrow> sqlexer" where
  "APPEND_CHAR c s = s\<lparr>lx_longstr := lx_longstr s @ [c]\<rparr>"

definition INIT_TEMP_STRING :: "sqlexer \<Rightarrow> sqlexer" where
  "INIT_TEMP_STRING s = s\<lparr>lx_longstr := []\<rparr>"

definition TERMINATE_BUFFER :: "sqlexer \<Rightarrow> sqlexer" where
  "TERMINATE_BUFFER s = APPEND_CHAR (CHR 0x00) s"

text \<open>The keywords, in the order they are added; a string equal to an earlier one replaces it.\<close>

definition keyword_list :: "(string \<times> int) list" where
  "keyword_list =
    [(''while'', TK_WHILE),
     (''do'', TK_DO),
     (''if'', TK_IF),
     (''else'', TK_ELSE),
     (''break'', TK_BREAK),
     (''continue'', TK_CONTINUE),
     (''return'', TK_RETURN),
     (''define'', TK_RETURN),
     (''null'', TK_NULL),
     (''function'', TK_FUNCTION),
     (''local'', TK_LOCAL),
     (''for'', TK_FOR),
     (''foreach'', TK_FOREACH),
     (''in'', TK_IN),
     (''typeof'', TK_TYPEOF),
     (''base'', TK_BASE),
     (''delete'', TK_DELETE),
     (''try'', TK_TRY),
     (''catch'', TK_CATCH),
     (''throw'', TK_THROW),
     (''clone'', TK_CLONE),
     (''yield'', TK_YIELD),
     (''resume'', TK_RESUME),
     (''switch'', TK_SWITCH),
     (''case'', TK_CASE),
     (''default'', TK_DEFAULT),
     (''this'', TK_THIS),
     (''class'', TK_CLASS),
     (''extends'', TK_EXTENDS),
     (''constructor'', TK_CONSTRUCTOR),
     (''instanceof'', TK_INSTANCEOF),
     (''true'', TK_TRUE),
     (''false'', TK_FALSE),
     (''static'', TK_STATIC),
     (''enum'', TK_ENUM),
     (''const'', TK_CONST),
     (''var'', TK_TYPEDVAR),
     (''struct'', TK_VALUESTRUCT),
     (''native'', TK_NATIVE),
     (''using'', TK_USING),
     (''namespace'', TK_NAMESPACE),
     (''as'', TK_AS_OPERATOR),
     (''is'', TK_IS_OPERATOR),
     (''dynamic'', TK_DYNAMIC_T),
     (''void'', TK_VOID_T),
     (''char'', TK_CHAR8_T),
     (''byte'', TK_BYTE8_T),
     (''bool'', TK_BOOLEAN_T),
     (''int16'', TK_INT16_T),
     (''uint16'', TK_UINT16_T),
     (''int32'', TK_INT32_T),
     (''uint32'', TK_UINT32_T),
     (''int'', TK_INT32_T),
     (''uint'', TK_UINT32_T),
     (''int64'', TK_INT64_T),
     (''uint64'', TK_UINT64_T),
     (''float'', TK_FLOAT32_T),
     (''double'', TK_DOUBLE64_T),
     (''string'', TK_STRING_T),
     (''nativeptr'', TK_NATIVEPTR_T)]"

definition keyword_table :: "sqtable option" where
  "keyword_table =
     put_all Table_NewSlot (SQTable_new 26)
       (map (\<lambda>(key, id). (OString key, OInteger (word_of_int id))) keyword_list)"

definition lex_init :: "int list \<Rightarrow> int \<Rightarrow> sqlexer outcome" where
  "lex_init rg curtoken =
     obind (of_option keyword_table) (\<lambda>kw.
     lex_next \<lparr>lx_input = rg, lx_currdata = EOB, lx_curtoken = curtoken, lx_prevtoken = - 1,
       lx_reached_eof = False, lx_currentline = 1, lx_lasttokenline = 1, lx_currentcolumn = 0,
       lx_lasttokencolumn = 0, lx_svalue = [], lx_nvalue = 0, lx_fvalue = 0, lx_longstr = [],
       lx_keywords = kw\<rparr>)"

section \<open>What is left to read\<close>

definition left :: "sqlexer \<Rightarrow> nat" where
  "left s = length (lx_input s) + (if lx_currdata s = EOB then 0 else 1)"

lemma NEXT_left:
  assumes "NEXT s = Done s'"
  shows "left s' \<le> left s" and "lx_currdata s \<noteq> EOB \<Longrightarrow> left s' < left s"
  using assms by (auto simp: NEXT_def lex_next_def left_def obind_Done Let_def split: list.splits if_splits)

lemma APPEND_left [simp]: "left (APPEND_CHAR c s) = left s" "lx_currdata (APPEND_CHAR c s) = lx_currdata s"
  by (simp_all add: APPEND_CHAR_def left_def)

lemma obind_fundef_cong [fundef_cong]:
  "m = m' \<Longrightarrow> (\<And>x. m' = Done x \<Longrightarrow> f x = g x) \<Longrightarrow> obind m f = obind m' g"
  by (cases m') auto

lemma EOB_classD: "scisodigit c \<Longrightarrow> c \<noteq> EOB" "scisxdigit c \<Longrightarrow> c \<noteq> EOB" "scisdigit c \<Longrightarrow> c \<noteq> EOB"
    "scisalnum c \<Longrightarrow> c \<noteq> EOB" "isexponent c \<Longrightarrow> c \<noteq> EOB"
  by (auto simp: scisodigit_def scisxdigit_def scisdigit_def scisalnum_def scisalpha_def isexponent_def
      code_def EOB_def)

lemma EOB_class [simp]: "\<not> scisodigit EOB" "\<not> scisxdigit EOB" "\<not> scisdigit EOB" "\<not> scisalnum EOB"
    "\<not> isexponent EOB" "EOB \<noteq> CHR ''.''" "EOB \<noteq> CHR ''_''" "EOB \<noteq> CHR ''*''"
  by (simp_all add: scisodigit_def scisxdigit_def scisdigit_def scisalnum_def scisalpha_def isexponent_def
      code_def EOB_def)

section \<open>Comments\<close>

function LexBlockComment :: "sqlexer \<Rightarrow> sqlexer outcome" where
  "LexBlockComment s =
     (if lx_currdata s = CHR ''*'' then
        obind (NEXT s) (\<lambda>s1. if lx_currdata s1 = CHR ''/'' then NEXT s1 else LexBlockComment s1)
      else if lx_currdata s = CHR 0x0A then
        obind (NEXT (s\<lparr>lx_currentline := lx_currentline s + 1\<rparr>)) LexBlockComment
      else if lx_currdata s = EOB then Fail ''missing \"*/\" in comment''
      else obind (NEXT s) LexBlockComment)"
  by pat_completeness auto

termination
  by (relation "measure left") (auto dest: NEXT_left(2) simp: EOB_def left_def)

lemma NEXT_input:
  assumes "NEXT s = Done s'" "lx_currdata s' \<noteq> EOB"
  shows "length (lx_input s') < length (lx_input s)"
  using assms by (auto simp: NEXT_def lex_next_def obind_Done Let_def split: list.splits if_splits)

function LexLineComment :: "sqlexer \<Rightarrow> sqlexer outcome" where
  "LexLineComment s =
     obind (NEXT s) (\<lambda>s1.
       if lx_currdata s1 \<noteq> CHR 0x0A \<and> lx_currdata s1 \<noteq> EOB then LexLineComment s1 else Done s1)"
  by pat_completeness auto

termination
  by (relation "measure (\<lambda>s. length (lx_input s))") (auto dest: NEXT_input)

section \<open>Strings\<close>

fun hex_digit :: "char \<Rightarrow> nat" where
  "hex_digit c = (if scisdigit c then code c - 48 else toupper c - 65 + 10)"

text \<open>The value of up to four hexadecimal digits, converted to a character.\<close>

definition hex_char :: "string \<Rightarrow> char" where
  "hex_char ds = char_of (foldl (\<lambda>v c. v * 16 + hex_digit c) 0 ds mod 256)"

fun hex_escape :: "nat \<Rightarrow> string \<Rightarrow> sqlexer \<Rightarrow> (string \<times> sqlexer) outcome" where
  "hex_escape 0 temp s = Done (temp, s)"
| "hex_escape (Suc n) temp s =
     (if scisxdigit (lx_currdata s)
      then obind (NEXT s) (hex_escape n (temp @ [lx_currdata s]))
      else Done (temp, s))"

definition maxdigits :: nat where "maxdigits = 4"

definition simple_escapes :: "(char \<times> char) list" where
  "simple_escapes =
     [(CHR ''t'', CHR 0x09), (CHR ''a'', CHR 0x07), (CHR ''b'', CHR 0x08), (CHR ''n'', CHR 0x0A),
      (CHR ''r'', CHR 0x0D), (CHR ''v'', CHR 0x0B), (CHR ''f'', CHR 0x0C), (CHR ''0'', CHR 0x00),
      (CHR 0x5C, CHR 0x5C), (CHR 0x22, CHR 0x22), (CHR 0x27, CHR 0x27)]"

text \<open>The character behind the backslash is the current one.\<close>

definition read_escape :: "sqlexer \<Rightarrow> sqlexer outcome" where
  "read_escape s =
     (if lx_currdata s = CHR ''x'' then
        obind (NEXT s) (\<lambda>s1.
          if \<not> scisxdigit (lx_currdata s1) then Fail ''hexadecimal number expected''
          else obind (hex_escape maxdigits [] s1) (\<lambda>(temp, s2). Done (APPEND_CHAR (hex_char temp) s2)))
      else (case map_of simple_escapes (lx_currdata s) of
              Some c \<Rightarrow> NEXT (APPEND_CHAR c s)
            | None \<Rightarrow> Fail ''unrecognised escaper char''))"

lemma hex_escape_left: "hex_escape n temp s = Done (t, s') \<Longrightarrow> left s' \<le> left s"
proof (induction n arbitrary: temp s)
  case (Suc n)
  show ?case
  proof (cases "scisxdigit (lx_currdata s)")
    case True
    with Suc.prems obtain s1 where "NEXT s = Done s1" "hex_escape n (temp @ [lx_currdata s]) s1 = Done (t, s')"
      by (auto simp: obind_Done)
    with Suc.IH NEXT_left(1) show ?thesis by (meson le_trans)
  qed (use Suc.prems in simp)
qed simp

lemma read_escape_left:
  assumes "read_escape s = Done s'"
  shows "left s' \<le> left s"
proof (cases "lx_currdata s = CHR ''x''")
  case True
  with assms obtain s1 t s2 where "NEXT s = Done s1" "hex_escape maxdigits [] s1 = Done (t, s2)" "left s' = left s2"
    by (auto simp: read_escape_def obind_Done split: if_splits)
  then show ?thesis using hex_escape_left NEXT_left(1) by (metis le_trans)
next
  case False
  with assms obtain c where "NEXT (APPEND_CHAR c s) = Done s'"
    by (auto simp: read_escape_def split: option.splits)
  from NEXT_left(1) [OF this] show ?thesis by simp
qed

text \<open>
  The two loops as one: the characters up to the delimiter, and behind it the second of a
  doubled quote of a verbatim string.
\<close>

lemma left_line [simp]: "left (s\<lparr>lx_currentline := l\<rparr>) = left s"
  by (simp add: left_def)

lemma NEXT_append_left: "NEXT (APPEND_CHAR c s) = Done s' \<Longrightarrow> lx_currdata s \<noteq> EOB \<Longrightarrow> left s' < left s"
  using NEXT_left(2) [of "APPEND_CHAR c s"] by simp

function read_string :: "char \<Rightarrow> bool \<Rightarrow> sqlexer \<Rightarrow> sqlexer outcome" where
  "read_string ndelim verbatim s =
     (if lx_currdata s = ndelim \<and> ndelim \<noteq> EOB then
        obind (NEXT s) (\<lambda>s1.
          if verbatim \<and> lx_currdata s1 = CHR 0x22
          then obind (NEXT (APPEND_CHAR (lx_currdata s1) s1)) (read_string ndelim verbatim)
          else Done s1)
      else if lx_currdata s = EOB then Fail ''unfinished string''
      else if lx_currdata s = CHR 0x0A then
        (if \<not> verbatim then Fail ''newline in a constant''
         else obind (NEXT (APPEND_CHAR (lx_currdata s) s)) (\<lambda>s1.
                read_string ndelim verbatim (s1\<lparr>lx_currentline := lx_currentline s1 + 1\<rparr>)))
      else if lx_currdata s = CHR 0x5C then
        (if verbatim then obind (NEXT (APPEND_CHAR (CHR 0x5C) s)) (read_string ndelim verbatim)
         else obind (NEXT s) (\<lambda>s1. obind (read_escape s1) (read_string ndelim verbatim)))
      else obind (NEXT (APPEND_CHAR (lx_currdata s) s)) (read_string ndelim verbatim))"
  by pat_completeness auto

termination
proof (relation "measure (\<lambda>(d, v, s). left s)")
  fix ndelim verbatim s s1 s2
  assume "lx_currdata s = ndelim \<and> ndelim \<noteq> EOB" "NEXT s = Done s1"
    "NEXT (APPEND_CHAR (lx_currdata s1) s1) = Done s2"
  then have "left s1 < left s" "left s2 \<le> left s1"
    using NEXT_left(2) [of s s1] NEXT_left(1) [of "APPEND_CHAR (lx_currdata s1) s1" s2] by auto
  then show "((ndelim, verbatim, s2), ndelim, verbatim, s) \<in> measure (\<lambda>(d, v, s). left s)" by simp
next
  fix ndelim verbatim s s1 s2
  assume "lx_currdata s \<noteq> EOB" "NEXT s = Done s1" "read_escape s1 = Done s2"
  then have "left s1 < left s" "left s2 \<le> left s1" using NEXT_left(2) [of s s1] read_escape_left by auto
  then show "((ndelim, verbatim, s2), ndelim, verbatim, s) \<in> measure (\<lambda>(d, v, s). left s)" by simp
qed (auto dest: NEXT_append_left)

text \<open>The result is the token; a string that ends with its opening quote has none.\<close>

definition ReadString :: "char \<Rightarrow> bool \<Rightarrow> sqlexer \<Rightarrow> (int \<times> sqlexer) outcome" where
  "ReadString ndelim verbatim s =
     obind (NEXT (INIT_TEMP_STRING s)) (\<lambda>s1.
       if lx_currdata s1 = EOB then Done (- 1, s1)
       else obind (read_string ndelim verbatim s1) (\<lambda>s2.
         let s3 = TERMINATE_BUFFER s2; len = length (lx_longstr s3) - 1 in
         if ndelim = CHR 0x27 then
           (if len = 0 then Fail ''empty constant''
            else if len > 1 then Fail ''constant too long''
            else Done (TK_INTEGER, s3\<lparr>lx_nvalue := scast (of_char (lx_longstr s3 ! 0) :: 8 word)\<rparr>))
         else Done (TK_STRING_LITERAL, s3\<lparr>lx_svalue := lx_longstr s3\<rparr>)))"

section \<open>Numbers\<close>

text \<open>The conversions read up to the terminator.\<close>

fun LexInteger :: "string \<Rightarrow> sqint \<Rightarrow> sqint" where
  "LexInteger [] res = res"
| "LexInteger (c # cs) res =
     (if c = CHR 0x00 then res else LexInteger cs (res * 10 + (of_nat (code c) - 48)))"

fun LexHexadecimal :: "string \<Rightarrow> sqint \<Rightarrow> sqint" where
  "LexHexadecimal [] res = res"
| "LexHexadecimal (c # cs) res =
     (if c = CHR 0x00 then res else LexHexadecimal cs (res * 16 + of_nat (hex_digit c)))"

fun LexOctal :: "string \<Rightarrow> sqint \<Rightarrow> sqint" where
  "LexOctal [] res = res"
| "LexOctal (c # cs) res =
     (if c = CHR 0x00 then res else LexOctal cs (res * 8 + (of_nat (code c) - 48)))"

function read_octal :: "sqlexer \<Rightarrow> sqlexer outcome" where
  "read_octal s =
     (if scisodigit (lx_currdata s) then obind (NEXT (APPEND_CHAR (lx_currdata s) s)) read_octal else Done s)"
  by pat_completeness auto

termination
  by (relation "measure left") (auto dest!: NEXT_append_left EOB_classD)

function read_hex :: "sqlexer \<Rightarrow> sqlexer outcome" where
  "read_hex s =
     (if scisxdigit (lx_currdata s) then obind (NEXT (APPEND_CHAR (lx_currdata s) s)) read_hex else Done s)"
  by pat_completeness auto

termination
  by (relation "measure left") (auto dest!: NEXT_append_left EOB_classD)

datatype numtype = TINT | TFLOAT | THEX | TSCIENTIFIC | TOCTAL

text \<open>
  The exponent of a number: its letter, a sign, and the check that a digit follows.  The
  check that the type is that of a float always succeeds, as the type has just been set.
\<close>

definition read_exponent :: "sqlexer \<Rightarrow> sqlexer outcome" where
  "read_exponent s =
     obind (NEXT (APPEND_CHAR (lx_currdata s) s)) (\<lambda>s1.
     obind (if lx_currdata s1 = CHR ''+'' \<or> lx_currdata s1 = CHR ''-''
            then NEXT (APPEND_CHAR (lx_currdata s1) s1) else Done s1) (\<lambda>s2.
     if \<not> scisdigit (lx_currdata s2) then Fail ''exponent expected'' else Done s2))"

lemma read_exponent_left:
  assumes "read_exponent s = Done s'" "lx_currdata s \<noteq> EOB"
  shows "left s' < left s" "lx_currdata s' \<noteq> EOB"
proof -
  from assms(1) obtain s1 where s1: "NEXT (APPEND_CHAR (lx_currdata s) s) = Done s1"
    "(if lx_currdata s1 = CHR ''+'' \<or> lx_currdata s1 = CHR ''-''
      then NEXT (APPEND_CHAR (lx_currdata s1) s1) else Done s1) = Done s'" "scisdigit (lx_currdata s')"
    by (auto simp: read_exponent_def obind_Done split: if_splits)
  from s1(1) assms(2) have "left s1 < left s" by (rule NEXT_append_left)
  moreover from s1(2) have "left s' \<le> left s1"
    using NEXT_left(1) [of "APPEND_CHAR (lx_currdata s1) s1" s'] by (auto split: if_splits)
  ultimately show "left s' < left s" by simp
  from s1(3) show "lx_currdata s' \<noteq> EOB" by (rule EOB_classD)
qed

function read_decimal :: "numtype \<Rightarrow> sqlexer \<Rightarrow> (numtype \<times> sqlexer) outcome" where
  "read_decimal type s =
     (let c = lx_currdata s in
      if c = CHR ''.'' \<or> scisdigit c \<or> isexponent c then
        (if isexponent c
         then obind (read_exponent s) (\<lambda>s1.
                obind (NEXT (APPEND_CHAR (lx_currdata s1) s1)) (read_decimal TSCIENTIFIC))
         else obind (NEXT (APPEND_CHAR c s)) (read_decimal (if c = CHR ''.'' then TFLOAT else type)))
      else Done (type, s))"
  by pat_completeness auto

termination
proof (relation "measure (\<lambda>(t, s). left s)")
  fix type s x s1 s2
  assume "x = lx_currdata s" "isexponent x" "read_exponent s = Done s1"
    "NEXT (APPEND_CHAR (lx_currdata s1) s1) = Done s2"
  then have "left s1 < left s" "left s2 \<le> left s1"
    using read_exponent_left(1) [of s s1] EOB_classD(5) NEXT_left(1) [of "APPEND_CHAR (lx_currdata s1) s1" s2]
    by auto
  then show "((TSCIENTIFIC, s2), type, s) \<in> measure (\<lambda>(t, s). left s)" by simp
next
  fix type s x s1
  assume "x = lx_currdata s" "x = CHR ''.'' \<or> scisdigit x \<or> isexponent x" "NEXT (APPEND_CHAR x s) = Done s1"
  then have "left s1 < left s" by (intro NEXT_append_left [of x s]) (auto dest: EOB_classD simp: EOB_def)
  then show "((if x = CHR ''.'' then TFLOAT else type, s1), type, s) \<in> measure (\<lambda>(t, s). left s)" by simp
qed simp

definition MAX_HEX_DIGITS :: nat where "MAX_HEX_DIGITS = 16"

definition ReadNumber :: "(string \<Rightarrow> sqfloat) \<Rightarrow> sqlexer \<Rightarrow> (int \<times> sqlexer) outcome" where
  "ReadNumber strtod s =
     (let firstchar = lx_currdata s in
      obind (NEXT (INIT_TEMP_STRING s)) (\<lambda>s1.
      obind (if firstchar = CHR ''0'' \<and> (toupper (lx_currdata s1) = 88 \<or> scisodigit (lx_currdata s1)) then
               (if scisodigit (lx_currdata s1)
                then obind (read_octal s1) (\<lambda>s2.
                  if scisdigit (lx_currdata s2) then Fail ''invalid octal number'' else Done (TOCTAL, s2))
                else obind (NEXT s1) (\<lambda>s2. obind (read_hex s2) (\<lambda>s3.
                  if length (lx_longstr s3) > MAX_HEX_DIGITS then Fail ''too many digits for an Hex number''
                  else Done (THEX, s3))))
             else read_decimal TINT (APPEND_CHAR firstchar s1)) (\<lambda>(type, s4).
      let s5 = TERMINATE_BUFFER s4 in
      case type of
        TSCIENTIFIC \<Rightarrow> Done (TK_FLOAT, s5\<lparr>lx_fvalue := strtod (lx_longstr s5)\<rparr>)
      | TFLOAT \<Rightarrow> Done (TK_FLOAT, s5\<lparr>lx_fvalue := strtod (lx_longstr s5)\<rparr>)
      | TINT \<Rightarrow> Done (TK_INTEGER, s5\<lparr>lx_nvalue := LexInteger (lx_longstr s5) 0\<rparr>)
      | THEX \<Rightarrow> Done (TK_INTEGER, s5\<lparr>lx_nvalue := LexHexadecimal (lx_longstr s5) 0\<rparr>)
      | TOCTAL \<Rightarrow> Done (TK_INTEGER, s5\<lparr>lx_nvalue := LexOctal (lx_longstr s5) 0\<rparr>))))"

section \<open>Identifiers\<close>

text \<open>A C string ends at its terminator.\<close>

definition c_string :: "string \<Rightarrow> string" where
  "c_string s = takeWhile (\<lambda>c. c \<noteq> CHR 0x00) s"

definition GetIDType :: "sqlexer \<Rightarrow> string \<Rightarrow> int outcome" where
  "GetIDType s name =
     obind (of_option (Table_Get (\<lambda>_. ONull) (lx_keywords s) (OString (c_string name)))) (\<lambda>r.
       case r of
         Some (OInteger t) \<Rightarrow> Done (sint t)
       | Some _ \<Rightarrow> Undef
       | None \<Rightarrow> Done TK_IDENTIFIER)"

lemma APPEND_input [simp]: "lx_input (APPEND_CHAR c s) = lx_input s"
  by (simp add: APPEND_CHAR_def)

function read_id :: "sqlexer \<Rightarrow> sqlexer outcome" where
  "read_id s =
     obind (NEXT (APPEND_CHAR (lx_currdata s) s)) (\<lambda>s1.
       if scisalnum (lx_currdata s1) \<or> lx_currdata s1 = CHR ''_'' then read_id s1 else Done s1)"
  by pat_completeness auto

termination
proof (relation "measure (\<lambda>s. length (lx_input s))")
  fix s s1
  assume n: "NEXT (APPEND_CHAR (lx_currdata s) s) = Done s1"
    and "scisalnum (lx_currdata s1) \<or> lx_currdata s1 = CHR ''_''"
  then have "lx_currdata s1 \<noteq> EOB" by (auto dest: EOB_classD simp: EOB_def)
  from NEXT_input [OF n this] show "(s1, s) \<in> measure (\<lambda>s. length (lx_input s))" by simp
qed simp

definition ReadID :: "sqlexer \<Rightarrow> (int \<times> sqlexer) outcome" where
  "ReadID s =
     obind (read_id (INIT_TEMP_STRING s)) (\<lambda>s1.
     let s2 = TERMINATE_BUFFER s1 in
     obind (GetIDType s2 (lx_longstr s2)) (\<lambda>res.
     Done (res, if res = TK_IDENTIFIER \<or> res = TK_CONSTRUCTOR then s2\<lparr>lx_svalue := lx_longstr s2\<rparr> else s2)))"

section \<open>Tokens\<close>

text \<open>One round of the loop: the next one follows, or a token is returned.\<close>

datatype round = Continue sqlexer | Token int sqlexer

definition RETURN_TOKEN :: "int \<Rightarrow> sqlexer \<Rightarrow> round outcome" where
  "RETURN_TOKEN t s = Done (Token t (s\<lparr>lx_prevtoken := lx_curtoken s, lx_curtoken := t\<rparr>))"

definition chr :: "char \<Rightarrow> int" where
  "chr c = int (code c)"

text \<open>Behind an operator: the first of the characters that follows, and the token it makes.\<close>

fun follows :: "(char \<times> int) list \<Rightarrow> int \<Rightarrow> sqlexer \<Rightarrow> round outcome" where
  "follows [] t s = RETURN_TOKEN t s"
| "follows ((c, t1) # cs) t s =
     (if lx_currdata s = c then obind (NEXT s) (RETURN_TOKEN t1) else follows cs t s)"

definition string_token :: "char \<Rightarrow> bool \<Rightarrow> sqlexer \<Rightarrow> round outcome" where
  "string_token ndelim verbatim s =
     obind (ReadString ndelim verbatim s) (\<lambda>(stype, s1).
       if stype \<noteq> - 1 then RETURN_TOKEN stype s1 else Fail ''error parsing the string'')"

definition lex_slash :: "sqlexer \<Rightarrow> round outcome" where
  "lex_slash s =
     obind (NEXT s) (\<lambda>s1.
       if lx_currdata s1 = CHR ''*'' then obind (NEXT s1) (\<lambda>s2. obind (LexBlockComment s2) (\<lambda>s3. Done (Continue s3)))
       else if lx_currdata s1 = CHR ''/'' then obind (LexLineComment s1) (\<lambda>s2. Done (Continue s2))
       else follows [(CHR ''='', TK_DIVEQ), (CHR ''>'', TK_ATTR_CLOSE)] (chr (CHR ''/'')) s1)"

definition lex_less :: "sqlexer \<Rightarrow> round outcome" where
  "lex_less s =
     obind (NEXT s) (\<lambda>s1.
       if lx_currdata s1 = CHR ''='' then obind (NEXT s1) (follows [(CHR ''>'', TK_3WAYSCMP)] TK_LE)
       else follows [(CHR ''-'', TK_NEWSLOT), (CHR ''<'', TK_SHIFTL), (CHR ''/'', TK_ATTR_OPEN),
                     (CHR ''|'', TK_ATTR_OPEN)] (chr (CHR ''<'')) s1)"

definition lex_greater :: "sqlexer \<Rightarrow> round outcome" where
  "lex_greater s =
     obind (NEXT s) (\<lambda>s1.
       if lx_currdata s1 = CHR ''='' then obind (NEXT s1) (RETURN_TOKEN TK_GE)
       else if lx_currdata s1 = CHR ''>'' then obind (NEXT s1) (follows [(CHR ''>'', TK_USHIFTR)] TK_SHIFTR)
       else RETURN_TOKEN (chr (CHR ''>'')) s1)"

definition lex_dot :: "sqlexer \<Rightarrow> round outcome" where
  "lex_dot s =
     obind (NEXT s) (\<lambda>s1.
       if lx_currdata s1 \<noteq> CHR ''.'' then RETURN_TOKEN (chr (CHR ''.'')) s1
       else obind (NEXT s1) (\<lambda>s2.
         if lx_currdata s2 \<noteq> CHR ''.'' then Fail (''invalid token '' @ [CHR 0x27] @ ''..'' @ [CHR 0x27])
         else obind (NEXT s2) (RETURN_TOKEN TK_VARPARAMS)))"

definition singles :: string where
  "singles = [CHR 0x7B, CHR 0x7D, CHR ''('', CHR '')'', CHR ''['', CHR '']'', CHR '';'', CHR '','', CHR ''?'',
     CHR 0x5E, CHR ''~'']"

definition lex_default :: "(string \<Rightarrow> sqfloat) \<Rightarrow> sqlexer \<Rightarrow> round outcome" where
  "lex_default strtod s =
     (let c = lx_currdata s in
      if scisdigit c then obind (ReadNumber strtod s) (\<lambda>(t, s1). RETURN_TOKEN t s1)
      else if scisalpha c \<or> c = CHR ''_'' then obind (ReadID s) (\<lambda>(t, s1). RETURN_TOKEN t s1)
      else if sciscntrl c then Fail ''unexpected character(control)''
      else obind (NEXT s) (RETURN_TOKEN (chr c)))"

definition lex_round :: "(string \<Rightarrow> sqfloat) \<Rightarrow> sqlexer \<Rightarrow> round outcome" where
  "lex_round strtod s =
     (let c = lx_currdata s in
      if c = CHR 0x09 \<or> c = CHR 0x0D \<or> c = CHR '' '' then obind (NEXT s) (\<lambda>s1. Done (Continue s1))
      else if c = CHR 0x0A then
        obind (NEXT (s\<lparr>lx_currentline := lx_currentline s + 1, lx_prevtoken := lx_curtoken s,
                      lx_curtoken := 10\<rparr>)) (\<lambda>s1. Done (Continue (s1\<lparr>lx_currentcolumn := 1\<rparr>)))
      else if c = CHR ''#'' then obind (LexLineComment s) (\<lambda>s1. Done (Continue s1))
      else if c = CHR ''/'' then lex_slash s
      else if c = CHR ''='' then obind (NEXT s) (follows [(CHR ''='', TK_EQ)] (chr (CHR ''='')))
      else if c = CHR ''<'' then lex_less s
      else if c = CHR ''>'' then lex_greater s
      else if c = CHR ''!'' then obind (NEXT s) (follows [(CHR ''='', TK_NE)] (chr (CHR ''!'')))
      else if c = CHR ''@'' then
        obind (NEXT s) (\<lambda>s1. if lx_currdata s1 \<noteq> CHR 0x22 then RETURN_TOKEN (chr (CHR ''@'')) s1
                             else string_token (CHR 0x22) True s1)
      else if c = CHR 0x22 \<or> c = CHR 0x27 then string_token c False s
      else if c \<in> set singles then obind (NEXT s) (RETURN_TOKEN (chr c))
      else if c = CHR ''.'' then lex_dot s
      else if c = CHR ''&'' then obind (NEXT s) (follows [(CHR ''&'', TK_AND)] (chr (CHR ''&'')))
      else if c = CHR ''|'' then
        obind (NEXT s) (follows [(CHR ''>'', TK_ATTR_CLOSE), (CHR ''|'', TK_OR)] (chr (CHR ''|'')))
      else if c = CHR '':'' then obind (NEXT s) (follows [(CHR '':'', TK_DOUBLE_COLON)] (chr (CHR '':'')))
      else if c = CHR ''*'' then obind (NEXT s) (follows [(CHR ''='', TK_MULEQ)] (chr (CHR ''*'')))
      else if c = CHR ''%'' then obind (NEXT s) (follows [(CHR ''='', TK_MODEQ)] (chr (CHR ''%'')))
      else if c = CHR ''-'' then
        obind (NEXT s) (follows [(CHR ''='', TK_MINUSEQ), (CHR ''-'', TK_MINUSMINUS)] (chr (CHR ''-'')))
      else if c = CHR ''+'' then
        obind (NEXT s) (follows [(CHR ''='', TK_PLUSEQ), (CHR ''+'', TK_PLUSPLUS)] (chr (CHR ''+'')))
      else lex_default strtod s)"

declare LexBlockComment.simps [simp del] LexLineComment.simps [simp del] read_string.simps [simp del]
  read_octal.simps [simp del] read_hex.simps [simp del] read_decimal.simps [simp del] read_id.simps [simp del]

end
