(* ===== verification/Lexing.thy ===== *)
theory Lexing
  imports Lexer
begin

text \<open>
  That every part of the lexer reads on, and what rests on it: the loop of \<open>Lex\<close>, which
  ends because each of its rounds reads at least one character, the search for the text
  of a token, and the reading of a whole source.
\<close>

section \<open>What a step reads\<close>

text \<open>
  Every part of the lexer reads at least one character and counts the lines it passes:
  the current line and the line feeds still ahead have a constant sum.
\<close>

definition newlines :: "sqlexer \<Rightarrow> nat" where
  "newlines s = length (filter (\<lambda>c. c = CHR 0x0A) (lx_currdata s # map lex_char (lx_input s)))"

definition lines :: "sqlexer \<Rightarrow> int" where
  "lines s = lx_currentline s + int (newlines s)"

definition reads_more :: "sqlexer \<Rightarrow> sqlexer \<Rightarrow> bool" where
  "reads_more s s' \<longleftrightarrow> left s' < left s \<and> lines s' = lines s \<and> lx_keywords s' = lx_keywords s \<and>
     lx_lasttokenline s' = lx_lasttokenline s"

definition reads_some :: "sqlexer \<Rightarrow> sqlexer \<Rightarrow> bool" where
  "reads_some s s' \<longleftrightarrow> left s' \<le> left s \<and> lines s' = lines s \<and> lx_keywords s' = lx_keywords s \<and>
     lx_lasttokenline s' = lx_lasttokenline s"

lemma reads_refl [simp]: "reads_some s s"
  by (simp add: reads_some_def)

lemma reads_trans:
  "reads_more s t \<Longrightarrow> reads_some t u \<Longrightarrow> reads_more s u"
  "reads_some s t \<Longrightarrow> reads_more t u \<Longrightarrow> reads_more s u"
  "reads_more s t \<Longrightarrow> reads_more t u \<Longrightarrow> reads_more s u"
  "reads_some s t \<Longrightarrow> reads_some t u \<Longrightarrow> reads_some s u"
  by (auto simp: reads_more_def reads_some_def)

lemma reads_mix: "reads_more s t \<Longrightarrow> reads_some t u \<Longrightarrow> reads_some s u"
  by (simp add: reads_more_def reads_some_def)

lemma reads_less: "reads_more s t \<Longrightarrow> reads_some s t"
  by (simp add: reads_more_def reads_some_def)

text \<open>Fields that do not count.\<close>

lemma reads_update [simp]:
  "reads_some u (s\<lparr>lx_longstr := a\<rparr>) = reads_some u s" "reads_more u (s\<lparr>lx_longstr := a\<rparr>) = reads_more u s"
  "reads_some u (s\<lparr>lx_svalue := a\<rparr>) = reads_some u s" "reads_more u (s\<lparr>lx_svalue := a\<rparr>) = reads_more u s"
  "reads_some u (s\<lparr>lx_nvalue := b\<rparr>) = reads_some u s" "reads_more u (s\<lparr>lx_nvalue := b\<rparr>) = reads_more u s"
  "reads_some u (s\<lparr>lx_fvalue := d\<rparr>) = reads_some u s" "reads_more u (s\<lparr>lx_fvalue := d\<rparr>) = reads_more u s"
  "reads_some u (s\<lparr>lx_currentcolumn := e\<rparr>) = reads_some u s"
  "reads_more u (s\<lparr>lx_currentcolumn := e\<rparr>) = reads_more u s"
  "reads_more u (s\<lparr>lx_prevtoken := e, lx_curtoken := f\<rparr>) = reads_more u s"
  "reads_some (s\<lparr>lx_longstr := a\<rparr>) u = reads_some s u" "reads_more (s\<lparr>lx_longstr := a\<rparr>) u = reads_more s u"
  "reads_more (s\<lparr>lx_prevtoken := e, lx_curtoken := f\<rparr>) u = reads_more s u"
  by (simp_all add: reads_more_def reads_some_def lines_def newlines_def left_def)

lemma reads_buffer [simp]:
  "reads_more (APPEND_CHAR c s) u = reads_more s u" "reads_more u (APPEND_CHAR c s) = reads_more u s"
  "reads_some (APPEND_CHAR c s) u = reads_some s u" "reads_some u (APPEND_CHAR c s) = reads_some u s"
  "reads_more (INIT_TEMP_STRING s) u = reads_more s u" "reads_more u (TERMINATE_BUFFER s) = reads_more u s"
  "reads_some u (TERMINATE_BUFFER s) = reads_some u s" "lx_currdata (INIT_TEMP_STRING s) = lx_currdata s"
  by (simp_all add: APPEND_CHAR_def INIT_TEMP_STRING_def TERMINATE_BUFFER_def)

lemma reads_from_buffer [simp]:
  "reads_more (APPEND_CHAR c s) = reads_more s" "reads_some (APPEND_CHAR c s) = reads_some s"
  "reads_more (INIT_TEMP_STRING s) = reads_more s"
  by (simp_all add: fun_eq_iff)

lemma lex_char_0: "lex_char 0 = CHR 0x00"
  by (simp add: lex_char_def char_of_def)

lemma NEXT_reads: "lx_currdata s \<noteq> EOB \<Longrightarrow> lx_currdata s \<noteq> CHR 0x0A \<Longrightarrow> wp K (reads_more s) (NEXT s)"
  by (cases "lx_input s")
    (auto simp: NEXT_def lex_next_def Let_def reads_more_def lines_def newlines_def left_def EOB_def lex_char_0)

text \<open>A line feed is counted by the caller.\<close>

lemma NEXT_newline:
  "lx_currdata s = CHR 0x0A \<Longrightarrow> wp K (\<lambda>s'. reads_more s (s'\<lparr>lx_currentline := lx_currentline s' + 1\<rparr>)) (NEXT s)"
  by (cases "lx_input s")
    (auto simp: NEXT_def lex_next_def Let_def reads_more_def lines_def newlines_def left_def EOB_def lex_char_0)

lemma NEXT_line_first:
  "lx_currdata s = CHR 0x0A \<Longrightarrow> wp K (reads_more s) (NEXT (s\<lparr>lx_currentline := lx_currentline s + 1, lx_prevtoken := a,
      lx_curtoken := b\<rparr>)) \<and> wp K (reads_more s) (NEXT (s\<lparr>lx_currentline := lx_currentline s + 1\<rparr>))"
  by (cases "lx_input s")
    (auto simp: NEXT_def lex_next_def Let_def reads_more_def lines_def newlines_def left_def EOB_def lex_char_0)

text \<open>The rules that carry the proofs below: read a character, then go on.\<close>

lemma wp_after:
  "reads_more s t \<Longrightarrow> wp K (reads_some t) m \<Longrightarrow> wp K (reads_more s) m"
  "reads_some s t \<Longrightarrow> wp K (reads_some t) m \<Longrightarrow> wp K (reads_some s) m"
  "reads_some s t \<Longrightarrow> wp K (reads_more t) m \<Longrightarrow> wp K (reads_more s) m"
  by (erule wp_mono, blast intro: reads_trans)+

lemma wp_on: "reads_more s t \<Longrightarrow> wp K (reads_more t) m \<Longrightarrow> wp K (reads_some s) m"
  by (erule wp_mono) (blast intro: reads_trans reads_less)

lemma wp_less: "wp K (reads_more s) m \<Longrightarrow> wp K (reads_some s) m"
  by (erule wp_mono) (rule reads_less)

lemma NEXT_then:
  assumes "lx_currdata s \<noteq> EOB" "lx_currdata s \<noteq> CHR 0x0A"
    "\<And>s1. NEXT s = Done s1 \<Longrightarrow> reads_more s s1 \<Longrightarrow> wp K Q (f s1)"
  shows "wp K Q (obind (NEXT s) f)"
  using NEXT_reads [OF assms(1,2), of K] assms(3) by (cases "NEXT s") auto

lemma NEXT_append_then:
  assumes "lx_currdata s \<noteq> EOB" "lx_currdata s \<noteq> CHR 0x0A"
    "\<And>s1. NEXT (APPEND_CHAR c s) = Done s1 \<Longrightarrow> reads_more s s1 \<Longrightarrow> wp K Q (f s1)"
  shows "wp K Q (obind (NEXT (APPEND_CHAR c s)) f)"
  by (rule NEXT_then) (use assms in simp_all)

lemma LexBlockComment_reads: "wp K (reads_more s) (LexBlockComment s)"
proof (induction s rule: LexBlockComment.induct)
  case (1 s)
  have star: "wp K (reads_more s) (obind (NEXT s) (\<lambda>s1. if lx_currdata s1 = CHR ''/'' then NEXT s1 else LexBlockComment s1))"
    if c: "lx_currdata s = CHR ''*''"
  proof (rule NEXT_then)
    fix s1 assume s1: "NEXT s = Done s1" "reads_more s s1"
    have "wp K (reads_some s1) (NEXT s1)" if "lx_currdata s1 = CHR ''/''"
      using that by (intro wp_less NEXT_reads) (auto simp: EOB_def)
    moreover have "wp K (reads_some s1) (LexBlockComment s1)" if "lx_currdata s1 \<noteq> CHR ''/''"
      using 1(1) [OF c s1(1) that] by (rule wp_less)
    ultimately show "wp K (reads_more s) (if lx_currdata s1 = CHR ''/'' then NEXT s1 else LexBlockComment s1)"
      using wp_after(1) [OF s1(2)] by simp
  qed (use c in \<open>simp_all add: EOB_def\<close>)
  have line: "wp K (reads_more s) (obind (NEXT (s\<lparr>lx_currentline := lx_currentline s + 1\<rparr>)) LexBlockComment)"
    if c: "lx_currdata s = CHR 0x0A"
  proof -
    let ?s = "s\<lparr>lx_currentline := lx_currentline s + 1\<rparr>"
    have n: "wp K (reads_more s) (NEXT ?s)" using NEXT_line_first [OF c, of K] by blast
    have "wp K (reads_some s1) (LexBlockComment s1)" if "NEXT ?s = Done s1" for s1
      by (intro wp_less 1(2)) (use c that in simp_all)
    with n show ?thesis by (cases "NEXT ?s") (auto intro: wp_after)
  qed
  have other: "wp K (reads_more s) (obind (NEXT s) LexBlockComment)"
    if c: "lx_currdata s \<noteq> CHR ''*''" "lx_currdata s \<noteq> CHR 0x0A" "lx_currdata s \<noteq> EOB"
    by (rule NEXT_then [OF c(3,2)]) (rule wp_after, assumption, rule wp_less, rule 1(3) [OF c])
  show ?case using star line other by (subst LexBlockComment.simps) simp
qed

lemma LexLineComment_reads:
  "lx_currdata s \<noteq> EOB \<Longrightarrow> lx_currdata s \<noteq> CHR 0x0A \<Longrightarrow> wp K (reads_more s) (LexLineComment s)"
proof (induction s rule: LexLineComment.induct)
  case (1 s)
  show ?case unfolding LexLineComment.simps [of s]
  proof (rule NEXT_then [OF 1(2,3)])
    fix s1 assume s1: "NEXT s = Done s1" "reads_more s s1"
    then show "wp K (reads_more s) (if lx_currdata s1 \<noteq> CHR 0x0A \<and> lx_currdata s1 \<noteq> EOB then LexLineComment s1 else Done s1)"
      using 1(1) [OF s1(1)] by (auto intro: wp_after wp_less)
  qed
qed

section \<open>Strings, numbers and identifiers read on\<close>

lemma not_newline: "scisodigit c \<Longrightarrow> c \<noteq> CHR 0x0A" "scisxdigit c \<Longrightarrow> c \<noteq> CHR 0x0A" "scisdigit c \<Longrightarrow> c \<noteq> CHR 0x0A"
    "scisalnum c \<Longrightarrow> c \<noteq> CHR 0x0A" "isexponent c \<Longrightarrow> c \<noteq> CHR 0x0A" "scisalpha c \<Longrightarrow> c \<noteq> CHR 0x0A"
    "map_of simple_escapes c = Some d \<Longrightarrow> c \<noteq> CHR 0x0A \<and> c \<noteq> EOB"
  by (auto simp: scisodigit_def scisxdigit_def scisdigit_def scisalnum_def scisalpha_def isexponent_def
      code_def simple_escapes_def EOB_def split: if_splits)

lemma hex_escape_reads: "wp K (\<lambda>(t, s'). reads_some s s') (hex_escape n temp s)"
proof (induction n arbitrary: temp s)
  case (Suc n)
  have "wp K (\<lambda>(t, s'). reads_some s s') (obind (NEXT s) (hex_escape n (temp @ [lx_currdata s])))"
    if c: "scisxdigit (lx_currdata s)"
  proof (rule NEXT_then [OF EOB_classD(2) [OF c] not_newline(2) [OF c]])
    fix s1 assume "reads_more s s1"
    then show "wp K (\<lambda>(t, s'). reads_some s s') (hex_escape n (temp @ [lx_currdata s]) s1)"
      by (rule_tac wp_mono [OF Suc.IH]) (auto intro: reads_mix reads_less)
  qed
  then show ?case by simp
qed simp

lemma read_escape_reads: "wp K (reads_some s) (read_escape s)"
proof (cases "lx_currdata s = CHR ''x''")
  case True
  have "wp K (reads_some s) (obind (NEXT s) (\<lambda>s1.
          if \<not> scisxdigit (lx_currdata s1) then Fail ''hexadecimal number expected''
          else obind (hex_escape maxdigits [] s1) (\<lambda>(temp, s2). Done (APPEND_CHAR (hex_char temp) s2))))"
  proof (rule NEXT_then)
    fix s1 assume "reads_more s s1"
    then have "wp K (reads_some s) (obind (hex_escape maxdigits [] s1) (\<lambda>(temp, s2). Done (APPEND_CHAR (hex_char temp) s2)))"
      by (intro wp_bind2 [OF hex_escape_reads]) (auto intro: reads_mix reads_less)
    then show "wp K (reads_some s) (if \<not> scisxdigit (lx_currdata s1) then Fail ''hexadecimal number expected''
          else obind (hex_escape maxdigits [] s1) (\<lambda>(temp, s2). Done (APPEND_CHAR (hex_char temp) s2)))" by simp
  qed (use True in \<open>simp_all add: EOB_def\<close>)
  with True show ?thesis by (simp add: read_escape_def)
next
  case False
  have "wp K (reads_some s) (NEXT (APPEND_CHAR c s))" if "map_of simple_escapes (lx_currdata s) = Some c" for c
    using NEXT_reads [of "APPEND_CHAR c s" K] not_newline(7) [OF that] by (simp add: wp_less)
  with False show ?thesis by (simp add: read_escape_def split: option.splits)
qed

lemma read_string_reads: "ndelim \<noteq> CHR 0x0A \<Longrightarrow> wp K (reads_more s) (read_string ndelim verbatim s)"
proof (induction ndelim verbatim s rule: read_string.induct)
  case (1 ndelim verbatim s)
  let ?c = "lx_currdata s" and ?rec = "read_string ndelim verbatim"
  have quote: "wp K (reads_more s) (obind (NEXT s) (\<lambda>s1. if verbatim \<and> lx_currdata s1 = CHR 0x22
      then obind (NEXT (APPEND_CHAR (lx_currdata s1) s1)) ?rec else Done s1))"
    if c: "?c = ndelim \<and> ndelim \<noteq> EOB"
  proof (rule NEXT_then)
    fix s1 assume s1: "NEXT s = Done s1" "reads_more s s1"
    have "wp K (reads_some s1) (obind (NEXT (APPEND_CHAR (lx_currdata s1) s1)) ?rec)"
      if v: "verbatim \<and> lx_currdata s1 = CHR 0x22"
    proof (rule NEXT_append_then)
      fix s2 assume "NEXT (APPEND_CHAR (lx_currdata s1) s1) = Done s2" "reads_more s1 s2"
      then show "wp K (reads_some s1) (?rec s2)" using 1(1) [OF c s1(1) v _ 1(6)] by (blast intro: wp_on)
    qed (use v in \<open>simp_all add: EOB_def\<close>)
    then show "wp K (reads_more s) (if verbatim \<and> lx_currdata s1 = CHR 0x22
        then obind (NEXT (APPEND_CHAR (lx_currdata s1) s1)) ?rec else Done s1)"
      using s1(2) by (auto intro: wp_after)
  qed (use c 1(6) in simp_all)
  have newline: "wp K (reads_more s) (obind (NEXT (APPEND_CHAR ?c s)) (\<lambda>s1. ?rec (s1\<lparr>lx_currentline := lx_currentline s1 + 1\<rparr>)))"
    if c: "\<not> (?c = ndelim \<and> ndelim \<noteq> EOB)" "?c \<noteq> EOB" "?c = CHR 0x0A" and v: "\<not> \<not> verbatim"
  proof -
    have n: "wp K (\<lambda>s'. reads_more s (s'\<lparr>lx_currentline := lx_currentline s' + 1\<rparr>)) (NEXT (APPEND_CHAR ?c s))"
      using NEXT_newline [of "APPEND_CHAR ?c s" K] c(3) by simp
    show ?thesis
    proof (cases "NEXT (APPEND_CHAR ?c s)")
      case (Done s1)
      then have "reads_more s (s1\<lparr>lx_currentline := lx_currentline s1 + 1\<rparr>)" using n by simp
      moreover have "wp K (reads_more (s1\<lparr>lx_currentline := lx_currentline s1 + 1\<rparr>)) (?rec (s1\<lparr>lx_currentline := lx_currentline s1 + 1\<rparr>))"
        by (rule 1(2) [OF c v Done 1(6)])
      ultimately show ?thesis using Done by (auto intro: wp_after wp_less)
    qed (use n in simp_all)
  qed
  have plain: "wp K (reads_more s) (obind (NEXT (APPEND_CHAR d s)) ?rec)"
    if "?c \<noteq> EOB" "?c \<noteq> CHR 0x0A" "\<And>s1. NEXT (APPEND_CHAR d s) = Done s1 \<Longrightarrow> wp K (reads_more s1) (?rec s1)" for d
    by (rule NEXT_append_then [OF that(1,2)]) (auto intro: wp_after wp_less that(3))
  have escape: "wp K (reads_more s) (obind (NEXT s) (\<lambda>s1. obind (read_escape s1) ?rec))"
    if c: "\<not> (?c = ndelim \<and> ndelim \<noteq> EOB)" "?c \<noteq> EOB" "?c \<noteq> CHR 0x0A" "?c = CHR 0x5C" "\<not> verbatim"
  proof (rule NEXT_then [OF c(2,3)])
    fix s1 assume s1: "NEXT s = Done s1" "reads_more s s1"
    have "wp K (reads_some s1) (obind (read_escape s1) ?rec)"
    proof (cases "read_escape s1")
      case (Done s2)
      with read_escape_reads [of K s1] have "reads_some s1 s2" by simp
      with 1(4) [OF c s1(1) Done 1(6)] Done show ?thesis by (auto intro: wp_after wp_less)
    qed (use read_escape_reads [of K s1] in simp_all)
    with s1(2) show "wp K (reads_more s) (obind (read_escape s1) ?rec)" by (rule wp_after)
  qed
  show ?case
  proof (cases "?c = ndelim \<and> ndelim \<noteq> EOB")
    case True
    with quote show ?thesis by (subst read_string.simps) simp
  next
    case nd: False
    show ?thesis
    proof (cases "?c = EOB \<or> ?c = CHR 0x0A")
      case True
      with newline nd show ?thesis by (subst read_string.simps) (auto simp: EOB_def)
    next
      case False
      then have p: "?c \<noteq> EOB" "?c \<noteq> CHR 0x0A" by simp_all
      have "wp K (reads_more s1) (?rec s1)" if "NEXT (APPEND_CHAR ?c s) = Done s1" "?c \<noteq> CHR 0x5C" for s1
        by (rule 1(5) [OF nd p that(2,1) 1(6)])
      moreover have "wp K (reads_more s1) (?rec s1)"
        if "NEXT (APPEND_CHAR (CHR 0x5C) s) = Done s1" "?c = CHR 0x5C" verbatim for s1
        by (rule 1(3) [OF nd p that(2,3,1) 1(6)])
      ultimately show ?thesis using nd p plain escape by (subst read_string.simps) auto
    qed
  qed
qed

lemma read_octal_reads: "wp K (reads_some s) (read_octal s)"
proof (induction s rule: read_octal.induct)
  case (1 s)
  have "wp K (reads_some s) (obind (NEXT (APPEND_CHAR (lx_currdata s) s)) read_octal)"
    if c: "scisodigit (lx_currdata s)"
    by (rule NEXT_append_then [OF EOB_classD(1) [OF c] not_newline(1) [OF c]])
      (rule wp_after(2), erule reads_less, rule 1 [OF c])
  then show ?case by (subst read_octal.simps) simp
qed

lemma read_hex_reads: "wp K (reads_some s) (read_hex s)"
proof (induction s rule: read_hex.induct)
  case (1 s)
  have "wp K (reads_some s) (obind (NEXT (APPEND_CHAR (lx_currdata s) s)) read_hex)"
    if c: "scisxdigit (lx_currdata s)"
    by (rule NEXT_append_then [OF EOB_classD(2) [OF c] not_newline(2) [OF c]])
      (rule wp_after(2), erule reads_less, rule 1 [OF c])
  then show ?case by (subst read_hex.simps) simp
qed

lemma read_exponent_reads:
  assumes "isexponent (lx_currdata s)"
  shows "wp K (\<lambda>s'. reads_more s s' \<and> scisdigit (lx_currdata s')) (read_exponent s)"
  unfolding read_exponent_def
proof (rule NEXT_append_then [OF EOB_classD(5) [OF assms] not_newline(5) [OF assms]])
  fix s1 assume s1: "reads_more s s1"
  have "wp K (reads_some s1) (if lx_currdata s1 = CHR ''+'' \<or> lx_currdata s1 = CHR ''-''
      then NEXT (APPEND_CHAR (lx_currdata s1) s1) else Done s1)"
    using NEXT_reads [of "APPEND_CHAR (lx_currdata s1) s1" K] by (auto simp: EOB_def intro: wp_less)
  then show "wp K (\<lambda>s'. reads_more s s' \<and> scisdigit (lx_currdata s'))
     (obind (if lx_currdata s1 = CHR ''+'' \<or> lx_currdata s1 = CHR ''-''
            then NEXT (APPEND_CHAR (lx_currdata s1) s1) else Done s1) (\<lambda>s2.
     if \<not> scisdigit (lx_currdata s2) then Fail ''exponent expected'' else Done s2))"
    by (rule wp_bind2) (use s1 in \<open>auto intro: reads_trans\<close>)
qed

lemma read_decimal_reads: "wp K (\<lambda>(t, s'). reads_some s s') (read_decimal type s)"
proof (induction type s rule: read_decimal.induct)
  case (1 type s)
  let ?c = "lx_currdata s"
  have mono: "wp K (\<lambda>(t, s'). reads_some s s') m" if "reads_more s s1" "wp K (\<lambda>(t, s'). reads_some s1 s') m" for s1 m
    using that(2) by (rule wp_mono) (use that(1) in \<open>auto intro: reads_mix\<close>)
  have ex: "wp K (\<lambda>(t, s'). reads_some s s') (obind (read_exponent s) (\<lambda>s1.
      obind (NEXT (APPEND_CHAR (lx_currdata s1) s1)) (read_decimal TSCIENTIFIC)))"
    if e: "isexponent ?c"
  proof (cases "read_exponent s")
    case (Done s1)
    with read_exponent_reads [OF e, of K] have s1: "reads_more s s1" "scisdigit (lx_currdata s1)" by simp_all
    have "wp K (\<lambda>(t, s'). reads_some s s') (obind (NEXT (APPEND_CHAR (lx_currdata s1) s1)) (read_decimal TSCIENTIFIC))"
    proof (rule NEXT_append_then [OF EOB_classD(3) [OF s1(2)] not_newline(3) [OF s1(2)]])
      fix s2 assume s2: "NEXT (APPEND_CHAR (lx_currdata s1) s1) = Done s2" "reads_more s1 s2"
      show "wp K (\<lambda>(t, s'). reads_some s s') (read_decimal TSCIENTIFIC s2)"
        by (rule mono [OF reads_trans(3) [OF s1(1) s2(2)]], rule 1(1) [OF refl _ e Done s2(1)]) (use e in simp)
    qed
    with Done show ?thesis by simp
  qed (use read_exponent_reads [OF e, of K] in simp_all)
  have dg: "wp K (\<lambda>(t, s'). reads_some s s') (obind (NEXT (APPEND_CHAR ?c s)) (read_decimal (if ?c = CHR ''.'' then TFLOAT else type)))"
    if c: "?c = CHR ''.'' \<or> scisdigit ?c \<or> isexponent ?c" "\<not> isexponent ?c"
  proof (rule NEXT_append_then)
    fix s1 assume "NEXT (APPEND_CHAR ?c s) = Done s1" "reads_more s s1"
    then show "wp K (\<lambda>(t, s'). reads_some s s') (read_decimal (if ?c = CHR ''.'' then TFLOAT else type) s1)"
      by (intro mono [of s1] 1(2) [OF refl c])
  qed (use c in \<open>auto dest: EOB_classD not_newline simp: EOB_def\<close>)
  have "wp K (\<lambda>(t, s'). reads_some s s') (if ?c = CHR ''.'' \<or> scisdigit ?c \<or> isexponent ?c then
        (if isexponent ?c
         then obind (read_exponent s) (\<lambda>s1.
                obind (NEXT (APPEND_CHAR (lx_currdata s1) s1)) (read_decimal TSCIENTIFIC))
         else obind (NEXT (APPEND_CHAR ?c s)) (read_decimal (if ?c = CHR ''.'' then TFLOAT else type)))
      else Done (type, s))"
    using ex dg by (intro if_split [where P = "wp K _", THEN iffD2] conjI impI) simp_all
  then show ?case by (subst read_decimal.simps) (simp only: Let_def)
qed

lemma ReadNumber_reads:
  assumes "scisdigit (lx_currdata s)"
  shows "wp K (\<lambda>(t, s'). reads_more s s' \<and> (t = TK_INTEGER \<or> t = TK_FLOAT)) (ReadNumber strtod s)"
  unfolding ReadNumber_def Let_def
proof (rule NEXT_then)
  fix s1 assume "reads_more (INIT_TEMP_STRING s) s1"
  then have s1: "reads_more s s1" by simp
  let ?d = "lx_currdata s"
  let ?m = "if ?d = CHR ''0'' \<and> (toupper (lx_currdata s1) = 88 \<or> scisodigit (lx_currdata s1)) then
               (if scisodigit (lx_currdata s1)
                then obind (read_octal s1) (\<lambda>s2.
                  if scisdigit (lx_currdata s2) then Fail ''invalid octal number'' else Done (TOCTAL, s2))
                else obind (NEXT s1) (\<lambda>s2. obind (read_hex s2) (\<lambda>s3.
                  if length (lx_longstr s3) > MAX_HEX_DIGITS then Fail ''too many digits for an Hex number''
                  else Done (THEX, s3))))
             else read_decimal TINT (APPEND_CHAR ?d s1)"
  have oct: "wp K (\<lambda>(t, s'). reads_some s1 s') (obind (read_octal s1) (\<lambda>s2.
      if scisdigit (lx_currdata s2) then Fail ''invalid octal number'' else Done (TOCTAL, s2)))"
    by (rule wp_bind2 [OF read_octal_reads]) simp
  have hex: "wp K (\<lambda>(t, s'). reads_some s1 s') (obind (NEXT s1) (\<lambda>s2. obind (read_hex s2) (\<lambda>s3.
      if length (lx_longstr s3) > MAX_HEX_DIGITS then Fail ''too many digits for an Hex number''
      else Done (THEX, s3))))" if x: "toupper (lx_currdata s1) = 88"
  proof (rule NEXT_then)
    fix s2 assume "reads_more s1 s2"
    then show "wp K (\<lambda>(t, s'). reads_some s1 s') (obind (read_hex s2) (\<lambda>s3.
      if length (lx_longstr s3) > MAX_HEX_DIGITS then Fail ''too many digits for an Hex number''
      else Done (THEX, s3)))"
      by (intro wp_bind2 [OF read_hex_reads]) (auto intro: reads_mix)
  qed (use x in \<open>auto simp: toupper_def code_def EOB_def\<close>)
  have "wp K (\<lambda>(t, s'). reads_some s1 s') ?m"
    using oct hex read_decimal_reads [of K "APPEND_CHAR ?d s1" TINT] by auto
  then show "wp K (\<lambda>(t, s'). reads_more s s' \<and> (t = TK_INTEGER \<or> t = TK_FLOAT)) (obind ?m (\<lambda>(type, s4).
      case type of
        TINT \<Rightarrow> Done (TK_INTEGER, (TERMINATE_BUFFER s4)\<lparr>lx_nvalue := LexInteger (lx_longstr (TERMINATE_BUFFER s4)) 0\<rparr>)
      | TFLOAT \<Rightarrow> Done (TK_FLOAT, (TERMINATE_BUFFER s4)\<lparr>lx_fvalue := strtod (lx_longstr (TERMINATE_BUFFER s4))\<rparr>)
      | THEX \<Rightarrow> Done (TK_INTEGER, (TERMINATE_BUFFER s4)\<lparr>lx_nvalue := LexHexadecimal (lx_longstr (TERMINATE_BUFFER s4)) 0\<rparr>)
      | TSCIENTIFIC \<Rightarrow> Done (TK_FLOAT, (TERMINATE_BUFFER s4)\<lparr>lx_fvalue := strtod (lx_longstr (TERMINATE_BUFFER s4))\<rparr>)
      | TOCTAL \<Rightarrow> Done (TK_INTEGER, (TERMINATE_BUFFER s4)\<lparr>lx_nvalue := LexOctal (lx_longstr (TERMINATE_BUFFER s4)) 0\<rparr>)))"
    by (rule wp_bind2) (use s1 in \<open>auto intro: reads_trans split: numtype.splits\<close>)
qed (use assms EOB_classD(3) not_newline(3) in auto)

lemma read_id_reads: "lx_currdata s \<noteq> EOB \<Longrightarrow> lx_currdata s \<noteq> CHR 0x0A \<Longrightarrow> wp K (reads_more s) (read_id s)"
proof (induction s rule: read_id.induct)
  case (1 s)
  have "wp K (reads_more s) (obind (NEXT (APPEND_CHAR (lx_currdata s) s)) (\<lambda>s1.
      if scisalnum (lx_currdata s1) \<or> lx_currdata s1 = CHR ''_'' then read_id s1 else Done s1))"
  proof (rule NEXT_append_then [OF 1(2,3)])
    fix s1 assume s1: "NEXT (APPEND_CHAR (lx_currdata s) s) = Done s1" "reads_more s s1"
    have "wp K (reads_more s1) (read_id s1)" if c: "scisalnum (lx_currdata s1) \<or> lx_currdata s1 = CHR ''_''"
      by (rule 1(1) [OF s1(1) c]) (use c in \<open>auto dest: EOB_classD not_newline simp: EOB_def\<close>)
    with s1(2) show "wp K (reads_more s) (if scisalnum (lx_currdata s1) \<or> lx_currdata s1 = CHR ''_'' then read_id s1 else Done s1)"
      by (auto intro: wp_after wp_less)
  qed
  then show ?case by (subst read_id.simps)
qed

text \<open>The table of keywords holds the list, a later entry before an earlier one of the same key.\<close>

definition keyword_of :: "string \<Rightarrow> int option" where
  "keyword_of name = map_of (rev keyword_list) name"

definition keywords_ok :: "sqtable \<Rightarrow> bool" where
  "keywords_ok kw \<longleftrightarrow> table_inv kw \<and>
     (\<forall>name. table_map kw (OString name) = map_option (\<lambda>i. OInteger (word_of_int i)) (keyword_of name))"

lemma keyword_codes: "keyword_of name = Some i \<Longrightarrow> 0 < i \<and> i < 1000"
proof -
  have "list_all (\<lambda>(k, i). 0 < i \<and> i < 1000) keyword_list"
    by (simp add: keyword_list_def token_codes)
  then show "keyword_of name = Some i \<Longrightarrow> 0 < i \<and> i < 1000"
    unfolding keyword_of_def by (auto dest!: map_of_SomeD simp: list_all_iff)
qed

lemma GetIDType_keyword:
  assumes "keywords_ok (lx_keywords s)"
  shows "GetIDType s name = Done (case keyword_of (c_string name) of Some i \<Rightarrow> i | None \<Rightarrow> TK_IDENTIFIER)"
proof -
  have g: "Table_Get (\<lambda>_. ONull) (lx_keywords s) (OString (c_string name)) =
      Some (map_option (realval (\<lambda>_. ONull)) (table_map (lx_keywords s) (OString (c_string name))))"
    using assms by (intro tbl.get_law) (simp add: keywords_ok_def)
  show ?thesis
  proof (cases "keyword_of (c_string name)")
    case None
    with assms g show ?thesis by (simp add: GetIDType_def keywords_ok_def)
  next
    case (Some i)
    then have "sint (word_of_int i :: sqint) = i"
      using keyword_codes [OF Some] by (simp add: sint_sbintrunc' signed_take_bit_int_eq_self)
    with Some assms g show ?thesis by (simp add: GetIDType_def keywords_ok_def)
  qed
qed

lemma ReadID_reads:
  assumes "lx_currdata s \<noteq> EOB" "lx_currdata s \<noteq> CHR 0x0A"
  shows "wp (keywords_ok (lx_keywords s)) (\<lambda>(t, s'). reads_more s s' \<and> (keywords_ok (lx_keywords s) \<longrightarrow> t \<noteq> 0)) (ReadID s)"
  unfolding ReadID_def Let_def
proof (rule wp_bind2)
  show "wp (keywords_ok (lx_keywords s)) (reads_more s) (read_id (INIT_TEMP_STRING s))"
    using read_id_reads [of "INIT_TEMP_STRING s" "keywords_ok (lx_keywords s)"] assms by simp
  fix s1 assume s1: "reads_more s s1"
  have kw: "lx_keywords (TERMINATE_BUFFER s1) = lx_keywords s"
    using s1 by (simp add: reads_more_def TERMINATE_BUFFER_def APPEND_CHAR_def)
  have "wp (keywords_ok (lx_keywords s)) (\<lambda>t. keywords_ok (lx_keywords s) \<longrightarrow> t \<noteq> 0)
      (GetIDType (TERMINATE_BUFFER s1) (lx_longstr (TERMINATE_BUFFER s1)))"
  proof (cases "keywords_ok (lx_keywords s)")
    case True
    then show ?thesis using keyword_codes unfolding kw [symmetric]
      by (subst GetIDType_keyword) (auto simp: token_codes split: option.splits)
  next
    case False
    then show ?thesis by (cases "GetIDType (TERMINATE_BUFFER s1) (lx_longstr (TERMINATE_BUFFER s1))") simp_all
  qed
  then show "wp (keywords_ok (lx_keywords s)) (\<lambda>(t, s'). reads_more s s' \<and> (keywords_ok (lx_keywords s) \<longrightarrow> t \<noteq> 0))
     (obind (GetIDType (TERMINATE_BUFFER s1) (lx_longstr (TERMINATE_BUFFER s1))) (\<lambda>res.
      Done (res, if res = TK_IDENTIFIER \<or> res = TK_CONSTRUCTOR
        then (TERMINATE_BUFFER s1)\<lparr>lx_svalue := lx_longstr (TERMINATE_BUFFER s1)\<rparr> else TERMINATE_BUFFER s1)))"
    by (rule wp_bind2) (use s1 in auto)
qed

lemma ReadString_reads:
  assumes "lx_currdata s \<noteq> EOB" "lx_currdata s \<noteq> CHR 0x0A" "ndelim \<noteq> CHR 0x0A"
  shows "wp K (\<lambda>(t, s'). reads_more s s' \<and> t \<in> {- 1, TK_INTEGER, TK_STRING_LITERAL}) (ReadString ndelim verbatim s)"
  unfolding ReadString_def
proof (rule NEXT_then)
  fix s1 assume "reads_more (INIT_TEMP_STRING s) s1"
  then have s1: "reads_more s s1" by simp
  have "wp K (\<lambda>(t, s'). reads_more s s' \<and> t \<in> {- 1, TK_INTEGER, TK_STRING_LITERAL})
     (obind (read_string ndelim verbatim s1) (\<lambda>s2.
         let s3 = TERMINATE_BUFFER s2; len = length (lx_longstr s3) - 1 in
         if ndelim = CHR 0x27 then
           (if len = 0 then Fail ''empty constant''
            else if len > 1 then Fail ''constant too long''
            else Done (TK_INTEGER, s3\<lparr>lx_nvalue := scast (of_char (lx_longstr s3 ! 0) :: 8 word)\<rparr>))
         else Done (TK_STRING_LITERAL, s3\<lparr>lx_svalue := lx_longstr s3\<rparr>)))"
    by (rule wp_bind2 [OF read_string_reads [OF assms(3)]])
      (use reads_trans(3) [OF s1] in \<open>simp add: Let_def\<close>)
  with s1 show "wp K (\<lambda>(t, s'). reads_more s s' \<and> t \<in> {- 1, TK_INTEGER, TK_STRING_LITERAL})
     (if lx_currdata s1 = EOB then Done (- 1, s1)
       else obind (read_string ndelim verbatim s1) (\<lambda>s2.
         let s3 = TERMINATE_BUFFER s2; len = length (lx_longstr s3) - 1 in
         if ndelim = CHR 0x27 then
           (if len = 0 then Fail ''empty constant''
            else if len > 1 then Fail ''constant too long''
            else Done (TK_INTEGER, s3\<lparr>lx_nvalue := scast (of_char (lx_longstr s3 ! 0) :: 8 word)\<rparr>))
         else Done (TK_STRING_LITERAL, s3\<lparr>lx_svalue := lx_longstr s3\<rparr>)))" by simp
qed (use assms in simp_all)

section \<open>A round reads on\<close>

definition round_reads :: "sqlexer \<Rightarrow> bool \<Rightarrow> round \<Rightarrow> bool" where
  "round_reads s K r = (case r of Continue s' \<Rightarrow> reads_more s s' | Token t s' \<Rightarrow> reads_more s s' \<and> (K \<longrightarrow> t \<noteq> 0))"

lemma round_reads_simps [simp]:
  "round_reads s K (Continue s') = reads_more s s'" "round_reads s K (Token t s') = (reads_more s s' \<and> (K \<longrightarrow> t \<noteq> 0))"
  by (simp_all add: round_reads_def)

lemma RETURN_reads: "reads_more s s1 \<Longrightarrow> (K \<longrightarrow> t \<noteq> 0) \<Longrightarrow> wp K (round_reads s K) (RETURN_TOKEN t s1)"
  by (simp add: RETURN_TOKEN_def)

lemma follows_reads:
  assumes "reads_more s s1" "t \<noteq> 0" "list_all (\<lambda>(c, t). t \<noteq> 0 \<and> c \<noteq> EOB \<and> c \<noteq> CHR 0x0A) cs"
  shows "wp K (round_reads s K) (follows cs t s1)"
  using assms(3)
proof (induction cs)
  case Nil
  with assms show ?case by (simp add: RETURN_reads)
next
  case (Cons p cs)
  obtain c u where p: "p = (c, u)" by fastforce
  have "wp K (round_reads s K) (obind (NEXT s1) (RETURN_TOKEN u))" if "lx_currdata s1 = c"
    by (rule NEXT_then) (use that Cons.prems p assms in \<open>auto intro: RETURN_reads reads_trans\<close>)
  with Cons p show ?case by simp
qed

lemma string_token_reads:
  assumes "reads_some s s1" "lx_currdata s1 = ndelim" "ndelim = CHR 0x22 \<or> ndelim = CHR 0x27"
  shows "wp K (round_reads s K) (string_token ndelim verbatim s1)"
  unfolding string_token_def
proof (rule wp_bind2 [OF ReadString_reads [of s1 ndelim K verbatim]])
  fix x assume "case x of (t, s') \<Rightarrow> reads_more s1 s' \<and> t \<in> {- 1, TK_INTEGER, TK_STRING_LITERAL}"
  then show "wp K (round_reads s K) (case x of (stype, s1) \<Rightarrow>
      if stype \<noteq> - 1 then RETURN_TOKEN stype s1 else Fail ''error parsing the string'')"
    using reads_trans(2) [OF assms(1)] by (auto simp: token_codes RETURN_TOKEN_def)
qed (use assms in \<open>auto simp: EOB_def\<close>)

lemma chr_nonzero: "c \<noteq> EOB \<Longrightarrow> chr c \<noteq> 0"
proof -
  have "of_char c = (of_char EOB :: nat) \<Longrightarrow> c = EOB" by (simp only: of_char_eq_iff)
  then show "c \<noteq> EOB \<Longrightarrow> chr c \<noteq> 0" by (auto simp: chr_def code_def EOB_def)
qed

lemma NEXT_follows:
  assumes "lx_currdata s \<noteq> EOB" "lx_currdata s \<noteq> CHR 0x0A" "reads_some u s" "t \<noteq> 0"
    "list_all (\<lambda>(c, t). t \<noteq> 0 \<and> c \<noteq> EOB \<and> c \<noteq> CHR 0x0A) cs"
  shows "wp K (round_reads u K) (obind (NEXT s) (follows cs t))"
  by (rule NEXT_then [OF assms(1,2)], rule follows_reads) (use assms(3-) reads_trans(2) in blast)+

lemma NEXT_RETURN:
  assumes "lx_currdata s \<noteq> EOB" "lx_currdata s \<noteq> CHR 0x0A" "reads_some u s" "t \<noteq> 0"
  shows "wp K (round_reads u K) (obind (NEXT s) (RETURN_TOKEN t))"
  by (rule NEXT_then [OF assms(1,2)], rule RETURN_reads) (use assms(3-) reads_trans(2) in blast)+

lemmas op_simps = token_codes EOB_def chr_def code_def

lemma lex_slash_reads: "lx_currdata s = CHR ''/'' \<Longrightarrow> wp K (round_reads s K) (lex_slash s)"
  unfolding lex_slash_def
proof (rule NEXT_then)
  fix s1 assume s1: "reads_more s s1"
  have block: "wp K (round_reads s K) (obind (NEXT s1) (\<lambda>s2. obind (LexBlockComment s2) (\<lambda>s3. Done (Continue s3))))"
    if "lx_currdata s1 = CHR ''*''"
    by (rule NEXT_then, use that in \<open>simp add: EOB_def\<close>, use that in simp,
        rule wp_bind2 [OF LexBlockComment_reads]) (use s1 reads_trans(3) in auto)
  have line: "wp K (round_reads s K) (obind (LexLineComment s1) (\<lambda>s2. Done (Continue s2)))"
    if "lx_currdata s1 = CHR ''/''"
    by (rule wp_bind2 [OF LexLineComment_reads]) (use that s1 reads_trans(3) in \<open>auto simp: EOB_def\<close>)
  have "wp K (round_reads s K) (follows [(CHR ''='', TK_DIVEQ), (CHR ''>'', TK_ATTR_CLOSE)] (chr (CHR ''/'')) s1)"
    by (rule follows_reads [OF s1]) (simp_all add: op_simps)
  with block line show "wp K (round_reads s K)
     (if lx_currdata s1 = CHR ''*'' then obind (NEXT s1) (\<lambda>s2. obind (LexBlockComment s2) (\<lambda>s3. Done (Continue s3)))
      else if lx_currdata s1 = CHR ''/'' then obind (LexLineComment s1) (\<lambda>s2. Done (Continue s2))
      else follows [(CHR ''='', TK_DIVEQ), (CHR ''>'', TK_ATTR_CLOSE)] (chr (CHR ''/'')) s1)" by simp
qed (simp_all add: EOB_def)

lemma lex_less_reads: "lx_currdata s = CHR ''<'' \<Longrightarrow> wp K (round_reads s K) (lex_less s)"
  unfolding lex_less_def
proof (rule NEXT_then)
  fix s1 assume s1: "reads_more s s1"
  have "wp K (round_reads s K) (obind (NEXT s1) (follows [(CHR ''>'', TK_3WAYSCMP)] TK_LE))"
    if "lx_currdata s1 = CHR ''=''"
    by (rule NEXT_follows) (use that s1 reads_less in \<open>simp_all add: op_simps\<close>)
  moreover have "wp K (round_reads s K) (follows [(CHR ''-'', TK_NEWSLOT), (CHR ''<'', TK_SHIFTL), (CHR ''/'', TK_ATTR_OPEN),
                     (CHR ''|'', TK_ATTR_OPEN)] (chr (CHR ''<'')) s1)"
    by (rule follows_reads [OF s1]) (simp_all add: op_simps)
  ultimately show "wp K (round_reads s K)
     (if lx_currdata s1 = CHR ''='' then obind (NEXT s1) (follows [(CHR ''>'', TK_3WAYSCMP)] TK_LE)
      else follows [(CHR ''-'', TK_NEWSLOT), (CHR ''<'', TK_SHIFTL), (CHR ''/'', TK_ATTR_OPEN),
                     (CHR ''|'', TK_ATTR_OPEN)] (chr (CHR ''<'')) s1)" by simp
qed (simp_all add: EOB_def)

lemma lex_greater_reads: "lx_currdata s = CHR ''>'' \<Longrightarrow> wp K (round_reads s K) (lex_greater s)"
  unfolding lex_greater_def
proof (rule NEXT_then)
  fix s1 assume s1: "reads_more s s1"
  have "wp K (round_reads s K) (obind (NEXT s1) (RETURN_TOKEN TK_GE))" if "lx_currdata s1 = CHR ''=''"
    by (rule NEXT_RETURN) (use that s1 reads_less in \<open>simp_all add: op_simps\<close>)
  moreover have "wp K (round_reads s K) (obind (NEXT s1) (follows [(CHR ''>'', TK_USHIFTR)] TK_SHIFTR))"
    if "lx_currdata s1 = CHR ''>''"
    by (rule NEXT_follows) (use that s1 reads_less in \<open>simp_all add: op_simps\<close>)
  moreover have "wp K (round_reads s K) (RETURN_TOKEN (chr (CHR ''>'')) s1)"
    by (rule RETURN_reads [OF s1]) (simp add: op_simps)
  ultimately show "wp K (round_reads s K)
     (if lx_currdata s1 = CHR ''='' then obind (NEXT s1) (RETURN_TOKEN TK_GE)
      else if lx_currdata s1 = CHR ''>'' then obind (NEXT s1) (follows [(CHR ''>'', TK_USHIFTR)] TK_SHIFTR)
      else RETURN_TOKEN (chr (CHR ''>'')) s1)" by simp
qed (simp_all add: EOB_def)

lemma lex_dot_reads: "lx_currdata s = CHR ''.'' \<Longrightarrow> wp K (round_reads s K) (lex_dot s)"
  unfolding lex_dot_def
proof (rule NEXT_then)
  fix s1 assume s1: "reads_more s s1"
  have 1: "wp K (round_reads s K) (RETURN_TOKEN (chr (CHR ''.'')) s1)"
    by (rule RETURN_reads [OF s1]) (simp add: op_simps)
  have 2: "wp K (round_reads s K) (obind (NEXT s1) (\<lambda>s2.
         if lx_currdata s2 \<noteq> CHR ''.'' then Fail (''invalid token '' @ [CHR 0x27] @ ''..'' @ [CHR 0x27])
         else obind (NEXT s2) (RETURN_TOKEN TK_VARPARAMS)))" if "lx_currdata s1 = CHR ''.''"
  proof (rule NEXT_then)
    fix s2 assume "reads_more s1 s2"
    with s1 have s2: "reads_some s s2" using reads_trans(3) reads_less by blast
    have "wp K (round_reads s K) (obind (NEXT s2) (RETURN_TOKEN TK_VARPARAMS))" if "lx_currdata s2 = CHR ''.''"
      by (rule NEXT_RETURN) (use that s2 in \<open>simp_all add: op_simps\<close>)
    then show "wp K (round_reads s K) (if lx_currdata s2 \<noteq> CHR ''.'' then Fail (''invalid token '' @ [CHR 0x27] @ ''..'' @ [CHR 0x27])
         else obind (NEXT s2) (RETURN_TOKEN TK_VARPARAMS))" by simp
  qed (use that in \<open>simp_all add: EOB_def\<close>)
  show "wp K (round_reads s K)
     (if lx_currdata s1 \<noteq> CHR ''.'' then RETURN_TOKEN (chr (CHR ''.'')) s1
       else obind (NEXT s1) (\<lambda>s2.
         if lx_currdata s2 \<noteq> CHR ''.'' then Fail (''invalid token '' @ [CHR 0x27] @ ''..'' @ [CHR 0x27])
         else obind (NEXT s2) (RETURN_TOKEN TK_VARPARAMS)))"
    using 1 2 by (cases "lx_currdata s1 = CHR ''.''") simp_all
qed (simp_all add: EOB_def)

lemma lex_default_reads:
  assumes "lx_currdata s \<noteq> EOB" "lx_currdata s \<noteq> CHR 0x0A"
  shows "wp (keywords_ok (lx_keywords s)) (round_reads s (keywords_ok (lx_keywords s))) (lex_default strtod s)"
proof -
  let ?K = "keywords_ok (lx_keywords s)"
  have "wp ?K (round_reads s ?K) (obind (ReadNumber strtod s) (\<lambda>(t, s1). RETURN_TOKEN t s1))"
    if "scisdigit (lx_currdata s)"
    by (rule wp_bind2 [OF ReadNumber_reads [OF that]]) (auto simp: RETURN_TOKEN_def token_codes)
  moreover have "wp ?K (round_reads s ?K) (obind (ReadID s) (\<lambda>(t, s1). RETURN_TOKEN t s1))"
    by (rule wp_bind2 [OF ReadID_reads [OF assms]]) (auto simp: RETURN_TOKEN_def)
  moreover have "wp ?K (round_reads s ?K) (obind (NEXT s) (RETURN_TOKEN (chr (lx_currdata s))))"
    by (rule NEXT_RETURN) (use assms chr_nonzero in simp_all)
  ultimately show ?thesis by (simp add: lex_default_def Let_def)
qed

definition op_ok :: "(char \<times> int) list \<Rightarrow> bool" where
  "op_ok = list_all (\<lambda>(c, t). t \<noteq> 0 \<and> c \<noteq> EOB \<and> c \<noteq> CHR 0x0A)"

lemma op_ok_simps: "op_ok []" "op_ok ((c, t) # cs) \<longleftrightarrow> t \<noteq> 0 \<and> c \<noteq> EOB \<and> c \<noteq> CHR 0x0A \<and> op_ok cs"
  by (simp_all add: op_ok_def)

lemma op_toks:
  "op_ok [(CHR ''='', TK_EQ)]" "op_ok [(CHR ''='', TK_NE)]" "op_ok [(CHR ''&'', TK_AND)]"
  "op_ok [(CHR ''>'', TK_ATTR_CLOSE), (CHR ''|'', TK_OR)]" "op_ok [(CHR '':'', TK_DOUBLE_COLON)]"
  "op_ok [(CHR ''='', TK_MULEQ)]" "op_ok [(CHR ''='', TK_MODEQ)]"
  "op_ok [(CHR ''='', TK_MINUSEQ), (CHR ''-'', TK_MINUSMINUS)]"
  "op_ok [(CHR ''='', TK_PLUSEQ), (CHR ''+'', TK_PLUSPLUS)]"
  by (simp_all add: op_ok_simps token_codes EOB_def)

lemma op_codes: "chr (CHR ''='') \<noteq> 0" "chr (CHR ''!'') \<noteq> 0" "chr (CHR ''&'') \<noteq> 0" "chr (CHR ''|'') \<noteq> 0"
    "chr (CHR '':'') \<noteq> 0" "chr (CHR ''*'') \<noteq> 0" "chr (CHR ''%'') \<noteq> 0" "chr (CHR ''-'') \<noteq> 0" "chr (CHR ''+'') \<noteq> 0"
  by (rule chr_nonzero, simp add: EOB_def)+

lemma if_wp: "(b \<Longrightarrow> wp K Q m) \<Longrightarrow> (\<not> b \<Longrightarrow> wp K Q m') \<Longrightarrow> wp K Q (if b then m else m')"
  by simp

lemma lex_round_reads:
  assumes "lx_currdata s \<noteq> EOB"
  shows "wp (keywords_ok (lx_keywords s)) (round_reads s (keywords_ok (lx_keywords s))) (lex_round strtod s)"
proof -
  let ?K = "keywords_ok (lx_keywords s)" and ?c = "lx_currdata s"
  have skip: "wp ?K (round_reads s ?K) (obind (NEXT s) (\<lambda>s1. Done (Continue s1)))" if "?c \<noteq> CHR 0x0A"
    by (rule NEXT_then) (use assms that in simp_all)
  have line: "wp ?K (round_reads s ?K) (obind (NEXT (s\<lparr>lx_currentline := lx_currentline s + 1, lx_prevtoken := lx_curtoken s,
                      lx_curtoken := 10\<rparr>)) (\<lambda>s1. Done (Continue (s1\<lparr>lx_currentcolumn := 1\<rparr>))))" if "?c = CHR 0x0A"
    using NEXT_line_first [OF that, of ?K] by (intro wp_bind2 [where R = "reads_more s"]) auto
  have comment: "wp ?K (round_reads s ?K) (obind (LexLineComment s) (\<lambda>s1. Done (Continue s1)))" if "?c \<noteq> CHR 0x0A"
    by (rule wp_bind2 [OF LexLineComment_reads [OF assms that]]) simp
  have op: "wp ?K (round_reads s ?K) (obind (NEXT s) (follows cs t))"
    if "?c \<noteq> CHR 0x0A" "t \<noteq> 0" "op_ok cs" for cs t
    by (rule NEXT_follows [OF assms that(1) reads_refl that(2) that(3) [unfolded op_ok_def]])
  have string: "wp ?K (round_reads s ?K) (string_token ?c False s)" if "?c = CHR 0x22 \<or> ?c = CHR 0x27"
    by (rule string_token_reads) (use that in simp_all)
  have verbatim: "wp ?K (round_reads s ?K) (obind (NEXT s) (\<lambda>s1. if lx_currdata s1 \<noteq> CHR 0x22 then RETURN_TOKEN (chr (CHR ''@'')) s1
                             else string_token (CHR 0x22) True s1))" if "?c \<noteq> CHR 0x0A"
    by (rule NEXT_then [OF assms that], rule if_wp, rule RETURN_reads, assumption, simp add: op_simps,
        rule string_token_reads) (auto intro: reads_less)
  have single: "wp ?K (round_reads s ?K) (obind (NEXT s) (RETURN_TOKEN (chr ?c)))" if "?c \<noteq> CHR 0x0A"
    by (rule NEXT_RETURN [OF assms that reads_refl chr_nonzero [OF assms]])
  have blank: "?c = CHR 0x09 \<or> ?c = CHR 0x0D \<or> ?c = CHR '' '' \<Longrightarrow> ?c \<noteq> CHR 0x0A" by (elim disjE) simp_all
  show ?thesis
    unfolding lex_round_def Let_def
    apply (rule if_wp, rule skip, erule blank)
    apply (rule if_wp, rule line, assumption)
    apply (rule if_wp, rule comment, assumption)
    apply (rule if_wp, rule lex_slash_reads, assumption)
    apply (rule if_wp, rule op, assumption, rule op_codes, rule op_toks)
    apply (rule if_wp, rule lex_less_reads, assumption)
    apply (rule if_wp, rule lex_greater_reads, assumption)
    apply (rule if_wp, rule op, assumption, rule op_codes, rule op_toks)
    apply (rule if_wp, rule verbatim, assumption)
    apply (rule if_wp, rule string, assumption)
    apply (rule if_wp, rule single, assumption)
    apply (rule if_wp, rule lex_dot_reads, assumption)
    apply (rule if_wp, rule op, assumption, rule op_codes, rule op_toks)+
    apply (rule lex_default_reads [OF assms], assumption)
    done
qed

section \<open>The loop\<close>

lemma lex_round_Continue:
  assumes "lx_currdata s \<noteq> EOB" "lex_round strtod s = Done (Continue s')"
  shows "left s' < left s"
  using lex_round_reads [OF assms(1), of strtod] assms(2) by (simp add: reads_more_def)

function lex_loop :: "(string \<Rightarrow> sqfloat) \<Rightarrow> sqlexer \<Rightarrow> (int \<times> sqlexer) outcome" where
  "lex_loop strtod s =
     (if lx_currdata s \<noteq> EOB then
        obind (lex_round strtod s) (\<lambda>r.
          case r of Continue s1 \<Rightarrow> lex_loop strtod s1 | Token t s1 \<Rightarrow> Done (t, s1))
      else Done (0, s))"
  by pat_completeness auto

termination
  by (relation "measure (\<lambda>(f, s). left s)") (auto dest: lex_round_Continue)

declare lex_loop.simps [simp del]

definition Lex :: "(string \<Rightarrow> sqfloat) \<Rightarrow> sqlexer \<Rightarrow> (int \<times> sqlexer) outcome" where
  "Lex strtod s =
     lex_loop strtod (s\<lparr>lx_lasttokenline := lx_currentline s, lx_lasttokencolumn := lx_currentcolumn s\<rparr>)"

text \<open>What a call gives: a token behind what it read, or 0 at the end of the source.\<close>

definition token_reads :: "sqlexer \<Rightarrow> int \<Rightarrow> sqlexer \<Rightarrow> bool" where
  "token_reads s t s' \<longleftrightarrow> (if t = 0 then lx_currdata s' = EOB \<and> reads_some s s' else reads_more s s')"

lemma lex_loop_reads:
  "keywords_ok (lx_keywords s) \<Longrightarrow> wp True (\<lambda>(t, s'). token_reads s t s') (lex_loop strtod s)"
proof (induction strtod s rule: lex_loop.induct)
  case (1 strtod s)
  show ?case
  proof (cases "lx_currdata s = EOB")
    case True
    then show ?thesis by (simp add: lex_loop.simps [of strtod s] token_reads_def)
  next
    case False
    have r: "wp True (round_reads s True) (lex_round strtod s)"
      using lex_round_reads [OF False, of strtod] 1(2) by simp
    have "wp True (\<lambda>(t, s'). token_reads s t s') (case r of Continue s1 \<Rightarrow> lex_loop strtod s1 | Token t s1 \<Rightarrow> Done (t, s1))"
      if "lex_round strtod s = Done r" for r
    proof (cases r)
      case (Continue s1)
      with r that have s1: "reads_more s s1" by simp
      then have "wp True (\<lambda>(t, s'). token_reads s1 t s') (lex_loop strtod s1)"
        using 1(1) [OF False that] Continue 1(2) by (simp add: reads_more_def)
      then show ?thesis unfolding Continue round.case
        by (rule wp_mono) (use s1 in \<open>auto simp: token_reads_def intro: reads_trans reads_mix\<close>)
    next
      case (Token t s1)
      with r that show ?thesis by (simp add: token_reads_def)
    qed
    with r False show ?thesis
      by (subst lex_loop.simps) (cases "lex_round strtod s"; simp)
  qed
qed

section \<open>The keywords of a new lexer\<close>

lemma keyword_table_ok: "\<exists>kw. keyword_table = Some kw \<and> keywords_ok kw"
proof -
  let ?kvs = "map (\<lambda>(key, id). (OString key, OInteger (word_of_int id))) keyword_list"
  have new: "table_inv (SQTable_new 26)" "table_map (SQTable_new 26) = Map.empty" using new_table [of 26] by auto
  have "list_all (\<lambda>kv. fst kv \<noteq> ONull) ?kvs" by (simp add: list_all_iff split_beta)
  from tbl.put_all_map [OF new(1) this] new(2) obtain kw where
    kw: "keyword_table = Some kw" "table_inv kw" "table_map kw = map_of (rev ?kvs)"
    by (auto simp: keyword_table_def)
  have "map_of (map (\<lambda>(key, id). (OString key, OInteger (word_of_int id))) kl) (OString name) =
      map_option (\<lambda>i. OInteger (word_of_int i)) (map_of kl name)" for kl and name :: string
    by (induction kl) auto
  from this [of "rev keyword_list"] kw show ?thesis
    by (intro exI [of _ kw]) (simp add: keywords_ok_def keyword_of_def rev_map)
qed

lemma lex_next_state:
  assumes "lex_next s = Done s'"
  shows "lx_keywords s' = lx_keywords s" "lx_currentline s' = lx_currentline s"
    "left s' \<le> length (lx_input s)"
  using assms by (cases "lx_input s"; auto simp: lex_next_def Let_def left_def split: if_splits)+

lemma lex_init_state:
  assumes "lex_init rg curtoken = Done s"
  shows "keywords_ok (lx_keywords s)" "left s \<le> length rg" "lx_currentline s = 1"
proof -
  obtain kw where kw: "keyword_table = Some kw" "keywords_ok kw" using keyword_table_ok by blast
  from assms lex_next_state show "keywords_ok (lx_keywords s)" "left s \<le> length rg" "lx_currentline s = 1"
    unfolding lex_init_def kw(1) of_option.simps obind.simps
    by (fastforce simp: kw(2))+
qed

section \<open>The text of a token\<close>

fun tok2str_loop :: "nat \<Rightarrow> sqtable \<Rightarrow> sqobj \<Rightarrow> int \<Rightarrow> string option outcome" where
  "tok2str_loop 0 kw itr tok = Undef"
| "tok2str_loop (Suc fuel) kw itr tok =
     (case Table_Next (\<lambda>_. ONull) kw False itr of
        None \<Rightarrow> Done None
      | Some (nitr, key, val) \<Rightarrow>
          (case val of
             OInteger v \<Rightarrow>
               (if sint v = tok then (case key of OString k \<Rightarrow> Done (Some k) | _ \<Rightarrow> Undef)
                else tok2str_loop fuel kw (OInteger (of_nat nitr)) tok)
           | _ \<Rightarrow> Undef))"

definition Tok2Str :: "sqlexer \<Rightarrow> int \<Rightarrow> string option outcome" where
  "Tok2Str s tok = tok2str_loop (Suc (numofnodes (lx_keywords s))) (lx_keywords s) ONull tok"

section \<open>A whole source\<close>

text \<open>The compiler calls \<open>Lex\<close> up to the token 0; the results are the tokens and their lines.\<close>

fun lex_all :: "nat \<Rightarrow> (string \<Rightarrow> sqfloat) \<Rightarrow> sqlexer \<Rightarrow> (int \<times> int) list outcome option" where
  "lex_all 0 strtod s = None"
| "lex_all (Suc fuel) strtod s =
     (case Lex strtod s of
        Fail e \<Rightarrow> Some (Fail e)
      | Undef \<Rightarrow> Some Undef
      | Done (t, s') \<Rightarrow>
          if t = 0 then Some (Done [])
          else map_option (\<lambda>m. obind m (\<lambda>ts. Done ((t, lx_currentline s') # ts))) (lex_all fuel strtod s'))"

end
