(* ===== verification/LexerProps.thy ===== *)
theory LexerProps
  imports Lexing
begin

text \<open>
  What the lexer gives: every call reads on and counts the lines, a source is read to its
  end, and literals are read back.
\<close>

section \<open>Reading on\<close>

lemma Lex_reads:
  assumes "keywords_ok (lx_keywords s)"
  shows "wp True (\<lambda>(t, s'). token_reads (s\<lparr>lx_lasttokenline := lx_currentline s,
      lx_lasttokencolumn := lx_currentcolumn s\<rparr>) t s') (Lex strtod s)"
  unfolding Lex_def by (rule lex_loop_reads) (simp add: assms)

lemma Lex_Done:
  assumes "keywords_ok (lx_keywords s)" "Lex strtod s = Done (t, s')"
  shows "lx_lasttokenline s' = lx_currentline s" "lines s' = lines s" "lx_keywords s' = lx_keywords s"
    "t = 0 \<Longrightarrow> lx_currdata s' = EOB" "t \<noteq> 0 \<Longrightarrow> left s' < left s"
  using Lex_reads [OF assms(1), of strtod] assms(2)
  by (auto simp: token_reads_def reads_more_def reads_some_def lines_def newlines_def left_def split: if_splits)

lemma Lex_not_Undef: "keywords_ok (lx_keywords s) \<Longrightarrow> Lex strtod s \<noteq> Undef"
  using Lex_reads [of s strtod] by auto

lemma lex_all_ends:
  "keywords_ok (lx_keywords s) \<Longrightarrow> left s < fuel \<Longrightarrow>
    (\<exists>e. lex_all fuel strtod s = Some (Fail e)) \<or>
    (\<exists>ts. lex_all fuel strtod s = Some (Done ts) \<and> length ts \<le> left s \<and>
      list_all (\<lambda>(t, l). t \<noteq> 0 \<and> l \<le> lines s) ts)"
proof (induction fuel arbitrary: s)
  case (Suc fuel)
  show ?case
  proof (cases "Lex strtod s")
    case (Done p)
    obtain t s' where p: "p = (t, s')" by fastforce
    note d = Lex_Done [OF Suc.prems(1) Done [unfolded p]]
    show ?thesis
    proof (cases "t = 0")
      case False
      with d Suc.prems have s': "keywords_ok (lx_keywords s')" "left s' < fuel" by simp_all
      have "lx_currentline s' \<le> lines s" using d(2) by (simp add: lines_def)
      with Suc.IH [OF s'] Done p d(2) d(5) [OF False] False show ?thesis by fastforce
    qed (use Done p in simp)
  qed (use Lex_not_Undef [OF Suc.prems(1)] in simp_all)
qed simp

definition source_lines :: "int list \<Rightarrow> nat" where
  "source_lines rg = length (filter (\<lambda>t. lex_char t = CHR 0x0A) rg)"

lemma lex_next_lines:
  assumes "lex_next s = Done s'" "lx_currdata s = EOB"
  shows "newlines s' = source_lines (lx_input s)"
  using assms by (cases "lx_input s")
    (auto simp: lex_next_def Let_def newlines_def source_lines_def EOB_def lex_char_0 filter_map comp_def split: if_splits)

lemma lex_init_lines:
  assumes "lex_init rg curtoken = Done s"
  shows "lines s = 1 + int (source_lines rg)"
proof -
  obtain kw where kw: "keyword_table = Some kw" using keyword_table_ok by blast
  let ?s0 = "\<lparr>lx_input = rg, lx_currdata = EOB, lx_curtoken = curtoken, lx_prevtoken = - 1,
       lx_reached_eof = False, lx_currentline = 1, lx_lasttokenline = 1, lx_currentcolumn = 0,
       lx_lasttokencolumn = 0, lx_svalue = [], lx_nvalue = 0, lx_fvalue = 0, lx_longstr = [],
       lx_keywords = kw\<rparr>"
  from assms have n: "lex_next ?s0 = Done s" unfolding lex_init_def kw of_option.simps obind.simps .
  from lex_next_lines [OF n] lex_init_state(3) [OF assms] show ?thesis by (simp add: lines_def)
qed

text \<open>
  C20. On any source the lexer comes to an end: starting from a new lexer, the calls of
  \<open>Lex\<close> up to the token 0 end within as many calls as the source has characters, with an
  error message or with tokens that are none of them 0, and never in an undefined access;
  the line given with a token is at most one more than the line feeds of the source.
  Each call that gives a token reads at least one character, and the current line plus
  the line feeds ahead is the same before and after it.
\<close>

theorem lexer_reads_the_source:
  "(lex_init rg curtoken = Done s \<longrightarrow>
      lines s = 1 + int (source_lines rg) \<and> keywords_ok (lx_keywords s) \<and>
      (\<exists>m. lex_all (Suc (length rg)) strtod s = Some m \<and> m \<noteq> Undef \<and>
        (\<forall>ts. m = Done ts \<longrightarrow> length ts \<le> length rg \<and>
          list_all (\<lambda>(t, l). t \<noteq> 0 \<and> l \<le> 1 + int (source_lines rg)) ts))) \<and>
   (keywords_ok (lx_keywords s) \<longrightarrow> Lex strtod s \<noteq> Undef \<and>
      (\<forall>t s'. Lex strtod s = Done (t, s') \<longrightarrow>
        keywords_ok (lx_keywords s') \<and> lines s' = lines s \<and> lx_lasttokenline s' = lx_currentline s \<and>
        (if t = 0 then lx_currdata s' = EOB else left s' < left s)))"
proof (intro conjI impI)
  assume i: "lex_init rg curtoken = Done s"
  note st = lex_init_state [OF i]
  show l: "lines s = 1 + int (source_lines rg)" by (rule lex_init_lines [OF i])
  show "keywords_ok (lx_keywords s)" by (rule st)
  show "\<exists>m. lex_all (Suc (length rg)) strtod s = Some m \<and> m \<noteq> Undef \<and>
      (\<forall>ts. m = Done ts \<longrightarrow> length ts \<le> length rg \<and>
        list_all (\<lambda>(t, l). t \<noteq> 0 \<and> l \<le> 1 + int (source_lines rg)) ts)"
    using lex_all_ends [OF st(1), of "Suc (length rg)" strtod] st(2) l by auto
next
  assume k: "keywords_ok (lx_keywords s)"
  show "Lex strtod s \<noteq> Undef" by (rule Lex_not_Undef [OF k])
  show "\<forall>t s'. Lex strtod s = Done (t, s') \<longrightarrow>
      keywords_ok (lx_keywords s') \<and> lines s' = lines s \<and> lx_lasttokenline s' = lx_currentline s \<and>
      (if t = 0 then lx_currdata s' = EOB else left s' < left s)"
    using Lex_Done [OF k] k by auto
qed

theorem lexer_reads_the_source_witness:
  "\<exists>s m. lex_init [10, 120] 0 = Done s \<and> lines s = 2 \<and>
     lex_all 3 (\<lambda>_. 0) s = Some m \<and> m \<noteq> Undef"
proof -
  obtain kw where kw: "keyword_table = Some kw" using keyword_table_ok by blast
  obtain s where s: "lex_init [10, 120] 0 = Done s"
    by (simp add: lex_init_def lex_next_def MAX_CHAR_def kw)
  have "source_lines [10, 120] = 1" by code_simp
  with lexer_reads_the_source [of "[10, 120]" 0 s "\<lambda>_. 0"] s show ?thesis
    by (auto simp: numeral_3_eq_3)
qed

section \<open>Reading what is ahead\<close>

text \<open>The characters ahead, up to the end of the source.\<close>

definition rest :: "sqlexer \<Rightarrow> string \<Rightarrow> bool" where
  "rest s cs \<longleftrightarrow> lx_currdata s = (case cs of [] \<Rightarrow> EOB | c # _ \<Rightarrow> c) \<and> lx_input s = map chr (tl cs) \<and> EOB \<notin> set cs"

lemma restD: "rest s (c # cs) \<Longrightarrow> lx_currdata s = c \<and> c \<noteq> EOB \<and> EOB \<notin> set cs"
  "rest s [] \<Longrightarrow> lx_currdata s = EOB"
  by (auto simp: rest_def)

lemma code_less: "code c < 256"
proof -
  have "(of_char c :: nat) mod 256 < 256" by simp
  then show ?thesis by (simp add: code_def del: mod_less_divisor)
qed

lemma lex_char_chr [simp]: "lex_char (chr c) = c"
proof -
  have "nat (chr c mod 256) = of_char c" using code_less [of c] by (simp add: chr_def code_def)
  then show ?thesis by (simp add: lex_char_def)
qed

text \<open>What reading keeps.\<close>

definition same :: "sqlexer \<Rightarrow> sqlexer \<Rightarrow> bool" where
  "same s s' \<longleftrightarrow> lx_longstr s' = lx_longstr s \<and> lx_keywords s' = lx_keywords s \<and>
     lx_currentline s' = lx_currentline s \<and> lx_svalue s' = lx_svalue s"

lemma same_refl [simp]: "same s s" and same_trans: "same s t \<Longrightarrow> same t u \<Longrightarrow> same s u"
  by (simp_all add: same_def)

lemma NEXT_rest:
  assumes "rest s (c # cs)"
  obtains s' where "NEXT s = Done s'" "rest s' cs" "same s s'"
proof (cases cs)
  case Nil
  with assms that show ?thesis
    by (simp add: NEXT_def lex_next_def MAX_CHAR_def rest_def same_def)
next
  case (Cons d ds)
  have "chr d \<noteq> 0" using assms Cons chr_nonzero by (auto simp: rest_def)
  moreover have "chr d \<le> MAX_CHAR" using code_less [of d] by (simp add: chr_def MAX_CHAR_def)
  ultimately show ?thesis using assms Cons that
    by (simp add: NEXT_def lex_next_def rest_def same_def)
qed

lemma rest_append [simp]: "rest (APPEND_CHAR d s) cs = rest s cs" "rest (s\<lparr>lx_longstr := l\<rparr>) cs = rest s cs"
  by (simp_all add: rest_def APPEND_CHAR_def)

lemma NEXT_append_rest:
  assumes "rest s (c # cs)"
  obtains s' where "NEXT (APPEND_CHAR d s) = Done s'" "rest s' cs" "same (APPEND_CHAR d s) s'"
  using NEXT_rest [of "APPEND_CHAR d s" c cs] assms by auto

lemma chr_range: "c \<noteq> EOB \<Longrightarrow> chr c \<noteq> 0 \<and> chr c \<le> MAX_CHAR"
  using code_less [of c] chr_nonzero [of c] by (simp add: chr_def MAX_CHAR_def)

lemma lex_init_rest:
  assumes "EOB \<notin> set (c # cs)"
  obtains s where "lex_init (map chr (c # cs)) 0 = Done s" "rest s (c # cs)"
proof -
  obtain kw where kw: "keyword_table = Some kw" using keyword_table_ok by blast
  from assms chr_range [of c] that show ?thesis
    by (auto simp: lex_init_def lex_next_def kw rest_def)
qed

section \<open>String literals\<close>

text \<open>A string as a program writes it, and a verbatim one.\<close>

definition escape :: "char \<Rightarrow> string" where
  "escape c =
     (if c = CHR 0x0A then [CHR 0x5C, CHR ''n''] else if c = EOB then [CHR 0x5C, CHR ''0'']
      else if c = CHR 0x22 then [CHR 0x5C, CHR 0x22] else if c = CHR 0x5C then [CHR 0x5C, CHR 0x5C] else [c])"

definition double_quotes :: "char \<Rightarrow> string" where
  "double_quotes c = (if c = CHR 0x22 then [CHR 0x22, CHR 0x22] else [c])"

lemma read_escape_rest:
  assumes "rest s (c # cs)" "map_of simple_escapes c = Some d"
  obtains s' where "read_escape s = Done s'" "rest s' cs" "same (APPEND_CHAR d s) s'"
proof -
  have "c \<noteq> CHR ''x''" using assms(2) by (auto simp: simple_escapes_def)
  with restD(1) [OF assms(1)] assms(2) NEXT_append_rest [OF assms(1), of d] that
  show ?thesis by (auto simp: read_escape_def)
qed

lemma read_string_end:
  assumes "rest s (CHR 0x22 # cs)" "v \<Longrightarrow> cs \<noteq> [] \<Longrightarrow> hd cs \<noteq> CHR 0x22"
  obtains s' where "read_string (CHR 0x22) v s = Done s'" "rest s' cs" "same s s'"
proof -
  obtain s' where s': "NEXT s = Done s'" "rest s' cs" "same s s'" by (rule NEXT_rest [OF assms(1)])
  have "\<not> (v \<and> lx_currdata s' = CHR 0x22)" using s'(2) assms(2)
    by (cases cs) (auto simp: rest_def EOB_def)
  with s' restD(1) [OF assms(1)] that show ?thesis
    by (subst (asm) read_string.simps) (auto simp: EOB_def)
qed

lemma read_string_literal:
  assumes "rest s (concat (map escape str) @ CHR 0x22 # cs)"
  shows "\<exists>s'. read_string (CHR 0x22) False s = Done s' \<and> rest s' cs \<and>
     same (s\<lparr>lx_longstr := lx_longstr s @ str\<rparr>) s'"
  using assms
proof (induction str arbitrary: s)
  case Nil
  then show ?case using read_string_end [of s cs False] by (auto simp: same_def)
next
  case (Cons c str)
  let ?tl = "concat (map escape str) @ CHR 0x22 # cs"
  have next_one: "\<exists>s'. read_string (CHR 0x22) False s = Done s' \<and> rest s' cs \<and>
     same (s\<lparr>lx_longstr := lx_longstr s @ c # str\<rparr>) s'"
    if "read_string (CHR 0x22) False s = read_string (CHR 0x22) False s1" "rest s1 ?tl" "same (APPEND_CHAR c s) s1" for s1
    using Cons.IH [OF that(2)] that by (auto simp: same_def APPEND_CHAR_def)
  have esc: ?case if e: "escape c = [CHR 0x5C, d]" "map_of simple_escapes d = Some c" for d
  proof -
    from Cons.prems e(1) have r: "rest s (CHR 0x5C # d # ?tl)" by simp
    obtain s0 where s0: "NEXT s = Done s0" "rest s0 (d # ?tl)" "same s s0" by (rule NEXT_rest [OF r])
    obtain s1 where s1: "read_escape s0 = Done s1" "rest s1 ?tl" "same (APPEND_CHAR c s0) s1"
      by (rule read_escape_rest [OF s0(2) e(2)])
    show ?thesis
    proof (rule next_one)
      show "read_string (CHR 0x22) False s = read_string (CHR 0x22) False s1"
        using restD(1) [OF r] s0 s1 by (subst read_string.simps) (simp add: EOB_def)
    qed (use s0 s1 in \<open>auto simp: same_def APPEND_CHAR_def\<close>)
  qed
  show ?case
  proof (cases "c = CHR 0x0A \<or> c = EOB \<or> c = CHR 0x22 \<or> c = CHR 0x5C")
    case True
    then obtain d where "escape c = [CHR 0x5C, d]" "map_of simple_escapes d = Some c"
      by (elim disjE) (simp_all add: escape_def EOB_def simple_escapes_def)
    then show ?thesis by (rule esc)
  next
    case False
    then have r: "rest s (c # ?tl)" using Cons.prems by (simp add: escape_def [of c])
    obtain s1 where s1: "NEXT (APPEND_CHAR c s) = Done s1" "rest s1 ?tl" "same (APPEND_CHAR c s) s1"
      by (rule NEXT_append_rest [OF r])
    show ?thesis
    proof (rule next_one)
      show "read_string (CHR 0x22) False s = read_string (CHR 0x22) False s1"
        using restD(1) [OF r] s1 False by (subst read_string.simps) (simp add: EOB_def)
    qed (use s1 in auto)
  qed
qed

lemma read_string_verbatim:
  assumes "rest s (concat (map double_quotes str) @ CHR 0x22 # cs)" "cs \<noteq> [] \<Longrightarrow> hd cs \<noteq> CHR 0x22"
  shows "\<exists>s'. read_string (CHR 0x22) True s = Done s' \<and> rest s' cs \<and> lx_keywords s' = lx_keywords s \<and>
     lx_longstr s' = lx_longstr s @ str \<and>
     lx_currentline s' = lx_currentline s + int (length (filter (\<lambda>c. c = CHR 0x0A) str))"
  using assms(1)
proof (induction str arbitrary: s)
  case Nil
  then obtain s' where "read_string (CHR 0x22) True s = Done s'" "rest s' cs" "same s s'"
    using read_string_end [of s cs True] assms(2) by auto
  then show ?case by (auto simp: same_def)
next
  case (Cons c str)
  let ?tl = "concat (map double_quotes str) @ CHR 0x22 # cs" and ?n = "if c = CHR 0x0A then 1 else 0"
  have next_one: ?case
    if "read_string (CHR 0x22) True s = read_string (CHR 0x22) True s1" "rest s1 ?tl"
      "lx_longstr s1 = lx_longstr s @ [c]" "lx_keywords s1 = lx_keywords s"
      "lx_currentline s1 = lx_currentline s + ?n" for s1
    using Cons.IH [OF that(2)] that by (auto split: if_splits)
  show ?case
  proof (cases "c = CHR 0x22")
    case True
    then have r: "rest s (CHR 0x22 # CHR 0x22 # ?tl)" using Cons.prems by (simp add: double_quotes_def [of "CHR 0x22"])
    obtain s0 where s0: "NEXT s = Done s0" "rest s0 (CHR 0x22 # ?tl)" "same s s0" by (rule NEXT_rest [OF r])
    obtain s1 where s1: "NEXT (APPEND_CHAR (CHR 0x22) s0) = Done s1" "rest s1 ?tl" "same (APPEND_CHAR (CHR 0x22) s0) s1"
      by (rule NEXT_append_rest [OF s0(2)])
    show ?thesis
    proof (rule next_one)
      show "read_string (CHR 0x22) True s = read_string (CHR 0x22) True s1"
        using restD(1) [OF r] restD(1) [OF s0(2)] s0 s1 by (subst read_string.simps) (simp add: EOB_def)
    qed (use s0 s1 True in \<open>auto simp: same_def APPEND_CHAR_def\<close>)
  next
    case False
    then have r: "rest s (c # ?tl)" using Cons.prems by (simp add: double_quotes_def [of c])
    obtain s1 where s1: "NEXT (APPEND_CHAR c s) = Done s1" "rest s1 ?tl" "same (APPEND_CHAR c s) s1"
      by (rule NEXT_append_rest [OF r])
    let ?s = "if c = CHR 0x0A then s1\<lparr>lx_currentline := lx_currentline s1 + 1\<rparr> else s1"
    show ?thesis
    proof (rule next_one)
      show "read_string (CHR 0x22) True s = read_string (CHR 0x22) True ?s"
        using restD(1) [OF r] s1 False by (subst read_string.simps) (auto simp: EOB_def)
    qed (use s1 in \<open>auto simp: same_def APPEND_CHAR_def rest_def\<close>)
  qed
qed

lemma lex_round_token:
  assumes "lx_currdata s \<noteq> EOB" "lex_round strtod s = Done (Token t s')"
  shows "lex_loop strtod s = Done (t, s')"
  using assms by (subst lex_loop.simps) simp

lemma string_token_literal:
  assumes "read_string (CHR 0x22) v s1 = Done s2" "NEXT (INIT_TEMP_STRING s) = Done s1" "lx_currdata s1 \<noteq> EOB"
  shows "string_token (CHR 0x22) v s = RETURN_TOKEN TK_STRING_LITERAL ((TERMINATE_BUFFER s2)\<lparr>lx_svalue := lx_longstr s2 @ [CHR 0x00]\<rparr>)"
  using assms by (simp add: string_token_def ReadString_def Let_def TK_STRING_LITERAL_def TERMINATE_BUFFER_def APPEND_CHAR_def)

lemma lex_round_string:
  "lx_currdata s = CHR 0x22 \<Longrightarrow> lex_round strtod s = string_token (CHR 0x22) False s"
  "lx_currdata s = CHR ''@'' \<Longrightarrow> NEXT s = Done s1 \<Longrightarrow> lx_currdata s1 = CHR 0x22 \<Longrightarrow>
     lex_round strtod s = string_token (CHR 0x22) True s1"
  by (simp_all add: lex_round_def)

lemma INIT_rest:
  assumes "rest s (c # cs)"
  obtains s' where "NEXT (INIT_TEMP_STRING s) = Done s'" "rest s' cs" "lx_longstr s' = []"
    "lx_currentline s' = lx_currentline s" "lx_keywords s' = lx_keywords s"
proof -
  from assms have "rest (INIT_TEMP_STRING s) (c # cs)" by (simp add: INIT_TEMP_STRING_def)
  from NEXT_rest [OF this] that show ?thesis by (auto simp: same_def INIT_TEMP_STRING_def)
qed

lemma rest_fields [simp]:
  "rest (s\<lparr>lx_svalue := v\<rparr>) cs = rest s cs" "rest (s\<lparr>lx_prevtoken := a, lx_curtoken := b\<rparr>) cs = rest s cs"
  "rest (s\<lparr>lx_lasttokenline := a, lx_lasttokencolumn := b\<rparr>) cs = rest s cs"
  "rest (s\<lparr>lx_nvalue := n\<rparr>) cs = rest s cs" "rest (TERMINATE_BUFFER s) cs = rest s cs"
  by (simp_all add: rest_def TERMINATE_BUFFER_def APPEND_CHAR_def)

lemma rest_nonempty: "rest s cs \<Longrightarrow> cs \<noteq> [] \<Longrightarrow> lx_currdata s \<noteq> EOB"
  by (auto simp: rest_def split: list.splits)

definition reads_literal :: "(string \<Rightarrow> sqfloat) \<Rightarrow> sqlexer \<Rightarrow> string \<Rightarrow> string \<Rightarrow> nat \<Rightarrow> bool" where
  "reads_literal strtod s str cs n \<longleftrightarrow>
     (\<exists>s'. Lex strtod s = Done (TK_STRING_LITERAL, s') \<and> lx_svalue s' = str @ [CHR 0x00] \<and> rest s' cs \<and>
        lx_currentline s' = lx_currentline s + int n)"

lemma literal_read:
  assumes "lex_round strtod (s\<lparr>lx_lasttokenline := a, lx_lasttokencolumn := b\<rparr>) =
      RETURN_TOKEN TK_STRING_LITERAL ((TERMINATE_BUFFER s2)\<lparr>lx_svalue := lx_longstr s2 @ [CHR 0x00]\<rparr>)"
    "a = lx_currentline s" "b = lx_currentcolumn s"
    "lx_currdata s \<noteq> EOB" "lx_longstr s2 = str" "rest s2 cs" "lx_currentline s2 = lx_currentline s + int n"
  shows "reads_literal strtod s str cs n"
proof -
  let ?o = "(TERMINATE_BUFFER s2)\<lparr>lx_svalue := lx_longstr s2 @ [CHR 0x00]\<rparr>"
  let ?o' = "?o\<lparr>lx_prevtoken := lx_curtoken ?o, lx_curtoken := TK_STRING_LITERAL\<rparr>"
  have "Lex strtod s = Done (TK_STRING_LITERAL, ?o')"
    unfolding Lex_def assms(2,3) [symmetric]
    by (rule lex_round_token) (use assms(1,4) in \<open>simp_all add: RETURN_TOKEN_def\<close>)
  moreover have "rest ?o' cs" by (simp add: assms(6))
  moreover have "lx_currentline ?o' = lx_currentline s + int n" by (simp add: TERMINATE_BUFFER_def APPEND_CHAR_def assms(7))
  ultimately show ?thesis unfolding reads_literal_def by (intro exI [of _ ?o'] conjI) (simp_all add: assms(5))
qed

lemma quoted_literal_read:
  assumes r: "rest s (CHR 0x22 # concat (map escape str) @ CHR 0x22 # cs)"
  shows "reads_literal strtod s str cs 0"
proof -
  let ?s = "s\<lparr>lx_lasttokenline := lx_currentline s, lx_lasttokencolumn := lx_currentcolumn s\<rparr>"
  from r have r': "rest ?s (CHR 0x22 # concat (map escape str) @ CHR 0x22 # cs)" by (simp only: rest_fields)
  obtain s1 where s1: "NEXT (INIT_TEMP_STRING ?s) = Done s1" "rest s1 (concat (map escape str) @ CHR 0x22 # cs)"
    "lx_longstr s1 = []" "lx_currentline s1 = lx_currentline ?s"
    by (rule INIT_rest [OF r'])
  obtain s2 where s2: "read_string (CHR 0x22) False s1 = Done s2" "rest s2 cs" 
      "same (s1\<lparr>lx_longstr := lx_longstr s1 @ str\<rparr>) s2"
    using read_string_literal [OF s1(2)] by blast
  have "lx_currdata s1 \<noteq> EOB" by (rule rest_nonempty [OF s1(2)]) simp
  from string_token_literal [OF s2(1) s1(1) this] restD(1) [OF r'] have
    round: "lex_round strtod ?s = RETURN_TOKEN TK_STRING_LITERAL ((TERMINATE_BUFFER s2)\<lparr>lx_svalue := lx_longstr s2 @ [CHR 0x00]\<rparr>)"
    by (subst lex_round_string(1)) simp_all
  from s2(3) s1(3,4) have "lx_longstr s2 = str" "lx_currentline s2 = lx_currentline s + int 0"
    by (simp_all add: same_def)
  from literal_read [OF round refl refl _ this(1) s2(2) this(2)] rest_nonempty [OF r] show ?thesis by simp
qed

lemma verbatim_literal_read:
  assumes r: "rest s (CHR ''@'' # CHR 0x22 # concat (map double_quotes str) @ CHR 0x22 # cs)"
    and q: "cs \<noteq> [] \<Longrightarrow> hd cs \<noteq> CHR 0x22"
  shows "reads_literal strtod s str cs (length (filter (\<lambda>c. c = CHR 0x0A) str))"
proof -
  let ?s = "s\<lparr>lx_lasttokenline := lx_currentline s, lx_lasttokencolumn := lx_currentcolumn s\<rparr>"
  from r have r': "rest ?s (CHR ''@'' # CHR 0x22 # concat (map double_quotes str) @ CHR 0x22 # cs)" by (simp only: rest_fields)
  obtain s0 where s0: "NEXT ?s = Done s0" "rest s0 (CHR 0x22 # concat (map double_quotes str) @ CHR 0x22 # cs)" "same ?s s0"
    by (rule NEXT_rest [OF r'])
  obtain s1 where s1: "NEXT (INIT_TEMP_STRING s0) = Done s1" "rest s1 (concat (map double_quotes str) @ CHR 0x22 # cs)"
    "lx_longstr s1 = []" "lx_currentline s1 = lx_currentline s0"
    by (rule INIT_rest [OF s0(2)])
  obtain s2 where s2: "read_string (CHR 0x22) True s1 = Done s2" "rest s2 cs" "lx_longstr s2 = lx_longstr s1 @ str"
      "lx_currentline s2 = lx_currentline s1 + int (length (filter (\<lambda>c. c = CHR 0x0A) str))"
    using read_string_verbatim [OF s1(2) q] by blast
  have "lx_currdata s1 \<noteq> EOB" by (rule rest_nonempty [OF s1(2)]) simp
  from string_token_literal [OF s2(1) s1(1) this] restD(1) [OF r'] restD(1) [OF s0(2)] s0(1) have
    round: "lex_round strtod ?s = RETURN_TOKEN TK_STRING_LITERAL ((TERMINATE_BUFFER s2)\<lparr>lx_svalue := lx_longstr s2 @ [CHR 0x00]\<rparr>)"
    by (subst lex_round_string(2)) simp_all
  have "lx_longstr s2 = str" "lx_currentline s2 = lx_currentline s + int (length (filter (\<lambda>c. c = CHR 0x0A) str))"
    using s2(3,4) s1(3,4) s0(3) by (simp_all add: same_def)
  from literal_read [OF round refl refl _ this(1) s2(2) this(2)] rest_nonempty [OF r] show ?thesis by simp
qed

text \<open>
  C21. String literals are read back.  Whatever a string holds, the literal that writes
  it between quotes, with line feed, zero, quote and backslash escaped, gives the token of a
  string literal with that string as its text; and the verbatim literal, which doubles the
  quotes and leaves the rest as it is, gives it too (unless it holds a zero, which ends
  the source, or another quote follows), counting the lines it spans.  What follows the
  literal is still ahead.
\<close>

theorem string_literal_round_trip:
  "(rest s (CHR 0x22 # concat (map escape str) @ CHR 0x22 # cs) \<longrightarrow> reads_literal strtod s str cs 0) \<and>
   (rest s (CHR ''@'' # CHR 0x22 # concat (map double_quotes str) @ CHR 0x22 # cs) \<and>
      (cs \<noteq> [] \<longrightarrow> hd cs \<noteq> CHR 0x22) \<longrightarrow>
      reads_literal strtod s str cs (length (filter (\<lambda>c. c = CHR 0x0A) str)))"
  using quoted_literal_read verbatim_literal_read by blast

theorem string_literal_round_trip_witness:
  "\<exists>s. reads_literal (\<lambda>_. 0) s [CHR ''a'', EOB, CHR 0x22, CHR 0x0A] [] 0"
proof -
  let ?cs = "concat (map escape [CHR ''a'', EOB, CHR 0x22, CHR 0x0A]) @ [CHR 0x22]"
  have "EOB \<notin> set (CHR 0x22 # ?cs)" by code_simp
  then obtain s where "rest s (CHR 0x22 # ?cs)" by (rule lex_init_rest)
  then show ?thesis using string_literal_round_trip [of s "[CHR ''a'', EOB, CHR 0x22, CHR 0x0A]" "[]" "\<lambda>_. 0"] by auto
qed

section \<open>Integer literals\<close>

text \<open>The decimal digits of a number.\<close>

definition digit_char :: "nat \<Rightarrow> char" where
  "digit_char d = char_of (48 + d)"

fun decimal :: "nat \<Rightarrow> string" where
  "decimal n = (if n < 10 then [digit_char n] else decimal (n div 10) @ [digit_char (n mod 10)])"

declare decimal.simps [simp del]

lemma code_digit: "d < 10 \<Longrightarrow> code (digit_char d) = 48 + d"
  by (simp add: code_def digit_char_def)

lemma digit_class:
  assumes "d < 10"
  shows "scisdigit (digit_char d)" "digit_char d \<noteq> CHR ''.''" "\<not> isexponent (digit_char d)" "digit_char d \<noteq> CHR 0x00"
proof -
  have "code (digit_char d) = 48 + d" by (rule code_digit [OF assms])
  then show "scisdigit (digit_char d)" "digit_char d \<noteq> CHR ''.''" "\<not> isexponent (digit_char d)" "digit_char d \<noteq> CHR 0x00"
    using assms by (auto simp: scisdigit_def isexponent_def code_def)
qed

lemma decimal_digits: "list_all (\<lambda>c. \<exists>d < 10. c = digit_char d) (decimal n)"
proof (induction n rule: decimal.induct)
  case (1 n)
  have "\<exists>d < 10. digit_char (n mod 10) = digit_char d" by (intro exI [of _ "n mod 10"]) simp
  then show ?case using 1 by (subst decimal.simps) auto
qed

lemma decimal_class: "c \<in> set (decimal n) \<Longrightarrow> scisdigit c \<and> c \<noteq> CHR ''.'' \<and> \<not> isexponent c \<and> c \<noteq> CHR 0x00"
proof -
  assume "c \<in> set (decimal n)"
  with decimal_digits [of n] obtain d where d: "d < 10" "c = digit_char d" by (auto simp: list_all_iff)
  from digit_class [OF d(1)] show ?thesis unfolding d(2) by blast
qed

lemma decimal_no_EOB: "EOB \<notin> set (decimal n)"
  using decimal_class unfolding EOB_def by blast

lemma decimal_nonempty: "decimal n \<noteq> []"
  by (subst decimal.simps) simp

lemma decimal_zero: "hd (decimal n) = CHR ''0'' \<longleftrightarrow> n = 0"
proof (induction n rule: decimal.induct)
  case (1 n)
  have d: "digit_char d = CHR ''0'' \<longleftrightarrow> d = 0" if "d < 10" for d
  proof
    assume "digit_char d = CHR ''0''"
    with code_digit [OF that] show "d = 0" by (simp add: code_def)
  next
    have "digit_char 0 = CHR ''0''" by code_simp
    then show "d = 0 \<Longrightarrow> digit_char d = CHR ''0''" by simp
  qed
  show ?case
  proof (cases "n < 10")
    case True
    with d show ?thesis by (subst decimal.simps) simp
  next
    case False
    with 1 decimal_nonempty [of "n div 10"] show ?thesis by (subst decimal.simps) auto
  qed
qed

lemma LexInteger_append: "EOB \<notin> set cs \<Longrightarrow> LexInteger (cs @ ds) r = LexInteger ds (LexInteger cs r)"
  by (induction cs arbitrary: r) (auto simp: EOB_def)

lemma LexInteger_decimal: "LexInteger (decimal n @ [CHR 0x00]) 0 = of_nat n"
proof -
  have "LexInteger (decimal n) 0 = of_nat n"
  proof (induction n rule: decimal.induct)
    case (1 n)
    show ?case
    proof (cases "n < 10")
      case True
      then show ?thesis
        using code_digit [OF True] digit_class(4) [OF True] by (subst decimal.simps) simp
    next
      case False
      have "EOB \<notin> set (decimal (n div 10))"
        by (rule decimal_no_EOB)
      moreover have "n mod 10 < 10" by simp
      ultimately have "LexInteger (decimal n) 0 = (of_nat (n div 10) * 10 + of_nat (n mod 10) :: sqint)"
        using 1(1) [OF False] False code_digit [of "n mod 10"] digit_class(4) [of "n mod 10"]
        by (subst decimal.simps) (simp add: LexInteger_append)
      also have "\<dots> = of_nat (n div 10 * 10 + n mod 10)" by (simp only: of_nat_add of_nat_mult of_nat_numeral)
      finally show ?thesis by simp
    qed
  qed
  moreover have "EOB \<notin> set (decimal n)"
    by (rule decimal_no_EOB)
  ultimately show ?thesis by (simp add: LexInteger_append)
qed

text \<open>What may stand behind an integer literal.\<close>

definition number_ends :: "string \<Rightarrow> bool" where
  "number_ends cs \<longleftrightarrow> cs = [] \<or> \<not> (scisdigit (hd cs) \<or> hd cs = CHR ''.'' \<or> isexponent (hd cs) \<or> toupper (hd cs) = 88)"

lemma number_endsD:
  assumes "number_ends cs" "rest s cs"
  shows "\<not> scisdigit (lx_currdata s)" "lx_currdata s \<noteq> CHR ''.''" "\<not> isexponent (lx_currdata s)"
    "toupper (lx_currdata s) \<noteq> 88" "\<not> scisodigit (lx_currdata s)"
proof -
  have "toupper EOB \<noteq> 88" by (simp add: toupper_def code_def EOB_def)
  moreover have "scisodigit c \<Longrightarrow> scisdigit c" for c by (simp add: scisodigit_def scisdigit_def)
  ultimately show "\<not> scisdigit (lx_currdata s)" "lx_currdata s \<noteq> CHR ''.''" "\<not> isexponent (lx_currdata s)"
    "toupper (lx_currdata s) \<noteq> 88" "\<not> scisodigit (lx_currdata s)"
    using assms by (cases cs; auto simp: number_ends_def rest_def)+
qed

lemma read_decimal_rest:
  assumes "rest s (ds @ cs)" "number_ends cs"
    "list_all (\<lambda>c. scisdigit c \<and> c \<noteq> CHR ''.'' \<and> \<not> isexponent c) ds"
  shows "\<exists>s'. read_decimal TINT s = Done (TINT, s') \<and> rest s' cs \<and> same (s\<lparr>lx_longstr := lx_longstr s @ ds\<rparr>) s'"
  using assms(1,3)
proof (induction ds arbitrary: s)
  case Nil
  then show ?case using number_endsD [OF assms(2)] by (subst read_decimal.simps) (simp add: Let_def same_def)
next
  case (Cons d ds)
  from Cons.prems(1) have r: "rest s (d # ds @ cs)" by simp
  obtain s1 where s1: "NEXT (APPEND_CHAR d s) = Done s1" "rest s1 (ds @ cs)" "same (APPEND_CHAR d s) s1"
    by (rule NEXT_append_rest [OF r])
  have "read_decimal TINT s = read_decimal TINT s1"
    using restD(1) [OF r] Cons.prems(2) s1(1) by (subst read_decimal.simps) (simp add: Let_def)
  with Cons.IH [OF s1(2)] Cons.prems(2) s1(3) show ?case by (auto simp: same_def APPEND_CHAR_def)
qed

lemma ReadNumber_decimal:
  assumes r: "rest s (decimal n @ cs)" and e: "number_ends cs"
  shows "\<exists>s'. ReadNumber strtod s = Done (TK_INTEGER, s') \<and> lx_nvalue s' = of_nat n \<and> rest s' cs"
proof -
  obtain d ds where d: "decimal n = d # ds" using decimal_nonempty [of n] by (cases "decimal n") auto
  from r d have r': "rest s (d # ds @ cs)" by simp
  obtain s1 where s1: "NEXT (INIT_TEMP_STRING s) = Done s1" "rest s1 (ds @ cs)" "lx_longstr s1 = []"
    by (rule INIT_rest [OF r'])
  have ds: "list_all (\<lambda>c. scisdigit c \<and> c \<noteq> CHR ''.'' \<and> \<not> isexponent c) ds"
    using decimal_class [of _ n] d by (auto simp: list_all_iff)
  have "rest (APPEND_CHAR d s1) (ds @ cs)" using s1(2) by simp
  from read_decimal_rest [OF this e ds] obtain s2 where
    s2: "read_decimal TINT (APPEND_CHAR d s1) = Done (TINT, s2)" "rest s2 cs" "lx_longstr s2 = decimal n"
    using s1(3) d by (auto simp: same_def APPEND_CHAR_def)
  have "\<not> (d = CHR ''0'' \<and> (toupper (lx_currdata s1) = 88 \<or> scisodigit (lx_currdata s1)))"
  proof
    assume a: "d = CHR ''0'' \<and> (toupper (lx_currdata s1) = 88 \<or> scisodigit (lx_currdata s1))"
    with decimal_zero [of n] d have "n = 0" by simp
    with d have "ds = []" by (simp add: decimal.simps [of 0])
    with s1(2) number_endsD [OF e, of s1] a show False by simp
  qed
  then have "ReadNumber strtod s = Done (TK_INTEGER, (TERMINATE_BUFFER s2)\<lparr>lx_nvalue := of_nat n\<rparr>)"
    using restD(1) [OF r'] s1(1) s2 LexInteger_decimal [of n]
    by (cases "d = CHR ''0''") (simp_all add: ReadNumber_def Let_def TERMINATE_BUFFER_def APPEND_CHAR_def)
  with s2(2) show ?thesis by simp
qed

lemma digit_round:
  assumes "scisdigit (lx_currdata s)"
  shows "lex_round strtod s = lex_default strtod s"
proof -
  have "48 \<le> code (lx_currdata s)" "code (lx_currdata s) \<le> 57" using assms by (simp_all add: scisdigit_def)
  then have "lx_currdata s \<notin> set (singles @ [CHR 0x09, CHR 0x0D, CHR '' '', CHR 0x0A, CHR ''#'', CHR ''/'', CHR ''='',
    CHR ''<'', CHR ''>'', CHR ''!'', CHR ''@'', CHR 0x22, CHR 0x27, CHR ''.'', CHR ''&'', CHR ''|'', CHR '':'', CHR ''*'',
    CHR ''%'', CHR ''-'', CHR ''+''])"
    by (auto simp: singles_def code_def)
  then show ?thesis by (simp add: lex_round_def)
qed

text \<open>
  C22. Integer literals are read back.  The decimal digits of a number, when what follows
  cannot continue them, give the token of an integer whose value is the number modulo
  2 to the 64, and what follows is still ahead: a literal that fits is exact, and one that
  does not wraps without an error (2 to the 64 reads as 0).
\<close>

theorem integer_literal_value:
  assumes "rest s (decimal n @ cs)" and "number_ends cs"
  shows "\<exists>s'. Lex strtod s = Done (TK_INTEGER, s') \<and> uint (lx_nvalue s') = int n mod 2 ^ 64 \<and> rest s' cs"
proof -
  let ?s = "s\<lparr>lx_lasttokenline := lx_currentline s, lx_lasttokencolumn := lx_currentcolumn s\<rparr>"
  from assms(1) have r: "rest ?s (decimal n @ cs)" by (simp only: rest_fields)
  obtain s' where s': "ReadNumber strtod ?s = Done (TK_INTEGER, s')" "lx_nvalue s' = of_nat n" "rest s' cs"
    using ReadNumber_decimal [OF r assms(2)] by blast
  have ne: "lx_currdata ?s \<noteq> EOB" by (rule rest_nonempty [OF r]) (simp add: decimal_nonempty)
  have "lx_currdata ?s = hd (decimal n)" using r decimal_nonempty [of n] by (cases "decimal n") (simp_all add: rest_def)
  then have "scisdigit (lx_currdata ?s)" using decimal_nonempty [of n] decimal_class [of "hd (decimal n)" n] by simp
  then have "lex_round strtod ?s = RETURN_TOKEN TK_INTEGER s'"
    by (subst digit_round) (simp_all add: lex_default_def Let_def s'(1))
  then have "Lex strtod s = Done (TK_INTEGER, s'\<lparr>lx_prevtoken := lx_curtoken s', lx_curtoken := TK_INTEGER\<rparr>)"
    unfolding Lex_def by (intro lex_round_token ne) (simp add: RETURN_TOKEN_def)
  moreover have "uint (lx_nvalue s') = int n mod 2 ^ 64"
    unfolding s'(2) by (simp add: uint_nat unat_of_nat zmod_int)
  ultimately show ?thesis using s'(3)
    by (intro exI [of _ "s'\<lparr>lx_prevtoken := lx_curtoken s', lx_curtoken := TK_INTEGER\<rparr>"] conjI) simp_all
qed

theorem integer_literal_value_witness:
  "\<exists>s s'. Lex (\<lambda>_. 0) s = Done (TK_INTEGER, s') \<and> uint (lx_nvalue s') = int 73 mod 2 ^ 64 \<and> rest s' '' + 1''"
proof -
  have "decimal 73 = ''73''" by code_simp
  moreover have "EOB \<notin> set ''73 + 1''" by code_simp
  then obtain s where "rest s ''73 + 1''" by (rule lex_init_rest)
  ultimately have "rest s (decimal 73 @ '' + 1'')" by simp
  moreover have "number_ends '' + 1''" by code_simp
  ultimately show ?thesis using integer_literal_value by blast
qed

end
