(* ===== verification/Frames.thy ===== *)
theory Frames
  imports FuncState Classes
begin

text \<open>
  The stack of the virtual machine and its calls, from \<^verbatim>\<open>squirrel/sqvm.cpp\<close>,
  \<^verbatim>\<open>squirrel/sqvm.h\<close>, \<^verbatim>\<open>squirrel/sqclosure.h\<close> and \<^verbatim>\<open>squirrel/sqobject.cpp\<close>: frames,
  captured variables, calls of script functions, generators and the unwinding of errors.

  A pointer to a slot of the stack is the number of the allocation and the index: growing
  the stack beyond its allocation moves it, and using a pointer to an earlier allocation is
  undefined, as is any access beyond the slots.  The list of the open captured variables
  (\<open>_openouters\<close>, linked by \<open>_next\<close>) is the list of their addresses, the stack of calls has
  the current one first.  A function that fails gives false and leaves its message in
  \<open>vm_lasterror\<close>.  Reference counts are not modelled, and neither are the debug hook and the
  error handler, which are absent unless a program installs one.
\<close>

section \<open>State\<close>

datatype valptr = OnStack nat nat | Own

record sqouter =
  ot_valptr :: valptr
  ot_idx :: nat
  ot_value :: sqobj

record callinfo =
  ci_ip :: int
  ci_literals :: "sqobj list"
  ci_closure :: sqobj
  ci_generator :: "addr option"
  ci_etraps :: int
  ci_prevstkbase :: int
  ci_prevtop :: int
  ci_target :: int
  ci_ncalls :: int
  ci_root :: bool

record exctrap =
  et_stackbase :: int
  et_stacksize :: int
  et_ip :: int
  et_extarget :: int

datatype genstate = eRunning | eSuspended | eDead

record sqgenerator =
  ge_closure :: sqobj
  ge_stack :: "sqobj list"
  ge_ci :: callinfo
  ge_etraps :: "exctrap list"
  ge_state :: genstate

record sqvm =
  vm_stack :: "sqobj list"
  vm_allocated :: nat
  vm_gen :: nat
  vm_top :: int
  vm_stackbase :: int
  vm_openouters :: "addr list"
  vm_outers :: "addr \<Rightarrow> sqouter option"
  vm_arrays :: "addr \<Rightarrow> sqobj list option"
  vm_closures :: "addr \<Rightarrow> sqclosure option"
  vm_protos :: "addr \<Rightarrow> sqfuncproto option"
  vm_generators :: "addr \<Rightarrow> sqgenerator option"
  vm_calls :: "callinfo list"
  vm_alloccalls :: nat
  vm_etraps :: "exctrap list"
  vm_lasterror :: sqobj
  vm_temp_reg :: sqobj
  vm_nmetamethodscall :: int

definition MIN_STACK_OVERHEAD :: int where "MIN_STACK_OVERHEAD = 15"

text \<open>A conversion to a 32-bit integer.\<close>

definition int32 :: "int \<Rightarrow> int" where
  "int32 i = sint (word_of_int i :: 32 word)"

definition Raise_Error :: "string \<Rightarrow> sqvm \<Rightarrow> sqvm" where
  "Raise_Error s vm = vm\<lparr>vm_lasterror := OString s\<rparr>"

definition type_name :: "sqobj \<Rightarrow> string" where
  "type_name ob = (case GetTypeName ob of Some n \<Rightarrow> n | None \<Rightarrow> [])"

definition quoted :: "string \<Rightarrow> string" where
  "quoted s = [CHR 0x27] @ s @ [CHR 0x27]"

section \<open>Slots\<close>

definition stk_at :: "int \<Rightarrow> sqvm \<Rightarrow> sqobj outcome" where
  "stk_at i vm = (if 0 \<le> i \<and> i < int (length (vm_stack vm)) then Done (vm_stack vm ! nat i) else Undef)"

definition stk_put :: "int \<Rightarrow> sqobj \<Rightarrow> sqvm \<Rightarrow> sqvm outcome" where
  "stk_put i v vm =
     (if 0 \<le> i \<and> i < int (length (vm_stack vm)) then Done (vm\<lparr>vm_stack := (vm_stack vm)[nat i := v]\<rparr>)
      else Undef)"

text \<open>\<open>n\<close> slots from \<open>i\<close> downwards.\<close>

fun null_slots :: "nat \<Rightarrow> int \<Rightarrow> sqvm \<Rightarrow> sqvm outcome" where
  "null_slots 0 i vm = Done vm"
| "null_slots (Suc n) i vm = obind (stk_put i ONull vm) (null_slots n (i - 1))"

definition vm_Push :: "sqobj \<Rightarrow> sqvm \<Rightarrow> sqvm outcome" where
  "vm_Push v vm = obind (stk_put (vm_top vm) v vm) (\<lambda>vm'. Done (vm'\<lparr>vm_top := vm_top vm + 1\<rparr>))"

definition vm_Pop :: "sqvm \<Rightarrow> sqvm outcome" where
  "vm_Pop vm = obind (stk_put (vm_top vm - 1) ONull vm) (\<lambda>vm'. Done (vm'\<lparr>vm_top := vm_top vm - 1\<rparr>))"

fun vm_PopN :: "nat \<Rightarrow> sqvm \<Rightarrow> sqvm outcome" where
  "vm_PopN 0 vm = Done vm"
| "vm_PopN (Suc n) vm = obind (vm_Pop vm) (vm_PopN n)"

definition stack_get :: "int \<Rightarrow> sqvm \<Rightarrow> sqobj outcome" where
  "stack_get idx vm = stk_at (if idx \<ge> 0 then idx + vm_stackbase vm - 1 else vm_top vm + idx) vm"

fun shift_down :: "nat \<Rightarrow> int \<Rightarrow> sqvm \<Rightarrow> sqvm outcome" where
  "shift_down 0 i vm = Done vm"
| "shift_down (Suc n) i vm = obind (stk_at (i + 1) vm) (\<lambda>v. obind (stk_put i v vm) (shift_down n (i + 1)))"

definition vm_Remove :: "int \<Rightarrow> sqvm \<Rightarrow> sqvm outcome" where
  "vm_Remove n vm =
     (let i = (if n \<ge> 0 then n + vm_stackbase vm - 1 else vm_top vm + n) in
      obind (shift_down (nat (vm_top vm - i)) i vm) (\<lambda>vm1.
      obind (stk_put (vm_top vm) ONull vm1) (\<lambda>vm2. Done (vm2\<lparr>vm_top := vm_top vm - 1\<rparr>))))"

text \<open>Growing the vector of slots; beyond its allocation it moves.\<close>

definition stack_resize :: "nat \<Rightarrow> sqvm \<Rightarrow> sqvm" where
  "stack_resize n vm =
     (let vm1 = (if n > vm_allocated vm then vm\<lparr>vm_allocated := n, vm_gen := vm_gen vm + 1\<rparr> else vm) in
      vm1\<lparr>vm_stack := take n (vm_stack vm) @ replicate (n - length (vm_stack vm)) ONull\<rparr>)"

section \<open>Captured variables\<close>

definition outer_get :: "addr \<Rightarrow> sqvm \<Rightarrow> sqobj outcome" where
  "outer_get p vm =
     obind (of_option (vm_outers vm p)) (\<lambda>ot.
       case ot_valptr ot of
         OnStack g i \<Rightarrow> if g = vm_gen vm then stk_at (int i) vm else Undef
       | Own \<Rightarrow> Done (ot_value ot))"

definition outer_set :: "addr \<Rightarrow> sqobj \<Rightarrow> sqvm \<Rightarrow> sqvm outcome" where
  "outer_set p v vm =
     obind (of_option (vm_outers vm p)) (\<lambda>ot.
       case ot_valptr ot of
         OnStack g i \<Rightarrow> if g = vm_gen vm then stk_put (int i) v vm else Undef
       | Own \<Rightarrow> Done (vm\<lparr>vm_outers := (vm_outers vm)(p \<mapsto> ot\<lparr>ot_value := v\<rparr>)\<rparr>))"

text \<open>The index an open variable points to, in the current allocation.\<close>

definition open_index :: "addr \<Rightarrow> sqvm \<Rightarrow> nat outcome" where
  "open_index p vm =
     obind (of_option (vm_outers vm p)) (\<lambda>ot.
       case ot_valptr ot of OnStack g i \<Rightarrow> if g = vm_gen vm then Done i else Undef | Own \<Rightarrow> Undef)"

text \<open>The variable of a slot, or the position in the list where it belongs.\<close>

fun find_outer :: "nat \<Rightarrow> nat \<Rightarrow> addr list \<Rightarrow> sqvm \<Rightarrow> (addr option \<times> nat) outcome" where
  "find_outer idx k [] vm = Done (None, k)"
| "find_outer idx k (p # ps) vm =
     obind (open_index p vm) (\<lambda>i.
       if i < idx then Done (None, k)
       else if i = idx then Done (Some p, k)
       else find_outer idx (Suc k) ps vm)"

definition FindOuter :: "addr \<Rightarrow> nat \<Rightarrow> sqvm \<Rightarrow> (addr \<times> sqvm) outcome" where
  "FindOuter new idx vm =
     obind (find_outer idx 0 (vm_openouters vm) vm) (\<lambda>(found, k).
       case found of
         Some p \<Rightarrow> Done (p, vm)
       | None \<Rightarrow>
           Done (new, vm\<lparr>vm_outers := (vm_outers vm)(new \<mapsto>
                             \<lparr>ot_valptr = OnStack (vm_gen vm) idx, ot_idx = idx, ot_value = ONull\<rparr>),
                         vm_openouters := take k (vm_openouters vm) @ new # drop k (vm_openouters vm)\<rparr>))"

fun close_outers :: "nat \<Rightarrow> addr list \<Rightarrow> sqvm \<Rightarrow> sqvm outcome" where
  "close_outers lim [] vm = Done vm"
| "close_outers lim (p # ps) vm =
     obind (open_index p vm) (\<lambda>i.
       if i < lim then Done vm
       else obind (outer_get p vm) (\<lambda>v.
         close_outers lim ps
           (vm\<lparr>vm_outers := (vm_outers vm)(p := map_option (\<lambda>ot. ot\<lparr>ot_valptr := Own, ot_value := v\<rparr>) (vm_outers vm p)),
               vm_openouters := ps\<rparr>)))"

definition CloseOuters :: "nat \<Rightarrow> sqvm \<Rightarrow> sqvm outcome" where
  "CloseOuters lim vm = close_outers lim (vm_openouters vm) vm"

definition relocate :: "nat \<Rightarrow> addr \<Rightarrow> (addr \<Rightarrow> sqouter option) \<Rightarrow> (addr \<Rightarrow> sqouter option)" where
  "relocate g p h = h(p := map_option (\<lambda>ot. ot\<lparr>ot_valptr := OnStack g (ot_idx ot)\<rparr>) (h p))"

definition RelocateOuters :: "sqvm \<Rightarrow> sqvm" where
  "RelocateOuters vm = vm\<lparr>vm_outers := fold (relocate (vm_gen vm)) (vm_openouters vm) (vm_outers vm)\<rparr>"

text \<open>The function of the interface that reserves slots does not relocate.\<close>

definition sq_reservestack :: "int \<Rightarrow> sqvm \<Rightarrow> bool \<times> sqvm" where
  "sq_reservestack nsize vm =
     (if vm_top vm + nsize > int (length (vm_stack vm)) then
        (if vm_nmetamethodscall vm \<noteq> 0 then (False, Raise_Error ''cannot resize stack while in  a metamethod'' vm)
         else (True, stack_resize (nat (vm_top vm + nsize)) vm))
      else (True, vm))"

section \<open>Frames\<close>

text \<open>
  The fields of a new frame that the function does not set keep what an earlier call left in
  the array of frames; every caller sets them next.
\<close>

definition EnterFrame :: "int \<Rightarrow> int \<Rightarrow> bool \<Rightarrow> sqvm \<Rightarrow> (bool \<times> sqvm) outcome" where
  "EnterFrame newbase newtop tailcall vm =
     obind
       (if \<not> tailcall then
          Done (vm\<lparr>vm_alloccalls := (if length (vm_calls vm) = vm_alloccalls vm
                                     then vm_alloccalls vm * 2 else vm_alloccalls vm),
                   vm_calls := \<lparr>ci_ip = 0, ci_literals = [], ci_closure = ONull, ci_generator = None,
                       ci_etraps = 0, ci_prevstkbase = int32 (newbase - vm_stackbase vm),
                       ci_prevtop = int32 (vm_top vm - vm_stackbase vm), ci_target = 0, ci_ncalls = 1,
                       ci_root = False\<rparr> # vm_calls vm\<rparr>)
        else (case vm_calls vm of
                [] \<Rightarrow> Undef
              | ci # cs \<Rightarrow> Done (vm\<lparr>vm_calls := ci\<lparr>ci_ncalls := ci_ncalls ci + 1\<rparr> # cs\<rparr>)))
       (\<lambda>vm1.
          let vm2 = vm1\<lparr>vm_stackbase := newbase, vm_top := newtop\<rparr> in
          if newtop + MIN_STACK_OVERHEAD > int (length (vm_stack vm2)) then
            (if vm_nmetamethodscall vm2 \<noteq> 0
             then Done (False, Raise_Error ''stack overflow, cannot resize stack while in  a metamethod'' vm2)
             else Done (True, RelocateOuters
                    (stack_resize (length (vm_stack vm2) + nat (MIN_STACK_OVERHEAD * 4)) vm2)))
          else Done (True, vm2))"

definition LeaveFrame :: "sqvm \<Rightarrow> sqvm outcome" where
  "LeaveFrame vm =
     (case vm_calls vm of
        [] \<Rightarrow> Undef
      | ci # cs \<Rightarrow>
          (let last_top = vm_top vm; last_stackbase = vm_stackbase vm;
               base = last_stackbase - ci_prevstkbase ci; top = base + ci_prevtop ci;
               vm1 = vm\<lparr>vm_stackbase := base, vm_top := top, vm_calls := cs\<rparr> in
           obind (if vm_openouters vm1 \<noteq> []
                  then (if last_stackbase < 0 then Undef else CloseOuters (nat last_stackbase) vm1)
                  else Done vm1)
             (null_slots (nat (last_top - top + 1)) last_top)))"

definition vm_Return :: "int \<Rightarrow> int \<Rightarrow> sqobj \<Rightarrow> sqvm \<Rightarrow> (bool \<times> sqobj \<times> sqvm) outcome" where
  "vm_Return a0 a1 retval vm =
     (case vm_calls vm of
        [] \<Rightarrow> Undef
      | ci # cs \<Rightarrow>
          (let callerbase = vm_stackbase vm - ci_prevstkbase ci;
               value = (if a0 \<noteq> 0xFF then stk_at (vm_stackbase vm + a1) vm else Done ONull) in
           obind (if ci_root ci then obind value (\<lambda>v. Done (v, vm))
                  else if ci_target ci = - 1 then Done (retval, vm)
                  else obind value (\<lambda>v. obind (stk_put (callerbase + ci_target ci) v vm) (\<lambda>vm'. Done (retval, vm'))))
             (\<lambda>(r, vm1). obind (LeaveFrame vm1) (\<lambda>vm2. Done (ci_root ci, r, vm2)))))"

end
