(* ===== verification/Calls.thy ===== *)
theory Calls
  imports Frames
begin

text \<open>
  Calls of script functions, closures, generators and the unwinding of errors, from
  \<^verbatim>\<open>squirrel/sqvm.cpp\<close> (\<open>StartCall\<close>, \<open>CLOSURE_OP\<close>, \<open>Execute\<close>) and
  \<^verbatim>\<open>squirrel/sqobject.cpp\<close> (\<open>SQGenerator\<close>).

  The addresses of new objects are arguments, as are what a weak reference names (\<open>wr\<close>) and
  the weak reference of an object (\<open>weak\<close>, \<open>GetWeakRef\<close> of theory \<open>Links\<close>).  An instruction is
  a function of the state; the arguments of the instruction are integers.
\<close>

section \<open>Generators\<close>

definition gen_put :: "addr \<Rightarrow> sqgenerator \<Rightarrow> sqvm \<Rightarrow> sqvm" where
  "gen_put g ge vm = vm\<lparr>vm_generators := (vm_generators vm)(g \<mapsto> ge)\<rparr>"

text \<open>The slots \<open>i\<close>, \<open>i + 1\<close>, and so on.\<close>

fun stk_read :: "nat \<Rightarrow> int \<Rightarrow> sqvm \<Rightarrow> sqobj list outcome" where
  "stk_read 0 i vm = Done []"
| "stk_read (Suc n) i vm = obind (stk_at i vm) (\<lambda>v. obind (stk_read n (i + 1) vm) (\<lambda>vs. Done (v # vs)))"

fun stk_write :: "int \<Rightarrow> sqobj list \<Rightarrow> sqvm \<Rightarrow> sqvm outcome" where
  "stk_write i [] vm = Done vm"
| "stk_write i (v # vs) vm = obind (stk_put i v vm) (stk_write (i + 1) vs)"

definition gen_Kill :: "addr \<Rightarrow> sqvm \<Rightarrow> sqvm outcome" where
  "gen_Kill g vm =
     obind (of_option (vm_generators vm g)) (\<lambda>ge.
       Done (gen_put g (ge\<lparr>ge_state := eDead, ge_stack := [], ge_closure := ONull\<rparr>) vm))"

definition gen_Yield :: "(sqobj \<Rightarrow> addr) \<Rightarrow> addr \<Rightarrow> int \<Rightarrow> sqvm \<Rightarrow> (bool \<times> sqvm) outcome" where
  "gen_Yield weak g target vm =
     obind (of_option (vm_generators vm g)) (\<lambda>ge.
       if ge_state ge = eSuspended then Done (False, Raise_Error ''internal vm error, yielding dead generator'' vm)
       else if ge_state ge = eDead then Done (False, Raise_Error ''internal vm error, yielding a dead generator'' vm)
       else
         (let size = vm_top vm - vm_stackbase vm; old = ge_stack ge in
          if size \<le> 0 \<or> target > size then Undef
          else
          obind (stk_at (vm_stackbase vm) vm) (\<lambda>this.
          obind (stk_read (nat (target - 1)) (vm_stackbase vm + 1) vm) (\<lambda>vs.
          obind (null_slots (nat size) (vm_top vm - 1) vm) (\<lambda>vm1.
            case vm_calls vm of
              [] \<Rightarrow> Undef
            | ci # cs \<Rightarrow>
                (let k = nat (ci_etraps ci); keep = length vs + 1;
                     this' = (if ISREFCOUNTED (sqobjtype this) then ORef KWeakRef (weak this) else this) in
                 if k > length (vm_etraps vm1) then Undef
                 else Done (True, gen_put g (ge\<lparr>ge_stack := this' # vs @ take (nat size - keep) (drop keep old) @
                                                 replicate (nat size - keep - length (take (nat size - keep) (drop keep old))) ONull,
                                              ge_ci := ci\<lparr>ci_generator := None\<rparr>,
                                              ge_etraps := rev (take k (vm_etraps vm1)) @ ge_etraps ge,
                                              ge_state := eSuspended\<rparr>)
                                  (vm1\<lparr>vm_etraps := drop k (vm_etraps vm1)\<rparr>))))))))"

text \<open>\<open>target\<close> is the register of the destination, the distance the code computes from its address.\<close>

definition gen_Resume :: "(addr \<Rightarrow> sqobj) \<Rightarrow> addr \<Rightarrow> int \<Rightarrow> sqvm \<Rightarrow> (bool \<times> sqvm) outcome" where
  "gen_Resume wr g target vm =
     obind (of_option (vm_generators vm g)) (\<lambda>ge.
       if ge_state ge = eDead then Done (False, Raise_Error ''resuming dead generator'' vm)
       else if ge_state ge = eRunning then Done (False, Raise_Error ''resuming active generator'' vm)
       else
         obind (EnterFrame (vm_top vm) (vm_top vm + int (length (ge_stack ge))) False vm) (\<lambda>(ok, vm1).
         if \<not> ok then Done (False, vm1)
         else (case (vm_calls vm1, ge_stack ge) of
            (ci # cs, this # vs) \<Rightarrow>
              (let sv = ge_ci ge; k = nat (ci_etraps sv) in
               if k > length (ge_etraps ge) then Undef
               else
               obind (stk_put (vm_stackbase vm1) (case this of ORef KWeakRef w \<Rightarrow> wr w | _ \<Rightarrow> this)
                 (vm1\<lparr>vm_calls := ci\<lparr>ci_generator := Some g, ci_target := int32 target, ci_closure := ci_closure sv,
                        ci_ip := ci_ip sv, ci_literals := ci_literals sv, ci_ncalls := ci_ncalls sv,
                        ci_etraps := ci_etraps sv, ci_root := ci_root sv\<rparr> # cs,
                      vm_etraps := rev (take k (ge_etraps ge)) @ vm_etraps vm1\<rparr>)) (\<lambda>vm2.
               obind (stk_write (vm_stackbase vm1 + 1) vs vm2) (\<lambda>vm3.
               Done (True, gen_put g (ge\<lparr>ge_stack := this # map (\<lambda>_. ONull) vs,
                                         ge_etraps := drop k (ge_etraps ge), ge_state := eRunning\<rparr>) vm3))))
          | _ \<Rightarrow> Undef)))"

section \<open>Calling a closure\<close>

text \<open>The arguments as the parameters of the function: the rest as an array, or defaults.\<close>

definition pass_arguments :: "addr \<Rightarrow> sqfuncproto \<Rightarrow> sqclosure \<Rightarrow> int \<Rightarrow> int \<Rightarrow> sqvm \<Rightarrow> (bool \<times> sqvm) outcome" where
  "pass_arguments arr f c args base vm =
     (let paramssize = int (length (fp_parameters f)); wrong = Raise_Error ''wrong number of parameters'' vm in
      if fp_varparams f \<noteq> 0 then
        (if args < paramssize - 1 then Done (False, wrong)
         else
           (let n = nat (args - (paramssize - 1)); pbase = base + (paramssize - 1) in
            obind (stk_read n pbase vm) (\<lambda>vs.
            obind (null_slots n (pbase + int n - 1) vm) (\<lambda>vm1.
            obind (stk_put pbase (ORef KArray arr) (vm1\<lparr>vm_arrays := (vm_arrays vm1)(arr \<mapsto> vs)\<rparr>)) (\<lambda>vm2.
            Done (True, vm2))))))
      else if paramssize \<noteq> args then
        (let ndef = int (length (fp_defaultparams f)); diff = paramssize - args in
         if ndef \<noteq> 0 \<and> args < paramssize \<and> diff \<le> ndef
         then if length (sc_defaultparams c) < length (fp_defaultparams f) then Undef
              else obind (stk_write (base + args)
                     (drop (nat (ndef - diff)) (take (length (fp_defaultparams f)) (sc_defaultparams c))) vm) (\<lambda>vm1.
                   Done (True, vm1))
         else Done (False, wrong))
      else Done (True, vm))"

definition bind_env :: "(addr \<Rightarrow> sqobj) \<Rightarrow> sqclosure \<Rightarrow> int \<Rightarrow> sqvm \<Rightarrow> sqvm outcome" where
  "bind_env wr c base vm = (case sc_env c of None \<Rightarrow> Done vm | Some w \<Rightarrow> stk_put base (wr w) vm)"

definition set_ci :: "(callinfo \<Rightarrow> callinfo) \<Rightarrow> sqvm \<Rightarrow> sqvm outcome" where
  "set_ci f vm = (case vm_calls vm of [] \<Rightarrow> Undef | ci # cs \<Rightarrow> Done (vm\<lparr>vm_calls := f ci # cs\<rparr>))"

text \<open>Calling a generator function yields at once and leaves its frame; the result is the generator.\<close>

definition start_generator ::
    "(sqobj \<Rightarrow> addr) \<Rightarrow> addr \<Rightarrow> addr \<Rightarrow> sqfuncproto \<Rightarrow> int \<Rightarrow> sqvm \<Rightarrow> (bool \<times> sqvm) outcome" where
  "start_generator weak g clo f target vm =
     obind (set_ci id vm) (\<lambda>_.
     obind (gen_Yield weak g (fp_stacksize f)
       (gen_put g \<lparr>ge_closure = ORef KClosure clo, ge_stack = [], ge_ci = hd (vm_calls vm)\<lparr>ci_generator := None\<rparr>,
                  ge_etraps = [], ge_state = eRunning\<rparr> vm)) (\<lambda>(ok, vm1).
     if \<not> ok then Done (False, vm1)
     else obind (vm_Return 1 target ONull vm1) (\<lambda>(_, _, vm2).
          obind (stk_put (vm_stackbase vm2 + target) (ORef KGenerator g) vm2) (\<lambda>vm3. Done (True, vm3)))))"

definition StartCall ::
    "(addr \<Rightarrow> sqobj) \<Rightarrow> (sqobj \<Rightarrow> addr) \<Rightarrow> addr \<Rightarrow> addr \<Rightarrow> addr \<Rightarrow> int \<Rightarrow> int \<Rightarrow> int \<Rightarrow> bool \<Rightarrow> sqvm \<Rightarrow>
     (bool \<times> sqvm) outcome" where
  "StartCall wr weak arr gen clo target args stackbase tailcall vm =
     obind (of_option (vm_closures vm clo)) (\<lambda>c.
     obind (of_option (vm_protos vm (sc_function c))) (\<lambda>f.
     obind (pass_arguments arr f c args stackbase vm) (\<lambda>(ok, vm1).
     if \<not> ok then Done (False, vm1)
     else
       obind (bind_env wr c stackbase vm1) (\<lambda>vm2.
       obind (EnterFrame stackbase (stackbase + fp_stacksize f) tailcall vm2) (\<lambda>(ok2, vm3).
       if \<not> ok2 then Done (False, vm3)
       else
         obind (set_ci (\<lambda>ci. ci\<lparr>ci_closure := ORef KClosure clo, ci_literals := fp_literals f, ci_ip := 0,
                              ci_target := int32 target\<rparr>) vm3) (\<lambda>vm4.
         if fp_bgenerator f then start_generator weak gen clo f target vm4
         else Done (True, vm4)))))))"

section \<open>Instructions\<close>

definition reg :: "int \<Rightarrow> sqvm \<Rightarrow> sqobj outcome" where
  "reg a vm = stk_at (vm_stackbase vm + a) vm"

definition put_reg :: "int \<Rightarrow> sqobj \<Rightarrow> sqvm \<Rightarrow> sqvm outcome" where
  "put_reg a v vm = stk_put (vm_stackbase vm + a) v vm"

definition current_closure :: "sqvm \<Rightarrow> sqclosure outcome" where
  "current_closure vm =
     (case vm_calls vm of
        ci # _ \<Rightarrow> (case ci_closure ci of ORef KClosure c \<Rightarrow> of_option (vm_closures vm c) | _ \<Rightarrow> Undef)
      | [] \<Rightarrow> Undef)"

definition captured :: "int \<Rightarrow> sqvm \<Rightarrow> addr outcome" where
  "captured i vm =
     obind (current_closure vm) (\<lambda>c.
       if 0 \<le> i \<and> i < int (length (sc_outervalues c))
       then (case sc_outervalues c ! nat i of ORef KOuter p \<Rightarrow> Done p | _ \<Rightarrow> Undef)
       else Undef)"

definition OP_GETOUTER_step :: "int \<Rightarrow> int \<Rightarrow> sqvm \<Rightarrow> sqvm outcome" where
  "OP_GETOUTER_step a0 a1 vm = obind (captured a1 vm) (\<lambda>p. obind (outer_get p vm) (\<lambda>v. put_reg a0 v vm))"

definition OP_SETOUTER_step :: "int \<Rightarrow> int \<Rightarrow> int \<Rightarrow> sqvm \<Rightarrow> sqvm outcome" where
  "OP_SETOUTER_step a0 a1 a2 vm =
     obind (captured a1 vm) (\<lambda>p. obind (reg a2 vm) (\<lambda>v. obind (outer_set p v vm) (\<lambda>vm1.
       if a0 \<noteq> 0xFF then obind (reg a2 vm1) (\<lambda>v. put_reg a0 v vm1) else Done vm1)))"

text \<open>
  The captured variables of a new closure: registers of this frame, or captured here already.
  \<open>new k\<close> is the address of the variable the \<open>k\<close>-th one needs when its slot has none yet.
\<close>

fun capture_all :: "(nat \<Rightarrow> addr) \<Rightarrow> nat \<Rightarrow> sqoutervar list \<Rightarrow> sqvm \<Rightarrow> (sqobj list \<times> sqvm) outcome" where
  "capture_all new k [] vm = Done ([], vm)"
| "capture_all new k (v # vs) vm =
     obind (case ov_src v of OInteger i \<Rightarrow> Done (sint i) | _ \<Rightarrow> Undef) (\<lambda>src.
     obind (case ov_type v of
              otLOCAL \<Rightarrow>
                (if 0 \<le> vm_stackbase vm + src \<and> vm_stackbase vm + src < int (length (vm_stack vm))
                 then FindOuter (new k) (nat (vm_stackbase vm + src)) vm else Undef)
            | otOUTER \<Rightarrow> obind (captured src vm) (\<lambda>p. Done (p, vm))) (\<lambda>(p, vm1).
     obind (capture_all new (Suc k) vs vm1) (\<lambda>(ps, vm2). Done (ORef KOuter p # ps, vm2))))"

fun default_values :: "int list \<Rightarrow> sqvm \<Rightarrow> sqobj list outcome" where
  "default_values [] vm = Done []"
| "default_values (p # ps) vm = obind (reg p vm) (\<lambda>v. obind (default_values ps vm) (\<lambda>vs. Done (v # vs)))"

definition CLOSURE_OP :: "(nat \<Rightarrow> addr) \<Rightarrow> addr \<Rightarrow> int \<Rightarrow> addr \<Rightarrow> sqvm \<Rightarrow> sqvm outcome" where
  "CLOSURE_OP new clo target func vm =
     obind (of_option (vm_protos vm func)) (\<lambda>f.
     obind (capture_all new 0 (fp_outervalues f) vm) (\<lambda>(os, vm1).
     obind (default_values (fp_defaultparams f) vm1) (\<lambda>ds.
     put_reg target (ORef KClosure clo)
       (vm1\<lparr>vm_closures := (vm_closures vm1)(clo \<mapsto>
          \<lparr>sc_env = None, sc_base = None, sc_function = func, sc_outervalues = os, sc_defaultparams = ds\<rparr>)\<rparr>))))"

definition OP_CLOSE_step :: "int \<Rightarrow> sqvm \<Rightarrow> sqvm outcome" where
  "OP_CLOSE_step a1 vm =
     (if vm_openouters vm = [] then Done vm
      else if vm_stackbase vm + a1 < 0 then Undef else CloseOuters (nat (vm_stackbase vm + a1)) vm)"

text \<open>A call of a closure in the tail of a function reuses its frame.\<close>

fun move_down :: "nat \<Rightarrow> int \<Rightarrow> int \<Rightarrow> sqvm \<Rightarrow> sqvm outcome" where
  "move_down 0 i a2 vm = Done vm"
| "move_down (Suc n) i a2 vm = obind (reg (a2 + i) vm) (\<lambda>v. obind (put_reg i v vm) (move_down n (i + 1) a2))"

definition OP_TAILCALL_step ::
    "(addr \<Rightarrow> sqobj) \<Rightarrow> (sqobj \<Rightarrow> addr) \<Rightarrow> addr \<Rightarrow> addr \<Rightarrow> addr \<Rightarrow> int \<Rightarrow> int \<Rightarrow> sqvm \<Rightarrow> (bool \<times> sqvm) outcome" where
  "OP_TAILCALL_step wr weak arr gen clo a2 a3 vm =
     obind (OP_CLOSE_step 0 vm) (\<lambda>vm1.
     obind (move_down (nat a3) 0 a2 vm1) (\<lambda>vm2.
     case vm_calls vm2 of
       [] \<Rightarrow> Undef
     | ci # _ \<Rightarrow> StartCall wr weak arr gen clo (ci_target ci) a3 (vm_stackbase vm2) True vm2))"

text \<open>The result is whether the execution ends here.\<close>

definition OP_RETURN_step :: "int \<Rightarrow> int \<Rightarrow> sqvm \<Rightarrow> (bool \<times> sqvm) outcome" where
  "OP_RETURN_step a0 a1 vm =
     (case vm_calls vm of
        [] \<Rightarrow> Undef
      | ci # _ \<Rightarrow>
          obind (case ci_generator ci of None \<Rightarrow> Done vm | Some g \<Rightarrow> gen_Kill g vm) (\<lambda>vm1.
          obind (vm_Return a0 a1 (vm_temp_reg vm1) vm1) (\<lambda>(ends, r, vm2).
          Done (ends, vm2\<lparr>vm_temp_reg := r\<rparr>))))"

definition MAX_REGISTER :: int where "MAX_REGISTER = 0xFF"

text \<open>
  Yielding: the flags are that no error was raised and that the execution ends here.  Outside a
  generator the message would be made of a null pointer; the compiler makes every function that
  yields a generator.
\<close>

definition OP_YIELD_step :: "(sqobj \<Rightarrow> addr) \<Rightarrow> int \<Rightarrow> int \<Rightarrow> int \<Rightarrow> sqvm \<Rightarrow> (bool \<times> bool \<times> sqvm) outcome" where
  "OP_YIELD_step weak a0 a1 a2 vm =
     (case vm_calls vm of
        [] \<Rightarrow> Undef
      | ci # _ \<Rightarrow>
          (case ci_generator ci of
             None \<Rightarrow> Undef
           | Some g \<Rightarrow>
               obind (if a1 \<noteq> MAX_REGISTER then obind (reg a1 vm) (\<lambda>v. Done (vm\<lparr>vm_temp_reg := v\<rparr>)) else Done vm) (\<lambda>vm1.
               obind (gen_Yield weak g a2 vm1) (\<lambda>(ok, vm2).
               if \<not> ok then Done (False, False, vm2)
               else
                 obind (if a1 \<noteq> MAX_REGISTER
                        then obind (reg a1 vm2) (\<lambda>v. obind (put_reg a1 (vm_temp_reg vm2) vm2) (\<lambda>vm3. Done (vm3\<lparr>vm_temp_reg := v\<rparr>)))
                        else Done vm2) (\<lambda>vm3.
                 obind (vm_Return a0 a1 (vm_temp_reg vm3) vm3) (\<lambda>(ends, r, vm4).
                 Done (True, ends, vm4\<lparr>vm_temp_reg := r\<rparr>)))))))"

definition OP_RESUME_step :: "(addr \<Rightarrow> sqobj) \<Rightarrow> int \<Rightarrow> int \<Rightarrow> sqvm \<Rightarrow> (bool \<times> sqvm) outcome" where
  "OP_RESUME_step wr a0 a1 vm =
     obind (reg a1 vm) (\<lambda>ob.
       case ob of
         ORef KGenerator g \<Rightarrow> gen_Resume wr g a0 vm
       | _ \<Rightarrow> Done (False, Raise_Error (''trying to resume a '' @ quoted (type_name ob) @
                              '',only genenerator can be resumed'') vm))"

section \<open>Errors\<close>

definition OP_PUSHTRAP_step :: "int \<Rightarrow> int \<Rightarrow> sqvm \<Rightarrow> sqvm outcome" where
  "OP_PUSHTRAP_step a0 a1 vm =
     (case vm_calls vm of
        [] \<Rightarrow> Undef
      | ci # cs \<Rightarrow>
          Done (vm\<lparr>vm_etraps := \<lparr>et_stackbase = vm_stackbase vm, et_stacksize = vm_top vm,
                                et_ip = ci_ip ci + a1, et_extarget = a0\<rparr> # vm_etraps vm,
                   vm_calls := ci\<lparr>ci_etraps := ci_etraps ci + 1\<rparr> # cs\<rparr>))"

fun OP_POPTRAP_step :: "nat \<Rightarrow> sqvm \<Rightarrow> sqvm outcome" where
  "OP_POPTRAP_step 0 vm = Done vm"
| "OP_POPTRAP_step (Suc n) vm =
     (case (vm_calls vm, vm_etraps vm) of
        (ci # cs, _ # ts) \<Rightarrow>
          OP_POPTRAP_step n (vm\<lparr>vm_etraps := ts, vm_calls := ci\<lparr>ci_etraps := ci_etraps ci - 1\<rparr> # cs\<rparr>)
      | _ \<Rightarrow> Undef)"

text \<open>
  What follows a raised error: frames are left up to one with a trap, whose handler goes on
  (the flag is true), or up to the first one that a native function called.
\<close>

fun unwind :: "nat \<Rightarrow> int \<Rightarrow> sqobj \<Rightarrow> sqvm \<Rightarrow> (bool \<times> sqvm) outcome" where
  "unwind 0 last_top currerror vm = Undef"
| "unwind (Suc n) last_top currerror vm =
     (case vm_calls vm of
        [] \<Rightarrow> Done (False, vm\<lparr>vm_lasterror := currerror\<rparr>)
      | ci # cs \<Rightarrow>
          if ci_etraps ci > 0 then
            (case vm_etraps vm of
               [] \<Rightarrow> Undef
             | et # ts \<Rightarrow>
                 obind (stk_put (et_stackbase et + et_extarget et) currerror
                   (vm\<lparr>vm_calls := ci\<lparr>ci_ip := et_ip et, ci_etraps := ci_etraps ci - 1\<rparr> # cs,
                       vm_top := et_stacksize et, vm_stackbase := et_stackbase et, vm_etraps := ts\<rparr>)) (\<lambda>vm1.
                 obind (null_slots (nat (last_top - et_stacksize et + 1)) last_top vm1) (\<lambda>vm2.
                 Done (True, vm2))))
          else
            obind (case ci_generator ci of None \<Rightarrow> Done vm | Some g \<Rightarrow> gen_Kill g vm) (\<lambda>vm1.
            obind (LeaveFrame vm1) (\<lambda>vm2.
            if ci_root ci then Done (False, vm2\<lparr>vm_lasterror := currerror\<rparr>)
            else unwind n last_top currerror vm2)))"

definition exception_trap :: "sqvm \<Rightarrow> (bool \<times> sqvm) outcome" where
  "exception_trap vm = unwind (Suc (length (vm_calls vm))) (vm_top vm) (vm_lasterror vm) vm"

end
