(* ===== verification/FrameProps.thy ===== *)
theory FrameProps
  imports Calls
begin

text \<open>
  What the stack and its captured variables promise: the list of open variables stays in the
  order of the stack, a variable has one value whether its slot is still on the stack or not,
  leaving a frame gives the caller its frame back, arguments reach the parameters, a generator
  goes on where it yielded, and an error reaches the innermost handler.
\<close>

section \<open>Slots\<close>

lemma stk_at_Done: "stk_at i vm = Done v \<longleftrightarrow> 0 \<le> i \<and> i < int (length (vm_stack vm)) \<and> v = vm_stack vm ! nat i"
  by (auto simp: stk_at_def)

lemma stk_put_Done: "stk_put i v vm = Done vm' \<longleftrightarrow>
    0 \<le> i \<and> i < int (length (vm_stack vm)) \<and> vm' = vm\<lparr>vm_stack := (vm_stack vm)[nat i := v]\<rparr>"
  by (auto simp: stk_put_def)

text \<open>Nulling a range downwards.\<close>

definition null_range :: "int \<Rightarrow> int \<Rightarrow> sqobj list \<Rightarrow> sqobj list" where
  "null_range lo hi xs = map (\<lambda>i. if lo \<le> int i \<and> int i \<le> hi then ONull else xs ! i) [0..<length xs]"

lemma null_range_length [simp]: "length (null_range lo hi xs) = length xs"
  by (simp add: null_range_def)

lemma null_range_nth [simp]:
  "i < length xs \<Longrightarrow> null_range lo hi xs ! i = (if lo \<le> int i \<and> int i \<le> hi then ONull else xs ! i)"
  by (simp add: null_range_def)

lemma null_range_empty [simp]: "hi < lo \<Longrightarrow> null_range lo hi xs = xs"
  by (rule nth_equalityI) auto

lemma null_slots_Done:
  "null_slots n i vm = Done vm' \<longleftrightarrow>
     (n = 0 \<or> 0 \<le> i - int n + 1 \<and> i < int (length (vm_stack vm))) \<and>
     vm' = vm\<lparr>vm_stack := null_range (i - int n + 1) i (vm_stack vm)\<rparr>"
proof (induction n arbitrary: i vm)
  case 0
  then show ?case by auto
next
  case (Suc n)
  show ?case
  proof (cases "0 \<le> i \<and> i < int (length (vm_stack vm))")
    case True
    let ?vm = "vm\<lparr>vm_stack := (vm_stack vm)[nat i := ONull]\<rparr>"
    have r: "null_range (i - 1 - int n + 1) (i - 1) ((vm_stack vm)[nat i := ONull]) =
        null_range (i - int (Suc n) + 1) i (vm_stack vm)"
      using True by (intro nth_equalityI) (auto simp: nth_list_update)
    from True have "null_slots (Suc n) i vm = null_slots n (i - 1) ?vm" by (simp add: stk_put_def)
    also have "\<dots> = Done vm' \<longleftrightarrow> (n = 0 \<or> 0 \<le> i - int n) \<and> vm' = vm\<lparr>vm_stack := null_range (i - int (Suc n) + 1) i (vm_stack vm)\<rparr>"
      unfolding Suc.IH using True r by auto
    finally show ?thesis using True by auto
  next
    case False
    then show ?thesis by (auto simp: stk_put_def)
  qed
qed

section \<open>The open variables\<close>

definition oidx :: "sqvm \<Rightarrow> addr \<Rightarrow> nat" where
  "oidx vm p = ot_idx (the (vm_outers vm p))"

definition outers_ok :: "sqvm \<Rightarrow> bool" where
  "outers_ok vm \<longleftrightarrow>
     (\<forall>p \<in> set (vm_openouters vm). \<exists>ot. vm_outers vm p = Some ot \<and>
        ot_valptr ot = OnStack (vm_gen vm) (ot_idx ot) \<and> ot_idx ot < length (vm_stack vm)) \<and>
     sorted_wrt (\<lambda>p q. oidx vm q < oidx vm p) (vm_openouters vm) \<and>
     (\<forall>p ot. vm_outers vm p = Some ot \<and> p \<notin> set (vm_openouters vm) \<longrightarrow> ot_valptr ot = Own)"

lemma outers_okD:
  assumes "outers_ok vm" "p \<in> set (vm_openouters vm)"
  shows "vm_outers vm p = Some (the (vm_outers vm p))"
    "ot_valptr (the (vm_outers vm p)) = OnStack (vm_gen vm) (oidx vm p)" "oidx vm p < length (vm_stack vm)"
  using assms by (auto simp: outers_ok_def oidx_def)

lemma outers_ok_sorted: "outers_ok vm \<Longrightarrow> sorted_wrt (\<lambda>p q. oidx vm q < oidx vm p) (vm_openouters vm)"
  by (simp add: outers_ok_def)

lemma outers_ok_closed: "outers_ok vm \<Longrightarrow> vm_outers vm p = Some ot \<Longrightarrow> p \<notin> set (vm_openouters vm) \<Longrightarrow> ot_valptr ot = Own"
  by (simp add: outers_ok_def)

lemma outers_ok_distinct:
  assumes "outers_ok vm" shows "distinct (vm_openouters vm)"
proof -
  have "sorted_wrt (\<lambda>p q. f q < (f p :: nat)) xs \<Longrightarrow> distinct xs" for f and xs :: "addr list"
    by (induction xs) auto
  with outers_ok_sorted [OF assms] show ?thesis by blast
qed

text \<open>The invariant reads only these fields.\<close>

lemma outers_ok_cong:
  assumes "length (vm_stack vm') = length (vm_stack vm)" "vm_gen vm' = vm_gen vm"
    "vm_openouters vm' = vm_openouters vm" "vm_outers vm' = vm_outers vm"
  shows "outers_ok vm' = outers_ok vm"
  using assms by (simp add: outers_ok_def oidx_def)

lemma open_index_ok: "outers_ok vm \<Longrightarrow> p \<in> set (vm_openouters vm) \<Longrightarrow> open_index p vm = Done (oidx vm p)"
  using outers_okD [of vm p] by (cases "vm_outers vm p") (simp_all add: open_index_def)

text \<open>A variable's value: its slot while it is open, its own field afterwards.\<close>

lemma outer_get_open:
  "outers_ok vm \<Longrightarrow> p \<in> set (vm_openouters vm) \<Longrightarrow> outer_get p vm = Done (vm_stack vm ! oidx vm p)"
  using outers_okD [of vm p] by (cases "vm_outers vm p") (simp_all add: outer_get_def stk_at_def)

lemma outer_get_closed:
  "outers_ok vm \<Longrightarrow> vm_outers vm p = Some ot \<Longrightarrow> p \<notin> set (vm_openouters vm) \<Longrightarrow> outer_get p vm = Done (ot_value ot)"
  using outers_ok_closed [of vm p ot] by (simp add: outer_get_def)

lemma outer_get_cong:
  assumes "vm_outers vm' q = vm_outers vm q" "vm_gen vm' = vm_gen vm" "vm_stack vm' = vm_stack vm"
  shows "outer_get q vm' = outer_get q vm"
  using assms by (cases "vm_outers vm q") (simp_all add: outer_get_def stk_at_def split: valptr.split)

lemma find_outer_ok:
  assumes "outers_ok vm" "\<And>p. p \<in> set ps \<Longrightarrow> p \<in> set (vm_openouters vm)" "sorted_wrt (\<lambda>p q. oidx vm q < oidx vm p) ps"
  shows "(\<exists>p \<in> set ps. find_outer idx k ps vm = Done (Some p, k + length (takeWhile (\<lambda>q. oidx vm q > idx) ps)) \<and> oidx vm p = idx) \<or>
    find_outer idx k ps vm = Done (None, k + length (takeWhile (\<lambda>q. oidx vm q > idx) ps)) \<and>
      (\<forall>q \<in> set ps. oidx vm q \<noteq> idx)"
  using assms(2,3)
proof (induction ps arbitrary: k)
  case (Cons p ps)
  have i: "open_index p vm = Done (oidx vm p)" using open_index_ok [OF assms(1)] Cons.prems(1) by simp
  show ?case
  proof (cases "oidx vm p > idx")
    case True
    with Cons.IH [of "Suc k"] Cons.prems i show ?thesis by (auto simp del: find_outer.simps simp: find_outer.simps(2) [of idx k p ps])
  next
    case False
    with Cons.prems i show ?thesis by auto
  qed
qed simp

lemma below_dropWhile:
  assumes "sorted_wrt (\<lambda>p q. f q < f p) xs" "\<forall>q \<in> set xs. f q \<noteq> (n :: nat)" "q \<in> set (dropWhile (\<lambda>q. f q > n) xs)"
  shows "f q < n"
  using assms by (induction xs) (auto split: if_splits simp: linorder_neq_iff dest: less_trans)

text \<open>Capturing a slot: there is one variable for it afterwards, and nothing else changes.\<close>

definition extends_outers :: "sqvm \<Rightarrow> sqvm \<Rightarrow> bool" where
  "extends_outers vm vm' \<longleftrightarrow>
     (\<forall>q ot. vm_outers vm q = Some ot \<longrightarrow> vm_outers vm' q = Some ot \<and>
        (q \<in> set (vm_openouters vm') \<longleftrightarrow> q \<in> set (vm_openouters vm))) \<and>
     vm'\<lparr>vm_outers := Map.empty, vm_openouters := []\<rparr> = vm\<lparr>vm_outers := Map.empty, vm_openouters := []\<rparr>"

lemma extends_outers_fields:
  assumes "extends_outers vm vm'"
  shows "vm_stack vm' = vm_stack vm" "vm_gen vm' = vm_gen vm"
    "vm_outers vm q = Some ot \<Longrightarrow> vm_outers vm' q = Some ot"
proof -
  have e: "vm'\<lparr>vm_outers := Map.empty, vm_openouters := []\<rparr> = vm\<lparr>vm_outers := Map.empty, vm_openouters := []\<rparr>"
    using assms by (simp only: extends_outers_def)
  show "vm_stack vm' = vm_stack vm" using arg_cong [OF e, of vm_stack] by simp
  show "vm_gen vm' = vm_gen vm" using arg_cong [OF e, of vm_gen] by simp
  show "vm_outers vm q = Some ot \<Longrightarrow> vm_outers vm' q = Some ot" using assms by (simp only: extends_outers_def)
qed

lemma FindOuter_ok:
  assumes ok: "outers_ok vm" and idx: "idx < length (vm_stack vm)" and new: "vm_outers vm new = None"
  obtains p vm' where "FindOuter new idx vm = Done (p, vm')" "outers_ok vm'" "p \<in> set (vm_openouters vm')"
    "oidx vm' p = idx" "extends_outers vm vm'" "p = new \<or> vm' = vm"
proof -
  let ?os = "vm_openouters vm" and ?k = "length (takeWhile (\<lambda>q. oidx vm q > idx) (vm_openouters vm))"
  from find_outer_ok [OF ok _ outers_ok_sorted [OF ok], of idx 0]
  consider p where "p \<in> set ?os" "find_outer idx 0 ?os vm = Done (Some p, ?k)" "oidx vm p = idx"
    | "find_outer idx 0 ?os vm = Done (None, ?k)" "\<forall>q \<in> set ?os. oidx vm q \<noteq> idx" by auto
  then show thesis
  proof cases
    case 1
    with ok show ?thesis by (intro that [of p vm]) (simp_all add: FindOuter_def extends_outers_def)
  next
    case 2
    let ?a = "takeWhile (\<lambda>q. oidx vm q > idx) ?os" and ?b = "dropWhile (\<lambda>q. oidx vm q > idx) ?os"
    let ?ot = "\<lparr>ot_valptr = OnStack (vm_gen vm) idx, ot_idx = idx, ot_value = ONull\<rparr>"
    let ?vm = "vm\<lparr>vm_outers := (vm_outers vm)(new \<mapsto> ?ot), vm_openouters := ?a @ new # ?b\<rparr>"
    have split: "take ?k ?os = ?a" "drop ?k ?os = ?b" by (simp_all add: takeWhile_eq_take [symmetric] dropWhile_eq_drop [symmetric])
    have fresh_new: "new \<notin> set ?os" using outers_okD(1) [OF ok] new by fastforce
    have same: "oidx ?vm q = oidx vm q" if "q \<in> set ?os" for q using that fresh_new by (auto simp: oidx_def)
    have os: "set ?a \<union> set ?b = set ?os" by (metis set_append takeWhile_dropWhile_id)
    have "sorted_wrt (\<lambda>p q. oidx vm q < oidx vm p) (?a @ ?b)" using outers_ok_sorted [OF ok] by simp
    then have "sorted_wrt (\<lambda>p q. oidx ?vm q < oidx ?vm p) (?a @ ?b)"
      by (rule sorted_wrt_mono_rel [rotated]) (use same os in auto)
    then have "sorted_wrt (\<lambda>p q. oidx ?vm q < oidx ?vm p) ?a" "sorted_wrt (\<lambda>p q. oidx ?vm q < oidx ?vm p) ?b"
      unfolding sorted_wrt_append by blast+
    moreover have "oidx ?vm new = idx" by (simp add: oidx_def)
    moreover have "\<forall>q \<in> set ?a. idx < oidx ?vm q" using same os by (auto dest: set_takeWhileD)
    moreover have "\<forall>q \<in> set ?b. oidx ?vm q < idx"
      using below_dropWhile [OF outers_ok_sorted [OF ok] 2(2)] same [OF set_dropWhileD] by (intro ballI) simp
    ultimately have sorted: "sorted_wrt (\<lambda>p q. oidx ?vm q < oidx ?vm p) (?a @ new # ?b)"
      unfolding sorted_wrt_append by (auto intro: less_trans)
    have ok': "outers_ok ?vm"
    proof -
      have "\<exists>ot. vm_outers ?vm p = Some ot \<and> ot_valptr ot = OnStack (vm_gen ?vm) (ot_idx ot) \<and> ot_idx ot < length (vm_stack ?vm)"
        if "p \<in> set (vm_openouters ?vm)" for p
        using that os outers_okD [OF ok] idx by (cases "p = new") (fastforce simp: oidx_def)+
      moreover have "ot_valptr ot = Own" if "vm_outers ?vm p = Some ot" "p \<notin> set (vm_openouters ?vm)" for p ot
        using that os outers_ok_closed [OF ok] by (auto split: if_splits)
      ultimately show ?thesis unfolding outers_ok_def using sorted by auto
    qed
    show ?thesis
    proof (rule that [of new ?vm])
      show "FindOuter new idx vm = Done (new, ?vm)" using 2(1) by (simp add: FindOuter_def split)
      show "extends_outers vm ?vm" unfolding extends_outers_def using os new by auto
    qed (use ok' in \<open>simp_all add: oidx_def\<close>)
  qed
qed

text \<open>Closing: the variables from a slot on get their values, the others stay open.\<close>

definition keeps_values :: "sqvm \<Rightarrow> sqvm \<Rightarrow> bool" where
  "keeps_values vm vm' \<longleftrightarrow> (\<forall>q. vm_outers vm q \<noteq> None \<longrightarrow> vm_outers vm' q \<noteq> None \<and> outer_get q vm' = outer_get q vm)"

lemma keeps_values_trans: "keeps_values a b \<Longrightarrow> keeps_values b c \<Longrightarrow> keeps_values a c"
  by (simp add: keeps_values_def)

lemma close_outers_ok:
  assumes "outers_ok vm" "vm_openouters vm = ps"
  obtains h where "close_outers lim ps vm = Done (vm\<lparr>vm_outers := h, vm_openouters := filter (\<lambda>q. oidx vm q < lim) ps\<rparr>)"
    "outers_ok (vm\<lparr>vm_outers := h, vm_openouters := filter (\<lambda>q. oidx vm q < lim) ps\<rparr>)"
    "keeps_values vm (vm\<lparr>vm_outers := h, vm_openouters := filter (\<lambda>q. oidx vm q < lim) ps\<rparr>)"
    "\<And>q. q \<notin> set ps \<or> oidx vm q < lim \<Longrightarrow> h q = vm_outers vm q"
  using assms
proof (induction ps arbitrary: vm thesis)
  case Nil
  then have e: "vm\<lparr>vm_outers := vm_outers vm, vm_openouters := filter (\<lambda>q. oidx vm q < lim) []\<rparr> = vm"
    by (cases vm) simp
  show ?case
    by (rule Nil.prems(1) [of "vm_outers vm", unfolded e]) (use Nil.prems(2) in \<open>simp_all add: keeps_values_def\<close>)
next
  case (Cons p ps)
  note ok = Cons.prems(2) and os = Cons.prems(3)
  have p: "p \<in> set (vm_openouters vm)" using os by simp
  have i: "open_index p vm = Done (oidx vm p)" by (rule open_index_ok [OF ok p])
  have below: "\<forall>q \<in> set ps. oidx vm q < oidx vm p" using outers_ok_sorted [OF ok] os by simp
  show ?case
  proof (cases "oidx vm p < lim")
    case True
    with below have "filter (\<lambda>q. oidx vm q < lim) (p # ps) = p # ps" by (auto simp: filter_id_conv)
    with os have e: "vm\<lparr>vm_outers := vm_outers vm, vm_openouters := filter (\<lambda>q. oidx vm q < lim) (p # ps)\<rparr> = vm"
      by (cases vm) simp
    show ?thesis
      by (rule Cons.prems(1) [of "vm_outers vm", unfolded e]) (use True i ok in \<open>simp_all add: keeps_values_def\<close>)
  next
    case False
    obtain ot where ot: "vm_outers vm p = Some ot" using outers_okD(1) [OF ok p] by blast
    let ?v = "vm_stack vm ! oidx vm p"
    let ?vm = "vm\<lparr>vm_outers := (vm_outers vm)(p \<mapsto> ot\<lparr>ot_valptr := Own, ot_value := ?v\<rparr>), vm_openouters := ps\<rparr>"
    have pn: "p \<notin> set ps" using outers_ok_distinct [OF ok] os by simp
    have same: "oidx ?vm q = oidx vm q" if "q \<in> set ps" for q using that pn by (auto simp: oidx_def)
    have ok': "outers_ok ?vm"
      unfolding outers_ok_def
    proof (intro conjI ballI allI impI)
      fix q assume q: "q \<in> set (vm_openouters ?vm)"
      then have "q \<noteq> p" "q \<in> set (vm_openouters vm)" using pn os by auto
      with outers_okD [OF ok this(2)]
      show "\<exists>ot. vm_outers ?vm q = Some ot \<and> ot_valptr ot = OnStack (vm_gen ?vm) (ot_idx ot) \<and> ot_idx ot < length (vm_stack ?vm)"
        by (auto simp: oidx_def)
    next
      have "sorted_wrt (\<lambda>p q. oidx vm q < oidx vm p) ps" using outers_ok_sorted [OF ok] os by simp
      then have "sorted_wrt (\<lambda>p q. oidx ?vm q < oidx ?vm p) ps"
        by (rule sorted_wrt_mono_rel [rotated]) (use same in auto)
      then show "sorted_wrt (\<lambda>p q. oidx ?vm q < oidx ?vm p) (vm_openouters ?vm)" by simp
    next
      fix q o' assume "vm_outers ?vm q = Some o' \<and> q \<notin> set (vm_openouters ?vm)"
      then show "ot_valptr o' = Own" using outers_ok_closed [OF ok] os by (auto split: if_splits)
    qed
    have keep: "keeps_values vm ?vm"
      unfolding keeps_values_def
    proof (intro allI impI conjI)
      fix q assume q: "vm_outers vm q \<noteq> None"
      then show "vm_outers ?vm q \<noteq> None" by simp
      show "outer_get q ?vm = outer_get q vm"
      proof (cases "q = p")
        case True
        then show ?thesis using outer_get_open [OF ok p] by (simp add: outer_get_def)
      next
        case False
        then show ?thesis by (intro outer_get_cong) simp_all
      qed
    qed
    from Cons.IH [OF _ ok'] obtain h where h:
      "close_outers lim ps ?vm = Done (?vm\<lparr>vm_outers := h, vm_openouters := filter (\<lambda>q. oidx ?vm q < lim) ps\<rparr>)"
      "outers_ok (?vm\<lparr>vm_outers := h, vm_openouters := filter (\<lambda>q. oidx ?vm q < lim) ps\<rparr>)"
      "keeps_values ?vm (?vm\<lparr>vm_outers := h, vm_openouters := filter (\<lambda>q. oidx ?vm q < lim) ps\<rparr>)"
      "\<And>q. q \<notin> set ps \<or> oidx ?vm q < lim \<Longrightarrow> h q = vm_outers ?vm q" by auto
    have f: "filter (\<lambda>q. oidx ?vm q < lim) ps = filter (\<lambda>q. oidx vm q < lim) (p # ps)"
      using False same by (auto intro: filter_cong)
    have c: "close_outers lim (p # ps) vm = close_outers lim ps ?vm"
      using i False outer_get_open [OF ok p] ot by simp
    show ?thesis
    proof (rule Cons.prems(1) [of h])
      show "close_outers lim (p # ps) vm = Done (vm\<lparr>vm_outers := h, vm_openouters := filter (\<lambda>q. oidx vm q < lim) (p # ps)\<rparr>)"
        using h(1) unfolding c f by simp
      show "outers_ok (vm\<lparr>vm_outers := h, vm_openouters := filter (\<lambda>q. oidx vm q < lim) (p # ps)\<rparr>)"
        using h(2) unfolding f by simp
      show "keeps_values vm (vm\<lparr>vm_outers := h, vm_openouters := filter (\<lambda>q. oidx vm q < lim) (p # ps)\<rparr>)"
        using keeps_values_trans [OF keep h(3)] unfolding f by simp
      show "h q = vm_outers vm q" if "q \<notin> set (p # ps) \<or> oidx vm q < lim" for q
        using h(4) [of q] that same [of q] False by (cases "q = p") auto
    qed
  qed
qed

lemmas CloseOuters_ok = close_outers_ok [OF _ refl, folded CloseOuters_def]

text \<open>Moving the stack: every open variable points to its slot again.\<close>

lemma fold_relocate:
  "distinct ps \<Longrightarrow> fold (relocate g) ps h q =
     (if q \<in> set ps then map_option (\<lambda>ot. ot\<lparr>ot_valptr := OnStack g (ot_idx ot)\<rparr>) (h q) else h q)"
  by (induction ps arbitrary: h) (auto simp: relocate_def)

lemma stack_resize_simps [simp]:
  "vm_openouters (stack_resize n vm) = vm_openouters vm" "vm_outers (stack_resize n vm) = vm_outers vm"
  "vm_top (stack_resize n vm) = vm_top vm" "vm_stackbase (stack_resize n vm) = vm_stackbase vm"
  "vm_calls (stack_resize n vm) = vm_calls vm" "vm_etraps (stack_resize n vm) = vm_etraps vm"
  "vm_stack (stack_resize n vm) = take n (vm_stack vm) @ replicate (n - length (vm_stack vm)) ONull"
  "vm_generators (stack_resize n vm) = vm_generators vm" "vm_closures (stack_resize n vm) = vm_closures vm"
  "vm_protos (stack_resize n vm) = vm_protos vm" "vm_arrays (stack_resize n vm) = vm_arrays vm"
  "vm_lasterror (stack_resize n vm) = vm_lasterror vm" "vm_nmetamethodscall (stack_resize n vm) = vm_nmetamethodscall vm"
  by (simp_all add: stack_resize_def Let_def)

lemma RelocateOuters_ok:
  assumes ok: "outers_ok vm" and n: "length (vm_stack vm) \<le> n"
  shows "outers_ok (RelocateOuters (stack_resize n vm))" "keeps_values vm (RelocateOuters (stack_resize n vm))"
proof -
  let ?s = "stack_resize n vm" let ?vm = "RelocateOuters ?s"
  have h: "vm_outers ?vm q = (if q \<in> set (vm_openouters vm)
      then map_option (\<lambda>ot. ot\<lparr>ot_valptr := OnStack (vm_gen ?s) (ot_idx ot)\<rparr>) (vm_outers vm q) else vm_outers vm q)" for q
    using outers_ok_distinct [OF ok] by (simp add: RelocateOuters_def fold_relocate)
  have f: "vm_openouters ?vm = vm_openouters vm" "vm_gen ?vm = vm_gen ?s" "vm_stack ?vm = vm_stack ?s"
    by (simp_all add: RelocateOuters_def)
  have i: "oidx ?vm q = oidx vm q" for q unfolding oidx_def h by (cases "vm_outers vm q") auto
  have slot: "vm_stack ?vm ! oidx vm q = vm_stack vm ! oidx vm q" "oidx vm q < length (vm_stack ?vm)"
    if "q \<in> set (vm_openouters vm)" for q
    using outers_okD(3) [OF ok that] n by (simp_all add: f nth_append)
  show ok': "outers_ok ?vm"
    unfolding outers_ok_def i f
  proof (intro conjI ballI allI impI)
    fix p assume p: "p \<in> set (vm_openouters vm)"
    then obtain ot where "vm_outers vm p = Some ot" using outers_okD(1) [OF ok] by blast
    with p slot(2) [OF p] show "\<exists>ot. vm_outers ?vm p = Some ot \<and> ot_valptr ot = OnStack (vm_gen ?s) (ot_idx ot) \<and> ot_idx ot < length (vm_stack ?s)"
      by (simp add: h f oidx_def)
  next
    show "sorted_wrt (\<lambda>p q. oidx vm q < oidx vm p) (vm_openouters vm)" by (rule outers_ok_sorted [OF ok])
  next
    fix p ot assume "vm_outers ?vm p = Some ot \<and> p \<notin> set (vm_openouters vm)"
    then show "ot_valptr ot = Own" using outers_ok_closed [OF ok] by (auto simp: h split: if_splits)
  qed
  show "keeps_values vm ?vm"
    unfolding keeps_values_def
  proof (intro allI impI conjI)
    fix q assume q: "vm_outers vm q \<noteq> None"
    then show "vm_outers ?vm q \<noteq> None" by (simp add: h)
    show "outer_get q ?vm = outer_get q vm"
    proof (cases "q \<in> set (vm_openouters vm)")
      case True
      then show ?thesis using outer_get_open [OF ok] outer_get_open [OF ok'] slot by (simp add: f i)
    next
      case False
      then show ?thesis using q outer_get_closed [OF ok] outer_get_closed [OF ok'] by (auto simp: f h)
    qed
  qed
qed

text \<open>Writing a slot changes the variable that is open there.\<close>

lemma stk_put_outers:
  assumes "outers_ok vm" "stk_put i v vm = Done vm'"
  shows "outers_ok vm'"
    "vm_outers vm q \<noteq> None \<Longrightarrow> outer_get q vm' = (if q \<in> set (vm_openouters vm) \<and> oidx vm q = nat i then Done v else outer_get q vm)"
proof -
  have vm': "vm' = vm\<lparr>vm_stack := (vm_stack vm)[nat i := v]\<rparr>" "nat i < length (vm_stack vm)" using assms(2) by (auto simp: stk_put_Done)
  show ok': "outers_ok vm'" using assms(1) by (subst outers_ok_cong [of vm' vm]) (simp_all add: vm')
  assume q: "vm_outers vm q \<noteq> None"
  show "outer_get q vm' = (if q \<in> set (vm_openouters vm) \<and> oidx vm q = nat i then Done v else outer_get q vm)"
  proof (cases "q \<in> set (vm_openouters vm)")
    case True
    then have "outer_get q vm' = Done (vm_stack vm' ! oidx vm' q)" using outer_get_open [OF ok'] by (simp add: vm')
    moreover have "oidx vm' q = oidx vm q" by (simp add: oidx_def vm')
    ultimately show ?thesis using outer_get_open [OF assms(1) True] vm' True by (simp add: nth_list_update)
  next
    case False
    then show ?thesis using q outer_get_closed [OF assms(1)] outer_get_closed [OF ok'] by (auto simp: vm')
  qed
qed

section \<open>Every operation keeps the invariant\<close>

lemma outers_ok_fields [simp]:
  "outers_ok (vm\<lparr>vm_top := a\<rparr>) = outers_ok vm" "outers_ok (vm\<lparr>vm_stackbase := a\<rparr>) = outers_ok vm"
  "outers_ok (vm\<lparr>vm_arrays := b\<rparr>) = outers_ok vm" "outers_ok (vm\<lparr>vm_closures := c\<rparr>) = outers_ok vm"
  "outers_ok (vm\<lparr>vm_generators := d\<rparr>) = outers_ok vm" "outers_ok (vm\<lparr>vm_calls := e\<rparr>) = outers_ok vm"
  "outers_ok (vm\<lparr>vm_alloccalls := f\<rparr>) = outers_ok vm" "outers_ok (vm\<lparr>vm_etraps := g\<rparr>) = outers_ok vm"
  "outers_ok (vm\<lparr>vm_lasterror := h\<rparr>) = outers_ok vm" "outers_ok (vm\<lparr>vm_temp_reg := h\<rparr>) = outers_ok vm"
  "outers_ok (Raise_Error str vm) = outers_ok vm" "outers_ok (gen_put i ge vm) = outers_ok vm"
  by (simp_all add: outers_ok_def oidx_def Raise_Error_def gen_put_def)

named_theorems keeps

abbreviation kept :: "sqvm outcome \<Rightarrow> bool" where "kept \<equiv> wp False outers_ok"
abbreviation kept2 :: "('a \<times> sqvm) outcome \<Rightarrow> bool" where "kept2 \<equiv> wp False (\<lambda>(_, vm). outers_ok vm)"
abbreviation kept3 :: "('a \<times> 'b \<times> sqvm) outcome \<Rightarrow> bool" where "kept3 \<equiv> wp False (\<lambda>(_, _, vm). outers_ok vm)"

lemma kept_then: "kept m \<Longrightarrow> (\<And>vm. outers_ok vm \<Longrightarrow> wp False Q (f vm)) \<Longrightarrow> wp False Q (obind m f)"
  by (rule wp_bind2)

lemma kept2_then:
  assumes "kept2 m" "\<And>x vm. outers_ok vm \<Longrightarrow> wp False Q (f x vm)"
  shows "wp False Q (obind m (\<lambda>(x, vm). f x vm))"
  by (rule wp_bind2 [OF assms(1)]) (use assms(2) in auto)

lemma kept3_then:
  assumes "kept3 m" "\<And>x y vm. outers_ok vm \<Longrightarrow> wp False Q (f x y vm)"
  shows "wp False Q (obind m (\<lambda>(x, y, vm). f x y vm))"
  by (rule wp_bind2 [OF assms(1)]) (use assms(2) in auto)

lemma put_kept [keeps]: "outers_ok vm \<Longrightarrow> kept (stk_put i v vm)"
  using stk_put_outers(1) [of vm i v] by (cases "stk_put i v vm") auto

lemma null_slots_kept [keeps]: "outers_ok vm \<Longrightarrow> kept (null_slots n i vm)"
  by (induction n arbitrary: i vm) (auto intro: wp_bind2 put_kept)

lemma stk_write_kept [keeps]: "outers_ok vm \<Longrightarrow> kept (stk_write i vs vm)"
  by (induction vs arbitrary: i vm) (auto intro: wp_bind2 put_kept)

lemma put_reg_kept [keeps]: "outers_ok vm \<Longrightarrow> kept (put_reg a v vm)"
  unfolding put_reg_def by (rule put_kept)

lemma shift_down_kept [keeps]: "outers_ok vm \<Longrightarrow> kept (shift_down n i vm)"
proof (induction n arbitrary: i vm)
  case (Suc n)
  then show ?case unfolding shift_down.simps by (intro wp_pass kept_then [OF put_kept])
qed simp

lemma move_down_kept [keeps]: "outers_ok vm \<Longrightarrow> kept (move_down n i a vm)"
proof (induction n arbitrary: i vm)
  case (Suc n)
  then show ?case unfolding move_down.simps by (intro wp_pass kept_then [OF put_reg_kept])
qed simp

lemma Push_kept [keeps]: "outers_ok vm \<Longrightarrow> kept (vm_Push v vm)"
  unfolding vm_Push_def by (rule kept_then [OF put_kept]) simp_all

lemma Pop_kept [keeps]: "outers_ok vm \<Longrightarrow> kept (vm_Pop vm)"
  unfolding vm_Pop_def by (rule kept_then [OF put_kept]) simp_all

lemma PopN_kept [keeps]: "outers_ok vm \<Longrightarrow> kept (vm_PopN n vm)"
  by (induction n arbitrary: vm) (auto intro: kept_then [OF Pop_kept])

lemma Remove_kept [keeps]: "outers_ok vm \<Longrightarrow> kept (vm_Remove n vm)"
  unfolding vm_Remove_def Let_def
  by (rule kept_then [OF shift_down_kept], assumption, rule kept_then [OF put_kept]) simp_all

lemma outer_set_kept [keeps]:
  assumes "outers_ok vm" shows "kept (outer_set p v vm)"
proof (cases "vm_outers vm p")
  case (Some ot)
  show ?thesis
  proof (cases "ot_valptr ot")
    case (OnStack g i)
    with assms Some show ?thesis by (simp add: outer_set_def put_kept)
  next
    case Own
    let ?vm = "vm\<lparr>vm_outers := (vm_outers vm)(p \<mapsto> ot\<lparr>ot_value := v\<rparr>)\<rparr>"
    from assms Some Own have "p \<notin> set (vm_openouters vm)" using outers_okD(2) [of vm p] by auto
    moreover have "oidx ?vm q = oidx vm q" for q using Some by (simp add: oidx_def)
    ultimately have "outers_ok ?vm"
      using assms Some unfolding outers_ok_def by (auto split: if_splits)
    with Some Own show ?thesis by (simp add: outer_set_def)
  qed
qed (simp add: outer_set_def)

lemma CloseOuters_kept [keeps]: "outers_ok vm \<Longrightarrow> kept (CloseOuters lim vm)"
  by (rule CloseOuters_ok [of vm lim]) simp_all

lemma FindOuter_kept:
  assumes "outers_ok vm" "vm_outers vm new = None" "idx < length (vm_stack vm)"
  shows "kept2 (FindOuter new idx vm)"
  by (rule FindOuter_ok [OF assms(1,3,2)]) simp

lemma EnterFrame_kept [keeps]:
  assumes "outers_ok vm" shows "kept2 (EnterFrame nb nt tc vm)"
proof -
  have r: "outers_ok (RelocateOuters (stack_resize (length (vm_stack vm') + n) vm'))" if "outers_ok vm'" for n vm'
    using RelocateOuters_ok(1) [OF that] by simp
  have c: "kept (if \<not> tc then Done (vm\<lparr>vm_alloccalls := a, vm_calls := cs\<rparr>)
      else case vm_calls vm of [] \<Rightarrow> Undef | ci # cs \<Rightarrow> Done (vm\<lparr>vm_calls := ci\<lparr>ci_ncalls := ci_ncalls ci + 1\<rparr> # cs\<rparr>))" for a cs
    using assms by (auto split: list.split)
  have e: "kept2 (let vm2 = vm1\<lparr>vm_stackbase := nb, vm_top := nt\<rparr> in
          if nt + MIN_STACK_OVERHEAD > int (length (vm_stack vm2)) then
            (if vm_nmetamethodscall vm2 \<noteq> 0
             then Done (False, Raise_Error ''stack overflow, cannot resize stack while in  a metamethod'' vm2)
             else Done (True, RelocateOuters
                    (stack_resize (length (vm_stack vm2) + nat (MIN_STACK_OVERHEAD * 4)) vm2)))
          else Done (True, vm2))" if "outers_ok vm1" for vm1
    using r [of "vm1\<lparr>vm_stackbase := nb, vm_top := nt\<rparr>"] that by (simp add: Let_def)
  show ?thesis unfolding EnterFrame_def by (rule kept_then [OF c e])
qed

lemma LeaveFrame_kept [keeps]:
  assumes "outers_ok vm" shows "kept (LeaveFrame vm)"
proof (cases "vm_calls vm")
  case (Cons ci cs)
  have "kept (obind (if vm_openouters vm1 \<noteq> [] then (if b < 0 then Undef else CloseOuters (nat b) vm1) else Done vm1)
      (null_slots n i))" if "outers_ok vm1" for vm1 b n i
    by (rule kept_then [OF _ null_slots_kept]) (use that CloseOuters_kept in auto)
  then show ?thesis unfolding LeaveFrame_def Let_def Cons list.case by this (use assms in simp)
qed (simp add: LeaveFrame_def)

lemma Return_kept [keeps]:
  assumes "outers_ok vm" shows "kept3 (vm_Return a0 a1 r vm)"
proof (cases "vm_calls vm")
  case (Cons ci cs)
  have "kept2 (if ci_root ci then obind m (\<lambda>v. Done (v, vm))
                  else if ci_target ci = - 1 then Done (r, vm)
                  else obind m (\<lambda>v. obind (stk_put i v vm) (\<lambda>vm'. Done (r, vm'))))" for m i
  proof -
    have "kept2 (obind m (\<lambda>v. obind (stk_put i v vm) (\<lambda>vm'. Done (r, vm'))))"
      by (rule wp_pass, rule kept_then [OF put_kept]) (use assms in auto)
    moreover have "kept2 (obind m (\<lambda>v. Done (v, vm)))" by (rule wp_pass) (use assms in simp)
    ultimately show ?thesis using assms by simp
  qed
  then show ?thesis unfolding vm_Return_def Let_def Cons list.case
    by (rule kept2_then) (auto intro: kept_then [OF LeaveFrame_kept])
qed (simp add: vm_Return_def)

lemma gen_Kill_kept [keeps]: "outers_ok vm \<Longrightarrow> kept (gen_Kill g vm)"
  unfolding gen_Kill_def by (rule wp_pass) simp

lemma gen_Yield_kept [keeps]: "outers_ok vm \<Longrightarrow> kept2 (gen_Yield weak g target vm)"
  unfolding gen_Yield_def Let_def
  by (intro wp_pass wp_if kept_then [OF null_slots_kept]) (simp_all split: list.split)

lemma gen_Resume_kept [keeps]: "outers_ok vm \<Longrightarrow> kept2 (gen_Resume wr g target vm)"
  unfolding gen_Resume_def Let_def
  by (intro wp_pass wp_if kept2_then [OF EnterFrame_kept])
    (auto split: list.split intro!: kept_then [OF put_kept] kept_then [OF stk_write_kept])

lemma pass_arguments_kept [keeps]: "outers_ok vm \<Longrightarrow> kept2 (pass_arguments arr f c args base vm)"
  unfolding pass_arguments_def Let_def
  by (intro wp_pass wp_if kept_then [OF null_slots_kept] kept_then [OF put_kept] kept_then [OF stk_write_kept])
    simp_all

lemma bind_env_kept [keeps]: "outers_ok vm \<Longrightarrow> kept (bind_env wr c base vm)"
  by (simp add: bind_env_def put_kept split: option.split)

lemma set_ci_kept [keeps]: "outers_ok vm \<Longrightarrow> kept (set_ci f vm)"
  by (simp add: set_ci_def split: list.split)

lemma start_generator_kept [keeps]: "outers_ok vm \<Longrightarrow> kept2 (start_generator weak g clo f target vm)"
  unfolding start_generator_def
  by (intro wp_pass wp_if kept2_then [OF gen_Yield_kept] kept3_then [OF Return_kept] kept_then [OF put_kept]) simp_all

lemma StartCall_kept [keeps]: "outers_ok vm \<Longrightarrow> kept2 (StartCall wr weak arr gen clo target args sb tc vm)"
  unfolding StartCall_def
  by (intro wp_pass wp_if kept2_then [OF pass_arguments_kept] kept_then [OF bind_env_kept]
      kept2_then [OF EnterFrame_kept] kept_then [OF set_ci_kept] start_generator_kept) simp_all

lemma FindOuter_fresh: "FindOuter new idx vm = Done (p, vm') \<Longrightarrow> vm_outers vm q = None \<Longrightarrow> q \<noteq> new \<Longrightarrow> vm_outers vm' q = None"
  by (auto simp: FindOuter_def obind_Done split: option.splits)

lemma capture_all_kept:
  "outers_ok vm \<Longrightarrow> inj new \<Longrightarrow> (\<And>j. k \<le> j \<Longrightarrow> vm_outers vm (new j) = None) \<Longrightarrow> kept2 (capture_all new k vs vm)"
proof (induction vs arbitrary: k vm)
  case (Cons v vs)
  have rest: "kept2 (obind (capture_all new (Suc k) vs vm1) (\<lambda>(ps, vm2). Done (ORef KOuter p # ps, vm2)))"
    if "outers_ok vm1" "\<And>j. Suc k \<le> j \<Longrightarrow> vm_outers vm1 (new j) = None" for p vm1
    by (rule kept2_then [OF Cons.IH [OF that(1) Cons.prems(2) that(2)]]) simp_all
  have find: "wp False (\<lambda>(p, vm1). outers_ok vm1 \<and> (\<forall>j \<ge> Suc k. vm_outers vm1 (new j) = None))
      (FindOuter (new k) idx vm)" if "idx < length (vm_stack vm)" for idx
  proof (cases "FindOuter (new k) idx vm")
    case (Done x)
    obtain p vm1 where x: "x = (p, vm1)" by fastforce
    have "vm_outers vm1 (new j) = None" if "Suc k \<le> j" for j
    proof (rule FindOuter_fresh [OF Done [unfolded x]])
      show "vm_outers vm (new j) = None" using that by (intro Cons.prems(3)) simp
      show "new j \<noteq> new k" using that Cons.prems(2) by (auto dest: injD)
    qed
    moreover have "outers_ok vm1"
      using FindOuter_kept [OF Cons.prems(1) Cons.prems(3) [OF order_refl] that] Done x by simp
    ultimately show ?thesis using Done x by simp
  qed simp_all
  have step: "wp False (\<lambda>(p, vm1). outers_ok vm1 \<and> (\<forall>j \<ge> Suc k. vm_outers vm1 (new j) = None))
     (case ov_type v of
              otLOCAL \<Rightarrow>
                (if 0 \<le> vm_stackbase vm + src \<and> vm_stackbase vm + src < int (length (vm_stack vm))
                 then FindOuter (new k) (nat (vm_stackbase vm + src)) vm else Undef)
            | otOUTER \<Rightarrow> obind (captured src vm) (\<lambda>p. Done (p, vm)))" for src
    using find [of "nat (vm_stackbase vm + src)"] Cons.prems by (auto split: outertype.split intro!: wp_pass)
  show ?case unfolding capture_all.simps
    by (rule wp_pass, rule wp_bind2 [OF step]) (use rest in auto)
qed simp

lemma CLOSURE_OP_kept:
  assumes "outers_ok vm" "inj new" "\<And>j. vm_outers vm (new j) = None"
  shows "kept (CLOSURE_OP new clo target func vm)"
  unfolding CLOSURE_OP_def
  by (rule wp_pass, rule kept2_then [OF capture_all_kept [OF assms(1,2)]], simp add: assms(3),
      rule wp_pass, rule put_reg_kept, simp)

lemma OP_CLOSE_kept [keeps]: "outers_ok vm \<Longrightarrow> kept (OP_CLOSE_step a vm)"
  unfolding OP_CLOSE_step_def by (intro wp_if CloseOuters_kept) simp_all

lemma OP_TAILCALL_kept [keeps]: "outers_ok vm \<Longrightarrow> kept2 (OP_TAILCALL_step wr weak arr gen clo a2 a3 vm)"
  unfolding OP_TAILCALL_step_def
  by (rule kept_then [OF OP_CLOSE_kept], assumption, rule kept_then [OF move_down_kept], assumption)
    (auto split: list.split intro: StartCall_kept)

lemma kill_first: "outers_ok vm \<Longrightarrow> kept (case g of None \<Rightarrow> Done vm | Some a \<Rightarrow> gen_Kill a vm)"
  by (simp add: gen_Kill_kept split: option.split)

lemma OP_RETURN_kept [keeps]: "outers_ok vm \<Longrightarrow> kept2 (OP_RETURN_step a0 a1 vm)"
  unfolding OP_RETURN_step_def
  by (auto split: list.split intro!: kept_then [OF kill_first] kept3_then [OF Return_kept])

lemma OP_YIELD_kept [keeps]:
  assumes "outers_ok vm" shows "kept3 (OP_YIELD_step weak a0 a1 a2 vm)"
proof (cases "vm_calls vm")
  case (Cons ci cs)
  have t: "kept (if b then obind (reg a1 vm) (\<lambda>v. Done (vm\<lparr>vm_temp_reg := v\<rparr>)) else Done vm)" for b
    using assms by (auto intro: wp_pass)
  have w: "kept (if b then obind (reg a1 vm2) (\<lambda>v. obind (put_reg a1 (vm_temp_reg vm2) vm2) (\<lambda>vm3. Done (vm3\<lparr>vm_temp_reg := v\<rparr>)))
      else Done vm2)" if "outers_ok vm2" for b vm2
    by (rule wp_if, rule wp_pass, rule kept_then [OF put_reg_kept]) (use that in simp_all)
  show ?thesis
  proof (cases "ci_generator ci")
    case (Some g)
    show ?thesis unfolding OP_YIELD_step_def Cons list.case Some option.case
      by (rule kept_then [OF t], rule kept2_then [OF gen_Yield_kept], assumption, rule wp_if, simp,
          rule kept_then [OF w], assumption, rule kept3_then [OF Return_kept], assumption) simp
  qed (simp add: OP_YIELD_step_def Cons)
qed (simp add: OP_YIELD_step_def)

lemma OP_RESUME_kept [keeps]: "outers_ok vm \<Longrightarrow> kept2 (OP_RESUME_step wr a0 a1 vm)"
  unfolding OP_RESUME_step_def
  by (rule wp_pass) (auto split: sqobj.split refkind.split intro: gen_Resume_kept)

lemma OP_PUSHTRAP_kept [keeps]: "outers_ok vm \<Longrightarrow> kept (OP_PUSHTRAP_step a0 a1 vm)"
  by (simp add: OP_PUSHTRAP_step_def split: list.split)

lemma OP_POPTRAP_kept [keeps]: "outers_ok vm \<Longrightarrow> kept (OP_POPTRAP_step n vm)"
  by (induction n arbitrary: vm) (auto split: list.split)

lemma unwind_kept [keeps]: "outers_ok vm \<Longrightarrow> kept2 (unwind n t e vm)"
proof (induction n arbitrary: vm)
  case (Suc n)
  show ?case
  proof (cases "vm_calls vm")
    case (Cons ci cs)
    have "kept2 (case vm_etraps vm of [] \<Rightarrow> Undef
             | et # ts \<Rightarrow>
                 obind (stk_put (et_stackbase et + et_extarget et) e
                   (vm\<lparr>vm_calls := ci\<lparr>ci_ip := et_ip et, ci_etraps := ci_etraps ci - 1\<rparr> # cs,
                       vm_top := et_stacksize et, vm_stackbase := et_stackbase et, vm_etraps := ts\<rparr>)) (\<lambda>vm1.
                 obind (null_slots (nat (t - et_stacksize et + 1)) t vm1) (\<lambda>vm2. Done (True, vm2))))"
      using Suc.prems by (auto split: list.split intro!: kept_then [OF put_kept] kept_then [OF null_slots_kept])
    moreover have "kept2 (obind (case ci_generator ci of None \<Rightarrow> Done vm | Some g \<Rightarrow> gen_Kill g vm) (\<lambda>vm1.
            obind (LeaveFrame vm1) (\<lambda>vm2.
            if ci_root ci then Done (False, vm2\<lparr>vm_lasterror := e\<rparr>) else unwind n t e vm2)))"
      by (intro kept_then [OF kill_first] kept_then [OF LeaveFrame_kept] wp_if Suc.IH) (use Suc.prems in simp_all)
    ultimately show ?thesis unfolding unwind.simps Cons list.case by (rule wp_if)
  qed (use Suc.prems in simp)
qed simp

section \<open>Reachable states\<close>

text \<open>A new machine, and the steps of the instructions and of the interface above.\<close>

definition vm_new :: "nat \<Rightarrow> sqvm" where
  "vm_new stacksize =
     \<lparr>vm_stack = replicate stacksize ONull, vm_allocated = stacksize, vm_gen = 0, vm_top = 0, vm_stackbase = 0,
      vm_openouters = [], vm_outers = Map.empty, vm_arrays = Map.empty, vm_closures = Map.empty,
      vm_protos = Map.empty, vm_generators = Map.empty, vm_calls = [], vm_alloccalls = 4, vm_etraps = [],
      vm_lasterror = ONull, vm_temp_reg = ONull, vm_nmetamethodscall = 0\<rparr>"

inductive vm_step :: "(addr \<Rightarrow> sqobj) \<Rightarrow> (sqobj \<Rightarrow> addr) \<Rightarrow> sqvm \<Rightarrow> sqvm \<Rightarrow> bool" for wr weak where
  put: "put_reg a v vm = Done vm' \<Longrightarrow> vm_step wr weak vm vm'"
| push: "vm_Push v vm = Done vm' \<Longrightarrow> vm_step wr weak vm vm'"
| pop: "vm_PopN n vm = Done vm' \<Longrightarrow> vm_step wr weak vm vm'"
| remove: "vm_Remove i vm = Done vm' \<Longrightarrow> vm_step wr weak vm vm'"
| ip: "set_ci (\<lambda>ci. ci\<lparr>ci_ip := ci_ip ci + i, ci_root := r\<rparr>) vm = Done vm' \<Longrightarrow> vm_step wr weak vm vm'"
| code: "vm_step wr weak vm (vm\<lparr>vm_protos := ps\<rparr>)"
| getouter: "OP_GETOUTER_step a0 a1 vm = Done vm' \<Longrightarrow> vm_step wr weak vm vm'"
| setouter: "OP_SETOUTER_step a0 a1 a2 vm = Done vm' \<Longrightarrow> vm_step wr weak vm vm'"
| closure: "CLOSURE_OP new clo a0 f vm = Done vm' \<Longrightarrow> inj new \<Longrightarrow> (\<And>j. vm_outers vm (new j) = None) \<Longrightarrow>
    vm_step wr weak vm vm'"
| close: "OP_CLOSE_step a1 vm = Done vm' \<Longrightarrow> vm_step wr weak vm vm'"
| call: "StartCall wr weak arr gen clo target args base False vm = Done (ok, vm') \<Longrightarrow> vm_step wr weak vm vm'"
| tailcall: "OP_TAILCALL_step wr weak arr gen clo a2 a3 vm = Done (ok, vm') \<Longrightarrow> vm_step wr weak vm vm'"
| return: "OP_RETURN_step a0 a1 vm = Done (ends, vm') \<Longrightarrow> vm_step wr weak vm vm'"
| yield: "OP_YIELD_step weak a0 a1 a2 vm = Done (ok, ends, vm') \<Longrightarrow> vm_step wr weak vm vm'"
| resume: "OP_RESUME_step wr a0 a1 vm = Done (ok, vm') \<Longrightarrow> vm_step wr weak vm vm'"
| pushtrap: "OP_PUSHTRAP_step a0 a1 vm = Done vm' \<Longrightarrow> vm_step wr weak vm vm'"
| poptrap: "OP_POPTRAP_step n vm = Done vm' \<Longrightarrow> vm_step wr weak vm vm'"
| throw: "exception_trap vm = Done (ok, vm') \<Longrightarrow> vm_step wr weak vm vm'"

inductive vm_reach :: "(addr \<Rightarrow> sqobj) \<Rightarrow> (sqobj \<Rightarrow> addr) \<Rightarrow> nat \<Rightarrow> sqvm \<Rightarrow> bool" for wr weak n where
  init: "vm_reach wr weak n (vm_new n)"
| step: "vm_reach wr weak n vm \<Longrightarrow> vm_step wr weak vm vm' \<Longrightarrow> vm_reach wr weak n vm'"

lemma OP_GETOUTER_kept [keeps]: "outers_ok vm \<Longrightarrow> kept (OP_GETOUTER_step a0 a1 vm)"
  unfolding OP_GETOUTER_step_def by (rule wp_pass, rule wp_pass, rule put_reg_kept)

lemma OP_SETOUTER_kept [keeps]: "outers_ok vm \<Longrightarrow> kept (OP_SETOUTER_step a0 a1 a2 vm)"
  unfolding OP_SETOUTER_step_def
  by (rule wp_pass, rule wp_pass, rule kept_then [OF outer_set_kept], assumption, rule wp_if, rule wp_pass,
      rule put_reg_kept) simp_all

lemma keptD: "kept m \<Longrightarrow> m = Done vm \<Longrightarrow> outers_ok vm"
  and kept2D: "kept2 m2 \<Longrightarrow> m2 = Done (x, vm) \<Longrightarrow> outers_ok vm"
  and kept3D: "kept3 m3 \<Longrightarrow> m3 = Done (x, y, vm) \<Longrightarrow> outers_ok vm"
  by simp_all

lemma vm_step_ok:
  assumes "vm_step wr weak vm vm'" "outers_ok vm" shows "outers_ok vm'"
  using assms
proof (cases rule: vm_step.cases)
  case (closure new clo a0 f)
  with assms(2) show ?thesis using CLOSURE_OP_kept by (blast intro: keptD)
next
  case (code ps)
  then show ?thesis using assms(2) by (subst outers_ok_cong [of _ vm]) simp_all
next
  case (throw ok)
  then show ?thesis using assms(2) unfolding exception_trap_def by (blast intro: kept2D [OF unwind_kept])
qed (use assms(2) in \<open>blast intro: keptD kept2D kept3D keeps\<close>)+

lemma vm_reach_ok: "vm_reach wr weak n vm \<Longrightarrow> outers_ok vm"
proof (induction rule: vm_reach.induct)
  case init
  then show ?case by (simp add: vm_new_def outers_ok_def)
next
  case (step vm vm')
  then show ?case by (blast intro: vm_step_ok)
qed

section \<open>Captured variables\<close>

text \<open>The captured variables a machine has, each with its value.\<close>

definition one_variable :: "addr \<Rightarrow> nat \<Rightarrow> sqvm \<Rightarrow> bool" where
  "one_variable new idx vm \<longleftrightarrow>
     (\<exists>p vm'. FindOuter new idx vm = Done (p, vm') \<and> outer_get p vm' = Done (vm_stack vm ! idx) \<and>
        (\<forall>new2. FindOuter new2 idx vm' = Done (p, vm')) \<and> keeps_values vm vm')"

lemma sorted_inj: "sorted_wrt (\<lambda>p q. h q < (h p :: nat)) xs \<Longrightarrow> a \<in> set xs \<Longrightarrow> b \<in> set xs \<Longrightarrow> h a = h b \<Longrightarrow> a = b"
  by (induction xs) auto

lemma FindOuter_again:
  assumes "outers_ok vm" "p \<in> set (vm_openouters vm)" "oidx vm p = idx"
  shows "FindOuter new idx vm = Done (p, vm)"
proof -
  from find_outer_ok [OF assms(1) _ outers_ok_sorted [OF assms(1)], of idx 0] assms(2,3)
  obtain q k where q: "q \<in> set (vm_openouters vm)" "find_outer idx 0 (vm_openouters vm) vm = Done (Some q, k)" "oidx vm q = idx"
    by blast
  have "q = p" by (rule sorted_inj [OF outers_ok_sorted [OF assms(1)] q(1) assms(2)]) (simp add: q(3) assms(3))
  with q(2) show ?thesis by (simp add: FindOuter_def)
qed

lemma FindOuter_one_variable:
  assumes ok: "outers_ok vm" and idx: "idx < length (vm_stack vm)" and new: "vm_outers vm new = None"
  shows "one_variable new idx vm"
proof -
  obtain p vm' where f: "FindOuter new idx vm = Done (p, vm')" "outers_ok vm'" "p \<in> set (vm_openouters vm')"
    "oidx vm' p = idx" "extends_outers vm vm'"
    by (rule FindOuter_ok [OF ok idx new])
  note e = extends_outers_fields [OF f(5)]
  show ?thesis unfolding one_variable_def keeps_values_def
  proof (rule exI [of _ p], rule exI [of _ vm'], intro conjI allI impI)
    show "FindOuter new idx vm = Done (p, vm')" by (rule f(1))
    show "outer_get p vm' = Done (vm_stack vm ! idx)"
      using outer_get_open [OF f(2,3)] unfolding f(4) e(1) .
    show "FindOuter new2 idx vm' = Done (p, vm')" for new2
      by (rule FindOuter_again [OF f(2,3,4)])
    fix q assume "vm_outers vm q \<noteq> None"
    then obtain ot where ot: "vm_outers vm q = Some ot" by blast
    note e3 = e(3) [OF ot]
    show "vm_outers vm' q \<noteq> None" using e3 by simp
    show "outer_get q vm' = outer_get q vm" by (rule outer_get_cong) (simp_all only: e3 ot e(1,2))
  qed
qed

text \<open>
  C23. Captured variables are cells.  In every state the instructions and calls lead to from a
  new machine, every captured variable has a value; the open ones are listed from the top of
  the stack down, each at a slot of the stack as it is allocated now.  Capturing a slot gives a
  variable with the value of the slot, capturing it again gives the same variable; writing a
  slot writes the variable that is open there and no other; and closing the variables from a
  slot on leaves the value of every variable as it is.
\<close>

theorem captured_variables_are_cells:
  assumes "vm_reach wr weak n vm"
  shows "(\<forall>p. vm_outers vm p \<noteq> None \<longrightarrow> (\<exists>v. outer_get p vm = Done v)) \<and>
    sorted_wrt (\<lambda>p q. oidx vm q < oidx vm p) (vm_openouters vm) \<and>
    (\<forall>new idx. idx < length (vm_stack vm) \<and> vm_outers vm new = None \<longrightarrow> one_variable new idx vm) \<and>
    (\<forall>i v vm' p. stk_put i v vm = Done vm' \<and> vm_outers vm p \<noteq> None \<longrightarrow>
       outer_get p vm' = (if p \<in> set (vm_openouters vm) \<and> oidx vm p = nat i then Done v else outer_get p vm)) \<and>
    (\<forall>lim. \<exists>vm'. CloseOuters lim vm = Done vm' \<and> keeps_values vm vm' \<and>
       vm_openouters vm' = filter (\<lambda>q. oidx vm q < lim) (vm_openouters vm))"
proof -
  note ok = vm_reach_ok [OF assms]
  have "\<exists>v. outer_get p vm = Done v" if "vm_outers vm p \<noteq> None" for p
    using outer_get_open [OF ok, of p] outer_get_closed [OF ok, of p] that by (cases "p \<in> set (vm_openouters vm)") auto
  moreover have "\<exists>vm'. CloseOuters lim vm = Done vm' \<and> keeps_values vm vm' \<and>
       vm_openouters vm' = filter (\<lambda>q. oidx vm q < lim) (vm_openouters vm)" for lim
  proof -
    obtain h where "CloseOuters lim vm = Done (vm\<lparr>vm_outers := h, vm_openouters := filter (\<lambda>q. oidx vm q < lim) (vm_openouters vm)\<rparr>)"
      "keeps_values vm (vm\<lparr>vm_outers := h, vm_openouters := filter (\<lambda>q. oidx vm q < lim) (vm_openouters vm)\<rparr>)"
      by (rule CloseOuters_ok [OF ok])
    then show ?thesis by simp
  qed
  ultimately show ?thesis
    using outers_ok_sorted [OF ok] FindOuter_one_variable [OF ok] stk_put_outers(2) [OF ok] by blast
qed

theorem captured_variables_are_cells_witness:
  "one_variable 7 1 (vm_new 3)"
  using captured_variables_are_cells [OF vm_reach.init [of "\<lambda>_. ONull" "\<lambda>_. 0" 3]] by (simp add: vm_new_def)

end
