(* ===== verification/CallProps.thy ===== *)
theory CallProps
  imports FrameProps
begin

text \<open>
  Properties of frames and calls: leaving a frame, passing arguments, generators and the
  unwinding of errors, with the cases in which the code reads or writes beyond its stack.
\<close>

section \<open>Leaving a frame\<close>

lemma int32_small: "- (2 ^ 31) \<le> i \<Longrightarrow> i < 2 ^ 31 \<Longrightarrow> int32 i = i"
  by (simp add: int32_def sint_sbintrunc' signed_take_bit_int_eq_self)

text \<open>What the captured variables are depends on three fields.\<close>

lemma keeps_values_cong:
  assumes "vm_outers a' = vm_outers a" "vm_gen a' = vm_gen a" "vm_stack a' = vm_stack a"
    "vm_outers b' = vm_outers b" "vm_gen b' = vm_gen b" "vm_stack b' = vm_stack b"
  shows "keeps_values a b \<longleftrightarrow> keeps_values a' b'"
proof -
  have "outer_get q a' = outer_get q a" "outer_get q b' = outer_get q b" for q
    by (rule outer_get_cong; simp add: assms)+
  then show ?thesis by (simp add: keeps_values_def assms)
qed

lemma LeaveFrame_ok:
  assumes ok: "outers_ok vm" and calls: "vm_calls vm = ci # cs"
    and base: "0 \<le> vm_stackbase vm" and top: "vm_top vm < int (length (vm_stack vm))"
    and t: "t = vm_stackbase vm - ci_prevstkbase ci + ci_prevtop ci" "0 \<le> t"
  obtains h where
    "LeaveFrame vm = Done (vm\<lparr>vm_stackbase := vm_stackbase vm - ci_prevstkbase ci, vm_top := t, vm_calls := cs,
       vm_outers := h, vm_openouters := filter (\<lambda>q. oidx vm q < nat (vm_stackbase vm)) (vm_openouters vm),
       vm_stack := null_range t (vm_top vm) (vm_stack vm)\<rparr>)"
    "keeps_values vm (vm\<lparr>vm_outers := h, vm_openouters := filter (\<lambda>q. oidx vm q < nat (vm_stackbase vm)) (vm_openouters vm)\<rparr>)"
    "outers_ok (vm\<lparr>vm_outers := h, vm_openouters := filter (\<lambda>q. oidx vm q < nat (vm_stackbase vm)) (vm_openouters vm)\<rparr>)"
    "\<And>q. q \<notin> set (vm_openouters vm) \<or> oidx vm q < nat (vm_stackbase vm) \<Longrightarrow> h q = vm_outers vm q"
proof -
  let ?b = "vm_stackbase vm - ci_prevstkbase ci" and ?lim = "nat (vm_stackbase vm)"
  let ?vm = "vm\<lparr>vm_stackbase := ?b, vm_top := t, vm_calls := cs\<rparr>"
  have ok': "outers_ok ?vm" using ok by simp
  have i: "oidx ?vm q = oidx vm q" for q by (simp add: oidx_def)
  obtain h where h: "CloseOuters ?lim ?vm = Done (?vm\<lparr>vm_outers := h, vm_openouters := filter (\<lambda>q. oidx ?vm q < ?lim) (vm_openouters ?vm)\<rparr>)"
    "outers_ok (?vm\<lparr>vm_outers := h, vm_openouters := filter (\<lambda>q. oidx ?vm q < ?lim) (vm_openouters ?vm)\<rparr>)"
    "keeps_values ?vm (?vm\<lparr>vm_outers := h, vm_openouters := filter (\<lambda>q. oidx ?vm q < ?lim) (vm_openouters ?vm)\<rparr>)"
    "\<And>q. q \<notin> set (vm_openouters ?vm) \<or> oidx ?vm q < ?lim \<Longrightarrow> h q = vm_outers ?vm q"
    by (rule CloseOuters_ok [OF ok', of ?lim], rule that) (assumption | blast)+
  have c: "(if vm_openouters ?vm \<noteq> [] then (if vm_stackbase vm < 0 then Undef else CloseOuters ?lim ?vm) else Done ?vm) =
      Done (?vm\<lparr>vm_outers := h, vm_openouters := filter (\<lambda>q. oidx vm q < ?lim) (vm_openouters vm)\<rparr>)"
  proof (cases "vm_openouters vm = []")
    case True
    then have "h = vm_outers vm" using h(4) by (intro ext) simp
    with True show ?thesis by (cases vm) simp
  qed (use h(1) base i in simp)
  let ?vm2 = "?vm\<lparr>vm_outers := h, vm_openouters := filter (\<lambda>q. oidx vm q < ?lim) (vm_openouters vm)\<rparr>"
  let ?n = "nat (vm_top vm - t + 1)"
  have "null_slots ?n (vm_top vm) ?vm2 = Done (?vm2\<lparr>vm_stack := null_range t (vm_top vm) (vm_stack vm)\<rparr>)"
  proof (cases "t \<le> vm_top vm")
    case True
    then have n: "vm_top vm - int ?n + 1 = t" by simp
    show ?thesis unfolding null_slots_Done using t(2) top by (simp add: n)
  next
    case False
    then show ?thesis by (simp add: null_range_empty)
  qed
  then have "LeaveFrame vm = Done (?vm2\<lparr>vm_stack := null_range t (vm_top vm) (vm_stack vm)\<rparr>)"
    unfolding LeaveFrame_def Let_def calls list.case t(1) [symmetric] using c by simp
  moreover have "keeps_values vm (vm\<lparr>vm_outers := h, vm_openouters := filter (\<lambda>q. oidx vm q < ?lim) (vm_openouters vm)\<rparr>)"
    by (rule keeps_values_cong [THEN iffD1, OF _ _ _ _ _ _ h(3)]) (simp_all add: i)
  moreover have "outers_ok (vm\<lparr>vm_outers := h, vm_openouters := filter (\<lambda>q. oidx vm q < ?lim) (vm_openouters vm)\<rparr>)"
    using h(2) by (simp add: i outers_ok_def oidx_def)
  ultimately show ?thesis using h(4) by (intro that [of h]) (simp_all add: i)
qed

text \<open>Nulling slots above the open variables does not change them.\<close>

lemma null_above:
  assumes "outers_ok vm" "\<And>q. q \<in> set (vm_openouters vm) \<Longrightarrow> int (oidx vm q) < lo"
  shows "outers_ok (vm\<lparr>vm_stack := null_range lo hi (vm_stack vm)\<rparr>)"
    "keeps_values vm (vm\<lparr>vm_stack := null_range lo hi (vm_stack vm)\<rparr>)"
proof -
  let ?vm = "vm\<lparr>vm_stack := null_range lo hi (vm_stack vm)\<rparr>"
  show ok': "outers_ok ?vm" by (subst outers_ok_cong [of _ vm]) (use assms(1) in simp_all)
  show "keeps_values vm ?vm"
    unfolding keeps_values_def
  proof (intro allI impI conjI)
    fix q assume q: "vm_outers vm q \<noteq> None"
    then show "vm_outers ?vm q \<noteq> None" by simp
    show "outer_get q ?vm = outer_get q vm"
    proof (cases "q \<in> set (vm_openouters vm)")
      case True
      have "oidx ?vm q = oidx vm q" by (simp add: oidx_def)
      with True outer_get_open [OF assms(1) True] outer_get_open [OF ok', of q] outers_okD(3) [OF assms(1) True] assms(2) [OF True]
      show ?thesis by simp
    next
      case False
      then show ?thesis using q outer_get_closed [OF assms(1)] outer_get_closed [OF ok'] by auto
    qed
  qed
qed

lemma EnterFrame_new:
  assumes "EnterFrame nb nt False vm = Done (True, vm1)" "outers_ok vm"
  shows "outers_ok vm1" "keeps_values vm vm1" "vm_stackbase vm1 = nb" "vm_top vm1 = nt"
    "\<exists>ci. vm_calls vm1 = ci # vm_calls vm \<and> ci_prevstkbase ci = int32 (nb - vm_stackbase vm) \<and>
       ci_prevtop ci = int32 (vm_top vm - vm_stackbase vm) \<and> ci_etraps ci = 0 \<and> ci_generator ci = None \<and> \<not> ci_root ci"
    "take (length (vm_stack vm)) (vm_stack vm1) = vm_stack vm" "length (vm_stack vm) \<le> length (vm_stack vm1)"
    "nt \<le> int (length (vm_stack vm)) + 45 \<Longrightarrow> nt + MIN_STACK_OVERHEAD \<le> int (length (vm_stack vm1))"
    "vm_etraps vm1 = vm_etraps vm" "vm_generators vm1 = vm_generators vm" "vm_closures vm1 = vm_closures vm"
    "vm_protos vm1 = vm_protos vm" "vm_arrays vm1 = vm_arrays vm"
proof -
  let ?ci = "\<lparr>ci_ip = 0, ci_literals = [], ci_closure = ONull, ci_generator = None,
                       ci_etraps = 0, ci_prevstkbase = int32 (nb - vm_stackbase vm),
                       ci_prevtop = int32 (vm_top vm - vm_stackbase vm), ci_target = 0, ci_ncalls = 1,
                       ci_root = False\<rparr>"
  let ?vm = "vm\<lparr>vm_alloccalls := (if length (vm_calls vm) = vm_alloccalls vm then vm_alloccalls vm * 2 else vm_alloccalls vm),
     vm_calls := ?ci # vm_calls vm, vm_stackbase := nb, vm_top := nt\<rparr>"
  let ?n = "length (vm_stack vm) + nat (MIN_STACK_OVERHEAD * 4)"
  have ok: "outers_ok ?vm" using assms(2) by simp
  have kv: "keeps_values vm ?vm" by (auto simp: keeps_values_def intro: outer_get_cong)
  from assms(1) consider "vm1 = ?vm" "nt + MIN_STACK_OVERHEAD \<le> int (length (vm_stack vm))"
    | "vm1 = RelocateOuters (stack_resize ?n ?vm)" "nt + MIN_STACK_OVERHEAD > int (length (vm_stack vm))"
    by (auto simp: EnterFrame_def Let_def split: if_splits)
  then have "outers_ok vm1 \<and> keeps_values vm vm1 \<and> vm_stackbase vm1 = nb \<and> vm_top vm1 = nt \<and>
      vm_calls vm1 = ?ci # vm_calls vm \<and> take (length (vm_stack vm)) (vm_stack vm1) = vm_stack vm \<and>
      length (vm_stack vm) \<le> length (vm_stack vm1) \<and>
      (nt \<le> int (length (vm_stack vm)) + 45 \<longrightarrow> nt + MIN_STACK_OVERHEAD \<le> int (length (vm_stack vm1))) \<and>
      vm_etraps vm1 = vm_etraps vm \<and> vm_generators vm1 = vm_generators vm \<and> vm_closures vm1 = vm_closures vm \<and>
      vm_protos vm1 = vm_protos vm \<and> vm_arrays vm1 = vm_arrays vm"
  proof cases
    case 1
    with ok kv show ?thesis by simp
  next
    case 2
    have "length (vm_stack ?vm) \<le> ?n" by simp
    from RelocateOuters_ok [OF ok this] kv have "outers_ok vm1" "keeps_values vm vm1" unfolding 2(1) by (auto intro: keeps_values_trans)
    with 2(1) show ?thesis by (simp add: RelocateOuters_def MIN_STACK_OVERHEAD_def)
  qed
  then show "outers_ok vm1" "keeps_values vm vm1" "vm_stackbase vm1 = nb" "vm_top vm1 = nt"
    "\<exists>ci. vm_calls vm1 = ci # vm_calls vm \<and> ci_prevstkbase ci = int32 (nb - vm_stackbase vm) \<and>
       ci_prevtop ci = int32 (vm_top vm - vm_stackbase vm) \<and> ci_etraps ci = 0 \<and> ci_generator ci = None \<and> \<not> ci_root ci"
    "take (length (vm_stack vm)) (vm_stack vm1) = vm_stack vm" "length (vm_stack vm) \<le> length (vm_stack vm1)"
    "nt \<le> int (length (vm_stack vm)) + 45 \<Longrightarrow> nt + MIN_STACK_OVERHEAD \<le> int (length (vm_stack vm1))"
    "vm_etraps vm1 = vm_etraps vm" "vm_generators vm1 = vm_generators vm" "vm_closures vm1 = vm_closures vm"
    "vm_protos vm1 = vm_protos vm" "vm_arrays vm1 = vm_arrays vm"
    by simp_all
qed

lemma EnterFrame_True:
  assumes "vm_nmetamethodscall vm = 0" "t \<Longrightarrow> vm_calls vm \<noteq> []"
  shows "\<exists>vm1. EnterFrame nb nt t vm = Done (True, vm1)"
  using assms by (cases t; cases "vm_calls vm") (simp_all add: EnterFrame_def Let_def)

text \<open>A frame in which a callee runs: everything the caller set is as \<open>EnterFrame\<close> left it.\<close>

definition runs_in :: "sqvm \<Rightarrow> sqvm \<Rightarrow> bool" where
  "runs_in vm1 vm2 \<longleftrightarrow>
     outers_ok vm2 \<and> vm_stackbase vm2 = vm_stackbase vm1 \<and> vm_top vm2 < int (length (vm_stack vm2)) \<and>
     vm_calls vm1 \<noteq> [] \<and> vm_calls vm2 \<noteq> [] \<and> tl (vm_calls vm2) = tl (vm_calls vm1) \<and>
     ci_prevstkbase (hd (vm_calls vm2)) = ci_prevstkbase (hd (vm_calls vm1)) \<and>
     ci_prevtop (hd (vm_calls vm2)) = ci_prevtop (hd (vm_calls vm1))"

text \<open>
  C24. A call gives the caller its frame back.  After a frame has been entered, leaving it from
  whatever state its function has reached restores the base, the top and the calls of the
  caller; the slots below the caller's top are as the function left them, the ones above are
  null, every captured variable keeps its value and the ones of the callee are closed.  The
  differences the frame stores fit 32 bits, and entering leaves room above the new frame
  unless it is more than 45 slots beyond the stack.
\<close>

theorem frame_discipline:
  assumes enter: "EnterFrame nb nt False vm = Done (True, vm1)" and ok: "outers_ok vm"
    and nb: "0 \<le> nb" "nb \<le> vm_top vm" "\<bar>nb - vm_stackbase vm\<bar> < 2 ^ 31" "\<bar>vm_top vm - vm_stackbase vm\<bar> < 2 ^ 31"
    and run: "runs_in vm1 vm2"
  shows "(\<exists>vm3. LeaveFrame vm2 = Done vm3 \<and> outers_ok vm3 \<and> vm_stackbase vm3 = vm_stackbase vm \<and>
      vm_top vm3 = vm_top vm \<and> vm_calls vm3 = vm_calls vm \<and>
      (\<forall>i. int i < vm_top vm \<longrightarrow> vm_stack vm3 ! i = vm_stack vm2 ! i) \<and>
      (\<forall>i. vm_top vm \<le> int i \<and> int i \<le> vm_top vm2 \<longrightarrow> vm_stack vm3 ! i = ONull) \<and>
      keeps_values vm2 vm3 \<and> vm_openouters vm3 = filter (\<lambda>q. oidx vm2 q < nat nb) (vm_openouters vm2)) \<and>
    (nt \<le> int (length (vm_stack vm)) + 45 \<longrightarrow> nt + MIN_STACK_OVERHEAD \<le> int (length (vm_stack vm1)))"
proof (rule conjI)
  note e = EnterFrame_new [OF enter ok]
  obtain ci where ci: "vm_calls vm1 = ci # vm_calls vm" "ci_prevstkbase ci = int32 (nb - vm_stackbase vm)"
    "ci_prevtop ci = int32 (vm_top vm - vm_stackbase vm)" using e(5) by blast
  from run ci(1) obtain ci2 where c2: "vm_calls vm2 = ci2 # vm_calls vm" "ci_prevstkbase ci2 = ci_prevstkbase ci"
    "ci_prevtop ci2 = ci_prevtop ci" and ok2: "outers_ok vm2" and b2: "vm_stackbase vm2 = nb"
    and t2: "vm_top vm2 < int (length (vm_stack vm2))"
    using e(3) by (cases "vm_calls vm2") (auto simp: runs_in_def)
  have p: "ci_prevstkbase ci2 = nb - vm_stackbase vm" "ci_prevtop ci2 = vm_top vm - vm_stackbase vm"
    using nb(3,4) by (simp_all add: c2(2,3) ci(2,3) int32_small)
  have t: "vm_top vm = vm_stackbase vm2 - ci_prevstkbase ci2 + ci_prevtop ci2" by (simp add: p b2)
  have "0 \<le> vm_stackbase vm2" "0 \<le> vm_top vm" using nb by (simp_all add: b2)
  from LeaveFrame_ok [OF ok2 c2(1) this(1) t2 t this(2)] obtain h where h:
    "LeaveFrame vm2 = Done (vm2\<lparr>vm_stackbase := vm_stackbase vm2 - ci_prevstkbase ci2, vm_top := vm_top vm, vm_calls := vm_calls vm,
       vm_outers := h, vm_openouters := filter (\<lambda>q. oidx vm2 q < nat (vm_stackbase vm2)) (vm_openouters vm2),
       vm_stack := null_range (vm_top vm) (vm_top vm2) (vm_stack vm2)\<rparr>)"
    "keeps_values vm2 (vm2\<lparr>vm_outers := h, vm_openouters := filter (\<lambda>q. oidx vm2 q < nat (vm_stackbase vm2)) (vm_openouters vm2)\<rparr>)"
    "outers_ok (vm2\<lparr>vm_outers := h, vm_openouters := filter (\<lambda>q. oidx vm2 q < nat (vm_stackbase vm2)) (vm_openouters vm2)\<rparr>)"
    "\<And>q. q \<notin> set (vm_openouters vm2) \<or> oidx vm2 q < nat (vm_stackbase vm2) \<Longrightarrow> h q = vm_outers vm2 q"
    by blast
  let ?a = "vm2\<lparr>vm_outers := h, vm_openouters := filter (\<lambda>q. oidx vm2 q < nat (vm_stackbase vm2)) (vm_openouters vm2)\<rparr>"
  let ?b = "?a\<lparr>vm_stack := null_range (vm_top vm) (vm_top vm2) (vm_stack ?a)\<rparr>"
  let ?c = "?b\<lparr>vm_stackbase := vm_stackbase vm2 - ci_prevstkbase ci2, vm_top := vm_top vm, vm_calls := vm_calls vm\<rparr>"
  have below: "int (oidx ?a q) < vm_top vm" if "q \<in> set (vm_openouters ?a)" for q
    using that h(4) [of q] nb b2 by (auto simp: oidx_def)
  note n = null_above [OF h(3) below]
  have "keeps_values vm2 ?b" by (rule keeps_values_trans [OF h(2) n(2)])
  then have k: "keeps_values vm2 ?c" by (rule keeps_values_cong [THEN iffD1, rotated -1]) simp_all
  have "vm_stack ?c ! i = vm_stack vm2 ! i" if "int i < vm_top vm" for i
  proof (cases "i < length (vm_stack vm2)")
    case False
    then have "null_range (vm_top vm) (vm_top vm2) (vm_stack vm2) = vm_stack vm2"
      using that t2 by (intro null_range_empty) simp
    then show ?thesis by simp
  qed (use that in simp)
  moreover have "vm_stack ?c ! i = ONull" if "vm_top vm \<le> int i" "int i \<le> vm_top vm2" for i using that t2 by simp
  moreover have "LeaveFrame vm2 = Done ?c" using h(1) by simp
  moreover have "outers_ok ?c" using n(1) by simp
  ultimately show "\<exists>vm3. LeaveFrame vm2 = Done vm3 \<and> outers_ok vm3 \<and> vm_stackbase vm3 = vm_stackbase vm \<and>
      vm_top vm3 = vm_top vm \<and> vm_calls vm3 = vm_calls vm \<and>
      (\<forall>i. int i < vm_top vm \<longrightarrow> vm_stack vm3 ! i = vm_stack vm2 ! i) \<and>
      (\<forall>i. vm_top vm \<le> int i \<and> int i \<le> vm_top vm2 \<longrightarrow> vm_stack vm3 ! i = ONull) \<and>
      keeps_values vm2 vm3 \<and> vm_openouters vm3 = filter (\<lambda>q. oidx vm2 q < nat nb) (vm_openouters vm2)"
    using k by (intro exI [of _ ?c]) (simp add: p b2)
qed (use EnterFrame_new(8) [OF enter ok] in blast)

theorem frame_discipline_witness:
  "\<exists>vm1 vm3. EnterFrame 3 8 False ((vm_new 20)\<lparr>vm_top := 4\<rparr>) = Done (True, vm1) \<and> LeaveFrame vm1 = Done vm3 \<and>
     vm_top vm3 = 4 \<and> vm_calls vm3 = []"
proof -
  let ?vm = "(vm_new 20)\<lparr>vm_top := 4\<rparr>"
  have ok: "outers_ok ?vm" by (simp add: vm_new_def outers_ok_def)
  have n: "vm_nmetamethodscall ?vm = 0" by (simp add: vm_new_def)
  obtain vm1 where e: "EnterFrame 3 8 False ?vm = Done (True, vm1)" using EnterFrame_True [OF n, of False] by blast
  note x = EnterFrame_new [OF e ok]
  have "runs_in vm1 vm1" using x by (auto simp: runs_in_def vm_new_def)
  from frame_discipline [OF e ok _ _ _ _ this] e show ?thesis by (simp add: vm_new_def) blast
qed

section \<open>Arguments\<close>

text \<open>What the parameters are bound to: all arguments, the rest as an array, or defaults.\<close>

definition parameters_of :: "addr \<Rightarrow> sqfuncproto \<Rightarrow> sqclosure \<Rightarrow> sqobj list \<Rightarrow> sqobj list option" where
  "parameters_of arr f c args =
     (let np = length (fp_parameters f); nd = length (sc_defaultparams c); n = length args in
      if fp_varparams f \<noteq> 0 then (if n + 1 < np then None else Some (take (np - 1) args @ [ORef KArray arr]))
      else if n = np then Some args
      else if nd \<noteq> 0 \<and> n < np \<and> np - n \<le> nd then Some (args @ drop (nd - (np - n)) (sc_defaultparams c))
      else None)"

definition with_env :: "(addr \<Rightarrow> sqobj) \<Rightarrow> sqclosure \<Rightarrow> sqobj list \<Rightarrow> sqobj list" where
  "with_env wr c ps = (case sc_env c of None \<Rightarrow> ps | Some w \<Rightarrow> ps[0 := wr w])"

text \<open>A block of slots.\<close>

definition block :: "int \<Rightarrow> nat \<Rightarrow> sqvm \<Rightarrow> sqobj list" where
  "block i n vm = take n (drop (nat i) (vm_stack vm))"

lemma stk_read_Done:
  "0 \<le> i \<Longrightarrow> i + int n \<le> int (length (vm_stack vm)) \<Longrightarrow> stk_read n i vm = Done (block i n vm)"
proof (induction n arbitrary: i)
  case (Suc n)
  then have "stk_at i vm = Done (vm_stack vm ! nat i)" "nat i < length (vm_stack vm)" by (simp_all add: stk_at_def)
  moreover have "nat (i + 1) = Suc (nat i)" using Suc.prems(1) by simp
  ultimately show ?case using Suc.IH [of "i + 1"] Suc.prems by (simp add: block_def Cons_nth_drop_Suc [symmetric])
qed (simp add: block_def)

text \<open>Writing a block of slots.\<close>

definition put_block :: "nat \<Rightarrow> sqobj list \<Rightarrow> sqobj list \<Rightarrow> sqobj list" where
  "put_block i vs xs = take i xs @ vs @ drop (i + length vs) xs"

lemma put_block_length [simp]: "i + length vs \<le> length xs \<Longrightarrow> length (put_block i vs xs) = length xs"
  by (simp add: put_block_def)

lemma put_block_Cons: "i < length xs \<Longrightarrow> put_block (Suc i) vs (xs[i := v]) = put_block i (v # vs) xs"
  by (simp add: put_block_def take_update_swap upd_conv_take_nth_drop add.commute)

lemma stk_write_Done:
  "0 \<le> i \<Longrightarrow> i + int (length vs) \<le> int (length (vm_stack vm)) \<Longrightarrow>
     stk_write i vs vm = Done (vm\<lparr>vm_stack := put_block (nat i) vs (vm_stack vm)\<rparr>)"
proof (induction vs arbitrary: i vm)
  case Nil
  then show ?case by (cases vm) (simp add: put_block_def)
next
  case (Cons v vs)
  let ?vm = "vm\<lparr>vm_stack := (vm_stack vm)[nat i := v]\<rparr>"
  have "stk_put i v vm = Done ?vm" using Cons.prems by (simp add: stk_put_def)
  moreover have "stk_write (i + 1) vs ?vm = Done (?vm\<lparr>vm_stack := put_block (nat (i + 1)) vs (vm_stack ?vm)\<rparr>)"
    using Cons.prems by (intro Cons.IH) simp_all
  moreover have "nat (i + 1) = Suc (nat i)" using Cons.prems(1) by simp
  ultimately show ?case using Cons.prems by (simp add: put_block_Cons)
qed

lemma put_block_nth:
  "i + length vs \<le> length xs \<Longrightarrow> j < length xs \<Longrightarrow>
     put_block i vs xs ! j = (if i \<le> j \<and> j < i + length vs then vs ! (j - i) else xs ! j)"
  by (auto simp: put_block_def nth_append)

lemma take_put_block:
  "n \<le> length vs \<Longrightarrow> i + length vs \<le> length xs \<Longrightarrow> take n (drop i (put_block i vs xs)) = take n vs"
  by (simp add: put_block_def)

lemma block_Cons:
  assumes "0 \<le> i" "0 < n" "i + int n \<le> int (length (vm_stack vm))"
  shows "block i n vm = vm_stack vm ! nat i # block (i + 1) (n - 1) vm"
proof -
  have "nat i < length (vm_stack vm)" "nat (i + 1) = Suc (nat i)" using assms by simp_all
  with assms(2) show ?thesis by (cases n) (simp_all add: block_def Cons_nth_drop_Suc [symmetric])
qed

lemma EnterFrame_stack:
  assumes "EnterFrame nb nt t vm = Done (True, vm1)"
  shows "take (length (vm_stack vm)) (vm_stack vm1) = vm_stack vm" "vm_arrays vm1 = vm_arrays vm"
    "vm_stackbase vm1 = nb" "vm_top vm1 = nt" "vm_calls vm1 \<noteq> []" "vm_generators vm1 = vm_generators vm"
    "tl (vm_calls vm1) = (if t then tl (vm_calls vm) else vm_calls vm)" "vm_etraps vm1 = vm_etraps vm"
    "nt \<le> int (length (vm_stack vm)) + 45 \<Longrightarrow> nt + MIN_STACK_OVERHEAD \<le> int (length (vm_stack vm1))"
  using assms
  by (cases t; cases "vm_calls vm"; auto simp: EnterFrame_def Let_def RelocateOuters_def MIN_STACK_OVERHEAD_def split: if_splits)+

lemma take_block: "take n xs = ys \<Longrightarrow> i + k \<le> n \<Longrightarrow> take k (drop i xs) = take k (drop i ys)"
  by (metis drop_take min.absorb1 take_take le_add_diff_inverse2 add.commute diff_le_mono add_leD1 add_diff_cancel_left' diff_le_mono)

lemma pass_arguments_ok:
  assumes len: "length (sc_defaultparams c) = length (fp_defaultparams f)"
    and st: "0 \<le> base" "base + int (max (Suc n) (length (fp_parameters f))) \<le> int (length (vm_stack vm))"
    and np: "0 < length (fp_parameters f)"
  shows "case parameters_of arr f c (block base n vm) of
      None \<Rightarrow> pass_arguments arr f c (int n) base vm = Done (False, Raise_Error ''wrong number of parameters'' vm)
    | Some ps \<Rightarrow> \<exists>vm1. pass_arguments arr f c (int n) base vm = Done (True, vm1) \<and> length ps = length (fp_parameters f) \<and>
        block base (length ps) vm1 = ps \<and> length (vm_stack vm1) = length (vm_stack vm) \<and>
        vm1 = vm\<lparr>vm_stack := vm_stack vm1, vm_arrays := vm_arrays vm1\<rparr> \<and>
        (fp_varparams f \<noteq> 0 \<longrightarrow> vm_arrays vm1 arr = Some (drop (length ps - 1) (block base n vm)))"
proof -
  define np nd where "np = length (fp_parameters f)" and "nd = length (fp_defaultparams f)"
  define b where "b = nat base"
  have b: "base = int b" using st(1) by (simp add: b_def)
  have lb: "length (block base n vm) = n" using st by (simp add: block_def)
  have fits: "b + max (Suc n) np \<le> length (vm_stack vm)" using st(2) by (simp add: b np_def)
  consider (few) "fp_varparams f \<noteq> 0" "n + 1 < np" | (rest) "fp_varparams f \<noteq> 0" "np \<le> n + 1"
    | (all) "fp_varparams f = 0" "n = np" | (def) "fp_varparams f = 0" "n < np" "np - n \<le> nd"
    | (wrong) "fp_varparams f = 0" "n \<noteq> np" "\<not> (n < np \<and> np - n \<le> nd)" by linarith
  then show ?thesis
  proof cases
    case few
    then show ?thesis using lb by (simp add: parameters_of_def pass_arguments_def np_def)
  next
    case rest
    obtain m where m: "np = Suc m" using np unfolding np_def by (cases "length (fp_parameters f)") auto
    define k p where "k = n - m" and "p = b + m"
    have kp: "nat (int n - (int np - 1)) = k" "base + (int np - 1) = int p" "m + k = n" "p + k = b + n"
      using rest(2) by (simp_all add: m b k_def p_def of_nat_diff)
    have fp: "p < length (vm_stack vm)" "p + k < length (vm_stack vm)" using fits kp(4) by (auto simp: m p_def)
    let ?vs = "block (int p) k vm"
    have rd: "stk_read k (int p) vm = Done ?vs" using fp by (intro stk_read_Done) auto
    have vs: "?vs = drop m (block base n vm)"
      by (simp add: block_def b drop_take k_def p_def add.commute nat_int_add)
    let ?s = "null_range (int p) (int p + int k - 1) (vm_stack vm)"
    have nl: "null_slots k (int p + int k - 1) vm = Done (vm\<lparr>vm_stack := ?s\<rparr>)"
      using fp by (auto simp: null_slots_Done)
    let ?vm1 = "vm\<lparr>vm_stack := ?s[p := ORef KArray arr], vm_arrays := (vm_arrays vm)(arr \<mapsto> ?vs)\<rparr>"
    have few: "\<not> int n < int np - 1" using rest(2) by simp
    have pa: "pass_arguments arr f c (int n) base vm = Done (True, ?vm1)"
      unfolding pass_arguments_def Let_def np_def [symmetric] kp(1,2)
      using rest(1) few rd nl fp(1) by (simp add: stk_put_def)
    have bl: "block base np ?vm1 = take m (block base n vm) @ [ORef KArray arr]"
    proof (rule nth_equalityI)
      show "length (block base np ?vm1) = length (take m (block base n vm) @ [ORef KArray arr])"
        using fits rest(2) lb by (simp add: block_def b m)
      fix i assume "i < length (block base np ?vm1)"
      then have i: "i < Suc m" by (simp add: block_def b m)
      show "block base np ?vm1 ! i = (take m (block base n vm) @ [ORef KArray arr]) ! i"
        using i fits rest(2) lb by (cases "i = m") (auto simp: block_def b m p_def nth_append nth_list_update)
    qed
    have po: "parameters_of arr f c (block base n vm) = Some (take m (block base n vm) @ [ORef KArray arr])"
      using rest lb by (simp add: parameters_of_def np_def [symmetric] m)
    show ?thesis unfolding po option.case
      using pa bl rest(2) lb vs by (intro exI [of _ ?vm1]) (simp add: np_def [symmetric] m)
  next
    case all
    have "parameters_of arr f c (block base n vm) = Some (block base n vm)" using all lb by (simp add: parameters_of_def np_def)
    moreover have "pass_arguments arr f c (int n) base vm = Done (True, vm)" using all by (simp add: pass_arguments_def np_def)
    ultimately show ?thesis using all lb by (simp add: np_def)
  next
    case def
    let ?ds = "drop (nd - (np - n)) (sc_defaultparams c)"
    have po: "parameters_of arr f c (block base n vm) = Some (block base n vm @ ?ds)"
      using def lb len by (auto simp: parameters_of_def np_def nd_def)
    have ld: "length ?ds = np - n" using def len by (simp add: nd_def)
    let ?vm1 = "vm\<lparr>vm_stack := put_block (b + n) ?ds (vm_stack vm)\<rparr>"
    have bi: "nat (base + int n) = b + n" by (simp add: b)
    have "stk_write (base + int n) ?ds vm = Done ?vm1"
      using stk_write_Done [of "base + int n" ?ds vm] fits def ld unfolding bi by (simp add: b)
    moreover have "nat (int nd - (int np - int n)) = nd - (np - n)" using def by simp
    ultimately have pa: "pass_arguments arr f c (int n) base vm = Done (True, ?vm1)"
      using def len unfolding pass_arguments_def Let_def np_def [symmetric] nd_def [symmetric] by (auto simp: nd_def)
    have bl: "block base np ?vm1 = block base n vm @ ?ds"
    proof (rule nth_equalityI)
      show "length (block base np ?vm1) = length (block base n vm @ ?ds)"
        using fits def ld lb by (simp add: block_def b)
      fix i assume "i < length (block base np ?vm1)"
      then have i: "i < np" by (simp add: block_def b)
      show "block base np ?vm1 ! i = (block base n vm @ ?ds) ! i"
        using i fits def ld lb len by (auto simp: block_def b nth_append put_block_nth nd_def)
    qed
    show ?thesis unfolding po option.case
      using pa bl fits def ld lb by (intro exI [of _ ?vm1]) (simp add: np_def)
  next
    case wrong
    then show ?thesis using lb len by (auto simp: parameters_of_def pass_arguments_def np_def nd_def Let_def)
  qed
qed

text \<open>
  C25. Arguments reach the parameters.  Calling a closure of an ordinary function binds the
  parameters in the slots from its base on: each argument in turn, the default values the
  closure captured for the ones that are missing, and in a function with a variable number of
  arguments the remaining ones in a new array; a bound environment replaces the first.  The
  call runs the function from its first instruction in a frame of its size.  Any other number
  of arguments is the error "wrong number of parameters" and changes nothing else.
\<close>

theorem arguments_reach_parameters:
  assumes c: "vm_closures vm clo = Some c" and f: "vm_protos vm (sc_function c) = Some f" "\<not> fp_bgenerator f"
    and len: "length (sc_defaultparams c) = length (fp_defaultparams f)"
    and st: "0 \<le> base" "base + int (max (Suc n) (length (fp_parameters f))) \<le> int (length (vm_stack vm))"
    and np: "0 < length (fp_parameters f)" and meta: "vm_nmetamethodscall vm = 0" and tc: "t \<Longrightarrow> vm_calls vm \<noteq> []"
  shows "case parameters_of arr f c (block base n vm) of
      None \<Rightarrow> StartCall wr weak arr gen clo target (int n) base t vm =
          Done (False, Raise_Error ''wrong number of parameters'' vm)
    | Some ps \<Rightarrow> \<exists>vm' ci cs. StartCall wr weak arr gen clo target (int n) base t vm = Done (True, vm') \<and>
        length ps = length (fp_parameters f) \<and> block base (length ps) vm' = with_env wr c ps \<and>
        vm_stackbase vm' = base \<and> vm_top vm' = base + fp_stacksize f \<and> vm_calls vm' = ci # cs \<and>
        cs = (if t then tl (vm_calls vm) else vm_calls vm) \<and> ci_closure ci = ORef KClosure clo \<and>
        ci_literals ci = fp_literals f \<and> ci_ip ci = 0 \<and> ci_target ci = int32 target \<and>
        (fp_varparams f \<noteq> 0 \<longrightarrow> vm_arrays vm' arr = Some (drop (length ps - 1) (block base n vm)))"
proof (cases "parameters_of arr f c (block base n vm)")
  case None
  with pass_arguments_ok [OF len st np, of arr] show ?thesis by (simp add: StartCall_def c f)
next
  case (Some ps)
  with pass_arguments_ok [OF len st np, of arr] obtain vm1 where p: "pass_arguments arr f c (int n) base vm = Done (True, vm1)"
    "length ps = length (fp_parameters f)" "block base (length ps) vm1 = ps" "length (vm_stack vm1) = length (vm_stack vm)"
    "vm1 = vm\<lparr>vm_stack := vm_stack vm1, vm_arrays := vm_arrays vm1\<rparr>"
    "fp_varparams f \<noteq> 0 \<longrightarrow> vm_arrays vm1 arr = Some (drop (length ps - 1) (block base n vm))" by auto
  have same: "vm_nmetamethodscall vm1 = 0" "vm_calls vm1 = vm_calls vm"
    using arg_cong [OF p(5), of vm_nmetamethodscall] arg_cong [OF p(5), of vm_calls] meta by simp_all
  let ?xs = "case sc_env c of None \<Rightarrow> vm_stack vm1 | Some w \<Rightarrow> (vm_stack vm1)[nat base := wr w]"
  have be: "bind_env wr c base vm1 = Done (vm1\<lparr>vm_stack := ?xs\<rparr>)"
    using st p(4) by (cases "sc_env c") (simp_all add: bind_env_def stk_put_def)
  obtain vm3 where e: "EnterFrame base (base + fp_stacksize f) t (vm1\<lparr>vm_stack := ?xs\<rparr>) = Done (True, vm3)"
    using EnterFrame_True [of "vm1\<lparr>vm_stack := ?xs\<rparr>" t] same tc by auto
  note x = EnterFrame_stack [OF e]
  obtain ci cs where cc: "vm_calls vm3 = ci # cs" using x(5) by (cases "vm_calls vm3") auto
  let ?ci = "ci\<lparr>ci_closure := ORef KClosure clo, ci_literals := fp_literals f, ci_ip := 0, ci_target := int32 target\<rparr>"
  let ?vm = "vm3\<lparr>vm_calls := ?ci # cs\<rparr>"
  have s: "StartCall wr weak arr gen clo target (int n) base t vm = Done (True, ?vm)"
    using be e cc f(2) by (simp add: StartCall_def c f(1) p(1) set_ci_def)
  have "take (length ?xs) (vm_stack vm3) = ?xs" using x(1) by simp
  moreover have lx: "nat base + length ps \<le> length ?xs" using st p(2,4) by (auto split: option.split)
  ultimately have "block base (length ps) vm3 = take (length ps) (drop (nat base) ?xs)"
    unfolding block_def by (rule take_block)
  also have "\<dots> = with_env wr c ps"
  proof (cases "sc_env c")
    case (Some w)
    have "take (length ps) (drop (nat base) ((vm_stack vm1)[nat base := wr w])) = (block base (length ps) vm1)[0 := wr w]"
      using lx by (simp add: block_def drop_update_swap take_update_swap)
    then show ?thesis using Some by (simp add: with_env_def p(3))
  qed (use p(3) in \<open>simp add: with_env_def block_def\<close>)
  finally have b: "block base (length ps) ?vm = with_env wr c ps" by (simp add: block_def)
  have "cs = (if t then tl (vm_calls vm) else vm_calls vm)" using x(7) cc same(2) by simp
  then show ?thesis unfolding Some option.case
    using s b x p(2,6) by (intro exI [of _ ?vm] exI [of _ ?ci] exI [of _ cs]) simp
qed

text \<open>A function of three parameters with two defaults, called with two arguments.\<close>

definition sample_proto :: sqfuncproto where
  "sample_proto = \<lparr>fp_sourcename = ONull, fp_name = ONull, fp_stacksize = 5, fp_bgenerator = False, fp_varparams = 0,
     fp_localvarinfos = [], fp_lineinfos = [], fp_literals = [],
     fp_parameters = [OString ''this'', OString ''a'', OString ''b''], fp_functions = [],
     fp_outervalues = [], fp_defaultparams = [1, 2], fp_instructions = []\<rparr>"

definition sample_vm :: sqvm where
  "sample_vm = (vm_new 10)\<lparr>vm_stack := OInteger 4 # OInteger 5 # replicate 8 ONull, vm_top := 2,
     vm_closures := [1 \<mapsto> \<lparr>sc_env = None, sc_base = None, sc_function = 2, sc_outervalues = [],
                         sc_defaultparams = [OInteger 6, OInteger 7]\<rparr>],
     vm_protos := [2 \<mapsto> sample_proto]\<rparr>"

theorem arguments_reach_parameters_witness:
  "\<exists>vm'. StartCall (\<lambda>_. ONull) (\<lambda>_. 0) 8 9 1 0 2 0 False sample_vm = Done (True, vm') \<and>
     block 0 3 vm' = [OInteger 4, OInteger 5, OInteger 7]"
  using arguments_reach_parameters [of sample_vm 1 "\<lparr>sc_env = None, sc_base = None, sc_function = 2, sc_outervalues = [],
                         sc_defaultparams = [OInteger 6, OInteger 7]\<rparr>" sample_proto 0 2 False "\<lambda>_. ONull" "\<lambda>_. 0" 8 9 0]
  by (auto simp: sample_vm_def sample_proto_def vm_new_def parameters_of_def block_def with_env_def numeral_3_eq_3)

section \<open>Generators\<close>

text \<open>What a generator that yielded has to give back: its registers, its frame and its traps.\<close>

lemma gen_Yield_True:
  assumes "gen_Yield weak g target vm = Done (True, vm1)" "0 < target"
  obtains ge ci cs rest where "vm_generators vm g = Some ge" "vm_calls vm = ci # cs"
    "vm_generators vm1 g = Some (ge\<lparr>
       ge_stack := (if ISREFCOUNTED (sqobjtype (vm_stack vm ! nat (vm_stackbase vm)))
                    then ORef KWeakRef (weak (vm_stack vm ! nat (vm_stackbase vm))) else vm_stack vm ! nat (vm_stackbase vm)) #
                   block (vm_stackbase vm + 1) (nat target - 1) vm @ rest,
       ge_ci := ci\<lparr>ci_generator := None\<rparr>,
       ge_etraps := rev (take (nat (ci_etraps ci)) (vm_etraps vm)) @ ge_etraps ge, ge_state := eSuspended\<rparr>)"
    "1 + length (block (vm_stackbase vm + 1) (nat target - 1) vm) + length rest = nat (vm_top vm - vm_stackbase vm)"
    "0 \<le> vm_stackbase vm" "vm_top vm \<le> int (length (vm_stack vm))" "target \<le> vm_top vm - vm_stackbase vm"
    "nat (ci_etraps ci) \<le> length (vm_etraps vm)" "vm_etraps vm1 = drop (nat (ci_etraps ci)) (vm_etraps vm)"
    "vm_stack vm1 = null_range (vm_stackbase vm) (vm_top vm - 1) (vm_stack vm)" "vm_openouters vm1 = vm_openouters vm"
    "vm_outers vm1 = vm_outers vm"
proof -
  obtain ge where ge: "vm_generators vm g = Some ge" using assms(1) by (cases "vm_generators vm g") (auto simp: gen_Yield_def)
  define size where "size = vm_top vm - vm_stackbase vm"
  have run: "ge_state ge \<noteq> eSuspended" "ge_state ge \<noteq> eDead" "0 < size" "target \<le> size"
    using assms(1) by (auto simp: gen_Yield_def ge Let_def size_def split: if_splits)
  then obtain this vs vm0 where a: "stk_at (vm_stackbase vm) vm = Done this"
    "stk_read (nat (target - 1)) (vm_stackbase vm + 1) vm = Done vs" "null_slots (nat size) (vm_top vm - 1) vm = Done vm0"
    using assms(1) by (auto simp: gen_Yield_def ge Let_def size_def obind_Done split: if_splits)
  note nl = a(3) [unfolded null_slots_Done]
  obtain ci cs where ci: "vm_calls vm = ci # cs"
    using assms(1) nl a run by (cases "vm_calls vm") (auto simp: gen_Yield_def ge Let_def size_def [symmetric])
  have base: "0 \<le> vm_stackbase vm" "vm_top vm \<le> int (length (vm_stack vm))"
    using a(1) nl run(3) by (auto simp: stk_at_Done size_def)
  have th: "this = vm_stack vm ! nat (vm_stackbase vm)" using a(1) by (simp add: stk_at_Done)
  have tn: "nat (target - 1) = nat target - 1" by simp
  have vs: "vs = block (vm_stackbase vm + 1) (nat target - 1) vm"
    using a(2) stk_read_Done [of "vm_stackbase vm + 1" "nat (target - 1)" vm] base run(4) assms(2) by (simp add: tn size_def)
  have lv: "length vs = nat target - 1" using base run(4) assms(2) by (simp add: vs block_def size_def)
  define keep where "keep = length vs + 1"
  let ?t = "take (nat size - keep) (drop keep (ge_stack ge))"
  define rest where "rest = ?t @ replicate (nat size - keep - length ?t) ONull"
  have fields: "vm_calls vm0 = ci # cs" "vm_etraps vm0 = vm_etraps vm" "vm_generators vm0 = vm_generators vm"
    using nl ci by simp_all
  have k: "nat (ci_etraps ci) \<le> length (vm_etraps vm)"
    using assms(1) run a fields ci by (auto simp: gen_Yield_def ge Let_def size_def split: if_splits)
  have v1: "vm1 = gen_put g (ge\<lparr>ge_stack := (if ISREFCOUNTED (sqobjtype this) then ORef KWeakRef (weak this) else this) # vs @ rest,
       ge_ci := ci\<lparr>ci_generator := None\<rparr>,
       ge_etraps := rev (take (nat (ci_etraps ci)) (vm_etraps vm)) @ ge_etraps ge, ge_state := eSuspended\<rparr>)
     (vm0\<lparr>vm_etraps := drop (nat (ci_etraps ci)) (vm_etraps vm)\<rparr>)"
    using assms(1) run a fields k ci unfolding rest_def size_def keep_def by (simp add: gen_Yield_def ge Let_def)
  have lr: "1 + length vs + length rest = nat size"
  proof -
    have "keep \<le> nat size" using lv run(4) assms(2) by (simp add: keep_def)
    then show ?thesis by (simp add: keep_def rest_def)
  qed
  have sz: "vm_top vm - 1 - int (nat size) + 1 = vm_stackbase vm" using run(3) by (simp add: size_def)
  have v0: "vm_stack vm0 = null_range (vm_stackbase vm) (vm_top vm - 1) (vm_stack vm)" "vm_openouters vm0 = vm_openouters vm"
    "vm_outers vm0 = vm_outers vm" using nl unfolding sz by simp_all
  show thesis
    by (rule that [OF ge ci, of rest])
      (use lr base run(4) k v0 in \<open>simp_all add: v1 gen_put_def th vs size_def\<close>)
qed

text \<open>
  C26. A generator goes on where it yielded.  When a generator has yielded, resuming it later,
  from any place, gives it a new frame above the top with the registers it had below the
  yielding instruction's, at its instruction, with its literals, its closure and its count of
  traps; its traps are on the stack of traps again and it is running.  Its environment must
  still be alive, and there must be room for its frame.
\<close>

theorem generator_goes_on:
  assumes yield: "gen_Yield weak g target vm = Done (True, vm1)" "0 < target"
    and same: "vm_generators vm2 g = vm_generators vm1 g"
    and env: "ob = vm_stack vm ! nat (vm_stackbase vm)" "ISREFCOUNTED (sqobjtype ob) \<Longrightarrow> wr (weak ob) = ob"
    and room: "0 \<le> vm_top vm2" "vm_top vm2 + (vm_top vm - vm_stackbase vm) \<le> int (length (vm_stack vm2)) + 45"
    and meta: "vm_nmetamethodscall vm2 = 0"
  shows "\<exists>vm3 ci ge. gen_Resume wr g t vm2 = Done (True, vm3) \<and>
    vm_stackbase vm3 = vm_top vm2 \<and> vm_top vm3 = vm_top vm2 + (vm_top vm - vm_stackbase vm) \<and>
    block (vm_stackbase vm3) (nat target) vm3 = block (vm_stackbase vm) (nat target) vm \<and>
    vm_calls vm3 = ci # vm_calls vm2 \<and> ci_generator ci = Some g \<and> ci_target ci = int32 t \<and>
    ci_ip ci = ci_ip (hd (vm_calls vm)) \<and> ci_literals ci = ci_literals (hd (vm_calls vm)) \<and>
    ci_closure ci = ci_closure (hd (vm_calls vm)) \<and> ci_etraps ci = ci_etraps (hd (vm_calls vm)) \<and>
    vm_etraps vm3 = take (nat (ci_etraps ci)) (vm_etraps vm) @ vm_etraps vm2 \<and>
    vm_generators vm3 g = Some ge \<and> ge_state ge = eRunning"
proof -
  obtain ge ci cs rest where y: "vm_generators vm g = Some ge" "vm_calls vm = ci # cs"
    "vm_generators vm1 g = Some (ge\<lparr>
       ge_stack := (if ISREFCOUNTED (sqobjtype (vm_stack vm ! nat (vm_stackbase vm)))
                    then ORef KWeakRef (weak (vm_stack vm ! nat (vm_stackbase vm))) else vm_stack vm ! nat (vm_stackbase vm)) #
                   block (vm_stackbase vm + 1) (nat target - 1) vm @ rest,
       ge_ci := ci\<lparr>ci_generator := None\<rparr>,
       ge_etraps := rev (take (nat (ci_etraps ci)) (vm_etraps vm)) @ ge_etraps ge, ge_state := eSuspended\<rparr>)"
    "1 + length (block (vm_stackbase vm + 1) (nat target - 1) vm) + length rest = nat (vm_top vm - vm_stackbase vm)"
    "0 \<le> vm_stackbase vm" "vm_top vm \<le> int (length (vm_stack vm))" "target \<le> vm_top vm - vm_stackbase vm"
    "nat (ci_etraps ci) \<le> length (vm_etraps vm)"
    by (rule gen_Yield_True [OF yield])
  define k b n where "k = nat (ci_etraps ci)" and "b = vm_top vm2" and "n = vm_top vm - vm_stackbase vm"
  define this' where "this' = (if ISREFCOUNTED (sqobjtype ob) then ORef KWeakRef (weak ob) else ob)"
  define vs where "vs = block (vm_stackbase vm + 1) (nat target - 1) vm @ rest"
  let ?ge = "ge\<lparr>ge_stack := this' # vs, ge_ci := ci\<lparr>ci_generator := None\<rparr>,
       ge_etraps := rev (take k (vm_etraps vm)) @ ge_etraps ge, ge_state := eSuspended\<rparr>"
  have g: "vm_generators vm2 g = Some ?ge" using same y(3) by (simp add: env(1) this'_def vs_def k_def)
  have len: "1 + int (length vs) = n" using y(4,7) yield(2) by (simp add: vs_def n_def)
  obtain vm3 where e: "EnterFrame b (b + n) False vm2 = Done (True, vm3)" using EnterFrame_True [of vm2 False] meta by blast
  note x = EnterFrame_stack [OF e]
  obtain ci3 where c3: "vm_calls vm3 = ci3 # vm_calls vm2" using x(5,7) by (cases "vm_calls vm3") auto
  have fits: "b + n + 15 \<le> int (length (vm_stack vm3))" "0 \<le> b" using x(9) room by (simp_all add: b_def n_def MIN_STACK_OVERHEAD_def)
  have same_env: "(case this' of ORef KWeakRef w \<Rightarrow> wr w | _ \<Rightarrow> this') = ob"
    using env(2) by (cases ob rule: sqobj.exhaust) (auto simp: this'_def ISREFCOUNTED_def SQOBJECT_REF_COUNTED_def split: refkind.split)
  let ?ci = "ci3\<lparr>ci_generator := Some g, ci_target := int32 t, ci_closure := ci_closure ci,
                        ci_ip := ci_ip ci, ci_literals := ci_literals ci, ci_ncalls := ci_ncalls ci,
                        ci_etraps := ci_etraps ci, ci_root := ci_root ci\<rparr>"
  let ?vm3 = "vm3\<lparr>vm_calls := ?ci # vm_calls vm2, vm_etraps := take k (vm_etraps vm) @ vm_etraps vm3\<rparr>"
  have k: "rev (take k (ge_etraps ?ge)) = take k (vm_etraps vm)" "\<not> length (ge_etraps ?ge) < k"
    using y(8) by (simp_all add: k_def)
  let ?xs = "(vm_stack vm3)[nat b := ob]"
  let ?vm4 = "?vm3\<lparr>vm_stack := put_block (nat b + 1) vs ?xs\<rparr>"
  have put: "stk_put b ob ?vm3 = Done (?vm3\<lparr>vm_stack := ?xs\<rparr>)" using fits len by (simp add: stk_put_def)
  have nb: "nat (b + 1) = nat b + 1" using fits by simp
  have wrote: "stk_write (b + 1) vs (?vm3\<lparr>vm_stack := ?xs\<rparr>) = Done ?vm4"
    using stk_write_Done [of "b + 1" vs "?vm3\<lparr>vm_stack := ?xs\<rparr>"] fits len unfolding nb by simp
  let ?ge' = "?ge\<lparr>ge_stack := this' # map (\<lambda>_. ONull) vs, ge_etraps := drop k (ge_etraps ?ge), ge_state := eRunning\<rparr>"
  have e': "EnterFrame (vm_top vm2) (vm_top vm2 + int (length (ge_stack ?ge))) False vm2 = Done (True, vm3)"
    using e len by (simp add: b_def add.commute)
  have r: "gen_Resume wr g t vm2 = Done (True, gen_put g ?ge' ?vm4)"
    unfolding gen_Resume_def g of_option.simps obind.simps e'
    using put wrote y(8) same_env x(3) by (simp add: c3 k_def [symmetric] Let_def)
  have "block b (nat target) ?vm4 = take (nat target) (drop (nat b) (put_block (nat b) (ob # vs) (vm_stack vm3)))"
    using fits len by (simp add: block_def put_block_Cons)
  also have "\<dots> = take (nat target) (ob # vs)"
    by (rule take_put_block) (use fits len y(7) in \<open>simp_all add: n_def\<close>)
  also have "\<dots> = block (vm_stackbase vm) (nat target) vm"
    using block_Cons [of "vm_stackbase vm" "nat target" vm] yield(2) y(5,6,7)
    by (simp add: vs_def env(1) block_def take_Cons')
  finally have "block b (nat target) ?vm4 = block (vm_stackbase vm) (nat target) vm" .
  then show ?thesis
    using r x(3,4,8) by (intro exI [of _ "gen_put g ?ge' ?vm4"] exI [of _ ?ci] exI [of _ ?ge'])
      (simp add: b_def n_def y(2) gen_put_def block_def k_def)
qed

definition sample_call :: callinfo where
  "sample_call = \<lparr>ci_ip = 3, ci_literals = [], ci_closure = ORef KClosure 1, ci_generator = Some 5, ci_etraps = 0,
     ci_prevstkbase = 0, ci_prevtop = 0, ci_target = 0, ci_ncalls = 1, ci_root = False\<rparr>"

definition sample_generator :: sqvm where
  "sample_generator = (vm_new 20)\<lparr>vm_stack := OInteger 4 # OInteger 5 # replicate 18 ONull, vm_top := 4,
     vm_generators := [5 \<mapsto> \<lparr>ge_closure = ORef KClosure 1, ge_stack = [], ge_ci = sample_call, ge_etraps = [], ge_state = eRunning\<rparr>],
     vm_calls := [sample_call]\<rparr>"

theorem generator_goes_on_witness:
  "\<exists>vm1 vm3. gen_Yield (\<lambda>_. 0) 5 2 sample_generator = Done (True, vm1) \<and>
     gen_Resume (\<lambda>_. ONull) 5 0 (vm1\<lparr>vm_top := 7\<rparr>) = Done (True, vm3) \<and>
     block 7 2 vm3 = [OInteger 4, OInteger 5]"
proof -
  have "\<exists>vm1. gen_Yield (\<lambda>_. 0) 5 2 sample_generator = Done (True, vm1) \<and> vm_nmetamethodscall vm1 = 0 \<and> length (vm_stack vm1) = 20"
    by (simp add: gen_Yield_def sample_generator_def vm_new_def stk_at_def Let_def null_slots_Done stk_put_def eval_nat_numeral
        sample_call_def gen_put_def)
  then obtain vm1 where y: "gen_Yield (\<lambda>_. 0) 5 2 sample_generator = Done (True, vm1)" "vm_nmetamethodscall vm1 = 0"
    "length (vm_stack vm1) = 20" by blast
  have b: "block 0 2 sample_generator = [OInteger 4, OInteger 5]" "vm_stack sample_generator ! 0 = OInteger 4"
    "vm_stackbase sample_generator = 0" "vm_top sample_generator = 4"
    by (simp_all add: block_def sample_generator_def vm_new_def eval_nat_numeral)
  have "\<not> ISREFCOUNTED (sqobjtype (OInteger 4))"
    by (simp add: ISREFCOUNTED_def SQOBJECT_REF_COUNTED_def SQOBJECT_NUMERIC_def SQOBJECT_CANBEFALSE_def)
  with generator_goes_on [OF y(1), of "vm1\<lparr>vm_top := 7\<rparr>" "OInteger 4" "\<lambda>_. ONull" 0] b y
  show ?thesis by auto
qed

section \<open>Errors\<close>

text \<open>The frames from the one that handles an error on, and the frames that are left.\<close>

fun handling :: "callinfo list \<Rightarrow> callinfo list option" where
  "handling [] = None"
| "handling (ci # cs) = (if ci_etraps ci > 0 then Some (ci # cs) else if ci_root ci then None else handling cs)"

fun left_frames :: "callinfo list \<Rightarrow> callinfo list" where
  "left_frames [] = []"
| "left_frames (ci # cs) =
     (if ci_etraps ci > 0 then [] else if ci_root ci then [ci] else ci # left_frames cs)"

text \<open>
  Frames that lie on the stack: the bases and tops of the callers, and their generators, exist.
\<close>

fun frames_fit :: "int \<Rightarrow> (addr \<Rightarrow> sqgenerator option) \<Rightarrow> int \<Rightarrow> int \<Rightarrow> callinfo list \<Rightarrow> bool" where
  "frames_fit len gs base t [] = True"
| "frames_fit len gs base t (ci # cs) =
     (0 \<le> base \<and> 0 \<le> t \<and> t < len \<and> (\<forall>g. ci_generator ci = Some g \<longrightarrow> gs g \<noteq> None) \<and>
      0 \<le> base - ci_prevstkbase ci + ci_prevtop ci \<and>
      frames_fit len gs (base - ci_prevstkbase ci) (base - ci_prevstkbase ci + ci_prevtop ci) cs)"

definition trap_fits :: "int \<Rightarrow> exctrap \<Rightarrow> bool" where
  "trap_fits len et \<longleftrightarrow> 0 \<le> et_stackbase et + et_extarget et \<and> et_stackbase et + et_extarget et < et_stacksize et \<and>
     et_stacksize et \<le> len"

definition dead_in :: "addr \<Rightarrow> sqvm \<Rightarrow> bool" where
  "dead_in g vm \<longleftrightarrow> (\<exists>ge. vm_generators vm g = Some ge \<and> ge_state ge = eDead)"

lemma frames_fit_generators:
  "frames_fit len gs base t cs \<Longrightarrow> (\<And>g. gs g \<noteq> None \<Longrightarrow> gs' g \<noteq> None) \<Longrightarrow> frames_fit len gs' base t cs"
  by (induction len gs base t cs rule: frames_fit.induct) auto

lemma kill_Done:
  assumes "\<And>g. go = Some g \<Longrightarrow> vm_generators vm g \<noteq> None"
  obtains gs where "(case go of None \<Rightarrow> Done vm | Some g \<Rightarrow> gen_Kill g vm) = Done (vm\<lparr>vm_generators := gs\<rparr>)"
    "\<forall>g. vm_generators vm g \<noteq> None \<longrightarrow> gs g \<noteq> None" "\<forall>g. go = Some g \<longrightarrow> dead_in g (vm\<lparr>vm_generators := gs\<rparr>)"
    "\<forall>g. dead_in g vm \<longrightarrow> dead_in g (vm\<lparr>vm_generators := gs\<rparr>)"
proof (cases go)
  case None
  have "vm\<lparr>vm_generators := vm_generators vm\<rparr> = vm" by (cases vm) simp
  then show ?thesis using None by (intro that [of "vm_generators vm"]) simp_all
next
  case (Some g)
  obtain ge where ge: "vm_generators vm g = Some ge" using assms [OF Some] by blast
  show ?thesis
    by (rule that [of "(vm_generators vm)(g \<mapsto> ge\<lparr>ge_state := eDead, ge_stack := [], ge_closure := ONull\<rparr>)"])
      (auto simp: Some gen_Kill_def ge gen_put_def dead_in_def)
qed

text \<open>What unwinding gives, on one side the handler and on the other the caller outside.\<close>

definition handled :: "sqobj \<Rightarrow> exctrap \<Rightarrow> exctrap list \<Rightarrow> callinfo list \<Rightarrow> sqvm \<Rightarrow> bool" where
  "handled err et ts cis vm \<longleftrightarrow> outers_ok vm \<and> vm_etraps vm = ts \<and> vm_stackbase vm = et_stackbase et \<and>
     vm_top vm = et_stacksize et \<and> reg (et_extarget et) vm = Done err \<and>
     vm_calls vm = (hd cis)\<lparr>ci_ip := et_ip et, ci_etraps := ci_etraps (hd cis) - 1\<rparr> # tl cis"

definition unhandled :: "sqobj \<Rightarrow> sqvm \<Rightarrow> sqvm \<Rightarrow> bool" where
  "unhandled err vm vm' \<longleftrightarrow> outers_ok vm' \<and> vm_etraps vm' = vm_etraps vm \<and> vm_lasterror vm' = err \<and>
     vm_calls vm' = drop (length (left_frames (vm_calls vm))) (vm_calls vm)"

lemma handler_reached:
  assumes ok: "outers_ok vm" and calls: "vm_calls vm = ci # cs" and trap: "ci_etraps ci > 0" "vm_etraps vm = et # ts"
    "trap_fits (int (length (vm_stack vm))) et" and last: "last_top < int (length (vm_stack vm))"
  shows "\<exists>vm'. unwind (Suc n) last_top err vm = Done (True, vm') \<and> handled err et ts (ci # cs) vm' \<and>
    vm_generators vm' = vm_generators vm"
proof -
  let ?ci = "ci\<lparr>ci_ip := et_ip et, ci_etraps := ci_etraps ci - 1\<rparr>"
  let ?i = "nat (et_stackbase et + et_extarget et)"
  let ?vm = "vm\<lparr>vm_calls := ?ci # cs, vm_top := et_stacksize et, vm_stackbase := et_stackbase et, vm_etraps := ts\<rparr>"
  let ?xs = "(vm_stack vm)[?i := err]"
  let ?vm' = "?vm\<lparr>vm_stack := null_range (et_stacksize et) last_top ?xs\<rparr>"
  have i: "0 \<le> et_stackbase et + et_extarget et" "et_stackbase et + et_extarget et < et_stacksize et"
    "et_stacksize et \<le> int (length (vm_stack vm))" using trap(3) by (simp_all add: trap_fits_def)
  have put: "stk_put (et_stackbase et + et_extarget et) err ?vm = Done (?vm\<lparr>vm_stack := ?xs\<rparr>)"
    using i by (simp add: stk_put_def)
  have "null_slots (nat (last_top - et_stacksize et + 1)) last_top (?vm\<lparr>vm_stack := ?xs\<rparr>) = Done ?vm'"
    using i last by (cases "et_stacksize et \<le> last_top") (auto simp: null_slots_Done)
  then have u: "unwind (Suc n) last_top err vm = Done (True, ?vm')" using put trap(1,2) calls by simp
  have "outers_ok ?vm'" using ok by (subst outers_ok_cong [of _ vm]) simp_all
  moreover have "reg (et_extarget et) ?vm' = Done err" using i by (auto simp: reg_def stk_at_def)
  ultimately show ?thesis using u by (intro exI [of _ ?vm']) (simp add: handled_def)
qed

lemma unwind_ok:
  assumes "outers_ok vm" "frames_fit (int (length (vm_stack vm))) (vm_generators vm) (vm_stackbase vm) (vm_top vm) (vm_calls vm)"
    "length (vm_calls vm) < n" "last_top < int (length (vm_stack vm))"
    "handling (vm_calls vm) \<noteq> None \<Longrightarrow> vm_etraps vm = et # ts \<and> trap_fits (int (length (vm_stack vm))) et"
  shows "\<exists>vm'. unwind n last_top err vm = Done (handling (vm_calls vm) \<noteq> None, vm') \<and>
    (case handling (vm_calls vm) of Some cis \<Rightarrow> handled err et ts cis vm' | None \<Rightarrow> unhandled err vm vm') \<and>
    (\<forall>ci \<in> set (left_frames (vm_calls vm)). \<forall>g. ci_generator ci = Some g \<longrightarrow> dead_in g vm') \<and>
    (\<forall>g. dead_in g vm \<longrightarrow> dead_in g vm')"
  using assms
proof (induction n arbitrary: vm)
  case (Suc n)
  show ?case
  proof (cases "vm_calls vm")
    case Nil
    then show ?thesis using Suc.prems(1) by (simp add: unhandled_def dead_in_def)
  next
    case (Cons ci cs)
    note fit = Suc.prems(2) [unfolded Cons frames_fit.simps]
    show ?thesis
    proof (cases "ci_etraps ci > 0")
      case True
      with Suc.prems(5) Cons have "vm_etraps vm = et # ts" "trap_fits (int (length (vm_stack vm))) et" by simp_all
      from handler_reached [OF Suc.prems(1) Cons True this Suc.prems(4), of n err] show ?thesis
        using True Cons by (auto simp del: unwind.simps simp: dead_in_def)
    next
      case False
      obtain gs where gs: "(case ci_generator ci of None \<Rightarrow> Done vm | Some g \<Rightarrow> gen_Kill g vm) = Done (vm\<lparr>vm_generators := gs\<rparr>)"
        "\<forall>g. vm_generators vm g \<noteq> None \<longrightarrow> gs g \<noteq> None" "\<forall>g. ci_generator ci = Some g \<longrightarrow> dead_in g (vm\<lparr>vm_generators := gs\<rparr>)"
        "\<forall>g. dead_in g vm \<longrightarrow> dead_in g (vm\<lparr>vm_generators := gs\<rparr>)"
        by (rule kill_Done [of "ci_generator ci" vm]) (use fit in blast)+
      let ?vm1 = "vm\<lparr>vm_generators := gs\<rparr>"
      let ?b = "vm_stackbase vm - ci_prevstkbase ci" and ?t = "vm_stackbase vm - ci_prevstkbase ci + ci_prevtop ci"
      have ok1: "outers_ok ?vm1" using Suc.prems(1) by (subst outers_ok_cong [of _ vm]) simp_all
      have l: "vm_calls ?vm1 = ci # cs" "0 \<le> vm_stackbase ?vm1" "vm_top ?vm1 < int (length (vm_stack ?vm1))"
        "?t = vm_stackbase ?vm1 - ci_prevstkbase ci + ci_prevtop ci" "0 \<le> ?t" using fit Cons by simp_all
      obtain vm2 where vm2: "LeaveFrame ?vm1 = Done vm2" "vm_calls vm2 = cs" "vm_stackbase vm2 = ?b" "vm_top vm2 = ?t"
        "length (vm_stack vm2) = length (vm_stack vm)" "vm_generators vm2 = gs" "vm_etraps vm2 = vm_etraps vm"
        by (rule LeaveFrame_ok [OF ok1 l]) simp
      have ok2: "outers_ok vm2" using LeaveFrame_kept [OF ok1] by (simp add: vm2(1))
      have dead2: "dead_in g vm2 = dead_in g ?vm1" for g by (simp add: dead_in_def vm2(6))
      have u: "unwind (Suc n) last_top err vm =
          (if ci_root ci then Done (False, vm2\<lparr>vm_lasterror := err\<rparr>) else unwind n last_top err vm2)"
        using False by (simp add: Cons gs(1) vm2(1))
      show ?thesis
      proof (cases "ci_root ci")
        case True
        let ?vm' = "vm2\<lparr>vm_lasterror := err\<rparr>"
        have c: "handling (vm_calls vm) = None" "left_frames (vm_calls vm) = [ci]" using True False by (simp_all add: Cons)
        have "unwind (Suc n) last_top err vm = Done (False, ?vm')" using u True by simp
        moreover have "unhandled err vm ?vm'" using ok2 c(2) by (simp add: unhandled_def vm2(2,7) Cons)
        moreover have "dead_in g ?vm' = dead_in g ?vm1" for g using dead2 [of g] by (simp add: dead_in_def)
        ultimately show ?thesis unfolding c using gs(3,4) by (intro exI [of _ ?vm']) simp
      next
        case False2: False
        have "frames_fit (int (length (vm_stack vm))) (vm_generators vm) ?b ?t cs" using fit by blast
        then have f2: "frames_fit (int (length (vm_stack vm2))) (vm_generators vm2) (vm_stackbase vm2) (vm_top vm2) (vm_calls vm2)"
          unfolding vm2(2-6) by (rule frames_fit_generators) (use gs(2) in blast)
        have "length (vm_calls vm2) < n" "last_top < int (length (vm_stack vm2))"
          using Suc.prems(3,4) Cons by (simp_all add: vm2(2,5))
        moreover have "handling (vm_calls vm2) \<noteq> None \<Longrightarrow> vm_etraps vm2 = et # ts \<and> trap_fits (int (length (vm_stack vm2))) et"
          using Suc.prems(5) False False2 by (simp add: Cons vm2(2,5,7))
        ultimately obtain vm' where v: "unwind n last_top err vm2 = Done (handling cs \<noteq> None, vm')"
          "case handling cs of Some cis \<Rightarrow> handled err et ts cis vm' | None \<Rightarrow> unhandled err vm2 vm'"
          "\<forall>ci \<in> set (left_frames cs). \<forall>g. ci_generator ci = Some g \<longrightarrow> dead_in g vm'" "\<forall>g. dead_in g vm2 \<longrightarrow> dead_in g vm'"
          using Suc.IH [OF ok2 f2] unfolding vm2(2) by blast
        have c: "handling (vm_calls vm) = handling cs" "left_frames (vm_calls vm) = ci # left_frames cs"
          using False False2 by (simp_all add: Cons)
        have "unwind (Suc n) last_top err vm = Done (handling cs \<noteq> None, vm')" using u False2 v(1) by simp
        moreover have "unhandled err vm2 vm' \<Longrightarrow> unhandled err vm vm'" using c(2) by (simp add: unhandled_def vm2(2,7) Cons)
        moreover have "\<forall>g. dead_in g ?vm1 \<longrightarrow> dead_in g vm'" using v(4) by (simp only: dead2)
        ultimately show ?thesis unfolding c using v(2,3) gs(3,4)
          by (intro exI [of _ vm']) (cases "handling cs"; simp)
      qed
    qed
  qed
qed simp

text \<open>
  C27. An error reaches its handler.  When an instruction raises an error in a state whose frames
  lie on the stack, the unwinding ends.  If a frame not outside the innermost native call has a
  trap, the frames inside it are left and their generators are dead, and the function of that
  frame goes on in its handler with the base and top the trap saved, the error in the handler's
  variable and the trap removed; otherwise the frames up to that of the native call are left
  and the call fails with the error, the traps of the frames outside untouched.
\<close>

theorem errors_reach_their_handler:
  assumes "outers_ok vm" "vm_top vm < int (length (vm_stack vm))"
    "frames_fit (int (length (vm_stack vm))) (vm_generators vm) (vm_stackbase vm) (vm_top vm) (vm_calls vm)"
    "handling (vm_calls vm) \<noteq> None \<Longrightarrow> vm_etraps vm = et # ts \<and> trap_fits (int (length (vm_stack vm))) et"
  shows "\<exists>vm'. exception_trap vm = Done (handling (vm_calls vm) \<noteq> None, vm') \<and>
    (case handling (vm_calls vm) of
       Some cis \<Rightarrow> handled (vm_lasterror vm) et ts cis vm'
     | None \<Rightarrow> unhandled (vm_lasterror vm) vm vm') \<and>
    (\<forall>ci \<in> set (left_frames (vm_calls vm)). \<forall>g. ci_generator ci = Some g \<longrightarrow> dead_in g vm')"
  using unwind_ok [of vm "Suc (length (vm_calls vm))" "vm_top vm" et ts "vm_lasterror vm"] assms
  unfolding exception_trap_def by blast

text \<open>A function called from one that has a trap, whose handler keeps the error in its first register.\<close>

definition sample_trap :: sqvm where
  "sample_trap = (vm_new 30)\<lparr>vm_stackbase := 4, vm_top := 8, vm_lasterror := OString ''oops'',
     vm_calls := [sample_call\<lparr>ci_generator := None, ci_prevstkbase := 4, ci_prevtop := 4\<rparr>,
                  sample_call\<lparr>ci_generator := None, ci_etraps := 1\<rparr>],
     vm_openouters := [7], vm_outers := [7 \<mapsto> \<lparr>ot_valptr = OnStack 0 1, ot_idx = 1, ot_value = ONull\<rparr>],
     vm_etraps := [\<lparr>et_stackbase = 0, et_stacksize = 4, et_ip = 9, et_extarget = 1\<rparr>]\<rparr>"

lemma sample_trap_ok: "outers_ok sample_trap"
  by (auto simp: sample_trap_def vm_new_def outers_ok_def)

theorem errors_reach_their_handler_witness:
  "\<exists>vm'. exception_trap sample_trap = Done (True, vm') \<and> reg 1 vm' = Done (OString ''oops'') \<and> vm_stackbase vm' = 0"
proof -
  have h: "handling (vm_calls sample_trap) = Some [sample_call\<lparr>ci_generator := None, ci_etraps := 1\<rparr>]"
    by (simp add: sample_trap_def sample_call_def)
  have "frames_fit (int (length (vm_stack sample_trap))) (vm_generators sample_trap) (vm_stackbase sample_trap)
      (vm_top sample_trap) (vm_calls sample_trap)" "vm_top sample_trap < int (length (vm_stack sample_trap))"
    "vm_etraps sample_trap = [\<lparr>et_stackbase = 0, et_stacksize = 4, et_ip = 9, et_extarget = 1\<rparr>] \<and>
     trap_fits (int (length (vm_stack sample_trap))) \<lparr>et_stackbase = 0, et_stacksize = 4, et_ip = 9, et_extarget = 1\<rparr>"
    "vm_lasterror sample_trap = OString ''oops''"
    by (simp_all add: sample_trap_def sample_call_def vm_new_def trap_fits_def)
  with errors_reach_their_handler [OF sample_trap_ok this(2,1)] show ?thesis by (auto simp: h handled_def)
qed

section \<open>Cases in which the code leaves its promises\<close>

text \<open>
  A trap does not close the variables that were captured in its block: the handler's variable
  is put in the slot of such a variable, which then has the error as its value.
\<close>

theorem handler_changes_captured_variable:
  "outer_get 7 sample_trap = Done ONull \<and>
   (\<exists>vm'. exception_trap sample_trap = Done (True, vm') \<and> outer_get 7 vm' = Done (OString ''oops''))"
  by (simp add: sample_trap_def sample_call_def vm_new_def outer_get_def stk_at_def exception_trap_def LeaveFrame_def
      CloseOuters_def open_index_def null_slots_Done stk_put_def Let_def null_range_def eval_nat_numeral upt_rec)

text \<open>Reserving slots moves the stack and leaves the open variables where it was.\<close>

theorem reserve_leaves_variables_behind:
  assumes "outers_ok vm" "p \<in> set (vm_openouters vm)" "vm_nmetamethodscall vm = 0"
    "vm_top vm + n > int (vm_allocated vm)" "length (vm_stack vm) \<le> vm_allocated vm"
  shows "fst (sq_reservestack n vm) \<and> outer_get p (snd (sq_reservestack n vm)) = Undef"
proof -
  have a: "vm_top vm + n > int (length (vm_stack vm))" "nat (vm_top vm + n) > vm_allocated vm" using assms(4,5) by auto
  have p: "vm_outers vm p = Some (the (vm_outers vm p))" "ot_valptr (the (vm_outers vm p)) = OnStack (vm_gen vm) (oidx vm p)"
    by (rule outers_okD [OF assms(1,2)])+
  have g: "vm_gen (stack_resize (nat (vm_top vm + n)) vm) = vm_gen vm + 1" using a(2) by (simp add: stack_resize_def Let_def)
  have s: "sq_reservestack n vm = (True, stack_resize (nat (vm_top vm + n)) vm)" using a(1) assms(3) by (simp add: sq_reservestack_def)
  have "outer_get p (stack_resize (nat (vm_top vm + n)) vm) = Undef"
    using p by (cases "vm_outers vm p") (simp_all add: outer_get_def g)
  with s show ?thesis by simp
qed

text \<open>Entering a frame grows the stack by 60 slots, whatever the frame needs.\<close>

theorem EnterFrame_grows_too_little:
  assumes "vm_nmetamethodscall vm = 0" "nt > int (length (vm_stack vm)) + 60"
  shows "\<exists>vm'. EnterFrame nb nt False vm = Done (True, vm') \<and> vm_top vm' > int (length (vm_stack vm'))"
  using assms by (auto simp: EnterFrame_def Let_def MIN_STACK_OVERHEAD_def RelocateOuters_def)

text \<open>A frame that cannot be entered stays on the stack of calls, without a closure.\<close>

theorem EnterFrame_failure_leaves_frame:
  assumes "vm_nmetamethodscall vm \<noteq> 0" "nt + MIN_STACK_OVERHEAD > int (length (vm_stack vm))"
  shows "\<exists>vm' ci. EnterFrame nb nt False vm = Done (False, vm') \<and> vm_calls vm' = ci # vm_calls vm \<and>
    ci_closure ci = ONull \<and> vm_stackbase vm' = nb"
  using assms by (auto simp: EnterFrame_def Let_def Raise_Error_def)

text \<open>Yielding nulls the slots of variables that are still open.\<close>

theorem Yield_nulls_captured_variables:
  assumes "gen_Yield weak g target vm = Done (True, vm1)" "outers_ok vm" "p \<in> set (vm_openouters vm)"
    "vm_stackbase vm \<le> int (oidx vm p)" "int (oidx vm p) < vm_top vm"
    and target: "0 < target"
  shows "outer_get p vm1 = Done ONull"
proof -
  have st: "vm_stack vm1 = null_range (vm_stackbase vm) (vm_top vm - 1) (vm_stack vm)"
      "vm_openouters vm1 = vm_openouters vm" "vm_outers vm1 = vm_outers vm"
    by (rule gen_Yield_True [OF assms(1) target], assumption)+
  have "outers_ok vm1" using gen_Yield_kept [OF assms(2), of weak g target] assms(1) by simp
  then have "outer_get p vm1 = Done (vm_stack vm1 ! oidx vm p)"
    using outer_get_open [of vm1 p] assms(3) st(2,3) by (simp add: oidx_def)
  then show ?thesis using st(1) assms(4,5) outers_okD(3) [OF assms(2,3)] by simp
qed

section \<open>A closing before a return\<close>

lemma open_index_cong: "vm_outers v' = vm_outers v \<Longrightarrow> vm_gen v' = vm_gen v \<Longrightarrow> open_index p v' = open_index p v"
  by (simp add: open_index_def cong: valptr.case_cong)

lemma close_outers_commute:
  assumes f: "\<And>v h os. f (v\<lparr>vm_outers := h, vm_openouters := os\<rparr>) = (f v)\<lparr>vm_outers := h, vm_openouters := os\<rparr>"
    "\<And>v. vm_outers (f v) = vm_outers v" "\<And>v. vm_gen (f v) = vm_gen v"
    "\<And>v i. lim \<le> i \<Longrightarrow> stk_at (int i) (f v) = stk_at (int i) v"
  shows "close_outers lim ps (f v) = obind (close_outers lim ps v) (\<lambda>v'. Done (f v'))"
proof (induction ps arbitrary: v)
  case (Cons p ps)
  have oi: "open_index p (f v) = open_index p v" by (rule open_index_cong) (simp_all add: f)
  show ?case
  proof (cases "open_index p v")
    case (Done i)
    show ?thesis
    proof (cases "i < lim")
      case False
      then have "outer_get p (f v) = outer_get p v"
        using Done by (cases "vm_outers v p") (auto simp: open_index_def outer_get_def f split: valptr.splits if_splits)
      then show ?thesis using False Done oi Cons.IH
        by (cases "outer_get p v") (simp_all add: f(1) [symmetric] f(2))
    qed (use Done oi in simp)
  qed (use oi in simp_all)
qed simp

lemma close_outers_twice:
  "lim \<le> k \<Longrightarrow> vm_openouters v = ps \<Longrightarrow>
   obind (close_outers k ps v) (\<lambda>v'. close_outers lim (vm_openouters v') v') = close_outers lim ps v"
proof (induction ps arbitrary: v)
  case (Cons p ps)
  show ?case
  proof (cases "open_index p v")
    case (Done i)
    show ?thesis using Cons.prems Done Cons.IH
      by (cases "outer_get p v") (simp_all)
  qed simp_all
qed simp

text \<open>What a return does between the closing and the leaving of the frame does not matter to the closing.\<close>

definition closes :: "nat \<Rightarrow> sqvm \<Rightarrow> sqvm \<Rightarrow> bool" where
  "closes lim v v' \<longleftrightarrow> (\<exists>h os. v' = v\<lparr>vm_outers := h, vm_openouters := os\<rparr>) \<and> CloseOuters lim v = Done v'"

lemma closes_commute:
  assumes "closes lim v v'"
    and f: "\<And>v h os. f (v\<lparr>vm_outers := h, vm_openouters := os\<rparr>) = (f v)\<lparr>vm_outers := h, vm_openouters := os\<rparr>"
      "\<And>v. vm_outers (f v) = vm_outers v" "\<And>v. vm_gen (f v) = vm_gen v" "\<And>v. vm_openouters (f v) = vm_openouters v"
      "\<And>v i. lim \<le> i \<Longrightarrow> stk_at (int i) (f v) = stk_at (int i) v"
  shows "closes lim (f v) (f v')"
proof -
  obtain h os where v': "v' = v\<lparr>vm_outers := h, vm_openouters := os\<rparr>" "CloseOuters lim v = Done v'"
    using assms(1) by (auto simp: closes_def)
  have "CloseOuters lim (f v) = Done (f v')"
    using v'(2) close_outers_commute [where f = f and lim = lim, OF f(1,2,3,5)] by (simp add: CloseOuters_def f(4))
  then show ?thesis using f(1) [where v = v and h = h and os = os] v'(1) by (auto simp: closes_def)
qed

lemma LeaveFrame_closing:
  assumes "0 \<le> vm_stackbase v"
  shows "LeaveFrame v = (case vm_calls v of [] \<Rightarrow> Undef
    | ci # cs \<Rightarrow> (let base = vm_stackbase v - ci_prevstkbase ci; top = base + ci_prevtop ci in
        obind (CloseOuters (nat (vm_stackbase v)) (v\<lparr>vm_stackbase := base, vm_top := top, vm_calls := cs\<rparr>))
          (null_slots (nat (vm_top v - top + 1)) (vm_top v))))"
  using assms by (simp add: LeaveFrame_def Let_def CloseOuters_def split: list.split)

lemma LeaveFrame_closed:
  assumes "closes lim v v'" "nat (vm_stackbase v) \<le> lim" "0 \<le> vm_stackbase v"
  shows "LeaveFrame v' = LeaveFrame v"
proof -
  obtain h os where v': "v' = v\<lparr>vm_outers := h, vm_openouters := os\<rparr>" using assms(1) by (auto simp: closes_def)
  have "CloseOuters (nat (vm_stackbase v)) (v'\<lparr>vm_stackbase := b, vm_top := t, vm_calls := cs\<rparr>) =
      CloseOuters (nat (vm_stackbase v)) (v\<lparr>vm_stackbase := b, vm_top := t, vm_calls := cs\<rparr>)" for b t cs
  proof -
    have "closes lim (v\<lparr>vm_stackbase := b, vm_top := t, vm_calls := cs\<rparr>) (v'\<lparr>vm_stackbase := b, vm_top := t, vm_calls := cs\<rparr>)"
      by (rule closes_commute [OF assms(1)]) (simp_all add: stk_at_def)
    then show ?thesis using close_outers_twice [OF assms(2), of "v\<lparr>vm_stackbase := b, vm_top := t, vm_calls := cs\<rparr>", OF refl]
      by (simp add: closes_def CloseOuters_def)
  qed
  then show ?thesis using assms(3) by (subst (1 2) LeaveFrame_closing) (simp_all add: v' Let_def split: list.split)
qed

lemma vm_Return_closed:
  assumes c: "closes lim v v'" and lim: "nat (vm_stackbase v) \<le> lim" and base: "0 \<le> vm_stackbase v"
    and calls: "vm_calls v = ci # cs" "ci_root ci \<or> ci_target ci = - 1 \<or> ci_target ci < ci_prevstkbase ci"
  shows "vm_Return a0 a1 retval v' = vm_Return a0 a1 retval v"
proof -
  obtain h os where v': "v' = v\<lparr>vm_outers := h, vm_openouters := os\<rparr>" using c by (auto simp: closes_def)
  have leave: "LeaveFrame v' = LeaveFrame v" by (rule LeaveFrame_closed [OF c lim base])
  have "obind (stk_put q x v') LeaveFrame = obind (stk_put q x v) LeaveFrame" if "q < vm_stackbase v" for q x
  proof (cases "0 \<le> q \<and> q < int (length (vm_stack v))")
    case True
    let ?f = "\<lambda>v. v\<lparr>vm_stack := (vm_stack v)[nat q := x]\<rparr>"
    have "closes lim (?f v) (?f v')"
      by (rule closes_commute [OF c]) (use that lim True in \<open>auto simp: stk_at_def nth_list_update\<close>)
    then have "LeaveFrame (?f v') = LeaveFrame (?f v)"
      by (rule LeaveFrame_closed) (use lim base in simp_all)
    then show ?thesis using True by (simp add: stk_put_def v')
  qed (auto simp: stk_put_def v')
  from arg_cong [where f = "\<lambda>m. obind m (\<lambda>vm2. Done (False, retval, vm2))", OF this]
  have put: "obind (stk_put q x v') (\<lambda>u. obind (LeaveFrame u) (\<lambda>vm2. Done (False, retval, vm2))) =
      obind (stk_put q x v) (\<lambda>u. obind (LeaveFrame u) (\<lambda>vm2. Done (False, retval, vm2)))" if "q < vm_stackbase v" for q x
    using that by (simp add: obind_assoc)
  have at: "stk_at q v' = stk_at q v" for q by (simp add: stk_at_def v')
  show ?thesis
  proof (cases "ci_root ci \<or> ci_target ci = - 1")
    case True
    then show ?thesis
      by (cases "stk_at (vm_stackbase v + a1) v") (auto simp: vm_Return_def v' at [unfolded v'] leave [unfolded v'] calls(1) Let_def)
  next
    case False
    then have "vm_stackbase v - ci_prevstkbase ci + ci_target ci < vm_stackbase v" using calls(2) by simp
    from put [OF this] show ?thesis
      using False by (simp add: vm_Return_def v' at [unfolded v'] calls(1) Let_def obind_assoc)
  qed
qed

text \<open>
  A closing of captured variables right before a return changes nothing: the return closes
  those of the whole frame.  The optimizer drops the closing when it fuses the two (\<open>FuncState.optimize\<close>).
  The condition is that the result of the call does not go to the frame that is left.
\<close>

theorem closing_before_return_changes_nothing:
  assumes "outers_ok vm" "vm_calls vm = ci # cs" "0 \<le> vm_stackbase vm" "0 \<le> a"
    "ci_root ci \<or> ci_target ci = - 1 \<or> ci_target ci < ci_prevstkbase ci"
  shows "obind (OP_CLOSE_step a vm) (OP_RETURN_step a0 a1) = OP_RETURN_step a0 a1 vm"
proof (cases "vm_openouters vm = []")
  case False
  define lim where "lim = nat (vm_stackbase vm + a)"
  have lim: "nat (vm_stackbase vm) \<le> lim" using assms(4) by (simp add: lim_def)
  obtain vm' where c: "closes lim vm vm'"
    by (rule CloseOuters_ok [OF assms(1), of lim]) (auto simp: closes_def)
  then obtain h os where vm': "vm' = vm\<lparr>vm_outers := h, vm_openouters := os\<rparr>" by (auto simp: closes_def)
  have "OP_RETURN_step a0 a1 vm' = OP_RETURN_step a0 a1 vm"
  proof (cases "ci_generator ci")
    case None
    then show ?thesis using vm_Return_closed [OF c lim assms(3,2,5)] by (simp add: OP_RETURN_step_def assms(2) vm')
  next
    case (Some g)
    have k: "closes lim (gen_put g ge vm) (gen_put g ge vm')" for ge
      by (rule closes_commute [OF c]) (simp_all add: stk_at_def gen_put_def)
    have "vm_Return a0 a1 r (gen_put g ge vm') = vm_Return a0 a1 r (gen_put g ge vm)" for ge r
      by (rule vm_Return_closed [where ci = ci and cs = cs, OF k]) (use lim assms(2,3,5) in \<open>simp_all add: gen_put_def\<close>)
    then show ?thesis using Some
      by (cases "vm_generators vm g") (simp_all add: OP_RETURN_step_def assms(2) gen_Kill_def vm' gen_put_def)
  qed
  then show ?thesis using False c assms(3,4) by (simp add: OP_CLOSE_step_def closes_def lim_def)
qed (simp add: OP_CLOSE_step_def)

text \<open>A frame that starts at 4, with a captured variable in its slot 2, that is closed before the return.\<close>

theorem closing_before_return_changes_nothing_witness:
  "\<exists>vm. vm = sample_trap\<lparr>vm_outers := [7 \<mapsto> \<lparr>ot_valptr = OnStack 0 6, ot_idx = 6, ot_value = ONull\<rparr>]\<rparr> \<and>
     obind (OP_CLOSE_step 2 vm) (OP_RETURN_step 1 1) = OP_RETURN_step 1 1 vm"
proof -
  let ?vm = "sample_trap\<lparr>vm_outers := [7 \<mapsto> \<lparr>ot_valptr = OnStack 0 6, ot_idx = 6, ot_value = ONull\<rparr>]\<rparr>"
  have "outers_ok ?vm" by (auto simp: sample_trap_def vm_new_def outers_ok_def)
  from closing_before_return_changes_nothing [OF this, where a = 2 and ?a0.0 = 1 and ?a1.0 = 1]
  show ?thesis by (auto simp: sample_trap_def sample_call_def)
qed

end
