(* ===== verification/Access.thy ===== *)
theory Access
  imports Frames Arrays Links
begin

text \<open>
  Access to the slots of values, from \<^verbatim>\<open>squirrel/sqvm.cpp\<close>: reading and writing with
  delegates, metamethods and default delegates, new slots, deleting and cloning.

  The world holds the objects, the delegate of every userdata (a table holds its own), what the
  weak references name, the last error, the top of the stack, the number of running
  metamethods and whether the machine is suspended.  Running a closure is an argument: what a script does is not part of the
  machine.  It gives the result, or \<open>None\<close> when it throws, and the world it leaves.  The keys of
  the metamethods are their names, as theory \<open>SharedState\<close> shows.

  A lookup follows the delegates by recursion, which the fuel bounds; the stack of the
  processor has no such bound, so running out of it is undefined.  The text of an error is the
  one its format asks for, also where the buffer of the code is too small for it.  A conversion
  of the C library, the text of a float or a pointer, is an argument.
\<close>

section \<open>State\<close>

record world =
  w_tables :: "addr \<Rightarrow> sqtable option"
  w_arrays :: "addr \<Rightarrow> sqarray option"
  w_objs :: objheap
  w_userdata :: "addr \<Rightarrow> addr option"
  w_weak :: "addr \<Rightarrow> sqobj"
  w_top :: int
  w_nmeta :: int
  w_lasterror :: sqobj
  w_suspended :: bool

text \<open>The tables of methods the values of a type have in common.\<close>

datatype default_delegate =
    class_ddel | table_ddel | array_ddel | string_ddel | instance_ddel | number_ddel
  | generator_ddel | closure_ddel | thread_ddel | weakref_ddel

record machine =
  mc_call :: "sqobj \<Rightarrow> sqobj list \<Rightarrow> world \<Rightarrow> sqobj option \<times> world"
  mc_root :: addr
  mc_ddel :: "default_delegate \<Rightarrow> addr"
  mc_metastate :: metastate
  mc_float_text :: "sqfloat \<Rightarrow> string"
  mc_float_text14 :: "sqfloat \<Rightarrow> string"
  mc_pointer_text :: "sqobj \<Rightarrow> string"

definition DONT_FALL_BACK :: int where "DONT_FALL_BACK = 666"

section \<open>Texts and errors\<close>

text \<open>A decimal number, as \<open>printf\<close> writes it.\<close>

definition digit :: "nat \<Rightarrow> char" where "digit n = char_of (48 + n mod 10)"

fun decimal :: "nat \<Rightarrow> string" where
  "decimal n = (if n < 10 then [digit n] else decimal (n div 10) @ [digit n])"

declare decimal.simps [simp del]

definition int_text :: "int \<Rightarrow> string" where
  "int_text i = (if i < 0 then CHR ''-'' # decimal (nat (- i)) else decimal (nat i))"

text \<open>A string as the functions of C read it, up to its first zero.\<close>

definition cstr :: "string \<Rightarrow> string" where
  "cstr s = takeWhile (\<lambda>c. c \<noteq> CHR 0x00) s"

definition PrintObjVal :: "machine \<Rightarrow> sqobj \<Rightarrow> string" where
  "PrintObjVal mc ob =
     (case ob of
        OString s \<Rightarrow> s
      | OInteger i \<Rightarrow> int_text (sint i)
      | OFloat f \<Rightarrow> mc_float_text14 mc f
      | _ \<Rightarrow> type_name ob)"

definition w_error :: "string \<Rightarrow> world \<Rightarrow> world" where
  "w_error s w = w\<lparr>w_lasterror := OString s\<rparr>"

definition Raise_IdxError :: "machine \<Rightarrow> sqobj \<Rightarrow> world \<Rightarrow> world" where
  "Raise_IdxError mc key w =
     w_error (''the index '' @ quoted (take 50 (cstr (PrintObjVal mc key))) @ '' does not exist'') w"

section \<open>Metamethods\<close>

definition sq_isnumeric :: "sqobj \<Rightarrow> bool" where
  "sq_isnumeric ob \<longleftrightarrow> (case ob of OInteger _ \<Rightarrow> True | OFloat _ \<Rightarrow> True | _ \<Rightarrow> False)"

definition tointeger :: "sqobj \<Rightarrow> sqint" where
  "tointeger ob = (case ob of OFloat f \<Rightarrow> float_to_int f | _ \<Rightarrow> raw_integer ob)"

definition table_get :: "addr \<Rightarrow> sqobj \<Rightarrow> world \<Rightarrow> sqobj option outcome" where
  "table_get a key w = obind (of_option (w_tables w a)) (\<lambda>t. of_option (Table_Get (w_weak w) t key))"

text \<open>The delegate of a table or a userdata.\<close>

definition delegate_of :: "addr \<Rightarrow> world \<Rightarrow> addr option" where
  "delegate_of a w = (case w_tables w a of Some t \<Rightarrow> t_delegate t | None \<Rightarrow> w_userdata w a)"

text \<open>The delegate of an instance, the members of its class, is always there.\<close>

definition has_delegate :: "sqobj \<Rightarrow> world \<Rightarrow> bool" where
  "has_delegate self w \<longleftrightarrow>
     (case self of
        ORef KTable a \<Rightarrow> delegate_of a w \<noteq> None
      | ORef KUserData a \<Rightarrow> delegate_of a w \<noteq> None
      | ORef KInstance a \<Rightarrow> True
      | _ \<Rightarrow> False)"

definition GetMetaMethod :: "sqobj \<Rightarrow> SQMetaMethod \<Rightarrow> world \<Rightarrow> sqobj option outcome" where
  "GetMetaMethod self mm w =
     (case self of
        ORef KInstance a \<Rightarrow> Instance_GetMetaMethod a (mt_index mm) (w_objs w)
      | ORef _ a \<Rightarrow> (case delegate_of a w of None \<Rightarrow> Done None | Some d \<Rightarrow> table_get d (OString (mt_name mm)) w)
      | _ \<Rightarrow> Undef)"

text \<open>A call with its arguments on the stack; the counter of metamethods is up while it runs.\<close>

definition push_args :: "nat \<Rightarrow> world \<Rightarrow> world" where
  "push_args n w = w\<lparr>w_top := w_top w + int n\<rparr>"

definition pop_args :: "nat \<Rightarrow> world \<Rightarrow> world" where
  "pop_args n w = w\<lparr>w_top := w_top w - int n\<rparr>"

definition run_meta :: "machine \<Rightarrow> sqobj \<Rightarrow> sqobj list \<Rightarrow> world \<Rightarrow> sqobj option \<times> world" where
  "run_meta mc closure args w =
     (let (r, w') = mc_call mc closure args (w\<lparr>w_nmeta := w_nmeta w + 1\<rparr>)
      in (r, w'\<lparr>w_nmeta := w_nmeta w' - 1\<rparr>))"

definition CallMetaMethod :: "machine \<Rightarrow> sqobj \<Rightarrow> sqobj list \<Rightarrow> world \<Rightarrow> sqobj option \<times> world" where
  "CallMetaMethod mc closure args w =
     (let (r, w') = run_meta mc closure args (push_args (length args) w) in (r, pop_args (length args) w'))"

section \<open>Reading\<close>

datatype own_result = Found sqobj | Absent | BadIndex

text \<open>
  A character of a string.  The check truncates the index to 32 bits and accepts negative ones,
  but the position read is then beyond the end, as is one of more than 32 bits.
\<close>

definition string_char :: "string \<Rightarrow> sqint \<Rightarrow> own_result outcome" where
  "string_char s n =
     (let t = sint (ucast n :: 32 word) in
      if t = - (2 ^ 31) then Undef
      else if \<bar>t\<bar> < int (length s) then
        (if 0 \<le> sint n \<and> sint n < int (length s)
         then Done (Found (OInteger (scast (of_char (s ! nat (sint n)) :: 8 word)))) else Undef)
      else Done BadIndex)"

definition get_own :: "sqobj \<Rightarrow> sqobj \<Rightarrow> world \<Rightarrow> own_result outcome" where
  "get_own self key w =
     (let found = (\<lambda>r. Done (case r of Some v \<Rightarrow> Found v | None \<Rightarrow> Absent)) in
      case self of
        ORef KTable a \<Rightarrow> obind (table_get a key w) found
      | ORef KArray a \<Rightarrow>
          if sq_isnumeric key then
            obind (of_option (w_arrays w a)) (\<lambda>arr.
            obind (of_option (Array_Get (w_weak w) arr (sint (tointeger key)))) (\<lambda>r.
            Done (case r of Some v \<Rightarrow> Found v | None \<Rightarrow> BadIndex)))
          else Done Absent
      | ORef KInstance a \<Rightarrow> obind (Instance_Get (w_weak w) a key (w_objs w)) found
      | ORef KClass a \<Rightarrow> obind (of_option (oh_classes (w_objs w) a)) (\<lambda>c. obind (Class_Get (w_weak w) c key) found)
      | OString s \<Rightarrow> if sq_isnumeric key then string_char s (tointeger key) else Done Absent
      | _ \<Rightarrow> Done Absent)"

definition default_of :: "sqobj \<Rightarrow> default_delegate option" where
  "default_of self =
     (case self of
        ORef KClass _ \<Rightarrow> Some class_ddel
      | ORef KTable _ \<Rightarrow> Some table_ddel
      | ORef KArray _ \<Rightarrow> Some array_ddel
      | OString _ \<Rightarrow> Some string_ddel
      | ORef KInstance _ \<Rightarrow> Some instance_ddel
      | OInteger _ \<Rightarrow> Some number_ddel
      | OFloat _ \<Rightarrow> Some number_ddel
      | OBool _ \<Rightarrow> Some number_ddel
      | ORef KGenerator _ \<Rightarrow> Some generator_ddel
      | ORef KClosure _ \<Rightarrow> Some closure_ddel
      | ORef KNativeClosure _ \<Rightarrow> Some closure_ddel
      | ORef KThread _ \<Rightarrow> Some thread_ddel
      | ORef KWeakRef _ \<Rightarrow> Some weakref_ddel
      | _ \<Rightarrow> None)"

definition InvokeDefaultDelegate :: "machine \<Rightarrow> sqobj \<Rightarrow> sqobj \<Rightarrow> world \<Rightarrow> sqobj option outcome" where
  "InvokeDefaultDelegate mc self key w =
     (case default_of self of None \<Rightarrow> Done None | Some d \<Rightarrow> table_get (mc_ddel mc d) key w)"

datatype fallback = FALLBACK_OK sqobj | FALLBACK_NO_MATCH | FALLBACK_ERROR

text \<open>The metamethod of a failed access; null as the error is a clean failure, that nothing was found.\<close>

definition get_handler :: "machine \<Rightarrow> sqobj \<Rightarrow> sqobj \<Rightarrow> world \<Rightarrow> (fallback \<times> world) outcome" where
  "get_handler mc self key w =
     obind (GetMetaMethod self MT_GET w) (\<lambda>mm.
       case mm of
         None \<Rightarrow> Done (FALLBACK_NO_MATCH, w)
       | Some closure \<Rightarrow>
           (let (r, w1) = CallMetaMethod mc closure [self, key] w in
            case r of
              Some v \<Rightarrow> Done (FALLBACK_OK v, w1)
            | None \<Rightarrow> Done (if w_lasterror w1 \<noteq> ONull then FALLBACK_ERROR else FALLBACK_NO_MATCH, w1)))"

text \<open>\<open>rec\<close> reads from the delegate.\<close>

definition FallBackGet ::
    "machine \<Rightarrow> (addr \<Rightarrow> world \<Rightarrow> (sqobj option \<times> world) outcome) \<Rightarrow> sqobj \<Rightarrow> sqobj \<Rightarrow> world \<Rightarrow>
     (fallback \<times> world) outcome" where
  "FallBackGet mc rec self key w =
     (let delegated = (\<lambda>a. case delegate_of a w of
            None \<Rightarrow> Done (FALLBACK_NO_MATCH, w)
          | Some d \<Rightarrow> obind (rec d w) (\<lambda>(r, w1).
              case r of Some v \<Rightarrow> Done (FALLBACK_OK v, w1) | None \<Rightarrow> get_handler mc self key w1)) in
      case self of
        ORef KTable a \<Rightarrow> delegated a
      | ORef KUserData a \<Rightarrow> delegated a
      | ORef KInstance a \<Rightarrow> get_handler mc self key w
      | _ \<Rightarrow> Done (FALLBACK_NO_MATCH, w))"

definition get_root :: "machine \<Rightarrow> sqobj \<Rightarrow> int \<Rightarrow> world \<Rightarrow> (sqobj option \<times> world) outcome" where
  "get_root mc key selfidx w =
     obind (if selfidx = 0 then table_get (mc_root mc) key w else Done None) (\<lambda>r.
       case r of Some v \<Rightarrow> Done (Some v, w) | None \<Rightarrow> Done (None, Raise_IdxError mc key w))"

fun Get :: "machine \<Rightarrow> nat \<Rightarrow> sqobj \<Rightarrow> sqobj \<Rightarrow> bool \<Rightarrow> int \<Rightarrow> world \<Rightarrow> (sqobj option \<times> world) outcome" where
  "Get mc 0 self key raw selfidx w = Undef"
| "Get mc (Suc fuel) self key raw selfidx w =
     obind (get_own self key w) (\<lambda>own.
       case own of
         Found v \<Rightarrow> Done (Some v, w)
       | BadIndex \<Rightarrow> Done (None, Raise_IdxError mc key w)
       | Absent \<Rightarrow>
           if raw then get_root mc key selfidx w
           else
             obind (FallBackGet mc (\<lambda>d w. Get mc fuel (ORef KTable d) key False DONT_FALL_BACK w) self key w)
               (\<lambda>(fb, w1).
                 case fb of
                   FALLBACK_OK v \<Rightarrow> Done (Some v, w1)
                 | FALLBACK_ERROR \<Rightarrow> Done (None, w1)
                 | FALLBACK_NO_MATCH \<Rightarrow>
                     obind (InvokeDefaultDelegate mc self key w1) (\<lambda>r.
                       case r of Some v \<Rightarrow> Done (Some v, w1) | None \<Rightarrow> get_root mc key selfidx w1)))"

section \<open>Writing\<close>

definition put_table :: "addr \<Rightarrow> sqtable \<Rightarrow> world \<Rightarrow> world" where
  "put_table a t w = w\<lparr>w_tables := (w_tables w)(a \<mapsto> t)\<rparr>"

definition table_set :: "addr \<Rightarrow> sqobj \<Rightarrow> sqobj \<Rightarrow> world \<Rightarrow> (bool \<times> world) outcome" where
  "table_set a key val w =
     obind (of_option (w_tables w a)) (\<lambda>t.
     obind (of_option (Table_Set t key val)) (\<lambda>(ok, t'). Done (ok, put_table a t' w)))"

text \<open>
  On a clean failure of the metamethod its three arguments are not taken from the stack.
\<close>

definition set_handler :: "machine \<Rightarrow> sqobj \<Rightarrow> sqobj \<Rightarrow> sqobj \<Rightarrow> world \<Rightarrow> (fallback \<times> world) outcome" where
  "set_handler mc self key val w =
     obind (GetMetaMethod self MT_SET w) (\<lambda>mm.
       case mm of
         None \<Rightarrow> Done (FALLBACK_NO_MATCH, w)
       | Some closure \<Rightarrow>
           (let (r, w1) = run_meta mc closure [self, key, val] (push_args 3 w) in
            case r of
              Some v \<Rightarrow> Done (FALLBACK_OK v, pop_args 3 w1)
            | None \<Rightarrow> if w_lasterror w1 \<noteq> ONull then Done (FALLBACK_ERROR, pop_args 3 w1)
                      else Done (FALLBACK_NO_MATCH, w1)))"

definition FallBackSet ::
    "machine \<Rightarrow> (addr \<Rightarrow> world \<Rightarrow> (bool \<times> world) outcome) \<Rightarrow> sqobj \<Rightarrow> sqobj \<Rightarrow> sqobj \<Rightarrow> world \<Rightarrow>
     (fallback \<times> world) outcome" where
  "FallBackSet mc rec self key val w =
     (case self of
        ORef KTable a \<Rightarrow>
          (case delegate_of a w of
             None \<Rightarrow> set_handler mc self key val w
           | Some d \<Rightarrow> obind (rec d w) (\<lambda>(ok, w1).
               if ok then Done (FALLBACK_OK ONull, w1) else set_handler mc self key val w1))
      | ORef KInstance a \<Rightarrow> set_handler mc self key val w
      | ORef KUserData a \<Rightarrow> set_handler mc self key val w
      | _ \<Rightarrow> Done (FALLBACK_NO_MATCH, w))"

definition indexing :: "sqobj \<Rightarrow> sqobj \<Rightarrow> string" where
  "indexing self key = ''indexing '' @ type_name self @ '' with '' @ type_name key"

fun Set :: "machine \<Rightarrow> nat \<Rightarrow> sqobj \<Rightarrow> sqobj \<Rightarrow> sqobj \<Rightarrow> int \<Rightarrow> world \<Rightarrow> (bool \<times> world) outcome" where
  "Set mc 0 self key val selfidx w = Undef"
| "Set mc (Suc fuel) self key val selfidx w =
     (let fall = (\<lambda>w.
        obind (FallBackSet mc (\<lambda>d w. Set mc fuel (ORef KTable d) key val DONT_FALL_BACK w) self key val w)
          (\<lambda>(fb, w1).
            case fb of
              FALLBACK_OK _ \<Rightarrow> Done (True, w1)
            | FALLBACK_ERROR \<Rightarrow> Done (False, w1)
            | FALLBACK_NO_MATCH \<Rightarrow>
                obind (if selfidx = 0 then table_set (mc_root mc) key val w1 else Done (False, w1)) (\<lambda>(ok, w2).
                  if ok then Done (True, w2) else Done (False, Raise_IdxError mc key w1)))) in
      case self of
        ORef KTable a \<Rightarrow> obind (table_set a key val w) (\<lambda>(ok, w1). if ok then Done (True, w1) else fall w)
      | ORef KInstance a \<Rightarrow>
          obind (Instance_Set (w_weak w) a key val (w_objs w)) (\<lambda>(ok, h).
            if ok then Done (True, w\<lparr>w_objs := h\<rparr>) else fall w)
      | ORef KArray a \<Rightarrow>
          if \<not> sq_isnumeric key then Done (False, w_error (indexing self key) w)
          else
            obind (of_option (w_arrays w a)) (\<lambda>arr.
            obind (of_option (Array_Set arr (sint (tointeger key)) val)) (\<lambda>(ok, arr').
            if ok then Done (True, w\<lparr>w_arrays := (w_arrays w)(a \<mapsto> arr')\<rparr>)
            else Done (False, Raise_IdxError mc key w)))
      | _ \<Rightarrow> Done (False, w_error (''trying to set '' @ quoted (type_name self)) w))"

section \<open>New slots, deleting and cloning\<close>

text \<open>A metamethod whose result is not used; the flag is whether it returned.\<close>

definition meta_ok :: "machine \<Rightarrow> sqobj \<Rightarrow> sqobj list \<Rightarrow> world \<Rightarrow> bool \<times> world" where
  "meta_ok mc closure args w = (let (r, w1) = CallMetaMethod mc closure args w in (r \<noteq> None, w1))"

text \<open>\<open>clone\<close> is the address of the clone of a method that is put into a class with a base.\<close>

definition NewSlot :: "machine \<Rightarrow> addr \<Rightarrow> sqobj \<Rightarrow> sqobj \<Rightarrow> sqobj \<Rightarrow> bool \<Rightarrow> world \<Rightarrow> (bool \<times> world) outcome" where
  "NewSlot mc clone self key val bstatic w =
     (if key = ONull then Done (False, w_error ''null cannot be used as index'' w)
      else case self of
        ORef KTable a \<Rightarrow>
          (let raw = obind (of_option (w_tables w a)) (\<lambda>t.
                     obind (of_option (Table_NewSlot t key val)) (\<lambda>(_, t'). Done (True, put_table a t' w))) in
           if has_delegate self w then
             obind (table_get a key w) (\<lambda>r.
               if r \<noteq> None then raw
               else obind (GetMetaMethod self MT_NEWSLOT w) (\<lambda>mm.
                 case mm of None \<Rightarrow> raw | Some closure \<Rightarrow> Done (meta_ok mc closure [self, key, val] w)))
           else raw)
      | ORef KInstance a \<Rightarrow>
          obind (GetMetaMethod self MT_NEWSLOT w) (\<lambda>mm.
            case mm of
              Some closure \<Rightarrow> Done (meta_ok mc closure [self, key, val] w)
            | None \<Rightarrow> Done (False, w_error ''class instances do not support the new slot operator'' w))
      | ORef KClass a \<Rightarrow>
          obind (Class_NewSlot (w_weak w) (mc_metastate mc) clone a key val bstatic (w_objs w)) (\<lambda>(ok, h).
            let w1 = w\<lparr>w_objs := h\<rparr> in
            if ok then Done (True, w1)
            else obind (of_option (oh_classes h a)) (\<lambda>c.
              Done (False,
                if c_locked c then w_error ''trying to modify a class that has already been instantiated'' w1
                else w_error (''the property '' @ quoted (cstr (PrintObjVal mc key)) @ '' already exists'') w1)))
      | _ \<Rightarrow> Done (False, w_error (indexing self key) w))"

definition NewSlotA ::
    "machine \<Rightarrow> addr \<Rightarrow> sqobj \<Rightarrow> sqobj \<Rightarrow> sqobj \<Rightarrow> sqobj \<Rightarrow> bool \<Rightarrow> bool \<Rightarrow> world \<Rightarrow> (bool \<times> world) outcome" where
  "NewSlotA mc clone self key val attrs bstatic raw w =
     (case self of
        ORef KClass a \<Rightarrow>
          obind (of_option (oh_classes (w_objs w) a)) (\<lambda>c.
          obind (if raw then Done ONull else vec_at (c_metamethods c) (mt_index MT_NEWMEMBER)) (\<lambda>mm.
          if mm \<noteq> ONull then Done (meta_ok mc mm [self, key, val, attrs, OBool bstatic] w)
          else
            obind (NewSlot mc clone self key val bstatic w) (\<lambda>(ok, w1).
            if \<not> ok then Done (False, w1)
            else if attrs \<noteq> ONull then
              obind (of_option (oh_classes (w_objs w1) a)) (\<lambda>c1.
              obind (SetAttributes (w_weak w1) key attrs c1) (\<lambda>(_, c2).
              Done (True, w1\<lparr>w_objs := set_class a c2 (w_objs w1)\<rparr>)))
            else Done (True, w1))))
      | _ \<Rightarrow> Done (False, w_error ''object must be a class'' w))"

definition DeleteSlot :: "machine \<Rightarrow> sqobj \<Rightarrow> sqobj \<Rightarrow> world \<Rightarrow> (sqobj option \<times> world) outcome" where
  "DeleteSlot mc self key w =
     (let delegable = (case self of ORef KTable _ \<Rightarrow> True | ORef KInstance _ \<Rightarrow> True | ORef KUserData _ \<Rightarrow> True | _ \<Rightarrow> False) in
      if \<not> delegable then Done (None, w_error (''attempt to delete a slot from a '' @ type_name self) w)
      else
        obind (if has_delegate self w then GetMetaMethod self MT_DELSLOT w else Done None) (\<lambda>mm.
          case mm of
            Some closure \<Rightarrow> Done (CallMetaMethod mc closure [self, key] w)
          | None \<Rightarrow>
              (case self of
                 ORef KTable a \<Rightarrow>
                   obind (table_get a key w) (\<lambda>r.
                     case r of
                       Some v \<Rightarrow>
                         obind (of_option (w_tables w a)) (\<lambda>t.
                         obind (of_option (Table_Remove t key)) (\<lambda>t'. Done (Some v, put_table a t' w)))
                     | None \<Rightarrow> Done (None, Raise_IdxError mc key w))
               | _ \<Rightarrow> Done (None, w_error (''cannot delete a slot from '' @ type_name self) w))))"

text \<open>
  The clone of a table shares its delegate.  When the metamethod of the clone throws, there is no
  result.
\<close>

definition cloned :: "machine \<Rightarrow> sqobj \<Rightarrow> sqobj \<Rightarrow> world \<Rightarrow> (sqobj option \<times> world) outcome" where
  "cloned mc self newobj w =
     obind (if has_delegate newobj w then GetMetaMethod newobj MT_CLONED w else Done None) (\<lambda>mm.
       case mm of
         None \<Rightarrow> Done (Some newobj, w)
       | Some closure \<Rightarrow>
           (let (ok, w1) = meta_ok mc closure [newobj, self] w in Done (if ok then Some newobj else None, w1)))"

definition Clone :: "machine \<Rightarrow> addr \<Rightarrow> sqobj \<Rightarrow> world \<Rightarrow> (sqobj option \<times> world) outcome" where
  "Clone mc new self w =
     (case self of
        ORef KTable a \<Rightarrow>
          obind (of_option (w_tables w a)) (\<lambda>t.
          obind (of_option (Table_Clone t)) (\<lambda>t'.
          cloned mc self (ORef KTable new) (put_table new t' w)))
      | ORef KInstance a \<Rightarrow>
          obind (Instance_Clone a new (w_objs w)) (\<lambda>h. cloned mc self (ORef KInstance new) (w\<lparr>w_objs := h\<rparr>))
      | ORef KArray a \<Rightarrow>
          obind (of_option (w_arrays w a)) (\<lambda>arr.
          obind (of_option (Array_Clone arr)) (\<lambda>arr'.
          Done (Some (ORef KArray new), w\<lparr>w_arrays := (w_arrays w)(new \<mapsto> arr')\<rparr>)))
      | _ \<Rightarrow> Done (None, w_error (''cloning a '' @ type_name self) w))"

end
