(* ===== verification/AccessProps.thy ===== *)
theory AccessProps
  imports Access
begin

text \<open>
  What reading and writing a slot promise: a lookup goes through the table, its delegates and
  the default delegate in that order and ends, a write changes the first table that has the
  key, a new slot only the table itself, and the arguments of metamethods leave the stack.
\<close>

section \<open>The slots of a chain of delegates\<close>

definition world_ok :: "world \<Rightarrow> bool" where
  "world_ok w \<longleftrightarrow> (\<forall>a t. w_tables w a = Some t \<longrightarrow> table_inv t)"

text \<open>The contents of a table.\<close>

definition slots :: "world \<Rightarrow> addr \<Rightarrow> sqobj \<Rightarrow> sqobj option" where
  "slots w a key = (case w_tables w a of Some t \<Rightarrow> table_map t key | None \<Rightarrow> None)"

text \<open>A table and its delegates, to the last that has none.\<close>

definition delegates_of :: "world \<Rightarrow> addr list \<Rightarrow> bool" where
  "delegates_of w as \<longleftrightarrow> as \<noteq> [] \<and> list_at (\<lambda>a. delegate_of a w) (Some (hd as)) as \<and>
     (\<forall>a \<in> set as. w_tables w a \<noteq> None)"

definition holder :: "world \<Rightarrow> sqobj \<Rightarrow> addr list \<Rightarrow> addr option" where
  "holder w key as = find (\<lambda>a. slots w a key \<noteq> None) as"

lemma holder_Some: "holder w key as = Some b \<Longrightarrow> slots w b key \<noteq> None"
  "holder w key as = Some b \<Longrightarrow> b \<in> set as"
  unfolding holder_def find_Some_iff by auto

definition read_slot :: "world \<Rightarrow> addr \<Rightarrow> sqobj \<Rightarrow> sqobj option" where
  "read_slot w a key = map_option (realval (w_weak w)) (slots w a key)"

definition has_handler :: "SQMetaMethod \<Rightarrow> world \<Rightarrow> addr list \<Rightarrow> bool" where
  "has_handler mm w as \<longleftrightarrow> (\<exists>d \<in> set (tl as). slots w d (OString (mt_name mm)) \<noteq> None)"

lemma table_get_ok: "world_ok w \<Longrightarrow> w_tables w a \<noteq> None \<Longrightarrow> table_get a key w = Done (read_slot w a key)"
  using Get_refines [of "the (w_tables w a)" "w_weak w" key]
  by (cases "w_tables w a") (auto simp: table_get_def read_slot_def slots_def world_ok_def)

lemma read_slot_None: "read_slot w a key = None \<longleftrightarrow> slots w a key = None"
  by (simp add: read_slot_def)

lemma delegates_of_Cons:
  "delegates_of w (a # as) \<longleftrightarrow> w_tables w a \<noteq> None \<and>
     (if as = [] then delegate_of a w = None else delegate_of a w = Some (hd as) \<and> delegates_of w as)"
  by (cases as) (auto simp: delegates_of_def list_at_Some)

lemma Raise_IdxError_simps [simp]:
  "w_tables (Raise_IdxError mc key w) = w_tables w" "w_weak (Raise_IdxError mc key w) = w_weak w"
  "w_userdata (Raise_IdxError mc key w) = w_userdata w" "w_top (Raise_IdxError mc key w) = w_top w"
  "w_nmeta (Raise_IdxError mc key w) = w_nmeta w" "w_objs (Raise_IdxError mc key w) = w_objs w"
  "w_arrays (Raise_IdxError mc key w) = w_arrays w"
  "Raise_IdxError mc key (Raise_IdxError mc key w) = Raise_IdxError mc key w"
  "w_lasterror (Raise_IdxError mc key w) \<noteq> ONull"
  by (simp_all add: Raise_IdxError_def w_error_def)

lemma after_error [simp]:
  "slots (Raise_IdxError mc key w) = slots w" "read_slot (Raise_IdxError mc key w) = read_slot w"
  "world_ok (Raise_IdxError mc key w) = world_ok w" "delegate_of a (Raise_IdxError mc key w) = delegate_of a w"
  "table_get a k (Raise_IdxError mc key w) = table_get a k w"
  by (simp_all add: slots_def read_slot_def world_ok_def delegate_of_def table_get_def fun_eq_iff split: option.split)

text \<open>How deep a lookup goes is bounded by the chain, whatever the metamethods do.\<close>

lemma Get_fuel:
  assumes "delegates_of w (a # as)" "length as < f" "length as < f'"
  shows "Get mc f (ORef KTable a) key raw i w = Get mc f' (ORef KTable a) key raw i w"
  using assms
proof (induction as arbitrary: a f f' raw i)
  case Nil
  then obtain g g' where f: "f = Suc g" "f' = Suc g'" by (metis less_imp_Suc_add)
  from Nil.prems(1) have "delegate_of a w = None" by (simp add: delegates_of_Cons)
  then show ?case by (simp add: f FallBackGet_def)
next
  case (Cons d as)
  then obtain g g' where f: "f = Suc g" "f' = Suc g'" by (metis less_imp_Suc_add)
  from Cons.prems(1) have d: "delegate_of a w = Some d" "delegates_of w (d # as)" by (simp_all add: delegates_of_Cons)
  have "Get mc g (ORef KTable d) key False DONT_FALL_BACK w = Get mc g' (ORef KTable d) key False DONT_FALL_BACK w"
    by (rule Cons.IH [OF d(2)]) (use Cons.prems(2,3) f in simp_all)
  then show ?case by (simp add: f FallBackGet_def d(1))
qed

lemma Set_fuel:
  assumes "delegates_of w (a # as)" "length as < f" "length as < f'"
  shows "Set mc f (ORef KTable a) key val i w = Set mc f' (ORef KTable a) key val i w"
  using assms
proof (induction as arbitrary: a f f' i)
  case Nil
  then obtain g g' where f: "f = Suc g" "f' = Suc g'" by (metis less_imp_Suc_add)
  from Nil.prems(1) have "delegate_of a w = None" by (simp add: delegates_of_Cons)
  then show ?case by (simp add: f FallBackSet_def Let_def cong: if_cong)
next
  case (Cons d as)
  then obtain g g' where f: "f = Suc g" "f' = Suc g'" by (metis less_imp_Suc_add)
  from Cons.prems(1) have d: "delegate_of a w = Some d" "delegates_of w (d # as)" by (simp_all add: delegates_of_Cons)
  have "Set mc g (ORef KTable d) key val DONT_FALL_BACK w = Set mc g' (ORef KTable d) key val DONT_FALL_BACK w"
    by (rule Cons.IH [OF d(2)]) (use Cons.prems(2,3) f in simp_all)
  then show ?case by (simp add: f FallBackSet_def d(1) Let_def cong: if_cong)
qed

section \<open>Reading\<close>

text \<open>What a lookup finds without metamethods: the chain, the default delegate, the root table.\<close>

definition lookup :: "machine \<Rightarrow> sqobj \<Rightarrow> int \<Rightarrow> addr list \<Rightarrow> world \<Rightarrow> sqobj option" where
  "lookup mc key selfidx as w =
     (case holder w key as of
        Some d \<Rightarrow> read_slot w d key
      | None \<Rightarrow>
          case read_slot w (mc_ddel mc table_ddel) key of
            Some v \<Rightarrow> Some v
          | None \<Rightarrow> if selfidx = 0 then read_slot w (mc_root mc) key else None)"

definition base_tables :: "machine \<Rightarrow> world \<Rightarrow> bool" where
  "base_tables mc w \<longleftrightarrow> w_tables w (mc_root mc) \<noteq> None \<and> (\<forall>d. w_tables w (mc_ddel mc d) \<noteq> None)"

lemma get_handler_none:
  assumes "world_ok w" "delegate_of a w = Some d" "w_tables w d \<noteq> None" "slots w d (OString (mt_name MT_GET)) = None"
  shows "get_handler mc (ORef KTable a) key w = Done (FALLBACK_NO_MATCH, w)"
  using assms table_get_ok [of w d "OString (mt_name MT_GET)"]
  by (simp add: get_handler_def GetMetaMethod_def read_slot_def)

lemma get_root_ok:
  assumes "world_ok w" "base_tables mc w"
  shows "get_root mc key i w =
    Done (case if i = 0 then read_slot w (mc_root mc) key else None of
      Some v \<Rightarrow> (Some v, w) | None \<Rightarrow> (None, Raise_IdxError mc key w))"
  using table_get_ok [OF assms(1), of "mc_root mc" key] assms(2)
  by (auto simp: get_root_def base_tables_def split: option.split)

lemma default_ok:
  assumes "world_ok w" "base_tables mc w"
  shows "InvokeDefaultDelegate mc (ORef KTable a) key w = Done (read_slot w (mc_ddel mc table_ddel) key)"
  using table_get_ok [OF assms(1)] assms(2) by (simp add: InvokeDefaultDelegate_def default_of_def base_tables_def)

lemma Get_chain:
  assumes "world_ok w" "base_tables mc w" "delegates_of w (a # as)" "\<not> has_handler MT_GET w (a # as)" "length as < f"
  shows "Get mc f (ORef KTable a) key False i w =
    Done (lookup mc key i (a # as) w,
      if holder w key (a # as) = None \<and> read_slot w (mc_ddel mc table_ddel) key = None \<and>
         (as \<noteq> [] \<or> lookup mc key i (a # as) w = None)
      then Raise_IdxError mc key w else w)"
  using assms(3-5)
proof (induction as arbitrary: a f i)
  case Nil
  then obtain g where f: "f = Suc g" by (metis less_imp_Suc_add)
  from Nil.prems(1) have a: "w_tables w a \<noteq> None" "delegate_of a w = None" by (simp_all add: delegates_of_Cons)
  note o' = table_get_ok [OF assms(1) a(1), of key]
  show ?case
  proof (cases "slots w a key")
    case (Some v)
    then show ?thesis using o' by (simp add: f get_own_def lookup_def holder_def read_slot_def)
  next
    case None
    then show ?thesis using o' a(2) default_ok [OF assms(1,2)] get_root_ok [OF assms(1,2)]
      by (auto simp: f get_own_def lookup_def holder_def read_slot_def FallBackGet_def split: option.split)
  qed
next
  case (Cons d as)
  then obtain g where f: "f = Suc g" by (metis less_imp_Suc_add)
  from Cons.prems(1) have a: "w_tables w a \<noteq> None" "delegate_of a w = Some d" "delegates_of w (d # as)"
    by (simp_all add: delegates_of_Cons)
  have h: "\<not> has_handler MT_GET w (d # as)" "slots w d (OString (mt_name MT_GET)) = None"
    using Cons.prems(2) by (cases as; auto simp: has_handler_def)+
  have d: "w_tables w d \<noteq> None" using a(3) by (simp add: delegates_of_Cons)
  note o' = table_get_ok [OF assms(1) a(1), of key]
  note ih = Cons.IH [OF a(3) h(1), of g DONT_FALL_BACK] and hn = get_handler_none [OF assms(1) a(2) d h(2)]
  show ?case
  proof (cases "slots w a key")
    case (Some v)
    then show ?thesis using o' by (simp add: f get_own_def lookup_def holder_def read_slot_def)
  next
    case None
    let ?r = "lookup mc key DONT_FALL_BACK (d # as) w"
    have own: "get_own (ORef KTable a) key w = Done Absent" using o' None by (simp add: get_own_def read_slot_def)
    have l: "holder w key (a # d # as) = holder w key (d # as)" using None by (simp add: holder_def)
    have g: "Get mc g (ORef KTable d) key False DONT_FALL_BACK w = Done (?r,
        if holder w key (d # as) = None \<and> read_slot w (mc_ddel mc table_ddel) key = None then Raise_IdxError mc key w else w)"
    proof -
      have c: "holder w key (d # as) = None \<and> read_slot w (mc_ddel mc table_ddel) key = None \<and> (as \<noteq> [] \<or> ?r = None) \<longleftrightarrow>
          holder w key (d # as) = None \<and> read_slot w (mc_ddel mc table_ddel) key = None"
        by (auto simp: lookup_def DONT_FALL_BACK_def)
      have "length as < g" using Cons.prems(3) f by simp
      from ih [OF this] show ?thesis unfolding c .
    qed
    show ?thesis
    proof (cases ?r)
      case (Some v)
      then have "lookup mc key i (a # d # as) w = Some v" "holder w key (d # as) \<noteq> None \<or> read_slot w (mc_ddel mc table_ddel) key \<noteq> None"
        using l by (auto simp: lookup_def DONT_FALL_BACK_def split: option.splits)
      note lk = this
      have fb: "FallBackGet mc (\<lambda>d w. Get mc g (ORef KTable d) key False DONT_FALL_BACK w) (ORef KTable a) key w =
          Done (FALLBACK_OK v, w)" using a(2) g Some lk(2) by (auto simp: FallBackGet_def)
      have "Get mc f (ORef KTable a) key False i w = Done (Some v, w)"
        unfolding f Get.simps own by (simp add: fb)
      then show ?thesis using lk l by auto
    next
      case r: None
      have hold: "holder w key (d # as) = None"
      proof (rule ccontr)
        assume "holder w key (d # as) \<noteq> None"
        then obtain b where b: "holder w key (d # as) = Some b" by blast
        then have "slots w b key \<noteq> None" by (rule holder_Some(1))
        with b r show False by (simp add: lookup_def read_slot_def)
      qed
      then have dd: "read_slot w (mc_ddel mc table_ddel) key = None" using r by (auto simp: lookup_def split: option.splits)
      let ?w = "Raise_IdxError mc key w"
      have ok: "world_ok ?w" "base_tables mc ?w" using assms(1,2) by (simp_all add: base_tables_def)
      have hn': "get_handler mc (ORef KTable a) key ?w = Done (FALLBACK_NO_MATCH, ?w)"
        by (rule get_handler_none [of _ _ d]) (use ok a(2) d h(2) in simp_all)
      have fb: "FallBackGet mc (\<lambda>d w. Get mc g (ORef KTable d) key False DONT_FALL_BACK w) (ORef KTable a) key w =
          Done (FALLBACK_NO_MATCH, ?w)" using a(2) g r hold dd hn' by (simp add: FallBackGet_def)
      have df: "InvokeDefaultDelegate mc (ORef KTable a) key ?w = Done None" using default_ok [OF ok, of a key] dd by simp
      have rt: "get_root mc key i ?w = Done (if i = 0 then read_slot w (mc_root mc) key else None, ?w)"
        using get_root_ok [OF ok, of key i] by (simp split: option.split)
      have lk: "lookup mc key i (a # d # as) w = (if i = 0 then read_slot w (mc_root mc) key else None)"
        unfolding lookup_def l hold dd by simp
      have "Get mc f (ORef KTable a) key False i w = Done (lookup mc key i (a # d # as) w, ?w)"
        unfolding f Get.simps own lk by (simp add: fb df rt)
      then show ?thesis using l hold dd by simp
    qed
  qed
qed

section \<open>Writing\<close>

text \<open>One slot of one table has changed, and nothing else but perhaps the last error.\<close>

definition wrote :: "addr \<Rightarrow> sqobj \<Rightarrow> sqobj option \<Rightarrow> world \<Rightarrow> world \<Rightarrow> bool" where
  "wrote a key val w w' \<longleftrightarrow>
     (\<forall>b k. slots w' b k = (if b = a \<and> k = key then val else slots w b k)) \<and> world_ok w' \<and>
     (\<forall>b. delegate_of b w' = delegate_of b w \<and> (w_tables w' b = None \<longleftrightarrow> w_tables w b = None)) \<and>
     w_weak w' = w_weak w \<and> w_top w' = w_top w \<and> w_nmeta w' = w_nmeta w \<and> w_objs w' = w_objs w \<and> w_arrays w' = w_arrays w"

lemma wroteD:
  assumes "wrote a key val w w'"
  shows "slots w' b k = (if b = a \<and> k = key then val else slots w b k)" "world_ok w'"
    "delegate_of b w' = delegate_of b w" "w_tables w' b = None \<longleftrightarrow> w_tables w b = None" "w_weak w' = w_weak w"
    "w_top w' = w_top w"
  using assms by (simp_all add: wrote_def)

lemma wrote_delegates:
  assumes "wrote a key val w w'"
  shows "delegates_of w' as = delegates_of w as" "base_tables mc w' = base_tables mc w"
proof -
  have "(\<lambda>b. delegate_of b w') = (\<lambda>b. delegate_of b w)" using wroteD(3) [OF assms] by (rule ext)
  then show "delegates_of w' as = delegates_of w as" using wroteD(4) [OF assms] by (simp add: delegates_of_def)
  show "base_tables mc w' = base_tables mc w" using wroteD(4) [OF assms] by (simp add: base_tables_def)
qed

lemma wrote_read: "wrote a key val w w' \<Longrightarrow> read_slot w' b k =
    (if b = a \<and> k = key then map_option (realval (w_weak w)) val else read_slot w b k)"
  by (simp add: read_slot_def wroteD)

lemma put_table_wrote:
  assumes "world_ok w" "w_tables w a = Some t" "table_inv t'" "table_map t' = (table_map t)(key := val)" "t_delegate t' = t_delegate t"
  shows "wrote a key val w (put_table a t' w)"
  using assms by (auto simp: wrote_def put_table_def slots_def world_ok_def delegate_of_def split: option.split)

lemma table_set_ok:
  assumes "world_ok w" "w_tables w a \<noteq> None" "key \<noteq> ONull"
  shows "if slots w a key = None then table_set a key val w = Done (False, w)
    else \<exists>w'. table_set a key val w = Done (True, w') \<and> wrote a key (Some val) w w'"
proof -
  obtain t where t: "w_tables w a = Some t" using assms(2) by blast
  have inv: "table_inv t" using assms(1) t by (simp add: world_ok_def)
  from Set_refines [OF inv assms(3), of val] obtain t' where t': "Table_Set t key val = Some (table_map t key \<noteq> None, t')"
    "table_inv t'" "table_map t' = (if table_map t key = None then table_map t else (table_map t)(key \<mapsto> val))"
    "t_delegate t' = t_delegate t" by blast
  show ?thesis
  proof (cases "table_map t key")
    case None
    then have "t' = t" using t'(1) by (auto simp: Table_Set_def split: option.splits)
    moreover have "put_table a t w = w" using t by (cases w) (auto simp: put_table_def)
    ultimately show ?thesis using None t t'(1) by (simp add: table_set_def slots_def)
  next
    case (Some v)
    then show ?thesis using t t' put_table_wrote [OF assms(1) t t'(2) _ t'(4), of key "Some val"]
      by (auto simp: table_set_def slots_def)
  qed
qed

definition target :: "machine \<Rightarrow> sqobj \<Rightarrow> int \<Rightarrow> addr list \<Rightarrow> world \<Rightarrow> addr option" where
  "target mc key selfidx as w =
     (case holder w key as of
        Some d \<Rightarrow> Some d
      | None \<Rightarrow> if selfidx = 0 \<and> slots w (mc_root mc) key \<noteq> None then Some (mc_root mc) else None)"

lemma set_handler_none:
  assumes "world_ok w" "case delegate_of a w of None \<Rightarrow> True | Some d \<Rightarrow> w_tables w d \<noteq> None \<and> slots w d (OString (mt_name MT_SET)) = None"
  shows "set_handler mc (ORef KTable a) key val w = Done (FALLBACK_NO_MATCH, w)"
  using assms(2) table_get_ok [OF assms(1), of "the (delegate_of a w)" "OString (mt_name MT_SET)"]
  by (cases "delegate_of a w") (simp_all add: set_handler_def GetMetaMethod_def read_slot_def)

lemma Set_chain:
  assumes "world_ok w" "base_tables mc w" "key \<noteq> ONull" "delegates_of w (a # as)" "\<not> has_handler MT_SET w (a # as)" "length as < f"
  shows "case target mc key i (a # as) w of
      Some b \<Rightarrow> \<exists>w'. Set mc f (ORef KTable a) key val i w = Done (True, w') \<and> wrote b key (Some val) w w'
    | None \<Rightarrow> Set mc f (ORef KTable a) key val i w = Done (False, Raise_IdxError mc key w)"
  using assms(4-6)
proof (induction as arbitrary: a f i)
  case Nil
  then obtain g where f: "f = Suc g" by (metis less_imp_Suc_add)
  from Nil.prems(1) have a: "w_tables w a \<noteq> None" "delegate_of a w = None" by (simp_all add: delegates_of_Cons)
  note own = table_set_ok [OF assms(1) a(1) assms(3), of val]
  show ?case
  proof (cases "slots w a key")
    case (Some v)
    then show ?thesis using own by (auto simp: f target_def holder_def)
  next
    case None
    have r: "w_tables w (mc_root mc) \<noteq> None" using assms(2) by (simp add: base_tables_def)
    have "set_handler mc (ORef KTable a) key val w = Done (FALLBACK_NO_MATCH, w)"
      by (rule set_handler_none [OF assms(1)]) (simp add: a(2))
    then show ?thesis using own None a(2) table_set_ok [OF assms(1) r assms(3), of val]
      by (auto simp: f target_def holder_def FallBackSet_def Let_def split: if_splits)
  qed
next
  case (Cons d as)
  then obtain g where f: "f = Suc g" by (metis less_imp_Suc_add)
  from Cons.prems(1) have a: "w_tables w a \<noteq> None" "delegate_of a w = Some d" "delegates_of w (d # as)"
    by (simp_all add: delegates_of_Cons)
  have h: "\<not> has_handler MT_SET w (d # as)" "slots w d (OString (mt_name MT_SET)) = None"
    using Cons.prems(2) by (cases as; auto simp: has_handler_def)+
  have d: "w_tables w d \<noteq> None" using a(3) by (simp add: delegates_of_Cons)
  note own = table_set_ok [OF assms(1) a(1) assms(3), of val]
  note ih = Cons.IH [OF a(3) h(1), of g DONT_FALL_BACK]
  show ?case
  proof (cases "slots w a key")
    case (Some v)
    then show ?thesis using own by (auto simp: f target_def holder_def)
  next
    case None
    have l: "holder w key (a # d # as) = holder w key (d # as)" using None by (simp add: holder_def)
    show ?thesis
    proof (cases "holder w key (d # as)")
      case (Some b)
      with ih Cons.prems(3) f obtain w' where "Set mc g (ORef KTable d) key val DONT_FALL_BACK w = Done (True, w')"
        "wrote b key (Some val) w w'" by (auto simp: target_def)
      then show ?thesis using own None a(2) Some l by (simp add: f target_def FallBackSet_def Let_def cong: if_cong)
    next
      case hn: None
      let ?w = "Raise_IdxError mc key w"
      have g: "Set mc g (ORef KTable d) key val DONT_FALL_BACK w = Done (False, ?w)"
        using ih Cons.prems(3) f hn by (simp add: target_def DONT_FALL_BACK_def)
      have ok: "world_ok ?w" using assms(1) by simp
      have r: "w_tables ?w (mc_root mc) \<noteq> None" using assms(2) by (simp add: base_tables_def)
      have sh: "set_handler mc (ORef KTable a) key val ?w = Done (FALLBACK_NO_MATCH, ?w)"
        by (rule set_handler_none [OF ok]) (use a(2) d h(2) in simp)
      have wr: "wrote b key v ?w w' = wrote b key v w w'" for b v w'
        by (simp add: wrote_def)
      show ?thesis using own None a(2) g sh hn l table_set_ok [OF ok r assms(3), of val]
        by (auto simp: f target_def FallBackSet_def Let_def wr split: if_splits)
    qed
  qed
qed

section \<open>Properties\<close>

text \<open>
  C28. A lookup ends and goes through the delegates in order.  In a table whose chain of
  delegates ends and has no get metamethod, a lookup gives the slot of the first table of the
  chain that has the key, else the default delegate's, else, for the first register, the root
  table's, else the error that the index does not exist; it changes nothing but the last error.
  The depth needed is the length of the chain, whatever metamethods there are.
\<close>

theorem lookup_goes_through_delegates:
  assumes "world_ok w" "base_tables mc w" "delegates_of w (a # as)" "length as < f"
  shows "(\<not> has_handler MT_GET w (a # as) \<longrightarrow>
      Get mc f (ORef KTable a) key False i w =
        Done (lookup mc key i (a # as) w,
          if holder w key (a # as) = None \<and> read_slot w (mc_ddel mc table_ddel) key = None \<and>
             (as \<noteq> [] \<or> lookup mc key i (a # as) w = None)
          then Raise_IdxError mc key w else w)) \<and>
    (\<forall>f' > length as. Get mc f' (ORef KTable a) key False i w = Get mc f (ORef KTable a) key False i w)"
  using Get_chain [OF assms(1-3), of f key i] Get_fuel [OF assms(3)] assms(4) by blast

text \<open>A machine without scripts, its root table, default delegate and two tables: 3 delegates to 4, which has a slot.\<close>

definition sample_world :: world where
  "sample_world = \<lparr>w_tables = [1 \<mapsto> SQTable_new 0, 2 \<mapsto> SQTable_new 0,
       3 \<mapsto> (SQTable_new 0)\<lparr>t_delegate := Some 4\<rparr>,
       4 \<mapsto> snd (the (Table_NewSlot (SQTable_new 0) (OInteger 7) (OBool True)))],
     w_arrays = Map.empty, w_objs = \<lparr>oh_classes = Map.empty, oh_instances = Map.empty, oh_closures = Map.empty\<rparr>,
     w_userdata = Map.empty, w_weak = (\<lambda>_. ONull), w_top = 0, w_nmeta = 0, w_lasterror = ONull, w_suspended = False\<rparr>"

definition sample_machine :: machine where
  "sample_machine = \<lparr>mc_call = (\<lambda>c args w. (None, w)), mc_root = 1, mc_ddel = (\<lambda>_. 2),
     mc_metastate = \<lparr>ms_metamethods = vnew, ms_metamethodsmap = SQTable_new 0\<rparr>,
     mc_float_text = (\<lambda>_. []), mc_float_text14 = (\<lambda>_. []), mc_pointer_text = (\<lambda>_. [])\<rparr>"

lemma new_table_delegate: "t_delegate (SQTable_new n) = None"
  by (simp add: SQTable_new_def AllocNodes_def Let_def)

lemma sample_table:
  "\<exists>b t. Table_NewSlot (SQTable_new 0) (OInteger 7) (OBool True) = Some (b, t) \<and> table_inv t \<and>
     table_map t = [OInteger 7 \<mapsto> OBool True] \<and> t_delegate t = None"
proof -
  have n: "table_inv (SQTable_new 0)" "table_map (SQTable_new 0) = Map.empty" using new_table [of 0] by simp_all
  from NewSlot_refines [OF n(1), of "OInteger 7" "OBool True"] n(2) show ?thesis
    by (auto simp: new_table_delegate)
qed

lemma sample_world_ok:
  "world_ok sample_world" "base_tables sample_machine sample_world" "delegates_of sample_world [3, 4]"
  "\<not> has_handler m sample_world [3, 4]"
  "slots sample_world a k = (if a = 4 \<and> k = OInteger 7 then Some (OBool True) else None)"
proof -
  have n: "table_inv (SQTable_new 0)" "table_map (SQTable_new 0) = Map.empty" using new_table [of 0] by simp_all
  obtain b t where t: "Table_NewSlot (SQTable_new 0) (OInteger 7) (OBool True) = Some (b, t)" "table_inv t"
    "table_map t = [OInteger 7 \<mapsto> OBool True]" "t_delegate t = None" using sample_table by blast
  have "table_inv ((SQTable_new 0)\<lparr>t_delegate := Some 4\<rparr>)" using n(1) by (simp add: table_inv_def numofnodes_def)
  with n(1) t show "world_ok sample_world" by (auto simp: world_ok_def sample_world_def)
  show "base_tables sample_machine sample_world" by (simp add: base_tables_def sample_machine_def sample_world_def)
  show "delegates_of sample_world [3, 4]"
    using t by (simp add: delegates_of_def sample_world_def delegate_of_def)
  show s: "slots sample_world a k = (if a = 4 \<and> k = OInteger 7 then Some (OBool True) else None)" for a k
    using t n(2) by (simp add: slots_def sample_world_def table_map_def)
  show "\<not> has_handler m sample_world [3, 4]" by (simp add: has_handler_def s)
qed

theorem lookup_goes_through_delegates_witness:
  "\<exists>r. Get sample_machine 2 (ORef KTable 3) (OInteger 7) False 5 sample_world = Done r"
  using lookup_goes_through_delegates [OF sample_world_ok(1-3), of 2] sample_world_ok(4) [of MT_GET] by simp

text \<open>
  C29. A write changes the first table of the chain that has the key.  Without a set
  metamethod, storing under a key changes one slot: that of the first table of the chain of
  delegates that has the key, or for the first register that of the root table; reading the
  key afterwards gives the value.  When none has the key it is the error that the index does
  not exist, and no slot changes.
\<close>

theorem write_changes_first_holder:
  assumes "world_ok w" "base_tables mc w" "key \<noteq> ONull" "delegates_of w (a # as)" "length as < f"
    and "\<not> has_handler MT_SET w (a # as)" "\<not> has_handler MT_GET w (a # as)"
  shows "case target mc key i (a # as) w of
      None \<Rightarrow> Set mc f (ORef KTable a) key val i w = Done (False, Raise_IdxError mc key w)
    | Some b \<Rightarrow> \<exists>w'. Set mc f (ORef KTable a) key val i w = Done (True, w') \<and> wrote b key (Some val) w w' \<and>
        (holder w key (a # as) \<noteq> None \<longrightarrow>
         Get mc f (ORef KTable a) key False i w' = Done (Some (realval (w_weak w) val), w'))"
proof (cases "target mc key i (a # as) w")
  case None
  with Set_chain [OF assms(1-4,6,5), of val i] show ?thesis by simp
next
  case (Some b)
  with Set_chain [OF assms(1-4,6,5), of val i] obtain w' where
    w': "Set mc f (ORef KTable a) key val i w = Done (True, w')" "wrote b key (Some val) w w'" by auto
  note d = wrote_delegates [OF w'(2)]
  have dom: "slots w b key \<noteq> None" using Some holder_Some(1) by (auto simp: target_def split: option.splits if_splits)
  have same: "slots w' c k = None \<longleftrightarrow> slots w c k = None" for c k using dom by (auto simp: wroteD(1) [OF w'(2)])
  have nh: "\<not> has_handler MT_GET w' (a # as)" using assms(7) by (simp add: has_handler_def same)
  have hd: "holder w' key (a # as) = holder w key (a # as)" unfolding holder_def same ..
  have "Get mc f (ORef KTable a) key False i w' = Done (Some (realval (w_weak w) val), w')" if h: "holder w key (a # as) \<noteq> None"
  proof -
    have b: "holder w key (a # as) = Some b" using h Some by (auto simp: target_def)
    have "lookup mc key i (a # as) w' = Some (realval (w_weak w) val)"
      using b hd by (simp add: lookup_def wrote_read [OF w'(2)])
    with Get_chain [OF wroteD(2) [OF w'(2)], of mc a as f key i] assms(2,4,5) d nh hd h show ?thesis by simp
  qed
  with w' Some show ?thesis by auto
qed

theorem write_changes_first_holder_witness:
  "\<exists>w'. Set sample_machine 2 (ORef KTable 3) (OInteger 7) (OBool False) 5 sample_world = Done (True, w') \<and>
     Get sample_machine 2 (ORef KTable 3) (OInteger 7) False 5 w' = Done (Some (OBool False), w')"
proof -
  have h: "holder sample_world (OInteger 7) [3, 4] = Some 4" by (simp add: holder_def sample_world_ok(5))
  then have "target sample_machine (OInteger 7) 5 [3, 4] sample_world = Some 4" by (simp add: target_def)
  with write_changes_first_holder [OF sample_world_ok(1,2) _ sample_world_ok(3), of "OInteger 7" 2 "OBool False" 5] sample_world_ok(4) h
  show ?thesis by auto
qed

section \<open>New slots and deletion\<close>

lemma first_not_delegate: "delegates_of w (a # as) \<Longrightarrow> a \<notin> set as"
  using list_at_distinct [of "\<lambda>a. delegate_of a w" "Some a" "a # as"] by (simp add: delegates_of_def)

lemma wrote_first_handler:
  assumes "wrote a key v w w'" "a \<notin> set as"
  shows "has_handler m w' (a # as) = has_handler m w (a # as)"
  using assms(2) by (auto simp: has_handler_def wroteD(1) [OF assms(1)])

lemma meta_none:
  assumes "world_ok w" "delegates_of w (a # as)" "\<not> has_handler m w (a # as)"
  shows "has_delegate (ORef KTable a) w \<Longrightarrow> GetMetaMethod (ORef KTable a) m w = Done None"
proof -
  assume h: "has_delegate (ORef KTable a) w"
  then obtain d where d: "delegate_of a w = Some d" by (auto simp: has_delegate_def)
  with assms(2) have "as \<noteq> []" "d = hd as" "w_tables w d \<noteq> None" by (cases as; auto simp: delegates_of_Cons)+
  moreover have "slots w d (OString (mt_name m)) = None" using assms(3) calculation by (auto simp: has_handler_def)
  ultimately show ?thesis using table_get_ok [OF assms(1), of d "OString (mt_name m)"] d
    by (simp add: GetMetaMethod_def read_slot_def)
qed

lemma NewSlot_writes:
  assumes "world_ok w" "key \<noteq> ONull" "delegates_of w (a # as)" "\<not> has_handler MT_NEWSLOT w (a # as)"
  shows "\<exists>w'. NewSlot mc c (ORef KTable a) key val st w = Done (True, w') \<and> wrote a key (Some val) w w'"
proof -
  obtain t where t: "w_tables w a = Some t" using assms(3) by (auto simp: delegates_of_Cons)
  have inv: "table_inv t" using assms(1) t by (simp add: world_ok_def)
  from NewSlot_refines [OF inv assms(2), of val] obtain b t' where t': "Table_NewSlot t key val = Some (b, t')"
    "table_inv t'" "table_map t' = (table_map t)(key \<mapsto> val)" "t_delegate t' = t_delegate t" by blast
  have "wrote a key (Some val) w (put_table a t' w)" by (rule put_table_wrote [OF assms(1) t t'(2-4)])
  moreover have "NewSlot mc c (ORef KTable a) key val st w = Done (True, put_table a t' w)"
    using meta_none [OF assms(1,3,4)] table_get_ok [OF assms(1), of a key] t t'(1) assms(2) by (simp add: NewSlot_def Let_def)
  ultimately show ?thesis by blast
qed

lemma DeleteSlot_deletes:
  assumes "world_ok w" "key \<noteq> ONull" "delegates_of w (a # as)" "\<not> has_handler MT_DELSLOT w (a # as)"
    "slots w a key = Some v"
  shows "\<exists>w'. DeleteSlot mc (ORef KTable a) key w = Done (Some (realval (w_weak w) v), w') \<and> wrote a key None w w'"
proof -
  obtain t where t: "w_tables w a = Some t" using assms(3) by (auto simp: delegates_of_Cons)
  have inv: "table_inv t" using assms(1) t by (simp add: world_ok_def)
  from Remove_refines [OF inv assms(2)] obtain t' where t': "Table_Remove t key = Some t'"
    "table_inv t'" "table_map t' = (table_map t)(key := None)" "t_delegate t' = t_delegate t" by blast
  have "wrote a key None w (put_table a t' w)" by (rule put_table_wrote [OF assms(1) t t'(2-4)])
  moreover have "DeleteSlot mc (ORef KTable a) key w = Done (Some (realval (w_weak w) v), put_table a t' w)"
    using meta_none [OF assms(1,3,4)] table_get_ok [OF assms(1), of a key] t t'(1) assms(5)
    by (simp add: DeleteSlot_def Let_def read_slot_def)
  ultimately show ?thesis by blast
qed

text \<open>
  C30. A new slot hides the delegates' and deleting it uncovers them.  Without metamethods
  for it, the new slot operator on a table changes the slot of that table alone, whether it or
  a delegate had the key, and a lookup gives the value; deleting the slot gives the value
  back, leaves the table without the key and every other slot as it was, and a lookup then
  gives what the delegates have.
\<close>

theorem new_slot_hides_and_delete_uncovers:
  assumes "world_ok w" "base_tables mc w" "key \<noteq> ONull" "delegates_of w (a # as)" "length as < f"
    and "\<not> has_handler MT_NEWSLOT w (a # as)" "\<not> has_handler MT_DELSLOT w (a # as)" "\<not> has_handler MT_GET w (a # as)"
  shows "\<exists>w1 w2. NewSlot mc c (ORef KTable a) key val st w = Done (True, w1) \<and> wrote a key (Some val) w w1 \<and>
    Get mc f (ORef KTable a) key False i w1 = Done (Some (realval (w_weak w) val), w1) \<and>
    DeleteSlot mc (ORef KTable a) key w1 = Done (Some (realval (w_weak w) val), w2) \<and> wrote a key None w w2 \<and>
    (\<exists>w3. Get mc f (ORef KTable a) key False i w2 = Done (lookup mc key i as w2, w3))"
proof -
  note na = first_not_delegate [OF assms(4)]
  obtain w1 where w1: "NewSlot mc c (ORef KTable a) key val st w = Done (True, w1)" "wrote a key (Some val) w w1"
    using NewSlot_writes [OF assms(1,3,4,6)] by blast
  note d1 = wrote_delegates [OF w1(2)]
  have h1: "\<not> has_handler m w1 (a # as)" if "\<not> has_handler m w (a # as)" for m
    using that wrote_first_handler [OF w1(2) na] by simp
  have ch1: "delegates_of w1 (a # as)" "base_tables mc w1" using assms(2,4) d1 by simp_all
  have v1: "slots w1 a key = Some val" by (simp add: wroteD(1) [OF w1(2)])
  have "holder w1 key (a # as) = Some a" by (simp add: holder_def v1)
  then have "lookup mc key i (a # as) w1 = Some (realval (w_weak w) val)" by (simp add: lookup_def wrote_read [OF w1(2)])
  then have g1: "Get mc f (ORef KTable a) key False i w1 = Done (Some (realval (w_weak w) val), w1)"
    using Get_chain [OF wroteD(2) [OF w1(2)] ch1(2,1) h1 [OF assms(8)] assms(5), of key i] \<open>holder w1 key (a # as) = Some a\<close> by simp
  obtain w2 where w2: "DeleteSlot mc (ORef KTable a) key w1 = Done (Some (realval (w_weak w1) val), w2)" "wrote a key None w1 w2"
    using DeleteSlot_deletes [OF wroteD(2) [OF w1(2)] assms(3) ch1(1) h1 [OF assms(7)] v1] by blast
  have w02: "wrote a key None w w2"
    using w1(2) w2(2) unfolding wrote_def by auto
  note d2 = wrote_delegates [OF w02]
  have ch2: "delegates_of w2 (a # as)" "base_tables mc w2" using assms(2,4) d2 by simp_all
  have h2: "\<not> has_handler MT_GET w2 (a # as)" using assms(8) wrote_first_handler [OF w02 na] by simp
  have "lookup mc key i (a # as) w2 = lookup mc key i as w2"
    by (simp add: lookup_def holder_def wroteD(1) [OF w02, of a key])
  then have "\<exists>w3. Get mc f (ORef KTable a) key False i w2 = Done (lookup mc key i as w2, w3)"
    using Get_chain [OF wroteD(2) [OF w02] ch2(2,1) h2 assms(5), of key i] by simp
  with w1 g1 w2 w02 show ?thesis using wroteD(5) [OF w1(2)] by (intro exI [of _ w1] exI [of _ w2]) simp
qed

theorem new_slot_hides_and_delete_uncovers_witness:
  "\<exists>w1 w2. NewSlot sample_machine 9 (ORef KTable 3) (OInteger 7) ONull False sample_world = Done (True, w1) \<and>
     DeleteSlot sample_machine (ORef KTable 3) (OInteger 7) w1 = Done (Some ONull, w2) \<and> slots w2 4 (OInteger 7) = Some (OBool True)"
proof -
  from new_slot_hides_and_delete_uncovers [OF sample_world_ok(1,2) _ sample_world_ok(3), of "OInteger 7" 2 9 ONull False 5]
    sample_world_ok(4) obtain w1 w2 where w: "NewSlot sample_machine 9 (ORef KTable 3) (OInteger 7) ONull False sample_world = Done (True, w1)"
    "DeleteSlot sample_machine (ORef KTable 3) (OInteger 7) w1 = Done (Some ONull, w2)" "wrote 3 (OInteger 7) None sample_world w2"
    by auto
  from wroteD(1) [OF w(3), of 4 "OInteger 7"] w(1,2) show ?thesis by (simp add: sample_world_ok(5))
qed

section \<open>Metamethods\<close>

text \<open>
  What follows a lookup that no table answers, when the delegate has a get metamethod: it is
  called with the table and the key, after the failure in the delegate has set the last error.
\<close>

theorem get_metamethod_is_asked_last:
  assumes "world_ok w" "base_tables mc w" "delegates_of w [a, d]"
    and "slots w a key = None" "slots w d key = None" "read_slot w (mc_ddel mc table_ddel) key = None"
    and "read_slot w d (OString ''_get'') = Some closure"
    and call: "CallMetaMethod mc closure [ORef KTable a, key] (Raise_IdxError mc key w) = (r, w1)"
  shows "r = Some v \<Longrightarrow> Get mc 2 (ORef KTable a) key False i w = Done (Some v, w1)"
    "r = None \<Longrightarrow> w_lasterror w1 \<noteq> ONull \<Longrightarrow> Get mc 2 (ORef KTable a) key False i w = Done (None, w1)"
proof -
  have t: "w_tables w a \<noteq> None" "w_tables w d \<noteq> None" "delegate_of a w = Some d" "delegate_of d w = None"
    using assms(3) by (simp_all add: delegates_of_Cons)
  have nh: "\<not> has_handler MT_GET w [d]" "delegates_of w [d]" using assms(3) by (simp_all add: has_handler_def delegates_of_Cons)
  have l: "lookup mc key DONT_FALL_BACK [d] w = None" using assms(5,6) by (simp add: lookup_def holder_def DONT_FALL_BACK_def)
  have g: "Get mc 1 (ORef KTable d) key False DONT_FALL_BACK w = Done (None, Raise_IdxError mc key w)"
    using Get_chain [OF assms(1,2) nh(2,1), of 1 key DONT_FALL_BACK] assms(5,6) l by (simp add: holder_def)
  have m: "GetMetaMethod (ORef KTable a) MT_GET (Raise_IdxError mc key w) = Done (Some closure)"
    using table_get_ok [OF assms(1) t(2), of "OString ''_get''"] assms(7) t(3) by (simp add: GetMetaMethod_def)
  have own: "get_own (ORef KTable a) key w = Done Absent"
    using table_get_ok [OF assms(1) t(1), of key] assms(4) by (simp add: get_own_def read_slot_def)
  have h: "get_handler mc (ORef KTable a) key (Raise_IdxError mc key w) =
      Done (case r of Some v \<Rightarrow> (FALLBACK_OK v, w1)
        | None \<Rightarrow> (if w_lasterror w1 \<noteq> ONull then FALLBACK_ERROR else FALLBACK_NO_MATCH, w1))"
    unfolding get_handler_def m obind.simps option.case call Let_def prod.case by (simp split: option.split)
  have G: "Get mc 2 (ORef KTable a) key False i w =
      obind (FallBackGet mc (\<lambda>d w. Get mc 1 (ORef KTable d) key False DONT_FALL_BACK w) (ORef KTable a) key w)
        (\<lambda>(fb, w1).
                 case fb of
                   FALLBACK_OK v \<Rightarrow> Done (Some v, w1)
                 | FALLBACK_ERROR \<Rightarrow> Done (None, w1)
                 | FALLBACK_NO_MATCH \<Rightarrow>
                     obind (InvokeDefaultDelegate mc (ORef KTable a) key w1) (\<lambda>r.
                       case r of Some v \<Rightarrow> Done (Some v, w1) | None \<Rightarrow> get_root mc key i w1))"
    unfolding numeral_2_eq_2 Get.simps(2) own by simp
  show "r = Some v \<Longrightarrow> Get mc 2 (ORef KTable a) key False i w = Done (Some v, w1)"
    "r = None \<Longrightarrow> w_lasterror w1 \<noteq> ONull \<Longrightarrow> Get mc 2 (ORef KTable a) key False i w = Done (None, w1)"
    unfolding G using g h t(3) by (simp_all add: FallBackGet_def)
qed

section \<open>The stack\<close>

text \<open>Code that leaves the top of the stack where it found it.\<close>

definition balanced :: "machine \<Rightarrow> bool" where
  "balanced mc \<longleftrightarrow> (\<forall>c args w. w_top (snd (mc_call mc c args w)) = w_top w)"

abbreviation level :: "int \<Rightarrow> ('a \<times> world) outcome \<Rightarrow> bool" where
  "level t \<equiv> wp False (\<lambda>(_, w). w_top w = t)"

lemma run_meta_top: "balanced mc \<Longrightarrow> w_top (snd (run_meta mc c args w)) = w_top w"
proof -
  assume "balanced mc"
  then have "w_top (snd (mc_call mc c args (w\<lparr>w_nmeta := w_nmeta w + 1\<rparr>))) = w_top w" by (simp add: balanced_def)
  then show ?thesis by (simp add: run_meta_def split_def Let_def)
qed

lemma CallMetaMethod_top: "balanced mc \<Longrightarrow> w_top (snd (CallMetaMethod mc c args w)) = w_top w"
  using run_meta_top [of mc c args "push_args (length args) w"]
  by (simp add: CallMetaMethod_def split_def push_args_def pop_args_def Let_def)

lemma meta_ok_top: "balanced mc \<Longrightarrow> w_top (snd (meta_ok mc c args w)) = w_top w"
  using CallMetaMethod_top [of mc c args w] by (simp add: meta_ok_def split_def Let_def)

lemma put_table_top [simp]: "w_top (put_table a t w) = w_top w" "w_top (w_error s w) = w_top w"
  by (simp_all add: put_table_def w_error_def)

lemma meta_top:
  "CallMetaMethod mc c args w = (r, w') \<Longrightarrow> balanced mc \<Longrightarrow> w_top w' = w_top w"
  "meta_ok mc c args w = (b, w') \<Longrightarrow> balanced mc \<Longrightarrow> w_top w' = w_top w"
  using CallMetaMethod_top [of mc c args w] meta_ok_top [of mc c args w] by auto

lemma get_handler_level: "balanced mc \<Longrightarrow> w_top w = t \<Longrightarrow> level t (get_handler mc self key w)"
  unfolding get_handler_def by (intro wp_pass) (auto split: option.split prod.split simp: Let_def dest: meta_top)

lemma get_root_level: "w_top w = t \<Longrightarrow> level t (get_root mc key i w)"
  unfolding get_root_def by (intro wp_pass) (simp split: option.split)

lemma FallBackGet_level:
  assumes "balanced mc" "\<And>d. level (w_top w) (rec d w)"
  shows "level (w_top w) (FallBackGet mc rec self key w)"
proof -
  have "level (w_top w) (case delegate_of a w of None \<Rightarrow> Done (FALLBACK_NO_MATCH, w)
      | Some d \<Rightarrow> obind (rec d w) (\<lambda>(r, w1). case r of Some v \<Rightarrow> Done (FALLBACK_OK v, w1) | None \<Rightarrow> get_handler mc self key w1))" for a
  proof (cases "delegate_of a w")
    case (Some d)
    show ?thesis unfolding Some option.case
      by (rule wp_bind2 [OF assms(2)]) (auto split: option.split intro: get_handler_level [OF assms(1)])
  qed simp
  then show ?thesis
    by (auto simp: FallBackGet_def Let_def get_handler_level [OF assms(1) refl] split: sqobj.split refkind.split)
qed

lemma Get_level: "balanced mc \<Longrightarrow> level (w_top w) (Get mc f self key raw i w)"
proof (induction f arbitrary: self raw i w)
  case (Suc f)
  have fb: "level (w_top w) (FallBackGet mc (\<lambda>d w. Get mc f (ORef KTable d) key False DONT_FALL_BACK w) self key w)"
    by (rule FallBackGet_level [OF Suc.prems]) (rule Suc.IH [OF Suc.prems])
  have "level (w_top w) (case p of (fb, w1) \<Rightarrow>
      (case fb of FALLBACK_OK v \<Rightarrow> Done (Some v, w1) | FALLBACK_ERROR \<Rightarrow> Done (None, w1)
       | FALLBACK_NO_MATCH \<Rightarrow> obind (InvokeDefaultDelegate mc self key w1) (\<lambda>r.
           case r of Some v \<Rightarrow> Done (Some v, w1) | None \<Rightarrow> get_root mc key i w1)))"
    if "w_top (snd p) = w_top w" for p
    using that by (cases p) (auto split: fallback.split option.split intro!: wp_pass get_root_level)
  then have "level (w_top w) (obind (FallBackGet mc (\<lambda>d w. Get mc f (ORef KTable d) key False DONT_FALL_BACK w) self key w)
      (\<lambda>(fb, w1). case fb of FALLBACK_OK v \<Rightarrow> Done (Some v, w1) | FALLBACK_ERROR \<Rightarrow> Done (None, w1)
       | FALLBACK_NO_MATCH \<Rightarrow> obind (InvokeDefaultDelegate mc self key w1) (\<lambda>r.
           case r of Some v \<Rightarrow> Done (Some v, w1) | None \<Rightarrow> get_root mc key i w1)))"
    by (intro wp_bind2 [OF fb]) (auto simp: split_def)
  then show ?case unfolding Get.simps
    by (intro wp_pass) (auto split: own_result.split intro: get_root_level)
qed simp

lemma NewSlot_level: "balanced mc \<Longrightarrow> level (w_top w) (NewSlot mc c self key val st w)"
  unfolding NewSlot_def Let_def
  by (auto split: sqobj.split refkind.split option.split intro!: wp_pass wp_if dest: meta_top)

lemma NewSlotA_level: "balanced mc \<Longrightarrow> level (w_top w) (NewSlotA mc c self key val attrs st raw w)"
proof -
  assume b: "balanced mc"
  have "level (w_top w) (obind (NewSlot mc c self key val st w) (\<lambda>(ok, w1).
            if \<not> ok then Done (False, w1)
            else if attrs \<noteq> ONull then
              obind (of_option (oh_classes (w_objs w1) a)) (\<lambda>c1.
              obind (SetAttributes (w_weak w1) key attrs c1) (\<lambda>(_, c2).
              Done (True, w1\<lparr>w_objs := set_class a c2 (w_objs w1)\<rparr>)))
            else Done (True, w1)))" for a
    by (rule wp_bind2 [OF NewSlot_level [OF b]]) (auto intro!: wp_pass)
  note k = this
  show ?thesis
  proof (cases "\<exists>a. self = ORef KClass a")
    case True
    then obtain a where a: "self = ORef KClass a" by blast
    show ?thesis unfolding NewSlotA_def a sqobj.case refkind.case
      by (rule wp_pass, rule wp_pass, rule wp_if) (simp add: split_def meta_ok_top [OF b], rule k [unfolded a])
  next
    case False
    then show ?thesis by (simp add: NewSlotA_def split: sqobj.split refkind.split)
  qed
qed

lemma meta_then_level:
  "balanced mc \<Longrightarrow> level (w_top w) n \<Longrightarrow>
     level (w_top w) (obind m (\<lambda>mm. case mm of None \<Rightarrow> n | Some closure \<Rightarrow> Done (CallMetaMethod mc closure args w)))"
  by (rule wp_pass) (simp add: split_def CallMetaMethod_top split: option.split)

lemma DeleteSlot_level: "balanced mc \<Longrightarrow> level (w_top w) (DeleteSlot mc self key w)"
  unfolding DeleteSlot_def Let_def
  by (rule wp_if, simp, rule meta_then_level, assumption)
    (auto split: sqobj.split refkind.split option.split intro!: wp_pass)

lemma cloned_level: "balanced mc \<Longrightarrow> w_top w = t \<Longrightarrow> level t (cloned mc self ob w)"
  unfolding cloned_def by (intro wp_pass) (auto split: option.split prod.split simp: Let_def dest: meta_top)

lemma Clone_level: "balanced mc \<Longrightarrow> level (w_top w) (Clone mc a self w)"
  unfolding Clone_def by (auto split: sqobj.split refkind.split intro!: wp_pass cloned_level)

text \<open>A store leaves its arguments on the stack when its metamethod fails without an error.\<close>

lemma set_handler_top:
  "balanced mc \<Longrightarrow> w_top w \<ge> t \<Longrightarrow> wp False (\<lambda>(_, w'). t \<le> w_top w') (set_handler mc self key val w)"
proof -
  assume b: "balanced mc" and t: "w_top w \<ge> t"
  have "w_top (snd (run_meta mc c args (push_args 3 w))) = w_top w + 3" for c args
    using run_meta_top [OF b, of c args "push_args 3 w"] by (simp add: push_args_def)
  then have "run_meta mc c args (push_args 3 w) = (r, w') \<Longrightarrow> w_top w' = w_top w + 3" for c args r w' by (metis snd_conv)
  then show ?thesis unfolding set_handler_def using t
    by (intro wp_pass) (auto split: option.split prod.split simp: Let_def pop_args_def)
qed

theorem clean_failure_leaves_arguments:
  assumes "balanced mc" "GetMetaMethod self MT_SET w = Done (Some closure)"
    and "run_meta mc closure [self, key, val] (push_args 3 w) = (None, w1)" "w_lasterror w1 = ONull"
  shows "set_handler mc self key val w = Done (FALLBACK_NO_MATCH, w1) \<and> w_top w1 = w_top w + 3"
  using assms(2-4) run_meta_top [OF assms(1), of closure "[self, key, val]" "push_args 3 w"]
  by (simp add: set_handler_def push_args_def)

text \<open>
  Reading, adding, deleting and cloning keep the level of the stack.  If the code that
  metamethods run leaves the top of the stack where it found it, then so do these operations,
  on every object and every path, errors included.
\<close>

theorem access_keeps_stack_level:
  assumes "balanced mc"
  shows "level (w_top w) (Get mc f self key raw i w) \<and> level (w_top w) (NewSlot mc c self key val st w) \<and>
    level (w_top w) (NewSlotA mc c self key val attrs st raw w) \<and> level (w_top w) (DeleteSlot mc self key w) \<and>
    level (w_top w) (Clone mc c self w)"
  using Get_level [OF assms] NewSlot_level [OF assms] NewSlotA_level [OF assms] DeleteSlot_level [OF assms] Clone_level [OF assms]
  by (intro conjI)

theorem access_keeps_stack_level_witness:
  "level 0 (Get sample_machine 2 (ORef KTable 3) (OInteger 7) False 5 sample_world)"
proof -
  have "balanced sample_machine" by (simp add: balanced_def sample_machine_def)
  from access_keeps_stack_level [OF this, of sample_world 2 "ORef KTable 3" "OInteger 7" False 5] show ?thesis
    by (simp add: sample_world_def)
qed

end
