(* ===== verification/Floats.thy ===== *)
theory Floats
  imports Objects
begin

text \<open>
  The arithmetic of \<open>SQFloat\<close>, the C++ type \<^verbatim>\<open>float\<close> in IEEE single precision, as far as
  \<^verbatim>\<open>squirrel/sqvm.cpp\<close> uses it.  A float is its pattern of 32 bits.  Every finite one is an
  integer times a power of two, so results are computed exactly and rounded once, to the
  nearest and to even on a tie.  The payload of a result that is not a number is not modelled.
\<close>

section \<open>Patterns\<close>

definition fl_sign :: "sqfloat \<Rightarrow> bool" where "fl_sign f = bit f 31"
definition fl_exp :: "sqfloat \<Rightarrow> nat" where "fl_exp f = unat (drop_bit 23 f AND 0xFF)"
definition fl_frac :: "sqfloat \<Rightarrow> nat" where "fl_frac f = unat (f AND 0x7FFFFF)"

definition fl_nan :: "sqfloat \<Rightarrow> bool" where "fl_nan f \<longleftrightarrow> fl_exp f = 255 \<and> fl_frac f \<noteq> 0"
definition fl_inf :: "sqfloat \<Rightarrow> bool" where "fl_inf f \<longleftrightarrow> fl_exp f = 255 \<and> fl_frac f = 0"
definition fl_zero :: "sqfloat \<Rightarrow> bool" where "fl_zero f \<longleftrightarrow> fl_exp f = 0 \<and> fl_frac f = 0"

definition NaN :: sqfloat where "NaN = 0xFFC00000"

text \<open>A finite float is \<open>fl_mant\<close> times two to the \<open>fl_pow\<close>, with its sign.\<close>

definition fl_mant :: "sqfloat \<Rightarrow> nat" where
  "fl_mant f = (if fl_exp f = 0 then fl_frac f else fl_frac f + 2 ^ 23)"

definition fl_pow :: "sqfloat \<Rightarrow> int" where
  "fl_pow f = (if fl_exp f = 0 then - 149 else int (fl_exp f) - 150)"

definition with_sign :: "bool \<Rightarrow> nat \<Rightarrow> int" where
  "with_sign s m = (if s then - int m else int m)"

text \<open>The value in units of two to the -149, beyond all of them for an infinity.\<close>

definition fl_units :: "sqfloat \<Rightarrow> int" where
  "fl_units f = with_sign (fl_sign f) (if fl_inf f then 2 ^ 278 else fl_mant f * 2 ^ nat (fl_pow f + 149))"

definition fl_lt :: "sqfloat \<Rightarrow> sqfloat \<Rightarrow> bool" where
  "fl_lt a b \<longleftrightarrow> \<not> fl_nan a \<and> \<not> fl_nan b \<and> fl_units a < fl_units b"

definition fl_eq :: "sqfloat \<Rightarrow> sqfloat \<Rightarrow> bool" where
  "fl_eq a b \<longleftrightarrow> \<not> fl_nan a \<and> \<not> fl_nan b \<and> fl_units a = fl_units b"

section \<open>Rounding\<close>

fun bit_length :: "nat \<Rightarrow> nat" where
  "bit_length m = (if m = 0 then 0 else Suc (bit_length (m div 2)))"

declare bit_length.simps [simp del]

definition signed_pattern :: "bool \<Rightarrow> nat \<Rightarrow> sqfloat" where
  "signed_pattern s m = of_nat (m + (if s then 2 ^ 31 else 0))"

text \<open>The quotient by two to the \<open>s\<close>, rounded.\<close>

definition round_half_even :: "nat \<Rightarrow> nat \<Rightarrow> nat" where
  "round_half_even m s =
     (let q = m div 2 ^ s; r = m mod 2 ^ s in
      if 2 * r > 2 ^ s \<or> 2 * r = 2 ^ s \<and> odd q then Suc q else q)"

text \<open>
  The float nearest to \<open>m\<close> times two to the \<open>e\<close>.  The number of its units, added to the
  exponent's place, gives the pattern; a carry out of the fraction goes to the next exponent.
\<close>

definition fl_round :: "bool \<Rightarrow> nat \<Rightarrow> int \<Rightarrow> sqfloat" where
  "fl_round s m e =
     (if m = 0 then signed_pattern s 0
      else
        (let e' = max (e + int (bit_length m) - 24) (- 149);
             q = (if e' \<le> e then m * 2 ^ nat (e - e') else round_half_even m (nat (e' - e)));
             p = nat (e' + 149) * 2 ^ 23 + q
         in signed_pattern s (min p (255 * 2 ^ 23))))"

section \<open>Operations\<close>

definition fl_of_int :: "sqint \<Rightarrow> sqfloat" where
  "fl_of_int i = fl_round (sint i < 0) (nat \<bar>sint i\<bar>) 0"

definition fl_neg :: "sqfloat \<Rightarrow> sqfloat" where "fl_neg f = f XOR 0x80000000"

definition fl_add :: "sqfloat \<Rightarrow> sqfloat \<Rightarrow> sqfloat" where
  "fl_add a b =
     (if fl_nan a \<or> fl_nan b then NaN
      else if fl_inf a then (if fl_inf b \<and> fl_sign a \<noteq> fl_sign b then NaN else a)
      else if fl_inf b then b
      else
        (let e = min (fl_pow a) (fl_pow b);
             v = with_sign (fl_sign a) (fl_mant a * 2 ^ nat (fl_pow a - e)) +
                 with_sign (fl_sign b) (fl_mant b * 2 ^ nat (fl_pow b - e))
         in if v = 0 then signed_pattern (fl_sign a \<and> fl_sign b) 0
            else fl_round (v < 0) (nat \<bar>v\<bar>) e))"

definition fl_sub :: "sqfloat \<Rightarrow> sqfloat \<Rightarrow> sqfloat" where "fl_sub a b = fl_add a (fl_neg b)"

definition fl_mul :: "sqfloat \<Rightarrow> sqfloat \<Rightarrow> sqfloat" where
  "fl_mul a b =
     (let s = (fl_sign a \<noteq> fl_sign b) in
      if fl_nan a \<or> fl_nan b then NaN
      else if fl_inf a \<or> fl_inf b
      then (if fl_zero a \<or> fl_zero b then NaN else signed_pattern s (255 * 2 ^ 23))
      else fl_round s (fl_mant a * fl_mant b) (fl_pow a + fl_pow b))"

text \<open>The last bit of the quotient is set when the division leaves a rest.\<close>

definition fl_div :: "sqfloat \<Rightarrow> sqfloat \<Rightarrow> sqfloat" where
  "fl_div a b =
     (let s = (fl_sign a \<noteq> fl_sign b) in
      if fl_nan a \<or> fl_nan b then NaN
      else if fl_inf a then (if fl_inf b then NaN else signed_pattern s (255 * 2 ^ 23))
      else if fl_inf b then signed_pattern s 0
      else if fl_zero b then (if fl_zero a then NaN else signed_pattern s (255 * 2 ^ 23))
      else
        (let k = 26 + bit_length (fl_mant b); n = fl_mant a * 2 ^ k; d = fl_mant b in
         fl_round s (2 * (n div d) + (if n mod d = 0 then 0 else 1)) (fl_pow a - fl_pow b - int k - 1)))"

text \<open>\<open>fmod\<close> of two floats is a float: nothing is rounded.\<close>

definition fl_mod :: "sqfloat \<Rightarrow> sqfloat \<Rightarrow> sqfloat" where
  "fl_mod a b =
     (if fl_nan a \<or> fl_nan b \<or> fl_inf a \<or> fl_zero b then NaN
      else if fl_inf b then a
      else
        (let e = min (fl_pow a) (fl_pow b) in
         fl_round (fl_sign a) ((fl_mant a * 2 ^ nat (fl_pow a - e)) mod (fl_mant b * 2 ^ nat (fl_pow b - e))) e))"

end
