(* ===== verification/Values.thy ===== *)
theory Values
  imports Access Floats Peephole "HOL-Library.Signed_Division"
begin

text \<open>
  Operators on values, from \<^verbatim>\<open>squirrel/sqvm.cpp\<close>: arithmetic, bits, comparison, equality,
  texts and types, with their metamethods.  An operation gives its result, or \<open>None\<close> when it
  raised an error, and the world.  Integers wrap at 64 bits; the division of the least integer
  by -1 and a shift by a negative number or by 64 and more are undefined.  Strings are interned,
  so that two are the same object when they have the same characters.
\<close>

section \<open>Arithmetic\<close>

definition tofloat :: "sqobj \<Rightarrow> sqfloat" where
  "tofloat ob = (case ob of OInteger i \<Rightarrow> fl_of_int i | OFloat f \<Rightarrow> f | _ \<Rightarrow> 0)"

definition BW_OP :: "8 word \<Rightarrow> sqobj \<Rightarrow> sqobj \<Rightarrow> world \<Rightarrow> (sqobj option \<times> world) outcome" where
  "BW_OP op o1 o2 w =
     (case (o1, o2) of
        (OInteger i1, OInteger i2) \<Rightarrow>
          (let shift = (\<lambda>f. if 0 \<le> sint i2 \<and> sint i2 < 64 then Done (Some (OInteger (f (unat i2))), w) else Undef) in
           if op = 0 then Done (Some (OInteger (i1 AND i2)), w)
           else if op = 2 then Done (Some (OInteger (i1 OR i2)), w)
           else if op = 3 then Done (Some (OInteger (i1 XOR i2)), w)
           else if op = 4 then shift (\<lambda>n. push_bit n i1)
           else if op = 5 then shift (\<lambda>n. signed_drop_bit n i1)
           else if op = 6 then shift (\<lambda>n. drop_bit n i1)
           else Done (None, w_error ''internal vm error bitwise op failed'' w))
      | _ \<Rightarrow> Done (None, w_error (''bitwise op between '' @ quoted (type_name o1) @ '' and '' @ quoted (type_name o2)) w))"

definition op_metamethod :: "char \<Rightarrow> SQMetaMethod" where
  "op_metamethod op =
     (if op = CHR ''-'' then MT_SUB else if op = CHR ''/'' then MT_DIV else if op = CHR ''*'' then MT_MUL
      else if op = CHR ''%'' then MT_MODULO else MT_ADD)"

definition ArithMetaMethod :: "machine \<Rightarrow> char \<Rightarrow> sqobj \<Rightarrow> sqobj \<Rightarrow> world \<Rightarrow> (sqobj option \<times> world) outcome" where
  "ArithMetaMethod mc op o1 o2 w =
     obind (if has_delegate o1 w then GetMetaMethod o1 (op_metamethod op) w else Done None) (\<lambda>mm.
       case mm of
         Some closure \<Rightarrow> Done (CallMetaMethod mc closure [o1, o2] w)
       | None \<Rightarrow> Done (None, w_error (''arith op '' @ [op] @ '' on between '' @ quoted (type_name o1) @
                        '' and '' @ quoted (type_name o2)) w))"

section \<open>Texts and types\<close>

text \<open>A metamethod that does not give a string leaves the text of the type and the address.\<close>

definition ToString :: "machine \<Rightarrow> sqobj \<Rightarrow> world \<Rightarrow> (string option \<times> world) outcome" where
  "ToString mc ob w =
     (let address = ''('' @ type_name ob @ '' : 0x'' @ mc_pointer_text mc ob @ '')'' in
      case ob of
        OString s \<Rightarrow> Done (Some s, w)
      | OFloat f \<Rightarrow> Done (Some (mc_float_text mc f), w)
      | OInteger i \<Rightarrow> Done (Some (int_text (sint i)), w)
      | OBool b \<Rightarrow> Done (Some (if b then ''true'' else ''false''), w)
      | _ \<Rightarrow>
          if has_delegate ob w then
            obind (GetMetaMethod ob MT_TOSTRING w) (\<lambda>mm.
              case mm of
                None \<Rightarrow> Done (Some address, w)
              | Some closure \<Rightarrow>
                  (let (r, w1) = CallMetaMethod mc closure [ob] w in
                   Done (case r of Some (OString s) \<Rightarrow> (Some s, w1) | Some _ \<Rightarrow> (Some address, w1) | None \<Rightarrow> (None, w1))))
          else Done (Some address, w))"

definition StringCat :: "machine \<Rightarrow> sqobj \<Rightarrow> sqobj \<Rightarrow> world \<Rightarrow> (sqobj option \<times> world) outcome" where
  "StringCat mc str ob w =
     obind (ToString mc str w) (\<lambda>(a, w1).
       case a of
         None \<Rightarrow> Done (None, w1)
       | Some s \<Rightarrow>
           obind (ToString mc ob w1) (\<lambda>(b, w2).
             Done (case b of None \<Rightarrow> (None, w2) | Some t \<Rightarrow> (Some (OString (s @ t)), w2))))"

definition TypeOf :: "machine \<Rightarrow> sqobj \<Rightarrow> world \<Rightarrow> (sqobj option \<times> world) outcome" where
  "TypeOf mc ob w =
     obind (if has_delegate ob w then GetMetaMethod ob MT_TYPEOF w else Done None) (\<lambda>mm.
       case mm of
         Some closure \<Rightarrow> Done (CallMetaMethod mc closure [ob] w)
       | None \<Rightarrow> Done (Some (OString (type_name ob)), w))"

text \<open>The operators; the default of an unknown one is the constant in the code.\<close>

definition int_arith :: "char \<Rightarrow> sqint \<Rightarrow> sqint \<Rightarrow> (string + sqint) outcome" where
  "int_arith op i1 i2 =
     (let overflow = (i1 = - (2 ^ 63) \<and> i2 = - 1) in
      if op = CHR ''+'' then Done (Inr (i1 + i2))
      else if op = CHR ''-'' then Done (Inr (i1 - i2))
      else if op = CHR ''/'' then
        (if i2 = 0 then Done (Inl ''division by zero'') else if overflow then Undef else Done (Inr (word_of_int (sint i1 sdiv sint i2))))
      else if op = CHR ''*'' then Done (Inr (i1 * i2))
      else if op = CHR ''%'' then
        (if i2 = 0 then Done (Inl ''modulo by zero'') else if overflow then Undef else Done (Inr (word_of_int (sint i1 smod sint i2))))
      else Done (Inr 0xDEADBEEF))"

definition float_arith :: "char \<Rightarrow> sqfloat \<Rightarrow> sqfloat \<Rightarrow> sqfloat" where
  "float_arith op f1 f2 =
     (if op = CHR ''+'' then fl_add f1 f2
      else if op = CHR ''-'' then fl_sub f1 f2
      else if op = CHR ''/'' then fl_div f1 f2
      else if op = CHR ''*'' then fl_mul f1 f2
      else if op = CHR ''%'' then fl_mod f1 f2
      else fl_of_int 15)"

definition is_string :: "sqobj \<Rightarrow> bool" where
  "is_string ob \<longleftrightarrow> (case ob of OString _ \<Rightarrow> True | _ \<Rightarrow> False)"

definition ARITH_OP :: "machine \<Rightarrow> char \<Rightarrow> sqobj \<Rightarrow> sqobj \<Rightarrow> world \<Rightarrow> (sqobj option \<times> world) outcome" where
  "ARITH_OP mc op o1 o2 w =
     (case (o1, o2) of
        (OInteger i1, OInteger i2) \<Rightarrow>
          obind (int_arith op i1 i2) (\<lambda>r.
            case r of Inl e \<Rightarrow> Done (None, w_error e w) | Inr i \<Rightarrow> Done (Some (OInteger i), w))
      | _ \<Rightarrow>
          if sq_isnumeric o1 \<and> sq_isnumeric o2
          then Done (Some (OFloat (float_arith op (tofloat o1) (tofloat o2))), w)
          else if op = CHR ''+'' \<and> (is_string o1 \<or> is_string o2) then StringCat mc o1 o2 w
          else ArithMetaMethod mc op o1 o2 w)"

definition NEG_OP :: "machine \<Rightarrow> sqobj \<Rightarrow> world \<Rightarrow> (sqobj option \<times> world) outcome" where
  "NEG_OP mc ob w =
     (let err = Done (None, w_error (''attempt to negate a '' @ type_name ob) w) in
      case ob of
        OInteger i \<Rightarrow> Done (Some (OInteger (- i)), w)
      | OFloat f \<Rightarrow> Done (Some (OFloat (fl_neg f)), w)
      | _ \<Rightarrow>
          if has_delegate ob w then
            obind (GetMetaMethod ob MT_UNM w) (\<lambda>mm.
              case mm of Some closure \<Rightarrow> Done (CallMetaMethod mc closure [ob] w) | None \<Rightarrow> err)
          else err)"

section \<open>Comparison\<close>

fun char_cmp :: "string \<Rightarrow> string \<Rightarrow> int" where
  "char_cmp [] [] = 0"
| "char_cmp [] (b # bs) = - 1"
| "char_cmp (a # as) [] = 1"
| "char_cmp (a # as) (b # bs) =
     (if a = b then char_cmp as bs else if (of_char a :: nat) < of_char b then - 1 else 1)"

definition scstrcmp :: "string \<Rightarrow> string \<Rightarrow> int" where
  "scstrcmp a b = char_cmp (cstr a) (cstr b)"

text \<open>The value as the number the machine compares last: an address or a truth value.\<close>

definition as_pointer :: "sqobj \<Rightarrow> addr" where
  "as_pointer ob = (case ob of OUserPointer p \<Rightarrow> p | ORef _ a \<Rightarrow> a | OBool b \<Rightarrow> of_bool b | _ \<Rightarrow> 0)"

definition Raise_CompareError :: "machine \<Rightarrow> sqobj \<Rightarrow> sqobj \<Rightarrow> world \<Rightarrow> world" where
  "Raise_CompareError mc o1 o2 w =
     w_error (''comparison between '' @ quoted (take 50 (cstr (PrintObjVal mc o1))) @ '' and '' @
              quoted (take 50 (cstr (PrintObjVal mc o2)))) w"

definition ObjCmp :: "machine \<Rightarrow> sqobj \<Rightarrow> sqobj \<Rightarrow> world \<Rightarrow> (int option \<times> world) outcome" where
  "ObjCmp mc o1 o2 w =
     (if sqobjtype o1 = sqobjtype o2 then
        (if o1 = o2 then Done (Some 0, w)
         else case (o1, o2) of
           (OString a, OString b) \<Rightarrow> Done (Some (scstrcmp a b), w)
         | (OInteger i, OInteger j) \<Rightarrow> Done (Some (if sint i < sint j then - 1 else 1), w)
         | (OFloat f, OFloat g) \<Rightarrow> Done (Some (if fl_lt f g then - 1 else 1), w)
         | _ \<Rightarrow>
             obind (if has_delegate o1 w then GetMetaMethod o1 MT_CMP w else Done None) (\<lambda>mm.
               case mm of
                 Some closure \<Rightarrow>
                   (let (r, w1) = CallMetaMethod mc closure [o1, o2] w in
                    Done (case r of
                        Some (OInteger i) \<Rightarrow> (Some (sint i), w1)
                      | Some _ \<Rightarrow> (None, w_error ''_cmp must return an integer'' w1)
                      | None \<Rightarrow> (None, w1)))
               | None \<Rightarrow> Done (Some (if as_pointer o1 < as_pointer o2 then - 1 else 1), w)))
      else if sq_isnumeric o1 \<and> sq_isnumeric o2 then
        Done (Some (if fl_eq (tofloat o1) (tofloat o2) then 0 else if fl_lt (tofloat o1) (tofloat o2) then - 1 else 1), w)
      else if o1 = ONull then Done (Some (- 1), w)
      else if o2 = ONull then Done (Some 1, w)
      else Done (None, Raise_CompareError mc o1 o2 w))"

definition CMP_OP :: "machine \<Rightarrow> 8 word \<Rightarrow> sqobj \<Rightarrow> sqobj \<Rightarrow> world \<Rightarrow> (sqobj option \<times> world) outcome" where
  "CMP_OP mc op o1 o2 w =
     obind (ObjCmp mc o1 o2 w) (\<lambda>(r, w1).
       Done (case r of
           None \<Rightarrow> (None, w1)
         | Some r \<Rightarrow>
             (if op = 0 then Some (OBool (r > 0))
              else if op = 2 then Some (OBool (r \<ge> 0))
              else if op = 3 then Some (OBool (r < 0))
              else if op = 4 then Some (OBool (r \<le> 0))
              else if op = 5 then Some (OInteger (word_of_int r))
              else None, w1)))"

text \<open>
  Equality; \<open>meta\<close> is whether metamethods are asked.  The result of the metamethod is turned
  round, and when it fails the objects are not equal.
\<close>

definition IsEqual :: "machine \<Rightarrow> bool \<Rightarrow> sqobj \<Rightarrow> sqobj \<Rightarrow> world \<Rightarrow> (bool option \<times> world) outcome" where
  "IsEqual mc meta o1 o2 w =
     (if sqobjtype o1 = sqobjtype o2 then
        (if o1 = o2 then Done (Some True, w)
         else if meta \<and> has_delegate o1 w then
           obind (GetMetaMethod o1 MT_EQ w) (\<lambda>mm.
             case mm of
               None \<Rightarrow> Done (Some False, w)
             | Some closure \<Rightarrow>
                 (let (r, w1) = CallMetaMethod mc closure [o1, o2] w in
                  Done (case r of
                      Some (OBool b) \<Rightarrow> (Some (IsFalse (OBool b)), w1)
                    | Some _ \<Rightarrow> (None, w_error ''_eq must return an boolean'' w1)
                    | None \<Rightarrow> (Some False, w1))))
         else Done (Some False, w))
      else if sq_isnumeric o1 \<and> sq_isnumeric o2 then Done (Some (fl_eq (tofloat o1) (tofloat o2)), w)
      else Done (Some False, w))"

section \<open>Instructions\<close>

text \<open>
  The arithmetic instructions compute on numbers at once.  The modulo instruction does not look
  at the result of its operator: on an error it leaves the register as it is and goes on.
  The result is whether an error is thrown, and the new value of the register if it has one.
\<close>

definition arith_instruction :: "machine \<Rightarrow> char \<Rightarrow> sqobj \<Rightarrow> sqobj \<Rightarrow> world \<Rightarrow> (bool \<times> sqobj option \<times> world) outcome" where
  "arith_instruction mc op o1 o2 w =
     obind (ARITH_OP mc op o1 o2 w) (\<lambda>(r, w1). Done (r = None \<and> op \<noteq> CHR ''%'', r, w1))"

text \<open>The local and the value of its increment afterwards.\<close>

definition PLOCAL_INC :: "machine \<Rightarrow> char \<Rightarrow> sqobj \<Rightarrow> sqobj \<Rightarrow> world \<Rightarrow> ((sqobj \<times> sqobj) option \<times> world) outcome" where
  "PLOCAL_INC mc op a incr w =
     obind (ARITH_OP mc op a incr w) (\<lambda>(r, w1). Done (map_option (\<lambda>trg. (a, trg)) r, w1))"

text \<open>
  Whether it succeeded, and the new value of the register of the result if it has one: when the
  write fails the register has the sum already.
\<close>

definition DerefInc ::
    "machine \<Rightarrow> nat \<Rightarrow> char \<Rightarrow> sqobj \<Rightarrow> sqobj \<Rightarrow> sqobj \<Rightarrow> bool \<Rightarrow> int \<Rightarrow> world \<Rightarrow>
     (bool \<times> sqobj option \<times> world) outcome" where
  "DerefInc mc fuel op self key incr postfix selfidx w =
     obind (Get mc fuel self key False selfidx w) (\<lambda>(r, w1).
       case r of
         None \<Rightarrow> Done (False, None, w1)
       | Some tmp \<Rightarrow>
           obind (ARITH_OP mc op tmp incr w1) (\<lambda>(r, w2).
             case r of
               None \<Rightarrow> Done (False, None, w2)
             | Some trg \<Rightarrow>
                 obind (Set mc fuel self key trg selfidx w2) (\<lambda>(ok, w3).
                   Done (ok, Some (if ok \<and> postfix then tmp else trg), w3))))"

definition OP_BWNOT_step :: "sqobj \<Rightarrow> world \<Rightarrow> sqobj option \<times> world" where
  "OP_BWNOT_step ob w =
     (case ob of
        OInteger i \<Rightarrow> (Some (OInteger (NOT i)), w)
      | _ \<Rightarrow> (None, w_error (''attempt to perform a bitwise op on a '' @ type_name ob) w))"

end
