(* ===== verification/ValueProps.thy ===== *)
theory ValueProps
  imports Values AccessProps
begin

text \<open>
  What the operators promise: floats are computed exactly when the result is a float, integers
  modulo two to the 64, and comparison orders the values of one type.
\<close>

section \<open>Patterns of floats\<close>

lemma unat_drop_mask:
  fixes f :: sqfloat shows "unat (drop_bit 23 f AND 0xFF) = unat f div 2 ^ 23 mod 256"
proof -
  have m: "(of_nat (2 ^ 8 - 1) :: sqfloat) = 0xFF" by simp
  have "unat (drop_bit 23 f AND of_nat (2 ^ 8 - 1)) = unat (drop_bit 23 f) mod 2 ^ 8"
    by (rule unat_and_mask_mod) simp
  also have "unat (drop_bit 23 f) = unat f div 2 ^ 23" by (simp only: unat_drop_bit_eq) (simp only: drop_bit_eq_div)
  finally show ?thesis unfolding m by simp
qed

lemma unat_frac_mask:
  fixes f :: sqfloat shows "unat (f AND 0x7FFFFF) = unat f mod 2 ^ 23"
proof -
  have "unat (f AND of_nat (2 ^ 23 - 1)) = unat f mod 2 ^ 23" by (rule unat_and_mask_mod) simp
  then show ?thesis by simp
qed

text \<open>The pattern without its sign.\<close>

definition magnitude :: "sqfloat \<Rightarrow> nat" where "magnitude f = unat f mod 2 ^ 31"

lemma magnitude_fields: "fl_exp f = magnitude f div 2 ^ 23" "fl_frac f = magnitude f mod 2 ^ 23"
proof -
  have "unat f mod 2 ^ 31 div 2 ^ 23 = unat f div 2 ^ 23 mod 2 ^ 8"
    using mod_mult2_eq [of "unat f" "2 ^ 23" "2 ^ 8"] by simp
  then show "fl_exp f = magnitude f div 2 ^ 23" by (simp add: fl_exp_def magnitude_def unat_drop_mask)
  show "fl_frac f = magnitude f mod 2 ^ 23"
    by (simp add: fl_frac_def magnitude_def unat_frac_mask mod_mod_cancel)
qed

lemma fl_sign_unat: "fl_sign f \<longleftrightarrow> 2 ^ 31 \<le> unat f"
proof -
  have "bit f 31 \<longleftrightarrow> odd (unat f div 2 ^ 31)" 
  proof -
    have "bit (unat f) 31 \<longleftrightarrow> bit f 31" by (simp add: bit_unsigned_iff)
    then show ?thesis by (simp add: bit_iff_odd [of "unat f"])
  qed
  also have "\<dots> \<longleftrightarrow> 2 ^ 31 \<le> unat f"
  proof -
    have "unat f < 2 ^ 32" using unsigned_less [of f] by simp
    then have "unat f div 2 ^ 31 < 2" by (simp add: less_mult_imp_div_less)
    then have "unat f div 2 ^ 31 = 0 \<or> unat f div 2 ^ 31 = 1" by linarith
    then show ?thesis by (auto simp: div_eq_0_iff)
  qed
  finally show ?thesis by (simp add: fl_sign_def)
qed

lemma unat_magnitude: "unat f = magnitude f + (if fl_sign f then 2 ^ 31 else 0)"
proof (cases "2 ^ 31 \<le> unat f")
  case True
  have "unat f < 2 ^ 32" using unsigned_less [of f] by simp
  with True have "unat f mod 2 ^ 31 = unat f - 2 ^ 31" by (simp add: le_mod_geq)
  with True show ?thesis by (simp add: magnitude_def fl_sign_unat)
qed (simp add: magnitude_def fl_sign_unat)

lemma magnitude_less: "magnitude f < 2 ^ 31"
  by (simp add: magnitude_def)

lemma signed_pattern_fields:
  assumes "m < 2 ^ 31" shows "magnitude (signed_pattern s m) = m" "fl_sign (signed_pattern s m) = s"
proof -
  have u: "unat (signed_pattern s m) = m + (if s then 2 ^ 31 else 0)"
  proof -
    have "m + (if s then 2 ^ 31 else 0) < 2 ^ 32" using assms by simp
    then show ?thesis by (simp only: signed_pattern_def unat_of_nat) (simp add: take_bit_nat_eq_self)
  qed
  then show "magnitude (signed_pattern s m) = m" using assms by (simp add: magnitude_def)
  show "fl_sign (signed_pattern s m) = s" using u assms by (simp add: fl_sign_unat)
qed

text \<open>The size of a float in its units, by its pattern.\<close>

definition size_of :: "nat \<Rightarrow> nat" where
  "size_of k = (if k div 2 ^ 23 = 0 then k else (k mod 2 ^ 23 + 2 ^ 23) * 2 ^ (k div 2 ^ 23 - 1))"

lemma size_of_mono:
  assumes "k < l" shows "size_of k < size_of l"
proof -
  let ?e = "\<lambda>k. k div 2 ^ 23" and ?f = "\<lambda>k. k mod (2 :: nat) ^ 23"
  have f: "?f k < 2 ^ 23" "?f l < 2 ^ 23" by simp_all
  have d: "k = 2 ^ 23 * ?e k + ?f k" "l = 2 ^ 23 * ?e l + ?f l" by (metis mult_div_mod_eq)+
  have le: "?e k \<le> ?e l" using assms by (simp add: div_le_mono)
  show ?thesis
  proof (cases "?e k = ?e l")
    case True
    then have "?f k < ?f l" using assms by (metis d nat_add_left_cancel_less)
    then show ?thesis using True assms by (simp add: size_of_def)
  next
    case False
    with le have lt: "?e k < ?e l" by simp
    then have l: "size_of l \<ge> 2 ^ 23 * 2 ^ (?e l - 1)" by (simp add: size_of_def)
    show ?thesis
    proof (cases "?e k = 0")
      case True
      then have "size_of k < 2 ^ 23" using d(1) f(1) by (simp add: size_of_def)
      moreover have "(2 :: nat) ^ 23 \<le> 2 ^ 23 * 2 ^ (?e l - 1)" by simp
      ultimately show ?thesis using l by linarith
    next
      case k: False
      have "size_of k < 2 ^ 24 * 2 ^ (?e k - 1)" using k f(1) by (simp add: size_of_def)
      also have "\<dots> = 2 ^ 23 * 2 ^ ?e k" using k by (cases "?e k") simp_all
      also have "\<dots> \<le> 2 ^ 23 * 2 ^ (?e l - 1)" using lt by (intro mult_le_mono2 power_increasing) auto
      finally show ?thesis using l by simp
    qed
  qed
qed

lemma size_of_less_iff: "size_of k < size_of l \<longleftrightarrow> k < l"
  using size_of_mono [of k l] size_of_mono [of l k] by (cases k l rule: linorder_cases) auto

lemma size_of_bound: "k \<le> 255 * 2 ^ 23 \<Longrightarrow> size_of k \<le> 2 ^ 277"
proof -
  assume "k \<le> 255 * 2 ^ 23"
  then have "size_of k \<le> size_of (255 * 2 ^ 23)" using size_of_less_iff [of "255 * 2 ^ 23" k] by linarith
  then show ?thesis by (simp add: size_of_def)
qed

lemma special_magnitude:
  "fl_inf f \<longleftrightarrow> magnitude f = 255 * 2 ^ 23" "fl_nan f \<longleftrightarrow> 255 * 2 ^ 23 < magnitude f"
  "fl_zero f \<longleftrightarrow> magnitude f = 0"
proof -
  have d: "magnitude f = 2 ^ 23 * (magnitude f div 2 ^ 23) + magnitude f mod 2 ^ 23" by simp
  have r: "magnitude f mod 2 ^ 23 < 2 ^ 23" by simp
  have l: "magnitude f div 2 ^ 23 < 256" using magnitude_less [of f] by (simp add: less_mult_imp_div_less)
  show "fl_inf f \<longleftrightarrow> magnitude f = 255 * 2 ^ 23"
    unfolding fl_inf_def magnitude_fields by (metis d add.right_neutral mult.commute mod_mult_self1_is_0 nonzero_mult_div_cancel_right power_not_zero zero_neq_numeral)
  show "fl_nan f \<longleftrightarrow> 255 * 2 ^ 23 < magnitude f"
  proof
    assume "fl_nan f"
    then have e: "magnitude f div 2 ^ 23 = 255" "0 < magnitude f mod 2 ^ 23" by (simp_all add: fl_nan_def magnitude_fields)
    have "magnitude f = 2 ^ 23 * 255 + magnitude f mod 2 ^ 23" using d unfolding e(1) .
    with e(2) show "255 * 2 ^ 23 < magnitude f" by linarith
  next
    assume a: "255 * 2 ^ 23 < magnitude f"
    then have "255 \<le> magnitude f div 2 ^ 23" by (simp add: less_eq_div_iff_mult_less_eq)
    with l have "magnitude f div 2 ^ 23 = 255" by simp
    moreover have "magnitude f = 2 ^ 23 * 255 + magnitude f mod 2 ^ 23" using d unfolding calculation .
    ultimately show "fl_nan f" using a unfolding fl_nan_def magnitude_fields by linarith
  qed
  show "fl_zero f \<longleftrightarrow> magnitude f = 0"
    unfolding fl_zero_def magnitude_fields using d by auto
qed

definition units_of :: "nat \<Rightarrow> nat" where
  "units_of k = (if k = 255 * 2 ^ 23 then 2 ^ 278 else size_of k)"

lemma units_of_less: "k < l \<Longrightarrow> l \<le> 255 * 2 ^ 23 \<Longrightarrow> units_of k < units_of l"
  using size_of_mono [of k l] size_of_bound [of k] by (auto simp: units_of_def)

lemma fl_units_of: "fl_units f = with_sign (fl_sign f) (units_of (magnitude f))"
proof (cases "fl_exp f = 0")
  case True
  then show ?thesis
    using special_magnitude(1) [of f] magnitude_fields [of f]
    by (simp add: fl_units_def fl_mant_def fl_pow_def units_of_def size_of_def fl_inf_def)
next
  case False
  then have "nat (int (fl_exp f) - 150 + 149) = fl_exp f - 1" by simp
  with False show ?thesis
    using special_magnitude(1) [of f] magnitude_fields [of f]
    by (simp add: fl_units_def fl_mant_def fl_pow_def units_of_def size_of_def)
qed

lemma units_of_inj: "k \<le> 255 * 2 ^ 23 \<Longrightarrow> l \<le> 255 * 2 ^ 23 \<Longrightarrow> units_of k = units_of l \<Longrightarrow> k = l"
  using units_of_less [of k l] units_of_less [of l k] by (cases k l rule: linorder_cases) auto

lemma units_of_0: "units_of 0 = 0" by (simp add: units_of_def size_of_def)

lemma fl_units_inj:
  assumes "fl_units f = fl_units g" "\<not> fl_nan f" "\<not> fl_nan g" "f \<noteq> 0x80000000" "g \<noteq> 0x80000000"
  shows "f = g"
proof -
  let ?u = "\<lambda>f. units_of (magnitude f)"
  have le: "magnitude f \<le> 255 * 2 ^ 23" "magnitude g \<le> 255 * 2 ^ 23"
    using assms(2,3) by (simp_all add: special_magnitude(2))
  have u: "?u f = ?u g" "?u f = 0 \<or> fl_sign f = fl_sign g"
    using assms(1) by (auto simp: fl_units_of with_sign_def split: if_splits)
  have m: "magnitude f = magnitude g" by (rule units_of_inj [OF le u(1)])
  have z: "\<not> fl_sign h" if "magnitude h = 0" "h \<noteq> 0x80000000" for h
  proof
    assume "fl_sign h"
    then have "unat h = unat (0x80000000 :: sqfloat)" using that(1) unat_magnitude [of h] by simp
    with that(2) show False by (simp add: word_unat_eq_iff)
  qed
  have "fl_sign f = fl_sign g"
  proof (cases "magnitude f = 0")
    case True
    then show ?thesis using z [of f] z [of g] m assms(4,5) by simp
  next
    case False
    then have "?u f \<noteq> 0" using units_of_less [of 0 "magnitude f"] le(1) units_of_0 by simp
    with u(2) show ?thesis by simp
  qed
  with m have "unat f = unat g" by (simp add: unat_magnitude)
  then show ?thesis by (simp add: word_unat_eq_iff)
qed

section \<open>Rounding\<close>

lemma bit_length_le: "bit_length m \<le> k \<longleftrightarrow> m < 2 ^ k"
proof (induction k arbitrary: m)
  case 0
  show ?case by (subst bit_length.simps) simp
next
  case (Suc k)
  show ?case
  proof (cases "m = 0")
    case True
    then show ?thesis by (simp add: bit_length.simps)
  next
    case False
    then show ?thesis using Suc.IH [of "m div 2"] by (subst bit_length.simps) auto
  qed
qed

lemma bit_length_shift: "0 < m \<Longrightarrow> bit_length (m * 2 ^ k) = bit_length m + k"
proof (induction k)
  case (Suc k)
  have "bit_length (m * 2 ^ Suc k) = Suc (bit_length (m * 2 ^ Suc k div 2))"
    using Suc.prems by (subst bit_length.simps) simp
  also have "m * 2 ^ Suc k div 2 = m * 2 ^ k" by simp
  finally show ?case using Suc by simp
qed simp

lemma bit_length_pos: "0 < m \<Longrightarrow> 0 < bit_length m"
  by (simp add: bit_length.simps)

lemma round_half_even_exact: "round_half_even (q * 2 ^ s) s = q"
  by (simp add: round_half_even_def)

text \<open>A number of units that a float can be: 24 bits, in place.\<close>

definition fits :: "nat \<Rightarrow> bool" where
  "fits u \<longleftrightarrow> (\<exists>n j. u = n * 2 ^ j \<and> n < 2 ^ 24 \<and> j \<le> 253)"

text \<open>\<open>m\<close> times two to the \<open>e\<close> is \<open>u\<close> units.\<close>

definition counts :: "nat \<Rightarrow> int \<Rightarrow> nat \<Rightarrow> bool" where
  "counts m e u \<longleftrightarrow> (if - 149 \<le> e then u = m * 2 ^ nat (e + 149) else m = u * 2 ^ nat (- 149 - e))"

lemma size_of_place:
  assumes "q < 2 ^ 24" "t = 0 \<or> 2 ^ 23 \<le> q"
  shows "size_of (t * 2 ^ 23 + q) = q * 2 ^ t"
proof (cases "q < 2 ^ 23")
  case True
  with assms(2) have "t = 0" by simp
  with True show ?thesis by (simp add: size_of_def)
next
  case False
  then obtain r where r: "q = 2 ^ 23 + r" "r < 2 ^ 23" using assms(1) by (auto simp: le_iff_add not_less)
  have e: "t * 2 ^ 23 + q = r + (t + 1) * 2 ^ 23" by (simp add: r algebra_simps)
  have "(t * 2 ^ 23 + q) div 2 ^ 23 = t + 1" "(t * 2 ^ 23 + q) mod 2 ^ 23 = r"
    unfolding e using r(2) by (simp_all add: div_mult_self3 del: mult_Suc)
  then show ?thesis unfolding size_of_def by (simp add: r(1) add.commute)
qed

lemma fl_round_exact:
  assumes "fits u" "counts m e u" "0 < u"
  shows "fl_units (fl_round s m e) = with_sign s u" "\<not> fl_nan (fl_round s m e)" "\<not> fl_inf (fl_round s m e)"
proof -
  obtain n j where n: "u = n * 2 ^ j" "n < 2 ^ 24" "j \<le> 253" using assms(1) by (auto simp: fits_def)
  define b t where "b = bit_length u" and "t = b - 24"
  have m0: "0 < m" using assms(2,3) by (auto simp: counts_def split: if_splits)
  have n0: "0 < n" using assms(3) n(1) by simp
  have "bit_length n \<le> 24" using n(2) by (simp add: bit_length_le)
  then have tj: "t \<le> j" using bit_length_shift [OF n0, of j] by (simp add: t_def b_def n(1))
  define q where "q = n * 2 ^ (j - t)"
  have u: "u = q * 2 ^ t" using tj by (simp add: n(1) q_def power_add [symmetric])
  have q0: "0 < q" using n0 by (simp add: q_def)
  have bq: "bit_length q + t = b" using bit_length_shift [OF q0, of t] by (simp add: b_def u)
  then have "bit_length q \<le> 24" unfolding t_def by arith
  then have q24: "q < 2 ^ 24" by (simp only: bit_length_le)
  have "t = 0 \<or> \<not> bit_length q \<le> 23" using bq unfolding t_def by arith
  then have q23: "t = 0 \<or> 2 ^ 23 \<le> q" by (simp only: bit_length_le not_less)
  have bm: "int (bit_length m) + e + 149 = int b"
  proof (cases "- 149 \<le> e")
    case True
    then have "b = bit_length m + nat (e + 149)" using assms(2) bit_length_shift [OF m0] by (simp add: b_def counts_def)
    with True show ?thesis by simp
  next
    case False
    then have "bit_length m = b + nat (- 149 - e)" using assms(2) bit_length_shift [OF assms(3)] by (simp add: b_def counts_def)
    with False show ?thesis by simp
  qed
  define eM where "eM = max (e + int (bit_length m) - 24) (- 149)"
  have e': "eM = int t - 149" using bm by (simp add: t_def eM_def max_def)
  have "(if eM \<le> e then m * 2 ^ nat (e - eM) else round_half_even m (nat (eM - e))) = q"
  proof (cases "eM \<le> e")
    case True
    then have "nat (e + 149) = nat (e - eM) + t" "- 149 \<le> e" using e' by simp_all
    with assms(2) have "q * 2 ^ t = m * 2 ^ nat (e - eM) * 2 ^ t" by (simp add: counts_def u [symmetric] power_add)
    with True show ?thesis by simp
  next
    case False
    have "m = q * 2 ^ nat (eM - e)"
    proof (cases "- 149 \<le> e")
      case True
      with False e' have "t = nat (eM - e) + nat (e + 149)" by simp
      then have "q * 2 ^ t = q * 2 ^ nat (eM - e) * 2 ^ nat (e + 149)" by (simp only: power_add mult.assoc)
      moreover have "q * 2 ^ t = m * 2 ^ nat (e + 149)" using True assms(2) by (simp add: counts_def u [symmetric])
      ultimately show ?thesis by simp
    next
      case n149: False
      then have "nat (eM - e) = t + nat (- 149 - e)" using e' by simp
      then show ?thesis using n149 assms(2) by (simp add: counts_def u power_add)
    qed
    then show ?thesis using False round_half_even_exact [of q "nat (eM - e)"] by simp
  qed
  moreover have "nat (eM + 149) = t" by (simp add: e')
  moreover have le: "t * 2 ^ 23 + q < 255 * 2 ^ 23"
  proof -
    have "t * 2 ^ 23 \<le> 253 * 2 ^ 23" using tj n(3) by (intro mult_le_mono1) simp
    then show ?thesis using q24 by simp
  qed
  ultimately have r: "fl_round s m e = signed_pattern s (t * 2 ^ 23 + q)"
    using m0 unfolding fl_round_def Let_def eM_def [symmetric] by (simp add: min_def)
  have "t * 2 ^ 23 + q < 2 ^ 31" using le by simp
  note f = signed_pattern_fields [OF this, of s]
  show "fl_units (fl_round s m e) = with_sign s u" "\<not> fl_nan (fl_round s m e)" "\<not> fl_inf (fl_round s m e)"
    unfolding r fl_units_of special_magnitude f using le size_of_place [OF q24 q23] by (simp_all add: units_of_def u)
qed

section \<open>Arithmetic\<close>

definition fl_finite :: "sqfloat \<Rightarrow> bool" where "fl_finite f \<longleftrightarrow> \<not> fl_nan f \<and> \<not> fl_inf f"

lemma fl_neg_fields: "fl_sign (fl_neg f) = (\<not> fl_sign f)" "magnitude (fl_neg f) = magnitude f"
proof -
  have c: "(0x80000000 :: sqfloat) = push_bit 31 1" by simp
  show s: "fl_sign (fl_neg f) = (\<not> fl_sign f)"
    unfolding fl_sign_def fl_neg_def c by (simp only: bit_xor_iff bit_push_bit_iff) simp
  have "take_bit 31 (fl_neg f) = take_bit 31 f"
    unfolding fl_neg_def c by (rule bit_word_eqI) (auto simp only: bit_take_bit_iff bit_xor_iff bit_push_bit_iff)
  then have "take_bit 31 (unat (fl_neg f)) = take_bit 31 (unat f)" by (simp only: unsigned_take_bit_eq [symmetric])
  then show "magnitude (fl_neg f) = magnitude f" by (simp add: magnitude_def take_bit_eq_mod)
qed

lemma fl_neg_units: "fl_units (fl_neg f) = - fl_units f" "fl_finite (fl_neg f) = fl_finite f"
  by (simp_all add: fl_units_of fl_neg_fields with_sign_def fl_finite_def special_magnitude)

text \<open>The mantissa and the power of a float that is finite.\<close>

lemma fl_pow_range: "- 149 \<le> fl_pow f"
  by (simp add: fl_pow_def)

lemma finite_units: "fl_finite f \<Longrightarrow> fl_units f = with_sign (fl_sign f) (fl_mant f * 2 ^ nat (fl_pow f + 149))"
  by (simp add: fl_units_def fl_finite_def)

lemma zero_units: "fl_units (signed_pattern s 0) = 0"
  by (simp add: fl_units_of signed_pattern_fields [of 0 s, simplified] units_of_0 with_sign_def)

lemma with_sign_scale: "with_sign s (m * 2 ^ k) = with_sign s m * 2 ^ k"
  by (simp add: with_sign_def)

lemma with_sign_abs: "with_sign (v < 0) (nat \<bar>v\<bar>) = v"
  by (simp add: with_sign_def)

lemma fl_round_exact_int:
  assumes "fits (nat \<bar>x\<bar>)" "x = v * 2 ^ nat (e + 149)" "- 149 \<le> e" "v \<noteq> 0"
  shows "fl_units (fl_round (v < 0) (nat \<bar>v\<bar>) e) = x"
proof -
  have a: "nat \<bar>x\<bar> = nat \<bar>v\<bar> * 2 ^ nat (e + 149)" by (simp add: assms(2) abs_mult nat_mult_distrib nat_power_eq)
  have "0 < nat \<bar>x\<bar>" using assms(4) by (simp add: a)
  moreover have "counts (nat \<bar>v\<bar>) e (nat \<bar>x\<bar>)" using assms(3) a by (simp add: counts_def)
  ultimately have "fl_units (fl_round (v < 0) (nat \<bar>v\<bar>) e) = with_sign (v < 0) (nat \<bar>x\<bar>)"
    using fl_round_exact(1) assms(1) by blast
  also have "\<dots> = x" unfolding a with_sign_scale with_sign_abs by (rule assms(2) [symmetric])
  finally show ?thesis .
qed

lemma fl_add_exact:
  assumes "fl_finite a" "fl_finite b" "fits (nat \<bar>fl_units a + fl_units b\<bar>)"
  shows "fl_units (fl_add a b) = fl_units a + fl_units b"
proof -
  define e where "e = min (fl_pow a) (fl_pow b)"
  define v where "v = with_sign (fl_sign a) (fl_mant a * 2 ^ nat (fl_pow a - e)) +
                 with_sign (fl_sign b) (fl_mant b * 2 ^ nat (fl_pow b - e))"
  have e: "- 149 \<le> e" "e \<le> fl_pow a" "e \<le> fl_pow b" using fl_pow_range [of a] fl_pow_range [of b] by (simp_all add: e_def)
  have p: "nat (fl_pow f + 149) = nat (fl_pow f - e) + nat (e + 149)" if "e \<le> fl_pow f" for f using that e(1) by simp
  have x: "fl_units a + fl_units b = v * 2 ^ nat (e + 149)"
    unfolding finite_units [OF assms(1)] finite_units [OF assms(2)] p [OF e(2)] p [OF e(3)] v_def
    by (simp add: with_sign_def power_add algebra_simps)
  have r: "fl_add a b = (if v = 0 then signed_pattern (fl_sign a \<and> fl_sign b) 0 else fl_round (v < 0) (nat \<bar>v\<bar>) e)"
    using assms(1,2) by (simp add: fl_add_def fl_finite_def Let_def e_def v_def)
  show ?thesis
  proof (cases "v = 0")
    case True
    then show ?thesis using r x zero_units by simp
  next
    case False
    then show ?thesis using r fl_round_exact_int [OF assms(3) x e(1)] by simp
  qed
qed

lemma fl_mul_exact:
  assumes "fl_finite a" "fl_finite b" "fits u" "\<bar>fl_units a * fl_units b\<bar> = int u * 2 ^ 149"
  shows "fl_units (fl_mul a b) * 2 ^ 149 = fl_units a * fl_units b"
proof -
  define m e s where "m = fl_mant a * fl_mant b" and "e = fl_pow a + fl_pow b" and "s = (fl_sign a \<noteq> fl_sign b)"
  have r: "fl_mul a b = fl_round s m e" using assms(1,2) by (simp add: fl_mul_def fl_finite_def m_def e_def s_def)
  have e: "- 298 \<le> e" using fl_pow_range [of a] fl_pow_range [of b] by (simp add: e_def)
  have n: "nat (fl_pow a + 149) + nat (fl_pow b + 149) = nat (e + 298)"
    using fl_pow_range [of a] fl_pow_range [of b] by (simp add: e_def)
  have x: "fl_units a * fl_units b = with_sign s (m * 2 ^ nat (e + 298))"
    unfolding finite_units [OF assms(1)] finite_units [OF assms(2)] n [symmetric]
    by (simp add: with_sign_def m_def s_def power_add)
  have "\<bar>with_sign s k\<bar> = int k" for k by (simp add: with_sign_def)
  then have "int u * 2 ^ 149 = int (m * 2 ^ nat (e + 298))" using assms(4) x by simp
  then have "int (u * 2 ^ 149) = int (m * 2 ^ nat (e + 298))" by simp
  then have u: "u * 2 ^ 149 = m * 2 ^ nat (e + 298)" by (simp only: of_nat_eq_iff)
  show ?thesis
  proof (cases "u = 0")
    case True
    then show ?thesis using u r x zero_units by (simp add: fl_round_def with_sign_def)
  next
    case False
    have "counts m e u"
    proof (cases "- 149 \<le> e")
      case True
      then have "nat (e + 298) = nat (e + 149) + 149" by simp
      then have "u * 2 ^ 149 = m * 2 ^ nat (e + 149) * 2 ^ 149" using u by (simp only: power_add mult.assoc)
      with True show ?thesis by (simp add: counts_def)
    next
      case False
      then have "149 = nat (- 149 - e) + nat (e + 298)" using e by simp
      then have "u * 2 ^ nat (- 149 - e) * 2 ^ nat (e + 298) = m * 2 ^ nat (e + 298)" using u by (metis mult.assoc power_add)
      with False show ?thesis by (simp add: counts_def)
    qed
    then have "fl_units (fl_mul a b) = with_sign s u" using fl_round_exact(1) [OF assms(3)] False r by simp
    then show ?thesis unfolding x u [symmetric] by (simp add: with_sign_def)
  qed
qed

lemma fl_of_int_exact:
  assumes "fits (nat \<bar>sint i\<bar> * 2 ^ 149)" shows "fl_units (fl_of_int i) = sint i * 2 ^ 149"
proof (cases "i = 0")
  case True
  then show ?thesis using zero_units [of False] by (simp add: fl_of_int_def fl_round_def)
next
  case False
  then have "sint i \<noteq> 0" by (simp add: signed_eq_0_iff)
  moreover have "nat \<bar>sint i * 2 ^ 149\<bar> = nat \<bar>sint i\<bar> * 2 ^ 149" by (simp add: abs_mult nat_mult_distrib)
  ultimately show ?thesis using fl_round_exact_int [of "sint i * 2 ^ 149" "sint i" 0] assms by (simp add: fl_of_int_def)
qed

text \<open>
  C31. Floats are computed exactly when the result is a float.  The sum, the difference and the
  product of two finite floats have the exact value whenever that value has at most 24
  significant bits and is in the range of the type, and so has the conversion of an integer.
\<close>

theorem float_results_exact:
  assumes "fl_finite a" "fl_finite b"
  shows "(fits (nat \<bar>fl_units a + fl_units b\<bar>) \<longrightarrow> fl_units (float_arith CHR ''+'' a b) = fl_units a + fl_units b) \<and>
    (fits (nat \<bar>fl_units a - fl_units b\<bar>) \<longrightarrow> fl_units (float_arith CHR ''-'' a b) = fl_units a - fl_units b) \<and>
    (\<forall>u. fits u \<and> \<bar>fl_units a * fl_units b\<bar> = int u * 2 ^ 149 \<longrightarrow>
       fl_units (float_arith CHR ''*'' a b) * 2 ^ 149 = fl_units a * fl_units b) \<and>
    (\<forall>i. fits (nat \<bar>sint i\<bar> * 2 ^ 149) \<longrightarrow> fl_units (tofloat (OInteger i)) = sint i * 2 ^ 149)"
  using fl_add_exact [OF assms] fl_add_exact [of a "fl_neg b"] fl_mul_exact [OF assms] fl_of_int_exact assms
  by (auto simp: float_arith_def fl_sub_def fl_neg_units tofloat_def)

theorem float_results_exact_witness:
  "fl_units (float_arith CHR ''+'' 0x3F800000 0x40000000) = 3 * 2 ^ 149"
proof -
  have m: "magnitude 0x3F800000 = 127 * 2 ^ 23" "magnitude 0x40000000 = 128 * 2 ^ 23" "\<not> fl_sign 0x3F800000" "\<not> fl_sign 0x40000000"
    by (simp_all add: magnitude_def fl_sign_unat)
  have u: "fl_units 0x3F800000 = 2 ^ 149" "fl_units 0x40000000 = 2 ^ 150"
    by (simp_all add: fl_units_of m with_sign_def units_of_def size_of_def)
  have f: "fl_finite 0x3F800000" "fl_finite 0x40000000" by (simp_all add: fl_finite_def special_magnitude m)
  have "fits (3 * 2 ^ 149)" unfolding fits_def by (rule exI [of _ 3], rule exI [of _ 149]) simp
  with float_results_exact [OF f] show ?thesis by (simp add: u)
qed

section \<open>Integers\<close>

text \<open>The value of a sum, a difference or a product, modulo two to the 64.\<close>

definition wrap64 :: "int \<Rightarrow> int" where "wrap64 x = signed_take_bit 63 x"

lemma sint_wrap: "sint (word_of_int x :: sqint) = wrap64 x"
  by (simp add: wrap64_def sint_sbintrunc')

lemma sint_ops:
  fixes i j :: sqint
  shows "sint (i + j) = wrap64 (sint i + sint j)" "sint (i - j) = wrap64 (sint i - sint j)" "sint (i * j) = wrap64 (sint i * sint j)"
proof -
  have "i + j = word_of_int (sint i + sint j)" "i - j = word_of_int (sint i - sint j)" "i * j = word_of_int (sint i * sint j)"
    by simp_all
  then show "sint (i + j) = wrap64 (sint i + sint j)" "sint (i - j) = wrap64 (sint i - sint j)" "sint (i * j) = wrap64 (sint i * sint j)"
    by (simp_all only: sint_wrap)
qed

lemma wrap64_small: "- (2 ^ 63) \<le> x \<Longrightarrow> x < 2 ^ 63 \<Longrightarrow> wrap64 x = x"
  by (simp add: wrap64_def signed_take_bit_int_eq_self)

lemma sint_bounds: fixes i :: sqint shows "- (2 ^ 63) \<le> sint i" "sint i < 2 ^ 63"
  using sint_greater_eq [of i] sint_less [of i] by simp_all

lemma sdiv_fits:
  fixes i j :: sqint
  assumes "j \<noteq> 0" "\<not> (i = - (2 ^ 63) \<and> j = - 1)"
  shows "sint (word_of_int (sint i sdiv sint j) :: sqint) = sint i sdiv sint j"
    "sint (word_of_int (sint i smod sint j) :: sqint) = sint i smod sint j"
proof -
  have j0: "sint j \<noteq> 0" using assms(1) by (simp add: signed_eq_0_iff)
  have r: "- \<bar>sint i\<bar> \<le> sint i sdiv sint j" "sint i sdiv sint j \<le> \<bar>sint i\<bar>" using sdiv_int_range [of "sint i" "sint j"] by simp_all
  have "sint i sdiv sint j < 2 ^ 63"
  proof (rule ccontr)
    assume "\<not> sint i sdiv sint j < 2 ^ 63"
    with r sint_bounds [of i] have e: "sint i = - (2 ^ 63)" "sint i sdiv sint j = - sint i" by linarith+
    from e(1) have "sint j = - 1" using int_sdiv_negated_is_minus1 [of "sint i" "sint j"] e(2) by simp
    moreover have "i = - (2 ^ 63)" using e(1) by (intro signed_word_eqI) simp
    moreover have "j = - 1" using calculation(1) by (intro signed_word_eqI) simp
    ultimately show False using assms(2) by simp
  qed
  moreover have "- (2 ^ 63) \<le> sint i sdiv sint j" using r sint_bounds [of i] by linarith
  ultimately show "sint (word_of_int (sint i sdiv sint j) :: sqint) = sint i sdiv sint j" by (simp only: sint_wrap wrap64_small)
  have "- \<bar>sint j\<bar> + 1 \<le> sint i smod sint j" "sint i smod sint j \<le> \<bar>sint j\<bar> - 1" using smod_int_range [OF j0, of "sint i"] by simp_all
  then have "- (2 ^ 63) \<le> sint i smod sint j" "sint i smod sint j < 2 ^ 63" using sint_bounds [of j] by linarith+
  then show "sint (word_of_int (sint i smod sint j) :: sqint) = sint i smod sint j" by (simp only: sint_wrap wrap64_small)
qed

text \<open>
  C32. Integers are computed modulo two to the 64 and divided towards zero.  Sums, differences
  and products wrap.  A division by zero is the error; any other one, but for the least integer
  by -1, gives the quotient and the rest of the same operands: the quotient times the divisor
  plus the rest is the dividend, and the rest is smaller than the divisor and has the sign of
  the dividend.
\<close>

theorem integer_arithmetic:
  "(\<exists>s d p. ARITH_OP mc CHR ''+'' (OInteger i) (OInteger j) w = Done (Some (OInteger s), w) \<and> sint s = wrap64 (sint i + sint j) \<and>
      ARITH_OP mc CHR ''-'' (OInteger i) (OInteger j) w = Done (Some (OInteger d), w) \<and> sint d = wrap64 (sint i - sint j) \<and>
      ARITH_OP mc CHR ''*'' (OInteger i) (OInteger j) w = Done (Some (OInteger p), w) \<and> sint p = wrap64 (sint i * sint j)) \<and>
   (j = 0 \<longrightarrow> ARITH_OP mc CHR ''/'' (OInteger i) (OInteger j) w = Done (None, w_error ''division by zero'' w) \<and>
      ARITH_OP mc CHR ''%'' (OInteger i) (OInteger j) w = Done (None, w_error ''modulo by zero'' w)) \<and>
   (j \<noteq> 0 \<and> \<not> (i = - (2 ^ 63) \<and> j = - 1) \<longrightarrow>
      (\<exists>q r. ARITH_OP mc CHR ''/'' (OInteger i) (OInteger j) w = Done (Some (OInteger q), w) \<and>
         ARITH_OP mc CHR ''%'' (OInteger i) (OInteger j) w = Done (Some (OInteger r), w) \<and>
         sint q * sint j + sint r = sint i \<and> \<bar>sint r\<bar> < \<bar>sint j\<bar> \<and> (r = 0 \<or> sgn (sint r) = sgn (sint i))))"
proof (intro conjI impI)
  assume a: "j \<noteq> 0 \<and> \<not> (i = - (2 ^ 63) \<and> j = - 1)"
  let ?q = "word_of_int (sint i sdiv sint j) :: sqint" and ?r = "word_of_int (sint i smod sint j) :: sqint"
  have s: "sint ?q = sint i sdiv sint j" "sint ?r = sint i smod sint j" using sdiv_fits a by blast+
  have j0: "sint j \<noteq> 0" using a by (simp add: signed_eq_0_iff)
  have "\<bar>sint ?r\<bar> < \<bar>sint j\<bar>" using smod_int_range [OF j0, of "sint i"] unfolding s by auto
  moreover have "?r = 0 \<or> sgn (sint ?r) = sgn (sint i)"
  proof (cases "sint i smod sint j = 0")
    case False
    then have "0 < \<bar>sint i\<bar> mod \<bar>sint j\<bar>" using j0
      by (metis smod_int_alt_def mult_zero_right order_le_less pos_mod_sign zero_less_abs_iff)
    then have "sgn (sint i smod sint j) = sgn (sint i)" unfolding smod_int_alt_def by (simp add: sgn_mult)
    then have "sgn (sint ?r) = sgn (sint i)" unfolding s .
    then show ?thesis ..
  qed simp
  moreover have "sint ?q * sint j + sint ?r = sint i" unfolding s by (simp only: sdiv_mult_smod_eq)
  ultimately show "\<exists>q r. ARITH_OP mc CHR ''/'' (OInteger i) (OInteger j) w = Done (Some (OInteger q), w) \<and>
         ARITH_OP mc CHR ''%'' (OInteger i) (OInteger j) w = Done (Some (OInteger r), w) \<and>
         sint q * sint j + sint r = sint i \<and> \<bar>sint r\<bar> < \<bar>sint j\<bar> \<and> (r = 0 \<or> sgn (sint r) = sgn (sint i))"
    using a by (intro exI [of _ ?q] exI [of _ ?r]) (auto simp: ARITH_OP_def int_arith_def)
qed (auto simp: ARITH_OP_def int_arith_def sint_ops)

theorem integer_arithmetic_witness:
  "\<exists>(q :: sqint) (r :: sqint). sint q * sint (3 :: sqint) + sint r = sint (- 7 :: sqint) \<and> \<bar>sint r\<bar> < \<bar>sint (3 :: sqint)\<bar>"
proof -
  have "(3 :: sqint) \<noteq> 0 \<and> \<not> ((- 7 :: sqint) = - (2 ^ 63) \<and> (3 :: sqint) = - 1)" by simp
  from mp [OF conjunct2 [OF conjunct2 [OF integer_arithmetic [of sample_machine "- 7" 3 sample_world]]] this] show ?thesis
    by (elim exE conjE) (intro exI conjI, assumption+)
qed

text \<open>The modulo instruction goes on after an error of its operator.\<close>

theorem modulo_by_zero_goes_on:
  "arith_instruction mc CHR ''%'' (OInteger i) (OInteger 0) w = Done (False, None, w_error ''modulo by zero'' w) \<and>
   arith_instruction mc CHR ''/'' (OInteger i) (OInteger 0) w = Done (True, None, w_error ''division by zero'' w)"
  by (simp add: arith_instruction_def ARITH_OP_def int_arith_def)

end
