(* ===== verification/OrderProps.thy ===== *)
theory OrderProps
  imports ValueProps "HOL-Library.List_Lexorder" "HOL-Library.Product_Lexorder"
begin

text \<open>
  The comparison of values: a linear order of the values of one type, and of null below them,
  which agrees with equality; and what is outside of it.
\<close>

section \<open>Comparison\<close>

text \<open>The type of a value as the machine compares types.\<close>

fun tag :: "sqobj \<Rightarrow> nat \<times> refkind" where
  "tag ONull = (0, KTable)"
| "tag (OInteger i) = (1, KTable)"
| "tag (OFloat f) = (2, KTable)"
| "tag (OBool b) = (3, KTable)"
| "tag (OString s) = (4, KTable)"
| "tag (OUserPointer p) = (5, KTable)"
| "tag (ORef k a) = (6, k)"

lemma ot_kind_inj: "ot_kind k = ot_kind l \<longleftrightarrow> k = l"
  by (cases k; cases l) (simp_all add: type_code_simps)

lemma ot_kind_other:
  "ot_kind k \<noteq> 0x1 OR SQOBJECT_CANBEFALSE" "ot_kind k \<noteq> 0x2 OR SQOBJECT_NUMERIC OR SQOBJECT_CANBEFALSE"
  "ot_kind k \<noteq> 0x4 OR SQOBJECT_NUMERIC OR SQOBJECT_CANBEFALSE" "ot_kind k \<noteq> 0x8 OR SQOBJECT_CANBEFALSE"
  "ot_kind k \<noteq> 0x10 OR SQOBJECT_REF_COUNTED" "ot_kind k \<noteq> 0x800"
  by (cases k; simp add: type_code_simps)+

lemma sqobjtype_tag: "sqobjtype a = sqobjtype b \<longleftrightarrow> tag a = tag b"
proof (cases a)
  case (ORef k x)
  then show ?thesis using ot_kind_other [of k] by (cases b) (auto simp: ot_kind_inj)
next
qed (cases b; use ot_kind_other in \<open>simp add: type_code_simps; metis\<close>)+

section \<open>The order\<close>

text \<open>
  The place of a value in the order: null first, then the number or the address, then the
  characters.
\<close>

definition place :: "sqobj \<Rightarrow> bool \<times> int \<times> nat list" where
  "place ob =
     (case ob of
        ONull \<Rightarrow> (False, 0, [])
      | OInteger i \<Rightarrow> (True, sint i, [])
      | OFloat f \<Rightarrow> (True, fl_units f, [])
      | OString s \<Rightarrow> (True, 0, map of_char s)
      | _ \<Rightarrow> (True, uint (as_pointer ob), []))"

text \<open>
  Values in the order: no float that is not a number and no negative zero, no string with a
  zero in it, no object with a metamethod of its own.
\<close>

definition ordered :: "world \<Rightarrow> sqobj \<Rightarrow> bool" where
  "ordered w ob \<longleftrightarrow>
     (case ob of
        OFloat f \<Rightarrow> \<not> fl_nan f \<and> f \<noteq> 0x80000000
      | OString s \<Rightarrow> CHR 0x00 \<notin> set s
      | _ \<Rightarrow> has_delegate ob w \<longrightarrow> GetMetaMethod ob MT_CMP w = Done None)"

definition comparable :: "sqobj \<Rightarrow> sqobj \<Rightarrow> bool" where
  "comparable a b \<longleftrightarrow> sqobjtype a = sqobjtype b \<or> a = ONull \<or> b = ONull"

definition order_of :: "'a :: linorder \<Rightarrow> 'a \<Rightarrow> int" where
  "order_of x y = (if x < y then - 1 else if x = y then 0 else 1)"

lemma order_of_laws:
  "order_of x y = - order_of y x" "order_of x y = 0 \<longleftrightarrow> x = y" "order_of x y \<le> 0 \<longleftrightarrow> x \<le> y"
  by (auto simp: order_of_def)

lemma order_of_pair: "order_of (True, i, l) (True, j, m) = (if i = j then order_of l m else order_of i j)"
  by (auto simp: order_of_def)

lemma char_cmp_order: "char_cmp s t = order_of (map of_char s :: nat list) (map of_char t)"
  by (induction s t rule: char_cmp.induct) (auto simp: order_of_def)

lemma cstr_clean: "CHR 0x00 \<notin> set s \<Longrightarrow> cstr s = s"
  by (induction s) (auto simp: cstr_def)

lemma comparable_tag: "comparable a b \<longleftrightarrow> tag a = tag b \<or> a = ONull \<or> b = ONull"
  by (simp only: comparable_def sqobjtype_tag)

lemma ordered_cases [simp]:
  "ordered w (OFloat f) \<longleftrightarrow> \<not> fl_nan f \<and> f \<noteq> 0x80000000"
  "ordered w (OString s) \<longleftrightarrow> CHR 0x00 \<notin> set s"
  "ordered w (ORef k a) \<longleftrightarrow> (has_delegate (ORef k a) w \<longrightarrow> GetMetaMethod (ORef k a) MT_CMP w = Done None)"
  by (simp_all add: ordered_def)

lemma no_delegate [simp]:
  "\<not> has_delegate (OBool b) w" "\<not> has_delegate (OUserPointer p) w"
  by (simp_all add: has_delegate_def)

lemma place_simps [simp]:
  "place ONull = (False, 0, [])" "place (OInteger i) = (True, sint i, [])" "place (OFloat f) = (True, fl_units f, [])"
  "place (OString s) = (True, 0, map of_char s)" "place (OBool b) = (True, of_bool b, [])"
  "place (OUserPointer p) = (True, uint p, [])" "place (ORef k p) = (True, uint p, [])"
  by (simp_all add: place_def as_pointer_def)

lemma of_char_inj: "map of_char s = (map of_char t :: nat list) \<longleftrightarrow> s = t"
  by (rule inj_map_eq_map) (rule injI, simp)

lemma place_inj:
  assumes "comparable a b" "ordered w a" "ordered w b" "place a = place b" shows "a = b"
  using assms unfolding comparable_tag
  by (cases a; cases b) (simp_all add: of_char_inj signed_word_eqI word_uint_eqI fl_units_inj of_bool_eq_iff)

text \<open>The comparison of values of one type that are not the same.\<close>

lemma ObjCmp_other:
  assumes "a \<noteq> b" "tag a = tag b" "case a of ORef _ _ \<Rightarrow> True | OBool _ \<Rightarrow> True | OUserPointer _ \<Rightarrow> True | _ \<Rightarrow> False"
    "has_delegate a w \<longrightarrow> GetMetaMethod a MT_CMP w = Done None"
  shows "ObjCmp mc a b w = Done (Some (if as_pointer a < as_pointer b then - 1 else 1), w)"
proof -
  have "sqobjtype a = sqobjtype b" using assms(2) by (simp only: sqobjtype_tag)
  then show ?thesis unfolding ObjCmp_def if_P [OF \<open>sqobjtype a = sqobjtype b\<close>] if_not_P [OF assms(1)]
    using assms(2-4) by (cases a; cases b; simp)
qed

lemma ObjCmp_null:
  assumes "b \<noteq> ONull"
  shows "ObjCmp mc ONull b w = Done (Some (- 1), w)" "ObjCmp mc b ONull w = Done (Some 1, w)"
proof -
  have t: "sqobjtype ONull \<noteq> sqobjtype b" "sqobjtype b \<noteq> sqobjtype ONull" using assms unfolding sqobjtype_tag by (cases b; simp)+
  show "ObjCmp mc ONull b w = Done (Some (- 1), w)" unfolding ObjCmp_def if_not_P [OF t(1)] by (simp add: sq_isnumeric_def)
  show "ObjCmp mc b ONull w = Done (Some 1, w)" unfolding ObjCmp_def if_not_P [OF t(2)] using assms by (simp add: sq_isnumeric_def)
qed

lemma ObjCmp_ordered:
  assumes "comparable a b" "ordered w a" "ordered w b"
  shows "ObjCmp mc a b w = Done (Some (order_of (place a) (place b)), w)"
proof (cases "a = b")
  case True
  then show ?thesis by (simp add: ObjCmp_def order_of_laws(2))
next
  case False
  then have p: "place a \<noteq> place b" using place_inj assms by blast
  show ?thesis
  proof (cases "a = ONull \<or> b = ONull")
    case True
    then show ?thesis
    proof
      assume a: "a = ONull"
      then have "b \<noteq> ONull" using False by simp
      moreover have "order_of (place a) (place b) = - 1" using a \<open>b \<noteq> ONull\<close> by (cases b) (simp_all add: order_of_def)
      ultimately show ?thesis using a ObjCmp_null(1) by simp
    next
      assume b: "b = ONull"
      then have "a \<noteq> ONull" using False by simp
      moreover have "order_of (place a) (place b) = 1" using b \<open>a \<noteq> ONull\<close> by (cases a) (simp_all add: order_of_def)
      ultimately show ?thesis using b ObjCmp_null(2) by simp
    qed
  next
    case n: False
    then have t: "tag a = tag b" "sqobjtype a = sqobjtype b" using assms(1) by (auto simp: comparable_tag sqobjtype_tag)
    have o: "ObjCmp mc a b w = Done (Some (if as_pointer a < as_pointer b then - 1 else 1), w)"
      if "case a of ORef _ _ \<Rightarrow> True | OBool _ \<Rightarrow> True | OUserPointer _ \<Rightarrow> True | _ \<Rightarrow> False"
    proof (rule ObjCmp_other [OF False t(1) that])
      show "has_delegate a w \<longrightarrow> GetMetaMethod a MT_CMP w = Done None" using assms(2) that by (cases a) simp_all
    qed
    show ?thesis
    proof (cases a)
      case (OString s)
      then obtain u where "b = OString u" using t(1) by (cases b) simp_all
      with OString assms(2,3) False show ?thesis
        by (simp add: ObjCmp_def scstrcmp_def cstr_clean char_cmp_order order_of_pair)
    next
      case (OInteger i)
      then obtain j where "b = OInteger j" using t(1) by (cases b) simp_all
      with OInteger p False show ?thesis by (simp add: ObjCmp_def order_of_def)
    next
      case (OFloat f)
      then obtain g where "b = OFloat g" using t(1) by (cases b) simp_all
      with OFloat p False assms(2,3) show ?thesis by (simp add: ObjCmp_def order_of_def fl_lt_def)
    next
      case (OBool x)
      then obtain y where "b = OBool y" using t(1) by (cases b) simp_all
      with OBool o False show ?thesis by (cases x; cases y) (simp_all add: order_of_def as_pointer_def)
    next
      case (OUserPointer x)
      then obtain y where "b = OUserPointer y" using t(1) by (cases b) simp_all
      with OUserPointer o p show ?thesis by (simp add: order_of_def as_pointer_def word_less_def)
    next
      case (ORef k x)
      then obtain y where "b = ORef k y" using t(1) by (cases b) simp_all
      with ORef o p show ?thesis by (simp add: order_of_def as_pointer_def word_less_def)
    qed (use n in simp)
  qed
qed

text \<open>
  C33. Comparison orders the values of a type.  Between values of one type and null, without
  metamethods of their own, floats that are not numbers, negative zeros and zeros inside of
  strings, comparing never fails and changes nothing; turning the operands round turns the
  result round; the result is zero exactly when the values are the same, which is when they
  are equal to the equality operator; and the order is transitive.
\<close>

theorem comparison_orders_values:
  assumes "ordered w a" "ordered w b" "ordered w c" "comparable a b" "comparable b c" "comparable a c"
  shows "\<exists>x y z. ObjCmp mc a b w = Done (Some x, w) \<and> ObjCmp mc b a w = Done (Some (- x), w) \<and>
    ObjCmp mc b c w = Done (Some y, w) \<and> ObjCmp mc a c w = Done (Some z, w) \<and>
    (x \<le> 0 \<and> y \<le> 0 \<longrightarrow> z \<le> 0) \<and> IsEqual mc False a b w = Done (Some (x = 0), w)"
proof -
  have s: "comparable b a" using assms(4) by (auto simp: comparable_def)
  let ?o = "\<lambda>a b. order_of (place a) (place b)"
  have "?o a b \<le> 0 \<and> ?o b c \<le> 0 \<longrightarrow> ?o a c \<le> 0" unfolding order_of_laws(3) by (blast intro: order_trans)
  moreover have "IsEqual mc False a b w = Done (Some (?o a b = 0), w)"
  proof -
    have "a = b \<longleftrightarrow> place a = place b" using place_inj [OF assms(4,1,2)] by blast
    moreover have "IsEqual mc False a b w = Done (Some (a = b), w)" if "sqobjtype a = sqobjtype b"
      using that by (simp add: IsEqual_def)
    moreover have "IsEqual mc False a b w = Done (Some (a = b), w)" if "sqobjtype a \<noteq> sqobjtype b"
      using that assms(4) by (auto simp: IsEqual_def comparable_def sq_isnumeric_def)
    ultimately show ?thesis unfolding order_of_laws(2) by metis
  qed
  moreover have "ObjCmp mc b a w = Done (Some (- ?o a b), w)"
    using ObjCmp_ordered [OF s assms(2,1)] order_of_laws(1) [of "place b" "place a"] by simp
  ultimately show ?thesis
    using ObjCmp_ordered [OF assms(4,1,2)] ObjCmp_ordered [OF assms(5,2,3)] ObjCmp_ordered [OF assms(6,1,3)] by blast
qed

theorem comparison_orders_values_witness:
  "\<exists>x y z. ObjCmp sample_machine ONull (OInteger 3) sample_world = Done (Some x, sample_world) \<and>
    ObjCmp sample_machine (OInteger 3) ONull sample_world = Done (Some (- x), sample_world) \<and>
    ObjCmp sample_machine (OInteger 3) (OInteger 4) sample_world = Done (Some y, sample_world) \<and>
    ObjCmp sample_machine ONull (OInteger 4) sample_world = Done (Some z, sample_world) \<and> (x \<le> 0 \<and> y \<le> 0 \<longrightarrow> z \<le> 0) \<and>
    IsEqual sample_machine False ONull (OInteger 3) sample_world = Done (Some (x = 0), sample_world)"
  by (rule comparison_orders_values) (simp_all add: ordered_def comparable_def has_delegate_def)

text \<open>
  Outside of the order.  An integer is compared with a float after it is made a float itself,
  so that two integers can equal the same float; zero and negative zero are each greater than
  the other, though they are equal numbers, and so are strings that differ after a zero.
\<close>

theorem mixed_comparison_not_transitive:
  "ObjCmp mc (OInteger 16777216) (OFloat 0x4B800000) w = Done (Some 0, w) \<and>
   ObjCmp mc (OFloat 0x4B800000) (OInteger 16777217) w = Done (Some 0, w) \<and>
   ObjCmp mc (OInteger 16777216) (OInteger 16777217) w = Done (Some (- 1), w)"
proof -
  have u: "unat (0x4B800000 :: sqfloat) = 0x4B800000" by simp
  have m: "magnitude 0x4B800000 = 0x4B800000" "\<not> fl_sign 0x4B800000" by (simp_all add: magnitude_def fl_sign_unat)
  have b: "bit_length 16777216 = 25" "bit_length 16777217 = 25" by (simp_all add: bit_length.simps)
  have f: "fl_of_int 16777216 = 0x4B800000" "fl_of_int 16777217 = 0x4B800000"
    by (simp_all add: fl_of_int_def fl_round_def Let_def b round_half_even_def signed_pattern_def)
  have n: "\<not> fl_nan 0x4B800000" by (simp add: special_magnitude m)
  have t: "sqobjtype (OInteger i) \<noteq> sqobjtype (OFloat x)" "sqobjtype (OFloat x) \<noteq> sqobjtype (OInteger i)" for i x
    unfolding sqobjtype_tag by simp_all
  have "ObjCmp mc (OInteger 16777216) (OInteger 16777217) w = Done (Some (- 1), w)" by (simp add: ObjCmp_def)
  then show ?thesis by (simp add: ObjCmp_def t sq_isnumeric_def tofloat_def f fl_eq_def n del: sqobjtype.simps)
qed

theorem zeros_are_greater_than_each_other:
  "ObjCmp mc (OFloat 0) (OFloat 0x80000000) w = Done (Some 1, w) \<and> ObjCmp mc (OFloat 0x80000000) (OFloat 0) w = Done (Some 1, w)"
proof -
  have "magnitude 0 = 0" "magnitude 0x80000000 = 0" by (simp_all add: magnitude_def)
  then show ?thesis by (simp add: ObjCmp_def fl_lt_def fl_units_of units_of_0 with_sign_def)
qed

theorem equality_metamethod_turned_round:
  assumes "GetMetaMethod (ORef KTable a) MT_EQ w = Done (Some closure)" "has_delegate (ORef KTable a) w" "a \<noteq> b"
    "CallMetaMethod mc closure [ORef KTable a, ORef KTable b] w = (Some (OBool r), w1)"
  shows "IsEqual mc True (ORef KTable a) (ORef KTable b) w = Done (Some (\<not> r), w1)"
  using assms by (simp add: IsEqual_def)

end
