(* ===== verification/Iteration.thy ===== *)
theory Iteration
  imports Access Calls
begin

text \<open>
  Iteration, \<open>SQVM::FOREACH_OP\<close> of \<^verbatim>\<open>squirrel/sqvm.cpp\<close> and \<open>SQString::Next\<close> of
  \<^verbatim>\<open>squirrel/sqobject.cpp\<close>.
\<close>

definition char_value :: "char \<Rightarrow> sqint" where
  "char_value c = scast (of_char c :: 8 word)"

text \<open>The next character; the position may be negative, and then what is before the string is read.\<close>

definition String_Next :: "string \<Rightarrow> sqobj \<Rightarrow> (sqint \<times> sqobj \<times> sqobj) option outcome" where
  "String_Next s refpos =
     (let idx = TranslateIndex refpos in
      if sint idx < int (length s)
      then (if 0 \<le> sint idx
            then Done (Some (idx + 1, OInteger idx, OInteger (char_value (s ! nat (sint idx))))) else Undef)
      else Done None)"

text \<open>
  What one round of a loop does: it goes on with a key, a value and the next position; it ends,
  and may set the key and the position; it starts a generator that will give the value; or it
  throws, and may have set the key and the position.  The state of a generator, of theory \<open>Frames\<close>, is an argument.
\<close>

datatype foreach_step = Next sqobj sqobj sqobj | Exit "sqobj option" | ResumeGenerator addr sqobj | Throw "sqobj option"

definition next_nat :: "(nat \<times> sqobj \<times> sqobj) option \<Rightarrow> foreach_step" where
  "next_nat r = (case r of None \<Rightarrow> Exit None | Some (i, key, val) \<Rightarrow> Next key val (OInteger (of_nat i)))"

definition next_delegated :: "machine \<Rightarrow> nat \<Rightarrow> sqobj \<Rightarrow> sqobj \<Rightarrow> world \<Rightarrow> (foreach_step \<times> world) outcome" where
  "next_delegated mc fuel self pos w =
     (if \<not> has_delegate self w then Done (Throw None, w)
      else
        obind (GetMetaMethod self MT_NEXTI w) (\<lambda>mm.
          case mm of
            None \<Rightarrow> Done (Throw None, w_error ''_nexti failed'' w)
          | Some closure \<Rightarrow>
              (let (r, w1) = CallMetaMethod mc closure [self, pos] w in
               case r of
                 None \<Rightarrow> Done (Throw None, w1)
               | Some itr \<Rightarrow>
                   if itr = ONull then Done (Exit (Some ONull), w1)
                   else
                     obind (Get mc fuel self itr False DONT_FALL_BACK w1) (\<lambda>(v, w2).
                       case v of
                         None \<Rightarrow> Done (Throw (Some itr), w_error ''_nexti returned an invalid idx'' w2)
                       | Some v \<Rightarrow> Done (Next itr v itr, w2)))))"

text \<open>
  A userdata without a delegate fails without an error of its own.  A generator that is running
  cannot be iterated.
\<close>

definition FOREACH_OP ::
    "machine \<Rightarrow> nat \<Rightarrow> (addr \<Rightarrow> genstate) \<Rightarrow> sqobj \<Rightarrow> sqobj \<Rightarrow> world \<Rightarrow> (foreach_step \<times> world) outcome" where
  "FOREACH_OP mc fuel gst self pos w =
     (let cannot = Done (Throw None, w_error (''cannot iterate '' @ type_name self) w) in
      case self of
        ORef KTable a \<Rightarrow>
          obind (of_option (w_tables w a)) (\<lambda>t.
            if sint (TranslateIndex pos) < 0 then Undef
            else Done (next_nat (Table_Next (w_weak w) t False pos), w))
      | ORef KArray a \<Rightarrow>
          obind (of_option (w_arrays w a)) (\<lambda>arr.
          obind (of_option (Array_Next (w_weak w) arr pos)) (\<lambda>r. Done (next_nat r, w)))
      | OString s \<Rightarrow>
          obind (String_Next s pos) (\<lambda>r.
            Done (case r of None \<Rightarrow> Exit None | Some (i, key, val) \<Rightarrow> Next key val (OInteger i), w))
      | ORef KClass a \<Rightarrow>
          obind (of_option (oh_classes (w_objs w) a)) (\<lambda>c.
            if sint (TranslateIndex pos) < 0 then Undef
            else obind (Class_Next (w_weak w) pos c) (\<lambda>r. Done (next_nat r, w)))
      | ORef KUserData a \<Rightarrow> next_delegated mc fuel self pos w
      | ORef KInstance a \<Rightarrow> next_delegated mc fuel self pos w
      | ORef KGenerator a \<Rightarrow>
          (case gst a of
             eDead \<Rightarrow> Done (Exit None, w)
           | eSuspended \<Rightarrow>
               Done (ResumeGenerator a (OInteger (case pos of OInteger i \<Rightarrow> i + 1 | _ \<Rightarrow> 0)), w)
           | eRunning \<Rightarrow> cannot)
      | _ \<Rightarrow> cannot)"

section \<open>Loops\<close>

text \<open>All rounds of a loop over a value that the rounds leave as it is: the keys and the values.\<close>

fun foreach :: "machine \<Rightarrow> nat \<Rightarrow> (addr \<Rightarrow> genstate) \<Rightarrow> nat \<Rightarrow> sqobj \<Rightarrow> sqobj \<Rightarrow> world \<Rightarrow> (sqobj \<times> sqobj) list outcome" where
  "foreach mc fuel gst 0 self pos w = Undef"
| "foreach mc fuel gst (Suc n) self pos w =
     obind (FOREACH_OP mc fuel gst self pos w) (\<lambda>(r, w1).
       case r of
         Next key val pos' \<Rightarrow> obind (foreach mc fuel gst n self pos' w1) (\<lambda>rest. Done ((key, val) # rest))
       | Exit _ \<Rightarrow> Done []
       | _ \<Rightarrow> Undef)"

text \<open>Rounds that give the pairs of positions from \<open>i\<close> on.\<close>

lemma foreach_from:
  assumes step: "\<And>j. i \<le> j \<Longrightarrow> j < n \<Longrightarrow> FOREACH_OP mc fuel gst self (OInteger (of_nat j)) w = Done (Next (fst (f j)) (snd (f j)) (OInteger (of_nat (Suc j))), w)"
    and "end": "FOREACH_OP mc fuel gst self (OInteger (of_nat n)) w = Done (Exit e, w)"
    and "i \<le> n" "n - i < k"
  shows "foreach mc fuel gst k self (OInteger (of_nat i)) w = Done (map f [i..<n])"
  using assms(1,3,4)
proof (induction "n - i" arbitrary: i k)
  case 0
  then show ?case using "end" by (cases k) simp_all
next
  case (Suc m)
  then obtain k' where k: "k = Suc k'" by (cases k) simp_all
  have i: "i < n" using Suc.hyps(2) by simp
  have "foreach mc fuel gst k' self (OInteger (of_nat (Suc i))) w = Done (map f [Suc i..<n])"
    using Suc.prems i Suc.hyps(2) k by (intro Suc.hyps(1)) simp_all
  then show ?case using Suc.prems(1) [of i] i k by (simp add: upt_conv_Cons)
qed

lemma foreach_null:
  "(\<And>w. FOREACH_OP mc fuel gst self ONull w = FOREACH_OP mc fuel gst self (OInteger 0) w) \<Longrightarrow>
   foreach mc fuel gst k self ONull w = foreach mc fuel gst k self (OInteger 0) w"
  by (cases k) simp_all

end
