(* ===== verification/IterationProps.thy ===== *)
theory IterationProps
  imports Iteration AccessProps TableProps
begin

text \<open>
  A loop over a table, an array or a string that it does not change visits every element once.
\<close>

lemma foreach_table:
  assumes "w_tables w a = Some t" "numofnodes t < 2 ^ 63"
  shows "i \<le> numofnodes t \<Longrightarrow> Table_iterate k (w_weak w) t False (OInteger (of_nat i)) = Some kvs \<Longrightarrow>
    foreach mc fuel gst k (ORef KTable a) (OInteger (of_nat i)) w = Done kvs"
proof (induction k arbitrary: i kvs)
  case (Suc k)
  have i: "i < 2 ^ 63" using Suc.prems(1) assms(2) by simp
  then have p: "\<not> sint (TranslateIndex (OInteger (of_nat i))) < 0" by (simp add: sint_of_nat_small)
  show ?case
  proof (cases "Table_Next (w_weak w) t False (OInteger (of_nat i))")
    case None
    with Suc.prems(2) p assms(1) show ?thesis by (simp add: FOREACH_OP_def next_nat_def)
  next
    case (Some r)
    then obtain j key val where r: "r = (j, key, val)" by (cases r)
    with Some have "j \<le> numofnodes t"
      using next_loop_used [of "t_nodes t" i]
      by (auto simp: Table_Next_at [OF i] numofnodes_def split: option.splits)
    moreover obtain rest where "Table_iterate k (w_weak w) t False (OInteger (of_nat j)) = Some rest" "kvs = (key, val) # rest"
      using Suc.prems(2) Some r by auto
    ultimately show ?thesis using Suc.IH [of j rest] Some r p assms(1) by (simp add: FOREACH_OP_def next_nat_def)
  qed
qed simp

lemma foreach_null_position:
  "(case self of ORef KTable _ \<Rightarrow> True | ORef KArray _ \<Rightarrow> True | OString _ \<Rightarrow> True | _ \<Rightarrow> False) \<Longrightarrow>
   foreach mc fuel gst k self ONull w = foreach mc fuel gst k self (OInteger (of_nat 0)) w"
  by (cases k) (auto simp: FOREACH_OP_def String_Next_def Table_Next_def Array_Next_def split: sqobj.splits refkind.splits)

lemma foreach_array:
  assumes "w_arrays w b = Some arr" "vec_inv arr" "v_size arr < 2 ^ 63"
  shows "foreach mc fuel gst (Suc (v_size arr)) (ORef KArray b) ONull w =
    Done (map (\<lambda>i. (OInteger (of_nat i), realval (w_weak w) (vlist arr ! i))) [0..<v_size arr])"
proof -
  obtain xs m where a: "arr = mkvec xs m" using assms(2) by (auto simp: vec_inv_def)
  have u: "unat (of_nat i :: sqint) = i" if "i \<le> length xs" for i
    using that assms(3) a by (simp add: unat_of_nat take_bit_nat_eq_self)
  have n: "Array_Next (w_weak w) arr (OInteger (of_nat i)) =
      Some (if i < length xs then Some (Suc i, OInteger (of_nat i), realval (w_weak w) (xs ! i)) else None)"
    if "i \<le> length xs" for i using u [OF that] by (simp add: Array_Next_def a vpeek_mkvec)
  have "foreach mc fuel gst (Suc (length xs)) (ORef KArray b) (OInteger (of_nat 0)) w =
      Done (map (\<lambda>i. (OInteger (of_nat i), realval (w_weak w) (xs ! i))) [0..<length xs])"
  proof (rule foreach_from)
    show "FOREACH_OP mc fuel gst (ORef KArray b) (OInteger (of_nat (length xs))) w = Done (Exit None, w)"
      using n [of "length xs"] assms(1) by (simp add: FOREACH_OP_def next_nat_def)
  qed (use n assms(1) in \<open>simp_all add: FOREACH_OP_def next_nat_def\<close>)
  then show ?thesis unfolding foreach_null_position [of "ORef KArray b", simplified] by (simp add: a)
qed

lemma foreach_string:
  assumes "length s < 2 ^ 63"
  shows "foreach mc fuel gst (Suc (length s)) (OString s) ONull w =
    Done (map (\<lambda>i. (OInteger (of_nat i), OInteger (char_value (s ! i)))) [0..<length s])"
proof -
  have u: "sint (of_nat i :: sqint) = int i" if "i \<le> length s" for i using that assms by (intro sint_of_nat_small) simp
  have n: "String_Next s (OInteger (of_nat i)) =
      Done (if i < length s then Some (of_nat i + 1, OInteger (of_nat i), OInteger (char_value (s ! i))) else None)"
    if "i \<le> length s" for i using u [OF that] by (simp add: String_Next_def Let_def)
  have "foreach mc fuel gst (Suc (length s)) (OString s) (OInteger (of_nat 0)) w =
      Done (map (\<lambda>i. (OInteger (of_nat i), OInteger (char_value (s ! i)))) [0..<length s])"
  proof (rule foreach_from)
    show "FOREACH_OP mc fuel gst (OString s) (OInteger (of_nat (length s))) w = Done (Exit None, w)"
      using n [of "length s"] by (simp add: FOREACH_OP_def)
  qed (use n in \<open>simp_all add: FOREACH_OP_def add.commute\<close>)
  then show ?thesis unfolding foreach_null_position [of "OString s", simplified] by simp
qed

text \<open>
  C34. A loop visits everything once.  Over a table the rounds end and give each slot once, in
  some order: the keys are distinct and the pairs are the map of the table, with weak references
  resolved.  Over an array and over a string they give the positions from 0 on with the elements,
  in order.
\<close>

theorem foreach_visits_everything:
  assumes "table_inv t" "numofnodes t < 2 ^ 63" "w_tables w a = Some t"
    and "vec_inv arr" "v_size arr < 2 ^ 63" "w_arrays w b = Some arr" "length s < 2 ^ 63"
  shows "(\<exists>kvs. foreach mc fuel gst (Suc (numofnodes t)) (ORef KTable a) ONull w = Done kvs \<and> distinct (map fst kvs) \<and>
      map_of kvs = map_option (realval (w_weak w)) \<circ> table_map t \<and> int (length kvs) = CountUsed t) \<and>
    foreach mc fuel gst (Suc (v_size arr)) (ORef KArray b) ONull w =
      Done (map (\<lambda>i. (OInteger (of_nat i), realval (w_weak w) (vlist arr ! i))) [0..<v_size arr]) \<and>
    foreach mc fuel gst (Suc (length s)) (OString s) ONull w =
      Done (map (\<lambda>i. (OInteger (of_nat i), OInteger (char_value (s ! i)))) [0..<length s])"
proof -
  obtain kvs where k: "Table_iterate (Suc (numofnodes t)) (w_weak w) t False ONull = Some kvs" "distinct (map fst kvs)"
    "map_of kvs = map_option (realval (w_weak w)) \<circ> table_map t" "int (length kvs) = CountUsed t"
    using iteration_is_the_map [OF assms(1,2), of "w_weak w" False] by auto
  have "Table_Next (w_weak w) t False ONull = Table_Next (w_weak w) t False (OInteger (of_nat 0))" by (simp add: Table_Next_def)
  then have "Table_iterate (Suc (numofnodes t)) (w_weak w) t False (OInteger (of_nat 0)) = Some kvs" using k(1) by simp
  from foreach_table [OF assms(3,2) _ this]
  have "foreach mc fuel gst (Suc (numofnodes t)) (ORef KTable a) ONull w = Done kvs"
    unfolding foreach_null_position [of "ORef KTable a", simplified] by simp
  with k foreach_array [OF assms(6,4,5)] foreach_string [OF assms(7)] show ?thesis by blast
qed

definition sample_loops :: world where
  "sample_loops = sample_world\<lparr>w_arrays := [5 \<mapsto> vnew]\<rparr>"

theorem foreach_visits_everything_witness:
  "foreach sample_machine 1 (\<lambda>_. eDead) 3 (OString ''ab'') ONull sample_loops =
   Done (map (\<lambda>i. (OInteger (of_nat i), OInteger (char_value (''ab'' ! i)))) [0..<2])"
proof -
  have t: "table_inv (SQTable_new 0)" "numofnodes (SQTable_new 0) < 2 ^ 63"
    by (simp_all add: new_table, simp add: SQTable_new_def AllocNodes_def numofnodes_def pow2size_loop.simps MINPOWER2_def)
  have w: "w_tables sample_loops 1 = Some (SQTable_new 0)" "w_arrays sample_loops 5 = Some vnew"
    by (simp_all add: sample_loops_def sample_world_def)
  have v: "vec_inv (vnew :: sqarray)" "v_size (vnew :: sqarray) < 2 ^ 63" by (simp_all add: vnew_mkvec)
  have s: "length ''ab'' < (2 :: nat) ^ 63" by simp
  have n: "Suc (length ''ab'') = 3" "length ''ab'' = 2" by simp_all
  from foreach_visits_everything [OF t w(1) v w(2) s, of sample_machine 1 "\<lambda>_. eDead", unfolded n] show ?thesis by (simp only: numeral_3_eq_3 numeral_2_eq_2)
qed

end
