(* ===== verification/Api.thy ===== *)
theory Api
  imports Iteration Values "HOL-Library.Monad_Syntax"
begin

text \<open>
  The interface of the embedding program, \<^verbatim>\<open>squirrel/sqapi.cpp\<close>: functions on the stack of a
  native function.  The frame holds the values of the stack from its base on, so that position 1
  is the first of them and position -1 the last, and the world of theory \<open>Access\<close>.  A function
  gives its result, \<open>SQ_OK\<close> or \<open>SQ_ERROR\<close> where the code returns one, and the frame; it is
  \<open>None\<close> when it reads a slot outside of the stack or does something else that is undefined.
  The addresses of new objects are arguments.
\<close>

section \<open>The frame\<close>

record frame =
  fr_stack :: "sqobj list"
  fr_world :: world
  fr_root :: sqobj
  fr_udsize :: "addr \<Rightarrow> int"

definition SQ_OK :: int where "SQ_OK = 0"
definition SQ_ERROR :: int where "SQ_ERROR = - 1"

definition SQ_FAILED :: "int \<Rightarrow> bool" where "SQ_FAILED r \<longleftrightarrow> r < 0"

fun defined :: "'a outcome \<Rightarrow> 'a option" where
  "defined (Done x) = Some x"
| "defined (Fail e) = None"
| "defined Undef = None"

definition on_world :: "(world \<Rightarrow> ('a \<times> world) outcome) \<Rightarrow> frame \<Rightarrow> ('a \<times> frame) option" where
  "on_world f fr = do { (x, w) \<leftarrow> defined (f (fr_world fr)); Some (x, fr\<lparr>fr_world := w\<rparr>) }"

text \<open>\<open>_GETSAFE\<close> and the throwing of errors.\<close>

definition raise :: "string \<Rightarrow> frame \<Rightarrow> frame" where
  "raise e fr = fr\<lparr>fr_world := w_error e (fr_world fr)\<rparr>"

definition sq_throwerror :: "string \<Rightarrow> frame \<Rightarrow> (int \<times> frame) option" where
  "sq_throwerror e fr = Some (SQ_ERROR, raise e fr)"

definition sq_gettop :: "frame \<Rightarrow> int" where
  "sq_gettop fr = int (length (fr_stack fr))"

definition stack_index :: "int \<Rightarrow> frame \<Rightarrow> int" where
  "stack_index idx fr = (if idx \<ge> 0 then idx - 1 else sq_gettop fr + idx)"

definition slot :: "int \<Rightarrow> frame \<Rightarrow> sqobj option" where
  "slot idx fr =
     (let k = stack_index idx fr in if 0 \<le> k \<and> k < sq_gettop fr then Some (fr_stack fr ! nat k) else None)"

definition set_slot :: "int \<Rightarrow> sqobj \<Rightarrow> frame \<Rightarrow> frame option" where
  "set_slot idx v fr =
     (let k = stack_index idx fr in
      if 0 \<le> k \<and> k < sq_gettop fr then Some (fr\<lparr>fr_stack := (fr_stack fr)[nat k := v]\<rparr>) else None)"

definition Push :: "sqobj \<Rightarrow> frame \<Rightarrow> frame" where
  "Push v fr = fr\<lparr>fr_stack := fr_stack fr @ [v], fr_world := push_args 1 (fr_world fr)\<rparr>"

definition Pop :: "nat \<Rightarrow> frame \<Rightarrow> frame option" where
  "Pop n fr =
     (if n \<le> length (fr_stack fr)
      then Some (fr\<lparr>fr_stack := take (length (fr_stack fr) - n) (fr_stack fr), fr_world := pop_args n (fr_world fr)\<rparr>)
      else None)"

definition sq_settop :: "int \<Rightarrow> frame \<Rightarrow> frame option" where
  "sq_settop newtop fr =
     (let top = sq_gettop fr in
      if top > newtop then Pop (nat (top - newtop)) fr
      else Some ((Push ONull ^^ nat (newtop - top)) fr))"

definition sq_remove :: "int \<Rightarrow> frame \<Rightarrow> frame option" where
  "sq_remove idx fr =
     (let k = stack_index idx fr in
      if 0 \<le> k \<and> k < sq_gettop fr
      then Some (fr\<lparr>fr_stack := take (nat k) (fr_stack fr) @ drop (Suc (nat k)) (fr_stack fr),
                   fr_world := pop_args 1 (fr_world fr)\<rparr>)
      else None)"

definition sq_push :: "int \<Rightarrow> frame \<Rightarrow> frame option" where
  "sq_push idx fr = do { v \<leftarrow> slot idx fr; Some (Push v fr) }"

definition addr_of :: "sqobj \<Rightarrow> addr" where
  "addr_of ob = (case ob of ORef _ a \<Rightarrow> a | _ \<Rightarrow> 0)"

definition type_text :: "32 word \<Rightarrow> string" where
  "type_text ty = (case IdType2Name ty of Some s \<Rightarrow> s | None \<Rightarrow> '''')"

text \<open>The argument at a position when it has the type, or the error that it does not.\<close>

definition gettypedarg :: "machine \<Rightarrow> int \<Rightarrow> 32 word \<Rightarrow> frame \<Rightarrow> (sqobj option \<times> frame) option" where
  "gettypedarg mc idx ty fr = do {
     ob \<leftarrow> slot idx fr;
     if sqobjtype ob \<noteq> ty
     then Some (None, raise (''wrong argument type, expected '' @ quoted (type_text ty) @ '' got '' @
                             quoted (take 50 (cstr (PrintObjVal mc ob)))) fr)
     else Some (Some ob, fr) }"

definition GETSAFE ::
    "machine \<Rightarrow> int \<Rightarrow> 32 word \<Rightarrow> frame \<Rightarrow> (sqobj \<Rightarrow> frame \<Rightarrow> (int \<times> frame) option) \<Rightarrow> (int \<times> frame) option" where
  "GETSAFE mc idx ty fr f = do {
     (ob, fr) \<leftarrow> gettypedarg mc idx ty fr;
     case ob of None \<Rightarrow> Some (SQ_ERROR, fr) | Some ob \<Rightarrow> f ob fr }"

definition paramscheck :: "int \<Rightarrow> frame \<Rightarrow> (frame \<Rightarrow> (int \<times> frame) option) \<Rightarrow> (int \<times> frame) option" where
  "paramscheck count fr f =
     (if sq_gettop fr < count then sq_throwerror ''not enough params in the stack'' fr else f fr)"

definition sq_aux_invalidtype :: "sqobj \<Rightarrow> frame \<Rightarrow> (int \<times> frame) option" where
  "sq_aux_invalidtype ob fr = sq_throwerror (''unexpected type '' @ type_name ob) fr"

section \<open>Values\<close>

definition sq_getinteger :: "int \<Rightarrow> frame \<Rightarrow> sqint option option" where
  "sq_getinteger idx fr = do { ob \<leftarrow> slot idx fr; Some (if sq_isnumeric ob then Some (tointeger ob) else None) }"

definition sq_getfloat :: "int \<Rightarrow> frame \<Rightarrow> sqfloat option option" where
  "sq_getfloat idx fr = do { ob \<leftarrow> slot idx fr; Some (if sq_isnumeric ob then Some (tofloat ob) else None) }"

definition sq_getbool :: "int \<Rightarrow> frame \<Rightarrow> bool option option" where
  "sq_getbool idx fr = do { ob \<leftarrow> slot idx fr; Some (case ob of OBool b \<Rightarrow> Some b | _ \<Rightarrow> None) }"

definition sq_tobool :: "int \<Rightarrow> frame \<Rightarrow> bool option" where
  "sq_tobool idx fr = do { ob \<leftarrow> slot idx fr; Some (\<not> IsFalse ob) }"

definition sq_getstring :: "machine \<Rightarrow> int \<Rightarrow> frame \<Rightarrow> (string option \<times> frame) option" where
  "sq_getstring mc idx fr = do {
     (ob, fr) \<leftarrow> gettypedarg mc idx (sqobjtype (OString [])) fr;
     Some (case ob of Some (OString s) \<Rightarrow> Some s | _ \<Rightarrow> None, fr) }"

definition sq_gettype :: "int \<Rightarrow> frame \<Rightarrow> 32 word option" where
  "sq_gettype idx fr = do { ob \<leftarrow> slot idx fr; Some (sqobjtype ob) }"

definition sq_gethash :: "int \<Rightarrow> frame \<Rightarrow> sqhash option" where
  "sq_gethash idx fr = do { ob \<leftarrow> slot idx fr; Some (HashObj ob) }"

text \<open>A value of an operation that may throw, on the stack.\<close>

definition push_result :: "sqobj option \<Rightarrow> frame \<Rightarrow> int \<times> frame" where
  "push_result r fr = (case r of None \<Rightarrow> (SQ_ERROR, fr) | Some v \<Rightarrow> (SQ_OK, Push v fr))"

definition sq_typeof :: "machine \<Rightarrow> int \<Rightarrow> frame \<Rightarrow> (int \<times> frame) option" where
  "sq_typeof mc idx fr = do { ob \<leftarrow> slot idx fr; (r, fr) \<leftarrow> on_world (TypeOf mc ob) fr; Some (push_result r fr) }"

definition sq_tostring :: "machine \<Rightarrow> int \<Rightarrow> frame \<Rightarrow> (int \<times> frame) option" where
  "sq_tostring mc idx fr = do {
     ob \<leftarrow> slot idx fr;
     (r, fr) \<leftarrow> on_world (ToString mc ob) fr;
     Some (push_result (map_option OString r) fr) }"

text \<open>The size of an object; a value that has none is an error and the result the error's number.\<close>

definition sq_getsize :: "int \<Rightarrow> frame \<Rightarrow> (int \<times> frame) option" where
  "sq_getsize idx fr = do {
     ob \<leftarrow> slot idx fr;
     let w = fr_world fr;
     case ob of
       OString s \<Rightarrow> Some (int (length s), fr)
     | ORef KTable a \<Rightarrow> do { t \<leftarrow> w_tables w a; Some (CountUsed t, fr) }
     | ORef KArray a \<Rightarrow> do { arr \<leftarrow> w_arrays w a; Some (Array_Size arr, fr) }
     | ORef KUserData a \<Rightarrow> Some (fr_udsize fr a, fr)
     | ORef KInstance a \<Rightarrow> do { i \<leftarrow> oh_instances (w_objs w) a; c \<leftarrow> oh_classes (w_objs w) (in_class i); Some (c_udsize c, fr) }
     | ORef KClass a \<Rightarrow> do { c \<leftarrow> oh_classes (w_objs w) a; Some (c_udsize c, fr) }
     | _ \<Rightarrow> sq_aux_invalidtype ob fr }"

text \<open>Comparing; when the comparison fails the result was never set.\<close>

definition sq_cmp :: "machine \<Rightarrow> frame \<Rightarrow> (int \<times> frame) option" where
  "sq_cmp mc fr = do {
     a \<leftarrow> slot (- 1) fr;
     b \<leftarrow> slot (- 2) fr;
     (r, fr) \<leftarrow> on_world (ObjCmp mc a b) fr;
     r \<leftarrow> r;
     Some (r, fr) }"

section \<open>New objects\<close>

definition put_array :: "addr \<Rightarrow> sqarray \<Rightarrow> world \<Rightarrow> world" where
  "put_array a arr w = w\<lparr>w_arrays := (w_arrays w)(a \<mapsto> arr)\<rparr>"

definition sq_newtableex :: "addr \<Rightarrow> int \<Rightarrow> frame \<Rightarrow> frame" where
  "sq_newtableex new cap fr = Push (ORef KTable new) (fr\<lparr>fr_world := put_table new (SQTable_new cap) (fr_world fr)\<rparr>)"

definition sq_newarray :: "addr \<Rightarrow> nat \<Rightarrow> frame \<Rightarrow> frame option" where
  "sq_newarray new sz fr = do {
     arr \<leftarrow> Array_new sz;
     Some (Push (ORef KArray new) (fr\<lparr>fr_world := put_array new arr (fr_world fr)\<rparr>)) }"

definition sq_newclass :: "addr \<Rightarrow> bool \<Rightarrow> frame \<Rightarrow> (int \<times> frame) option" where
  "sq_newclass new hasbase fr =
     (let make = (\<lambda>base fr. on_world (\<lambda>w. obind (Class_new new base (w_objs w)) (\<lambda>h. Done ((), w\<lparr>w_objs := h\<rparr>))) fr) in
      if hasbase then do {
        base \<leftarrow> slot (- 1) fr;
        case base of
          ORef KClass b \<Rightarrow> do {
            (_, fr) \<leftarrow> make (Some b) fr;
            fr \<leftarrow> Pop 1 fr;
            Some (SQ_OK, Push (ORef KClass new) fr) }
        | _ \<Rightarrow> sq_throwerror ''invalid base type'' fr }
      else do { (_, fr) \<leftarrow> make None fr; Some (SQ_OK, Push (ORef KClass new) fr) })"

text \<open>The result of a wrong type is the error's number, which as a truth value is true.\<close>

definition sq_instanceof :: "nat \<Rightarrow> frame \<Rightarrow> (int \<times> frame) option" where
  "sq_instanceof fuel fr = do {
     inst \<leftarrow> slot (- 1) fr;
     cl \<leftarrow> slot (- 2) fr;
     case (inst, cl) of
       (ORef KInstance i, ORef KClass c) \<Rightarrow> do {
         r \<leftarrow> defined (InstanceOf fuel i c (w_objs (fr_world fr)));
         Some (if r then 1 else 0, fr) }
     | _ \<Rightarrow> sq_throwerror ''invalid param type'' fr }"

definition sq_createinstance :: "machine \<Rightarrow> nat \<Rightarrow> addr \<Rightarrow> int \<Rightarrow> frame \<Rightarrow> (int \<times> frame) option" where
  "sq_createinstance mc fuel new idx fr =
     GETSAFE mc idx (ot_kind KClass) fr (\<lambda>ob fr. do {
       (_, fr) \<leftarrow> on_world (\<lambda>w. obind (CreateInstance fuel (addr_of ob) new (w_objs w)) (\<lambda>h. Done ((), w\<lparr>w_objs := h\<rparr>))) fr;
       Some (SQ_OK, Push (ORef KInstance new) fr) })"

definition sq_getbase :: "machine \<Rightarrow> int \<Rightarrow> frame \<Rightarrow> (int \<times> frame) option" where
  "sq_getbase mc idx fr =
     GETSAFE mc idx (ot_kind KClass) fr (\<lambda>ob fr. do {
       c \<leftarrow> oh_classes (w_objs (fr_world fr)) (addr_of ob);
       Some (SQ_OK, Push (case c_base c of Some b \<Rightarrow> ORef KClass b | None \<Rightarrow> ONull) fr) })"

definition sq_getclass :: "machine \<Rightarrow> int \<Rightarrow> frame \<Rightarrow> (int \<times> frame) option" where
  "sq_getclass mc idx fr =
     GETSAFE mc idx (ot_kind KInstance) fr (\<lambda>ob fr. do {
       i \<leftarrow> oh_instances (w_objs (fr_world fr)) (addr_of ob);
       Some (SQ_OK, Push (ORef KClass (in_class i)) fr) })"

definition sq_getweakrefval :: "int \<Rightarrow> frame \<Rightarrow> (int \<times> frame) option" where
  "sq_getweakrefval idx fr = do {
     ob \<leftarrow> slot idx fr;
     case ob of
       ORef KWeakRef a \<Rightarrow> Some (SQ_OK, Push (w_weak (fr_world fr) a) fr)
     | _ \<Rightarrow> sq_throwerror ''the object must be a weakref'' fr }"

definition sq_clone :: "machine \<Rightarrow> addr \<Rightarrow> int \<Rightarrow> frame \<Rightarrow> (int \<times> frame) option" where
  "sq_clone mc new idx fr = do {
     ob \<leftarrow> slot idx fr;
     let fr = Push ONull fr;
     (r, fr) \<leftarrow> on_world (Clone mc new ob) fr;
     case r of
       Some v \<Rightarrow> do { fr \<leftarrow> set_slot (- 1) v fr; Some (SQ_OK, fr) }
     | None \<Rightarrow> do { fr \<leftarrow> Pop 1 fr; Some (SQ_ERROR, fr) } }"

section \<open>Arrays\<close>

definition on_array :: "addr \<Rightarrow> (sqarray \<Rightarrow> ('a \<times> sqarray) option) \<Rightarrow> frame \<Rightarrow> ('a \<times> frame) option" where
  "on_array a f fr = do {
     arr \<leftarrow> w_arrays (fr_world fr) a;
     (x, arr) \<leftarrow> f arr;
     Some (x, fr\<lparr>fr_world := put_array a arr (fr_world fr)\<rparr>) }"

definition sq_arrayappend :: "machine \<Rightarrow> int \<Rightarrow> frame \<Rightarrow> (int \<times> frame) option" where
  "sq_arrayappend mc idx fr =
     paramscheck 2 fr (\<lambda>fr. GETSAFE mc idx (ot_kind KArray) fr (\<lambda>ob fr. do {
       v \<leftarrow> slot (- 1) fr;
       (_, fr) \<leftarrow> on_array (addr_of ob) (\<lambda>arr. map_option (Pair ()) (Array_Append v arr)) fr;
       fr \<leftarrow> Pop 1 fr;
       Some (SQ_OK, fr) }))"

definition sq_arraypop :: "machine \<Rightarrow> int \<Rightarrow> bool \<Rightarrow> frame \<Rightarrow> (int \<times> frame) option" where
  "sq_arraypop mc idx pushval fr =
     paramscheck 1 fr (\<lambda>fr. GETSAFE mc idx (ot_kind KArray) fr (\<lambda>ob fr. do {
       arr \<leftarrow> w_arrays (fr_world fr) (addr_of ob);
       if Array_Size arr > 0 then do {
         fr \<leftarrow> (if pushval then do { v \<leftarrow> Array_Top arr; Some (Push v fr) } else Some fr);
         (_, fr) \<leftarrow> on_array (addr_of ob) (\<lambda>arr. map_option (Pair ()) (Array_Pop arr)) fr;
         Some (SQ_OK, fr) }
       else sq_throwerror ''empty array'' fr }))"

definition sq_arrayresize :: "machine \<Rightarrow> int \<Rightarrow> int \<Rightarrow> frame \<Rightarrow> (int \<times> frame) option" where
  "sq_arrayresize mc idx newsize fr =
     paramscheck 1 fr (\<lambda>fr. GETSAFE mc idx (ot_kind KArray) fr (\<lambda>ob fr.
       if newsize \<ge> 0 then do {
         (_, fr) \<leftarrow> on_array (addr_of ob) (\<lambda>arr. map_option (Pair ()) (Array_Resize (nat newsize) ONull arr)) fr;
         Some (SQ_OK, fr) }
       else sq_throwerror ''negative size'' fr))"

text \<open>The exchanges of a reversal, from the first position on.\<close>

fun reverse_loop :: "nat \<Rightarrow> nat \<Rightarrow> nat \<Rightarrow> sqarray \<Rightarrow> sqarray option" where
  "reverse_loop i 0 sz arr = Some arr"
| "reverse_loop i (Suc n) sz arr = do {
     t \<leftarrow> vpeek arr i;
     u \<leftarrow> vpeek arr (sz - i);
     arr \<leftarrow> vpoke arr i (Some u);
     arr \<leftarrow> vpoke arr (sz - i) (Some t);
     reverse_loop (Suc i) n sz arr }"

definition sq_arrayreverse :: "machine \<Rightarrow> int \<Rightarrow> frame \<Rightarrow> (int \<times> frame) option" where
  "sq_arrayreverse mc idx fr =
     paramscheck 1 fr (\<lambda>fr. GETSAFE mc idx (ot_kind KArray) fr (\<lambda>ob fr. do {
       (_, fr) \<leftarrow> on_array (addr_of ob) (\<lambda>arr.
         if Array_Size arr > 0
         then map_option (Pair ()) (reverse_loop 0 (v_size arr div 2) (v_size arr - 1) arr)
         else Some ((), arr)) fr;
       Some (SQ_OK, fr) }))"

definition sq_arrayremove :: "machine \<Rightarrow> int \<Rightarrow> int \<Rightarrow> frame \<Rightarrow> (int \<times> frame) option" where
  "sq_arrayremove mc idx itemidx fr =
     paramscheck 1 fr (\<lambda>fr. GETSAFE mc idx (ot_kind KArray) fr (\<lambda>ob fr. do {
       (ok, fr) \<leftarrow> on_array (addr_of ob) (\<lambda>arr. Array_Remove arr itemidx) fr;
       if ok then Some (SQ_OK, fr) else sq_throwerror ''index out of range'' fr }))"

definition sq_arrayinsert :: "machine \<Rightarrow> int \<Rightarrow> int \<Rightarrow> frame \<Rightarrow> (int \<times> frame) option" where
  "sq_arrayinsert mc idx destpos fr =
     paramscheck 1 fr (\<lambda>fr. GETSAFE mc idx (ot_kind KArray) fr (\<lambda>ob fr. do {
       v \<leftarrow> slot (- 1) fr;
       (ok, fr) \<leftarrow> on_array (addr_of ob) (\<lambda>arr. Array_Insert arr destpos v) fr;
       (ret, fr) \<leftarrow> (if ok then Some (SQ_OK, fr) else sq_throwerror ''index out of range'' fr);
       fr \<leftarrow> Pop 1 fr;
       Some (ret, fr) }))"

definition sq_clear :: "int \<Rightarrow> frame \<Rightarrow> (int \<times> frame) option" where
  "sq_clear idx fr = do {
     ob \<leftarrow> slot idx fr;
     case ob of
       ORef KTable a \<Rightarrow> do {
         t \<leftarrow> w_tables (fr_world fr) a;
         t \<leftarrow> Table_Clear t;
         Some (SQ_OK, fr\<lparr>fr_world := put_table a t (fr_world fr)\<rparr>) }
     | ORef KArray a \<Rightarrow> do {
         (_, fr) \<leftarrow> on_array a (\<lambda>arr. map_option (Pair ()) (Array_Resize 0 ONull arr)) fr;
         Some (SQ_OK, fr) }
     | _ \<Rightarrow> sq_throwerror ''clear only works on table and array'' fr }"

section \<open>Slots\<close>

definition code :: "bool \<Rightarrow> int" where "code ok = (if ok then SQ_OK else SQ_ERROR)"

text \<open>
  Whether a slot was made is not looked at, and a value of another type than a table or a class
  leaves the key and the value on the stack.
\<close>

definition sq_newslot :: "machine \<Rightarrow> addr \<Rightarrow> int \<Rightarrow> bool \<Rightarrow> frame \<Rightarrow> (int \<times> frame) option" where
  "sq_newslot mc clone idx bstatic fr =
     paramscheck 3 fr (\<lambda>fr. do {
       self \<leftarrow> slot idx fr;
       if sqobjtype self = ot_kind KTable \<or> sqobjtype self = ot_kind KClass then do {
         key \<leftarrow> slot (- 2) fr;
         val \<leftarrow> slot (- 1) fr;
         if key = ONull then sq_throwerror ''null is not a valid key'' fr
         else do {
           (_, fr) \<leftarrow> on_world (NewSlot mc clone self key val bstatic) fr;
           fr \<leftarrow> Pop 2 fr;
           Some (SQ_OK, fr) } }
       else Some (SQ_OK, fr) })"

definition sq_deleteslot :: "machine \<Rightarrow> int \<Rightarrow> bool \<Rightarrow> frame \<Rightarrow> (int \<times> frame) option" where
  "sq_deleteslot mc idx pushval fr =
     paramscheck 2 fr (\<lambda>fr. GETSAFE mc idx (ot_kind KTable) fr (\<lambda>self fr. do {
       key \<leftarrow> slot (- 1) fr;
       if key = ONull then sq_throwerror ''null is not a valid key'' fr
       else do {
         (r, fr) \<leftarrow> on_world (DeleteSlot mc self key) fr;
         case r of
           None \<Rightarrow> do { fr \<leftarrow> Pop 1 fr; Some (SQ_ERROR, fr) }
         | Some v \<Rightarrow> do { fr \<leftarrow> (if pushval then set_slot (- 1) v fr else Pop 1 fr); Some (SQ_OK, fr) } } }))"

definition sq_set :: "machine \<Rightarrow> nat \<Rightarrow> int \<Rightarrow> frame \<Rightarrow> (int \<times> frame) option" where
  "sq_set mc fuel idx fr = do {
     self \<leftarrow> slot idx fr;
     key \<leftarrow> slot (- 2) fr;
     val \<leftarrow> slot (- 1) fr;
     (ok, fr) \<leftarrow> on_world (Set mc fuel self key val DONT_FALL_BACK) fr;
     if ok then do { fr \<leftarrow> Pop 2 fr; Some (SQ_OK, fr) } else Some (SQ_ERROR, fr) }"

definition sq_get :: "machine \<Rightarrow> nat \<Rightarrow> int \<Rightarrow> frame \<Rightarrow> (int \<times> frame) option" where
  "sq_get mc fuel idx fr = do {
     self \<leftarrow> slot idx fr;
     key \<leftarrow> slot (- 1) fr;
     (r, fr) \<leftarrow> on_world (Get mc fuel self key False DONT_FALL_BACK) fr;
     case r of
       Some v \<Rightarrow> do { fr \<leftarrow> set_slot (- 1) v fr; Some (SQ_OK, fr) }
     | None \<Rightarrow> do { fr \<leftarrow> Pop 1 fr; Some (SQ_ERROR, fr) } }"

text \<open>A slot set without delegates; an instance or an array without the key keeps both on the stack.\<close>

definition sq_rawset :: "machine \<Rightarrow> addr \<Rightarrow> int \<Rightarrow> frame \<Rightarrow> (int \<times> frame) option" where
  "sq_rawset mc clone idx fr = do {
     self \<leftarrow> slot idx fr;
     key \<leftarrow> slot (- 2) fr;
     val \<leftarrow> slot (- 1) fr;
     let w = fr_world fr;
     let done = (\<lambda>fr. do { fr \<leftarrow> Pop 2 fr; Some (SQ_OK, fr) });
     let missing = (\<lambda>fr. Some (SQ_ERROR, fr\<lparr>fr_world := Raise_IdxError mc key (fr_world fr)\<rparr>));
     if key = ONull then do { fr \<leftarrow> Pop 2 fr; sq_throwerror ''null key'' fr }
     else case self of
       ORef KTable a \<Rightarrow> do {
         t \<leftarrow> w_tables w a;
         (_, t) \<leftarrow> Table_NewSlot t key val;
         done (fr\<lparr>fr_world := put_table a t w\<rparr>) }
     | ORef KClass a \<Rightarrow> do {
         (_, h) \<leftarrow> defined (Class_NewSlot (w_weak w) (mc_metastate mc) clone a key val False (w_objs w));
         done (fr\<lparr>fr_world := w\<lparr>w_objs := h\<rparr>\<rparr>) }
     | ORef KInstance a \<Rightarrow> do {
         (ok, h) \<leftarrow> defined (Instance_Set (w_weak w) a key val (w_objs w));
         let fr = fr\<lparr>fr_world := w\<lparr>w_objs := h\<rparr>\<rparr>;
         if ok then done fr else missing fr }
     | ORef KArray a \<Rightarrow> do {
         (ok, fr) \<leftarrow> on_world (Set mc 1 self key val 0) fr;
         if ok then done fr else missing fr }
     | _ \<Rightarrow> do { fr \<leftarrow> Pop 2 fr; sq_throwerror ''rawset works only on array/table/class and instance'' fr } }"

definition sq_rawget :: "machine \<Rightarrow> int \<Rightarrow> frame \<Rightarrow> (int \<times> frame) option" where
  "sq_rawget mc idx fr = do {
     self \<leftarrow> slot idx fr;
     key \<leftarrow> slot (- 1) fr;
     let w = fr_world fr;
     let throw = (\<lambda>e. do { fr \<leftarrow> Pop 1 fr; sq_throwerror e fr });
     let found = (\<lambda>r. case r of
         Some v \<Rightarrow> do { fr \<leftarrow> set_slot (- 1) v fr; Some (SQ_OK, fr) }
       | None \<Rightarrow> throw ''the index doesn't exist'');
     case self of
       ORef KTable a \<Rightarrow> do { r \<leftarrow> defined (table_get a key w); found r }
     | ORef KClass a \<Rightarrow> do { c \<leftarrow> oh_classes (w_objs w) a; r \<leftarrow> defined (Class_Get (w_weak w) c key); found r }
     | ORef KInstance a \<Rightarrow> do { r \<leftarrow> defined (Instance_Get (w_weak w) a key (w_objs w)); found r }
     | ORef KArray a \<Rightarrow>
         if sq_isnumeric key then do {
           arr \<leftarrow> w_arrays w a;
           r \<leftarrow> Array_Get (w_weak w) arr (sint (tointeger key));
           found r }
         else throw ''invalid index type for an array''
     | _ \<Rightarrow> throw ''rawget works only on array/table/instance and class'' }"

definition sq_rawdeleteslot :: "machine \<Rightarrow> int \<Rightarrow> bool \<Rightarrow> frame \<Rightarrow> (int \<times> frame) option" where
  "sq_rawdeleteslot mc idx pushval fr =
     paramscheck 2 fr (\<lambda>fr. GETSAFE mc idx (ot_kind KTable) fr (\<lambda>self fr. do {
       key \<leftarrow> slot (- 1) fr;
       let a = addr_of self;
       t \<leftarrow> w_tables (fr_world fr) a;
       r \<leftarrow> Table_Get (w_weak (fr_world fr)) t key;
       fr \<leftarrow> (case r of
           Some _ \<Rightarrow> do { t \<leftarrow> Table_Remove t key; Some (fr\<lparr>fr_world := put_table a t (fr_world fr)\<rparr>) }
         | None \<Rightarrow> Some fr);
       fr \<leftarrow> (if pushval then set_slot (- 1) (case r of Some v \<Rightarrow> v | None \<Rightarrow> ONull) fr else Pop 1 fr);
       Some (SQ_OK, fr) }))"

section \<open>Delegates\<close>

definition put_delegate :: "addr \<Rightarrow> addr option \<Rightarrow> world \<Rightarrow> world" where
  "put_delegate a d w =
     (case w_tables w a of
        Some t \<Rightarrow> put_table a (t\<lparr>t_delegate := d\<rparr>) w
      | None \<Rightarrow> w\<lparr>w_userdata := (w_userdata w)(a := d)\<rparr>)"

definition set_delegate :: "addr \<Rightarrow> addr option \<Rightarrow> frame \<Rightarrow> (bool \<times> frame) option" where
  "set_delegate a mt fr = do {
     let w = fr_world fr;
     (ok, d) \<leftarrow> SetDelegate a mt (\<lambda>x. delegate_of x w);
     Some (ok, if ok then fr\<lparr>fr_world := put_delegate a (d a) w\<rparr> else fr) }"

text \<open>A cycle is refused for a table, and not looked for on a userdata, which keeps its delegate.\<close>

definition sq_setdelegate :: "int \<Rightarrow> frame \<Rightarrow> (int \<times> frame) option" where
  "sq_setdelegate idx fr = do {
     self \<leftarrow> slot idx fr;
     mt \<leftarrow> slot (- 1) fr;
     let popped = (\<lambda>fr. do { fr \<leftarrow> Pop 1 fr; Some (SQ_OK, fr) });
     case self of
       ORef KTable a \<Rightarrow>
         (case mt of
            ORef KTable d \<Rightarrow> do {
              (ok, fr) \<leftarrow> set_delegate a (Some d) fr;
              if ok then popped fr else sq_throwerror ''delagate cycle'' fr }
          | ONull \<Rightarrow> do { (_, fr) \<leftarrow> set_delegate a None fr; popped fr }
          | _ \<Rightarrow> sq_aux_invalidtype self fr)
     | ORef KUserData a \<Rightarrow>
         (case mt of
            ORef KTable d \<Rightarrow> do { (_, fr) \<leftarrow> set_delegate a (Some d) fr; popped fr }
          | ONull \<Rightarrow> do { (_, fr) \<leftarrow> set_delegate a None fr; popped fr }
          | _ \<Rightarrow> sq_aux_invalidtype self fr)
     | _ \<Rightarrow> sq_aux_invalidtype self fr }"

definition sq_getdelegate :: "int \<Rightarrow> frame \<Rightarrow> (int \<times> frame) option" where
  "sq_getdelegate idx fr = do {
     self \<leftarrow> slot idx fr;
     let push = (\<lambda>a. Some (SQ_OK, Push (case delegate_of a (fr_world fr) of Some d \<Rightarrow> ORef KTable d | None \<Rightarrow> ONull) fr));
     case self of
       ORef KTable a \<Rightarrow> push a
     | ORef KUserData a \<Rightarrow> push a
     | _ \<Rightarrow> sq_throwerror ''wrong type'' fr }"

text \<open>The default delegate of a type; a truth value has none here, though slots of it are found in one.\<close>

definition sq_getdefaultdelegate :: "machine \<Rightarrow> sqobj \<Rightarrow> frame \<Rightarrow> (int \<times> frame) option" where
  "sq_getdefaultdelegate mc sample fr =
     (case sample of
        OBool _ \<Rightarrow> sq_throwerror ''the type doesn't have a default delegate'' fr
      | _ \<Rightarrow>
          (case default_of sample of
             Some d \<Rightarrow> Some (SQ_OK, Push (ORef KTable (mc_ddel mc d)) fr)
           | None \<Rightarrow> sq_throwerror ''the type doesn't have a default delegate'' fr))"

section \<open>Classes\<close>

definition new_member :: "machine \<Rightarrow> addr \<Rightarrow> int \<Rightarrow> bool \<Rightarrow> bool \<Rightarrow> frame \<Rightarrow> (int \<times> frame) option" where
  "new_member mc clone idx bstatic raw fr = do {
     self \<leftarrow> slot idx fr;
     if sqobjtype self \<noteq> ot_kind KClass then sq_throwerror ''new member only works with classes'' fr
     else do {
       key \<leftarrow> slot (- 3) fr;
       val \<leftarrow> slot (- 2) fr;
       attrs \<leftarrow> slot (- 1) fr;
       if key = ONull then sq_throwerror ''null key'' fr
       else do {
         (ok, fr) \<leftarrow> on_world (NewSlotA mc clone self key val attrs bstatic raw) fr;
         Some (code ok, fr) } } }"

definition sq_newmember :: "machine \<Rightarrow> addr \<Rightarrow> int \<Rightarrow> bool \<Rightarrow> frame \<Rightarrow> (int \<times> frame) option" where
  "sq_newmember mc clone idx bstatic fr = new_member mc clone idx bstatic False fr"

definition sq_rawnewmember :: "machine \<Rightarrow> addr \<Rightarrow> int \<Rightarrow> bool \<Rightarrow> frame \<Rightarrow> (int \<times> frame) option" where
  "sq_rawnewmember mc clone idx bstatic fr = new_member mc clone idx bstatic True fr"

definition put_class :: "addr \<Rightarrow> sqclass \<Rightarrow> frame \<Rightarrow> frame" where
  "put_class a c fr = fr\<lparr>fr_world := (fr_world fr)\<lparr>w_objs := set_class a c (w_objs (fr_world fr))\<rparr>\<rparr>"

definition sq_setattributes :: "machine \<Rightarrow> int \<Rightarrow> frame \<Rightarrow> (int \<times> frame) option" where
  "sq_setattributes mc idx fr =
     GETSAFE mc idx (ot_kind KClass) fr (\<lambda>ob fr. do {
       key \<leftarrow> slot (- 2) fr;
       val \<leftarrow> slot (- 1) fr;
       let a = addr_of ob;
       let wr = w_weak (fr_world fr);
       c \<leftarrow> oh_classes (w_objs (fr_world fr)) a;
       if key = ONull then do {
         fr \<leftarrow> Pop 2 (put_class a (c\<lparr>c_attributes := val\<rparr>) fr);
         Some (SQ_OK, Push (c_attributes c) fr) }
       else do {
         r \<leftarrow> defined (GetAttributes wr key c);
         case r of
           Some attrs \<Rightarrow> do {
             (_, c) \<leftarrow> defined (SetAttributes wr key val c);
             fr \<leftarrow> Pop 2 (put_class a c fr);
             Some (SQ_OK, Push attrs fr) }
         | None \<Rightarrow> sq_throwerror ''wrong index'' fr } })"

definition sq_getattributes :: "machine \<Rightarrow> int \<Rightarrow> frame \<Rightarrow> (int \<times> frame) option" where
  "sq_getattributes mc idx fr =
     GETSAFE mc idx (ot_kind KClass) fr (\<lambda>ob fr. do {
       key \<leftarrow> slot (- 1) fr;
       c \<leftarrow> oh_classes (w_objs (fr_world fr)) (addr_of ob);
       r \<leftarrow> (if key = ONull then Some (Some (c_attributes c))
            else defined (GetAttributes (w_weak (fr_world fr)) key c));
       case r of
         Some attrs \<Rightarrow> do { fr \<leftarrow> Pop 1 fr; Some (SQ_OK, Push attrs fr) }
       | None \<Rightarrow> sq_throwerror ''wrong index'' fr })"

text \<open>A handle is where a member of a class is: among its methods or among its fields, and its index.\<close>

record memberhandle =
  mh_static :: bool
  mh_index :: nat

definition sq_getmemberhandle :: "machine \<Rightarrow> int \<Rightarrow> frame \<Rightarrow> ((int \<times> memberhandle option) \<times> frame) option" where
  "sq_getmemberhandle mc idx fr = do {
     (ob, fr) \<leftarrow> gettypedarg mc idx (ot_kind KClass) fr;
     case ob of
       None \<Rightarrow> Some ((SQ_ERROR, None), fr)
     | Some ob \<Rightarrow> do {
         key \<leftarrow> slot (- 1) fr;
         c \<leftarrow> oh_classes (w_objs (fr_world fr)) (addr_of ob);
         r \<leftarrow> Table_Get (w_weak (fr_world fr)) (c_members c) key;
         case r of
           Some val \<Rightarrow> do {
             fr \<leftarrow> Pop 1 fr;
             Some ((SQ_OK, Some \<lparr>mh_static = \<not> isfield val, mh_index = member_idx val\<rparr>), fr) }
         | None \<Rightarrow> Some ((SQ_ERROR, None), raise ''wrong index'' fr) } }"

text \<open>The member a handle names in a class or an instance; the handle may be of another class.\<close>

datatype place = InMethods addr nat | InDefaults addr nat | InValues addr nat

definition getmemberbyhandle :: "memberhandle \<Rightarrow> sqobj \<Rightarrow> frame \<Rightarrow> place option option" where
  "getmemberbyhandle mh self fr =
     (case self of
        ORef KInstance a \<Rightarrow> do {
          i \<leftarrow> oh_instances (w_objs (fr_world fr)) a;
          Some (Some (if mh_static mh then InMethods (in_class i) (mh_index mh) else InValues a (mh_index mh))) }
      | ORef KClass a \<Rightarrow> Some (Some (if mh_static mh then InMethods a (mh_index mh) else InDefaults a (mh_index mh)))
      | _ \<Rightarrow> Some None)"

definition read_place :: "place \<Rightarrow> objheap \<Rightarrow> sqobj option" where
  "read_place p h =
     (case p of
        InMethods a n \<Rightarrow> do { c \<leftarrow> oh_classes h a; mb \<leftarrow> defined (vec_at (c_methods c) n); Some (cm_val mb) }
      | InDefaults a n \<Rightarrow> do { c \<leftarrow> oh_classes h a; mb \<leftarrow> defined (vec_at (c_defaultvalues c) n); Some (cm_val mb) }
      | InValues a n \<Rightarrow> do { i \<leftarrow> oh_instances h a; defined (vec_at (in_values i) n) })"

definition write_place :: "place \<Rightarrow> sqobj \<Rightarrow> objheap \<Rightarrow> objheap option" where
  "write_place p v h =
     (case p of
        InMethods a n \<Rightarrow> do {
          c \<leftarrow> oh_classes h a;
          mb \<leftarrow> defined (vec_at (c_methods c) n);
          ms \<leftarrow> defined (vec_set (c_methods c) n (mb\<lparr>cm_val := v\<rparr>));
          Some (set_class a (c\<lparr>c_methods := ms\<rparr>) h) }
      | InDefaults a n \<Rightarrow> do {
          c \<leftarrow> oh_classes h a;
          mb \<leftarrow> defined (vec_at (c_defaultvalues c) n);
          ds \<leftarrow> defined (vec_set (c_defaultvalues c) n (mb\<lparr>cm_val := v\<rparr>));
          Some (set_class a (c\<lparr>c_defaultvalues := ds\<rparr>) h) }
      | InValues a n \<Rightarrow> do {
          i \<leftarrow> oh_instances h a;
          vs \<leftarrow> defined (vec_set (in_values i) n v);
          Some (h\<lparr>oh_instances := (oh_instances h)(a \<mapsto> i\<lparr>in_values := vs\<rparr>)\<rparr>) })"

definition sq_getbyhandle :: "int \<Rightarrow> memberhandle \<Rightarrow> frame \<Rightarrow> (int \<times> frame) option" where
  "sq_getbyhandle idx mh fr = do {
     self \<leftarrow> slot idx fr;
     p \<leftarrow> getmemberbyhandle mh self fr;
     case p of
       None \<Rightarrow> sq_throwerror ''wrong sqobjtype(expected class or instance)'' fr
     | Some p \<Rightarrow> do {
         v \<leftarrow> read_place p (w_objs (fr_world fr));
         Some (SQ_OK, Push (realval (w_weak (fr_world fr)) v) fr) } }"

definition sq_setbyhandle :: "int \<Rightarrow> memberhandle \<Rightarrow> frame \<Rightarrow> (int \<times> frame) option" where
  "sq_setbyhandle idx mh fr = do {
     self \<leftarrow> slot idx fr;
     newval \<leftarrow> slot (- 1) fr;
     p \<leftarrow> getmemberbyhandle mh self fr;
     case p of
       None \<Rightarrow> sq_throwerror ''wrong sqobjtype(expected class or instance)'' fr
     | Some p \<Rightarrow> do {
         h \<leftarrow> write_place p newval (w_objs (fr_world fr));
         fr \<leftarrow> Pop 1 (fr\<lparr>fr_world := (fr_world fr)\<lparr>w_objs := h\<rparr>\<rparr>);
         Some (SQ_OK, fr) } }"

section \<open>Errors, calls and iteration\<close>

definition sq_throwobject :: "frame \<Rightarrow> (int \<times> frame) option" where
  "sq_throwobject fr = do {
     v \<leftarrow> slot (- 1) fr;
     fr \<leftarrow> Pop 1 (fr\<lparr>fr_world := (fr_world fr)\<lparr>w_lasterror := v\<rparr>\<rparr>);
     Some (SQ_ERROR, fr) }"

definition sq_reseterror :: "frame \<Rightarrow> frame" where
  "sq_reseterror fr = fr\<lparr>fr_world := (fr_world fr)\<lparr>w_lasterror := ONull\<rparr>\<rparr>"

definition sq_getlasterror :: "frame \<Rightarrow> frame" where
  "sq_getlasterror fr = Push (w_lasterror (fr_world fr)) fr"

definition sq_setroottable :: "frame \<Rightarrow> (int \<times> frame) option" where
  "sq_setroottable fr = do {
     ob \<leftarrow> slot (- 1) fr;
     if sqobjtype ob = ot_kind KTable \<or> ob = ONull
     then do { fr \<leftarrow> Pop 1 (fr\<lparr>fr_root := ob\<rparr>); Some (SQ_OK, fr) }
     else sq_throwerror ''ivalid type'' fr }"

text \<open>
  A call: the arguments go and the closure below them stays.  The stack of the function called is above
  this one, which it leaves as it is.  When the function succeeds because it has suspended the machine,
  the arguments stay too.
\<close>

definition sq_call :: "machine \<Rightarrow> nat \<Rightarrow> bool \<Rightarrow> frame \<Rightarrow> (int \<times> frame) option" where
  "sq_call mc params retval fr = do {
     closure \<leftarrow> slot (- int (params + 1)) fr;
     let args = drop (length (fr_stack fr) - params) (fr_stack fr);
     let (r, w) = mc_call mc closure args (fr_world fr);
     let fr = fr\<lparr>fr_world := w\<rparr>;
     case r of
       Some v \<Rightarrow> do {
         fr \<leftarrow> (if \<not> w_suspended w then Pop params fr else Some fr);
         Some (SQ_OK, if retval then Push v fr else fr) }
     | None \<Rightarrow> do { fr \<leftarrow> Pop params fr; Some (SQ_ERROR, fr) } }"

definition sq_next :: "machine \<Rightarrow> nat \<Rightarrow> int \<Rightarrow> frame \<Rightarrow> (int \<times> frame) option" where
  "sq_next mc fuel idx fr = do {
     ob \<leftarrow> slot idx fr;
     pos \<leftarrow> slot (- 1) fr;
     if sqobjtype ob = ot_kind KGenerator then sq_throwerror ''cannot iterate a generator'' fr
     else do {
       (r, fr) \<leftarrow> on_world (FOREACH_OP mc fuel (\<lambda>_. eDead) ob pos) fr;
       case r of
         Next key val pos' \<Rightarrow> do { fr \<leftarrow> set_slot (- 1) pos' fr; Some (SQ_OK, Push val (Push key fr)) }
       | Exit None \<Rightarrow> Some (SQ_ERROR, fr)
       | Exit (Some pos') \<Rightarrow> do { fr \<leftarrow> set_slot (- 1) pos' fr; Some (SQ_ERROR, fr) }
       | Throw (Some pos') \<Rightarrow> do { fr \<leftarrow> set_slot (- 1) pos' fr; Some (SQ_ERROR, fr) }
       | _ \<Rightarrow> Some (SQ_ERROR, fr) } }"

end
