(* ===== verification/Natives.thy ===== *)
theory Natives
  imports Api
begin

text \<open>
  The functions a script calls on values, \<^verbatim>\<open>squirrel/sqbaselib.cpp\<close>.  A function works on its
  frame, whose first slot is the value it was called on; it gives 1 when its result is on top of
  the stack, 0 when there is none and \<open>SQ_ERROR\<close> when it throws.  The reading of the text of a
  float, \<open>strtod\<close>, is an argument.
\<close>

type_synonym native = "frame \<Rightarrow> (int \<times> frame) option"

definition returns :: "sqobj \<Rightarrow> native" where
  "returns v fr = Some (1, Push v fr)"

text \<open>A function of the interface that leaves its result on the stack.\<close>

definition forwarded :: "native \<Rightarrow> native" where
  "forwarded f fr = do { (r, fr) \<leftarrow> f fr; Some (if SQ_FAILED r then SQ_ERROR else 1, fr) }"

section \<open>Numbers and texts\<close>

definition isspace :: "char \<Rightarrow> bool" where
  "isspace c \<longleftrightarrow> c = CHR '' '' \<or> (9 \<le> (of_char c :: nat) \<and> (of_char c :: nat) \<le> 13)"

definition isdigit :: "char \<Rightarrow> bool" where
  "isdigit c \<longleftrightarrow> 48 \<le> (of_char c :: nat) \<and> (of_char c :: nat) \<le> 57"

fun digits_value :: "nat \<Rightarrow> string \<Rightarrow> nat" where
  "digits_value n [] = n"
| "digits_value n (c # cs) = (if isdigit c then digits_value (10 * n + (of_char c - 48)) cs else n)"

text \<open>\<open>strtoll\<close> in base ten: \<open>None\<close> when there is no number, else the number, within its type.\<close>

definition strtol :: "string \<Rightarrow> sqint option" where
  "strtol s =
     (let s1 = dropWhile isspace s;
          neg = (s1 \<noteq> [] \<and> hd s1 = CHR ''-'');
          s2 = (if s1 \<noteq> [] \<and> (hd s1 = CHR ''-'' \<or> hd s1 = CHR ''+'') then tl s1 else s1);
          v = int (digits_value 0 s2)
      in if s2 = [] \<or> \<not> isdigit (hd s2) then None
         else Some (word_of_int (if neg then max (- (2 ^ 63)) (- v) else min (2 ^ 63 - 1) v)))"

definition str2num :: "(string \<Rightarrow> sqfloat option) \<Rightarrow> string \<Rightarrow> sqobj option" where
  "str2num strtod s =
     (let t = cstr s in
      if CHR ''.'' \<in> set t \<or> CHR ''E'' \<in> set t \<or> CHR ''e'' \<in> set t
      then map_option OFloat (strtod t) else map_option OInteger (strtol t))"

definition default_delegate_len :: native where
  "default_delegate_len fr = do { (n, fr) \<leftarrow> sq_getsize 1 fr; returns (OInteger (word_of_int n)) fr }"

definition default_delegate_tofloat :: "(string \<Rightarrow> sqfloat option) \<Rightarrow> native" where
  "default_delegate_tofloat strtod fr = do {
     ob \<leftarrow> slot 1 fr;
     case ob of
       OString s \<Rightarrow>
         (case str2num strtod s of
            Some res \<Rightarrow> returns (OFloat (tofloat res)) fr
          | None \<Rightarrow> sq_throwerror ''cannot convert the string'' fr)
     | OInteger _ \<Rightarrow> returns (OFloat (tofloat ob)) fr
     | OFloat _ \<Rightarrow> returns (OFloat (tofloat ob)) fr
     | OBool b \<Rightarrow> returns (OFloat (fl_of_int (if b then 1 else 0))) fr
     | _ \<Rightarrow> returns ONull fr }"

definition default_delegate_tointeger :: "(string \<Rightarrow> sqfloat option) \<Rightarrow> native" where
  "default_delegate_tointeger strtod fr = do {
     ob \<leftarrow> slot 1 fr;
     case ob of
       OString s \<Rightarrow>
         (case str2num strtod s of
            Some res \<Rightarrow> returns (OInteger (tointeger res)) fr
          | None \<Rightarrow> sq_throwerror ''cannot convert the string'' fr)
     | OInteger _ \<Rightarrow> returns (OInteger (tointeger ob)) fr
     | OFloat _ \<Rightarrow> returns (OInteger (tointeger ob)) fr
     | OBool b \<Rightarrow> returns (OInteger (if b then 1 else 0)) fr
     | _ \<Rightarrow> returns ONull fr }"

text \<open>When the metamethod throws nothing is pushed, and the function gives what is on top as its result.\<close>

definition default_delegate_tostring :: "machine \<Rightarrow> native" where
  "default_delegate_tostring mc fr = do { (_, fr) \<leftarrow> sq_tostring mc 1 fr; Some (1, fr) }"

definition number_delegate_tochar :: native where
  "number_delegate_tochar fr = do {
     ob \<leftarrow> slot 1 fr;
     returns (OString [char_of (unat (ucast (tointeger ob) :: 8 word))]) fr }"

definition obj_clear :: native where
  "obj_clear fr = sq_clear (- 1) fr"

section \<open>Tables\<close>

definition table_rawdelete :: "machine \<Rightarrow> native" where
  "table_rawdelete mc fr = forwarded (sq_rawdeleteslot mc 1 True) fr"

definition container_rawexists :: "machine \<Rightarrow> native" where
  "container_rawexists mc fr = do { (r, fr) \<leftarrow> sq_rawget mc (- 2) fr; returns (OBool (\<not> SQ_FAILED r)) fr }"

definition container_rawset :: "machine \<Rightarrow> addr \<Rightarrow> native" where
  "container_rawset mc clone fr = sq_rawset mc clone (- 3) fr"

definition container_rawget :: "machine \<Rightarrow> native" where
  "container_rawget mc fr = forwarded (sq_rawget mc (- 2)) fr"

definition table_setdelegate :: native where
  "table_setdelegate fr = do {
     (r, fr) \<leftarrow> sq_setdelegate (- 2) fr;
     if SQ_FAILED r then Some (SQ_ERROR, fr) else do { fr \<leftarrow> sq_push (- 1) fr; Some (1, fr) } }"

definition table_getdelegate :: native where
  "table_getdelegate fr = forwarded (sq_getdelegate (- 1)) fr"

section \<open>Strings\<close>

text \<open>
  The bounds of a slice.  Without arguments the second slot is read above the top of the stack.
\<close>

definition get_slice_params :: "frame \<Rightarrow> ((int \<times> int \<times> sqobj) \<times> frame) option" where
  "get_slice_params fr = do {
     let top = sq_gettop fr;
     ob \<leftarrow> slot 1 fr;
     start \<leftarrow> slot 2 fr;
     let sidx = (if start \<noteq> ONull \<and> sq_isnumeric start then sint (tointeger start) else 0);
     (eidx, fr) \<leftarrow>
       (if top > 2 then do {
          e \<leftarrow> slot 3 fr;
          Some (if sq_isnumeric e then sint (tointeger e) else 0, fr) }
        else sq_getsize 1 fr);
     Some ((sidx, eidx, ob), fr) }"

definition string_slice :: native where
  "string_slice fr = do {
     ((sidx, eidx, ob), fr) \<leftarrow> get_slice_params fr;
     case ob of
       OString s \<Rightarrow>
         (let slen = int (length s);
              sidx = (if sidx < 0 then slen + sidx else sidx);
              eidx = (if eidx < 0 then slen + eidx else eidx) in
          if eidx < sidx then sq_throwerror ''wrong indexes'' fr
          else if eidx > slen then sq_throwerror ''slice out of range'' fr
          else if sidx < 0 then None
          else returns (OString (take (nat (eidx - sidx)) (drop (nat sidx) s))) fr)
     | _ \<Rightarrow> None }"

text \<open>\<open>strstr\<close>: the place of the first occurrence.\<close>

fun strstr :: "string \<Rightarrow> string \<Rightarrow> nat option" where
  "strstr [] t = (if t = [] then Some 0 else None)"
| "strstr (c # cs) t = (if take (length t) (c # cs) = t then Some 0 else map_option Suc (strstr cs t))"

definition string_find :: "machine \<Rightarrow> native" where
  "string_find mc fr = do {
     let top = sq_gettop fr;
     let invalid = (\<lambda>fr. sq_throwerror ''invalid param'' fr);
     if \<not> top > 1 then invalid fr
     else do {
       (str, fr) \<leftarrow> sq_getstring mc 1 fr;
       case str of
         None \<Rightarrow> invalid fr
       | Some str \<Rightarrow> do {
           (substr, fr) \<leftarrow> sq_getstring mc 2 fr;
           case substr of
             None \<Rightarrow> invalid fr
           | Some substr \<Rightarrow> do {
               start \<leftarrow> (if top > 2 then sq_getinteger 3 fr else Some (Some 0));
               let start_idx = (case start of Some i \<Rightarrow> sint i | None \<Rightarrow> 0);
               if int (length str) > start_idx \<and> start_idx \<ge> 0
               then (case strstr (cstr (drop (nat start_idx) str)) (cstr substr) of
                       Some n \<Rightarrow> returns (OInteger (word_of_int (start_idx + int n))) fr
                     | None \<Rightarrow> Some (0, fr))
               else Some (0, fr) } } } }"

definition c_tolower :: "char \<Rightarrow> char" where
  "c_tolower c = (if 65 \<le> (of_char c :: nat) \<and> (of_char c :: nat) \<le> 90 then char_of ((of_char c :: nat) + 32) else c)"

definition c_toupper :: "char \<Rightarrow> char" where
  "c_toupper c = (if 97 \<le> (of_char c :: nat) \<and> (of_char c :: nat) \<le> 122 then char_of ((of_char c :: nat) - 32) else c)"

definition string_map :: "(char \<Rightarrow> char) \<Rightarrow> native" where
  "string_map f fr = do {
     ob \<leftarrow> slot 1 fr;
     case ob of OString s \<Rightarrow> returns (OString (map f s)) fr | _ \<Rightarrow> None }"

definition string_tolower :: native where "string_tolower = string_map c_tolower"
definition string_toupper :: native where "string_toupper = string_map c_toupper"

section \<open>Arrays\<close>

text \<open>The array a function was called on.\<close>

definition this_array :: "frame \<Rightarrow> addr option" where
  "this_array fr = do { ob \<leftarrow> slot 1 fr; case ob of ORef KArray a \<Rightarrow> Some a | _ \<Rightarrow> None }"

definition array_at :: "addr \<Rightarrow> frame \<Rightarrow> sqarray option" where
  "array_at a fr = w_arrays (fr_world fr) a"

definition array_get :: "addr \<Rightarrow> int \<Rightarrow> frame \<Rightarrow> sqobj option option" where
  "array_get a i fr = do { arr \<leftarrow> array_at a fr; Array_Get (w_weak (fr_world fr)) arr i }"

definition array_set :: "addr \<Rightarrow> int \<Rightarrow> sqobj \<Rightarrow> frame \<Rightarrow> frame option" where
  "array_set a i v fr = do { (_, fr) \<leftarrow> on_array a (\<lambda>arr. Array_Set arr i v) fr; Some fr }"

definition array_append :: "machine \<Rightarrow> native" where
  "array_append mc fr = sq_arrayappend mc (- 2) fr"

definition array_extend :: native where
  "array_extend fr = do {
     a \<leftarrow> this_array fr;
     ob \<leftarrow> slot 2 fr;
     let b = addr_of ob;
     src \<leftarrow> array_at b fr;
     (_, fr) \<leftarrow> on_array a (\<lambda>arr. map_option (Pair ()) (if a = b then Array_Extend_self arr else Array_Extend src arr)) fr;
     Some (0, fr) }"

definition array_reverse :: "machine \<Rightarrow> native" where
  "array_reverse mc fr = sq_arrayreverse mc (- 1) fr"

definition array_pop :: "machine \<Rightarrow> native" where
  "array_pop mc fr = forwarded (sq_arraypop mc 1 True) fr"

definition array_top :: native where
  "array_top fr = do {
     a \<leftarrow> this_array fr;
     arr \<leftarrow> array_at a fr;
     if Array_Size arr > 0 then do { v \<leftarrow> Array_Top arr; returns v fr }
     else sq_throwerror ''top() on a empty array'' fr }"

definition array_insert :: native where
  "array_insert fr = do {
     a \<leftarrow> this_array fr;
     idx \<leftarrow> slot 2 fr;
     val \<leftarrow> slot 3 fr;
     (ok, fr) \<leftarrow> on_array a (\<lambda>arr. Array_Insert arr (sint (tointeger idx)) val) fr;
     if ok then Some (0, fr) else sq_throwerror ''index out of range'' fr }"

definition array_remove :: native where
  "array_remove fr = do {
     a \<leftarrow> this_array fr;
     idx \<leftarrow> slot 2 fr;
     if \<not> sq_isnumeric idx then sq_throwerror ''wrong type'' fr
     else do {
       r \<leftarrow> array_get a (sint (tointeger idx)) fr;
       case r of
         Some val \<Rightarrow> do {
           (_, fr) \<leftarrow> on_array a (\<lambda>arr. Array_Remove arr (sint (tointeger idx))) fr;
           returns val fr }
       | None \<Rightarrow> sq_throwerror ''idx out of range'' fr } }"

text \<open>A negative size is a size of more than two to the 63 elements, which there is no memory for.\<close>

definition array_resize :: native where
  "array_resize fr = do {
     a \<leftarrow> this_array fr;
     nsize \<leftarrow> slot 2 fr;
     if sq_isnumeric nsize then do {
       fill \<leftarrow> (if sq_gettop fr > 2 then slot 3 fr else Some ONull);
       let n = sint (tointeger nsize);
       if n < 0 then None
       else do {
         (_, fr) \<leftarrow> on_array a (\<lambda>arr. map_option (Pair ()) (Array_Resize (nat n) fill arr)) fr;
         Some (0, fr) } }
     else sq_throwerror ''size must be a number'' fr }"

definition base_array :: "addr \<Rightarrow> native" where
  "base_array new fr = do {
     sz \<leftarrow> slot 2 fr;
     let n = sint (tointeger sz);
     if n < 0 then None
     else do {
       arr \<leftarrow> (if sq_gettop fr > 2 then do { fill \<leftarrow> slot 3 fr; arr \<leftarrow> Array_new 0; Array_Resize (nat n) fill arr }
              else Array_new (nat n));
       returns (ORef KArray new) (fr\<lparr>fr_world := put_array new arr (fr_world fr)\<rparr>) } }"

text \<open>
  The loops over an array read its size once; a call may change the array.  A position that is
  not there any more leaves the value read before.
\<close>

definition read_or :: "addr \<Rightarrow> nat \<Rightarrow> sqobj \<Rightarrow> frame \<Rightarrow> sqobj option" where
  "read_or a n temp fr = do { r \<leftarrow> array_get a (int n) fr; Some (case r of Some v \<Rightarrow> v | None \<Rightarrow> temp) }"

text \<open>A call of the function on top of the stack with some arguments; the result is left on top.\<close>

definition call_with :: "machine \<Rightarrow> sqobj list \<Rightarrow> native" where
  "call_with mc args fr = sq_call mc (length args) True (fold Push args fr)"

fun map_loop :: "machine \<Rightarrow> addr \<Rightarrow> addr \<Rightarrow> nat \<Rightarrow> nat \<Rightarrow> sqobj \<Rightarrow> native" where
  "map_loop mc dest src n 0 temp fr = Some (0, fr)"
| "map_loop mc dest src n (Suc k) temp fr = do {
     temp \<leftarrow> read_or src n temp fr;
     (r, fr) \<leftarrow> call_with mc [ORef KArray src, temp] fr;
     if SQ_FAILED r then Some (SQ_ERROR, fr)
     else do {
       v \<leftarrow> slot (- 1) fr;
       fr \<leftarrow> array_set dest (int n) v fr;
       fr \<leftarrow> Pop 1 fr;
       map_loop mc dest src (Suc n) k temp fr } }"

definition map_array :: "machine \<Rightarrow> addr \<Rightarrow> addr \<Rightarrow> native" where
  "map_array mc dest src fr = do { arr \<leftarrow> array_at src fr; map_loop mc dest src 0 (v_size arr) ONull fr }"

definition array_map :: "machine \<Rightarrow> addr \<Rightarrow> native" where
  "array_map mc new fr = do {
     a \<leftarrow> this_array fr;
     arr \<leftarrow> array_at a fr;
     ret \<leftarrow> Array_new (v_size arr);
     (r, fr) \<leftarrow> map_array mc new a (fr\<lparr>fr_world := put_array new ret (fr_world fr)\<rparr>);
     if SQ_FAILED r then Some (SQ_ERROR, fr) else returns (ORef KArray new) fr }"

definition array_apply :: "machine \<Rightarrow> native" where
  "array_apply mc fr = do {
     a \<leftarrow> this_array fr;
     (r, fr) \<leftarrow> map_array mc a a fr;
     Some (if SQ_FAILED r then SQ_ERROR else 0, fr) }"

fun reduce_loop :: "machine \<Rightarrow> addr \<Rightarrow> nat \<Rightarrow> nat \<Rightarrow> sqobj \<Rightarrow> sqobj \<Rightarrow> native" where
  "reduce_loop mc a n 0 other res fr = returns res fr"
| "reduce_loop mc a n (Suc k) other res fr = do {
     other \<leftarrow> read_or a n other fr;
     (r, fr) \<leftarrow> call_with mc [ORef KArray a, res, other] fr;
     if SQ_FAILED r then Some (SQ_ERROR, fr)
     else do { res \<leftarrow> slot (- 1) fr; fr \<leftarrow> Pop 1 fr; reduce_loop mc a (Suc n) k other res fr } }"

definition array_reduce :: "machine \<Rightarrow> native" where
  "array_reduce mc fr = do {
     a \<leftarrow> this_array fr;
     arr \<leftarrow> array_at a fr;
     let sz = v_size arr;
     if sz = 0 then Some (0, fr)
     else do { res \<leftarrow> read_or a 0 ONull fr; reduce_loop mc a 1 (sz - 1) ONull res fr } }"

fun filter_loop :: "machine \<Rightarrow> addr \<Rightarrow> addr \<Rightarrow> nat \<Rightarrow> nat \<Rightarrow> sqobj \<Rightarrow> native" where
  "filter_loop mc ret a n 0 val fr = returns (ORef KArray ret) fr"
| "filter_loop mc ret a n (Suc k) val fr = do {
     val \<leftarrow> read_or a n val fr;
     (r, fr) \<leftarrow> call_with mc [ORef KArray a, OInteger (of_nat n), val] fr;
     if SQ_FAILED r then Some (SQ_ERROR, fr)
     else do {
       res \<leftarrow> slot (- 1) fr;
       fr \<leftarrow> (if IsFalse res then Some fr
             else do { (_, fr) \<leftarrow> on_array ret (\<lambda>arr. map_option (Pair ()) (Array_Append val arr)) fr; Some fr });
       fr \<leftarrow> Pop 1 fr;
       filter_loop mc ret a (Suc n) k val fr } }"

definition array_filter :: "machine \<Rightarrow> addr \<Rightarrow> native" where
  "array_filter mc new fr = do {
     a \<leftarrow> this_array fr;
     arr \<leftarrow> array_at a fr;
     ret \<leftarrow> Array_new 0;
     filter_loop mc new a 0 (v_size arr) ONull (fr\<lparr>fr_world := put_array new ret (fr_world fr)\<rparr>) }"

fun find_loop :: "machine \<Rightarrow> addr \<Rightarrow> sqobj \<Rightarrow> nat \<Rightarrow> nat \<Rightarrow> sqobj \<Rightarrow> native" where
  "find_loop mc a val n 0 temp fr = Some (0, fr)"
| "find_loop mc a val n (Suc k) temp fr = do {
     temp \<leftarrow> read_or a n temp fr;
     (r, fr) \<leftarrow> on_world (IsEqual mc True temp val) fr;
     if r = Some True then returns (OInteger (of_nat n)) fr else find_loop mc a val (Suc n) k temp fr }"

definition array_find :: "machine \<Rightarrow> native" where
  "array_find mc fr = do {
     a \<leftarrow> this_array fr;
     val \<leftarrow> slot 2 fr;
     arr \<leftarrow> array_at a fr;
     find_loop mc a val 0 (v_size arr) ONull fr }"

text \<open>The elements of a slice; what is before the array or beyond it is the value read last, at first null.\<close>

fun slice_loop :: "addr \<Rightarrow> addr \<Rightarrow> int \<Rightarrow> nat \<Rightarrow> nat \<Rightarrow> sqobj \<Rightarrow> frame \<Rightarrow> frame option" where
  "slice_loop a new i 0 count t fr = Some fr"
| "slice_loop a new i (Suc k) count t fr = do {
     r \<leftarrow> array_get a i fr;
     let t = (case r of Some v \<Rightarrow> v | None \<Rightarrow> t);
     fr \<leftarrow> array_set new (int count) t fr;
     slice_loop a new (i + 1) k (Suc count) t fr }"

definition array_slice :: "addr \<Rightarrow> native" where
  "array_slice new fr = do {
     ((sidx, eidx, ob), fr) \<leftarrow> get_slice_params fr;
     let a = addr_of ob;
     arr \<leftarrow> array_at a fr;
     let alen = Array_Size arr;
     let sidx = (if sidx < 0 then alen + sidx else sidx);
     let eidx = (if eidx < 0 then alen + eidx else eidx);
     if eidx < sidx then sq_throwerror ''wrong indexes'' fr
     else if eidx > alen then sq_throwerror ''slice out of range'' fr
     else do {
       ret \<leftarrow> Array_new (nat (eidx - sidx));
       fr \<leftarrow> slice_loop a new sidx (nat (eidx - sidx)) 0 ONull (fr\<lparr>fr_world := put_array new ret (fr_world fr)\<rparr>);
       returns (ORef KArray new) fr } }"

section \<open>Sorting\<close>

text \<open>
  Comparing two elements with the function at the position \<open>func\<close>, or as the machine does when
  it is negative.  The second branch calls the function with the root table and the elements.
\<close>

definition is_string_error :: "frame \<Rightarrow> bool" where
  "is_string_error fr \<longleftrightarrow> is_string (w_lasterror (fr_world fr))"

definition sort_compare :: "machine \<Rightarrow> sqobj \<Rightarrow> sqobj \<Rightarrow> int \<Rightarrow> frame \<Rightarrow> (int option \<times> frame) option" where
  "sort_compare mc a b func fr =
     (if func < 0 then on_world (ObjCmp mc a b) fr
      else do {
        let top = sq_gettop fr;
        fr \<leftarrow> sq_push func fr;
        let fr = Push b (Push a (Push (fr_root fr) fr));
        (r, fr) \<leftarrow> sq_call mc 3 True fr;
        if SQ_FAILED r
        then Some (None, if is_string_error fr then fr else raise ''compare func failed'' fr)
        else do {
          i \<leftarrow> sq_getinteger (- 1) fr;
          case i of
            None \<Rightarrow> Some (None, raise ''numeric value expected as return value of the compare function'' fr)
          | Some i \<Rightarrow> do { fr \<leftarrow> sq_settop top fr; Some (Some (sint i), fr) } } })"

definition element :: "addr \<Rightarrow> nat \<Rightarrow> frame \<Rightarrow> sqobj option" where
  "element a i fr = do { arr \<leftarrow> array_at a fr; vpeek arr i }"

definition swap :: "addr \<Rightarrow> nat \<Rightarrow> nat \<Rightarrow> frame \<Rightarrow> frame option" where
  "swap a i j fr = do {
     x \<leftarrow> element a i fr;
     y \<leftarrow> element a j fr;
     (_, fr) \<leftarrow> on_array a (\<lambda>arr. do { arr \<leftarrow> vpoke arr i (Some y); arr \<leftarrow> vpoke arr j (Some x); Some ((), arr) }) fr;
     Some fr }"

text \<open>The greater child of a node; the children of the node \<open>i\<close> are \<open>2 i\<close> and \<open>2 i + 1\<close>.\<close>

definition max_child :: "machine \<Rightarrow> addr \<Rightarrow> nat \<Rightarrow> nat \<Rightarrow> int \<Rightarrow> frame \<Rightarrow> (nat option \<times> frame) option" where
  "max_child mc a root2 bottom func fr =
     (if root2 = bottom then Some (Some root2, fr)
      else do {
        x \<leftarrow> element a root2 fr;
        y \<leftarrow> element a (root2 + 1) fr;
        (ret, fr) \<leftarrow> sort_compare mc x y func fr;
        Some (map_option (\<lambda>ret. if ret > 0 then root2 else root2 + 1) ret, fr) })"

lemma max_child_ge: "max_child mc a root2 bottom func fr = Some (Some c, fr') \<Longrightarrow> root2 \<le> c \<and> (root2 \<le> bottom \<longrightarrow> c \<le> bottom)"
  by (auto simp: max_child_def bind_eq_Some_conv split: if_splits)

function sift_down :: "machine \<Rightarrow> addr \<Rightarrow> nat \<Rightarrow> nat \<Rightarrow> int \<Rightarrow> frame \<Rightarrow> (bool \<times> frame) option" where
  "sift_down mc a root bottom func fr =
     (let root2 = root * 2 in
      if root2 \<le> bottom then do {
        (maxChild, fr1) \<leftarrow> max_child mc a root2 bottom func fr;
        case maxChild of
          None \<Rightarrow> Some (False, fr1)
        | Some maxChild \<Rightarrow> do {
            x \<leftarrow> element a root fr1;
            y \<leftarrow> element a maxChild fr1;
            (ret, fr2) \<leftarrow> sort_compare mc x y func fr1;
            case ret of
              None \<Rightarrow> Some (False, fr2)
            | Some ret \<Rightarrow>
                if ret < 0 then
                  if root = maxChild then Some (False, raise ''inconsistent compare function'' fr2)
                  else do { fr3 \<leftarrow> swap a root maxChild fr2; sift_down mc a maxChild bottom func fr3 }
                else Some (True, fr2) } }
      else Some (True, fr))"
  by pat_completeness auto
termination
proof (relation "measure (\<lambda>(mc, a, root, bottom, func, fr). bottom + 1 - root)", goal_cases)
  case 1
  show ?case by simp
next
  case 2
  then show ?case by (auto dest!: max_child_ge)
qed

declare sift_down.simps [simp del]

text \<open>The heap is built from the last inner node down, and its root taken off from the end on.\<close>

fun build_loop :: "machine \<Rightarrow> addr \<Rightarrow> nat \<Rightarrow> nat \<Rightarrow> int \<Rightarrow> frame \<Rightarrow> (bool \<times> frame) option" where
  "build_loop mc a 0 bottom func fr = sift_down mc a 0 bottom func fr"
| "build_loop mc a (Suc i) bottom func fr = do {
     (ok, fr) \<leftarrow> sift_down mc a (Suc i) bottom func fr;
     if ok then build_loop mc a i bottom func fr else Some (False, fr) }"

fun take_loop :: "machine \<Rightarrow> addr \<Rightarrow> nat \<Rightarrow> int \<Rightarrow> frame \<Rightarrow> (bool \<times> frame) option" where
  "take_loop mc a 0 func fr = Some (True, fr)"
| "take_loop mc a (Suc i) func fr = do {
     fr \<leftarrow> swap a 0 (Suc i) fr;
     (ok, fr) \<leftarrow> sift_down mc a 0 i func fr;
     if ok then take_loop mc a i func fr else Some (False, fr) }"

definition hsort :: "machine \<Rightarrow> addr \<Rightarrow> int \<Rightarrow> frame \<Rightarrow> (bool \<times> frame) option" where
  "hsort mc a func fr = do {
     arr \<leftarrow> array_at a fr;
     let array_size = v_size arr;
     (ok, fr) \<leftarrow> build_loop mc a (array_size div 2) (array_size - 1) func fr;
     if ok then take_loop mc a (array_size - 1) func fr else Some (False, fr) }"

definition array_sort :: "machine \<Rightarrow> native" where
  "array_sort mc fr = do {
     a \<leftarrow> this_array fr;
     arr \<leftarrow> array_at a fr;
     if Array_Size arr > 1 then do {
       let func = (if sq_gettop fr = 2 then 2 else - 1);
       (ok, fr) \<leftarrow> hsort mc a func fr;
       Some (if ok then 0 else SQ_ERROR, fr) }
     else Some (0, fr) }"

end
