(* ===== verification/Sorting.thy ===== *)
theory Sorting
  imports "HOL-Library.Multiset"
begin

text \<open>
  Heap sort on lists, as \<^verbatim>\<open>_hsort\<close> of \<^verbatim>\<open>squirrel/sqbaselib.cpp\<close> does it: the children of the
  position \<open>i\<close> are \<open>2 i\<close> and \<open>2 i + 1\<close>, so that position 0 is above a heap with its root at 1.
  A comparison is an interface: it has the signs of a total preorder.
\<close>

section \<open>The algorithm\<close>

definition greater_child :: "('a \<Rightarrow> 'a \<Rightarrow> int) \<Rightarrow> nat \<Rightarrow> nat \<Rightarrow> 'a list \<Rightarrow> nat" where
  "greater_child cmp c bottom xs = (if c = bottom \<or> cmp (xs ! c) (xs ! (c + 1)) > 0 then c else c + 1)"

definition exchange :: "nat \<Rightarrow> nat \<Rightarrow> 'a list \<Rightarrow> 'a list" where
  "exchange i j xs = xs[i := xs ! j, j := xs ! i]"

function sift :: "('a \<Rightarrow> 'a \<Rightarrow> int) \<Rightarrow> nat \<Rightarrow> nat \<Rightarrow> 'a list \<Rightarrow> 'a list" where
  "sift cmp root bottom xs =
     (if root * 2 \<le> bottom then
        (let c = greater_child cmp (root * 2) bottom xs in
         if cmp (xs ! root) (xs ! c) < 0 \<and> c \<noteq> root then sift cmp c bottom (exchange root c xs) else xs)
      else xs)"
  by pat_completeness auto
termination
  by (relation "measure (\<lambda>(cmp, root, bottom, xs). bottom + 1 - root)") (auto simp: greater_child_def split: if_splits)

declare sift.simps [simp del]

fun heapify :: "('a \<Rightarrow> 'a \<Rightarrow> int) \<Rightarrow> nat \<Rightarrow> nat \<Rightarrow> 'a list \<Rightarrow> 'a list" where
  "heapify cmp 0 bottom xs = sift cmp 0 bottom xs"
| "heapify cmp (Suc i) bottom xs = heapify cmp i bottom (sift cmp (Suc i) bottom xs)"

fun take_off :: "('a \<Rightarrow> 'a \<Rightarrow> int) \<Rightarrow> nat \<Rightarrow> 'a list \<Rightarrow> 'a list" where
  "take_off cmp 0 xs = xs"
| "take_off cmp (Suc i) xs = take_off cmp i (sift cmp 0 i (exchange 0 (Suc i) xs))"

definition heap_sort :: "('a \<Rightarrow> 'a \<Rightarrow> int) \<Rightarrow> 'a list \<Rightarrow> 'a list" where
  "heap_sort cmp xs = take_off cmp (length xs - 1) (heapify cmp (length xs div 2) (length xs - 1) xs)"

section \<open>The elements\<close>

lemma length_exchange [simp]: "length (exchange i j xs) = length xs"
  by (simp add: exchange_def)

lemma mset_exchange: "i < length xs \<Longrightarrow> j < length xs \<Longrightarrow> mset (exchange i j xs) = mset xs"
  by (simp add: exchange_def mset_swap)

lemma nth_exchange:
  "i < length xs \<Longrightarrow> j < length xs \<Longrightarrow> exchange i j xs ! k = (if k = j then xs ! i else if k = i then xs ! j else xs ! k)"
  by (simp add: exchange_def nth_list_update)

lemma greater_child_range:
  "c \<le> bottom \<Longrightarrow> greater_child cmp c bottom xs \<in> {c, c + 1} \<and> greater_child cmp c bottom xs \<le> bottom"
  by (auto simp: greater_child_def)

text \<open>What sifting leaves as it is: the elements, and every position outside of the heap.\<close>

lemma sift_keeps:
  "bottom < length xs \<Longrightarrow> length (sift cmp root bottom xs) = length xs \<and> mset (sift cmp root bottom xs) = mset xs \<and>
   (\<forall>k. k < root \<or> bottom < k \<longrightarrow> sift cmp root bottom xs ! k = xs ! k)"
proof (induction cmp root bottom xs rule: sift.induct)
  case (1 cmp root bottom xs)
  define c where "c = greater_child cmp (root * 2) bottom xs"
  show ?case
  proof (cases "root * 2 \<le> bottom \<and> cmp (xs ! root) (xs ! c) < 0 \<and> c \<noteq> root")
    case False
    then have "sift cmp root bottom xs = xs" by (subst sift.simps) (auto simp: Let_def c_def)
    then show ?thesis by simp
  next
    case True
    then have c: "root \<le> c" "c \<le> bottom" using greater_child_range [of "root * 2" bottom cmp xs] by (auto simp: c_def)
    have s: "sift cmp root bottom xs = sift cmp c bottom (exchange root c xs)"
      using True by (subst sift.simps) (simp add: c_def Let_def)
    have "bottom < length (exchange root c xs)" using 1(2) by simp
    from "1.IH" [OF _ c_def _ this] True
    have ih: "length (sift cmp c bottom (exchange root c xs)) = length xs"
      "mset (sift cmp c bottom (exchange root c xs)) = mset (exchange root c xs)"
      "\<forall>k. k < c \<or> bottom < k \<longrightarrow> sift cmp c bottom (exchange root c xs) ! k = exchange root c xs ! k" by simp_all
    have "mset (exchange root c xs) = mset xs" using c 1(2) by (intro mset_exchange) simp_all
    moreover have "sift cmp c bottom (exchange root c xs) ! k = xs ! k" if "k < root \<or> bottom < k" for k
      using that ih(3) c 1(2) True by (auto simp: nth_exchange)
    ultimately show ?thesis unfolding s using ih(1,2) by simp
  qed
qed

lemma build_keeps:
  "bottom < length xs \<Longrightarrow> length (heapify cmp i bottom xs) = length xs \<and> mset (heapify cmp i bottom xs) = mset xs"
  by (induction cmp i bottom xs rule: heapify.induct) (simp_all add: sift_keeps)

lemma extract_keeps:
  "n < length xs \<Longrightarrow> length (take_off cmp n xs) = length xs \<and> mset (take_off cmp n xs) = mset xs"
proof (induction n arbitrary: xs)
  case (Suc n)
  then have "0 < length xs" "n < length xs" by linarith+
  with Suc show ?case by (simp add: sift_keeps mset_exchange del: length_greater_0_conv)
qed simp

lemma heap_sort_keeps: "mset (heap_sort cmp xs) = mset xs \<and> length (heap_sort cmp xs) = length xs"
proof (cases "xs = []")
  case True
  then show ?thesis by (simp add: heap_sort_def sift.simps greater_child_def Let_def exchange_def)
next
  case False
  then show ?thesis using build_keeps [of "length xs - 1" xs] by (simp add: heap_sort_def extract_keeps)
qed

section \<open>The order\<close>

locale comparison =
  fixes cmp :: "'a \<Rightarrow> 'a \<Rightarrow> int"
  assumes turn: "cmp x y < 0 \<longleftrightarrow> cmp y x > 0"
    and trans: "cmp x y \<le> 0 \<Longrightarrow> cmp y z \<le> 0 \<Longrightarrow> cmp x z \<le> 0"
begin

lemma same: "cmp x x = 0"
  using turn [of x x] by linarith

lemma total: "cmp x y \<le> 0 \<or> cmp y x \<le> 0"
  using turn [of x y] turn [of y x] by linarith

lemma less_le: "cmp x y < 0 \<Longrightarrow> cmp x y \<le> 0"
  by simp

text \<open>Every child that is in the heap is below its parent, from the position \<open>lo\<close> on.\<close>

definition child :: "nat \<Rightarrow> nat \<Rightarrow> bool" where
  "child i c \<longleftrightarrow> (c = 2 * i \<or> c = 2 * i + 1) \<and> c \<noteq> i"

definition heap_from :: "nat \<Rightarrow> nat \<Rightarrow> 'a list \<Rightarrow> bool" where
  "heap_from lo bottom xs \<longleftrightarrow> (\<forall>i c. lo \<le> i \<and> child i c \<and> c \<le> bottom \<longrightarrow> cmp (xs ! c) (xs ! i) \<le> 0)"

text \<open>A heap but for one position, whose children are below its parent.\<close>

definition heap_but :: "nat \<Rightarrow> nat \<Rightarrow> nat \<Rightarrow> 'a list \<Rightarrow> bool" where
  "heap_but r lo bottom xs \<longleftrightarrow>
     (\<forall>i c. lo \<le> i \<and> i \<noteq> r \<and> child i c \<and> c \<le> bottom \<longrightarrow> cmp (xs ! c) (xs ! i) \<le> 0) \<and>
     (\<forall>p c. lo \<le> p \<and> child p r \<and> child r c \<and> c \<le> bottom \<longrightarrow> cmp (xs ! c) (xs ! p) \<le> 0)"

lemma child_less: "child i c \<Longrightarrow> i < c"
  by (auto simp: child_def)

lemma child_parent: "child i c \<Longrightarrow> child j c \<Longrightarrow> i = j"
  by (auto simp: child_def)

lemma greater_child_greatest:
  assumes "root * 2 \<le> bottom" "c = greater_child cmp (root * 2) bottom xs" "child root k" "k \<le> bottom"
  shows "cmp (xs ! k) (xs ! c) \<le> 0"
proof -
  let ?l = "root * 2"
  have k: "k = ?l \<or> k = ?l + 1" using assms(3) by (auto simp: child_def)
  show ?thesis
  proof (cases "c = ?l")
    case True
    then show ?thesis
    proof (cases "k = ?l")
      case False
      then have "k = ?l + 1" "?l \<noteq> bottom" using k assms(4) by auto
      with True assms(2) have "cmp (xs ! ?l) (xs ! (?l + 1)) > 0" by (auto simp: greater_child_def split: if_splits)
      then show ?thesis using turn [of "xs ! k" "xs ! ?l"] True \<open>k = ?l + 1\<close> by simp
    qed (simp add: same)
  next
    case False
    then have "c = ?l + 1" "\<not> cmp (xs ! ?l) (xs ! (?l + 1)) > 0" using assms(2) by (auto simp: greater_child_def split: if_splits)
    then show ?thesis using k by (auto simp: same)
  qed
qed

lemma sift_heap:
  "bottom < length xs \<Longrightarrow> lo \<le> root \<Longrightarrow> heap_but root lo bottom xs \<Longrightarrow> heap_from lo bottom (sift cmp root bottom xs)"
proof (induction "bottom + 1 - root" arbitrary: root xs rule: less_induct)
  case less
  note B = less.prems(3) [unfolded heap_but_def]
  define c where "c = greater_child cmp (root * 2) bottom xs"
  have top: "heap_from lo bottom xs" if r: "\<And>k. child root k \<Longrightarrow> k \<le> bottom \<Longrightarrow> cmp (xs ! k) (xs ! root) \<le> 0"
    unfolding heap_from_def using B r by blast
  show ?case
  proof (cases "root * 2 \<le> bottom")
    case False
    then have "\<not> (child root k \<and> k \<le> bottom)" for k by (auto simp: child_def)
    then show ?thesis using top False by (subst sift.simps) simp
  next
    case t: True
    note gr = greater_child_greatest [OF t c_def]
    show ?thesis
    proof (cases "cmp (xs ! root) (xs ! c) < 0 \<and> c \<noteq> root")
      case False
      have "cmp (xs ! c) (xs ! root) \<le> 0" using False same turn [of "xs ! root" "xs ! c"] by (cases "c = root") auto
      then have "heap_from lo bottom xs" using gr trans by (intro top) blast
      then show ?thesis using False t by (subst sift.simps) (auto simp: c_def [symmetric] Let_def)
    next
      case True
      have c: "child root c" "c \<le> bottom" using True greater_child_range [OF t, of cmp xs] by (auto simp: child_def c_def)
      then have rc: "root < c" by (simp add: child_less)
      define ys where "ys = exchange root c xs"
      have n: "ys ! k = (if k = c then xs ! root else if k = root then xs ! c else xs ! k)" for k
        unfolding ys_def using rc c(2) less.prems(1) by (intro nth_exchange) simp_all
      have "heap_but c lo bottom ys" unfolding heap_but_def
      proof (intro conjI allI impI)
        fix i k assume a: "lo \<le> i \<and> i \<noteq> c \<and> child i k \<and> k \<le> bottom"
        then have ik: "i < k" by (simp add: child_less)
        consider "i = root" "k = c" | "i = root" "k \<noteq> c" | "i \<noteq> root" "k = root" | "i \<noteq> root" "k \<noteq> root" by blast
        then show "cmp (ys ! k) (ys ! i) \<le> 0"
        proof cases
          case 1
          then show ?thesis using True rc by (simp add: n)
        next
          case 2
          then show ?thesis using gr [of k] a ik by (simp add: n)
        next
          case 3
          then show ?thesis using B a c rc by (simp add: n)
        next
          case 4
          then have "k \<noteq> c" using child_parent [of i c root] a c(1) by blast
          then show ?thesis using 4 a B by (simp add: n)
        qed
      next
        fix p k assume a: "lo \<le> p \<and> child p c \<and> child c k \<and> k \<le> bottom"
        then have "p = root" "c < k" using child_parent c(1) child_less by blast+
        then show "cmp (ys ! k) (ys ! p) \<le> 0" using a B rc less.prems(2) by (simp add: n)
      qed
      then have "heap_from lo bottom (sift cmp c bottom ys)"
        using rc c(2) less.prems(1,2) by (intro less.hyps) (simp_all add: ys_def)
      then show ?thesis using True t by (subst sift.simps) (simp add: c_def [symmetric] ys_def Let_def)
    qed
  qed
qed

lemma heap_but_first: "heap_from (Suc lo) bottom xs \<Longrightarrow> heap_but lo lo bottom xs"
  unfolding heap_from_def heap_but_def using child_less by (metis Suc_leI le_neq_implies_less leD)

lemma build_heap: "bottom < length xs \<Longrightarrow> heap_from (Suc i) bottom xs \<Longrightarrow> heap_from 0 bottom (heapify cmp i bottom xs)"
proof (induction i arbitrary: xs)
  case 0
  then show ?case by (simp add: sift_heap heap_but_first)
next
  case (Suc i)
  then have "heap_from (Suc i) bottom (sift cmp (Suc i) bottom xs)" by (simp add: sift_heap heap_but_first)
  with Suc show ?case by (simp add: sift_keeps)
qed

lemma heap_root: "heap_from 0 bottom xs \<Longrightarrow> k \<le> bottom \<Longrightarrow> cmp (xs ! k) (xs ! 0) \<le> 0"
proof (induction k rule: less_induct)
  case (less k)
  show ?case
  proof (cases "k = 0")
    case False
    then have "child (k div 2) k" "k div 2 < k" by (auto simp: child_def)
    then show ?thesis using less trans [of "xs ! k" "xs ! (k div 2)" "xs ! 0"] by (force simp: heap_from_def)
  qed (simp add: same)
qed

text \<open>The elements after position \<open>n\<close> are in order and above all before them.\<close>

definition sorted_after :: "nat \<Rightarrow> 'a list \<Rightarrow> bool" where
  "sorted_after n xs \<longleftrightarrow> (\<forall>i j. i < j \<and> n < j \<and> j < length xs \<longrightarrow> cmp (xs ! i) (xs ! j) \<le> 0)"

lemma extract_sorts:
  "n < length xs \<Longrightarrow> heap_from 0 n xs \<Longrightarrow> sorted_after n xs \<Longrightarrow> sorted_after 0 (take_off cmp n xs)"
proof (induction n arbitrary: xs)
  case (Suc n)
  define ys where "ys = exchange 0 (Suc n) xs"
  define zs where "zs = sift cmp 0 n ys"
  have n: "ys ! k = (if k = Suc n then xs ! 0 else if k = 0 then xs ! Suc n else xs ! k)" for k
    unfolding ys_def using Suc.prems(1) by (intro nth_exchange) linarith+
  have l: "length ys = length xs" by (simp add: ys_def)
  have k: "length zs = length xs" "mset zs = mset ys" "\<And>k. n < k \<Longrightarrow> zs ! k = ys ! k"
    using sift_keeps [of n ys cmp 0] Suc.prems(1) l by (auto simp: zs_def)
  have "heap_but 0 0 n ys" unfolding heap_but_def
  proof (intro conjI allI impI)
    fix i c assume a: "0 \<le> i \<and> i \<noteq> 0 \<and> child i c \<and> c \<le> n"
    then show "cmp (ys ! c) (ys ! i) \<le> 0" using Suc.prems(2) child_less [of i c] by (auto simp: n heap_from_def)
  next
    fix p c assume "0 \<le> p \<and> child p 0 \<and> child 0 c \<and> c \<le> n"
    then show "cmp (ys ! c) (ys ! p) \<le> 0" using child_less by blast
  qed
  then have h: "heap_from 0 n zs" using Suc.prems(1) by (simp add: zs_def sift_heap l)
  have below: "cmp (ys ! i) (ys ! j) \<le> 0" if "i < j" "n < j" "j < length xs" for i j
    using that Suc.prems(1,3) heap_root [OF Suc.prems(2)] same by (auto simp: n sorted_after_def)
  have low: "\<exists>k \<le> n. zs ! i = ys ! k" if "i \<le> n" for i
  proof -
    have d: "drop (Suc n) zs = drop (Suc n) ys" using k(1,3) l by (intro nth_equalityI) auto
    have "mset (take (Suc n) zs) + mset (drop (Suc n) zs) = mset (take (Suc n) ys) + mset (drop (Suc n) ys)"
      using k(2) by (simp flip: mset_append)
    then have "mset (take (Suc n) zs) = mset (take (Suc n) ys)" using d by simp
    then have "set (take (Suc n) zs) = set (take (Suc n) ys)" by (rule mset_eq_setD)
    moreover have "zs ! i \<in> set (take (Suc n) zs)" using that Suc.prems(1) k(1) by (auto simp: in_set_conv_nth intro!: exI [of _ i])
    ultimately obtain m where "m < Suc n" "zs ! i = ys ! m" by (auto simp: in_set_conv_nth)
    then show ?thesis by (intro exI [of _ m]) simp
  qed
  have "sorted_after n zs" unfolding sorted_after_def
  proof (intro allI impI)
    fix i j assume a: "i < j \<and> n < j \<and> j < length zs"
    show "cmp (zs ! i) (zs ! j) \<le> 0"
    proof (cases "i \<le> n")
      case True
      then obtain m where "m \<le> n" "zs ! i = ys ! m" using low by blast
      then show ?thesis using below [of m j] a k by simp
    qed (use below [of i j] a k in simp)
  qed
  then show ?case using Suc.IH [of zs] h Suc.prems(1) k(1) by (simp add: zs_def ys_def)
qed simp

lemma heap_sort_sorts: "sorted_wrt (\<lambda>x y. cmp x y \<le> 0) (heap_sort cmp xs)"
proof (cases "length xs \<le> 1")
  case True
  then have "length (heap_sort cmp xs) \<le> 1" using heap_sort_keeps [of cmp xs] by simp
  then show ?thesis by (cases "heap_sort cmp xs") auto
next
  case False
  define ys where "ys = heapify cmp (length xs div 2) (length xs - 1) xs"
  have "heap_from (Suc (length xs div 2)) (length xs - 1) xs" unfolding heap_from_def by (auto simp: child_def)
  then have h: "heap_from 0 (length xs - 1) ys" using False unfolding ys_def by (intro build_heap) simp_all
  have l: "length ys = length xs" using build_keeps [of "length xs - 1" xs] False by (simp add: ys_def)
  have "sorted_after 0 (take_off cmp (length xs - 1) ys)"
    using h l False by (intro extract_sorts) (auto simp: sorted_after_def)
  then show ?thesis by (auto simp: sorted_wrt_iff_nth_less sorted_after_def heap_sort_def ys_def)
qed

end

end
