(* ===== verification/SortProps.thy ===== *)
theory SortProps
  imports Natives Sorting OrderProps
begin

text \<open>
  \<open>array_sort\<close> is the heap sort of theory \<open>Sorting\<close>: what it does with any comparison, and that it
  sorts with one that is an order.
\<close>

section \<open>The array of a sort\<close>

definition holds :: "addr \<Rightarrow> sqobj list \<Rightarrow> frame \<Rightarrow> bool" where
  "holds a xs fr \<longleftrightarrow> (\<exists>m. array_at a fr = Some (mkvec xs m))"

definition with_array :: "addr \<Rightarrow> sqarray \<Rightarrow> frame \<Rightarrow> frame" where
  "with_array a arr fr = fr\<lparr>fr_world := put_array a arr (fr_world fr)\<rparr>"

lemma array_at_with [simp]: "array_at a (with_array a arr fr) = Some arr"
  by (simp add: array_at_def with_array_def put_array_def)

lemma element_holds: "holds a xs fr \<Longrightarrow> i < length xs \<Longrightarrow> element a i fr = Some (xs ! i)"
  by (auto simp: holds_def element_def vpeek_mkvec)

lemma swap_holds:
  assumes "holds a xs fr" "i < length xs" "j < length xs"
  shows "\<exists>arr. swap a i j fr = Some (with_array a arr fr) \<and> holds a (exchange i j xs) (with_array a arr fr)"
proof -
  obtain m where m: "array_at a fr = Some (mkvec xs m)" using assms(1) by (auto simp: holds_def)
  have "swap a i j fr = Some (with_array a (mkvec (exchange i j xs) m) fr)"
    using m assms element_holds [OF assms(1)]
    by (simp add: swap_def on_array_def array_at_def vpoke_mkvec with_array_def exchange_def)
  then show ?thesis by (auto simp: holds_def)
qed

section \<open>Any comparison\<close>

text \<open>
  A run of the sort: the comparison of the elements, in \<open>S\<close>, is defined, leaves the array as it is,
  and keeps what the run relies on, \<open>I\<close>; so do the exchanges.
\<close>

locale sort_run =
  fixes mc :: machine and a :: addr and func :: int and I :: "frame \<Rightarrow> bool" and S :: "sqobj set"
  assumes compare: "I fr \<Longrightarrow> x \<in> S \<Longrightarrow> y \<in> S \<Longrightarrow> \<exists>r fr'. sort_compare mc x y func fr = Some (r, fr') \<and> array_at a fr' = array_at a fr \<and> (r \<noteq> None \<longrightarrow> I fr')"
    and store: "I fr \<Longrightarrow> I (with_array a arr fr)"
begin

definition permuted :: "sqobj list \<Rightarrow> (bool \<times> frame) option \<Rightarrow> bool" where
  "permuted xs r \<longleftrightarrow> (\<exists>ok fr ys. r = Some (ok, fr) \<and> holds a ys fr \<and> mset ys = mset xs \<and> (ok \<longrightarrow> I fr))"

lemma permutedI: "holds a ys fr \<Longrightarrow> mset ys = mset xs \<Longrightarrow> (ok \<Longrightarrow> I fr) \<Longrightarrow> permuted xs (Some (ok, fr))"
  by (auto simp: permuted_def)

lemma permuted_mset: "permuted ys r \<Longrightarrow> mset ys = mset xs \<Longrightarrow> permuted xs r"
  by (auto simp: permuted_def)

lemma compare_holds:
  assumes "I fr" "holds a xs fr" "x \<in> S" "y \<in> S"
  obtains r fr' where "sort_compare mc x y func fr = Some (r, fr')" "holds a xs fr'" "r \<noteq> None \<Longrightarrow> I fr'"
proof -
  obtain m where m: "array_at a fr = Some (mkvec xs m)" using assms(2) by (auto simp: holds_def)
  obtain r fr' where "sort_compare mc x y func fr = Some (r, fr')" "array_at a fr' = array_at a fr" "r \<noteq> None \<longrightarrow> I fr'"
    using compare [OF assms(1,3,4)] by blast
  then show ?thesis using that m by (auto simp: holds_def)
qed

lemma max_child_holds:
  assumes "I fr" "holds a xs fr" "set xs \<subseteq> S" "bottom < length xs" "root2 \<le> bottom"
  obtains r fr' where "max_child mc a root2 bottom func fr = Some (r, fr')" "holds a xs fr'" "r \<noteq> None \<Longrightarrow> I fr'"
proof (cases "root2 = bottom")
  case True
  then show ?thesis using assms that by (simp add: max_child_def)
next
  case False
  have "xs ! root2 \<in> S" "xs ! (root2 + 1) \<in> S" using False assms(3-5) by (auto intro!: subsetD [OF assms(3)])
  then obtain r fr' where "sort_compare mc (xs ! root2) (xs ! (root2 + 1)) func fr = Some (r, fr')" "holds a xs fr'" "r \<noteq> None \<Longrightarrow> I fr'"
    using compare_holds [OF assms(1,2)] by metis
  then show ?thesis using False that assms element_holds [OF assms(2)] by (auto simp: max_child_def)
qed

lemma sift_down_permutes:
  "I fr \<Longrightarrow> holds a xs fr \<Longrightarrow> set xs \<subseteq> S \<Longrightarrow> bottom < length xs \<Longrightarrow> permuted xs (sift_down mc a root bottom func fr)"
proof (induction "bottom + 1 - root" arbitrary: root xs fr rule: less_induct)
  case less
  show ?case
  proof (cases "root * 2 \<le> bottom")
    case False
    then show ?thesis using less.prems by (subst sift_down.simps) (simp add: permutedI)
  next
    case True
    obtain r fr1 where 1: "max_child mc a (root * 2) bottom func fr = Some (r, fr1)" "holds a xs fr1" "r \<noteq> None \<Longrightarrow> I fr1"
      using max_child_holds [OF less.prems True] by metis
    show ?thesis
    proof (cases r)
      case None
      then show ?thesis using 1 True by (subst sift_down.simps) (simp add: permutedI)
    next
      case (Some c)
      then have c: "root * 2 \<le> c" "c \<le> bottom" using max_child_ge 1(1) True by blast+
      then have s: "xs ! root \<in> S" "xs ! c \<in> S" using less.prems(3,4) by (auto intro!: subsetD [OF less.prems(3)])
      obtain r2 fr2 where 2: "sort_compare mc (xs ! root) (xs ! c) func fr1 = Some (r2, fr2)" "holds a xs fr2" "r2 \<noteq> None \<Longrightarrow> I fr2"
        using compare_holds [OF _ 1(2) s] 1(3) Some by (metis option.distinct(1))
      have e: "element a root fr1 = Some (xs ! root)" "element a c fr1 = Some (xs ! c)"
        using element_holds [OF 1(2)] c less.prems(4) by simp_all
      show ?thesis
      proof (cases "\<exists>i. r2 = Some i \<and> i < 0 \<and> root \<noteq> c")
        case False
        then show ?thesis using 1 2 True Some e
          by (subst sift_down.simps) (auto simp: raise_def holds_def array_at_def w_error_def intro!: permutedI split: option.splits)
      next
        case g: True
        obtain arr where w: "swap a root c fr2 = Some (with_array a arr fr2)" "holds a (exchange root c xs) (with_array a arr fr2)"
          using swap_holds [OF 2(2), of root c] c less.prems(4) by auto
        have x: "mset (exchange root c xs) = mset xs" using c less.prems(4) by (intro mset_exchange) simp_all
        then have "set (exchange root c xs) \<subseteq> S" using less.prems(3) mset_eq_setD by blast
        then have "permuted (exchange root c xs) (sift_down mc a c bottom func (with_array a arr fr2))"
          using g c less.prems(4) w(2) store 2(3) by (intro less.hyps) auto
        with x show ?thesis using g 1 2 True Some e w(1) by (subst sift_down.simps) (auto elim: permuted_mset)
      qed
    qed
  qed
qed

lemma permuted_cases:
  assumes "permuted xs r" "\<And>fr ys. holds a ys fr \<Longrightarrow> mset ys = mset xs \<Longrightarrow> length ys = length xs \<Longrightarrow> set ys = set xs \<Longrightarrow> I fr \<Longrightarrow> permuted ys (f fr)"
  shows "permuted xs (do { (ok, fr) \<leftarrow> r; if ok then f fr else Some (False, fr) })"
proof -
  obtain ok fr ys where r: "r = Some (ok, fr)" "holds a ys fr" "mset ys = mset xs" "ok \<Longrightarrow> I fr"
    using assms(1) by (auto simp: permuted_def)
  then have "length ys = length xs" "set ys = set xs" using mset_eq_length mset_eq_setD by blast+
  then show ?thesis using r assms(2) [of ys fr] by (cases ok) (auto intro: permuted_mset permutedI)
qed

lemma build_loop_permutes:
  "I fr \<Longrightarrow> holds a xs fr \<Longrightarrow> set xs \<subseteq> S \<Longrightarrow> bottom < length xs \<Longrightarrow> permuted xs (build_loop mc a i bottom func fr)"
proof (induction i arbitrary: xs fr)
  case (Suc i)
  show ?case unfolding build_loop.simps
    by (rule permuted_cases) (use Suc sift_down_permutes in simp_all)
qed (simp add: sift_down_permutes)

lemma take_loop_permutes:
  "I fr \<Longrightarrow> holds a xs fr \<Longrightarrow> set xs \<subseteq> S \<Longrightarrow> n < length xs \<Longrightarrow> permuted xs (take_loop mc a n func fr)"
proof (induction n arbitrary: xs fr)
  case (Suc n)
  obtain arr where s: "swap a 0 (Suc n) fr = Some (with_array a arr fr)" "holds a (exchange 0 (Suc n) xs) (with_array a arr fr)"
    using swap_holds [OF Suc.prems(2) _ Suc.prems(4), of 0] Suc.prems(4) Suc_lessD by fastforce
  have x: "mset (exchange 0 (Suc n) xs) = mset xs" using Suc.prems(4) by (intro mset_exchange) linarith+
  then have e: "set (exchange 0 (Suc n) xs) = set xs" by (rule mset_eq_setD)
  have "permuted (exchange 0 (Suc n) xs) (do {
      (ok, fr) \<leftarrow> sift_down mc a 0 n func (with_array a arr fr);
      if ok then take_loop mc a n func fr else Some (False, fr) })"
    by (rule permuted_cases) (use Suc s e store sift_down_permutes in simp_all)
  with x show ?case using s(1) by (auto elim: permuted_mset)
qed (simp add: permutedI)

lemma hsort_permutes:
  assumes "I fr" "holds a xs fr" "set xs \<subseteq> S" "xs \<noteq> []"
  shows "permuted xs (hsort mc a func fr)"
proof -
  obtain m where m: "array_at a fr = Some (mkvec xs m)" using assms(2) by (auto simp: holds_def)
  have "permuted xs (do {
      (ok, fr) \<leftarrow> build_loop mc a (length xs div 2) (length xs - 1) func fr;
      if ok then take_loop mc a (length xs - 1) func fr else Some (False, fr) })"
    by (rule permuted_cases) (use assms build_loop_permutes take_loop_permutes in simp_all)
  then show ?thesis unfolding hsort_def m Option.bind.bind_lunit Let_def v_size_mkvec .
qed

end

section \<open>An order\<close>

text \<open>A run whose comparison is that of an order.\<close>

locale sort_order = sort_run + comparison cmp for cmp :: "sqobj \<Rightarrow> sqobj \<Rightarrow> int" +
  assumes compares: "I fr \<Longrightarrow> x \<in> S \<Longrightarrow> y \<in> S \<Longrightarrow>
    \<exists>fr'. sort_compare mc x y func fr = Some (Some (cmp x y), fr') \<and> array_at a fr' = array_at a fr \<and> I fr'"
begin

definition becomes :: "sqobj list \<Rightarrow> (bool \<times> frame) option \<Rightarrow> bool" where
  "becomes ys r \<longleftrightarrow> (\<exists>fr. r = Some (True, fr) \<and> holds a ys fr \<and> I fr)"

lemma compares_holds:
  assumes "I fr" "holds a xs fr" "x \<in> S" "y \<in> S"
  obtains fr' where "sort_compare mc x y func fr = Some (Some (cmp x y), fr')" "holds a xs fr'" "I fr'"
  using compares [OF assms(1,3,4)] assms(2) unfolding holds_def by metis

lemma max_child_greater:
  assumes "I fr" "holds a xs fr" "set xs \<subseteq> S" "bottom < length xs" "root2 \<le> bottom"
  obtains fr' where "max_child mc a root2 bottom func fr = Some (Some (greater_child cmp root2 bottom xs), fr')" "holds a xs fr'" "I fr'"
proof (cases "root2 = bottom")
  case True
  then show ?thesis using assms that by (simp add: max_child_def greater_child_def)
next
  case False
  have "xs ! root2 \<in> S" "xs ! (root2 + 1) \<in> S" using False assms(3-5) by (auto intro!: subsetD [OF assms(3)])
  then obtain fr' where "sort_compare mc (xs ! root2) (xs ! (root2 + 1)) func fr = Some (Some (cmp (xs ! root2) (xs ! (root2 + 1))), fr')"
    "holds a xs fr'" "I fr'" using compares_holds [OF assms(1,2)] by metis
  then show ?thesis using False that assms element_holds [OF assms(2)] by (auto simp: max_child_def greater_child_def)
qed

lemma sift_down_sifts:
  "I fr \<Longrightarrow> holds a xs fr \<Longrightarrow> set xs \<subseteq> S \<Longrightarrow> bottom < length xs \<Longrightarrow>
   becomes (sift cmp root bottom xs) (sift_down mc a root bottom func fr)"
proof (induction "bottom + 1 - root" arbitrary: root xs fr rule: less_induct)
  case less
  define c where "c = greater_child cmp (root * 2) bottom xs"
  show ?case
  proof (cases "root * 2 \<le> bottom")
    case False
    then show ?thesis using less.prems by (subst sift_down.simps, subst sift.simps) (simp add: becomes_def)
  next
    case True
    have c: "root * 2 \<le> c" "c \<le> bottom" using greater_child_range [OF True, of cmp xs] by (auto simp: c_def)
    then have s: "xs ! root \<in> S" "xs ! c \<in> S" using less.prems(3,4) by (auto intro!: subsetD [OF less.prems(3)])
    obtain fr1 where 1: "max_child mc a (root * 2) bottom func fr = Some (Some c, fr1)" "holds a xs fr1" "I fr1"
      using max_child_greater [OF less.prems True] unfolding c_def by metis
    obtain fr2 where 2: "sort_compare mc (xs ! root) (xs ! c) func fr1 = Some (Some (cmp (xs ! root) (xs ! c)), fr2)" "holds a xs fr2" "I fr2"
      using compares_holds [OF 1(3,2) s] by metis
    have e: "element a root fr1 = Some (xs ! root)" "element a c fr1 = Some (xs ! c)"
      using element_holds [OF 1(2)] c less.prems(4) by simp_all
    have r: "\<not> (cmp (xs ! root) (xs ! c) < 0 \<and> root = c)" using same by auto
    show ?thesis
    proof (cases "cmp (xs ! root) (xs ! c) < 0")
      case False
      then show ?thesis using 1 2 True e
        by (subst sift_down.simps, subst sift.simps) (simp add: becomes_def c_def [symmetric] Let_def)
    next
      case g: True
      obtain arr where w: "swap a root c fr2 = Some (with_array a arr fr2)" "holds a (exchange root c xs) (with_array a arr fr2)"
        using swap_holds [OF 2(2), of root c] c less.prems(4) by auto
      have "mset (exchange root c xs) = mset xs" using c less.prems(4) by (intro mset_exchange) simp_all
      then have "set (exchange root c xs) \<subseteq> S" using less.prems(3) mset_eq_setD by blast
      then have "becomes (sift cmp c bottom (exchange root c xs)) (sift_down mc a c bottom func (with_array a arr fr2))"
        using g r c less.prems(4) w(2) store [OF 2(3)] by (intro less.hyps) auto
      then show ?thesis using g r 1 2 True e w(1)
        by (subst sift_down.simps, subst sift.simps) (auto simp: c_def [symmetric] Let_def)
    qed
  qed
qed

lemma becomes_then:
  "becomes ys r \<Longrightarrow> (\<And>fr. holds a ys fr \<Longrightarrow> I fr \<Longrightarrow> becomes zs (f fr)) \<Longrightarrow>
   becomes zs (do { (ok, fr) \<leftarrow> r; if ok then f fr else Some (False, fr) })"
  by (auto simp: becomes_def)

lemma build_loop_builds:
  "I fr \<Longrightarrow> holds a xs fr \<Longrightarrow> set xs \<subseteq> S \<Longrightarrow> bottom < length xs \<Longrightarrow>
   becomes (heapify cmp i bottom xs) (build_loop mc a i bottom func fr)"
proof (induction i arbitrary: xs fr)
  case (Suc i)
  have k: "length (sift cmp (Suc i) bottom xs) = length xs" "set (sift cmp (Suc i) bottom xs) = set xs"
    using sift_keeps [OF Suc.prems(4)] mset_eq_setD by blast+
  show ?case unfolding build_loop.simps heapify.simps
    by (rule becomes_then, rule sift_down_sifts [OF Suc.prems]) (use Suc k in simp)
qed (simp add: sift_down_sifts)

lemma take_loop_takes:
  "I fr \<Longrightarrow> holds a xs fr \<Longrightarrow> set xs \<subseteq> S \<Longrightarrow> n < length xs \<Longrightarrow> becomes (take_off cmp n xs) (take_loop mc a n func fr)"
proof (induction n arbitrary: xs fr)
  case (Suc n)
  have l: "0 < length xs" "n < length xs" using Suc.prems(4) by linarith+
  obtain arr where s: "swap a 0 (Suc n) fr = Some (with_array a arr fr)" "holds a (exchange 0 (Suc n) xs) (with_array a arr fr)"
    using swap_holds [OF Suc.prems(2) l(1) Suc.prems(4)] by blast
  define ys where "ys = exchange 0 (Suc n) xs"
  have y: "length ys = length xs" "set ys = set xs"
    using mset_exchange [OF l(1) Suc.prems(4)] mset_eq_setD by (auto simp: ys_def)
  have k: "length (sift cmp 0 n ys) = length xs" "set (sift cmp 0 n ys) = set xs"
    using sift_keeps [of n ys] l(2) y mset_eq_setD by metis+
  have "becomes (sift cmp 0 n ys) (sift_down mc a 0 n func (with_array a arr fr))"
    using s(2) y l(2) Suc.prems(3) store [OF Suc.prems(1)] by (intro sift_down_sifts) (simp_all add: ys_def)
  then have "becomes (take_off cmp n (sift cmp 0 n ys)) (do {
      (ok, fr) \<leftarrow> sift_down mc a 0 n func (with_array a arr fr);
      if ok then take_loop mc a n func fr else Some (False, fr) })"
    by (rule becomes_then) (use Suc.IH Suc.prems(3) l(2) k in simp)
  then show ?case using s(1) by (simp add: ys_def)
qed (simp add: becomes_def)

lemma hsort_sorts:
  assumes "I fr" "holds a xs fr" "set xs \<subseteq> S" "xs \<noteq> []"
  shows "becomes (heap_sort cmp xs) (hsort mc a func fr)"
proof -
  obtain m where m: "array_at a fr = Some (mkvec xs m)" using assms(2) by (auto simp: holds_def)
  define ys where "ys = heapify cmp (length xs div 2) (length xs - 1) xs"
  have y: "length ys = length xs" "set ys = set xs"
    using build_keeps [of "length xs - 1" xs cmp "length xs div 2"] assms(4) mset_eq_setD [of ys xs] by (simp_all add: ys_def)
  have "becomes ys (build_loop mc a (length xs div 2) (length xs - 1) func fr)"
    unfolding ys_def using assms by (intro build_loop_builds) simp_all
  then have "becomes (take_off cmp (length xs - 1) ys) (do {
      (ok, fr) \<leftarrow> build_loop mc a (length xs div 2) (length xs - 1) func fr;
      if ok then take_loop mc a (length xs - 1) func fr else Some (False, fr) })"
    by (rule becomes_then) (use assms y take_loop_takes in simp)
  then show ?thesis unfolding hsort_def m Option.bind.bind_lunit Let_def v_size_mkvec heap_sort_def ys_def .
qed

end

section \<open>The comparison of values\<close>

text \<open>Values of the type \<open>t\<close>, and null, in the order of theory \<open>OrderProps\<close>.\<close>

definition sortable :: "nat \<times> refkind \<Rightarrow> world \<Rightarrow> sqobj set" where
  "sortable t w = {x. ordered w x \<and> (x = ONull \<or> tag x = t)}"

definition same_but_array :: "addr \<Rightarrow> frame \<Rightarrow> frame \<Rightarrow> bool" where
  "same_but_array a fr0 fr \<longleftrightarrow> (\<exists>arr. with_array a arr fr = with_array a arr fr0)"

lemma with_array_twice [simp]: "with_array a arr (with_array a arr' fr) = with_array a arr fr"
  by (simp add: with_array_def put_array_def)

lemma same_but_array_with: "same_but_array a fr0 fr \<Longrightarrow> with_array a arr fr = with_array a arr fr0"
  unfolding same_but_array_def by (metis with_array_twice)

lemma put_array_fields [simp]:
  "w_tables (put_array a arr w) = w_tables w" "w_objs (put_array a arr w) = w_objs w" "w_userdata (put_array a arr w) = w_userdata w"
  "w_weak (put_array a arr w) = w_weak w"
  by (simp_all add: put_array_def)

lemma ordered_put_array [simp]: "ordered (put_array a arr w) x = ordered w x"
proof -
  have d: "delegate_of b (put_array a arr w) = delegate_of b w" for b
    by (simp add: delegate_of_def split: option.split)
  have "has_delegate x (put_array a arr w) = has_delegate x w" "GetMetaMethod x m (put_array a arr w) = GetMetaMethod x m w" for x m
    by (simp_all add: has_delegate_def GetMetaMethod_def table_get_def d split: sqobj.split refkind.split option.split)
  then show ?thesis by (simp add: ordered_def split: sqobj.split)
qed

lemma same_but_array_ordered:
  assumes "same_but_array a fr0 fr" shows "ordered (fr_world fr) x = ordered (fr_world fr0) x"
proof -
  have "fr_world (with_array a vnew fr) = fr_world (with_array a vnew fr0)" using same_but_array_with [OF assms] by simp
  then have "ordered (put_array a vnew (fr_world fr)) x = ordered (put_array a vnew (fr_world fr0)) x" by (simp add: with_array_def)
  then show ?thesis by simp
qed

lemma sortable_comparable: "x \<in> sortable t w \<Longrightarrow> y \<in> sortable t w \<Longrightarrow> comparable x y"
  by (auto simp: sortable_def comparable_tag)

abbreviation place_order :: "sqobj \<Rightarrow> sqobj \<Rightarrow> int" where
  "place_order x y \<equiv> order_of (place x) (place y)"

interpretation by_place: comparison place_order
proof
  show "place_order x y < 0 \<longleftrightarrow> place_order y x > 0" for x y by (auto simp: order_of_def)
  show "place_order x z \<le> 0" if "place_order x y \<le> 0" "place_order y z \<le> 0" for x y z
    using that unfolding order_of_laws(3) by (rule order_trans)
qed

lemma sort_compare_ordered:
  assumes "same_but_array a fr0 fr" "x \<in> sortable t (fr_world fr0)" "y \<in> sortable t (fr_world fr0)"
  shows "sort_compare mc x y (- 1) fr = Some (Some (place_order x y), fr)"
proof -
  have "ObjCmp mc x y (fr_world fr) = Done (Some (place_order x y), fr_world fr)"
    using assms(2,3) same_but_array_ordered [OF assms(1)]
    by (intro ObjCmp_ordered sortable_comparable [OF assms(2,3)]) (simp_all add: sortable_def)
  then show ?thesis by (simp add: sort_compare_def on_world_def)
qed

interpretation value_sort: sort_order mc a "- 1" "same_but_array a fr0" "sortable t (fr_world fr0)" place_order
  for mc a fr0 t
proof
  fix fr x y
  assume "same_but_array a fr0 fr" "x \<in> sortable t (fr_world fr0)" "y \<in> sortable t (fr_world fr0)"
  then show "\<exists>r fr'. sort_compare mc x y (- 1) fr = Some (r, fr') \<and> array_at a fr' = array_at a fr \<and> (r \<noteq> None \<longrightarrow> same_but_array a fr0 fr')"
    "\<exists>fr'. sort_compare mc x y (- 1) fr = Some (Some (place_order x y), fr') \<and> array_at a fr' = array_at a fr \<and> same_but_array a fr0 fr'"
    using sort_compare_ordered by (metis option.distinct(1))+
next
  fix fr arr assume "same_but_array a fr0 fr"
  then show "same_but_array a fr0 (with_array a arr fr)" by (simp add: same_but_array_def)
qed

section \<open>The comparison of a script\<close>

text \<open>The frame of \<open>sort\<close> with a function.\<close>

definition sort_frame :: "addr \<Rightarrow> sqobj \<Rightarrow> sqobj \<Rightarrow> frame \<Rightarrow> bool" where
  "sort_frame a f root fr \<longleftrightarrow> fr_stack fr = [ORef KArray a, f] \<and> fr_root fr = root"

definition leaves_array :: "machine \<Rightarrow> addr \<Rightarrow> bool" where
  "leaves_array mc a \<longleftrightarrow> (\<forall>f args w. w_arrays (snd (mc_call mc f args w)) a = w_arrays w a)"

text \<open>The world a call sees, and what the comparison makes of its result.\<close>

definition compared_by :: "machine \<Rightarrow> addr \<Rightarrow> sqobj \<Rightarrow> sqobj \<Rightarrow> sqobj \<Rightarrow> sqobj \<Rightarrow> frame \<Rightarrow> sqobj option \<times> world \<Rightarrow> bool" where
  "compared_by mc a f root x y fr r \<longleftrightarrow>
     (case r of
       (Some v, w1) \<Rightarrow> if sq_isnumeric v
         then \<exists>fr'. sort_compare mc x y 2 fr = Some (Some (sint (tointeger v)), fr') \<and> sort_frame a f root fr' \<and> w_arrays (fr_world fr') = w_arrays w1
         else \<exists>fr'. sort_compare mc x y 2 fr = Some (None, fr') \<and> w_arrays (fr_world fr') = w_arrays w1
     | (None, w1) \<Rightarrow> \<exists>fr'. sort_compare mc x y 2 fr = Some (None, fr') \<and> w_arrays (fr_world fr') = w_arrays w1)"

lemma sort_compare_call:
  assumes "sort_frame a f root fr"
  shows "\<exists>w. w_arrays w = w_arrays (fr_world fr) \<and>
    compared_by mc a f root x y fr (mc_call mc f [root, x, y] w)"
proof -
  define w where "w = push_args (Suc 0) (push_args (Suc 0) (push_args (Suc 0) (push_args (Suc 0) (fr_world fr))))"
  have w: "w_arrays w = w_arrays (fr_world fr)" by (simp add: w_def push_args_def)
  have st: "fr_stack fr = [ORef KArray a, f]" "fr_root fr = root" using assms by (simp_all add: sort_frame_def)
  obtain r w1 where c: "mc_call mc f [root, x, y] w = (r, w1)" by (cases "mc_call mc f [root, x, y] w")
  note s = sort_compare_def sq_push_def slot_def stack_index_def sq_gettop_def Push_def Pop_def sq_call_def sq_getinteger_def sq_settop_def st
    w_def [symmetric] c SQ_FAILED_def SQ_ERROR_def SQ_OK_def
  show ?thesis
  proof (intro exI [of _ w] conjI w, cases r)
    case None
    then show "compared_by mc a f root x y fr (mc_call mc f [root, x, y] w)"
      by (simp add: s compared_by_def) (simp add: pop_args_def raise_def w_error_def)
  next
    case (Some v)
    then show "compared_by mc a f root x y fr (mc_call mc f [root, x, y] w)"
      by (cases "w_suspended w1"; simp add: s compared_by_def; simp add: pop_args_def push_args_def raise_def w_error_def sort_frame_def st)
  qed
qed

lemma sort_run_call:
  assumes "leaves_array mc a"
  shows "sort_run mc a 2 (sort_frame a f root) UNIV"
proof
  fix fr x y assume "sort_frame a f root fr"
  then obtain w where w: "w_arrays w = w_arrays (fr_world fr)" and c: "compared_by mc a f root x y fr (mc_call mc f [root, x, y] w)"
    using sort_compare_call [of a f root fr mc x y] by blast
  have "w_arrays (snd (mc_call mc f [root, x, y] w)) a = w_arrays (fr_world fr) a" using assms w by (simp add: leaves_array_def)
  with c show "\<exists>r fr'. sort_compare mc x y 2 fr = Some (r, fr') \<and> array_at a fr' = array_at a fr \<and> (r \<noteq> None \<longrightarrow> sort_frame a f root fr')"
    by (auto simp: array_at_def compared_by_def split: prod.splits option.splits if_splits)
next
  fix fr arr assume "sort_frame a f root fr"
  then show "sort_frame a f root (with_array a arr fr)" by (simp add: sort_frame_def with_array_def)
qed

text \<open>A function whose results are those of \<open>cmp\<close>, on the elements in \<open>S\<close>.\<close>

definition answers :: "machine \<Rightarrow> sqobj \<Rightarrow> sqobj \<Rightarrow> sqobj set \<Rightarrow> (sqobj \<Rightarrow> sqobj \<Rightarrow> int) \<Rightarrow> bool" where
  "answers mc f root S cmp \<longleftrightarrow>
     (\<forall>x \<in> S. \<forall>y \<in> S. \<forall>w. \<exists>v w1. mc_call mc f [root, x, y] w = (Some v, w1) \<and> sq_isnumeric v \<and> sint (tointeger v) = cmp x y)"

lemma sort_order_call:
  assumes "leaves_array mc a" "comparison cmp" "answers mc f root S cmp"
  shows "sort_order mc a 2 (sort_frame a f root) S cmp"
proof (intro sort_order.intro sort_order_axioms.intro assms(2))
  show "sort_run mc a 2 (sort_frame a f root) S"
    using sort_run_call [OF assms(1), of f root] unfolding sort_run_def by blast
  fix fr x y assume I: "sort_frame a f root fr" and S: "x \<in> S" "y \<in> S"
  obtain w where w: "w_arrays w = w_arrays (fr_world fr)" and c: "compared_by mc a f root x y fr (mc_call mc f [root, x, y] w)"
    using sort_compare_call [OF I, of mc x y] by blast
  obtain v w1 where v: "mc_call mc f [root, x, y] w = (Some v, w1)" "sq_isnumeric v" "sint (tointeger v) = cmp x y"
    using assms(3) S unfolding answers_def by blast
  have "w_arrays w1 a = w_arrays (fr_world fr) a"
    using assms(1) w v(1) unfolding leaves_array_def by (metis snd_conv)
  with c v show "\<exists>fr'. sort_compare mc x y 2 fr = Some (Some (cmp x y), fr') \<and> array_at a fr' = array_at a fr \<and> sort_frame a f root fr'"
    by (auto simp: array_at_def compared_by_def)
qed

lemma array_sort_hsort:
  assumes "holds a xs fr" "fr_stack fr = ORef KArray a # rest"
  shows "array_sort mc fr =
    (if length xs > 1 then do { (ok, fr') \<leftarrow> hsort mc a (if length rest = 1 then 2 else - 1) fr; Some (if ok then 0 else SQ_ERROR, fr') }
     else Some (0, fr))"
proof -
  obtain m where "array_at a fr = Some (mkvec xs m)" using assms(1) by (auto simp: holds_def)
  moreover have "this_array fr = Some a" using assms(2) by (simp add: this_array_def slot_def stack_index_def sq_gettop_def)
  moreover have "sq_gettop fr = 2 \<longleftrightarrow> length rest = 1" using assms(2) by (auto simp: sq_gettop_def)
  ultimately show ?thesis by (simp add: array_sort_def Array_Size_def Let_def)
qed

lemma short_sorted: "length xs \<le> 1 \<Longrightarrow> sorted_wrt R xs"
  by (cases xs) auto

lemma heap_sort_some: "sort_order mc a func I S cmp \<Longrightarrow> sort_order.becomes a I ys r \<Longrightarrow> \<exists>fr'. r = Some (True, fr') \<and> holds a ys fr'"
  by (auto simp: sort_order.becomes_def)

text \<open>
  C35. \<open>sort\<close> sorts.  Without a function, an array of values of one type and null, that are in
  the order of the comparison operator, becomes a permutation of itself in that order.  With a
  function that answers with the signs of an order, and does not touch the array, it becomes a
  permutation sorted by that order.  In both cases \<open>sort\<close> returns, without an error.
\<close>

theorem sort_sorts:
  assumes "holds a xs fr"
  shows "(fr_stack fr = [ORef KArray a] \<and> set xs \<subseteq> sortable t (fr_world fr) \<longrightarrow>
      (\<exists>fr' ys. array_sort mc fr = Some (0, fr') \<and> holds a ys fr' \<and> mset ys = mset xs \<and> sorted_wrt (\<lambda>x y. place x \<le> place y) ys)) \<and>
    (fr_stack fr = [ORef KArray a, f] \<and> leaves_array mc a \<and> comparison cmp \<and> answers mc f (fr_root fr) (set xs) cmp \<longrightarrow>
      (\<exists>fr' ys. array_sort mc fr = Some (0, fr') \<and> holds a ys fr' \<and> mset ys = mset xs \<and> sorted_wrt (\<lambda>x y. cmp x y \<le> 0) ys))"
proof (intro conjI impI; elim conjE)
  assume h: "fr_stack fr = [ORef KArray a]" "set xs \<subseteq> sortable t (fr_world fr)"
  show "\<exists>fr' ys. array_sort mc fr = Some (0, fr') \<and> holds a ys fr' \<and> mset ys = mset xs \<and> sorted_wrt (\<lambda>x y. place x \<le> place y) ys"
  proof (cases "length xs > 1")
    case False
    then show ?thesis using assms array_sort_hsort [OF assms h(1)] short_sorted [of xs] by force
  next
    case True
    have "same_but_array a fr fr" by (simp add: same_but_array_def)
    moreover have "xs \<noteq> []" using True by auto
    ultimately have "value_sort.becomes a fr (heap_sort place_order xs) (hsort mc a (- 1) fr)"
      by (rule value_sort.hsort_sorts [OF _ assms h(2)])
    then obtain fr' where "hsort mc a (- 1) fr = Some (True, fr')" "holds a (heap_sort place_order xs) fr'"
      using value_sort.becomes_def by blast
    then show ?thesis using array_sort_hsort [OF assms h(1), of mc] True heap_sort_keeps [of place_order xs] by_place.heap_sort_sorts [of xs]
      by (auto simp: order_of_laws(3))
  qed
next
  assume h: "fr_stack fr = [ORef KArray a, f]" "leaves_array mc a" "comparison cmp" "answers mc f (fr_root fr) (set xs) cmp"
  note so = sort_order_call [OF h(2-4)]
  show "\<exists>fr' ys. array_sort mc fr = Some (0, fr') \<and> holds a ys fr' \<and> mset ys = mset xs \<and> sorted_wrt (\<lambda>x y. cmp x y \<le> 0) ys"
  proof (cases "length xs > 1")
    case False
    then show ?thesis using assms array_sort_hsort [OF assms h(1)] short_sorted [of xs] by force
  next
    case True
    have "sort_frame a f (fr_root fr) fr" using h(1) by (simp add: sort_frame_def)
    moreover have "xs \<noteq> []" using True by auto
    ultimately obtain fr' where "hsort mc a 2 fr = Some (True, fr')" "holds a (heap_sort cmp xs) fr'"
      using sort_order.hsort_sorts [OF so _ assms] heap_sort_some [OF so] by blast
    then show ?thesis using array_sort_hsort [OF assms h(1), of mc] True heap_sort_keeps [of cmp xs] comparison.heap_sort_sorts [OF h(3), of xs]
      by auto
  qed
qed

definition pair_frame :: "sqobj list \<Rightarrow> frame" where
  "pair_frame args = \<lparr>fr_stack = ORef KArray 5 # args,
     fr_world = sample_world\<lparr>w_arrays := [5 \<mapsto> mkvec [OInteger 2, OInteger 1] 0]\<rparr>, fr_root = ONull, fr_udsize = (\<lambda>_. 0)\<rparr>"

text \<open>A machine whose functions compare their last two arguments.\<close>

definition comparing :: machine where
  "comparing = sample_machine\<lparr>mc_call := (\<lambda>f args w. (Some (OInteger (word_of_int (place_order (args ! 1) (args ! 2)))), w))\<rparr>"

lemma pair_frame_holds: "holds 5 [OInteger 2, OInteger 1] (pair_frame args)"
  by (auto simp: holds_def array_at_def pair_frame_def)

theorem sort_sorts_witness:
  "(\<exists>fr' ys. array_sort sample_machine (pair_frame []) = Some (0, fr') \<and> holds 5 ys fr' \<and>
      mset ys = mset [OInteger 2, OInteger 1] \<and> sorted_wrt (\<lambda>x y. place x \<le> place y) ys) \<and>
   (\<exists>fr' ys. array_sort comparing (pair_frame [ONull]) = Some (0, fr') \<and> holds 5 ys fr' \<and>
      mset ys = mset [OInteger 2, OInteger 1] \<and> sorted_wrt (\<lambda>x y. place_order x y \<le> 0) ys)"
proof
  have "fr_stack (pair_frame []) = [ORef KArray 5] \<and> set [OInteger 2, OInteger 1] \<subseteq> sortable (1, KTable) (fr_world (pair_frame []))"
    by (simp add: pair_frame_def sortable_def ordered_def has_delegate_def)
  with conjunct1 [OF sort_sorts [OF pair_frame_holds, of "[]" "(1, KTable)" sample_machine]]
  show "\<exists>fr' ys. array_sort sample_machine (pair_frame []) = Some (0, fr') \<and> holds 5 ys fr' \<and>
      mset ys = mset [OInteger 2, OInteger 1] \<and> sorted_wrt (\<lambda>x y. place x \<le> place y) ys" by blast
  have "answers comparing ONull (fr_root (pair_frame [ONull])) (set [OInteger 2, OInteger 1]) place_order"
    by (auto simp: answers_def comparing_def sq_isnumeric_def tointeger_def order_of_def)
  moreover have "leaves_array comparing 5" by (simp add: leaves_array_def comparing_def)
  moreover have "fr_stack (pair_frame [ONull]) = [ORef KArray 5, ONull]" by (simp add: pair_frame_def)
  ultimately show "\<exists>fr' ys. array_sort comparing (pair_frame [ONull]) = Some (0, fr') \<and> holds 5 ys fr' \<and>
      mset ys = mset [OInteger 2, OInteger 1] \<and> sorted_wrt (\<lambda>x y. place_order x y \<le> 0) ys"
    using conjunct2 [OF sort_sorts [OF pair_frame_holds, of "[ONull]" "(1, KTable)" comparing ONull place_order]]
      by_place.comparison_axioms by blast
qed

text \<open>
  C36. \<open>sort\<close> keeps the elements whatever the function does.  With any function that leaves the
  array alone, also one that throws, gives no number or contradicts itself, \<open>sort\<close> returns, reads
  and writes nothing outside of the array, and leaves a permutation of the elements.
\<close>

theorem sort_keeps_elements:
  assumes "holds a xs fr" "fr_stack fr = [ORef KArray a, f]" "leaves_array mc a"
  shows "\<exists>r fr' ys. array_sort mc fr = Some (r, fr') \<and> r \<in> {0, SQ_ERROR} \<and> holds a ys fr' \<and> mset ys = mset xs"
proof (cases "length xs > 1")
  case False
  then show ?thesis using assms array_sort_hsort [OF assms(1,2)] by auto
next
  case True
  note sr = sort_run_call [OF assms(3), of f "fr_root fr"]
  have "sort_run.permuted a (sort_frame a f (fr_root fr)) xs (hsort mc a 2 fr)"
    by (rule sort_run.hsort_permutes [OF sr]) (use assms True in \<open>auto simp: sort_frame_def\<close>)
  then obtain ok fr' ys where "hsort mc a 2 fr = Some (ok, fr')" "holds a ys fr'" "mset ys = mset xs"
    unfolding sort_run.permuted_def [OF sr] by blast
  then show ?thesis using array_sort_hsort [OF assms(1,2), of mc] True by auto
qed

theorem sort_keeps_elements_witness:
  "\<exists>r fr' ys. array_sort sample_machine (pair_frame [ONull]) = Some (r, fr') \<and> r \<in> {0, SQ_ERROR} \<and> holds 5 ys fr' \<and>
     mset ys = mset [OInteger 2, OInteger 1]"
  by (rule sort_keeps_elements [OF pair_frame_holds]) (simp_all add: pair_frame_def leaves_array_def sample_machine_def)

end
