(* ===== verification/NativeProps.thy ===== *)
theory NativeProps
  imports Natives AccessProps
begin

text \<open>
  Properties of the functions of values: numbers and their texts, slices, and the stack of the
  interface.
\<close>

section \<open>Numbers and their texts\<close>

lemma of_char_digit: "n < 10 \<Longrightarrow> (of_char (digit n) :: nat) = 48 + n"
  by (simp add: digit_def)

lemma isdigit_digit [simp]: "isdigit (digit n)"
  by (simp add: isdigit_def digit_def)

lemma set_decimal: "c \<in> set (decimal n) \<Longrightarrow> isdigit c"
proof (induction n rule: decimal.induct)
  case (1 n)
  then show ?case by (subst (asm) decimal.simps) (auto split: if_splits)
qed

lemma decimal_text_nonempty [simp]: "decimal n \<noteq> []"
  by (simp add: decimal.simps)

lemma digits_value_append:
  "(\<And>c. c \<in> set s \<Longrightarrow> isdigit c) \<Longrightarrow> digits_value k (s @ t) = digits_value (digits_value k s) t"
  by (induction s arbitrary: k) auto

lemma digits_value_decimal: "digits_value 0 (decimal n) = n"
proof (induction n rule: decimal.induct)
  case (1 n)
  show ?case
  proof (cases "n < 10")
    case True
    then show ?thesis by (simp add: decimal.simps of_char_digit)
  next
    case False
    have "digits_value 0 (decimal (n div 10) @ [digit n]) = digits_value (digits_value 0 (decimal (n div 10))) [digit n]"
      by (rule digits_value_append) (rule set_decimal)
    also have "\<dots> = 10 * (n div 10) + n mod 10"
      using False 1 isdigit_digit [of n] by (simp add: digit_def del: isdigit_digit)
    also have "\<dots> = n" by simp
    finally show ?thesis using False by (subst decimal.simps) simp
  qed
qed

lemma decimal_head: "\<exists>c cs. decimal n = c # cs \<and> isdigit c"
  using decimal_text_nonempty [of n] set_decimal [of "hd (decimal n)" n] by (cases "decimal n") auto

lemma digit_plain: "isdigit c \<Longrightarrow> \<not> isspace c \<and> c \<noteq> CHR ''-'' \<and> c \<noteq> CHR ''+''"
  by (auto simp: isdigit_def isspace_def)

lemma strtol_int_text: "strtol (int_text (sint i)) = Some (i :: sqint)"
proof (cases "sint i < 0")
  case True
  obtain c cs where d: "decimal (nat (- sint i)) = c # cs" "isdigit c" using decimal_head by blast
  have "\<not> isspace CHR ''-''" by (simp add: isspace_def)
  then have "strtol (int_text (sint i)) = Some (word_of_int (max (- (2 ^ 63)) (sint i)))"
    using True digits_value_decimal [of "nat (- sint i)"] d by (simp add: strtol_def int_text_def Let_def)
  moreover have "- (2 ^ 63) \<le> sint i" using sint_greater_eq [of i] by simp
  ultimately show ?thesis by (simp add: max_def)
next
  case False
  obtain c cs where d: "decimal (nat (sint i)) = c # cs" "isdigit c" using decimal_head by blast
  have "strtol (int_text (sint i)) = Some (word_of_int (min (2 ^ 63 - 1) (sint i)))"
    using False digits_value_decimal [of "nat (sint i)"] d digit_plain [OF d(2)] by (simp add: strtol_def int_text_def Let_def)
  moreover have "min (2 ^ 63 - 1) (sint i) = sint i" using sint_less [of i] by simp
  ultimately show ?thesis by (simp only: of_int_sint scast_id)
qed

lemma int_text_chars: "c \<in> set (int_text i) \<Longrightarrow> isdigit c \<or> c = CHR ''-''"
  by (auto simp: int_text_def set_decimal split: if_splits)

lemma str2num_int_text: "str2num strtod (int_text (sint i)) = Some (OInteger i)"
proof -
  have n: "CHR 0x00 \<notin> set (int_text (sint i))" "CHR ''.'' \<notin> set (int_text (sint i))" "CHR ''E'' \<notin> set (int_text (sint i))"
    "CHR ''e'' \<notin> set (int_text (sint i))"
    using int_text_chars [of _ "sint i"] by (force simp: isdigit_def)+
  then have "cstr (int_text (sint i)) = int_text (sint i)"
    by (auto simp: cstr_def takeWhile_eq_all_conv)
  with n show ?thesis by (simp add: str2num_def strtol_int_text)
qed

text \<open>
  C37. The text of an integer reads back as the integer.  \<open>tostring\<close> gives a text whatever the
  integer, also the least one, and \<open>tointeger\<close> of that text gives the same integer.
\<close>

theorem text_round_trip:
  assumes "fr_stack fr = [OInteger i]"
  shows "\<exists>fr1 s. default_delegate_tostring mc fr = Some (1, fr1) \<and> slot (- 1) fr1 = Some (OString s) \<and>
    (\<forall>fr2. fr_stack fr2 = [OString s] \<longrightarrow>
       (\<exists>fr3. default_delegate_tointeger strtod fr2 = Some (1, fr3) \<and> slot (- 1) fr3 = Some (OInteger i)))"
proof (intro exI conjI allI impI)
  let ?s = "int_text (sint i)"
  show "default_delegate_tostring mc fr = Some (1, Push (OString ?s) fr)"
    using assms by (simp add: default_delegate_tostring_def sq_tostring_def slot_def stack_index_def sq_gettop_def ToString_def
        on_world_def push_result_def)
  show "slot (- 1) (Push (OString ?s) fr) = Some (OString ?s)" using assms by (simp add: slot_def stack_index_def sq_gettop_def Push_def)
  fix fr2 :: frame assume f: "fr_stack fr2 = [OString ?s]"
  then show "default_delegate_tointeger strtod fr2 = Some (1, Push (OInteger i) fr2)"
    using str2num_int_text [of strtod i]
    by (simp add: default_delegate_tointeger_def slot_def stack_index_def sq_gettop_def returns_def tointeger_def)
  show "slot (- 1) (Push (OInteger i) fr2) = Some (OInteger i)" using f by (simp add: slot_def stack_index_def sq_gettop_def Push_def)
qed

definition one_frame :: "sqobj \<Rightarrow> frame" where
  "one_frame v = \<lparr>fr_stack = [v], fr_world = sample_world, fr_root = ONull, fr_udsize = (\<lambda>_. 0)\<rparr>"

theorem text_round_trip_witness:
  "\<exists>fr1 s. default_delegate_tostring sample_machine (one_frame (OInteger (- (2 ^ 63)))) = Some (1, fr1) \<and> slot (- 1) fr1 = Some (OString s)"
  using text_round_trip [of "one_frame (OInteger (- (2 ^ 63)))" "- (2 ^ 63)" sample_machine "\<lambda>_. None"] by (auto simp: one_frame_def)

end
