(* ===== verification/ApiProps.thy ===== *)
theory ApiProps
  imports Api AccessProps
begin

text \<open>
  What the functions of the interface do with the stack: which slots they take and which they
  leave, when they succeed and when they fail.
\<close>

section \<open>A calculus\<close>

text \<open>The stack is \<open>st\<close> and the top of the machine is with it, above the base \<open>b\<close>.\<close>

definition at :: "sqobj list \<Rightarrow> int \<Rightarrow> frame \<Rightarrow> bool" where
  "at st b fr \<longleftrightarrow> fr_stack fr = st \<and> w_top (fr_world fr) = b + int (length st)"

lemma at_Push: "at st b fr \<Longrightarrow> at (st @ [v]) b (Push v fr)"
  by (simp add: at_def Push_def push_args_def)

lemma at_raise: "at st b fr \<Longrightarrow> at st b (raise e fr)"
  by (simp add: at_def raise_def w_error_def)

lemma at_world: "at st b fr \<Longrightarrow> w_top w = w_top (fr_world fr) \<Longrightarrow> at st b (fr\<lparr>fr_world := w\<rparr>)"
  by (simp add: at_def)

text \<open>How a function ends: with a result, and with a stack.\<close>

definition returns :: "int \<Rightarrow> sqobj list \<Rightarrow> int \<Rightarrow> (int \<times> frame) option \<Rightarrow> bool" where
  "returns r st b m \<longleftrightarrow> (\<exists>fr. m = Some (r, fr) \<and> at st b fr)"

lemma returns_Some: "at st b fr \<Longrightarrow> returns r st b (Some (r, fr))"
  by (simp add: returns_def)

lemma returns_throw: "at st b fr \<Longrightarrow> returns SQ_ERROR st b (sq_throwerror e fr)"
  by (simp add: returns_def sq_throwerror_def at_raise)

lemma returns_raise: "at st b fr \<Longrightarrow> returns SQ_ERROR st b (Some (SQ_ERROR, fr\<lparr>fr_world := Raise_IdxError mc key (fr_world fr)\<rparr>))"
  by (simp add: returns_def at_def Raise_IdxError_def w_error_def)

lemma returns_Pop:
  assumes "at (st @ xs) b fr" "n = length xs" "\<And>fr'. at st b fr' \<Longrightarrow> returns r ss b (f fr')"
  shows "returns r ss b (Pop n fr \<bind> f)"
proof -
  have "Pop n fr = Some (fr\<lparr>fr_stack := st, fr_world := pop_args n (fr_world fr)\<rparr>)"
    using assms(1,2) by (simp add: Pop_def at_def)
  moreover have "at st b (fr\<lparr>fr_stack := st, fr_world := pop_args n (fr_world fr)\<rparr>)"
    using assms(1,2) by (simp add: at_def pop_args_def)
  ultimately show ?thesis using assms(3) by simp
qed

lemma returns_set:
  assumes "at (st @ [k]) b fr" "\<And>fr'. at (st @ [v]) b fr' \<Longrightarrow> returns r ss b (f fr')"
  shows "returns r ss b (set_slot (- 1) v fr \<bind> f)"
proof -
  have "set_slot (- 1) v fr = Some (fr\<lparr>fr_stack := st @ [v]\<rparr>)"
    using assms(1) by (simp add: set_slot_def stack_index_def sq_gettop_def at_def)
  moreover have "at (st @ [v]) b (fr\<lparr>fr_stack := st @ [v]\<rparr>)" using assms(1) by (simp add: at_def)
  ultimately show ?thesis using assms(2) by simp
qed

lemma returns_world:
  assumes "at st b fr" "f (fr_world fr) = Done (x, w)" "level (w_top (fr_world fr)) (f (fr_world fr))"
    and "\<And>fr'. at st b fr' \<Longrightarrow> returns r ss b' (g (x, fr'))"
  shows "returns r ss b' (on_world f fr \<bind> g)"
proof -
  have "w_top w = w_top (fr_world fr)" using assms(2,3) by simp
  then have "at st b (fr\<lparr>fr_world := w\<rparr>)" using assms(1) by (rule_tac at_world)
  then show ?thesis using assms(2,4) by (simp add: on_world_def)
qed

text \<open>The ends of most functions.\<close>

lemma popped:
  "at (st @ [k]) b fr \<Longrightarrow> returns r st b (Pop (Suc 0) fr \<bind> (\<lambda>fr. Some (r, fr)))"
  "at (st @ [k, v]) b fr \<Longrightarrow> returns r st b (Pop 2 fr \<bind> (\<lambda>fr. Some (r, fr)))"
  "at (st @ [k]) b fr \<Longrightarrow> returns SQ_ERROR st b (Pop (Suc 0) fr \<bind> sq_throwerror e)"
  "at (st @ [k, v]) b fr \<Longrightarrow> returns SQ_ERROR st b (Pop 2 fr \<bind> sq_throwerror e)"
proof -
  show "at (st @ [k]) b fr \<Longrightarrow> returns r st b (Pop (Suc 0) fr \<bind> (\<lambda>fr. Some (r, fr)))"
    "at (st @ [k]) b fr \<Longrightarrow> returns SQ_ERROR st b (Pop (Suc 0) fr \<bind> sq_throwerror e)"
    by (erule returns_Pop, simp, simp add: returns_Some returns_throw)+
  show "at (st @ [k, v]) b fr \<Longrightarrow> returns r st b (Pop 2 fr \<bind> (\<lambda>fr. Some (r, fr)))"
    "at (st @ [k, v]) b fr \<Longrightarrow> returns SQ_ERROR st b (Pop 2 fr \<bind> sq_throwerror e)"
    by (erule returns_Pop, simp, simp add: returns_Some returns_throw)+
qed

lemma replaced: "at (st @ [k]) b fr \<Longrightarrow> returns r (st @ [v]) b (set_slot (- 1) v fr \<bind> (\<lambda>fr. Some (r, fr)))"
  by (rule returns_set) (auto intro: returns_Some)

text \<open>The last slots of a stack.\<close>

lemma at_last:
  "at (st @ [v]) b fr \<Longrightarrow> slot (- 1) fr = Some v"
  "at (st @ [k, v]) b fr \<Longrightarrow> slot (- 1) fr = Some v \<and> slot (- 2) fr = Some k"
  by (auto simp: at_def slot_def stack_index_def sq_gettop_def nth_append Let_def)

lemma at_top: "at st b fr \<Longrightarrow> sq_gettop fr = int (length st)"
  by (simp add: at_def sq_gettop_def)

lemma sqobjtype_kind: "sqobjtype ob = ot_kind k \<longleftrightarrow> (\<exists>a. ob = ORef k a)"
proof (cases ob)
  case (ORef l a)
  then show ?thesis by (cases k; cases l) (simp_all add: type_code_simps)
qed (cases k; simp add: type_code_simps)+

lemma GETSAFE_kind:
  assumes "slot idx fr = Some self"
  shows "\<forall>a. self \<noteq> ORef k a \<Longrightarrow> at st b fr \<Longrightarrow> returns SQ_ERROR st b (GETSAFE mc idx (ot_kind k) fr f)"
    "self = ORef k a \<Longrightarrow> GETSAFE mc idx (ot_kind k) fr f = f self fr"
  using assms by (auto simp: GETSAFE_def gettypedarg_def sqobjtype_kind returns_def intro: at_raise)

section \<open>The contract\<close>

text \<open>The slot that a value takes, when there is one.\<close>

definition got :: "sqobj option \<Rightarrow> sqobj list" where
  "got r = (case r of None \<Rightarrow> [] | Some v \<Rightarrow> [v])"

lemma got_simps [simp]: "got None = []" "got (Some v) = [v]"
  by (simp_all add: got_def)

lemma code_simps [simp]: "code True = SQ_OK" "code False = SQ_ERROR"
  by (simp_all add: code_def)

text \<open>Calls of the interface on the object at a position.\<close>

datatype api_call =
    CGet nat | CRawGet | CClone addr | CRawSet addr | CNewSlot addr bool | CDeleteSlot bool
  | CArrayAppend | CSetDelegate | CCall bool

fun api_run :: "machine \<Rightarrow> int \<Rightarrow> nat \<Rightarrow> api_call \<Rightarrow> frame \<Rightarrow> (int \<times> frame) option" where
  "api_run mc idx n (CGet fuel) fr = sq_get mc fuel idx fr"
| "api_run mc idx n CRawGet fr = sq_rawget mc idx fr"
| "api_run mc idx n (CClone new) fr = sq_clone mc new idx fr"
| "api_run mc idx n (CRawSet new) fr = sq_rawset mc new idx fr"
| "api_run mc idx n (CNewSlot new bstatic) fr = sq_newslot mc new idx bstatic fr"
| "api_run mc idx n (CDeleteSlot pushval) fr = sq_deleteslot mc idx pushval fr"
| "api_run mc idx n CArrayAppend fr = sq_arrayappend mc idx fr"
| "api_run mc idx n CSetDelegate fr = sq_setdelegate idx fr"
| "api_run mc idx n (CCall retval) fr = sq_call mc (n - 1) retval fr"

text \<open>What a raw lookup finds, by the type of the object; an object or a key of another type has no slots.\<close>

definition raw_slot :: "sqobj \<Rightarrow> sqobj \<Rightarrow> world \<Rightarrow> sqobj option option" where
  "raw_slot self key w =
     (case self of
        ORef KTable a \<Rightarrow> Option.bind (w_tables w a) (\<lambda>t. Table_Get (w_weak w) t key)
      | ORef KClass a \<Rightarrow> Option.bind (oh_classes (w_objs w) a) (\<lambda>c. defined (Class_Get (w_weak w) c key))
      | ORef KInstance a \<Rightarrow> defined (Instance_Get (w_weak w) a key (w_objs w))
      | ORef KArray a \<Rightarrow>
          if sq_isnumeric key then Option.bind (w_arrays w a) (\<lambda>arr. Array_Get (w_weak w) arr (sint (tointeger key)))
          else Some None
      | _ \<Rightarrow> Some None)"

text \<open>Whether a raw store succeeds; null is no key, and an object of another type is \<open>None\<close>.\<close>

definition raw_store :: "machine \<Rightarrow> addr \<Rightarrow> sqobj \<Rightarrow> sqobj \<Rightarrow> sqobj \<Rightarrow> world \<Rightarrow> bool option option" where
  "raw_store mc new self key val w =
     (if key = ONull then Some None
      else case self of
        ORef KTable a \<Rightarrow> map_option (\<lambda>_. Some True) (Option.bind (w_tables w a) (\<lambda>t. Table_NewSlot t key val))
      | ORef KClass a \<Rightarrow>
          map_option (\<lambda>_. Some True) (defined (Class_NewSlot (w_weak w) (mc_metastate mc) new a key val False (w_objs w)))
      | ORef KInstance a \<Rightarrow> map_option (\<lambda>(ok, _). Some ok) (defined (Instance_Set (w_weak w) a key val (w_objs w)))
      | ORef KArray a \<Rightarrow> map_option (\<lambda>(ok, _). Some ok) (defined (Set mc 1 self key val 0 w))
      | _ \<Rightarrow> Some None)"

text \<open>
  The contract: the result of a call on the object \<open>self\<close> and the stack it leaves, when the arguments of the call
  lie on top of the stack \<open>st\<close>; \<open>None\<close> where the arguments are missing or the operation behind the
  call has no result.
\<close>

fun contract :: "machine \<Rightarrow> api_call \<Rightarrow> sqobj \<Rightarrow> sqobj list \<Rightarrow> sqobj list \<Rightarrow> world \<Rightarrow> (int \<times> sqobj list) option" where
  "contract mc (CGet fuel) self st [key] w =
     map_option (\<lambda>(r, _). (code (r \<noteq> None), st @ got r)) (defined (Get mc fuel self key False DONT_FALL_BACK w))"
| "contract mc CRawGet self st [key] w = map_option (\<lambda>r. (code (r \<noteq> None), st @ got r)) (raw_slot self key w)"
| "contract mc (CClone new) self st [] w =
     map_option (\<lambda>(r, _). (code (r \<noteq> None), st @ got r)) (defined (Clone mc new self (push_args 1 w)))"
| "contract mc (CRawSet new) self st [key, val] w =
     map_option (\<lambda>r. case r of
         Some True \<Rightarrow> (SQ_OK, st)
       | Some False \<Rightarrow> (SQ_ERROR, st @ [key, val])
       | None \<Rightarrow> (SQ_ERROR, st)) (raw_store mc new self key val w)"
| "contract mc (CNewSlot new bstatic) self st [key, val] w =
     (if st = [] then Some (SQ_ERROR, st @ [key, val])
      else case self of
        ORef k a \<Rightarrow>
          if k \<noteq> KTable \<and> k \<noteq> KClass then Some (SQ_OK, st @ [key, val])
          else if key = ONull then Some (SQ_ERROR, st @ [key, val])
          else map_option (\<lambda>_. (SQ_OK, st)) (defined (NewSlot mc new self key val bstatic w))
      | _ \<Rightarrow> Some (SQ_OK, st @ [key, val]))"
| "contract mc (CDeleteSlot pushval) self st [key] w =
     (case self of
        ORef KTable a \<Rightarrow>
          if st = [] \<or> key = ONull then Some (SQ_ERROR, st @ [key])
          else map_option (\<lambda>(r, _). (code (r \<noteq> None), st @ (if pushval then got r else []))) (defined (DeleteSlot mc self key w))
      | _ \<Rightarrow> Some (SQ_ERROR, st @ [key]))"
| "contract mc CArrayAppend self st [v] w =
     (case self of
        ORef KArray a \<Rightarrow>
          if st = [] then Some (SQ_ERROR, st @ [v])
          else map_option (\<lambda>_. (SQ_OK, st)) (Option.bind (w_arrays w a) (Array_Append v))
      | _ \<Rightarrow> Some (SQ_ERROR, st @ [v]))"
| "contract mc CSetDelegate self st [mt] w =
     (case (self, mt) of
        (ORef KTable a, ORef KTable d) \<Rightarrow>
          map_option (\<lambda>(ok, _). (code ok, if ok then st else st @ [mt])) (SetDelegate a (Some d) (\<lambda>x. delegate_of x w))
      | (ORef KTable a, ONull) \<Rightarrow> map_option (\<lambda>_. (SQ_OK, st)) (SetDelegate a None (\<lambda>x. delegate_of x w))
      | (ORef KUserData a, ORef KTable d) \<Rightarrow> map_option (\<lambda>_. (SQ_OK, st)) (SetDelegate a (Some d) (\<lambda>x. delegate_of x w))
      | (ORef KUserData a, ONull) \<Rightarrow> map_option (\<lambda>_. (SQ_OK, st)) (SetDelegate a None (\<lambda>x. delegate_of x w))
      | _ \<Rightarrow> Some (SQ_ERROR, st @ [mt]))"
| "contract mc (CCall retval) self st (f # args) w =
     (case mc_call mc f args w of
        (None, _) \<Rightarrow> Some (SQ_ERROR, st @ [f])
      | (Some v, w') \<Rightarrow> Some (SQ_OK, st @ [f] @ (if w_suspended w' then args else []) @ (if retval then [v] else [])))"
| "contract _ _ _ _ _ _ = None"

section \<open>Each function\<close>

lemma get_returns:
  assumes "balanced mc" "slot idx fr = Some self" "at (st @ [key]) b fr"
    and "Get mc fuel self key False DONT_FALL_BACK (fr_world fr) = Done (r, w)"
  shows "returns (code (r \<noteq> None)) (st @ got r) b (sq_get mc fuel idx fr)"
  unfolding sq_get_def using assms(2) at_last(1) [OF assms(3)]
  by (cases r) (auto intro!: returns_world [where f = "Get mc fuel self key False DONT_FALL_BACK", OF assms(3,4) Get_level [OF assms(1)]] intro: popped replaced)

lemma Some_map_option: "Some x = map_option f m \<longleftrightarrow> (\<exists>z. m = Some z \<and> x = f z)"
  by (cases m) auto

lemma defined_Some: "defined m = Some x \<longleftrightarrow> m = Done x"
  by (cases m) auto

lemma defined_table_get: "defined (table_get a key w) = Option.bind (w_tables w a) (\<lambda>t. Table_Get (w_weak w) t key)"
  by (cases "w_tables w a"; cases "Table_Get (w_weak w) (the (w_tables w a)) key") (simp_all add: table_get_def)

lemma rawget_returns:
  assumes "slot idx fr = Some self" "at (st @ [key]) b fr" "raw_slot self key (fr_world fr) = Some r"
  shows "returns (code (r \<noteq> None)) (st @ got r) b (sq_rawget mc idx fr)"
proof -
  have throw: "returns SQ_ERROR st b (Pop 1 fr \<bind> sq_throwerror e)" for e
    using popped(3) [OF assms(2)] by simp
  have "returns (code (q \<noteq> None)) (st @ got q) b
      (case q of Some v \<Rightarrow> set_slot (- 1) v fr \<bind> (\<lambda>fr. Some (SQ_OK, fr)) | None \<Rightarrow> Pop 1 fr \<bind> sq_throwerror e)" for q e
    using throw by (cases q) (auto intro: replaced [OF assms(2)])
  then show ?thesis using assms(1,3) at_last(1) [OF assms(2)] throw
    by (cases self; cases "case self of ORef k a \<Rightarrow> k | _ \<Rightarrow> KTable")
      (auto simp: sq_rawget_def Let_def raw_slot_def defined_table_get bind_eq_Some_conv simp del: One_nat_def split: if_splits)
qed

lemma clone_returns:
  assumes "balanced mc" "slot idx fr = Some self" "at st b fr" "Clone mc new self (fr_world (Push ONull fr)) = Done (r, w)"
  shows "returns (code (r \<noteq> None)) (st @ got r) b (sq_clone mc new idx fr)"
  unfolding sq_clone_def using assms(2)
  by (cases r) (auto simp: Let_def intro!: returns_world [where f = "Clone mc new self", OF at_Push [OF assms(3)] assms(4) Clone_level [OF assms(1)]]
      intro: popped replaced)

lemma newslot_returns:
  assumes "balanced mc" "slot idx fr = Some self" "at (st @ [key, val]) b fr"
  shows "st = [] \<Longrightarrow> returns SQ_ERROR (st @ [key, val]) b (sq_newslot mc c idx bs fr)"
    "st \<noteq> [] \<Longrightarrow> \<forall>a. self \<noteq> ORef KTable a \<and> self \<noteq> ORef KClass a \<Longrightarrow> returns SQ_OK (st @ [key, val]) b (sq_newslot mc c idx bs fr)"
    "st \<noteq> [] \<Longrightarrow> self = ORef KTable a \<or> self = ORef KClass a \<Longrightarrow> key = ONull \<Longrightarrow>
       returns SQ_ERROR (st @ [key, val]) b (sq_newslot mc c idx bs fr)"
    "st \<noteq> [] \<Longrightarrow> self = ORef KTable a \<or> self = ORef KClass a \<Longrightarrow> key \<noteq> ONull \<Longrightarrow>
       NewSlot mc c self key val bs (fr_world fr) = Done (ok, w) \<Longrightarrow> returns SQ_OK st b (sq_newslot mc c idx bs fr)"
proof -
  have l: "sq_gettop fr < 3 \<longleftrightarrow> st = []" unfolding at_top [OF assms(3)] by (cases st) simp_all
  let ?make = "on_world (NewSlot mc c self key val bs) fr \<bind> (\<lambda>(_, fr). Pop 2 fr \<bind> (\<lambda>fr. Some (SQ_OK, fr)))"
  have s: "sq_newslot mc c idx bs fr =
      (if (\<exists>a. self = ORef KTable a) \<or> (\<exists>a. self = ORef KClass a)
       then if key = ONull then sq_throwerror ''null is not a valid key'' fr else ?make else Some (SQ_OK, fr))" if "st \<noteq> []"
    using that assms(2) at_last(2) [OF assms(3)] by (simp only: sq_newslot_def paramscheck_def l sqobjtype_kind) simp
  show "st = [] \<Longrightarrow> returns SQ_ERROR (st @ [key, val]) b (sq_newslot mc c idx bs fr)"
    using returns_throw [OF assms(3)] l by (simp add: sq_newslot_def paramscheck_def)
  show "returns SQ_OK (st @ [key, val]) b (sq_newslot mc c idx bs fr)" if "st \<noteq> []" "\<forall>a. self \<noteq> ORef KTable a \<and> self \<noteq> ORef KClass a"
    using returns_Some [OF assms(3)] that(2) unfolding s [OF that(1)] by simp
  show "returns SQ_ERROR (st @ [key, val]) b (sq_newslot mc c idx bs fr)"
    if "st \<noteq> []" "self = ORef KTable a \<or> self = ORef KClass a" "key = ONull"
    using returns_throw [OF assms(3)] that(2,3) unfolding s [OF that(1)] by (elim disjE) simp_all
  assume n: "st \<noteq> []" "self = ORef KTable a \<or> self = ORef KClass a" "key \<noteq> ONull"
    "NewSlot mc c self key val bs (fr_world fr) = Done (ok, w)"
  have "returns SQ_OK st b ?make"
    by (rule returns_world [where f = "NewSlot mc c self key val bs", OF assms(3) n(4) NewSlot_level [OF assms(1)]]) (auto intro: popped)
  then show "returns SQ_OK st b (sq_newslot mc c idx bs fr)" using n(2,3) unfolding s [OF n(1)] by (elim disjE) simp_all
qed

lemma rawset_array_level: "level (w_top w) (Set mc 1 (ORef KArray a) key val i w)"
  unfolding One_nat_def Set.simps Let_def
  by (auto simp: Raise_IdxError_def w_error_def intro!: wp_pass wp_if split: prod.split)


lemma rawset_returns:
  assumes "slot idx fr = Some self" "at (st @ [key, val]) b fr" "raw_store mc new self key val (fr_world fr) = Some r"
  shows "returns (code (r = Some True)) (if r = Some False then st @ [key, val] else st) b (sq_rawset mc new idx fr)"
proof -
  have fin: "returns SQ_OK st b (Pop 2 fr' \<bind> (\<lambda>fr. Some (SQ_OK, fr)))" if "at (st @ [key, val]) b fr'" for fr'
    using that by (auto intro: popped)
  have throw: "returns SQ_ERROR st b (Pop 2 fr \<bind> sq_throwerror e)" for e
    by (rule popped(4) [OF assms(2)])
  have w: "at (st @ [key, val]) b (fr\<lparr>fr_world := put_table a t (fr_world fr)\<rparr>)"
    "at (st @ [key, val]) b (fr\<lparr>fr_world := (fr_world fr)\<lparr>w_objs := h\<rparr>\<rparr>)" for a t h
    using assms(2) by (simp_all add: at_def put_table_def)
  note s = at_last(2) [OF assms(2)] assms(1)
  show ?thesis
  proof (cases "key = ONull")
    case True
    then show ?thesis using s assms(3) throw by (simp add: sq_rawset_def raw_store_def Let_def)
  next
    case False
    note k = s False
    have array: ?thesis if a: "self = ORef KArray a" for a
    proof -
      obtain ok w where o: "Set mc 1 self key val 0 (fr_world fr) = Done (ok, w)" "r = Some ok"
        using assms(3) a False by (auto simp: raw_store_def simp: defined_Some Some_map_option)
      have "returns (code ok) (if \<not> ok then st @ [key, val] else st) b (on_world (Set mc 1 self key val 0) fr \<bind>
          (\<lambda>(ok, fr). if ok then Pop 2 fr \<bind> (\<lambda>fr. Some (SQ_OK, fr))
            else Some (SQ_ERROR, fr\<lparr>fr_world := Raise_IdxError mc key (fr_world fr)\<rparr>)))"
        by (rule returns_world [where f = "Set mc 1 self key val 0", OF assms(2) o(1)]) (use a fin rawset_array_level in \<open>auto simp del: Set.simps One_nat_def intro: returns_raise\<close>)
      then show ?thesis using k a o(2) by (simp add: sq_rawset_def Let_def del: Set.simps)
    qed
    show ?thesis
    proof (cases "\<exists>a. self = ORef KArray a")
      case True
      then show ?thesis using array by blast
    next
      case no: False
      then show ?thesis using k assms(3) fin [OF w(1)] fin [OF w(2)] returns_raise [OF w(2)] throw
        by (cases self; cases "case self of ORef k a \<Rightarrow> k | _ \<Rightarrow> KTable")
          (auto simp: sq_rawset_def raw_store_def Let_def bind_eq_Some_conv split: prod.splits simp: defined_Some Some_map_option)
    qed
  qed
qed

lemma deleteslot_returns:
  assumes "balanced mc" "slot idx fr = Some self" "at (st @ [key]) b fr"
  shows "st = [] \<or> key = ONull \<or> (\<forall>a. self \<noteq> ORef KTable a) \<Longrightarrow> returns SQ_ERROR (st @ [key]) b (sq_deleteslot mc idx pushval fr)"
    "st \<noteq> [] \<Longrightarrow> self = ORef KTable a \<Longrightarrow> key \<noteq> ONull \<Longrightarrow> DeleteSlot mc self key (fr_world fr) = Done (r, w) \<Longrightarrow>
       returns (code (r \<noteq> None)) (st @ (if pushval then got r else [])) b (sq_deleteslot mc idx pushval fr)"
proof -
  have l: "sq_gettop fr < 2 \<longleftrightarrow> st = []" unfolding at_top [OF assms(3)] by (cases st) simp_all
  note s = sq_deleteslot_def paramscheck_def l
  show "returns SQ_ERROR (st @ [key]) b (sq_deleteslot mc idx pushval fr)"
    if "st = [] \<or> key = ONull \<or> (\<forall>a. self \<noteq> ORef KTable a)"
  proof (cases "st = []")
    case True
    then show ?thesis using returns_throw [OF assms(3)] by (simp add: s)
  next
    case False
    show ?thesis
    proof (cases "\<exists>a. self = ORef KTable a")
      case True
      then have "key = ONull" using that False by blast
      then show ?thesis using True False GETSAFE_kind(2) [OF assms(2)] at_last(1) [OF assms(3)] returns_throw [OF assms(3)]
        by (auto simp add: s simp del: ot_kind.simps)
    next
      case no: False
      then have "\<forall>a. self \<noteq> ORef KTable a" by blast
      from GETSAFE_kind(1) [OF assms(2) this assms(3)] False show ?thesis by (simp add: s del: ot_kind.simps)
    qed
  qed
  assume n: "st \<noteq> []" "self = ORef KTable a" "key \<noteq> ONull" "DeleteSlot mc self key (fr_world fr) = Done (r, w)"
  have "returns (code (r \<noteq> None)) (st @ (if pushval then got r else [])) b (on_world (DeleteSlot mc self key) fr \<bind> (\<lambda>(r, fr).
      case r of None \<Rightarrow> Pop 1 fr \<bind> (\<lambda>fr. Some (SQ_ERROR, fr))
      | Some v \<Rightarrow> (if pushval then set_slot (- 1) v fr else Pop 1 fr) \<bind> (\<lambda>fr. Some (SQ_OK, fr))))"
    by (rule returns_world [where f = "DeleteSlot mc self key", OF assms(3) n(4) DeleteSlot_level [OF assms(1)]])
      (cases r; auto intro: popped replaced)
  then show "returns (code (r \<noteq> None)) (st @ (if pushval then got r else [])) b (sq_deleteslot mc idx pushval fr)"
    using n(1-3) GETSAFE_kind(2) [OF assms(2) n(2)] at_last(1) [OF assms(3)] by (simp add: s del: ot_kind.simps One_nat_def)
qed

lemma arrayappend_returns:
  assumes "slot idx fr = Some self" "at (st @ [v]) b fr"
  shows "st = [] \<or> (\<forall>a. self \<noteq> ORef KArray a) \<Longrightarrow> returns SQ_ERROR (st @ [v]) b (sq_arrayappend mc idx fr)"
    "st \<noteq> [] \<Longrightarrow> self = ORef KArray a \<Longrightarrow> w_arrays (fr_world fr) a = Some arr \<Longrightarrow> Array_Append v arr = Some arr' \<Longrightarrow>
       returns SQ_OK st b (sq_arrayappend mc idx fr)"
proof -
  have l: "sq_gettop fr < 2 \<longleftrightarrow> st = []" unfolding at_top [OF assms(2)] by (cases st) simp_all
  note s = sq_arrayappend_def paramscheck_def l
  show "returns SQ_ERROR (st @ [v]) b (sq_arrayappend mc idx fr)" if "st = [] \<or> (\<forall>a. self \<noteq> ORef KArray a)"
    using that returns_throw [OF assms(2)] GETSAFE_kind(1) [OF assms(1) _ assms(2)] by (auto simp add: s simp del: ot_kind.simps)
  assume n: "st \<noteq> []" "self = ORef KArray a" "w_arrays (fr_world fr) a = Some arr" "Array_Append v arr = Some arr'"
  have "at (st @ [v]) b (fr\<lparr>fr_world := put_array a arr' (fr_world fr)\<rparr>)" using assms(2) by (simp add: at_def put_array_def)
  then have "returns SQ_OK st b (Pop 1 (fr\<lparr>fr_world := put_array a arr' (fr_world fr)\<rparr>) \<bind> (\<lambda>fr. Some (SQ_OK, fr)))"
    by (auto intro: popped)
  then show "returns SQ_OK st b (sq_arrayappend mc idx fr)"
    using n GETSAFE_kind(2) [OF assms(1) n(2)] at_last(1) [OF assms(2)]
    by (simp add: s on_array_def addr_of_def del: ot_kind.simps One_nat_def)
qed

lemma setdelegate_returns:
  assumes "slot idx fr = Some self" "at (st @ [mt]) b fr" "contract mc CSetDelegate self st [mt] (fr_world fr) = Some (r, ss)"
  shows "returns r ss b (sq_setdelegate idx fr)"
proof -
  have pop: "returns SQ_OK st b (Pop 1 fr' \<bind> (\<lambda>fr. Some (SQ_OK, fr)))" if "at (st @ [mt]) b fr'" for fr'
    using that by (auto intro: popped)
  have w: "at (st @ [mt]) b (fr\<lparr>fr_world := put_delegate a d (fr_world fr)\<rparr>)" for a d
    using assms(2) by (auto simp: at_def put_delegate_def put_table_def split: option.splits)
  note s = sq_setdelegate_def set_delegate_def sq_aux_invalidtype_def Let_def assms(1) at_last(1) [OF assms(2)]
  have user: "self = ORef KUserData a \<Longrightarrow> ?thesis" for a
    using assms(3) pop [OF w] pop [OF assms(2)] returns_throw [OF assms(2)]
    by (cases mt; cases "case mt of ORef k a \<Rightarrow> k | _ \<Rightarrow> KTable") (auto simp: s simp del: One_nat_def)
  have tab: "self = ORef KTable a \<Longrightarrow> ?thesis" for a
    using assms(3) pop [OF w] pop [OF assms(2)] returns_throw [OF assms(2)]
    by (cases mt; cases "case mt of ORef k a \<Rightarrow> k | _ \<Rightarrow> KTable") (auto simp: s simp del: One_nat_def split: if_splits)
  show ?thesis
  proof (cases "\<exists>a. self = ORef KTable a \<or> self = ORef KUserData a")
    case True
    then show ?thesis using user tab by blast
  next
    case False
    then have "Some (r, ss) = Some (SQ_ERROR, st @ [mt])" "sq_setdelegate idx fr = sq_aux_invalidtype self fr"
      using assms(3) by (auto simp: s split: sqobj.splits refkind.splits)
    then show ?thesis using returns_throw [OF assms(2)] by (simp add: sq_aux_invalidtype_def)
  qed
qed

lemma call_returns:
  assumes "balanced mc" "at (st @ f # args) b fr"
  shows "mc_call mc f args (fr_world fr) = (None, w) \<Longrightarrow> returns SQ_ERROR (st @ [f]) b (sq_call mc (length args) retval fr)"
    "mc_call mc f args (fr_world fr) = (Some v, w) \<Longrightarrow>
       returns SQ_OK (st @ [f] @ (if w_suspended w then args else []) @ (if retval then [v] else [])) b (sq_call mc (length args) retval fr)"
proof -
  have f: "slot (- int (length args + 1)) fr = Some f" "drop (length (fr_stack fr) - length args) (fr_stack fr) = args"
    using assms(2) by (simp_all add: at_def slot_def stack_index_def sq_gettop_def Let_def nth_append)
  have at: "at ((st @ [f]) @ args) b (fr\<lparr>fr_world := w\<rparr>)" if "mc_call mc f args (fr_world fr) = (r, w)" for r
  proof -
    have "w_top (snd (mc_call mc f args (fr_world fr))) = w_top (fr_world fr)" using assms(1) by (simp add: balanced_def)
    then show ?thesis using assms(2) that by (simp add: at_def)
  qed
  note s = sq_call_def f f [simplified] Let_def
  show "returns SQ_ERROR (st @ [f]) b (sq_call mc (length args) retval fr)" if "mc_call mc f args (fr_world fr) = (None, w)"
    using returns_Pop [OF at [OF that] refl returns_Some] that by (simp add: s)
  assume c: "mc_call mc f args (fr_world fr) = (Some v, w)"
  have push: "returns SQ_OK (ss @ (if retval then [v] else [])) b (Some (SQ_OK, if retval then Push v fr' else fr'))"
    if "at ss b fr'" for ss fr'
    using that at_Push by (auto intro: returns_Some)
  show "returns SQ_OK (st @ [f] @ (if w_suspended w then args else []) @ (if retval then [v] else [])) b (sq_call mc (length args) retval fr)"
  proof (cases "w_suspended w")
    case True
    then show ?thesis using push [OF at [OF c]] c by (simp add: s)
  next
    case False
    have "returns SQ_OK ((st @ [f]) @ (if retval then [v] else [])) b
        (Pop (length args) (fr\<lparr>fr_world := w\<rparr>) \<bind> (\<lambda>fr. Some (SQ_OK, if retval then Push v fr else fr)))"
      by (rule returns_Pop [OF at [OF c] refl]) (rule push)
    then show ?thesis using False c by (simp add: s)
  qed
qed

section \<open>The discipline of the stack\<close>

text \<open>
  C38. What functions of the interface do with the stack of their caller, and what they return: reading with
  and without delegates, cloning, raw stores, new slots, deleting, appending to an array, setting a delegate
  and calling.  When metamethods and called functions leave the top of the stack as they found it, and the operation behind
  the call has a result, the call ends as its contract says, in each case.  Reading takes the key and gives
  the value, or takes the key and fails; cloning gives the copy or fails.  A raw store takes the key and
  the value, but leaves both when an instance or an array does not have the index.  A new slot takes both for
  a table or a class, whether or not it could be made; it leaves both with an error for a null key or a stack without an object,
  and leaves both with success for any other object.  Deleting takes the key and gives the value if it is
  wanted, but leaves a null key and the key of what is no table.  Appending and setting a delegate leave their argument
  when they fail.  A call takes the arguments unless the function suspended the machine, and gives the result if it is wanted.
  Nothing below these slots is touched.
\<close>

theorem stack_of_the_caller:
  assumes "balanced mc" "slot idx fr = Some self" "at (st @ args) b fr"
    and "contract mc call self st args (fr_world fr) = Some (r, ss)"
  shows "returns r ss b (api_run mc idx (length args) call fr)"
  using assms(4)
proof (rule contract.elims, goal_cases)
  case (1 mc' fuel self' st' key w)
  then show ?case using assms get_returns [OF assms(1,2), of st key b fuel] by (auto simp: defined_Some Some_map_option)
next
  case (2 mc' self' st' key w)
  then show ?case using assms rawget_returns [OF assms(2), of st key b] by (auto simp: Some_map_option)
next
  case (3 mc' new self' st' w)
  then show ?case using assms clone_returns [OF assms(1,2), of st b new] by (auto simp: Push_def defined_Some Some_map_option)
next
  case (4 mc' new self' st' key val w)
  then show ?case using assms rawset_returns [OF assms(2), of st key val b mc new]
    by (auto simp: Some_map_option split: option.splits bool.splits)
next
  case (5 mc' new bs self' st' key val w)
  then show ?case using assms newslot_returns [OF assms(1,2), where st = st and key = key and val = val and b = b and c = new and bs = bs]
    by (auto split: if_splits sqobj.splits simp: defined_Some Some_map_option)
next
  case (6 mc' pushval self' st' key w)
  then show ?case using assms deleteslot_returns [OF assms(1,2), where st = st and key = key and b = b and pushval = pushval]
    by (auto split: if_splits sqobj.splits refkind.splits simp: defined_Some Some_map_option)
next
  case (7 mc' self' st' v w)
  then show ?case using assms arrayappend_returns [OF assms(2), where st = st and v = v and b = b and mc = mc]
    by (auto simp: bind_eq_Some_conv Some_map_option split: if_splits sqobj.splits refkind.splits)
next
  case (8 mc' self' st' mt w)
  then show ?case using assms setdelegate_returns [OF assms(2), of st mt b mc] by auto
next
  case (9 mc' retval self' st' f as w)
  then show ?case using assms call_returns [OF assms(1), where st = st and f = f and args = as and b = b and fr = fr and retval = retval] by (auto split: prod.splits option.splits)
qed auto

definition sample_frame :: frame where
  "sample_frame = \<lparr>fr_stack = [ORef KTable 3, OInteger 7, OBool True], fr_world = sample_world\<lparr>w_top := 3\<rparr>,
     fr_root = ORef KTable 1, fr_udsize = (\<lambda>_. 0)\<rparr>"

theorem stack_of_the_caller_witness:
  "returns SQ_ERROR [ORef KTable 3, ONull, OBool True] 0
     (sq_newslot sample_machine 9 1 False (sample_frame\<lparr>fr_stack := [ORef KTable 3, ONull, OBool True]\<rparr>))"
proof -
  let ?fr = "sample_frame\<lparr>fr_stack := [ORef KTable 3, ONull, OBool True]\<rparr>"
  have "balanced sample_machine" "slot 1 ?fr = Some (ORef KTable 3)" "at ([ORef KTable 3] @ [ONull, OBool True]) 0 ?fr"
    by (simp_all add: balanced_def sample_machine_def at_def sample_frame_def slot_def stack_index_def sq_gettop_def)
  from stack_of_the_caller [OF this, of "CNewSlot 9 False"] show ?thesis by simp
qed

section \<open>A round trip through a table\<close>

lemma slot_kept: "1 \<le> i \<Longrightarrow> i \<le> length st \<Longrightarrow> fr_stack fr = st @ vs \<Longrightarrow> slot (int i) fr = Some (st ! (i - 1))"
  by (auto simp: slot_def stack_index_def sq_gettop_def nth_append nat_diff_distrib Let_def)

lemma slot_top: "fr_stack fr = st @ [v] \<Longrightarrow> slot (- 1) fr = Some v"
  "fr_stack fr = st @ [k, v] \<Longrightarrow> slot (- 1) fr = Some v \<and> slot (- 2) fr = Some k"
  by (auto simp: slot_def stack_index_def sq_gettop_def nth_append Let_def)

lemma set_slot_top: "fr_stack fr = st @ [k] \<Longrightarrow> set_slot (- 1) v fr = Some (fr\<lparr>fr_stack := st @ [v]\<rparr>)"
  by (simp add: set_slot_def stack_index_def sq_gettop_def Let_def)

lemma Pop_two: "fr_stack fr = st @ [k, v] \<Longrightarrow>
    Pop 2 fr = Some (fr\<lparr>fr_stack := st, fr_world := pop_args 2 (fr_world fr)\<rparr>)"
  by (simp add: Pop_def)

lemma rawget_of_table:
  assumes "1 \<le> i" "i \<le> length st" "st ! (i - 1) = ORef KTable a" "fr_stack fr = st"
    and "w_tables (fr_world fr) a = Some t" "table_inv t"
  shows "sq_rawget mc (int i) (Push k fr) = (case table_map t k of
      Some v \<Rightarrow> Some (SQ_OK, (Push k fr)\<lparr>fr_stack := st @ [realval (w_weak (fr_world fr)) v]\<rparr>)
    | None \<Rightarrow> Pop 1 (Push k fr) \<bind> sq_throwerror ''the index doesn't exist'')"
proof -
  have p: "fr_stack (Push k fr) = st @ [k]" using assms(4) by (simp add: Push_def)
  show ?thesis unfolding sq_rawget_def Let_def slot_kept [OF assms(1,2) p] slot_top(1) [OF p] set_slot_top [OF p]
    using assms(3,5) Get_refines [OF assms(6)]
    by (simp add: table_get_def Push_def push_args_def split: option.split)
qed

text \<open>
  C39. What the embedding program stores in a table it reads back.  With a table at position
  \<open>idx\<close> and a key that is not null and a value on top, \<open>sq_rawset\<close> succeeds and takes both; reading
  that key then succeeds and leaves the value (what it refers to, for a weak reference), and reading any other key has the
  result that it had before.
\<close>

theorem stored_value_is_read_back:
  assumes "1 \<le> i" "i \<le> length st" "st ! (i - 1) = ORef KTable a" "fr_stack fr = st"
    and "w_tables (fr_world fr) a = Some t" "table_inv t" "key \<noteq> ONull"
  shows "\<exists>fr1. sq_rawset mc new (int i) (Push val (Push key fr)) = Some (SQ_OK, fr1) \<and> fr_stack fr1 = st \<and>
     (\<exists>fr2. sq_rawget mc (int i) (Push key fr1) = Some (SQ_OK, fr2) \<and>
        fr_stack fr2 = st @ [realval (w_weak (fr_world fr)) val]) \<and>
     (\<forall>k. k \<noteq> key \<longrightarrow> map_option (\<lambda>(r, fr). (r, fr_stack fr)) (sq_rawget mc (int i) (Push k fr1)) =
        map_option (\<lambda>(r, fr). (r, fr_stack fr)) (sq_rawget mc (int i) (Push k fr)))"
proof -
  obtain b t' where t': "Table_NewSlot t key val = Some (b, t')" "table_inv t'" "table_map t' = (table_map t)(key \<mapsto> val)"
    using NewSlot_refines [OF assms(6,7)] by blast
  let ?fr = "Push val (Push key fr)"
  have p: "fr_stack ?fr = st @ [key, val]" using assms(4) by (simp add: Push_def)
  let ?w = "pop_args 2 (put_table a t' (fr_world ?fr))"
  let ?fr1 = "?fr\<lparr>fr_stack := st, fr_world := ?w\<rparr>"
  have "sq_rawset mc new (int i) ?fr = Some (SQ_OK, ?fr1)"
    unfolding sq_rawset_def Let_def slot_kept [OF assms(1,2) p]
    using slot_top(2) [OF p] assms(3,5,7) t'(1) p
    by (simp add: Pop_def) (simp add: Push_def push_args_def)
  moreover have "fr_stack ?fr1 = st" "w_tables (fr_world ?fr1) a = Some t'" "w_weak (fr_world ?fr1) = w_weak (fr_world fr)"
    by (simp_all add: pop_args_def put_table_def Push_def push_args_def)
  note r = rawget_of_table [OF assms(1-3) this(1,2) t'(2)] rawget_of_table [OF assms(1-6)] this
  moreover have "map_option (\<lambda>(r, fr). (r, fr_stack fr)) (sq_rawget mc (int i) (Push k ?fr1)) =
        map_option (\<lambda>(r, fr). (r, fr_stack fr)) (sq_rawget mc (int i) (Push k fr))" if "k \<noteq> key" for k
    unfolding r(1,2) using that t'(3) r(3,5) assms(4)
    by (auto simp: Pop_def Push_def sq_throwerror_def raise_def split: option.split)
  moreover have "\<exists>fr2. sq_rawget mc (int i) (Push key ?fr1) = Some (SQ_OK, fr2) \<and>
        fr_stack fr2 = st @ [realval (w_weak (fr_world fr)) val]"
    unfolding r(1) using t'(3) r(5) by simp
  ultimately show ?thesis by blast
qed

theorem stored_value_is_read_back_witness:
  "\<exists>fr1. sq_rawset sample_machine 9 (int 1) (Push (OBool False) (Push (OInteger 5)
      (sample_frame\<lparr>fr_stack := [ORef KTable 1]\<rparr>))) = Some (SQ_OK, fr1) \<and> fr_stack fr1 = [ORef KTable 1]"
  using stored_value_is_read_back [of 1 "[ORef KTable 1]" 1 "sample_frame\<lparr>fr_stack := [ORef KTable 1]\<rparr>"
      "SQTable_new 0" "OInteger 5" sample_machine 9 "OBool False"] new_table [of 0]
  by (auto simp: sample_frame_def sample_world_def)

end
