(* ===== verification/Compiler.thy ===== *)
theory Compiler
  imports FuncState Lexing Floats
begin

text \<open>
  The compiler, \<^verbatim>\<open>squirrel/sqcompiler.cpp\<close>: a recursive descent parser over the tokens of theory
  \<open>Lexing\<close> that emits code through the function states of theory \<open>FuncState\<close>.  Every method
  is a definition of the same name.  The methods call each other in cycles; the calls that close
  a cycle go through the argument \<open>self\<close>, and \<open>parse\<close> ties the knot with a bound on the depth.
  Not modelled is the syntax tree that the methods build beside the code for the static analyser
  (between \<^verbatim>\<open>BEGIN_AST_NODE\<close> and \<^verbatim>\<open>END_AST_NODE\<close>): no decision of the compiler reads it, except
  those on the tree itself.
\<close>

section \<open>State\<close>

datatype exptype = EXPR | OBJECT | BASE | LOCAL | OUTER

record expstate =
  es_etype :: exptype
  es_epos :: int
  es_donot_get :: bool

record scope =
  sc_outers :: int
  sc_stacksize :: int

text \<open>The jumps of the loops of a function that wait for their targets, and the traps to leave.\<close>

record jumps =
  jm_breaktargets :: "int list"
  jm_continuetargets :: "int list"
  jm_unresolvedbreaks :: "int list"
  jm_unresolvedcontinues :: "int list"

definition no_jumps :: jumps where
  "no_jumps = \<lparr>jm_breaktargets = [], jm_continuetargets = [], jm_unresolvedbreaks = [], jm_unresolvedcontinues = []\<rparr>"

text \<open>
  The chain of function states is a list, the innermost first, with the jumps of each.  Tables
  of named constants and finished functions are at addresses; new ones take the next address.
\<close>

record comp =
  cp_lex :: sqlexer
  cp_token :: int
  cp_fs :: "funcstate list"
  cp_jumps :: "jumps list"
  cp_es :: expstate
  cp_scope :: scope
  cp_consts :: sqtable
  cp_tables :: "addr \<Rightarrow> sqtable option"
  cp_protos :: "addr \<Rightarrow> sqfuncproto option"
  cp_next :: addr
  cp_sourcename :: sqobj
  cp_lineinfo :: bool

text \<open>
  How a part of the compiler ends: with a result; with an error, which the code throws by a long
  jump out of the compiler; with something that is undefined; or at the bound of the depth.
\<close>

datatype 'a result = Ok 'a | Error string | Undefined | NoFuel

type_synonym 'a m = "comp \<Rightarrow> ('a \<times> comp) result"

definition return :: "'a \<Rightarrow> 'a m" where
  "return x c = Ok (x, c)"

definition bnd :: "'a m \<Rightarrow> ('a \<Rightarrow> 'b m) \<Rightarrow> 'b m" where
  "bnd m f c = (case m c of Ok (x, c1) \<Rightarrow> f x c1 | Error e \<Rightarrow> Error e | Undefined \<Rightarrow> Undefined | NoFuel \<Rightarrow> NoFuel)"

definition thn :: "unit m \<Rightarrow> 'a m \<Rightarrow> 'a m" where
  "thn m m' = bnd m (\<lambda>_. m')"

fun seq :: "unit m list \<Rightarrow> unit m" where
  "seq [] = return ()"
| "seq (m # ms) = thn m (seq ms)"

definition only :: "bool \<Rightarrow> unit m \<Rightarrow> unit m" where
  "only b m = (if b then m else return ())"

definition ignore :: "'a m \<Rightarrow> unit m" where
  "ignore m = bnd m (\<lambda>_. return ())"

definition undef :: "'a m" where "undef c = Undefined"
definition no_fuel :: "'a m" where "no_fuel c = NoFuel"

text \<open>An error is formatted into a buffer of 256 characters.\<close>

definition err :: "string \<Rightarrow> 'a m" where "err e c = Error (take 255 e)"

definition reads :: "(comp \<Rightarrow> 'a) \<Rightarrow> 'a m" where "reads f c = Ok (f c, c)"
definition modify :: "(comp \<Rightarrow> comp) \<Rightarrow> unit m" where "modify f c = Ok ((), f c)"

text \<open>A loop that goes on while its body says so, with a value it carries from round to round.\<close>

fun iterate :: "nat \<Rightarrow> ('a \<Rightarrow> ('a \<times> bool) m) \<Rightarrow> 'a \<Rightarrow> 'a m" where
  "iterate 0 body x = no_fuel"
| "iterate (Suc n) body x = bnd (body x) (\<lambda>(y, go). if go then iterate n body y else return y)"

definition loop :: "nat \<Rightarrow> bool m \<Rightarrow> unit m" where
  "loop n body = iterate n (\<lambda>_. bnd body (\<lambda>go. return ((), go))) ()"

definition while_token :: "nat \<Rightarrow> (int \<Rightarrow> bool) \<Rightarrow> unit m \<Rightarrow> unit m" where
  "while_token n cond body = loop n (bnd (reads cp_token) (\<lambda>t. if cond t then thn body (return True) else return False))"

section \<open>The current function state\<close>

fun of_outcome :: "('b \<Rightarrow> 'a \<times> comp) \<Rightarrow> 'b outcome \<Rightarrow> ('a \<times> comp) result" where
  "of_outcome k (Done x) = Ok (k x)"
| "of_outcome k (Fail e) = Error (take 255 e)"
| "of_outcome k Undef = Undefined"

definition on_fs :: "(bool \<Rightarrow> funcstate \<Rightarrow> ('a \<times> funcstate) outcome) \<Rightarrow> 'a m" where
  "on_fs f c = (case cp_fs c of [] \<Rightarrow> Undefined
     | fs # fss \<Rightarrow> of_outcome (\<lambda>(x, fs'). (x, c\<lparr>cp_fs := fs' # fss\<rparr>)) (f (fss \<noteq> []) fs))"

definition step_fs :: "(bool \<Rightarrow> funcstate \<Rightarrow> funcstate outcome) \<Rightarrow> unit m" where
  "step_fs f = on_fs (\<lambda>p fs. obind (f p fs) (\<lambda>fs'. Done ((), fs')))"

definition read_fs :: "(funcstate \<Rightarrow> 'a) \<Rightarrow> 'a m" where
  "read_fs f = on_fs (\<lambda>_ fs. Done (f fs, fs))"

definition change_fs :: "(funcstate \<Rightarrow> funcstate) \<Rightarrow> unit m" where
  "change_fs f = step_fs (\<lambda>_ fs. Done (f fs))"

definition emit :: "SQOpcode \<Rightarrow> int \<Rightarrow> int \<Rightarrow> int \<Rightarrow> int \<Rightarrow> unit m" where
  "emit opc a0 a1 a2 a3 = step_fs (\<lambda>p. AddInstruction p (mk_instr opc a0 a1 a2 a3))"

definition push_target :: "int \<Rightarrow> int m" where "push_target n = on_fs (\<lambda>_. PushTarget n)"
definition pop_target :: "int m" where "pop_target = on_fs (\<lambda>_. PopTarget)"
definition top_target :: "int m" where "top_target = on_fs (\<lambda>_ fs. obind (TopTarget fs) (\<lambda>t. Done (t, fs)))"
definition current_pos :: "int m" where "current_pos = read_fs GetCurrentPos"
definition stack_size :: "int m" where "stack_size = read_fs GetStackSize"
definition get_constant :: "sqobj \<Rightarrow> int m" where "get_constant ob = on_fs (\<lambda>_. GetConstant ob)"
definition create_string :: "string \<Rightarrow> sqobj m" where "create_string s = on_fs (\<lambda>_. CreateString s)"
definition snooze :: "unit m" where "snooze = change_fs SnoozeOpt"

text \<open>Writing an argument of the instruction at a position.\<close>

definition at_pos :: "int \<Rightarrow> (nat \<Rightarrow> funcstate \<Rightarrow> funcstate outcome) \<Rightarrow> unit m" where
  "at_pos pos f = (if pos < 0 then undef else step_fs (\<lambda>_. f (nat pos)))"

definition set_param :: "int \<Rightarrow> int \<Rightarrow> int \<Rightarrow> unit m" where
  "set_param pos arg val = at_pos pos (\<lambda>p. SetIntructionParam p arg val)"

definition set_params :: "int \<Rightarrow> int \<Rightarrow> int \<Rightarrow> int \<Rightarrow> unit m" where
  "set_params pos a0 a1 a2 = at_pos pos (\<lambda>p. SetIntructionParams p a0 a1 a2 0)"

definition push_local :: "sqobj \<Rightarrow> int m" where
  "push_local name = on_fs (\<lambda>_ fs. Done (PushLocalVariable name fs))"

text \<open>An instruction into a new target, one of the most frequent patterns.\<close>

definition emit_to_new :: "SQOpcode \<Rightarrow> int \<Rightarrow> int \<Rightarrow> int \<Rightarrow> unit m" where
  "emit_to_new opc a1 a2 a3 = bnd (push_target (- 1)) (\<lambda>t. emit opc t a1 a2 a3)"

definition load_key :: "sqobj \<Rightarrow> unit m" where
  "load_key name = bnd (push_target (- 1)) (\<lambda>t. bnd (get_constant name) (\<lambda>k. emit OP_LOAD t k 0 0))"

section \<open>The jumps of the current function\<close>

definition on_jumps :: "(jumps \<Rightarrow> ('a \<times> jumps) outcome) \<Rightarrow> 'a m" where
  "on_jumps f c = (case cp_jumps c of [] \<Rightarrow> Undefined
     | j # js \<Rightarrow> of_outcome (\<lambda>(x, j'). (x, c\<lparr>cp_jumps := j' # js\<rparr>)) (f j))"

definition read_jumps :: "(jumps \<Rightarrow> 'a) \<Rightarrow> 'a m" where
  "read_jumps f = on_jumps (\<lambda>j. Done (f j, j))"

definition change_jumps :: "(jumps \<Rightarrow> jumps) \<Rightarrow> unit m" where
  "change_jumps f = on_jumps (\<lambda>j. Done ((), f j))"

definition pop_back :: "'a list \<Rightarrow> ('a \<times> 'a list) outcome" where
  "pop_back xs = (if xs = [] then Undef else Done (last xs, butlast xs))"

fun bump_top :: "int \<Rightarrow> int list \<Rightarrow> int list" where
  "bump_top d [] = []"
| "bump_top d [x] = [x + d]"
| "bump_top d (x # xs) = x # bump_top d xs"

section \<open>Tokens\<close>

definition tk :: "char \<Rightarrow> int" where "tk ch = int (code ch)"

text \<open>The conversion of the text of a float is an argument, as in theory \<open>Lexer\<close>.\<close>

definition lex :: "(string \<Rightarrow> sqfloat) \<Rightarrow> unit m" where
  "lex strtod c = of_outcome (\<lambda>(t, s). ((), c\<lparr>cp_token := t, cp_lex := s\<rparr>)) (Lex strtod (cp_lex c))"

definition token_string :: "sqlexer \<Rightarrow> string" where
  "token_string s = take (length (lx_longstr s) - 1) (lx_svalue s)"

definition identifier_name :: "sqlexer \<Rightarrow> string" where
  "identifier_name s = takeWhile (\<lambda>ch. ch \<noteq> CHR 0x00) (lx_svalue s)"

definition token_name :: "int \<Rightarrow> string m" where
  "token_name tok c =
     (if tok = TK_IDENTIFIER then Ok (''IDENTIFIER'', c)
      else if tok = TK_STRING_LITERAL then Ok (''STRING_LITERAL'', c)
      else if tok = TK_INTEGER then Ok (''INTEGER'', c)
      else if tok = TK_FLOAT then Ok (''FLOAT'', c)
      else (case Tok2Str (cp_lex c) tok of Done (Some s) \<Rightarrow> Ok (s, c) | _ \<Rightarrow> Undefined))"

definition char_of_token :: "int \<Rightarrow> char" where
  "char_of_token tok = char_of (nat (tok mod 256))"

definition Expect :: "(string \<Rightarrow> sqfloat) \<Rightarrow> int \<Rightarrow> sqobj m" where
  "Expect strtod tok =
     bnd (reads cp_token) (\<lambda>t.
     if t \<noteq> tok \<and> \<not> (t = TK_CONSTRUCTOR \<and> tok = TK_IDENTIFIER)
     then (if tok > 255 then bnd (token_name tok) (\<lambda>s. err (''expected '' @ [CHR 0x27] @ s @ [CHR 0x27]))
           else err (''expected '' @ [CHR 0x27, char_of_token tok, CHR 0x27]))
     else
       bnd (reads cp_lex) (\<lambda>s.
       bnd (if tok = TK_IDENTIFIER then create_string (identifier_name s)
            else if tok = TK_STRING_LITERAL then create_string (token_string s)
            else if tok = TK_INTEGER then return (OInteger (lx_nvalue s))
            else if tok = TK_FLOAT then return (OFloat (lx_fvalue s))
            else return ONull) (\<lambda>ret.
       thn (lex strtod) (return ret))))"

definition expect :: "(string \<Rightarrow> sqfloat) \<Rightarrow> int \<Rightarrow> unit m" where
  "expect strtod tok = ignore (Expect strtod tok)"

definition IsEndOfStatement :: "comp \<Rightarrow> bool" where
  "IsEndOfStatement c \<longleftrightarrow> lx_prevtoken (cp_lex c) = tk (CHR 0x0A) \<or> cp_token c = 0 \<or> cp_token c = tk (CHR ''}'') \<or>
     cp_token c = tk (CHR '';'')"

definition OptionalSemicolon :: "(string \<Rightarrow> sqfloat) \<Rightarrow> unit m" where
  "OptionalSemicolon strtod =
     bnd (reads cp_token) (\<lambda>t.
     if t = tk (CHR '';'') then lex strtod
     else bnd (reads IsEndOfStatement) (\<lambda>e.
       if e then return () else err ''end of statement expected (; or lf)''))"

section \<open>Scopes, loops and emitting\<close>

definition BEGIN_SCOPE :: "scope m" where
  "BEGIN_SCOPE =
     bnd (reads cp_scope) (\<lambda>old.
     bnd (read_fs (\<lambda>fs. \<lparr>sc_outers = fs_outers fs, sc_stacksize = GetStackSize fs\<rparr>)) (\<lambda>sc.
     thn (modify (\<lambda>c. c\<lparr>cp_scope := sc\<rparr>)) (return old)))"

definition RESOLVE_OUTERS :: "unit m" where
  "RESOLVE_OUTERS =
     bnd (reads (sc_stacksize \<circ> cp_scope)) (\<lambda>size.
     bnd (read_fs (\<lambda>fs. GetStackSize fs \<noteq> size \<and> CountOuters (nat size) fs \<noteq> 0)) (\<lambda>b.
     only b (emit OP_CLOSE 0 size 0 0)))"

definition leave_scope :: "scope \<Rightarrow> unit m" where
  "leave_scope old = modify (\<lambda>c. c\<lparr>cp_scope := old\<rparr>)"

definition END_SCOPE_NO_CLOSE :: "scope \<Rightarrow> unit m" where
  "END_SCOPE_NO_CLOSE old =
     bnd (reads (sc_stacksize \<circ> cp_scope)) (\<lambda>size.
     seq [change_fs (\<lambda>fs. if GetStackSize fs \<noteq> size then SetStackSize (nat size) fs else fs), leave_scope old])"

definition END_SCOPE :: "scope \<Rightarrow> unit m" where
  "END_SCOPE old =
     bnd (reads (sc_stacksize \<circ> cp_scope)) (\<lambda>size.
     bnd (read_fs fs_outers) (\<lambda>oldouters.
     bnd (read_fs (\<lambda>fs. GetStackSize fs \<noteq> size)) (\<lambda>b.
     seq [only b (thn (change_fs (SetStackSize (nat size)))
            (bnd (read_fs fs_outers) (\<lambda>outers. only (oldouters \<noteq> outers) (emit OP_CLOSE 0 size 0 0)))),
          leave_scope old])))"

definition BEGIN_BREAKBLE_BLOCK :: "(int \<times> int) m" where
  "BEGIN_BREAKBLE_BLOCK =
     on_jumps (\<lambda>j. Done ((int (length (jm_unresolvedbreaks j)), int (length (jm_unresolvedcontinues j))),
       j\<lparr>jm_breaktargets := jm_breaktargets j @ [0], jm_continuetargets := jm_continuetargets j @ [0]\<rparr>))"

fun ResolveBreaks :: "nat \<Rightarrow> unit m" where
  "ResolveBreaks 0 = return ()"
| "ResolveBreaks (Suc n) =
     bnd (on_jumps (\<lambda>j. obind (pop_back (jm_unresolvedbreaks j)) (\<lambda>(pos, xs). Done (pos, j\<lparr>jm_unresolvedbreaks := xs\<rparr>)))) (\<lambda>pos.
     bnd current_pos (\<lambda>cur.
     thn (set_params pos 0 (cur - pos) 0) (ResolveBreaks n)))"

fun ResolveContinues :: "nat \<Rightarrow> int \<Rightarrow> unit m" where
  "ResolveContinues 0 targetpos = return ()"
| "ResolveContinues (Suc n) targetpos =
     bnd (on_jumps (\<lambda>j. obind (pop_back (jm_unresolvedcontinues j)) (\<lambda>(pos, xs). Done (pos, j\<lparr>jm_unresolvedcontinues := xs\<rparr>)))) (\<lambda>pos.
     thn (set_params pos 0 (targetpos - pos) 0) (ResolveContinues n targetpos))"

definition pop_breaktarget :: "unit m" where
  "pop_breaktarget = on_jumps (\<lambda>j. obind (pop_back (jm_breaktargets j)) (\<lambda>(_, xs). Done ((), j\<lparr>jm_breaktargets := xs\<rparr>)))"

definition pop_continuetarget :: "unit m" where
  "pop_continuetarget = on_jumps (\<lambda>j. obind (pop_back (jm_continuetargets j)) (\<lambda>(_, xs). Done ((), j\<lparr>jm_continuetargets := xs\<rparr>)))"

definition END_BREAKBLE_BLOCK :: "int \<times> int \<Rightarrow> int \<Rightarrow> unit m" where
  "END_BREAKBLE_BLOCK old continue_target =
     bnd (read_jumps (\<lambda>j. (int (length (jm_unresolvedbreaks j)) - fst old, int (length (jm_unresolvedcontinues j)) - snd old)))
       (\<lambda>(nbreaks, ncontinues).
     seq [only (ncontinues > 0) (ResolveContinues (nat ncontinues) continue_target),
          only (nbreaks > 0) (ResolveBreaks (nat nbreaks)),
          pop_breaktarget, pop_continuetarget])"

definition MoveIfCurrentTargetIsLocal :: "unit m" where
  "MoveIfCurrentTargetIsLocal =
     bnd top_target (\<lambda>trg.
     bnd (read_fs (IsLocal (nat trg))) (\<lambda>b.
     only b (bnd pop_target (\<lambda>trg. emit_to_new OP_MOVE trg 0 0))))"

definition EmitDerefOp :: "SQOpcode \<Rightarrow> unit m" where
  "EmitDerefOp opc =
     bnd pop_target (\<lambda>val. bnd pop_target (\<lambda>key. bnd pop_target (\<lambda>src. emit_to_new opc src key val)))"

definition Emit2ArgsOP :: "SQOpcode \<Rightarrow> int \<Rightarrow> unit m" where
  "Emit2ArgsOP opc p3 = bnd pop_target (\<lambda>p2. bnd pop_target (\<lambda>p1. emit_to_new opc p1 p2 p3))"

definition ChooseArithOpByToken :: "int \<Rightarrow> SQOpcode" where
  "ChooseArithOpByToken tok =
     (if tok = TK_PLUSEQ \<or> tok = tk (CHR ''+'') then OP_ADD
      else if tok = TK_MINUSEQ \<or> tok = tk (CHR ''-'') then OP_SUB
      else if tok = TK_MULEQ \<or> tok = tk (CHR ''*'') then OP_MUL
      else if tok = TK_DIVEQ \<or> tok = tk (CHR ''/'') then OP_DIV
      else if tok = TK_MODEQ \<or> tok = tk (CHR ''%'') then OP_MOD
      else OP_ADD)"

definition ChooseCompArithCharByToken :: "int \<Rightarrow> int" where
  "ChooseCompArithCharByToken tok =
     (if tok = TK_MINUSEQ then tk (CHR ''-'')
      else if tok = TK_PLUSEQ then tk (CHR ''+'')
      else if tok = TK_MULEQ then tk (CHR ''*'')
      else if tok = TK_DIVEQ then tk (CHR ''/'')
      else if tok = TK_MODEQ then tk (CHR ''%'')
      else 0)"

definition EmitCompoundArith :: "int \<Rightarrow> exptype \<Rightarrow> int \<Rightarrow> unit m" where
  "EmitCompoundArith tok etype pos =
     (case etype of
        LOCAL \<Rightarrow>
          bnd pop_target (\<lambda>p2. bnd pop_target (\<lambda>p1.
          thn (ignore (push_target p1)) (emit (ChooseArithOpByToken tok) p1 p2 p1 0)))
      | OUTER \<Rightarrow>
          bnd top_target (\<lambda>val. bnd (push_target (- 1)) (\<lambda>tmp.
          seq [emit OP_GETOUTER tmp pos 0 0, emit (ChooseArithOpByToken tok) tmp val tmp 0, emit OP_SETOUTER tmp pos tmp 0]))
      | EXPR \<Rightarrow> return ()
      | _ \<Rightarrow>
          bnd pop_target (\<lambda>val. bnd pop_target (\<lambda>key. bnd pop_target (\<lambda>src.
          emit_to_new OP_COMPARITH (or (src * 2 ^ 16) val) key (ChooseCompArithCharByToken tok)))))"

definition EmitLoadConstInt :: "sqint \<Rightarrow> int \<Rightarrow> unit m" where
  "EmitLoadConstInt value target =
     bnd (if target < 0 then push_target (- 1) else return target) (\<lambda>target.
     if uint value < 2 ^ 32 then emit OP_LOADINT target (uint value) 0 0
     else bnd (get_constant (OInteger value)) (\<lambda>k. emit OP_LOAD target k 0 0))"

definition EmitLoadConstFloat :: "sqfloat \<Rightarrow> int \<Rightarrow> unit m" where
  "EmitLoadConstFloat value target =
     bnd (if target < 0 then push_target (- 1) else return target) (\<lambda>target. emit OP_LOADFLOAT target (uint value) 0 0)"

section \<open>The expression state\<close>

definition set_es :: "(expstate \<Rightarrow> expstate) \<Rightarrow> unit m" where
  "set_es f = modify (\<lambda>c. c\<lparr>cp_es := f (cp_es c)\<rparr>)"

definition set_etype :: "exptype \<Rightarrow> unit m" where "set_etype t = set_es (\<lambda>es. es\<lparr>es_etype := t\<rparr>)"
definition set_epos :: "int \<Rightarrow> unit m" where "set_epos p = set_es (\<lambda>es. es\<lparr>es_epos := p\<rparr>)"

definition no_get_tokens :: "int list" where
  "no_get_tokens = [tk (CHR ''=''), tk (CHR ''(''), TK_NEWSLOT, TK_MODEQ, TK_MULEQ, TK_DIVEQ, TK_MINUSEQ, TK_PLUSEQ,
     TK_PLUSPLUS, TK_MINUSMINUS]"

definition NeedGet :: "comp \<Rightarrow> bool" where
  "NeedGet c \<longleftrightarrow> cp_token c \<notin> set no_get_tokens \<and>
     (\<not> es_donot_get (cp_es c) \<or> es_donot_get (cp_es c) \<and> (cp_token c = tk (CHR ''.'') \<or> cp_token c = tk (CHR ''['')))"

text \<open>Reading the slot, unless what follows writes or calls it.\<close>

definition get_if_needed :: "unit m" where
  "get_if_needed = bnd (reads NeedGet) (\<lambda>b. only b (Emit2ArgsOP OP_GET 0))"

section \<open>Expressions\<close>

text \<open>The calls that close a cycle.\<close>

datatype goal =
    GStatement bool | GStatements | GCommaExpr | GExpression | GLogicalOrExp | GLogicalAndExp | GPrefixedExpr
  | GParseTableOrClass int int

type_synonym parser = "goal \<Rightarrow> unit m"

definition CommaExpr :: "(string \<Rightarrow> sqfloat) \<Rightarrow> parser \<Rightarrow> nat \<Rightarrow> unit m" where
  "CommaExpr strtod self n =
     seq [self GExpression,
          while_token n (\<lambda>t. t = tk (CHR '','')) (seq [ignore pop_target, lex strtod, self GCommaExpr])]"

end
