(* ===== verification/Parser.thy ===== *)
theory Parser
  imports Compiler
begin

text \<open>
  The grammar of the compiler, \<^verbatim>\<open>squirrel/sqcompiler.cpp\<close>: expressions, functions, classes and
  statements.  In the arguments, \<open>sd\<close> converts the text of floats, \<open>self\<close> is the parser for the
  calls that close a cycle and \<open>n\<close> bounds the rounds of a loop.
\<close>

type_synonym strtod = "string \<Rightarrow> sqfloat"

section \<open>Operators\<close>

definition BIN_EXP :: "strtod \<Rightarrow> unit m \<Rightarrow> SQOpcode \<Rightarrow> int \<Rightarrow> unit m" where
  "BIN_EXP sd f opc op3 =
     seq [lex sd, f, bnd pop_target (\<lambda>op1. bnd pop_target (\<lambda>op2. emit_to_new opc op1 op2 op3))]"

text \<open>A level of the grammar: operands of the level above, joined by the operators of this one.\<close>

definition binary_level :: "strtod \<Rightarrow> nat \<Rightarrow> unit m \<Rightarrow> (int \<Rightarrow> (SQOpcode \<times> int) option) \<Rightarrow> unit m" where
  "binary_level sd n operand ops =
     seq [operand,
          loop n (bnd (reads cp_token) (\<lambda>t.
            case ops t of Some (opc, op3) \<Rightarrow> thn (BIN_EXP sd operand opc op3) (return True) | None \<Rightarrow> return False))]"

definition mult_ops :: "int \<Rightarrow> (SQOpcode \<times> int) option" where
  "mult_ops t = (if t \<in> {tk (CHR ''*''), tk (CHR ''/''), tk (CHR ''%'')} then Some (ChooseArithOpByToken t, 0) else None)"

definition plus_ops :: "int \<Rightarrow> (SQOpcode \<times> int) option" where
  "plus_ops t = (if t \<in> {tk (CHR ''+''), tk (CHR ''-'')} then Some (ChooseArithOpByToken t, 0) else None)"

definition shift_ops :: "int \<Rightarrow> (SQOpcode \<times> int) option" where
  "shift_ops = map_of [(TK_USHIFTR, (OP_BITW, 6)), (TK_SHIFTL, (OP_BITW, 4)), (TK_SHIFTR, (OP_BITW, 5))]"

definition comp_ops :: "int \<Rightarrow> (SQOpcode \<times> int) option" where
  "comp_ops = map_of [(tk (CHR ''>''), (OP_CMP, 0)), (tk (CHR ''<''), (OP_CMP, 3)), (TK_GE, (OP_CMP, 2)), (TK_LE, (OP_CMP, 4))]"

definition eq_ops :: "int \<Rightarrow> (SQOpcode \<times> int) option" where
  "eq_ops = map_of [(TK_EQ, (OP_EQ, 0)), (TK_NE, (OP_NE, 0)), (TK_3WAYSCMP, (OP_CMP, 5))]"

definition and_ops :: "int \<Rightarrow> (SQOpcode \<times> int) option" where "and_ops = map_of [(tk (CHR ''&''), (OP_BITW, 0))]"
definition xor_ops :: "int \<Rightarrow> (SQOpcode \<times> int) option" where "xor_ops = map_of [(tk (CHR ''^''), (OP_BITW, 3))]"
definition or_ops :: "int \<Rightarrow> (SQOpcode \<times> int) option" where "or_ops = map_of [(tk (CHR ''|''), (OP_BITW, 2))]"

definition word_ops :: "int \<Rightarrow> (SQOpcode \<times> int) option" where
  "word_ops = map_of [(TK_IN, (OP_EXISTS, 0)), (TK_INSTANCEOF, (OP_INSTANCEOF, 0)), (TK_IS_OPERATOR, (OP_INSTANCEOF, 0)),
     (TK_AS_OPERATOR, (OP_DYNAMICCAST, 0))]"

text \<open>The operators that do not always evaluate their second operand jump over it.\<close>

definition short_circuit :: "strtod \<Rightarrow> SQOpcode \<Rightarrow> unit m \<Rightarrow> unit m" where
  "short_circuit sd opc second =
     bnd pop_target (\<lambda>first_exp.
     bnd (push_target (- 1)) (\<lambda>trg.
     thn (emit opc trg 0 first_exp 0) (
     bnd current_pos (\<lambda>jpos.
     seq [only (trg \<noteq> first_exp) (emit OP_MOVE trg first_exp 0 0),
          lex sd, second, snooze,
          bnd pop_target (\<lambda>second_exp. only (trg \<noteq> second_exp) (emit OP_MOVE trg second_exp 0 0)),
          snooze,
          bnd current_pos (\<lambda>cur. set_param jpos 1 (cur - jpos))]))))"

section \<open>Declarations in functions\<close>

definition isbuiltintype :: "int \<Rightarrow> bool" where
  "isbuiltintype t \<longleftrightarrow> TK_DYNAMIC_T \<le> t \<and> t \<le> TK_NATIVEPTR_T"

text \<open>One parameter; the state of the new function and the number of defaults are carried along.\<close>

definition parameter_default :: "strtod \<Rightarrow> parser \<Rightarrow> funcstate \<times> int \<Rightarrow> (funcstate \<times> int) m" where
  "parameter_default sd self = (\<lambda>(child, defparams).
     bnd (reads cp_token) (\<lambda>t.
     if t = tk (CHR ''='')
     then thn (seq [lex sd, self GExpression]) (bnd top_target (\<lambda>trg. return (AddDefaultParam trg child, defparams + 1)))
     else if defparams > 0 then err (''expected '' @ [CHR 0x27, CHR ''='', CHR 0x27])
     else return (child, defparams)))"

definition close_paren_expected :: string where "close_paren_expected = ''expected '' @ [CHR 0x27, CHR '')'', CHR 0x27]"

definition parameter :: "strtod \<Rightarrow> parser \<Rightarrow> funcstate \<times> int \<Rightarrow> ((funcstate \<times> int) \<times> bool) m" where
  "parameter sd self = (\<lambda>(child, defparams).
     bnd (reads cp_token) (\<lambda>t.
     if t = tk (CHR '')'') then return ((child, defparams), False)
     else if t = TK_VARPARAMS then
       (if defparams > 0 then err ''function with default parameters cannot have variable number of parameters''
        else bnd (create_string ''vargv'') (\<lambda>name.
          thn (lex sd) (bnd (reads cp_token) (\<lambda>t.
          if t \<noteq> tk (CHR '')'') then err close_paren_expected
          else return (((AddParameter name child)\<lparr>fs_varparams := True\<rparr>, defparams), False)))))
     else
       thn (only (isbuiltintype t) (lex sd)) (
       bnd (Expect sd TK_IDENTIFIER) (\<lambda>paramname.
       bnd (reads cp_token) (\<lambda>t.
       bnd (if t = TK_IDENTIFIER then Expect sd TK_IDENTIFIER else return paramname) (\<lambda>paramname.
       bnd (parameter_default sd self (AddParameter paramname child, defparams)) (\<lambda>ps.
       bnd (reads cp_token) (\<lambda>t.
       thn (if t = tk (CHR '','') then lex sd
            else only (t \<noteq> tk (CHR '')'')) (err (close_paren_expected @ '' or '' @ [CHR 0x27, CHR '','', CHR 0x27])))
         (return (ps, True))))))))))"

fun pop_targets :: "nat \<Rightarrow> unit m" where
  "pop_targets 0 = return ()"
| "pop_targets (Suc k) = thn (ignore pop_target) (pop_targets k)"

definition AddLines :: "int \<Rightarrow> bool \<Rightarrow> unit m" where
  "AddLines line force = bnd (reads cp_lineinfo) (\<lambda>lineop. step_fs (\<lambda>p. AddLineInfos p line lineop force))"

definition enter_function :: "funcstate \<Rightarrow> unit m" where
  "enter_function child = modify (\<lambda>c. c\<lparr>cp_fs := child # cp_fs c, cp_jumps := no_jumps # cp_jumps c\<rparr>)"

text \<open>The finished function is among those of the function around it.\<close>

definition leave_function :: "unit m" where
  "leave_function =
     bnd (on_fs (\<lambda>_ fs. obind (BuildProto fs) (\<lambda>func. Done (func, fs)))) (\<lambda>func.
     bnd (reads cp_next) (\<lambda>a.
     seq [modify (\<lambda>c. c\<lparr>cp_fs := tl (cp_fs c), cp_jumps := tl (cp_jumps c),
            cp_protos := (cp_protos c)(a \<mapsto> func), cp_next := a + 1\<rparr>),
          change_fs (\<lambda>fs. fs\<lparr>fs_functions := fs_functions fs @ [ORef KFuncProto a]\<rparr>)]))"

definition CreateFunction :: "strtod \<Rightarrow> parser \<Rightarrow> nat \<Rightarrow> sqobj \<Rightarrow> bool \<Rightarrow> bool \<Rightarrow> unit m" where
  "CreateFunction sd self n name lambda isstatic =
     bnd (let child = funcstate_new\<lparr>fs_name := name\<rparr> in
          if isstatic then return child
          else bnd (create_string ''this'') (\<lambda>this. return (AddParameter this child))) (\<lambda>child.
     bnd (reads cp_sourcename) (\<lambda>src.
     bnd (iterate n (parameter sd self) (child\<lparr>fs_sourcename := src\<rparr>, 0)) (\<lambda>(child, defparams).
     thn (seq [expect sd (tk (CHR '')'')), pop_targets (nat defparams)]) (
     bnd (reads cp_token) (\<lambda>t.
     seq [only (t = tk (CHR '':'')) (seq [lex sd, lex sd]),
          enter_function child,
          (if lambda then seq [self GExpression, bnd pop_target (\<lambda>t. emit OP_RETURN 1 t 0 0)] else self (GStatement False)),
          bnd (reads cp_lex) (\<lambda>s.
            AddLines (if lx_prevtoken s = tk (CHR 0x0A) then lx_lasttokenline s else lx_currentline s) True),
          emit OP_RETURN (- 1) 0 0 0,
          change_fs (SetStackSize 0),
          leave_function])))))"

text \<open>The instruction that makes the closure of the last function.\<close>

definition emit_closure :: "int \<Rightarrow> unit m" where
  "emit_closure kind = bnd (read_fs (\<lambda>fs. int (length (fs_functions fs)) - 1)) (\<lambda>k. emit_to_new OP_CLOSURE k kind 0)"

definition local_declaration :: "strtod \<Rightarrow> parser \<Rightarrow> bool m" where
  "local_declaration sd self =
     bnd (Expect sd TK_IDENTIFIER) (\<lambda>varname.
     bnd (reads cp_token) (\<lambda>t.
     thn (if t = tk (CHR ''='')
          then thn (seq [lex sd, self GExpression])
            (bnd pop_target (\<lambda>src. bnd (push_target (- 1)) (\<lambda>dest. only (dest \<noteq> src) (emit OP_MOVE dest src 0 0))))
          else emit_to_new OP_LOADNULLS 1 0 0) (
     thn (seq [ignore pop_target, ignore (push_local varname)]) (
     bnd (reads cp_token) (\<lambda>t.
     if t = tk (CHR '','') then thn (lex sd) (return True) else return False)))))"

definition LocalDeclStatement :: "strtod \<Rightarrow> parser \<Rightarrow> nat \<Rightarrow> bool \<Rightarrow> unit m" where
  "LocalDeclStatement sd self n hasTypePrefix =
     thn (only (\<not> hasTypePrefix) (lex sd)) (
     bnd (reads cp_token) (\<lambda>t.
     if t = TK_FUNCTION then
       thn (lex sd) (bnd (Expect sd TK_IDENTIFIER) (\<lambda>varname.
       seq [expect sd (tk (CHR ''('')), CreateFunction sd self n varname False False, emit_closure 0,
            ignore pop_target, ignore (push_local varname)]))
     else loop n (local_declaration sd self)))"

section \<open>Factors\<close>

definition outer_variable :: "sqobj \<Rightarrow> int m" where
  "outer_variable name c = (let (i, fss) = GetOuterVariable name (cp_fs c) in Ok (i, c\<lparr>cp_fs := fss\<rparr>))"

definition of_opt :: "'a option \<Rightarrow> 'a m" where
  "of_opt x c = (case x of Some y \<Rightarrow> Ok (y, c) | None \<Rightarrow> Undefined)"

text \<open>The value of a named constant; a table of constants is followed by the name in it.\<close>

definition constant_value :: "strtod \<Rightarrow> string \<Rightarrow> sqobj \<Rightarrow> sqobj m" where
  "constant_value sd name constant =
     (case constant of
        ORef KTable a \<Rightarrow>
          thn (expect sd (tk (CHR ''.''))) (
          bnd (reads cp_lex) (\<lambda>s.
          bnd (Expect sd TK_IDENTIFIER) (\<lambda>constid.
          bnd (reads (\<lambda>c. cp_tables c a)) (\<lambda>tb.
          bnd (of_opt tb) (\<lambda>t.
          bnd (of_opt (Table_Get (\<lambda>_. ONull) t constid)) (\<lambda>r.
          case r of Some v \<Rightarrow> return v
          | None \<Rightarrow> err (''invalid constant ['' @ name @ ''.'' @ identifier_name s @ '']'')))))))
      | _ \<Rightarrow> return constant)"

definition load_constant :: "sqobj \<Rightarrow> unit m" where
  "load_constant constval =
     bnd (push_target (- 1)) (\<lambda>epos.
     seq [set_epos epos,
          (case constval of OInteger i \<Rightarrow> EmitLoadConstInt i epos | OFloat f \<Rightarrow> EmitLoadConstFloat f epos
           | _ \<Rightarrow> bnd (get_constant constval) (\<lambda>k. emit OP_LOAD epos k 0 0)),
          set_etype EXPR])"

text \<open>A name is a local variable, a captured one, a constant or a slot of \<^verbatim>\<open>this\<close>, in this order.\<close>

definition named_value :: "strtod \<Rightarrow> string \<Rightarrow> sqobj \<Rightarrow> unit m" where
  "named_value sd name id_obj =
     bnd (read_fs (GetLocalVariable id_obj)) (\<lambda>pos.
     if pos \<noteq> - 1 then seq [ignore (push_target pos), set_etype LOCAL, set_epos pos]
     else
       bnd (outer_variable id_obj) (\<lambda>pos.
       if pos \<noteq> - 1 then
         bnd (reads NeedGet) (\<lambda>need.
         if need then bnd (push_target (- 1)) (\<lambda>t. seq [set_epos t, emit OP_GETOUTER t pos 0 0])
         else seq [set_etype OUTER, set_epos pos])
       else
         bnd (reads (\<lambda>c. IsConstant (\<lambda>_. ONull) (cp_consts c) id_obj)) (\<lambda>r.
         bnd (of_opt r) (\<lambda>r.
         case r of
           Some constant \<Rightarrow> bnd (constant_value sd name constant) load_constant
         | None \<Rightarrow> seq [ignore (push_target 0), load_key id_obj, get_if_needed, set_etype OBJECT]))))"

definition identifier_factor :: "strtod \<Rightarrow> parser \<Rightarrow> nat \<Rightarrow> unit m" where
  "identifier_factor sd self n =
     bnd (reads cp_token) (\<lambda>lasttoken.
     bnd (reads cp_lex) (\<lambda>s.
     let name = (if lasttoken = TK_IDENTIFIER then identifier_name s
                 else if lasttoken = TK_THIS then ''this'' else ''constructor'') in
     bnd (create_string name) (\<lambda>id_obj.
     thn (lex sd) (
     bnd (reads cp_token) (\<lambda>t.
     if lasttoken = TK_IDENTIFIER \<and> t = TK_IDENTIFIER
     then seq [LocalDeclStatement sd self n True, ignore (push_target (- 1))]
     else named_value sd name id_obj)))))"

definition UnaryOP :: "parser \<Rightarrow> SQOpcode \<Rightarrow> unit m" where
  "UnaryOP self opc = seq [self GPrefixedExpr, bnd pop_target (\<lambda>src. emit_to_new opc src 0 0)]"

definition array_literal :: "strtod \<Rightarrow> parser \<Rightarrow> nat \<Rightarrow> unit m" where
  "array_literal sd self n =
     thn (emit_to_new OP_NEWOBJ 0 0 1) (
     bnd current_pos (\<lambda>apos.
     thn (lex sd) (
     bnd (iterate n (\<lambda>key. bnd (reads cp_token) (\<lambda>t.
            if t = tk (CHR '']'') then return (key, False)
            else thn (self GExpression) (
              bnd (reads cp_token) (\<lambda>t.
              thn (only (t = tk (CHR '','')) (lex sd)) (
              bnd pop_target (\<lambda>val. bnd top_target (\<lambda>array.
              thn (emit OP_APPENDARRAY array val (uint AAT_STACK) 0) (return (key + 1, True)))))))) ) 0) (\<lambda>key.
     seq [set_param apos 1 key, lex sd]))))"

definition ClassExp :: "strtod \<Rightarrow> parser \<Rightarrow> unit m" where
  "ClassExp sd self =
     bnd (reads cp_token) (\<lambda>t.
     bnd (if t = TK_EXTENDS then thn (seq [lex sd, self GExpression]) top_target else return (- 1)) (\<lambda>base.
     bnd (reads cp_token) (\<lambda>t.
     bnd (if t = TK_ATTR_OPEN
          then thn (seq [lex sd, emit_to_new OP_NEWOBJ 0 0 0, self (GParseTableOrClass (tk (CHR '','')) TK_ATTR_CLOSE)]) top_target
          else return (- 1)) (\<lambda>attrs.
     seq [expect sd (tk (CHR ''{'')),
          only (attrs \<noteq> - 1) (ignore pop_target),
          only (base \<noteq> - 1) (ignore pop_target),
          emit_to_new OP_NEWOBJ base attrs 2,
          self (GParseTableOrClass (tk (CHR '';'')) (tk (CHR ''}'')))]))))"

definition FunctionExp :: "strtod \<Rightarrow> parser \<Rightarrow> nat \<Rightarrow> int \<Rightarrow> bool \<Rightarrow> unit m" where
  "FunctionExp sd self n ftype lambda =
     seq [lex sd, expect sd (tk (CHR ''('')), CreateFunction sd self n ONull lambda False,
          emit_closure (if ftype = TK_FUNCTION then 0 else 1)]"

text \<open>The expression state is put back when the operand has been compiled.\<close>

definition operand_place :: "strtod \<Rightarrow> parser \<Rightarrow> (exptype \<Rightarrow> unit m) \<Rightarrow> unit m" where
  "operand_place sd self f =
     thn (lex sd) (
     bnd (reads cp_es) (\<lambda>es.
     thn (seq [set_es (\<lambda>es. es\<lparr>es_donot_get := True\<rparr>), self GPrefixedExpr]) (
     bnd (reads (es_etype \<circ> cp_es)) (\<lambda>etype.
     seq [f etype, set_es (\<lambda>_. es)]))))"

definition DeleteExpr :: "strtod \<Rightarrow> parser \<Rightarrow> unit m" where
  "DeleteExpr sd self =
     operand_place sd self (\<lambda>etype.
       if etype = EXPR then err (''can'' @ [CHR 0x27] @ ''t delete an expression'')
       else if etype = OBJECT \<or> etype = BASE then Emit2ArgsOP OP_DELETE 0
       else err ''cannot delete an (outer) local'')"

definition cannot_increment :: string where
  "cannot_increment = ''can'' @ [CHR 0x27] @ ''t '' @ [CHR 0x27] @ ''++'' @ [CHR 0x27] @ '' or '' @ [CHR 0x27] @ ''--'' @
     [CHR 0x27] @ '' an expression''"

definition PrefixIncDec :: "strtod \<Rightarrow> parser \<Rightarrow> int \<Rightarrow> unit m" where
  "PrefixIncDec sd self token =
     (let diff = (if token = TK_MINUSMINUS then - 1 else 1) in
      operand_place sd self (\<lambda>etype.
        case etype of
          EXPR \<Rightarrow> err cannot_increment
        | LOCAL \<Rightarrow> bnd top_target (\<lambda>src. emit OP_INCL src src 0 diff)
        | OUTER \<Rightarrow>
            bnd (push_target (- 1)) (\<lambda>tmp.
            bnd (reads (es_epos \<circ> cp_es)) (\<lambda>epos.
            seq [emit OP_GETOUTER tmp epos 0 0, emit OP_INCL tmp tmp 0 diff, emit OP_SETOUTER tmp epos tmp 0]))
        | _ \<Rightarrow> Emit2ArgsOP OP_INC diff))"

definition negative :: "strtod \<Rightarrow> parser \<Rightarrow> unit m" where
  "negative sd self =
     thn (lex sd) (
     bnd (reads cp_token) (\<lambda>t.
     bnd (reads cp_lex) (\<lambda>s.
     if t = TK_INTEGER then seq [EmitLoadConstInt (- lx_nvalue s) (- 1), lex sd]
     else if t = TK_FLOAT then seq [EmitLoadConstFloat (fl_neg (lx_fvalue s)) (- 1), lex sd]
     else UnaryOP self OP_NEG)))"

definition Factor :: "strtod \<Rightarrow> parser \<Rightarrow> nat \<Rightarrow> unit m" where
  "Factor sd self n =
     thn (set_etype EXPR) (
     bnd (reads cp_token) (\<lambda>t.
     bnd (reads cp_lex) (\<lambda>s.
     if t = TK_STRING_LITERAL then seq [bnd (create_string (token_string s)) load_key, lex sd]
     else if t = TK_BASE then
       seq [lex sd, emit_to_new OP_GETBASE 0 0 0, set_etype BASE, bnd top_target set_epos]
     else if t = TK_IDENTIFIER \<or> t = TK_CONSTRUCTOR \<or> t = TK_THIS then identifier_factor sd self n
     else if t = TK_DOUBLE_COLON then
       seq [emit_to_new OP_LOADROOT 0 0 0, set_etype OBJECT, modify (\<lambda>c. c\<lparr>cp_token := tk (CHR ''.'')\<rparr>), set_epos (- 1)]
     else if t = TK_NULL then seq [emit_to_new OP_LOADNULLS 1 0 0, lex sd]
     else if t = TK_INTEGER then seq [EmitLoadConstInt (lx_nvalue s) (- 1), lex sd]
     else if t = TK_FLOAT then seq [EmitLoadConstFloat (lx_fvalue s) (- 1), lex sd]
     else if t = TK_TRUE \<or> t = TK_FALSE then seq [emit_to_new OP_LOADBOOL (if t = TK_TRUE then 1 else 0) 0 0, lex sd]
     else if t = tk (CHR ''['') then array_literal sd self n
     else if t = tk (CHR ''{'') then
       seq [emit_to_new OP_NEWOBJ 0 0 0, lex sd, self (GParseTableOrClass (tk (CHR '','')) (tk (CHR ''}'')))]
     else if t = TK_FUNCTION then FunctionExp sd self n t False
     else if t = tk (CHR ''@'') then FunctionExp sd self n t True
     else if t = TK_CLASS then seq [lex sd, ClassExp sd self]
     else if t = tk (CHR ''-'') then negative sd self
     else if t = tk (CHR ''!'') then seq [lex sd, UnaryOP self OP_NOT]
     else if t = tk (CHR ''~'') then
       thn (lex sd) (bnd (reads cp_token) (\<lambda>t. bnd (reads cp_lex) (\<lambda>s.
         if t = TK_INTEGER then seq [EmitLoadConstInt (not (lx_nvalue s)) (- 1), lex sd] else UnaryOP self OP_BWNOT)))
     else if t = TK_TYPEOF then seq [lex sd, UnaryOP self OP_TYPEOF]
     else if t = TK_RESUME then seq [lex sd, UnaryOP self OP_RESUME]
     else if t = TK_CLONE then seq [lex sd, UnaryOP self OP_CLONE]
     else if t = TK_MINUSMINUS \<or> t = TK_PLUSPLUS then PrefixIncDec sd self t
     else if t = TK_DELETE then DeleteExpr sd self
     else if t = tk (CHR ''('') then seq [lex sd, self GCommaExpr, expect sd (tk (CHR '')''))]
     else err ''expression expected'')))"

section \<open>Expressions\<close>

definition FunctionCallArgs :: "strtod \<Rightarrow> parser \<Rightarrow> nat \<Rightarrow> unit m" where
  "FunctionCallArgs sd self n =
     bnd (iterate n (\<lambda>nargs. bnd (reads cp_token) (\<lambda>t.
            if t = tk (CHR '')'') then return (nargs, False)
            else thn (seq [self GExpression, MoveIfCurrentTargetIsLocal]) (
              bnd (reads cp_token) (\<lambda>t.
              thn (only (t = tk (CHR '','')) (thn (lex sd) (bnd (reads cp_token) (\<lambda>t.
                     only (t = tk (CHR '')'')) (err (''expression expected, found '' @ [CHR 0x27, CHR '')'', CHR 0x27]))))))
                (return (nargs + 1, True)))))) 1) (\<lambda>nargs.
     thn (seq [lex sd, pop_targets (nat (nargs - 1))]) (
     bnd pop_target (\<lambda>stackbase. bnd pop_target (\<lambda>closure. emit_to_new OP_CALL closure stackbase nargs))))"

text \<open>After the key of a slot: read it, unless it is the object of a write or of a call.\<close>

definition deref :: "unit m" where
  "deref =
     bnd (reads (es_etype \<circ> cp_es)) (\<lambda>etype.
     if etype = BASE then seq [Emit2ArgsOP OP_GET 0, bnd top_target (\<lambda>pos. seq [set_etype EXPR, set_epos pos])]
     else seq [get_if_needed, set_etype OBJECT])"

definition postfix_incdec :: "strtod \<Rightarrow> int \<Rightarrow> unit m" where
  "postfix_incdec sd token =
     (let diff = (if token = TK_MINUSMINUS then - 1 else 1) in
      thn (lex sd) (
      bnd (reads cp_es) (\<lambda>es.
      case es_etype es of
        EXPR \<Rightarrow> err cannot_increment
      | LOCAL \<Rightarrow> bnd pop_target (\<lambda>src. emit_to_new OP_PINCL src 0 diff)
      | OUTER \<Rightarrow>
          bnd (push_target (- 1)) (\<lambda>tmp1. bnd (push_target (- 1)) (\<lambda>tmp2.
          seq [emit OP_GETOUTER tmp2 (es_epos es) 0 0, emit OP_PINCL tmp1 tmp2 0 diff, emit OP_SETOUTER tmp2 (es_epos es) tmp2 0,
               ignore pop_target]))
      | _ \<Rightarrow> Emit2ArgsOP OP_PINC diff)))"

definition prepare_call :: "unit m" where
  "prepare_call =
     bnd (reads cp_es) (\<lambda>es.
     case es_etype es of
       OBJECT \<Rightarrow>
         bnd pop_target (\<lambda>key. bnd pop_target (\<lambda>table. bnd (push_target (- 1)) (\<lambda>closure. bnd (push_target (- 1)) (\<lambda>ttarget.
         emit OP_PREPCALL closure key table ttarget))))
     | OUTER \<Rightarrow> seq [emit_to_new OP_GETOUTER (es_epos es) 0 0, emit_to_new OP_MOVE 0 0 0]
     | _ \<Rightarrow> emit_to_new OP_MOVE 0 0 0)"

definition newline_before_bracket :: string where
  "newline_before_bracket = ''cannot brake deref/or comma needed after [exp]=exp slot declaration''"

definition prefixed_round :: "strtod \<Rightarrow> parser \<Rightarrow> nat \<Rightarrow> bool m" where
  "prefixed_round sd self n =
     bnd (reads cp_token) (\<lambda>t.
     if t = tk (CHR ''.'') then
       thn (lex sd) (bnd (Expect sd TK_IDENTIFIER) (\<lambda>idf. thn (seq [load_key idf, deref]) (return True)))
     else if t = tk (CHR ''['') then
       bnd (reads (lx_prevtoken \<circ> cp_lex)) (\<lambda>p.
       if p = tk (CHR 0x0A) then err newline_before_bracket
       else thn (seq [lex sd, self GExpression, expect sd (tk (CHR '']'')), deref]) (return True))
     else if t = TK_MINUSMINUS \<or> t = TK_PLUSPLUS then
       bnd (reads IsEndOfStatement) (\<lambda>e. if e then return False else thn (postfix_incdec sd t) (return False))
     else if t = tk (CHR ''('') then
       thn (seq [prepare_call, set_etype EXPR, lex sd, FunctionCallArgs sd self n]) (return True)
     else return False)"

definition PrefixedExpr :: "strtod \<Rightarrow> parser \<Rightarrow> nat \<Rightarrow> unit m" where
  "PrefixedExpr sd self n = seq [Factor sd self n, loop n (prefixed_round sd self n)]"

definition MultExp :: "strtod \<Rightarrow> parser \<Rightarrow> nat \<Rightarrow> unit m" where
  "MultExp sd self n = binary_level sd n (PrefixedExpr sd self n) mult_ops"

definition PlusExp :: "strtod \<Rightarrow> parser \<Rightarrow> nat \<Rightarrow> unit m" where
  "PlusExp sd self n = binary_level sd n (MultExp sd self n) plus_ops"

definition ShiftExp :: "strtod \<Rightarrow> parser \<Rightarrow> nat \<Rightarrow> unit m" where
  "ShiftExp sd self n = binary_level sd n (PlusExp sd self n) shift_ops"

definition CompExp :: "strtod \<Rightarrow> parser \<Rightarrow> nat \<Rightarrow> unit m" where
  "CompExp sd self n = binary_level sd n (ShiftExp sd self n) comp_ops"

definition EqExp :: "strtod \<Rightarrow> parser \<Rightarrow> nat \<Rightarrow> unit m" where
  "EqExp sd self n = binary_level sd n (CompExp sd self n) eq_ops"

definition BitwiseAndExp :: "strtod \<Rightarrow> parser \<Rightarrow> nat \<Rightarrow> unit m" where
  "BitwiseAndExp sd self n = binary_level sd n (EqExp sd self n) and_ops"

definition BitwiseXorExp :: "strtod \<Rightarrow> parser \<Rightarrow> nat \<Rightarrow> unit m" where
  "BitwiseXorExp sd self n = binary_level sd n (BitwiseAndExp sd self n) xor_ops"

definition BitwiseOrExp :: "strtod \<Rightarrow> parser \<Rightarrow> nat \<Rightarrow> unit m" where
  "BitwiseOrExp sd self n = binary_level sd n (BitwiseXorExp sd self n) or_ops"

definition LogicalAndExp :: "strtod \<Rightarrow> parser \<Rightarrow> nat \<Rightarrow> unit m" where
  "LogicalAndExp sd self n =
     seq [BitwiseOrExp sd self n,
          loop n (bnd (reads cp_token) (\<lambda>t.
            if t = TK_AND then thn (short_circuit sd OP_AND (self GLogicalAndExp)) (return True)
            else (case word_ops t of
                Some (opc, op3) \<Rightarrow> thn (BIN_EXP sd (BitwiseOrExp sd self n) opc op3) (return True)
              | None \<Rightarrow> return False)))]"

definition LogicalOrExp :: "strtod \<Rightarrow> parser \<Rightarrow> nat \<Rightarrow> unit m" where
  "LogicalOrExp sd self n =
     seq [LogicalAndExp sd self n,
          bnd (reads cp_token) (\<lambda>t. only (t = TK_OR) (short_circuit sd OP_OR (self GLogicalOrExp)))]"

definition assign_tokens :: "int list" where
  "assign_tokens = [tk (CHR ''=''), TK_NEWSLOT, TK_MINUSEQ, TK_PLUSEQ, TK_MULEQ, TK_DIVEQ, TK_MODEQ]"

definition assignment :: "strtod \<Rightarrow> parser \<Rightarrow> int \<Rightarrow> unit m" where
  "assignment sd self opt =
     bnd (reads (es_etype \<circ> cp_es)) (\<lambda>ds.
     bnd (reads (es_epos \<circ> cp_es)) (\<lambda>pos.
     if ds = EXPR then err (''can'' @ [CHR 0x27] @ ''t assign expression'')
     else seq [lex sd, self GExpression,
       (if opt = TK_NEWSLOT then
          (if ds = OBJECT \<or> ds = BASE then EmitDerefOp OP_NEWSLOT
           else err (''can'' @ [CHR 0x27] @ ''t '' @ [CHR 0x27] @ ''create'' @ [CHR 0x27] @ '' a local slot''))
        else if opt = tk (CHR ''='') then
          (case ds of
             LOCAL \<Rightarrow> bnd pop_target (\<lambda>src. bnd top_target (\<lambda>dst. emit OP_MOVE dst src 0 0))
           | OUTER \<Rightarrow> bnd pop_target (\<lambda>src. bnd (push_target (- 1)) (\<lambda>dst. emit OP_SETOUTER dst pos src 0))
           | _ \<Rightarrow> EmitDerefOp OP_SET)
        else EmitCompoundArith opt ds pos)]))"

definition conditional :: "strtod \<Rightarrow> parser \<Rightarrow> unit m" where
  "conditional sd self =
     thn (lex sd) (
     bnd pop_target (\<lambda>cond.
     thn (emit OP_JZ cond 0 0 0) (
     bnd current_pos (\<lambda>jzpos.
     bnd (push_target (- 1)) (\<lambda>trg.
     thn (self GExpression) (
     bnd pop_target (\<lambda>first_exp.
     thn (only (trg \<noteq> first_exp) (emit OP_MOVE trg first_exp 0 0)) (
     bnd current_pos (\<lambda>endfirstexp.
     thn (seq [emit OP_JMP 0 0 0 0, expect sd (tk (CHR '':''))]) (
     bnd current_pos (\<lambda>jmppos.
     thn (self GExpression) (
     bnd pop_target (\<lambda>second_exp.
     seq [only (trg \<noteq> second_exp) (emit OP_MOVE trg second_exp 0 0),
          bnd current_pos (\<lambda>cur. set_param jmppos 1 (cur - jmppos)),
          set_param jzpos 1 (endfirstexp - jzpos + 1),
          snooze])))))))))))))"

definition Expression :: "strtod \<Rightarrow> parser \<Rightarrow> nat \<Rightarrow> unit m" where
  "Expression sd self n =
     bnd (reads cp_es) (\<lambda>es.
     thn (seq [set_es (\<lambda>_. \<lparr>es_etype = EXPR, es_epos = - 1, es_donot_get = False\<rparr>), LogicalOrExp sd self n]) (
     bnd (reads cp_token) (\<lambda>t.
     seq [(if t \<in> set assign_tokens then assignment sd self t
           else if t = tk (CHR ''?'') then conditional sd self
           else return ()),
          set_es (\<lambda>_. es)])))"

end
