(* ===== verification/Statements.thy ===== *)
theory Statements
  imports Parser
begin

text \<open>
  Statements, tables and classes, and the compilation of a whole source, \<^verbatim>\<open>squirrel/sqcompiler.cpp\<close>.
\<close>

section \<open>The members of tables and classes\<close>

text \<open>Attributes and the word static, in classes only; the members of a table are separated by commas.\<close>

definition member_prefix :: "strtod \<Rightarrow> parser \<Rightarrow> int \<Rightarrow> (bool \<times> bool) m" where
  "member_prefix sd self separator =
     (if separator = tk (CHR '';'') then
        bnd (reads cp_token) (\<lambda>t.
        thn (only (t = TK_ATTR_OPEN)
          (seq [emit_to_new OP_NEWOBJ 0 0 0, lex sd, self (GParseTableOrClass (tk (CHR '','')) TK_ATTR_CLOSE)])) (
        bnd (reads cp_token) (\<lambda>t'.
        thn (only (t' = TK_STATIC) (lex sd)) (return (t = TK_ATTR_OPEN, t' = TK_STATIC)))))
      else return (False, False))"

definition member_types :: "int list" where
  "member_types = [TK_DYNAMIC_T, TK_VOID_T, TK_BOOLEAN_T, TK_CHAR8_T, TK_BYTE8_T, TK_INT16_T, TK_UINT16_T, TK_INT32_T,
     TK_UINT32_T, TK_INT64_T, TK_UINT64_T, TK_FLOAT32_T, TK_DOUBLE64_T, TK_STRING_T, TK_NATIVEPTR_T]"

text \<open>The key and the value of a member; the result is whether a type was given.\<close>

definition member :: "strtod \<Rightarrow> parser \<Rightarrow> nat \<Rightarrow> int \<Rightarrow> bool \<Rightarrow> bool m" where
  "member sd self n separator isstatic =
     bnd (reads cp_token) (\<lambda>t.
     if t = TK_FUNCTION \<or> t = TK_CONSTRUCTOR then
       thn (lex sd) (
       bnd (if t = TK_FUNCTION then Expect sd TK_IDENTIFIER else create_string ''constructor'') (\<lambda>name.
       thn (seq [expect sd (tk (CHR ''('')), load_key name, CreateFunction sd self n name False isstatic, emit_closure 0])
         (return True)))
     else if t = tk (CHR ''['') then
       thn (seq [lex sd, self GCommaExpr, expect sd (tk (CHR '']'')), expect sd (tk (CHR ''='')), self GExpression])
         (return False)
     else if t \<in> set member_types then
       thn (lex sd) (bnd (Expect sd TK_IDENTIFIER) (\<lambda>name.
       thn (seq [load_key name, expect sd (tk (CHR ''='')), self GExpression]) (return True)))
     else if t = TK_STRING_LITERAL \<and> separator = tk (CHR '','') then
       bnd (Expect sd TK_STRING_LITERAL) (\<lambda>name.
       thn (seq [load_key name, expect sd (tk (CHR '':'')), self GExpression]) (return False))
     else
       bnd (Expect sd TK_IDENTIFIER) (\<lambda>name.
       bnd (reads cp_token) (\<lambda>t.
       bnd (if t = TK_IDENTIFIER then Expect sd TK_IDENTIFIER else return name) (\<lambda>key.
       thn (seq [load_key key, expect sd (tk (CHR ''='')), self GExpression]) (return (t = TK_IDENTIFIER))))))"

definition NEW_SLOT_ATTRIBUTES_FLAG :: int where "NEW_SLOT_ATTRIBUTES_FLAG = 1"
definition NEW_SLOT_STATIC_FLAG :: int where "NEW_SLOT_STATIC_FLAG = 2"

definition store_member :: "int \<Rightarrow> bool \<Rightarrow> bool \<Rightarrow> bool \<Rightarrow> unit m" where
  "store_member separator hasattrs isstatic hastype =
     bnd pop_target (\<lambda>val. bnd pop_target (\<lambda>key.
     thn (only hasattrs (ignore pop_target)) (
     bnd top_target (\<lambda>table.
     if separator = tk (CHR '','') then
       seq [emit OP_NEWSLOT 0xFF table key val, only hastype (err ''static types are not supported in tables'')]
     else
       emit OP_NEWSLOTA ((if hasattrs then NEW_SLOT_ATTRIBUTES_FLAG else 0) + (if isstatic then NEW_SLOT_STATIC_FLAG else 0))
         table key val))))"

definition table_member :: "strtod \<Rightarrow> parser \<Rightarrow> nat \<Rightarrow> int \<Rightarrow> int \<Rightarrow> int \<Rightarrow> (int \<times> bool) m" where
  "table_member sd self n separator terminator nkeys =
     bnd (reads cp_token) (\<lambda>t.
     if t = terminator then return (nkeys, False)
     else
       bnd (member_prefix sd self separator) (\<lambda>(hasattrs, isstatic).
       bnd (member sd self n separator isstatic) (\<lambda>hastype.
       bnd (reads cp_token) (\<lambda>t.
       thn (seq [only (t = separator) (lex sd), store_member separator hasattrs isstatic hastype])
         (return (nkeys + 1, True))))))"

definition ParseTableOrClass :: "strtod \<Rightarrow> parser \<Rightarrow> nat \<Rightarrow> int \<Rightarrow> int \<Rightarrow> unit m" where
  "ParseTableOrClass sd self n separator terminator =
     bnd current_pos (\<lambda>tpos.
     bnd (iterate n (table_member sd self n separator terminator) 0) (\<lambda>nkeys.
     seq [only (separator = tk (CHR '','')) (set_param tpos 1 nkeys), lex sd]))"

section \<open>Loops and conditions\<close>

text \<open>A condition in parentheses.\<close>

definition condition :: "strtod \<Rightarrow> parser \<Rightarrow> unit m" where
  "condition sd self = seq [expect sd (tk (CHR ''('')), self GCommaExpr, expect sd (tk (CHR '')''))]"

definition IfStatement :: "strtod \<Rightarrow> parser \<Rightarrow> unit m" where
  "IfStatement sd self =
     thn (seq [lex sd, condition sd self, bnd pop_target (\<lambda>t. emit OP_JZ t 0 0 0)]) (
     bnd current_pos (\<lambda>jnepos.
     bnd BEGIN_SCOPE (\<lambda>old.
     thn (self (GStatement True)) (
     bnd (reads cp_token) (\<lambda>t.
     thn (seq [only (t \<noteq> tk (CHR ''}'') \<and> t \<noteq> TK_ELSE) (OptionalSemicolon sd), END_SCOPE old]) (
     bnd current_pos (\<lambda>endifblock.
     bnd (reads cp_token) (\<lambda>t.
     seq [only (t = TK_ELSE) (
            bnd BEGIN_SCOPE (\<lambda>old.
            thn (emit OP_JMP 0 0 0 0) (
            bnd current_pos (\<lambda>jmppos.
            seq [lex sd, self (GStatement True), OptionalSemicolon sd, END_SCOPE old,
                 bnd current_pos (\<lambda>cur. set_param jmppos 1 (cur - jmppos))])))),
          set_param jnepos 1 (endifblock - jnepos + (if t = TK_ELSE then 1 else 0))]))))))))"

text \<open>The jump back to a position.\<close>

definition jump_back :: "int \<Rightarrow> unit m" where
  "jump_back pos = bnd current_pos (\<lambda>cur. emit OP_JMP 0 (pos - cur - 1) 0 0)"

definition WhileStatement :: "strtod \<Rightarrow> parser \<Rightarrow> unit m" where
  "WhileStatement sd self =
     bnd current_pos (\<lambda>jmppos.
     thn (seq [lex sd, condition sd self]) (
     bnd BEGIN_BREAKBLE_BLOCK (\<lambda>block.
     thn (bnd pop_target (\<lambda>t. emit OP_JZ t 0 0 0)) (
     bnd current_pos (\<lambda>jzpos.
     bnd BEGIN_SCOPE (\<lambda>old.
     seq [self (GStatement True), END_SCOPE old, jump_back jmppos,
          bnd current_pos (\<lambda>cur. set_param jzpos 1 (cur - jzpos)),
          END_BREAKBLE_BLOCK block jmppos]))))))"

definition DoWhileStatement :: "strtod \<Rightarrow> parser \<Rightarrow> unit m" where
  "DoWhileStatement sd self =
     thn (lex sd) (
     bnd current_pos (\<lambda>jmptrg.
     bnd BEGIN_BREAKBLE_BLOCK (\<lambda>block.
     bnd BEGIN_SCOPE (\<lambda>old.
     thn (seq [self (GStatement True), END_SCOPE old, expect sd TK_WHILE]) (
     bnd current_pos (\<lambda>continuetrg.
     seq [condition sd self, bnd pop_target (\<lambda>t. emit OP_JZ t 1 0 0), jump_back jmptrg,
          END_BREAKBLE_BLOCK block continuetrg]))))))"

text \<open>The step of a loop is compiled before its body and moved behind it.\<close>

definition take_instructions :: "int \<Rightarrow> int \<Rightarrow> sqinstruction list m" where
  "take_instructions expstart expsize =
     (if expsize > 0
      then on_fs (\<lambda>_ fs.
        if 0 \<le> expstart \<and> nat (expstart + expsize) \<le> length (fs_instructions fs)
        then obind (PopInstructions (nat expsize) fs) (\<lambda>fs'.
          Done (take (nat expsize) (drop (nat expstart) (fs_instructions fs)), fs'))
        else Undef)
      else return [])"

fun add_instructions :: "sqinstruction list \<Rightarrow> unit m" where
  "add_instructions [] = return ()"
| "add_instructions (i # is) = thn (step_fs (\<lambda>p. AddInstruction p i)) (add_instructions is)"

definition ForStatement :: "strtod \<Rightarrow> parser \<Rightarrow> nat \<Rightarrow> unit m" where
  "ForStatement sd self n =
     thn (lex sd) (
     bnd BEGIN_SCOPE (\<lambda>old.
     thn (expect sd (tk (CHR ''(''))) (
     bnd (reads cp_token) (\<lambda>t.
     thn (seq [if t = TK_LOCAL then LocalDeclStatement sd self n False
               else only (t \<noteq> tk (CHR '';'')) (seq [self GCommaExpr, ignore pop_target]),
               expect sd (tk (CHR '';'')), snooze]) (
     bnd current_pos (\<lambda>jmppos.
     bnd (reads cp_token) (\<lambda>t.
     bnd (if t \<noteq> tk (CHR '';'')
          then thn (seq [self GCommaExpr, bnd pop_target (\<lambda>t. emit OP_JZ t 0 0 0)]) current_pos
          else return (- 1)) (\<lambda>jzpos.
     thn (seq [expect sd (tk (CHR '';'')), snooze]) (
     bnd current_pos (\<lambda>pos0.
     bnd (reads cp_token) (\<lambda>t.
     thn (seq [only (t \<noteq> tk (CHR '')'')) (seq [self GCommaExpr, ignore pop_target]), expect sd (tk (CHR '')'')), snooze]) (
     bnd current_pos (\<lambda>expend.
     bnd (take_instructions (pos0 + 1) (expend - (pos0 + 1) + 1)) (\<lambda>exp.
     bnd BEGIN_BREAKBLE_BLOCK (\<lambda>block.
     thn (self (GStatement True)) (
     bnd current_pos (\<lambda>continuetrg.
     seq [add_instructions exp, jump_back jmppos,
          only (jzpos > 0) (bnd current_pos (\<lambda>cur. set_param jzpos 1 (cur - jzpos))),
          END_SCOPE old, END_BREAKBLE_BLOCK block continuetrg])))))))))))))))))"

definition nulled_local :: "sqobj \<Rightarrow> int m" where
  "nulled_local name = bnd (push_local name) (\<lambda>pos. thn (emit OP_LOADNULLS pos 1 0 0) (return pos))"

definition ForEachStatement :: "strtod \<Rightarrow> parser \<Rightarrow> unit m" where
  "ForEachStatement sd self =
     thn (seq [lex sd, expect sd (tk (CHR ''(''))]) (
     bnd (Expect sd TK_IDENTIFIER) (\<lambda>name1.
     bnd (reads cp_token) (\<lambda>t.
     bnd (if t = tk (CHR '','') then thn (lex sd) (bnd (Expect sd TK_IDENTIFIER) (\<lambda>name2. return (name1, name2)))
          else bnd (create_string ''@INDEX@'') (\<lambda>index. return (index, name1))) (\<lambda>(idxname, valname).
     thn (expect sd TK_IN) (
     bnd BEGIN_SCOPE (\<lambda>old.
     thn (seq [self GExpression, expect sd (tk (CHR '')''))]) (
     bnd top_target (\<lambda>container.
     bnd (nulled_local idxname) (\<lambda>indexpos.
     thn (seq [ignore (nulled_local valname), bnd (create_string ''@ITERATOR@'') (\<lambda>it. ignore (nulled_local it))]) (
     bnd current_pos (\<lambda>jmppos.
     thn (emit OP_FOREACH container 0 indexpos 0) (
     bnd current_pos (\<lambda>foreachpos.
     thn (emit OP_POSTFOREACH container 0 indexpos 0) (
     bnd BEGIN_BREAKBLE_BLOCK (\<lambda>block.
     seq [self (GStatement True), jump_back jmppos,
          bnd current_pos (\<lambda>cur. seq [set_param foreachpos 1 (cur - foreachpos), set_param (foreachpos + 1) 1 (cur - foreachpos)]),
          END_BREAKBLE_BLOCK block (foreachpos - 1),
          ignore pop_target,
          END_SCOPE old])))))))))))))))"

text \<open>
  One case of a switch; the jumps of the conditions before it are carried along: the one to the
  next condition and whether this is not the first.
\<close>

definition switch_case :: "strtod \<Rightarrow> parser \<Rightarrow> int \<Rightarrow> int \<times> int \<times> bool \<Rightarrow> ((int \<times> int \<times> bool) \<times> bool) m" where
  "switch_case sd self expr = (\<lambda>(tonextcondjmp, skipcondjmp, bfirst).
     bnd (reads cp_token) (\<lambda>t.
     if t \<noteq> TK_CASE then return ((tonextcondjmp, skipcondjmp, bfirst), False)
     else
       bnd (if bfirst then return skipcondjmp
            else thn (emit OP_JMP 0 0 0 0) (bnd current_pos (\<lambda>skip.
              thn (set_param tonextcondjmp 1 (skip - tonextcondjmp)) (return skip)))) (\<lambda>skip.
       thn (seq [lex sd, self GExpression, expect sd (tk (CHR '':''))]) (
       bnd pop_target (\<lambda>trg.
       thn (seq [emit OP_EQ trg trg expr 0, emit OP_JZ trg 0 0 0,
                 only (skip \<noteq> - 1) (bnd current_pos (\<lambda>cur. set_param skip 1 (cur - skip)))]) (
       bnd current_pos (\<lambda>tonext.
       bnd BEGIN_SCOPE (\<lambda>old.
       thn (seq [self GStatements, END_SCOPE old]) (return ((tonext, skip, False), True))))))))))"

definition SwitchStatement :: "strtod \<Rightarrow> parser \<Rightarrow> nat \<Rightarrow> unit m" where
  "SwitchStatement sd self n =
     thn (seq [lex sd, condition sd self, expect sd (tk (CHR ''{''))]) (
     bnd top_target (\<lambda>expr.
     bnd (read_jumps (\<lambda>j. int (length (jm_unresolvedbreaks j)))) (\<lambda>pos0.
     thn (change_jumps (\<lambda>j. j\<lparr>jm_breaktargets := jm_breaktargets j @ [0]\<rparr>)) (
     bnd (iterate n (switch_case sd self expr) (- 1, - 1, True)) (\<lambda>(tonextcondjmp, _, _).
     thn (only (tonextcondjmp \<noteq> - 1) (bnd current_pos (\<lambda>cur. set_param tonextcondjmp 1 (cur - tonextcondjmp)))) (
     bnd (reads cp_token) (\<lambda>t.
     thn (seq [only (t = TK_DEFAULT) (seq [lex sd, expect sd (tk (CHR '':'')),
                 bnd BEGIN_SCOPE (\<lambda>old. seq [self GStatements, END_SCOPE old])]),
               expect sd (tk (CHR ''}'')), ignore pop_target]) (
     bnd (read_jumps (\<lambda>j. int (length (jm_unresolvedbreaks j)) - pos0)) (\<lambda>nbreaks.
     seq [only (nbreaks > 0) (ResolveBreaks (nat nbreaks)), pop_breaktarget])))))))))"

section \<open>Other statements\<close>

definition FunctionStatement :: "strtod \<Rightarrow> parser \<Rightarrow> nat \<Rightarrow> unit m" where
  "FunctionStatement sd self n =
     thn (lex sd) (
     bnd (Expect sd TK_IDENTIFIER) (\<lambda>name.
     thn (seq [ignore (push_target 0), load_key name]) (
     bnd (reads cp_token) (\<lambda>t.
     thn (only (t = TK_DOUBLE_COLON) (Emit2ArgsOP OP_GET 0)) (
     bnd (iterate n (\<lambda>name. bnd (reads cp_token) (\<lambda>t.
            if t \<noteq> TK_DOUBLE_COLON then return (name, False)
            else thn (lex sd) (bnd (Expect sd TK_IDENTIFIER) (\<lambda>name.
              thn (load_key name) (bnd (reads cp_token) (\<lambda>t.
              thn (only (t = TK_DOUBLE_COLON) (Emit2ArgsOP OP_GET 0)) (return (name, True)))))))) name) (\<lambda>name.
     seq [expect sd (tk (CHR ''('')), CreateFunction sd self n name False False, emit_closure 0,
          EmitDerefOp OP_NEWSLOT, ignore pop_target]))))))"

definition ClassStatement :: "strtod \<Rightarrow> parser \<Rightarrow> unit m" where
  "ClassStatement sd self =
     operand_place sd self (\<lambda>etype.
       if etype = EXPR then err ''invalid class name''
       else if etype = OBJECT \<or> etype = BASE then seq [ClassExp sd self, EmitDerefOp OP_NEWSLOT, ignore pop_target]
       else err ''cannot create a class in a local with the syntax(class <local>)'')"

definition ExpectScalar :: "strtod \<Rightarrow> sqobj m" where
  "ExpectScalar sd =
     bnd (reads cp_token) (\<lambda>t.
     bnd (reads cp_lex) (\<lambda>s.
     bnd (if t = TK_INTEGER then return (OInteger (lx_nvalue s))
          else if t = TK_FLOAT then return (OFloat (lx_fvalue s))
          else if t = TK_STRING_LITERAL then create_string (token_string s)
          else if t = tk (CHR ''-'') then
            thn (lex sd) (bnd (reads cp_token) (\<lambda>t. bnd (reads cp_lex) (\<lambda>s.
            if t = TK_INTEGER then return (OInteger (- lx_nvalue s))
            else if t = TK_FLOAT then return (OFloat (fl_neg (lx_fvalue s)))
            else err ''scalar expected : integer,float'')))
          else err ''scalar expected : integer,float or string'') (\<lambda>val.
     thn (lex sd) (return val))))"

text \<open>A new slot in a table of constants.\<close>

definition new_constant :: "sqobj \<Rightarrow> sqobj \<Rightarrow> unit m" where
  "new_constant key val =
     bnd (reads (\<lambda>c. Table_NewSlot (cp_consts c) key val)) (\<lambda>r.
     bnd (of_opt r) (\<lambda>(_, t). modify (\<lambda>c. c\<lparr>cp_consts := t\<rparr>)))"

definition table_slot :: "addr \<Rightarrow> sqobj \<Rightarrow> sqobj \<Rightarrow> unit m" where
  "table_slot a key val =
     bnd (reads (\<lambda>c. Option.bind (cp_tables c a) (\<lambda>t. Table_NewSlot t key val))) (\<lambda>r.
     bnd (of_opt r) (\<lambda>(_, t). modify (\<lambda>c. c\<lparr>cp_tables := (cp_tables c)(a \<mapsto> t)\<rparr>)))"

definition new_table :: "addr m" where
  "new_table =
     bnd (reads cp_next) (\<lambda>a.
     thn (seq [modify (\<lambda>c. c\<lparr>cp_tables := (cp_tables c)(a \<mapsto> SQTable_new 0), cp_next := a + 1\<rparr>),
               ignore (on_fs (\<lambda>_. CreateTable a))]) (return a))"

definition ConstStatement :: "strtod \<Rightarrow> unit m" where
  "ConstStatement sd =
     thn (lex sd) (
     bnd (Expect sd TK_IDENTIFIER) (\<lambda>name.
     thn (expect sd (tk (CHR ''=''))) (
     bnd (ExpectScalar sd) (\<lambda>val.
     seq [OptionalSemicolon sd, new_constant name val]))))"

definition EnumStatement :: "strtod \<Rightarrow> nat \<Rightarrow> unit m" where
  "EnumStatement sd n =
     thn (lex sd) (
     bnd (Expect sd TK_IDENTIFIER) (\<lambda>name.
     thn (expect sd (tk (CHR ''{''))) (
     bnd new_table (\<lambda>a.
     bnd (iterate n (\<lambda>nval. bnd (reads cp_token) (\<lambda>t.
            if t = tk (CHR ''}'') then return (nval, False)
            else
              bnd (Expect sd TK_IDENTIFIER) (\<lambda>key.
              bnd (reads cp_token) (\<lambda>t.
              bnd (if t = tk (CHR ''='') then thn (lex sd) (bnd (ExpectScalar sd) (\<lambda>val. return (val, nval)))
                   else return (OInteger nval, nval + 1)) (\<lambda>(val, nval).
              thn (table_slot a key val) (
              bnd (reads cp_token) (\<lambda>t.
              thn (only (t = tk (CHR '','')) (lex sd)) (return (nval, True))))))))) 0) (\<lambda>_.
     seq [new_constant name (ORef KTable a), lex sd])))))"

definition bump_traps :: "int \<Rightarrow> unit m" where
  "bump_traps d = change_jumps (\<lambda>j. j\<lparr>jm_breaktargets := bump_top d (jm_breaktargets j),
     jm_continuetargets := bump_top d (jm_continuetargets j)\<rparr>)"

definition TryCatchStatement :: "strtod \<Rightarrow> parser \<Rightarrow> unit m" where
  "TryCatchStatement sd self =
     thn (seq [lex sd, emit OP_PUSHTRAP 0 0 0 0, change_fs (\<lambda>fs. fs\<lparr>fs_traps := fs_traps fs + 1\<rparr>), bump_traps 1]) (
     bnd current_pos (\<lambda>trappos.
     thn (bnd BEGIN_SCOPE (\<lambda>old. seq [self (GStatement True), END_SCOPE old])) (
     thn (seq [change_fs (\<lambda>fs. fs\<lparr>fs_traps := fs_traps fs - 1\<rparr>), emit OP_POPTRAP 1 0 0 0, bump_traps (- 1),
               emit OP_JMP 0 0 0 0]) (
     bnd current_pos (\<lambda>jmppos.
     thn (seq [set_param trappos 1 (jmppos - trappos), expect sd TK_CATCH, expect sd (tk (CHR ''(''))]) (
     bnd (Expect sd TK_IDENTIFIER) (\<lambda>exid.
     thn (expect sd (tk (CHR '')''))) (
     bnd BEGIN_SCOPE (\<lambda>old.
     bnd (push_local exid) (\<lambda>ex_target.
     seq [set_param trappos 0 ex_target, self (GStatement True),
          bnd current_pos (\<lambda>cur. set_params jmppos 0 (cur - jmppos) 0),
          END_SCOPE old]))))))))))"

text \<open>
  Return and yield.  The arguments of the instruction are the target of the result, taken from
  the stack, and the size of the stack; C++ leaves their order open, and here they are evaluated
  from left to right.
\<close>

definition ReturnStatement :: "strtod \<Rightarrow> parser \<Rightarrow> SQOpcode \<Rightarrow> unit m" where
  "ReturnStatement sd self opc =
     thn (seq [only (opc = OP_YIELD) (change_fs (\<lambda>fs. fs\<lparr>fs_bgenerator := True\<rparr>)), lex sd]) (
     bnd (reads IsEndOfStatement) (\<lambda>e.
     bnd (read_fs (\<lambda>fs. GetCurrentPos fs + 1)) (\<lambda>retexp.
     let leave_traps = bnd (read_fs fs_traps) (\<lambda>traps. only (opc = OP_RETURN \<and> traps > 0) (emit OP_POPTRAP traps 0 0 0)) in
     if \<not> e then
       seq [self GCommaExpr, leave_traps, change_fs (\<lambda>fs. fs\<lparr>fs_returnexp := retexp\<rparr>),
            bnd pop_target (\<lambda>t. bnd stack_size (\<lambda>size. emit opc 1 t size 0))]
     else
       seq [leave_traps, change_fs (\<lambda>fs. fs\<lparr>fs_returnexp := - 1\<rparr>),
            bnd stack_size (\<lambda>size. emit opc 0xFF 0 size 0)])))"

definition jump_out :: "int list \<Rightarrow> unit m" where
  "jump_out targets =
     seq [only (last targets > 0) (emit OP_POPTRAP (last targets) 0 0 0), RESOLVE_OUTERS, emit OP_JMP 0 (- 1234) 0 0]"

definition BreakStatement :: "strtod \<Rightarrow> unit m" where
  "BreakStatement sd =
     bnd (read_jumps jm_breaktargets) (\<lambda>targets.
     if targets = [] then err ([CHR 0x27] @ ''break'' @ [CHR 0x27] @ '' has to be in a loop block'')
     else seq [jump_out targets,
       bnd current_pos (\<lambda>pos. change_jumps (\<lambda>j. j\<lparr>jm_unresolvedbreaks := jm_unresolvedbreaks j @ [pos]\<rparr>)), lex sd])"

definition ContinueStatement :: "strtod \<Rightarrow> unit m" where
  "ContinueStatement sd =
     bnd (read_jumps jm_continuetargets) (\<lambda>targets.
     if targets = [] then err ([CHR 0x27] @ ''continue'' @ [CHR 0x27] @ '' has to be in a loop block'')
     else seq [jump_out targets,
       bnd current_pos (\<lambda>pos. change_jumps (\<lambda>j. j\<lparr>jm_unresolvedcontinues := jm_unresolvedcontinues j @ [pos]\<rparr>)), lex sd])"

definition BlockStatement :: "strtod \<Rightarrow> parser \<Rightarrow> bool \<Rightarrow> unit m" where
  "BlockStatement sd self closeframe =
     bnd BEGIN_SCOPE (\<lambda>old.
     seq [lex sd, self GStatements, expect sd (tk (CHR ''}'')),
          if closeframe then END_SCOPE old else END_SCOPE_NO_CLOSE old])"

text \<open>The names of a namespace are only noted in the syntax tree.\<close>

definition UsingStatement :: "strtod \<Rightarrow> nat \<Rightarrow> unit m" where
  "UsingStatement sd n =
     loop n (thn (seq [lex sd, expect sd TK_IDENTIFIER]) (reads (\<lambda>c. cp_token c = tk (CHR ''.''))))"

definition NamespaceStatement :: "strtod \<Rightarrow> parser \<Rightarrow> unit m" where
  "NamespaceStatement sd self =
     seq [lex sd, expect sd TK_IDENTIFIER, expect sd (tk (CHR ''{'')), self GStatements, expect sd (tk (CHR ''}''))]"

definition Statement :: "strtod \<Rightarrow> parser \<Rightarrow> nat \<Rightarrow> bool \<Rightarrow> unit m" where
  "Statement sd self n closeframe =
     thn (bnd (reads (lx_currentline \<circ> cp_lex)) (\<lambda>line. AddLines line False)) (
     bnd (reads cp_token) (\<lambda>t.
     thn (if t = tk (CHR '';'') then lex sd
          else if t = TK_IF then IfStatement sd self
          else if t = TK_WHILE then WhileStatement sd self
          else if t = TK_DO then DoWhileStatement sd self
          else if t = TK_FOR then ForStatement sd self n
          else if t = TK_FOREACH then ForEachStatement sd self
          else if t = TK_SWITCH then SwitchStatement sd self n
          else if t = TK_LOCAL then LocalDeclStatement sd self n False
          else if t = TK_RETURN then ReturnStatement sd self OP_RETURN
          else if t = TK_YIELD then ReturnStatement sd self OP_YIELD
          else if t = TK_BREAK then BreakStatement sd
          else if t = TK_CONTINUE then ContinueStatement sd
          else if t = TK_FUNCTION then FunctionStatement sd self n
          else if t = TK_CLASS then ClassStatement sd self
          else if t = TK_ENUM then EnumStatement sd n
          else if t = tk (CHR ''{'') then BlockStatement sd self closeframe
          else if t = TK_TRY then TryCatchStatement sd self
          else if t = TK_THROW then seq [lex sd, self GCommaExpr, bnd pop_target (\<lambda>t. emit OP_THROW t 0 0 0)]
          else if t = TK_CONST then ConstStatement sd
          else if t = TK_USING then UsingStatement sd n
          else if t = TK_NAMESPACE then NamespaceStatement sd self
          else if isbuiltintype t then LocalDeclStatement sd self n False
          else seq [self GCommaExpr, step_fs (\<lambda>_. DiscardTarget)])
       snooze))"

definition statement_and_end :: "strtod \<Rightarrow> unit m \<Rightarrow> unit m" where
  "statement_and_end sd statement =
     seq [statement, bnd (reads (lx_prevtoken \<circ> cp_lex)) (\<lambda>p.
       only (p \<noteq> tk (CHR ''}'') \<and> p \<noteq> tk (CHR '';'')) (OptionalSemicolon sd))]"

definition Statements :: "strtod \<Rightarrow> parser \<Rightarrow> nat \<Rightarrow> unit m" where
  "Statements sd self n =
     while_token n (\<lambda>t. t \<noteq> tk (CHR ''}'') \<and> t \<noteq> TK_DEFAULT \<and> t \<noteq> TK_CASE) (statement_and_end sd (self (GStatement True)))"

section \<open>The whole compiler\<close>

fun parse :: "strtod \<Rightarrow> nat \<Rightarrow> parser" where
  "parse sd 0 g = no_fuel"
| "parse sd (Suc n) g =
     (case g of
        GStatement closeframe \<Rightarrow> Statement sd (parse sd n) n closeframe
      | GStatements \<Rightarrow> Statements sd (parse sd n) n
      | GCommaExpr \<Rightarrow> CommaExpr sd (parse sd n) n
      | GExpression \<Rightarrow> Expression sd (parse sd n) n
      | GLogicalOrExp \<Rightarrow> LogicalOrExp sd (parse sd n) n
      | GLogicalAndExp \<Rightarrow> LogicalAndExp sd (parse sd n) n
      | GPrefixedExpr \<Rightarrow> PrefixedExpr sd (parse sd n) n
      | GParseTableOrClass separator terminator \<Rightarrow> ParseTableOrClass sd (parse sd n) n separator terminator)"

text \<open>The function state of the whole script, with the parameters of every script.\<close>

definition main_state :: "unit m" where
  "main_state =
     bnd (create_string ''this'') (\<lambda>this.
     bnd (create_string ''vargv'') (\<lambda>vargv.
     bnd (reads cp_sourcename) (\<lambda>src.
     change_fs (\<lambda>fs. (AddParameter vargv (AddParameter this fs))\<lparr>fs_varparams := True, fs_sourcename := src\<rparr>))))"

definition compile_script :: "strtod \<Rightarrow> nat \<Rightarrow> sqfuncproto m" where
  "compile_script sd n =
     thn main_state (
     bnd stack_size (\<lambda>size.
     thn (seq [lex sd,
               while_token n (\<lambda>t. t > 0) (statement_and_end sd (parse sd n (GStatement True))),
               change_fs (SetStackSize (nat size)),
               bnd (reads (lx_currentline \<circ> cp_lex)) (\<lambda>line. AddLines line True),
               emit OP_RETURN 0xFF 0 0 0,
               change_fs (SetStackSize 0)])
       (on_fs (\<lambda>_ fs. obind (BuildProto fs) (\<lambda>func. Done (func, fs))))))"

text \<open>
  The compiler before it starts.  What a stack variable of the code holds at the start is not
  defined; the token is set by the first call of \<open>Lex\<close> and the expression state by \<open>Expression\<close>.
\<close>

definition comp_init :: "sqlexer \<Rightarrow> string \<Rightarrow> bool \<Rightarrow> sqtable \<Rightarrow> (addr \<Rightarrow> sqtable option) \<Rightarrow> addr \<Rightarrow> comp" where
  "comp_init lexer sourcename lineinfo consts tables a =
     \<lparr>cp_lex = lexer, cp_token = 0, cp_fs = [funcstate_new\<lparr>fs_name := OString ''main''\<rparr>], cp_jumps = [no_jumps],
      cp_es = \<lparr>es_etype = EXPR, es_epos = - 1, es_donot_get = False\<rparr>, cp_scope = \<lparr>sc_outers = 0, sc_stacksize = 0\<rparr>,
      cp_consts = consts, cp_tables = tables, cp_protos = Map.empty, cp_next = a,
      cp_sourcename = OString sourcename, cp_lineinfo = lineinfo\<rparr>"

definition Compile :: "strtod \<Rightarrow> nat \<Rightarrow> comp \<Rightarrow> (sqfuncproto \<times> comp) result" where
  "Compile sd n c = compile_script sd n c"

end
