(* ===== verification/CompilerEnds.thy ===== *)
theory CompilerEnds
  imports Statements LexerProps
begin

text \<open>
  That the compiler ends.  What is left of the source, counted with the current token, never
  grows, and every round of a loop and every cycle of calls reads at least one token.
\<close>

section \<open>What is left to read\<close>

definition good :: "comp \<Rightarrow> bool" where
  "good c \<longleftrightarrow> keywords_ok (lx_keywords (cp_lex c)) \<and> (cp_token c = 0 \<longrightarrow> lx_currdata (cp_lex c) = EOB)"

definition weight :: "comp \<Rightarrow> nat" where
  "weight c = 2 * left (cp_lex c) + (if cp_token c = 0 then 0 else 1)"

text \<open>
  From a state with less than \<open>b\<close> left and a token in \<open>T\<close>, a part of the compiler does not reach its
  bound, leaves no more than there was, and less when its result is in \<open>S\<close>.
\<close>

definition ends :: "nat \<Rightarrow> (int \<Rightarrow> bool) \<Rightarrow> ('a \<Rightarrow> bool) \<Rightarrow> 'a m \<Rightarrow> bool" where
  "ends b T S m \<longleftrightarrow> (\<forall>c. good c \<and> weight c < b \<and> T (cp_token c) \<longrightarrow> m c \<noteq> NoFuel \<and>
     (\<forall>x c'. m c = Ok (x, c') \<longrightarrow> good c' \<and> weight c' \<le> weight c \<and> (S x \<longrightarrow> weight c' < weight c)))"

abbreviation any :: "int \<Rightarrow> bool" where "any \<equiv> \<lambda>_. True"

abbreviation reads_on :: "nat \<Rightarrow> 'a m \<Rightarrow> bool" where "reads_on b m \<equiv> ends b any (\<lambda>_. True) m"
abbreviation keeps_on :: "nat \<Rightarrow> 'a m \<Rightarrow> bool" where "keeps_on b m \<equiv> ends b any (\<lambda>_. False) m"

lemma ends_weaken: "ends b T S m \<Longrightarrow> b' \<le> b \<Longrightarrow> (\<And>t. T' t \<Longrightarrow> T t) \<Longrightarrow> (\<And>x. S' x \<Longrightarrow> S x) \<Longrightarrow> ends b' T' S' m"
  unfolding ends_def by (meson less_le_trans)

lemma ends_le: "ends b T S m \<Longrightarrow> ends b T (\<lambda>_. False) m"
  by (erule ends_weaken) auto

lemma ends_bnd:
  assumes "ends b T (\<lambda>_. False) m" "\<And>x. ends b any S (f x)"
  shows "ends b T S (bnd m f)"
  unfolding ends_def
proof (intro allI impI)
  fix c assume c: "good c \<and> weight c < b \<and> T (cp_token c)"
  show "bnd m f c \<noteq> NoFuel \<and> (\<forall>x c'. bnd m f c = Ok (x, c') \<longrightarrow>
      good c' \<and> weight c' \<le> weight c \<and> (S x \<longrightarrow> weight c' < weight c))"
  proof (cases "m c")
    case (Ok r)
    obtain x c1 where r: "r = (x, c1)" by fastforce
    have "good c1 \<and> weight c1 \<le> weight c" using assms(1) c Ok r by (auto simp: ends_def)
    then show ?thesis using assms(2) [of x] c Ok r by (fastforce simp: ends_def bnd_def)
  qed (use assms(1) c in \<open>auto simp: ends_def bnd_def\<close>)
qed

text \<open>After something was read, the rest has less before it.\<close>

lemma ends_bnd_less:
  assumes "ends b T (\<lambda>_. True) m" "\<And>x. keeps_on (b - 1) (f x)"
  shows "ends b T S (bnd m f)"
  unfolding ends_def
proof (intro allI impI)
  fix c assume c: "good c \<and> weight c < b \<and> T (cp_token c)"
  show "bnd m f c \<noteq> NoFuel \<and> (\<forall>x c'. bnd m f c = Ok (x, c') \<longrightarrow>
      good c' \<and> weight c' \<le> weight c \<and> (S x \<longrightarrow> weight c' < weight c))"
  proof (cases "m c")
    case (Ok r)
    obtain x c1 where r: "r = (x, c1)" by fastforce
    have "good c1 \<and> weight c1 < weight c" using assms(1) c Ok r by (auto simp: ends_def)
    moreover from this have "weight c1 < b - 1" using c by linarith
    ultimately show ?thesis using assms(2) [of x] c Ok r by (fastforce simp: ends_def bnd_def)
  qed (use assms(1) c in \<open>auto simp: ends_def bnd_def\<close>)
qed

lemma ends_thn: "ends b T (\<lambda>_. False) m \<Longrightarrow> ends b any S m' \<Longrightarrow> ends b T S (thn m m')"
  unfolding thn_def by (rule ends_bnd)

lemma ends_thn_less: "ends b T (\<lambda>_. True) m \<Longrightarrow> keeps_on (b - 1) m' \<Longrightarrow> ends b T S (thn m m')"
  unfolding thn_def by (rule ends_bnd_less)

text \<open>The current token is known to the rest.\<close>

lemma ends_token: "(\<And>t. T t \<Longrightarrow> ends b ((=) t) S (f t)) \<Longrightarrow> ends b T S (bnd (reads cp_token) f)"
  by (auto simp: ends_def bnd_def reads_def)

lemma ends_reads: "(\<And>x. ends b T S (f x)) \<Longrightarrow> ends b T S (bnd (reads g) f)"
  by (auto simp: ends_def bnd_def reads_def)

lemma ends_return: "\<not> S x \<Longrightarrow> ends b T S (return x)"
  by (simp add: ends_def return_def)

lemma ends_err [simp]: "ends b T S (err e)" "ends b T S undef"
  by (simp_all add: ends_def err_def undef_def)

lemma ends_if: "(p \<Longrightarrow> ends b T S m) \<Longrightarrow> (\<not> p \<Longrightarrow> ends b T S m') \<Longrightarrow> ends b T S (if p then m else m')"
  by simp

lemma ends_only: "(p \<Longrightarrow> ends b T (\<lambda>_. False) m) \<Longrightarrow> ends b T (\<lambda>_. False) (only p m)"
  by (simp add: only_def ends_return)

lemma ends_ignore: "ends b T (\<lambda>_. False) m \<Longrightarrow> ends b T (\<lambda>_. False) (ignore m)"
  "ends b T (\<lambda>_. True) m \<Longrightarrow> ends b T (\<lambda>_. True) (ignore m)"
  unfolding ignore_def by (auto intro: ends_bnd ends_bnd_less ends_return)

lemma ends_seq: "ends b T (\<lambda>_. False) (seq [])"
  by (simp add: ends_return)

section \<open>Parts that read nothing\<close>

definition neutral :: "'a m \<Rightarrow> bool" where
  "neutral m \<longleftrightarrow> (\<forall>c. m c \<noteq> NoFuel \<and> (\<forall>x c'. m c = Ok (x, c') \<longrightarrow> cp_lex c' = cp_lex c \<and> cp_token c' = cp_token c))"

lemma neutral_ends: "neutral m \<Longrightarrow> ends b T (\<lambda>_. False) m"
  by (auto simp: neutral_def ends_def good_def weight_def)

lemma neutral_bnd_ends:
  assumes "neutral m" "\<And>x. ends b T S (f x)"
  shows "ends b T S (bnd m f)"
  unfolding ends_def
proof (intro allI impI)
  fix c assume c: "good c \<and> weight c < b \<and> T (cp_token c)"
  show "bnd m f c \<noteq> NoFuel \<and> (\<forall>x c'. bnd m f c = Ok (x, c') \<longrightarrow>
      good c' \<and> weight c' \<le> weight c \<and> (S x \<longrightarrow> weight c' < weight c))"
  proof (cases "m c")
    case (Ok r)
    obtain x c1 where r: "r = (x, c1)" by fastforce
    have s: "cp_lex c1 = cp_lex c" "cp_token c1 = cp_token c" using assms(1) Ok r by (auto simp: neutral_def)
    then have "good c1" "weight c1 = weight c" "T (cp_token c1)" using c by (simp_all add: good_def weight_def)
    then show ?thesis using assms(2) [of x] c Ok r by (auto simp: ends_def bnd_def)
  qed (use assms(1) c in \<open>auto simp: neutral_def bnd_def\<close>)
qed

lemma neutral_thn_ends: "neutral m \<Longrightarrow> ends b T S m' \<Longrightarrow> ends b T S (thn m m')"
  unfolding thn_def by (rule neutral_bnd_ends)

lemma neutral_return [simp]: "neutral (return x)" "neutral undef" "neutral (err e)" "neutral (reads g)"
  by (simp_all add: neutral_def return_def undef_def err_def reads_def)

lemma neutral_bnd: "neutral m \<Longrightarrow> (\<And>x. neutral (f x)) \<Longrightarrow> neutral (bnd m f)"
  by (fastforce simp: neutral_def bnd_def split: result.split)

lemma neutral_thn: "neutral m \<Longrightarrow> neutral m' \<Longrightarrow> neutral (thn m m')"
  unfolding thn_def by (rule neutral_bnd)

lemma neutral_only: "neutral m \<Longrightarrow> neutral (only b m)"
  by (simp add: only_def)

lemma neutral_ignore: "neutral m \<Longrightarrow> neutral (ignore m)"
  by (simp add: ignore_def neutral_bnd)

lemma neutral_if: "(p \<Longrightarrow> neutral m) \<Longrightarrow> (\<not> p \<Longrightarrow> neutral m') \<Longrightarrow> neutral (if p then m else m')"
  by simp

lemma of_outcome_neutral: "of_outcome k r \<noteq> NoFuel" "of_outcome k r = Ok y \<Longrightarrow> \<exists>x. r = Done x \<and> y = k x"
  by (cases r; simp)+

lemma neutral_on_fs [simp]: "neutral (on_fs f)"
  by (auto simp: neutral_def on_fs_def of_outcome_neutral split: list.split dest!: of_outcome_neutral(2))

lemma neutral_on_jumps [simp]: "neutral (on_jumps f)"
  by (auto simp: neutral_def on_jumps_def of_outcome_neutral split: list.split dest!: of_outcome_neutral(2))

lemma neutral_modify [simp]: "(\<And>c. cp_lex (f c) = cp_lex c \<and> cp_token (f c) = cp_token c) \<Longrightarrow> neutral (modify f)"
  by (simp add: neutral_def modify_def)

lemmas neutral_intros = neutral_bnd neutral_thn neutral_only neutral_ignore neutral_if

lemma neutral_simple [simp]:
  "neutral (emit opc a0 a1 a2 a3)" "neutral (push_target k)" "neutral pop_target" "neutral top_target"
  "neutral current_pos" "neutral stack_size" "neutral (get_constant ob)" "neutral (create_string s)" "neutral snooze"
  "neutral (push_local ob)" "neutral (read_fs g)" "neutral (change_fs h)" "neutral (step_fs k')" "neutral (read_jumps g')"
  "neutral (change_jumps h')" "neutral (set_es k'')" "neutral (set_etype ty)" "neutral (set_epos e)" "neutral (leave_scope old)"
  "neutral (at_pos pos fp)" "neutral (set_param pos arg val)" "neutral (set_params pos arg val v2)"
  "neutral pop_breaktarget" "neutral pop_continuetarget" "neutral BEGIN_BREAKBLE_BLOCK"
  by (simp_all add: emit_def push_target_def pop_target_def top_target_def current_pos_def stack_size_def get_constant_def
      create_string_def snooze_def push_local_def read_fs_def change_fs_def step_fs_def read_jumps_def change_jumps_def
      set_es_def set_etype_def set_epos_def leave_scope_def at_pos_def set_param_def set_params_def pop_breaktarget_def
      pop_continuetarget_def BEGIN_BREAKBLE_BLOCK_def)

lemma neutral_outer [simp]: "neutral (outer_variable name)" "neutral (of_opt x)"
  by (simp_all add: neutral_def outer_variable_def of_opt_def split_def Let_def split: option.split)

lemma neutral_combined [simp]:
  "neutral (emit_to_new opc a1 a2 a3)" "neutral (load_key ob)" "neutral BEGIN_SCOPE" "neutral RESOLVE_OUTERS"
  "neutral (END_SCOPE old)" "neutral (END_SCOPE_NO_CLOSE old)" "neutral MoveIfCurrentTargetIsLocal"
  "neutral (EmitDerefOp opc)" "neutral (Emit2ArgsOP opc p3)" "neutral (EmitLoadConstInt i t)" "neutral (EmitLoadConstFloat f t)"
  by (auto simp: emit_to_new_def load_key_def BEGIN_SCOPE_def RESOLVE_OUTERS_def END_SCOPE_def END_SCOPE_NO_CLOSE_def
      MoveIfCurrentTargetIsLocal_def EmitDerefOp_def Emit2ArgsOP_def EmitLoadConstInt_def EmitLoadConstFloat_def
      intro!: neutral_intros)

lemma neutral_resolve [simp]: "neutral (ResolveBreaks k)" "neutral (ResolveContinues k t)" "neutral (pop_targets k)"
  by (induction k) (auto intro!: neutral_intros)

lemma neutral_add [simp]: "neutral (add_instructions is)"
  by (induction "is") (auto intro!: neutral_intros)

lemmas neutral_keeps [simp] = neutral_simple [THEN neutral_ends] neutral_combined [THEN neutral_ends]
  neutral_resolve [THEN neutral_ends] neutral_add [THEN neutral_ends] neutral_outer [THEN neutral_ends]
  neutral_return [THEN neutral_ends]

lemma ends_any: "ends b any S m \<Longrightarrow> ends b T S m"
  by (erule ends_weaken) auto

lemma ends_split [intro]: "(\<And>x y. p = (x, y) \<Longrightarrow> ends b T S (f x y)) \<Longrightarrow> ends b T S (case p of (x, y) \<Rightarrow> f x y)"
  by (cases p) simp

section \<open>Reading tokens\<close>

lemma lex_ends:
  "keeps_on b (lex sd)" "(\<And>t. T t \<Longrightarrow> t \<noteq> 0) \<Longrightarrow> ends b T (\<lambda>_. True) (lex sd)"
proof -
  have r: "lex sd c \<noteq> NoFuel \<and> (\<forall>x c'. lex sd c = Ok (x, c') \<longrightarrow> good c' \<and> weight c' \<le> weight c \<and>
      (cp_token c \<noteq> 0 \<longrightarrow> weight c' < weight c))" if c: "good c" for c
  proof (cases "Lex sd (cp_lex c)")
    case (Done p)
    obtain t s where p: "p = (t, s)" by fastforce
    have k: "keywords_ok (lx_keywords (cp_lex c))" using c by (simp add: good_def)
    have tr: "t = 0 \<Longrightarrow> lx_currdata s = EOB" "left s \<le> left (cp_lex c)" "t \<noteq> 0 \<Longrightarrow> left s < left (cp_lex c)"
      "lx_keywords s = lx_keywords (cp_lex c)"
      using Lex_reads [OF k, of sd] Done p
      by (auto simp: token_reads_def reads_more_def reads_some_def left_def split: if_splits)
    then have "good (c\<lparr>cp_token := t, cp_lex := s\<rparr>)" using k by (auto simp: good_def)
    moreover note tr(2,3)
    moreover have "t = 0" if "cp_token c = 0"
    proof -
      have "lx_currdata (cp_lex c) = EOB" using c that by (simp add: good_def)
      then show ?thesis using Done p by (simp add: Lex_def lex_loop.simps)
    qed
    ultimately show ?thesis using Done p by (auto simp: lex_def weight_def)
  qed (simp_all add: lex_def)
  show "keeps_on b (lex sd)" using r by (auto simp: ends_def)
  show "ends b T (\<lambda>_. True) (lex sd)" if "\<And>t. T t \<Longrightarrow> t \<noteq> 0" using r that by (auto simp: ends_def)
qed

lemmas lex_keeps [simp] = lex_ends(1) [THEN ends_any]

lemma Expect_reads: "tok \<noteq> 0 \<Longrightarrow> ends b T (\<lambda>_. True) (Expect sd tok)"
proof -
  assume tok: "tok \<noteq> 0"
  have nm: "neutral (token_name tok')" for tok'
    by (auto simp: neutral_def token_name_def split: outcome.split option.split)
  have c: "TK_CONSTRUCTOR \<noteq> 0" by (simp add: token_codes)
  show ?thesis unfolding Expect_def
    by (intro ends_token ends_if ends_reads neutral_bnd_ends [OF nm] ends_err neutral_bnd_ends neutral_if)
      (use tok c in \<open>auto intro!: ends_thn_less lex_ends(2) ends_return\<close>)
qed

lemma tk_nonzero [simp]: "tk ch = 0 \<longleftrightarrow> ch = CHR 0x00"
proof -
  have "of_char (CHR 0x00) = (0 :: nat)" by simp
  then show ?thesis by (metis code_def of_char_eq_iff of_nat_eq_0_iff tk_def)
qed

lemma expect_reads: "tok \<noteq> 0 \<Longrightarrow> ends b T (\<lambda>_. True) (expect sd tok)"
  unfolding expect_def by (intro ends_ignore Expect_reads)

lemma Expect_keeps [simp]: "tok \<noteq> 0 \<Longrightarrow> ends b T (\<lambda>_. False) (Expect sd tok)"
  "tok \<noteq> 0 \<Longrightarrow> ends b T (\<lambda>_. False) (expect sd tok)"
  using Expect_reads expect_reads by (blast intro: ends_le)+

lemma OptionalSemicolon_keeps [simp]: "ends b T (\<lambda>_. False) (OptionalSemicolon sd)"
  unfolding OptionalSemicolon_def by (intro ends_token ends_if ends_reads) (simp_all add: ends_return)

section \<open>Loops\<close>

lemma iterate_ends:
  assumes "\<And>x. ends b any snd (body x)" "b < n"
  shows "keeps_on b (iterate n body x)"
  using assms
proof (induction n arbitrary: b x)
  case (Suc n)
  show ?case unfolding ends_def
  proof (intro allI impI)
    fix c assume c: "good c \<and> weight c < b \<and> any (cp_token c)"
    have e: "body x c \<noteq> NoFuel" "\<And>y go c'. body x c = Ok ((y, go), c') \<Longrightarrow>
        good c' \<and> weight c' \<le> weight c \<and> (go \<longrightarrow> weight c' < weight c)"
      using Suc.prems(1) [of x] c by (fastforce simp: ends_def)+
    show "iterate (Suc n) body x c \<noteq> NoFuel \<and> (\<forall>z c'. iterate (Suc n) body x c = Ok (z, c') \<longrightarrow>
        good c' \<and> weight c' \<le> weight c \<and> (False \<longrightarrow> weight c' < weight c))"
    proof (cases "body x c")
      case (Ok r)
      obtain y go c1 where r: "r = ((y, go), c1)" by (metis surj_pair)
      show ?thesis
      proof (cases go)
        case True
        with e(2) Ok r have l: "good c1 \<and> weight c1 < weight c" by auto
        then have "weight c1 < b - 1" "b - 1 < n" "b - 1 \<le> b" using c Suc.prems(2) by linarith+
        moreover have "keeps_on (b - 1) (iterate n body y)"
          by (rule Suc.IH [OF ends_weaken [OF Suc.prems(1)]]) (use \<open>b - 1 < n\<close> in auto)
        ultimately have "iterate n body y c1 \<noteq> NoFuel \<and> (\<forall>z c'. iterate n body y c1 = Ok (z, c') \<longrightarrow>
            good c' \<and> weight c' \<le> weight c1)"
          using l unfolding ends_def by blast
        moreover have "iterate (Suc n) body x c = iterate n body y c1" using Ok r True by (simp add: bnd_def)
        ultimately show ?thesis using l by (metis less_imp_le_nat le_trans)
      next
        case False
        with e(2) Ok r show ?thesis by (auto simp: bnd_def return_def)
      qed
    qed (use e(1) in \<open>simp_all add: bnd_def\<close>)
  qed
qed simp

lemma loop_ends: "ends b any (\<lambda>go. go) body \<Longrightarrow> b < n \<Longrightarrow> keeps_on b (loop n body)"
  unfolding loop_def
proof (rule iterate_ends)
  fix x :: unit
  assume "ends b any (\<lambda>go. go) body"
  then show "ends b any snd (bnd body (\<lambda>go. return ((), go)))"
    by (fastforce simp: ends_def bnd_def return_def split: result.split)
qed

lemma while_token_ends:
  assumes "\<And>t. cond t \<Longrightarrow> ends b ((=) t) (\<lambda>_. True) body" "b < n"
  shows "keeps_on b (while_token n cond body)"
  unfolding while_token_def
  by (rule loop_ends [OF ends_token assms(2)]) (use assms(1) in \<open>auto intro!: ends_thn_less ends_return\<close>)

section \<open>The methods\<close>

text \<open>What the calls that close a cycle are taken to do, from states with less than \<open>k\<close> left.\<close>

fun reading_goal :: "goal \<Rightarrow> bool" where
  "reading_goal GStatements = False"
| "reading_goal (GParseTableOrClass separator terminator) = False"
| "reading_goal _ = True"

definition calls :: "nat \<Rightarrow> parser \<Rightarrow> bool" where
  "calls k self \<longleftrightarrow> (\<forall>g. ends k any (\<lambda>_. reading_goal g) (self g))"

lemma calls_less: "calls k self \<Longrightarrow> j \<le> k \<Longrightarrow> calls j self"
  unfolding calls_def by (blast intro: ends_weaken)

lemma calls_less1: "calls k self \<Longrightarrow> calls (k - 1) self" "calls k self \<Longrightarrow> calls (k - Suc 0) self"
  by (erule calls_less, simp)+

lemma calls_keeps [simp]: "calls k self \<Longrightarrow> ends k T (\<lambda>_. False) (self g)"
  by (auto simp: calls_def intro: ends_weaken)

lemma calls_keeps1 [simp]: "calls k self \<Longrightarrow> ends (k - Suc 0) T (\<lambda>_. False) (self g)"
  using calls_keeps [OF calls_less1(2)] .

lemma calls_reads: "calls k self \<Longrightarrow> reading_goal g \<Longrightarrow> ends k T (\<lambda>_. True) (self g)"
  by (auto simp: calls_def intro: ends_weaken)

text \<open>A sequence that reads, then does anything.\<close>

lemma after_lex: "(\<And>t. T t \<Longrightarrow> t \<noteq> 0) \<Longrightarrow> keeps_on (b - 1) m \<Longrightarrow> ends b T S (thn (lex sd) m)"
  by (rule ends_thn_less [OF lex_ends(2)])

lemma after_Expect: "tok \<noteq> 0 \<Longrightarrow> (\<And>x. keeps_on (b - 1) (f x)) \<Longrightarrow> ends b T S (bnd (Expect sd tok) f)"
  by (rule ends_bnd_less [OF Expect_reads])

lemma after_expect: "tok \<noteq> 0 \<Longrightarrow> keeps_on (b - 1) m \<Longrightarrow> ends b T S (thn (expect sd tok) m)"
  by (rule ends_thn_less [OF expect_reads])

lemma after_call: "calls b self \<Longrightarrow> reading_goal g \<Longrightarrow> keeps_on (b - 1) m \<Longrightarrow> ends b T S (thn (self g) m)"
  by (rule ends_thn_less [OF calls_reads])

lemmas ends_calc = ends_bnd ends_thn ends_if ends_only ends_ignore(1) ends_return

lemma ends_let: "ends b T S (f x) \<Longrightarrow> ends b T S (Let x f)"
  by simp

lemma token_nonzero [simp]:
  "TK_IDENTIFIER \<noteq> 0" "TK_STRING_LITERAL \<noteq> 0" "TK_WHILE \<noteq> 0" "TK_IN \<noteq> 0" "TK_CATCH \<noteq> 0"
  by (simp_all add: token_codes)

lemma parameter_default_keeps [simp]: "calls k self \<Longrightarrow> ends k T (\<lambda>_. False) (parameter_default sd self ps)"
  unfolding parameter_default_def by (cases ps) (auto intro!: ends_calc)

lemma parameter_round: "calls k self \<Longrightarrow> ends k any snd (parameter sd self ps)"
  unfolding parameter_def
proof (cases ps, simp only: prod.case, intro ends_token ends_if)
  fix child defparams t
  assume "calls k self"
  then show "ends k ((=) t) snd (thn (only (isbuiltintype t) (lex sd)) (
       bnd (Expect sd TK_IDENTIFIER) (\<lambda>paramname.
       bnd (reads cp_token) (\<lambda>t.
       bnd (if t = TK_IDENTIFIER then Expect sd TK_IDENTIFIER else return paramname) (\<lambda>paramname.
       bnd (parameter_default sd self (AddParameter paramname child, defparams)) (\<lambda>ps.
       bnd (reads cp_token) (\<lambda>t.
       thn (if t = tk (CHR '','') then lex sd
            else only (t \<noteq> tk (CHR '')'')) (err (close_paren_expected @ '' or '' @ [CHR 0x27, CHR '','', CHR 0x27])))
         (return (ps, True)))))))))"
    by (intro ends_thn after_Expect) (auto intro!: ends_calc dest: calls_less1)
qed (auto intro!: ends_calc)

lemma enter_keeps [simp]: "ends b T (\<lambda>_. False) (enter_function child)" "ends b T (\<lambda>_. False) (AddLines line force)"
  by (auto simp: enter_function_def AddLines_def intro!: neutral_ends neutral_bnd)

lemma leave_keeps [simp]: "ends b T (\<lambda>_. False) leave_function" "ends b T (\<lambda>_. False) (emit_closure kind)"
  by (auto simp: leave_function_def emit_closure_def intro!: neutral_ends neutral_bnd neutral_thn)

lemma CreateFunction_keeps [simp]:
  assumes "calls k self" "k < n"
  shows "ends k T (\<lambda>_. False) (CreateFunction sd self n name lambda isstatic)"
proof -
  note [simp] = iterate_ends [OF parameter_round [OF assms(1)] assms(2), THEN ends_any]
  show ?thesis unfolding CreateFunction_def by (auto simp: Let_def assms intro!: ends_calc)
qed

lemma local_declaration_round: "calls k self \<Longrightarrow> ends k any (\<lambda>go. go) (local_declaration sd self)"
  unfolding local_declaration_def by (rule after_Expect) (auto intro!: ends_calc dest: calls_less1)

lemma LocalDecl_keeps [simp]:
  assumes "calls k self" "k < n"
  shows "ends k T (\<lambda>_. False) (LocalDeclStatement sd self n p)"
proof -
  note [simp] = loop_ends [OF local_declaration_round [OF assms(1)] assms(2), THEN ends_any]
  show ?thesis unfolding LocalDeclStatement_def by (auto simp: assms intro!: ends_calc)
qed

lemma of_opt_keeps: "(\<And>y. ends b T S (f y)) \<Longrightarrow> ends b T S (bnd (of_opt x) f)"
  by (rule neutral_bnd_ends) simp_all

lemma constant_value_keeps [simp]: "ends b T (\<lambda>_. False) (constant_value sd name v)"
  unfolding constant_value_def by (auto intro!: ends_calc split: sqobj.split refkind.split option.split)

lemma load_constant_keeps [simp]: "ends b T (\<lambda>_. False) (load_constant v)"
  unfolding load_constant_def by (auto intro!: ends_calc split: sqobj.split)

lemma get_if_needed_keeps [simp]: "ends b T (\<lambda>_. False) get_if_needed"
  unfolding get_if_needed_def by (auto intro!: ends_calc)

lemma named_value_keeps [simp]: "ends b T (\<lambda>_. False) (named_value sd name ob)"
  unfolding named_value_def by (auto intro!: ends_calc split: option.split)

lemma UnaryOP_keeps [simp]: "calls k self \<Longrightarrow> ends k T (\<lambda>_. False) (UnaryOP self opc)"
  unfolding UnaryOP_def by (auto intro!: ends_calc)

lemma call_round:
  "calls k self \<Longrightarrow> keeps_on (k - 1) m \<Longrightarrow> ends k T S (thn (self GExpression) m)"
  by (rule after_call) simp_all

lemma array_round:
  assumes "calls k self"
  shows "ends k any snd (bnd (reads cp_token) (\<lambda>t.
            if t = tk (CHR '']'') then return (key, False)
            else thn (self GExpression) (
              bnd (reads cp_token) (\<lambda>t.
              thn (only (t = tk (CHR '','')) (lex sd)) (
              bnd pop_target (\<lambda>val. bnd top_target (\<lambda>array.
              thn (emit OP_APPENDARRAY array val (uint AAT_STACK) 0) (return (key + 1, True)))))))))"
  by (intro ends_token ends_if call_round [OF assms]) (auto intro!: ends_calc)

lemma array_literal_keeps:
  assumes "calls k self" "k < n"
  shows "keeps_on k (array_literal sd self n)"
proof -
  note [simp] = iterate_ends [OF array_round [OF assms(1)] assms(2), THEN ends_any]
  show ?thesis unfolding array_literal_def by (auto intro!: ends_calc)
qed

lemma ClassExp_keeps [simp]: "calls k self \<Longrightarrow> ends k T (\<lambda>_. False) (ClassExp sd self)"
  unfolding ClassExp_def by (auto intro!: ends_calc)

lemma operand_place_reads:
  assumes "calls (k - 1) self" "\<And>e. keeps_on (k - 1) (f e)" "\<And>t. T t \<Longrightarrow> t \<noteq> 0"
  shows "ends k T (\<lambda>_. True) (operand_place sd self f)"
  unfolding operand_place_def by (rule after_lex [OF assms(3)]) (use assms(1,2) in \<open>auto intro!: ends_calc\<close>)

lemma after_lex_seq: "(\<And>t. T t \<Longrightarrow> t \<noteq> 0) \<Longrightarrow> keeps_on (b - 1) (seq ms) \<Longrightarrow> ends b T S (seq (lex sd # ms))"
  by (simp add: after_lex)

lemma neutral_seq_ends: "neutral m \<Longrightarrow> ends b T S (seq ms) \<Longrightarrow> ends b T S (seq (m # ms))"
  by (simp add: neutral_thn_ends)

lemma tk_pos [simp]: "ch \<noteq> CHR 0x00 \<Longrightarrow> 0 \<noteq> tk ch"
  using tk_nonzero [of ch] by metis

lemma neutral_deref [simp]: "neutral get_if_needed" "neutral prepare_call" "neutral deref"
  by (auto simp: get_if_needed_def prepare_call_def deref_def split: exptype.split intro!: neutral_intros)

lemmas deref_keeps [simp] = neutral_deref [THEN neutral_ends]

text \<open>A factor reads a token, except that two colons are replaced by a point.\<close>

lemma Factor_reads:
  assumes "calls (k - 1) self" "k \<le> n" "0 < n"
  shows "ends k (\<lambda>t. t \<noteq> TK_DOUBLE_COLON) (\<lambda>_. True) (Factor sd self n)"
proof -
  have n: "k - 1 < n" using assms(2,3) by linarith
  note c [simp] = assms(1) assms(1) [unfolded One_nat_def] array_literal_keeps [OF assms(1) n]
  have id: "ends k ((=) t) (\<lambda>_. True) (identifier_factor sd self n)" if "t \<noteq> 0" for t
    unfolding identifier_factor_def Let_def
    by (intro ends_reads neutral_bnd_ends after_lex) (use that n in \<open>auto intro!: ends_calc\<close>)
  have fn: "ends k ((=) t) (\<lambda>_. True) (FunctionExp sd self n t l)" if "t \<noteq> 0" for t l
    unfolding FunctionExp_def by (rule after_lex_seq) (use that n in \<open>auto intro!: ends_calc\<close>)
  have ar: "ends k ((=) t) (\<lambda>_. True) (array_literal sd self n)" if "t \<noteq> 0" for t
  proof -
    note [simp] = iterate_ends [OF array_round [OF assms(1)] n, THEN ends_any, unfolded One_nat_def]
    show ?thesis unfolding array_literal_def
      by (rule neutral_thn_ends, simp, rule neutral_bnd_ends, simp, rule after_lex) (use that in \<open>auto intro!: ends_calc\<close>)
  qed
  have ml: "ends k ((=) t) (\<lambda>_. True) (seq [m, lex sd])" if "t \<noteq> 0" "neutral m" for t m
    by (rule neutral_seq_ends [OF that(2)], rule after_lex_seq) (use that in \<open>auto intro!: ends_calc\<close>)
  have lm: "ends k ((=) t) (\<lambda>_. True) (seq (lex sd # ms))" if "t \<noteq> 0" "keeps_on (k - 1) (seq ms)" for t ms
    by (rule after_lex_seq) (use that in auto)
  have tb: "ends k ((=) t) (\<lambda>_. True) (seq [m, lex sd, m'])" if "t \<noteq> 0" "neutral m" "keeps_on (k - 1) m'" for t m m'
    by (rule neutral_seq_ends [OF that(2)], rule lm) (use that in \<open>auto intro!: ends_calc\<close>)
  have inc: "ends k ((=) t) (\<lambda>_. True) (PrefixIncDec sd self u)" if "t \<noteq> 0" for t u
    unfolding PrefixIncDec_def Let_def
    by (rule operand_place_reads) (use that in \<open>auto split: exptype.split intro!: ends_calc\<close>)
  have del: "ends k ((=) t) (\<lambda>_. True) (DeleteExpr sd self)" if "t \<noteq> 0" for t
    unfolding DeleteExpr_def by (rule operand_place_reads) (use that in \<open>auto intro!: ends_calc\<close>)
  have neg: "ends k ((=) t) (\<lambda>_. True) (negative sd self)" if "t \<noteq> 0" for t
    unfolding negative_def by (rule after_lex) (use that in \<open>auto intro!: ends_calc\<close>)
  have nz: "TK_STRING_LITERAL \<noteq> 0" "TK_BASE \<noteq> 0" "TK_IDENTIFIER \<noteq> 0" "TK_CONSTRUCTOR \<noteq> 0" "TK_THIS \<noteq> 0" "TK_NULL \<noteq> 0"
    "TK_INTEGER \<noteq> 0" "TK_FLOAT \<noteq> 0" "TK_TRUE \<noteq> 0" "TK_FALSE \<noteq> 0" "TK_FUNCTION \<noteq> 0" "TK_CLASS \<noteq> 0" "TK_TYPEOF \<noteq> 0"
    "TK_RESUME \<noteq> 0" "TK_CLONE \<noteq> 0" "TK_MINUSMINUS \<noteq> 0" "TK_PLUSPLUS \<noteq> 0" "TK_DELETE \<noteq> 0"
    by (simp_all add: token_codes)
  show ?thesis unfolding Factor_def
  proof (rule neutral_thn_ends, simp, rule ends_token, rule ends_reads)
    fix t s
    assume "t \<noteq> TK_DOUBLE_COLON"
    then show "ends k ((=) t) (\<lambda>_. True) (if t = TK_STRING_LITERAL then seq [bnd (create_string (token_string s)) load_key, lex sd]
     else if t = TK_BASE then
       seq [lex sd, emit_to_new OP_GETBASE 0 0 0, set_etype BASE, bnd top_target set_epos]
     else if t = TK_IDENTIFIER \<or> t = TK_CONSTRUCTOR \<or> t = TK_THIS then identifier_factor sd self n
     else if t = TK_DOUBLE_COLON then
       seq [emit_to_new OP_LOADROOT 0 0 0, set_etype OBJECT, modify (\<lambda>c. c\<lparr>cp_token := tk (CHR ''.'')\<rparr>), set_epos (- 1)]
     else if t = TK_NULL then seq [emit_to_new OP_LOADNULLS 1 0 0, lex sd]
     else if t = TK_INTEGER then seq [EmitLoadConstInt (lx_nvalue s) (- 1), lex sd]
     else if t = TK_FLOAT then seq [EmitLoadConstFloat (lx_fvalue s) (- 1), lex sd]
     else if t = TK_TRUE \<or> t = TK_FALSE then seq [emit_to_new OP_LOADBOOL (if t = TK_TRUE then 1 else 0) 0 0, lex sd]
     else if t = tk (CHR ''['') then array_literal sd self n
     else if t = tk (CHR ''{'') then
       seq [emit_to_new OP_NEWOBJ 0 0 0, lex sd, self (GParseTableOrClass (tk (CHR '','')) (tk (CHR ''}'')))]
     else if t = TK_FUNCTION then FunctionExp sd self n t False
     else if t = tk (CHR ''@'') then FunctionExp sd self n t True
     else if t = TK_CLASS then seq [lex sd, ClassExp sd self]
     else if t = tk (CHR ''-'') then negative sd self
     else if t = tk (CHR ''!'') then seq [lex sd, UnaryOP self OP_NOT]
     else if t = tk (CHR ''~'') then
       thn (lex sd) (bnd (reads cp_token) (\<lambda>t. bnd (reads cp_lex) (\<lambda>s.
         if t = TK_INTEGER then seq [EmitLoadConstInt (not (lx_nvalue s)) (- 1), lex sd] else UnaryOP self OP_BWNOT)))
     else if t = TK_TYPEOF then seq [lex sd, UnaryOP self OP_TYPEOF]
     else if t = TK_RESUME then seq [lex sd, UnaryOP self OP_RESUME]
     else if t = TK_CLONE then seq [lex sd, UnaryOP self OP_CLONE]
     else if t = TK_MINUSMINUS \<or> t = TK_PLUSPLUS then PrefixIncDec sd self t
     else if t = TK_DELETE then DeleteExpr sd self
     else if t = tk (CHR ''('') then seq [lex sd, self GCommaExpr, expect sd (tk (CHR '')''))]
     else err ''expression expected'')"
      by (intro ends_if id fn ar inc del neg ml lm tb after_lex ends_err)
        (use nz in \<open>auto intro!: ends_calc neutral_intros\<close>)
  qed
qed

section \<open>Expressions\<close>

lemma args_round:
  assumes "calls k self"
  shows "ends k any snd (bnd (reads cp_token) (\<lambda>t.
            if t = tk (CHR '')'') then return (nargs, False)
            else thn (seq [self GExpression, MoveIfCurrentTargetIsLocal]) (
              bnd (reads cp_token) (\<lambda>t.
              thn (only (t = tk (CHR '','')) (thn (lex sd) (bnd (reads cp_token) (\<lambda>t.
                     only (t = tk (CHR '')'')) (err (''expression expected, found '' @ [CHR 0x27, CHR '')'', CHR 0x27]))))))
                (return (nargs + 1, True))))))"
proof (rule ends_token, rule ends_if)
  fix t
  have "ends k ((=) t) (\<lambda>_. True) (seq [self GExpression, MoveIfCurrentTargetIsLocal])"
    unfolding seq.simps by (rule call_round [OF assms]) (auto intro!: ends_calc)
  then show "ends k ((=) t) snd (thn (seq [self GExpression, MoveIfCurrentTargetIsLocal]) (
              bnd (reads cp_token) (\<lambda>t.
              thn (only (t = tk (CHR '','')) (thn (lex sd) (bnd (reads cp_token) (\<lambda>t.
                     only (t = tk (CHR '')'')) (err (''expression expected, found '' @ [CHR 0x27, CHR '')'', CHR 0x27]))))))
                (return (nargs + 1, True)))))"
    by (rule ends_thn_less) (auto intro!: ends_calc)
qed (simp add: ends_return)

lemma FunctionCallArgs_keeps [simp]:
  assumes "calls k self" "k < n"
  shows "ends k T (\<lambda>_. False) (FunctionCallArgs sd self n)"
proof -
  note [simp] = iterate_ends [OF args_round [OF assms(1)] assms(2), THEN ends_any]
  show ?thesis unfolding FunctionCallArgs_def by (auto intro!: ends_calc)
qed

lemma prefixed_round_ends:
  assumes "calls (k - 1) self" "k \<le> n" "0 < n"
  shows "ends k any (\<lambda>go. go) (prefixed_round sd self n)"
    "ends k ((=) (tk (CHR ''.''))) (\<lambda>_. True) (prefixed_round sd self n)"
proof -
  have n: "k - Suc 0 < n" using assms(2,3) by linarith
  note c [simp] = assms(1) assms(1) [unfolded One_nat_def] n
  have inc: "ends k T (\<lambda>_. False) (postfix_incdec sd t)" for T t
    unfolding postfix_incdec_def Let_def by (auto split: exptype.split intro!: ends_calc)
  have dot: "ends k ((=) (tk (CHR ''.''))) S (thn (lex sd) (bnd (Expect sd TK_IDENTIFIER) (\<lambda>idf. thn (seq [load_key idf, deref]) (return True))))" for S
    by (rule after_lex) (auto intro!: ends_calc)
  have sq: "ends k ((=) t) (\<lambda>go. go) (thn (seq (lex sd # ms)) (return True))" if "t \<noteq> 0" "keeps_on (k - 1) (seq ms)" for t ms
    by (rule ends_thn_less [OF after_lex_seq]) (use that in \<open>auto simp: ends_return\<close>)
  have cal: "ends k ((=) t) (\<lambda>go. go) (thn (seq [prepare_call, set_etype EXPR, lex sd, FunctionCallArgs sd self n]) (return True))"
    if "t \<noteq> 0" for t
  proof (rule ends_thn_less)
    show "ends k ((=) t) (\<lambda>_. True) (seq [prepare_call, set_etype EXPR, lex sd, FunctionCallArgs sd self n])"
      by (rule neutral_seq_ends, simp, rule neutral_seq_ends, simp, rule after_lex_seq) (use that in \<open>auto intro!: ends_calc\<close>)
  qed (simp add: ends_return)
  have pst: "ends k ((=) t) (\<lambda>go. go) (thn (postfix_incdec sd u) (return False))" for t u
    by (rule ends_thn [OF inc]) (simp add: ends_return)
  show "ends k any (\<lambda>go. go) (prefixed_round sd self n)" unfolding prefixed_round_def
  proof (rule ends_token)
    fix t
    show "ends k ((=) t) (\<lambda>go. go) (if t = tk (CHR ''.'') then
       thn (lex sd) (bnd (Expect sd TK_IDENTIFIER) (\<lambda>idf. thn (seq [load_key idf, deref]) (return True)))
     else if t = tk (CHR ''['') then
       bnd (reads (lx_prevtoken \<circ> cp_lex)) (\<lambda>p.
       if p = tk (CHR 0x0A) then err newline_before_bracket
       else thn (seq [lex sd, self GExpression, expect sd (tk (CHR '']'')), deref]) (return True))
     else if t = TK_MINUSMINUS \<or> t = TK_PLUSPLUS then
       bnd (reads IsEndOfStatement) (\<lambda>e. if e then return False else thn (postfix_incdec sd t) (return False))
     else if t = tk (CHR ''('') then
       thn (seq [prepare_call, set_etype EXPR, lex sd, FunctionCallArgs sd self n]) (return True)
     else return False)"
      by (intro ends_if ends_reads ends_err sq cal pst) (use dot in \<open>auto simp: ends_return intro!: ends_calc\<close>)
  qed
  show "ends k ((=) (tk (CHR ''.''))) (\<lambda>_. True) (prefixed_round sd self n)" unfolding prefixed_round_def
    by (intro ends_token) (use dot in simp)
qed

lemma loop_first:
  assumes "ends b T (\<lambda>_. True) body" "\<And>m. n = Suc m \<Longrightarrow> keeps_on (b - 1) (loop m body)" "0 < n"
  shows "ends b T (\<lambda>_. True) (loop n body)"
proof -
  obtain m where m: "n = Suc m" using assms(3) by (cases n) simp_all
  have "loop n body = bnd body (\<lambda>go. if go then loop m body else return ())"
    by (simp add: m loop_def fun_eq_iff bnd_def return_def split: result.split)
  then show ?thesis using assms(2) [OF m] by (auto intro!: ends_bnd_less [OF assms(1)] simp: ends_return)
qed

text \<open>Two colons are replaced by a point, which the first round then reads.\<close>

lemma thn_modify: "thn (modify f) m c = m (f c)"
  by (simp add: thn_def bnd_def modify_def)

lemma ends_set_token:
  assumes "ends b ((=) t) S m" "t' \<noteq> 0" "t \<noteq> 0"
  shows "ends b ((=) t') S (thn (modify (\<lambda>c. c\<lparr>cp_token := t\<rparr>)) m)"
  unfolding ends_def thn_modify
proof (intro allI impI)
  fix c
  assume c: "good c \<and> weight c < b \<and> t' = cp_token c"
  let ?c = "c\<lparr>cp_token := t\<rparr>"
  have "good ?c" "weight ?c = weight c" using c assms(2,3) by (auto simp: good_def weight_def)
  moreover from this have "good ?c \<and> weight ?c < b \<and> t = cp_token ?c" using c by simp
  ultimately show "m ?c \<noteq> NoFuel \<and> (\<forall>x c'. m ?c = Ok (x, c') \<longrightarrow> good c' \<and> weight c' \<le> weight c \<and> (S x \<longrightarrow> weight c' < weight c))"
    using assms(1) unfolding ends_def by metis
qed

lemma ends_either:
  assumes "ends b (\<lambda>t. t \<noteq> a) S m" "ends b ((=) a) S m"
  shows "ends b any S m"
  unfolding ends_def
proof (rule allI)
  fix c
  show "good c \<and> weight c < b \<and> True \<longrightarrow> m c \<noteq> NoFuel \<and> (\<forall>x c'. m c = Ok (x, c') \<longrightarrow>
      good c' \<and> weight c' \<le> weight c \<and> (S x \<longrightarrow> weight c' < weight c))"
    using assms(1) [unfolded ends_def, rule_format, of c] assms(2) [unfolded ends_def, rule_format, of c]
    by (cases "cp_token c = a") simp_all
qed

lemma ends_cong: "ends b T S m' \<Longrightarrow> (\<And>c. T (cp_token c) \<Longrightarrow> m c = m' c) \<Longrightarrow> ends b T S m"
  by (simp add: ends_def)

lemma thn_assoc: "thn (thn m1 m2) m3 = thn m1 (thn m2 m3)"
  by (simp add: thn_def bnd_def fun_eq_iff split: result.split)

lemma thn_return: "thn m (return ()) = m"
  by (simp add: thn_def bnd_def return_def fun_eq_iff split: result.split)

lemma thn_at: "m c = m' c \<Longrightarrow> thn m r c = thn m' r c"
  by (simp add: thn_def bnd_def)

lemma bnd_reads: "bnd (reads f) g c = g (f c) c"
  by (simp add: bnd_def reads_def)

lemma colon_branch:
  assumes "cp_token c = TK_DOUBLE_COLON"
  shows "bnd (reads cp_token) (\<lambda>t. bnd (reads cp_lex) (\<lambda>s.
     if t = TK_STRING_LITERAL then m1 s
     else if t = TK_BASE then m2
     else if t = TK_IDENTIFIER \<or> t = TK_CONSTRUCTOR \<or> t = TK_THIS then m3
     else if t = TK_DOUBLE_COLON then m else m4 t s)) c = m c"
proof -
  have ne: "TK_DOUBLE_COLON \<noteq> TK_STRING_LITERAL" "TK_DOUBLE_COLON \<noteq> TK_BASE" "TK_DOUBLE_COLON \<noteq> TK_IDENTIFIER"
    "TK_DOUBLE_COLON \<noteq> TK_CONSTRUCTOR" "TK_DOUBLE_COLON \<noteq> TK_THIS"
    by (simp_all add: token_codes)
  show ?thesis by (simp only: bnd_reads assms ne if_False if_True simp_thms)
qed

lemma Factor_colon:
  assumes "cp_token c = TK_DOUBLE_COLON"
  shows "Factor sd self n c = thn (set_etype EXPR) (thn (emit_to_new OP_LOADROOT 0 0 0) (thn (set_etype OBJECT)
    (thn (modify (\<lambda>c. c\<lparr>cp_token := tk (CHR ''.'')\<rparr>)) (set_epos (- 1))))) c"
proof -
  have f: "Factor sd self n c = seq [emit_to_new OP_LOADROOT 0 0 0, set_etype OBJECT, modify (\<lambda>c. c\<lparr>cp_token := tk (CHR ''.'')\<rparr>),
      set_epos (- 1)] (c\<lparr>cp_es := (cp_es c)\<lparr>es_etype := EXPR\<rparr>\<rparr>)"
    unfolding Factor_def set_etype_def [of EXPR] set_es_def thn_modify by (rule colon_branch) (use assms in simp)
  show ?thesis unfolding f seq.simps thn_return set_etype_def [of EXPR] set_es_def thn_modify ..
qed

lemma PrefixedExpr_reads:
  assumes "calls (k - 1) self" "k < n"
  shows "reads_on k (PrefixedExpr sd self n)"
proof -
  have n: "k - 1 < n" "k \<le> n" "0 < n" using assms(2) by linarith+
  have r: "ends (k - 1) any (\<lambda>go. go) (prefixed_round sd self n)"
    using prefixed_round_ends(1) [OF assms(1) n(2,3)] by (rule ends_weaken) auto
  have l: "keeps_on (k - 1) (loop j (prefixed_round sd self n))" if "k \<le> j" "0 < j" for j
    by (rule loop_ends [OF r]) (use that in linarith)
  have "ends k (\<lambda>t. t \<noteq> TK_DOUBLE_COLON) (\<lambda>_. True) (PrefixedExpr sd self n)"
    unfolding PrefixedExpr_def seq.simps
    by (rule ends_thn_less [OF Factor_reads [OF assms(1) n(2,3)]]) (use l [of n] n in \<open>auto intro!: ends_calc\<close>)
  moreover have "ends k ((=) TK_DOUBLE_COLON) (\<lambda>_. True) (PrefixedExpr sd self n)"
  proof (cases "0 < k")
    case True
    let ?rest = "thn (loop n (prefixed_round sd self n)) (return ())"
    have m: "keeps_on (k - 1) (loop m (prefixed_round sd self n))" if "n = Suc m" for m
      by (rule l) (use that True assms(2) in simp_all)
    have "ends k ((=) (tk (CHR ''.''))) (\<lambda>_. True) (thn (set_epos (- 1)) ?rest)"
      by (rule neutral_thn_ends, simp, rule ends_thn_less [OF loop_first [OF prefixed_round_ends(2) [OF assms(1) n(2,3)] m n(3)]])
        (simp_all add: ends_return)
    then have "ends k ((=) TK_DOUBLE_COLON) (\<lambda>_. True)
        (thn (modify (\<lambda>c. c\<lparr>cp_token := tk (CHR ''.'')\<rparr>)) (thn (set_epos (- 1)) ?rest))"
      by (rule ends_set_token) (simp_all add: token_codes)
    then have "ends k ((=) TK_DOUBLE_COLON) (\<lambda>_. True)
        (thn (set_etype EXPR) (thn (emit_to_new OP_LOADROOT 0 0 0) (thn (set_etype OBJECT)
          (thn (modify (\<lambda>c. c\<lparr>cp_token := tk (CHR ''.'')\<rparr>)) (thn (set_epos (- 1)) ?rest)))))"
      by - (rule neutral_thn_ends, simp, rule neutral_thn_ends, simp, rule neutral_thn_ends, simp)
    moreover have "PrefixedExpr sd self n c = thn (set_etype EXPR) (thn (emit_to_new OP_LOADROOT 0 0 0) (thn (set_etype OBJECT)
        (thn (modify (\<lambda>c. c\<lparr>cp_token := tk (CHR ''.'')\<rparr>)) (thn (set_epos (- 1)) ?rest)))) c"
      if "TK_DOUBLE_COLON = cp_token c" for c
    proof -
      have "thn (Factor sd self n) ?rest c = thn (thn (set_etype EXPR) (thn (emit_to_new OP_LOADROOT 0 0 0) (thn (set_etype OBJECT)
          (thn (modify (\<lambda>c. c\<lparr>cp_token := tk (CHR ''.'')\<rparr>)) (set_epos (- 1)))))) ?rest c"
        by (rule thn_at) (rule Factor_colon [OF that [symmetric]])
      then show ?thesis unfolding PrefixedExpr_def seq.simps thn_assoc .
    qed
    ultimately show ?thesis by (rule ends_cong)
  qed (simp add: ends_def)
  ultimately show ?thesis by (rule ends_either)
qed

lemma BIN_EXP_reads: "keeps_on (k - 1) f \<Longrightarrow> (\<And>t. T t \<Longrightarrow> t \<noteq> 0) \<Longrightarrow> ends k T S (BIN_EXP sd f opc op3)"
  unfolding BIN_EXP_def by (rule after_lex_seq) (auto intro!: ends_calc)

lemma reads_keeps1: "reads_on k m \<Longrightarrow> keeps_on (k - 1) m"
  by (erule ends_weaken) auto

text \<open>The loop over the operators of a level.\<close>

lemma operators_round:
  assumes "keeps_on (k - 1) m" "ops 0 = None"
  shows "ends k ((=) t) (\<lambda>go. go) (case ops t of Some (opc, op3) \<Rightarrow> thn (BIN_EXP sd m opc op3) (return True) | None \<Rightarrow> return False)"
proof (cases "ops t")
  case (Some p)
  obtain opc op3 where p: "p = (opc, op3)" by fastforce
  have "t \<noteq> 0" using Some assms(2) by auto
  then have "ends k ((=) t) (\<lambda>_. True) (BIN_EXP sd m opc op3)" by (intro BIN_EXP_reads assms(1)) auto
  then show ?thesis unfolding Some p option.case prod.case by (rule ends_thn_less) (simp add: ends_return)
qed (simp add: ends_return)

lemma reads_then_loop:
  assumes "reads_on k m" "k < n" "\<And>t. ends k ((=) t) (\<lambda>go. go) (f t)"
  shows "reads_on k (seq [m, loop n (bnd (reads cp_token) f)])"
proof -
  have "keeps_on k (loop n (bnd (reads cp_token) f))" by (rule loop_ends [OF ends_token assms(2)]) (rule assms(3))
  then have "keeps_on (k - 1) (loop n (bnd (reads cp_token) f))" by (rule ends_weaken) auto
  then have "keeps_on (k - 1) (thn (loop n (bnd (reads cp_token) f)) (return ()))" by (rule ends_thn) (simp add: ends_return)
  then show ?thesis unfolding seq.simps by (rule ends_thn_less [OF assms(1)])
qed

lemma binary_level_reads: "reads_on k m \<Longrightarrow> k < n \<Longrightarrow> ops 0 = None \<Longrightarrow> reads_on k (binary_level sd n m ops)"
  unfolding binary_level_def by (rule reads_then_loop) (auto intro: operators_round reads_keeps1)

lemma ops_no_zero: "mult_ops 0 = None" "plus_ops 0 = None" "shift_ops 0 = None" "comp_ops 0 = None" "eq_ops 0 = None"
  "and_ops 0 = None" "xor_ops 0 = None" "or_ops 0 = None" "word_ops 0 = None"
  by (simp_all add: mult_ops_def plus_ops_def shift_ops_def comp_ops_def eq_ops_def and_ops_def xor_ops_def or_ops_def word_ops_def)
    (simp_all add: token_codes)

lemma BitwiseOrExp_reads: "calls (k - 1) self \<Longrightarrow> k < n \<Longrightarrow> reads_on k (BitwiseOrExp sd self n)"
  unfolding BitwiseOrExp_def BitwiseXorExp_def BitwiseAndExp_def EqExp_def CompExp_def ShiftExp_def PlusExp_def MultExp_def
  by (intro binary_level_reads PrefixedExpr_reads ops_no_zero)

lemma short_circuit_reads:
  "calls (k - 1) self \<Longrightarrow> (\<And>t. T t \<Longrightarrow> t \<noteq> 0) \<Longrightarrow> ends k T S (short_circuit sd opc (self g))"
  unfolding short_circuit_def seq.simps
  by (rule neutral_bnd_ends, simp, rule neutral_bnd_ends, simp, rule neutral_thn_ends, simp, rule neutral_bnd_ends, simp,
      rule neutral_thn_ends, simp add: neutral_only, rule after_lex) (auto intro!: ends_calc)

lemma LogicalAndExp_reads:
  assumes "calls (k - 1) self" "k < n"
  shows "reads_on k (LogicalAndExp sd self n)"
  unfolding LogicalAndExp_def
proof (rule reads_then_loop [OF BitwiseOrExp_reads [OF assms] assms(2)])
  fix t
  have "TK_AND \<noteq> 0" by (simp add: token_codes)
  then have "ends k ((=) t) (\<lambda>_. True) (short_circuit sd OP_AND (self GLogicalAndExp))" if "t = TK_AND"
    by (intro short_circuit_reads [OF assms(1)]) (use that in auto)
  then have "ends k ((=) t) (\<lambda>go. go) (thn (short_circuit sd OP_AND (self GLogicalAndExp)) (return True))" if "t = TK_AND"
    by (rule ends_thn_less) (simp_all add: that ends_return)
  then show "ends k ((=) t) (\<lambda>go. go) (if t = TK_AND then thn (short_circuit sd OP_AND (self GLogicalAndExp)) (return True)
            else (case word_ops t of
                Some (opc, op3) \<Rightarrow> thn (BIN_EXP sd (BitwiseOrExp sd self n) opc op3) (return True)
              | None \<Rightarrow> return False))"
    by (intro ends_if operators_round ops_no_zero reads_keeps1 BitwiseOrExp_reads assms)
qed

lemma LogicalOrExp_reads:
  assumes "calls (k - 1) self" "k < n"
  shows "reads_on k (LogicalOrExp sd self n)"
proof -
  have "calls (k - 1 - 1) self" using assms(1) by (rule calls_less1)
  then have s: "ends (k - Suc 0) ((=) TK_OR) (\<lambda>_. False) (short_circuit sd OP_OR (self GLogicalOrExp))"
    by (intro short_circuit_reads) (simp_all add: token_codes)
  show ?thesis unfolding LogicalOrExp_def seq.simps
    by (intro ends_thn_less [OF LogicalAndExp_reads [OF assms]] ends_thn ends_token ends_only) (use s in \<open>auto intro: ends_return\<close>)
qed

text \<open>What an assignment, a conditional expression and an expression do.\<close>

lemma EmitCompoundArith_keeps [simp]: "ends b T (\<lambda>_. False) (EmitCompoundArith tok etype pos)"
  unfolding EmitCompoundArith_def by (auto intro!: ends_calc split: exptype.split)

lemma assignment_keeps [simp]: "calls k self \<Longrightarrow> ends k T (\<lambda>_. False) (assignment sd self t)"
  unfolding assignment_def by (auto intro!: ends_calc split: exptype.split)

lemma conditional_keeps [simp]: "calls k self \<Longrightarrow> ends k T (\<lambda>_. False) (conditional sd self)"
  unfolding conditional_def by (auto intro!: ends_calc)

lemma Expression_reads:
  assumes "calls (k - 1) self" "k < n"
  shows "reads_on k (Expression sd self n)"
proof -
  note a [simp] = assignment_keeps [OF assms(1), unfolded One_nat_def] conditional_keeps [OF assms(1), unfolded One_nat_def]
  have "reads_on k (seq [set_es (\<lambda>_. \<lparr>es_etype = EXPR, es_epos = - 1, es_donot_get = False\<rparr>), LogicalOrExp sd self n])"
    unfolding seq.simps
    by (rule neutral_thn_ends, simp, rule ends_thn_less [OF LogicalOrExp_reads [OF assms]]) (simp add: ends_return)
  then show ?thesis unfolding Expression_def
    by (intro ends_reads ends_thn_less) (auto intro!: ends_calc)
qed

lemma CommaExpr_reads:
  assumes "calls (k - 1) self" "reads_on k (self GExpression)" "k < n"
  shows "reads_on k (CommaExpr sd self n)"
proof -
  have "keeps_on k (while_token n (\<lambda>t. t = tk (CHR '','')) (seq [ignore pop_target, lex sd, self GCommaExpr]))"
  proof (rule while_token_ends [OF _ assms(3)])
    fix t
    assume "t = tk (CHR '','')"
    then show "ends k ((=) t) (\<lambda>_. True) (seq [ignore pop_target, lex sd, self GCommaExpr])"
      by (intro neutral_seq_ends [OF neutral_ignore [OF neutral_simple(3)]] after_lex_seq) (use assms(1) in \<open>auto intro!: ends_calc\<close>)
  qed
  then have "keeps_on (k - 1) (while_token n (\<lambda>t. t = tk (CHR '','')) (seq [ignore pop_target, lex sd, self GCommaExpr]))"
    by (rule ends_weaken) auto
  then show ?thesis unfolding CommaExpr_def seq.simps(2) [of "self GExpression"]
    by (intro ends_thn_less [OF assms(2)]) (simp add: ends_thn ends_return)
qed

section \<open>Tables and classes\<close>

lemma member_prefix_keeps [simp]:
  assumes "calls (k - 1) self"
  shows "ends k T (\<lambda>_. False) (member_prefix sd self separator)"
proof -
  have a: "ends k ((=) TK_ATTR_OPEN) (\<lambda>_. False)
      (seq [emit_to_new OP_NEWOBJ 0 0 0, lex sd, self (GParseTableOrClass (tk (CHR '','')) TK_ATTR_CLOSE)])"
    by (rule neutral_seq_ends, simp, rule after_lex_seq) (use assms in \<open>auto intro!: ends_calc simp: token_codes\<close>)
  show ?thesis unfolding member_prefix_def
  proof (rule ends_if, rule ends_token)
    fix t
    show "ends k ((=) t) (\<lambda>_. False) (thn (only (t = TK_ATTR_OPEN)
          (seq [emit_to_new OP_NEWOBJ 0 0 0, lex sd, self (GParseTableOrClass (tk (CHR '','')) TK_ATTR_CLOSE)])) (
        bnd (reads cp_token) (\<lambda>t'.
        thn (only (t' = TK_STATIC) (lex sd)) (return (t = TK_ATTR_OPEN, t' = TK_STATIC)))))"
      by (rule ends_thn, rule ends_only) (use a in \<open>auto intro!: ends_calc\<close>)
  qed (simp add: ends_return)
qed

lemma member_reads:
  assumes "calls (k - 1) self" "k \<le> n" "0 < n"
  shows "reads_on k (member sd self n separator isstatic)"
proof -
  have n: "k - Suc 0 < n" "k - Suc (Suc 0) < n" using assms(2,3) by linarith+
  have c: "calls (k - Suc 0) self" "calls (k - Suc (Suc 0)) self" using assms(1) calls_less [OF assms(1), of "k - Suc (Suc 0)"] by simp_all
  have ty: "t \<noteq> 0" if "t \<in> set member_types" for t using that by (auto simp: member_types_def token_codes)
  have nz: "TK_FUNCTION \<noteq> 0" "TK_CONSTRUCTOR \<noteq> 0" by (simp_all add: token_codes)
  have lm: "ends k ((=) t) (\<lambda>_. True) (thn (seq (lex sd # ms)) (return x))" if "t \<noteq> 0" "keeps_on (k - 1) (seq ms)" for t ms and x :: bool
    by (rule ends_thn_less [OF after_lex_seq]) (use that in \<open>auto simp: ends_return\<close>)
  show ?thesis unfolding member_def
    by (intro ends_token ends_if lm after_lex after_Expect)
      (use c n ty nz in \<open>auto intro!: ends_calc\<close>)
qed

lemma store_member_keeps [simp]: "ends b T (\<lambda>_. False) (store_member separator hasattrs isstatic hastype)"
  unfolding store_member_def by (auto intro!: ends_calc)

lemma table_member_round:
  assumes "calls (k - 1) self" "k \<le> n" "0 < n"
  shows "ends k any snd (table_member sd self n separator terminator nkeys)"
  unfolding table_member_def
proof (rule ends_token, rule ends_if)
  fix t
  have "ends k any (\<lambda>_. True) (bnd (member sd self n separator isstatic) (\<lambda>hastype.
       bnd (reads cp_token) (\<lambda>t.
       thn (seq [only (t = separator) (lex sd), store_member separator hasattrs isstatic hastype])
         (return (nkeys + 1, True)))))" for hasattrs isstatic
    by (rule ends_bnd_less [OF member_reads [OF assms]]) (auto intro!: ends_calc)
  then show "ends k ((=) t) snd (bnd (member_prefix sd self separator) (\<lambda>(hasattrs, isstatic).
       bnd (member sd self n separator isstatic) (\<lambda>hastype.
       bnd (reads cp_token) (\<lambda>t.
       thn (seq [only (t = separator) (lex sd), store_member separator hasattrs isstatic hastype])
         (return (nkeys + 1, True))))))"
    by (intro ends_bnd [OF member_prefix_keeps [OF assms(1)]] ends_split) (auto intro: ends_weaken)
qed (simp add: ends_return)

lemma ParseTableOrClass_keeps:
  assumes "calls (k - 1) self" "k < n"
  shows "keeps_on k (ParseTableOrClass sd self n separator terminator)"
proof -
  have n: "k \<le> n" "0 < n" using assms(2) by linarith+
  note [simp] = iterate_ends [OF table_member_round [OF assms(1) n] assms(2), THEN ends_any]
  show ?thesis unfolding ParseTableOrClass_def by (auto intro!: ends_calc)
qed

end
