(* ===== verification/CompilerProps.thy ===== *)
theory CompilerProps
  imports CompilerEnds
begin

text \<open>
  That every statement ends and reads at least a token, and so that the compiler ends on every
  source, at a depth that is linear in its length.
\<close>

section \<open>Statements\<close>

lemma condition_keeps [simp]: "calls k self \<Longrightarrow> ends k T (\<lambda>_. False) (condition sd self)"
  unfolding condition_def by (auto intro!: ends_calc)

lemma jump_back_keeps [simp]: "ends b T (\<lambda>_. False) (jump_back pos)"
  unfolding jump_back_def by (auto intro!: ends_calc)

lemma END_BREAKBLE_keeps [simp]: "ends b T (\<lambda>_. False) (END_BREAKBLE_BLOCK old target)"
  unfolding END_BREAKBLE_BLOCK_def by (auto intro!: ends_calc)

lemma take_instructions_keeps [simp]: "ends b T (\<lambda>_. False) (take_instructions p q)"
  unfolding take_instructions_def by (auto intro!: ends_calc neutral_ends)

lemma nulled_local_keeps [simp]: "ends b T (\<lambda>_. False) (nulled_local name)"
  unfolding nulled_local_def by (auto intro!: ends_calc)

text \<open>A statement that starts with a token of its own reads it.\<close>

definition statement_reads :: "nat \<Rightarrow> unit m \<Rightarrow> bool" where
  "statement_reads k m \<longleftrightarrow> ends k (\<lambda>t. t \<noteq> 0) (\<lambda>_. True) m"

lemma IfStatement_reads: "calls (k - 1) self \<Longrightarrow> statement_reads k (IfStatement sd self)"
  unfolding statement_reads_def IfStatement_def
  by (rule ends_thn_less [OF after_lex_seq]) (auto intro!: ends_calc)

lemma WhileStatement_reads: "calls (k - 1) self \<Longrightarrow> statement_reads k (WhileStatement sd self)"
  unfolding statement_reads_def WhileStatement_def
  by (rule neutral_bnd_ends, simp, rule ends_thn_less [OF after_lex_seq]) (auto intro!: ends_calc)

lemma DoWhileStatement_reads: "calls (k - 1) self \<Longrightarrow> statement_reads k (DoWhileStatement sd self)"
  unfolding statement_reads_def DoWhileStatement_def by (rule after_lex) (auto intro!: ends_calc)

lemma ForStatement_reads:
  assumes "calls (k - 1) self" "k \<le> n" "0 < n"
  shows "statement_reads k (ForStatement sd self n)"
proof -
  have n: "k - 1 < n" using assms by linarith
  note l = LocalDecl_keeps [OF assms(1) n, unfolded One_nat_def] assms(1) [unfolded One_nat_def]
  show ?thesis unfolding statement_reads_def ForStatement_def seq.simps
    by (rule after_lex, assumption, intro ends_calc) (simp_all add: l)
qed

lemma ForEachStatement_reads:
  assumes "calls (k - 1) self"
  shows "statement_reads k (ForEachStatement sd self)"
  unfolding statement_reads_def ForEachStatement_def seq.simps thn_assoc
  by (rule after_lex, assumption, intro ends_calc ends_split) (simp_all add: assms [unfolded One_nat_def])

lemma switch_case_round:
  assumes "calls k self"
  shows "ends k any snd (switch_case sd self expr x)"
proof -
  have lm: "ends k T (\<lambda>_. True) (seq (lex sd # ms))" if "\<And>t. T t \<Longrightarrow> t \<noteq> 0" "keeps_on k (seq ms)" for T ms
    by (rule after_lex_seq [OF that(1)], assumption, rule ends_weaken [OF that(2)]) auto
  have "TK_CASE \<noteq> 0" by (simp add: token_codes)
  obtain tonext skip first where x: "x = (tonext, skip, first)" by (cases x)
  have nx: "neutral (if first then return skip else thn (emit OP_JMP 0 0 0 0) (bnd current_pos (\<lambda>skip.
              thn (set_param tonext 1 (skip - tonext)) (return skip))))"
    by (auto intro!: neutral_intros)
  show ?thesis unfolding switch_case_def x prod.case
  proof (rule ends_token, rule ends_if)
    fix t
    assume "\<not> t \<noteq> TK_CASE"
    with \<open>TK_CASE \<noteq> 0\<close> have t: "t \<noteq> 0" by simp
    show "ends k ((=) t) snd (bnd (if first then return skip
            else thn (emit OP_JMP 0 0 0 0) (bnd current_pos (\<lambda>skip.
              thn (set_param tonext 1 (skip - tonext)) (return skip)))) (\<lambda>skip.
       thn (seq [lex sd, self GExpression, expect sd (tk (CHR '':''))]) (
       bnd pop_target (\<lambda>trg.
       thn (seq [emit OP_EQ trg trg expr 0, emit OP_JZ trg 0 0 0,
                 only (skip \<noteq> - 1) (bnd current_pos (\<lambda>cur. set_param skip 1 (cur - skip)))]) (
       bnd current_pos (\<lambda>tonext.
       bnd BEGIN_SCOPE (\<lambda>old.
       thn (seq [self GStatements, END_SCOPE old]) (return ((tonext, skip, False), True)))))))))"
      by (rule neutral_bnd_ends [OF nx], rule ends_thn_less [OF lm]) (use t assms in \<open>auto intro!: ends_calc\<close>)
  qed (simp add: ends_return)
qed

lemma SwitchStatement_reads:
  assumes "calls (k - 1) self" "k \<le> n" "0 < n"
  shows "statement_reads k (SwitchStatement sd self n)"
proof -
  have n: "k - 1 < n" using assms(2,3) by linarith
  note [simp] = iterate_ends [OF switch_case_round [OF assms(1)] n, THEN ends_any, unfolded One_nat_def]
  show ?thesis unfolding statement_reads_def SwitchStatement_def
    by (rule ends_thn_less [OF after_lex_seq]) (use assms(1) in \<open>auto intro!: ends_calc\<close>)
qed

lemma LocalDeclStatement_reads:
  assumes "calls (k - 1) self" "k \<le> n" "0 < n"
  shows "statement_reads k (LocalDeclStatement sd self n False)"
proof -
  have n: "k - 1 < n" using assms(2,3) by linarith
  note c [simp] = CreateFunction_keeps [OF assms(1) n, unfolded One_nat_def]
    loop_ends [OF local_declaration_round [OF assms(1)] n, THEN ends_any, unfolded One_nat_def]
  show ?thesis unfolding statement_reads_def LocalDeclStatement_def only_def not_False_eq_True if_True
    by (rule after_lex) (auto intro!: ends_calc)
qed

lemma name_round:
  "ends k any snd (bnd (reads cp_token) (\<lambda>t.
            if t \<noteq> TK_DOUBLE_COLON then return (name, False)
            else thn (lex sd) (bnd (Expect sd TK_IDENTIFIER) (\<lambda>name.
              thn (load_key name) (bnd (reads cp_token) (\<lambda>t.
              thn (only (t = TK_DOUBLE_COLON) (Emit2ArgsOP OP_GET 0)) (return (name, True))))))))"
  by (intro ends_token ends_if after_lex) (auto intro!: ends_calc simp: token_codes)

lemma FunctionStatement_reads:
  assumes "calls (k - 1) self" "k \<le> n" "0 < n"
  shows "statement_reads k (FunctionStatement sd self n)"
proof -
  have n: "k - 1 < n" using assms(2,3) by linarith
  note [simp] = iterate_ends [OF name_round n, THEN ends_any, unfolded One_nat_def]
    CreateFunction_keeps [OF assms(1) n, unfolded One_nat_def]
  show ?thesis unfolding statement_reads_def FunctionStatement_def by (rule after_lex) (auto intro!: ends_calc)
qed

lemma ClassStatement_reads: "calls (k - 1) self \<Longrightarrow> statement_reads k (ClassStatement sd self)"
  unfolding statement_reads_def ClassStatement_def by (rule operand_place_reads) (auto intro!: ends_calc)

lemma ExpectScalar_keeps [simp]: "ends b T (\<lambda>_. False) (ExpectScalar sd)"
  unfolding ExpectScalar_def by (auto intro!: ends_calc)

lemma neutral_split: "(\<And>x y. p = (x, y) \<Longrightarrow> neutral (f x y)) \<Longrightarrow> neutral (case p of (x, y) \<Rightarrow> f x y)"
  by (cases p) simp

lemma new_constant_keeps [simp]: "ends b T (\<lambda>_. False) (new_constant key val)" "ends b T (\<lambda>_. False) (table_slot a key val)"
  "ends b T (\<lambda>_. False) new_table"
  unfolding new_constant_def table_slot_def new_table_def
  by (auto intro!: neutral_ends neutral_intros neutral_split)

lemma enum_round:
  "ends b any snd (bnd (reads cp_token) (\<lambda>t.
            if t = tk (CHR ''}'') then return (num, False)
            else
              bnd (Expect sd TK_IDENTIFIER) (\<lambda>key.
              bnd (reads cp_token) (\<lambda>t.
              bnd (if t = tk (CHR ''='') then thn (lex sd) (bnd (ExpectScalar sd) (\<lambda>val. return (val, num)))
                   else return (OInteger num, num + 1)) (\<lambda>(val, num).
              thn (table_slot a key val) (
              bnd (reads cp_token) (\<lambda>t.
              thn (only (t = tk (CHR '','')) (lex sd)) (return (num, True)))))))))"
  by (intro ends_token ends_if after_Expect) (auto intro!: ends_calc)

lemma EnumStatement_reads: "k \<le> n \<Longrightarrow> 0 < n \<Longrightarrow> statement_reads k (EnumStatement sd n)"
proof -
  assume "k \<le> n" "0 < n"
  then have n: "k - 1 < n" by linarith
  note [simp] = iterate_ends [OF enum_round n, THEN ends_any, unfolded One_nat_def]
  show ?thesis unfolding statement_reads_def EnumStatement_def by (rule after_lex) (auto intro!: ends_calc)
qed

lemma neutral_traps [simp]: "neutral (bump_traps d)" "neutral (jump_out targets)"
  by (auto simp: bump_traps_def jump_out_def intro!: neutral_intros)

lemmas traps_keeps [simp] = neutral_traps [THEN neutral_ends]

lemma ConstStatement_reads: "statement_reads k (ConstStatement sd)"
  unfolding statement_reads_def ConstStatement_def by (rule after_lex) (auto intro!: ends_calc)

lemma TryCatchStatement_reads: "calls (k - 1) self \<Longrightarrow> statement_reads k (TryCatchStatement sd self)"
  unfolding statement_reads_def TryCatchStatement_def
  by (rule ends_thn_less [OF after_lex_seq]) (auto intro!: ends_calc simp: token_codes)

lemma ReturnStatement_reads: "calls (k - 1) self \<Longrightarrow> statement_reads k (ReturnStatement sd self opc)"
proof -
  assume c: "calls (k - 1) self"
  have "ends k (\<lambda>t. t \<noteq> 0) (\<lambda>_. True) (seq [only (opc = OP_YIELD) (change_fs (\<lambda>fs. fs\<lparr>fs_bgenerator := True\<rparr>)), lex sd])"
    by (rule neutral_seq_ends, simp add: neutral_only, rule after_lex_seq) (auto intro!: ends_calc)
  then show ?thesis unfolding statement_reads_def ReturnStatement_def Let_def
    by (rule ends_thn_less) (use c in \<open>auto intro!: ends_calc\<close>)
qed

text \<open>A jump out of a loop is emitted before its token is read.\<close>

lemma then_lex_reads: "neutral m \<Longrightarrow> neutral m' \<Longrightarrow> ends k (\<lambda>t. t \<noteq> 0) (\<lambda>_. True) (seq [m, m', lex sd])"
  by (rule neutral_seq_ends, assumption, rule neutral_seq_ends, assumption, rule after_lex_seq) (auto intro!: ends_calc)

lemma jump_statements_read: "statement_reads k (BreakStatement sd)" "statement_reads k (ContinueStatement sd)"
  unfolding statement_reads_def BreakStatement_def ContinueStatement_def
  by (rule neutral_bnd_ends, simp, rule ends_if, simp, rule then_lex_reads; auto intro!: neutral_intros)+

lemma BlockStatement_reads: "calls (k - 1) self \<Longrightarrow> statement_reads k (BlockStatement sd self closeframe)"
  unfolding statement_reads_def BlockStatement_def
  by (rule neutral_bnd_ends, simp, rule after_lex_seq) (auto intro!: ends_calc)

lemma UsingStatement_reads: "k < n \<Longrightarrow> 0 < n \<Longrightarrow> statement_reads k (UsingStatement sd n)"
proof -
  assume n: "k < n" "0 < n"
  let ?b = "thn (seq [lex sd, expect sd TK_IDENTIFIER]) (reads (\<lambda>c. cp_token c = tk (CHR ''.'')))"
  have e: "reads_on j (expect sd TK_IDENTIFIER)" for j by (rule expect_reads) simp
  have s: "ends j T (\<lambda>_. True) (seq [lex sd, expect sd TK_IDENTIFIER])" for j T
    unfolding seq.simps thn_return by (rule ends_thn [OF lex_keeps e])
  have b: "ends j T (\<lambda>_. True) ?b" for j T by (rule ends_thn_less [OF s]) simp
  show ?thesis
  proof (cases "0 < k")
    case True
    have "keeps_on (k - 1) (loop m ?b)" if "n = Suc m" for m
      by (rule loop_ends [OF ends_weaken [OF b]]) (use n True that in auto)
    then show ?thesis unfolding statement_reads_def UsingStatement_def by (rule loop_first [OF b _ n(2)])
  qed (simp add: statement_reads_def ends_def)
qed

lemma NamespaceStatement_reads: "calls (k - 1) self \<Longrightarrow> statement_reads k (NamespaceStatement sd self)"
  unfolding statement_reads_def NamespaceStatement_def by (rule after_lex_seq) (auto intro!: ends_calc)

lemma throw_reads: "calls (k - 1) self \<Longrightarrow>
    statement_reads k (seq [lex sd, self GCommaExpr, bnd pop_target (\<lambda>t. emit OP_THROW t 0 0 0)])"
  unfolding statement_reads_def by (rule after_lex_seq) (auto intro!: ends_calc)

lemma empty_statement_reads: "statement_reads k (lex sd)"
  unfolding statement_reads_def by (rule lex_ends(2))

lemmas statements_read = IfStatement_reads WhileStatement_reads DoWhileStatement_reads ForStatement_reads ForEachStatement_reads
  SwitchStatement_reads LocalDeclStatement_reads FunctionStatement_reads ClassStatement_reads EnumStatement_reads
  ConstStatement_reads TryCatchStatement_reads ReturnStatement_reads jump_statements_read BlockStatement_reads
  UsingStatement_reads NamespaceStatement_reads throw_reads [unfolded seq.simps] empty_statement_reads

lemma statement_token: "statement_reads k m \<Longrightarrow> t \<noteq> 0 \<Longrightarrow> ends k ((=) t) (\<lambda>_. True) m"
  unfolding statement_reads_def by (erule ends_weaken) auto

lemma neutral_AddLines [simp]: "neutral (AddLines line force)"
  by (auto simp: AddLines_def intro!: neutral_intros)

lemma Statement_reads:
  assumes "calls (k - 1) self" "reads_on k (self GCommaExpr)" "k < n"
  shows "reads_on k (Statement sd self n closeframe)"
proof -
  have n: "k \<le> n" "0 < n" using assms(3) by linarith+
  have nz: "TK_IF \<noteq> 0" "TK_DO \<noteq> 0" "TK_FOR \<noteq> 0" "TK_FOREACH \<noteq> 0" "TK_SWITCH \<noteq> 0" "TK_LOCAL \<noteq> 0" "TK_RETURN \<noteq> 0"
    "TK_YIELD \<noteq> 0" "TK_BREAK \<noteq> 0" "TK_CONTINUE \<noteq> 0" "TK_FUNCTION \<noteq> 0" "TK_CLASS \<noteq> 0" "TK_ENUM \<noteq> 0" "TK_TRY \<noteq> 0"
    "TK_THROW \<noteq> 0" "TK_CONST \<noteq> 0" "TK_USING \<noteq> 0" "TK_NAMESPACE \<noteq> 0" "isbuiltintype t \<Longrightarrow> t \<noteq> 0" for t
    by (auto simp: token_codes isbuiltintype_def)
  have "reads_on k (seq [self GCommaExpr, step_fs (\<lambda>_. DiscardTarget)])"
    unfolding seq.simps by (rule ends_thn_less [OF assms(2)]) (auto intro!: ends_calc)
  note default = ends_any [OF this]
  show ?thesis unfolding Statement_def
    by (rule neutral_thn_ends, simp add: neutral_bnd, rule ends_token, rule ends_thn_less, intro ends_if; (rule default)?)
      (use nz n assms(1,3) in \<open>auto intro!: statement_token statements_read\<close>)
qed

lemma Statements_keeps:
  assumes "reads_on k (self (GStatement True))" "k < n"
  shows "keeps_on k (Statements sd self n)"
proof -
  have "reads_on k (statement_and_end sd (self (GStatement True)))"
    unfolding statement_and_end_def seq.simps by (rule ends_thn_less [OF assms(1)]) (auto intro!: ends_calc)
  then show ?thesis unfolding Statements_def by (intro while_token_ends assms(2)) (rule ends_any)
qed

section \<open>The compiler\<close>

text \<open>The calls that pass no token: statements to a statement, a statement to an expression, and within expressions.\<close>

fun rank :: "goal \<Rightarrow> nat" where
  "rank GStatements = 3"
| "rank (GStatement closeframe) = 2"
| "rank GCommaExpr = 1"
| "rank _ = 0"

lemma rank_le: "rank g \<le> 3"
  by (cases g) simp_all

lemma parse_ends: "4 * k + rank g \<le> n \<Longrightarrow> ends k any (\<lambda>_. reading_goal g) (parse sd n g)"
proof (induction n arbitrary: k g)
  case (Suc n)
  show ?case
  proof (cases "k = 0")
    case False
    have c: "calls (k - 1) (parse sd n)" unfolding calls_def
    proof
      fix g'
      show "ends (k - 1) any (\<lambda>_. reading_goal g') (parse sd n g')"
        by (rule Suc.IH) (use Suc.prems rank_le [of g'] False in linarith)
    qed
    have kn: "k < n" using Suc.prems False by linarith
    show ?thesis
    proof (cases g)
      case (GStatement closeframe)
      have "reads_on k (parse sd n GCommaExpr)" using Suc.IH [of k GCommaExpr] Suc.prems GStatement by simp
      from Statement_reads [OF c this kn] GStatement show ?thesis by simp
    next
      case GStatements
      have "reads_on k (parse sd n (GStatement True))" using Suc.IH [of k "GStatement True"] Suc.prems GStatements by simp
      from Statements_keeps [where self = "parse sd n", OF this kn] GStatements show ?thesis by simp
    next
      case GCommaExpr
      have "reads_on k (parse sd n GExpression)" using Suc.IH [of k GExpression] Suc.prems GCommaExpr by simp
      from CommaExpr_reads [OF c this kn] GCommaExpr show ?thesis by simp
    next
      case (GParseTableOrClass separator terminator)
      with ParseTableOrClass_keeps [OF c kn] show ?thesis by simp
    qed (use Expression_reads [OF c kn] LogicalOrExp_reads [OF c kn] LogicalAndExp_reads [OF c kn] PrefixedExpr_reads [OF c kn]
      in simp_all)
  qed (simp add: ends_def)
qed (simp add: ends_def)

end
