(* ===== verification/CompilerDepth.thy ===== *)
theory CompilerDepth
  imports CompilerProps
begin

text \<open>
  The bound of the depth is only a bound: where the compiler ends within it, a larger one gives the
  same result.
\<close>

section \<open>Less bounded computations\<close>

definition below :: "'a m \<Rightarrow> 'a m \<Rightarrow> bool" where
  "below m m' \<longleftrightarrow> (\<forall>c. m c = NoFuel \<or> m c = m' c)"

named_theorems deep

lemma below_refl [deep]: "below m m"
  by (simp add: below_def)

lemma below_no_fuel: "below no_fuel m"
  by (simp add: below_def no_fuel_def)

lemma below_trans: "below m1 m2 \<Longrightarrow> below m2 m3 \<Longrightarrow> below m1 m3"
  unfolding below_def by metis

lemma below_bnd [deep]:
  assumes "below m m'" "\<And>x. below (f x) (f' x)"
  shows "below (bnd m f) (bnd m' f')"
  unfolding below_def
proof
  fix c
  have "m c = NoFuel \<or> m c = m' c" using assms(1) by (simp add: below_def)
  then show "bnd m f c = NoFuel \<or> bnd m f c = bnd m' f' c"
  proof
    assume m: "m c = m' c"
    show ?thesis using assms(2) by (cases "m' c") (auto simp: bnd_def m below_def)
  qed (simp add: bnd_def)
qed

lemma below_thn [deep]: "below m m' \<Longrightarrow> below r r' \<Longrightarrow> below (thn m r) (thn m' r')"
  unfolding thn_def by (rule below_bnd)

lemma below_only [deep]: "below m m' \<Longrightarrow> below (only b m) (only b m')"
  by (simp add: only_def below_refl)

lemma below_ignore [deep]: "below m m' \<Longrightarrow> below (ignore m) (ignore m')"
  unfolding ignore_def by (intro below_bnd below_refl)

lemma below_if [deep]: "below m m' \<Longrightarrow> below r r' \<Longrightarrow> below (if p then m else r) (if p then m' else r')"
  by simp

lemma below_split [deep]: "(\<And>x y. below (f x y) (f' x y)) \<Longrightarrow> below (case p of (x, y) \<Rightarrow> f x y) (case p of (x, y) \<Rightarrow> f' x y)"
  by (simp add: split_def)

lemma below_option [deep]:
  "below m m' \<Longrightarrow> (\<And>x. below (f x) (f' x)) \<Longrightarrow>
    below (case p of None \<Rightarrow> m | Some x \<Rightarrow> f x) (case p of None \<Rightarrow> m' | Some x \<Rightarrow> f' x)"
  by (simp split: option.split)

lemma below_exptype [deep]:
  "below m1 r1 \<Longrightarrow> below m2 r2 \<Longrightarrow> below m3 r3 \<Longrightarrow> below m4 r4 \<Longrightarrow> below m5 r5 \<Longrightarrow>
    below (case p of EXPR \<Rightarrow> m1 | OBJECT \<Rightarrow> m2 | BASE \<Rightarrow> m3 | LOCAL \<Rightarrow> m4 | OUTER \<Rightarrow> m5)
      (case p of EXPR \<Rightarrow> r1 | OBJECT \<Rightarrow> r2 | BASE \<Rightarrow> r3 | LOCAL \<Rightarrow> r4 | OUTER \<Rightarrow> r5)"
  by (simp split: exptype.split)

lemma below_iterate [deep]:
  assumes "\<And>x. below (body x) (body' x)" "n \<le> n'"
  shows "below (iterate n body x) (iterate n' body' x)"
  using assms(2)
proof (induction n arbitrary: n' x)
  case (Suc n)
  then obtain k where k: "n' = Suc k" "n \<le> k" by (cases n') simp_all
  show ?case unfolding k(1) iterate.simps
    by (intro below_bnd assms(1) below_split below_if Suc.IH k(2) below_refl)
qed (simp add: below_no_fuel)

lemma below_loop [deep]: "below body body' \<Longrightarrow> n \<le> n' \<Longrightarrow> below (loop n body) (loop n' body')"
  unfolding loop_def by (intro below_iterate below_bnd below_refl)

lemma below_while [deep]: "below body body' \<Longrightarrow> n \<le> n' \<Longrightarrow> below (while_token n cond body) (while_token n' cond body')"
  unfolding while_token_def by (intro below_loop below_bnd below_if below_thn below_refl)

section \<open>The methods\<close>

text \<open>A parser that is less bounded, with more rounds for its loops.\<close>


lemma CommaExpr_deeper [deep]: "(\<And>g. below (self g) (self' g)) \<Longrightarrow> n \<le> n' \<Longrightarrow>
    below (CommaExpr strtod self n) (CommaExpr strtod self' n')"
  unfolding CommaExpr_def seq.simps by (intro deep) simp_all

lemma BIN_EXP_deeper [deep]: "below f f' \<Longrightarrow> below (BIN_EXP sd f opc op3) (BIN_EXP sd f' opc op3)"
  unfolding BIN_EXP_def seq.simps by (intro deep)

lemma binary_level_deeper [deep]: "n \<le> n' \<Longrightarrow> below operand operand' \<Longrightarrow>
    below (binary_level sd n operand ops) (binary_level sd n' operand' ops)"
  unfolding binary_level_def seq.simps by (intro deep) simp_all

lemma short_circuit_deeper [deep]: "below f f' \<Longrightarrow> below (short_circuit sd opc f) (short_circuit sd opc f')"
  unfolding short_circuit_def seq.simps by (intro deep)

lemma parameter_default_deeper [deep]: "(\<And>g. below (self g) (self' g)) \<Longrightarrow>
    below (parameter_default sd self ps) (parameter_default sd self' ps)"
  unfolding parameter_default_def seq.simps by (cases ps, simp only: prod.case, intro deep) simp_all

lemma parameter_deeper [deep]: "(\<And>g. below (self g) (self' g)) \<Longrightarrow>
    below (parameter sd self ps) (parameter sd self' ps)"
  unfolding parameter_def seq.simps by (cases ps, simp only: prod.case, intro deep) simp_all

lemma CreateFunction_deeper [deep]: "(\<And>g. below (self g) (self' g)) \<Longrightarrow> n \<le> n' \<Longrightarrow>
    below (CreateFunction sd self n name lambda isstatic) (CreateFunction sd self' n' name lambda isstatic)"
  unfolding CreateFunction_def seq.simps Let_def by (intro deep) simp_all

lemma local_declaration_deeper [deep]: "(\<And>g. below (self g) (self' g)) \<Longrightarrow>
    below (local_declaration sd self) (local_declaration sd self')"
  unfolding local_declaration_def seq.simps by (intro deep) simp_all

lemma LocalDeclStatement_deeper [deep]: "(\<And>g. below (self g) (self' g)) \<Longrightarrow> n \<le> n' \<Longrightarrow>
    below (LocalDeclStatement sd self n hasTypePrefix) (LocalDeclStatement sd self' n' hasTypePrefix)"
  unfolding LocalDeclStatement_def seq.simps by (intro deep) simp_all

lemma identifier_factor_deeper [deep]: "(\<And>g. below (self g) (self' g)) \<Longrightarrow> n \<le> n' \<Longrightarrow>
    below (identifier_factor sd self n) (identifier_factor sd self' n')"
  unfolding identifier_factor_def seq.simps Let_def by (intro deep) simp_all

lemma UnaryOP_deeper [deep]: "(\<And>g. below (self g) (self' g)) \<Longrightarrow>
    below (UnaryOP self opc) (UnaryOP self' opc)"
  unfolding UnaryOP_def seq.simps by (intro deep) simp_all

lemma array_literal_deeper [deep]: "(\<And>g. below (self g) (self' g)) \<Longrightarrow> n \<le> n' \<Longrightarrow>
    below (array_literal sd self n) (array_literal sd self' n')"
  unfolding array_literal_def seq.simps by (intro deep) simp_all

lemma ClassExp_deeper [deep]: "(\<And>g. below (self g) (self' g)) \<Longrightarrow>
    below (ClassExp sd self) (ClassExp sd self')"
  unfolding ClassExp_def seq.simps by (intro deep) simp_all

lemma FunctionExp_deeper [deep]: "(\<And>g. below (self g) (self' g)) \<Longrightarrow> n \<le> n' \<Longrightarrow>
    below (FunctionExp sd self n ftype lambda) (FunctionExp sd self' n' ftype lambda)"
  unfolding FunctionExp_def seq.simps by (intro deep) simp_all

lemma operand_place_deeper [deep]: "(\<And>g. below (self g) (self' g)) \<Longrightarrow> (\<And>e. below (f e) (f' e)) \<Longrightarrow>
    below (operand_place sd self f) (operand_place sd self' f')"
  unfolding operand_place_def seq.simps by (intro deep) simp_all

lemma DeleteExpr_deeper [deep]: "(\<And>g. below (self g) (self' g)) \<Longrightarrow>
    below (DeleteExpr sd self) (DeleteExpr sd self')"
  unfolding DeleteExpr_def seq.simps by (intro deep) simp_all

lemma PrefixIncDec_deeper [deep]: "(\<And>g. below (self g) (self' g)) \<Longrightarrow>
    below (PrefixIncDec sd self token) (PrefixIncDec sd self' token)"
  unfolding PrefixIncDec_def seq.simps Let_def by (intro deep) simp_all

lemma negative_deeper [deep]: "(\<And>g. below (self g) (self' g)) \<Longrightarrow>
    below (negative sd self) (negative sd self')"
  unfolding negative_def seq.simps by (intro deep) simp_all

lemma Factor_deeper [deep]: "(\<And>g. below (self g) (self' g)) \<Longrightarrow> n \<le> n' \<Longrightarrow>
    below (Factor sd self n) (Factor sd self' n')"
  unfolding Factor_def seq.simps by (intro deep) simp_all

lemma FunctionCallArgs_deeper [deep]: "(\<And>g. below (self g) (self' g)) \<Longrightarrow> n \<le> n' \<Longrightarrow>
    below (FunctionCallArgs sd self n) (FunctionCallArgs sd self' n')"
  unfolding FunctionCallArgs_def seq.simps by (intro deep) simp_all

lemma prefixed_round_deeper [deep]: "(\<And>g. below (self g) (self' g)) \<Longrightarrow> n \<le> n' \<Longrightarrow>
    below (prefixed_round sd self n) (prefixed_round sd self' n')"
  unfolding prefixed_round_def seq.simps by (intro deep) simp_all

lemma PrefixedExpr_deeper [deep]: "(\<And>g. below (self g) (self' g)) \<Longrightarrow> n \<le> n' \<Longrightarrow>
    below (PrefixedExpr sd self n) (PrefixedExpr sd self' n')"
  unfolding PrefixedExpr_def seq.simps by (intro deep) simp_all

lemma MultExp_deeper [deep]: "(\<And>g. below (self g) (self' g)) \<Longrightarrow> n \<le> n' \<Longrightarrow>
    below (MultExp sd self n) (MultExp sd self' n')"
  unfolding MultExp_def seq.simps by (intro deep) simp_all

lemma PlusExp_deeper [deep]: "(\<And>g. below (self g) (self' g)) \<Longrightarrow> n \<le> n' \<Longrightarrow>
    below (PlusExp sd self n) (PlusExp sd self' n')"
  unfolding PlusExp_def seq.simps by (intro deep) simp_all

lemma ShiftExp_deeper [deep]: "(\<And>g. below (self g) (self' g)) \<Longrightarrow> n \<le> n' \<Longrightarrow>
    below (ShiftExp sd self n) (ShiftExp sd self' n')"
  unfolding ShiftExp_def seq.simps by (intro deep) simp_all

lemma CompExp_deeper [deep]: "(\<And>g. below (self g) (self' g)) \<Longrightarrow> n \<le> n' \<Longrightarrow>
    below (CompExp sd self n) (CompExp sd self' n')"
  unfolding CompExp_def seq.simps by (intro deep) simp_all

lemma EqExp_deeper [deep]: "(\<And>g. below (self g) (self' g)) \<Longrightarrow> n \<le> n' \<Longrightarrow>
    below (EqExp sd self n) (EqExp sd self' n')"
  unfolding EqExp_def seq.simps by (intro deep) simp_all

lemma BitwiseAndExp_deeper [deep]: "(\<And>g. below (self g) (self' g)) \<Longrightarrow> n \<le> n' \<Longrightarrow>
    below (BitwiseAndExp sd self n) (BitwiseAndExp sd self' n')"
  unfolding BitwiseAndExp_def seq.simps by (intro deep) simp_all

lemma BitwiseXorExp_deeper [deep]: "(\<And>g. below (self g) (self' g)) \<Longrightarrow> n \<le> n' \<Longrightarrow>
    below (BitwiseXorExp sd self n) (BitwiseXorExp sd self' n')"
  unfolding BitwiseXorExp_def seq.simps by (intro deep) simp_all

lemma BitwiseOrExp_deeper [deep]: "(\<And>g. below (self g) (self' g)) \<Longrightarrow> n \<le> n' \<Longrightarrow>
    below (BitwiseOrExp sd self n) (BitwiseOrExp sd self' n')"
  unfolding BitwiseOrExp_def seq.simps by (intro deep) simp_all

lemma LogicalAndExp_deeper [deep]: "(\<And>g. below (self g) (self' g)) \<Longrightarrow> n \<le> n' \<Longrightarrow>
    below (LogicalAndExp sd self n) (LogicalAndExp sd self' n')"
  unfolding LogicalAndExp_def seq.simps by (intro deep) simp_all

lemma LogicalOrExp_deeper [deep]: "(\<And>g. below (self g) (self' g)) \<Longrightarrow> n \<le> n' \<Longrightarrow>
    below (LogicalOrExp sd self n) (LogicalOrExp sd self' n')"
  unfolding LogicalOrExp_def seq.simps by (intro deep) simp_all

lemma assignment_deeper [deep]: "(\<And>g. below (self g) (self' g)) \<Longrightarrow>
    below (assignment sd self opt) (assignment sd self' opt)"
  unfolding assignment_def seq.simps by (intro deep) simp_all

lemma conditional_deeper [deep]: "(\<And>g. below (self g) (self' g)) \<Longrightarrow>
    below (conditional sd self) (conditional sd self')"
  unfolding conditional_def seq.simps by (intro deep) simp_all

lemma Expression_deeper [deep]: "(\<And>g. below (self g) (self' g)) \<Longrightarrow> n \<le> n' \<Longrightarrow>
    below (Expression sd self n) (Expression sd self' n')"
  unfolding Expression_def seq.simps by (intro deep) simp_all

lemma member_prefix_deeper [deep]: "(\<And>g. below (self g) (self' g)) \<Longrightarrow>
    below (member_prefix sd self separator) (member_prefix sd self' separator)"
  unfolding member_prefix_def seq.simps by (intro deep) simp_all

lemma member_deeper [deep]: "(\<And>g. below (self g) (self' g)) \<Longrightarrow> n \<le> n' \<Longrightarrow>
    below (member sd self n separator isstatic) (member sd self' n' separator isstatic)"
  unfolding member_def seq.simps by (intro deep) simp_all

lemma table_member_deeper [deep]: "(\<And>g. below (self g) (self' g)) \<Longrightarrow> n \<le> n' \<Longrightarrow>
    below (table_member sd self n separator terminator nkeys) (table_member sd self' n' separator terminator nkeys)"
  unfolding table_member_def seq.simps by (intro deep) simp_all

lemma ParseTableOrClass_deeper [deep]: "(\<And>g. below (self g) (self' g)) \<Longrightarrow> n \<le> n' \<Longrightarrow>
    below (ParseTableOrClass sd self n separator terminator) (ParseTableOrClass sd self' n' separator terminator)"
  unfolding ParseTableOrClass_def seq.simps by (intro deep) simp_all

lemma condition_deeper [deep]: "(\<And>g. below (self g) (self' g)) \<Longrightarrow>
    below (condition sd self) (condition sd self')"
  unfolding condition_def seq.simps by (intro deep) simp_all

lemma IfStatement_deeper [deep]: "(\<And>g. below (self g) (self' g)) \<Longrightarrow>
    below (IfStatement sd self) (IfStatement sd self')"
  unfolding IfStatement_def seq.simps by (intro deep) simp_all

lemma WhileStatement_deeper [deep]: "(\<And>g. below (self g) (self' g)) \<Longrightarrow>
    below (WhileStatement sd self) (WhileStatement sd self')"
  unfolding WhileStatement_def seq.simps by (intro deep) simp_all

lemma DoWhileStatement_deeper [deep]: "(\<And>g. below (self g) (self' g)) \<Longrightarrow>
    below (DoWhileStatement sd self) (DoWhileStatement sd self')"
  unfolding DoWhileStatement_def seq.simps by (intro deep) simp_all

lemma ForStatement_deeper [deep]: "(\<And>g. below (self g) (self' g)) \<Longrightarrow> n \<le> n' \<Longrightarrow>
    below (ForStatement sd self n) (ForStatement sd self' n')"
  unfolding ForStatement_def seq.simps by (intro deep) simp_all

lemma ForEachStatement_deeper [deep]: "(\<And>g. below (self g) (self' g)) \<Longrightarrow>
    below (ForEachStatement sd self) (ForEachStatement sd self')"
  unfolding ForEachStatement_def seq.simps by (intro deep) simp_all

lemma switch_case_deeper [deep]: "(\<And>g. below (self g) (self' g)) \<Longrightarrow>
    below (switch_case sd self expr ps) (switch_case sd self' expr ps)"
  unfolding switch_case_def seq.simps by (cases ps, simp only: prod.case, intro deep) simp_all

lemma SwitchStatement_deeper [deep]: "(\<And>g. below (self g) (self' g)) \<Longrightarrow> n \<le> n' \<Longrightarrow>
    below (SwitchStatement sd self n) (SwitchStatement sd self' n')"
  unfolding SwitchStatement_def seq.simps by (intro deep) simp_all

lemma FunctionStatement_deeper [deep]: "(\<And>g. below (self g) (self' g)) \<Longrightarrow> n \<le> n' \<Longrightarrow>
    below (FunctionStatement sd self n) (FunctionStatement sd self' n')"
  unfolding FunctionStatement_def seq.simps by (intro deep) simp_all

lemma ClassStatement_deeper [deep]: "(\<And>g. below (self g) (self' g)) \<Longrightarrow>
    below (ClassStatement sd self) (ClassStatement sd self')"
  unfolding ClassStatement_def seq.simps by (intro deep) simp_all

lemma EnumStatement_deeper [deep]: "n \<le> n' \<Longrightarrow>
    below (EnumStatement sd n) (EnumStatement sd n')"
  unfolding EnumStatement_def seq.simps by (intro deep) simp_all

lemma TryCatchStatement_deeper [deep]: "(\<And>g. below (self g) (self' g)) \<Longrightarrow>
    below (TryCatchStatement sd self) (TryCatchStatement sd self')"
  unfolding TryCatchStatement_def seq.simps by (intro deep) simp_all

lemma ReturnStatement_deeper [deep]: "(\<And>g. below (self g) (self' g)) \<Longrightarrow>
    below (ReturnStatement sd self opc) (ReturnStatement sd self' opc)"
  unfolding ReturnStatement_def seq.simps Let_def by (intro deep) simp_all

lemma BlockStatement_deeper [deep]: "(\<And>g. below (self g) (self' g)) \<Longrightarrow>
    below (BlockStatement sd self closeframe) (BlockStatement sd self' closeframe)"
  unfolding BlockStatement_def seq.simps by (intro deep) simp_all

lemma UsingStatement_deeper [deep]: "n \<le> n' \<Longrightarrow>
    below (UsingStatement sd n) (UsingStatement sd n')"
  unfolding UsingStatement_def seq.simps by (intro deep) simp_all

lemma NamespaceStatement_deeper [deep]: "(\<And>g. below (self g) (self' g)) \<Longrightarrow>
    below (NamespaceStatement sd self) (NamespaceStatement sd self')"
  unfolding NamespaceStatement_def seq.simps by (intro deep) simp_all

lemma Statement_deeper [deep]: "(\<And>g. below (self g) (self' g)) \<Longrightarrow> n \<le> n' \<Longrightarrow>
    below (Statement sd self n closeframe) (Statement sd self' n' closeframe)"
  unfolding Statement_def seq.simps by (intro deep) simp_all

lemma statement_and_end_deeper [deep]: "below f f' \<Longrightarrow> below (statement_and_end sd f) (statement_and_end sd f')"
  unfolding statement_and_end_def seq.simps by (intro deep)

lemma Statements_deeper [deep]: "(\<And>g. below (self g) (self' g)) \<Longrightarrow> n \<le> n' \<Longrightarrow>
    below (Statements sd self n) (Statements sd self' n')"
  unfolding Statements_def seq.simps by (intro deep) simp_all

lemma parse_deeper [deep]: "n \<le> n' \<Longrightarrow> below (parse sd n g) (parse sd n' g)"
proof (induction n arbitrary: n' g)
  case (Suc n)
  then obtain k where k: "n' = Suc k" "n \<le> k" by (cases n') simp_all
  have s: "below (parse sd n g) (parse sd k g)" for g by (rule Suc.IH [OF k(2)])
  show ?case unfolding k(1)
    by (cases g; simp only: parse.simps goal.case)
      (use s k(2) in \<open>intro deep; simp\<close>)+
qed (simp add: below_no_fuel)

lemma compile_script_deeper: "n \<le> n' \<Longrightarrow> below (compile_script sd n) (compile_script sd n')"
  unfolding compile_script_def seq.simps by (intro deep) simp_all

section \<open>The whole compiler\<close>

lemma lex_start:
  assumes "keywords_ok (lx_keywords (cp_lex c))"
  shows "lex sd c \<noteq> NoFuel" and "lex sd c = Ok (x, c') \<Longrightarrow> good c' \<and> weight c' < 2 * left (cp_lex c) + 1"
proof -
  let ?c = "c\<lparr>cp_token := 1\<rparr>"
  have g: "good ?c" "weight ?c < 2 * left (cp_lex c) + 2" using assms by (simp_all add: good_def weight_def)
  have e: "lex sd ?c = lex sd c" by (simp add: lex_def)
  have r: "ends (2 * left (cp_lex c) + 2) ((=) 1) (\<lambda>_. True) (lex sd)" by (rule lex_ends(2)) simp
  from r have "good ?c \<and> weight ?c < 2 * left (cp_lex c) + 2 \<and> 1 = cp_token ?c \<longrightarrow> lex sd ?c \<noteq> NoFuel \<and>
      (\<forall>x c'. lex sd ?c = Ok (x, c') \<longrightarrow> good c' \<and> weight c' \<le> weight ?c \<and> (True \<longrightarrow> weight c' < weight ?c))"
    unfolding ends_def by (rule spec)
  then have f: "lex sd c \<noteq> NoFuel" "lex sd c = Ok (x, c') \<Longrightarrow> good c' \<and> weight c' < weight ?c" using g by (simp_all add: e)
  show "lex sd c \<noteq> NoFuel" by (rule f)
  show "good c' \<and> weight c' < 2 * left (cp_lex c) + 1" if "lex sd c = Ok (x, c')"
    using f(2) [OF that] by (simp add: weight_def)
qed

lemma neutral_main: "neutral main_state"
  unfolding main_state_def by (intro neutral_intros neutral_simple neutral_return)

text \<open>The first token is read from a state of its own.\<close>

lemma start_ends:
  assumes "keywords_ok (lx_keywords (cp_lex c))" "keeps_on (2 * left (cp_lex c) + 1) m"
  shows "thn (lex sd) m c \<noteq> NoFuel"
proof (cases "lex sd c")
  case (Ok r)
  obtain x c1 where r: "r = (x, c1)" by (cases r)
  have "good c1 \<and> weight c1 < 2 * left (cp_lex c) + 1" using lex_start(2) [OF assms(1)] Ok r by blast
  then have "m c1 \<noteq> NoFuel" using assms(2) unfolding ends_def by blast
  then show ?thesis using Ok r by (simp add: thn_def bnd_def)
qed (use lex_start(1) [OF assms(1)] in \<open>simp_all add: thn_def bnd_def\<close>)

lemma compile_script_ends:
  assumes "keywords_ok (lx_keywords (cp_lex c))" "8 * left (cp_lex c) + 6 \<le> n"
  shows "compile_script sd n c \<noteq> NoFuel"
proof -
  let ?k = "2 * left (cp_lex c) + 1"
  have "reads_on ?k (parse sd n (GStatement True))" using parse_ends [of ?k "GStatement True" n sd] assms(2) by simp
  then have "reads_on ?k (statement_and_end sd (parse sd n (GStatement True)))"
    unfolding statement_and_end_def seq.simps by (rule ends_thn_less) (auto intro!: ends_calc)
  then have w: "keeps_on ?k (while_token n (\<lambda>t. t > 0) (statement_and_end sd (parse sd n (GStatement True))))"
    by (intro while_token_ends) (use assms(2) in \<open>auto intro: ends_any\<close>)
  define rest where "rest size = thn (while_token n (\<lambda>t. t > 0) (statement_and_end sd (parse sd n (GStatement True))))
      (thn (change_fs (SetStackSize (nat size))) (thn (bnd (reads (lx_currentline \<circ> cp_lex)) (\<lambda>line. AddLines line True))
      (thn (emit OP_RETURN 0xFF 0 0 0) (thn (change_fs (SetStackSize 0)) (thn (return ())
        (on_fs (\<lambda>_ fs. obind (BuildProto fs) (\<lambda>func. Done (func, fs)))))))))" for size
  have rest: "keeps_on ?k (rest size)" for size
    unfolding rest_def by (rule ends_thn [OF w], intro ends_calc neutral_keeps) (simp_all add: neutral_ends)
  have "bnd stack_size (\<lambda>size. thn (lex sd) (rest size)) c1 \<noteq> NoFuel" if "cp_lex c1 = cp_lex c" for c1
  proof (cases "stack_size c1")
    case (Ok r)
    obtain size c2 where r: "r = (size, c2)" by fastforce
    have l: "cp_lex c2 = cp_lex c" using Ok r that neutral_simple(6) unfolding neutral_def by metis
    have "thn (lex sd) (rest size) c2 \<noteq> NoFuel" by (rule start_ends) (simp_all only: l assms(1) rest)
    then show ?thesis using Ok r by (simp add: bnd_def)
  qed (use neutral_simple(6) in \<open>auto simp: bnd_def neutral_def\<close>)
  moreover have "compile_script sd n = thn main_state (bnd stack_size (\<lambda>size. thn (lex sd) (rest size)))"
    unfolding compile_script_def seq.simps thn_assoc rest_def ..
  ultimately show ?thesis
    using neutral_main by (cases "main_state c") (auto simp: thn_def bnd_def neutral_def)
qed

text \<open>
  C40. The compiler ends on every source: whatever the characters are, and whatever the machine has
  as named constants, eight times the length of the source plus six bounds the depth of the calls
  and the rounds of every loop, and a larger bound gives the same result: a function, an error, or
  one of the reads below the stack of targets that the code does not guard.
\<close>

theorem compiler_ends:
  assumes "lex_init rg curtoken = Done lexer"
  shows "\<exists>r. r \<noteq> NoFuel \<and>
    (\<forall>n\<ge>8 * length rg + 6. Compile sd n (comp_init lexer sourcename lineinfo consts tables a) = r)"
proof -
  let ?c = "comp_init lexer sourcename lineinfo consts tables a" and ?n = "8 * length rg + 6"
  note l = lex_init_state [OF assms]
  have k: "keywords_ok (lx_keywords (cp_lex ?c))" "8 * left (cp_lex ?c) + 6 \<le> ?n" using l by (simp_all add: comp_init_def)
  have e: "Compile sd ?n ?c \<noteq> NoFuel" unfolding Compile_def by (rule compile_script_ends [OF k])
  moreover have "Compile sd n ?c = Compile sd ?n ?c" if "?n \<le> n" for n
    using compile_script_deeper [OF that, of sd] e unfolding Compile_def below_def by metis
  ultimately show ?thesis by blast
qed

theorem compiler_ends_witness:
  "\<exists>lexer r. lex_init (map chr ''x <- 1;'') 0 = Done lexer \<and> r \<noteq> NoFuel \<and>
    (\<forall>n\<ge>62. Compile (\<lambda>_. 0) n (comp_init lexer ''main'' True (SQTable_new 0) Map.empty 1) = r)"
proof -
  have "EOB \<notin> set ''x <- 1;''" by code_simp
  then obtain lexer where l: "lex_init (map chr ''x <- 1;'') 0 = Done lexer" by (rule lex_init_rest)
  have n: "8 * length (map chr ''x <- 1;'') + 6 = 62" by simp
  show ?thesis using l compiler_ends [OF l, of "\<lambda>_. 0" "''main''" True "SQTable_new 0" Map.empty 1, unfolded n] by blast
qed

end
