(* ===== verification/Spec2Isabelle.thy ===== *)
theory Spec2Isabelle
  imports Prelude Objects TableOps TableProps Vectors Arrays StringTable RefTable SharedState Links Opcodes FuncState
    Peephole FuncStateProps Blob ClosureStreamProps GcProps ClassProps LexerProps
    FrameProps CallProps AccessProps ValueProps OrderProps IterationProps
    SortProps NativeProps ApiProps CompilerDepth
begin

text \<open>
  \<^bold>\<open>What is verified.\<close>  A model of the Squirrel virtual machine as it is in this repository, a dialect
  of Squirrel 3 with static type names, namespaces and a native code generator
  (\<^verbatim>\<open>src/SQUIRREL3\<close>): its data structures, its compiler from the characters of a source to the
  bytecode, the parts of its interpreter, its garbage collector, its embedding interface, the
  functions it gives to scripts, the blobs of its standard library and the format of compiled
  functions, with the theorems that make them correct.

  \<^bold>\<open>The program and its parts.\<close>  A source goes through the lexical analyser (\<^verbatim>\<open>sqlexer.cpp\<close>), which
  the compiler (\<^verbatim>\<open>sqcompiler.cpp\<close>) asks for one token at a time.  The compiler is a recursive descent
  parser that emits instructions while it parses, through one function state per nested function
  (\<^verbatim>\<open>sqfuncstate.cpp\<close>): it gives registers to locals and temporaries, resolves names to locals,
  captured variables, named constants or slots, keeps the literals, and fuses instructions as they
  are added.  A finished function state becomes a function prototype, which can be saved and loaded
  (\<^verbatim>\<open>sqobject.cpp\<close>).  The virtual machine (\<^verbatim>\<open>sqvm.cpp\<close>) executes prototypes on a stack of frames; its
  values are tagged words (\<^verbatim>\<open>sqobject.h\<close>) that name strings (interned in \<^verbatim>\<open>sqstate.cpp\<close>), tables, arrays,
  classes, instances, closures, generators and weak references.  The embedding program works on the
  stack of the machine through \<^verbatim>\<open>sqapi.cpp\<close>, and the functions that scripts call on values
  (\<^verbatim>\<open>sqbaselib.cpp\<close>) do the same.

  \<^bold>\<open>How it is modelled.\<close>  A struct is a record with the fields of the source, a tagged union a datatype,
  an enumeration a datatype or the integer constants of the source, an integer of the machine a word
  of its width (\<open>sqint\<close> has 64 bits), a float the bit pattern of an IEEE single.  A pointer is an
  address into a map, or an index where the source has an array of nodes; an operation takes the
  state and returns it updated.  How an operation ends is a value: \<open>outcome\<close> (theory \<open>Outcomes\<close>) is a
  result, an error message that the code throws, or something C++ does not define, such as an access
  outside of a buffer; \<open>None\<close> says the same of the operations that cannot throw, and the compiler's
  \<open>result\<close> adds the bound of its depth.  So every access that the theorems say is in bounds is one that
  the model would show as undefined.  Loops are structural recursions, functions with a measure, or
  run on a number of rounds with a theorem that enough rounds are given.

  \<^bold>\<open>Assumed of the build.\<close>  \<^verbatim>\<open>_SQ64\<close>, characters of 8 bits, \<^verbatim>\<open>SQFloat\<close> a \<^verbatim>\<open>float\<close>, the garbage collector on, no
  native code.  Addresses are natural numbers that an allocation takes in order, the hash of a string
  is that of \<^verbatim>\<open>sqstring.h\<close>, the hash of an address is a function of the address.  What is not under
  the source tree is an argument: the conversion of the text of a float (\<^verbatim>\<open>strtod\<close>), the functions that
  write and read a stream, the metamethods and native functions that operations call.

  \<^bold>\<open>Theories, from the ground up.\<close>

  \<^item> \<open>Prelude\<close>: the widths of \<^verbatim>\<open>squirrel.h\<close>, lemmas on lists, options and words, the collections of rules
    that the component proofs share.  \<open>Interfaces\<close>: the locales of a store of slots,
    of a dictionary and of a growable sequence, interpreted on \<open>Tables\<close> and \<open>Vectors\<close>; those of a sink and a
    source of bytes are in \<open>Channels\<close> (interpreted on the blob), those of a comparison and of a run of the
    sort in \<open>Sorting\<close> and \<open>SortProps\<close> (interpreted on the sort of an array of values).
  \<^item> \<open>Objects\<close>: values, type tags and names, hashes, the translation of indices (\<^verbatim>\<open>sqobject.h\<close>,
    \<^verbatim>\<open>sqstring.h\<close>, \<^verbatim>\<open>squirrel.h\<close>).
  \<^item> \<open>Tables\<close>, \<open>TableCorrect\<close>, \<open>TableOps\<close>, \<open>TableProps\<close>: the hash table of \<^verbatim>\<open>sqtable.cpp\<close> with its array of
    nodes, chained by index, and its free pointer.  The invariant (every node on the chain of its main
    position, no key twice, no null key) is kept by every operation, \<open>NewSlot\<close> with its displacement of a
    colliding node and \<open>Rehash\<close> included, and the operations are those of a partial map.
  \<^item> \<open>Vectors\<close>, \<open>Arrays\<close>: \<^verbatim>\<open>sqvector\<close> with its capacity and growth, and the script array on it, a
    refinement of the list operations.
  \<^item> \<open>StringTable\<close>, \<open>RefTable\<close>, \<open>SharedState\<close>: the tables of the shared state in \<^verbatim>\<open>sqstate.cpp\<close>; interned
    strings, the references the embedding program holds, metamethod numbers and type masks.
  \<^item> \<open>Links\<close>: delegates, weak references and the doubly linked chain of collectable objects.
  \<^item> \<open>Opcodes\<close>, \<open>FuncState\<close>, \<open>FuncStateProps\<close>, \<open>Peephole\<close>: instructions and the function state of the
    compiler: targets, locals, captured variables, literals, the optimizer of \<open>AddInstruction\<close> and
    \<open>BuildProto\<close>.  A captured name is the newest local of its name in the innermost function that
    has one, by a specification of its own (\<open>newest_local\<close>, \<open>resolve\<close>).  \<open>Peephole\<close> executes
    instructions as \<^verbatim>\<open>SQVM::Execute\<close> does, runs code with its jumps (\<open>runs\<close>), and shows that the code with
    fused instructions has the runs of the code as the compiler asked for it, up to the temporaries
    that fused pairs do not write and never a local.  This covers the pairs of \<open>emitted\<close>.  For three kinds of pairs
    the compiler emits it is false, and the theorems at the end of \<open>Peephole\<close> show how: a jump on register 0, a jump
    on another register than that of the comparison before it, and a move of the register of a local.  A return behind
    a closing of captured variables is in \<open>CallProps\<close>; that behind a call, which becomes a tail call, is not covered.
  \<^item> \<open>Channels\<close>, \<open>Blob\<close>, \<open>ClosureStream\<close>, \<open>ClosureStreamProps\<close>: \<^verbatim>\<open>sqstdblob\<close> as a file of bytes with a position (a
    growing resize only allocates and leaves the length, other than the documentation says:
    \<open>growing_resize_keeps_length\<close>), and saving and loading of functions over any stream.
  \<^item> \<open>Gc\<close>, \<open>GcProps\<close>: the mark phase and \<open>ResurrectUnreachable\<close>; marking is reachability, from the root
    objects of the shared state through what the fields of each kind of object hold (\<open>gc_roots\<close>, \<open>holds\<close>, which do not
    refer to what the code marks).
  \<^item> \<open>Classes\<close>, \<open>ClassProps\<close>: \<^verbatim>\<open>sqclass.cpp\<close>; that no member number is out of range in any reachable heap.
  \<^item> \<open>Lexer\<close>, \<open>Lexing\<close>, \<open>LexerProps\<close>: \<^verbatim>\<open>sqlexer.cpp\<close>; every call reads on, literals are read back.
  \<^item> \<open>Compiler\<close>, \<open>Parser\<close>, \<open>Statements\<close>: \<^verbatim>\<open>sqcompiler.cpp\<close>, one definition per method under its name; the
    state \<open>comp\<close> is the class \<^verbatim>\<open>SQCompiler\<close> with the chain of function states.  The methods call each
    other in cycles; these calls go through \<open>self\<close>, and \<open>parse\<close> ties the knot with a bound on the depth.
    \<open>CompilerEnds\<close>, \<open>CompilerProps\<close>, \<open>CompilerDepth\<close>: what is left of the source decreases in every
    round and along every cycle of calls, so that the compiler returns on every source.
  \<^item> \<open>Frames\<close>, \<open>Calls\<close>, \<open>FrameProps\<close>, \<open>CallProps\<close>: the stack, frames, captured variables, calls, tail calls,
    generators and the unwinding of errors in \<^verbatim>\<open>sqvm.cpp\<close>.
  \<^item> \<open>Access\<close>, \<open>AccessProps\<close>: reading, writing, creating and deleting slots of any value, through
    delegates, default delegates and metamethods.
  \<^item> \<open>Floats\<close>, \<open>Values\<close>, \<open>ValueProps\<close>, \<open>OrderProps\<close>: the operators of \<^verbatim>\<open>sqvm.cpp\<close>; arithmetic on words and
    single floats, bits, comparison, texts.
  \<^item> \<open>Iteration\<close>, \<open>IterationProps\<close>: \<^verbatim>\<open>foreach\<close> over every type.
  \<^item> \<open>Api\<close>, \<open>ApiProps\<close>: functions of \<^verbatim>\<open>sqapi.cpp\<close> on the stack of a caller; \<open>contract\<close> says of nine of
    them, case by case, what they return and leave on that stack.  \<open>Natives\<close>, \<open>Sorting\<close>,
    \<open>SortProps\<close>, \<open>NativeProps\<close>: functions of \<^verbatim>\<open>sqbaselib.cpp\<close> on values, with the heap sort of arrays.

  \<^bold>\<open>What the theorems show.\<close>  Refinement: tables are maps, arrays are lists, blobs are files, the
  reference table counts.  Invariants: tables, interned strings, chains of delegates, weak references,
  captured variables, the literal pool.  Safety: no access out of range in classes and instances, the
  stack after a call and after each function of the interface.  Round trips: functions through a
  stream, literals through the lexer, integers through their text, generators through a yield.
  Equivalence: the optimizer.  Termination: the lexer and the compiler return on every source, the
  mark phase, the sort with any comparison.  Bounds: registers fit their byte, integers wrap at 64
  bits, sums of floats are exact when they fit.  Errors: a truncated function is refused, an error
  reaches the innermost handler.

  \<^bold>\<open>Bounds and fuel.\<close>  The rehash of a table calls itself at most once; \<open>Mark\<close> needs one more than the
  number of unmarked objects; \<open>parse\<close> needs a depth of eight times the length of the source plus
  six, four for each unit of what is left and three for the calls that pass no token.  The walks
  along delegates and bases are bounded by the number of tables and classes, which the invariants show
  to be enough; metamethods may call themselves without end, and the model gives these an explicit
  depth whose exhaustion counts as undefined, as the overflow of the stack of the processor is.

  \<^bold>\<open>Not modelled.\<close>  Native code generation and static analysis (\<^verbatim>\<open>sq_llvm.cpp\<close>,
  \<^verbatim>\<open>sqstaticanalyser.cpp\<close>, \<^verbatim>\<open>sqreflection.cpp\<close>): they drive the LLVM library, which is not part of the
  repository; with them the syntax tree that the compiler builds beside the code.  Reference counting
  of single values and the release of memory, except where a table or chain is kept by it; the sweep
  of the collector; threads (\<^verbatim>\<open>sq_newthread\<close>, \<^verbatim>\<open>sq_wakeupvm\<close>; a world has the flag of a
  suspended machine, which a called function may set), closures of native functions and the
  settings of the machine in \<^verbatim>\<open>sqapi.cpp\<close>; the dispatch of the interpreter as a whole, whose
  instructions are modelled in the components they belong to; the debugging interface and the
  allocator.  Of the standard library, files, streams, mathematics and system calls forward to the C
  library; the regular expressions and the formatting of strings are left out.  The graphical
  environment (\<^verbatim>\<open>src/IDE\<close>) is a binding.
\<close>

end
